(* ===== verification/Prelude.thy ===== *)
theory Prelude
  imports Main "HOL-Library.Sublist" "HOL-Library.Word" "HOL-Library.Multiset"
begin

section \<open>Shared collections and generic lemmas\<close>

text \<open>
  What every component of the development shares: the named collections of simplification
  rules, the result type of fallible code (\<open>Inl\<close> carries the error, as the \<open>Err\<close> of the
  Rust sources does), and the facts on lists, options and machine words that several
  component proofs need.
\<close>

named_theorems str_simps \<open>rules on byte strings\<close>
named_theorems msg_simps \<open>rules on messages and their content\<close>
named_theorems fix_simps \<open>rules on the conversation repair passes\<close>
named_theorems fs_simps \<open>rules on the telemetry directory\<close>

type_synonym u8 = "8 word"
type_synonym u16 = "16 word"
type_synonym u32 = "32 word"
type_synonym u64 = "64 word"
type_synonym i32 = "32 word"

subsection \<open>Results\<close>

definition is_ok :: "'e + 'a \<Rightarrow> bool" where
  "is_ok r = (case r of Inl _ \<Rightarrow> False | Inr _ \<Rightarrow> True)"

lemma is_ok_simps [simp]: "is_ok (Inr x)" "\<not> is_ok (Inl e)"
  by (simp_all add: is_ok_def)

definition ok :: "'e + 'a \<Rightarrow> 'a option" where
  "ok r = (case r of Inl _ \<Rightarrow> None | Inr x \<Rightarrow> Some x)"

lemma ok_simps [simp]: "ok (Inr x) = Some x" "ok (Inl e) = None"
  by (simp_all add: ok_def)

subsection \<open>Lists\<close>

text \<open>Rust's \<open>Vec::last\<close> and \<open>slice::first\<close>: no value on an empty list.\<close>

definition last_opt :: "'a list \<Rightarrow> 'a option" where
  "last_opt xs = (if xs = [] then None else Some (last xs))"

definition first_opt :: "'a list \<Rightarrow> 'a option" where
  "first_opt xs = (case xs of [] \<Rightarrow> None | x # _ \<Rightarrow> Some x)"

lemma last_opt_simps [simp]:
  "last_opt [] = None" "last_opt (xs @ [x]) = Some x" "last_opt [x] = Some x"
  by (simp_all add: last_opt_def)

lemma last_opt_eq_None [simp]: "last_opt xs = None \<longleftrightarrow> xs = []"
  by (simp add: last_opt_def)

lemma last_opt_eq_Some: "last_opt xs = Some x \<longleftrightarrow> (\<exists>ys. xs = ys @ [x])"
  by (cases xs rule: rev_cases) (auto simp: last_opt_def)

lemma first_opt_simps [simp]: "first_opt [] = None" "first_opt (x # xs) = Some x"
  by (simp_all add: first_opt_def)

text \<open>\<open>Vec::get\<close>: an index out of range has no value.\<close>

definition get_opt :: "'a list \<Rightarrow> nat \<Rightarrow> 'a option" where
  "get_opt xs i = (if i < length xs then Some (xs ! i) else None)"

text \<open>\<open>Iterator::rposition\<close>: the index of the last element that satisfies the predicate.\<close>

fun rposition :: "('a \<Rightarrow> bool) \<Rightarrow> 'a list \<Rightarrow> nat option" where
  "rposition P [] = None"
| "rposition P (x # xs) =
     (case rposition P xs of Some i \<Rightarrow> Some (Suc i) | None \<Rightarrow> if P x then Some 0 else None)"

lemma rposition_None_iff: "rposition P xs = None \<longleftrightarrow> (\<forall>x \<in> set xs. \<not> P x)"
  by (induction xs) (auto split: option.splits)

lemma rposition_SomeD:
  "rposition P xs = Some i \<Longrightarrow>
     i < length xs \<and> P (xs ! i) \<and> (\<forall>j. i < j \<longrightarrow> j < length xs \<longrightarrow> \<not> P (xs ! j))"
proof (induction xs arbitrary: i)
  case Nil
  then show ?case by simp
next
  case (Cons x xs)
  show ?case
  proof (cases "rposition P xs")
    case None
    with Cons.prems show ?thesis
      by (auto simp: rposition_None_iff nth_Cons split: if_splits nat.splits)
  next
    case (Some k)
    with Cons.prems Cons.IH [OF Some] show ?thesis
      by (auto simp: nth_Cons split: nat.splits)
  qed
qed

text \<open>\<open>Iterator::filter_map\<close>.\<close>

fun filter_map :: "('a \<Rightarrow> 'b option) \<Rightarrow> 'a list \<Rightarrow> 'b list" where
  "filter_map f [] = []"
| "filter_map f (x # xs) =
     (case f x of None \<Rightarrow> filter_map f xs | Some y \<Rightarrow> y # filter_map f xs)"

lemma filter_map_append [simp]: "filter_map f (xs @ ys) = filter_map f xs @ filter_map f ys"
  by (induction xs) (auto split: option.splits)

lemma set_filter_map: "set (filter_map f xs) = {y. \<exists>x \<in> set xs. f x = Some y}"
  by (induction xs) (auto split: option.splits)

lemma filter_map_id: "(\<And>x. x \<in> set xs \<Longrightarrow> f x = Some x) \<Longrightarrow> filter_map f xs = xs"
  by (induction xs) auto

lemma filter_map_concat: "filter_map f (concat xss) = concat (map (filter_map f) xss)"
  by (induction xss) auto

lemma filter_map_filter:
  "(\<And>x. x \<in> set xs \<Longrightarrow> \<not> P x \<Longrightarrow> f x = None) \<Longrightarrow>
     filter_map f (filter P xs) = filter_map f xs"
  by (induction xs) (auto split: option.splits)

text \<open>A pass that maps every element and collects what it reports, in order.\<close>

definition map_collect :: "('a \<Rightarrow> 'b \<times> 'c list) \<Rightarrow> 'a list \<Rightarrow> 'b list \<times> 'c list" where
  "map_collect f xs = (map (fst \<circ> f) xs, concat (map (snd \<circ> f) xs))"

lemma fst_map_collect [simp]: "fst (map_collect f xs) = map (fst \<circ> f) xs"
  and snd_map_collect [simp]: "snd (map_collect f xs) = concat (map (snd \<circ> f) xs)"
  by (simp_all add: map_collect_def)

text \<open>Separators, as \<open>[T]::join\<close> puts them.\<close>

fun join :: "'a list \<Rightarrow> 'a list list \<Rightarrow> 'a list" where
  "join sep [] = []"
| "join sep [x] = x"
| "join sep (x # y # ys) = x @ sep @ join sep (y # ys)"

lemma take_take_rev_suffix: "suffix (rev (take n (rev xs))) xs"
  by (simp add: rev_take suffix_drop)

lemma adjacent_snoc:
  "successively P (xs @ [x]) \<longleftrightarrow> successively P xs \<and> (xs = [] \<or> P (last xs) x)"
  by (auto simp: successively_append_iff)

subsection \<open>Machine words\<close>

definition saturating_inc :: "u32 \<Rightarrow> u32" where
  "saturating_inc w = (if w = - 1 then w else w + 1)"

lemma unat_saturating_inc: "unat (saturating_inc w) = min (unat w + 1) (2 ^ 32 - 1)"
proof (cases "w = - 1")
  case True
  then show ?thesis by (simp add: saturating_inc_def unsigned_minus_1_eq_mask mask_eq_exp_minus_1)
next
  case False
  then have "unat (w + 1) = unat w + 1"
    by (metis Suc_eq_plus1 add.commute max_word_wrap unatSuc)
  moreover have "unat (w + 1) < 2 ^ LENGTH(32)"
    by (rule unsigned_less)
  ultimately show ?thesis
    using False by (simp add: saturating_inc_def)
qed

lemma unat_wrapping_inc: "unat (w + 1 :: u32) = (unat w + 1) mod 2 ^ 32"
  by (simp add: unat_word_ariths)

end
