(* ===== verification/Rust_Str.thy ===== *)
theory Rust_Str
  imports Prelude
begin

section \<open>Byte strings with the operations of Rust's \<open>str\<close>\<close>

text \<open>
  A Rust \<open>str\<close> is a sequence of bytes that is valid UTF-8; it is modelled as a list of
  bytes (HOL's \<open>char\<close>), so that \<open>len\<close>, slicing and byte offsets are those of the code.
  The white space of \<open>str::trim\<close> is Unicode's White\_Space property, here as the table of
  its UTF-8 encodings.
\<close>

abbreviation NL :: char where "NL \<equiv> CHR 0x0A"
abbreviation CR :: char where "CR \<equiv> CHR 0x0D"
abbreviation TAB :: char where "TAB \<equiv> CHR 0x09"
abbreviation SPACE :: char where "SPACE \<equiv> CHR 0x20"

subsection \<open>Trimming\<close>

definition ws_seqs :: "string list" where
  "ws_seqs =
     [[CHR 0x20], [CHR 0x0A], [CHR 0x09], [CHR 0x0D], [CHR 0x0B], [CHR 0x0C],
      [CHR 0xC2, CHR 0x85], [CHR 0xC2, CHR 0xA0], [CHR 0xE1, CHR 0x9A, CHR 0x80],
      [CHR 0xE2, CHR 0x80, CHR 0x80], [CHR 0xE2, CHR 0x80, CHR 0x81],
      [CHR 0xE2, CHR 0x80, CHR 0x82], [CHR 0xE2, CHR 0x80, CHR 0x83],
      [CHR 0xE2, CHR 0x80, CHR 0x84], [CHR 0xE2, CHR 0x80, CHR 0x85],
      [CHR 0xE2, CHR 0x80, CHR 0x86], [CHR 0xE2, CHR 0x80, CHR 0x87],
      [CHR 0xE2, CHR 0x80, CHR 0x88], [CHR 0xE2, CHR 0x80, CHR 0x89],
      [CHR 0xE2, CHR 0x80, CHR 0x8A], [CHR 0xE2, CHR 0x80, CHR 0xA8],
      [CHR 0xE2, CHR 0x80, CHR 0xA9], [CHR 0xE2, CHR 0x80, CHR 0xAF],
      [CHR 0xE2, CHR 0x81, CHR 0x9F], [CHR 0xE3, CHR 0x80, CHR 0x80]]"

definition first_seq :: "string list \<Rightarrow> string \<Rightarrow> string option" where
  "first_seq ws s = List.find (\<lambda>w. w \<noteq> [] \<and> prefix w s) ws"

lemma first_seq_SomeD: "first_seq ws s = Some w \<Longrightarrow> w \<in> set ws \<and> w \<noteq> [] \<and> prefix w s"
  by (auto simp: first_seq_def find_Some_iff)

function strip_seqs :: "string list \<Rightarrow> string \<Rightarrow> string" where
  "strip_seqs ws s =
     (case first_seq ws s of None \<Rightarrow> s | Some w \<Rightarrow> strip_seqs ws (drop (length w) s))"
  by pat_completeness auto
termination
proof (relation "measure (\<lambda>(ws, s). length s)", goal_cases)
  case (2 ws s w)
  then have "w \<noteq> []" "prefix w s" by (auto dest: first_seq_SomeD)
  then show ?case by (cases s) auto
qed simp

declare strip_seqs.simps [simp del]

definition trim_start :: "string \<Rightarrow> string" where
  "trim_start s = strip_seqs ws_seqs s"

definition trim_end :: "string \<Rightarrow> string" where
  "trim_end s = rev (strip_seqs (map rev ws_seqs) (rev s))"

definition trim :: "string \<Rightarrow> string" where
  "trim s = trim_end (trim_start s)"

lemma suffix_strip_seqs: "suffix (strip_seqs ws s) s"
proof (induction ws s rule: strip_seqs.induct)
  case (1 ws s)
  show ?case
  proof (cases "first_seq ws s")
    case None
    then show ?thesis by (simp add: strip_seqs.simps)
  next
    case (Some w)
    with 1 have "suffix (strip_seqs ws (drop (length w) s)) (drop (length w) s)" by blast
    with Some show ?thesis
      by (metis (no_types, lifting) option.simps(5) strip_seqs.simps suffix_drop suffix_order.trans)
  qed
qed

lemma first_seq_strip_seqs: "first_seq ws (strip_seqs ws s) = None"
proof (induction ws s rule: strip_seqs.induct)
  case (1 ws s)
  then show ?case
    by (cases "first_seq ws s") (simp_all add: strip_seqs.simps [of ws s])
qed

lemma strip_seqs_idem [simp]: "strip_seqs ws (strip_seqs ws s) = strip_seqs ws s"
  by (subst strip_seqs.simps) (simp add: first_seq_strip_seqs)

lemma prefix_trim_end: "prefix (trim_end s) s"
  using suffix_strip_seqs [of "map rev ws_seqs" "rev s"]
  by (simp add: trim_end_def suffix_to_prefix)

lemma trim_end_idem [simp]: "trim_end (trim_end s) = trim_end s"
  by (simp add: trim_end_def)

lemma length_trim_end: "length (trim_end s) \<le> length s"
  by (simp add: prefix_length_le prefix_trim_end)

lemma trim_end_same_length: "length (trim_end s) = length s \<longleftrightarrow> trim_end s = s"
  by (metis append_eq_conv_conj order_refl prefix_def prefix_trim_end take_all)

lemma suffix_trim_start: "suffix (trim_start s) s"
  by (simp add: trim_start_def suffix_strip_seqs)

lemma strip_seqs_Nil [simp]: "strip_seqs ws [] = []"
  using suffix_strip_seqs [of ws "[]"] by simp

lemma trim_Nil [simp]: "trim_start [] = []" "trim_end [] = []" "trim [] = []"
  by (simp_all add: trim_def trim_start_def trim_end_def)

subsection \<open>Searching and splitting\<close>

definition starts_with :: "string \<Rightarrow> string \<Rightarrow> bool" where
  "starts_with s p = prefix p s"

fun str_find :: "string \<Rightarrow> string \<Rightarrow> nat option" where
  "str_find p [] = (if p = [] then Some 0 else None)"
| "str_find p (c # s) =
     (if prefix p (c # s) then Some 0 else map_option Suc (str_find p s))"

abbreviation find_char :: "char \<Rightarrow> string \<Rightarrow> nat option" where
  "find_char c s \<equiv> str_find [c] s"

definition rfind_char :: "char \<Rightarrow> string \<Rightarrow> nat option" where
  "rfind_char c s = rposition (\<lambda>x. x = c) s"

definition split_once :: "string \<Rightarrow> string \<Rightarrow> (string \<times> string) option" where
  "split_once p s =
     (case str_find p s of None \<Rightarrow> None | Some i \<Rightarrow> Some (take i s, drop (i + length p) s))"

fun split_char :: "char \<Rightarrow> string \<Rightarrow> string list" where
  "split_char d [] = [[]]"
| "split_char d (c # s) =
     (if c = d then [] # split_char d s
      else (case split_char d s of x # xs \<Rightarrow> (c # x) # xs | [] \<Rightarrow> [[c]]))"

lemma str_find_SomeD:
  "str_find p s = Some i \<Longrightarrow> s = take i s @ p @ drop (i + length p) s"
proof (induction p s arbitrary: i rule: str_find.induct)
  case (1 p)
  then show ?case by (simp split: if_splits)
next
  case (2 p c s)
  show ?case
  proof (cases "prefix p (c # s)")
    case True
    then obtain zs where "c # s = p @ zs" by (auto simp: prefix_def)
    moreover from "2.prems" True have "i = 0" by simp
    ultimately show ?thesis by (metis append_eq_conv_conj append_Nil plus_nat.add_0 take0)
  next
    case False
    with 2 obtain j where "str_find p s = Some j" "i = Suc j" by auto
    with 2 False show ?thesis by auto
  qed
qed

lemma str_find_Some_bound: "str_find p s = Some i \<Longrightarrow> i + length p \<le> length s"
  by (induction p s arbitrary: i rule: str_find.induct)
    (auto split: if_splits dest: prefix_length_le)

lemma str_find_None_iff: "str_find p s = None \<longleftrightarrow> \<not> sublist p s"
  by (induction p s rule: str_find.induct) (auto simp: sublist_Cons_right)

lemma find_char_None_iff: "find_char c s = None \<longleftrightarrow> c \<notin> set s"
  by (induction s) auto

lemma find_char_SomeD: "find_char c s = Some i \<Longrightarrow> i < length s \<and> s ! i = c \<and> c \<notin> set (take i s)"
proof (induction s arbitrary: i)
  case Nil
  then show ?case by simp
next
  case (Cons x s)
  then show ?case by (cases "x = c") (auto simp: prefix_Cons)
qed

lemma split_once_Some: "split_once p s = Some (a, b) \<Longrightarrow> s = a @ p @ b"
  by (auto simp: split_once_def split: option.splits dest: str_find_SomeD)

lemma split_once_char_left: "split_once [c] s = Some (a, b) \<Longrightarrow> c \<notin> set a"
  by (auto simp: split_once_def split: option.splits dest: find_char_SomeD)

lemma split_once_char_fresh: "c \<notin> set a \<Longrightarrow> split_once [c] (a @ c # b) = Some (a, b)"
  by (induction a) (auto simp: split_once_def split: option.splits)

lemma split_once_None_char: "split_once [c] s = None \<longleftrightarrow> c \<notin> set s"
proof -
  have "split_once [c] s = None \<longleftrightarrow> find_char c s = None"
    by (simp add: split_once_def split: option.split)
  then show ?thesis by (simp only: find_char_None_iff)
qed

lemma split_char_not_Nil [simp]: "split_char d s \<noteq> []"
  by (induction s) (auto split: list.splits)

lemma split_char_fresh: "d \<notin> set s \<Longrightarrow> split_char d s = [s]"
  by (induction s) auto

lemma split_char_append:
  "d \<notin> set a \<Longrightarrow> split_char d (a @ d # s) = a # split_char d s"
  by (induction a) auto

lemma join_split_char: "join [d] (split_char d s) = s"
proof (induction s)
  case Nil
  then show ?case by simp
next
  case (Cons c s)
  then show ?case by (cases "split_char d s"; cases "tl (split_char d s)") auto
qed

lemma split_char_no_sep: "x \<in> set (split_char d s) \<Longrightarrow> d \<notin> set x"
  by (induction s arbitrary: x) (auto split: list.splits if_splits)

subsection \<open>Lines\<close>

text \<open>\<open>str::lines\<close>: the terminator is a line feed, with one carriage return before it.\<close>

definition strip_cr :: "string \<Rightarrow> string" where
  "strip_cr l = (if l \<noteq> [] \<and> last l = CR then butlast l else l)"

fun lines_acc :: "string \<Rightarrow> string \<Rightarrow> string list" where
  "lines_acc cur [] = (if cur = [] then [] else [rev cur])"
| "lines_acc cur (c # s) =
     (if c = NL then strip_cr (rev cur) # lines_acc [] s else lines_acc (c # cur) s)"

definition lines :: "string \<Rightarrow> string list" where
  "lines s = lines_acc [] s"

lemma lines_Nil [simp]: "lines [] = []"
  by (simp add: lines_def)

lemma lines_acc_line: "NL \<notin> set l \<Longrightarrow> lines_acc cur (l @ NL # s) = strip_cr (rev cur @ l) # lines_acc [] s"
  by (induction l arbitrary: cur) auto

lemma lines_line: "NL \<notin> set l \<Longrightarrow> lines (l @ NL # s) = strip_cr l # lines s"
  by (simp add: lines_def lines_acc_line)

lemma lines_last: "NL \<notin> set l \<Longrightarrow> l \<noteq> [] \<Longrightarrow> lines l = [l]"
proof -
  assume a: "NL \<notin> set l" "l \<noteq> []"
  have "NL \<notin> set l \<Longrightarrow> lines_acc cur l = (if rev cur @ l = [] then [] else [rev cur @ l])" for cur
    by (induction l arbitrary: cur) auto
  with a show ?thesis by (simp add: lines_def)
qed

subsection \<open>ASCII classes and numbers\<close>

definition is_ascii_digit :: "char \<Rightarrow> bool" where
  "is_ascii_digit c = (48 \<le> (of_char c :: nat) \<and> (of_char c :: nat) \<le> 57)"

definition is_ascii_lower :: "char \<Rightarrow> bool" where
  "is_ascii_lower c = (97 \<le> (of_char c :: nat) \<and> (of_char c :: nat) \<le> 122)"

definition is_ascii_upper :: "char \<Rightarrow> bool" where
  "is_ascii_upper c = (65 \<le> (of_char c :: nat) \<and> (of_char c :: nat) \<le> 90)"

definition is_ascii_alphanumeric :: "char \<Rightarrow> bool" where
  "is_ascii_alphanumeric c = (is_ascii_digit c \<or> is_ascii_lower c \<or> is_ascii_upper c)"

definition is_ascii_hexdigit :: "char \<Rightarrow> bool" where
  "is_ascii_hexdigit c =
     (is_ascii_digit c \<or> (97 \<le> (of_char c :: nat) \<and> (of_char c :: nat) \<le> 102)
        \<or> (65 \<le> (of_char c :: nat) \<and> (of_char c :: nat) \<le> 70))"

definition ascii_lower :: "char \<Rightarrow> char" where
  "ascii_lower c = (if is_ascii_upper c then char_of ((of_char c :: nat) + 32) else c)"

definition to_ascii_lowercase :: "string \<Rightarrow> string" where
  "to_ascii_lowercase s = map ascii_lower s"

definition digit_value :: "char \<Rightarrow> nat" where
  "digit_value c = of_char c - 48"

fun digits_value :: "nat \<Rightarrow> string \<Rightarrow> nat" where
  "digits_value n [] = n"
| "digits_value n (c # s) = digits_value (10 * n + digit_value c) s"

text \<open>\<open>str::parse\<close> into an unsigned integer of the given width: an optional plus sign, then
  at least one digit, and no overflow.\<close>

definition parse_uint :: "nat \<Rightarrow> string \<Rightarrow> nat option" where
  "parse_uint w s =
     (let d = (case s of c # r \<Rightarrow> if c = CHR ''+'' \<and> r \<noteq> [] then r else s | [] \<Rightarrow> s) in
      if d = [] \<or> \<not> list_all is_ascii_digit d then None
      else if digits_value 0 d < 2 ^ w then Some (digits_value 0 d) else None)"

lemma parse_uint_bound: "parse_uint w s = Some n \<Longrightarrow> n < 2 ^ w"
  by (auto simp: parse_uint_def Let_def split: if_splits)

text \<open>\<open>Display\<close> of an unsigned integer: its decimal digits.\<close>

fun show_nat :: "nat \<Rightarrow> string" where
  "show_nat n =
     (if n < 10 then [char_of (48 + n)] else show_nat (n div 10) @ [char_of (48 + n mod 10)])"

declare show_nat.simps [simp del]

lemma show_nat_digits: "list_all is_ascii_digit (show_nat n)"
proof (induction n rule: show_nat.induct)
  case (1 n)
  show ?case
  proof (cases "n < 10")
    case True
    then show ?thesis by (simp add: show_nat.simps [of n] is_ascii_digit_def)
  next
    case False
    with 1 have "list_all is_ascii_digit (show_nat (n div 10))" by simp
    moreover have "is_ascii_digit (char_of (48 + n mod 10))"
      by (simp add: is_ascii_digit_def)
    ultimately show ?thesis using False by (simp add: show_nat.simps [of n])
  qed
qed

lemma show_nat_not_Nil [simp]: "show_nat n \<noteq> []"
  by (subst show_nat.simps) simp

subsection \<open>UTF-8\<close>

text \<open>\<open>String::from_utf8\<close> accepts exactly the well-formed sequences of the standard.\<close>

definition utf8_cont :: "char \<Rightarrow> bool" where
  "utf8_cont c = (0x80 \<le> (of_char c :: nat) \<and> (of_char c :: nat) \<le> 0xBF)"

definition utf8_between :: "nat \<Rightarrow> nat \<Rightarrow> char \<Rightarrow> bool" where
  "utf8_between lo hi c = (lo \<le> of_char c \<and> of_char c \<le> hi)"

fun utf8_valid :: "string \<Rightarrow> bool" where
  "utf8_valid [] = True"
| "utf8_valid (a # s) =
     (if utf8_between 0 0x7F a then utf8_valid s
      else (case s of
        [] \<Rightarrow> False
      | b # s2 \<Rightarrow>
         if utf8_between 0xC2 0xDF a then utf8_cont b \<and> utf8_valid s2
         else (case s2 of
           [] \<Rightarrow> False
         | c # s3 \<Rightarrow>
            if a = CHR 0xE0 then utf8_between 0xA0 0xBF b \<and> utf8_cont c \<and> utf8_valid s3
            else if a = CHR 0xED then utf8_between 0x80 0x9F b \<and> utf8_cont c \<and> utf8_valid s3
            else if utf8_between 0xE1 0xEF a then utf8_cont b \<and> utf8_cont c \<and> utf8_valid s3
            else (case s3 of
              [] \<Rightarrow> False
            | d # s4 \<Rightarrow>
               (if a = CHR 0xF0 then utf8_between 0x90 0xBF b
                else if a = CHR 0xF4 then utf8_between 0x80 0x8F b
                else utf8_between 0xF1 0xF3 a \<and> utf8_cont b)
               \<and> utf8_cont c \<and> utf8_cont d \<and> utf8_valid s4))))"

text \<open>The number of bytes of the character that starts with the given byte.\<close>

definition utf8_width :: "char \<Rightarrow> nat" where
  "utf8_width a =
     (if utf8_between 0xC2 0xDF a then 2 else if utf8_between 0xE0 0xEF a then 3
      else if utf8_between 0xF0 0xF4 a then 4 else 1)"

lemma utf8_width_pos [simp]: "0 < utf8_width a"
  by (simp add: utf8_width_def)

end
