(* ===== verification/Message.thy ===== *)
theory Message
  imports Json_Value "HOL-Library.AList"
begin

section \<open>Messages\<close>

text \<open>
  The data that flows through the agent: \<open>conversation/message.rs\<close> with the types of the
  \<open>rmcp\<close> protocol crate it holds. Of a type of that crate the fields the sources read are
  kept and the others are one opaque JSON value. The operations that create and read content
  blocks, metadata and messages follow in the order of the source file.
  What the sources take from the outside is a parameter: the Unicode normalisation and the
  base64 codec (\<open>text_env\<close>), the clock and the generator of message identifiers.
\<close>

datatype role = User | Assistant

record annotations =
  ann_audience :: "role list option"
  ann_rest :: json

record text_content =
  tc_text :: string
  tc_annotations :: "annotations option"
  tc_rest :: json

record image_content =
  ic_data :: string
  ic_mime_type :: string
  ic_annotations :: "annotations option"
  ic_rest :: json

datatype resource_contents =
    TextResourceContents string json
  | BlobResourceContents string "string option" json
  | OtherResourceContents json

datatype content_block =
    CText text_content
  | CImage image_content
  | CAudio "annotations option" json
  | CResource resource_contents "annotations option" json
  | CResourceLink "annotations option" json
  | COther json

record error_data =
  ed_code :: int
  ed_message :: string
  ed_data :: "json option"

record call_tool_result =
  ctr_content :: "content_block list"
  ctr_is_error :: "bool option"
  ctr_structured :: "json option"
  ctr_rest :: json

record call_tool_request_params =
  ctp_name :: string
  ctp_arguments :: "json_object option"
  ctp_rest :: json

type_synonym 'a tool_result = "error_data + 'a"
type_synonym provider_metadata = json_object

record tool_request =
  tr_id :: string
  tr_tool_call :: "call_tool_request_params tool_result"
  tr_metadata :: "provider_metadata option"
  tr_tool_meta :: "json option"

record tool_response =
  ts_id :: string
  ts_tool_result :: "call_tool_result tool_result"
  ts_metadata :: "provider_metadata option"

record tool_confirmation_request =
  tcr_id :: string
  tcr_tool_name :: string
  tcr_arguments :: json_object
  tcr_prompt :: "string option"

datatype permission = AlwaysAllow | AllowOnce | Cancel | DenyOnce | AlwaysDeny

datatype elicitation_action = Accept | Decline | CancelElicitation

datatype action_required_data =
    ToolConfirmation string string json_object "string option"
  | Elicitation string string json
  | ElicitationResponse string json elicitation_action
  | ToolConfirmationResponse string permission

record thinking_content =
  th_thinking :: string
  th_signature :: string

datatype system_notification_type =
  ThinkingMessage | ProgressMessage | InlineMessage | CreditsExhaustedNotification

record system_notification_content =
  sn_type :: system_notification_type
  sn_msg :: string
  sn_data :: "json option"

datatype message_error_kind = Authentication | ContextLengthExceeded | CreditsExhausted | Other

record error_content =
  ec_kind :: message_error_kind
  ec_message :: string

record document_content =
  dc_data :: string
  dc_mime_type :: string
  dc_name :: "string option"

datatype message_content_block =
    Text text_content
  | Image image_content
  | Document document_content
  | ToolRequest tool_request
  | ToolResponse tool_response
  | ToolConfirmationRequest tool_confirmation_request
  | ActionRequired action_required_data
  | Thinking thinking_content
  | RedactedThinking string
  | SystemNotification system_notification_content
  | ErrorBlock error_content

record inference_metadata =
  im_provider :: string
  im_requested_model :: string
  im_resolved_model :: "string option"
  im_provider_session_id :: "string option"

type_synonym f64_bits = u64

datatype cost_source = ProviderReported | Estimated

record message_usage =
  mu_input_tokens :: "i32 option"
  mu_output_tokens :: "i32 option"
  mu_total_tokens :: "i32 option"
  mu_cache_read_tokens :: "i32 option"
  mu_cache_write_tokens :: "i32 option"
  mu_cost :: "f64_bits option"
  mu_cost_source :: "cost_source option"
  mu_elapsed_ms :: "u64 option"
  mu_time_to_first_token_ms :: "u64 option"
  mu_is_compaction :: bool

type_synonym operation_notes = "(string \<times> json_object) list"

record message_metadata =
  md_user_visible :: bool
  md_agent_visible :: bool
  md_inference :: "inference_metadata option"
  md_output_token_limit_reached :: bool
  md_steer :: bool
  md_turn_context :: bool
  md_usage :: "message_usage option"
  md_operations :: "operation_notes option"

record message =
  m_id :: "string option"
  m_role :: role
  m_created :: int
  m_content :: "message_content_block list"
  m_metadata :: message_metadata

subsection \<open>Unicode tags and resources\<close>

text \<open>
  \<open>utils.rs\<close>: the characters U+E0000 to U+E007F are four bytes in UTF-8, F3 A0 80 xx for the
  first half of the range and F3 A0 81 xx for the second.
\<close>

fun strip_unicode_tags :: "string \<Rightarrow> string" where
  "strip_unicode_tags (a # b # c # d # s) =
     (if a = CHR 0xF3 \<and> b = CHR 0xA0 \<and> (c = CHR 0x80 \<or> c = CHR 0x81) \<and> utf8_cont d
      then strip_unicode_tags s else a # strip_unicode_tags (b # c # d # s))"
| "strip_unicode_tags s = s"

record text_env =
  te_nfc :: "string \<Rightarrow> string"
  te_b64_decode :: "string \<Rightarrow> string option"
  te_b64_encode :: "string \<Rightarrow> string"

definition sanitize_unicode_tags :: "text_env \<Rightarrow> string \<Rightarrow> string" where
  "sanitize_unicode_tags te s = strip_unicode_tags (te_nfc te s)"

definition extract_text_from_resource :: "text_env \<Rightarrow> resource_contents \<Rightarrow> string" where
  "extract_text_from_resource te r =
     (case r of
        TextResourceContents text _ \<Rightarrow> sanitize_unicode_tags te text
      | BlobResourceContents blob mime _ \<Rightarrow>
          (case te_b64_decode te blob of
             Some bytes \<Rightarrow>
               if utf8_valid bytes then sanitize_unicode_tags te bytes
               else ''[Binary content ('' @ (case mime of Some m \<Rightarrow> m | None \<Rightarrow> ''application/octet-stream'')
                    @ '') - '' @ show_nat (length bytes) @ '' bytes]''
           | None \<Rightarrow> sanitize_unicode_tags te blob)
      | OtherResourceContents _ \<Rightarrow> [])"

definition sanitize_resource :: "text_env \<Rightarrow> resource_contents \<Rightarrow> resource_contents" where
  "sanitize_resource te r =
     (case r of
        TextResourceContents text rest \<Rightarrow> TextResourceContents (sanitize_unicode_tags te text) rest
      | BlobResourceContents blob mime rest \<Rightarrow>
          (case te_b64_decode te blob of
             None \<Rightarrow> BlobResourceContents (sanitize_unicode_tags te blob) mime rest
           | Some bytes \<Rightarrow>
               if \<not> utf8_valid bytes then r
               else (let sanitized = sanitize_unicode_tags te bytes in
                     if bytes \<noteq> sanitized
                     then BlobResourceContents (te_b64_encode te sanitized) mime rest else r))
      | OtherResourceContents _ \<Rightarrow> r)"

definition sanitize_content :: "text_env \<Rightarrow> content_block \<Rightarrow> content_block" where
  "sanitize_content te c =
     (case c of
        CText t \<Rightarrow> CText (t\<lparr>tc_text := sanitize_unicode_tags te (tc_text t)\<rparr>)
      | CResource r a rest \<Rightarrow> CResource (sanitize_resource te r) a rest
      | _ \<Rightarrow> c)"

definition sanitize_tool_result ::
    "text_env \<Rightarrow> call_tool_result tool_result \<Rightarrow> call_tool_result tool_result" where
  "sanitize_tool_result te tr =
     (case tr of
        Inr result \<Rightarrow> Inr (result\<lparr>ctr_content := map (sanitize_content te) (ctr_content result)\<rparr>)
      | Inl err \<Rightarrow> Inl (err\<lparr>ed_message := sanitize_unicode_tags te (ed_message err)\<rparr>))"

subsection \<open>Content blocks\<close>

definition text_content_new :: "string \<Rightarrow> text_content" where
  "text_content_new t = \<lparr>tc_text = t, tc_annotations = None, tc_rest = JNull\<rparr>"

definition audience_of :: "annotations option \<Rightarrow> role list option" where
  "audience_of a = Option.bind a ann_audience"

definition audience_allows :: "role \<Rightarrow> role list option \<Rightarrow> bool" where
  "audience_allows r a = (case a of None \<Rightarrow> True | Some roles \<Rightarrow> r \<in> set roles)"

definition content_audience :: "content_block \<Rightarrow> role list option" where
  "content_audience c =
     (case c of
        CText t \<Rightarrow> audience_of (tc_annotations t)
      | CImage i \<Rightarrow> audience_of (ic_annotations i)
      | CAudio a _ \<Rightarrow> audience_of a
      | CResource _ a _ \<Rightarrow> audience_of a
      | CResourceLink a _ \<Rightarrow> audience_of a
      | COther _ \<Rightarrow> None)"

definition filter_for_audience ::
    "message_content_block \<Rightarrow> role \<Rightarrow> message_content_block option" where
  "filter_for_audience b audience =
     (case b of
        Text t \<Rightarrow> if audience_allows audience (audience_of (tc_annotations t)) then Some b else None
      | Image i \<Rightarrow> if audience_allows audience (audience_of (ic_annotations i)) then Some b else None
      | ToolResponse res \<Rightarrow>
          (case ts_tool_result res of
             Inl _ \<Rightarrow> Some b
           | Inr result \<Rightarrow>
               Some (ToolResponse \<lparr>ts_id = ts_id res,
                 ts_tool_result = Inr (result\<lparr>ctr_content :=
                   filter (\<lambda>c. audience_allows audience (content_audience c)) (ctr_content result)\<rparr>),
                 ts_metadata = ts_metadata res\<rparr>))
      | Thinking _ \<Rightarrow> if audience = Assistant then Some b else None
      | RedactedThinking _ \<Rightarrow> if audience = Assistant then Some b else None
      | _ \<Rightarrow> Some b)"

definition block_user_visible_content :: "message_content_block \<Rightarrow> message_content_block option" where
  "block_user_visible_content b =
     (case b of
        Text _ \<Rightarrow> filter_for_audience b User
      | Image _ \<Rightarrow> filter_for_audience b User
      | ToolResponse _ \<Rightarrow> filter_for_audience b User
      | _ \<Rightarrow> Some b)"

definition tool_response_with_metadata ::
    "text_env \<Rightarrow> string \<Rightarrow> call_tool_result tool_result \<Rightarrow> provider_metadata option
       \<Rightarrow> message_content_block" where
  "tool_response_with_metadata te i r md =
     ToolResponse \<lparr>ts_id = i, ts_tool_result = sanitize_tool_result te r, ts_metadata = md\<rparr>"

definition as_error :: "message_content_block \<Rightarrow> error_content option" where
  "as_error b = (case b of ErrorBlock e \<Rightarrow> Some e | _ \<Rightarrow> None)"

definition as_tool_request :: "message_content_block \<Rightarrow> tool_request option" where
  "as_tool_request b = (case b of ToolRequest r \<Rightarrow> Some r | _ \<Rightarrow> None)"

definition as_tool_response :: "message_content_block \<Rightarrow> tool_response option" where
  "as_tool_response b = (case b of ToolResponse r \<Rightarrow> Some r | _ \<Rightarrow> None)"

definition as_text :: "message_content_block \<Rightarrow> string option" where
  "as_text b = (case b of Text t \<Rightarrow> Some (tc_text t) | _ \<Rightarrow> None)"

definition content_as_text :: "content_block \<Rightarrow> text_content option" where
  "content_as_text c = (case c of CText t \<Rightarrow> Some t | _ \<Rightarrow> None)"

definition as_tool_response_text :: "message_content_block \<Rightarrow> string option" where
  "as_tool_response_text b =
     (case as_tool_response b of
        None \<Rightarrow> None
      | Some r \<Rightarrow>
          (case ts_tool_result r of
             Inl _ \<Rightarrow> None
           | Inr result \<Rightarrow>
               (let texts = filter_map (\<lambda>c. map_option tc_text (content_as_text c)) (ctr_content result)
                in if texts = [] then None else Some (join [NL] texts))))"

definition block_of_content :: "text_env \<Rightarrow> content_block \<Rightarrow> message_content_block" where
  "block_of_content te c =
     (case c of
        CText t \<Rightarrow> Text t
      | CImage i \<Rightarrow> Image i
      | CResourceLink _ _ \<Rightarrow> Text (text_content_new ''[Resource link]'')
      | CResource r _ _ \<Rightarrow> Text (text_content_new (extract_text_from_resource te r))
      | CAudio _ _ \<Rightarrow> Text (text_content_new ''[Audio content: not supported]'')
      | COther _ \<Rightarrow> Text (text_content_new ''[Unsupported content]''))"

subsection \<open>Metadata\<close>

definition metadata_default :: message_metadata where
  "metadata_default =
     \<lparr>md_user_visible = True, md_agent_visible = True, md_inference = None,
      md_output_token_limit_reached = False, md_steer = False, md_turn_context = False,
      md_usage = None, md_operations = None\<rparr>"

definition operation_note :: "message_metadata \<Rightarrow> string \<Rightarrow> string \<Rightarrow> json option" where
  "operation_note md op k =
     Option.bind (md_operations md) (\<lambda>notes. Option.bind (map_of notes op) (\<lambda>m. map_of m k))"

definition set_operation_note ::
    "string \<Rightarrow> string \<Rightarrow> json \<Rightarrow> message_metadata \<Rightarrow> message_metadata" where
  "set_operation_note op k v md =
     (let notes = (case md_operations md of Some n \<Rightarrow> n | None \<Rightarrow> []);
          m = (case map_of notes op of Some m \<Rightarrow> m | None \<Rightarrow> [])
      in md\<lparr>md_operations := Some (AList.update op (AList.update k v m) notes)\<rparr>)"

definition metadata_agent_only :: message_metadata where
  "metadata_agent_only = metadata_default\<lparr>md_user_visible := False, md_agent_visible := True\<rparr>"

definition metadata_user_only :: message_metadata where
  "metadata_user_only = metadata_default\<lparr>md_user_visible := True, md_agent_visible := False\<rparr>"

definition metadata_invisible :: message_metadata where
  "metadata_invisible = metadata_default\<lparr>md_user_visible := False, md_agent_visible := False\<rparr>"

subsection \<open>Messages\<close>

definition message_new :: "role \<Rightarrow> int \<Rightarrow> message_content_block list \<Rightarrow> message" where
  "message_new r created content =
     \<lparr>m_id = None, m_role = r, m_created = created, m_content = content,
      m_metadata = metadata_default\<rparr>"

definition message_user :: "int \<Rightarrow> message" where
  "message_user now = message_new User now []"

definition message_assistant :: "int \<Rightarrow> message" where
  "message_assistant now = message_new Assistant now []"

definition with_content :: "message_content_block \<Rightarrow> message \<Rightarrow> message" where
  "with_content b m = m\<lparr>m_content := m_content m @ [b]\<rparr>"

definition with_text :: "text_env \<Rightarrow> string \<Rightarrow> message \<Rightarrow> message" where
  "with_text te t m = with_content (Text (text_content_new (sanitize_unicode_tags te t))) m"

definition with_generated_id_if_missing :: "string \<Rightarrow> message \<Rightarrow> message" where
  "with_generated_id_if_missing uuid m =
     (case m_id m of Some _ \<Rightarrow> m | None \<Rightarrow> m\<lparr>m_id := Some (''msg_'' @ uuid)\<rparr>)"

definition add_tool_response_with_metadata ::
    "text_env \<Rightarrow> string \<Rightarrow> call_tool_result tool_result \<Rightarrow> provider_metadata option
       \<Rightarrow> message \<Rightarrow> message" where
  "add_tool_response_with_metadata te i r md m =
     m\<lparr>m_content := m_content m @ [tool_response_with_metadata te i r md]\<rparr>"

definition agent_visible_content :: "message \<Rightarrow> message" where
  "agent_visible_content m =
     m\<lparr>m_content := filter_map (\<lambda>c. filter_for_audience c Assistant) (m_content m)\<rparr>"

text \<open>The loop of \<open>user_visible_content\<close>: the accumulator is the list built so far.\<close>

definition push_merging_text ::
    "message_content_block list \<Rightarrow> message_content_block \<Rightarrow> message_content_block list" where
  "push_merging_text acc b =
     (case (last_opt acc, b) of
        (Some (Text l), Text n) \<Rightarrow>
          if audience_of (tc_annotations l) = audience_of (tc_annotations n)
          then butlast acc @ [Text (l\<lparr>tc_text := tc_text l @ tc_text n\<rparr>)]
          else acc @ [b]
      | _ \<Rightarrow> acc @ [b])"

definition user_visible_content :: "message \<Rightarrow> message" where
  "user_visible_content m =
     m\<lparr>m_content := foldl push_merging_text []
         (filter_map block_user_visible_content (m_content m))\<rparr>"

definition as_concat_text :: "message \<Rightarrow> string" where
  "as_concat_text m = join [NL] (filter_map as_text (m_content m))"

definition is_tool_call :: "message \<Rightarrow> bool" where
  "is_tool_call m = list_ex (\<lambda>c. case c of ToolRequest _ \<Rightarrow> True | _ \<Rightarrow> False) (m_content m)"

definition is_tool_response :: "message \<Rightarrow> bool" where
  "is_tool_response m = list_ex (\<lambda>c. case c of ToolResponse _ \<Rightarrow> True | _ \<Rightarrow> False) (m_content m)"

definition request_id :: "message_content_block \<Rightarrow> string option" where
  "request_id c = (case c of ToolRequest r \<Rightarrow> Some (tr_id r) | _ \<Rightarrow> None)"

definition response_id :: "message_content_block \<Rightarrow> string option" where
  "response_id c = (case c of ToolResponse r \<Rightarrow> Some (ts_id r) | _ \<Rightarrow> None)"

definition get_tool_request_ids :: "message \<Rightarrow> string set" where
  "get_tool_request_ids m = set (filter_map request_id (m_content m))"

definition get_tool_response_ids :: "message \<Rightarrow> string set" where
  "get_tool_response_ids m = set (filter_map response_id (m_content m))"

definition get_tool_ids :: "message \<Rightarrow> string set" where
  "get_tool_ids m =
     set (filter_map
       (\<lambda>c. case c of ToolRequest r \<Rightarrow> Some (tr_id r) | ToolResponse r \<Rightarrow> Some (ts_id r) | _ \<Rightarrow> None)
       (m_content m))"

definition has_only_text_content :: "message \<Rightarrow> bool" where
  "has_only_text_content m = list_all (\<lambda>c. case c of Text _ \<Rightarrow> True | _ \<Rightarrow> False) (m_content m)"

definition with_error :: "message_error_kind \<Rightarrow> string \<Rightarrow> message \<Rightarrow> message" where
  "with_error kind t m =
     (with_content (ErrorBlock \<lparr>ec_kind = kind, ec_message = t\<rparr>) m)\<lparr>m_metadata := metadata_user_only\<rparr>"

definition error_kind :: "message \<Rightarrow> message_error_kind option" where
  "error_kind m = first_opt (filter_map (\<lambda>c. map_option ec_kind (as_error c)) (m_content m))"

definition with_visibility :: "bool \<Rightarrow> bool \<Rightarrow> message \<Rightarrow> message" where
  "with_visibility uv av m =
     m\<lparr>m_metadata := (m_metadata m)\<lparr>md_user_visible := uv, md_agent_visible := av\<rparr>\<rparr>"

definition with_inference_if_assistant :: "inference_metadata \<Rightarrow> message \<Rightarrow> message" where
  "with_inference_if_assistant i m =
     (if m_role m = Assistant \<and> md_inference (m_metadata m) = None
      then m\<lparr>m_metadata := (m_metadata m)\<lparr>md_inference := Some i\<rparr>\<rparr> else m)"

definition is_user_visible :: "message \<Rightarrow> bool" where
  "is_user_visible m = md_user_visible (m_metadata m)"

definition is_agent_visible :: "message \<Rightarrow> bool" where
  "is_agent_visible m = md_agent_visible (m_metadata m)"

definition is_turn_context :: "message \<Rightarrow> bool" where
  "is_turn_context m = md_turn_context (m_metadata m)"

end
