(* ===== verification/Conversation.thy ===== *)
theory Conversation
  imports Message
begin

section \<open>Conversations and their repair\<close>

text \<open>
  \<open>conversation.rs\<close>: the list of messages with \<open>push\<close> (which merges streamed deltas into
  the last message), the views the agent and the user get, and the repair pipeline
  \<open>fix_messages\<close> that runs before a request is sent to a provider. A repair pass maps a
  list of messages to the repaired list and the list of issues it reports. The loops that
  collect indices and then remove them from the back are written as the list they keep.
\<close>

type_synonym conversation = "message list"
type_synonym issues = "string list"

subsection \<open>Adding a message\<close>

definition absorb_metadata :: "message \<Rightarrow> message \<Rightarrow> message" where
  "absorb_metadata msg existing =
     (let md = m_metadata existing;
          md' = (case md_inference (m_metadata msg) of
                   Some i \<Rightarrow> md\<lparr>md_inference := Some i\<rparr> | None \<Rightarrow> md)
      in existing\<lparr>m_metadata := md'\<lparr>md_output_token_limit_reached :=
           md_output_token_limit_reached md' \<or> md_output_token_limit_reached (m_metadata msg)\<rparr>\<rparr>)"

definition merge_delta ::
    "message_content_block list \<Rightarrow> message_content_block list \<Rightarrow> message_content_block list" where
  "merge_delta old new =
     (case (last_opt old, last_opt new) of
        (Some (Text l), Some (Text n)) \<Rightarrow>
          if length new = 1
             \<and> audience_of (tc_annotations l) = audience_of (tc_annotations n)
          then butlast old @ [Text (l\<lparr>tc_text := tc_text l @ tc_text n\<rparr>)]
          else old @ new
      | (Some (Thinking l), Some (Thinking n)) \<Rightarrow>
          if length new = 1 \<and> (th_signature l = [] \<or> th_signature n = th_signature l)
          then butlast old @ [Thinking \<lparr>th_thinking = th_thinking l @ th_thinking n,
                 th_signature = (if th_signature n \<noteq> [] then th_signature n else th_signature l)\<rparr>]
          else old @ new
      | _ \<Rightarrow> old @ new)"

definition push :: "conversation \<Rightarrow> message \<Rightarrow> conversation" where
  "push conv msg =
     (let lim = md_output_token_limit_reached (m_metadata msg) in
      if m_content msg = [] \<and> (md_inference (m_metadata msg) \<noteq> None \<or> lim) then
        (case rposition (\<lambda>e. m_role e = m_role msg \<and> is_user_visible e
                 \<and> (\<not> lim \<or> (m_id msg \<noteq> None \<and> m_id e = m_id msg))) conv of
           Some i \<Rightarrow> conv[i := absorb_metadata msg (conv ! i)]
         | None \<Rightarrow> if lim then conv @ [with_visibility True False msg] else conv)
      else
        (case last_opt conv of
           Some l \<Rightarrow>
             if m_id l \<noteq> None \<and> m_id l = m_id msg
             then butlast conv @ [(absorb_metadata msg l)
                    \<lparr>m_content := merge_delta (m_content l) (m_content msg)\<rparr>]
             else conv @ [msg]
         | None \<Rightarrow> conv @ [msg]))"

definition extend :: "conversation \<Rightarrow> message list \<Rightarrow> conversation" where
  "extend conv msgs = foldl push conv msgs"

definition agent_visible_messages :: "conversation \<Rightarrow> message list" where
  "agent_visible_messages conv =
     filter (\<lambda>m. m_content m \<noteq> []) (map agent_visible_content (filter is_agent_visible conv))"

definition user_visible_messages :: "conversation \<Rightarrow> message list" where
  "user_visible_messages conv =
     filter (\<lambda>m. m_content m \<noteq> []) (map user_visible_content (filter is_user_visible conv))"

subsection \<open>Text passes\<close>

definition merge_text_content_in_message :: "message \<Rightarrow> message" where
  "merge_text_content_in_message m =
     (if m_role m \<noteq> Assistant then m
      else m\<lparr>m_content := foldl push_merging_text [] (m_content m)\<rparr>)"

definition merge_text_content_items :: "message list \<Rightarrow> message list \<times> issues" where
  "merge_text_content_items msgs =
     map_collect (\<lambda>m. let m' = merge_text_content_in_message m in
       (m', if length (m_content m) \<noteq> length (m_content m')
            then [''Merged text content''] else [])) msgs"

definition trim_block :: "message_content_block \<Rightarrow> message_content_block \<times> issues" where
  "trim_block b =
     (case b of
        Text t \<Rightarrow>
          (let trimmed = trim_end (tc_text t) in
           if length trimmed \<noteq> length (tc_text t)
           then (Text (t\<lparr>tc_text := trimmed\<rparr>),
                 [''Trimmed trailing whitespace from assistant message''])
           else (b, []))
      | _ \<Rightarrow> (b, []))"

definition trim_assistant_text_whitespace :: "message list \<Rightarrow> message list \<times> issues" where
  "trim_assistant_text_whitespace msgs =
     map_collect (\<lambda>m. if m_role m = Assistant
        then (m\<lparr>m_content := fst (map_collect trim_block (m_content m))\<rparr>,
              snd (map_collect trim_block (m_content m)))
        else (m, [])) msgs"

definition is_empty_message :: "message \<Rightarrow> bool" where
  "is_empty_message m =
     list_all (\<lambda>c. case as_text c of Some t \<Rightarrow> t = [] | None \<Rightarrow> False) (m_content m)"

definition remove_empty_messages :: "message list \<Rightarrow> message list \<times> issues" where
  "remove_empty_messages msgs =
     (filter (\<lambda>m. \<not> is_empty_message m) msgs,
      map (\<lambda>_. ''Removed empty message'') (filter is_empty_message msgs))"

subsection \<open>Tool results and tool calls\<close>

definition has_tool_result_content :: "text_env \<Rightarrow> content_block list \<Rightarrow> bool" where
  "has_tool_result_content te cs =
     list_ex (\<lambda>c. case c of
        CText t \<Rightarrow> tc_text t \<noteq> []
      | CResource r _ _ \<Rightarrow> extract_text_from_resource te r \<noteq> []
      | CImage _ \<Rightarrow> True
      | _ \<Rightarrow> False) cs"

definition fix_empty_tool_result ::
    "text_env \<Rightarrow> message_content_block \<Rightarrow> message_content_block \<times> issues" where
  "fix_empty_tool_result te b =
     (case b of
        ToolResponse r \<Rightarrow>
          (case ts_tool_result r of
             Inr result \<Rightarrow>
               if has_tool_result_content te (ctr_content result) then (b, [])
               else (ToolResponse (r\<lparr>ts_tool_result := Inr (result\<lparr>ctr_content :=
                        ctr_content result @ [CText (text_content_new ''(empty result)'')]\<rparr>)\<rparr>),
                     [''Added placeholder to empty tool result '' @ CHR 0x27 # ts_id r @ [CHR 0x27]])
           | Inl _ \<Rightarrow> (b, []))
      | _ \<Rightarrow> (b, []))"

definition fix_empty_tool_results :: "text_env \<Rightarrow> message list \<Rightarrow> message list \<times> issues" where
  "fix_empty_tool_results te msgs =
     map_collect (\<lambda>m.
       (m\<lparr>m_content := fst (map_collect (fix_empty_tool_result te) (m_content m))\<rparr>,
        snd (map_collect (fix_empty_tool_result te) (m_content m)))) msgs"

definition quoted :: "string \<Rightarrow> string \<Rightarrow> string \<Rightarrow> string" where
  "quoted before i after = before @ CHR 0x27 # i @ CHR 0x27 # after"

text \<open>The scan of one user message: kept content, pending requests, issues.\<close>

fun scan_user_content ::
    "message_content_block list \<Rightarrow> string set
       \<Rightarrow> message_content_block list \<times> string set \<times> issues" where
  "scan_user_content [] pending = ([], pending, [])"
| "scan_user_content (c # cs) pending =
     (case c of
        ToolRequest r \<Rightarrow>
          (let (kept, p, iss) = scan_user_content cs pending in
           (kept, p, quoted ''Removed tool request '' (tr_id r) '' from user message'' # iss))
      | ToolConfirmationRequest r \<Rightarrow>
          (let (kept, p, iss) = scan_user_content cs pending in
           (kept, p,
            quoted ''Removed tool confirmation request '' (tcr_id r) '' from user message'' # iss))
      | Thinking _ \<Rightarrow>
          (let (kept, p, iss) = scan_user_content cs pending in
           (kept, p, ''Removed thinking content from user message'' # iss))
      | RedactedThinking _ \<Rightarrow>
          (let (kept, p, iss) = scan_user_content cs pending in
           (kept, p, ''Removed thinking content from user message'' # iss))
      | ToolResponse r \<Rightarrow>
          if ts_id r \<in> pending
          then (let (kept, p, iss) = scan_user_content cs (pending - {ts_id r}) in (c # kept, p, iss))
          else (let (kept, p, iss) = scan_user_content cs pending in
                (kept, p, quoted ''Removed orphaned tool response '' (ts_id r) [] # iss))
      | _ \<Rightarrow> (let (kept, p, iss) = scan_user_content cs pending in (c # kept, p, iss)))"

fun scan_assistant_content ::
    "message_content_block list \<Rightarrow> string set
       \<Rightarrow> message_content_block list \<times> string set \<times> issues" where
  "scan_assistant_content [] pending = ([], pending, [])"
| "scan_assistant_content (c # cs) pending =
     (case c of
        ToolResponse r \<Rightarrow>
          (let (kept, p, iss) = scan_assistant_content cs pending in
           (kept, p, quoted ''Removed tool response '' (ts_id r) '' from assistant message'' # iss))
      | ToolRequest r \<Rightarrow>
          (let (kept, p, iss) = scan_assistant_content cs (insert (tr_id r) pending) in
           (c # kept, p, iss))
      | _ \<Rightarrow> (let (kept, p, iss) = scan_assistant_content cs pending in (c # kept, p, iss)))"

definition scan_content ::
    "role \<Rightarrow> message_content_block list \<Rightarrow> string set
       \<Rightarrow> message_content_block list \<times> string set \<times> issues" where
  "scan_content r cs pending =
     (case r of User \<Rightarrow> scan_user_content cs pending
      | Assistant \<Rightarrow> scan_assistant_content cs pending)"

fun scan_messages ::
    "message list \<Rightarrow> string set \<Rightarrow> message list \<times> string set \<times> issues" where
  "scan_messages [] pending = ([], pending, [])"
| "scan_messages (m # ms) pending =
     (let (kept, p, iss) = scan_content (m_role m) (m_content m) pending;
          (ms', p', iss') = scan_messages ms p
      in (m\<lparr>m_content := kept\<rparr> # ms', p', iss @ iss'))"

definition is_pending_request :: "string set \<Rightarrow> message_content_block \<Rightarrow> bool" where
  "is_pending_request pending c =
     (case c of ToolRequest r \<Rightarrow> tr_id r \<in> pending | _ \<Rightarrow> False)"

definition drop_orphaned_requests ::
    "string set \<Rightarrow> message list \<Rightarrow> message list \<times> issues" where
  "drop_orphaned_requests pending msgs =
     map_collect (\<lambda>m. if m_role m = Assistant
        then (m\<lparr>m_content := filter (\<lambda>c. \<not> is_pending_request pending c) (m_content m)\<rparr>,
              map (\<lambda>i. quoted ''Removed orphaned tool request '' i [])
                (filter_map request_id (filter (is_pending_request pending) (m_content m))))
        else (m, [])) msgs"

definition fix_tool_calling :: "message list \<Rightarrow> message list \<times> issues" where
  "fix_tool_calling msgs =
     (let (ms1, pending, iss1) = scan_messages msgs {};
          (ms2, iss2) = drop_orphaned_requests pending ms1;
          (ms3, iss3) = remove_empty_messages ms2
      in (ms3, iss1 @ iss2 @ iss3))"

subsection \<open>Roles\<close>

datatype effective_role = RUser | RAssistant | RTool

definition show_effective_role :: "effective_role \<Rightarrow> string" where
  "show_effective_role r =
     (case r of RUser \<Rightarrow> ''user'' | RAssistant \<Rightarrow> ''assistant'' | RTool \<Rightarrow> ''tool'')"

definition has_tool_response :: "message \<Rightarrow> bool" where
  "has_tool_response m = list_ex (\<lambda>c. case c of ToolResponse _ \<Rightarrow> True | _ \<Rightarrow> False) (m_content m)"

definition effective_role_of :: "message \<Rightarrow> effective_role" where
  "effective_role_of m =
     (if m_role m = User \<and> has_tool_response m then RTool
      else case m_role m of User \<Rightarrow> RUser | Assistant \<Rightarrow> RAssistant)"

definition mergeable :: "bool \<Rightarrow> message \<Rightarrow> message \<Rightarrow> bool" where
  "mergeable across l m =
     (effective_role_of l = effective_role_of m
      \<and> (across \<or> (md_user_visible (m_metadata l) = md_user_visible (m_metadata m)
                  \<and> md_turn_context (m_metadata l) = md_turn_context (m_metadata m))))"

definition merge_step ::
    "bool \<Rightarrow> message list \<times> issues \<Rightarrow> message \<Rightarrow> message list \<times> issues" where
  "merge_step across st m =
     (let (merged, iss) = st in
      case last_opt merged of
        Some l \<Rightarrow>
          if mergeable across l m
          then (butlast merged @ [l\<lparr>m_content := m_content l @ m_content m\<rparr>],
                iss @ [''Merged consecutive '' @ show_effective_role (effective_role_of m) @ '' messages''])
          else (merged @ [m], iss)
      | None \<Rightarrow> (merged @ [m], iss))"

definition merge_consecutive :: "bool \<Rightarrow> message list \<Rightarrow> message list \<times> issues" where
  "merge_consecutive across msgs = foldl (merge_step across) ([], []) msgs"

definition merge_consecutive_messages :: "message list \<Rightarrow> message list \<times> issues" where
  "merge_consecutive_messages msgs = merge_consecutive False msgs"

definition merge_consecutive_messages_for_request :: "message list \<Rightarrow> message list" where
  "merge_consecutive_messages_for_request msgs = fst (merge_consecutive True msgs)"

subsection \<open>Signed thinking\<close>

definition is_signed_thinking :: "message_content_block \<Rightarrow> bool" where
  "is_signed_thinking b =
     (case b of Thinking t \<Rightarrow> th_signature t \<noteq> [] | RedactedThinking _ \<Rightarrow> True | _ \<Rightarrow> False)"

fun dedupe_content ::
    "message_content_block list \<Rightarrow> message_content_block list
       \<Rightarrow> message_content_block list \<times> message_content_block list" where
  "dedupe_content seen [] = ([], seen)"
| "dedupe_content seen (c # cs) =
     (if is_signed_thinking c \<and> c \<in> set seen then dedupe_content seen cs
      else (let (kept, seen') = dedupe_content (if is_signed_thinking c then seen @ [c] else seen) cs
            in (c # kept, seen')))"

fun dedupe_messages ::
    "message_content_block list \<Rightarrow> message list \<Rightarrow> message list \<times> issues" where
  "dedupe_messages seen [] = ([], [])"
| "dedupe_messages seen (m # ms) =
     (if m_role m \<noteq> Assistant
      then (let (ms', iss) = dedupe_messages seen ms in (m # ms', iss))
      else (let (kept, seen') = dedupe_content seen (m_content m);
                (ms', iss) = dedupe_messages seen' ms
            in if length kept \<noteq> length (m_content m)
               then (m\<lparr>m_content := kept\<rparr> # ms', ''Removed duplicate signed thinking block'' # iss)
               else (m # ms', iss)))"

definition dedupe_signed_thinking :: "message list \<Rightarrow> message list \<times> issues" where
  "dedupe_signed_thinking msgs = dedupe_messages [] msgs"

subsection \<open>The ends of the conversation, and the whole pipeline\<close>

definition fix_lead_trail :: "message list \<Rightarrow> message list \<times> issues" where
  "fix_lead_trail msgs =
     (let (ms1, iss1) = (case first_opt msgs of
            Some f \<Rightarrow> if m_role f = Assistant
              then (tl msgs, [''Removed leading assistant message'']) else (msgs, [])
          | None \<Rightarrow> (msgs, []))
      in case last_opt ms1 of
           Some l \<Rightarrow> if m_role l = Assistant
             then (butlast ms1, iss1 @ [''Removed trailing assistant message'']) else (ms1, iss1)
         | None \<Rightarrow> (ms1, iss1))"

definition populate_if_empty :: "text_env \<Rightarrow> int \<Rightarrow> message list \<Rightarrow> message list \<times> issues" where
  "populate_if_empty te now msgs =
     (if msgs = []
      then ([with_text te ''Hello'' (message_user now)],
            [''Added placeholder user message to empty conversation''])
      else (msgs, []))"

definition fix_passes ::
    "text_env \<Rightarrow> int \<Rightarrow> (message list \<Rightarrow> message list \<times> issues) list" where
  "fix_passes te now =
     [merge_text_content_items, trim_assistant_text_whitespace, remove_empty_messages,
      fix_empty_tool_results te, fix_tool_calling, merge_consecutive_messages,
      dedupe_signed_thinking, fix_lead_trail, populate_if_empty te now]"

definition run_pass ::
    "message list \<times> issues \<Rightarrow> (message list \<Rightarrow> message list \<times> issues)
       \<Rightarrow> message list \<times> issues" where
  "run_pass st p = (fst (p (fst st)), snd st @ snd (p (fst st)))"

definition fix_messages :: "text_env \<Rightarrow> int \<Rightarrow> message list \<Rightarrow> message list \<times> issues" where
  "fix_messages te now msgs = foldl run_pass (msgs, []) (fix_passes te now)"

datatype message_slot = Visible nat | NonVisible message

fun shadow_map :: "nat \<Rightarrow> message list \<Rightarrow> message_slot list" where
  "shadow_map n [] = []"
| "shadow_map n (m # ms) =
     (if is_agent_visible m then Visible n # shadow_map (Suc n) ms
      else NonVisible m # shadow_map n ms)"

definition fill_slot :: "message list \<Rightarrow> message_slot \<Rightarrow> message option" where
  "fill_slot fixed slot = (case slot of Visible i \<Rightarrow> get_opt fixed i | NonVisible m \<Rightarrow> Some m)"

definition fix_conversation :: "text_env \<Rightarrow> int \<Rightarrow> conversation \<Rightarrow> conversation \<times> issues" where
  "fix_conversation te now conv =
     (let (fixed, iss) = fix_messages te now (filter is_agent_visible conv)
      in (filter_map (fill_slot fixed) (shadow_map 0 conv), iss))"

definition validate ::
    "text_env \<Rightarrow> int \<Rightarrow> conversation \<Rightarrow> (string \<times> conversation) + conversation" where
  "validate te now conv =
     (let iss = snd (fix_messages te now conv) in
      if iss \<noteq> [] then Inl (join [NL] iss, conv) else Inr conv)"

definition conversation_new ::
    "text_env \<Rightarrow> int \<Rightarrow> message list \<Rightarrow> (string \<times> conversation) + conversation" where
  "conversation_new te now msgs = validate te now msgs"

subsection \<open>Tool events and pairing\<close>

text \<open>
  What the repair of tool calls promises, stated over the sequence of requests and responses
  of a conversation: \<open>pend\<close> runs the sequence over the set of pending identifiers and has no
  value at a response that answers nothing.
\<close>

datatype tool_event = Req string | Resp string

definition block_event :: "message_content_block \<Rightarrow> tool_event option" where
  "block_event c =
     (case c of ToolRequest r \<Rightarrow> Some (Req (tr_id r)) | ToolResponse r \<Rightarrow> Some (Resp (ts_id r))
      | _ \<Rightarrow> None)"

definition content_events :: "message_content_block list \<Rightarrow> tool_event list" where
  "content_events cs = filter_map block_event cs"

definition tool_events :: "message list \<Rightarrow> tool_event list" where
  "tool_events ms = concat (map (content_events \<circ> m_content) ms)"

fun pend :: "string set \<Rightarrow> tool_event list \<Rightarrow> string set option" where
  "pend S [] = Some S"
| "pend S (Req i # es) = pend (insert i S) es"
| "pend S (Resp i # es) = (if i \<in> S then pend (S - {i}) es else None)"

definition well_paired :: "tool_event list \<Rightarrow> bool" where
  "well_paired es \<longleftrightarrow>
     (\<forall>xs i ys. (es = xs @ Resp i # ys \<longrightarrow> Req i \<in> set xs)
              \<and> (es = xs @ Req i # ys \<longrightarrow> Resp i \<in> set ys))"

definition assistant_request_ids :: "message list \<Rightarrow> string list" where
  "assistant_request_ids ms =
     concat (map (\<lambda>m. if m_role m = Assistant then filter_map request_id (m_content m) else []) ms)"

definition block_fits_role :: "role \<Rightarrow> message_content_block \<Rightarrow> bool" where
  "block_fits_role r c =
     (case c of
        ToolRequest _ \<Rightarrow> r = Assistant
      | ToolConfirmationRequest _ \<Rightarrow> r = Assistant
      | Thinking _ \<Rightarrow> r = Assistant
      | RedactedThinking _ \<Rightarrow> r = Assistant
      | ToolResponse _ \<Rightarrow> r = User
      | _ \<Rightarrow> True)"

definition role_clean :: "message \<Rightarrow> bool" where
  "role_clean m = list_all (block_fits_role (m_role m)) (m_content m)"

definition request_ids_of :: "tool_event list \<Rightarrow> string list" where
  "request_ids_of es = filter_map (\<lambda>e. case e of Req i \<Rightarrow> Some i | Resp _ \<Rightarrow> None) es"

lemma content_events_simps [simp]:
  "content_events [] = []"
  "content_events (xs @ ys) = content_events xs @ content_events ys"
  "content_events (c # cs) =
     (case block_event c of None \<Rightarrow> content_events cs | Some e \<Rightarrow> e # content_events cs)"
  by (simp_all add: content_events_def split: option.split)

lemma tool_events_simps [simp]:
  "tool_events [] = []"
  "tool_events (m # ms) = content_events (m_content m) @ tool_events ms"
  by (simp_all add: tool_events_def)

lemma request_ids_of_simps [simp]:
  "request_ids_of [] = []"
  "request_ids_of (Req i # es) = i # request_ids_of es"
  "request_ids_of (Resp i # es) = request_ids_of es"
  "request_ids_of (es @ fs) = request_ids_of es @ request_ids_of fs"
  by (simp_all add: request_ids_of_def)

lemma set_request_ids_of: "i \<in> set (request_ids_of es) \<longleftrightarrow> Req i \<in> set es"
proof (induction es)
  case (Cons e es)
  then show ?case by (cases e) auto
qed simp

lemma pend_append:
  "pend S (xs @ ys) = Option.bind (pend S xs) (\<lambda>S'. pend S' ys)"
  by (induction S xs rule: pend.induct) auto

lemma pend_subset: "pend S es = Some T \<Longrightarrow> T \<subseteq> S \<union> set (request_ids_of es)"
  by (induction S es arbitrary: T rule: pend.induct) (auto split: if_splits)

lemma pend_keeps: "pend S es = Some T \<Longrightarrow> i \<in> S \<Longrightarrow> Resp i \<notin> set es \<Longrightarrow> i \<in> T"
  by (induction S es arbitrary: T rule: pend.induct) (auto split: if_splits)

lemma pend_well_paired: "pend {} es = Some {} \<Longrightarrow> well_paired es"
  unfolding well_paired_def
proof (intro allI conjI impI)
  fix xs i ys
  assume ok: "pend {} es = Some {}" and es: "es = xs @ Resp i # ys"
  then obtain S where "pend {} xs = Some S" "i \<in> S"
    by (auto simp: pend_append bind_eq_Some_conv split: if_splits)
  with pend_subset [of "{}" xs S] show "Req i \<in> set xs"
    by (auto simp: set_request_ids_of)
next
  fix xs i ys
  assume ok: "pend {} es = Some {}" and es: "es = xs @ Req i # ys"
  then obtain S where "pend (insert i S) ys = Some {}"
    by (auto simp: pend_append bind_eq_Some_conv)
  then show "Resp i \<in> set ys" using pend_keeps by fastforce
qed

text \<open>An identifier that stays pending was never answered, when requests do not reuse one.\<close>

lemma pend_unanswered:
  "pend S es = Some T \<Longrightarrow> distinct (request_ids_of es) \<Longrightarrow> S \<inter> set (request_ids_of es) = {}
     \<Longrightarrow> i \<in> T \<Longrightarrow> Resp i \<notin> set es"
proof (induction S es arbitrary: T rule: pend.induct)
  case (3 S j es)
  then have "pend (S - {j}) es = Some T" by (auto split: if_splits)
  with 3 have "Resp i \<notin> set es" and "T \<subseteq> (S - {j}) \<union> set (request_ids_of es)"
    by (auto split: if_splits dest: pend_subset)
  moreover have "j \<notin> set (request_ids_of es)" using 3 by (auto split: if_splits)
  ultimately show ?case using 3 by auto
qed auto

definition event_id :: "tool_event \<Rightarrow> string" where
  "event_id e = (case e of Req i \<Rightarrow> i | Resp i \<Rightarrow> i)"

lemma pend_restrict:
  "pend S es = Some T \<Longrightarrow> pend (S \<inter> A) (filter (\<lambda>e. event_id e \<in> A) es) = Some (T \<inter> A)"
proof (induction S es arbitrary: T rule: pend.induct)
  case (2 S i es)
  then have IH: "pend (insert i S \<inter> A) (filter (\<lambda>e. event_id e \<in> A) es) = Some (T \<inter> A)"
    by simp
  show ?case
  proof (cases "i \<in> A")
    case True
    then have "insert i S \<inter> A = insert i (S \<inter> A)" by auto
    with IH True show ?thesis by (simp add: event_id_def)
  next
    case False
    then have "insert i S \<inter> A = S \<inter> A" by auto
    with IH False show ?thesis by (simp add: event_id_def)
  qed
next
  case (3 S i es)
  then have i: "i \<in> S"
    and IH: "pend ((S - {i}) \<inter> A) (filter (\<lambda>e. event_id e \<in> A) es) = Some (T \<inter> A)"
    by (auto split: if_splits)
  show ?case
  proof (cases "i \<in> A")
    case True
    then have "(S - {i}) \<inter> A = (S \<inter> A) - {i}" by auto
    with IH True i show ?thesis by (simp add: event_id_def)
  next
    case False
    then have "(S - {i}) \<inter> A = S \<inter> A" by auto
    with IH False show ?thesis by (simp add: event_id_def)
  qed
qed simp

subsection \<open>The two scans\<close>

lemma scan_user_pend:
  "scan_user_content cs P = (kept, P', iss) \<Longrightarrow>
     pend P (content_events kept) = Some P' \<and> list_all (block_fits_role User) kept
     \<and> request_ids_of (content_events kept) = []"
  by (induction cs P arbitrary: kept P' iss rule: scan_user_content.induct)
    (fastforce simp: block_event_def block_fits_role_def
       split: message_content_block.splits prod.splits if_splits)+

lemma scan_assistant_pend:
  "scan_assistant_content cs P = (kept, P', iss) \<Longrightarrow>
     pend P (content_events kept) = Some P' \<and> list_all (block_fits_role Assistant) kept
     \<and> request_ids_of (content_events kept) = filter_map request_id cs"
  by (induction cs P arbitrary: kept P' iss rule: scan_assistant_content.induct)
    (fastforce simp: block_event_def block_fits_role_def request_id_def
       split: message_content_block.splits prod.splits if_splits)+

lemma scan_messages_pend:
  "scan_messages ms P = (ms', P', iss) \<Longrightarrow>
     pend P (tool_events ms') = Some P' \<and> list_all role_clean ms'
     \<and> request_ids_of (tool_events ms') = assistant_request_ids ms"
proof (induction ms arbitrary: P ms' P' iss)
  case Nil
  then show ?case by (simp add: assistant_request_ids_def)
next
  case (Cons m ms)
  obtain kept Q iss1 where a: "scan_content (m_role m) (m_content m) P = (kept, Q, iss1)"
    by (cases "scan_content (m_role m) (m_content m) P") auto
  obtain ms'' R iss2 where b: "scan_messages ms Q = (ms'', R, iss2)"
    by (cases "scan_messages ms Q") auto
  from Cons.prems a b have eq: "ms' = m\<lparr>m_content := kept\<rparr> # ms''" "P' = R" by auto
  have "pend P (content_events kept) = Some Q \<and> list_all (block_fits_role (m_role m)) kept
     \<and> request_ids_of (content_events kept)
         = (if m_role m = Assistant then filter_map request_id (m_content m) else [])"
    using a by (cases "m_role m")
      (auto simp: scan_content_def dest: scan_user_pend scan_assistant_pend)
  with Cons.IH [OF b] eq show ?case
    by (auto simp: pend_append role_clean_def assistant_request_ids_def)
qed

lemma content_events_drop_pending:
  "list_all (block_fits_role Assistant) cs \<Longrightarrow>
     content_events (filter (\<lambda>c. \<not> is_pending_request P c) cs)
       = filter (\<lambda>e. event_id e \<notin> P) (content_events cs)"
  by (induction cs)
    (auto simp: block_event_def block_fits_role_def is_pending_request_def event_id_def
       split: message_content_block.splits)

lemma content_events_user_clean:
  "list_all (block_fits_role User) cs \<Longrightarrow> (\<And>i. i \<in> P \<Longrightarrow> Resp i \<notin> set (content_events cs)) \<Longrightarrow>
     filter (\<lambda>e. event_id e \<notin> P) (content_events cs) = content_events cs"
  by (induction cs)
    (auto simp: block_event_def block_fits_role_def event_id_def
       split: message_content_block.splits)

lemma tool_events_drop_orphaned:
  assumes "list_all role_clean ms" and "\<And>i. i \<in> P \<Longrightarrow> Resp i \<notin> set (tool_events ms)"
  shows "tool_events (fst (drop_orphaned_requests P ms))
           = filter (\<lambda>e. event_id e \<notin> P) (tool_events ms)"
  using assms
proof (induction ms)
  case Nil
  then show ?case by (simp add: drop_orphaned_requests_def)
next
  case (Cons m ms)
  then show ?case
    by (cases "m_role m")
      (auto simp: drop_orphaned_requests_def role_clean_def content_events_drop_pending
         content_events_user_clean)
qed

lemma role_clean_filter: "role_clean m \<Longrightarrow> role_clean (m\<lparr>m_content := filter P (m_content m)\<rparr>)"
  by (auto simp: role_clean_def list_all_iff)

lemma role_clean_drop_orphaned:
  "list_all role_clean ms \<Longrightarrow> list_all role_clean (fst (drop_orphaned_requests P ms))"
  by (induction ms) (auto simp: drop_orphaned_requests_def role_clean_filter)

lemma empty_message_no_events: "is_empty_message m \<Longrightarrow> content_events (m_content m) = []"
proof -
  have "list_all (\<lambda>c. case as_text c of Some t \<Rightarrow> t = [] | None \<Rightarrow> False) cs \<Longrightarrow>
      content_events cs = []" for cs
    by (induction cs)
      (auto simp: as_text_def block_event_def split: message_content_block.splits)
  then show "is_empty_message m \<Longrightarrow> content_events (m_content m) = []"
    by (simp add: is_empty_message_def)
qed

subsection \<open>Repaired tool calls\<close>

lemma remove_empty_events: "tool_events (fst (remove_empty_messages ms)) = tool_events ms"
  by (induction ms) (auto simp: remove_empty_messages_def empty_message_no_events)

lemma fst_fix_tool_calling:
  assumes "scan_messages ms {} = (ms1, P, iss)"
  shows "fst (fix_tool_calling ms)
           = fst (remove_empty_messages (fst (drop_orphaned_requests P ms1)))"
  by (simp add: fix_tool_calling_def assms split_beta)

lemma fix_tool_calling_events:
  assumes "distinct (assistant_request_ids ms)"
  shows "pend {} (tool_events (fst (fix_tool_calling ms))) = Some {}"
proof -
  obtain ms1 P iss where scan: "scan_messages ms {} = (ms1, P, iss)"
    by (cases "scan_messages ms {}") auto
  note S = scan_messages_pend [OF scan]
  then have none: "\<And>i. i \<in> P \<Longrightarrow> Resp i \<notin> set (tool_events ms1)"
    using assms pend_unanswered [of "{}" "tool_events ms1" P] by auto
  have "tool_events (fst (fix_tool_calling ms))
          = tool_events (fst (drop_orphaned_requests P ms1))"
    by (simp add: fst_fix_tool_calling [OF scan] remove_empty_events)
  also have "\<dots> = filter (\<lambda>e. event_id e \<in> - P) (tool_events ms1)"
    using tool_events_drop_orphaned [OF _ none] S by simp
  finally show ?thesis
    using pend_restrict [of "{}" "tool_events ms1" P "- P"] S by simp
qed

lemma fix_tool_calling_fits: "list_all role_clean (fst (fix_tool_calling ms))"
proof -
  obtain ms1 P iss where scan: "scan_messages ms {} = (ms1, P, iss)"
    by (cases "scan_messages ms {}") auto
  then have "list_all role_clean (fst (drop_orphaned_requests P ms1))"
    by (simp add: role_clean_drop_orphaned scan_messages_pend)
  then show ?thesis
    by (auto simp: fst_fix_tool_calling [OF scan] remove_empty_messages_def list_all_iff)
qed

lemma scan_user_clean:
  "pend P (content_events cs) = Some P' \<Longrightarrow> list_all (block_fits_role User) cs \<Longrightarrow>
     scan_user_content cs P = (cs, P', [])"
  by (induction cs P arbitrary: P' rule: scan_user_content.induct)
    (auto simp: block_event_def block_fits_role_def
       split: message_content_block.splits if_splits)

lemma scan_assistant_clean:
  "pend P (content_events cs) = Some P' \<Longrightarrow> list_all (block_fits_role Assistant) cs \<Longrightarrow>
     scan_assistant_content cs P = (cs, P', [])"
  by (induction cs P arbitrary: P' rule: scan_assistant_content.induct)
    (auto simp: block_event_def block_fits_role_def
       split: message_content_block.splits if_splits)

lemma scan_messages_clean:
  "pend P (tool_events ms) = Some P' \<Longrightarrow> list_all role_clean ms \<Longrightarrow>
     scan_messages ms P = (ms, P', [])"
proof (induction ms arbitrary: P)
  case Nil
  then show ?case by simp
next
  case (Cons m ms)
  then obtain Q where Q: "pend P (content_events (m_content m)) = Some Q"
    "pend Q (tool_events ms) = Some P'"
    by (auto simp: pend_append bind_eq_Some_conv)
  with Cons.prems have "scan_content (m_role m) (m_content m) P = (m_content m, Q, [])"
    by (cases "m_role m")
      (auto simp: scan_content_def role_clean_def scan_user_clean scan_assistant_clean)
  with Cons Q show ?case by simp
qed

lemma drop_orphaned_none: "drop_orphaned_requests {} ms = (ms, [])"
proof -
  have none: "is_pending_request {} c = False" for c
    by (simp add: is_pending_request_def split: message_content_block.split)
  show ?thesis
    by (induction ms) (auto simp: drop_orphaned_requests_def map_collect_def none)
qed

lemma fix_tool_calling_fixed:
  assumes "list_all role_clean ms" and "pend {} (tool_events ms) = Some {}"
    and "list_all (\<lambda>m. \<not> is_empty_message m) ms"
  shows "fix_tool_calling ms = (ms, [])"
proof -
  have "filter (\<lambda>m. \<not> is_empty_message m) ms = ms" "filter is_empty_message ms = []"
    using assms(3) by (auto simp: list_all_iff)
  then show ?thesis
    using scan_messages_clean [OF assms(2,1)]
    by (simp add: fix_tool_calling_def drop_orphaned_none remove_empty_messages_def)
qed

lemma fix_tool_calling_nonempty:
  "list_all (\<lambda>m. \<not> is_empty_message m) (fst (fix_tool_calling ms))"
  by (auto simp: fix_tool_calling_def remove_empty_messages_def list_all_iff split_beta)

definition tools_in_order :: "message list \<Rightarrow> bool" where
  "tools_in_order ms \<longleftrightarrow>
     list_all role_clean ms \<and> pend {} (tool_events ms) = Some {}
     \<and> list_all (\<lambda>m. \<not> is_empty_message m) ms"

lemma fix_tool_calling_in_order:
  "distinct (assistant_request_ids ms) \<Longrightarrow> tools_in_order (fst (fix_tool_calling ms))"
  by (simp add: tools_in_order_def fix_tool_calling_fits fix_tool_calling_events
      fix_tool_calling_nonempty)

text \<open>Claim C1 (fix_tool_calling_pairs): when no two tool requests of the assistant share an
  identifier, the repaired conversation has every response after its request and every request
  answered, every block in a message of the role it belongs to, and a second run of the pass
  changes nothing and reports no issue.\<close>

theorem fix_tool_calling_pairs:
  assumes "distinct (assistant_request_ids ms)"
  shows "well_paired (tool_events (fst (fix_tool_calling ms)))
       \<and> list_all role_clean (fst (fix_tool_calling ms))
       \<and> fix_tool_calling (fst (fix_tool_calling ms)) = (fst (fix_tool_calling ms), [])"
  using fix_tool_calling_in_order [OF assms] fix_tool_calling_fixed pend_well_paired
  by (simp add: tools_in_order_def)

text \<open>A conversation whose assistant does not reuse a
  request identifier goes through the pass unchanged and without an issue exactly when its tool
  calls are in order already: the pass removes nothing from a valid conversation and lets no
  invalid one through.\<close>

lemma fix_tool_calling_accepts_iff:
  assumes "distinct (assistant_request_ids ms)"
  shows "fix_tool_calling ms = (ms, []) \<longleftrightarrow>
     list_all role_clean ms \<and> pend {} (tool_events ms) = Some {}
     \<and> list_all (\<lambda>m. \<not> is_empty_message m) ms"
  using fix_tool_calling_in_order [OF assms] fix_tool_calling_fixed [of ms]
  by (auto simp: tools_in_order_def)

subsection \<open>Merging of consecutive messages\<close>

lemma effective_role_role:
  "effective_role_of a = effective_role_of b \<Longrightarrow> m_role a = m_role b"
  by (auto simp: effective_role_of_def split: role.splits if_splits)

lemma effective_role_merge:
  assumes "effective_role_of l = effective_role_of m"
  shows "effective_role_of (l\<lparr>m_content := m_content l @ m_content m\<rparr>) = effective_role_of l"
  using assms
  by (auto simp: effective_role_of_def has_tool_response_def split: role.splits if_splits)

lemma mergeable_merge:
  assumes "mergeable across l m"
  shows "mergeable across x (l\<lparr>m_content := m_content l @ m_content m\<rparr>) = mergeable across x l"
  using assms effective_role_merge [of l m] by (auto simp: mergeable_def)

lemma merge_step_alternates:
  assumes "successively (\<lambda>a b. \<not> mergeable across a b) (fst st)"
  shows "successively (\<lambda>a b. \<not> mergeable across a b) (fst (merge_step across st m))"
proof (cases "fst st" rule: rev_cases)
  case Nil
  then show ?thesis by (simp add: merge_step_def split_beta)
next
  case (snoc ys l)
  with assms show ?thesis
    by (auto simp: merge_step_def split_beta successively_append_iff mergeable_merge)
qed

lemma merge_step_content:
  "concat (map m_content (fst (merge_step across st m)))
     = concat (map m_content (fst st)) @ m_content m"
  by (cases "fst st" rule: rev_cases) (auto simp: merge_step_def split_beta)

lemma merge_consecutive_snoc:
  "merge_consecutive across (ms @ [m]) = merge_step across (merge_consecutive across ms) m"
  by (simp add: merge_consecutive_def)

lemma merge_consecutive_Nil [simp]: "merge_consecutive across [] = ([], [])"
  by (simp add: merge_consecutive_def)

lemma merge_consecutive_alternates:
  "successively (\<lambda>a b. \<not> mergeable across a b) (fst (merge_consecutive across ms))"
  by (induction ms rule: rev_induct) (simp_all add: merge_consecutive_snoc merge_step_alternates)

lemma merge_consecutive_content:
  "concat (map m_content (fst (merge_consecutive across ms))) = concat (map m_content ms)"
  by (induction ms rule: rev_induct) (simp_all add: merge_consecutive_snoc merge_step_content)

text \<open>Merging for a request leaves no two neighbours of the
  same effective role (user, assistant or tool) and keeps every content block, in order.\<close>

lemma merge_for_request_alternates:
  "successively (\<lambda>a b. effective_role_of a \<noteq> effective_role_of b)
     (merge_consecutive_messages_for_request ms)
   \<and> concat (map m_content (merge_consecutive_messages_for_request ms)) = concat (map m_content ms)"
  using merge_consecutive_alternates [of True ms] merge_consecutive_content [of True ms]
  by (simp add: merge_consecutive_messages_for_request_def mergeable_def)

subsection \<open>Duplicate signed thinking\<close>

definition signed_blocks :: "message list \<Rightarrow> message_content_block list" where
  "signed_blocks ms =
     filter is_signed_thinking
       (concat (map m_content (filter (\<lambda>m. m_role m = Assistant) ms)))"

definition without_signed :: "message \<Rightarrow> message" where
  "without_signed m =
     (if m_role m = Assistant
      then m\<lparr>m_content := filter (\<lambda>c. \<not> is_signed_thinking c) (m_content m)\<rparr> else m)"

lemma dedupe_content_spec:
  "dedupe_content seen cs = (kept, seen') \<Longrightarrow>
     distinct (filter is_signed_thinking kept)
     \<and> set (filter is_signed_thinking kept) = set (filter is_signed_thinking cs) - set seen
     \<and> set seen' = set seen \<union> set (filter is_signed_thinking cs)
     \<and> filter (\<lambda>c. \<not> is_signed_thinking c) kept = filter (\<lambda>c. \<not> is_signed_thinking c) cs
     \<and> subseq kept cs"
  by (induction cs arbitrary: seen kept seen')
    (fastforce split: if_splits prod.splits)+

lemma dedupe_step:
  assumes "m_role m = Assistant" "dedupe_content seen (m_content m) = (kept, seen')"
  shows "fst (dedupe_messages seen (m # ms))
           = m\<lparr>m_content := kept\<rparr> # fst (dedupe_messages seen' ms)"
proof -
  have "length kept = length (m_content m) \<Longrightarrow> kept = m_content m"
    using dedupe_content_spec [OF assms(2)] by (auto intro: subseq_same_length)
  with assms show ?thesis by (auto simp: split_beta)
qed

lemma dedupe_skip:
  "m_role m \<noteq> Assistant \<Longrightarrow> fst (dedupe_messages seen (m # ms)) = m # fst (dedupe_messages seen ms)"
  by (simp add: split_beta)

lemma signed_blocks_Cons:
  "signed_blocks (m # ms) =
     (if m_role m = Assistant then filter is_signed_thinking (m_content m) else []) @ signed_blocks ms"
  by (simp add: signed_blocks_def)

lemma dedupe_messages_spec:
  "distinct (signed_blocks (fst (dedupe_messages seen ms)))
   \<and> set (signed_blocks (fst (dedupe_messages seen ms))) = set (signed_blocks ms) - set seen
   \<and> map without_signed (fst (dedupe_messages seen ms)) = map without_signed ms"
proof (induction ms arbitrary: seen)
  case Nil
  then show ?case by (simp add: signed_blocks_def)
next
  case (Cons m ms)
  show ?case
  proof (cases "m_role m = Assistant")
    case True
    obtain kept seen' where d: "dedupe_content seen (m_content m) = (kept, seen')"
      by (cases "dedupe_content seen (m_content m)") auto
    from Cons.IH [of seen'] dedupe_content_spec [OF d] True show ?thesis
      unfolding dedupe_step [OF True d] signed_blocks_Cons
      by (auto simp: without_signed_def)
  next
    case False
    with Cons.IH [of seen] show ?thesis
      unfolding dedupe_skip [OF False] signed_blocks_Cons by simp
  qed
qed

text \<open>No signed or redacted thinking block of the assistant
  occurs twice afterwards, none is lost altogether, and nothing else of a message changes.\<close>

lemma dedupe_signed_thinking_distinct:
  "distinct (signed_blocks (fst (dedupe_signed_thinking ms)))
   \<and> set (signed_blocks (fst (dedupe_signed_thinking ms))) = set (signed_blocks ms)
   \<and> map without_signed (fst (dedupe_signed_thinking ms)) = map without_signed ms"
  using dedupe_messages_spec [of "[]" ms] by (simp add: dedupe_signed_thinking_def)

lemma dedupe_messages_shape:
  "map (\<lambda>m. (m_id m, m_role m, m_metadata m)) (fst (dedupe_messages seen ms))
     = map (\<lambda>m. (m_id m, m_role m, m_metadata m)) ms"
proof (induction ms arbitrary: seen)
  case (Cons m ms)
  show ?case
  proof (cases "m_role m = Assistant")
    case True
    obtain kept seen' where d: "dedupe_content seen (m_content m) = (kept, seen')"
      by (cases "dedupe_content seen (m_content m)") auto
    show ?thesis unfolding dedupe_step [OF True d] by (simp add: Cons.IH)
  next
    case False
    then show ?thesis unfolding dedupe_skip [OF False] by (simp add: Cons.IH)
  qed
qed simp

subsection \<open>Streaming\<close>

definition text_bytes :: "message list \<Rightarrow> string" where
  "text_bytes ms = concat (filter_map as_text (concat (map m_content ms)))"

lemma text_bytes_append [simp]: "text_bytes (a @ b) = text_bytes a @ text_bytes b"
  by (simp add: text_bytes_def)

lemma text_bytes_one: "text_bytes [m] = concat (filter_map as_text (m_content m))"
  by (simp add: text_bytes_def)

lemma merge_delta_text:
  "concat (filter_map as_text (merge_delta old new))
     = concat (filter_map as_text old) @ concat (filter_map as_text new)"
proof (cases old rule: rev_cases)
  case Nil
  then show ?thesis by (simp add: merge_delta_def)
next
  case (snoc xs x)
  show ?thesis
  proof (cases new rule: rev_cases)
    case Nil
    with snoc show ?thesis by (simp add: merge_delta_def split: message_content_block.split)
  next
    case (snoc ys y)
    with \<open>old = xs @ [x]\<close> show ?thesis
      by (cases x; cases y) (simp_all add: merge_delta_def as_text_def)
  qed
qed

lemma absorb_metadata_content [simp]: "m_content (absorb_metadata msg e) = m_content e"
  by (simp add: absorb_metadata_def Let_def)

lemma content_list_update:
  "m_content e = m_content (ms ! i) \<Longrightarrow> map m_content (ms[i := e]) = map m_content ms"
  by (simp add: map_update list_update_same_conv flip: nth_map)
    (metis length_map list_update_beyond list_update_id map_update not_le_imp_less nth_map)

text \<open>Adding a message appends exactly its text: whether the message is
  merged into the last one, absorbed as metadata or appended, no text is lost or doubled.\<close>

lemma push_keeps_text: "text_bytes (push conv msg) = text_bytes conv @ text_bytes [msg]"
proof (cases "m_content msg = [] \<and> (md_inference (m_metadata msg) \<noteq> None
      \<or> md_output_token_limit_reached (m_metadata msg))")
  case True
  then show ?thesis
    by (simp add: push_def Let_def text_bytes_def content_list_update with_visibility_def
        split: option.split)
next
  case False
  then show ?thesis
    by (cases conv rule: rev_cases)
      (auto simp: push_def Let_def text_bytes_def merge_delta_text)
qed

definition text_delta :: "message \<Rightarrow> string \<Rightarrow> string \<Rightarrow> message" where
  "text_delta base i t = base\<lparr>m_id := Some i, m_content := [Text (text_content_new t)]\<rparr>"

lemma absorb_metadata_same [simp]:
  "m_metadata msg = m_metadata e \<Longrightarrow> absorb_metadata msg e = e"
  by (simp add: absorb_metadata_def Let_def split: option.split)

lemma push_text_delta:
  "push (conv @ [text_delta base i s]) (text_delta base i t) = conv @ [text_delta base i (s @ t)]"
  by (simp add: push_def text_delta_def merge_delta_def text_content_new_def)

lemma extend_text_deltas:
  "extend (conv @ [text_delta base i s]) (map (text_delta base i) ts)
     = conv @ [text_delta base i (s @ concat ts)]"
  by (induction ts arbitrary: s) (simp_all add: extend_def push_text_delta)

text \<open>Claim C4 (streamed_text_reassembles): a stream of text deltas that carry one fresh identifier
  ends as a single message whose text is the concatenation of the deltas.\<close>

theorem streamed_text_reassembles:
  assumes "ts \<noteq> []" and "\<And>l. last_opt conv = Some l \<Longrightarrow> m_id l \<noteq> Some i"
  shows "extend conv (map (text_delta base i) ts) = conv @ [text_delta base i (concat ts)]"
proof -
  obtain t ts' where ts: "ts = t # ts'" using assms(1) by (cases ts) auto
  have "push conv (text_delta base i t) = conv @ [text_delta base i t]"
    using assms(2) by (auto simp: push_def text_delta_def split: option.split)
  then show ?thesis
    using extend_text_deltas [of conv base i t ts'] by (simp add: ts extend_def)
qed

lemma filter_for_audience_fixpoint:
  "filter_for_audience b a = Some b' \<Longrightarrow> filter_for_audience b' a = Some b'"
  by (cases b) (auto simp: filter_for_audience_def split: if_splits sum.splits)

text \<open>What a provider sees contains only messages marked for
  the agent, none of them empty, and no block whose audience excludes the assistant.\<close>

lemma agent_visible_messages_sound:
  "\<forall>m \<in> set (agent_visible_messages conv).
     is_agent_visible m \<and> m_content m \<noteq> []
     \<and> (\<forall>b \<in> set (m_content m). filter_for_audience b Assistant = Some b)"
  by (auto simp: agent_visible_messages_def agent_visible_content_def is_agent_visible_def
      set_filter_map filter_for_audience_fixpoint)

subsection \<open>Examples\<close>

definition sample_call :: "string \<Rightarrow> message_content_block" where
  "sample_call i = ToolRequest \<lparr>tr_id = i,
     tr_tool_call = Inr \<lparr>ctp_name = ''shell'', ctp_arguments = None, ctp_rest = JNull\<rparr>,
     tr_metadata = None, tr_tool_meta = None\<rparr>"

definition sample_answer :: "string \<Rightarrow> message_content_block" where
  "sample_answer i = ToolResponse \<lparr>ts_id = i,
     ts_tool_result = Inr \<lparr>ctr_content = [CText (text_content_new ''done'')], ctr_is_error = None,
       ctr_structured = None, ctr_rest = JNull\<rparr>, ts_metadata = None\<rparr>"

definition sample_text :: "string \<Rightarrow> message_content_block" where
  "sample_text s = Text (text_content_new s)"

definition sample_turn :: "message list" where
  "sample_turn =
     [message_new User 1 [sample_text ''go''],
      message_new Assistant 2 [sample_call ''a'', sample_call ''b''],
      message_new User 3 [sample_answer ''a'', sample_answer ''c''],
      message_new Assistant 4 [sample_text ''ok'']]"

definition sample_valid_turn :: "message list" where
  "sample_valid_turn =
     [message_new User 1 [sample_text ''go''],
      message_new Assistant 2 [sample_call ''a''],
      message_new User 3 [sample_answer ''a'']]"

lemmas sample_defs = sample_call_def sample_answer_def sample_text_def sample_turn_def
  sample_valid_turn_def message_new_def text_content_new_def metadata_default_def

lemma sample_turn_ids: "distinct (assistant_request_ids sample_turn)"
  by (simp add: sample_defs assistant_request_ids_def request_id_def)

theorem fix_tool_calling_pairs_witness:
  "distinct (assistant_request_ids sample_turn)
   \<and> tool_events sample_turn = [Req ''a'', Req ''b'', Resp ''a'', Resp ''c'']
   \<and> tool_events (fst (fix_tool_calling sample_turn)) = [Req ''a'', Resp ''a'']
   \<and> well_paired (tool_events (fst (fix_tool_calling sample_turn)))"
proof -
  have "tool_events sample_turn = [Req ''a'', Req ''b'', Resp ''a'', Resp ''c'']"
    by (simp add: sample_defs block_event_def)
  moreover have "tool_events (fst (fix_tool_calling sample_turn)) = [Req ''a'', Resp ''a'']"
    by (simp add: sample_defs block_event_def fix_tool_calling_def scan_content_def
        drop_orphaned_requests_def map_collect_def remove_empty_messages_def is_empty_message_def
        is_pending_request_def as_text_def)
  ultimately show ?thesis using fix_tool_calling_pairs [OF sample_turn_ids] sample_turn_ids by simp
qed

lemma fix_tool_calling_accepts_iff_example:
  "distinct (assistant_request_ids sample_valid_turn)
   \<and> fix_tool_calling sample_valid_turn = (sample_valid_turn, [])"
proof -
  have "distinct (assistant_request_ids sample_valid_turn)"
    by (simp add: sample_defs assistant_request_ids_def request_id_def)
  with fix_tool_calling_accepts_iff [OF this] show ?thesis
    by (simp add: sample_defs role_clean_def block_fits_role_def block_event_def
        is_empty_message_def as_text_def)
qed

theorem streamed_text_reassembles_witness:
  "extend sample_valid_turn (map (text_delta (message_assistant 5) ''m'') [''he'', ''llo''])
     = sample_valid_turn @ [text_delta (message_assistant 5) ''m'' ''hello'']"
  using streamed_text_reassembles [of "[''he'', ''llo'']" sample_valid_turn "''m''" "message_assistant 5"]
  by (simp add: sample_defs last_opt_def)

lemma agent_visible_messages_sound_example:
  "message_new User 1 [sample_text ''go''] \<in> set (agent_visible_messages sample_valid_turn)
   \<and> is_agent_visible (message_new User 1 [sample_text ''go''])"
proof -
  have "message_new User 1 [sample_text ''go''] \<in> set (agent_visible_messages sample_valid_turn)"
    by (simp add: sample_defs agent_visible_messages_def is_agent_visible_def
        agent_visible_content_def filter_for_audience_def audience_of_def audience_allows_def)
  with agent_visible_messages_sound [of sample_valid_turn] show ?thesis by blast
qed

text \<open>
  The hypothesis on identifiers is needed: when the assistant reuses the identifier of an
  answered request, the pass takes both requests for orphans and leaves the response behind.
\<close>

lemma reused_request_id_orphans_response:
  "tool_events (fst (fix_tool_calling
     [message_new Assistant 1 [sample_call ''a''], message_new User 2 [sample_answer ''a''],
      message_new Assistant 3 [sample_call ''a'']])) = [Resp ''a'']"
  by (simp add: sample_defs block_event_def fix_tool_calling_def scan_content_def
        drop_orphaned_requests_def map_collect_def remove_empty_messages_def is_empty_message_def
        is_pending_request_def as_text_def)

end
