(* ===== verification/Conversation_Repair.thy ===== *)
theory Conversation_Repair
  imports Conversation
begin

section \<open>The repair pipeline\<close>

text \<open>
  The contract every pass of \<open>fix_messages\<close> keeps is the locale \<open>repair_pass\<close>: a message that
  comes out has the role and the metadata of one that went in, and no pass makes the
  conversation longer. Each pass of \<open>conversation.rs\<close> is an interpretation, and so is their
  composition; on these rest the facts about \<open>fix_messages\<close> and about \<open>fix_conversation\<close>,
  which repairs the messages the agent sees and puts them back among the hidden ones.
\<close>


locale repair_pass =
  fixes pass :: "message list \<Rightarrow> message list \<times> issues"
  assumes origin: "m' \<in> set (fst (pass ms)) \<Longrightarrow>
      \<exists>m \<in> set ms. m_metadata m' = m_metadata m \<and> m_role m' = m_role m"
    and shrinks: "length (fst (pass ms)) \<le> length ms"
begin

lemma metadata_kept:
  "(\<And>m. m \<in> set ms \<Longrightarrow> P (m_metadata m)) \<Longrightarrow> m' \<in> set (fst (pass ms)) \<Longrightarrow> P (m_metadata m')"
  using origin by metis

lemma visibility_kept:
  "list_all is_agent_visible ms \<Longrightarrow> list_all is_agent_visible (fst (pass ms))"
  unfolding list_all_iff is_agent_visible_def by (blast intro: metadata_kept)

end

definition pass_seq ::
    "(message list \<Rightarrow> message list \<times> issues) list \<Rightarrow> message list \<Rightarrow> message list \<times> issues" where
  "pass_seq ps ms = foldl run_pass (ms, []) ps"

lemma fst_foldl_run_pass: "fst (foldl run_pass st ps) = foldl (\<lambda>ms p. fst (p ms)) (fst st) ps"
  by (induction ps arbitrary: st) (simp_all add: run_pass_def)

lemma fst_pass_seq_simps [simp]:
  "fst (pass_seq [] ms) = ms"
  "fst (pass_seq (p # ps) ms) = fst (pass_seq ps (fst (p ms)))"
  by (simp_all add: pass_seq_def fst_foldl_run_pass run_pass_def)

lemma repair_pass_seq: "\<forall>p \<in> set ps. repair_pass p \<Longrightarrow> repair_pass (pass_seq ps)"
proof (induction ps)
  case Nil
  then show ?case by unfold_locales auto
next
  case (Cons p ps)
  then have p: "repair_pass p" and ps: "repair_pass (pass_seq ps)" by auto
  show ?case
  proof unfold_locales
    fix m' ms
    assume "m' \<in> set (fst (pass_seq (p # ps) ms))"
    then obtain m1 where "m1 \<in> set (fst (p ms))"
      "m_metadata m' = m_metadata m1 \<and> m_role m' = m_role m1"
      using repair_pass.origin [OF ps] by fastforce
    then show "\<exists>m \<in> set ms. m_metadata m' = m_metadata m \<and> m_role m' = m_role m"
      using repair_pass.origin [OF p] by metis
  next
    fix ms
    show "length (fst (pass_seq (p # ps) ms)) \<le> length ms"
      using repair_pass.shrinks [OF p, of ms] repair_pass.shrinks [OF ps, of "fst (p ms)"]
      by simp
  qed
qed

lemma repair_pass_map_collect:
  "(\<And>m. m_metadata (fst (f m)) = m_metadata m \<and> m_role (fst (f m)) = m_role m) \<Longrightarrow>
     repair_pass (map_collect f)"
  by unfold_locales auto

interpretation merge_text: repair_pass merge_text_content_items
  unfolding merge_text_content_items_def [abs_def] merge_text_content_in_message_def Let_def
  by (rule repair_pass_map_collect) simp

interpretation trim_text: repair_pass trim_assistant_text_whitespace
  unfolding trim_assistant_text_whitespace_def [abs_def]
  by (rule repair_pass_map_collect) simp

interpretation drop_empty: repair_pass remove_empty_messages
  by unfold_locales (auto simp: remove_empty_messages_def)

interpretation fill_results: repair_pass "fix_empty_tool_results te" for te
  unfolding fix_empty_tool_results_def [abs_def]
  by (rule repair_pass_map_collect) simp

interpretation drop_orphans: repair_pass "drop_orphaned_requests P" for P
  unfolding drop_orphaned_requests_def [abs_def]
  by (rule repair_pass_map_collect) simp

lemma scan_messages_shape:
  "map (\<lambda>m. (m_role m, m_metadata m)) (fst (scan_messages ms P))
     = map (\<lambda>m. (m_role m, m_metadata m)) ms"
  by (induction ms arbitrary: P) (simp_all add: split_beta Let_def)

lemma shape_origin:
  assumes "map (\<lambda>m. (m_role m, m_metadata m)) ms' = map (\<lambda>m. (m_role m, m_metadata m)) ms"
    and "m' \<in> set ms'"
  shows "\<exists>m \<in> set ms. m_metadata m' = m_metadata m \<and> m_role m' = m_role m"
proof -
  have "(m_role m', m_metadata m') \<in> set (map (\<lambda>m. (m_role m, m_metadata m)) ms)"
    using assms by (metis (mono_tags, lifting) image_eqI set_map)
  then show ?thesis by auto
qed

interpretation tool_calls: repair_pass fix_tool_calling
proof unfold_locales
  fix m' ms
  obtain ms1 P iss where scan: "scan_messages ms {} = (ms1, P, iss)"
    by (cases "scan_messages ms {}") auto
  have shape: "map (\<lambda>m. (m_role m, m_metadata m)) ms1 = map (\<lambda>m. (m_role m, m_metadata m)) ms"
    using scan_messages_shape [of ms "{}"] scan by simp
  show "\<exists>m \<in> set ms. m_metadata m' = m_metadata m \<and> m_role m' = m_role m"
    if "m' \<in> set (fst (fix_tool_calling ms))"
  proof -
    from that obtain m1 where "m1 \<in> set ms1" "m_metadata m' = m_metadata m1" "m_role m' = m_role m1"
      unfolding fst_fix_tool_calling [OF scan] by (metis drop_empty.origin drop_orphans.origin)
    with shape_origin [OF shape] show ?thesis by metis
  qed
  have "length ms1 = length ms" using map_eq_imp_length_eq [OF shape] .
  then show "length (fst (fix_tool_calling ms)) \<le> length ms"
    unfolding fst_fix_tool_calling [OF scan]
    by (metis drop_empty.shrinks drop_orphans.shrinks le_trans)
qed

lemma merge_step_origin:
  assumes "\<And>x. x \<in> set (fst st) \<Longrightarrow> \<exists>m \<in> set ms. m_metadata x = m_metadata m \<and> m_role x = m_role m"
    and "m' \<in> set (fst (merge_step across st y))"
  shows "\<exists>m \<in> set (ms @ [y]). m_metadata m' = m_metadata m \<and> m_role m' = m_role m"
proof (cases "fst st" rule: rev_cases)
  case Nil
  with assms show ?thesis by (auto simp: merge_step_def split_beta)
next
  case (snoc zs l)
  with assms show ?thesis by (auto simp: merge_step_def split_beta split: if_splits)
qed

interpretation merge_roles: repair_pass "merge_consecutive across" for across
proof unfold_locales
  fix m' ms
  show "m' \<in> set (fst (merge_consecutive across ms)) \<Longrightarrow>
      \<exists>m \<in> set ms. m_metadata m' = m_metadata m \<and> m_role m' = m_role m"
  proof (induction ms arbitrary: m' rule: rev_induct)
    case (snoc y ms)
    from snoc.prems have "m' \<in> set (fst (merge_step across (merge_consecutive across ms) y))"
      by (simp add: merge_consecutive_snoc)
    from merge_step_origin [OF snoc.IH this] show ?case .
  qed simp
  have step: "length (fst (merge_step across st y)) \<le> Suc (length (fst st))" for st y
    by (cases "fst st" rule: rev_cases) (auto simp: merge_step_def split_beta)
  show "length (fst (merge_consecutive across ms)) \<le> length ms"
  proof (induction ms rule: rev_induct)
    case (snoc y ms)
    then show ?case
      using step [of "merge_consecutive across ms" y] by (simp add: merge_consecutive_snoc)
  qed simp
qed

interpretation dedupe: repair_pass dedupe_signed_thinking
proof unfold_locales
  fix m' ms
  have shape: "map (\<lambda>m. (m_role m, m_metadata m)) (fst (dedupe_signed_thinking ms))
      = map (\<lambda>m. (m_role m, m_metadata m)) ms"
    using arg_cong [OF dedupe_messages_shape [of "[]" ms], of "map snd"]
    by (simp add: dedupe_signed_thinking_def comp_def)
  show "\<exists>m \<in> set ms. m_metadata m' = m_metadata m \<and> m_role m' = m_role m"
    if "m' \<in> set (fst (dedupe_signed_thinking ms))"
    using shape_origin [OF shape that] .
  show "length (fst (dedupe_signed_thinking ms)) \<le> length ms"
    using map_eq_imp_length_eq [OF shape] by simp
qed

lemma fst_fix_lead_trail:
  "fst (fix_lead_trail ms) =
     (let ms1 = (if ms \<noteq> [] \<and> m_role (hd ms) = Assistant then tl ms else ms)
      in if ms1 \<noteq> [] \<and> m_role (last ms1) = Assistant then butlast ms1 else ms1)"
  by (cases ms) (auto simp: fix_lead_trail_def last_opt_def Let_def)

interpretation lead_trail: repair_pass fix_lead_trail
proof unfold_locales
  fix m' ms
  have sub: "set (fst (fix_lead_trail ms)) \<subseteq> set ms"
    unfolding fst_fix_lead_trail Let_def by (auto dest: in_set_butlastD list.set_sel(2))
  then show "\<exists>m \<in> set ms. m_metadata m' = m_metadata m \<and> m_role m' = m_role m"
    if "m' \<in> set (fst (fix_lead_trail ms))" using that by blast
  show "length (fst (fix_lead_trail ms)) \<le> length ms"
    unfolding fst_fix_lead_trail Let_def by simp
qed


definition repairs :: "text_env \<Rightarrow> (message list \<Rightarrow> message list \<times> issues) list" where
  "repairs te =
     [merge_text_content_items, trim_assistant_text_whitespace, remove_empty_messages,
      fix_empty_tool_results te, fix_tool_calling, merge_consecutive_messages,
      dedupe_signed_thinking, fix_lead_trail]"

lemma repair_pass_merge_messages: "repair_pass merge_consecutive_messages"
  unfolding merge_consecutive_messages_def [abs_def] by (rule merge_roles.repair_pass_axioms)

interpretation all_repairs: repair_pass "pass_seq (repairs te)" for te
  by (rule repair_pass_seq)
    (simp add: repairs_def merge_text.repair_pass_axioms trim_text.repair_pass_axioms
       drop_empty.repair_pass_axioms fill_results.repair_pass_axioms
       tool_calls.repair_pass_axioms repair_pass_merge_messages dedupe.repair_pass_axioms
       lead_trail.repair_pass_axioms)

lemma fst_fix_messages:
  "fst (fix_messages te now ms) = fst (populate_if_empty te now (fst (pass_seq (repairs te) ms)))"
  by (simp add: fix_messages_def fix_passes_def repairs_def pass_seq_def run_pass_def)

subsection \<open>The ends of the repaired conversation\<close>

abbreviation both_assistant :: "role \<Rightarrow> role \<Rightarrow> bool" where
  "both_assistant a b \<equiv> a = Assistant \<and> b = Assistant"

lemma not_assistant_iff: "r \<noteq> Assistant \<longleftrightarrow> r = User"
  by (cases r) auto

lemma fix_lead_trail_ends:
  assumes "successively (\<lambda>a b. \<not> both_assistant a b) (map m_role ms)"
    and "fst (fix_lead_trail ms) \<noteq> []"
  shows "m_role (hd (fst (fix_lead_trail ms))) = User
       \<and> m_role (last (fst (fix_lead_trail ms))) = User"
proof -
  define ms1 where "ms1 = (if ms \<noteq> [] \<and> m_role (hd ms) = Assistant then tl ms else ms)"
  have out: "fst (fix_lead_trail ms)
      = (if ms1 \<noteq> [] \<and> m_role (last ms1) = Assistant then butlast ms1 else ms1)"
    unfolding fst_fix_lead_trail ms1_def by (simp add: Let_def)
  have adj: "successively (\<lambda>a b. \<not> both_assistant a b) (map m_role ms1)"
    using assms(1) by (cases ms) (auto simp: ms1_def successively_Cons)
  have lead: "ms1 \<noteq> [] \<Longrightarrow> m_role (hd ms1) = User"
  proof (cases ms)
    case (Cons m rest)
    assume "ms1 \<noteq> []"
    with assms(1) Cons show ?thesis
      by (cases rest; cases "m_role m") (auto simp: ms1_def not_assistant_iff)
  qed (simp add: ms1_def)
  show ?thesis
  proof (cases "ms1 \<noteq> [] \<and> m_role (last ms1) = Assistant")
    case True
    then obtain ys l where ms1: "ms1 = ys @ [l]" "m_role l = Assistant"
      by (metis append_butlast_last_id)
    with assms(2) out obtain zs k where ys: "ys = zs @ [k]"
      by (cases ys rule: rev_cases) auto
    with adj ms1 have "m_role k \<noteq> Assistant"
      by (auto simp: successively_append_iff)
    then have "m_role k = User" by (cases "m_role k") auto
    with lead ms1 ys out show ?thesis by (cases zs) (auto simp: butlast_append)
  next
    case False
    with assms(2) out have "ms1 \<noteq> []" by auto
    with False lead out show ?thesis by (auto simp: not_assistant_iff)
  qed
qed

lemma dedupe_roles: "map m_role (fst (dedupe_signed_thinking ms)) = map m_role ms"
  using arg_cong [OF dedupe_messages_shape [of "[]" ms], of "map (fst \<circ> snd)"]
  by (simp add: dedupe_signed_thinking_def comp_def)

lemma merge_no_adjacent_assistants:
  assumes "\<And>m. m \<in> set ms \<Longrightarrow> md_user_visible (m_metadata m) = u \<and> md_turn_context (m_metadata m) = t"
  shows "successively (\<lambda>a b. \<not> both_assistant a b)
           (map m_role (fst (merge_consecutive_messages ms)))"
proof -
  let ?out = "fst (merge_consecutive_messages ms)"
  have meta: "md_user_visible (m_metadata m) = u \<and> md_turn_context (m_metadata m) = t"
    if "m \<in> set ?out" for m
    using repair_pass.metadata_kept [OF repair_pass_merge_messages, where
        P = "\<lambda>md. md_user_visible md = u \<and> md_turn_context md = t", OF assms that] .
  have "successively (\<lambda>a b. \<not> mergeable False a b) ?out"
    using merge_consecutive_alternates [of False ms] by (simp add: merge_consecutive_messages_def)
  then have "successively (\<lambda>a b. \<not> both_assistant (m_role a) (m_role b)) ?out"
    by (rule successively_mono) (auto simp: mergeable_def meta effective_role_of_def)
  then show ?thesis by (simp add: successively_map)
qed

text \<open>Claim C2 (fix_messages_ends_with_user): when the messages agree on their visibility to the user
  and on being turn context, the repaired conversation is not empty and starts and ends with a
  message of the user, as providers demand.\<close>

theorem fix_messages_ends_with_user:
  assumes "\<And>m. m \<in> set ms \<Longrightarrow> md_user_visible (m_metadata m) = u \<and> md_turn_context (m_metadata m) = t"
  shows "fst (fix_messages te now ms) \<noteq> []
       \<and> m_role (hd (fst (fix_messages te now ms))) = User
       \<and> m_role (last (fst (fix_messages te now ms))) = User"
proof -
  define pre where "pre = [merge_text_content_items, trim_assistant_text_whitespace,
     remove_empty_messages, fix_empty_tool_results te, fix_tool_calling]"
  define ms5 where "ms5 = fst (pass_seq pre ms)"
  define ms7 where "ms7 = fst (dedupe_signed_thinking (fst (merge_consecutive_messages ms5)))"
  have pre: "repair_pass (pass_seq pre)"
    by (rule repair_pass_seq)
      (simp add: pre_def merge_text.repair_pass_axioms trim_text.repair_pass_axioms
         drop_empty.repair_pass_axioms fill_results.repair_pass_axioms
         tool_calls.repair_pass_axioms)
  have out: "fst (fix_messages te now ms) = fst (populate_if_empty te now (fst (fix_lead_trail ms7)))"
    by (simp add: fst_fix_messages repairs_def ms7_def ms5_def pre_def)
  have meta: "md_user_visible (m_metadata m) = u \<and> md_turn_context (m_metadata m) = t"
    if "m \<in> set ms5" for m
    using repair_pass.metadata_kept [OF pre, where
        P = "\<lambda>md. md_user_visible md = u \<and> md_turn_context md = t", OF assms]
      that unfolding ms5_def by blast
  have "successively (\<lambda>a b. \<not> both_assistant a b) (map m_role ms7)"
    using merge_no_adjacent_assistants [OF meta] by (simp add: ms7_def dedupe_roles)
  from fix_lead_trail_ends [OF this] show ?thesis
    unfolding out
    by (auto simp: populate_if_empty_def message_user_def message_new_def with_text_def
        with_content_def)
qed

subsection \<open>Putting the repaired messages back\<close>

lemma fill_shadow_map:
  assumes "list_all is_agent_visible fixed"
  shows "filter is_agent_visible (filter_map (fill_slot fixed) (shadow_map n conv))
           = take (length (filter is_agent_visible conv)) (drop n fixed)
       \<and> filter (\<lambda>m. \<not> is_agent_visible m) (filter_map (fill_slot fixed) (shadow_map n conv))
           = filter (\<lambda>m. \<not> is_agent_visible m) conv"
proof (induction conv arbitrary: n)
  case Nil
  then show ?case by simp
next
  case (Cons m conv)
  show ?case
  proof (cases "is_agent_visible m")
    case False
    with Cons show ?thesis by (simp add: fill_slot_def)
  next
    case vis: True
    show ?thesis
    proof (cases "n < length fixed")
      case True
      then have "drop n fixed = fixed ! n # drop (Suc n) fixed" by (rule Cons_nth_drop_Suc [symmetric])
      moreover have "is_agent_visible (fixed ! n)" using True assms by (simp add: list_all_length)
      ultimately show ?thesis using Cons [of "Suc n"] vis True
        by (simp add: fill_slot_def get_opt_def)
    next
      case False
      with Cons [of "Suc n"] vis show ?thesis by (simp add: fill_slot_def get_opt_def)
    qed
  qed
qed

lemma fix_messages_visible:
  assumes "list_all is_agent_visible ms"
  shows "list_all is_agent_visible (fst (fix_messages te now ms))"
proof (cases "fst (pass_seq (repairs te) ms) = []")
  case True
  then show ?thesis
    by (simp add: fst_fix_messages populate_if_empty_def message_user_def message_new_def
        with_text_def with_content_def metadata_default_def is_agent_visible_def)
next
  case False
  with all_repairs.visibility_kept [OF assms] show ?thesis
    by (simp add: fst_fix_messages populate_if_empty_def)
qed

lemma fix_messages_length: "ms \<noteq> [] \<Longrightarrow> length (fst (fix_messages te now ms)) \<le> length ms"
  using all_repairs.shrinks [of te ms]
  by (cases ms) (auto simp: fst_fix_messages populate_if_empty_def)

text \<open>The repair of a conversation keeps the messages
  hidden from the agent, all of them, unchanged and in order.\<close>

lemma fix_conversation_keeps_hidden:
  "filter (\<lambda>m. \<not> is_agent_visible m) (fst (fix_conversation te now conv))
     = filter (\<lambda>m. \<not> is_agent_visible m) conv"
  using fill_shadow_map [OF fix_messages_visible, of "filter is_agent_visible conv" te now 0 conv]
  by (simp add: fix_conversation_def split_beta list_all_iff)

text \<open>Claim C3 (fix_conversation_visible): the repair of a conversation touches what the agent sees only.
  When the agent sees at least one message, what it sees afterwards is exactly what
  \<open>fix_messages\<close> makes of the messages it saw before: putting them back among the hidden ones
  loses none. When it sees none, it sees none afterwards, and the placeholder is not placed. The
  messages hidden from it stay, all of them, unchanged and in order.\<close>

theorem fix_conversation_visible:
  "filter is_agent_visible (fst (fix_conversation te now conv))
     = (if list_ex is_agent_visible conv then fst (fix_messages te now (filter is_agent_visible conv)) else [])
   \<and> filter (\<lambda>m. \<not> is_agent_visible m) (fst (fix_conversation te now conv))
     = filter (\<lambda>m. \<not> is_agent_visible m) conv"
proof -
  let ?vis = "filter is_agent_visible conv"
  have vis: "?vis \<noteq> [] \<longleftrightarrow> list_ex is_agent_visible conv" by (auto simp: list_ex_iff filter_empty_conv)
  then have "length (fst (fix_messages te now ?vis)) \<le> length ?vis" if "list_ex is_agent_visible conv"
    using that fix_messages_length by blast
  with vis fill_shadow_map [OF fix_messages_visible, of ?vis te now 0 conv] fix_conversation_keeps_hidden [of te now conv]
  show ?thesis by (cases "?vis = []") (simp_all add: fix_conversation_def split_beta list_all_iff)
qed

subsection \<open>Examples\<close>

definition sample_env :: text_env where
  "sample_env = \<lparr>te_nfc = (\<lambda>s. s), te_b64_decode = (\<lambda>_. None), te_b64_encode = (\<lambda>s. s)\<rparr>"

theorem fix_messages_ends_with_user_witness:
  "m_role (last sample_turn) = Assistant
   \<and> m_role (last (fst (fix_messages sample_env 0 sample_turn))) = User"
proof
  show "m_role (last sample_turn) = Assistant" by (simp add: sample_defs)
  have "md_user_visible (m_metadata m) = True \<and> md_turn_context (m_metadata m) = False"
    if "m \<in> set sample_turn" for m
    using that by (auto simp: sample_defs)
  then show "m_role (last (fst (fix_messages sample_env 0 sample_turn))) = User"
    using fix_messages_ends_with_user [of sample_turn True False sample_env 0] by blast
qed

theorem fix_conversation_visible_witness:
  "filter is_agent_visible (fst (fix_conversation sample_env 0 sample_turn))
     = fst (fix_messages sample_env 0 (filter is_agent_visible sample_turn))"
  using fix_conversation_visible [of sample_env 0 sample_turn]
  by (simp add: sample_defs is_agent_visible_def)

text \<open>
  Without the uniform visibility the conversation can end with the assistant: two neighbouring
  assistant messages that differ in it are not merged, and only one of them is removed.
\<close>

lemma hidden_assistant_trails:
  "map m_role (fst (fix_messages sample_env 0
     [message_new User 1 [sample_text ''go''],
      message_new Assistant 2 [sample_text ''ok''],
      (message_new Assistant 3 [sample_text ''so''])\<lparr>m_metadata := metadata_agent_only\<rparr>]))
   = [User, Assistant]"
  by code_simp

text \<open>
  A conversation in which the agent sees nothing gets no placeholder: the slots of the visible
  messages are filled from the repaired list, and there is no slot for it.
\<close>

lemma placeholder_not_placed:
  "fix_conversation sample_env 0 []
     = ([], [''Added placeholder user message to empty conversation''])"
  by code_simp

text \<open>
  The removal of duplicate thinking runs after the removal of empty messages, so it can leave
  an assistant message without content.
\<close>

lemma dedupe_leaves_empty_message:
  "map m_content (fst (fix_messages sample_env 0
     [message_new User 1 [sample_text ''go''],
      message_new Assistant 2 [RedactedThinking ''x''],
      message_new User 3 [sample_text ''so''],
      message_new Assistant 4 [RedactedThinking ''x''],
      message_new User 5 [sample_text ''on'']]))
   = [[sample_text ''go''], [RedactedThinking ''x''], [sample_text ''so''], [],
      [sample_text ''on'']]"
  by code_simp

end
