(* ===== verification/Tool_Request.thy ===== *)
theory Tool_Request
  imports Message
begin

section \<open>Tool requests\<close>

text \<open>
  \<open>conversation/tool_request.rs\<close>: how the name of a tool is split into extension and tool,
  and what is read from the metadata a request carries. \<open>strip_prefix\<close> is the one of Rust's
  \<open>str\<close>; the conversion of the provider index to \<open>i32\<close> keeps the low 32 bits.
\<close>

record tool_name_parts =
  tnp_extension_name :: "string option"
  tnp_tool_name :: string

record tool_chain_summary =
  tcs_summary :: string
  tcs_count :: u64

definition TOOL_META_EXTERNAL_DISPATCH_KEY :: string where
  "TOOL_META_EXTERNAL_DISPATCH_KEY = ''goose.external_dispatch''"

definition TOOL_META_TITLE_KEY :: string where
  "TOOL_META_TITLE_KEY = ''goose.toolSummary.title''"

definition TOOL_META_PROVIDER_INDEX_KEY :: string where
  "TOOL_META_PROVIDER_INDEX_KEY = ''goose.toolCall.providerIndex''"

definition TOOL_META_CHAIN_SUMMARY_KEY :: string where
  "TOOL_META_CHAIN_SUMMARY_KEY = ''goose.toolChain.summary''"

definition strip_prefix :: "string \<Rightarrow> string \<Rightarrow> string option" where
  "strip_prefix p s = (if prefix p s then Some (drop (length p) s) else None)"

definition tool_name_parts_from :: "string \<Rightarrow> tool_name_parts" where
  "tool_name_parts_from name =
     (case split_once ''__'' name of
        Some (e, t) \<Rightarrow> \<lparr>tnp_extension_name = Some e, tnp_tool_name = t\<rparr>
      | None \<Rightarrow> \<lparr>tnp_extension_name = None, tnp_tool_name = name\<rparr>)"

definition tool_meta_get :: "string \<Rightarrow> tool_request \<Rightarrow> json option" where
  "tool_meta_get k r = Option.bind (tr_tool_meta r) (json_get k)"

definition tool_name_parts_of :: "tool_request \<Rightarrow> tool_name_parts option" where
  "tool_name_parts_of r =
     (case tr_tool_call r of
        Inl _ \<Rightarrow> None
      | Inr call \<Rightarrow>
          (let name = ctp_name call; parts = tool_name_parts_from name in
           case Option.bind (tool_meta_get ''goose_extension'' r) as_str of
             Some e \<Rightarrow>
               Some \<lparr>tnp_extension_name = Some e,
                 tnp_tool_name =
                   (case Option.bind (strip_prefix e name) (strip_prefix ''__'') of
                      Some t \<Rightarrow> t | None \<Rightarrow> tnp_tool_name parts)\<rparr>
           | None \<Rightarrow> Some parts))"

definition was_executed_externally :: "tool_request \<Rightarrow> bool" where
  "was_executed_externally r =
     (case Option.bind (tool_meta_get TOOL_META_EXTERNAL_DISPATCH_KEY r) as_bool of
        Some b \<Rightarrow> b | None \<Rightarrow> False)"

definition generated_title :: "tool_request \<Rightarrow> string option" where
  "generated_title r = Option.bind (tool_meta_get TOOL_META_TITLE_KEY r) as_str"

definition provider_index :: "tool_request \<Rightarrow> i32 option" where
  "provider_index r =
     map_option word_of_int (Option.bind (tool_meta_get TOOL_META_PROVIDER_INDEX_KEY r) as_i64)"

definition generated_chain_summary :: "tool_request \<Rightarrow> tool_chain_summary option" where
  "generated_chain_summary r =
     (case tool_meta_get TOOL_META_CHAIN_SUMMARY_KEY r of
        None \<Rightarrow> None
      | Some obj \<Rightarrow>
          (case Option.bind (json_get ''summary'' obj) as_str of
             None \<Rightarrow> None
           | Some summary \<Rightarrow>
               (case Option.bind (json_get ''count'' obj) as_u64 of
                  None \<Rightarrow> None
                | Some n \<Rightarrow>
                    if n = 0 then None
                    else Some \<lparr>tcs_summary = summary, tcs_count = n\<rparr>)))"

lemma str_find_prefix_free:
  "p \<noteq> [] \<Longrightarrow> str_find p (a @ butlast p) = None \<Longrightarrow> str_find p (a @ p @ s) = Some (length a)"
proof (induction a)
  case Nil
  then show ?case by (cases "p @ s") (auto intro: prefixI [of "_ # _", OF sym])
next
  case (Cons c a)
  have "\<not> prefix p (c # a @ p @ s)"
  proof
    assume pre: "prefix p (c # a @ p @ s)"
    have "length p \<le> length (c # a @ butlast p)" using Cons.prems(1) by (cases p) auto
    moreover have "prefix (c # a @ butlast p) (c # a @ p @ s)"
      by (metis append_assoc append_butlast_last_id append_Cons Cons.prems(1) prefixI)
    ultimately have "prefix p (c # a @ butlast p)"
      using pre prefix_length_prefix by blast
    with Cons.prems(2) show False by simp
  qed
  moreover have "str_find p (a @ butlast p) = None"
    using Cons.prems by (auto split: if_splits)
  ultimately show ?case using Cons by simp
qed

text \<open>An extension and a tool name joined by a double
  underscore are split again, with the metadata's extension name always and without it when the
  first double underscore is the joint; the tool name may contain further ones.\<close>

lemma tool_name_parts_roundtrip:
  assumes "tr_tool_call r = Inr call" and "ctp_name call = e @ ''__'' @ t"
    and "Option.bind (tool_meta_get ''goose_extension'' r) as_str = Some e
      \<or> (Option.bind (tool_meta_get ''goose_extension'' r) as_str = None
          \<and> str_find ''__'' (e @ ''_'') = None)"
  shows "tool_name_parts_of r = Some \<lparr>tnp_extension_name = Some e, tnp_tool_name = t\<rparr>"
  using assms(3)
proof
  assume "Option.bind (tool_meta_get ''goose_extension'' r) as_str = Some e"
  with assms(1,2) show ?thesis
    by (simp add: tool_name_parts_of_def strip_prefix_def Let_def)
next
  assume meta: "Option.bind (tool_meta_get ''goose_extension'' r) as_str = None
      \<and> str_find ''__'' (e @ ''_'') = None"
  then have "str_find ''__'' (e @ ''__'' @ t) = Some (length e)"
    by (intro str_find_prefix_free) simp_all
  with meta assms(1,2) show ?thesis
    by (simp add: tool_name_parts_of_def tool_name_parts_from_def split_once_def Let_def)
qed

definition sample_tool_request :: tool_request where
  "sample_tool_request =
     \<lparr>tr_id = ''1'', tr_tool_call = Inr \<lparr>ctp_name = ''dev__run__all'', ctp_arguments = None,
        ctp_rest = JNull\<rparr>, tr_metadata = None, tr_tool_meta = None\<rparr>"

lemma tool_name_parts_roundtrip_example:
  "tool_name_parts_of sample_tool_request
     = Some \<lparr>tnp_extension_name = Some ''dev'', tnp_tool_name = ''run__all''\<rparr>"
  by (rule tool_name_parts_roundtrip [of _ "\<lparr>ctp_name = ''dev__run__all'', ctp_arguments = None,
      ctp_rest = JNull\<rparr>"]) (simp_all add: sample_tool_request_def tool_meta_get_def)

end
