(* ===== verification/Token_Usage.thy ===== *)
theory Token_Usage
  imports Message
begin

section \<open>Token usage\<close>

text \<open>
  \<open>conversation/token_usage.rs\<close>: the counts a provider reports for one request and how they
  are added up over a session. The counts are \<open>i32\<close>, a 32-bit word read with \<open>sint\<close>;
  \<open>saturating_add\<close> clamps, while the \<open>+\<close> of \<open>sum_optionals\<close> is the one of a release build,
  which wraps around.
\<close>

definition saturating_add :: "i32 \<Rightarrow> i32 \<Rightarrow> i32" where
  "saturating_add a b =
     (let s = sint a + sint b in
      if s > 2 ^ 31 - 1 then word_of_int (2 ^ 31 - 1)
      else if s < - (2 ^ 31) then word_of_int (- (2 ^ 31))
      else word_of_int s)"

record usage =
  u_input_tokens :: "i32 option"
  u_output_tokens :: "i32 option"
  u_total_tokens :: "i32 option"
  u_cache_read_input_tokens :: "i32 option"
  u_cache_write_input_tokens :: "i32 option"

record provider_stats =
  ps_time_to_first_token_ms :: "u64 option"
  ps_model_load_ms :: "u64 option"
  ps_elapsed_ms :: "u64 option"
  ps_output_tokens :: "nat option"

record provider_usage =
  pu_model :: string
  pu_usage :: usage
  pu_stats :: "provider_stats option"
  pu_cost :: "f64_bits option"
  pu_cost_source :: "cost_source option"
  pu_finish_reasons :: "string list option"
  pu_response_id :: "string option"
  pu_additional_data :: "json_object option"

definition sum_optionals :: "i32 option \<Rightarrow> i32 option \<Rightarrow> i32 option" where
  "sum_optionals a b =
     (case (a, b) of
        (Some x, Some y) \<Rightarrow> Some (x + y)
      | (Some x, None) \<Rightarrow> Some x
      | (None, Some y) \<Rightarrow> Some y
      | (None, None) \<Rightarrow> None)"

definition usage_new :: "i32 option \<Rightarrow> i32 option \<Rightarrow> i32 option \<Rightarrow> usage" where
  "usage_new inp outp tot =
     (let calculated =
        (if tot = None
         then (case (inp, outp) of
                 (Some i, Some out) \<Rightarrow> Some (saturating_add i out)
               | (Some i, None) \<Rightarrow> Some i
               | (None, Some out) \<Rightarrow> Some out
               | (None, None) \<Rightarrow> None)
         else tot)
      in \<lparr>u_input_tokens = inp, u_output_tokens = outp, u_total_tokens = calculated,
          u_cache_read_input_tokens = None, u_cache_write_input_tokens = None\<rparr>)"

definition with_cache_tokens :: "i32 option \<Rightarrow> i32 option \<Rightarrow> usage \<Rightarrow> usage" where
  "with_cache_tokens r w u =
     u\<lparr>u_cache_read_input_tokens := r, u_cache_write_input_tokens := w\<rparr>"

definition usage_add :: "usage \<Rightarrow> usage \<Rightarrow> usage" where
  "usage_add a b =
     with_cache_tokens
       (sum_optionals (u_cache_read_input_tokens a) (u_cache_read_input_tokens b))
       (sum_optionals (u_cache_write_input_tokens a) (u_cache_write_input_tokens b))
       (usage_new
         (sum_optionals (u_input_tokens a) (u_input_tokens b))
         (sum_optionals (u_output_tokens a) (u_output_tokens b))
         (sum_optionals (u_total_tokens a) (u_total_tokens b)))"

definition unwrap_or :: "'a option \<Rightarrow> 'a \<Rightarrow> 'a" where
  "unwrap_or v d = (case v of Some x \<Rightarrow> x | None \<Rightarrow> d)"

definition from_cache_exclusive_input ::
    "i32 option \<Rightarrow> i32 option \<Rightarrow> i32 option \<Rightarrow> i32 option \<Rightarrow> i32 option \<Rightarrow> usage" where
  "from_cache_exclusive_input inp outp tot r w =
     (let cache = saturating_add (unwrap_or r 0) (unwrap_or w 0) in
      with_cache_tokens r w
        (usage_new (map_option (\<lambda>v. saturating_add v cache) inp) outp
           (map_option (\<lambda>v. saturating_add v cache) tot)))"

definition provider_usage_new :: "string \<Rightarrow> usage \<Rightarrow> provider_usage" where
  "provider_usage_new model u =
     \<lparr>pu_model = model, pu_usage = u, pu_stats = None, pu_cost = None, pu_cost_source = None,
      pu_finish_reasons = None, pu_response_id = None, pu_additional_data = None\<rparr>"

definition with_cost :: "f64_bits \<Rightarrow> cost_source \<Rightarrow> provider_usage \<Rightarrow> provider_usage" where
  "with_cost c src pu = pu\<lparr>pu_cost := Some c, pu_cost_source := Some src\<rparr>"

definition from_provider_usage :: "provider_usage \<Rightarrow> bool \<Rightarrow> message_usage" where
  "from_provider_usage pu is_compaction =
     (let u = pu_usage pu; stats = pu_stats pu in
      \<lparr>mu_input_tokens = u_input_tokens u, mu_output_tokens = u_output_tokens u,
       mu_total_tokens = u_total_tokens u, mu_cache_read_tokens = u_cache_read_input_tokens u,
       mu_cache_write_tokens = u_cache_write_input_tokens u, mu_cost = pu_cost pu,
       mu_cost_source = pu_cost_source pu, mu_elapsed_ms = Option.bind stats ps_elapsed_ms,
       mu_time_to_first_token_ms = Option.bind stats ps_time_to_first_token_ms,
       mu_is_compaction = is_compaction\<rparr>)"

subsection \<open>Saturation\<close>

lemma sint_word_of_int_i32:
  "- (2 ^ 31) \<le> s \<Longrightarrow> s < 2 ^ 31 \<Longrightarrow> sint (word_of_int s :: i32) = s"
  by (simp add: signed_of_int signed_take_bit_int_eq_self)

lemma sint_saturating_add:
  "sint (saturating_add a b) = max (- (2 ^ 31)) (min (2 ^ 31 - 1) (sint a + sint b))"
  using sint_word_of_int_i32 [of "sint a + sint b"]
  by (auto simp: saturating_add_def Let_def max_def min_def simp del: of_int_add)

subsection \<open>Sums over a session\<close>

text \<open>A usage built by the constructors has a total as soon as it has one of its parts.\<close>

definition usage_ok :: "usage \<Rightarrow> bool" where
  "usage_ok u \<longleftrightarrow>
     (u_total_tokens u = None \<longrightarrow> u_input_tokens u = None \<and> u_output_tokens u = None)"

lemma sum_optionals_simps [simp]:
  "sum_optionals None b = b" "sum_optionals a None = a"
  "sum_optionals (Some x) (Some y) = Some (x + y)"
  by (simp_all add: sum_optionals_def split: option.split)

lemma sum_optionals_None [simp]: "sum_optionals a b = None \<longleftrightarrow> a = None \<and> b = None"
  by (simp add: sum_optionals_def split: option.split)

lemma sum_optionals_assoc:
  "sum_optionals (sum_optionals a b) c = sum_optionals a (sum_optionals b c)"
  by (cases a; cases b; cases c) (simp_all add: add.assoc)

lemma sum_optionals_commute: "sum_optionals a b = sum_optionals b a"
  by (cases a; cases b) (simp_all add: add.commute)

lemma usage_new_ok: "usage_ok (usage_new i out t)"
  by (auto simp: usage_ok_def usage_new_def Let_def split: option.splits if_splits)

lemma usage_add_fields:
  assumes "usage_ok a" "usage_ok b"
  shows "usage_add a b =
    \<lparr>u_input_tokens = sum_optionals (u_input_tokens a) (u_input_tokens b),
     u_output_tokens = sum_optionals (u_output_tokens a) (u_output_tokens b),
     u_total_tokens = sum_optionals (u_total_tokens a) (u_total_tokens b),
     u_cache_read_input_tokens =
       sum_optionals (u_cache_read_input_tokens a) (u_cache_read_input_tokens b),
     u_cache_write_input_tokens =
       sum_optionals (u_cache_write_input_tokens a) (u_cache_write_input_tokens b)\<rparr>"
  using assms
  by (auto simp: usage_add_def with_cache_tokens_def usage_new_def Let_def usage_ok_def)

lemma usage_add_ok: "usage_ok (usage_add a b)"
  using usage_new_ok by (simp add: usage_add_def with_cache_tokens_def usage_ok_def)

text \<open>A running sum of reports, in the order they arrive.\<close>

locale report_sum =
  fixes add :: "'a \<Rightarrow> 'a \<Rightarrow> 'a" and valid :: "'a \<Rightarrow> bool"
  assumes closed: "valid a \<Longrightarrow> valid b \<Longrightarrow> valid (add a b)"
    and assoc: "valid a \<Longrightarrow> valid b \<Longrightarrow> valid c \<Longrightarrow> add (add a b) c = add a (add b c)"
    and commute: "valid a \<Longrightarrow> valid b \<Longrightarrow> add a b = add b a"
begin

lemma foldl_valid: "valid z \<Longrightarrow> \<forall>u \<in> set us. valid u \<Longrightarrow> valid (foldl add z us)"
  by (induction us arbitrary: z) (simp_all add: closed)

lemma foldl_shift:
  "valid z \<Longrightarrow> valid u \<Longrightarrow> \<forall>u \<in> set us. valid u \<Longrightarrow>
     foldl add (add z u) us = add (foldl add z us) u"
proof (induction us arbitrary: z)
  case (Cons v us)
  then have "add (add z u) v = add (add z v) u" by (metis assoc commute list.set_intros(1))
  with Cons show ?case by (simp add: closed)
qed simp

lemma foldl_remove1:
  "valid z \<Longrightarrow> \<forall>u \<in> set us. valid u \<Longrightarrow> v \<in> set us \<Longrightarrow>
     foldl add z us = add (foldl add z (remove1 v us)) v"
proof (induction us arbitrary: z)
  case (Cons u us)
  then show ?case
    by (cases "u = v") (auto simp: foldl_shift closed dest: notin_set_remove1)
qed simp

lemma order_irrelevant:
  "valid z \<Longrightarrow> \<forall>u \<in> set us. valid u \<Longrightarrow> mset us = mset vs \<Longrightarrow>
     foldl add z us = foldl add z vs"
proof (induction vs arbitrary: us rule: rev_induct)
  case (snoc v vs)
  then have mem: "v \<in> set us" by (metis in_set_conv_decomp mset_eq_setD)
  have "mset (remove1 v us) = mset vs" using snoc.prems(3) by (simp add: mset_remove1)
  moreover have "\<forall>u \<in> set (remove1 v us). valid u"
    using snoc.prems(2) by (auto dest: notin_set_remove1)
  ultimately have "foldl add z (remove1 v us) = foldl add z vs"
    using snoc by blast
  with foldl_remove1 [OF snoc.prems(1,2) mem] show ?case by simp
qed simp

end

interpretation token_sum: report_sum usage_add usage_ok
proof unfold_locales
  fix a b c
  show "usage_ok (usage_add a b)" by (rule usage_add_ok)
  assume "usage_ok a" "usage_ok b" "usage_ok c"
  then show "usage_add (usage_add a b) c = usage_add a (usage_add b c)"
    by (simp add: usage_add_fields [of "usage_add a b" c] usage_add_fields [of a "usage_add b c"]
        usage_add_ok) (simp add: usage_add_fields sum_optionals_assoc)
next
  fix a b
  show "usage_ok a \<Longrightarrow> usage_ok b \<Longrightarrow> usage_add a b = usage_add b a"
    using sum_optionals_commute by (simp add: usage_add_fields)
qed

text \<open>The token counts of a session do not depend on the
  order in which the reports of its requests are added, and the sum has a total whenever it has
  an input or an output count.\<close>

lemma usage_sum_any_order:
  assumes "usage_ok z" and "\<forall>u \<in> set us. usage_ok u" and "mset us = mset vs"
  shows "foldl usage_add z us = foldl usage_add z vs \<and> usage_ok (foldl usage_add z us)"
  using token_sum.order_irrelevant [OF assms] token_sum.foldl_valid [OF assms(1,2)] by simp

text \<open>For providers that report input without cached
  tokens the folded usage has its cache counts as parts of the input count, for counts that are
  not negative, also where the sum saturates.\<close>

lemma cache_tokens_within_input:
  assumes "0 \<le> sint i" "0 \<le> sint r" "0 \<le> sint w"
  shows "\<exists>n. u_input_tokens (from_cache_exclusive_input (Some i) out tot (Some r) (Some w)) = Some n
     \<and> sint n = min (2 ^ 31 - 1) (sint i + sint r + sint w)
     \<and> sint r \<le> sint n \<and> sint w \<le> sint n"
proof -
  have "sint r \<le> 2 ^ 31 - 1" "sint w \<le> 2 ^ 31 - 1" "sint i \<le> 2 ^ 31 - 1"
    using sint_lt [of r] sint_lt [of w] sint_lt [of i] by simp_all
  with assms show ?thesis
    by (auto simp: from_cache_exclusive_input_def with_cache_tokens_def usage_new_def Let_def
        unwrap_or_def sint_saturating_add)
qed

lemma usage_sum_any_order_example:
  "foldl usage_add (usage_new None None None)
     [usage_new (Some 5) (Some 2) None, usage_new (Some 1) None (Some 9)]
   = foldl usage_add (usage_new None None None)
     [usage_new (Some 1) None (Some 9), usage_new (Some 5) (Some 2) None]"
  using usage_sum_any_order [of "usage_new None None None"
      "[usage_new (Some 5) (Some 2) None, usage_new (Some 1) None (Some 9)]"
      "[usage_new (Some 1) None (Some 9), usage_new (Some 5) (Some 2) None]"]
  by (simp add: usage_new_ok add_mset_commute)

lemma cache_tokens_within_input_example:
  "\<exists>n. u_input_tokens (from_cache_exclusive_input (Some 10) (Some 50) (Some 60) (Some 5000) (Some 1000))
     = Some n \<and> sint n = 6010"
proof -
  have "0 \<le> sint (10 :: i32)" "0 \<le> sint (5000 :: i32)" "0 \<le> sint (1000 :: i32)" by simp_all
  from cache_tokens_within_input [OF this, of "Some 50" "Some 60"] show ?thesis by auto
qed

end
