(* ===== verification/Tool_Inspection.thy ===== *)
theory Tool_Inspection
  imports Message
begin

section \<open>Inspection of tool requests\<close>

text \<open>
  \<open>tool_inspection.rs\<close> and the decision part of \<open>permission/permission_inspector.rs\<close>: the
  inspectors of an agent look at a batch of tool requests, and their results are turned into
  the lists of approved, denied and questionable requests. An inspector is a record of the
  operations of the trait; inspectors that are not in the sources modelled here are values of
  this type. The confidence of a result is kept as the bits of its \<open>f32\<close>.
\<close>

datatype goose_mode = Auto | Approve | SmartApprove | Chat

datatype inspection_action = Allow | Deny | RequireApproval "string option"

record inspection_result =
  ir_tool_request_id :: string
  ir_action :: inspection_action
  ir_reason :: string
  ir_confidence :: u32
  ir_inspector_name :: string
  ir_finding_id :: "string option"

record permission_check_result =
  pcr_approved :: "tool_request list"
  pcr_needs_approval :: "tool_request list"
  pcr_denied :: "tool_request list"

record tool_inspector =
  ti_name :: string
  ti_is_enabled :: bool
  ti_inspect :: "string \<Rightarrow> tool_request list \<Rightarrow> message list \<Rightarrow> goose_mode
      \<Rightarrow> string + inspection_result list"

definition add_inspector :: "tool_inspector \<Rightarrow> tool_inspector list \<Rightarrow> tool_inspector list" where
  "add_inspector i inspectors = inspectors @ [i]"

fun inspect_tools ::
    "tool_inspector list \<Rightarrow> string \<Rightarrow> tool_request list \<Rightarrow> message list \<Rightarrow> goose_mode
       \<Rightarrow> inspection_result list" where
  "inspect_tools [] session reqs msgs mode = []"
| "inspect_tools (i # inspectors) session reqs msgs mode =
     (if \<not> ti_is_enabled i then inspect_tools inspectors session reqs msgs mode
      else (case ti_inspect i session reqs msgs mode of
              Inr results \<Rightarrow> results @ inspect_tools inspectors session reqs msgs mode
            | Inl _ \<Rightarrow> inspect_tools inspectors session reqs msgs mode))"

definition inspector_names :: "tool_inspector list \<Rightarrow> string list" where
  "inspector_names inspectors = map ti_name inspectors"

subsection \<open>Mixing results into permissions\<close>

definition all_requests :: "permission_check_result \<Rightarrow> string \<rightharpoonup> tool_request" where
  "all_requests pr =
     map_of (rev (map (\<lambda>r. (tr_id r, r))
       (pcr_approved pr @ pcr_needs_approval pr @ pcr_denied pr)))"

definition without_id :: "string \<Rightarrow> tool_request list \<Rightarrow> tool_request list" where
  "without_id i reqs = filter (\<lambda>r. tr_id r \<noteq> i) reqs"

definition has_id :: "string \<Rightarrow> tool_request list \<Rightarrow> bool" where
  "has_id i reqs = list_ex (\<lambda>r. tr_id r = i) reqs"

definition apply_inspection_result ::
    "(string \<rightharpoonup> tool_request) \<Rightarrow> permission_check_result \<Rightarrow> inspection_result
       \<Rightarrow> permission_check_result" where
  "apply_inspection_result all pr result =
     (let i = ir_tool_request_id result in
      case ir_action result of
        Deny \<Rightarrow>
          (let pr' = pr\<lparr>pcr_approved := without_id i (pcr_approved pr),
                pcr_needs_approval := without_id i (pcr_needs_approval pr)\<rparr> in
           case all i of
             Some r \<Rightarrow> if \<not> has_id i (pcr_denied pr')
               then pr'\<lparr>pcr_denied := pcr_denied pr' @ [r]\<rparr> else pr'
           | None \<Rightarrow> pr')
      | RequireApproval _ \<Rightarrow>
          (let pr' = pr\<lparr>pcr_approved := without_id i (pcr_approved pr)\<rparr> in
           case all i of
             Some r \<Rightarrow> if \<not> has_id i (pcr_denied pr') \<and> \<not> has_id i (pcr_needs_approval pr')
               then pr'\<lparr>pcr_needs_approval := pcr_needs_approval pr' @ [r]\<rparr> else pr'
           | None \<Rightarrow> pr')
      | Allow \<Rightarrow> pr)"

definition apply_inspection_results_to_permissions ::
    "permission_check_result \<Rightarrow> inspection_result list \<Rightarrow> permission_check_result" where
  "apply_inspection_results_to_permissions pr results =
     (if results = [] then pr
      else foldl (apply_inspection_result (all_requests pr)) pr results)"

definition get_security_finding_id_from_results ::
    "string \<Rightarrow> inspection_result list \<Rightarrow> string option" where
  "get_security_finding_id_from_results i results =
     Option.bind
       (List.find (\<lambda>x. ir_tool_request_id x = i \<and> ir_inspector_name x = ''security'') results)
       ir_finding_id"

subsection \<open>From results to decisions\<close>

definition permission_result_for ::
    "inspection_result list \<Rightarrow> tool_request \<Rightarrow> inspection_result option" where
  "permission_result_for results r =
     List.find (\<lambda>x. ir_tool_request_id x = tr_id r)
       (filter (\<lambda>x. ir_inspector_name x = ''permission'') results)"

definition place_request ::
    "inspection_result list \<Rightarrow> permission_check_result \<Rightarrow> tool_request \<Rightarrow> permission_check_result" where
  "place_request results pr r =
     (case map_option ir_action (permission_result_for results r) of
        Some Allow \<Rightarrow> pr\<lparr>pcr_approved := pcr_approved pr @ [r]\<rparr>
      | Some Deny \<Rightarrow> pr\<lparr>pcr_denied := pcr_denied pr @ [r]\<rparr>
      | Some (RequireApproval _) \<Rightarrow> pr\<lparr>pcr_needs_approval := pcr_needs_approval pr @ [r]\<rparr>
      | None \<Rightarrow> pr\<lparr>pcr_needs_approval := pcr_needs_approval pr @ [r]\<rparr>)"

definition process_inspection_results ::
    "tool_request list \<Rightarrow> inspection_result list \<Rightarrow> permission_check_result" where
  "process_inspection_results reqs results =
     (let base = foldl (place_request results)
            \<lparr>pcr_approved = [], pcr_needs_approval = [], pcr_denied = []\<rparr> reqs;
          others = filter (\<lambda>x. ir_inspector_name x \<noteq> ''permission'') results
      in if others \<noteq> [] then apply_inspection_results_to_permissions base others else base)"

subsection \<open>The baseline\<close>

definition base_action :: "inspection_result list \<Rightarrow> tool_request \<Rightarrow> inspection_action" where
  "base_action results r =
     (case permission_result_for results r of Some x \<Rightarrow> ir_action x | None \<Rightarrow> RequireApproval None)"

definition is_require :: "inspection_action \<Rightarrow> bool" where
  "is_require a = (case a of RequireApproval _ \<Rightarrow> True | _ \<Rightarrow> False)"

lemma is_require_simps [simp]:
  "\<not> is_require Allow" "\<not> is_require Deny" "is_require (RequireApproval m)"
  by (simp_all add: is_require_def)

lemma place_requests:
  "foldl (place_request results) pr reqs =
     \<lparr>pcr_approved = pcr_approved pr @ filter (\<lambda>r. base_action results r = Allow) reqs,
      pcr_needs_approval = pcr_needs_approval pr @ filter (\<lambda>r. is_require (base_action results r)) reqs,
      pcr_denied = pcr_denied pr @ filter (\<lambda>r. base_action results r = Deny) reqs\<rparr>"
proof (induction reqs arbitrary: pr)
  case (Cons r reqs)
  show ?case
  proof (cases "permission_result_for results r")
    case None
    with Cons show ?thesis by (simp add: place_request_def base_action_def)
  next
    case (Some x)
    with Cons show ?thesis by (cases "ir_action x") (simp_all add: place_request_def base_action_def)
  qed
qed simp

subsection \<open>What the other inspectors can do\<close>

text \<open>An update of the decisions is restricting for a request when it neither approves it nor
  takes a denial back.\<close>

locale restricting =
  fixes upd :: "inspection_result \<Rightarrow> permission_check_result \<Rightarrow> permission_check_result"
    and blocks :: "inspection_result \<Rightarrow> tool_request \<Rightarrow> bool"
  assumes approved: "pcr_approved (upd x pr) = filter (\<lambda>r. \<not> blocks x r) (pcr_approved pr)"
    and denied: "set (pcr_denied pr) \<subseteq> set (pcr_denied (upd x pr))"
begin

lemma approved_foldl:
  "pcr_approved (foldl (\<lambda>pr x. upd x pr) pr xs)
     = filter (\<lambda>r. \<forall>x \<in> set xs. \<not> blocks x r) (pcr_approved pr)"
proof (induction xs arbitrary: pr)
  case (Cons x xs)
  then show ?case by (simp add: approved)
qed simp

lemma denied_foldl: "set (pcr_denied pr) \<subseteq> set (pcr_denied (foldl (\<lambda>pr x. upd x pr) pr xs))"
proof (induction xs arbitrary: pr)
  case (Cons x xs)
  from denied [of pr x] Cons [of "upd x pr"] show ?case by simp
qed simp

end

definition blocks :: "inspection_result \<Rightarrow> tool_request \<Rightarrow> bool" where
  "blocks x r \<longleftrightarrow> ir_tool_request_id x = tr_id r \<and> ir_action x \<noteq> Allow"

interpretation inspection: restricting "\<lambda>x pr. apply_inspection_result all pr x" blocks for all
proof unfold_locales
  fix x pr
  show "pcr_approved (apply_inspection_result all pr x)
      = filter (\<lambda>r. \<not> blocks x r) (pcr_approved pr)"
    by (cases "ir_action x")
      (auto simp: apply_inspection_result_def Let_def without_id_def blocks_def
        split: option.split intro: filter_cong)
  show "set (pcr_denied pr) \<subseteq> set (pcr_denied (apply_inspection_result all pr x))"
    by (cases "ir_action x")
      (auto simp: apply_inspection_result_def Let_def split: option.split)
qed

definition other_results :: "inspection_result list \<Rightarrow> inspection_result list" where
  "other_results results = filter (\<lambda>x. ir_inspector_name x \<noteq> ''permission'') results"

lemma process_as_foldl:
  "process_inspection_results reqs results =
     (let base = foldl (place_request results)
            \<lparr>pcr_approved = [], pcr_needs_approval = [], pcr_denied = []\<rparr> reqs
      in foldl (\<lambda>pr x. apply_inspection_result (all_requests base) pr x) base (other_results results))"
  by (simp add: process_inspection_results_def other_results_def Let_def
      apply_inspection_results_to_permissions_def)

lemma inspection_approved_set:
  "set (pcr_approved (process_inspection_results reqs results)) \<subseteq>
     {r \<in> set reqs. map_option ir_action (permission_result_for results r) = Some Allow}"
  unfolding process_as_foldl Let_def inspection.approved_foldl place_requests
  by (auto simp: base_action_def split: option.splits)

text \<open>The approved requests are exactly those, in their order,
  that the permission inspector's first result for the request allows and that no other
  inspector denies or wants approved; a request without a permission result is never
  approved.\<close>

lemma approved_exactly:
  "pcr_approved (process_inspection_results reqs results) =
     filter (\<lambda>r. (\<exists>x. permission_result_for results r = Some x \<and> ir_action x = Allow)
         \<and> \<not> (\<exists>x \<in> set results. ir_inspector_name x \<noteq> ''permission''
               \<and> ir_tool_request_id x = tr_id r \<and> ir_action x \<noteq> Allow)) reqs"
proof -
  have base: "base_action results r = Allow \<longleftrightarrow>
      (\<exists>x. permission_result_for results r = Some x \<and> ir_action x = Allow)" for r
    by (simp add: base_action_def split: option.split)
  show ?thesis
    unfolding process_as_foldl Let_def inspection.approved_foldl place_requests other_results_def
    by (auto simp: base blocks_def intro!: filter_cong)
qed

subsection \<open>Every request is in one list\<close>

definition decided :: "permission_check_result \<Rightarrow> tool_request multiset" where
  "decided pr = mset (pcr_approved pr) + mset (pcr_needs_approval pr) + mset (pcr_denied pr)"

lemma without_id_absent: "\<not> has_id i xs \<Longrightarrow> without_id i xs = xs"
  by (auto simp: has_id_def without_id_def list_ex_iff intro!: filter_True)

lemma has_id_iff: "has_id i xs \<longleftrightarrow> i \<in> tr_id ` set xs"
  by (auto simp: has_id_def list_ex_iff)

lemma without_id_present:
  "distinct (map tr_id xs) \<Longrightarrow> r \<in> set xs \<Longrightarrow>
     mset xs = add_mset r (mset (without_id (tr_id r) xs))"
proof (induction xs)
  case (Cons x xs)
  show ?case
  proof (cases "x = r")
    case True
    with Cons.prems have "\<not> has_id (tr_id r) xs" by (simp add: has_id_iff)
    with True show ?thesis by (simp add: without_id_def without_id_absent [unfolded without_id_def])
  next
    case False
    with Cons.prems have "r \<in> set xs" "tr_id x \<noteq> tr_id r" by auto
    with Cons False show ?thesis by (simp add: without_id_def)
  qed
qed simp

text \<open>The invariant of the loop over the results: the three lists hold the requests of the
  batch, and the map of all requests finds each by its identifier.\<close>

definition batch_inv ::
    "tool_request list \<Rightarrow> (string \<rightharpoonup> tool_request) \<Rightarrow> permission_check_result \<Rightarrow> bool" where
  "batch_inv reqs all pr \<longleftrightarrow>
     distinct (map tr_id reqs) \<and> decided pr = mset reqs
     \<and> (\<forall>i r. all i = Some r \<longleftrightarrow> r \<in> set reqs \<and> tr_id r = i)"

lemma batch_inv_lists:
  assumes "batch_inv reqs all pr"
  shows "distinct (map tr_id (pcr_approved pr @ pcr_needs_approval pr @ pcr_denied pr))"
    and "set reqs = set (pcr_approved pr) \<union> set (pcr_needs_approval pr) \<union> set (pcr_denied pr)"
proof -
  let ?l = "pcr_approved pr @ pcr_needs_approval pr @ pcr_denied pr"
  have m: "mset ?l = mset reqs" using assms by (simp add: batch_inv_def decided_def ac_simps)
  then have "mset (map tr_id ?l) = mset (map tr_id reqs)" by (metis mset_map)
  then show "distinct (map tr_id ?l)"
    using assms by (metis batch_inv_def mset_eq_imp_distinct_iff)
  from m show "set reqs = set (pcr_approved pr) \<union> set (pcr_needs_approval pr) \<union> set (pcr_denied pr)"
    by (metis mset_eq_setD set_append sup_assoc)
qed

lemma batch_inv_absent:
  assumes "batch_inv reqs all pr" "all i = None"
  shows "\<not> has_id i (pcr_approved pr)" "\<not> has_id i (pcr_needs_approval pr)"
proof -
  have "\<not> has_id i reqs"
    using assms unfolding batch_inv_def has_id_iff by (metis imageE option.distinct(1))
  then show "\<not> has_id i (pcr_approved pr)" "\<not> has_id i (pcr_needs_approval pr)"
    using batch_inv_lists(2) [OF assms(1)] by (auto simp: has_id_iff)
qed

lemma batch_inv_present:
  assumes "batch_inv reqs all pr" "all i = Some r"
  shows "i = tr_id r"
    and "has_id i (pcr_approved pr) \<Longrightarrow> \<not> has_id i (pcr_needs_approval pr) \<and> \<not> has_id i (pcr_denied pr)
          \<and> mset (pcr_approved pr) = add_mset r (mset (without_id i (pcr_approved pr)))"
    and "has_id i (pcr_needs_approval pr) \<Longrightarrow> \<not> has_id i (pcr_approved pr) \<and> \<not> has_id i (pcr_denied pr)
          \<and> mset (pcr_needs_approval pr) = add_mset r (mset (without_id i (pcr_needs_approval pr)))"
    and "has_id i (pcr_approved pr) \<or> has_id i (pcr_needs_approval pr) \<or> r \<in> set (pcr_denied pr)"
proof -
  from assms have r: "r \<in> set reqs" "i = tr_id r" and inj: "inj_on tr_id (set reqs)"
    by (auto simp: batch_inv_def distinct_map)
  show "i = tr_id r" by (rule r(2))
  note D = batch_inv_lists(1) [OF assms(1)] and S = batch_inv_lists(2) [OF assms(1)]
  have the_r: "has_id i xs \<Longrightarrow> set xs \<subseteq> set reqs \<Longrightarrow> r \<in> set xs" for xs
    using r inj by (auto simp: has_id_iff inj_on_def)
  show "has_id i (pcr_approved pr) \<Longrightarrow> \<not> has_id i (pcr_needs_approval pr) \<and> \<not> has_id i (pcr_denied pr)
      \<and> mset (pcr_approved pr) = add_mset r (mset (without_id i (pcr_approved pr)))"
    using D S the_r [of "pcr_approved pr"] without_id_present [of "pcr_approved pr" r] r(2)
    by (auto simp: has_id_iff)
  show "has_id i (pcr_needs_approval pr) \<Longrightarrow> \<not> has_id i (pcr_approved pr) \<and> \<not> has_id i (pcr_denied pr)
      \<and> mset (pcr_needs_approval pr) = add_mset r (mset (without_id i (pcr_needs_approval pr)))"
    using D S the_r [of "pcr_needs_approval pr"] without_id_present [of "pcr_needs_approval pr" r] r(2)
    by (auto simp: has_id_iff)
  show "has_id i (pcr_approved pr) \<or> has_id i (pcr_needs_approval pr) \<or> r \<in> set (pcr_denied pr)"
    using r S by (auto simp: has_id_iff)
qed

lemma batch_inv_step:
  assumes inv: "batch_inv reqs all pr"
  shows "batch_inv reqs all (apply_inspection_result all pr x)"
proof -
  let ?i = "ir_tool_request_id x"
  have "decided (apply_inspection_result all pr x) = decided pr"
  proof (cases "all ?i")
    case None
    note abs = batch_inv_absent [OF inv None]
    show ?thesis
      by (cases "ir_action x")
        (simp_all add: apply_inspection_result_def Let_def None decided_def
          without_id_absent [OF abs(1)] without_id_absent [OF abs(2)])
  next
    case (Some r)
    note pres = batch_inv_present [OF inv Some]
    consider (app) "has_id ?i (pcr_approved pr)" | (needs) "has_id ?i (pcr_needs_approval pr)"
      | (neither) "\<not> has_id ?i (pcr_approved pr)" "\<not> has_id ?i (pcr_needs_approval pr)"
        "has_id ?i (pcr_denied pr)"
      using pres(1,4) by (auto simp: has_id_iff)
    then show ?thesis
    proof cases
      case app
      with pres(2) show ?thesis
        by (cases "ir_action x")
          (simp_all add: apply_inspection_result_def Let_def Some decided_def without_id_absent)
    next
      case needs
      with pres(3) show ?thesis
        by (cases "ir_action x")
          (simp_all add: apply_inspection_result_def Let_def Some decided_def without_id_absent)
    next
      case neither
      then show ?thesis
        by (cases "ir_action x")
          (simp_all add: apply_inspection_result_def Let_def Some decided_def without_id_absent)
    qed
  qed
  with inv show ?thesis by (simp add: batch_inv_def)
qed

lemma batch_inv_foldl:
  "batch_inv reqs all pr \<Longrightarrow> batch_inv reqs all (foldl (\<lambda>pr x. apply_inspection_result all pr x) pr xs)"
  by (induction xs arbitrary: pr) (simp_all add: batch_inv_step)

lemma denied_after_deny:
  assumes "batch_inv reqs all pr" "r \<in> set reqs" "ir_tool_request_id x = tr_id r" "ir_action x = Deny"
  shows "r \<in> set (pcr_denied (apply_inspection_result all pr x))"
proof -
  have all: "all (tr_id r) = Some r" using assms by (auto simp: batch_inv_def)
  show ?thesis
  proof (cases "has_id (tr_id r) (pcr_denied pr)")
    case True
    with batch_inv_present(2-4) [OF assms(1) all] have "r \<in> set (pcr_denied pr)" by blast
    with inspection.denied show ?thesis by blast
  next
    case False
    with assms all show ?thesis by (simp add: apply_inspection_result_def Let_def)
  qed
qed

lemma map_by_id:
  assumes "distinct (map tr_id l)"
  shows "map_of (rev (map (\<lambda>r. (tr_id r, r)) l)) i = Some r \<longleftrightarrow> r \<in> set l \<and> tr_id r = i"
proof -
  have "distinct (map fst (rev (map (\<lambda>r. (tr_id r, r)) l)))"
    using assms unfolding rev_map [symmetric] distinct_rev map_map comp_def fst_conv .
  then show ?thesis by (auto simp: map_of_eq_Some_iff)
qed

lemma base_batch_inv:
  assumes "distinct (map tr_id reqs)"
    and base: "base = foldl (place_request results)
     \<lparr>pcr_approved = [], pcr_needs_approval = [], pcr_denied = []\<rparr> reqs"
  shows "batch_inv reqs (all_requests base) base"
proof -
  have three: "mset (filter (\<lambda>r. f r = Allow) rs) + mset (filter (\<lambda>r. is_require (f r)) rs)
      + mset (filter (\<lambda>r. f r = Deny) rs) = mset rs" for f and rs :: "tool_request list"
  proof (induction rs)
    case (Cons r rs)
    then show ?case by (cases "f r") simp_all
  qed simp
  have dec: "decided base = mset reqs"
    unfolding base place_requests decided_def using three by simp
  let ?l = "pcr_approved base @ pcr_needs_approval base @ pcr_denied base"
  have m: "mset ?l = mset reqs" using dec by (simp add: decided_def ac_simps)
  then have "distinct (map tr_id ?l)"
    using assms(1) by (metis mset_eq_imp_distinct_iff mset_map)
  from map_by_id [OF this] have "all_requests base i = Some r \<longleftrightarrow> r \<in> set reqs \<and> tr_id r = i" for i r
    unfolding all_requests_def mset_eq_setD [OF m] .
  with assms(1) dec show ?thesis by (simp add: batch_inv_def)
qed

lemma denied_by_permission:
  assumes "distinct (map tr_id reqs)" "r \<in> set reqs"
    and "map_option ir_action (permission_result_for results r) = Some Deny"
  shows "r \<in> set (pcr_denied (process_inspection_results reqs results))"
proof -
  define base where "base = foldl (place_request results)
     \<lparr>pcr_approved = [], pcr_needs_approval = [], pcr_denied = []\<rparr> reqs"
  from assms(3) have "base_action results r = Deny" by (auto simp: base_action_def)
  with assms(2) have "r \<in> set (pcr_denied base)" by (simp add: base_def place_requests)
  with inspection.denied_foldl show ?thesis unfolding process_as_foldl Let_def base_def by blast
qed

text \<open>Claim C10 (requests_partitioned): in a batch whose requests have distinct identifiers every
  request ends in exactly one of the three lists, and a request that the permission inspector or
  any other inspector denies ends in the list of the denied ones, whatever the rest say and in
  whatever order.\<close>

theorem requests_partitioned:
  assumes "distinct (map tr_id reqs)" and pr_def: "pr = process_inspection_results reqs results"
  shows "mset (pcr_approved pr) + mset (pcr_needs_approval pr) + mset (pcr_denied pr) = mset reqs
     \<and> (\<forall>r \<in> set reqs. map_option ir_action (permission_result_for results r) = Some Deny
          \<or> (\<exists>x \<in> set results. ir_inspector_name x \<noteq> ''permission''
                \<and> ir_tool_request_id x = tr_id r \<and> ir_action x = Deny)
          \<longrightarrow> r \<in> set (pcr_denied pr))"
proof (intro conjI ballI impI)
  define base where "base = foldl (place_request results)
     \<lparr>pcr_approved = [], pcr_needs_approval = [], pcr_denied = []\<rparr> reqs"
  have inv: "batch_inv reqs (all_requests base) base"
    by (rule base_batch_inv [OF assms(1) base_def])
  have pr: "pr = foldl (\<lambda>pr x. apply_inspection_result (all_requests base) pr x) base (other_results results)"
    by (simp add: pr_def process_as_foldl base_def Let_def)
  show "mset (pcr_approved pr) + mset (pcr_needs_approval pr) + mset (pcr_denied pr) = mset reqs"
    using batch_inv_foldl [OF inv] unfolding pr batch_inv_def decided_def by blast
  fix r
  assume r: "r \<in> set reqs" and "map_option ir_action (permission_result_for results r) = Some Deny
      \<or> (\<exists>x \<in> set results. ir_inspector_name x \<noteq> ''permission''
            \<and> ir_tool_request_id x = tr_id r \<and> ir_action x = Deny)"
  then show "r \<in> set (pcr_denied pr)"
  proof (elim disjE bexE conjE)
    assume "map_option ir_action (permission_result_for results r) = Some Deny"
    then show ?thesis unfolding pr_def by (rule denied_by_permission [OF assms(1) r])
  next
    fix x
    assume x: "x \<in> set results" "ir_inspector_name x \<noteq> ''permission''"
      "ir_tool_request_id x = tr_id r" "ir_action x = Deny"
    then obtain ys zs where "other_results results = ys @ x # zs"
      using split_list [of x "other_results results"] by (auto simp: other_results_def)
    then show ?thesis
      using denied_after_deny [OF batch_inv_foldl [OF inv, of ys] r x(3,4)] inspection.denied_foldl
      unfolding pr by auto
  qed
qed

subsection \<open>Examples\<close>

definition sample_req :: "string \<Rightarrow> string \<Rightarrow> tool_request" where
  "sample_req i name = \<lparr>tr_id = i, tr_tool_call = Inr \<lparr>ctp_name = name, ctp_arguments = None,
     ctp_rest = JNull\<rparr>, tr_metadata = None, tr_tool_meta = None\<rparr>"

definition sample_result :: "string \<Rightarrow> inspection_action \<Rightarrow> string \<Rightarrow> inspection_result" where
  "sample_result i a inspector = \<lparr>ir_tool_request_id = i, ir_action = a, ir_reason = [],
     ir_confidence = 0x3F800000, ir_inspector_name = inspector, ir_finding_id = None\<rparr>"

theorem requests_partitioned_witness:
  "sample_req ''1'' ''rm'' \<in> set (pcr_denied (process_inspection_results
     [sample_req ''1'' ''rm'', sample_req ''2'' ''ls'']
     [sample_result ''1'' Allow ''permission'', sample_result ''1'' Deny ''security'',
      sample_result ''1'' (RequireApproval None) ''other'', sample_result ''2'' Allow ''permission'']))"
  by (rule requests_partitioned [OF _ refl, THEN conjunct2, rule_format])
    (simp_all add: sample_req_def sample_result_def)

text \<open>
  Results are found by the identifier of the request: two requests that share one share the
  decision of the first, so the distinctness above is needed for more than counting.
\<close>

lemma shared_id_shares_decision:
  "pcr_approved (process_inspection_results [sample_req ''1'' ''ls'', sample_req ''1'' ''rm'']
     [sample_result ''1'' Allow ''permission'', sample_result ''1'' Deny ''permission''])
   = [sample_req ''1'' ''ls'', sample_req ''1'' ''rm'']"
  by code_simp

end
