(* ===== verification/Permission_Manager.thy ===== *)
theory Permission_Manager
  imports Message "HOL-Library.Countable"
begin

section \<open>The permission manager\<close>

text \<open>
  \<open>config/permission.rs\<close>: the levels the user or the smart-approve cache gave to tools, kept
  in memory and in \<open>permission.yaml\<close>. The YAML codec is a parameter. Every mutation takes the
  file lock, reads the file again, changes what it read, replaces the file by a rename and only
  then sets the map in memory; each failing system call is an \<open>expect\<close> of the code, a panic
  that leaves the write lock poisoned. The file is the one the path resolves to.
\<close>

datatype permission_level = LAlwaysAllow | LAskBefore | LNeverAllow

record permission_config =
  pc_always_allow :: "string list"
  pc_ask_before :: "string list"
  pc_never_allow :: "string list"

type_synonym permission_map = "string \<rightharpoonup> permission_config"

definition permission_config_default :: permission_config where
  "permission_config_default = \<lparr>pc_always_allow = [], pc_ask_before = [], pc_never_allow = []\<rparr>"

definition USER_PERMISSION :: string where "USER_PERMISSION = ''user''"
definition SMART_APPROVE_PERMISSION :: string where "SMART_APPROVE_PERMISSION = ''smart_approve''"

record yaml_codec =
  yc_to_string :: "permission_map \<Rightarrow> string"
  yc_from_str :: "string \<Rightarrow> permission_map option"

text \<open>Which of the system calls of one mutation succeed.\<close>

record mutation_io =
  mio_lock :: bool
  mio_read :: bool
  mio_write :: bool

record permission_manager =
  pmg_memory :: permission_map
  pmg_poisoned :: bool

datatype panic = Panic

subsection \<open>Lookup\<close>

definition get_permission :: "permission_map \<Rightarrow> string \<Rightarrow> string \<Rightarrow> permission_level option" where
  "get_permission pmap name prin =
     (case pmap name of
        Some c \<Rightarrow>
          if prin \<in> set (pc_never_allow c) then Some LNeverAllow
          else if prin \<in> set (pc_always_allow c) then Some LAlwaysAllow
          else if prin \<in> set (pc_ask_before c) then Some LAskBefore
          else None
      | None \<Rightarrow> None)"

definition read_permission_map :: "permission_manager \<Rightarrow> panic + permission_map" where
  "read_permission_map pm = (if pmg_poisoned pm then Inl Panic else Inr (pmg_memory pm))"

definition get_user_permission ::
    "permission_manager \<Rightarrow> string \<Rightarrow> panic + permission_level option" where
  "get_user_permission pm prin =
     map_sum id (\<lambda>m. get_permission m USER_PERMISSION prin) (read_permission_map pm)"

definition get_smart_approve_permission ::
    "permission_manager \<Rightarrow> string \<Rightarrow> panic + permission_level option" where
  "get_smart_approve_permission pm prin =
     map_sum id (\<lambda>m. get_permission m SMART_APPROVE_PERMISSION prin) (read_permission_map pm)"

subsection \<open>Mutations of the map\<close>

definition config_remove :: "(string \<Rightarrow> bool) \<Rightarrow> permission_config \<Rightarrow> permission_config" where
  "config_remove P c =
     \<lparr>pc_always_allow = filter (\<lambda>p. \<not> P p) (pc_always_allow c),
      pc_ask_before = filter (\<lambda>p. \<not> P p) (pc_ask_before c),
      pc_never_allow = filter (\<lambda>p. \<not> P p) (pc_never_allow c)\<rparr>"

definition config_push :: "string \<Rightarrow> permission_level \<Rightarrow> permission_config \<Rightarrow> permission_config" where
  "config_push p level c =
     (case level of
        LAlwaysAllow \<Rightarrow> c\<lparr>pc_always_allow := pc_always_allow c @ [p]\<rparr>
      | LAskBefore \<Rightarrow> c\<lparr>pc_ask_before := pc_ask_before c @ [p]\<rparr>
      | LNeverAllow \<Rightarrow> c\<lparr>pc_never_allow := pc_never_allow c @ [p]\<rparr>)"

definition entry_or_default :: "permission_map \<Rightarrow> string \<Rightarrow> permission_config" where
  "entry_or_default pmap name =
     (case pmap name of Some c \<Rightarrow> c | None \<Rightarrow> permission_config_default)"

definition update_permission ::
    "string \<Rightarrow> string \<Rightarrow> permission_level \<Rightarrow> permission_map \<Rightarrow> permission_map" where
  "update_permission name prin level pmap =
     pmap(name \<mapsto> config_push prin level
       (config_remove (\<lambda>p. p = prin) (entry_or_default pmap name)))"

definition bulk_update_permissions ::
    "string list \<Rightarrow> permission_level \<Rightarrow> permission_map \<Rightarrow> permission_map" where
  "bulk_update_permissions tools level pmap =
     pmap(SMART_APPROVE_PERMISSION \<mapsto>
       foldl (\<lambda>c t. config_push t level (config_remove (\<lambda>p. p = t) c))
         (entry_or_default pmap SMART_APPROVE_PERMISSION) tools)"

definition belongs_to_extension :: "string \<Rightarrow> string \<Rightarrow> bool" where
  "belongs_to_extension prin extension \<longleftrightarrow>
     extension \<noteq> [] \<and> prefix extension prin
     \<and> starts_with (drop (length extension) prin) ''__''"

definition remove_extension_permissions :: "string \<Rightarrow> permission_map \<Rightarrow> permission_map" where
  "remove_extension_permissions extension pmap =
     (\<lambda>name. map_option (config_remove (\<lambda>p. belongs_to_extension p extension)) (pmap name))"

definition clear_permission_map :: "permission_map \<Rightarrow> permission_map" where
  "clear_permission_map pmap = Map.empty"

subsection \<open>Mutations of the file\<close>

definition load_permission_map :: "yaml_codec \<Rightarrow> mutation_io \<Rightarrow> string \<Rightarrow> panic + permission_map" where
  "load_permission_map yc io contents =
     (if \<not> mio_read io then Inl Panic
      else case yc_from_str yc contents of None \<Rightarrow> Inl Panic | Some m \<Rightarrow> Inr m)"

definition load_or_empty :: "yaml_codec \<Rightarrow> mutation_io \<Rightarrow> string option \<Rightarrow> panic + permission_map" where
  "load_or_empty yc io disk =
     (case disk of Some contents \<Rightarrow> load_permission_map yc io contents | None \<Rightarrow> Inr Map.empty)"

definition permission_manager_new ::
    "yaml_codec \<Rightarrow> mutation_io \<Rightarrow> string option \<Rightarrow> panic + permission_manager" where
  "permission_manager_new yc io disk =
     map_sum id (\<lambda>m. \<lparr>pmg_memory = m, pmg_poisoned = False\<rparr>) (load_or_empty yc io disk)"

text \<open>The result is what the caller gets, the file afterwards and the manager afterwards.\<close>

definition mutate_permission_map ::
    "yaml_codec \<Rightarrow> mutation_io \<Rightarrow> (permission_map \<Rightarrow> permission_map)
       \<Rightarrow> string option \<Rightarrow> permission_manager
       \<Rightarrow> (panic + unit) \<times> string option \<times> permission_manager" where
  "mutate_permission_map yc io mutation disk pm =
     (let failed = (Inl Panic, disk, pm\<lparr>pmg_poisoned := True\<rparr>) in
      if pmg_poisoned pm then failed
      else if \<not> mio_lock io then failed
      else (case load_or_empty yc io disk of
              Inl _ \<Rightarrow> failed
            | Inr latest \<Rightarrow>
                (let new = mutation latest in
                 if \<not> mio_write io then failed
                 else (Inr (), Some (yc_to_string yc new), pm\<lparr>pmg_memory := new\<rparr>))))"

definition update_user_permission ::
    "yaml_codec \<Rightarrow> mutation_io \<Rightarrow> string \<Rightarrow> permission_level \<Rightarrow> string option
       \<Rightarrow> permission_manager \<Rightarrow> (panic + unit) \<times> string option \<times> permission_manager" where
  "update_user_permission yc io prin level =
     mutate_permission_map yc io (update_permission USER_PERMISSION prin level)"

definition update_smart_approve_permission ::
    "yaml_codec \<Rightarrow> mutation_io \<Rightarrow> string \<Rightarrow> permission_level \<Rightarrow> string option
       \<Rightarrow> permission_manager \<Rightarrow> (panic + unit) \<times> string option \<times> permission_manager" where
  "update_smart_approve_permission yc io prin level =
     mutate_permission_map yc io (update_permission SMART_APPROVE_PERMISSION prin level)"

definition bulk_update_smart_approve_permissions ::
    "yaml_codec \<Rightarrow> mutation_io \<Rightarrow> string list \<Rightarrow> permission_level \<Rightarrow> string option
       \<Rightarrow> permission_manager \<Rightarrow> (panic + unit) \<times> string option \<times> permission_manager" where
  "bulk_update_smart_approve_permissions yc io tools level =
     mutate_permission_map yc io (bulk_update_permissions tools level)"

record tool =
  tool_name :: string
  tool_read_only_hint :: "bool option option"

text \<open>A tool has annotations or not, and annotations have a read-only hint or not.\<close>

definition write_annotated :: "tool list \<Rightarrow> string list" where
  "write_annotated tools =
     filter_map (\<lambda>t. case tool_read_only_hint t of
        Some (Some False) \<Rightarrow> Some (tool_name t) | _ \<Rightarrow> None) tools"

definition apply_tool_annotations ::
    "yaml_codec \<Rightarrow> mutation_io \<Rightarrow> tool list \<Rightarrow> string option
       \<Rightarrow> permission_manager \<Rightarrow> (panic + unit) \<times> string option \<times> permission_manager" where
  "apply_tool_annotations yc io tools disk pm =
     (if write_annotated tools \<noteq> []
      then bulk_update_smart_approve_permissions yc io (write_annotated tools) LAskBefore disk pm
      else (Inr (), disk, pm))"

definition remove_extension ::
    "yaml_codec \<Rightarrow> mutation_io \<Rightarrow> string \<Rightarrow> string option
       \<Rightarrow> permission_manager \<Rightarrow> (panic + unit) \<times> string option \<times> permission_manager" where
  "remove_extension yc io extension =
     mutate_permission_map yc io (remove_extension_permissions extension)"

definition clear_permissions ::
    "yaml_codec \<Rightarrow> mutation_io \<Rightarrow> string option
       \<Rightarrow> permission_manager \<Rightarrow> (panic + unit) \<times> string option \<times> permission_manager" where
  "clear_permissions yc io = mutate_permission_map yc io clear_permission_map"

subsection \<open>The map as one level per category and tool\<close>

type_synonym levels = "string \<times> string \<rightharpoonup> permission_level"

definition levels_of :: "permission_map \<Rightarrow> levels" where
  "levels_of pmap = (\<lambda>(name, p). get_permission pmap name p)"

lemma get_after_push_remove:
  "get_permission (pmap(name \<mapsto> config_push p level (config_remove (\<lambda>q. q = p) c))) name q
     = (if q = p then Some level else get_permission (pmap(name \<mapsto> c)) name q)"
  by (cases level) (auto simp: get_permission_def config_push_def config_remove_def)

lemma get_entry_or_default:
  "get_permission (pmap(name \<mapsto> entry_or_default pmap name)) name q = get_permission pmap name q"
  by (simp add: get_permission_def entry_or_default_def permission_config_default_def
      split: option.split)

lemma get_other_category:
  "name' \<noteq> name \<Longrightarrow> get_permission (pmap(name \<mapsto> c)) name' q = get_permission pmap name' q"
  by (simp add: get_permission_def)

lemma levels_of_upd:
  "levels_of (pmap(name \<mapsto> c))
     = (\<lambda>(name', q). if name' = name then get_permission (pmap(name \<mapsto> c)) name q
          else levels_of pmap (name', q))"
  by (rule ext) (auto simp: levels_of_def get_other_category)

lemma levels_update:
  "levels_of (update_permission name p level pmap) = (levels_of pmap)((name, p) \<mapsto> level)"
  unfolding update_permission_def levels_of_upd get_after_push_remove get_entry_or_default
  by (rule ext) (auto simp: levels_of_def split: if_splits)

lemma get_bulk:
  "get_permission (pmap(name \<mapsto>
      foldl (\<lambda>c t. config_push t level (config_remove (\<lambda>p. p = t) c)) c tools)) name q
     = (if q \<in> set tools then Some level else get_permission (pmap(name \<mapsto> c)) name q)"
  by (induction tools arbitrary: c) (auto simp: get_after_push_remove)

lemma levels_bulk:
  "levels_of (bulk_update_permissions tools level pmap)
     = (\<lambda>(name, p). if name = SMART_APPROVE_PERMISSION \<and> p \<in> set tools then Some level
          else levels_of pmap (name, p))"
  unfolding bulk_update_permissions_def levels_of_upd get_bulk get_entry_or_default
  by (rule ext) (auto simp: levels_of_def split: if_splits)

lemma levels_remove_extension:
  "levels_of (remove_extension_permissions extension pmap)
     = (\<lambda>(name, p). if belongs_to_extension p extension then None else levels_of pmap (name, p))"
  by (rule ext) (auto simp: levels_of_def remove_extension_permissions_def get_permission_def config_remove_def
      split: option.split)

lemma levels_clear: "levels_of (clear_permission_map pmap) = Map.empty"
  by (auto simp: levels_of_def clear_permission_map_def get_permission_def)

subsection \<open>A store with one value per key\<close>

locale level_store =
  fixes lookup :: "'s \<Rightarrow> 'k \<rightharpoonup> 'v" and put :: "'k \<Rightarrow> 'v \<Rightarrow> 's \<Rightarrow> 's"
  assumes lookup_put: "lookup (put k v s) = (lookup s)(k \<mapsto> v)"
begin

lemma lookup_puts: "lookup (foldl (\<lambda>s (k, v). put k v s) s kvs) = lookup s ++ map_of (rev kvs)"
  by (induction kvs arbitrary: s) (auto simp: lookup_put split_beta)

lemma last_put_wins:
  "k \<notin> fst ` set later \<Longrightarrow>
     lookup (foldl (\<lambda>s (k, v). put k v s) s (before @ (k, v) # later)) k = Some v"
  unfolding lookup_puts by (simp add: map_add_Some_iff map_of_eq_None_iff)

end

interpretation level_map: level_store levels_of "\<lambda>(name, p) level. update_permission name p level"
  by unfold_locales (simp add: levels_update split_beta)

subsection \<open>Changes by several processes\<close>

datatype permission_change =
    ChangeUser string permission_level
  | ChangeSmart string permission_level
  | ChangeBulk "string list" permission_level
  | ChangeRemoveExtension string
  | ChangeClear

fun change_map :: "permission_change \<Rightarrow> permission_map \<Rightarrow> permission_map" where
  "change_map (ChangeUser p level) = update_permission USER_PERMISSION p level"
| "change_map (ChangeSmart p level) = update_permission SMART_APPROVE_PERMISSION p level"
| "change_map (ChangeBulk tools level) = bulk_update_permissions tools level"
| "change_map (ChangeRemoveExtension e) = remove_extension_permissions e"
| "change_map ChangeClear = clear_permission_map"

fun change_levels :: "permission_change \<Rightarrow> levels \<Rightarrow> levels" where
  "change_levels (ChangeUser p level) l = l((USER_PERMISSION, p) \<mapsto> level)"
| "change_levels (ChangeSmart p level) l = l((SMART_APPROVE_PERMISSION, p) \<mapsto> level)"
| "change_levels (ChangeBulk tools level) l =
     (\<lambda>(name, p). if name = SMART_APPROVE_PERMISSION \<and> p \<in> set tools then Some level
        else l (name, p))"
| "change_levels (ChangeRemoveExtension e) l =
     (\<lambda>(name, p). if belongs_to_extension p e then None else l (name, p))"
| "change_levels ChangeClear l = Map.empty"

lemma levels_change: "levels_of (change_map c pmap) = change_levels c (levels_of pmap)"
  by (cases c) (simp_all add: levels_update levels_bulk levels_remove_extension levels_clear)

lemma levels_changes:
  "levels_of (foldl (\<lambda>m c. change_map c m) pmap cs) = foldl (\<lambda>l c. change_levels c l) (levels_of pmap) cs"
  by (induction cs arbitrary: pmap) (simp_all add: levels_change)

text \<open>One file and the managers of the processes that share it. A step is one call of a
  mutating operation by one process; the list collects the changes whose call returned.\<close>

type_synonym shared_permissions = "string option \<times> (nat \<Rightarrow> permission_manager)"

inductive permission_run ::
    "yaml_codec \<Rightarrow> shared_permissions \<Rightarrow> permission_change list \<Rightarrow> shared_permissions \<Rightarrow> bool"
  for yc where
  run_start: "permission_run yc s [] s"
| run_returns:
    "permission_run yc s cs (disk, mgr) \<Longrightarrow>
       mutate_permission_map yc io (change_map c) disk (mgr i) = (Inr (), disk', pm') \<Longrightarrow>
       permission_run yc s (cs @ [c]) (disk', mgr(i := pm'))"
| run_panics:
    "permission_run yc s cs (disk, mgr) \<Longrightarrow>
       mutate_permission_map yc io (change_map c) disk (mgr i) = (Inl Panic, disk', pm') \<Longrightarrow>
       permission_run yc s cs (disk', mgr(i := pm'))"

lemma mutate_returns:
  assumes "mutate_permission_map yc io f disk pm = (Inr (), disk', pm')"
  obtains m where "load_or_empty yc io disk = Inr m" "disk' = Some (yc_to_string yc (f m))"
    "pm' = pm\<lparr>pmg_memory := f m\<rparr>" "\<not> pmg_poisoned pm"
  using assms by (auto simp: mutate_permission_map_def Let_def split: if_splits sum.splits)

lemma mutate_panics:
  "mutate_permission_map yc io f disk pm = (Inl Panic, disk', pm') \<Longrightarrow>
     disk' = disk \<and> pm' = pm\<lparr>pmg_poisoned := True\<rparr>"
  by (auto simp: mutate_permission_map_def Let_def split: if_splits sum.splits)

definition stored_map :: "yaml_codec \<Rightarrow> string option \<Rightarrow> permission_map option" where
  "stored_map yc disk = (case disk of None \<Rightarrow> Some Map.empty | Some s \<Rightarrow> yc_from_str yc s)"

lemma load_or_empty_stored: "load_or_empty yc io disk = Inr m \<Longrightarrow> stored_map yc disk = Some m"
  by (auto simp: load_or_empty_def load_permission_map_def stored_map_def
      split: option.splits if_splits)

definition writes_read_back :: "yaml_codec \<Rightarrow> permission_map \<Rightarrow> bool" where
  "writes_read_back yc m0 \<longleftrightarrow>
     (\<forall>cs. let m = foldl (\<lambda>m c. change_map c m) m0 cs in yc_from_str yc (yc_to_string yc m) = Some m)"

lemma permission_run_stored:
  assumes "permission_run yc s cs s'" "writes_read_back yc m0" "stored_map yc (fst s) = Some m0"
  shows "stored_map yc (fst s') = Some (foldl (\<lambda>m c. change_map c m) m0 cs)"
  using assms
proof (induction rule: permission_run.induct)
  case (run_returns s cs disk mgr io c i disk' pm')
  from run_returns.hyps(2) obtain m where m: "load_or_empty yc io disk = Inr m"
    "disk' = Some (yc_to_string yc (change_map c m))" by (rule mutate_returns)
  from m(1) run_returns have "m = foldl (\<lambda>m c. change_map c m) m0 cs"
    by (auto dest!: load_or_empty_stored)
  then have "change_map c m = foldl (\<lambda>m c. change_map c m) m0 (cs @ [c])" by simp
  moreover from run_returns.prems(1) have
    "yc_from_str yc (yc_to_string yc (foldl (\<lambda>m c. change_map c m) m0 (cs @ [c])))
       = Some (foldl (\<lambda>m c. change_map c m) m0 (cs @ [c]))"
    unfolding writes_read_back_def Let_def by blast
  ultimately show ?case unfolding m(2) stored_map_def fst_conv option.case by metis
next
  case (run_panics s cs disk mgr io c i disk' pm')
  then show ?case by (auto dest: mutate_panics)
qed auto


text \<open>After any sequence of updates a tool has the level of
  its last update in its category, whatever came before, and the user's levels and the
  smart-approve cache do not mix.\<close>

lemma last_permission_wins:
  assumes "(name, p) \<notin> fst ` set later"
  shows "get_permission
      (foldl (\<lambda>m ((n, q), l). update_permission n q l m) pmap (before @ ((name, p), level) # later))
      name p = Some level"
  using level_map.last_put_wins [OF assms, of pmap before level]
  by (simp add: levels_of_def case_prod_unfold)

subsection \<open>Examples\<close>

definition config_lists :: "permission_config \<Rightarrow> string list \<times> string list \<times> string list" where
  "config_lists c = (pc_always_allow c, pc_ask_before c, pc_never_allow c)"

definition lists_config :: "string list \<times> string list \<times> string list \<Rightarrow> permission_config" where
  "lists_config l = (case l of (a, b, c) \<Rightarrow>
     \<lparr>pc_always_allow = a, pc_ask_before = b, pc_never_allow = c\<rparr>)"

lemma lists_config_lists [simp]: "lists_config (config_lists c) = c"
  by (simp add: lists_config_def config_lists_def)

definition char_codes :: "string list \<times> string list \<times> string list
    \<Rightarrow> nat list list \<times> nat list list \<times> nat list list" where
  "char_codes = map_prod (map (map of_char)) (map_prod (map (map of_char)) (map (map of_char)))"

definition codes_char :: "nat list list \<times> nat list list \<times> nat list list
    \<Rightarrow> string list \<times> string list \<times> string list" where
  "codes_char = map_prod (map (map char_of)) (map_prod (map (map char_of)) (map (map char_of)))"

lemma codes_char_codes [simp]: "codes_char (char_codes l) = l"
  by (cases l) (simp add: codes_char_def char_codes_def comp_def)

text \<open>A codec for the two categories the sources write: the number of the two configurations
  in unary.\<close>

definition sample_codec :: yaml_codec where
  "sample_codec =
     \<lparr>yc_to_string = (\<lambda>m. replicate
        (to_nat (map_option (char_codes \<circ> config_lists) (m USER_PERMISSION),
                 map_option (char_codes \<circ> config_lists) (m SMART_APPROVE_PERMISSION))) CHR ''x''),
      yc_from_str = (\<lambda>s. case from_nat (length s) of (u, sa) \<Rightarrow>
        Some ((\<lambda>_. None)(USER_PERMISSION := map_option (lists_config \<circ> codes_char) u,
              SMART_APPROVE_PERMISSION := map_option (lists_config \<circ> codes_char) sa)))\<rparr>"

lemma sample_codec_reads_back:
  assumes "dom m \<subseteq> {USER_PERMISSION, SMART_APPROVE_PERMISSION}"
  shows "yc_from_str sample_codec (yc_to_string sample_codec m) = Some m"
proof -
  have "((\<lambda>_. None)(USER_PERMISSION := m USER_PERMISSION,
      SMART_APPROVE_PERMISSION := m SMART_APPROVE_PERMISSION)) = m"
  proof (rule ext, goal_cases)
    case (1 x)
    with assms show ?case by (cases "m x") (auto simp: subset_iff dom_def)
  qed
  then show ?thesis
    by (simp add: sample_codec_def option.map_comp comp_def option.map_ident)
qed

lemma change_map_dom:
  "dom m \<subseteq> {USER_PERMISSION, SMART_APPROVE_PERMISSION} \<Longrightarrow>
     dom (change_map c m) \<subseteq> {USER_PERMISSION, SMART_APPROVE_PERMISSION}"
  by (cases c) (auto simp: update_permission_def bulk_update_permissions_def
      remove_extension_permissions_def clear_permission_map_def domIff split: if_splits)

lemma sample_writes_read_back: "writes_read_back sample_codec Map.empty"
proof -
  have "dom m \<subseteq> {USER_PERMISSION, SMART_APPROVE_PERMISSION} \<Longrightarrow>
      dom (foldl (\<lambda>m c. change_map c m) m cs) \<subseteq> {USER_PERMISSION, SMART_APPROVE_PERMISSION}"
    for m cs
    by (induction cs arbitrary: m) (simp_all add: change_map_dom)
  from this [of Map.empty] show ?thesis
    unfolding writes_read_back_def Let_def by (simp add: sample_codec_reads_back)
qed

definition all_ok :: mutation_io where
  "all_ok = \<lparr>mio_lock = True, mio_read = True, mio_write = True\<rparr>"

definition fresh_manager :: permission_manager where
  "fresh_manager = \<lparr>pmg_memory = Map.empty, pmg_poisoned = False\<rparr>"


lemma last_permission_wins_example:
  "get_permission (foldl (\<lambda>m ((n, q), l). update_permission n q l m) Map.empty
     ([((''user'', ''t''), LAlwaysAllow)] @ ((''user'', ''t''), LNeverAllow)
        # [((''user'', ''u''), LAskBefore)])) ''user'' ''t'' = Some LNeverAllow"
  by (rule last_permission_wins) simp

end
