(* ===== verification/Permission_Inspector.thy ===== *)
theory Permission_Inspector
  imports Tool_Inspection Permission_Manager
begin

section \<open>The permission inspector\<close>

text \<open>
  \<open>permission/permission_inspector.rs\<close> with the judge of \<open>permission/permission_judge.rs\<close>:
  what the mode of the agent, the levels of the permission manager, the read-only annotations
  and, in smart-approve mode, a language model say of a batch of tool requests. The completion
  of the provider is a parameter (\<open>None\<close>: no model configuration or a failed completion); so
  is, per request, which system calls succeed when a decision is cached.
\<close>

definition MANAGE_EXTENSIONS_TOOL_NAME_COMPLETE :: string where
  "MANAGE_EXTENSIONS_TOOL_NAME_COMPLETE = ''extensionmanager__manage_extensions''"

subsection \<open>The judge\<close>

fun extract_from_content :: "message_content_block list \<Rightarrow> string list option" where
  "extract_from_content [] = None"
| "extract_from_content (c # cs) =
     (case c of
        ToolRequest r \<Rightarrow>
          (case tr_tool_call r of
             Inr call \<Rightarrow>
               (if ctp_name call = ''platform__tool_by_tool_permission''
                then (case Option.bind (ctp_arguments call) (\<lambda>a. map_of a ''read_only_request_ids'') of
                        Some (JArray ids) \<Rightarrow> Some (filter_map as_str ids)
                      | _ \<Rightarrow> extract_from_content cs)
                else extract_from_content cs)
           | Inl _ \<Rightarrow> extract_from_content cs)
      | _ \<Rightarrow> extract_from_content cs)"

definition extract_read_only_request_ids :: "message \<Rightarrow> string list option" where
  "extract_read_only_request_ids response = extract_from_content (m_content response)"

type_synonym judge = "tool_request list \<Rightarrow> message option"

definition detect_read_only_requests :: "judge \<Rightarrow> tool_request list \<Rightarrow> string list" where
  "detect_read_only_requests complete reqs =
     (if reqs = [] then []
      else (case complete reqs of
              Some response \<Rightarrow>
                (case extract_read_only_request_ids response of Some ids \<Rightarrow> ids | None \<Rightarrow> [])
            | None \<Rightarrow> []))"

subsection \<open>Read-only annotations\<close>

definition readonly_annotated :: "tool list \<Rightarrow> string set" where
  "readonly_annotated tools =
     set (filter_map (\<lambda>t. case tool_read_only_hint t of
        Some (Some True) \<Rightarrow> Some (tool_name t) | _ \<Rightarrow> None) tools)"

definition inspector_apply_tool_annotations ::
    "yaml_codec \<Rightarrow> mutation_io \<Rightarrow> tool list \<Rightarrow> string option \<Rightarrow> permission_manager
       \<Rightarrow> (panic + unit) \<times> string set \<times> string option \<times> permission_manager" where
  "inspector_apply_tool_annotations yc io tools disk pm =
     (let (res, disk', pm') = apply_tool_annotations yc io tools disk pm
      in (res, readonly_annotated tools, disk', pm'))"

subsection \<open>Decisions without the model\<close>

datatype decision = Skip | Defer | Act inspection_action

definition level_action :: "permission_level \<Rightarrow> inspection_action" where
  "level_action level =
     (case level of LAlwaysAllow \<Rightarrow> Allow | LNeverAllow \<Rightarrow> Deny | LAskBefore \<Rightarrow> RequireApproval None)"

definition decide_tool ::
    "goose_mode \<Rightarrow> string set \<Rightarrow> permission_manager \<Rightarrow> string \<Rightarrow> panic + decision" where
  "decide_tool mode readonly pm name =
     (case mode of
        Chat \<Rightarrow> Inr Skip
      | Auto \<Rightarrow> Inr (Act Allow)
      | _ \<Rightarrow>
          (case get_user_permission pm name of
             Inl e \<Rightarrow> Inl e
           | Inr (Some level) \<Rightarrow> Inr (Act (level_action level))
           | Inr None \<Rightarrow>
               if mode = SmartApprove \<and> name \<in> readonly then Inr (Act Allow)
               else if name = MANAGE_EXTENSIONS_TOOL_NAME_COMPLETE
               then Inr (Act (RequireApproval
                      (Some ''Extension management requires approval for security'')))
               else if mode = SmartApprove
               then (case get_smart_approve_permission pm name of
                       Inl e \<Rightarrow> Inl e
                     | Inr None \<Rightarrow> Inr Defer
                     | Inr (Some LAlwaysAllow) \<Rightarrow> Inr Defer
                     | Inr (Some _) \<Rightarrow> Inr (Act (RequireApproval None)))
               else Inr (Act (RequireApproval None))))"

definition decision_reason ::
    "goose_mode \<Rightarrow> string set \<Rightarrow> string \<Rightarrow> inspection_action \<Rightarrow> string" where
  "decision_reason mode readonly name a =
     (case a of
        Allow \<Rightarrow>
          if mode = Auto then ''Auto mode - all tools approved''
          else if name \<in> readonly then ''Tool annotated as read-only''
          else ''User permission allows this tool''
      | Deny \<Rightarrow> ''User permission denies this tool''
      | RequireApproval _ \<Rightarrow>
          if name = MANAGE_EXTENSIONS_TOOL_NAME_COMPLETE
          then ''Extension management requires user approval''
          else ''Tool requires user approval'')"

definition permission_result :: "tool_request \<Rightarrow> inspection_action \<Rightarrow> string \<Rightarrow> inspection_result" where
  "permission_result r a reason =
     \<lparr>ir_tool_request_id = tr_id r, ir_action = a, ir_reason = reason,
      ir_confidence = 0x3F800000, ir_inspector_name = ''permission'', ir_finding_id = None\<rparr>"

fun inspect_requests ::
    "goose_mode \<Rightarrow> string set \<Rightarrow> permission_manager \<Rightarrow> tool_request list
       \<Rightarrow> panic + inspection_result list \<times> tool_request list" where
  "inspect_requests mode readonly pm [] = Inr ([], [])"
| "inspect_requests mode readonly pm (r # rs) =
     (case tr_tool_call r of
        Inl _ \<Rightarrow> inspect_requests mode readonly pm rs
      | Inr call \<Rightarrow>
          (case decide_tool mode readonly pm (ctp_name call) of
             Inl e \<Rightarrow> Inl e
           | Inr d \<Rightarrow>
               (case inspect_requests mode readonly pm rs of
                  Inl e \<Rightarrow> Inl e
                | Inr (results, deferred) \<Rightarrow>
                    (case d of
                       Skip \<Rightarrow> Inr (results, deferred)
                     | Defer \<Rightarrow> Inr (results, r # deferred)
                     | Act a \<Rightarrow>
                         Inr (permission_result r a (decision_reason mode readonly (ctp_name call) a)
                                # results, deferred)))))"

subsection \<open>Deferred requests\<close>

definition cache_non_readonly_decision ::
    "yaml_codec \<Rightarrow> mutation_io \<Rightarrow> tool_request \<Rightarrow> bool \<Rightarrow> string option \<Rightarrow> permission_manager
       \<Rightarrow> (panic + unit) \<times> string option \<times> permission_manager" where
  "cache_non_readonly_decision yc io r is_readonly disk pm =
     (if is_readonly then (Inr (), disk, pm)
      else (case tr_tool_call r of
              Inr call \<Rightarrow> update_smart_approve_permission yc io (ctp_name call) LAskBefore disk pm
            | Inl _ \<Rightarrow> (Inr (), disk, pm)))"

fun judge_deferred ::
    "yaml_codec \<Rightarrow> (tool_request \<Rightarrow> mutation_io) \<Rightarrow> string set \<Rightarrow> tool_request list
       \<Rightarrow> string option \<Rightarrow> permission_manager
       \<Rightarrow> (panic + inspection_result list) \<times> string option \<times> permission_manager" where
  "judge_deferred yc io detected [] disk pm = (Inr [], disk, pm)"
| "judge_deferred yc io detected (r # rs) disk pm =
     (let is_readonly = (tr_id r \<in> detected) in
      case cache_non_readonly_decision yc (io r) r is_readonly disk pm of
        (Inl e, disk', pm') \<Rightarrow> (Inl e, disk', pm')
      | (Inr _, disk', pm') \<Rightarrow>
          (case judge_deferred yc io detected rs disk' pm' of
             (Inl e, disk'', pm'') \<Rightarrow> (Inl e, disk'', pm'')
           | (Inr results, disk'', pm'') \<Rightarrow>
               (Inr (permission_result r
                  (if is_readonly then Allow else RequireApproval None)
                  (if is_readonly then ''LLM detected as read-only'' else ''Tool requires user approval'')
                  # results), disk'', pm'')))"

definition permission_inspect ::
    "yaml_codec \<Rightarrow> (tool_request \<Rightarrow> mutation_io) \<Rightarrow> judge option \<Rightarrow> goose_mode \<Rightarrow> string set
       \<Rightarrow> tool_request list \<Rightarrow> string option \<Rightarrow> permission_manager
       \<Rightarrow> (panic + inspection_result list) \<times> string option \<times> permission_manager" where
  "permission_inspect yc io provider mode readonly reqs disk pm =
     (case inspect_requests mode readonly pm reqs of
        Inl e \<Rightarrow> (Inl e, disk, pm)
      | Inr (results, deferred) \<Rightarrow>
          if deferred = [] then (Inr results, disk, pm)
          else (let detected = (case provider of
                      Some complete \<Rightarrow> set (detect_read_only_requests complete deferred) | None \<Rightarrow> {})
                in case judge_deferred yc io detected deferred disk pm of
                     (Inl e, disk', pm') \<Rightarrow> (Inl e, disk', pm')
                   | (Inr judged, disk', pm') \<Rightarrow> (Inr (results @ judged), disk', pm')))"

subsection \<open>What a result means\<close>

text \<open>The action the inspector gives to a request, from the levels in memory, the annotations
  and the answer of the judge.\<close>

definition intended ::
    "goose_mode \<Rightarrow> string set \<Rightarrow> permission_manager \<Rightarrow> string set \<Rightarrow> tool_request
       \<Rightarrow> inspection_action option" where
  "intended mode readonly pm detected r =
     (case tr_tool_call r of
        Inl _ \<Rightarrow> None
      | Inr call \<Rightarrow>
          (case decide_tool mode readonly pm (ctp_name call) of
             Inr (Act a) \<Rightarrow> Some a
           | Inr Defer \<Rightarrow> Some (if tr_id r \<in> detected then Allow else RequireApproval None)
           | _ \<Rightarrow> None))"

definition is_deferred :: "goose_mode \<Rightarrow> string set \<Rightarrow> permission_manager \<Rightarrow> tool_request \<Rightarrow> bool" where
  "is_deferred mode readonly pm r =
     (case tr_tool_call r of
        Inl _ \<Rightarrow> False
      | Inr call \<Rightarrow> decide_tool mode readonly pm (ctp_name call) = Inr Defer)"

lemma inspect_requests_spec:
  "inspect_requests mode readonly pm reqs = Inr (results, deferred) \<Longrightarrow>
     deferred = filter (is_deferred mode readonly pm) reqs
     \<and> map (\<lambda>x. (ir_tool_request_id x, ir_action x)) results
         = filter_map (\<lambda>r. map_option (Pair (tr_id r)) (intended mode readonly pm {} r))
             (filter (\<lambda>r. \<not> is_deferred mode readonly pm r) reqs)
     \<and> (\<forall>x \<in> set results. ir_inspector_name x = ''permission'')"
proof (induction mode readonly pm reqs arbitrary: results deferred rule: inspect_requests.induct)
  case (2 mode readonly pm r rs)
  show ?case
  proof (cases "tr_tool_call r")
    case (Inl e)
    with 2 show ?thesis by (simp add: is_deferred_def intended_def)
  next
    case (Inr call)
    with "2.prems" obtain d rs' df where d: "decide_tool mode readonly pm (ctp_name call) = Inr d"
      "inspect_requests mode readonly pm rs = Inr (rs', df)"
      by (auto split: sum.splits)
    from "2.IH"(2) [OF Inr d] Inr d "2.prems" show ?thesis
      by (cases d) (auto simp: is_deferred_def intended_def permission_result_def)
  qed
qed simp

lemma judge_deferred_spec:
  "judge_deferred yc io detected rs disk pm = (Inr results, disk', pm') \<Longrightarrow>
     map (\<lambda>x. (ir_tool_request_id x, ir_action x)) results
       = map (\<lambda>r. (tr_id r, if tr_id r \<in> detected then Allow else RequireApproval None)) rs
     \<and> (\<forall>x \<in> set results. ir_inspector_name x = ''permission'')"
  by (induction yc io detected rs disk pm arbitrary: results disk' pm' rule: judge_deferred.induct)
    (auto simp: Let_def permission_result_def split: prod.splits sum.splits)

definition detected_by :: "judge option \<Rightarrow> tool_request list \<Rightarrow> string set" where
  "detected_by provider deferred =
     (case provider of Some complete \<Rightarrow> set (detect_read_only_requests complete deferred) | None \<Rightarrow> {})"

lemma intended_not_deferred:
  "\<not> is_deferred mode readonly pm r \<Longrightarrow>
     intended mode readonly pm D r = intended mode readonly pm {} r"
  by (auto simp: intended_def is_deferred_def split: sum.split decision.split)

lemma intended_deferred:
  "is_deferred mode readonly pm r \<Longrightarrow>
     intended mode readonly pm D r = Some (if tr_id r \<in> D then Allow else RequireApproval None)"
  by (auto simp: intended_def is_deferred_def split: sum.splits)

lemma permission_inspect_pairs:
  assumes "permission_inspect yc io provider mode readonly reqs disk pm = (Inr results, disk', pm')"
    and "D = detected_by provider (filter (is_deferred mode readonly pm) reqs)"
  shows "set (map (\<lambda>x. (ir_tool_request_id x, ir_action x)) results)
      = {(tr_id r, a) | r a. r \<in> set reqs \<and> intended mode readonly pm D r = Some a}
    \<and> (\<forall>x \<in> set results. ir_inspector_name x = ''permission'')"
proof -
  obtain res deferred where ins: "inspect_requests mode readonly pm reqs = Inr (res, deferred)"
    using assms(1) by (auto simp: permission_inspect_def split: sum.splits)
  note I = inspect_requests_spec [OF ins]
  let ?plain = "{(tr_id r, a) | r a. r \<in> set reqs \<and> \<not> is_deferred mode readonly pm r
      \<and> intended mode readonly pm D r = Some a}"
  have "set (map (\<lambda>x. (ir_tool_request_id x, ir_action x)) res)
      = set (filter_map (\<lambda>r. map_option (Pair (tr_id r)) (intended mode readonly pm {} r))
             (filter (\<lambda>r. \<not> is_deferred mode readonly pm r) reqs))"
    using I by simp
  also have "\<dots> = ?plain"
    by (force simp: set_filter_map intended_not_deferred [of mode readonly pm _ D])
  finally have plain: "set (map (\<lambda>x. (ir_tool_request_id x, ir_action x)) res) = ?plain" .
  show ?thesis
  proof (cases "deferred = []")
    case True
    with assms(1) ins have "results = res" by (simp add: permission_inspect_def)
    moreover from True I have "\<And>r. r \<in> set reqs \<Longrightarrow> \<not> is_deferred mode readonly pm r"
      by (metis filter_empty_conv)
    ultimately show ?thesis using plain I by auto
  next
    case False
    with assms(1) ins I obtain judged where
      j: "judge_deferred yc io (detected_by provider deferred) deferred disk pm = (Inr judged, disk', pm')"
      and res: "results = res @ judged"
      by (auto simp: permission_inspect_def detected_by_def Let_def split: prod.splits sum.splits)
    from I assms(2) have D: "detected_by provider deferred = D" by simp
    have "set (map (\<lambda>x. (ir_tool_request_id x, ir_action x)) judged)
        = set (map (\<lambda>r. (tr_id r, if tr_id r \<in> D then Allow else RequireApproval None)) deferred)"
      using judge_deferred_spec [OF j] D by simp
    also have "\<dots> = {(tr_id r, a) | r a. r \<in> set reqs \<and> is_deferred mode readonly pm r
        \<and> intended mode readonly pm D r = Some a}"
      using I by (force simp: intended_deferred [of mode readonly pm _ D])
    finally have "set (map (\<lambda>x. (ir_tool_request_id x, ir_action x)) results) = ?plain \<union> \<dots>"
      unfolding res map_append set_append plain by simp
    then have "set (map (\<lambda>x. (ir_tool_request_id x, ir_action x)) results)
        = {(tr_id r, a) | r a. r \<in> set reqs \<and> intended mode readonly pm D r = Some a}"
      by blast
    moreover have "\<forall>x \<in> set results. ir_inspector_name x = ''permission''"
      using I judge_deferred_spec [OF j] unfolding res by auto
    ultimately show ?thesis by blast
  qed
qed

lemma permission_result_intended:
  assumes "permission_inspect yc io provider mode readonly reqs disk pm = (Inr results, disk', pm')"
    and "D = detected_by provider (filter (is_deferred mode readonly pm) reqs)"
    and all: "filter (\<lambda>x. ir_inspector_name x = ''permission'') all = results"
    and "distinct (map tr_id reqs)" "r \<in> set reqs"
  shows "map_option ir_action (permission_result_for all r) = intended mode readonly pm D r"
proof -
  note P = permission_inspect_pairs [OF assms(1,2)]
  have inj: "r' = r" if "r' \<in> set reqs" "tr_id r' = tr_id r" for r'
    using that assms(4,5) by (auto simp: distinct_map inj_on_def)
  have pair: "(tr_id r, a) \<in> set (map (\<lambda>x. (ir_tool_request_id x, ir_action x)) results) \<longleftrightarrow>
      intended mode readonly pm D r = Some a" for a
    using P inj assms(5) by auto
  show ?thesis
  proof (cases "permission_result_for all r")
    case None
    then have "\<forall>x \<in> set results. ir_tool_request_id x \<noteq> tr_id r"
      by (auto simp: permission_result_for_def all find_None_iff)
    then have "intended mode readonly pm D r = None"
      using pair by (cases "intended mode readonly pm D r") force+
    with None show ?thesis by simp
  next
    case (Some x)
    then have "x \<in> set results" "ir_tool_request_id x = tr_id r"
      by (auto simp: permission_result_for_def all find_Some_iff)
    then have "(tr_id r, ir_action x) \<in> set (map (\<lambda>x. (ir_tool_request_id x, ir_action x)) results)"
      by force
    with pair Some show ?thesis by simp
  qed
qed

definition user_level :: "permission_manager \<Rightarrow> string \<Rightarrow> permission_level option" where
  "user_level pm name = get_permission (pmg_memory pm) USER_PERMISSION name"

lemma decide_tool_user:
  assumes "mode = Approve \<or> mode = SmartApprove" "decide_tool mode readonly pm name = Inr d"
  shows "user_level pm name = Some level \<Longrightarrow> d = Act (level_action level)"
    and "user_level pm name = None \<Longrightarrow> mode = Approve \<Longrightarrow> \<exists>m. d = Act (RequireApproval m)"
    and "user_level pm name = None \<Longrightarrow> d = Act Allow \<Longrightarrow> mode = SmartApprove \<and> name \<in> readonly"
    and "user_level pm name = None \<Longrightarrow> d = Defer \<Longrightarrow>
        mode = SmartApprove \<and> name \<noteq> MANAGE_EXTENSIONS_TOOL_NAME_COMPLETE"
  using assms
  by (auto simp: decide_tool_def get_user_permission_def get_smart_approve_permission_def
      read_permission_map_def user_level_def
      split: goose_mode.splits if_splits option.splits sum.splits permission_level.splits)

lemma inspect_requests_decides:
  "inspect_requests mode readonly pm reqs = Inr res \<Longrightarrow> r \<in> set reqs \<Longrightarrow> tr_tool_call r = Inr call \<Longrightarrow>
     \<exists>d. decide_tool mode readonly pm (ctp_name call) = Inr d"
  by (induction mode readonly pm reqs arbitrary: res rule: inspect_requests.induct)
    (auto split: sum.splits)

text \<open>Outside auto mode a tool request of a batch with
  distinct identifiers is approved only when the user's level for the tool is always-allow, or,
  in smart-approve mode and with no level of the user, when the tool is annotated read-only, or
  when the judge reported this very request as read-only and the tool is not the one that
  manages extensions. This holds whatever the other inspectors report; in chat mode nothing is
  approved.\<close>

lemma approved_only_if_permitted:
  assumes "permission_inspect yc io provider mode readonly reqs disk pm = (Inr results, disk', pm')"
    and "filter (\<lambda>x. ir_inspector_name x = ''permission'') all = results"
    and "distinct (map tr_id reqs)" and "mode \<noteq> Auto"
    and "r \<in> set (pcr_approved (process_inspection_results reqs all))"
  shows "\<exists>call. tr_tool_call r = Inr call \<and> mode \<noteq> Chat \<and>
     (user_level pm (ctp_name call) = Some LAlwaysAllow
      \<or> user_level pm (ctp_name call) = None \<and> mode = SmartApprove
         \<and> (ctp_name call \<in> readonly
             \<or> ctp_name call \<noteq> MANAGE_EXTENSIONS_TOOL_NAME_COMPLETE
               \<and> tr_id r \<in> detected_by provider (filter (is_deferred mode readonly pm) reqs)))"
proof -
  define D where "D = detected_by provider (filter (is_deferred mode readonly pm) reqs)"
  from assms(5) have r: "r \<in> set reqs"
    and ap: "map_option ir_action (permission_result_for all r) = Some Allow"
    using inspection_approved_set [of reqs all] by auto
  with permission_result_intended [OF assms(1) D_def assms(2,3) r]
  have int: "intended mode readonly pm D r = Some Allow" by simp
  then obtain call d where call: "tr_tool_call r = Inr call"
    and d: "decide_tool mode readonly pm (ctp_name call) = Inr d"
    and cases: "d = Act Allow \<or> d = Defer \<and> tr_id r \<in> D"
    by (auto simp: intended_def split: sum.splits decision.splits if_splits)
  have mode: "mode = Approve \<or> mode = SmartApprove"
    using d cases assms(4) by (cases mode) (auto simp: decide_tool_def)
  note U = decide_tool_user [OF mode d]
  show ?thesis
  proof (cases "user_level pm (ctp_name call)")
    case None
    with U cases mode call D_def show ?thesis by auto
  next
    case (Some level)
    with U(1) cases have "level = LAlwaysAllow"
      by (cases level) (auto simp: level_action_def)
    with Some mode call show ?thesis by auto
  qed
qed

text \<open>Claim C9 (never_allow_is_denied): in the modes that ask, and when the requests of the turn have
  distinct identifiers, a request for a tool the user never allows is denied, whatever the other
  inspectors report. Decisions are kept by identifier: two requests with the same one share theirs.\<close>

theorem never_allow_is_denied:
  assumes "permission_inspect yc io provider mode readonly reqs disk pm = (Inr results, disk', pm')"
    and "filter (\<lambda>x. ir_inspector_name x = ''permission'') all = results"
    and "distinct (map tr_id reqs)" and "mode = Approve \<or> mode = SmartApprove"
    and "r \<in> set reqs" "tr_tool_call r = Inr call"
    and "user_level pm (ctp_name call) = Some LNeverAllow"
  shows "r \<in> set (pcr_denied (process_inspection_results reqs all))"
proof -
  obtain res where "inspect_requests mode readonly pm reqs = Inr res"
    using assms(1) by (auto simp: permission_inspect_def split: sum.splits)
  with inspect_requests_decides assms(5,6) obtain d
    where d: "decide_tool mode readonly pm (ctp_name call) = Inr d" by blast
  from decide_tool_user(1) [OF assms(4) d assms(7)] have "d = Act Deny"
    by (simp add: level_action_def)
  with d assms(6) have "intended mode readonly pm D r = Some Deny" for D
    by (simp add: intended_def)
  with permission_result_intended [OF assms(1) refl assms(2,3,5)]
  have "map_option ir_action (permission_result_for all r) = Some Deny" by simp
  then show ?thesis by (rule denied_by_permission [OF assms(3,5)])
qed

subsection \<open>Examples\<close>

definition sample_manager :: permission_manager where
  "sample_manager = \<lparr>pmg_memory = update_permission USER_PERMISSION ''rm'' LNeverAllow
     (update_permission USER_PERMISSION ''ls'' LAlwaysAllow Map.empty), pmg_poisoned = False\<rparr>"

definition sample_batch :: "tool_request list" where
  "sample_batch = [sample_req ''1'' ''ls'', sample_req ''2'' ''rm'', sample_req ''3'' ''cat'']"

definition sample_batch_results :: "inspection_result list" where
  "sample_batch_results =
     [permission_result (sample_req ''1'' ''ls'') Allow ''User permission allows this tool'',
      permission_result (sample_req ''2'' ''rm'') Deny ''User permission denies this tool'',
      permission_result (sample_req ''3'' ''cat'') (RequireApproval None) ''Tool requires user approval'']"

lemma sample_inspection:
  "permission_inspect sample_codec (\<lambda>_. all_ok) None Approve {} sample_batch None sample_manager
     = (Inr sample_batch_results, None, sample_manager)"
  by (simp add: permission_inspect_def sample_batch_def sample_batch_results_def sample_req_def
      decide_tool_def get_user_permission_def read_permission_map_def sample_manager_def
      get_permission_def update_permission_def config_push_def config_remove_def
      entry_or_default_def permission_config_default_def level_action_def decision_reason_def
      MANAGE_EXTENSIONS_TOOL_NAME_COMPLETE_def permission_result_def)

lemma sample_batch_ids: "distinct (map tr_id sample_batch)"
  by (simp add: sample_batch_def sample_req_def)

lemma sample_batch_names:
  "filter (\<lambda>x. ir_inspector_name x = ''permission'')
     (sample_batch_results @ [sample_result ''2'' Allow ''security'']) = sample_batch_results"
  by (simp add: sample_batch_results_def permission_result_def sample_result_def)

lemma approved_only_if_permitted_example:
  "sample_req ''1'' ''ls'' \<in> set (pcr_approved (process_inspection_results sample_batch
     (sample_batch_results @ [sample_result ''2'' Allow ''security''])))
   \<and> user_level sample_manager ''ls'' = Some LAlwaysAllow"
proof -
  have ap: "sample_req ''1'' ''ls'' \<in> set (pcr_approved (process_inspection_results sample_batch
     (sample_batch_results @ [sample_result ''2'' Allow ''security''])))"
    by code_simp
  have "Approve \<noteq> Auto" by simp
  from approved_only_if_permitted [OF sample_inspection sample_batch_names sample_batch_ids this ap] ap
  show ?thesis by (simp add: sample_req_def)
qed

theorem never_allow_is_denied_witness:
  "sample_req ''2'' ''rm'' \<in> set (pcr_denied (process_inspection_results sample_batch
     (sample_batch_results @ [sample_result ''2'' Allow ''security''])))"
  by (rule never_allow_is_denied [OF sample_inspection sample_batch_names sample_batch_ids,
        where call = "\<lparr>ctp_name = ''rm'', ctp_arguments = None, ctp_rest = JNull\<rparr>"])
    (simp_all add: sample_batch_def sample_req_def user_level_def sample_manager_def
      get_permission_def update_permission_def config_push_def config_remove_def
      entry_or_default_def permission_config_default_def)

text \<open>In auto mode the level is not looked up: a tool the user never allows runs.\<close>

lemma auto_mode_ignores_never_allow:
  "decide_tool Auto readonly pm name = Inr (Act Allow)"
  by (simp add: decide_tool_def)

end
