(* ===== verification/Tool_Monitor.thy ===== *)
theory Tool_Monitor
  imports Tool_Inspection
begin

section \<open>The repetition inspector\<close>

text \<open>
  \<open>tool_monitor.rs\<close>: a counter of consecutive calls of one tool with the same arguments. The
  counters are \<open>u32\<close> and wrap as in a release build. Arguments are compared as
  \<open>serde_json::Value\<close>s are: objects without regard to the order of their members.
\<close>

function json_eq :: "json \<Rightarrow> json \<Rightarrow> bool" where
  "json_eq JNull b \<longleftrightarrow> b = JNull"
| "json_eq (JBool x) b \<longleftrightarrow> b = JBool x"
| "json_eq (JNumber x) b \<longleftrightarrow>
     (case b of
        JNumber y \<Rightarrow>
          (case (x, y) of
             (Float f, Float g) \<Rightarrow> f = g \<or> (f \<in> {0, 0x8000000000000000} \<and> g \<in> {0, 0x8000000000000000})
           | _ \<Rightarrow> x = y)
      | _ \<Rightarrow> False)"
| "json_eq (JString x) b \<longleftrightarrow> b = JString x"
| "json_eq (JArray xs) b \<longleftrightarrow>
     (case b of
        JArray ys \<Rightarrow> length xs = length ys \<and> (\<forall>(x, y) \<in> set (zip xs ys). json_eq x y)
      | _ \<Rightarrow> False)"
| "json_eq (JObject xs) b \<longleftrightarrow>
     (case b of
        JObject ys \<Rightarrow>
          length xs = length ys
          \<and> (\<forall>(k, x) \<in> set xs. case map_of ys k of Some y \<Rightarrow> json_eq x y | None \<Rightarrow> False)
      | _ \<Rightarrow> False)"
  by pat_completeness auto
termination
proof (relation "measure (size \<circ> fst)", goal_cases)
  case (2 xs b ys z x y)
  then show ?case by (auto simp: less_Suc_eq_le dest!: set_zip_leftD intro: size_list_estimation')
next
  case (3 xs b ys z k x y)
  then have "(k, x) \<in> set xs" by simp
  then have "size x \<le> size_list (size_prod (\<lambda>_. 0) size) xs"
    by (rule size_list_estimation') simp
  with 3 show ?case by simp
qed simp

record internal_tool_call =
  itc_name :: string
  itc_parameters :: json

definition call_matches :: "internal_tool_call \<Rightarrow> internal_tool_call \<Rightarrow> bool" where
  "call_matches a b \<longleftrightarrow> itc_name a = itc_name b \<and> json_eq (itc_parameters a) (itc_parameters b)"

definition from_tool_call :: "call_tool_request_params \<Rightarrow> internal_tool_call" where
  "from_tool_call c =
     \<lparr>itc_name = ctp_name c,
      itc_parameters = (case ctp_arguments c of Some obj \<Rightarrow> JObject obj | None \<Rightarrow> JNull)\<rparr>"

record repetition_inspector =
  rep_max_repetitions :: "u32 option"
  rep_last_call :: "internal_tool_call option"
  rep_repeat_count :: u32
  rep_call_counts :: "string \<rightharpoonup> u32"

definition repetition_new :: "u32 option \<Rightarrow> repetition_inspector" where
  "repetition_new mx =
     \<lparr>rep_max_repetitions = mx, rep_last_call = None, rep_repeat_count = 0,
      rep_call_counts = Map.empty\<rparr>"

definition count_call :: "string \<Rightarrow> repetition_inspector \<Rightarrow> repetition_inspector" where
  "count_call name ri =
     ri\<lparr>rep_call_counts := (rep_call_counts ri)(name \<mapsto>
        (case rep_call_counts ri name of Some n \<Rightarrow> n | None \<Rightarrow> 0) + 1)\<rparr>"

definition check_tool_call ::
    "call_tool_request_params \<Rightarrow> repetition_inspector \<Rightarrow> bool \<times> repetition_inspector" where
  "check_tool_call c ri0 =
     (let call = from_tool_call c; ri = count_call (itc_name call) ri0 in
      case rep_max_repetitions ri of
        None \<Rightarrow> (True, ri\<lparr>rep_last_call := Some call, rep_repeat_count := 1\<rparr>)
      | Some mx \<Rightarrow>
          (case rep_last_call ri of
             Some l \<Rightarrow>
               if call_matches l call
               then (let n = rep_repeat_count ri + 1 in
                     if n > mx then (False, ri\<lparr>rep_repeat_count := n\<rparr>)
                     else (True, ri\<lparr>rep_repeat_count := n, rep_last_call := Some call\<rparr>))
               else (True, ri\<lparr>rep_repeat_count := 1, rep_last_call := Some call\<rparr>)
           | None \<Rightarrow> (True, ri\<lparr>rep_repeat_count := 1, rep_last_call := Some call\<rparr>)))"

definition repetition_reset :: "repetition_inspector \<Rightarrow> repetition_inspector" where
  "repetition_reset ri =
     ri\<lparr>rep_last_call := None, rep_repeat_count := 0, rep_call_counts := Map.empty\<rparr>"

definition repetition_result :: "tool_request \<Rightarrow> call_tool_request_params \<Rightarrow> inspection_result" where
  "repetition_result r c =
     \<lparr>ir_tool_request_id = tr_id r, ir_action = Deny,
      ir_reason = ''Tool '' @ CHR 0x27 # ctp_name c @ CHR 0x27 # '' has exceeded maximum repetitions'',
      ir_confidence = 0x3F800000, ir_inspector_name = ''repetition'',
      ir_finding_id = Some ''REP-001''\<rparr>"

definition repetition_inspect ::
    "repetition_inspector \<Rightarrow> tool_request list \<Rightarrow> inspection_result list" where
  "repetition_inspect ri reqs =
     filter_map (\<lambda>r. case tr_tool_call r of
        Inl _ \<Rightarrow> None
      | Inr c \<Rightarrow>
          (let temp = (repetition_new (rep_max_repetitions ri))
                 \<lparr>rep_last_call := rep_last_call ri, rep_repeat_count := rep_repeat_count ri,
                  rep_call_counts := rep_call_counts ri\<rparr>
           in if \<not> fst (check_tool_call c temp) then Some (repetition_result r c) else None)) reqs"

fun check_all :: "call_tool_request_params list \<Rightarrow> repetition_inspector
    \<Rightarrow> bool list \<times> repetition_inspector" where
  "check_all [] ri = ([], ri)"
| "check_all (c # cs) ri =
     (let (b, ri1) = check_tool_call c ri; (bs, ri2) = check_all cs ri1 in (b # bs, ri2))"

subsection \<open>Counting\<close>

lemma check_all_append:
  "check_all (cs @ ds) ri =
     (let (bs, ri1) = check_all cs ri; (es, ri2) = check_all ds ri1 in (bs @ es, ri2))"
  by (induction cs arbitrary: ri) (simp_all add: Let_def split_beta)

definition repeats_seen :: "call_tool_request_params \<Rightarrow> u32 \<Rightarrow> nat \<Rightarrow> repetition_inspector \<Rightarrow> bool" where
  "repeats_seen c mx n ri \<longleftrightarrow>
     rep_max_repetitions ri = Some mx \<and> rep_last_call ri = Some (from_tool_call c)
     \<and> unat (rep_repeat_count ri) = n"

lemma first_call:
  assumes "rep_max_repetitions ri = Some mx"
    and "\<And>l. rep_last_call ri = Some l \<Longrightarrow> \<not> call_matches l (from_tool_call c)"
  shows "fst (check_tool_call c ri) \<and> repeats_seen c mx 1 (snd (check_tool_call c ri))"
  using assms
  by (auto simp: check_tool_call_def count_call_def repeats_seen_def Let_def split: option.split)

lemma repeated_call:
  assumes "repeats_seen c mx n ri" "n + 1 < 2 ^ 32"
    and "call_matches (from_tool_call c) (from_tool_call c)"
  shows "(fst (check_tool_call c ri) \<longleftrightarrow> n + 1 \<le> unat mx)
     \<and> repeats_seen c mx (n + 1) (snd (check_tool_call c ri))"
proof -
  have "unat (rep_repeat_count ri + 1) = n + 1"
    using assms(1,2) by (simp add: repeats_seen_def unat_wrapping_inc)
  with assms(1,3) show ?thesis
    by (auto simp: check_tool_call_def count_call_def repeats_seen_def Let_def word_less_nat_alt)
qed

lemma repeated_calls:
  assumes "repeats_seen c mx n ri" "n + k < 2 ^ 32"
    and "call_matches (from_tool_call c) (from_tool_call c)"
  shows "fst (check_all (replicate k c) ri) = map (\<lambda>i. n + i < unat mx) [0..<k]
     \<and> repeats_seen c mx (n + k) (snd (check_all (replicate k c) ri))"
  using assms(1,2)
proof (induction k arbitrary: n ri)
  case (Suc k)
  from repeated_call [OF Suc.prems(1) _ assms(3)] Suc.prems(2)
  have step: "fst (check_tool_call c ri) \<longleftrightarrow> n < unat mx"
    and seen: "repeats_seen c mx (n + 1) (snd (check_tool_call c ri))" by auto
  have "map (\<lambda>i. n + i < unat mx) [0..<Suc k] = (n < unat mx) # map (\<lambda>i. n + 1 + i < unat mx) [0..<k]"
    by (simp add: upt_conv_Cons map_Suc_upt [symmetric] comp_def del: upt_Suc)
  with Suc.IH [OF seen] Suc.prems(2) step show ?case
    by (simp add: split_beta Let_def del: upt_Suc)
qed simp

text \<open>With a limit the first call is let through and of its
  immediate repetitions exactly those up to the limit; a different call then starts over. (The
  counter is a \<open>u32\<close>: the statement is for fewer than \<open>2 ^ 32\<close> repetitions.)\<close>

lemma repetition_limit:
  assumes "call_matches (from_tool_call c) (from_tool_call c)"
    and "\<not> call_matches (from_tool_call c) (from_tool_call d)" and "k + 1 < 2 ^ 32"
  shows "fst (check_all (replicate (k + 1) c @ [d]) (repetition_new (Some mx)))
     = True # map (\<lambda>i. i + 1 < unat mx) [0..<k] @ [True]"
proof -
  let ?ri = "snd (check_tool_call c (repetition_new (Some mx)))"
  have 1: "fst (check_tool_call c (repetition_new (Some mx))) \<and> repeats_seen c mx 1 ?ri"
    by (rule first_call) (simp_all add: repetition_new_def)
  note R = repeated_calls [OF conjunct2 [OF 1] _ assms(1), of k]
  let ?rk = "snd (check_all (replicate k c) ?ri)"
  have "repeats_seen c mx (1 + k) ?rk" using R assms(3) by simp
  then have "fst (check_tool_call d ?rk)"
    using assms(2) first_call [of ?rk mx d] by (auto simp: repeats_seen_def)
  with 1 R assms(3) show ?thesis by (simp add: check_all_append split_beta Let_def)
qed

definition sample_params :: "string \<Rightarrow> call_tool_request_params" where
  "sample_params name = \<lparr>ctp_name = name, ctp_arguments = None, ctp_rest = JNull\<rparr>"

lemma repetition_limit_example:
  "fst (check_all (replicate (3 + 1) (sample_params ''ls'') @ [sample_params ''cat''])
     (repetition_new (Some 2))) = [True, True, False, False, True]"
  by (subst repetition_limit)
    (simp_all add: call_matches_def from_tool_call_def sample_params_def upt_rec)

text \<open>
  The inspector as the manager runs it: \<open>inspect\<close> counts on a copy of the state and nothing
  else calls \<open>check_tool_call\<close>, so an inspector that is only inspected stays as it was made and
  denies nothing, with any limit.
\<close>

text \<open>The inspector in the state in which it is added to
  the manager denies no request of any batch, with any limit, however often calls repeat in
  the batch.\<close>

lemma repetition_inspect_inert: "repetition_inspect (repetition_new mx) reqs = []"
proof -
  have "fst (check_tool_call c ((repetition_new mx)\<lparr>rep_last_call := None, rep_repeat_count := 0,
      rep_call_counts := Map.empty\<rparr>))" for c
    by (simp add: check_tool_call_def count_call_def repetition_new_def Let_def split: option.split)
  then have "(case tr_tool_call r of Inl _ \<Rightarrow> None
      | Inr c \<Rightarrow> (let temp = (repetition_new (rep_max_repetitions (repetition_new mx)))
                 \<lparr>rep_last_call := rep_last_call (repetition_new mx),
                  rep_repeat_count := rep_repeat_count (repetition_new mx),
                  rep_call_counts := rep_call_counts (repetition_new mx)\<rparr>
           in if \<not> fst (check_tool_call c temp) then Some (repetition_result r c) else None)) = None" for r
    by (simp add: repetition_new_def Let_def split: sum.split)
  then show ?thesis
    unfolding repetition_inspect_def by (induction reqs) simp_all
qed

end
