(* ===== verification/Permission_Store.thy ===== *)
theory Permission_Store
  imports Tool_Inspection
begin

section \<open>The store of tool permissions\<close>

text \<open>
  \<open>permission/permission_store.rs\<close>: decisions remembered for a tool and the hash of its
  arguments, with an optional expiry. The hash of the serialised arguments (\<open>context_hash\<close>)
  and the readable rendering of a request are parameters, the clock is an argument, and whether
  the file could be saved is one too. Time stamps are \<open>i64\<close>: the conversion of the duration
  and the sum wrap as in a release build.
\<close>

definition wrap_i64 :: "int \<Rightarrow> int" where
  "wrap_i64 x = signed_take_bit 63 x"

record tool_permission_record =
  tpr_tool_name :: string
  tpr_allowed :: bool
  tpr_context_hash :: string
  tpr_readable_context :: "string option"
  tpr_timestamp :: int
  tpr_expiry :: "int option"

type_synonym tool_permissions = "string \<rightharpoonup> tool_permission_record list"

record store_env =
  se_context_hash :: "json_object option \<Rightarrow> string"
  se_readable :: "tool_request \<Rightarrow> string"

definition record_live :: "int \<Rightarrow> tool_permission_record \<Rightarrow> bool" where
  "record_live now rec = (case tpr_expiry rec of None \<Rightarrow> True | Some exp \<Rightarrow> exp > now)"

definition permission_key :: "store_env \<Rightarrow> call_tool_request_params \<Rightarrow> string" where
  "permission_key env call = ctp_name call @ '':'' @ se_context_hash env (ctp_arguments call)"

definition rfind :: "('a \<Rightarrow> bool) \<Rightarrow> 'a list \<Rightarrow> 'a option" where
  "rfind P xs = List.find P (rev xs)"

text \<open>A request whose tool call is an error makes the \<open>unwrap\<close> panic: \<open>Inl\<close>.\<close>

definition check_permission ::
    "store_env \<Rightarrow> int \<Rightarrow> tool_request \<Rightarrow> tool_permissions \<Rightarrow> error_data + bool option" where
  "check_permission env now r perms =
     (case tr_tool_call r of
        Inl e \<Rightarrow> Inl e
      | Inr call \<Rightarrow>
          Inr (Option.bind (perms (permission_key env call))
            (\<lambda>recs. map_option tpr_allowed (rfind (record_live now) recs))))"

definition new_record ::
    "store_env \<Rightarrow> int \<Rightarrow> tool_request \<Rightarrow> call_tool_request_params \<Rightarrow> bool \<Rightarrow> u64 option
       \<Rightarrow> tool_permission_record" where
  "new_record env now r call allowed expiry_secs =
     \<lparr>tpr_tool_name = ctp_name call, tpr_allowed = allowed,
      tpr_context_hash = se_context_hash env (ctp_arguments call),
      tpr_readable_context = Some (se_readable env r), tpr_timestamp = now,
      tpr_expiry = map_option (\<lambda>d. wrap_i64 (now + wrap_i64 (uint d))) expiry_secs\<rparr>"

definition record_permission ::
    "store_env \<Rightarrow> int \<Rightarrow> bool \<Rightarrow> tool_request \<Rightarrow> bool \<Rightarrow> u64 option \<Rightarrow> tool_permissions
       \<Rightarrow> error_data + bool \<times> tool_permissions" where
  "record_permission env now save_ok r allowed expiry_secs perms =
     (case tr_tool_call r of
        Inl e \<Rightarrow> Inl e
      | Inr call \<Rightarrow>
          (let key = permission_key env call;
               rec = new_record env now r call allowed expiry_secs
           in Inr (save_ok, perms(key \<mapsto>
                (case perms key of Some recs \<Rightarrow> recs | None \<Rightarrow> []) @ [rec]))))"

text \<open>\<open>cleanup_expired\<close> saves only when a key lost all of its records; the result is whether
  the call returns \<open>Ok\<close>. \<open>keys\<close> are the keys of the hash map, as \<open>retain\<close> visits them.\<close>

definition live_records :: "int \<Rightarrow> tool_permissions \<Rightarrow> tool_permissions" where
  "live_records now perms =
     (\<lambda>key. case perms key of
        None \<Rightarrow> None
      | Some recs \<Rightarrow>
          (let kept = filter (record_live now) recs in if kept = [] then None else Some kept))"

definition cleanup_changed :: "int \<Rightarrow> string list \<Rightarrow> tool_permissions \<Rightarrow> bool" where
  "cleanup_changed now keys perms =
     list_ex (\<lambda>key. case perms key of
        None \<Rightarrow> False | Some recs \<Rightarrow> filter (record_live now) recs = []) keys"

definition cleanup_expired ::
    "int \<Rightarrow> bool \<Rightarrow> string list \<Rightarrow> tool_permissions \<Rightarrow> bool \<times> tool_permissions" where
  "cleanup_expired now save_ok keys perms =
     (if cleanup_changed now keys perms then save_ok else True, live_records now perms)"

subsection \<open>Remembered decisions\<close>

lemma wrap_i64_id: "- (2 ^ 63) \<le> x \<Longrightarrow> x < 2 ^ 63 \<Longrightarrow> wrap_i64 x = x"
  by (simp add: wrap_i64_def signed_take_bit_int_eq_self)

lemma rfind_snoc: "rfind P (xs @ [x]) = (if P x then Some x else rfind P xs)"
  by (simp add: rfind_def)

lemma rfind_filter: "(\<And>x. P x \<Longrightarrow> Q x) \<Longrightarrow> rfind P (filter Q xs) = rfind P xs"
  by (induction xs rule: rev_induct) (auto simp: rfind_snoc)

lemma permission_key_eq:
  assumes "\<And>a b. length (se_context_hash env a) = length (se_context_hash env b)"
    and "permission_key env c = permission_key env d"
  shows "ctp_name c = ctp_name d
     \<and> se_context_hash env (ctp_arguments c) = se_context_hash env (ctp_arguments d)"
  using assms(1) [of "ctp_arguments c" "ctp_arguments d"] assms(2)
  by (auto simp: permission_key_def append_eq_append_conv)

lemma new_record_live:
  assumes "\<And>d. secs = Some d \<Longrightarrow> 0 \<le> now \<and> now + uint d < 2 ^ 63 \<and> later < now + uint d"
  shows "record_live later (new_record env now r call allowed secs)"
proof (cases secs)
  case (Some d)
  with assms have d: "0 \<le> now" "now + uint d < 2 ^ 63" "later < now + uint d" by blast+
  moreover have "0 \<le> uint d" by simp
  then have "wrap_i64 (uint d) = uint d" "wrap_i64 (now + uint d) = now + uint d"
    using d by (intro wrap_i64_id; linarith)+
  ultimately show ?thesis using Some by (simp add: new_record_def record_live_def)
qed (simp add: new_record_def record_live_def)

text \<open>A decision recorded for a request answers later
  checks of the same tool with the same arguments until it expires, and it changes the answer
  for no other tool and no arguments of another hash.\<close>

lemma recorded_decision_found:
  assumes "\<And>a b. length (se_context_hash env a) = length (se_context_hash env b)"
    and "record_permission env now save_ok r allowed secs perms = Inr (saved, perms')"
    and "tr_tool_call r = Inr call" and "tr_tool_call r' = Inr call'"
    and "\<And>d. secs = Some d \<Longrightarrow> 0 \<le> now \<and> now + uint d < 2 ^ 63 \<and> later < now + uint d"
  shows "(ctp_name call' = ctp_name call \<and> ctp_arguments call' = ctp_arguments call
            \<longrightarrow> check_permission env later r' perms' = Inr (Some allowed))
       \<and> (ctp_name call' \<noteq> ctp_name call
            \<or> se_context_hash env (ctp_arguments call') \<noteq> se_context_hash env (ctp_arguments call)
            \<longrightarrow> check_permission env later r' perms' = check_permission env later r' perms)"
proof -
  let ?key = "permission_key env call"
  let ?rec = "new_record env now r call allowed secs"
  have perms': "perms' = perms(?key \<mapsto> (case perms ?key of Some recs \<Rightarrow> recs | None \<Rightarrow> []) @ [?rec])"
    using assms(2,3) by (simp add: record_permission_def Let_def)
  have rec: "tpr_allowed ?rec = allowed" "record_live later ?rec"
    using new_record_live [OF assms(5)] by (simp_all add: new_record_def)
  have same: "check_permission env later r' perms' = Inr (Some allowed)"
    if "permission_key env call' = ?key"
    using that rec by (simp add: check_permission_def assms(4) perms' rfind_snoc)
  have other: "check_permission env later r' perms' = check_permission env later r' perms"
    if "permission_key env call' \<noteq> ?key"
    using that by (simp add: check_permission_def assms(4) perms')
  show ?thesis
  proof (intro conjI impI)
    assume "ctp_name call' = ctp_name call \<and> ctp_arguments call' = ctp_arguments call"
    then show "check_permission env later r' perms' = Inr (Some allowed)"
      by (intro same) (simp add: permission_key_def)
  next
    assume "ctp_name call' \<noteq> ctp_name call
      \<or> se_context_hash env (ctp_arguments call') \<noteq> se_context_hash env (ctp_arguments call)"
    then show "check_permission env later r' perms' = check_permission env later r' perms"
      using permission_key_eq [OF assms(1), of call' call] by (intro other) auto
  qed
qed

text \<open>Removing expired records changes no answer, at the time
  of the clean-up and at any later time.\<close>

lemma cleanup_keeps_answers:
  assumes "now \<le> later"
  shows "check_permission env later r (snd (cleanup_expired now save_ok keys perms))
     = check_permission env later r perms"
proof -
  have live: "record_live later rec \<Longrightarrow> record_live now rec" for rec
    using assms by (auto simp: record_live_def split: option.splits)
  have "Option.bind (live_records now perms key) (\<lambda>recs. map_option tpr_allowed (rfind (record_live later) recs))
      = Option.bind (perms key) (\<lambda>recs. map_option tpr_allowed (rfind (record_live later) recs))" for key
  proof (cases "perms key")
    case (Some recs)
    have "rfind (record_live later) (filter (record_live now) recs) = rfind (record_live later) recs"
      using live by (rule rfind_filter)
    then show ?thesis by (auto simp: live_records_def Some Let_def rfind_def)
  qed (simp add: live_records_def)
  then show ?thesis by (simp add: check_permission_def cleanup_expired_def split: sum.split)
qed

subsection \<open>Examples\<close>

definition sample_store_env :: store_env where
  "sample_store_env = \<lparr>se_context_hash = (\<lambda>a. if a = None then ''0'' else ''1''), se_readable = tr_id\<rparr>"

lemma recorded_decision_found_example:
  "\<exists>perms. record_permission sample_store_env 100 True (sample_req ''1'' ''ls'') True (Some 60) Map.empty
       = Inr (True, perms)
     \<and> check_permission sample_store_env 150 (sample_req ''2'' ''ls'') perms = Inr (Some True)"
proof -
  let ?call = "\<lparr>ctp_name = ''ls'', ctp_arguments = None, ctp_rest = JNull\<rparr>"
  obtain perms where rec: "record_permission sample_store_env 100 True (sample_req ''1'' ''ls'') True
      (Some 60) Map.empty = Inr (True, perms)"
    by (simp add: record_permission_def sample_req_def Let_def)
  have "check_permission sample_store_env 150 (sample_req ''2'' ''ls'') perms = Inr (Some True)"
    using recorded_decision_found [OF _ rec, of ?call "sample_req ''2'' ''ls''" ?call 150]
    by (simp add: sample_store_env_def sample_req_def)
  with rec show ?thesis by blast
qed

lemma cleanup_keeps_answers_example:
  "check_permission sample_store_env 150 (sample_req ''2'' ''ls'')
     (snd (cleanup_expired 120 True [] Map.empty))
   = check_permission sample_store_env 150 (sample_req ''2'' ''ls'') Map.empty"
  by (rule cleanup_keeps_answers) simp

end
