(* ===== verification/Markdown_Buffer.thy ===== *)
theory Markdown_Buffer
  imports Rust_Str
begin

section \<open>The streaming markdown buffer\<close>

text \<open>
  \<open>session/streaming_buffer.rs\<close>: chunks of markdown are collected until a prefix has no open
  construct and can be rendered. Offsets are byte offsets. The token expression of the source
  is the function \<open>token_len\<close>, the length of the leftmost match at the start of a line's rest:
  its alternatives in their order, where \<open>.\<close> is one character of one to four bytes that is not
  a line feed. The line limits come from the environment and the temporary file is a function
  from the code to the path it was saved under, both parameters.
\<close>

subsection \<open>Fences\<close>

definition run_len :: "char \<Rightarrow> string \<Rightarrow> nat" where
  "run_len c s = length (takeWhile (\<lambda>x. x = c) s)"

definition BACKTICK :: char where "BACKTICK = CHR 0x60"
definition TILDE :: char where "TILDE = CHR 0x7E"

definition find_opening_fence :: "string \<Rightarrow> (nat \<times> char \<times> nat) option" where
  "find_opening_fence content =
     (case (str_find (replicate 3 BACKTICK) content, str_find (replicate 3 TILDE) content) of
        (None, None) \<Rightarrow> None
      | (Some a, None) \<Rightarrow> Some (a, BACKTICK, run_len BACKTICK (drop a content))
      | (None, Some b) \<Rightarrow> Some (b, TILDE, run_len TILDE (drop b content))
      | (Some a, Some b) \<Rightarrow>
          if a \<le> b then Some (a, BACKTICK, run_len BACKTICK (drop a content))
          else Some (b, TILDE, run_len TILDE (drop b content)))"

definition is_closing_line :: "char \<Rightarrow> nat \<Rightarrow> string \<Rightarrow> bool" where
  "is_closing_line fence_char min_len line =
     (let n = run_len fence_char line in
      n \<ge> min_len
      \<and> (let after = drop n line;
             line_end = (case find_char NL after of Some i \<Rightarrow> i | None \<Rightarrow> length after)
         in trim (take line_end after) = []))"

function find_closing_from :: "string \<Rightarrow> char \<Rightarrow> nat \<Rightarrow> nat \<Rightarrow> nat option" where
  "find_closing_from region fence_char min_len search_from =
     (case find_char NL (drop search_from region) of
        None \<Rightarrow> None
      | Some nl_rel \<Rightarrow>
          (let nl_pos = search_from + nl_rel; line_start = nl_pos + 1 in
           if is_closing_line fence_char min_len (drop line_start region) then Some nl_pos
           else find_closing_from region fence_char min_len line_start))"
  by pat_completeness auto
termination
proof (relation "measure (\<lambda>(region, _, _, from). length region - from)", goal_cases)
  case (2 region fence_char min_len search_from nl_rel nl_pos line_start)
  then have "nl_rel < length (drop search_from region)" using find_char_SomeD by blast
  with 2 show ?case by auto
qed simp

declare find_closing_from.simps [simp del]

definition find_closing_fence :: "string \<Rightarrow> char \<Rightarrow> nat \<Rightarrow> nat option" where
  "find_closing_fence region fence_char min_len = find_closing_from region fence_char min_len 0"

subsection \<open>Truncation of code blocks\<close>

definition parse_positive_lines :: "string \<Rightarrow> nat option" where
  "parse_positive_lines v = (case parse_uint 64 v of Some n \<Rightarrow> if n > 0 then Some n else None | None \<Rightarrow> None)"

definition max_code_block_lines :: "string option \<Rightarrow> string option \<Rightarrow> nat option" where
  "max_code_block_lines no_truncation max_lines =
     (if (case no_truncation of
            Some v \<Rightarrow> v = ''1'' \<or> to_ascii_lowercase v = ''true'' | None \<Rightarrow> False)
      then None
      else Some (case Option.bind max_lines parse_positive_lines of Some n \<Rightarrow> n | None \<Rightarrow> 50))"

definition truncated_show_lines :: "string option \<Rightarrow> nat" where
  "truncated_show_lines show_lines =
     (case Option.bind show_lines parse_positive_lines of Some n \<Rightarrow> n | None \<Rightarrow> 20)"

definition ARROW :: string where
  "ARROW = [CHR 0xE2, CHR 0x86, CHR 0x92]"

definition truncated_block ::
    "(string \<Rightarrow> string option) \<Rightarrow> nat \<Rightarrow> nat \<Rightarrow> string \<Rightarrow> nat \<Rightarrow> nat \<Rightarrow> string" where
  "truncated_block save max_lines show_lines content code_start close_offset =
     (let code_content = take close_offset (drop code_start content);
          ls = lines code_content
      in if length ls \<le> max_lines then content
         else (let shown = min (min show_lines max_lines) (length ls);
                   remaining = length ls - shown;
                   file_msg = (case save code_content of Some p \<Rightarrow> SPACE # ARROW @ SPACE # p | None \<Rightarrow> [])
               in take code_start content @ join [NL] (take shown ls)
                  @ NL # ''... ('' @ show_nat remaining @ '' more lines'' @ file_msg @ '')'' @ NL
                  # drop (code_start + close_offset + 1) content))"

definition truncate_code_blocks_with ::
    "(string \<Rightarrow> string option) \<Rightarrow> string \<Rightarrow> nat \<Rightarrow> nat \<Rightarrow> string" where
  "truncate_code_blocks_with save content max_lines show_lines =
     (case find_opening_fence content of
        None \<Rightarrow> content
      | Some (open_pos, fence_char, fence_len) \<Rightarrow>
          (let after_fence = open_pos + fence_len in
           case find_char NL (drop after_fence content) of
             None \<Rightarrow> content
           | Some newline_pos \<Rightarrow>
               (let code_start = after_fence + newline_pos + 1 in
                case find_closing_fence (drop code_start content) fence_char fence_len of
                  None \<Rightarrow> content
                | Some close_offset \<Rightarrow>
                    truncated_block save max_lines show_lines content code_start close_offset)))"

record render_env =
  re_max_lines :: "nat option"
  re_show_lines :: nat
  re_save :: "string \<Rightarrow> string option"

definition truncate_code_blocks :: "render_env \<Rightarrow> string \<Rightarrow> string" where
  "truncate_code_blocks env content =
     (case re_max_lines env of
        None \<Rightarrow> content
      | Some max_lines \<Rightarrow>
          truncate_code_blocks_with (re_save env) content max_lines (re_show_lines env))"

subsection \<open>Tokens\<close>

definition special_chars :: "char set" where
  "special_chars =
     {CHR 0x5C, CHR ''*'', CHR ''_'', BACKTICK, TILDE, CHR ''['', CHR '']'', CHR ''!'',
      CHR ''('', CHR '')''}"

definition first_that_fits :: "string list \<Rightarrow> string \<Rightarrow> nat option" where
  "first_that_fits ps s = map_option length (List.find (\<lambda>p. prefix p s) ps)"

definition fixed_tokens :: "string list" where
  "fixed_tokens =
     [''***'', ''**'', ''*'', ''___'', ''__'', ''_'', replicate 2 TILDE, ''!['', ''](''
      , ''['', '']'', '')'']"

definition token_len :: "string \<Rightarrow> nat" where
  "token_len s =
     (case s of
        [] \<Rightarrow> 0
      | c # rest \<Rightarrow>
          if c = CHR 0x5C \<and> rest \<noteq> [] \<and> hd rest \<noteq> NL
          then min (length s) (1 + utf8_width (hd rest))
          else if c = BACKTICK then run_len BACKTICK s
          else (case first_that_fits fixed_tokens s of
                  Some n \<Rightarrow> n
                | None \<Rightarrow>
                    if c \<notin> special_chars then length (takeWhile (\<lambda>x. x \<notin> special_chars) s)
                    else 1))"

subsection \<open>Parse state\<close>

record parse_state =
  ps_in_code_block :: bool
  ps_code_fence_char :: char
  ps_code_fence_len :: nat
  ps_in_table :: bool
  ps_pending_heading :: bool
  ps_in_inline_code :: bool
  ps_inline_code_len :: nat
  ps_in_bold :: bool
  ps_in_italic :: bool
  ps_in_strikethrough :: bool
  ps_in_link_text :: bool
  ps_in_link_url :: bool
  ps_in_image_alt :: bool

definition parse_state_default :: parse_state where
  "parse_state_default =
     \<lparr>ps_in_code_block = False, ps_code_fence_char = CHR 0x00, ps_code_fence_len = 0,
      ps_in_table = False, ps_pending_heading = False, ps_in_inline_code = False,
      ps_inline_code_len = 0, ps_in_bold = False, ps_in_italic = False,
      ps_in_strikethrough = False, ps_in_link_text = False, ps_in_link_url = False,
      ps_in_image_alt = False\<rparr>"

definition is_clean :: "parse_state \<Rightarrow> bool" where
  "is_clean st \<longleftrightarrow>
     \<not> ps_in_code_block st \<and> \<not> ps_in_table st \<and> \<not> ps_pending_heading st
     \<and> \<not> ps_in_inline_code st \<and> \<not> ps_in_bold st \<and> \<not> ps_in_italic st
     \<and> \<not> ps_in_strikethrough st \<and> \<not> ps_in_link_text st \<and> \<not> ps_in_link_url st
     \<and> \<not> ps_in_image_alt st"

definition after_fence_line :: "string \<Rightarrow> nat" where
  "after_fence_line line = (case find_char NL line of Some i \<Rightarrow> i + 1 | None \<Rightarrow> length line)"

definition check_code_fence :: "string \<Rightarrow> parse_state \<Rightarrow> parse_state \<times> nat option" where
  "check_code_fence line st =
     (let trimmed = trim_start line in
      case trimmed of
        [] \<Rightarrow> (st, None)
      | fence_char # _ \<Rightarrow>
          if fence_char \<noteq> BACKTICK \<and> fence_char \<noteq> TILDE then (st, None)
          else (let fence_len = run_len fence_char trimmed in
                if fence_len < 3 then (st, None)
                else (let after_fence = drop fence_len trimmed in
                      if ps_in_code_block st
                      then (if fence_char = ps_code_fence_char st \<and> fence_len \<ge> ps_code_fence_len st
                               \<and> (after_fence = [] \<or> starts_with after_fence [NL] \<or> trim after_fence = [])
                            then (st\<lparr>ps_in_code_block := False, ps_code_fence_char := CHR 0x00,
                                    ps_code_fence_len := 0\<rparr>, Some (after_fence_line line))
                            else (st, None))
                      else (st\<lparr>ps_in_code_block := True, ps_code_fence_char := fence_char,
                              ps_code_fence_len := fence_len\<rparr>, Some (after_fence_line line)))))"

definition is_heading_start :: "string \<Rightarrow> bool" where
  "is_heading_start remaining =
     (starts_with remaining ''#''
      \<and> (let hashes = run_len CHR ''#'' remaining; after = drop hashes remaining in
         hashes \<le> 6 \<and> (after = [] \<or> starts_with after '' '' \<or> starts_with after [NL])))"

text \<open>The offset is the one from the start of the line.\<close>

definition process_line_start :: "string \<Rightarrow> parse_state \<Rightarrow> parse_state \<times> nat option" where
  "process_line_start remaining st0 =
     (let st = st0\<lparr>ps_pending_heading := False\<rparr> in
      case check_code_fence remaining st of
        (st1, Some off) \<Rightarrow> (st1, Some off)
      | (st1, None) \<Rightarrow>
          if ps_in_code_block st1 then (st1, None)
          else if is_heading_start remaining then (st1\<lparr>ps_pending_heading := True\<rparr>, None)
          else if starts_with remaining ''|'' then (st1\<lparr>ps_in_table := True\<rparr>, None)
          else if (starts_with remaining [NL] \<or> remaining = []) \<and> ps_in_table st1
          then (st1\<lparr>ps_in_table := False\<rparr>, Some 1)
          else (st1\<lparr>ps_in_table := False\<rparr>, None))"

definition process_inline_token :: "string \<Rightarrow> parse_state \<Rightarrow> parse_state" where
  "process_inline_token token st =
     (if starts_with token [CHR 0x5C] \<and> length token = 2 then st
      else if starts_with token [BACKTICK]
      then (if ps_in_inline_code st
            then (if length token = ps_inline_code_len st
                  then st\<lparr>ps_in_inline_code := False, ps_inline_code_len := 0\<rparr> else st)
            else st\<lparr>ps_in_inline_code := True, ps_inline_code_len := length token\<rparr>)
      else if ps_in_inline_code st then st
      else if token = ''***'' \<or> token = ''___''
      then (if ps_in_bold st \<and> ps_in_italic st then st\<lparr>ps_in_bold := False, ps_in_italic := False\<rparr>
            else if ps_in_bold st then st\<lparr>ps_in_italic := \<not> ps_in_italic st\<rparr>
            else if ps_in_italic st then st\<lparr>ps_in_bold := \<not> ps_in_bold st\<rparr>
            else st\<lparr>ps_in_bold := True, ps_in_italic := True\<rparr>)
      else if token = ''**'' \<or> token = ''__'' then st\<lparr>ps_in_bold := \<not> ps_in_bold st\<rparr>
      else if token = ''*'' \<or> token = ''_'' then st\<lparr>ps_in_italic := \<not> ps_in_italic st\<rparr>
      else if token = replicate 2 TILDE then st\<lparr>ps_in_strikethrough := \<not> ps_in_strikethrough st\<rparr>
      else if token = ''!['' then st\<lparr>ps_in_image_alt := True\<rparr>
      else if token = ''[''
      then (if \<not> ps_in_link_text st \<and> \<not> ps_in_image_alt st then st\<lparr>ps_in_link_text := True\<rparr> else st)
      else if token = ''](''
      then (if ps_in_link_text st then st\<lparr>ps_in_link_text := False, ps_in_link_url := True\<rparr>
            else if ps_in_image_alt st then st\<lparr>ps_in_image_alt := False, ps_in_link_url := True\<rparr>
            else st)
      else if token = '')'' \<and> ps_in_link_url st then st\<lparr>ps_in_link_url := False\<rparr>
      else st)"

subsection \<open>The scan\<close>

lemma token_len_le: "token_len s \<le> length s"
  by (auto simp: token_len_def run_len_def first_that_fits_def find_Some_iff length_takeWhile_le
      split: list.splits option.splits dest: prefix_length_le)

lemma token_len_pos: "s \<noteq> [] \<Longrightarrow> 0 < token_len s"
  by (auto simp: token_len_def run_len_def first_that_fits_def fixed_tokens_def find_Some_iff
      nth_Cons less_Suc_eq_0_disj split: list.splits option.splits nat.splits if_splits)

text \<open>The tokens of a line: the state after each and the last clean end, from \<open>pos\<close> on.\<close>

function inline_tokens :: "string \<Rightarrow> nat \<Rightarrow> parse_state \<Rightarrow> nat \<Rightarrow> parse_state \<times> nat" where
  "inline_tokens s pos st last_safe =
     (if s = [] then (st, last_safe)
      else (let n = token_len s; st' = process_inline_token (take n s) st; e = pos + n
            in inline_tokens (drop n s) e st' (if is_clean st' then e else last_safe)))"
  by pat_completeness auto
termination
  by (relation "measure (length \<circ> fst)") (auto simp: token_len_pos)

declare inline_tokens.simps [simp del]

definition at_line_start :: "string \<Rightarrow> nat \<Rightarrow> bool" where
  "at_line_start buf pos \<longleftrightarrow> pos = 0 \<or> buf ! (pos - 1) = NL"

definition line_end_from :: "string \<Rightarrow> nat \<Rightarrow> nat" where
  "line_end_from buf pos =
     (case find_char NL (drop pos buf) of Some i \<Rightarrow> pos + i + 1 | None \<Rightarrow> length buf)"

text \<open>One round of the loop of \<open>find_safe_end\<close> at \<open>pos < length buf\<close>.\<close>

definition scan_rest :: "string \<Rightarrow> nat \<times> parse_state \<times> nat \<Rightarrow> nat \<times> parse_state \<times> nat" where
  "scan_rest buf c =
     (case c of (pos, st, last_safe) \<Rightarrow>
        let line_end = line_end_from buf pos in
        if ps_in_code_block st then (line_end, st, last_safe)
        else (let (st1, ls1) = inline_tokens (take (line_end - pos) (drop pos buf)) pos st last_safe
              in if buf ! (line_end - 1) = NL
                 then (let st2 = st1\<lparr>ps_pending_heading := False\<rparr>
                       in (line_end, st2, if is_clean st2 then line_end else ls1))
                 else (line_end, st1, ls1)))"

definition scan_step :: "string \<Rightarrow> nat \<times> parse_state \<times> nat \<Rightarrow> nat \<times> parse_state \<times> nat" where
  "scan_step buf c =
     (case c of (pos, st, last_safe) \<Rightarrow>
        if at_line_start buf pos
        then (case process_line_start (drop pos buf) st of
                (st1, Some off) \<Rightarrow> (pos + off, st1, if is_clean st1 then pos + off else last_safe)
              | (st1, None) \<Rightarrow> scan_rest buf (pos, st1, last_safe))
        else scan_rest buf (pos, st, last_safe))"

subsection \<open>Progress of the scan\<close>

lemma line_end_from_bounds:
  assumes "pos < length buf"
  shows "pos < line_end_from buf pos \<and> line_end_from buf pos \<le> length buf"
proof (cases "find_char NL (drop pos buf)")
  case (Some i)
  then have "i < length (drop pos buf)" using find_char_SomeD by blast
  with Some assms show ?thesis by (simp add: line_end_from_def)
qed (use assms in \<open>simp add: line_end_from_def\<close>)

lemma after_fence_line_bounds:
  assumes "line \<noteq> []"
  shows "0 < after_fence_line line \<and> after_fence_line line \<le> length line"
proof (cases "find_char NL line")
  case (Some i)
  then have "i < length line" using find_char_SomeD by blast
  with Some show ?thesis by (simp add: after_fence_line_def)
qed (use assms in \<open>simp add: after_fence_line_def\<close>)

lemma check_code_fence_offset:
  assumes "check_code_fence line st = (st', Some off)" "line \<noteq> []"
  shows "off = after_fence_line line"
  using assms
  by (auto simp: check_code_fence_def Let_def split: list.splits if_splits)

lemma process_line_start_bounds:
  assumes "process_line_start line st = (st', Some off)" "line \<noteq> []"
  shows "0 < off \<and> off \<le> length line"
proof -
  have "0 < length line" using assms(2) by simp
  then have "Suc 0 \<le> length line" by (rule Suc_leI)
  with assms after_fence_line_bounds [OF assms(2)] show ?thesis
    by (auto simp: process_line_start_def Let_def split: prod.splits option.splits if_splits
        dest!: check_code_fence_offset)
qed

fun last_clean :: "nat \<Rightarrow> (nat \<times> parse_state) list \<Rightarrow> nat" where
  "last_clean ls [] = ls"
| "last_clean ls ((e, st) # evs) = last_clean (if is_clean st then e else ls) evs"

lemma last_clean_append: "last_clean ls (xs @ ys) = last_clean (last_clean ls xs) ys"
  by (induction ls xs rule: last_clean.induct) simp_all

function inline_events :: "string \<Rightarrow> nat \<Rightarrow> parse_state \<Rightarrow> (nat \<times> parse_state) list \<times> parse_state" where
  "inline_events s pos st =
     (if s = [] then ([], st)
      else (let n = token_len s; st' = process_inline_token (take n s) st;
                (evs, st'') = inline_events (drop n s) (pos + n) st'
            in ((pos + n, st') # evs, st'')))"
  by pat_completeness auto
termination
  by (relation "measure (length \<circ> fst)") (auto simp: token_len_pos)

declare inline_events.simps [simp del]

lemma inline_tokens_events:
  "inline_tokens s pos st ls =
     (snd (inline_events s pos st), last_clean ls (fst (inline_events s pos st)))"
proof (induction s pos st ls rule: inline_tokens.induct)
  case (1 s pos st ls)
  then show ?case
    by (subst inline_tokens.simps, subst (1 2) inline_events.simps)
      (auto simp: Let_def split_beta)
qed

lemma inline_events_range:
  "(e, st') \<in> set (fst (inline_events s pos st)) \<Longrightarrow> pos < e \<and> e \<le> pos + length s"
proof (induction s pos st rule: inline_events.induct)
  case (1 s pos st)
  show ?case
  proof (cases "s = []")
    case False
    note n = token_len_pos [OF False] token_len_le [of s]
    from False "1.prems" consider "e = pos + token_len s"
      | "(e, st') \<in> set (fst (inline_events (drop (token_len s) s) (pos + token_len s)
           (process_inline_token (take (token_len s) s) st)))"
      by (subst (asm) inline_events.simps) (auto simp: Let_def split_beta)
    then show ?thesis
    proof cases
      case 2
      from "1.IH" [OF False refl refl 2] n show ?thesis by auto
    qed (use n in simp)
  qed (use "1.prems" in \<open>simp add: inline_events.simps\<close>)
qed

text \<open>What one round does without the bookkeeping of the last clean end: the ends it passes
  with the state at each, and where it stops.\<close>

definition rest_events :: "string \<Rightarrow> nat \<Rightarrow> parse_state \<Rightarrow> (nat \<times> parse_state) list \<times> nat \<times> parse_state" where
  "rest_events buf pos st =
     (let line_end = line_end_from buf pos in
      if ps_in_code_block st then ([], line_end, st)
      else (let (evs, st1) = inline_events (take (line_end - pos) (drop pos buf)) pos st
            in if buf ! (line_end - 1) = NL
               then (let st2 = st1\<lparr>ps_pending_heading := False\<rparr>
                     in (evs @ [(line_end, st2)], line_end, st2))
               else (evs, line_end, st1)))"

definition step_events :: "string \<Rightarrow> nat \<Rightarrow> parse_state \<Rightarrow> (nat \<times> parse_state) list \<times> nat \<times> parse_state" where
  "step_events buf pos st =
     (if at_line_start buf pos
      then (case process_line_start (drop pos buf) st of
              (st1, Some off) \<Rightarrow> ([(pos + off, st1)], pos + off, st1)
            | (st1, None) \<Rightarrow> rest_events buf pos st1)
      else rest_events buf pos st)"

lemma scan_rest_events:
  "scan_rest buf (pos, st, ls) =
     (case rest_events buf pos st of (evs, pos', st') \<Rightarrow> (pos', st', last_clean ls evs))"
  by (simp add: scan_rest_def rest_events_def inline_tokens_events split_beta Let_def
      last_clean_append)

lemma scan_step_events:
  "scan_step buf (pos, st, ls) =
     (case step_events buf pos st of (evs, pos', st') \<Rightarrow> (pos', st', last_clean ls evs))"
  by (simp add: scan_step_def step_events_def scan_rest_events split: prod.split option.split)

lemma rest_events_bounds:
  assumes "rest_events buf pos st = (evs, pos', st')" "pos < length buf"
  shows "pos < pos' \<and> pos' \<le> length buf \<and> (\<forall>(e, s) \<in> set evs. pos < e \<and> e \<le> pos')"
proof -
  note le = line_end_from_bounds [OF assms(2)]
  have pos': "pos' = line_end_from buf pos"
    using assms(1) by (auto simp: rest_events_def Let_def split_beta split: if_splits)
  have "pos < e \<and> e \<le> pos'" if "(e, s) \<in> set evs" for e s
    using that assms(1) le
      inline_events_range [of e s "take (line_end_from buf pos - pos) (drop pos buf)" pos st]
    by (auto simp: rest_events_def Let_def split_beta pos' split: if_splits)
  with pos' le show ?thesis by auto
qed

lemma step_events_bounds:
  assumes "step_events buf pos st = (evs, pos', st')" "pos < length buf"
  shows "pos < pos' \<and> pos' \<le> length buf \<and> (\<forall>(e, s) \<in> set evs. pos < e \<and> e \<le> pos')"
proof (cases "at_line_start buf pos")
  case True
  obtain st1 off where pl: "process_line_start (drop pos buf) st = (st1, off)" by force
  show ?thesis
  proof (cases off)
    case None
    with True pl assms rest_events_bounds show ?thesis by (auto simp: step_events_def)
  next
    case (Some n)
    with pl have "process_line_start (drop pos buf) st = (st1, Some n)" by simp
    moreover have "drop pos buf \<noteq> []" using assms(2) by simp
    ultimately have "0 < n \<and> n \<le> length (drop pos buf)" by (rule process_line_start_bounds)
    with True pl Some assms show ?thesis by (auto simp: step_events_def)
  qed
qed (use assms rest_events_bounds in \<open>auto simp: step_events_def\<close>)

lemma scan_step_progress:
  "pos < length buf \<Longrightarrow> scan_step buf (pos, st, ls) = (pos', st', ls') \<Longrightarrow>
     pos < pos' \<and> pos' \<le> length buf"
  by (auto simp: scan_step_events split: prod.splits dest: step_events_bounds)

subsection \<open>The buffer\<close>

record scan_checkpoint =
  cp_pos :: nat
  cp_state :: parse_state
  cp_last_safe :: nat

definition checkpoint_default :: scan_checkpoint where
  "checkpoint_default = \<lparr>cp_pos = 0, cp_state = parse_state_default, cp_last_safe = 0\<rparr>"

record markdown_buffer =
  mb_buffer :: string
  mb_checkpoint :: scan_checkpoint

definition markdown_buffer_new :: markdown_buffer where
  "markdown_buffer_new = \<lparr>mb_buffer = [], mb_checkpoint = checkpoint_default\<rparr>"

definition line_start_before :: "string \<Rightarrow> nat \<Rightarrow> nat" where
  "line_start_before buf n = (case rfind_char NL (take n buf) of Some nl \<Rightarrow> nl + 1 | None \<Rightarrow> 0)"

definition reinterpretable :: "char \<Rightarrow> bool" where
  "reinterpretable c \<longleftrightarrow> c \<in> {BACKTICK, TILDE, SPACE, TAB, CR, NL}"

lemma line_start_before_le: "line_start_before buf n \<le> n \<and> line_start_before buf n \<le> length buf"
proof (cases "rfind_char NL (take n buf)")
  case (Some i)
  then have "i < length (take n buf)" unfolding rfind_char_def by (blast dest: rposition_SomeD)
  with Some show ?thesis by (simp add: line_start_before_def)
qed (simp add: line_start_before_def)

function stable_from :: "string \<Rightarrow> nat \<Rightarrow> nat" where
  "stable_from buf limit =
     (if limit = 0 then 0
      else (let prev_start = line_start_before buf (limit - 1) in
            if \<not> list_all reinterpretable (drop prev_start (take limit buf)) then limit
            else stable_from buf prev_start))"
  by pat_completeness auto
termination
proof (relation "measure snd", goal_cases)
  case (2 buf limit prev_start)
  then show ?case using line_start_before_le [of buf "limit - 1"] by auto
qed simp

declare stable_from.simps [simp del]

definition stable_scan_limit :: "string \<Rightarrow> nat" where
  "stable_scan_limit buf = stable_from buf (line_start_before buf (length buf))"

function scan_loop ::
    "string \<Rightarrow> nat \<Rightarrow> nat \<times> parse_state \<times> nat \<Rightarrow> scan_checkpoint \<Rightarrow> nat \<times> scan_checkpoint" where
  "scan_loop buf limit (pos, st, ls) cp =
     (if pos < length buf
      then scan_loop buf limit (scan_step buf (pos, st, ls))
             (if at_line_start buf pos \<and> pos \<le> limit
              then \<lparr>cp_pos = pos, cp_state = st, cp_last_safe = ls\<rparr> else cp)
      else (ls, cp))"
  by pat_completeness auto
termination
proof (relation "measure (\<lambda>(buf, _, c, _). length buf - fst c)", goal_cases)
  case (2 buf limit pos st ls cp)
  obtain pos' st' ls' where "scan_step buf (pos, st, ls) = (pos', st', ls')"
    by (cases "scan_step buf (pos, st, ls)")
  with scan_step_progress [OF 2 this] 2 show ?case by auto
qed simp

declare scan_loop.simps [simp del]

definition find_safe_end :: "markdown_buffer \<Rightarrow> nat \<times> scan_checkpoint" where
  "find_safe_end mb =
     (let cp = mb_checkpoint mb in
      scan_loop (mb_buffer mb) (stable_scan_limit (mb_buffer mb))
        (cp_pos cp, cp_state cp, cp_last_safe cp) cp)"

text \<open>\<open>push\<close> slices the buffer at the safe end; \<open>Inl\<close> is the panic of an end out of range.\<close>

datatype slice_panic = SlicePanic

definition markdown_push ::
    "render_env \<Rightarrow> string \<Rightarrow> markdown_buffer \<Rightarrow> slice_panic + string option \<times> markdown_buffer" where
  "markdown_push env chunk mb0 =
     (let mb = mb0\<lparr>mb_buffer := mb_buffer mb0 @ chunk\<rparr>;
          (safe_end, cp) = find_safe_end mb
      in if safe_end > 0
         then (if safe_end > length (mb_buffer mb) then Inl SlicePanic
               else Inr (Some (truncate_code_blocks env (take safe_end (mb_buffer mb))),
                         \<lparr>mb_buffer = drop safe_end (mb_buffer mb), mb_checkpoint = checkpoint_default\<rparr>))
         else Inr (None, mb\<lparr>mb_checkpoint := cp\<rparr>))"

definition markdown_flush :: "markdown_buffer \<Rightarrow> string \<times> markdown_buffer" where
  "markdown_flush mb = (mb_buffer mb, markdown_buffer_new)"

fun push_all ::
    "render_env \<Rightarrow> string list \<Rightarrow> markdown_buffer \<Rightarrow> slice_panic + string list \<times> markdown_buffer" where
  "push_all env [] mb = Inr ([], mb)"
| "push_all env (c # cs) mb =
     (case markdown_push env c mb of
        Inl e \<Rightarrow> Inl e
      | Inr (out, mb1) \<Rightarrow>
          (case push_all env cs mb1 of
             Inl e \<Rightarrow> Inl e
           | Inr (outs, mb2) \<Rightarrow> Inr ((case out of Some t \<Rightarrow> t # outs | None \<Rightarrow> outs), mb2)))"

subsection \<open>Nothing is lost\<close>

definition checkpoint_ok :: "string \<Rightarrow> scan_checkpoint \<Rightarrow> bool" where
  "checkpoint_ok buf cp \<longleftrightarrow> cp_last_safe cp \<le> cp_pos cp \<and> cp_pos cp \<le> length buf"

lemma last_clean_cases:
  "last_clean ls evs = ls \<or> (\<exists>st. (last_clean ls evs, st) \<in> set evs \<and> is_clean st)"
  by (induction ls evs rule: last_clean.induct) (auto split: if_splits)

lemma scan_loop_ok:
  "ls \<le> pos \<Longrightarrow> pos \<le> length buf \<Longrightarrow> checkpoint_ok buf cp \<Longrightarrow>
     scan_loop buf limit (pos, st, ls) cp = (safe_end, cp') \<Longrightarrow>
     safe_end \<le> length buf \<and> checkpoint_ok buf cp'"
proof (induction buf limit "(pos, st, ls)" cp arbitrary: pos st ls rule: scan_loop.induct)
  case (1 buf limit pos st ls cp)
  show ?case
  proof (cases "pos < length buf")
    case True
    obtain evs pos' st' where ev: "step_events buf pos st = (evs, pos', st')"
      by (cases "step_events buf pos st")
    then have step: "scan_step buf (pos, st, ls) = (pos', st', last_clean ls evs)"
      by (simp add: scan_step_events)
    note b = step_events_bounds [OF ev True]
    have "last_clean ls evs \<le> pos'"
      using last_clean_cases [of ls evs] b "1.prems"(1) by auto
    moreover have "checkpoint_ok buf (if at_line_start buf pos \<and> pos \<le> limit
        then \<lparr>cp_pos = pos, cp_state = st, cp_last_safe = ls\<rparr> else cp)"
      using "1.prems" by (simp add: checkpoint_ok_def)
    moreover have "scan_loop buf limit (pos', st', last_clean ls evs)
        (if at_line_start buf pos \<and> pos \<le> limit
         then \<lparr>cp_pos = pos, cp_state = st, cp_last_safe = ls\<rparr> else cp) = (safe_end, cp')"
      using "1.prems"(4) True by (simp add: scan_loop.simps [of buf limit pos] step)
    ultimately show ?thesis using "1.hyps" [OF True step] b by blast
  next
    case False
    with 1 show ?thesis by (simp add: scan_loop.simps)
  qed
qed

lemma checkpoint_default_ok: "checkpoint_ok buf checkpoint_default"
  by (simp add: checkpoint_ok_def checkpoint_default_def)

definition buffer_ok :: "markdown_buffer \<Rightarrow> bool" where
  "buffer_ok mb \<longleftrightarrow> checkpoint_ok (mb_buffer mb) (mb_checkpoint mb)"

lemma find_safe_end_ok:
  "buffer_ok mb \<Longrightarrow> find_safe_end mb = (safe_end, cp) \<Longrightarrow>
     safe_end \<le> length (mb_buffer mb) \<and> checkpoint_ok (mb_buffer mb) cp"
  unfolding find_safe_end_def Let_def
  by (rule scan_loop_ok) (auto simp: buffer_ok_def checkpoint_ok_def)

lemma markdown_push_ok:
  assumes "buffer_ok mb"
  obtains out mb' piece where "markdown_push env chunk mb = Inr (out, mb')" "buffer_ok mb'"
    "mb_buffer mb @ chunk = piece @ mb_buffer mb'"
    "out = (if piece = [] then None else Some (truncate_code_blocks env piece))"
proof -
  define B where "B = mb_buffer mb @ chunk"
  obtain safe_end cp where f: "find_safe_end (mb\<lparr>mb_buffer := B\<rparr>) = (safe_end, cp)"
    by (cases "find_safe_end (mb\<lparr>mb_buffer := B\<rparr>)")
  have "buffer_ok (mb\<lparr>mb_buffer := B\<rparr>)"
    using assms by (auto simp: buffer_ok_def checkpoint_ok_def B_def)
  from find_safe_end_ok [OF this f] have b: "safe_end \<le> length B" "checkpoint_ok B cp" by simp_all
  show thesis
  proof (cases "safe_end = 0")
    case True
    show ?thesis
      by (rule that [of None "mb\<lparr>mb_buffer := B, mb_checkpoint := cp\<rparr>" "[]"])
        (use True f b in \<open>simp_all add: markdown_push_def buffer_ok_def Let_def flip: B_def\<close>)
  next
    case False
    then have "take safe_end B \<noteq> []" using b(1) by auto
    then show ?thesis
      by (intro that [of "Some (truncate_code_blocks env (take safe_end B))"
            "\<lparr>mb_buffer = drop safe_end B, mb_checkpoint = checkpoint_default\<rparr>" "take safe_end B"])
        (use False f b in \<open>simp_all add: markdown_push_def buffer_ok_def Let_def
           checkpoint_default_ok flip: B_def\<close>)
  qed
qed

lemma push_all_ok:
  assumes "buffer_ok mb"
  shows "\<exists>pieces mb'. push_all env chunks mb = Inr (map (truncate_code_blocks env) pieces, mb')
     \<and> mb_buffer mb @ concat chunks = concat pieces @ mb_buffer mb' \<and> [] \<notin> set pieces"
  using assms
proof (induction chunks arbitrary: mb)
  case (Cons c cs)
  obtain out mb1 piece where p: "markdown_push env c mb = Inr (out, mb1)" "buffer_ok mb1"
    "mb_buffer mb @ c = piece @ mb_buffer mb1"
    "out = (if piece = [] then None else Some (truncate_code_blocks env piece))"
    using markdown_push_ok [OF Cons.prems] by metis
  from Cons.IH [OF p(2)] obtain pieces mb' where
    q: "push_all env cs mb1 = Inr (map (truncate_code_blocks env) pieces, mb')"
    "mb_buffer mb1 @ concat cs = concat pieces @ mb_buffer mb'" "[] \<notin> set pieces" by blast
  have "mb_buffer mb @ concat (c # cs) = piece @ concat pieces @ mb_buffer mb'"
    using p(3) q(2) by (metis append.assoc concat.simps(2))
  with p q show ?case
    by (intro exI [of _ "if piece = [] then pieces else piece # pieces"] exI [of _ mb']) auto
qed simp

text \<open>For every sequence of chunks the pushes return without
  a slice out of range, and the rendered pieces, before the truncation of long code blocks,
  together with the final flush are exactly the concatenation of the chunks; no empty piece is
  rendered.\<close>

lemma markdown_stream_complete:
  "\<exists>pieces mb. push_all env chunks markdown_buffer_new = Inr (map (truncate_code_blocks env) pieces, mb)
     \<and> concat pieces @ fst (markdown_flush mb) = concat chunks \<and> [] \<notin> set pieces"
proof -
  have "buffer_ok markdown_buffer_new"
    by (simp add: buffer_ok_def markdown_buffer_new_def checkpoint_default_ok)
  from push_all_ok [OF this, of env chunks] show ?thesis
    by (auto simp: markdown_buffer_new_def markdown_flush_def)
qed

end
