(* ===== verification/Markdown_Scan.thy ===== *)
theory Markdown_Scan
  imports Markdown_Buffer
begin

section \<open>What the markdown buffer renders\<close>

text \<open>
  The scan of \<open>find_safe_end\<close> against its specification: the last end with no open construct
  (\<open>rescan_end\<close>), the equivalence of the scan that resumes at a checkpoint with a scan of the
  whole buffer, and the truncation of long code blocks.
\<close>

subsection \<open>Scanning from scratch\<close>

function scan_events :: "string \<Rightarrow> nat \<Rightarrow> parse_state \<Rightarrow> (nat \<times> parse_state) list" where
  "scan_events buf pos st =
     (if pos < length buf
      then (case step_events buf pos st of (evs, pos', st') \<Rightarrow> evs @ scan_events buf pos' st')
      else [])"
  by pat_completeness auto
termination
proof (relation "measure (\<lambda>(buf, pos, _). length buf - pos)", goal_cases)
  case (2 buf pos st evs c pos' st')
  then have "step_events buf pos st = (evs, pos', st')" by simp
  from step_events_bounds [OF this 2(1)] 2(1) show ?case by auto
qed simp

declare scan_events.simps [simp del]

lemma scan_loop_events:
  "fst (scan_loop buf limit (pos, st, ls) cp) = last_clean ls (scan_events buf pos st)"
proof (induction buf limit "(pos, st, ls)" cp arbitrary: pos st ls rule: scan_loop.induct)
  case (1 buf limit pos st ls cp)
  show ?case
  proof (cases "pos < length buf")
    case True
    obtain evs pos' st' where ev: "step_events buf pos st = (evs, pos', st')"
      by (cases "step_events buf pos st")
    then have step: "scan_step buf (pos, st, ls) = (pos', st', last_clean ls evs)"
      by (simp add: scan_step_events)
    from 1 [OF True step] True show ?thesis
      by (subst scan_loop.simps, subst scan_events.simps) (simp add: step ev last_clean_append)
  next
    case False
    then show ?thesis by (subst scan_loop.simps, subst scan_events.simps) simp
  qed
qed

text \<open>The specification without a checkpoint: the last clean end of a scan of the whole
  buffer, and the stream that cuts there.\<close>

definition rescan_end :: "string \<Rightarrow> nat" where
  "rescan_end buf = last_clean 0 (scan_events buf 0 parse_state_default)"

definition rescan_push :: "render_env \<Rightarrow> string \<Rightarrow> string \<Rightarrow> string option \<times> string" where
  "rescan_push env chunk buf0 =
     (let buf = buf0 @ chunk; e = rescan_end buf in
      if e > 0 then (Some (truncate_code_blocks env (take e buf)), drop e buf) else (None, buf))"

fun rescan_all :: "render_env \<Rightarrow> string list \<Rightarrow> string \<Rightarrow> string list \<times> string" where
  "rescan_all env [] buf = ([], buf)"
| "rescan_all env (c # cs) buf =
     (let (out, buf1) = rescan_push env c buf; (outs, buf2) = rescan_all env cs buf1
      in ((case out of Some t \<Rightarrow> t # outs | None \<Rightarrow> outs), buf2))"

inductive scan_reaches :: "string \<Rightarrow> nat \<times> parse_state \<times> nat \<Rightarrow> bool" for buf where
  reach_start: "scan_reaches buf (0, parse_state_default, 0)"
| reach_step: "scan_reaches buf (pos, st, ls) \<Longrightarrow> pos < length buf \<Longrightarrow>
     scan_reaches buf (scan_step buf (pos, st, ls))"

lemma reaches_result:
  "scan_reaches buf c \<Longrightarrow>
     (case c of (pos, st, ls) \<Rightarrow> last_clean ls (scan_events buf pos st)) = rescan_end buf"
proof (induction rule: scan_reaches.induct)
  case (reach_step pos st ls)
  then show ?case
    by (subst (asm) scan_events.simps)
      (auto simp: scan_step_events last_clean_append split: prod.splits)
qed (simp add: rescan_end_def)

text \<open>Every round starts at the start of a line.\<close>

lemma step_ends_at_line:
  assumes "step_events buf pos st = (evs, pos', st')" "pos < length buf" "pos' < length buf"
  shows "buf ! (pos' - 1) = NL"
proof -
  have line_end: "line_end_from buf pos < length buf \<Longrightarrow> buf ! (line_end_from buf pos - 1) = NL"
    by (auto simp: line_end_from_def split: option.splits dest!: find_char_SomeD)
  have rest: "rest_events buf pos s = (evs, pos', st') \<Longrightarrow> buf ! (pos' - 1) = NL" for s
    using line_end assms(3) by (auto simp: rest_events_def Let_def split_beta split: if_splits)
  show ?thesis
  proof (cases "at_line_start buf pos")
    case True
    obtain st1 off where pl: "process_line_start (drop pos buf) st = (st1, off)" by force
    show ?thesis
    proof (cases off)
      case None
      with True pl assms(1) rest show ?thesis by (simp add: step_events_def)
    next
      case (Some n)
      with True pl assms(1) have pos': "pos' = pos + n" by (simp add: step_events_def)
      have "n = after_fence_line (drop pos buf) \<or> n = 1 \<and> starts_with (drop pos buf) [NL]"
        using pl Some assms(2)
        by (auto simp: process_line_start_def Let_def split: prod.splits option.splits if_splits
            dest!: check_code_fence_offset)
      then show ?thesis
      proof
        assume "n = after_fence_line (drop pos buf)"
        with pos' assms(2,3) show ?thesis
          by (auto simp: after_fence_line_def split: option.splits dest!: find_char_SomeD)
      next
        assume "n = 1 \<and> starts_with (drop pos buf) [NL]"
        with pos' assms(2) show ?thesis
          by (auto simp: starts_with_def Cons_nth_drop_Suc [symmetric])
      qed
    qed
  qed (use assms(1) rest in \<open>simp add: step_events_def\<close>)
qed

lemma reaches_line_start:
  "scan_reaches buf c \<Longrightarrow> fst c < length buf \<Longrightarrow> at_line_start buf (fst c)"
proof (induction rule: scan_reaches.induct)
  case (reach_step pos st ls)
  obtain evs pos' st' where ev: "step_events buf pos st = (evs, pos', st')"
    by (cases "step_events buf pos st")
  then have "scan_step buf (pos, st, ls) = (pos', st', last_clean ls evs)"
    by (simp add: scan_step_events)
  with step_ends_at_line [OF ev] reach_step show ?case by (simp add: at_line_start_def)
qed (simp add: at_line_start_def)

subsection \<open>White space\<close>

definition plain_space :: "char \<Rightarrow> bool" where
  "plain_space c \<longleftrightarrow> c \<in> {SPACE, NL, TAB, CR}"

text \<open>A text whose only white space are spaces, tabs, line feeds and carriage returns.\<close>

definition plain_ws :: "string \<Rightarrow> bool" where
  "plain_ws s \<longleftrightarrow> list_all (\<lambda>w. (length w = 1 \<and> plain_space (hd w)) \<or> \<not> sublist w s) ws_seqs"

lemma strip_seqs_plain:
  assumes "\<And>c. plain_space c \<Longrightarrow> [c] \<in> set ws"
    and "\<And>w. w \<in> set ws \<Longrightarrow> sublist w s \<Longrightarrow> w = [] \<or> (\<exists>c. w = [c] \<and> plain_space c)"
  shows "strip_seqs ws s = dropWhile plain_space s"
  using assms(2)
proof (induction s)
  case (Cons c s)
  show ?case
  proof (cases "first_seq ws (c # s)")
    case None
    then have "\<not> plain_space c" using assms(1) [of c] by (auto simp: first_seq_def find_None_iff)
    with None show ?thesis by (subst strip_seqs.simps) simp
  next
    case (Some w)
    then have w: "w \<in> set ws" "w \<noteq> []" "prefix w (c # s)" by (auto dest: first_seq_SomeD)
    then have "\<exists>d. w = [d] \<and> plain_space d" using Cons.prems by blast
    with w have "w = [c]" "plain_space c" by auto
    moreover have "strip_seqs ws s = dropWhile plain_space s"
      using Cons.prems by (intro Cons.IH) (auto intro: sublist_Cons_right [THEN iffD2])
    ultimately show ?thesis using Some by (subst strip_seqs.simps) simp
  qed
qed simp

lemma plain_space_in_ws: "plain_space c \<Longrightarrow> [c] \<in> set ws_seqs"
  by (auto simp: plain_space_def ws_seqs_def)

lemma plain_wsD:
  "plain_ws s \<Longrightarrow> w \<in> set ws_seqs \<Longrightarrow> sublist w s \<Longrightarrow> \<exists>c. w = [c] \<and> plain_space c"
  by (auto simp: plain_ws_def list_all_iff length_Suc_conv)

lemma trim_start_plain: "plain_ws s \<Longrightarrow> trim_start s = dropWhile plain_space s"
  unfolding trim_start_def
  by (rule strip_seqs_plain) (blast intro: plain_space_in_ws dest: plain_wsD)+

lemma trim_end_plain:
  assumes "plain_ws s"
  shows "trim_end s = rev (dropWhile plain_space (rev s))"
proof -
  have "strip_seqs (map rev ws_seqs) (rev s) = dropWhile plain_space (rev s)"
  proof (rule strip_seqs_plain)
    show "plain_space c \<Longrightarrow> [c] \<in> set (map rev ws_seqs)" for c
      using plain_space_in_ws [of c] by force
    show "w = [] \<or> (\<exists>c. w = [c] \<and> plain_space c)"
      if "w \<in> set (map rev ws_seqs)" "sublist w (rev s)" for w
    proof -
      from that(1) obtain v where v: "v \<in> set ws_seqs" "w = rev v" by auto
      with that(2) have "sublist v s" by simp
      with plain_wsD [OF assms v(1)] v(2) show ?thesis by auto
    qed
  qed
  then show ?thesis by (simp add: trim_end_def)
qed

lemma plain_ws_sublist: "plain_ws s \<Longrightarrow> sublist t s \<Longrightarrow> plain_ws t"
  unfolding plain_ws_def list_all_iff by (meson sublist_order.order_trans)

lemma trim_plain_Nil: "plain_ws s \<Longrightarrow> trim s = [] \<Longrightarrow> list_all plain_space s"
proof -
  assume s: "plain_ws s" "trim s = []"
  have "plain_ws (trim_start s)"
    using s(1) suffix_trim_start by (blast intro: plain_ws_sublist suffix_imp_sublist)
  with s have "dropWhile plain_space (rev (dropWhile plain_space s)) = []"
    by (simp add: trim_def trim_start_plain trim_end_plain)
  then have "\<forall>c \<in> set (dropWhile plain_space s). plain_space c" by (simp add: dropWhile_eq_Nil_conv)
  then have "dropWhile plain_space s = []"
    by (metis hd_dropWhile list.set_sel(1))
  then show ?thesis by (simp add: dropWhile_eq_Nil_conv list_all_iff)
qed

subsection \<open>What more input cannot change\<close>

text \<open>The end of a complete line that contains something other than white space and fence
  characters: the decisions at the starts of the lines before it are final.\<close>

definition anchor :: "string \<Rightarrow> nat \<Rightarrow> bool" where
  "anchor buf n \<longleftrightarrow> 0 < n \<and> n \<le> length buf \<and> buf ! (n - 1) = NL
     \<and> (\<exists>k < n. \<not> reinterpretable (buf ! k) \<and> (\<forall>i. k \<le> i \<and> i < n - 1 \<longrightarrow> buf ! i \<noteq> NL))"

definition final_at :: "string \<Rightarrow> nat \<Rightarrow> bool" where
  "final_at buf pos \<longleftrightarrow> pos = 0 \<or> (\<exists>n \<ge> pos. anchor buf n)"

lemma anchor_append: "anchor buf n \<Longrightarrow> anchor (buf @ t) n"
  unfolding anchor_def by (auto simp: nth_append)

lemma final_at_append: "final_at buf pos \<Longrightarrow> final_at (buf @ t) pos"
  unfolding final_at_def using anchor_append by blast

text \<open>The rest of the buffer from a line start before an anchor.\<close>

definition anchored_rest :: "string \<Rightarrow> bool" where
  "anchored_rest s \<longleftrightarrow> NL \<in> set s \<and> (\<exists>c \<in> set s. \<not> reinterpretable c)"

lemma nth_in_set_drop: "pos \<le> i \<Longrightarrow> i < length xs \<Longrightarrow> xs ! i \<in> set (drop pos xs)"
  by (auto simp: in_set_conv_nth intro!: exI [of _ "i - pos"])

lemma anchor_rest:
  assumes "anchor buf n" "pos < n" "at_line_start buf pos"
  shows "anchored_rest (drop pos buf)"
proof -
  from assms(1) obtain k where k: "k < n" "\<not> reinterpretable (buf ! k)"
    "\<And>i. k \<le> i \<Longrightarrow> i < n - 1 \<Longrightarrow> buf ! i \<noteq> NL" and n: "n \<le> length buf" "buf ! (n - 1) = NL" "0 < n"
    by (auto simp: anchor_def)
  have "pos \<le> k"
  proof (rule ccontr)
    assume "\<not> pos \<le> k"
    with k(3) [of "pos - 1"] assms(2,3) show False by (auto simp: at_line_start_def)
  qed
  then have "buf ! k \<in> set (drop pos buf)" "buf ! (n - 1) \<in> set (drop pos buf)"
    using k n assms(2) nth_in_set_drop [of pos "n - 1" buf] by (auto intro: nth_in_set_drop)
  with k n show ?thesis by (auto simp: anchored_rest_def)
qed

lemma find_char_append: "c \<in> set s \<Longrightarrow> find_char c (s @ t) = find_char c s"
  by (induction s) auto

lemma after_fence_line_append: "NL \<in> set s \<Longrightarrow> after_fence_line (s @ t) = after_fence_line s"
  using find_char_None_iff [of NL s]
  by (auto simp: after_fence_line_def find_char_append split: option.split)

lemma run_len_append: "\<exists>x \<in> set s. x \<noteq> c \<Longrightarrow> run_len c (s @ t) = run_len c s"
  by (auto simp: run_len_def takeWhile_append)

lemma mem_after_run: "x \<in> set s \<Longrightarrow> x \<noteq> c \<Longrightarrow> x \<in> set (drop (run_len c s) s)"
  unfolding run_len_def by (induction s) auto

lemma trim_start_append:
  assumes "plain_ws (s @ t)" "c \<in> set s" "\<not> reinterpretable c"
  shows "trim_start (s @ t) = trim_start s @ t \<and> c \<in> set (trim_start s)"
proof -
  have c: "\<not> plain_space c" using assms(3) by (auto simp: reinterpretable_def plain_space_def)
  then have "dropWhile plain_space (s @ t) = dropWhile plain_space s @ t"
    using assms(2) by (simp add: dropWhile_append) (metis dropWhile_eq_Nil_conv)
  moreover have "c \<in> set (dropWhile plain_space s)"
    using assms(2) c by (metis Un_iff set_append set_takeWhileD takeWhile_dropWhile_id)
  moreover have "plain_ws s" using assms(1) by (rule plain_ws_sublist) simp
  ultimately show ?thesis by (simp add: trim_start_plain assms(1))
qed

lemma check_code_fence_append:
  assumes "anchored_rest s" "plain_ws (s @ t)"
  shows "check_code_fence (s @ t) st = check_code_fence s st"
proof -
  from assms(1) obtain c where c: "c \<in> set s" "\<not> reinterpretable c" and nl: "NL \<in> set s"
    by (auto simp: anchored_rest_def)
  note T = trim_start_append [OF assms(2) c]
  then obtain f rest where f: "trim_start s = f # rest" by (cases "trim_start s") auto
  show ?thesis
  proof (cases "f = BACKTICK \<or> f = TILDE")
    case False
    then show ?thesis using T f by (simp add: check_code_fence_def)
  next
    case True
    with c have cf: "c \<noteq> f" by (auto simp: reinterpretable_def)
    let ?n = "run_len f (f # rest)"
    have run: "run_len f ((f # rest) @ t) = ?n" using T f cf by (intro run_len_append) auto
    have n: "?n \<le> length (f # rest)" by (simp add: run_len_def length_takeWhile_le)
    have mem: "c \<in> set (drop ?n (f # rest))"
      using T f cf by (intro mem_after_run) auto
    have dropt: "drop ?n ((f # rest) @ t) = drop ?n (f # rest) @ t"
      using n unfolding drop_append by simp
    have plain: "plain_ws (drop ?n (f # rest) @ t)"
    proof (rule plain_ws_sublist [OF assms(2)])
      have "suffix (drop ?n (f # rest) @ t) (trim_start (s @ t))"
        using T f suffix_drop [of ?n "(f # rest) @ t"] unfolding dropt by simp
      then show "sublist (drop ?n (f # rest) @ t) (s @ t)"
        using suffix_trim_start by (blast intro: suffix_imp_sublist suffix_order.trans)
    qed
    have "plain_ws (drop ?n (f # rest))" using plain by (rule plain_ws_sublist) simp
    then have trims: "trim (drop ?n (f # rest)) \<noteq> []" "trim (drop ?n (f # rest) @ t) \<noteq> []"
      using mem c plain trim_plain_Nil
      by (fastforce simp: list_all_iff plain_space_def reinterpretable_def)+
    have ne: "drop ?n (f # rest) \<noteq> []" using mem by auto
    then have start: "starts_with (drop ?n (f # rest) @ t) [NL] = starts_with (drop ?n (f # rest)) [NL]"
      by (cases "drop ?n (f # rest)") (auto simp: starts_with_def)
    have T': "trim_start (s @ t) = f # (rest @ t)" using T f by simp
    have ne': "(drop ?n (f # rest) @ t = []) = (drop ?n (f # rest) = [])" using ne by simp
    have trims': "(trim (drop ?n (f # rest) @ t) = []) = (trim (drop ?n (f # rest)) = [])"
      using trims by simp
    show ?thesis
      unfolding check_code_fence_def T' f Let_def list.case run [unfolded append_Cons]
        dropt [unfolded append_Cons] ne' start trims' after_fence_line_append [OF nl] ..
  qed
qed

lemma starts_with_append: "s \<noteq> [] \<Longrightarrow> starts_with (s @ t) [c] = starts_with s [c]"
  by (cases s) (simp_all add: starts_with_def)

lemma is_heading_start_append:
  assumes "NL \<in> set s"
  shows "is_heading_start (s @ t) = is_heading_start s"
proof -
  let ?n = "run_len CHR ''#'' s"
  have run: "run_len CHR ''#'' (s @ t) = ?n" using assms by (intro run_len_append) auto
  have n: "?n \<le> length s" by (simp add: run_len_def length_takeWhile_le)
  have "NL \<in> set (drop ?n s)"
    using assms by (intro mem_after_run) auto
  then have ne: "drop ?n s \<noteq> []" by auto
  have "s \<noteq> []" using assms by auto
  with n ne show ?thesis
    by (simp add: is_heading_start_def run starts_with_append Let_def)
qed

lemma process_line_start_append:
  assumes "anchored_rest s" "plain_ws (s @ t)"
  shows "process_line_start (s @ t) st = process_line_start s st"
proof -
  have nl: "NL \<in> set s" using assms(1) by (simp add: anchored_rest_def)
  then have "s \<noteq> []" by auto
  then have e: "(s @ t = []) = (s = [])" by simp
  show ?thesis
    unfolding process_line_start_def check_code_fence_append [OF assms]
      is_heading_start_append [OF nl] starts_with_append [OF \<open>s \<noteq> []\<close>] e ..
qed

lemma rest_events_append:
  assumes "NL \<in> set (drop pos buf)"
  shows "rest_events (buf @ t) pos st = rest_events buf pos st"
proof -
  from assms obtain i where i: "find_char NL (drop pos buf) = Some i"
    using find_char_None_iff [of NL "drop pos buf"] by (cases "find_char NL (drop pos buf)") auto
  then have len: "i < length (drop pos buf)" using find_char_SomeD by blast
  then have pos: "pos < length buf" by simp
  have "find_char NL (drop pos (buf @ t)) = Some i"
    using find_char_append [OF assms, of t] i pos by simp
  with i have le: "line_end_from (buf @ t) pos = line_end_from buf pos"
    by (simp add: line_end_from_def)
  note b = line_end_from_bounds [OF pos]
  then have "take (line_end_from buf pos - pos) (drop pos (buf @ t))
      = take (line_end_from buf pos - pos) (drop pos buf)" by simp
  moreover have "(buf @ t) ! (line_end_from buf pos - 1) = buf ! (line_end_from buf pos - 1)"
    using b by (auto simp: nth_append)
  ultimately show ?thesis by (simp only: rest_events_def le Let_def)
qed

lemma step_events_append:
  assumes "anchor buf n" "pos < n" "at_line_start buf pos" "plain_ws (buf @ t)"
  shows "step_events (buf @ t) pos st = step_events buf pos st"
proof -
  note A = anchor_rest [OF assms(1-3)]
  have pos: "pos < length buf" using assms(1,2) by (simp add: anchor_def)
  have nl: "NL \<in> set (drop pos buf)" using A by (simp add: anchored_rest_def)
  have "plain_ws (drop pos buf @ t)"
  proof (rule plain_ws_sublist [OF assms(4)])
    have "drop pos buf @ t = drop pos (buf @ t)" using pos by simp
    then show "sublist (drop pos buf @ t) (buf @ t)"
      by (metis suffix_drop suffix_imp_sublist)
  qed
  then have "process_line_start (drop pos (buf @ t)) st = process_line_start (drop pos buf) st"
    using process_line_start_append [OF A] pos by simp
  moreover have "at_line_start (buf @ t) pos = at_line_start buf pos"
    using pos by (auto simp: at_line_start_def nth_append)
  ultimately show ?thesis
    unfolding step_events_def rest_events_append [OF nl] by (simp only:)
qed

lemma reaches_append:
  "scan_reaches buf c \<Longrightarrow> final_at buf (fst c) \<Longrightarrow> plain_ws (buf @ t) \<Longrightarrow> scan_reaches (buf @ t) c"
proof (induction rule: scan_reaches.induct)
  case (reach_step pos st ls)
  obtain evs pos' st' where ev: "step_events buf pos st = (evs, pos', st')"
    by (cases "step_events buf pos st")
  then have step: "scan_step buf (pos, st, ls) = (pos', st', last_clean ls evs)"
    by (simp add: scan_step_events)
  note b = step_events_bounds [OF ev reach_step.hyps(2)]
  from reach_step.prems(1) b obtain n where n: "pos' \<le> n" "anchor buf n"
    unfolding step final_at_def by auto
  then have "pos < n" using b by simp
  then have "final_at buf pos" using n(2) unfolding final_at_def by (auto intro: less_imp_le)
  with reach_step have IH: "scan_reaches (buf @ t) (pos, st, ls)" by simp
  have "at_line_start buf pos" using reaches_line_start [OF reach_step.hyps(1)] reach_step.hyps(2) by simp
  then have "step_events (buf @ t) pos st = (evs, pos', st')"
    using step_events_append [OF n(2) \<open>pos < n\<close> _ reach_step.prems(2)] ev by simp
  then have "scan_step (buf @ t) (pos, st, ls) = scan_step buf (pos, st, ls)"
    by (simp add: scan_step_events ev)
  with scan_reaches.reach_step [OF IH] reach_step.hyps(2) show ?case by simp
qed (rule scan_reaches.reach_start)

subsection \<open>The checkpoint\<close>

lemma line_start_before_NL:
  "0 < line_start_before buf n \<Longrightarrow> buf ! (line_start_before buf n - 1) = NL
     \<and> (\<forall>i. line_start_before buf n \<le> i \<and> i < n \<and> i < length buf \<longrightarrow> buf ! i \<noteq> NL)"
  by (auto simp: line_start_before_def rfind_char_def split: option.splits dest!: rposition_SomeD)

lemma line_start_before_0:
  assumes "line_start_before buf n = 0" "i < n" "i < length buf"
  shows "buf ! i \<noteq> NL"
proof -
  have "rposition (\<lambda>x. x = NL) (take n buf) = None"
    using assms(1) by (auto simp: line_start_before_def rfind_char_def split: option.splits)
  then have "\<forall>x \<in> set (take n buf). x \<noteq> NL" by (simp add: rposition_None_iff)
  moreover have "take n buf ! i \<in> set (take n buf)" using assms(2,3) by (intro nth_mem) simp
  ultimately show ?thesis using assms(2) by auto
qed

lemma stable_from_final:
  "limit \<le> length buf \<Longrightarrow> limit = 0 \<or> buf ! (limit - 1) = NL \<Longrightarrow> final_at buf (stable_from buf limit)"
proof (induction buf limit rule: stable_from.induct)
  case (1 buf limit)
  let ?p = "line_start_before buf (limit - 1)"
  show ?case
  proof (cases "limit = 0")
    case True
    then show ?thesis by (simp add: stable_from.simps final_at_def)
  next
    case pos: False
    note p = line_start_before_le [of buf "limit - 1"]
    show ?thesis
    proof (cases "list_all reinterpretable (drop ?p (take limit buf))")
      case True
      have "final_at buf (stable_from buf ?p)"
        using "1.IH" [OF pos refl] True p line_start_before_NL [of buf "limit - 1"] by auto
      with pos True show ?thesis by (simp add: stable_from.simps [of buf limit] Let_def)
    next
      case False
      then obtain k where k: "?p \<le> k" "k < limit" "\<not> reinterpretable (buf ! k)"
      proof -
        from False obtain j where j: "j < length (drop ?p (take limit buf))"
          "\<not> reinterpretable (drop ?p (take limit buf) ! j)"
          by (auto simp: list_all_length)
        with "1.prems"(1) p show thesis by (intro that [of "?p + j"]) auto
      qed
      have "buf ! i \<noteq> NL" if "k \<le> i" "i < limit - 1" for i
        using that k "1.prems"(1) line_start_before_NL [of buf "limit - 1"]
          line_start_before_0 [of buf "limit - 1" i]
        by (cases "?p = 0") auto
      with k pos "1.prems" have "anchor buf limit" unfolding anchor_def by auto
      with pos False show ?thesis
        by (auto simp: stable_from.simps [of buf limit] Let_def final_at_def)
    qed
  qed
qed

lemma stable_scan_limit_final: "final_at buf (stable_scan_limit buf)"
  unfolding stable_scan_limit_def
  by (rule stable_from_final)
    (use line_start_before_le [of buf "length buf"] line_start_before_NL [of buf "length buf"] in auto)

lemma final_at_le: "final_at buf n \<Longrightarrow> m \<le> n \<Longrightarrow> final_at buf m"
  unfolding final_at_def by (metis le_trans le_zero_eq)

definition checkpoint_final :: "string \<Rightarrow> scan_checkpoint \<Rightarrow> bool" where
  "checkpoint_final buf cp \<longleftrightarrow>
     scan_reaches buf (cp_pos cp, cp_state cp, cp_last_safe cp) \<and> final_at buf (cp_pos cp)"

lemma checkpoint_default_final: "checkpoint_final buf checkpoint_default"
  by (simp add: checkpoint_final_def checkpoint_default_def final_at_def scan_reaches.reach_start)

lemma checkpoint_final_append:
  "checkpoint_final buf cp \<Longrightarrow> plain_ws (buf @ t) \<Longrightarrow> checkpoint_final (buf @ t) cp"
  by (simp add: checkpoint_final_def reaches_append final_at_append)

lemma scan_loop_final:
  "scan_reaches buf (pos, st, ls) \<Longrightarrow> checkpoint_final buf cp \<Longrightarrow> final_at buf limit \<Longrightarrow>
     checkpoint_final buf (snd (scan_loop buf limit (pos, st, ls) cp))"
proof (induction buf limit "(pos, st, ls)" cp arbitrary: pos st ls rule: scan_loop.induct)
  case (1 buf limit pos st ls cp)
  show ?case
  proof (cases "pos < length buf")
    case True
    obtain pos' st' ls' where step: "scan_step buf (pos, st, ls) = (pos', st', ls')"
      by (cases "scan_step buf (pos, st, ls)")
    have "scan_reaches buf (pos', st', ls')"
      using scan_reaches.reach_step [OF "1.prems"(1) True] step by simp
    moreover have "checkpoint_final buf (if at_line_start buf pos \<and> pos \<le> limit
        then \<lparr>cp_pos = pos, cp_state = st, cp_last_safe = ls\<rparr> else cp)"
      using "1.prems" by (auto simp: checkpoint_final_def intro: final_at_le)
    ultimately show ?thesis
      using "1.hyps" [OF True step] "1.prems"(3) True
      by (simp add: scan_loop.simps [of buf limit pos] step)
  next
    case False
    with 1 show ?thesis by (simp add: scan_loop.simps)
  qed
qed

lemma find_safe_end_rescan:
  assumes "checkpoint_final (mb_buffer mb) (mb_checkpoint mb)"
  shows "fst (find_safe_end mb) = rescan_end (mb_buffer mb)
     \<and> checkpoint_final (mb_buffer mb) (snd (find_safe_end mb))"
proof -
  let ?cp = "mb_checkpoint mb"
  have r: "scan_reaches (mb_buffer mb) (cp_pos ?cp, cp_state ?cp, cp_last_safe ?cp)"
    using assms by (simp add: checkpoint_final_def)
  show ?thesis
    using reaches_result [OF r] scan_loop_final [OF r assms stable_scan_limit_final]
    by (simp add: find_safe_end_def Let_def scan_loop_events)
qed

lemma push_as_rescan:
  assumes "buffer_ok mb" "checkpoint_final (mb_buffer mb) (mb_checkpoint mb)"
    and "plain_ws (mb_buffer mb @ chunk)"
  obtains mb' where "markdown_push env chunk mb = Inr (fst (rescan_push env chunk (mb_buffer mb)), mb')"
    "mb_buffer mb' = snd (rescan_push env chunk (mb_buffer mb))"
    "buffer_ok mb'" "checkpoint_final (mb_buffer mb') (mb_checkpoint mb')"
proof -
  define B where "B = mb_buffer mb @ chunk"
  obtain e cp where f: "find_safe_end (mb\<lparr>mb_buffer := B\<rparr>) = (e, cp)"
    by (cases "find_safe_end (mb\<lparr>mb_buffer := B\<rparr>)")
  have "checkpoint_final B (mb_checkpoint mb)"
    unfolding B_def using assms(2,3) by (rule checkpoint_final_append)
  then have e: "e = rescan_end B" and cp: "checkpoint_final B cp"
    using find_safe_end_rescan [of "mb\<lparr>mb_buffer := B\<rparr>"] f by simp_all
  obtain out mb' where p: "markdown_push env chunk mb = Inr (out, mb')" "buffer_ok mb'"
    using markdown_push_ok [OF assms(1), of env chunk] by metis
  show thesis
  proof (cases "e = 0")
    case True
    with p(1) f e cp that [of mb'] p(2) show ?thesis
      by (auto simp: markdown_push_def rescan_push_def Let_def simp flip: B_def)
  next
    case False
    with p(1) f e that [of mb'] p(2) show ?thesis
      by (auto simp: markdown_push_def rescan_push_def Let_def checkpoint_default_final
          simp flip: B_def split: if_splits)
  qed
qed

lemma rescan_push_suffix: "suffix (snd (rescan_push env chunk buf)) (buf @ chunk)"
  using suffix_drop [of "rescan_end (buf @ chunk)" "buf @ chunk"]
  by (simp add: rescan_push_def Let_def del: drop_append)

lemma push_all_as_rescan:
  "buffer_ok mb \<Longrightarrow> checkpoint_final (mb_buffer mb) (mb_checkpoint mb) \<Longrightarrow>
     plain_ws (mb_buffer mb @ concat chunks) \<Longrightarrow>
     \<exists>mb'. push_all env chunks mb = Inr (fst (rescan_all env chunks (mb_buffer mb)), mb')
       \<and> mb_buffer mb' = snd (rescan_all env chunks (mb_buffer mb))"
proof (induction chunks arbitrary: mb)
  case (Cons c cs)
  have "plain_ws (mb_buffer mb @ c)"
    using Cons.prems(3) by (rule plain_ws_sublist) (metis append.assoc concat.simps(2) sublist_append_rightI)
  from push_as_rescan [OF Cons.prems(1,2) this, of env] obtain mb1 where
    p: "markdown_push env c mb = Inr (fst (rescan_push env c (mb_buffer mb)), mb1)"
    "mb_buffer mb1 = snd (rescan_push env c (mb_buffer mb))"
    "buffer_ok mb1" "checkpoint_final (mb_buffer mb1) (mb_checkpoint mb1)" by metis
  have "plain_ws (mb_buffer mb1 @ concat cs)"
  proof (rule plain_ws_sublist [OF Cons.prems(3)])
    have "suffix (mb_buffer mb1 @ concat cs) ((mb_buffer mb @ c) @ concat cs)"
      unfolding p(2) using rescan_push_suffix by (metis same_suffix_suffix)
    then show "sublist (mb_buffer mb1 @ concat cs) (mb_buffer mb @ concat (c # cs))"
      by (simp add: suffix_imp_sublist)
  qed
  from Cons.IH [OF p(3,4) this] p(1,2) show ?case
    by (auto simp: split_beta Let_def split: option.split)
qed simp

text \<open>Claim C11 (checkpoint_matches_rescan): scanning from the checkpoint is an optimisation only:
  for every sequence of chunks whose white space is spaces, tabs and line ends, the buffer
  renders the same pieces and keeps the same remainder as one that scans its whole contents
  again at every push. With other white space, such as a form feed, it need not.\<close>

theorem checkpoint_matches_rescan:
  assumes "plain_ws (concat chunks)"
  shows "\<exists>mb. push_all env chunks markdown_buffer_new = Inr (fst (rescan_all env chunks []), mb)
     \<and> fst (markdown_flush mb) = snd (rescan_all env chunks [])"
  using push_all_as_rescan [of markdown_buffer_new chunks env] assms
  by (simp add: markdown_buffer_new_def buffer_ok_def checkpoint_default_ok
      checkpoint_default_final markdown_flush_def)

lemma last_clean_split:
  "last_clean ls evs = ls \<and> (\<forall>(e, st) \<in> set evs. \<not> is_clean st)
   \<or> (\<exists>xs st ys. evs = xs @ (last_clean ls evs, st) # ys \<and> is_clean st
        \<and> (\<forall>(e, s) \<in> set ys. \<not> is_clean s))"
proof (induction evs rule: rev_induct)
  case (snoc ev evs)
  obtain e st where ev: "ev = (e, st)" by (cases ev)
  show ?case
  proof (cases "is_clean st")
    case True
    then have "evs @ [ev] = evs @ (last_clean ls (evs @ [ev]), st) # []"
      by (simp add: ev last_clean_append)
    with True show ?thesis by (metis empty_iff empty_set)
  next
    case False
    then have same: "last_clean ls (evs @ [ev]) = last_clean ls evs"
      by (simp add: ev last_clean_append)
    from snoc show ?thesis
    proof (elim disjE exE conjE)
      fix xs s' ys
      assume "evs = xs @ (last_clean ls evs, s') # ys" "is_clean s'" "\<forall>(e, s) \<in> set ys. \<not> is_clean s"
      moreover from this(1) have "evs @ [ev] = xs @ (last_clean ls (evs @ [ev]), s') # (ys @ [ev])"
        unfolding same by simp
      moreover have "\<forall>(e, s) \<in> set (ys @ [ev]). \<not> is_clean s"
        using calculation(3) False ev by simp
      ultimately show ?thesis by blast
    qed (use False same ev in auto)
  qed
qed simp

text \<open>The first scan of a buffer cuts at the end of a token or
  line where no construct is open, and at the last such end: every later one leaves something
  open; when there is none it cuts nothing.\<close>

lemma cut_at_last_clean_end:
  fixes buf
  defines "e \<equiv> fst (find_safe_end \<lparr>mb_buffer = buf, mb_checkpoint = checkpoint_default\<rparr>)"
    and "evs \<equiv> scan_events buf 0 parse_state_default"
  shows "e \<le> length buf
    \<and> (e = 0 \<and> list_all (\<lambda>(_, st). \<not> is_clean st) evs
       \<or> (\<exists>xs st ys. evs = xs @ (e, st) # ys \<and> is_clean st
            \<and> list_all (\<lambda>(_, s). \<not> is_clean s) ys))"
proof
  let ?mb = "\<lparr>mb_buffer = buf, mb_checkpoint = checkpoint_default\<rparr>"
  obtain cp where f: "find_safe_end ?mb = (e, cp)" unfolding e_def by (metis prod.collapse)
  have "buffer_ok ?mb" by (simp add: buffer_ok_def checkpoint_default_ok)
  from find_safe_end_ok [OF this f] show "e \<le> length buf" by simp
  have "e = last_clean 0 evs"
    by (simp add: e_def evs_def find_safe_end_def checkpoint_default_def scan_loop_events Let_def)
  with last_clean_split [of 0 evs]
  show "e = 0 \<and> list_all (\<lambda>(_, st). \<not> is_clean st) evs
       \<or> (\<exists>xs st ys. evs = xs @ (e, st) # ys \<and> is_clean st
            \<and> list_all (\<lambda>(_, s). \<not> is_clean s) ys)"
    by (simp only: list_all_iff)
qed

subsection \<open>Truncated blocks\<close>

lemma find_closing_from_SomeD:
  "find_closing_from region c n from = Some p \<Longrightarrow>
     p < length region \<and> region ! p = NL \<and> is_closing_line c n (drop (p + 1) region)"
proof (induction region c n "from" rule: find_closing_from.induct)
  case (1 region c n "from")
  then obtain i where i: "find_char NL (drop from region) = Some i"
    by (subst (asm) (2) find_closing_from.simps) (auto split: option.splits)
  then have b: "from + i < length region" "region ! (from + i) = NL"
    using find_char_SomeD [OF i] by (auto simp: less_diff_conv add.commute)
  show ?case
  proof (cases "is_closing_line c n (drop (from + i + 1) region)")
    case True
    with i "1.prems" have "p = from + i" by (subst (asm) find_closing_from.simps) (simp add: Let_def)
    with b True show ?thesis by simp
  next
    case False
    with i "1.prems" have "find_closing_from region c n (from + i + 1) = Some p"
      by (subst (asm) find_closing_from.simps) (simp add: Let_def)
    with 1 i False show ?thesis by (metis add_Suc_right Suc_eq_plus1)
  qed
qed

text \<open>Truncating a rendered piece changes nothing, or it
  replaces the code of a block of more than the allowed lines by its first lines and a note that
  counts exactly the ones left out; what stands before the code and from the closing fence on is
  kept as it is.\<close>

lemma truncation_keeps_context:
  "truncate_code_blocks_with save content mx shown = content
   \<or> (\<exists>a code b c n note. content = a @ code @ NL # b \<and> is_closing_line c n b
        \<and> mx < length (lines code)
        \<and> truncate_code_blocks_with save content mx shown
            = a @ join [NL] (take (min shown mx) (lines code)) @ NL # note @ NL # b
        \<and> prefix (''... ('' @ show_nat (length (lines code) - min shown mx) @ '' more lines'') note)"
proof (cases "truncate_code_blocks_with save content mx shown = content")
  case False
  then obtain open_pos c n nl p where
    fence: "find_opening_fence content = Some (open_pos, c, n)"
      "find_char NL (drop (open_pos + n) content) = Some nl"
      "find_closing_fence (drop (open_pos + n + nl + 1) content) c n = Some p"
    by (auto simp: truncate_code_blocks_with_def Let_def split: option.splits prod.splits)
  define cs where "cs = open_pos + n + nl + 1"
  define code where "code = take p (drop cs content)"
  have cl: "p < length (drop cs content)" "drop cs content ! p = NL"
    "is_closing_line c n (drop (p + 1) (drop cs content))"
    using fence(3) find_closing_from_SomeD unfolding cs_def find_closing_fence_def by blast+
  have content: "content = take cs content @ code @ NL # drop (cs + p + 1) content"
    unfolding code_def using cl(1,2)
    by (metis (no_types, lifting) add.commute append_take_drop_id drop_drop Cons_nth_drop_Suc
        Suc_eq_plus1 add.assoc)
  have tr: "truncate_code_blocks_with save content mx shown
      = truncated_block save mx shown content cs p"
    using fence by (simp add: truncate_code_blocks_with_def Let_def cs_def)
  then have long: "mx < length (lines code)"
    using False by (auto simp: truncated_block_def Let_def code_def split: if_splits)
  define msg where "msg = ''... ('' @ show_nat (length (lines code) - min shown mx) @ '' more lines''
    @ (case save code of Some q \<Rightarrow> SPACE # ARROW @ SPACE # q | None \<Rightarrow> []) @ '')''"
  define b where "b = drop (cs + p + 1) content"
  have "min (min shown mx) (length (lines code)) = min shown mx" using long by simp
  then have res: "truncate_code_blocks_with save content mx shown
      = take cs content @ join [NL] (take (min shown mx) (lines code)) @ NL # msg @ NL # b"
    using long unfolding tr truncated_block_def Let_def code_def [symmetric] b_def [symmetric]
    by (simp add: msg_def)
  have "drop (p + 1) (drop cs content) = b" by (simp add: b_def add.commute)
  then have "is_closing_line c n b" using cl(3) by simp
  moreover have "prefix (''... ('' @ show_nat (length (lines code) - min shown mx) @ '' more lines'') msg"
    unfolding msg_def by simp
  ultimately show ?thesis using long content res unfolding b_def [symmetric] by blast
qed simp

subsection \<open>Examples\<close>

definition sample_render_env :: render_env where
  "sample_render_env = \<lparr>re_max_lines = None, re_show_lines = 20, re_save = (\<lambda>_. None)\<rparr>"

theorem checkpoint_matches_rescan_witness:
  "fst (rescan_all sample_render_env [''Hello **wor'', ''ld**!''] []) = [''Hello '', ''**world**!'']
   \<and> (\<exists>mb. push_all sample_render_env [''Hello **wor'', ''ld**!''] markdown_buffer_new
         = Inr ([''Hello '', ''**world**!''], mb))"
proof -
  have plain: "plain_ws (concat [''Hello **wor'', ''ld**!''])" by code_simp
  have out: "fst (rescan_all sample_render_env [''Hello **wor'', ''ld**!''] []) = [''Hello '', ''**world**!'']"
    by code_simp
  from checkpoint_matches_rescan [OF plain, of sample_render_env] out show ?thesis by auto
qed

text \<open>
  A blank line before a fence without language tag, in one chunk: the scan trims the line end,
  takes the fence for one of the blank line and stops behind it, and the fence itself then
  closes the block. The code is rendered while its block is still open.
\<close>

lemma blank_line_before_fence:
  "rescan_push sample_render_env (NL # replicate 3 BACKTICK @ NL # ''code'' @ [NL]) []
     = (Some (NL # replicate 3 BACKTICK @ NL # ''code'' @ [NL]), [])"
  by code_simp

text \<open>
  The hypothesis on white space is needed: a line that holds only a form feed counts as fixed
  for the checkpoint, although the search for a fence trims it.
\<close>

definition form_feed_chunks :: "string list" where
  "form_feed_chunks =
     [''*x'' @ NL # CHR 0x0C # NL # [BACKTICK], replicate 2 BACKTICK @ [NL], ''x*'' @ [NL]]"

lemma form_feed_breaks_checkpoint:
  "fst (rescan_all sample_render_env form_feed_chunks []) \<noteq> []
   \<and> map_sum id fst (push_all sample_render_env form_feed_chunks markdown_buffer_new) = Inr []"
  by code_simp

end
