(* ===== verification/Telemetry_Event.thy ===== *)
theory Telemetry_Event
  imports Rust_Str "HOL-Library.List_Lexorder" "HOL-Library.Char_ord"
begin

section \<open>Telemetry events and counters\<close>

text \<open>
  \<open>ghosty-telemetry/src/event.rs\<close>, \<open>counters.rs\<close> and the reductions of \<open>envelope.rs\<close>: the
  closed enums of the wire schema with their spellings, the counters of a session (\<open>u32\<close>
  atomics that wrap, and a histogram that saturates), and the predicates that bound the three
  strings an event may carry. The atomics of \<open>SessionCounters\<close> are grouped as the snapshots
  \<open>counters()\<close> and \<open>errors()\<close> group them.
\<close>

subsection \<open>Closed enums\<close>

datatype surface = Tui | Exec | Cli | AppServer | McpServer | Serve

definition surface_as_str :: "surface \<Rightarrow> string" where
  "surface_as_str s =
     (case s of Tui \<Rightarrow> ''tui'' | Exec \<Rightarrow> ''exec'' | Cli \<Rightarrow> ''cli'' | AppServer \<Rightarrow> ''app-server''
      | McpServer \<Rightarrow> ''mcp-server'' | Serve \<Rightarrow> ''serve'')"

datatype os = Linux | Macos | Windows | Freebsd | Android | OtherOs

definition os_as_str :: "os \<Rightarrow> string" where
  "os_as_str s =
     (case s of Linux \<Rightarrow> ''linux'' | Macos \<Rightarrow> ''macos'' | Windows \<Rightarrow> ''windows''
      | Freebsd \<Rightarrow> ''freebsd'' | Android \<Rightarrow> ''android'' | OtherOs \<Rightarrow> ''other'')"

definition current_os :: "string \<Rightarrow> os" where
  "current_os s =
     (if s = ''linux'' then Linux else if s = ''macos'' then Macos
      else if s = ''windows'' then Windows else if s = ''freebsd'' then Freebsd
      else if s = ''android'' then Android else OtherOs)"

datatype arch = X86_64 | Aarch64 | OtherArch

definition arch_as_str :: "arch \<Rightarrow> string" where
  "arch_as_str a = (case a of X86_64 \<Rightarrow> ''x86_64'' | Aarch64 \<Rightarrow> ''aarch64'' | OtherArch \<Rightarrow> ''other'')"

definition current_arch :: "string \<Rightarrow> arch" where
  "current_arch s = (if s = ''x86_64'' then X86_64 else if s = ''aarch64'' then Aarch64 else OtherArch)"

datatype libc = Gnu | Musl | NoLibc

definition libc_as_str :: "libc \<Rightarrow> string" where
  "libc_as_str l = (case l of Gnu \<Rightarrow> ''gnu'' | Musl \<Rightarrow> ''musl'' | NoLibc \<Rightarrow> ''none'')"

datatype install_kind = Install | Upgrade | Downgrade

definition install_kind_as_str :: "install_kind \<Rightarrow> string" where
  "install_kind_as_str k =
     (case k of Install \<Rightarrow> ''install'' | Upgrade \<Rightarrow> ''upgrade'' | Downgrade \<Rightarrow> ''downgrade'')"

datatype session_source = Interactive | Resume | Fork | Api | UnknownSource

definition session_source_as_str :: "session_source \<Rightarrow> string" where
  "session_source_as_str s =
     (case s of Interactive \<Rightarrow> ''interactive'' | Resume \<Rightarrow> ''resume'' | Fork \<Rightarrow> ''fork''
      | Api \<Rightarrow> ''api'' | UnknownSource \<Rightarrow> ''unknown'')"

datatype duration_bucket = Lt1m | OneToTen | TenToSixty | Gt60m

definition duration_from_secs :: "u64 \<Rightarrow> duration_bucket" where
  "duration_from_secs secs =
     (if secs < 60 then Lt1m else if secs < 600 then OneToTen
      else if secs < 3600 then TenToSixty else Gt60m)"

definition duration_as_str :: "duration_bucket \<Rightarrow> string" where
  "duration_as_str b =
     (case b of Lt1m \<Rightarrow> ''lt_1m'' | OneToTen \<Rightarrow> ''1m_10m'' | TenToSixty \<Rightarrow> ''10m_60m''
      | Gt60m \<Rightarrow> ''gt_60m'')"

datatype exit_class = ExitClean | ExitSignal | ExitPanic | ExitError

definition exit_class_as_str :: "exit_class \<Rightarrow> string" where
  "exit_class_as_str c =
     (case c of ExitClean \<Rightarrow> ''clean'' | ExitSignal \<Rightarrow> ''signal'' | ExitPanic \<Rightarrow> ''panic''
      | ExitError \<Rightarrow> ''error'')"

definition exit_class_as_u8 :: "exit_class \<Rightarrow> u8" where
  "exit_class_as_u8 c =
     (case c of ExitClean \<Rightarrow> 0 | ExitSignal \<Rightarrow> 1 | ExitPanic \<Rightarrow> 2 | ExitError \<Rightarrow> 3)"

definition exit_class_from_u8 :: "u8 \<Rightarrow> exit_class" where
  "exit_class_from_u8 v =
     (if v = 1 then ExitSignal else if v = 2 then ExitPanic else if v = 3 then ExitError
      else ExitClean)"

datatype cold_start_bucket = Lt250 | Mid | Slow | Gte3000

definition cold_start_from_millis :: "u64 \<Rightarrow> cold_start_bucket" where
  "cold_start_from_millis ms =
     (if ms < 250 then Lt250 else if ms < 1000 then Mid else if ms < 3000 then Slow else Gte3000)"

definition cold_start_as_str :: "cold_start_bucket \<Rightarrow> string" where
  "cold_start_as_str b =
     (case b of Lt250 \<Rightarrow> ''lt_250'' | Mid \<Rightarrow> ''250_1000'' | Slow \<Rightarrow> ''1000_3000''
      | Gte3000 \<Rightarrow> ''gte_3000'')"

subsection \<open>Counters\<close>

record counters =
  c_turns :: u32
  c_tool_calls :: u32
  c_fleet_dispatch :: u32
  c_workflow_run :: u32
  c_subagent_spawn :: u32
  c_mcp_server_connected :: u32
  c_memory_search :: u32
  c_approval_modal_shown :: u32
  c_approval_auto_allowed :: u32
  c_command_palette_open :: u32

record errors =
  e_auth_preflight_failed :: u32
  e_provider_http_4xx :: u32
  e_provider_http_5xx :: u32
  e_tool_denied_by_policy :: u32
  e_tool_timeout :: u32
  e_network_error :: u32

record turn_wall =
  tw_lt_5s :: u32
  tw_five_to_thirty :: u32
  tw_thirty_to_onetwenty :: u32
  tw_gte_120s :: u32

definition observe_secs :: "u64 \<Rightarrow> turn_wall \<Rightarrow> turn_wall" where
  "observe_secs secs w =
     (if secs < 5 then w\<lparr>tw_lt_5s := saturating_inc (tw_lt_5s w)\<rparr>
      else if secs < 30 then w\<lparr>tw_five_to_thirty := saturating_inc (tw_five_to_thirty w)\<rparr>
      else if secs < 120 then w\<lparr>tw_thirty_to_onetwenty := saturating_inc (tw_thirty_to_onetwenty w)\<rparr>
      else w\<lparr>tw_gte_120s := saturating_inc (tw_gte_120s w)\<rparr>)"

datatype counter =
    Turns | ToolCalls | FleetDispatch | WorkflowRun | SubagentSpawn | McpServerConnected
  | MemorySearch | ApprovalModalShown | ApprovalAutoAllowed | CommandPaletteOpen

datatype error_counter =
    AuthPreflightFailed | ProviderHttp4xx | ProviderHttp5xx | ToolDeniedByPolicy | ToolTimeout
  | NetworkError

definition slot :: "counter \<Rightarrow> counters \<Rightarrow> u32" where
  "slot k c =
     (case k of
        Turns \<Rightarrow> c_turns c | ToolCalls \<Rightarrow> c_tool_calls c | FleetDispatch \<Rightarrow> c_fleet_dispatch c
      | WorkflowRun \<Rightarrow> c_workflow_run c | SubagentSpawn \<Rightarrow> c_subagent_spawn c
      | McpServerConnected \<Rightarrow> c_mcp_server_connected c | MemorySearch \<Rightarrow> c_memory_search c
      | ApprovalModalShown \<Rightarrow> c_approval_modal_shown c
      | ApprovalAutoAllowed \<Rightarrow> c_approval_auto_allowed c
      | CommandPaletteOpen \<Rightarrow> c_command_palette_open c)"

definition bump_slot :: "counter \<Rightarrow> counters \<Rightarrow> counters" where
  "bump_slot k c =
     (case k of
        Turns \<Rightarrow> c\<lparr>c_turns := c_turns c + 1\<rparr>
      | ToolCalls \<Rightarrow> c\<lparr>c_tool_calls := c_tool_calls c + 1\<rparr>
      | FleetDispatch \<Rightarrow> c\<lparr>c_fleet_dispatch := c_fleet_dispatch c + 1\<rparr>
      | WorkflowRun \<Rightarrow> c\<lparr>c_workflow_run := c_workflow_run c + 1\<rparr>
      | SubagentSpawn \<Rightarrow> c\<lparr>c_subagent_spawn := c_subagent_spawn c + 1\<rparr>
      | McpServerConnected \<Rightarrow> c\<lparr>c_mcp_server_connected := c_mcp_server_connected c + 1\<rparr>
      | MemorySearch \<Rightarrow> c\<lparr>c_memory_search := c_memory_search c + 1\<rparr>
      | ApprovalModalShown \<Rightarrow> c\<lparr>c_approval_modal_shown := c_approval_modal_shown c + 1\<rparr>
      | ApprovalAutoAllowed \<Rightarrow> c\<lparr>c_approval_auto_allowed := c_approval_auto_allowed c + 1\<rparr>
      | CommandPaletteOpen \<Rightarrow> c\<lparr>c_command_palette_open := c_command_palette_open c + 1\<rparr>)"

definition error_slot :: "error_counter \<Rightarrow> errors \<Rightarrow> u32" where
  "error_slot k e =
     (case k of
        AuthPreflightFailed \<Rightarrow> e_auth_preflight_failed e | ProviderHttp4xx \<Rightarrow> e_provider_http_4xx e
      | ProviderHttp5xx \<Rightarrow> e_provider_http_5xx e | ToolDeniedByPolicy \<Rightarrow> e_tool_denied_by_policy e
      | ToolTimeout \<Rightarrow> e_tool_timeout e | NetworkError \<Rightarrow> e_network_error e)"

definition bump_error_slot :: "error_counter \<Rightarrow> errors \<Rightarrow> errors" where
  "bump_error_slot k e =
     (case k of
        AuthPreflightFailed \<Rightarrow> e\<lparr>e_auth_preflight_failed := e_auth_preflight_failed e + 1\<rparr>
      | ProviderHttp4xx \<Rightarrow> e\<lparr>e_provider_http_4xx := e_provider_http_4xx e + 1\<rparr>
      | ProviderHttp5xx \<Rightarrow> e\<lparr>e_provider_http_5xx := e_provider_http_5xx e + 1\<rparr>
      | ToolDeniedByPolicy \<Rightarrow> e\<lparr>e_tool_denied_by_policy := e_tool_denied_by_policy e + 1\<rparr>
      | ToolTimeout \<Rightarrow> e\<lparr>e_tool_timeout := e_tool_timeout e + 1\<rparr>
      | NetworkError \<Rightarrow> e\<lparr>e_network_error := e_network_error e + 1\<rparr>)"

record session_counters =
  sc_counters :: counters
  sc_errors :: errors
  sc_turn_wall :: turn_wall
  sc_providers :: "string list"

definition session_counters_default :: session_counters where
  "session_counters_default =
     \<lparr>sc_counters = \<lparr>c_turns = 0, c_tool_calls = 0, c_fleet_dispatch = 0, c_workflow_run = 0,
        c_subagent_spawn = 0, c_mcp_server_connected = 0, c_memory_search = 0,
        c_approval_modal_shown = 0, c_approval_auto_allowed = 0, c_command_palette_open = 0\<rparr>,
      sc_errors = \<lparr>e_auth_preflight_failed = 0, e_provider_http_4xx = 0, e_provider_http_5xx = 0,
        e_tool_denied_by_policy = 0, e_tool_timeout = 0, e_network_error = 0\<rparr>,
      sc_turn_wall = \<lparr>tw_lt_5s = 0, tw_five_to_thirty = 0, tw_thirty_to_onetwenty = 0,
        tw_gte_120s = 0\<rparr>,
      sc_providers = []\<rparr>"

definition bump :: "counter \<Rightarrow> session_counters \<Rightarrow> session_counters" where
  "bump k s = s\<lparr>sc_counters := bump_slot k (sc_counters s)\<rparr>"

definition bump_error :: "error_counter \<Rightarrow> session_counters \<Rightarrow> session_counters" where
  "bump_error k s = s\<lparr>sc_errors := bump_error_slot k (sc_errors s)\<rparr>"

definition observe_turn_secs :: "u64 \<Rightarrow> session_counters \<Rightarrow> session_counters" where
  "observe_turn_secs secs s = s\<lparr>sc_turn_wall := observe_secs secs (sc_turn_wall s)\<rparr>"

definition KNOWN_PROVIDERS :: "string list" where
  "KNOWN_PROVIDERS =
     [''anthropic'', ''custom'', ''deepseek'', ''easybits'', ''google'', ''ollama'', ''openai'',
      ''openrouter'', ''other'']"

definition OTHER_PROVIDER :: string where
  "OTHER_PROVIDER = ''other''"

definition canonical_provider :: "string \<Rightarrow> string" where
  "canonical_provider name =
     (let lowered = to_ascii_lowercase (trim name) in
      case List.find (\<lambda>known. known = lowered) KNOWN_PROVIDERS of
        Some known \<Rightarrow> known | None \<Rightarrow> OTHER_PROVIDER)"

definition record_provider :: "string \<Rightarrow> session_counters \<Rightarrow> session_counters" where
  "record_provider provider s =
     (let name = canonical_provider provider in
      if name \<notin> set (sc_providers s)
      then s\<lparr>sc_providers := sort (sc_providers s @ [name])\<rparr> else s)"

definition http_status_counter :: "u16 \<Rightarrow> error_counter option" where
  "http_status_counter status =
     (if status div 100 = 4 then Some ProviderHttp4xx
      else if status div 100 = 5 then Some ProviderHttp5xx else None)"

subsection \<open>Events\<close>

datatype event =
    InstallOrUpgrade install_kind "string option"
  | SessionStart session_source
  | SessionEnd duration_bucket exit_class "cold_start_bucket option" "string list"
      counters errors turn_wall
  | PanicEvent string

definition event_name :: "event \<Rightarrow> string" where
  "event_name e =
     (case e of InstallOrUpgrade _ _ \<Rightarrow> ''install_or_upgrade'' | SessionStart _ \<Rightarrow> ''session_start''
      | SessionEnd _ _ _ _ _ _ _ \<Rightarrow> ''session_end'' | PanicEvent _ \<Rightarrow> ''panic'')"

definition is_release_version_string :: "string \<Rightarrow> bool" where
  "is_release_version_string v =
     (let (core, pre) = (case split_once ''-'' v of Some (c, p) \<Rightarrow> (c, Some p) | None \<Rightarrow> (v, None));
          parts = split_char CHR ''.'' core
      in if length parts \<noteq> 3 \<or> \<not> list_all (\<lambda>p. p \<noteq> [] \<and> list_all is_ascii_digit p) parts
         then False
         else (case pre of
                 None \<Rightarrow> True
               | Some p \<Rightarrow> p \<noteq> [] \<and> list_all (\<lambda>b. is_ascii_alphanumeric b \<or> b = CHR ''.'') p))"

definition site_char :: "char \<Rightarrow> bool" where
  "site_char b \<longleftrightarrow>
     is_ascii_alphanumeric b \<or> b \<in> {CHR ''_'', CHR ''/'', CHR ''.'', CHR ''-''}"

definition is_reduced_panic_site :: "string \<Rightarrow> bool" where
  "is_reduced_panic_site v =
     (if v = ''<dep>'' then True
      else (case split_once ''.rs:'' v of
              None \<Rightarrow> False
            | Some (file, rest) \<Rightarrow>
                (case split_once '':'' rest of
                   None \<Rightarrow> False
                 | Some (line, column) \<Rightarrow>
                     starts_with file ''crates/'' \<and> list_all site_char file
                     \<and> line \<noteq> [] \<and> list_all is_ascii_digit line
                     \<and> column \<noteq> [] \<and> list_all is_ascii_digit column)))"

definition is_known_provider_id :: "string \<Rightarrow> bool" where
  "is_known_provider_id v \<longleftrightarrow> v \<in> set KNOWN_PROVIDERS"

definition is_bounded :: "event \<Rightarrow> bool" where
  "is_bounded e =
     (case e of
        SessionStart _ \<Rightarrow> True
      | InstallOrUpgrade _ prev \<Rightarrow>
          (case prev of None \<Rightarrow> True | Some v \<Rightarrow> is_release_version_string v)
      | SessionEnd _ _ _ providers _ _ _ \<Rightarrow> list_all is_known_provider_id providers
      | PanicEvent site \<Rightarrow> is_reduced_panic_site site)"

definition reduce_panic_site :: "string \<Rightarrow> u32 \<Rightarrow> u32 \<Rightarrow> string" where
  "reduce_panic_site file line column =
     (let candidate = map (\<lambda>c. if c = CHR 0x5C then CHR ''/'' else c) file
            @ '':'' @ show_nat (unat line) @ '':'' @ show_nat (unat column)
      in if is_reduced_panic_site candidate then candidate else ''<dep>'')"

definition short_hex_sha :: "string \<Rightarrow> string option" where
  "short_hex_sha v =
     (let trimmed = to_ascii_lowercase (trim v) in
      if length trimmed < 12 \<or> \<not> list_all is_ascii_hexdigit trimmed then None
      else Some (take 12 trimmed))"

subsection \<open>Versions\<close>

definition version_parts :: "string \<Rightarrow> nat list" where
  "version_parts v =
     map (\<lambda>p. case parse_uint 64 p of Some n \<Rightarrow> n | None \<Rightarrow> 0)
       (split_char CHR ''.'' (takeWhile (\<lambda>c. c \<noteq> CHR ''-'' \<and> c \<noteq> CHR ''+'') v))"

definition part_at :: "nat list \<Rightarrow> nat \<Rightarrow> nat" where
  "part_at ps i = (if i < length ps then ps ! i else 0)"

fun older_from :: "nat list \<Rightarrow> nat list \<Rightarrow> nat list \<Rightarrow> bool" where
  "older_from p c [] = False"
| "older_from p c (i # is) =
     (if part_at p i \<noteq> part_at c i then part_at p i < part_at c i else older_from p c is)"

definition version_is_older :: "string \<Rightarrow> string \<Rightarrow> bool" where
  "version_is_older previous current =
     (let p = version_parts previous; c = version_parts current
      in older_from p c [0..<max (length p) (length c)])"

subsection \<open>Numbers that are printed and parsed\<close>

lemma digits_value_append: "digits_value n (s @ t) = digits_value (digits_value n s) t"
  by (induction n s rule: digits_value.induct) simp_all

lemma digits_value_show_nat: "digits_value 0 (show_nat n) = n"
proof (induction n rule: show_nat.induct)
  case (1 n)
  show ?case
  proof (cases "n < 10")
    case True
    then show ?thesis by (simp add: show_nat.simps [of n] digit_value_def)
  next
    case False
    with 1 show ?thesis
      by (simp add: show_nat.simps [of n] digits_value_append digit_value_def)
  qed
qed

lemma parse_show_nat: "n < 2 ^ w \<Longrightarrow> parse_uint w (show_nat n) = Some n"
proof -
  assume n: "n < 2 ^ w"
  obtain c r where s: "show_nat n = c # r" by (cases "show_nat n") auto
  have "is_ascii_digit c" using show_nat_digits [of n] s by simp
  then have "c \<noteq> CHR ''+''" by (auto simp: is_ascii_digit_def)
  then show ?thesis
    using n show_nat_digits [of n] digits_value_show_nat [of n] by (simp add: parse_uint_def s)
qed

subsection \<open>Release versions\<close>

definition digits :: "string \<Rightarrow> bool" where
  "digits s \<longleftrightarrow> s \<noteq> [] \<and> list_all is_ascii_digit s"

lemma digit_not_sep:
  "list_all is_ascii_digit s \<Longrightarrow> CHR ''.'' \<notin> set s \<and> CHR ''-'' \<notin> set s \<and> CHR ''+'' \<notin> set s
     \<and> CHR '':'' \<notin> set s"
  by (induction s) (auto simp: is_ascii_digit_def)

lemma split_char_three:
  "length (split_char d s) = 3 \<and> list_all P (split_char d s) \<longleftrightarrow>
     (\<exists>a b c. s = a @ d # b @ d # c \<and> d \<notin> set a \<and> d \<notin> set b \<and> d \<notin> set c \<and> P a \<and> P b \<and> P c)"
proof
  assume l: "length (split_char d s) = 3 \<and> list_all P (split_char d s)"
  then obtain a b c where abc: "split_char d s = [a, b, c]"
    by (auto simp: length_Suc_conv numeral_3_eq_3)
  then have "d \<notin> set a" "d \<notin> set b" "d \<notin> set c"
    using split_char_no_sep [of _ d s] by auto
  moreover have "s = a @ d # b @ d # c" using join_split_char [of d s] by (simp add: abc)
  ultimately show "\<exists>a b c. s = a @ d # b @ d # c \<and> d \<notin> set a \<and> d \<notin> set b \<and> d \<notin> set c
      \<and> P a \<and> P b \<and> P c"
    using l abc by auto
qed (auto simp: split_char_append split_char_fresh)

text \<open>The check of a version string accepts exactly the
  expression its documentation states: three runs of digits separated by dots and, optionally, a
  hyphen and a nonempty run of letters, digits and dots.\<close>

lemma release_version_regex:
  "is_release_version_string v \<longleftrightarrow>
     (\<exists>a b c. digits a \<and> digits b \<and> digits c
        \<and> (v = a @ ''.'' @ b @ ''.'' @ c
           \<or> (\<exists>p. v = a @ ''.'' @ b @ ''.'' @ c @ ''-'' @ p \<and> p \<noteq> []
                \<and> list_all (\<lambda>x. is_ascii_alphanumeric x \<or> x = CHR ''.'') p)))"
proof -
  define core_ok where "core_ok core \<longleftrightarrow> length (split_char CHR ''.'' core) = 3
     \<and> list_all digits (split_char CHR ''.'' core)" for core
  have core: "core_ok core \<longleftrightarrow> (\<exists>a b c. core = a @ ''.'' @ b @ ''.'' @ c \<and> digits a \<and> digits b \<and> digits c)"
    for core
    unfolding core_ok_def split_char_three by (auto simp: digits_def dest: digit_not_sep)
  have unfold: "is_release_version_string v \<longleftrightarrow>
      (case split_once ''-'' v of
         None \<Rightarrow> core_ok v
       | Some (c, p) \<Rightarrow> core_ok c \<and> p \<noteq> [] \<and> list_all (\<lambda>x. is_ascii_alphanumeric x \<or> x = CHR ''.'') p)"
    by (auto simp: is_release_version_string_def core_ok_def digits_def [abs_def] Let_def split: option.splits)
  have no_dash: "CHR ''-'' \<notin> set (a @ ''.'' @ b @ ''.'' @ c)" if "digits a" "digits b" "digits c" for a b c
    using that by (auto simp: digits_def dest: digit_not_sep)
  show ?thesis
  proof (cases "split_once ''-'' v")
    case None
    then have "CHR ''-'' \<notin> set v" by (simp add: split_once_None_char)
    then show ?thesis unfolding unfold None core by (auto simp: None)
  next
    case (Some cp)
    obtain c p where cp: "cp = (c, p)" by (cases cp)
    with Some have v: "v = c @ CHR ''-'' # p" "CHR ''-'' \<notin> set c"
      using split_once_Some [of "''-''" v c p] split_once_char_left [of "CHR ''-''" v c p] by auto
    have uniq: "c = c' \<and> p = p'" if "v = c' @ CHR ''-'' # p'" "CHR ''-'' \<notin> set c'" for c' p'
      using v that split_once_char_fresh [of "CHR ''-''" c' p'] Some cp by auto
    show ?thesis
      unfolding unfold Some cp option.case prod.case core
    proof (intro iffI; elim exE conjE)
      fix a b d
      assume "c = a @ ''.'' @ b @ ''.'' @ d" "digits a" "digits b" "digits d" "p \<noteq> []"
        "list_all (\<lambda>x. is_ascii_alphanumeric x \<or> x = CHR ''.'') p"
      with v show "\<exists>a b c. digits a \<and> digits b \<and> digits c
        \<and> (v = a @ ''.'' @ b @ ''.'' @ c
           \<or> (\<exists>p. v = a @ ''.'' @ b @ ''.'' @ c @ ''-'' @ p \<and> p \<noteq> []
                \<and> list_all (\<lambda>x. is_ascii_alphanumeric x \<or> x = CHR ''.'') p))"
        by (intro exI [of _ a] exI [of _ b] exI [of _ d]) auto
    next
      fix a b d
      assume d: "digits a" "digits b" "digits d" and
        alt: "v = a @ ''.'' @ b @ ''.'' @ d \<or> (\<exists>p. v = a @ ''.'' @ b @ ''.'' @ d @ ''-'' @ p \<and> p \<noteq> []
                \<and> list_all (\<lambda>x. is_ascii_alphanumeric x \<or> x = CHR ''.'') p)"
      have "CHR ''-'' \<in> set v" using v(1) by simp
      with no_dash [OF d] have "v \<noteq> a @ ''.'' @ b @ ''.'' @ d" by metis
      with alt obtain q where q: "v = (a @ ''.'' @ b @ ''.'' @ d) @ CHR ''-'' # q" "q \<noteq> []"
        "list_all (\<lambda>x. is_ascii_alphanumeric x \<or> x = CHR ''.'') q" by auto
      from uniq [OF q(1) no_dash [OF d]] q d
      show "(\<exists>a b d. c = a @ ''.'' @ b @ ''.'' @ d \<and> digits a \<and> digits b \<and> digits d) \<and> p \<noteq> []
          \<and> list_all (\<lambda>x. is_ascii_alphanumeric x \<or> x = CHR ''.'') p"
        by auto
    qed
  qed
qed

subsection \<open>Which of two versions is older\<close>

lemma version_parts_release:
  assumes "a < 2 ^ 64" "b < 2 ^ 64" "c < 2 ^ 64"
  shows "version_parts (show_nat a @ ''.'' @ show_nat b @ ''.'' @ show_nat c) = [a, b, c]"
proof -
  note d = digit_not_sep [OF show_nat_digits]
  let ?v = "show_nat a @ CHR ''.'' # show_nat b @ CHR ''.'' # show_nat c"
  have tw: "takeWhile (\<lambda>c. c \<noteq> CHR ''-'' \<and> c \<noteq> CHR ''+'') ?v = ?v"
    using d by (auto simp: takeWhile_eq_all_conv)
  have sp: "split_char CHR ''.'' ?v = [show_nat a, show_nat b, show_nat c]"
    using d by (simp add: split_char_append split_char_fresh)
  show ?thesis
    unfolding version_parts_def append_Cons append_Nil tw sp using assms by (simp add: parse_show_nat)
qed

text \<open>On release numbers the comparison that names an upgrade is the
  lexicographic order of the three numbers.\<close>

lemma version_order:
  assumes "a < 2 ^ 64" "b < 2 ^ 64" "c < 2 ^ 64" "a' < 2 ^ 64" "b' < 2 ^ 64" "c' < 2 ^ 64"
  shows "version_is_older (show_nat a @ ''.'' @ show_nat b @ ''.'' @ show_nat c)
      (show_nat a' @ ''.'' @ show_nat b' @ ''.'' @ show_nat c')
    \<longleftrightarrow> a < a' \<or> a = a' \<and> (b < b' \<or> b = b' \<and> c < c')"
proof -
  have upt: "[0..<max (length [a, b, c]) (length [a', b', c'])] = [0, 1, 2]" by (simp add: upt_rec)
  show ?thesis
    unfolding version_is_older_def Let_def version_parts_release [OF assms(1-3)]
      version_parts_release [OF assms(4-6)] upt
    by (simp add: part_at_def)
qed

lemma version_order_example:
  "version_is_older (show_nat 1 @ ''.'' @ show_nat 9 @ ''.'' @ show_nat 3)
     (show_nat 1 @ ''.'' @ show_nat 10 @ ''.'' @ show_nat 0)"
  using version_order [of 1 9 3 1 10 0] by simp

subsection \<open>Panic sites\<close>

lemma site_char_no_colon: "list_all site_char f \<Longrightarrow> CHR '':'' \<notin> set f \<and> CHR 0x5C \<notin> set f"
  by (induction f)
    (auto simp: site_char_def is_ascii_alphanumeric_def is_ascii_digit_def is_ascii_lower_def
      is_ascii_upper_def)

lemma str_find_ends:
  assumes "\<And>i. i < length a \<Longrightarrow> \<not> prefix p (drop i (a @ p @ s))" "p \<noteq> []"
  shows "str_find p (a @ p @ s) = Some (length a)"
  using assms(1)
proof (induction a)
  case Nil
  show ?case using assms(2) by (cases "p @ s") (auto intro: prefixI [of "_ # _", OF sym])
next
  case (Cons c a)
  have "\<not> prefix p (drop 0 ((c # a) @ p @ s))" using Cons.prems [of 0] by simp
  moreover have "str_find p (a @ p @ s) = Some (length a)"
  proof (rule Cons.IH)
    fix i
    assume "i < length a"
    then show "\<not> prefix p (drop i (a @ p @ s))" using Cons.prems [of "Suc i"] by simp
  qed
  ultimately show ?case by simp
qed

lemma split_rs:
  assumes "CHR '':'' \<notin> set f"
  shows "split_once ''.rs:'' (f @ ''.rs:'' @ t) = Some (f, t)"
proof -
  have "\<not> prefix ''.rs:'' (drop i (f @ ''.rs:'' @ t))" if i: "i < length f" for i
  proof
    assume "prefix ''.rs:'' (drop i (f @ ''.rs:'' @ t))"
    then obtain u where u: "drop i (f @ ''.rs:'' @ t) = ''.rs:'' @ u" by (auto simp: prefix_def)
    have "(f @ ''.rs:'' @ t) ! (i + 3) = CHR '':''"
    proof -
      have "(f @ ''.rs:'' @ t) ! (i + 3) = drop i (f @ ''.rs:'' @ t) ! 3"
        using i by (intro nth_drop [symmetric]) simp
      then show ?thesis unfolding u by simp
    qed
    moreover have "(f @ ''.rs:'' @ t) ! (i + 3) \<noteq> CHR '':''"
    proof (cases "i + 3 < length f")
      case True
      then show ?thesis using assms by (metis nth_append nth_mem)
    next
      case False
      then have "i + 3 - length f = 0 \<or> i + 3 - length f = 1 \<or> i + 3 - length f = 2" using i by auto
      then show ?thesis using False by (auto simp: nth_append)
    qed
    ultimately show False by simp
  qed
  then have "str_find ''.rs:'' (f @ ''.rs:'' @ t) = Some (length f)"
    by (intro str_find_ends) auto
  then show ?thesis by (simp add: split_once_def)
qed

text \<open>The site sent for a panic always satisfies the bound that is
  checked again before sending, and a Rust source path under \<open>crates/\<close> over the allowed
  characters is sent as it is, with line and column.\<close>

lemma panic_site_reduced:
  "is_reduced_panic_site (reduce_panic_site file line column)
   \<and> (prefix ''crates/'' f \<and> list_all site_char f \<longrightarrow>
        reduce_panic_site (f @ ''.rs'') line column
          = f @ ''.rs:'' @ show_nat (unat line) @ '':'' @ show_nat (unat column))"
proof (intro conjI impI)
  show "is_reduced_panic_site (reduce_panic_site file line column)"
    by (simp add: reduce_panic_site_def Let_def is_reduced_panic_site_def)
  assume f: "prefix ''crates/'' f \<and> list_all site_char f"
  note nc = site_char_no_colon [OF conjunct2 [OF f]]
  let ?t = "show_nat (unat line) @ '':'' @ show_nat (unat column)"
  have map: "map (\<lambda>c. if c = CHR 0x5C then CHR ''/'' else c) f = f"
    using nc by (auto intro: map_idI)
  have "split_once '':'' ?t = Some (show_nat (unat line), show_nat (unat column))"
    using split_once_char_fresh [of "CHR '':''"] digit_not_sep [OF show_nat_digits] by simp
  then have "is_reduced_panic_site (f @ ''.rs:'' @ ?t)"
    unfolding is_reduced_panic_site_def split_rs [OF conjunct1 [OF nc]]
    using f show_nat_digits by (simp add: starts_with_def)
  then show "reduce_panic_site (f @ ''.rs'') line column = f @ ''.rs:'' @ ?t"
    by (simp add: reduce_panic_site_def map Let_def)
qed

lemma panic_site_reduced_example:
  "reduce_panic_site (''crates/goose/src/agent'' @ ''.rs'') 12 7 = ''crates/goose/src/agent.rs:12:7''"
proof -
  have "prefix ''crates/'' ''crates/goose/src/agent'' \<and> list_all site_char ''crates/goose/src/agent''"
    by code_simp
  then have "reduce_panic_site (''crates/goose/src/agent'' @ ''.rs'') 12 7
      = ''crates/goose/src/agent'' @ ''.rs:'' @ show_nat (unat (12 :: u32)) @ '':'' @ show_nat (unat (7 :: u32))"
    using panic_site_reduced [of _ 12 7 "''crates/goose/src/agent''"] by blast
  moreover have "show_nat (unat (12 :: u32)) = ''12''" "show_nat (unat (7 :: u32)) = ''7''"
    by code_simp+
  ultimately show ?thesis by simp
qed

subsection \<open>Providers\<close>

lemma canonical_known: "canonical_provider name \<in> set KNOWN_PROVIDERS"
proof (cases "List.find (\<lambda>known. known = to_ascii_lowercase (trim name)) KNOWN_PROVIDERS")
  case None
  then show ?thesis by (simp add: canonical_provider_def OTHER_PROVIDER_def KNOWN_PROVIDERS_def)
next
  case (Some k)
  then have "k \<in> set KNOWN_PROVIDERS" by (metis find_Some_iff nth_mem)
  with Some show ?thesis by (simp add: canonical_provider_def Let_def)
qed

lemma record_provider_set:
  assumes "sc_providers s = sorted_list_of_set A" "finite A"
  shows "sc_providers (record_provider p s) = sorted_list_of_set (insert (canonical_provider p) A)"
proof (cases "canonical_provider p \<in> A")
  case True
  with assms show ?thesis by (simp add: record_provider_def insert_absorb)
next
  case False
  then have "sort (sorted_list_of_set A @ [canonical_provider p])
      = sorted_list_of_set (insert (canonical_provider p) A)"
    using assms(2) by (intro sorted_distinct_set_unique)
      (auto simp: sorted_insort distinct_insort set_insort_key)
  with False assms show ?thesis by (simp add: record_provider_def)
qed

text \<open>After any session the recorded providers are the canonical
  names of the ones routed to, sorted and without duplicates, and every one of them is in the
  closed list: a name of the user's configuration never gets into an event.\<close>

lemma providers_closed:
  "sc_providers (foldl (\<lambda>s p. record_provider p s) session_counters_default names)
     = sorted_list_of_set (canonical_provider ` set names)
   \<and> set (sc_providers (foldl (\<lambda>s p. record_provider p s) session_counters_default names))
       \<subseteq> set KNOWN_PROVIDERS"
proof -
  have "sc_providers (foldl (\<lambda>s p. record_provider p s) session_counters_default names)
     = sorted_list_of_set (canonical_provider ` set names)"
  proof (induction names rule: rev_induct)
    case (snoc p names)
    from record_provider_set [OF snoc] show ?case by simp
  qed (simp add: session_counters_default_def)
  then show ?thesis using canonical_known by auto
qed

subsection \<open>Counts\<close>

lemma slot_bump: "slot k (bump_slot j c) = (if k = j then slot k c + 1 else slot k c)"
  by (cases k; cases j) (simp_all add: slot_def bump_slot_def)

text \<open>A feature counter holds the number of its bumps, whatever other
  counters were bumped in between, modulo the \<open>2 ^ 32\<close> of its word.\<close>

lemma counters_count:
  "unat (slot k (sc_counters (foldl (\<lambda>s j. bump j s) session_counters_default ks)))
     = count_list ks k mod 2 ^ 32"
proof (induction ks rule: rev_induct)
  case Nil
  show ?case by (cases k) (simp_all add: session_counters_default_def slot_def)
next
  case (snoc j ks)
  let ?s = "foldl (\<lambda>s j. bump j s) session_counters_default ks"
  have "slot k (sc_counters (bump j ?s)) = (if k = j then slot k (sc_counters ?s) + 1 else slot k (sc_counters ?s))"
    by (simp add: bump_def slot_bump)
  moreover have "unat (slot k (sc_counters ?s) + 1) = Suc (count_list ks k) mod 2 ^ 32"
    unfolding unat_wrapping_inc snoc Suc_eq_plus1 [symmetric] by (rule mod_Suc_eq)
  ultimately show ?case using snoc by (cases "k = j") simp_all
qed

lemma exit_class_roundtrip: "exit_class_from_u8 (exit_class_as_u8 c) = c"
  by (cases c) (simp_all add: exit_class_from_u8_def exit_class_as_u8_def)

end
