(* ===== verification/Telemetry_Store.thy ===== *)
theory Telemetry_Store
  imports Rust_Str
begin

section \<open>The telemetry directory\<close>

text \<open>
  \<open>ghosty-telemetry/src/buffer.rs\<close>: the files under the telemetry directory, the lock, the ring
  buffer, the tombstone and the wipe. A file is its contents, or absent. Which system calls of
  an operation fail is a parameter (\<open>faults\<close>): \<open>None\<close> for a call that succeeds and \<open>Some n\<close> for
  one that fails, after \<open>n\<close> bytes where it writes. A lock that is held elsewhere is the fault of
  \<open>TakeLock\<close>. \<open>Path::exists\<close> (an \<open>Exists\<close> step) answers false when the system call behind it fails. An operation returns its result and the directory afterwards; what it did before
  a failing call stays done.
\<close>

record tdir =
  td_exists :: bool
  td_lock :: bool
  td_buffer :: "string option"
  td_dryrun :: "string option"
  td_tombstone :: "string option"
  td_install_id :: "string option"
  td_state :: "string option"

datatype sink = BufferSink | DryrunSink

datatype exists_call =
    TombstoneFile | TombstoneLocked | TombstoneArmed | SinkFile sink | InstallIdFile | StateFile

datatype io_step =
    Exists exists_call | IsDir
  | MkDir | OpenLock | SecureLock | TakeLock
  | OpenTombstone | ReadTombstone | CreateTombstone | SecureTombstone | WriteTombstone | SyncTombstone
  | RemoveTombstone
  | OpenAppend | SecureAppend | WriteAppend | SyncAppend
  | StatSink | StatSinkLocked | ReadSink | RewriteSink
  | TruncateOpen sink | TruncateSecure sink
  | RemoveInstallId | RemoveState
  | ReadInstallId | WriteInstallId | ReadState | WriteState

type_synonym faults = "io_step \<Rightarrow> nat option"

datatype io_error = IoError

type_synonym 'a io = "(io_error + 'a) \<times> tdir"

definition MAX_EVENTS :: nat where "MAX_EVENTS = 512"
definition MAX_BYTES :: nat where "MAX_BYTES = 256 * 1024"
definition MAX_LINE_BYTES :: nat where "MAX_LINE_BYTES = 4096"
definition MAX_TOMBSTONE_BYTES :: nat where "MAX_TOMBSTONE_BYTES = 128"
definition PROBE_BYTES :: nat where "PROBE_BYTES = 4096"

definition get_sink :: "sink \<Rightarrow> tdir \<Rightarrow> string option" where
  "get_sink s d = (case s of BufferSink \<Rightarrow> td_buffer d | DryrunSink \<Rightarrow> td_dryrun d)"

definition set_sink :: "sink \<Rightarrow> string option \<Rightarrow> tdir \<Rightarrow> tdir" where
  "set_sink s v d =
     (case s of BufferSink \<Rightarrow> d\<lparr>td_buffer := v\<rparr> | DryrunSink \<Rightarrow> d\<lparr>td_dryrun := v\<rparr>)"

text \<open>Whether \<open>disabled\<close> is there, and what a check of it answers.\<close>

definition tombstone_present :: "tdir \<Rightarrow> bool" where
  "tombstone_present d \<longleftrightarrow> td_tombstone d \<noteq> None"

definition tombstone_seen :: "faults \<Rightarrow> exists_call \<Rightarrow> tdir \<Rightarrow> bool" where
  "tombstone_seen f call d \<longleftrightarrow> td_tombstone d \<noteq> None \<and> f (Exists call) = None"

text \<open>Without a tombstone, a fault of its opening is one other than \<open>NotFound\<close>.\<close>

definition tombstone_generation :: "faults \<Rightarrow> tdir \<Rightarrow> io_error + string option" where
  "tombstone_generation f d =
     (if f OpenTombstone \<noteq> None then Inl IoError
      else (case td_tombstone d of
              None \<Rightarrow> Inr None
            | Some bytes \<Rightarrow>
                if f ReadTombstone \<noteq> None then Inl IoError
                else if length bytes > MAX_TOMBSTONE_BYTES then Inl IoError
                else Inr (Some bytes)))"

subsection \<open>The lock\<close>

definition ensure_dir :: "faults \<Rightarrow> tdir \<Rightarrow> unit io" where
  "ensure_dir f d =
     (if td_exists d \<and> f IsDir = None then (Inr (), d)
      else if f MkDir \<noteq> None then (Inl IoError, d)
      else (Inr (), d\<lparr>td_exists := True\<rparr>))"

definition open_lock :: "faults \<Rightarrow> tdir \<Rightarrow> unit io" where
  "open_lock f d =
     (case ensure_dir f d of
        (Inl e, d1) \<Rightarrow> (Inl e, d1)
      | (Inr _, d1) \<Rightarrow>
          if f OpenLock \<noteq> None then (Inl IoError, d1)
          else (let d2 = d1\<lparr>td_lock := True\<rparr> in
                if f SecureLock \<noteq> None then (Inl IoError, d2) else (Inr (), d2)))"

definition with_lock :: "faults \<Rightarrow> (tdir \<Rightarrow> 'a io) \<Rightarrow> tdir \<Rightarrow> 'a io" where
  "with_lock f operation d =
     (case open_lock f d of
        (Inl e, d1) \<Rightarrow> (Inl e, d1)
      | (Inr _, d1) \<Rightarrow> if f TakeLock \<noteq> None then (Inl IoError, d1) else operation d1)"

definition try_with_lock :: "faults \<Rightarrow> (tdir \<Rightarrow> 'a io) \<Rightarrow> tdir \<Rightarrow> 'a option io" where
  "try_with_lock f operation d =
     (case open_lock f d of
        (Inl e, d1) \<Rightarrow> (Inl e, d1)
      | (Inr _, d1) \<Rightarrow>
          if f TakeLock \<noteq> None then (Inr None, d1)
          else (case operation d1 of (res, d2) \<Rightarrow> (map_sum id Some res, d2)))"

subsection \<open>Appending\<close>

definition append_under_lock :: "faults \<Rightarrow> sink \<Rightarrow> string \<Rightarrow> tdir \<Rightarrow> bool io" where
  "append_under_lock f s buf d =
     (if tombstone_seen f TombstoneLocked d then (Inr False, d)
      else if f OpenAppend \<noteq> None then (Inl IoError, d)
      else (let old = (case get_sink s d of Some c \<Rightarrow> c | None \<Rightarrow> []);
                d1 = set_sink s (Some old) d
            in if f SecureAppend \<noteq> None then (Inl IoError, d1)
               else (case f WriteAppend of
                       Some n \<Rightarrow> (Inl IoError, set_sink s (Some (old @ take n buf)) d1)
                     | None \<Rightarrow>
                         (let d2 = set_sink s (Some (old @ buf)) d1 in
                          if f SyncAppend \<noteq> None then (Inl IoError, d2) else (Inr True, d2)))))"

definition byte_len :: "string list \<Rightarrow> nat" where
  "byte_len ls = sum_list (map (\<lambda>l. length l + 1) ls)"

fun drop_oldest :: "string list \<Rightarrow> string list" where
  "drop_oldest [] = []"
| "drop_oldest [l] = [l]"
| "drop_oldest (l # m # ls) =
     (if byte_len (l # m # ls) > MAX_BYTES then drop_oldest (m # ls) else l # m # ls)"

definition sink_lines :: "string \<Rightarrow> string list" where
  "sink_lines contents = filter (\<lambda>l. trim l \<noteq> []) (lines contents)"

definition ring_body :: "string list \<Rightarrow> string" where
  "ring_body kept = (let body = join [NL] kept in if body \<noteq> [] then body @ [NL] else body)"

definition ring_under_lock :: "faults \<Rightarrow> sink \<Rightarrow> tdir \<Rightarrow> unit io" where
  "ring_under_lock f s d =
     (if tombstone_seen f TombstoneLocked d then (Inr (), d)
      else (case get_sink s d of
              None \<Rightarrow> (Inr (), d)
            | Some contents \<Rightarrow>
                if f StatSinkLocked \<noteq> None then (Inr (), d)
                else if length contents < PROBE_BYTES then (Inr (), d)
                else if f ReadSink \<noteq> None \<or> \<not> utf8_valid contents then (Inl IoError, d)
                else (let ls = sink_lines contents in
                      if length ls \<le> MAX_EVENTS \<and> length contents \<le> MAX_BYTES then (Inr (), d)
                      else (let kept = drop_oldest (rev (take MAX_EVENTS (rev ls))) in
                            if f RewriteSink \<noteq> None then (Inl IoError, d)
                            else (Inr (), set_sink s (Some (ring_body kept)) d)))))"

definition enforce_ring :: "faults \<Rightarrow> sink \<Rightarrow> tdir \<Rightarrow> tdir" where
  "enforce_ring f s d =
     (case get_sink s d of
        None \<Rightarrow> d
      | Some contents \<Rightarrow>
          if f StatSink \<noteq> None \<or> length contents < PROBE_BYTES then d
          else snd (try_with_lock f (ring_under_lock f s) d))"

definition append_with_limit ::
    "faults \<Rightarrow> faults \<Rightarrow> sink \<Rightarrow> string \<Rightarrow> nat \<Rightarrow> tdir \<Rightarrow> unit option \<times> tdir" where
  "append_with_limit f f_ring s line limit d =
     (if line = [] \<or> length line + 1 > limit then (None, d)
      else (case try_with_lock f (append_under_lock f s (line @ [NL])) d of
              (Inr (Some True), d1) \<Rightarrow> (Some (), enforce_ring f_ring s d1)
            | (_, d1) \<Rightarrow> (None, d1)))"

definition append_line :: "faults \<Rightarrow> faults \<Rightarrow> sink \<Rightarrow> string \<Rightarrow> tdir \<Rightarrow> unit option \<times> tdir" where
  "append_line f f_ring s line d = append_with_limit f f_ring s line MAX_LINE_BYTES d"

definition append_locked :: "faults \<Rightarrow> faults \<Rightarrow> sink \<Rightarrow> string \<Rightarrow> tdir \<Rightarrow> unit option \<times> tdir" where
  "append_locked f f_ring s line d = append_with_limit f f_ring s line MAX_BYTES d"

subsection \<open>Draining\<close>

definition read_lines :: "faults \<Rightarrow> sink \<Rightarrow> tdir \<Rightarrow> string list" where
  "read_lines f s d =
     (case get_sink s d of
        None \<Rightarrow> []
      | Some contents \<Rightarrow>
          if f ReadSink \<noteq> None \<or> \<not> utf8_valid contents then [] else sink_lines contents)"

definition truncate_sink :: "faults \<Rightarrow> sink \<Rightarrow> tdir \<Rightarrow> unit io" where
  "truncate_sink f s d =
     (case get_sink s d of
        None \<Rightarrow> (Inr (), d)
      | Some _ \<Rightarrow>
          if f (Exists (SinkFile s)) \<noteq> None then (Inr (), d)
          else if f (TruncateOpen s) \<noteq> None then (Inl IoError, d)
          else (let d1 = set_sink s (Some []) d in
                if f (TruncateSecure s) \<noteq> None then (Inl IoError, d1) else (Inr (), d1)))"

definition drain_under_lock :: "faults \<Rightarrow> tdir \<Rightarrow> string list io" where
  "drain_under_lock f d =
     (if tombstone_seen f TombstoneLocked d then (Inr [], d)
      else (let ls = read_lines f BufferSink d in
            if ls = [] then (Inr [], d)
            else (case truncate_sink f BufferSink d of
                    (Inl e, d1) \<Rightarrow> (Inl e, d1)
                  | (Inr _, d1) \<Rightarrow> (Inr ls, d1))))"

definition drain :: "faults \<Rightarrow> tdir \<Rightarrow> string list \<times> tdir" where
  "drain f d =
     (if tombstone_seen f TombstoneFile d then ([], d)
      else (case try_with_lock f (drain_under_lock f) d of
              (Inr (Some ls), d1) \<Rightarrow> (ls, d1)
            | (_, d1) \<Rightarrow> ([], d1)))"

subsection \<open>Wipe and arm\<close>

definition write_tombstone :: "faults \<Rightarrow> string \<Rightarrow> tdir \<Rightarrow> unit io" where
  "write_tombstone f uuid d =
     (if f CreateTombstone \<noteq> None then (Inl IoError, d)
      else (let d1 = d\<lparr>td_tombstone := Some []\<rparr> in
            if f SecureTombstone \<noteq> None then (Inl IoError, d1)
            else (case f WriteTombstone of
                    Some n \<Rightarrow> (Inl IoError, d1\<lparr>td_tombstone := Some (take n uuid)\<rparr>)
                  | None \<Rightarrow>
                      (let d2 = d1\<lparr>td_tombstone := Some uuid\<rparr> in
                       if f SyncTombstone \<noteq> None then (Inl IoError, d2) else (Inr (), d2)))))"

definition remove_install_id :: "faults \<Rightarrow> tdir \<Rightarrow> unit io" where
  "remove_install_id f d =
     (if td_install_id d = None \<or> f (Exists InstallIdFile) \<noteq> None then (Inr (), d)
      else if f RemoveInstallId \<noteq> None then (Inl IoError, d)
      else (Inr (), d\<lparr>td_install_id := None\<rparr>))"

definition remove_state :: "faults \<Rightarrow> tdir \<Rightarrow> unit io" where
  "remove_state f d =
     (if td_state d = None \<or> f (Exists StateFile) \<noteq> None then (Inr (), d)
      else if f RemoveState \<noteq> None then (Inl IoError, d)
      else (Inr (), d\<lparr>td_state := None\<rparr>))"

text \<open>The part after the tombstone: every step runs, and the first failure is reported.\<close>

definition wipe_files :: "faults \<Rightarrow> tdir \<Rightarrow> unit io" where
  "wipe_files f d =
     (let (r1, d1) = truncate_sink f BufferSink d;
          (r2, d2) = truncate_sink f DryrunSink d1;
          (r3, d3) = remove_install_id f d2;
          (r4, d4) = remove_state f d3
      in (if is_ok r1 \<and> is_ok r2 \<and> is_ok r3 \<and> is_ok r4 then Inr () else Inl IoError, d4))"

definition wipe_under_lock :: "faults \<Rightarrow> string \<Rightarrow> tdir \<Rightarrow> unit io" where
  "wipe_under_lock f uuid d =
     (case tombstone_generation f d of
        Inr (Some _) \<Rightarrow> wipe_files f d
      | _ \<Rightarrow>
          (case write_tombstone f uuid d of
             (Inl e, d1) \<Rightarrow> (Inl e, d1)
           | (Inr _, d1) \<Rightarrow> wipe_files f d1))"

definition wipe :: "faults \<Rightarrow> string \<Rightarrow> tdir \<Rightarrow> unit io" where
  "wipe f uuid d = with_lock f (wipe_under_lock f uuid) d"

definition arm_under_lock :: "faults \<Rightarrow> string option \<Rightarrow> (tdir \<Rightarrow> bool) \<Rightarrow> tdir \<Rightarrow> unit io" where
  "arm_under_lock f observed permitted d =
     (case tombstone_generation f d of
        Inl e \<Rightarrow> (Inl e, d)
      | Inr current \<Rightarrow>
          if current \<noteq> observed then (Inl IoError, d)
          else if \<not> permitted d then (Inl IoError, d)
          else if \<not> tombstone_seen f TombstoneArmed d then truncate_sink f BufferSink d
          else if f RemoveTombstone \<noteq> None then (Inl IoError, d)
          else truncate_sink f BufferSink (d\<lparr>td_tombstone := None\<rparr>))"

definition arm :: "faults \<Rightarrow> string option \<Rightarrow> (tdir \<Rightarrow> bool) \<Rightarrow> tdir \<Rightarrow> unit io" where
  "arm f observed permitted d =
     (case ensure_dir f d of
        (Inl e, d1) \<Rightarrow> (Inl e, d1)
      | (Inr _, d1) \<Rightarrow> with_lock f (arm_under_lock f observed permitted) d1)"

section \<open>Correctness of the store\<close>

lemma get_set_sink [fs_simps]:
  "get_sink s (set_sink s v d) = v"
  "s \<noteq> t \<Longrightarrow> get_sink t (set_sink s v d) = get_sink t d"
  "td_tombstone (set_sink s v d) = td_tombstone d"
  "td_install_id (set_sink s v d) = td_install_id d"
  "td_state (set_sink s v d) = td_state d"
  "tombstone_present (set_sink s v d) = tombstone_present d"
  "set_sink s u (set_sink s v d) = set_sink s u d"
  "get_sink s d = v \<Longrightarrow> set_sink s v d = d"
  "td_exists (set_sink s v d) = td_exists d" "td_lock (set_sink s v d) = td_lock d"
  by (cases s; cases t; simp add: get_sink_def set_sink_def tombstone_present_def; fail)+

text \<open>What an opt-out has to remove: the two sinks, the install id and the state.\<close>

definition collected :: "tdir \<Rightarrow> string option list" where
  "collected d = [td_buffer d, td_dryrun d, td_install_id d, td_state d]"

definition no_trace :: "tdir \<Rightarrow> bool" where
  "no_trace d \<longleftrightarrow>
     td_buffer d \<in> {None, Some []} \<and> td_dryrun d \<in> {None, Some []} \<and>
     td_install_id d = None \<and> td_state d = None"

definition same_files :: "tdir \<Rightarrow> tdir \<Rightarrow> bool" where
  "same_files d d' \<longleftrightarrow> collected d' = collected d \<and> td_tombstone d' = td_tombstone d"

lemma same_files_refl [simp]: "same_files d d"
  by (simp add: same_files_def)

lemma same_files_trans: "same_files d d1 \<Longrightarrow> same_files d1 d2 \<Longrightarrow> same_files d d2"
  by (simp add: same_files_def)

lemma same_filesD:
  assumes "same_files d d'"
  shows "get_sink s d' = get_sink s d" "td_tombstone d' = td_tombstone d"
    "tombstone_present d' = tombstone_present d" "no_trace d' = no_trace d"
    "td_install_id d' = td_install_id d" "td_state d' = td_state d"
    "td_buffer d' = td_buffer d" "td_dryrun d' = td_dryrun d"
  using assms by (auto simp: same_files_def collected_def get_sink_def tombstone_present_def
      no_trace_def split: sink.splits)

lemma ensure_dir_same: "same_files d (snd (ensure_dir f d))"
  by (simp add: ensure_dir_def same_files_def collected_def)

lemma open_lock_same: "same_files d (snd (open_lock f d))"
  by (auto simp: open_lock_def ensure_dir_def same_files_def collected_def Let_def)

text \<open>Every operation under the lock sees the files the caller had.\<close>

lemma with_lock_cases:
  obtains (failed) d1 where "with_lock f operation d = (Inl IoError, d1)" "same_files d d1"
  | (locked) d1 where "with_lock f operation d = operation d1" "same_files d d1"
proof -
  obtain r d1 where r: "open_lock f d = (r, d1)" and same: "same_files d d1"
    using open_lock_same [of d f] by (cases "open_lock f d") auto
  show thesis
  proof (cases r)
    case (Inl e)
    then show thesis using that(1) [of d1] same r by (cases e) (simp add: with_lock_def)
  next
    case (Inr u)
    then show thesis
      using that same r by (cases "f TakeLock = None") (auto simp: with_lock_def)
  qed
qed

lemma try_with_lock_cases:
  obtains (failed) r d1 where "try_with_lock f operation d = (r, d1)" "same_files d d1"
      "r = Inl IoError \<or> r = Inr None"
  | (locked) d1 where
      "try_with_lock f operation d = (map_sum id Some (fst (operation d1)), snd (operation d1))"
      "same_files d d1"
proof -
  obtain r d1 where r: "open_lock f d = (r, d1)" and same: "same_files d d1"
    using open_lock_same [of d f] by (cases "open_lock f d") auto
  show thesis
  proof (cases r)
    case (Inl e)
    then show thesis using that(1) [of _ d1] same r by (cases e) (simp add: try_with_lock_def)
  next
    case (Inr u)
    then show thesis
      using that(1) [of "Inr None" d1] that(2) [of d1] same r
      by (cases "f TakeLock = None") (simp_all add: try_with_lock_def split_beta)
  qed
qed

text \<open>Every check whether a file exists is answered.\<close>

definition exists_answers :: "faults \<Rightarrow> bool" where
  "exists_answers f \<longleftrightarrow> (\<forall>call. f (Exists call) = None)"

lemma tombstone_seen_answers [simp]: "exists_answers f \<Longrightarrow> tombstone_seen f call d = tombstone_present d"
  by (simp add: tombstone_seen_def tombstone_present_def exists_answers_def)

lemma tombstone_seen_present: "tombstone_seen f call d \<Longrightarrow> tombstone_present d"
  by (simp add: tombstone_seen_def tombstone_present_def)

lemma tombstone_seen_same: "same_files d d' \<Longrightarrow> tombstone_seen f call d' = tombstone_seen f call d"
  by (simp add: tombstone_seen_def same_files_def)

text \<open>Without faults the operation runs on the directory with its lock file in place.\<close>

definition no_faults :: faults where
  "no_faults _ = None"

lemma no_faults_exists [simp]: "exists_answers no_faults"
  by (simp add: exists_answers_def no_faults_def)

definition locked_dir :: "tdir \<Rightarrow> tdir" where
  "locked_dir d = d\<lparr>td_exists := True, td_lock := True\<rparr>"

lemma locked_dir_same [simp]: "same_files d (locked_dir d)"
  by (simp add: locked_dir_def same_files_def collected_def)

lemma open_lock_no_faults [fs_simps]: "open_lock no_faults d = (Inr (), locked_dir d)"
  by (cases "td_exists d")
    (simp_all add: open_lock_def ensure_dir_def no_faults_def locked_dir_def)

lemma with_lock_no_faults [fs_simps]: "with_lock no_faults operation d = operation (locked_dir d)"
  by (simp add: with_lock_def fs_simps) (simp add: no_faults_def)

lemma try_with_lock_no_faults [fs_simps]:
  "try_with_lock no_faults operation d =
     (map_sum id Some (fst (operation (locked_dir d))), snd (operation (locked_dir d)))"
  by (simp add: try_with_lock_def fs_simps split_beta) (simp add: no_faults_def)

subsection \<open>The wipe\<close>

lemma truncate_sink_spec:
  assumes "truncate_sink f s d = (r, d')"
  shows "td_tombstone d' = td_tombstone d" "td_install_id d' = td_install_id d"
    "td_state d' = td_state d" "s \<noteq> t \<Longrightarrow> get_sink t d' = get_sink t d"
    "is_ok r \<Longrightarrow> exists_answers f \<Longrightarrow> get_sink s d' \<in> {None, Some []}"
  using assms by (auto simp: truncate_sink_def exists_answers_def fs_simps Let_def split: option.splits if_splits)

lemma remove_spec:
  assumes "remove_install_id f d = (r, d')"
  shows "td_tombstone d' = td_tombstone d" "td_state d' = td_state d" "get_sink s d' = get_sink s d"
    "is_ok r \<Longrightarrow> exists_answers f \<Longrightarrow> td_install_id d' = None"
  using assms by (auto simp: exists_answers_def remove_install_id_def get_sink_def split: if_splits sink.splits)

lemma remove_state_spec:
  assumes "remove_state f d = (r, d')"
  shows "td_tombstone d' = td_tombstone d" "td_install_id d' = td_install_id d"
    "get_sink s d' = get_sink s d" "is_ok r \<Longrightarrow> exists_answers f \<Longrightarrow> td_state d' = None"
  using assms by (auto simp: exists_answers_def remove_state_def get_sink_def split: if_splits sink.splits)

lemma no_trace_sinks:
  "no_trace d \<longleftrightarrow> get_sink BufferSink d \<in> {None, Some []} \<and> get_sink DryrunSink d \<in> {None, Some []}
     \<and> td_install_id d = None \<and> td_state d = None"
  by (simp add: no_trace_def get_sink_def)

lemma wipe_files_spec:
  assumes "wipe_files f d = (r, d')"
  shows "td_tombstone d' = td_tombstone d" "is_ok r \<Longrightarrow> exists_answers f \<Longrightarrow> no_trace d'"
proof -
  obtain r1 d1 r2 d2 r3 d3 r4 where
    1: "truncate_sink f BufferSink d = (r1, d1)" and 2: "truncate_sink f DryrunSink d1 = (r2, d2)"
    and 3: "remove_install_id f d2 = (r3, d3)" and 4: "remove_state f d3 = (r4, d')"
    and r: "r = (if is_ok r1 \<and> is_ok r2 \<and> is_ok r3 \<and> is_ok r4 then Inr () else Inl IoError)"
    using assms by (auto simp: wipe_files_def Let_def split: prod.splits)
  note steps = truncate_sink_spec [OF 1] truncate_sink_spec [OF 2] remove_spec [OF 3]
    remove_state_spec [OF 4]
  show "td_tombstone d' = td_tombstone d" by (simp add: steps)
  show "no_trace d'" if "is_ok r" "exists_answers f"
  proof -
    have "is_ok r1" "is_ok r2" "is_ok r3" "is_ok r4" using that r by (auto split: if_splits)
    then show ?thesis
      using that(2) steps(5) steps(10) by (auto simp: no_trace_sinks steps)
  qed
qed

lemma write_tombstone_spec:
  assumes "write_tombstone f uuid d = (r, d')"
  shows "collected d' = collected d"
    "td_tombstone d' = td_tombstone d \<or> (\<exists>n. td_tombstone d' = Some (take n uuid))"
    "is_ok r \<Longrightarrow> td_tombstone d' = Some uuid"
  using assms
  by (auto simp: write_tombstone_def collected_def Let_def split: option.splits if_splits)
    (metis take0 take_all order_refl)+

text \<open>
  The readable generation of the tombstone stays; a tombstone that cannot be read is replaced.
\<close>

definition kept_generation :: "faults \<Rightarrow> tdir \<Rightarrow> string option" where
  "kept_generation f d = (case tombstone_generation f d of Inr g \<Rightarrow> g | Inl _ \<Rightarrow> None)"

lemma tombstone_generation_Some:
  "tombstone_generation f d = Inr (Some g) \<Longrightarrow> td_tombstone d = Some g"
  by (auto simp: tombstone_generation_def split: option.splits if_splits)

lemma tombstone_generation_None:
  "tombstone_generation f d = Inr None \<longleftrightarrow> td_tombstone d = None \<and> f OpenTombstone = None"
  by (auto simp: tombstone_generation_def split: option.splits if_splits)

lemma tombstone_generation_same:
  "same_files d d' \<Longrightarrow> tombstone_generation f d' = tombstone_generation f d"
  by (simp add: tombstone_generation_def same_filesD)

lemma wipe_under_lock_spec:
  assumes "wipe_under_lock f uuid d = (r, d')"
  shows "is_ok r \<Longrightarrow> exists_answers f \<Longrightarrow> no_trace d'"
    "is_ok r \<Longrightarrow> td_tombstone d' = Some (case kept_generation f d of Some g \<Rightarrow> g | None \<Rightarrow> uuid)"
    "td_tombstone d' = td_tombstone d \<or> (\<exists>n. td_tombstone d' = Some (take n uuid))"
    "td_tombstone d' = None \<Longrightarrow> collected d' = collected d"
proof -
  consider (kept) g where "tombstone_generation f d = Inr (Some g)" "wipe_files f d = (r, d')"
    | (failed) e where "kept_generation f d = None" "write_tombstone f uuid d = (Inl e, d')" "r = Inl e"
    | (fresh) d1 where "kept_generation f d = None" "write_tombstone f uuid d = (Inr (), d1)"
        "wipe_files f d1 = (r, d')"
    using assms
    by (auto simp: wipe_under_lock_def kept_generation_def split: sum.splits option.splits prod.splits)
  then have "(is_ok r \<longrightarrow> exists_answers f \<longrightarrow> no_trace d') \<and>
    (is_ok r \<longrightarrow> td_tombstone d' = Some (case kept_generation f d of Some g \<Rightarrow> g | None \<Rightarrow> uuid)) \<and>
    (td_tombstone d' = td_tombstone d \<or> (\<exists>n. td_tombstone d' = Some (take n uuid))) \<and>
    (td_tombstone d' = None \<longrightarrow> collected d' = collected d)"
  proof cases
    case kept
    then show ?thesis
      using wipe_files_spec [OF kept(2)] tombstone_generation_Some [OF kept(1)]
      by (simp add: kept_generation_def)
  next
    case failed
    then show ?thesis using write_tombstone_spec [OF failed(2)] by simp
  next
    case fresh
    then show ?thesis
      using wipe_files_spec [OF fresh(3)] write_tombstone_spec [OF fresh(2)] by auto
  qed
  then show "is_ok r \<Longrightarrow> exists_answers f \<Longrightarrow> no_trace d'"
    "is_ok r \<Longrightarrow> td_tombstone d' = Some (case kept_generation f d of Some g \<Rightarrow> g | None \<Rightarrow> uuid)"
    "td_tombstone d' = td_tombstone d \<or> (\<exists>n. td_tombstone d' = Some (take n uuid))"
    "td_tombstone d' = None \<Longrightarrow> collected d' = collected d"
    by blast+
qed


text \<open>A directory in use, for the examples.\<close>

definition sample_dir :: tdir where
  "sample_dir = \<lparr>td_exists = True, td_lock = True, td_buffer = Some ''e'', td_dryrun = None,
     td_tombstone = None, td_install_id = Some ''i'', td_state = Some ''s''\<rparr>"


text \<open>A failed check leaves the file in place, and the wipe reports success.\<close>

lemma failed_check_keeps_trace:
  "wipe (no_faults(Exists InstallIdFile := Some 0)) ''u'' sample_dir =
     (Inr (), sample_dir\<lparr>td_tombstone := Some ''u'', td_buffer := Some [], td_state := None\<rparr>)"
  by code_simp

text \<open>A failed check of the tombstone lets an append through.\<close>

lemma failed_check_appends:
  "append_under_lock (no_faults(Exists TombstoneLocked := Some 0)) BufferSink ''x''
     (sample_dir\<lparr>td_tombstone := Some ''u''\<rparr>)
   = (Inr True, sample_dir\<lparr>td_tombstone := Some ''u'', td_buffer := Some ''ex''\<rparr>)"
  by code_simp

subsection \<open>The ring\<close>

text \<open>Lines that survive a round trip through the file: no line break, not blank.\<close>

definition plain_line :: "string \<Rightarrow> bool" where
  "plain_line l \<longleftrightarrow> NL \<notin> set l \<and> CR \<notin> set l \<and> trim l \<noteq> [] \<and> utf8_valid l"

definition buffer_of :: "string list \<Rightarrow> string" where
  "buffer_of ls = concat (map (\<lambda>l. l @ [NL]) ls)"

lemma strip_cr_plain: "CR \<notin> set l \<Longrightarrow> strip_cr l = l"
  by (metis last_in_set strip_cr_def)

lemma lines_buffer_of: "list_all plain_line ls \<Longrightarrow> lines (buffer_of ls) = ls"
  by (induction ls) (simp_all add: buffer_of_def lines_line plain_line_def strip_cr_plain)

lemma sink_lines_buffer_of: "list_all plain_line ls \<Longrightarrow> sink_lines (buffer_of ls) = ls"
  by (auto simp: sink_lines_def lines_buffer_of list_all_iff plain_line_def intro: filter_True)

lemma length_buffer_of: "length (buffer_of ls) = byte_len ls"
  by (induction ls) (simp_all add: buffer_of_def byte_len_def)

lemma plain_line_not_Nil: "plain_line l \<Longrightarrow> l \<noteq> []"
  by (auto simp: plain_line_def)

lemma join_NL_buffer_of: "ls \<noteq> [] \<Longrightarrow> join [NL] ls @ [NL] = buffer_of ls"
  by (induction "[NL]" ls rule: join.induct) (simp_all add: buffer_of_def)

lemma ring_body_buffer_of: "list_all plain_line ls \<Longrightarrow> ring_body ls = buffer_of ls"
proof (cases ls)
  case (Cons l ls')
  moreover assume "list_all plain_line ls"
  ultimately have "join [NL] ls \<noteq> []" using plain_line_not_Nil by (cases ls') auto
  then show ?thesis using Cons join_NL_buffer_of [of ls] by (simp add: ring_body_def Let_def)
qed (simp add: ring_body_def buffer_of_def)

lemma utf8_valid_append: "utf8_valid a \<Longrightarrow> utf8_valid b \<Longrightarrow> utf8_valid (a @ b)"
proof (induction a rule: length_induct)
  case (1 a)
  have IH: "utf8_valid s \<Longrightarrow> length s < length a \<Longrightarrow> utf8_valid (s @ b)" for s
    using 1 by blast
  show ?case
  proof (cases a)
    case (Cons x s)
    note unfolded = utf8_valid.simps(2) [of x s] utf8_valid.simps(2) [of x "s @ b"]
    note valid = 1(2) [unfolded Cons unfolded(1)]
    show ?thesis
    proof (cases "utf8_between 0 0x7F x")
      case True
      then show ?thesis using valid IH [of s] Cons by (simp del: utf8_valid.simps add: unfolded(2))
    next
      case ascii: False
      obtain y s2 where s: "s = y # s2" using valid ascii by (cases s) simp_all
      show ?thesis
      proof (cases "utf8_between 0xC2 0xDF x")
        case True
        then show ?thesis using valid IH [of s2] Cons ascii s
          by (simp del: utf8_valid.simps add: utf8_valid.simps(2) [of x "y # s2 @ b"])
      next
        case two: False
        obtain z s3 where s2: "s2 = z # s3" using valid ascii s two by (cases s2) simp_all
        note last = utf8_valid.simps(2) [of x "y # z # s3 @ b"]
        show ?thesis
        proof (cases "utf8_between 0xE1 0xEF x \<or> x = CHR 0xE0 \<or> x = CHR 0xED")
          case True
          then show ?thesis using valid ascii s two s2 IH [of s3] Cons
            by (auto simp del: utf8_valid.simps(2) simp: last split: if_splits)
        next
          case False
          then obtain w s4 where "s3 = w # s4" using valid ascii s two s2 by (cases s3) simp_all
          then show ?thesis using False valid ascii s two s2 IH [of s4] Cons
            by (simp del: utf8_valid.simps(2) add: utf8_valid.simps(2) [of x "y # z # w # s4 @ b"])
        qed
      qed
    qed
  qed (use 1 in simp)
qed

lemma utf8_valid_buffer_of: "list_all plain_line ls \<Longrightarrow> utf8_valid (buffer_of ls)"
proof (induction ls)
  case (Cons l ls)
  moreover have "utf8_valid [NL]" by code_simp
  ultimately show ?case
    by (auto simp: buffer_of_def plain_line_def intro!: utf8_valid_append)
qed (simp add: buffer_of_def)

lemma drop_oldest_suffix: "suffix (drop_oldest ls) ls"
  by (induction ls rule: drop_oldest.induct) (auto intro: suffix_ConsI)

lemma drop_oldest_bound:
  "byte_len (drop_oldest ls) \<le> MAX_BYTES \<or> length (drop_oldest ls) = 1"
  by (induction ls rule: drop_oldest.induct) (auto simp: byte_len_def)

lemma drop_oldest_last: "ls \<noteq> [] \<Longrightarrow> drop_oldest ls \<noteq> [] \<and> last (drop_oldest ls) = last ls"
  by (induction ls rule: drop_oldest.induct) auto

lemma drop_oldest_id: "byte_len ls \<le> MAX_BYTES \<Longrightarrow> drop_oldest ls = ls"
  by (cases ls rule: drop_oldest.cases) auto

text \<open>The lines a compaction keeps.\<close>

definition newest :: "string list \<Rightarrow> string list" where
  "newest ls = drop_oldest (rev (take MAX_EVENTS (rev ls)))"

lemma newest_suffix: "suffix (newest ls) ls"
  unfolding newest_def by (rule suffix_order.trans [OF drop_oldest_suffix take_take_rev_suffix])

lemma length_newest: "length (newest ls) \<le> MAX_EVENTS"
  using suffix_length_le [OF drop_oldest_suffix, of "rev (take MAX_EVENTS (rev ls))"]
  by (simp add: newest_def)

lemma newest_id: "length ls \<le> MAX_EVENTS \<Longrightarrow> byte_len ls \<le> MAX_BYTES \<Longrightarrow> newest ls = ls"
  by (simp add: newest_def drop_oldest_id)

lemma newest_not_Nil: "ls \<noteq> [] \<Longrightarrow> newest ls \<noteq> [] \<and> last (newest ls) = last ls"
  using drop_oldest_last [of "rev (take MAX_EVENTS (rev ls))"]
  by (cases ls rule: rev_cases) (auto simp: newest_def MAX_EVENTS_def)

lemma newest_bytes: "byte_len (newest ls) \<le> MAX_BYTES \<or> length (newest ls) = 1"
  unfolding newest_def by (rule drop_oldest_bound)

lemma ring_under_lock_no_faults:
  "ring_under_lock no_faults s d =
     (if tombstone_present d then (Inr (), d)
      else (case get_sink s d of
              None \<Rightarrow> (Inr (), d)
            | Some c \<Rightarrow>
                if length c < PROBE_BYTES then (Inr (), d)
                else if \<not> utf8_valid c then (Inl IoError, d)
                else if length (sink_lines c) \<le> MAX_EVENTS \<and> length c \<le> MAX_BYTES then (Inr (), d)
                else (Inr (), set_sink s (Some (ring_body (newest (sink_lines c)))) d)))"
  by (cases "get_sink s d") (simp_all add: ring_under_lock_def no_faults_def newest_def Let_def)

lemma list_all_suffix: "suffix xs ys \<Longrightarrow> list_all P ys \<Longrightarrow> list_all P xs"
  by (auto simp: suffix_def)

lemma enforce_ring_buffer_of:
  assumes "list_all plain_line ls" "get_sink s d = Some (buffer_of ls)" "\<not> tombstone_present d"
  obtains d' where "enforce_ring no_faults s d = d'"
    "get_sink s d' = Some (buffer_of (if length (buffer_of ls) < PROBE_BYTES then ls else newest ls))"
    "same_files (set_sink s None d) (set_sink s None d')"
proof -
  have same: "get_sink s (locked_dir d) = Some (buffer_of ls)" "\<not> tombstone_present (locked_dir d)"
    using assms same_filesD [OF locked_dir_same] by simp_all
  have valid: "utf8_valid (buffer_of ls)" by (rule utf8_valid_buffer_of [OF assms(1)])
  have body: "ring_body (newest ls) = buffer_of (newest ls)"
    by (rule ring_body_buffer_of [OF list_all_suffix [OF newest_suffix assms(1)]])
  have small: "newest ls = ls" if "length ls \<le> MAX_EVENTS" "length (buffer_of ls) \<le> MAX_BYTES"
    using that by (simp add: newest_id length_buffer_of)
  have set_same: "same_files (set_sink s None d) (set_sink s None (set_sink s v (locked_dir d)))"
    "same_files (set_sink s None d) (set_sink s None (locked_dir d))" for v
    by (cases s; simp add: same_files_def collected_def set_sink_def locked_dir_def)+
  have "get_sink s (enforce_ring no_faults s d) =
      Some (buffer_of (if length (buffer_of ls) < PROBE_BYTES then ls else newest ls)) \<and>
    same_files (set_sink s None d) (set_sink s None (enforce_ring no_faults s d))"
    using same valid small set_same assms(2)
    by (auto simp: enforce_ring_def no_faults_def [of StatSink] try_with_lock_no_faults
        ring_under_lock_no_faults sink_lines_buffer_of [OF assms(1)] body fs_simps)
  then show thesis using that by blast
qed

subsection \<open>Appending and draining\<close>

lemma append_under_lock_no_faults:
  "append_under_lock no_faults s buf d =
     (if tombstone_present d then (Inr False, d)
      else (Inr True, set_sink s (Some ((case get_sink s d of Some c \<Rightarrow> c | None \<Rightarrow> []) @ buf)) d))"
  by (simp add: append_under_lock_def no_faults_def fs_simps Let_def)

text \<open>The buffer holds these lines and collection is on.\<close>

definition holds :: "string list \<Rightarrow> tdir \<Rightarrow> bool" where
  "holds ls d \<longleftrightarrow> \<not> tombstone_present d \<and> list_all plain_line ls \<and>
     (case td_buffer d of Some c \<Rightarrow> c | None \<Rightarrow> []) = buffer_of ls"

lemma append_line_holds:
  assumes "holds ls d" "plain_line l" "length l + 1 \<le> MAX_LINE_BYTES"
  obtains ls' where "fst (append_line no_faults no_faults BufferSink l d) = Some ()"
    "holds ls' (snd (append_line no_faults no_faults BufferSink l d))"
    "ls' = (if byte_len (ls @ [l]) < PROBE_BYTES then ls @ [l] else newest (ls @ [l]))"
proof -
  let ?d = "set_sink BufferSink (Some (buffer_of (ls @ [l]))) (locked_dir d)"
  have lock: "\<not> tombstone_present (locked_dir d)" "td_buffer (locked_dir d) = td_buffer d"
    using assms(1) same_filesD(3,7) [OF locked_dir_same] by (simp_all add: holds_def)
  have wrote: "try_with_lock no_faults (append_under_lock no_faults BufferSink (l @ [NL])) d =
      (Inr (Some True), ?d)"
    using assms(1) lock
    by (simp add: fs_simps append_under_lock_no_faults get_sink_def holds_def buffer_of_def)
  have plain: "list_all plain_line (ls @ [l])" using assms by (simp add: holds_def)
  obtain d' where d': "enforce_ring no_faults BufferSink ?d = d'"
    and sink: "get_sink BufferSink d' = Some (buffer_of
        (if length (buffer_of (ls @ [l])) < PROBE_BYTES then ls @ [l] else newest (ls @ [l])))"
    and same: "same_files (set_sink BufferSink None ?d) (set_sink BufferSink None d')"
    using enforce_ring_buffer_of [OF plain, of BufferSink ?d] lock by (auto simp: fs_simps)
  let ?ls = "if length (buffer_of (ls @ [l])) < PROBE_BYTES then ls @ [l] else newest (ls @ [l])"
  have "append_line no_faults no_faults BufferSink l d = (Some (), d')"
    using assms(2,3) plain_line_not_Nil wrote d'
    by (auto simp: append_line_def append_with_limit_def)
  moreover have "\<not> tombstone_present d'"
    using same_filesD(3) [OF same] lock by (simp add: fs_simps)
  moreover have "list_all plain_line ?ls" using list_all_suffix [OF newest_suffix plain] plain by simp
  ultimately show thesis using that [of ?ls] sink
    by (simp add: holds_def get_sink_def length_buffer_of)
qed

fun append_all :: "string list \<Rightarrow> tdir \<Rightarrow> tdir" where
  "append_all [] d = d"
| "append_all (l # ls) d = append_all ls (snd (append_line no_faults no_faults BufferSink l d))"

text \<open>
  The size policy. Events are never shorter than eight bytes, which is what lets an append skip
  the count of a sink below \<open>PROBE_BYTES\<close>.
\<close>

definition within_ring :: "string list \<Rightarrow> bool" where
  "within_ring ls \<longleftrightarrow> byte_len ls \<le> MAX_BYTES \<and> length ls \<le> MAX_EVENTS"

lemma byte_len_lower: "list_all (\<lambda>l. 8 \<le> length l) ls \<Longrightarrow> 9 * length ls \<le> byte_len ls"
  by (induction ls) (simp_all add: byte_len_def)

lemma within_ring_step:
  assumes "list_all (\<lambda>l. 8 \<le> length l) (ls @ [l])"
    "list_all (\<lambda>l. length l + 1 \<le> MAX_LINE_BYTES) (ls @ [l])"
  shows "within_ring (if byte_len (ls @ [l]) < PROBE_BYTES then ls @ [l] else newest (ls @ [l]))"
proof (cases "byte_len (ls @ [l]) < PROBE_BYTES")
  case True
  then show ?thesis using byte_len_lower [OF assms(1)]
    by (simp add: within_ring_def PROBE_BYTES_def MAX_BYTES_def MAX_EVENTS_def)
next
  case False
  have "byte_len (newest (ls @ [l])) \<le> MAX_BYTES"
  proof (cases "length (newest (ls @ [l])) = 1")
    case True
    then obtain x where "newest (ls @ [l]) = [x]" by (auto simp: length_Suc_conv)
    then show ?thesis using list_all_suffix [OF newest_suffix assms(2)]
      by (simp add: byte_len_def MAX_BYTES_def MAX_LINE_BYTES_def)
  qed (use newest_bytes in blast)
  then show ?thesis using False length_newest by (simp add: within_ring_def)
qed

lemma suffix_append_right: "suffix xs ys \<Longrightarrow> suffix (xs @ zs) (ys @ zs)"
  by (auto simp: suffix_def)

definition event_line :: "string \<Rightarrow> bool" where
  "event_line l \<longleftrightarrow> plain_line l \<and> 8 \<le> length l \<and> length l + 1 \<le> MAX_LINE_BYTES"

lemma event_lines:
  "list_all event_line ls \<longleftrightarrow> list_all plain_line ls \<and> list_all (\<lambda>l. 8 \<le> length l) ls \<and>
     list_all (\<lambda>l. length l + 1 \<le> MAX_LINE_BYTES) ls"
  by (auto simp: list_all_iff event_line_def)

lemma append_all_holds:
  assumes "holds old d" "within_ring old" "list_all event_line (old @ ls)"
  obtains ls' where "holds ls' (append_all ls d)" "suffix ls' (old @ ls)" "within_ring ls'"
    "within_ring (old @ ls) \<Longrightarrow> ls' = old @ ls"
    "old @ ls \<noteq> [] \<Longrightarrow> ls' \<noteq> [] \<and> last ls' = last (old @ ls)"
  using assms
proof (induction ls arbitrary: old d thesis)
  case Nil
  show ?case by (rule Nil(1) [of old]) (use Nil in auto)
next
  case (Cons l ls)
  define mid where "mid = (if byte_len (old @ [l]) < PROBE_BYTES then old @ [l] else newest (old @ [l]))"
  have mid: "holds mid (snd (append_line no_faults no_faults BufferSink l d))"
  proof -
    have l: "plain_line l" "length l + 1 \<le> MAX_LINE_BYTES" using Cons(5) by (simp_all add: event_line_def)
    show ?thesis by (rule append_line_holds [OF Cons(3) l]) (simp only: mid_def)
  qed
  have ring: "within_ring mid"
    unfolding mid_def by (rule within_ring_step) (use Cons(5) in \<open>auto simp: list_all_iff event_line_def\<close>)
  have suf: "suffix mid (old @ [l])" unfolding mid_def by (cases "byte_len (old @ [l]) < PROBE_BYTES") (simp_all add: newest_suffix del: suffix_snoc)
  have events: "list_all event_line (mid @ ls)"
    using Cons(5) list_all_suffix [OF suf, of event_line] by simp
  obtain ls' where ls': "holds ls' (append_all ls (snd (append_line no_faults no_faults BufferSink l d)))"
    "suffix ls' (mid @ ls)" "within_ring ls'" "within_ring (mid @ ls) \<Longrightarrow> ls' = mid @ ls"
    "mid @ ls \<noteq> [] \<Longrightarrow> ls' \<noteq> [] \<and> last ls' = last (mid @ ls)"
    using Cons(1) [OF _ mid ring events] by blast
  have nonempty: "mid \<noteq> [] \<and> last mid = l" using newest_not_Nil [of "old @ [l]"] by (auto simp: mid_def)
  show ?case
  proof (rule Cons(2) [of ls'])
    show "suffix ls' (old @ l # ls)"
      using suffix_order.trans [OF ls'(2) suffix_append_right [OF suf]] by simp
    show "ls' = old @ l # ls" if "within_ring (old @ l # ls)"
    proof -
      have "mid = old @ [l]"
        using that newest_id [of "old @ [l]"] by (auto simp: mid_def byte_len_def within_ring_def)
      then show ?thesis using ls'(4) that by simp
    qed
    show "ls' \<noteq> [] \<and> last ls' = last (old @ l # ls)" using ls'(5) nonempty by (cases ls) auto
  qed (use ls' in simp_all)
qed

lemma drain_holds:
  assumes "holds ls d"
  shows "fst (drain no_faults d) = ls" "holds [] (snd (drain no_faults d))"
proof -
  have lock: "\<not> tombstone_present (locked_dir d)" "td_buffer (locked_dir d) = td_buffer d"
    using assms same_filesD(3,7) [OF locked_dir_same] by (simp_all add: holds_def)
  have plain: "list_all plain_line ls" using assms by (simp add: holds_def)
  have "read_lines no_faults BufferSink (locked_dir d) = ls"
    using assms lock utf8_valid_buffer_of [OF plain] sink_lines_buffer_of [OF plain]
    by (auto simp: read_lines_def get_sink_def no_faults_def holds_def sink_lines_def
        split: option.splits)
  then have "drain_under_lock no_faults (locked_dir d) =
      (Inr ls, if ls = [] then locked_dir d else set_sink BufferSink (Some []) (locked_dir d))"
    using assms lock
    by (cases "td_buffer d") (auto simp: drain_under_lock_def truncate_sink_def no_faults_def
        get_sink_def holds_def buffer_of_def Let_def)
  then have "drain no_faults d =
      (ls, if ls = [] then locked_dir d else set_sink BufferSink (Some []) (locked_dir d))"
    using assms by (simp add: drain_def try_with_lock_no_faults holds_def)
  then show "fst (drain no_faults d) = ls" "holds [] (snd (drain no_faults d))"
    using assms lock
    by (auto simp: holds_def fs_simps) (auto simp: set_sink_def buffer_of_def)
qed

text \<open>When every system call succeeds, a drain after any series
  of appends to an empty buffer returns a suffix of the appended lines that holds the last one,
  within 512 lines and 256 KiB, all of them when they fit, and a second drain returns nothing.\<close>

lemma drain_returns_newest:
  assumes "holds [] d" "list_all event_line ls"
  shows "let (drained, d') = drain no_faults (append_all ls d) in
           suffix drained ls \<and> within_ring drained \<and> (within_ring ls \<longrightarrow> drained = ls) \<and>
           (ls \<noteq> [] \<longrightarrow> drained \<noteq> [] \<and> last drained = last ls) \<and>
           fst (drain no_faults d') = []"
proof -
  obtain ls' where ls': "holds ls' (append_all ls d)" "suffix ls' ls" "within_ring ls'"
    "within_ring ls \<Longrightarrow> ls' = ls" "ls \<noteq> [] \<Longrightarrow> ls' \<noteq> [] \<and> last ls' = last ls"
    by (rule append_all_holds [OF assms(1), of ls]) (simp_all add: assms(2) within_ring_def byte_len_def)
  then show ?thesis using drain_holds [OF ls'(1)] drain_holds(1) [of "[]"] by (simp add: split_beta)
qed

lemma drain_returns_newest_example:
  "fst (drain no_faults (append_all [''aaaaaaaa'', ''bbbbbbbb''] (sample_dir\<lparr>td_buffer := None\<rparr>))) =
     [''aaaaaaaa'', ''bbbbbbbb'']"
proof -
  have "holds [] (sample_dir\<lparr>td_buffer := None\<rparr>)" by code_simp
  moreover have "list_all event_line [''aaaaaaaa'', ''bbbbbbbb'']" by code_simp
  moreover have "within_ring [''aaaaaaaa'', ''bbbbbbbb'']"
    by (simp add: within_ring_def byte_len_def MAX_BYTES_def MAX_EVENTS_def)
  ultimately show ?thesis
    using drain_returns_newest [of "sample_dir\<lparr>td_buffer := None\<rparr>" "[''aaaaaaaa'', ''bbbbbbbb'']"]
    by (simp add: split_beta)
qed

subsection \<open>The tombstone as a gate\<close>

text \<open>
  What the recording and delivering side promises to the opt-out: while the tombstone is there,
  the operation changes none of the files. \<open>gated_section\<close> is the form the code has, a body
  that checks the tombstone and runs under the non-blocking lock.
\<close>

locale gated =
  fixes run :: "tdir \<Rightarrow> 'a \<times> tdir" and answered :: bool
  assumes gate: "answered \<Longrightarrow> tombstone_present d \<Longrightarrow> same_files d (snd (run d))"
begin

lemma stays_off: "answered \<Longrightarrow> tombstone_present d \<Longrightarrow> tombstone_present (snd (run d))"
  using gate [of d] same_filesD(3) by blast

lemma repeated: "answered \<Longrightarrow> tombstone_present d \<Longrightarrow> same_files d (((\<lambda>e. snd (run e)) ^^ n) d)"
proof (induction n)
  case (Suc n)
  let ?e = "((\<lambda>e. snd (run e)) ^^ n) d"
  have "tombstone_present ?e" using Suc same_filesD(3) by blast
  then show ?case using same_files_trans [OF Suc(1) [OF Suc(2,3)] gate [OF Suc(2)]] by simp
qed simp

lemma no_trace_kept: "answered \<Longrightarrow> tombstone_present d \<Longrightarrow> no_trace d \<Longrightarrow> no_trace (snd (run d))"
  using gate [of d] same_filesD(4) by blast

end

locale gated_section =
  fixes f :: faults and body :: "tdir \<Rightarrow> 'a io"
  assumes checked: "exists_answers f \<Longrightarrow> tombstone_present d \<Longrightarrow> snd (body d) = d"

sublocale gated_section \<subseteq> lock: gated "try_with_lock f body" "exists_answers f"
proof
  fix d
  assume present: "exists_answers f" "tombstone_present d"
  show "same_files d (snd (try_with_lock f body d))"
  proof (cases rule: try_with_lock_cases [of f body d])
    case (locked d1)
    then have "snd (body d1) = d1" using checked same_filesD(3) [OF locked(2)] present by blast
    then show ?thesis using locked by simp
  qed simp
qed

interpretation appending: gated_section f "append_under_lock f s buf"
  by unfold_locales (simp add: append_under_lock_def)

interpretation compacting: gated_section f "ring_under_lock f s"
  by unfold_locales (simp add: ring_under_lock_def)

interpretation draining: gated_section f "drain_under_lock f"
  by unfold_locales (simp add: drain_under_lock_def)

interpretation ring: gated "\<lambda>d. ((), enforce_ring f s d)" "exists_answers f"
  by unfold_locales (auto simp: enforce_ring_def compacting.lock.gate split: option.splits)

text \<open>An append while the tombstone is there reports nothing written.\<close>

lemma append_gated_result:
  "exists_answers f \<Longrightarrow> tombstone_present d \<Longrightarrow>
   fst (try_with_lock f (append_under_lock f s buf) d) \<noteq> Inr (Some True)"
  by (cases rule: try_with_lock_cases [of f "append_under_lock f s buf" d])
    (auto simp: append_under_lock_def same_filesD(3))

interpretation append: gated "append_with_limit f f_ring s line limit" "exists_answers f"
proof
  fix d
  assume present: "exists_answers f" "tombstone_present d"
  show "same_files d (snd (append_with_limit f f_ring s line limit d))"
    using appending.lock.gate [OF present, of s "line @ [NL]"]
      append_gated_result [OF present, of s "line @ [NL]"]
    by (auto simp: append_with_limit_def split: prod.splits sum.splits option.splits bool.splits)
qed

interpretation drain: gated "drain f" "exists_answers f"
  by unfold_locales (simp add: drain_def)

subsection \<open>Arming\<close>

lemma arm_under_lock_spec:
  assumes "arm_under_lock f observed permitted d = (r, d')"
  shows "is_ok r \<Longrightarrow> td_tombstone d = observed \<and> permitted d"
    "is_ok r \<Longrightarrow> exists_answers f \<Longrightarrow> td_tombstone d' = None \<and> td_buffer d' \<in> {None, Some []}"
    "td_tombstone d \<noteq> observed \<or> \<not> permitted d \<Longrightarrow> \<not> is_ok r \<and> d' = d"
    "td_tombstone d \<noteq> observed \<Longrightarrow> d' = d"
    "td_dryrun d' = td_dryrun d" "td_install_id d' = td_install_id d" "td_state d' = td_state d"
  using assms tombstone_generation_Some [of f d] tombstone_generation_None [of f d]
  by (auto simp: arm_under_lock_def truncate_sink_def get_sink_def set_sink_def Let_def
      tombstone_seen_def exists_answers_def
      split: sum.splits if_splits option.splits)

lemma arm_cases:
  obtains (failed) d1 where "arm f observed permitted d = (Inl IoError, d1)" "same_files d d1"
  | (locked) d1 where "arm f observed permitted d = arm_under_lock f observed permitted d1"
      "same_files d d1"
proof -
  obtain r d1 where r: "ensure_dir f d = (r, d1)" and same: "same_files d d1"
    using ensure_dir_same [of d f] by (cases "ensure_dir f d") auto
  show thesis
  proof (cases r)
    case (Inl e)
    then show thesis using that(1) [of d1] r same by (cases e) (simp add: arm_def)
  next
    case (Inr u)
    then have "arm f observed permitted d = with_lock f (arm_under_lock f observed permitted) d1"
      using r by (simp add: arm_def)
    then show thesis
      using that same same_files_trans [OF same]
      by (cases rule: with_lock_cases [of f "arm_under_lock f observed permitted" d1]) metis+
  qed
qed

text \<open>When the checks are answered, an arming that succeeds found exactly the tombstone
  generation its decision had observed, was permitted, and leaves an empty buffer and no
  tombstone; one that found another generation, or was not permitted, changes no file.\<close>

lemma arm_clears_only_observed:
  assumes "arm f observed permitted d = (r, d')" "exists_answers f"
  shows "(is_ok r \<longrightarrow> td_tombstone d = observed \<and> \<not> tombstone_present d' \<and>
            td_buffer d' \<in> {None, Some []} \<and> (\<exists>e. same_files d e \<and> permitted e)) \<and>
         (td_tombstone d \<noteq> observed \<or> (\<forall>e. same_files d e \<longrightarrow> \<not> permitted e) \<longrightarrow>
            \<not> is_ok r \<and> same_files d d')"
proof (cases rule: arm_cases [of f observed permitted d])
  case (failed d1)
  then show ?thesis using assms by simp
next
  case (locked d1)
  then have run: "arm_under_lock f observed permitted d1 = (r, d')" using assms by simp
  show ?thesis
    using arm_under_lock_spec(1,3) [OF run] arm_under_lock_spec(2) [OF run _ assms(2)] locked(2)
    by (auto simp: tombstone_present_def same_filesD(2) [OF locked(2)])
qed

lemma arm_clears_only_observed_example:
  "let d = sample_dir\<lparr>td_tombstone := Some ''new''\<rparr>;
       (r, d') = arm no_faults (Some ''old'') (\<lambda>_. True) d
   in \<not> is_ok r \<and> same_files d d'"
proof -
  let ?d = "sample_dir\<lparr>td_tombstone := Some ''new''\<rparr>"
  obtain r d' where run: "arm no_faults (Some ''old'') (\<lambda>_. True) ?d = (r, d')"
    by (metis surj_pair)
  have "td_tombstone ?d \<noteq> Some ''old''" by simp
  then show ?thesis using arm_clears_only_observed [OF run] run by (simp add: Let_def)
qed

end
