(* ===== verification/Telemetry_Decision.thy ===== *)
theory Telemetry_Decision
  imports Telemetry_Event Telemetry_Store
begin

section \<open>The telemetry decision\<close>

text \<open>
  \<open>ghosty-telemetry/src/decision.rs\<close>: the endpoint check, the predicate that classifies a
  run as enabled, opted out or forced off, and the wipe an opt-out performs. The telemetry
  directories of all homes form a map from paths to directories. What the resolver answers is
  an argument. The URL parser is a parameter that gives the scheme and the host; the IP address
  parser is the one of Rust's standard library and is written out.
\<close>

subsection \<open>IP addresses\<close>

text \<open>\<open>core::net::parser\<close>: each reader returns its value and the rest of the input.\<close>

definition to_digit :: "nat \<Rightarrow> char \<Rightarrow> nat option" where
  "to_digit radix c =
     (let n = of_char c :: nat;
          v = (if 48 \<le> n \<and> n \<le> 57 then n - 48
               else if 97 \<le> n \<and> n \<le> 122 then n - 87
               else if 65 \<le> n \<and> n \<le> 90 then n - 55 else 36)
      in if v < radix then Some v else None)"

definition read_number :: "nat \<Rightarrow> nat \<Rightarrow> bool \<Rightarrow> nat \<Rightarrow> string \<Rightarrow> (nat \<times> string) option" where
  "read_number radix max_digits allow_zero_prefix limit s =
     (let ds = takeWhile (\<lambda>c. to_digit radix c \<noteq> None) s;
          n = foldl (\<lambda>acc c. acc * radix + the (to_digit radix c)) 0 ds
      in if length ds > max_digits \<or> ds = [] then None
         else if \<not> allow_zero_prefix \<and> hd ds = CHR ''0'' \<and> length ds > 1 then None
         else if n \<ge> limit then None
         else Some (n, drop (length ds) s))"

definition read_given_char :: "char \<Rightarrow> string \<Rightarrow> string option" where
  "read_given_char c s = (case s of x # r \<Rightarrow> if x = c then Some r else None | [] \<Rightarrow> None)"

definition read_separator ::
    "char \<Rightarrow> nat \<Rightarrow> (string \<Rightarrow> ('a \<times> string) option) \<Rightarrow> string \<Rightarrow> ('a \<times> string) option" where
  "read_separator sep index inner s =
     (if index = 0 then inner s
      else (case read_given_char sep s of None \<Rightarrow> None | Some r \<Rightarrow> inner r))"

fun read_octets :: "nat \<Rightarrow> nat \<Rightarrow> string \<Rightarrow> (nat list \<times> string) option" where
  "read_octets i 0 s = Some ([], s)"
| "read_octets i (Suc k) s =
     (case read_separator CHR ''.'' i (read_number 10 3 False 256) s of
        None \<Rightarrow> None
      | Some (n, r) \<Rightarrow>
          (case read_octets (Suc i) k r of None \<Rightarrow> None | Some (ns, r') \<Rightarrow> Some (n # ns, r')))"

definition read_ipv4_addr :: "string \<Rightarrow> (nat list \<times> string) option" where
  "read_ipv4_addr s = read_octets 0 4 s"

text \<open>The groups read, whether they end in an IPv4 address, and the rest.\<close>

fun read_groups :: "nat \<Rightarrow> nat \<Rightarrow> string \<Rightarrow> nat list \<times> bool \<times> string" where
  "read_groups i 0 s = ([], False, s)"
| "read_groups i (Suc k) s =
     (case (if k > 0 then read_separator CHR '':'' i read_ipv4_addr s else None) of
        Some (ns, r) \<Rightarrow> ([ns ! 0 * 256 + ns ! 1, ns ! 2 * 256 + ns ! 3], True, r)
      | None \<Rightarrow>
          (case read_separator CHR '':'' i (read_number 16 4 True 65536) s of
             None \<Rightarrow> ([], False, s)
           | Some (n, r) \<Rightarrow>
               (case read_groups (Suc i) k r of (ns, v4, r') \<Rightarrow> (n # ns, v4, r'))))"

definition read_ipv6_addr :: "string \<Rightarrow> (nat list \<times> string) option" where
  "read_ipv6_addr s =
     (case read_groups 0 8 s of
        (head, head_ipv4, r) \<Rightarrow>
          if length head = 8 then Some (head, r)
          else if head_ipv4 then None
          else (case read_given_char CHR '':'' r of
                  None \<Rightarrow> None
                | Some r1 \<Rightarrow>
                    (case read_given_char CHR '':'' r1 of
                       None \<Rightarrow> None
                     | Some r2 \<Rightarrow>
                         (case read_groups 0 (8 - (length head + 1)) r2 of
                            (tail, _, r3) \<Rightarrow>
                              Some (head @ replicate (8 - length head - length tail) 0 @ tail, r3)))))"

datatype ip_addr = V4 "nat list" | V6 "nat list"

definition parse_ip_addr :: "string \<Rightarrow> ip_addr option" where
  "parse_ip_addr s =
     (case (case read_ipv4_addr s of
              Some (ns, r) \<Rightarrow> Some (V4 ns, r)
            | None \<Rightarrow> map_option (\<lambda>(ns, r). (V6 ns, r)) (read_ipv6_addr s)) of
        Some (a, r) \<Rightarrow> if r = [] then Some a else None
      | None \<Rightarrow> None)"

definition is_loopback :: "ip_addr \<Rightarrow> bool" where
  "is_loopback a = (case a of V4 ns \<Rightarrow> ns ! 0 = 127 | V6 ns \<Rightarrow> ns = [0, 0, 0, 0, 0, 0, 0, 1])"

subsection \<open>Endpoints\<close>

definition is_loopback_host :: "string option \<Rightarrow> bool" where
  "is_loopback_host host =
     (case host of
        None \<Rightarrow> False
      | Some h \<Rightarrow>
          (let bare = rev (dropWhile (\<lambda>c. c = CHR '']'') (rev (dropWhile (\<lambda>c. c = CHR ''['') h)))
           in case parse_ip_addr bare of
                Some a \<Rightarrow> is_loopback a
              | None \<Rightarrow> to_ascii_lowercase bare = ''localhost''))"

datatype endpoint_error = Unparseable | InsecureScheme | UnsupportedScheme

definition endpoint_error_label :: "endpoint_error \<Rightarrow> string" where
  "endpoint_error_label e =
     (case e of Unparseable \<Rightarrow> ''unparseable''
      | InsecureScheme \<Rightarrow> ''plaintext http to a non-loopback host''
      | UnsupportedScheme \<Rightarrow> ''scheme is neither https nor http'')"

type_synonym url_parser = "string \<Rightarrow> (string \<times> string option) option"

definition validate_endpoint :: "url_parser \<Rightarrow> string \<Rightarrow> endpoint_error + string" where
  "validate_endpoint parse raw =
     (let trimmed = trim raw in
      case parse trimmed of
        None \<Rightarrow> Inl Unparseable
      | Some (scheme, host) \<Rightarrow>
          if scheme = ''https'' then Inr trimmed
          else if scheme = ''http'' then
            if is_loopback_host host then Inr trimmed else Inl InsecureScheme
          else Inl UnsupportedScheme)"

subsection \<open>The decision\<close>

type_synonym path = "string list"
type_synonym homes = "path \<Rightarrow> tdir"

definition TELEMETRY_DIR :: string where "TELEMETRY_DIR = ''telemetry''"

record telemetry_inputs =
  ti_home :: "path option"
  ti_enabled :: bool
  ti_explicit_off :: bool
  ti_notice_declined :: bool
  ti_endpoint :: "string option"
  ti_config_path :: "path option"

record telemetry_consent =
  co_root :: path
  co_endpoint :: "string option"
  co_surface :: surface
  co_config_path :: "path option"
  co_generation :: "string option"

datatype telemetry_decision = Enabled telemetry_consent | OptedOut | ForcedOff

datatype telemetry_evaluation =
    EvEnabled path "string option" "string option"
  | EvOptedOut "path option"
  | EvForcedOff

definition is_enabled :: "telemetry_decision \<Rightarrow> bool" where
  "is_enabled dec = (case dec of Enabled _ \<Rightarrow> True | _ \<Rightarrow> False)"

definition decision_label :: "telemetry_decision \<Rightarrow> string" where
  "decision_label dec =
     (case dec of Enabled _ \<Rightarrow> ''enabled'' | OptedOut \<Rightarrow> ''opted_out'' | ForcedOff \<Rightarrow> ''forced_off'')"

definition resolve_endpoint :: "url_parser \<Rightarrow> string option \<Rightarrow> string option option" where
  "resolve_endpoint parse endpoint =
     (case endpoint of
        None \<Rightarrow> None
      | Some raw \<Rightarrow>
          if trim raw = [] then Some None
          else (case validate_endpoint parse raw of Inr e \<Rightarrow> Some (Some e) | Inl _ \<Rightarrow> None))"

definition evaluate :: "url_parser \<Rightarrow> faults \<Rightarrow> telemetry_inputs \<Rightarrow> homes \<Rightarrow> telemetry_evaluation" where
  "evaluate parse f inputs fs =
     (let root = map_option (\<lambda>home. home @ [TELEMETRY_DIR]) (ti_home inputs) in
      if \<not> ti_enabled inputs then
        if ti_explicit_off inputs then EvOptedOut root else EvForcedOff
      else if ti_notice_declined inputs then EvOptedOut root
      else (case root of
              None \<Rightarrow> EvForcedOff
            | Some r \<Rightarrow>
                (case resolve_endpoint parse (ti_endpoint inputs) of
                   None \<Rightarrow> EvForcedOff
                 | Some endpoint \<Rightarrow>
                     (case tombstone_generation f (fs r) of
                        Inl _ \<Rightarrow> EvForcedOff
                      | Inr generation \<Rightarrow> EvEnabled r endpoint generation))))"

definition opted_out :: "faults \<Rightarrow> string \<Rightarrow> path option \<Rightarrow> homes \<Rightarrow> telemetry_decision \<times> homes" where
  "opted_out f uuid root fs =
     (case root of
        Some r \<Rightarrow>
          if td_exists (fs r) then (OptedOut, fs(r := snd (wipe f uuid (fs r)))) else (OptedOut, fs)
      | None \<Rightarrow> (OptedOut, fs))"

definition decide ::
    "url_parser \<Rightarrow> faults \<Rightarrow> string \<Rightarrow> telemetry_inputs \<Rightarrow> surface \<Rightarrow> homes \<Rightarrow> telemetry_decision \<times> homes" where
  "decide parse f uuid inputs sf fs =
     (case evaluate parse f inputs fs of
        EvEnabled root endpoint generation \<Rightarrow>
          (Enabled \<lparr>co_root = root, co_endpoint = endpoint, co_surface = sf,
                    co_config_path = ti_config_path inputs, co_generation = generation\<rparr>, fs)
      | EvOptedOut root \<Rightarrow> opted_out f uuid root fs
      | EvForcedOff \<Rightarrow> (ForcedOff, fs))"

definition permission_still_enabled ::
    "url_parser \<Rightarrow> faults \<Rightarrow> telemetry_inputs \<Rightarrow> path \<Rightarrow> homes \<Rightarrow> bool" where
  "permission_still_enabled parse f inputs expected_root fs =
     (case evaluate parse f inputs fs of EvEnabled root _ _ \<Rightarrow> root = expected_root | _ \<Rightarrow> False)"

section \<open>Correctness of the decision\<close>

subsection \<open>Loopback addresses\<close>

lemma to_digit_10: "to_digit 10 c = (if is_ascii_digit c then Some (digit_value c) else None)"
  by (auto simp: to_digit_def is_ascii_digit_def digit_value_def Let_def)

lemma foldl_to_digit:
  "list_all is_ascii_digit ds \<Longrightarrow>
     foldl (\<lambda>acc c. acc * 10 + the (to_digit 10 c)) n ds = digits_value n ds"
  by (induction ds arbitrary: n) (simp_all add: to_digit_10 mult.commute)

lemma length_show_nat:
  assumes "n < 1000"
  shows "length (show_nat n) \<le> 3"
proof -
  have one: "k < 10 \<Longrightarrow> length (show_nat k) = 1" for k by (simp add: show_nat.simps [of k])
  have "k < 100 \<Longrightarrow> length (show_nat k) \<le> 2" for k
    using one [of "k div 10"] by (simp add: show_nat.simps [of k])
  then show ?thesis using assms by (simp add: show_nat.simps [of n])
qed

lemma hd_show_nat: "0 < n \<Longrightarrow> hd (show_nat n) \<noteq> CHR ''0''"
proof (induction n rule: show_nat.induct)
  case (1 n)
  show ?case
  proof (cases "n < 10")
    case True
    then have "of_char (char_of (48 + n) :: char) = 48 + n" by simp
    then have "(char_of (48 + n) :: char) \<noteq> CHR ''0''" using 1(2) by force
    then show ?thesis using True by (simp add: show_nat.simps [of n])
  next
    case False
    then show ?thesis using 1 by (simp add: show_nat.simps [of n])
  qed
qed

lemma read_number_show_nat:
  assumes "n < 256" "\<forall>c r. rest = c # r \<longrightarrow> \<not> is_ascii_digit c"
  shows "read_number 10 3 False 256 (show_nat n @ rest) = Some (n, rest)"
proof -
  have digits: "list_all is_ascii_digit (show_nat n)" by (rule show_nat_digits)
  have "takeWhile (\<lambda>c. to_digit 10 c \<noteq> None) (show_nat n @ rest) = show_nat n"
    using digits assms(2)
    by (cases rest) (auto simp: to_digit_10 list_all_iff takeWhile_append)
  moreover have "length (show_nat n) = 1 \<or> hd (show_nat n) \<noteq> CHR ''0''"
    using hd_show_nat [of n] by (cases "n = 0") (simp_all add: show_nat.simps)
  ultimately show ?thesis
    using assms(1) length_show_nat [of n] foldl_to_digit [OF digits, of 0]
    by (auto simp: read_number_def Let_def digits_value_show_nat)
qed

definition dotted :: "u8 \<Rightarrow> u8 \<Rightarrow> u8 \<Rightarrow> u8 \<Rightarrow> string" where
  "dotted a b c d = show_nat (unat a) @ ''.'' @ show_nat (unat b) @ ''.'' @ show_nat (unat c) @ ''.''
     @ show_nat (unat d)"

lemma read_octets_dotted:
  "read_octets 0 4 (dotted a b c d) = Some ([unat a, unat b, unat c, unat d], [])"
proof -
  have byte: "unat (x :: u8) < 256" for x using unsigned_less [of x, where ?'a = nat] by simp
  have dot: "\<not> is_ascii_digit CHR ''.''" by code_simp
  note read = read_number_show_nat [OF byte, of "CHR ''.'' # rest" for rest]
    read_number_show_nat [OF byte, of "[]", simplified]
  have four: "4 = Suc (Suc (Suc (Suc 0)))" by simp
  show ?thesis
    using dot unfolding four by (simp add: dotted_def read read_separator_def read_given_char_def)
qed

lemma bare_dotted:
  "rev (dropWhile (\<lambda>c. c = CHR '']'') (rev (dropWhile (\<lambda>c. c = CHR ''['') (dotted a b c d)))) = dotted a b c d"
proof -
  have digit: "is_ascii_digit (hd (show_nat n))" "is_ascii_digit (last (show_nat n))" for n
    using show_nat_digits [of n] hd_in_set last_in_set by (auto simp: list_all_iff)
  have brackets: "\<not> is_ascii_digit CHR ''[''" "\<not> is_ascii_digit CHR '']''" by code_simp+
  have "hd (dotted a b c d) \<noteq> CHR ''[''" "last (dotted a b c d) \<noteq> CHR '']''" "dotted a b c d \<noteq> []"
    using digit(1) [of "unat a"] digit(2) [of "unat d"] brackets by (auto simp: dotted_def)
  then have "dropWhile (\<lambda>c. c = CHR ''['') (dotted a b c d) = dotted a b c d"
    "dropWhile (\<lambda>c. c = CHR '']'') (rev (dotted a b c d)) = rev (dotted a b c d)"
    by (auto simp: dropWhile_eq_self_iff hd_rev)
  then show ?thesis by simp
qed

text \<open>Plaintext to a dotted IPv4 host is accepted exactly for the
  hosts of 127.0.0.0/8, whatever the four octets are.\<close>

lemma loopback_v4_exact:
  "is_loopback_host (Some (dotted a b c d)) \<longleftrightarrow> a = 127"
proof -
  have "parse_ip_addr (dotted a b c d) = Some (V4 [unat a, unat b, unat c, unat d])"
    by (simp add: parse_ip_addr_def read_ipv4_addr_def read_octets_dotted)
  moreover have "unat a = 127 \<longleftrightarrow> a = 127"
    by (simp add: word_eq_iff_unsigned [where ?'a = nat])
  ultimately show ?thesis by (simp add: is_loopback_host_def bare_dotted is_loopback_def)
qed

subsection \<open>Endpoints and decisions\<close>

text \<open>A host that plaintext may reach: the name localhost, or a literal loopback address.\<close>

lemma validate_endpoint_Inr:
  "validate_endpoint parse raw = Inr e \<longleftrightarrow>
     e = trim raw \<and> (\<exists>scheme host. parse (trim raw) = Some (scheme, host) \<and>
       (scheme = ''https'' \<or> scheme = ''http'' \<and> is_loopback_host host))"
  by (auto simp: validate_endpoint_def Let_def split: option.splits)

lemma evaluate_cases:
  "evaluate parse f inputs fs =
     (if (if ti_enabled inputs then ti_notice_declined inputs else ti_explicit_off inputs)
      then EvOptedOut (map_option (\<lambda>home. home @ [TELEMETRY_DIR]) (ti_home inputs))
      else if \<not> ti_enabled inputs then EvForcedOff
      else (case ti_home inputs of
              None \<Rightarrow> EvForcedOff
            | Some home \<Rightarrow>
                (case resolve_endpoint parse (ti_endpoint inputs) of
                   None \<Rightarrow> EvForcedOff
                 | Some endpoint \<Rightarrow>
                     (case tombstone_generation f (fs (home @ [TELEMETRY_DIR])) of
                        Inl _ \<Rightarrow> EvForcedOff
                      | Inr g \<Rightarrow> EvEnabled (home @ [TELEMETRY_DIR]) endpoint g))))"
  by (simp add: evaluate_def Let_def split: option.split)

lemma tombstone_generation_Inr: "tombstone_generation f d = Inr g \<Longrightarrow> td_tombstone d = g"
  by (auto simp: tombstone_generation_def split: option.splits if_splits)

lemma evaluate_Enabled:
  assumes "evaluate parse f inputs fs = EvEnabled root endpoint g"
  shows "ti_enabled inputs" "\<not> ti_notice_declined inputs"
    "ti_home inputs = Some (butlast root)" "root = butlast root @ [TELEMETRY_DIR]"
    "resolve_endpoint parse (ti_endpoint inputs) = Some endpoint"
    "td_tombstone (fs root) = g"
  using assms
  by (auto simp: evaluate_cases dest: tombstone_generation_Inr
      split: if_splits option.splits sum.splits)

text \<open>A decision is an opt-out exactly for a durable no, that is an
  explicit persistent off or a declined notice with the switch on; only an opt-out changes a
  file, and only in the directory of the resolved home, which it wipes if it exists; an enabled
  decision carries the tombstone it observed and no endpoint but a validated one.\<close>

lemma decide_effects:
  assumes "decide parse f uuid inputs sf fs = (dec, fs')"
  shows "(dec = OptedOut \<longleftrightarrow>
            (if ti_enabled inputs then ti_notice_declined inputs else ti_explicit_off inputs)) \<and>
         (dec \<noteq> OptedOut \<longrightarrow> fs' = fs) \<and>
         (\<forall>p. fs' p = fs p \<or>
            td_exists (fs p) \<and> map_option (\<lambda>home. home @ [TELEMETRY_DIR]) (ti_home inputs) = Some p \<and>
            fs' p = snd (wipe f uuid (fs p))) \<and>
         (\<forall>c. dec = Enabled c \<longrightarrow>
            td_tombstone (fs (co_root c)) = co_generation c \<and>
            (\<forall>e. co_endpoint c = Some e \<longrightarrow>
               (\<exists>scheme host. parse e = Some (scheme, host) \<and>
                  (scheme = ''https'' \<or> scheme = ''http'' \<and> is_loopback_host host))))"
proof (cases "evaluate parse f inputs fs")
  case (EvEnabled root endpoint g)
  note ev = evaluate_Enabled [OF EvEnabled]
  have "\<exists>scheme host. parse e = Some (scheme, host) \<and>
      (scheme = ''https'' \<or> scheme = ''http'' \<and> is_loopback_host host)" if "endpoint = Some e" for e
    using ev(5) that validate_endpoint_Inr
    by (auto simp: resolve_endpoint_def split: option.splits if_splits sum.splits)
  then show ?thesis using assms EvEnabled ev by (auto simp: decide_def)
next
  case (EvOptedOut root)
  have "root = map_option (\<lambda>home. home @ [TELEMETRY_DIR]) (ti_home inputs)"
    "if ti_enabled inputs then ti_notice_declined inputs else ti_explicit_off inputs"
    using EvOptedOut by (auto simp: evaluate_cases split: if_splits option.splits sum.splits)
  then show ?thesis
    using assms EvOptedOut by (auto simp: decide_def opted_out_def split: option.splits if_splits)
next
  case EvForcedOff
  then have "\<not> (if ti_enabled inputs then ti_notice_declined inputs else ti_explicit_off inputs)"
    by (auto simp: evaluate_cases split: if_splits)
  then show ?thesis using assms EvForcedOff by (auto simp: decide_def)
qed

definition example_inputs :: telemetry_inputs where
  "example_inputs = \<lparr>ti_home = Some [''home''], ti_enabled = True, ti_explicit_off = False,
     ti_notice_declined = False, ti_endpoint = Some ''https://t'', ti_config_path = None\<rparr>"

definition example_parse :: url_parser where
  "example_parse s = (if s = ''https://t'' then Some (''https'', Some ''t'') else None)"

lemma decide_effects_example:
  "let off = example_inputs\<lparr>ti_enabled := False, ti_explicit_off := True\<rparr>;
       (dec, fs') = decide example_parse no_faults ''u'' off Cli (\<lambda>_. sample_dir)
   in dec = OptedOut \<and> fs' [''other''] = sample_dir \<and> no_trace (fs' [''home'', ''telemetry''])"
proof -
  let ?off = "example_inputs\<lparr>ti_enabled := False, ti_explicit_off := True\<rparr>"
  obtain dec fs' where run: "decide example_parse no_faults ''u'' ?off Cli (\<lambda>_. sample_dir) = (dec, fs')"
    by (metis surj_pair)
  have "no_trace (snd (decide example_parse no_faults ''u'' ?off Cli (\<lambda>_. sample_dir)) [''home'', ''telemetry''])"
    by code_simp
  then show ?thesis
    using decide_effects [OF run] run by (auto simp: example_inputs_def TELEMETRY_DIR_def Let_def)
qed

end
