(* ===== verification/Telemetry_Actor.thy ===== *)
theory Telemetry_Actor
  imports Telemetry_Decision
begin

section \<open>Recording and delivering telemetry\<close>

text \<open>
  The rest of \<open>ghosty-telemetry\<close>: the install identity and the state file (\<open>envelope.rs\<close>), the
  delivery of a batch (\<open>client.rs\<close>), the writer (\<open>actor.rs\<close>) and the process-wide interface
  (\<open>lib.rs\<close>). The serializers, the UUID and timestamp parsers and the URL parser are third-party
  code: they are the fields of \<open>codec\<close>, an argument of the definitions that use them. What is
  posted is part of the result, so that a theorem can say what reaches the wire.
\<close>

record install_id_rec =
  ii_schema_version :: nat
  ii_install_id :: string
  ii_rotated_at :: string

record telemetry_state =
  ts_schema_version :: nat
  ts_last_version :: "string option"
  ts_last_flush :: "string option"

definition SCHEMA_VERSION :: nat where "SCHEMA_VERSION = 1"
definition ROTATION_DAYS :: int where "ROTATION_DAYS = 90"

definition default_state :: telemetry_state where
  "default_state = \<lparr>ts_schema_version = 0, ts_last_version = None, ts_last_flush = None\<rparr>"

record batch =
  ba_schema_version :: nat
  ba_sent_at :: string
  ba_install_id :: string
  ba_app_version :: string
  ba_git_sha :: "string option"
  ba_surface :: surface
  ba_os :: os
  ba_arch :: arch
  ba_libc :: libc
  ba_tty :: bool
  ba_events :: "event list"

record codec =
  event_to_json :: "event \<Rightarrow> string option"
  event_of_json :: "string \<Rightarrow> event option"
  install_to_json :: "install_id_rec \<Rightarrow> string option"
  install_of_json :: "string \<Rightarrow> install_id_rec option"
  state_to_json :: "telemetry_state \<Rightarrow> string option"
  state_of_json :: "string \<Rightarrow> telemetry_state option"
  batch_to_json :: "batch \<Rightarrow> string option"
  uuid_parses :: "string \<Rightarrow> bool"
  age_in_days :: "string \<Rightarrow> string \<Rightarrow> int option"
  url_parse :: url_parser

subsection \<open>Install identity and state\<close>

definition is_expired :: "codec \<Rightarrow> string \<Rightarrow> string \<Rightarrow> bool" where
  "is_expired c now rotated_at =
     (case age_in_days c now rotated_at of None \<Rightarrow> True | Some days \<Rightarrow> days \<ge> ROTATION_DAYS)"

definition read_to_string :: "nat option \<Rightarrow> string option \<Rightarrow> string option" where
  "read_to_string fault contents =
     (case contents of
        None \<Rightarrow> None
      | Some body \<Rightarrow> if fault \<noteq> None \<or> \<not> utf8_valid body then None else Some body)"

definition existing_install_id :: "codec \<Rightarrow> faults \<Rightarrow> string \<Rightarrow> tdir \<Rightarrow> install_id_rec option" where
  "existing_install_id c f now d =
     (case Option.bind (read_to_string (f ReadInstallId) (td_install_id d)) (install_of_json c) of
        None \<Rightarrow> None
      | Some r \<Rightarrow>
          if uuid_parses c (trim (ii_install_id r)) \<and> \<not> is_expired c now (ii_rotated_at r)
          then Some r else None)"

definition install_id_under_lock ::
    "codec \<Rightarrow> faults \<Rightarrow> string \<Rightarrow> string \<Rightarrow> tdir \<Rightarrow> install_id_rec io" where
  "install_id_under_lock c f fresh now d =
     (if tombstone_seen f TombstoneLocked d then (Inl IoError, d)
      else (case existing_install_id c f now d of
              Some r \<Rightarrow> (Inr r, d)
            | None \<Rightarrow>
                (let r = \<lparr>ii_schema_version = 1, ii_install_id = fresh, ii_rotated_at = now\<rparr> in
                 case install_to_json c r of
                   None \<Rightarrow> (Inl IoError, d)
                 | Some body \<Rightarrow>
                     if f WriteInstallId \<noteq> None then (Inl IoError, d)
                     else (Inr r, d\<lparr>td_install_id := Some (body @ [NL])\<rparr>))))"

definition require_lock :: "'a option io \<Rightarrow> 'a io" where
  "require_lock r =
     (case r of (Inr (Some x), d) \<Rightarrow> (Inr x, d) | (_, d) \<Rightarrow> (Inl IoError, d))"

definition read_or_create_install_id ::
    "codec \<Rightarrow> faults \<Rightarrow> string \<Rightarrow> string \<Rightarrow> tdir \<Rightarrow> install_id_rec io" where
  "read_or_create_install_id c f fresh now d =
     require_lock (try_with_lock f (install_id_under_lock c f fresh now) d)"

definition read_state :: "codec \<Rightarrow> faults \<Rightarrow> tdir \<Rightarrow> telemetry_state" where
  "read_state c f d =
     (case Option.bind (read_to_string (f ReadState) (td_state d)) (state_of_json c) of
        None \<Rightarrow> default_state
      | Some s \<Rightarrow> s)"

definition write_state_under_lock :: "codec \<Rightarrow> faults \<Rightarrow> telemetry_state \<Rightarrow> tdir \<Rightarrow> unit io" where
  "write_state_under_lock c f s d =
     (if tombstone_seen f TombstoneLocked d then (Inl IoError, d)
      else (case state_to_json c s of
              None \<Rightarrow> (Inl IoError, d)
            | Some body \<Rightarrow>
                if f WriteState \<noteq> None then (Inl IoError, d)
                else (Inr (), d\<lparr>td_state := Some (body @ [NL])\<rparr>)))"

definition write_state :: "codec \<Rightarrow> faults \<Rightarrow> telemetry_state \<Rightarrow> tdir \<Rightarrow> unit io" where
  "write_state c f s d = require_lock (try_with_lock f (write_state_under_lock c f s) d)"

subsection \<open>Delivery\<close>

datatype send_outcome = SentDryRun | Accepted | SendDropped

text \<open>One POST: the endpoint, the user agent's version and the body.\<close>

record post =
  po_endpoint :: string
  po_app_version :: string
  po_body :: string

definition post_under_lock ::
    "faults \<Rightarrow> string \<Rightarrow> string \<Rightarrow> string \<Rightarrow> send_outcome \<Rightarrow> tdir \<Rightarrow> (send_outcome \<times> post list) io" where
  "post_under_lock f endpoint app_version body answer d =
     (if tombstone_seen f TombstoneLocked d then (Inr (SendDropped, []), d)
      else (Inr (answer, [\<lparr>po_endpoint = endpoint, po_app_version = app_version, po_body = body\<rparr>]), d))"

definition send_with_transport ::
    "codec \<Rightarrow> faults \<Rightarrow> faults \<Rightarrow> string option \<Rightarrow> batch \<Rightarrow> send_outcome \<Rightarrow> tdir
       \<Rightarrow> send_outcome \<times> post list \<times> tdir" where
  "send_with_transport c f f_ring endpoint b answer d =
     (case batch_to_json c b of
        None \<Rightarrow> (SendDropped, [], d)
      | Some body \<Rightarrow>
          (case endpoint of
             None \<Rightarrow>
               (case append_locked f f_ring DryrunSink body d of
                  (Some _, d1) \<Rightarrow> (SentDryRun, [], d1)
                | (None, d1) \<Rightarrow> (SendDropped, [], d1))
           | Some e \<Rightarrow>
               (case try_with_lock f (post_under_lock f e (ba_app_version b) body answer) d of
                  (Inr (Some (outcome, posts)), d1) \<Rightarrow> (outcome, posts, d1)
                | (_, d1) \<Rightarrow> (SendDropped, [], d1))))"

subsection \<open>The writer\<close>

definition BATCH_MAX_EVENTS :: nat where "BATCH_MAX_EVENTS = 200"
definition BATCH_MAX_BYTES :: nat where "BATCH_MAX_BYTES = 64 * 1024"

datatype flush_outcome = FlEmpty | FlBuffered | FlDryRun | FlSent | FlDropped | FlSuppressed | FlTimedOut

record actor_context =
  cx_root :: path
  cx_endpoint :: "string option"
  cx_surface :: surface
  cx_app_version :: string
  cx_git_sha :: "string option"
  cx_os :: os
  cx_arch :: arch
  cx_libc :: libc
  cx_tty :: bool

fun parse_events_from :: "codec \<Rightarrow> string list \<Rightarrow> event list \<Rightarrow> nat \<Rightarrow> event list" where
  "parse_events_from c [] events bytes = events"
| "parse_events_from c (l # ls) events bytes =
     (if length events \<ge> BATCH_MAX_EVENTS \<or> bytes + length l > BATCH_MAX_BYTES then events
      else (case event_of_json c l of
              None \<Rightarrow> parse_events_from c ls events bytes
            | Some e \<Rightarrow>
                if \<not> is_bounded e then parse_events_from c ls events bytes
                else parse_events_from c ls (events @ [e]) (bytes + length l)))"

definition parse_events :: "codec \<Rightarrow> string list \<Rightarrow> event list" where
  "parse_events c ls = parse_events_from c ls [] 0"

text \<open>
  What the outside does during one flush: the resolver's answer, the faults of each critical
  section, the fresh identifiers, the clock and the answer of the transport.
\<close>

record surroundings =
  su_inputs :: telemetry_inputs
  su_decide :: faults
  su_drain :: faults
  su_install :: faults
  su_state :: faults
  su_send :: faults
  su_ring :: faults
  su_tombstone :: string
  su_fresh_id :: string
  su_now :: string
  su_answer :: send_outcome

definition make_batch :: "actor_context \<Rightarrow> surroundings \<Rightarrow> string \<Rightarrow> event list \<Rightarrow> batch" where
  "make_batch cx su install_id events =
     \<lparr>ba_schema_version = SCHEMA_VERSION, ba_sent_at = su_now su, ba_install_id = install_id,
      ba_app_version = cx_app_version cx, ba_git_sha = cx_git_sha cx, ba_surface = cx_surface cx,
      ba_os = cx_os cx, ba_arch = cx_arch cx, ba_libc = cx_libc cx, ba_tty = cx_tty cx,
      ba_events = events\<rparr>"

definition deliver ::
    "codec \<Rightarrow> actor_context \<Rightarrow> surroundings \<Rightarrow> event list \<Rightarrow> tdir \<Rightarrow> flush_outcome \<times> post list \<times> tdir" where
  "deliver c cx su events d =
     (case read_or_create_install_id c (su_install su) (su_fresh_id su) (su_now su) d of
        (Inl _, d1) \<Rightarrow> (FlDropped, [], d1)
      | (Inr install, d1) \<Rightarrow>
          (let st = (read_state c (su_state su) d1)
                 \<lparr>ts_schema_version := SCHEMA_VERSION, ts_last_flush := Some (su_now su)\<rparr>;
               d2 = snd (write_state c (su_state su) st d1)
           in case send_with_transport c (su_send su) (su_ring su) (cx_endpoint cx)
                     (make_batch cx su (ii_install_id install) events) (su_answer su) d2 of
                (SentDryRun, posts, d3) \<Rightarrow> (FlDryRun, posts, d3)
              | (Accepted, posts, d3) \<Rightarrow> (FlSent, posts, d3)
              | (SendDropped, posts, d3) \<Rightarrow> (FlDropped, posts, d3)))"

definition flush_enabled ::
    "codec \<Rightarrow> actor_context \<Rightarrow> surroundings \<Rightarrow> tdir \<Rightarrow> flush_outcome \<times> post list \<times> tdir" where
  "flush_enabled c cx su d =
     (if tombstone_seen (su_decide su) TombstoneFile d then (FlSuppressed, [], d)
      else (case drain (su_drain su) d of
              (ls, d1) \<Rightarrow>
                if ls = [] then (FlEmpty, [], d1)
                else (let events = parse_events c ls in
                      if events = [] then (FlEmpty, [], d1) else deliver c cx su events d1)))"

definition flush ::
    "codec \<Rightarrow> actor_context \<Rightarrow> surroundings \<Rightarrow> homes \<Rightarrow> flush_outcome \<times> post list \<times> homes" where
  "flush c cx su fs =
     (case decide (url_parse c) (su_decide su) (su_tombstone su) (su_inputs su) (cx_surface cx) fs of
        (Enabled _, fs1) \<Rightarrow>
          (case flush_enabled c cx su (fs1 (cx_root cx)) of
             (outcome, posts, d) \<Rightarrow> (outcome, posts, fs1(cx_root cx := d)))
      | (_, fs1) \<Rightarrow> (FlSuppressed, [], fs1))"

definition persist_local ::
    "codec \<Rightarrow> actor_context \<Rightarrow> surroundings \<Rightarrow> surroundings \<Rightarrow> homes \<Rightarrow> flush_outcome \<times> post list \<times> homes" where
  "persist_local c cx su su_flush fs =
     (case decide (url_parse c) (su_decide su) (su_tombstone su) (su_inputs su) (cx_surface cx) fs of
        (Enabled _, fs1) \<Rightarrow>
          if tombstone_seen (su_decide su) TombstoneFile (fs1 (cx_root cx)) then (FlSuppressed, [], fs1)
          else if cx_endpoint cx = None then flush c cx su_flush fs1
          else if read_lines (su_drain su) BufferSink (fs1 (cx_root cx)) = [] then (FlEmpty, [], fs1)
          else (FlBuffered, [], fs1)
      | (_, fs1) \<Rightarrow> (FlSuppressed, [], fs1))"

definition actor_append :: "codec \<Rightarrow> faults \<Rightarrow> faults \<Rightarrow> actor_context \<Rightarrow> event \<Rightarrow> homes \<Rightarrow> homes" where
  "actor_append c f f_ring cx e fs =
     (case event_to_json c e of
        None \<Rightarrow> fs
      | Some line \<Rightarrow>
          fs(cx_root cx := snd (append_line f f_ring BufferSink line (fs (cx_root cx)))))"

text \<open>
  The messages of the channel, each with what the outside does while it is handled, and the
  writer's loop: it stops after a persist or a shutdown, whose answer it sends back.
\<close>

datatype actor_message =
    EventMsg event faults faults
  | PersistLocalMsg surroundings surroundings
  | ShutdownMsg surroundings

fun actor_run ::
    "codec \<Rightarrow> actor_context \<Rightarrow> actor_message list \<Rightarrow> homes \<Rightarrow> flush_outcome option \<times> post list \<times> homes" where
  "actor_run c cx [] fs = (None, [], fs)"
| "actor_run c cx (EventMsg e f f_ring # ms) fs = actor_run c cx ms (actor_append c f f_ring cx e fs)"
| "actor_run c cx (PersistLocalMsg su su_flush # ms) fs =
     (case persist_local c cx su su_flush fs of (r, posts, fs1) \<Rightarrow> (Some r, posts, fs1))"
| "actor_run c cx (ShutdownMsg su # ms) fs =
     (case flush c cx su fs of (r, posts, fs1) \<Rightarrow> (Some r, posts, fs1))"

subsection \<open>The process\<close>

text \<open>
  The cell that arming fills. The events sent to the writer and not handled yet are its queue.
\<close>

record armed =
  ar_context :: actor_context
  ar_queue :: "event list"
  ar_stopped :: bool
  ar_exit_class :: u8

type_synonym process = "armed option"

definition is_armed :: "process \<Rightarrow> bool" where
  "is_armed p \<longleftrightarrow> p \<noteq> None"

definition record_event :: "event \<Rightarrow> process \<Rightarrow> process" where
  "record_event e p =
     map_option (\<lambda>a. if ar_stopped a then a else a\<lparr>ar_queue := ar_queue a @ [e]\<rparr>) p"

definition record_blocking :: "codec \<Rightarrow> faults \<Rightarrow> faults \<Rightarrow> event \<Rightarrow> process \<Rightarrow> homes \<Rightarrow> homes" where
  "record_blocking c f f_ring e p fs =
     (case p of None \<Rightarrow> fs | Some a \<Rightarrow> actor_append c f f_ring (ar_context a) e fs)"

definition set_exit_class :: "exit_class \<Rightarrow> process \<Rightarrow> process" where
  "set_exit_class cls p = map_option (\<lambda>a. a\<lparr>ar_exit_class := exit_class_as_u8 cls\<rparr>) p"

definition exit_class_of :: "process \<Rightarrow> exit_class" where
  "exit_class_of p = (case p of None \<Rightarrow> ExitClean | Some a \<Rightarrow> exit_class_from_u8 (ar_exit_class a))"

definition install_kind_of :: "string option \<Rightarrow> string \<Rightarrow> install_kind" where
  "install_kind_of last_version current =
     (case last_version of
        None \<Rightarrow> Install
      | Some previous \<Rightarrow> if version_is_older previous current then Upgrade else Downgrade)"

definition record_install_or_upgrade ::
    "codec \<Rightarrow> faults \<Rightarrow> string \<Rightarrow> path \<Rightarrow> process \<Rightarrow> homes \<Rightarrow> process \<times> homes" where
  "record_install_or_upgrade c f current root p fs =
     (let st = read_state c f (fs root) in
      if ts_last_version st = Some current then (p, fs)
      else (let kind = install_kind_of (ts_last_version st) current;
                st' = st\<lparr>ts_schema_version := SCHEMA_VERSION, ts_last_version := Some current\<rparr>
            in case write_state c f st' (fs root) of
                 (Inl _, d) \<Rightarrow> (p, fs(root := d))
               | (Inr _, d) \<Rightarrow>
                   (record_event (InstallOrUpgrade kind (ts_last_version st)) p, fs(root := d))))"

text \<open>The facts of the build and the platform that \<open>init\<close> puts into the context.\<close>

record build =
  bu_app_version :: string
  bu_release_sha :: "string option"
  bu_os :: string
  bu_arch :: string
  bu_libc :: libc
  bu_tty :: bool

definition release_build_sha :: "build \<Rightarrow> string option" where
  "release_build_sha b = Option.bind (bu_release_sha b) short_hex_sha"

definition make_context :: "build \<Rightarrow> telemetry_consent \<Rightarrow> actor_context" where
  "make_context b consent =
     \<lparr>cx_root = co_root consent, cx_endpoint = co_endpoint consent, cx_surface = co_surface consent,
      cx_app_version = bu_app_version b, cx_git_sha = release_build_sha b,
      cx_os = current_os (bu_os b), cx_arch = current_arch (bu_arch b), cx_libc = bu_libc b,
      cx_tty = bu_tty b\<rparr>"

definition init ::
    "codec \<Rightarrow> faults \<Rightarrow> faults \<Rightarrow> faults \<Rightarrow> build \<Rightarrow> telemetry_inputs \<Rightarrow> telemetry_consent
       \<Rightarrow> process \<Rightarrow> homes \<Rightarrow> process \<times> homes" where
  "init c f f_check f_state b inputs consent p fs =
     (if is_armed p then (p, fs)
      else (let root = co_root consent in
            case arm f (co_generation consent)
                   (\<lambda>d. permission_still_enabled (url_parse c) f_check inputs root (fs(root := d)))
                   (fs root) of
              (Inl _, d) \<Rightarrow> (p, fs(root := d))
            | (Inr _, d) \<Rightarrow>
                record_install_or_upgrade c f_state (bu_app_version b) root
                  (Some \<lparr>ar_context = make_context b consent, ar_queue = [], ar_stopped = False,
                         ar_exit_class = exit_class_as_u8 ExitClean\<rparr>)
                  (fs(root := d))))"

text \<open>
  \<open>round_trip\<close> queues the last message behind the queued events and waits for the writer's answer.
  A writer that does not answer within the deadline (\<open>in_time\<close> false) still does its work.
\<close>

definition round_trip ::
    "codec \<Rightarrow> faults \<Rightarrow> faults \<Rightarrow> bool \<Rightarrow> actor_message \<Rightarrow> armed \<Rightarrow> homes
       \<Rightarrow> flush_outcome \<times> post list \<times> armed \<times> homes" where
  "round_trip c f f_ring in_time last_msg a fs =
     (if ar_stopped a then (FlTimedOut, [], a, fs)
      else (case actor_run c (ar_context a)
                   (map (\<lambda>e. EventMsg e f f_ring) (ar_queue a) @ [last_msg]) fs of
              (r, posts, fs1) \<Rightarrow>
                (case r of Some outcome \<Rightarrow> if in_time then outcome else FlTimedOut | None \<Rightarrow> FlTimedOut,
                 posts, a\<lparr>ar_queue := [], ar_stopped := r \<noteq> None\<rparr>, fs1)))"

definition shutdown_blocking ::
    "codec \<Rightarrow> faults \<Rightarrow> faults \<Rightarrow> bool \<Rightarrow> surroundings \<Rightarrow> process \<Rightarrow> homes
       \<Rightarrow> flush_outcome \<times> post list \<times> process \<times> homes" where
  "shutdown_blocking c f f_ring in_time su p fs =
     (case p of
        None \<Rightarrow> (FlEmpty, [], p, fs)
      | Some a \<Rightarrow>
          (case round_trip c f f_ring in_time (ShutdownMsg su) a fs of
             (r, posts, a', fs1) \<Rightarrow> (r, posts, Some a', fs1)))"

definition persist_local_blocking ::
    "codec \<Rightarrow> faults \<Rightarrow> faults \<Rightarrow> bool \<Rightarrow> surroundings \<Rightarrow> surroundings \<Rightarrow> process \<Rightarrow> homes
       \<Rightarrow> flush_outcome \<times> post list \<times> process \<times> homes" where
  "persist_local_blocking c f f_ring in_time su su_flush p fs =
     (case p of
        None \<Rightarrow> (FlEmpty, [], p, fs)
      | Some a \<Rightarrow>
          (case round_trip c f f_ring in_time (PersistLocalMsg su su_flush) a fs of
             (r, posts, a', fs1) \<Rightarrow> (r, posts, Some a', fs1)))"

section \<open>Safety of the writer\<close>

subsection \<open>What a batch can hold\<close>

lemma parse_events_from_spec:
  assumes "length events \<le> BATCH_MAX_EVENTS" "bytes \<le> BATCH_MAX_BYTES"
  obtains used new where "subseq used ls" "parse_events_from c ls events bytes = events @ new"
    "map (event_of_json c) used = map Some new" "list_all is_bounded new"
    "length (events @ new) \<le> BATCH_MAX_EVENTS" "bytes + sum_list (map length used) \<le> BATCH_MAX_BYTES"
  using assms
proof (induction ls arbitrary: events bytes thesis)
  case Nil
  show ?case by (rule Nil(1) [of "[]" "[]"]) (use Nil in auto)
next
  case (Cons l ls)
  show ?case
  proof (cases "length events \<ge> BATCH_MAX_EVENTS \<or> bytes + length l > BATCH_MAX_BYTES")
    case True
    show ?thesis by (rule Cons(2) [of "[]" "[]"]) (use Cons True in auto)
  next
    case room: False
    show ?thesis
    proof (cases "\<exists>e. event_of_json c l = Some e \<and> is_bounded e")
      case True
      then obtain e where e: "event_of_json c l = Some e" "is_bounded e" by blast
      obtain used new where rest: "subseq used ls"
        "parse_events_from c ls (events @ [e]) (bytes + length l) = (events @ [e]) @ new"
        "map (event_of_json c) used = map Some new" "list_all is_bounded new"
        "length ((events @ [e]) @ new) \<le> BATCH_MAX_EVENTS"
        "bytes + length l + sum_list (map length used) \<le> BATCH_MAX_BYTES"
        by (rule Cons(1) [of "events @ [e]" "bytes + length l"]) (use room in auto)
      show ?thesis
        by (rule Cons(2) [of "l # used" "e # new"]) (use rest e room in auto)
    next
      case False
      then have skip: "parse_events_from c (l # ls) events bytes = parse_events_from c ls events bytes"
        using room by (auto split: option.splits)
      show ?thesis
        by (rule Cons(1) [OF _ Cons(3,4)])
          (rule Cons(2), simp_all add: skip list_emb_Cons del: parse_events_from.simps)
    qed
  qed
qed

text \<open>Whatever the buffer file holds, a batch has at most 200
  events, parsed in order from drained lines of at most 64 KiB in all, and every string in them
  is within its declared bounds.\<close>

lemma parse_events_bounds:
  "\<exists>used. subseq used ls \<and> map (event_of_json c) used = map Some (parse_events c ls) \<and>
     length (parse_events c ls) \<le> BATCH_MAX_EVENTS \<and>
     sum_list (map length used) \<le> BATCH_MAX_BYTES \<and> list_all is_bounded (parse_events c ls)"
  by (rule parse_events_from_spec [of "[]" 0 ls c]) (auto simp: parse_events_def)

lemma parse_events_limits:
  "length (parse_events c ls) \<le> BATCH_MAX_EVENTS" "list_all is_bounded (parse_events c ls)"
  by (rule parse_events_from_spec [of "[]" 0 ls c]; simp add: parse_events_def)+

lemma parse_events_from_all:
  assumes "map (event_of_json c) ls = map Some new" "list_all is_bounded new"
    "length events + length new \<le> BATCH_MAX_EVENTS"
    "bytes + sum_list (map length ls) \<le> BATCH_MAX_BYTES"
  shows "parse_events_from c ls events bytes = events @ new"
  using assms
proof (induction ls arbitrary: events bytes new)
  case (Cons l ls)
  then obtain e new' where new: "new = e # new'" by (cases new) auto
  have "parse_events_from c ls (events @ [e]) (bytes + length l) = (events @ [e]) @ new'"
    by (rule Cons(1)) (use Cons new in auto)
  then show ?case using Cons new by simp
qed simp

subsection \<open>The gate, for the identity, the state and the delivery\<close>

interpretation install_id: gated_section f "install_id_under_lock c f fresh now"
  by unfold_locales (simp add: install_id_under_lock_def)

interpretation state_write: gated_section f "write_state_under_lock c f st"
  by unfold_locales (simp add: write_state_under_lock_def)

interpretation posting: gated_section f "post_under_lock f endpoint app_version body answer"
  for f endpoint app_version body answer
  by unfold_locales (simp add: post_under_lock_def)

lemma snd_require_lock [simp]: "snd (require_lock r) = snd r"
  by (auto simp: require_lock_def split: prod.splits sum.splits option.splits)

interpretation identity: gated "read_or_create_install_id c f fresh now" "exists_answers f"
  by unfold_locales (simp add: read_or_create_install_id_def install_id.lock.gate)

interpretation state: gated "write_state c f st" "exists_answers f"
  by unfold_locales (simp add: write_state_def state_write.lock.gate)

text \<open>A POST leaves the files as they are, and there is none while the tombstone is in place.\<close>

lemma post_under_lock_result:
  assumes "try_with_lock f (post_under_lock f e v body answer) d = (r, d')"
  shows "same_files d d'"
    "r = Inr (Some (outcome, posts)) \<Longrightarrow>
       (if tombstone_seen f TombstoneLocked d then posts = [] \<and> outcome = SendDropped
        else outcome = answer \<and> posts = [\<lparr>po_endpoint = e, po_app_version = v, po_body = body\<rparr>])"
  using assms
  by (cases rule: try_with_lock_cases [of f "post_under_lock f e v body answer" d];
      auto simp: post_under_lock_def tombstone_seen_same split: if_splits)+

lemma send_posts:
  assumes "send_with_transport c f f_ring endpoint b answer d = (outcome, posts, d')"
  shows "posts = [] \<or> (\<exists>e body. endpoint = Some e \<and> batch_to_json c b = Some body \<and>
      \<not> tombstone_seen f TombstoneLocked d \<and> outcome = answer \<and>
      posts = [\<lparr>po_endpoint = e, po_app_version = ba_app_version b, po_body = body\<rparr>])"
proof (cases "batch_to_json c b")
  case (Some body)
  show ?thesis
  proof (cases endpoint)
    case None
    then show ?thesis using assms Some
      by (auto simp: send_with_transport_def split: prod.splits option.splits)
  next
    case e: (Some e)
    obtain r d1 where run: "try_with_lock f (post_under_lock f e (ba_app_version b) body answer) d = (r, d1)"
      by (metis surj_pair)
    show ?thesis
      using assms Some e run post_under_lock_result(2) [OF run]
      by (auto simp: send_with_transport_def split: sum.splits option.splits prod.splits if_splits)
  qed
qed (use assms in \<open>simp add: send_with_transport_def\<close>)

interpretation sending: gated "\<lambda>d. case send_with_transport c f f_ring endpoint b answer d of
    (outcome, posts, d') \<Rightarrow> ((outcome, posts), d')" "exists_answers f"
proof
  fix d
  assume present: "exists_answers f" "tombstone_present d"
  have dry: "same_files d (snd (append_locked f f_ring DryrunSink body d))" for body
    using append.gate [OF present] by (simp add: append_locked_def)
  have net: "same_files d (snd (try_with_lock f (post_under_lock f e v body answer) d))" for e v body
    using posting.lock.gate [OF present] .
  show "same_files d (snd (case send_with_transport c f f_ring endpoint b answer d of
      (outcome, posts, d') \<Rightarrow> ((outcome, posts), d')))"
  proof (cases "batch_to_json c b")
    case (Some body)
    show ?thesis
    proof (cases endpoint)
      case None
      then show ?thesis using dry [of body] Some
        by (cases "append_locked f f_ring DryrunSink body d")
          (simp add: send_with_transport_def split: option.splits)
    next
      case e: (Some e)
      then show ?thesis using net [of e "ba_app_version b" body] Some
        by (cases "try_with_lock f (post_under_lock f e (ba_app_version b) body answer) d")
          (simp add: send_with_transport_def split: sum.splits option.splits prod.splits)
    qed
  qed (simp add: send_with_transport_def)
qed

subsection \<open>Interleavings\<close>

text \<open>
  The sessions and commands that share one telemetry directory interleave at the granularity of
  the lock: one step is one critical section, run by any process, with any faults, but one that
  checks the tombstone gets an answer. \<open>wo_wire\<close> is what has been posted so far.
\<close>

record world =
  wo_dir :: tdir
  wo_wire :: "post list"

datatype action = Collect | WipeBy string | ArmBy "string option"

definition posts_of :: "io_error + (send_outcome \<times> post list) option \<Rightarrow> post list" where
  "posts_of r = (case r of Inr (Some (_, posts)) \<Rightarrow> posts | _ \<Rightarrow> [])"

inductive telemetry_step :: "world \<Rightarrow> action \<Rightarrow> world \<Rightarrow> bool" where
  step_append: "exists_answers f \<Longrightarrow> telemetry_step w Collect
     (w\<lparr>wo_dir := snd (try_with_lock f (append_under_lock f s buf) (wo_dir w))\<rparr>)"
| step_ring: "exists_answers f \<Longrightarrow> telemetry_step w Collect
     (w\<lparr>wo_dir := snd (try_with_lock f (ring_under_lock f s) (wo_dir w))\<rparr>)"
| step_drain: "exists_answers f \<Longrightarrow> telemetry_step w Collect
     (w\<lparr>wo_dir := snd (try_with_lock f (drain_under_lock f) (wo_dir w))\<rparr>)"
| step_install: "exists_answers f \<Longrightarrow> telemetry_step w Collect
     (w\<lparr>wo_dir := snd (try_with_lock f (install_id_under_lock c f fresh now) (wo_dir w))\<rparr>)"
| step_state: "exists_answers f \<Longrightarrow> telemetry_step w Collect
     (w\<lparr>wo_dir := snd (try_with_lock f (write_state_under_lock c f st) (wo_dir w))\<rparr>)"
| step_post: "exists_answers f \<Longrightarrow> try_with_lock f (post_under_lock f e v body answer) (wo_dir w) = (r, d') \<Longrightarrow>
     telemetry_step w Collect (w\<lparr>wo_dir := d', wo_wire := wo_wire w @ posts_of r\<rparr>)"
| step_wipe: "telemetry_step w (WipeBy uuid) (w\<lparr>wo_dir := snd (wipe f uuid (wo_dir w))\<rparr>)"
| step_arm: "telemetry_step w (ArmBy observed)
     (w\<lparr>wo_dir := snd (arm f observed permitted (wo_dir w))\<rparr>)"

inductive_cases telemetry_stepE: "telemetry_step w a w'"

inductive telemetry_run :: "world \<Rightarrow> action list \<Rightarrow> world \<Rightarrow> bool" where
  run_done: "telemetry_run w [] w"
| run_step: "telemetry_step w a w1 \<Longrightarrow> telemetry_run w1 as w2 \<Longrightarrow> telemetry_run w (a # as) w2"

inductive_simps telemetry_run_Nil: "telemetry_run w [] w'"
inductive_simps telemetry_run_Cons: "telemetry_run w (a # as) w'"

lemma collect_gated:
  assumes "telemetry_step w Collect w'" "tombstone_present (wo_dir w)"
  shows "same_files (wo_dir w) (wo_dir w') \<and> wo_wire w' = wo_wire w"
  using assms(1)
proof cases
  case (step_post f e v body answer r d')
  have "posts_of r = []"
    using post_under_lock_result(2) [OF step_post(3)] step_post(2) assms(2)
    by (auto simp: posts_of_def split: sum.splits option.splits)
  then show ?thesis
    using post_under_lock_result(1) [OF step_post(3)] step_post(1) by simp
qed (simp_all add: assms(2) appending.lock.gate compacting.lock.gate draining.lock.gate
    install_id.lock.gate state_write.lock.gate)

lemma truncate_sink_dir: "snd (truncate_sink f s d) = d \<or> snd (truncate_sink f s d) = set_sink s (Some []) d"
  by (simp add: truncate_sink_def Let_def split: option.split)

lemma no_trace_kept_by:
  "no_trace d \<Longrightarrow> no_trace (snd (truncate_sink f s d))" "no_trace d \<Longrightarrow> no_trace (snd (remove_install_id f d))"
  "no_trace d \<Longrightarrow> no_trace (snd (remove_state f d))"
proof -
  have "no_trace d \<Longrightarrow> no_trace (set_sink s (Some []) d)" by (cases s) (simp_all add: no_trace_def set_sink_def)
  then show "no_trace d \<Longrightarrow> no_trace (snd (truncate_sink f s d))" using truncate_sink_dir [of f s d] by auto
qed (simp_all add: remove_install_id_def remove_state_def no_trace_def)

lemma wipe_files_no_trace: "no_trace d \<Longrightarrow> no_trace (snd (wipe_files f d))"
  by (simp add: wipe_files_def Let_def split_beta no_trace_kept_by)

lemma wipe_no_trace:
  assumes "no_trace d"
  shows "no_trace (snd (wipe f uuid d))"
proof (cases rule: with_lock_cases [of f "wipe_under_lock f uuid" d])
  case (failed d1)
  then show ?thesis using assms same_filesD(4) [OF failed(2)] by (simp add: wipe_def)
next
  case (locked d1)
  have d1: "no_trace d1" using assms same_filesD(4) [OF locked(2)] by simp
  obtain r e where run: "write_tombstone f uuid d1 = (r, e)" by (metis surj_pair)
  have "no_trace e" using write_tombstone_spec(1) [OF run] d1 by (simp add: collected_def no_trace_def)
  then have "no_trace (snd (wipe_under_lock f uuid d1))"
    using d1 run wipe_files_no_trace
    by (auto simp: wipe_under_lock_def split: sum.splits option.splits)
  then show ?thesis using locked(1) by (simp add: wipe_def)
qed

lemma wipe_tombstone:
  "td_tombstone (snd (wipe f uuid d)) = td_tombstone d \<or>
     (\<exists>n. td_tombstone (snd (wipe f uuid d)) = Some (take n uuid))"
proof (cases rule: with_lock_cases [of f "wipe_under_lock f uuid" d])
  case (failed d1)
  then show ?thesis using same_filesD(2) [OF failed(2)] by (simp add: wipe_def)
next
  case (locked d1)
  show ?thesis
    using wipe_under_lock_spec(3) [of f uuid d1 "fst (wipe_under_lock f uuid d1)" "snd (wipe_under_lock f uuid d1)"]
      locked same_filesD(2) [OF locked(2)] by (simp add: wipe_def)
qed

lemma arm_other_generation:
  assumes "td_tombstone d \<noteq> observed"
  shows "same_files d (snd (arm f observed permitted d))"
proof (cases rule: arm_cases [of f observed permitted d])
  case (locked d1)
  have "snd (arm_under_lock f observed permitted d1) = d1"
    using arm_under_lock_spec(3) [of f observed permitted d1] assms same_filesD(2) [OF locked(2)]
    by (metis prod.collapse)
  then show ?thesis using locked by simp
qed simp

text \<open>The contents a tombstone can get from the wipes of a run: all or a part of a fresh identifier.\<close>

definition generations :: "string \<Rightarrow> action list \<Rightarrow> string set" where
  "generations g as = insert g {take n uuid | n uuid. WipeBy uuid \<in> set as}"

lemma opted_out_step:
  assumes "telemetry_step w a w'" "td_tombstone (wo_dir w) = Some h" "no_trace (wo_dir w)"
    "h \<in> G" "\<And>uuid n. a = WipeBy uuid \<Longrightarrow> take n uuid \<in> G" "\<And>h'. h' \<in> G \<Longrightarrow> a \<noteq> ArmBy (Some h')"
  shows "no_trace (wo_dir w') \<and> wo_wire w' = wo_wire w \<and> (\<exists>h' \<in> G. td_tombstone (wo_dir w') = Some h')"
proof (cases a)
  case Collect
  have "tombstone_present (wo_dir w)" using assms(2) by (simp add: tombstone_present_def)
  then have "same_files (wo_dir w) (wo_dir w')" "wo_wire w' = wo_wire w"
    using collect_gated assms(1) Collect by blast+
  then show ?thesis using assms(2,3,4) same_filesD(2,4) by auto
next
  case (WipeBy uuid)
  obtain f where w': "w' = w\<lparr>wo_dir := snd (wipe f uuid (wo_dir w))\<rparr>"
    using assms(1) WipeBy by (auto elim: telemetry_stepE)
  have "\<exists>h' \<in> G. td_tombstone (snd (wipe f uuid (wo_dir w))) = Some h'"
    using wipe_tombstone [of f uuid "wo_dir w"] assms(2,4) assms(5) [OF WipeBy] by auto
  then show ?thesis using w' wipe_no_trace [OF assms(3)] by simp
next
  case (ArmBy observed)
  obtain f permitted where w': "w' = w\<lparr>wo_dir := snd (arm f observed permitted (wo_dir w))\<rparr>"
    using assms(1) ArmBy by (auto elim: telemetry_stepE)
  have "td_tombstone (wo_dir w) \<noteq> observed" using assms(2,4) assms(6) [of h] ArmBy by auto
  then have "same_files (wo_dir w) (wo_dir w')" using arm_other_generation w' by simp
  then show ?thesis using assms(2,3,4) w' same_filesD(2,4) by auto
qed

lemma opted_out_run:
  assumes "telemetry_run w as w'" "td_tombstone (wo_dir w) = Some h" "no_trace (wo_dir w)" "h \<in> G"
    "\<And>uuid n. WipeBy uuid \<in> set as \<Longrightarrow> take n uuid \<in> G" "\<And>h'. h' \<in> G \<Longrightarrow> ArmBy (Some h') \<notin> set as"
  shows "no_trace (wo_dir w') \<and> wo_wire w' = wo_wire w \<and> tombstone_present (wo_dir w')"
  using assms
proof (induction w as w' arbitrary: h rule: telemetry_run.induct)
  case (run_done w)
  then show ?case by (simp add: tombstone_present_def)
next
  case (run_step w a w1 as w2)
  have "no_trace (wo_dir w1) \<and> wo_wire w1 = wo_wire w \<and> (\<exists>h' \<in> G. td_tombstone (wo_dir w1) = Some h')"
    by (rule opted_out_step [OF run_step(1,4,5,6)]) (use run_step(7,8) in auto)
  then show ?case using run_step(3) run_step(7,8) by (metis list.set_intros(2))
qed

text \<open>Claim C5 (opt_out_is_final): once an opt-out has wiped the directory, no interleaving of
  appends, compactions, drains, identity and state writes, deliveries and further wipes, with
  any faults, stores anything, posts anything or removes the tombstone, until a process arms
  with the very generation of the tombstone that is in place. Any system call may fail but the
  ones that tell whether a file exists, in the first wipe and in the sections that check the
  tombstone: a failed one reads as an absent file.\<close>

theorem opt_out_is_final:
  assumes "telemetry_run w as w'" "wipe f uuid d = (Inr (), wo_dir w)" "exists_answers f"
    "\<forall>g h. td_tombstone (wo_dir w) = Some g \<and> h \<in> generations g as \<longrightarrow> ArmBy (Some h) \<notin> set as"
  shows "no_trace (wo_dir w') \<and> wo_wire w' = wo_wire w \<and> tombstone_present (wo_dir w')"
proof -
  obtain d1 where run: "wipe_under_lock f uuid d1 = (Inr (), wo_dir w)"
    using assms(2) by (cases rule: with_lock_cases [of f "wipe_under_lock f uuid" d]) (auto simp: wipe_def)
  obtain g where g: "td_tombstone (wo_dir w) = Some g" and "no_trace (wo_dir w)"
    using wipe_under_lock_spec(1,2) [OF run] assms(3) by simp
  then show ?thesis
    using opted_out_run [OF assms(1) g, of "generations g as"] assms(4)
    by (auto simp: generations_def)
qed

text \<open>A flush that races with the wipe: its drain and its delivery come after it.\<close>

theorem opt_out_is_final_witness:
  "let d = snd (wipe no_faults ''u'' sample_dir);
       r = try_with_lock no_faults (post_under_lock no_faults ''https://t'' ''1.0.0'' ''b'' Accepted) d
   in no_trace (snd r) \<and> posts_of (fst r) = [] \<and> tombstone_present (snd r)"
proof -
  define w where "w = \<lparr>wo_dir = snd (wipe no_faults ''u'' sample_dir), wo_wire = []\<rparr>"
  obtain r d' where run: "try_with_lock no_faults
      (post_under_lock no_faults ''https://t'' ''1.0.0'' ''b'' Accepted) (wo_dir w) = (r, d')"
    by (metis surj_pair)
  have "telemetry_run w [Collect] (w\<lparr>wo_dir := d', wo_wire := wo_wire w @ posts_of r\<rparr>)"
    using run_step [OF step_post [OF no_faults_exists run] run_done] .
  moreover have "wipe no_faults ''u'' sample_dir = (Inr (), wo_dir w)"
  proof -
    have "fst (wipe no_faults ''u'' sample_dir) = Inr ()" by code_simp
    then show ?thesis by (simp add: w_def prod_eq_iff)
  qed
  ultimately have "no_trace d' \<and> wo_wire w @ posts_of r = wo_wire w \<and> tombstone_present d'"
    using opt_out_is_final [of w "[Collect]" "w\<lparr>wo_dir := d', wo_wire := wo_wire w @ posts_of r\<rparr>"]
    by simp
  then show ?thesis using run by (simp add: w_def Let_def)
qed

subsection \<open>The writer is made of critical sections\<close>

text \<open>
  The directory and the posts one operation leads to, as a run of critical sections none of
  which arms: wipes use identifiers of the given set.
\<close>

definition reaches :: "string set \<Rightarrow> tdir \<Rightarrow> post list \<Rightarrow> tdir \<Rightarrow> bool" where
  "reaches U d posts d' \<longleftrightarrow>
     (\<exists>as. set as \<subseteq> insert Collect (WipeBy ` U) \<and>
        (\<forall>sent. telemetry_run \<lparr>wo_dir = d, wo_wire = sent\<rparr> as \<lparr>wo_dir = d', wo_wire = sent @ posts\<rparr>))"

lemma telemetry_run_append:
  "telemetry_run w as w1 \<Longrightarrow> telemetry_run w1 bs w2 \<Longrightarrow> telemetry_run w (as @ bs) w2"
  by (induction rule: telemetry_run.induct) (auto intro: telemetry_run.intros)

lemma reaches_refl [simp]: "reaches U d [] d"
  unfolding reaches_def by (rule exI [of _ "[]"]) (simp add: run_done)

lemma reaches_trans:
  assumes "reaches U d posts d1" "reaches U d1 posts' d2"
  shows "reaches U d (posts @ posts') d2"
proof -
  obtain as bs where as: "set as \<subseteq> insert Collect (WipeBy ` U)" "set bs \<subseteq> insert Collect (WipeBy ` U)"
    "\<And>sent. telemetry_run \<lparr>wo_dir = d, wo_wire = sent\<rparr> as \<lparr>wo_dir = d1, wo_wire = sent @ posts\<rparr>"
    "\<And>sent. telemetry_run \<lparr>wo_dir = d1, wo_wire = sent\<rparr> bs \<lparr>wo_dir = d2, wo_wire = sent @ posts'\<rparr>"
    using assms unfolding reaches_def by blast
  then have "telemetry_run \<lparr>wo_dir = d, wo_wire = sent\<rparr> (as @ bs)
      \<lparr>wo_dir = d2, wo_wire = sent @ posts @ posts'\<rparr>" for sent
    using telemetry_run_append [OF as(3) as(4)] by simp
  then show ?thesis unfolding reaches_def using as(1,2) by (metis set_append Un_subset_iff)
qed

lemma reaches_step:
  assumes "\<And>sent. telemetry_step \<lparr>wo_dir = d, wo_wire = sent\<rparr> a \<lparr>wo_dir = d', wo_wire = sent @ posts\<rparr>"
    "a \<in> insert Collect (WipeBy ` U)"
  shows "reaches U d posts d'"
  unfolding reaches_def
  by (rule exI [of _ "[a]"]) (use assms in \<open>auto intro: run_step [OF _ run_done]\<close>)

text \<open>The critical sections that post nothing.\<close>

lemma reaches_collect:
  assumes "\<And>sent. telemetry_step \<lparr>wo_dir = d, wo_wire = sent\<rparr> Collect
      (\<lparr>wo_dir = d, wo_wire = sent\<rparr>\<lparr>wo_dir := d'\<rparr>)"
  shows "reaches U d [] d'"
  by (rule reaches_step [of _ Collect]) (use assms in auto)

lemma reaches_sections [intro]:
  "exists_answers f \<Longrightarrow> reaches U d [] (snd (try_with_lock f (append_under_lock f s buf) d))"
  "exists_answers f \<Longrightarrow> reaches U d [] (snd (try_with_lock f (ring_under_lock f s) d))"
  "exists_answers f \<Longrightarrow> reaches U d [] (snd (try_with_lock f (drain_under_lock f) d))"
  "exists_answers f \<Longrightarrow> reaches U d [] (snd (try_with_lock f (install_id_under_lock c f fresh now) d))"
  "exists_answers f \<Longrightarrow> reaches U d [] (snd (try_with_lock f (write_state_under_lock c f st) d))"
  using step_append step_ring step_drain step_install step_state
  by (intro reaches_collect; simp; metis select_convs(1) update_convs(1) | fail)+

lemma reaches_ring [intro]: "exists_answers f \<Longrightarrow> reaches U d [] (enforce_ring f s d)"
  by (auto simp: enforce_ring_def split: option.splits)

lemma reaches_appending [intro]:
  assumes "exists_answers f" "exists_answers f_ring"
  shows "reaches U d [] (snd (append_with_limit f f_ring s line limit d))"
proof -
  obtain r d1 where run: "try_with_lock f (append_under_lock f s (line @ [NL])) d = (r, d1)"
    by (metis surj_pair)
  have "reaches U d [] d1" using reaches_sections(1) [OF assms(1), of U d s "line @ [NL]"] run by simp
  moreover from this have "reaches U d [] (enforce_ring f_ring s d1)"
    using reaches_trans [OF _ reaches_ring [OF assms(2)], of U d "[]"] by simp
  ultimately show ?thesis
    using run by (auto simp: append_with_limit_def split: sum.splits option.splits bool.splits)
qed

lemma reaches_drain [intro]:
  assumes "exists_answers f"
  shows "reaches U d [] (snd (drain f d))"
proof -
  obtain r d1 where run: "try_with_lock f (drain_under_lock f) d = (r, d1)" by (metis surj_pair)
  have "reaches U d [] d1" using reaches_sections(3) [OF assms, of U d] run by simp
  then show ?thesis using run by (auto simp: drain_def split: sum.splits option.splits)
qed

lemma reaches_identity [intro]: "exists_answers f \<Longrightarrow> reaches U d [] (snd (read_or_create_install_id c f fresh now d))"
  by (auto simp: read_or_create_install_id_def)

lemma reaches_state [intro]: "exists_answers f \<Longrightarrow> reaches U d [] (snd (write_state c f st d))"
  by (auto simp: write_state_def)

lemma reaches_send:
  assumes "send_with_transport c f f_ring endpoint b answer d = (outcome, posts, d')" "exists_answers f"
    "exists_answers f_ring"
  shows "reaches U d posts d'"
proof (cases "batch_to_json c b")
  case body: (Some body)
  show ?thesis
  proof (cases endpoint)
    case None
    have "reaches U d [] (snd (append_locked f f_ring DryrunSink body d))"
      unfolding append_locked_def by (rule reaches_appending [OF assms(2,3)])
    then show ?thesis using assms body None
      by (cases "append_locked f f_ring DryrunSink body d")
        (auto simp: send_with_transport_def split: option.splits)
  next
    case e: (Some e)
    obtain r d1 where run: "try_with_lock f (post_under_lock f e (ba_app_version b) body answer) d = (r, d1)"
      by (metis surj_pair)
    have "telemetry_step \<lparr>wo_dir = d, wo_wire = sent\<rparr> Collect \<lparr>wo_dir = d1, wo_wire = sent @ posts_of r\<rparr>"
      for sent
      using step_post [OF assms(2), of e "ba_app_version b" body answer "\<lparr>wo_dir = d, wo_wire = sent\<rparr>" r d1] run
      by simp
    then have "reaches U d (posts_of r) d1" by (rule reaches_step) simp
    then show ?thesis using assms body e run
      by (auto simp: send_with_transport_def posts_of_def split: sum.splits option.splits prod.splits)
  qed
qed (use assms in \<open>simp add: send_with_transport_def\<close>)

text \<open>Surroundings in which every check whether a file exists is answered.\<close>

definition surroundings_answer :: "surroundings \<Rightarrow> bool" where
  "surroundings_answer su \<longleftrightarrow>
     list_all exists_answers [su_decide su, su_drain su, su_install su, su_state su, su_send su, su_ring su]"

lemma deliver_cases:
  assumes "deliver c cx su events d = (r, posts, d')"
  obtains (no_identity) "r = FlDropped" "posts = []"
      "d' = snd (read_or_create_install_id c (su_install su) (su_fresh_id su) (su_now su) d)"
  | (sent) install d1 st outcome where
      "read_or_create_install_id c (su_install su) (su_fresh_id su) (su_now su) d = (Inr install, d1)"
      "send_with_transport c (su_send su) (su_ring su) (cx_endpoint cx)
         (make_batch cx su (ii_install_id install) events) (su_answer su)
         (snd (write_state c (su_state su) st d1)) = (outcome, posts, d')"
      "r = (case outcome of SentDryRun \<Rightarrow> FlDryRun | Accepted \<Rightarrow> FlSent | SendDropped \<Rightarrow> FlDropped)"
  using assms
  by (auto simp: deliver_def Let_def split: prod.splits sum.splits send_outcome.splits)

lemma reaches_deliver:
  assumes "deliver c cx su events d = (r, posts, d')" "surroundings_answer su"
  shows "reaches U d posts d'"
  using assms(1)
proof (cases rule: deliver_cases)
  case no_identity
  then show ?thesis using assms(2) by (auto simp: surroundings_answer_def)
next
  case (sent install d1 st outcome)
  have "reaches U d [] d1"
    using reaches_identity [of "su_install su" U d c "su_fresh_id su" "su_now su"] sent(1) assms(2)
    by (simp add: surroundings_answer_def)
  from reaches_trans [OF this reaches_state, of "su_state su" c st]
  have "reaches U d [] (snd (write_state c (su_state su) st d1))" using assms(2) by (simp add: surroundings_answer_def)
  from reaches_trans [OF this reaches_send [OF sent(2)]] show ?thesis using assms(2) by (simp add: surroundings_answer_def)
qed

lemma reaches_flush_enabled:
  assumes "flush_enabled c cx su d = (r, posts, d')" "surroundings_answer su"
  shows "reaches U d posts d'"
proof -
  obtain ls d1 where drained: "drain (su_drain su) d = (ls, d1)" by (metis surj_pair)
  have d1: "reaches U d [] d1" using reaches_drain [of "su_drain su" U d] drained assms(2) by (simp add: surroundings_answer_def)
  have "deliver c cx su (parse_events c ls) d1 = (r, posts, d') \<Longrightarrow> reaches U d posts d'"
    using reaches_trans [OF d1 reaches_deliver] assms(2) by simp
  then show ?thesis using assms drained d1
    by (auto simp: flush_enabled_def Let_def split: if_splits)
qed

lemma decide_reaches:
  assumes "decide parse f uuid inputs sf fs = (dec, fs')" "uuid \<in> U"
  shows "reaches U (fs p) [] (fs' p)"
proof -
  have wiped: "reaches U d [] (snd (wipe f uuid d))" for d
    using step_wipe [of "\<lparr>wo_dir = d, wo_wire = sent\<rparr>" uuid f for sent] assms(2)
    by (intro reaches_step [of _ "WipeBy uuid"]) auto
  show ?thesis
    using assms(1) wiped
    by (auto simp: decide_def opted_out_def split: telemetry_evaluation.splits option.splits if_splits)
qed

lemma reaches_flush:
  assumes "flush c cx su fs = (r, posts, fs')" "su_tombstone su \<in> U" "surroundings_answer su"
  shows "reaches U (fs (cx_root cx)) posts (fs' (cx_root cx))"
proof -
  obtain dec fs1 where dec: "decide (url_parse c) (su_decide su) (su_tombstone su) (su_inputs su)
      (cx_surface cx) fs = (dec, fs1)" by (metis surj_pair)
  have start: "reaches U (fs (cx_root cx)) [] (fs1 (cx_root cx))"
    by (rule decide_reaches [OF dec assms(2)])
  show ?thesis
  proof (cases dec)
    case (Enabled consent)
    obtain d where "flush_enabled c cx su (fs1 (cx_root cx)) = (r, posts, d)" "fs' = fs1(cx_root cx := d)"
      using assms(1) dec Enabled by (auto simp: flush_def split: prod.splits)
    then show ?thesis using reaches_trans [OF start reaches_flush_enabled] assms(3) by simp
  qed (use assms(1) dec start in \<open>auto simp: flush_def\<close>)
qed

lemma reaches_persist_local:
  assumes "persist_local c cx su su' fs = (r, posts, fs')" "su_tombstone su \<in> U" "su_tombstone su' \<in> U"
    "surroundings_answer su'"
  shows "reaches U (fs (cx_root cx)) posts (fs' (cx_root cx))"
proof -
  obtain dec fs1 where dec: "decide (url_parse c) (su_decide su) (su_tombstone su) (su_inputs su)
      (cx_surface cx) fs = (dec, fs1)" by (metis surj_pair)
  have start: "reaches U (fs (cx_root cx)) [] (fs1 (cx_root cx))"
    by (rule decide_reaches [OF dec assms(2)])
  have "flush c cx su' fs1 = (r, posts, fs') \<Longrightarrow> reaches U (fs (cx_root cx)) posts (fs' (cx_root cx))"
    using reaches_trans [OF start reaches_flush [of c cx su' fs1 r posts fs', OF _ assms(3,4)]] by simp
  then show ?thesis using assms(1) dec start
    by (auto simp: persist_local_def split: telemetry_decision.splits if_splits)
qed

fun message_uuids :: "actor_message \<Rightarrow> string set" where
  "message_uuids (EventMsg e f g) = {}"
| "message_uuids (PersistLocalMsg su su') = {su_tombstone su, su_tombstone su'}"
| "message_uuids (ShutdownMsg su) = {su_tombstone su}"

fun message_answers :: "actor_message \<Rightarrow> bool" where
  "message_answers (EventMsg e f f_ring) \<longleftrightarrow> exists_answers f \<and> exists_answers f_ring"
| "message_answers (PersistLocalMsg su su') \<longleftrightarrow> surroundings_answer su \<and> surroundings_answer su'"
| "message_answers (ShutdownMsg su) \<longleftrightarrow> surroundings_answer su"

lemma reaches_actor_append:
  "exists_answers f \<Longrightarrow> exists_answers f_ring \<Longrightarrow>
   reaches U (fs (cx_root cx)) [] (actor_append c f f_ring cx e fs (cx_root cx))"
  using reaches_appending [of f f_ring U "fs (cx_root cx)" BufferSink _ MAX_LINE_BYTES]
  by (cases "event_to_json c e") (simp_all add: actor_append_def append_line_def)

lemma reaches_actor_run:
  assumes "actor_run c cx ms fs = (r, posts, fs')" "\<Union> (message_uuids ` set ms) \<subseteq> U"
    "list_all message_answers ms"
  shows "reaches U (fs (cx_root cx)) posts (fs' (cx_root cx))"
  using assms
proof (induction c cx ms fs rule: actor_run.induct)
  case (2 c cx e f f_ring ms fs)
  have "reaches U (actor_append c f f_ring cx e fs (cx_root cx)) posts (fs' (cx_root cx))"
    using 2 by simp
  moreover have "reaches U (fs (cx_root cx)) [] (actor_append c f f_ring cx e fs (cx_root cx))"
    by (rule reaches_actor_append) (use 2(4) in simp_all)
  ultimately show ?case using reaches_trans by fastforce
next
  case (3 c cx su su' ms fs)
  then show ?case using reaches_persist_local [of c cx su su' fs _ posts fs' U]
    by (auto split: prod.splits)
next
  case (4 c cx su ms fs)
  then show ?case using reaches_flush [of c cx su fs _ posts fs' U] by (auto split: prod.splits)
qed simp

text \<open>Claim C6 (writer_after_opt_out): once the directory of a running session has been wiped,
  whatever events, persist and shutdown requests its writer still handles, with any answer of the
  resolver and any faults but of the calls that tell whether a file exists, it posts nothing, stores
  nothing and leaves a tombstone.\<close>

theorem writer_after_opt_out:
  assumes "wipe f uuid d = (Inr (), fs (cx_root cx))" "exists_answers f"
    and "actor_run c cx ms fs = (r, posts, fs')" "list_all message_answers ms"
  shows "posts = [] \<and> no_trace (fs' (cx_root cx)) \<and> tombstone_present (fs' (cx_root cx))"
proof -
  let ?U = "\<Union> (message_uuids ` set ms)"
  obtain d1 where wiped: "wipe_under_lock f uuid d1 = (Inr (), fs (cx_root cx))"
    using assms(1) by (cases rule: with_lock_cases [of f "wipe_under_lock f uuid" d]) (auto simp: wipe_def)
  obtain g where g: "td_tombstone (fs (cx_root cx)) = Some g" and clean: "no_trace (fs (cx_root cx))"
    using wipe_under_lock_spec(1,2) [OF wiped] assms(2) by simp
  obtain as where as: "set as \<subseteq> insert Collect (WipeBy ` ?U)"
    and run: "telemetry_run \<lparr>wo_dir = fs (cx_root cx), wo_wire = []\<rparr> as
      \<lparr>wo_dir = fs' (cx_root cx), wo_wire = [] @ posts\<rparr>"
    using reaches_actor_run [OF assms(3) subset_refl assms(4)] unfolding reaches_def by blast
  have "no_trace (wo_dir \<lparr>wo_dir = fs' (cx_root cx), wo_wire = [] @ posts\<rparr>) \<and>
      wo_wire \<lparr>wo_dir = fs' (cx_root cx), wo_wire = [] @ posts\<rparr> =
        wo_wire \<lparr>wo_dir = fs (cx_root cx), wo_wire = []\<rparr> \<and>
      tombstone_present (wo_dir \<lparr>wo_dir = fs' (cx_root cx), wo_wire = [] @ posts\<rparr>)"
    by (rule opted_out_run [OF run, of g UNIV]) (use g clean as in auto)
  then show ?thesis by simp
qed

definition faultless_surroundings :: "telemetry_inputs \<Rightarrow> surroundings" where
  "faultless_surroundings x =
     \<lparr>su_inputs = x, su_decide = no_faults, su_drain = no_faults, su_install = no_faults, su_state = no_faults,
      su_send = no_faults, su_ring = no_faults, su_tombstone = ''u'', su_fresh_id = ''f'', su_now = ''n'', su_answer = Accepted\<rparr>"

theorem writer_after_opt_out_witness:
  "let cx = \<lparr>cx_root = [], cx_endpoint = Some ''https://t'', cx_surface = Tui, cx_app_version = ''1.0.0'',
         cx_git_sha = None, cx_os = Linux, cx_arch = X86_64, cx_libc = Gnu, cx_tty = True\<rparr>;
       fs = (\<lambda>_. snd (wipe no_faults ''u'' sample_dir))
   in \<forall>c e x. fst (snd (actor_run c cx [EventMsg e no_faults no_faults, ShutdownMsg (faultless_surroundings x)] fs)) = []"
proof -
  have wiped: "wipe no_faults ''u'' sample_dir = (Inr (), snd (wipe no_faults ''u'' sample_dir))"
  proof -
    have "fst (wipe no_faults ''u'' sample_dir) = Inr ()" by code_simp
    then show ?thesis by (simp add: prod_eq_iff)
  qed
  show ?thesis
    unfolding Let_def
  proof (intro allI)
    fix c e x
    let ?su = "faultless_surroundings x"
    have su: "surroundings_answer ?su" by (simp add: surroundings_answer_def faultless_surroundings_def)
    let ?cx = "\<lparr>cx_root = [], cx_endpoint = Some ''https://t'', cx_surface = Tui, cx_app_version = ''1.0.0'',
         cx_git_sha = None, cx_os = Linux, cx_arch = X86_64, cx_libc = Gnu, cx_tty = True\<rparr>"
    let ?fs = "\<lambda>_ :: path. snd (wipe no_faults ''u'' sample_dir)"
    obtain r posts fs' where
      run: "actor_run c ?cx [EventMsg e no_faults no_faults, ShutdownMsg ?su] ?fs = (r, posts, fs')"
      by (metis surj_pair)
    then show "fst (snd (actor_run c ?cx [EventMsg e no_faults no_faults, ShutdownMsg ?su] ?fs)) = []"
      using writer_after_opt_out [of no_faults "''u''" sample_dir ?fs ?cx c, OF wiped no_faults_exists run] run su by simp
  qed
qed

end
