(* ===== verification/Telemetry_Delivery.thy ===== *)
theory Telemetry_Delivery
  imports Telemetry_Actor
begin

section \<open>Delivery of what was recorded\<close>

text \<open>
  What the posts of a flush contain, the way of a recorded event from the process to the
  endpoint, the identity it is sent under, and the report of a new version. The laws of the
  serializers that a statement relies on are hypotheses of it.
\<close>

subsection \<open>The posts of a flush\<close>

text \<open>The sections of a delivery leave the tombstone as it is.\<close>

lemma section_tombstone:
  assumes "\<And>d. td_tombstone (snd (body d)) = td_tombstone d"
  shows "td_tombstone (snd (try_with_lock f body d)) = td_tombstone d"
  by (cases rule: try_with_lock_cases [of f body d]) (simp_all add: assms same_filesD(2))

lemma tombstone_kept:
  "td_tombstone (snd (drain f d)) = td_tombstone d"
  "td_tombstone (snd (read_or_create_install_id c f fresh now d)) = td_tombstone d"
  "td_tombstone (snd (write_state c f st d)) = td_tombstone d"
proof -
  have t: "td_tombstone (snd (truncate_sink f s d)) = td_tombstone d" for s d
    using truncate_sink_dir [of f s d] by (auto simp: fs_simps)
  have "td_tombstone (snd (drain_under_lock f d)) = td_tombstone d" for d
    using t [of BufferSink d]
    by (cases "truncate_sink f BufferSink d") (simp add: drain_under_lock_def Let_def split: sum.split)
  from section_tombstone [OF this, of f d] show "td_tombstone (snd (drain f d)) = td_tombstone d"
    by (cases "try_with_lock f (drain_under_lock f) d") (simp add: drain_def split: sum.split option.split)
  have "td_tombstone (snd (install_id_under_lock c f fresh now d)) = td_tombstone d" for d
    by (simp add: install_id_under_lock_def Let_def split: option.split)
  from section_tombstone [OF this, of f d] show "td_tombstone (snd (read_or_create_install_id c f fresh now d)) = td_tombstone d"
    by (simp add: read_or_create_install_id_def)
  have "td_tombstone (snd (write_state_under_lock c f st d)) = td_tombstone d" for d
    by (simp add: write_state_under_lock_def split: option.split)
  from section_tombstone [OF this, of f d] show "td_tombstone (snd (write_state c f st d)) = td_tombstone d"
    by (simp add: write_state_def)
qed

lemma install_id_valid:
  assumes "read_or_create_install_id c f fresh now d = (Inr install, d')" "uuid_parses c (trim fresh)"
  shows "uuid_parses c (trim (ii_install_id install))" "\<not> tombstone_seen f TombstoneLocked d"
proof -
  have "uuid_parses c (trim (ii_install_id install)) \<and> \<not> tombstone_seen f TombstoneLocked d"
    using assms
  proof (cases rule: try_with_lock_cases [of f "install_id_under_lock c f fresh now" d])
    case (failed r d1)
    then show ?thesis using assms(1) by (auto simp: read_or_create_install_id_def require_lock_def)
  next
    case (locked d1)
    then have "fst (install_id_under_lock c f fresh now d1) = Inr install"
      using assms(1)
      by (cases "fst (install_id_under_lock c f fresh now d1)")
        (auto simp: read_or_create_install_id_def require_lock_def)
    then have "uuid_parses c (trim (ii_install_id install)) \<and> \<not> tombstone_seen f TombstoneLocked d1"
      using assms(2)
      by (auto simp: install_id_under_lock_def existing_install_id_def Let_def
          split: if_splits option.splits)
    then show ?thesis using tombstone_seen_same [OF locked(2)] by simp
  qed
  then show "uuid_parses c (trim (ii_install_id install))" "\<not> tombstone_seen f TombstoneLocked d" by blast+
qed

lemma drain_unseen:
  assumes "drain f d = (ls, d')" "ls \<noteq> []"
  shows "\<not> tombstone_seen f TombstoneLocked d"
proof -
  obtain d1 where "try_with_lock f (drain_under_lock f) d = (Inr (Some ls), d1)"
    using assms by (auto simp: drain_def split: if_splits prod.splits sum.splits option.splits)
  then show ?thesis
  proof (cases rule: try_with_lock_cases [of f "drain_under_lock f" d])
    case (locked d2)
    then have "fst (drain_under_lock f d2) = Inr ls"
      using \<open>try_with_lock f (drain_under_lock f) d = (Inr (Some ls), d1)\<close>
      by (cases "fst (drain_under_lock f d2)") auto
    with assms(2) have "\<not> tombstone_seen f TombstoneLocked d2" by (auto simp: drain_under_lock_def)
    then show ?thesis using tombstone_seen_same [OF locked(2)] by simp
  qed auto
qed

text \<open>The five checks of a flush that posts: before it drains, in the drain before and under the lock,
  when it reads the identity and when it posts.\<close>

definition unseen_tombstone :: "surroundings \<Rightarrow> tdir \<Rightarrow> bool" where
  "unseen_tombstone su d \<longleftrightarrow>
     list_all (\<lambda>(f, call). \<not> tombstone_seen f call d)
       [(su_decide su, TombstoneFile), (su_drain su, TombstoneFile), (su_drain su, TombstoneLocked),
        (su_install su, TombstoneLocked), (su_send su, TombstoneLocked)]"

lemma unseen_answers: "surroundings_answer su \<Longrightarrow> unseen_tombstone su d \<longleftrightarrow> \<not> tombstone_present d"
  by (auto simp: unseen_tombstone_def surroundings_answer_def)

text \<open>Claim C8 (flush_posts_sound): a flush posts at most once, to the endpoint it was armed with,
  only when the resolver's fresh answer is on and not declined and none of its five checks saw a
  tombstone, so that one in place is overlooked only when every one of the checks failed; the
  body is the serialization of a batch of one to 200 events whose strings are all within their
  bounds, under an install id that is a UUID once the white space around it is removed (a stored
  one is sent with its white space). The fresh id it may have to make is supposed to be a UUID.\<close>

theorem flush_posts_sound:
  assumes "flush c cx su fs = (r, posts, fs')" "uuid_parses c (trim (su_fresh_id su))"
  shows "length posts \<le> 1 \<and>
    (\<forall>p \<in> set posts. cx_endpoint cx = Some (po_endpoint p) \<and>
       ti_enabled (su_inputs su) \<and> \<not> ti_notice_declined (su_inputs su) \<and>
       unseen_tombstone su (fs (cx_root cx)) \<and>
       (\<exists>b. batch_to_json c b = Some (po_body p) \<and> uuid_parses c (trim (ba_install_id b)) \<and>
          0 < length (ba_events b) \<and> length (ba_events b) \<le> BATCH_MAX_EVENTS \<and>
          list_all is_bounded (ba_events b)))"
proof (cases "posts = []")
  case False
  obtain root endpoint g where ev: "evaluate (url_parse c) (su_decide su) (su_inputs su) fs =
      EvEnabled root endpoint g"
    using assms(1) False
    by (cases "evaluate (url_parse c) (su_decide su) (su_inputs su) fs")
      (auto simp: flush_def decide_def opted_out_def split: option.splits if_splits)
  obtain d where run: "flush_enabled c cx su (fs (cx_root cx)) = (r, posts, d)"
    using assms(1) ev by (auto simp: flush_def decide_def split: prod.splits)
  obtain ls d1 where drained: "drain (su_drain su) (fs (cx_root cx)) = (ls, d1)" by (metis surj_pair)
  have on: "\<not> tombstone_seen (su_decide su) TombstoneFile (fs (cx_root cx))" and some: "parse_events c ls \<noteq> []"
    and sent: "deliver c cx su (parse_events c ls) d1 = (r, posts, d)"
    using run False drained by (auto simp: flush_enabled_def Let_def split: if_splits)
  have "ls \<noteq> []" using some by (auto simp: parse_events_def)
  then have drain: "\<not> tombstone_seen (su_drain su) TombstoneFile (fs (cx_root cx))"
    "\<not> tombstone_seen (su_drain su) TombstoneLocked (fs (cx_root cx))"
    using drained drain_unseen [OF drained] by (auto simp: drain_def split: if_splits)
  have d1: "td_tombstone d1 = td_tombstone (fs (cx_root cx))"
    using tombstone_kept(1) [of "su_drain su" "fs (cx_root cx)"] drained by simp
  from sent show ?thesis
  proof (cases rule: deliver_cases)
    case (sent install d2 st outcome)
    let ?d3 = "snd (write_state c (su_state su) st d2)"
    have "td_tombstone ?d3 = td_tombstone d1"
      using tombstone_kept(2) [of c "su_install su" "su_fresh_id su" "su_now su" d1] tombstone_kept(3) sent(1) by simp
    then have seen: "tombstone_seen f call d1 = tombstone_seen f call (fs (cx_root cx))"
      "tombstone_seen f call ?d3 = tombstone_seen f call (fs (cx_root cx))" for f call
      using d1 by (simp_all add: tombstone_seen_def)
    have "posts \<noteq> []" by (rule False)
    then obtain e body where "cx_endpoint cx = Some e"
      "batch_to_json c (make_batch cx su (ii_install_id install) (parse_events c ls)) = Some body"
      "\<not> tombstone_seen (su_send su) TombstoneLocked ?d3"
      "posts = [\<lparr>po_endpoint = e, po_app_version =
          ba_app_version (make_batch cx su (ii_install_id install) (parse_events c ls)), po_body = body\<rparr>]"
      using send_posts [OF sent(2)] by blast
    then show ?thesis
      using evaluate_Enabled(1,2) [OF ev] on drain some parse_events_limits [of c ls]
        install_id_valid [OF sent(1) assms(2)]
      by (auto simp: make_batch_def unseen_tombstone_def seen
          intro!: exI [of _ "make_batch cx su (ii_install_id install) (parse_events c ls)"])
  qed (use False in simp)
qed simp

subsection \<open>From the process to the endpoint\<close>

text \<open>The laws of the serializers that a delivery relies on: nothing fails to serialize, and these
  events come back from the lines they are written as.\<close>

definition serializes :: "codec \<Rightarrow> event list \<Rightarrow> string list \<Rightarrow> bool" where
  "serializes c es ls \<longleftrightarrow>
     map (event_to_json c) es = map Some ls \<and> map (event_of_json c) ls = map Some es \<and>
     list_all event_line ls \<and> list_all is_bounded es"

definition total_codec :: "codec \<Rightarrow> bool" where
  "total_codec c \<longleftrightarrow> (\<forall>r. install_to_json c r \<noteq> None) \<and> (\<forall>b. batch_to_json c b \<noteq> None)"

definition smooth :: "surroundings \<Rightarrow> bool" where
  "smooth su \<longleftrightarrow> su_decide su = no_faults \<and> su_drain su = no_faults \<and> su_install su = no_faults \<and>
     su_state su = no_faults \<and> su_send su = no_faults \<and> su_ring su = no_faults"

definition permits :: "codec \<Rightarrow> surroundings \<Rightarrow> path \<Rightarrow> bool" where
  "permits c su root \<longleftrightarrow> ti_enabled (su_inputs su) \<and> \<not> ti_notice_declined (su_inputs su) \<and>
     map_option (\<lambda>home. home @ [TELEMETRY_DIR]) (ti_home (su_inputs su)) = Some root \<and>
     resolve_endpoint (url_parse c) (ti_endpoint (su_inputs su)) \<noteq> None"

lemma actor_run_events:
  assumes "map (event_to_json c) es = map Some ls"
  shows "actor_run c cx (map (\<lambda>e. EventMsg e no_faults no_faults) es @ ms) fs =
     actor_run c cx ms (fs(cx_root cx := append_all ls (fs (cx_root cx))))"
  using assms
proof (induction es arbitrary: ls fs)
  case Nil
  then show ?case by simp
next
  case (Cons e es)
  then obtain l ls' where l: "ls = l # ls'" "event_to_json c e = Some l"
    "map (event_to_json c) es = map Some ls'" by (cases ls) auto
  show ?case
    using l(1,2) Cons(1) [OF l(3)] by (simp add: actor_append_def fun_upd_same fun_upd_upd del: fun_upd_apply)
qed

text \<open>Without faults and without a tombstone the identity is there and the buffer is left alone.\<close>

lemma identity_no_faults:
  assumes "total_codec c" "\<not> tombstone_present d"
  obtains install d1 where "read_or_create_install_id c no_faults fresh now d = (Inr install, d1)"
    "\<not> tombstone_present d1" "td_buffer d1 = td_buffer d"
proof -
  let ?out = "install_id_under_lock c no_faults fresh now (locked_dir d)"
  have off: "\<not> tombstone_present (locked_dir d)" "td_buffer (locked_dir d) = td_buffer d"
    using assms(2) same_filesD(3,7) [OF locked_dir_same] by simp_all
  obtain body where "install_to_json c \<lparr>ii_schema_version = 1, ii_install_id = fresh, ii_rotated_at = now\<rparr> =
      Some body" using assms(1) by (auto simp: total_codec_def)
  then have "\<exists>install. fst ?out = Inr install \<and> \<not> tombstone_present (snd ?out) \<and> td_buffer (snd ?out) = td_buffer d"
    using off
    by (cases "existing_install_id c no_faults now (locked_dir d)")
      (simp_all add: install_id_under_lock_def no_faults_def [of WriteInstallId] tombstone_present_def)
  then obtain install where "fst ?out = Inr install" "\<not> tombstone_present (snd ?out)"
    "td_buffer (snd ?out) = td_buffer d" by blast
  then show thesis
    using that [of install "snd ?out"]
    by (simp add: read_or_create_install_id_def require_lock_def try_with_lock_no_faults)
qed

lemma write_state_no_faults:
  assumes "\<not> tombstone_present d"
  shows "\<not> tombstone_present (snd (write_state c no_faults st d))"
    "td_buffer (snd (write_state c no_faults st d)) = td_buffer d"
  using assms same_filesD(3,7) [OF locked_dir_same, of d]
  by (auto simp: write_state_def try_with_lock_no_faults write_state_under_lock_def no_faults_def
      tombstone_present_def split: option.splits)

lemma deliver_no_faults:
  assumes "total_codec c" "smooth su" "\<not> tombstone_present d" "cx_endpoint cx = Some e"
  obtains id body d' where "batch_to_json c (make_batch cx su id events) = Some body"
    "deliver c cx su events d =
       (case su_answer su of SentDryRun \<Rightarrow> FlDryRun | Accepted \<Rightarrow> FlSent | SendDropped \<Rightarrow> FlDropped,
        [\<lparr>po_endpoint = e, po_app_version = cx_app_version cx, po_body = body\<rparr>], d')"
    "\<not> tombstone_present d'" "td_buffer d' = td_buffer d"
proof -
  obtain install d1 where 1: "read_or_create_install_id c no_faults (su_fresh_id su) (su_now su) d =
      (Inr install, d1)" "\<not> tombstone_present d1" "td_buffer d1 = td_buffer d"
    by (rule identity_no_faults [OF assms(1,3)])
  define st where "st = (read_state c no_faults d1)
      \<lparr>ts_schema_version := SCHEMA_VERSION, ts_last_flush := Some (su_now su)\<rparr>"
  define d2 where "d2 = snd (write_state c no_faults st d1)"
  note 2 = write_state_no_faults [OF 1(2), of c st, folded d2_def]
  let ?b = "make_batch cx su (ii_install_id install) events"
  obtain body where body: "batch_to_json c ?b = Some body" using assms(1) by (auto simp: total_codec_def)
  have off: "\<not> tombstone_present (locked_dir d2)" "td_buffer (locked_dir d2) = td_buffer d"
    using 2 1(3) same_filesD(3,7) [OF locked_dir_same] by simp_all
  have "deliver c cx su events d =
      (case su_answer su of SentDryRun \<Rightarrow> FlDryRun | Accepted \<Rightarrow> FlSent | SendDropped \<Rightarrow> FlDropped,
       [\<lparr>po_endpoint = e, po_app_version = cx_app_version cx, po_body = body\<rparr>], locked_dir d2)"
    using assms(2,4) 1(1) body off(1)
    by (simp add: deliver_def smooth_def st_def [symmetric] d2_def [symmetric] send_with_transport_def
        try_with_lock_no_faults post_under_lock_def make_batch_def split: send_outcome.splits)
  then show thesis using that body off by blast
qed

lemma evaluate_permits:
  assumes "permits c su root" "\<not> tombstone_present (fs root)" "f OpenTombstone = None"
  obtains endpoint where "evaluate (url_parse c) f (su_inputs su) fs = EvEnabled root endpoint None"
proof -
  obtain endpoint where "resolve_endpoint (url_parse c) (ti_endpoint (su_inputs su)) = Some endpoint"
    using assms(1) by (auto simp: permits_def)
  moreover have "tombstone_generation f (fs root) = Inr None"
    using assms(2,3) by (simp add: tombstone_present_def tombstone_generation_None)
  ultimately show thesis using that assms(1) by (auto simp: permits_def evaluate_cases)
qed

text \<open>A session that recorded events and shuts down, with
  the switch still on, no tombstone, an empty buffer at its start and every system call
  succeeding, posts one batch with exactly the recorded events in order, as long as they fit in
  a batch; the outcome is what the transport answers, and nothing stays in the buffer.\<close>

lemma recorded_events_delivered:
  assumes "total_codec c" "smooth su" "permits c su (cx_root (ar_context a))"
    "cx_endpoint (ar_context a) = Some e" "holds [] (fs (cx_root (ar_context a)))"
    "\<not> ar_stopped a" "ar_queue a \<noteq> []" "serializes c (ar_queue a) ls"
    "length (ar_queue a) \<le> BATCH_MAX_EVENTS" "sum_list (map length ls) \<le> BATCH_MAX_BYTES"
  shows "\<exists>id body p' fs'.
    shutdown_blocking c no_faults no_faults True su (Some a) fs =
      (case su_answer su of SentDryRun \<Rightarrow> FlDryRun | Accepted \<Rightarrow> FlSent | SendDropped \<Rightarrow> FlDropped,
       [\<lparr>po_endpoint = e, po_app_version = cx_app_version (ar_context a), po_body = body\<rparr>], p', fs') \<and>
    batch_to_json c (make_batch (ar_context a) su id (ar_queue a)) = Some body \<and>
    holds [] (fs' (cx_root (ar_context a)))"
proof -
  let ?cx = "ar_context a" and ?root = "cx_root (ar_context a)"
  have ser: "map (event_to_json c) (ar_queue a) = map Some ls" "map (event_of_json c) ls = map Some (ar_queue a)"
    "list_all event_line ls" "list_all is_bounded (ar_queue a)"
    using assms(8) by (simp_all add: serializes_def)
  have len: "length ls = length (ar_queue a)" using arg_cong [OF ser(1), of length] by simp
  have bytes: "byte_len ls = sum_list (map length ls) + length ls"
    by (induction ls) (simp_all add: byte_len_def)
  have ring: "within_ring ls"
    using bytes len assms(9,10)
    by (simp add: within_ring_def BATCH_MAX_EVENTS_def BATCH_MAX_BYTES_def MAX_EVENTS_def MAX_BYTES_def)
  define d where "d = append_all ls (fs ?root)"
  have d: "holds ls d"
    by (rule append_all_holds [OF assms(5), of ls]) (use ring ser(3) in \<open>auto simp: d_def within_ring_def byte_len_def\<close>)
  define fs1 where "fs1 = fs(?root := d)"
  have off: "\<not> tombstone_present (fs1 ?root)" using d by (simp add: fs1_def holds_def)
  obtain endpoint where ev: "evaluate (url_parse c) (su_decide su) (su_inputs su) fs1 = EvEnabled ?root endpoint None"
    by (rule evaluate_permits [of c su ?root fs1 "su_decide su", OF assms(3) off])
      (use assms(2) in \<open>simp add: smooth_def no_faults_def\<close>)
  obtain d1 where drained: "drain no_faults d = (ls, d1)" "holds [] d1"
    using drain_holds [OF d] by (metis prod.collapse)
  have parsed: "parse_events c ls = ar_queue a"
    unfolding parse_events_def
    by (rule parse_events_from_all [OF ser(2,4), of "[]" 0, simplified]) (use assms(9,10) len in auto)
  have off1: "\<not> tombstone_present d1" using drained(2) by (simp add: holds_def)
  obtain id body d2 where del: "batch_to_json c (make_batch ?cx su id (ar_queue a)) = Some body"
    "deliver c ?cx su (ar_queue a) d1 =
       (case su_answer su of SentDryRun \<Rightarrow> FlDryRun | Accepted \<Rightarrow> FlSent | SendDropped \<Rightarrow> FlDropped,
        [\<lparr>po_endpoint = e, po_app_version = cx_app_version ?cx, po_body = body\<rparr>], d2)"
    "\<not> tombstone_present d2" "td_buffer d2 = td_buffer d1"
    by (rule deliver_no_faults [OF assms(1,2) off1 assms(4)])
  have flushed: "flush c ?cx su fs1 =
      (case su_answer su of SentDryRun \<Rightarrow> FlDryRun | Accepted \<Rightarrow> FlSent | SendDropped \<Rightarrow> FlDropped,
       [\<lparr>po_endpoint = e, po_app_version = cx_app_version ?cx, po_body = body\<rparr>], fs1(?root := d2))"
    using ev off drained(1) parsed del(2) assms(2,7) len
    by (auto simp: flush_def decide_def flush_enabled_def smooth_def fs1_def)
  have "shutdown_blocking c no_faults no_faults True su (Some a) fs =
      (case su_answer su of SentDryRun \<Rightarrow> FlDryRun | Accepted \<Rightarrow> FlSent | SendDropped \<Rightarrow> FlDropped,
       [\<lparr>po_endpoint = e, po_app_version = cx_app_version ?cx, po_body = body\<rparr>],
       Some (a\<lparr>ar_queue := [], ar_stopped := True\<rparr>), fs1(?root := d2))"
    using assms(6) flushed
    by (simp add: shutdown_blocking_def round_trip_def actor_run_events [OF ser(1)] d_def fs1_def)
  moreover have "holds [] d2" using drained(2) del(3,4) by (simp add: holds_def)
  ultimately show ?thesis using del(1) by auto
qed

text \<open>A small instance of the serializers, on which the hypotheses hold.\<close>

definition example_codec :: codec where
  "example_codec =
     \<lparr>event_to_json = (\<lambda>e. Some (if e = SessionStart Interactive then ''interactive'' else ''resumed-it'')),
      event_of_json = (\<lambda>l. if l = ''interactive'' then Some (SessionStart Interactive)
         else if l = ''resumed-it'' then Some (SessionStart Resume) else None),
      install_to_json = (\<lambda>r. Some (ii_install_id r)),
      install_of_json = (\<lambda>s. Some \<lparr>ii_schema_version = 1,
         ii_install_id = takeWhile (\<lambda>x. x \<noteq> NL) s, ii_rotated_at = ''today''\<rparr>),
      state_to_json = (\<lambda>s. Some (case ts_last_version s of Some v \<Rightarrow> v | None \<Rightarrow> [])),
      state_of_json = (\<lambda>s. Some \<lparr>ts_schema_version = 1,
         ts_last_version = Some (takeWhile (\<lambda>x. x \<noteq> NL) s), ts_last_flush = None\<rparr>),
      batch_to_json = (\<lambda>b. Some (ba_install_id b)),
      uuid_parses = (\<lambda>u. length u = 4),
      age_in_days = (\<lambda>now t. if t = ''today'' then Some 0 else None),
      url_parse = example_parse\<rparr>"

definition example_context :: actor_context where
  "example_context =
     \<lparr>cx_root = [''home'', ''telemetry''], cx_endpoint = Some ''https://t'', cx_surface = Tui,
      cx_app_version = ''1.2.3'', cx_git_sha = None, cx_os = Linux, cx_arch = X86_64, cx_libc = Gnu,
      cx_tty = True\<rparr>"

definition example_surroundings :: surroundings where
  "example_surroundings =
     \<lparr>su_inputs = example_inputs, su_decide = no_faults, su_drain = no_faults, su_install = no_faults,
      su_state = no_faults, su_send = no_faults, su_ring = no_faults, su_tombstone = ''u'',
      su_fresh_id = ''uuid'', su_now = ''today'', su_answer = Accepted\<rparr>"

definition empty_dir :: tdir where
  "empty_dir = \<lparr>td_exists = True, td_lock = True, td_buffer = None, td_dryrun = None,
     td_tombstone = None, td_install_id = None, td_state = None\<rparr>"

lemma example_smooth: "smooth example_surroundings" "total_codec example_codec"
  "permits example_codec example_surroundings (cx_root example_context)"
proof -
  have "resolve_endpoint example_parse (Some ''https://t'') \<noteq> None" by code_simp
  then show "permits example_codec example_surroundings (cx_root example_context)"
    by (simp add: permits_def example_surroundings_def example_inputs_def example_context_def
        example_codec_def TELEMETRY_DIR_def)
qed (simp_all add: smooth_def example_surroundings_def total_codec_def example_codec_def)

theorem flush_posts_sound_witness:
  "let d = empty_dir\<lparr>td_buffer := Some (''interactive'' @ [NL])\<rparr>;
       (r, posts, fs') = flush example_codec example_context example_surroundings (\<lambda>_. d)
   in r = FlSent \<and> length posts \<le> 1 \<and> map po_endpoint posts = [''https://t'']"
proof -
  let ?fs = "\<lambda>_ :: path. empty_dir\<lparr>td_buffer := Some (''interactive'' @ [NL])\<rparr>"
  obtain r posts fs' where run: "flush example_codec example_context example_surroundings ?fs = (r, posts, fs')"
    by (metis surj_pair)
  have "uuid_parses example_codec (trim (su_fresh_id example_surroundings))" by code_simp
  from flush_posts_sound [OF run this] have "length posts \<le> 1" by blast
  moreover have "r = FlSent \<and> map po_endpoint posts = [''https://t'']"
  proof -
    let ?d = "?fs (cx_root example_context)"
    have off: "\<not> tombstone_present ?d" by code_simp
    obtain endpoint where ev: "evaluate (url_parse example_codec) no_faults (su_inputs example_surroundings) ?fs =
        EvEnabled (cx_root example_context) endpoint None"
      by (rule evaluate_permits [of _ _ _ ?fs no_faults, OF example_smooth(3) off]) (simp add: no_faults_def)
    have ls: "fst (drain no_faults ?d) = [''interactive'']" by code_simp
    have off1: "\<not> tombstone_present (snd (drain no_faults ?d))" by code_simp
    have parsed: "parse_events example_codec [''interactive''] = [SessionStart Interactive]"
      by (simp add: parse_events_def example_codec_def is_bounded_def BATCH_MAX_EVENTS_def BATCH_MAX_BYTES_def)
    have e: "cx_endpoint example_context = Some ''https://t''" by (simp add: example_context_def)
    obtain id body d' where "deliver example_codec example_context example_surroundings
        [SessionStart Interactive] (snd (drain no_faults ?d)) =
      (FlSent, [\<lparr>po_endpoint = ''https://t'', po_app_version = cx_app_version example_context, po_body = body\<rparr>], d')"
      by (rule deliver_no_faults [OF example_smooth(2,1) off1 e, of "[SessionStart Interactive]"])
        (simp add: example_surroundings_def)
    moreover have "su_decide example_surroundings = no_faults" "su_drain example_surroundings = no_faults"
      by (simp_all add: example_surroundings_def)
    ultimately show ?thesis
      using run ev off ls parsed
      by (cases "drain no_faults ?d") (auto simp: flush_def decide_def flush_enabled_def)
  qed
  ultimately show ?thesis using run by (simp add: Let_def)
qed

lemma recorded_events_delivered_example:
  "let a = \<lparr>ar_context = example_context, ar_queue = [SessionStart Interactive, SessionStart Resume],
            ar_stopped = False, ar_exit_class = 0\<rparr>
   in \<exists>id body p' fs'.
     shutdown_blocking example_codec no_faults no_faults True example_surroundings (Some a) (\<lambda>_. empty_dir) =
       (FlSent, [\<lparr>po_endpoint = ''https://t'', po_app_version = ''1.2.3'', po_body = body\<rparr>], p', fs') \<and>
     batch_to_json example_codec (make_batch example_context example_surroundings id (ar_queue a)) = Some body"
proof -
  let ?a = "\<lparr>ar_context = example_context, ar_queue = [SessionStart Interactive, SessionStart Resume],
      ar_stopped = False, ar_exit_class = 0\<rparr> :: armed"
  have ser: "serializes example_codec (ar_queue ?a) [''interactive'', ''resumed-it'']" by code_simp
  have empty: "holds [] ((\<lambda>_. empty_dir) (cx_root (ar_context ?a)))" by code_simp
  have "permits example_codec example_surroundings (cx_root (ar_context ?a))"
    "cx_endpoint (ar_context ?a) = Some ''https://t''"
    using example_smooth(3) by (simp_all add: example_context_def)
  from recorded_events_delivered [OF example_smooth(2,1) this empty _ _ ser]
  show ?thesis
    by (simp add: BATCH_MAX_EVENTS_def BATCH_MAX_BYTES_def example_surroundings_def [THEN arg_cong, of su_answer]
        example_context_def) blast
qed

subsection \<open>The report of a version and the identity\<close>

text \<open>The state survives the disk.\<close>

definition state_roundtrip :: "codec \<Rightarrow> telemetry_state \<Rightarrow> bool" where
  "state_roundtrip c st \<longleftrightarrow>
     (\<exists>body. state_to_json c st = Some body \<and> utf8_valid (body @ [NL]) \<and>
        state_of_json c (body @ [NL]) = Some st)"

lemma require_lock_ok:
  assumes "require_lock (try_with_lock f operation d) = (Inr x, d')"
  obtains d1 where "same_files d d1" "operation d1 = (Inr x, d')"
proof (cases rule: try_with_lock_cases [of f operation d])
  case (failed r d1)
  then show thesis using assms by (auto simp: require_lock_def)
next
  case (locked d1)
  then have "fst (operation d1) = Inr x \<and> snd (operation d1) = d'"
    using assms by (cases "fst (operation d1)") (auto simp: require_lock_def)
  then show thesis using that locked(2) by (metis prod.collapse)
qed

lemma write_state_ok:
  assumes "write_state c f st d = (Inr (), d')" "state_roundtrip c st"
  shows "read_state c no_faults d' = st" "td_buffer d' = td_buffer d"
proof -
  obtain d1 where locked: "same_files d d1" "write_state_under_lock c f st d1 = (Inr (), d')"
    using require_lock_ok [OF assms(1) [unfolded write_state_def]] .
  then show "read_state c no_faults d' = st"
    using assms(2)
    by (auto simp: write_state_under_lock_def state_roundtrip_def read_state_def read_to_string_def
        no_faults_def split: if_splits)
  show "td_buffer d' = td_buffer d"
    using locked same_filesD(7) [OF locked(1)]
    by (auto simp: write_state_under_lock_def split: if_splits option.splits)
qed

text \<open>A launch reports the version exactly when it differs from
  the recorded one and the record could be written, with the kind install, upgrade or downgrade
  that the recorded version gives, queues nothing else, and a later launch of the same version
  on the directory it left reports nothing.\<close>

lemma version_reported_once:
  assumes "record_install_or_upgrade c f current root (Some a) fs = (p', fs')" "\<not> ar_stopped a"
    "state_roundtrip c ((read_state c f (fs root))
       \<lparr>ts_schema_version := SCHEMA_VERSION, ts_last_version := Some current\<rparr>)"
  shows "let last = ts_last_version (read_state c f (fs root)) in
     (p' = Some a \<or>
      last \<noteq> Some current \<and>
      p' = Some (a\<lparr>ar_queue := ar_queue a @ [InstallOrUpgrade (install_kind_of last current) last]\<rparr>)) \<and>
     (last = Some current \<longrightarrow> p' = Some a) \<and>
     (p' \<noteq> Some a \<longrightarrow>
        record_install_or_upgrade c no_faults current root (Some a') fs' = (Some a', fs'))"
proof -
  let ?st = "read_state c f (fs root)"
  let ?new = "?st\<lparr>ts_schema_version := SCHEMA_VERSION, ts_last_version := Some current\<rparr>"
  obtain r d where w: "write_state c f ?new (fs root) = (r, d)" by (metis surj_pair)
  consider "ts_last_version ?st = Some current" "p' = Some a"
    | "ts_last_version ?st \<noteq> Some current" "r = Inl IoError" "p' = Some a"
    | "ts_last_version ?st \<noteq> Some current" "r = Inr ()" "fs' = fs(root := d)"
      "p' = Some (a\<lparr>ar_queue := ar_queue a @
         [InstallOrUpgrade (install_kind_of (ts_last_version ?st) current) (ts_last_version ?st)]\<rparr>)"
    using assms(1,2) w
    by (cases r; cases "ts_last_version ?st = Some current")
      (auto simp: record_install_or_upgrade_def record_event_def Let_def dest: io_error.exhaust)
  then show ?thesis
  proof cases
    case 3
    have "read_state c no_faults d = ?new" by (rule write_state_ok) (use w 3 assms(3) in auto)
    then have "record_install_or_upgrade c no_faults current root (Some a') fs' = (Some a', fs')"
      using 3 by (simp add: record_install_or_upgrade_def)
    then show ?thesis using 3 by simp
  qed simp_all
qed

lemma version_reported_once_example:
  "let a = \<lparr>ar_context = example_context, ar_queue = [], ar_stopped = False, ar_exit_class = 0\<rparr>;
       fs = (\<lambda>_. empty_dir);
       (p', fs') = record_install_or_upgrade example_codec no_faults ''1.2.3'' [''r''] (Some a) fs
   in map_option ar_queue p' = Some [InstallOrUpgrade Install None] \<and>
      record_install_or_upgrade example_codec no_faults ''1.2.3'' [''r''] (Some a) fs' = (Some a, fs')"
proof -
  let ?a = "\<lparr>ar_context = example_context, ar_queue = [], ar_stopped = False, ar_exit_class = 0\<rparr> :: armed"
  let ?fs = "(\<lambda>_. empty_dir) :: homes"
  obtain p' fs' where run: "record_install_or_upgrade example_codec no_faults ''1.2.3'' [''r''] (Some ?a) ?fs = (p', fs')"
    by (metis surj_pair)
  have queue: "map_option ar_queue (fst (record_install_or_upgrade example_codec no_faults ''1.2.3'' [''r''] (Some ?a) ?fs)) =
      Some [InstallOrUpgrade Install None]" by code_simp
  then have "p' \<noteq> Some ?a" using run by auto
  moreover have "state_roundtrip example_codec ((read_state example_codec no_faults (?fs [''r'']))
      \<lparr>ts_schema_version := SCHEMA_VERSION, ts_last_version := Some ''1.2.3''\<rparr>)"
    unfolding state_roundtrip_def by (rule exI [of _ "''1.2.3''"]) code_simp
  ultimately show ?thesis
    using version_reported_once [OF run, of ?a] run queue by (simp add: Let_def install_kind_of_def)
qed

text \<open>The identity survives the disk.\<close>

definition install_roundtrip :: "codec \<Rightarrow> install_id_rec \<Rightarrow> bool" where
  "install_roundtrip c r \<longleftrightarrow>
     (\<exists>body. install_to_json c r = Some body \<and> utf8_valid (body @ [NL]) \<and>
        install_of_json c (body @ [NL]) = Some r)"

text \<open>The identity a delivery uses is the stored one as
  long as that is a UUID younger than 90 days, and a fresh one with the current time otherwise,
  which is stored; the next delivery uses the same identity again until it expires.\<close>

lemma identity_stable_then_rotated:
  assumes "read_or_create_install_id c f fresh now d = (Inr r, d')"
    "install_roundtrip c \<lparr>ii_schema_version = 1, ii_install_id = fresh, ii_rotated_at = now\<rparr>"
    "uuid_parses c (trim fresh)" "f ReadInstallId = None"
    "exists_answers f"
  shows "(case existing_install_id c no_faults now d of
            Some old \<Rightarrow> r = old \<and> td_install_id d' = td_install_id d
          | None \<Rightarrow> r = \<lparr>ii_schema_version = 1, ii_install_id = fresh, ii_rotated_at = now\<rparr>) \<and>
         (\<not> is_expired c later (ii_rotated_at r) \<longrightarrow>
            fst (read_or_create_install_id c no_faults fresh' later d') = Inr r)"
proof -
  let ?new = "\<lparr>ii_schema_version = 1, ii_install_id = fresh, ii_rotated_at = now\<rparr>"
  obtain d1 where locked: "same_files d d1" "install_id_under_lock c f fresh now d1 = (Inr r, d')"
    using require_lock_ok [OF assms(1) [unfolded read_or_create_install_id_def]] .
  have ex: "existing_install_id c f now d1 = existing_install_id c no_faults now d"
    using assms(4) same_filesD(5) [OF locked(1)] by (simp add: existing_install_id_def no_faults_def)
  have off: "\<not> tombstone_present d'"
    using locked(2) assms(5) by (auto simp: install_id_under_lock_def Let_def tombstone_present_def split: if_splits option.splits)
  have stored: "Option.bind (read_to_string None (td_install_id d')) (install_of_json c) = Some r \<and>
      uuid_parses c (trim (ii_install_id r)) \<and>
      (case existing_install_id c no_faults now d of
         Some old \<Rightarrow> r = old \<and> td_install_id d' = td_install_id d | None \<Rightarrow> r = ?new)"
  proof (cases "existing_install_id c no_faults now d")
    case None
    then show ?thesis
      using locked(2) assms(2,3) ex
      by (auto simp: install_id_under_lock_def install_roundtrip_def read_to_string_def Let_def split: if_splits)
  next
    case (Some old)
    then show ?thesis
      using locked ex same_filesD(5) [OF locked(1)]
      by (auto simp: install_id_under_lock_def existing_install_id_def no_faults_def split: if_splits option.splits)
  qed
  have "existing_install_id c no_faults later (locked_dir d') = Some r" if "\<not> is_expired c later (ii_rotated_at r)"
    using stored that same_filesD(5) [OF locked_dir_same] by (simp add: existing_install_id_def no_faults_def)
  then show ?thesis
    using stored off same_filesD(3) [OF locked_dir_same, of d']
    by (auto simp: read_or_create_install_id_def try_with_lock_no_faults require_lock_def install_id_under_lock_def)
qed

lemma identity_stable_then_rotated_example:
  "let (r, d') = read_or_create_install_id example_codec no_faults ''uuid'' ''today'' empty_dir
   in (\<exists>i. r = Inr i \<and> ii_install_id i = ''uuid'' \<and>
        fst (read_or_create_install_id example_codec no_faults ''next'' ''later'' d') = Inr i)"
proof -
  let ?i = "\<lparr>ii_schema_version = 1, ii_install_id = ''uuid'', ii_rotated_at = ''today''\<rparr>"
  have "fst (read_or_create_install_id example_codec no_faults ''uuid'' ''today'' empty_dir) = Inr ?i"
    by code_simp
  then obtain d' where run: "read_or_create_install_id example_codec no_faults ''uuid'' ''today'' empty_dir = (Inr ?i, d')"
    by (metis prod.collapse)
  have "install_roundtrip example_codec ?i"
    unfolding install_roundtrip_def by (rule exI [of _ "''uuid''"]) code_simp
  moreover have "uuid_parses example_codec (trim ''uuid'')" by code_simp
  moreover have "\<not> is_expired example_codec ''later'' ''today''" by code_simp
  ultimately show ?thesis
    using identity_stable_then_rotated [OF run, of "''later''" "''next''"] run
    by (simp add: no_faults_def [of ReadInstallId])
qed

text \<open>
  The check of the identity is made on the trimmed string, but the string itself is what a batch
  carries: a padded identity passes and goes out with its padding.
\<close>

lemma padded_identity_kept:
  "map_sum id ii_install_id (fst (read_or_create_install_id example_codec no_faults ''next'' ''today''
     (empty_dir\<lparr>td_install_id := Some ''   uuid   ''\<rparr>))) = Inr ''   uuid   ''"
  by code_simp

end
