(* ===== verification/Agent_Operation.thy ===== *)
theory Agent_Operation
  imports Conversation Token_Usage Permission_Manager
begin

section \<open>Operations of the agent loop\<close>

text \<open>
  \<open>crates/goose-agent/src/operation.rs\<close> and \<open>events.rs\<close>: what an operation of the agent loop
  reads of the conversation, what it may answer, the effects it asks for and the emitter it
  reports to.

  An asynchronous function becomes an \<open>io\<close> action: it takes the world it runs in and returns
  its result, an error or a value, with the world it leaves. The world counts the interactions
  with the outside (\<open>w_tick\<close>) and collects the emitted events; what the outside answers at each
  interaction (the clock, the generator of identifiers, whether the turn has been cancelled)
  is a function of that count in the environment \<open>env\<close>, a parameter of every definition.
\<close>

type_synonym anyhow = string

type_synonym ('w, 'a) io = "'w \<Rightarrow> (anyhow + 'a) \<times> 'w"

named_theorems io_simps \<open>rules that execute actions\<close>

definition io_ok :: "'a \<Rightarrow> ('w, 'a) io" where
  "io_ok x w = (Inr x, w)"

definition io_err :: "anyhow \<Rightarrow> ('w, 'a) io" where
  "io_err e w = (Inl e, w)"

definition io_bind :: "('w, 'a) io \<Rightarrow> ('a \<Rightarrow> ('w, 'b) io) \<Rightarrow> ('w, 'b) io" where
  "io_bind m f w = (case m w of (Inl e, w') \<Rightarrow> (Inl e, w') | (Inr x, w') \<Rightarrow> f x w')"

text \<open>A result that is already there, as \<open>?\<close> uses it, and a loop that stops at the first error.\<close>

definition io_of :: "anyhow + 'a \<Rightarrow> ('w, 'a) io" where
  "io_of r w = (r, w)"

fun io_map :: "('a \<Rightarrow> ('w, 'b) io) \<Rightarrow> 'a list \<Rightarrow> ('w, 'b list) io" where
  "io_map f [] = io_ok []"
| "io_map f (x # xs) = io_bind (f x) (\<lambda>y. io_bind (io_map f xs) (\<lambda>ys. io_ok (y # ys)))"

lemma io_exec [io_simps]:
  "io_ok x w = (Inr x, w)"
  "io_err e w = (Inl e, w)"
  "io_of r w = (r, w)"
  "io_bind m f w = (case m w of (r, w') \<Rightarrow> case r of Inl e \<Rightarrow> (Inl e, w') | Inr x \<Rightarrow> f x w')"
  by (simp_all add: io_ok_def io_err_def io_of_def io_bind_def)

lemma io_bind_eq_Inr:
  "io_bind m f w = (Inr y, w'') \<longleftrightarrow> (\<exists>x w'. m w = (Inr x, w') \<and> f x w' = (Inr y, w''))"
  by (auto simp: io_bind_def split: prod.splits sum.splits)

lemma io_ok_eq_Inr [simp]: "io_ok x w = (Inr y, w') \<longleftrightarrow> y = x \<and> w' = w"
  by (auto simp: io_ok_def)

lemma io_err_neq_Inr [simp]: "io_err e w \<noteq> (Inr y, w')"
  by (simp add: io_err_def)

lemma io_of_eq_Inr [simp]: "io_of r w = (Inr y, w') \<longleftrightarrow> r = Inr y \<and> w' = w"
  by (auto simp: io_of_def)

text \<open>What a loop maintains: every result is related to its input, and their number is the same.\<close>

lemma io_map_all2:
  assumes "\<And>x w y w'. x \<in> set xs \<Longrightarrow> f x w = (Inr y, w') \<Longrightarrow> R x y"
  shows "io_map f xs w = (Inr ys, w') \<Longrightarrow> list_all2 R xs ys"
  using assms
  by (induction xs arbitrary: w ys) (force simp: io_bind_eq_Inr)+

lemma io_map_total:
  assumes "\<And>x w. \<exists>y w'. f x w = (Inr y, w')"
  shows "\<exists>ys w'. io_map f xs w = (Inr ys, w')"
proof (induction xs arbitrary: w)
  case Nil
  then show ?case by simp
next
  case (Cons x xs)
  obtain y w1 where "f x w = (Inr y, w1)" using assms by blast
  moreover obtain ys w2 where "io_map f xs w1 = (Inr ys, w2)" using Cons.IH by blast
  ultimately show ?case by (auto simp: io_simps)
qed

subsection \<open>The world of an operation\<close>

datatype agent_event =
    EvMessage message
  | EvUsage provider_usage
  | EvMessageUsage "string option" message_usage
  | EvMcpNotification string json
  | EvHistoryReplaced conversation

record world =
  w_tick :: nat
  w_events :: "agent_event list"

record env =
  e_text :: text_env
  e_now :: "nat \<Rightarrow> int"
  e_uuid :: "nat \<Rightarrow> string"
  e_cancelled :: "nat \<Rightarrow> bool"

definition ask :: "(nat \<Rightarrow> 'a) \<Rightarrow> ('x world_scheme, 'a) io" where
  "ask f w = (Inr (f (w_tick w)), w\<lparr>w_tick := Suc (w_tick w)\<rparr>)"

definition now :: "'y env_scheme \<Rightarrow> ('x world_scheme, int) io" where
  "now env = ask (e_now env)"

definition new_uuid :: "'y env_scheme \<Rightarrow> ('x world_scheme, string) io" where
  "new_uuid env = ask (e_uuid env)"

definition is_cancelled :: "'y env_scheme \<Rightarrow> ('x world_scheme, bool) io" where
  "is_cancelled env = ask (e_cancelled env)"

definition emit_event :: "agent_event \<Rightarrow> ('x world_scheme, unit) io" where
  "emit_event ev w = (Inr (), w\<lparr>w_events := w_events w @ [ev]\<rparr>)"

definition emit_message :: "'y env_scheme \<Rightarrow> message \<Rightarrow> ('x world_scheme, message) io" where
  "emit_message env m =
     io_bind (new_uuid env) (\<lambda>u.
       let m' = with_generated_id_if_missing u m in
       io_bind (emit_event (EvMessage m')) (\<lambda>_. io_ok m'))"

text \<open>
  A \<open>tokio::select!\<close> that is biased towards the cancellation: the other branch runs to its end
  when the turn was not cancelled before it; a branch that is dropped half way is one that was
  cancelled at its start.
\<close>

definition select_cancelled ::
    "('w, bool) io \<Rightarrow> ('w, 'a) io \<Rightarrow> ('w, 'a option) io" where
  "select_cancelled cancelled m =
     io_bind cancelled (\<lambda>c. if c then io_ok None else io_bind m (\<lambda>x. io_ok (Some x)))"

lemma world_exec [io_simps]:
  "ask f w = (Inr (f (w_tick w)), w\<lparr>w_tick := Suc (w_tick w)\<rparr>)"
  "now env = ask (e_now env)"
  "new_uuid env = ask (e_uuid env)"
  "is_cancelled env = ask (e_cancelled env)"
  "emit_event ev w = (Inr (), w\<lparr>w_events := w_events w @ [ev]\<rparr>)"
  by (simp_all add: ask_def now_def new_uuid_def is_cancelled_def emit_event_def)

lemma emit_message_exec [io_simps]:
  "emit_message env m w =
     (let m' = with_generated_id_if_missing (e_uuid env (w_tick w)) m
      in (Inr m', w\<lparr>w_tick := Suc (w_tick w), w_events := w_events w @ [EvMessage m']\<rparr>))"
  by (simp add: emit_message_def io_simps Let_def)

subsection \<open>Reading the conversation\<close>

record slash_command =
  sc_command :: string
  sc_params_str :: string

definition is_kickoff :: "message \<Rightarrow> bool" where
  "is_kickoff m \<longleftrightarrow> m_role m = User \<and> is_user_visible m \<and> \<not> is_tool_response m"

definition messages_since_kickoff :: "conversation \<Rightarrow> anyhow + message list" where
  "messages_since_kickoff c =
     (case rposition is_kickoff c of
        None \<Rightarrow> Inl ''state machine conversation has no kickoff message''
      | Some start \<Rightarrow> Inr (drop start c))"

definition trailing_error :: "conversation \<Rightarrow> message_error_kind option" where
  "trailing_error c = Option.bind (last_opt c) error_kind"

definition last_effective_role :: "message list \<Rightarrow> anyhow + effective_role" where
  "last_effective_role ms =
     (case last_opt ms of
        None \<Rightarrow> Inl ''cannot determine the role of an empty conversation''
      | Some m \<Rightarrow> Inr (effective_role_of m))"

fun turn_count_step :: "message \<Rightarrow> u32 \<times> bool \<Rightarrow> u32 \<times> bool" where
  "turn_count_step m (turns, in_block) =
     (if m_role m = Assistant
      then (if \<not> in_block then (turns + 1, True) else (turns, in_block))
      else (turns, False))"

definition assistant_turn_count :: "message list \<Rightarrow> u32" where
  "assistant_turn_count ms = fst (fold turn_count_step (rev ms) (0, False))"

definition asks_for_action :: "message_content_block \<Rightarrow> bool" where
  "asks_for_action b = (case b of ToolRequest _ \<Rightarrow> True | ActionRequired _ \<Rightarrow> True | _ \<Rightarrow> False)"

definition ends_turn :: "message list \<Rightarrow> bool" where
  "ends_turn ms =
     (case last_opt ms of
        None \<Rightarrow> False
      | Some m \<Rightarrow> m_role m = Assistant \<and> error_kind m = None
          \<and> \<not> list_ex asks_for_action (m_content m))"

subsection \<open>Results and effects\<close>

record 'e step_result =
  sr_effects :: "'e list"
  sr_applied_step :: "string option"
  sr_yield_to_client :: bool

datatype 'e operation_result = NotApplicable | Applied "'e step_result"

definition not_applicable :: "('w, 'e operation_result) io" where
  "not_applicable = io_ok NotApplicable"

definition applied :: "'e list \<Rightarrow> ('w, 'e operation_result) io" where
  "applied effects =
     io_ok (Applied \<lparr>sr_effects = effects, sr_applied_step = None, sr_yield_to_client = False\<rparr>)"

definition yielded :: "('w, 'e operation_result) io" where
  "yielded =
     io_ok (Applied \<lparr>sr_effects = [], sr_applied_step = None, sr_yield_to_client = True\<rparr>)"

definition yielded_with :: "'e list \<Rightarrow> ('w, 'e operation_result) io" where
  "yielded_with effects =
     io_ok (Applied \<lparr>sr_effects = effects, sr_applied_step = None, sr_yield_to_client = True\<rparr>)"

lemmas result_exec [io_simps] = not_applicable_def applied_def yielded_def yielded_with_def

datatype conversation_effect =
    AppendMessage message
  | ReplaceConversation conversation
  | PatchToolRequestMeta string json
  | SetMessageVisibility string bool bool

definition ensure_message_id :: "'y env_scheme \<Rightarrow> message \<Rightarrow> ('x world_scheme, message) io" where
  "ensure_message_id env m =
     (if m_id m = None
      then io_bind (new_uuid env) (\<lambda>u. io_ok (m\<lparr>m_id := Some (''msg_'' @ u)\<rparr>))
      else io_ok m)"

fun ensure_message_ids ::
    "'y env_scheme \<Rightarrow> conversation_effect \<Rightarrow> ('x world_scheme, conversation_effect) io" where
  "ensure_message_ids env (AppendMessage m) =
     io_bind (ensure_message_id env m) (\<lambda>m'. io_ok (AppendMessage m'))"
| "ensure_message_ids env (ReplaceConversation c) =
     io_bind (io_map (ensure_message_id env) c) (\<lambda>c'. io_ok (ReplaceConversation c'))"
| "ensure_message_ids env e = io_ok e"

record inference_input =
  ii_tools :: "tool list"
  ii_prompt_parts :: "(string \<times> string) list"
  ii_moim_parts :: "string list"

text \<open>
  The trait \<open>Operation\<close> as the record of its methods, with the default bodies; \<open>Inference\<close> adds
  two methods to it.
\<close>

record ('s, 'w, 'e) operation =
  op_name :: string
  op_cancel :: "'s \<Rightarrow> conversation \<Rightarrow> 'e operation_result \<Rightarrow> ('w, 'e operation_result) io"
  op_run_command :: "slash_command \<Rightarrow> 's \<Rightarrow> conversation \<Rightarrow> ('w, 'e operation_result) io"
  op_inference_tools :: "'s \<Rightarrow> ('w, tool list) io"
  op_prompt_parts :: "'s \<Rightarrow> conversation \<Rightarrow> ('w, (string \<times> string) list) io"
  op_moim_parts :: "'s \<Rightarrow> conversation \<Rightarrow> ('w, string list) io"
  op_run :: "'s \<Rightarrow> conversation \<Rightarrow> ('w, 'e operation_result) io"

definition default_operation :: "string \<Rightarrow> ('s, 'w, 'e) operation" where
  "default_operation name =
     \<lparr>op_name = name,
      op_cancel = (\<lambda>_ _ result. io_ok result),
      op_run_command = (\<lambda>_ _ _. not_applicable),
      op_inference_tools = (\<lambda>_. io_ok []),
      op_prompt_parts = (\<lambda>_ _. io_ok []),
      op_moim_parts = (\<lambda>_ _. io_ok []),
      op_run = (\<lambda>_ _. not_applicable)\<rparr>"

record ('s, 'w, 'e) inference_operation = "('s, 'w, 'e) operation" +
  inf_applies :: "conversation \<Rightarrow> bool"
  inf_infer :: "'s \<Rightarrow> conversation \<Rightarrow> inference_input \<Rightarrow> ('w, 'e operation_result) io"

definition set_message_meta :: "string \<Rightarrow> string \<Rightarrow> json \<Rightarrow> message \<Rightarrow> message" where
  "set_message_meta name k v m = m\<lparr>m_metadata := set_operation_note name k v (m_metadata m)\<rparr>"

definition message_meta :: "string \<Rightarrow> message \<Rightarrow> string \<Rightarrow> json option" where
  "message_meta name m k = operation_note (m_metadata m) name k"

subsection \<open>The kickoff and the turns\<close>

lemma rposition_append:
  "rposition P (xs @ ys) =
     (case rposition P ys of Some i \<Rightarrow> Some (length xs + i) | None \<Rightarrow> rposition P xs)"
  by (induction xs) (auto split: option.splits)

lemma messages_since_kickoff_eq_Inr:
  "messages_since_kickoff c = Inr t \<longleftrightarrow>
     (\<exists>pre k rest. c = pre @ t \<and> t = k # rest \<and> is_kickoff k \<and> list_all (\<lambda>m. \<not> is_kickoff m) rest)"
proof
  assume "messages_since_kickoff c = Inr t"
  then obtain i where i: "rposition is_kickoff c = Some i" "t = drop i c"
    by (auto simp: messages_since_kickoff_def split: option.splits)
  note D = rposition_SomeD [OF i(1)]
  have "t = c ! i # drop (Suc i) c"
    using D i(2) by (simp add: Cons_nth_drop_Suc)
  moreover have "list_all (\<lambda>m. \<not> is_kickoff m) (drop (Suc i) c)"
    using D by (auto simp: list_all_iff in_set_conv_nth)
  moreover have "c = take i c @ t" using i(2) by simp
  ultimately show "\<exists>pre k rest. c = pre @ t \<and> t = k # rest \<and> is_kickoff k
      \<and> list_all (\<lambda>m. \<not> is_kickoff m) rest"
    using D by blast
next
  assume "\<exists>pre k rest. c = pre @ t \<and> t = k # rest \<and> is_kickoff k
      \<and> list_all (\<lambda>m. \<not> is_kickoff m) rest"
  then obtain pre k rest where c: "c = pre @ k # rest" "t = k # rest" "is_kickoff k"
    and none: "rposition is_kickoff rest = None"
    by (auto simp: list_all_iff rposition_None_iff)
  then have "rposition is_kickoff c = Some (length pre)"
    by (simp add: rposition_append)
  then show "messages_since_kickoff c = Inr t"
    by (simp add: messages_since_kickoff_def c)
qed

lemma messages_since_kickoff_append:
  "messages_since_kickoff c = Inr t \<Longrightarrow> list_all (\<lambda>m. \<not> is_kickoff m) ms \<Longrightarrow>
     messages_since_kickoff (c @ ms) = Inr (t @ ms)"
  by (force simp: messages_since_kickoff_eq_Inr)

lemma messages_since_kickoff_snoc_kickoff:
  "is_kickoff m \<Longrightarrow> messages_since_kickoff (c @ [m]) = Inr [m]"
  unfolding messages_since_kickoff_eq_Inr by auto

lemma messages_since_kickoff_nonempty: "messages_since_kickoff c = Inr t \<Longrightarrow> t \<noteq> []"
  by (auto simp: messages_since_kickoff_eq_Inr)

lemma messages_since_kickoff_suffix: "messages_since_kickoff c = Inr t \<Longrightarrow> suffix t c"
  by (auto simp: messages_since_kickoff_eq_Inr suffix_def)

lemma last_opt_turn: "messages_since_kickoff c = Inr t \<Longrightarrow> last_opt t = last_opt c"
  by (auto simp: messages_since_kickoff_eq_Inr last_opt_def)

lemma turn_count_shift:
  "fst (fold turn_count_step ms (t + d, b)) = fst (fold turn_count_step ms (t, b)) + d"
proof (induction ms arbitrary: t b)
  case (Cons m ms)
  show ?case
    using Cons.IH [of t] Cons.IH [of "t + 1"] by (simp add: ac_simps)
qed simp

lemma assistant_turn_count_Nil [simp]: "assistant_turn_count [] = 0"
  by (simp add: assistant_turn_count_def)

lemma assistant_turn_count_snoc:
  "assistant_turn_count (ms @ [m]) =
     (if m_role m = Assistant \<and> (ms = [] \<or> m_role (last ms) \<noteq> Assistant)
      then assistant_turn_count ms + 1 else assistant_turn_count ms)"
proof (cases ms rule: rev_cases)
  case Nil
  then show ?thesis by (simp add: assistant_turn_count_def)
next
  case (snoc ms' l)
  then show ?thesis
    using turn_count_shift [of _ 0 1] by (simp add: assistant_turn_count_def)
qed

text \<open>The messages where a block of assistant messages starts.\<close>

fun block_starts :: "bool \<Rightarrow> message list \<Rightarrow> nat" where
  "block_starts prev [] = 0"
| "block_starts prev (m # ms) =
     (if m_role m = Assistant \<and> \<not> prev then 1 else 0) + block_starts (m_role m = Assistant) ms"

lemma block_starts_append:
  "block_starts b (xs @ ys) =
     block_starts b xs + block_starts (if xs = [] then b else m_role (last xs) = Assistant) ys"
  by (induction xs arbitrary: b) auto

lemma assistant_turn_count_blocks: "assistant_turn_count ms = of_nat (block_starts False ms)"
proof (induction ms rule: rev_induct)
  case Nil
  then show ?case by simp
next
  case (snoc m ms)
  then show ?case by (auto simp: assistant_turn_count_snoc block_starts_append)
qed

lemma block_starts_less: "2 * block_starts b ms \<le> length ms + (if b then 0 else 1)"
proof (induction ms arbitrary: b)
  case (Cons m ms)
  show ?case
    using Cons.IH [of True] Cons.IH [of False] by (cases "m_role m") auto
qed simp

lemma ends_turn_last:
  "ends_turn ms \<Longrightarrow> ms \<noteq> [] \<and> m_role (last ms) = Assistant \<and> error_kind (last ms) = None
     \<and> \<not> list_ex asks_for_action (m_content (last ms))"
  by (auto simp: ends_turn_def last_opt_def split: if_splits)

subsection \<open>Identifiers of the messages an effect carries\<close>

fun effect_messages :: "conversation_effect \<Rightarrow> message list" where
  "effect_messages (AppendMessage m) = [m]"
| "effect_messages (ReplaceConversation c) = c"
| "effect_messages _ = []"

definition same_but_id :: "message \<Rightarrow> message \<Rightarrow> bool" where
  "same_but_id m m' \<longleftrightarrow> m' = m \<or> (m_id m = None \<and> (\<exists>i. m' = m\<lparr>m_id := Some i\<rparr>))"

lemma ensure_message_id_ok: "\<exists>m' w'. ensure_message_id env m w = (Inr m', w')"
  by (simp add: ensure_message_id_def io_simps)

lemma ensure_message_id_post:
  "ensure_message_id env m w = (Inr m', w') \<Longrightarrow> m_id m' \<noteq> None \<and> same_but_id m m'"
  by (auto simp: ensure_message_id_def same_but_id_def io_simps split: if_splits)

lemma ensure_message_id_present: "m_id m \<noteq> None \<Longrightarrow> ensure_message_id env m = io_ok m"
  by (auto simp: ensure_message_id_def)

lemma ensure_message_ids_ok: "\<exists>e' w'. ensure_message_ids env e w = (Inr e', w')"
proof (cases e)
  case (ReplaceConversation c)
  obtain c' w' where "io_map (ensure_message_id env) c w = (Inr c', w')"
    using io_map_total [of "ensure_message_id env"] ensure_message_id_ok by blast
  then show ?thesis using ReplaceConversation by (auto simp: io_simps)
qed (auto simp: io_simps ensure_message_id_def)

lemma ensure_message_ids_post:
  assumes "ensure_message_ids env e w = (Inr e', w')"
  shows "list_all (\<lambda>m. m_id m \<noteq> None) (effect_messages e')"
    and "list_all2 same_but_id (effect_messages e) (effect_messages e')"
proof -
  have each: "list_all2 (\<lambda>m m'. m_id m' \<noteq> None \<and> same_but_id m m') c c'"
    if "io_map (ensure_message_id env) c v = (Inr c', v')" for c c' v v'
    using that ensure_message_id_post by (rule io_map_all2 [rotated])
  have "list_all2 (\<lambda>m m'. m_id m' \<noteq> None \<and> same_but_id m m') (effect_messages e) (effect_messages e')"
    using assms
    by (cases e) (auto simp: io_bind_eq_Inr dest: ensure_message_id_post each)
  then show "list_all (\<lambda>m. m_id m \<noteq> None) (effect_messages e')"
    and "list_all2 same_but_id (effect_messages e) (effect_messages e')"
    by (auto simp: list_all2_conv_all_nth list_all_length)
qed

end
