(* ===== verification/Agent_Machine.thy ===== *)
theory Agent_Machine
  imports Agent_Operation
begin

section \<open>The state machine\<close>

text \<open>
  \<open>crates/goose-agent/src/machine.rs\<close>: a pipeline of operations over a persisted session. One
  step asks the operations in order and takes the first that applies; the loop loads the
  session, takes a step, applies its effects and starts again until no operation applies or
  one yields to the client. The session, the effects and the world are type parameters, as in
  the source; \<open>conversation_of\<close> is \<open>MachineSession::conversation\<close>, \<open>ensure\<close> is
  \<open>MachineEffect::ensure_message_ids\<close>.
\<close>

datatype ('s, 'w, 'e) step =
    OperationStep "('s, 'w, 'e) operation"
  | InferenceStep "('s, 'w, 'e) inference_operation"

fun step_operation :: "('s, 'w, 'e) step \<Rightarrow> ('s, 'w, 'e) operation" where
  "step_operation (OperationStep oper) = oper"
| "step_operation (InferenceStep infop) = operation.truncate infop"

fun add_tools_to_inference_input ::
    "tool list \<Rightarrow> inference_input \<times> string set \<Rightarrow> anyhow + inference_input \<times> string set" where
  "add_tools_to_inference_input [] st = Inr st"
| "add_tools_to_inference_input (t # ts) (input, names) =
     (if tool_name t \<in> names
      then Inl (''multiple operations registered tool '' @ [CHR 0x27] @ tool_name t @ [CHR 0x27])
      else add_tools_to_inference_input ts
             (input\<lparr>ii_tools := ii_tools input @ [t]\<rparr>, insert (tool_name t) names))"

text \<open>The inputs of an inference, operation by operation; no value when the turn is cancelled.\<close>

fun gather_input ::
    "'y env_scheme \<Rightarrow> 's \<Rightarrow> conversation \<Rightarrow> ('s, 'x world_scheme, 'e) operation list
       \<Rightarrow> inference_input \<times> string set \<Rightarrow> ('x world_scheme, inference_input option) io" where
  "gather_input env s c [] st = io_ok (Some (fst st))"
| "gather_input env s c (oper # ops) st =
     io_bind (select_cancelled (is_cancelled env) (op_inference_tools oper s)) (\<lambda>tools.
       case tools of
         None \<Rightarrow> io_ok None
       | Some tools \<Rightarrow>
           io_bind (io_of (add_tools_to_inference_input tools st)) (\<lambda>(input, names).
           io_bind (op_prompt_parts oper s c) (\<lambda>pp.
           io_bind (op_moim_parts oper s c) (\<lambda>mp.
             gather_input env s c ops
               (input\<lparr>ii_prompt_parts := ii_prompt_parts input @ pp,
                  ii_moim_parts := ii_moim_parts input @ mp\<rparr>, names)))))"

definition empty_input :: inference_input where
  "empty_input = \<lparr>ii_tools = [], ii_prompt_parts = [], ii_moim_parts = []\<rparr>"

text \<open>How the attempt at one step ends: with a result, by going on to the next step, or by
  leaving the function with no step.\<close>

datatype 'r attempt = Result 'r | Continue | ReturnNone

definition attempt_step ::
    "'y env_scheme \<Rightarrow> 's \<Rightarrow> conversation \<Rightarrow> ('s, 'x world_scheme, 'e) step list
       \<Rightarrow> ('s, 'x world_scheme, 'e) step \<Rightarrow> ('x world_scheme, 'e operation_result attempt) io" where
  "attempt_step env s c steps st =
     io_bind (is_cancelled env) (\<lambda>cancelled.
       if cancelled then io_ok (Result NotApplicable)
       else
         case st of
           OperationStep oper \<Rightarrow> io_bind (op_run oper s c) (\<lambda>r. io_ok (Result r))
         | InferenceStep infop \<Rightarrow>
             if \<not> inf_applies infop c then io_ok Continue
             else io_bind (gather_input env s c (map step_operation steps) (empty_input, {}))
               (\<lambda>input. case input of
                  None \<Rightarrow> io_ok ReturnNone
                | Some input \<Rightarrow> io_bind (inf_infer infop s c input) (\<lambda>r. io_ok (Result r))))"

fun step_from ::
    "'y env_scheme \<Rightarrow> ('e \<Rightarrow> ('x world_scheme, 'e) io) \<Rightarrow> 's \<Rightarrow> conversation
       \<Rightarrow> ('s, 'x world_scheme, 'e) step list \<Rightarrow> ('s, 'x world_scheme, 'e) step list
       \<Rightarrow> ('x world_scheme, 'e step_result option) io" where
  "step_from env ensure s c steps [] = io_ok None"
| "step_from env ensure s c steps (st # rest) =
     io_bind (attempt_step env s c steps st) (\<lambda>a.
       case a of
         Continue \<Rightarrow> step_from env ensure s c steps rest
       | ReturnNone \<Rightarrow> io_ok None
       | Result result \<Rightarrow>
           io_bind (is_cancelled env) (\<lambda>cancelled.
           io_bind (if cancelled then op_cancel (step_operation st) s c result else io_ok result)
             (\<lambda>result. case result of
                NotApplicable \<Rightarrow> step_from env ensure s c steps rest
              | Applied r \<Rightarrow>
                  io_bind (io_map ensure (sr_effects r)) (\<lambda>effects.
                    io_ok (Some (r\<lparr>sr_effects := effects,
                      sr_applied_step := Some (op_name (step_operation st)),
                      sr_yield_to_client := sr_yield_to_client r \<or> cancelled\<rparr>))))))"

definition machine_step ::
    "'y env_scheme \<Rightarrow> ('e \<Rightarrow> ('x world_scheme, 'e) io) \<Rightarrow> ('s \<Rightarrow> conversation option)
       \<Rightarrow> ('s, 'x world_scheme, 'e) step list \<Rightarrow> 's
       \<Rightarrow> ('x world_scheme, 'e step_result option) io" where
  "machine_step env ensure conversation_of steps s =
     (case conversation_of s of
        None \<Rightarrow> io_err ''state-machine session loaded without conversation''
      | Some c \<Rightarrow> step_from env ensure s c steps steps)"

definition machine_apply ::
    "('e \<Rightarrow> ('w, 'e) io) \<Rightarrow> ('s \<Rightarrow> 'e list \<Rightarrow> ('w, unit) io) \<Rightarrow> 's \<Rightarrow> 'e step_result
       \<Rightarrow> ('w, unit) io" where
  "machine_apply ensure apply_effects s r = io_bind (io_map ensure (sr_effects r)) (apply_effects s)"

text \<open>
  One round of the loop of \<open>run\<close>: the result of the function, or the world in which the next
  round starts. The loop itself may go on forever, and is then \<open>None\<close>.
\<close>

definition run_round ::
    "('w, 's) io \<Rightarrow> ('s \<Rightarrow> ('w, 'e step_result option) io) \<Rightarrow> ('s \<Rightarrow> 'e step_result \<Rightarrow> ('w, unit) io)
       \<Rightarrow> 'w \<Rightarrow> (anyhow + 's) \<times> 'w + 'w" where
  "run_round load step apply w =
     (case load w of
        (Inl e, w1) \<Rightarrow> Inl (Inl e, w1)
      | (Inr s, w1) \<Rightarrow>
          (case step s w1 of
             (Inl e, w2) \<Rightarrow> Inl (Inl e, w2)
           | (Inr None, w2) \<Rightarrow> Inl (load w2)
           | (Inr (Some r), w2) \<Rightarrow>
               (case apply s r w2 of
                  (Inl e, w3) \<Rightarrow> Inl (Inl e, w3)
                | (Inr _, w3) \<Rightarrow> if sr_yield_to_client r then Inl (load w3) else Inr w3)))"

partial_function (option) machine_loop :: "('w \<Rightarrow> 'r + 'w) \<Rightarrow> 'w \<Rightarrow> 'r option" where
  "machine_loop body w = (case body w of Inl r \<Rightarrow> Some r | Inr w' \<Rightarrow> machine_loop body w')"

definition machine_run ::
    "'y env_scheme \<Rightarrow> ('e \<Rightarrow> ('x world_scheme, 'e) io) \<Rightarrow> ('s \<Rightarrow> conversation option)
       \<Rightarrow> ('x world_scheme, 's) io \<Rightarrow> ('s \<Rightarrow> 'e list \<Rightarrow> ('x world_scheme, unit) io)
       \<Rightarrow> ('s, 'x world_scheme, 'e) step list \<Rightarrow> 'x world_scheme
       \<Rightarrow> ((anyhow + 's) \<times> 'x world_scheme) option" where
  "machine_run env ensure conversation_of load apply_effects steps =
     machine_loop (run_round load (machine_step env ensure conversation_of steps)
       (machine_apply ensure apply_effects))"

subsection \<open>The tools of an inference\<close>

lemma add_tools_ok:
  "add_tools_to_inference_input ts (input, names) = Inr (input', names') \<Longrightarrow>
     input' = input\<lparr>ii_tools := ii_tools input @ ts\<rparr> \<and> names' = names \<union> tool_name ` set ts
     \<and> distinct (map tool_name ts) \<and> tool_name ` set ts \<inter> names = {}"
proof (induction ts arbitrary: input names)
  case (Cons t ts)
  from Cons.prems have new: "tool_name t \<notin> names"
    and rest: "add_tools_to_inference_input ts
      (input\<lparr>ii_tools := ii_tools input @ [t]\<rparr>, insert (tool_name t) names) = Inr (input', names')"
    by (auto split: if_splits)
  from Cons.IH [OF rest] new show ?case by auto
qed auto

lemma add_tools_error_iff:
  "(\<exists>e. add_tools_to_inference_input ts (input, names) = Inl e) \<longleftrightarrow>
     \<not> distinct (map tool_name ts) \<or> tool_name ` set ts \<inter> names \<noteq> {}"
  by (induction ts arbitrary: input names) auto

lemma gather_input_distinct:
  "gather_input env s c ops (input, names) w = (Inr (Some input'), w') \<Longrightarrow>
     names = tool_name ` set (ii_tools input) \<Longrightarrow> distinct (map tool_name (ii_tools input)) \<Longrightarrow>
     distinct (map tool_name (ii_tools input'))"
proof (induction ops arbitrary: input names w)
  case (Cons oper ops)
  from Cons.prems(1) obtain tools input1 names1 pp mp w1 where
    add: "add_tools_to_inference_input tools (input, names) = Inr (input1, names1)"
    and rest: "gather_input env s c ops
      (input1\<lparr>ii_prompt_parts := ii_prompt_parts input1 @ pp,
         ii_moim_parts := ii_moim_parts input1 @ mp\<rparr>, names1) w1 = (Inr (Some input'), w')"
    by (auto simp: io_bind_eq_Inr split: option.splits)
  note a = add_tools_ok [OF add]
  from a Cons.prems(2,3) show ?case
    by (intro Cons.IH [OF rest]) auto
qed simp

subsection \<open>The step taken\<close>

text \<open>The ways in which a pipeline comes to a result: its first operation applied, or it passed.\<close>

lemma step_from_cases:
  assumes "step_from env ensure s c steps (st # rest) w = (Inr (Some r), w')"
  obtains
    (later) v where "step_from env ensure s c steps rest v = (Inr (Some r), w')"
  | (here) result v1 v2 cancelled v3 q effects where
      "attempt_step env s c steps st w = (Inr (Result result), v1)"
      "is_cancelled env v1 = (Inr cancelled, v2)"
      "(if cancelled then op_cancel (step_operation st) s c result else io_ok result) v2
         = (Inr (Applied q), v3)"
      "io_map ensure (sr_effects q) v3 = (Inr effects, w')"
      "r = q\<lparr>sr_effects := effects, sr_applied_step := Some (op_name (step_operation st)),
             sr_yield_to_client := sr_yield_to_client q \<or> cancelled\<rparr>"
proof -
  from assms obtain a v1 where a: "attempt_step env s c steps st w = (Inr a, v1)"
    and k: "(case a of
         Continue \<Rightarrow> step_from env ensure s c steps rest
       | ReturnNone \<Rightarrow> io_ok None
       | Result result \<Rightarrow>
           io_bind (is_cancelled env) (\<lambda>cancelled.
           io_bind (if cancelled then op_cancel (step_operation st) s c result else io_ok result)
             (\<lambda>result. case result of
                NotApplicable \<Rightarrow> step_from env ensure s c steps rest
              | Applied r \<Rightarrow>
                  io_bind (io_map ensure (sr_effects r)) (\<lambda>effects.
                    io_ok (Some (r\<lparr>sr_effects := effects,
                      sr_applied_step := Some (op_name (step_operation st)),
                      sr_yield_to_client := sr_yield_to_client r \<or> cancelled\<rparr>)))))) v1
        = (Inr (Some r), w')"
    by (auto simp: io_bind_eq_Inr)
  show thesis
  proof (cases a)
    case (Result result)
    with k obtain cancelled v2 res v3 where
      c: "is_cancelled env v1 = (Inr cancelled, v2)"
        "(if cancelled then op_cancel (step_operation st) s c result else io_ok result) v2
           = (Inr res, v3)"
      and k': "(case res of
                NotApplicable \<Rightarrow> step_from env ensure s c steps rest
              | Applied r \<Rightarrow>
                  io_bind (io_map ensure (sr_effects r)) (\<lambda>effects.
                    io_ok (Some (r\<lparr>sr_effects := effects,
                      sr_applied_step := Some (op_name (step_operation st)),
                      sr_yield_to_client := sr_yield_to_client r \<or> cancelled\<rparr>)))) v3
        = (Inr (Some r), w')"
      by (auto simp: io_bind_eq_Inr)
    show thesis
    proof (cases res)
      case NotApplicable
      with k' show thesis by (intro later) simp
    next
      case (Applied q)
      with k' a Result c show thesis by (auto simp: io_bind_eq_Inr intro: here)
    qed
  qed (use k later in auto)
qed

text \<open>
  What an effect promises the machine: the identifiers are always supplied, and supplying them
  gives every message the effect carries an identifier.
\<close>

locale machine_effect =
  fixes ensure :: "'e \<Rightarrow> ('x world_scheme, 'e) io"
    and carries :: "'e \<Rightarrow> message list"
  assumes ensure_ok: "\<exists>e' w'. ensure e w = (Inr e', w')"
    and ensure_ids: "ensure e w = (Inr e', w') \<Longrightarrow> list_all (\<lambda>m. m_id m \<noteq> None) (carries e')"
    and ensure_same: "ensure e w = (Inr e', w') \<Longrightarrow> list_all2 same_but_id (carries e) (carries e')"
begin

lemma map_ensure_ids:
  assumes "io_map ensure es w = (Inr es', w')"
  shows "list_all (\<lambda>e. list_all (\<lambda>m. m_id m \<noteq> None) (carries e)) es'"
proof -
  have "list_all2 (\<lambda>_ e'. list_all (\<lambda>m. m_id m \<noteq> None) (carries e')) es es'"
    using assms ensure_ids by (rule io_map_all2 [rotated])
  then show ?thesis by (auto simp: list_all2_conv_all_nth list_all_length)
qed

lemma step_from_ids:
  "step_from env ensure s c steps rest w = (Inr (Some r), w') \<Longrightarrow>
     list_all (\<lambda>e. list_all (\<lambda>m. m_id m \<noteq> None) (carries e)) (sr_effects r)
     \<and> sr_applied_step r \<in> Some ` op_name ` step_operation ` set rest"
proof (induction rest arbitrary: w)
  case (Cons st rest)
  from Cons.prems show ?case
  proof (cases rule: step_from_cases)
    case later
    then show ?thesis using Cons.IH by auto
  next
    case here
    then show ?thesis using map_ensure_ids by auto
  qed
qed simp

end

interpretation conversation_effects: machine_effect "ensure_message_ids env" effect_messages
  for env :: "'y env_scheme"
  by unfold_locales (fact ensure_message_ids_ok ensure_message_ids_post)+

lemma step_from_yields:
  assumes "\<And>n. e_cancelled env n"
  shows "step_from env ensure s c steps rest w = (Inr (Some r), w') \<Longrightarrow> sr_yield_to_client r"
proof (induction rest arbitrary: w)
  case (Cons st rest)
  from Cons.prems show ?case
  proof (cases rule: step_from_cases)
    case later
    then show ?thesis using Cons.IH by blast
  next
    case here
    then show ?thesis using assms by (simp add: io_simps)
  qed
qed simp

text \<open>A step with other bodies: the methods that do the work are replaced.\<close>

fun with_bodies ::
    "('s \<Rightarrow> conversation \<Rightarrow> ('w, 'e operation_result) io)
       \<Rightarrow> ('s \<Rightarrow> conversation \<Rightarrow> inference_input \<Rightarrow> ('w, 'e operation_result) io)
       \<Rightarrow> ('s, 'w, 'e) step \<Rightarrow> ('s, 'w, 'e) step" where
  "with_bodies run infer (OperationStep oper) = OperationStep (oper\<lparr>op_run := run\<rparr>)"
| "with_bodies run infer (InferenceStep infop) = InferenceStep (infop\<lparr>inf_infer := infer\<rparr>)"

lemma with_bodies_keeps [simp]:
  "op_name (step_operation (with_bodies run infer st)) = op_name (step_operation st)"
  "op_cancel (step_operation (with_bodies run infer st)) = op_cancel (step_operation st)"
  by (cases st; simp add: operation.defs)+

lemma attempt_step_cancelled:
  assumes "\<And>n. e_cancelled env n"
  shows "attempt_step env s c steps st = io_bind (is_cancelled env) (\<lambda>_. io_ok (Result NotApplicable))"
  by (rule ext) (simp add: attempt_step_def io_simps assms)

lemma step_from_cancelled:
  assumes "\<And>n. e_cancelled env n"
  shows "step_from env ensure s c steps (map (with_bodies run infer) rest)
    = step_from env ensure s c steps' rest"
  by (induction rest) (simp_all add: attempt_step_cancelled assms cong: if_cong)

subsection \<open>The loop\<close>

text \<open>
  The contract under which the loop ends: an invariant of the worlds at the start of a round,
  and a well-founded relation in which every round that goes on descends.
\<close>

locale loop_progress =
  fixes body :: "'w \<Rightarrow> 'r + 'w"
    and good :: "'w \<Rightarrow> bool"
    and rel :: "'w rel"
  assumes wf_rel: "wf rel"
    and round_descends: "good w \<Longrightarrow> body w = Inr w' \<Longrightarrow> good w' \<and> (w', w) \<in> rel"
begin

lemma loop_returns: "good w \<Longrightarrow> \<exists>w' r. machine_loop body w = Some r \<and> good w' \<and> body w' = Inl r"
proof (induction w rule: wf_induct_rule [OF wf_rel])
  case (1 w)
  show ?case
  proof (cases "body w")
    case (Inl r)
    then show ?thesis using 1 by (subst machine_loop.simps) auto
  next
    case (Inr w')
    with 1 round_descends have "good w'" "(w', w) \<in> rel" by blast+
    then show ?thesis using 1 Inr by (subst machine_loop.simps) auto
  qed
qed

end

text \<open>A pipeline that goes on from every world never returns.\<close>

lemma machine_loop_diverges:
  assumes "\<And>w. good w \<Longrightarrow> \<exists>w'. body w = Inr w' \<and> good w'" and "good w"
  shows "machine_loop body w = None"
proof (rule ccontr)
  have ind: "b = body \<longrightarrow> \<not> good w" if "machine_loop b w = Some r" for b w r
    by (rule machine_loop.raw_induct [OF _ that]) (use assms(1) in \<open>fastforce split: sum.splits\<close>)
  assume "machine_loop body w \<noteq> None"
  then show False using ind assms(2) by blast
qed

subsection \<open>Properties of the machine\<close>

lemma distinct_append_fresh:
  "distinct (xs @ ys) \<and> set (xs @ ys) \<inter> N = {} \<longleftrightarrow>
     distinct xs \<and> set xs \<inter> N = {} \<and> distinct ys \<and> set ys \<inter> (N \<union> set xs) = {}"
  by auto

lemma gather_input_result:
  fixes env :: "'y env_scheme" and w :: "'x world_scheme"
    and ops :: "('s, 'x world_scheme, 'e) operation list"
  assumes "\<And>n. \<not> e_cancelled env n"
    and "\<And>oper. oper \<in> set ops \<Longrightarrow> op_inference_tools oper s = io_ok (tools oper)
      \<and> op_prompt_parts oper s c = io_ok (pp oper) \<and> op_moim_parts oper s c = io_ok (mp oper)"
  shows "(let ts = concat (map tools ops) in
     if distinct (map tool_name ts) \<and> tool_name ` set ts \<inter> names = {}
     then fst (gather_input env s c ops (input, names) w) =
       Inr (Some (input\<lparr>ii_tools := ii_tools input @ ts,
          ii_prompt_parts := ii_prompt_parts input @ concat (map pp ops),
          ii_moim_parts := ii_moim_parts input @ concat (map mp ops)\<rparr>))
     else \<exists>e. fst (gather_input env s c ops (input, names) w) = Inl e)"
  using assms(2)
proof (induction ops arbitrary: input names w)
  case Nil
  then show ?case by (simp add: io_simps Let_def)
next
  case (Cons oper ops)
  note methods = Cons.prems [of oper, simplified]
  show ?case
  proof (cases "add_tools_to_inference_input (tools oper) (input, names)")
    case (Inl e)
    then have "\<not> (distinct (map tool_name (tools oper)) \<and> tool_name ` set (tools oper) \<inter> names = {})"
      using add_tools_error_iff [of "tools oper" input names] by simp
    then have "\<not> (distinct (map tool_name (concat (map tools (oper # ops))))
          \<and> tool_name ` set (concat (map tools (oper # ops))) \<inter> names = {})"
      using distinct_append_fresh [of "map tool_name (tools oper)"
          "map tool_name (concat (map tools ops))" names] by (simp add: image_Un) blast
    moreover have "fst (gather_input env s c (oper # ops) (input, names) w) = Inl e"
      using Inl methods assms(1) by (simp add: io_simps select_cancelled_def)
    ultimately show ?thesis unfolding Let_def by (simp only: if_False) blast
  next
    case (Inr st)
    obtain input1 names1 where st: "st = (input1, names1)" by (cases st)
    note added = add_tools_ok [OF Inr [unfolded st]]
    let ?input = "input1\<lparr>ii_prompt_parts := ii_prompt_parts input1 @ pp oper,
      ii_moim_parts := ii_moim_parts input1 @ mp oper\<rparr>"
    let ?w = "w\<lparr>w_tick := Suc (w_tick w)\<rparr>"
    have step: "gather_input env s c (oper # ops) (input, names) w
        = gather_input env s c ops (?input, names1) ?w"
      using Inr st methods assms(1) by (simp add: io_simps select_cancelled_def)
    have disj: "distinct (map tool_name (concat (map tools (oper # ops))))
          \<and> tool_name ` set (concat (map tools (oper # ops))) \<inter> names = {}
        \<longleftrightarrow> distinct (map tool_name (concat (map tools ops)))
          \<and> tool_name ` set (concat (map tools ops)) \<inter> names1 = {}"
      using added distinct_append_fresh [of "map tool_name (tools oper)"
          "map tool_name (concat (map tools ops))" names] by (simp add: image_Un)
    let ?ok = "distinct (map tool_name (concat (map tools ops)))
      \<and> tool_name ` set (concat (map tools ops)) \<inter> names1 = {}"
    have ih: "let ts = concat (map tools ops) in
        if distinct (map tool_name ts) \<and> tool_name ` set ts \<inter> names1 = {}
        then fst (gather_input env s c ops (?input, names1) ?w) =
          Inr (Some (?input\<lparr>ii_tools := ii_tools ?input @ ts,
             ii_prompt_parts := ii_prompt_parts ?input @ concat (map pp ops),
             ii_moim_parts := ii_moim_parts ?input @ concat (map mp ops)\<rparr>))
        else \<exists>e. fst (gather_input env s c ops (?input, names1) ?w) = Inl e"
      using Cons.prems by (intro Cons.IH) simp
    show ?thesis
    proof (cases ?ok)
      case True
      with ih show ?thesis unfolding step Let_def disj by (simp add: added)
    next
      case False
      with ih show ?thesis unfolding step Let_def disj by (simp only: if_False)
    qed
  qed
qed

text \<open>The input of an inference is what every operation of
  the pipeline contributes, in the order of the pipeline, when no two tools have the same name;
  when two tools share a name, of one operation or of two, gathering the input is an error and
  the model is not asked.\<close>

lemma inference_input_gathered:
  fixes env :: "'y env_scheme" and w :: "'x world_scheme"
    and ops :: "('s, 'x world_scheme, 'e) operation list"
  assumes "\<And>n. \<not> e_cancelled env n"
    and "\<And>oper. oper \<in> set ops \<Longrightarrow> op_inference_tools oper s = io_ok (tools oper)
      \<and> op_prompt_parts oper s c = io_ok (pp oper) \<and> op_moim_parts oper s c = io_ok (mp oper)"
  shows "(let ts = concat (map tools ops); r = fst (gather_input env s c ops (empty_input, {}) w) in
     if distinct (map tool_name ts)
     then r = Inr (Some \<lparr>ii_tools = ts, ii_prompt_parts = concat (map pp ops),
                     ii_moim_parts = concat (map mp ops)\<rparr>)
     else \<exists>e. r = Inl e)"
  using gather_input_result [of env ops s tools c pp mp "{}" empty_input w, OF assms]
  by (simp add: Let_def empty_input_def split: if_splits)

definition plain_env :: "(nat \<Rightarrow> bool) \<Rightarrow> env" where
  "plain_env cancelled =
     \<lparr>e_text = \<lparr>te_nfc = (\<lambda>s. s), te_b64_decode = (\<lambda>_. None), te_b64_encode = (\<lambda>s. s)\<rparr>,
      e_now = int, e_uuid = (\<lambda>n. show_nat n), e_cancelled = cancelled\<rparr>"

definition plain_world :: world where
  "plain_world = \<lparr>w_tick = 0, w_events = []\<rparr>"

definition tool_named :: "string \<Rightarrow> tool" where
  "tool_named n = \<lparr>tool_name = n, tool_read_only_hint = None\<rparr>"

definition tools_operation ::
    "string \<Rightarrow> (unit, world, conversation_effect) operation" where
  "tools_operation name =
     (default_operation name)\<lparr>op_inference_tools := (\<lambda>_. io_ok [tool_named ''shell''])\<rparr>"

lemma inference_input_gathered_example:
  "\<exists>e. fst (gather_input (plain_env (\<lambda>_. False)) () [] [tools_operation ''a'', tools_operation ''b'']
       (empty_input, {}) plain_world) = Inl e"
proof -
  let ?ops = "[tools_operation ''a'', tools_operation ''b'']" and ?tools = "\<lambda>_. [tool_named ''shell'']"
  have "\<not> distinct (map tool_name (concat (map ?tools ?ops)))" by simp
  moreover have "let ts = concat (map ?tools ?ops);
      r = fst (gather_input (plain_env (\<lambda>_. False)) () [] ?ops (empty_input, {}) plain_world) in
     if distinct (map tool_name ts)
     then r = Inr (Some \<lparr>ii_tools = ts, ii_prompt_parts = concat (map (\<lambda>_. []) ?ops),
                     ii_moim_parts = concat (map (\<lambda>_. []) ?ops)\<rparr>)
     else \<exists>e. r = Inl e"
    by (rule inference_input_gathered)
      (auto simp: plain_env_def tools_operation_def default_operation_def)
  ultimately show ?thesis by (simp only: Let_def if_False)
qed

text \<open>Once the turn is cancelled, a step runs no operation
  and asks no model: it is the same step whatever their bodies are, only what the operations
  do on cancellation counts, and what it applies is handed to the client.\<close>

lemma cancelled_step_runs_nothing:
  fixes env :: "'y env_scheme"
  assumes "\<And>n. e_cancelled env n"
  shows "machine_step env ensure conversation_of (map (with_bodies run infer) steps) s
      = machine_step env ensure conversation_of steps s
    \<and> (\<forall>w r w'. machine_step env ensure conversation_of steps s w = (Inr (Some r), w')
         \<longrightarrow> sr_yield_to_client r)"
  using step_from_cancelled [OF assms] step_from_yields [OF assms]
  by (auto simp: machine_step_def split: option.splits)

lemma cancelled_step_runs_nothing_example:
  "machine_step (plain_env (\<lambda>_. True)) (ensure_message_ids (plain_env (\<lambda>_. True))) Some
     (map (with_bodies (\<lambda>_ _. io_err ''run'') (\<lambda>_ _ _. io_err ''infer''))
       [OperationStep (default_operation ''a'')]) ([] :: conversation) plain_world
   = (Inr None, plain_world\<lparr>w_tick := 2\<rparr>)"
proof -
  have "machine_step (plain_env (\<lambda>_. True)) (ensure_message_ids (plain_env (\<lambda>_. True))) Some
     [OperationStep (default_operation ''a'')] [] plain_world = (Inr None, plain_world\<lparr>w_tick := 2\<rparr>)"
    by (simp add: machine_step_def attempt_step_def io_simps plain_env_def default_operation_def
        plain_world_def)
  then show ?thesis
    by (subst cancelled_step_runs_nothing [THEN conjunct1]) (simp_all add: plain_env_def)
qed

end
