(* ===== verification/Agent_Tool.thy ===== *)
theory Agent_Tool
  imports Agent_Machine Tool_Request
begin

section \<open>The tool operation\<close>

text \<open>
  \<open>crates/goose-agent/src/tool.rs\<close>: the operation that advertises the tools registered with it
  or supplied by providers, and answers the requests for them. A tool's handler and a provider
  are code of the embedding program: they are fields of the records, with any behaviour. The
  parameters and the output of a typed tool are decoded and encoded by \<open>serde\<close> through the
  functions of \<open>tool_base\<close>, which stand for the \<open>ToolBase\<close> trait of the protocol crate.
\<close>

type_synonym ('w, 'a) act = "'w \<Rightarrow> 'a \<times> 'w"

definition io_act :: "('w, 'a) act \<Rightarrow> ('w, 'a) io" where
  "io_act a w = (case a w of (x, w') \<Rightarrow> (Inr x, w'))"

definition invalid_params :: "string \<Rightarrow> error_data" where
  "invalid_params msg = \<lparr>ed_code = - 32602, ed_message = msg, ed_data = None\<rparr>"

definition internal_error :: "string \<Rightarrow> error_data" where
  "internal_error msg = \<lparr>ed_code = - 32603, ed_message = msg, ed_data = None\<rparr>"

definition call_tool_error :: "content_block list \<Rightarrow> call_tool_result" where
  "call_tool_error content =
     \<lparr>ctr_content = content, ctr_is_error = Some True, ctr_structured = None, ctr_rest = JNull\<rparr>"

definition call_tool_success :: "content_block list \<Rightarrow> call_tool_result" where
  "call_tool_success content =
     \<lparr>ctr_content = content, ctr_is_error = Some False, ctr_structured = None, ctr_rest = JNull\<rparr>"

definition content_text :: "string \<Rightarrow> content_block" where
  "content_text s = CText (text_content_new s)"

definition pending_requests :: "tool_request list \<Rightarrow> string set \<Rightarrow> tool_request list" where
  "pending_requests requests names =
     filter (\<lambda>r. case tr_tool_call r of Inl _ \<Rightarrow> True | Inr call \<Rightarrow> ctp_name call \<in> names) requests"

definition interrupted_result :: "call_tool_result tool_result" where
  "interrupted_result =
     Inr (call_tool_error [content_text ''Tool call was interrupted before completing''])"

record ('p, 'o) tool_base =
  tb_has_input_schema :: bool
  tb_default_parameter :: 'p
  tb_from_value :: "json \<Rightarrow> string + 'p"
  tb_to_value :: "'o \<Rightarrow> string + json"
  tb_structured :: "json \<Rightarrow> call_tool_result"

definition parameters :: "('p, 'o) tool_base \<Rightarrow> json_object option \<Rightarrow> error_data + 'p" where
  "parameters tb arguments =
     (if \<not> tb_has_input_schema tb then Inr (tb_default_parameter tb)
      else case tb_from_value tb (JObject (case arguments of Some a \<Rightarrow> a | None \<Rightarrow> [])) of
             Inl e \<Rightarrow> Inl (invalid_params (''failed to deserialize parameters: '' @ e))
           | Inr p \<Rightarrow> Inr p)"

definition tool_output ::
    "('p, 'o) tool_base \<Rightarrow> error_data + 'o \<Rightarrow> call_tool_result tool_result" where
  "tool_output tb r =
     (case r of
        Inl e \<Rightarrow> Inl e
      | Inr x \<Rightarrow>
          (case tb_to_value tb x of
             Inl e \<Rightarrow> Inl (internal_error (''failed to serialize tool output: '' @ e))
           | Inr v \<Rightarrow> Inr (tb_structured tb v)))"

record ('s, 'w) registered_tool =
  rt_definition :: tool
  rt_handler :: "'s \<Rightarrow> json_object option \<Rightarrow> ('w, call_tool_result tool_result) act"

record ('s, 'w) tool_provider =
  tp_tools :: "'s \<Rightarrow> ('w, tool list) io"
  tp_call :: "'s \<Rightarrow> string \<Rightarrow> call_tool_request_params \<Rightarrow> ('w, call_tool_result tool_result) act"

definition registered_provider ::
    "('s, 'w) registered_tool list \<Rightarrow> ('s, 'w) tool_provider" where
  "registered_provider tools =
     \<lparr>tp_tools = (\<lambda>_. io_ok (map rt_definition tools)),
      tp_call = (\<lambda>s _ call w.
        case find (\<lambda>t. tool_name (rt_definition t) = ctp_name call) tools of
          None \<Rightarrow> (Inl (invalid_params (''unknown tool '' @ ctp_name call)), w)
        | Some t \<Rightarrow> rt_handler t s (ctp_arguments call) w)\<rparr>"

record ('s, 'w) tool_operation =
  to_registered :: "('s, 'w) registered_tool list"
  to_providers :: "('s, 'w) tool_provider list"

definition tool_operation_new :: "('s, 'w) tool_operation" where
  "tool_operation_new = \<lparr>to_registered = [], to_providers = []\<rparr>"

fun replace_or_push ::
    "('s, 'w) registered_tool \<Rightarrow> ('s, 'w) registered_tool list \<Rightarrow> ('s, 'w) registered_tool list" where
  "replace_or_push t [] = [t]"
| "replace_or_push t (x # xs) =
     (if tool_name (rt_definition x) = tool_name (rt_definition t) then t # xs
      else x # replace_or_push t xs)"

definition register :: "('s, 'w) registered_tool \<Rightarrow> ('s, 'w) tool_operation \<Rightarrow> ('s, 'w) tool_operation" where
  "register t op0 = op0\<lparr>to_registered := replace_or_push t (to_registered op0)\<rparr>"

definition with_provider ::
    "('s, 'w) tool_provider \<Rightarrow> ('s, 'w) tool_operation \<Rightarrow> ('s, 'w) tool_operation" where
  "with_provider p op0 = op0\<lparr>to_providers := to_providers op0 @ [p]\<rparr>"

definition with_async_tool ::
    "tool \<Rightarrow> ('p, 'o) tool_base \<Rightarrow> ('s \<Rightarrow> 'p \<Rightarrow> ('w, error_data + 'o) act)
       \<Rightarrow> ('s, 'w) tool_operation \<Rightarrow> ('s, 'w) tool_operation" where
  "with_async_tool t tb invoke =
     register \<lparr>rt_definition = t,
       rt_handler = (\<lambda>s arguments w.
         case parameters tb arguments of
           Inl e \<Rightarrow> (Inl e, w)
         | Inr p \<Rightarrow> (case invoke s p w of (r, w') \<Rightarrow> (tool_output tb r, w')))\<rparr>"

text \<open>The task of a synchronous tool may die (\<open>Inl\<close>): the panic is an internal error.\<close>

definition with_sync_tool ::
    "tool \<Rightarrow> ('p, 'o) tool_base \<Rightarrow> ('s \<Rightarrow> 'p \<Rightarrow> ('w, string + (error_data + 'o)) act)
       \<Rightarrow> ('s, 'w) tool_operation \<Rightarrow> ('s, 'w) tool_operation" where
  "with_sync_tool t tb spawn =
     register \<lparr>rt_definition = t,
       rt_handler = (\<lambda>s arguments w.
         case parameters tb arguments of
           Inl e \<Rightarrow> (Inl e, w)
         | Inr p \<Rightarrow>
             (case spawn s p w of
                (Inl e, w') \<Rightarrow> (Inl (internal_error (''synchronous tool task failed: '' @ e)), w')
              | (Inr r, w') \<Rightarrow> (tool_output tb r, w')))\<rparr>"

fun push_tools ::
    "('s, 'w) tool_provider \<Rightarrow> tool list \<Rightarrow> (tool \<times> ('s, 'w) tool_provider) list
       \<Rightarrow> anyhow + (tool \<times> ('s, 'w) tool_provider) list" where
  "push_tools p [] available = Inr available"
| "push_tools p (t # ts) available =
     (if list_ex (\<lambda>(a, _). tool_name a = tool_name t) available
      then Inl (''multiple tool providers registered '' @ [CHR 0x27] @ tool_name t @ [CHR 0x27])
      else push_tools p ts (available @ [(t, p)]))"

fun push_providers ::
    "'s \<Rightarrow> ('s, 'w) tool_provider list \<Rightarrow> (tool \<times> ('s, 'w) tool_provider) list
       \<Rightarrow> ('w, (tool \<times> ('s, 'w) tool_provider) list) io" where
  "push_providers s [] available = io_ok available"
| "push_providers s (p # ps) available =
     io_bind (tp_tools p s) (\<lambda>ts.
     io_bind (io_of (push_tools p ts available)) (\<lambda>available. push_providers s ps available))"

definition available_tools ::
    "('s, 'w) tool_operation \<Rightarrow> 's \<Rightarrow> ('w, (tool \<times> ('s, 'w) tool_provider) list) io" where
  "available_tools op0 s =
     (let reg = registered_provider (to_registered op0) in
      io_bind (tp_tools reg s) (\<lambda>ts. push_providers s (to_providers op0) (map (\<lambda>t. (t, reg)) ts)))"

fun available_names :: "(tool \<times> ('s, 'w) tool_provider) list \<Rightarrow> string list" where
  "available_names [] = []"
| "available_names ((t, _) # rest) = tool_name t # available_names rest"

definition turn_pending :: "message list \<Rightarrow> tool_request list" where
  "turn_pending turn =
     (let answered = \<Union> (set (map get_tool_response_ids turn)) in
      filter (\<lambda>r. \<not> was_executed_externally r \<and> tr_id r \<notin> answered)
        (filter_map as_tool_request (concat (map m_content turn))))"

fun interrupt_all :: "text_env \<Rightarrow> tool_request list \<Rightarrow> message \<Rightarrow> message" where
  "interrupt_all te [] m = m"
| "interrupt_all te (r # rs) m =
     interrupt_all te rs
       (add_tool_response_with_metadata te (tr_id r) interrupted_result (tr_metadata r) m)"

definition provider_for ::
    "(tool \<times> ('s, 'w) tool_provider) list \<Rightarrow> ('s, 'w) tool_provider \<Rightarrow> tool_request
       \<Rightarrow> anyhow + ('s, 'w) tool_provider" where
  "provider_for available reg r =
     (case tr_tool_call r of
        Inl _ \<Rightarrow> Inr reg
      | Inr call \<Rightarrow>
          (case find (\<lambda>(t, _). tool_name t = ctp_name call) available of
             Some (_, p) \<Rightarrow> Inr p
           | None \<Rightarrow> Inl ''pending requests were filtered by available tools''))"

fun answer_requests ::
    "'y env_scheme \<Rightarrow> 's \<Rightarrow> (tool \<times> ('s, 'x world_scheme) tool_provider) list
       \<Rightarrow> ('s, 'x world_scheme) tool_provider \<Rightarrow> bool \<Rightarrow> tool_request list \<Rightarrow> message
       \<Rightarrow> ('x world_scheme, message) io" where
  "answer_requests env s available reg cancelled [] m = io_ok m"
| "answer_requests env s available reg cancelled (r # rs) m =
     io_bind (io_of (provider_for available reg r)) (\<lambda>provider.
     io_bind (if cancelled then io_ok True else is_cancelled env) (\<lambda>c.
     io_bind
       (if c then io_ok (True, interrupted_result)
        else case tr_tool_call r of
               Inl e \<Rightarrow> io_ok (cancelled, Inl e)
             | Inr call \<Rightarrow>
                 io_bind (select_cancelled (is_cancelled env)
                     (io_act (tp_call provider s (tr_id r) call))) (\<lambda>answer.
                   case answer of
                     None \<Rightarrow> io_ok (True, interrupted_result)
                   | Some result \<Rightarrow> io_ok (cancelled, result)))
       (\<lambda>(cancelled, result).
         answer_requests env s available reg cancelled rs
           (add_tool_response_with_metadata (e_text env) (tr_id r) result (tr_metadata r) m))))"

definition tool_operation_run ::
    "'y env_scheme \<Rightarrow> (message \<Rightarrow> 'e) \<Rightarrow> ('s, 'x world_scheme) tool_operation \<Rightarrow> 's
       \<Rightarrow> conversation \<Rightarrow> ('x world_scheme, 'e operation_result) io" where
  "tool_operation_run env from_message op0 s c =
     io_bind (io_of (messages_since_kickoff c)) (\<lambda>turn.
       let pending = turn_pending turn in
       if pending = [] then not_applicable
       else
         io_bind (select_cancelled (is_cancelled env) (available_tools op0 s)) (\<lambda>available.
           case available of
             None \<Rightarrow>
               io_bind (now env) (\<lambda>t.
               io_bind (emit_message env (interrupt_all (e_text env) pending (message_user t))) (\<lambda>m.
                 applied [from_message m]))
           | Some available \<Rightarrow>
               let owned = pending_requests pending (set (available_names available)) in
               if owned = [] then not_applicable
               else
                 io_bind (now env) (\<lambda>t.
                 io_bind (answer_requests env s available (registered_provider (to_registered op0))
                     False owned (message_user t)) (\<lambda>m.
                 io_bind (emit_message env m) (\<lambda>m. applied [from_message m])))))"

definition tool_operation_as ::
    "'y env_scheme \<Rightarrow> (message \<Rightarrow> 'e) \<Rightarrow> ('s, 'x world_scheme) tool_operation
       \<Rightarrow> ('s, 'x world_scheme, 'e) operation" where
  "tool_operation_as env from_message op0 =
     (default_operation ''tools'')\<lparr>
       op_inference_tools := (\<lambda>s. io_bind (available_tools op0 s) (\<lambda>a. io_ok (map fst a))),
       op_run := tool_operation_run env from_message op0\<rparr>"

subsection \<open>Registered tools\<close>

definition registered_names :: "('s, 'w) tool_operation \<Rightarrow> string list" where
  "registered_names op0 = map (tool_name \<circ> rt_definition) (to_registered op0)"

lemma replace_or_push_names:
  "map (tool_name \<circ> rt_definition) (replace_or_push t xs) =
     (if tool_name (rt_definition t) \<in> set (map (tool_name \<circ> rt_definition) xs)
      then map (tool_name \<circ> rt_definition) xs
      else map (tool_name \<circ> rt_definition) xs @ [tool_name (rt_definition t)])"
  by (induction xs) auto

lemma find_replace_or_push:
  "find (\<lambda>x. tool_name (rt_definition x) = n) (replace_or_push t xs) =
     (if n = tool_name (rt_definition t) then Some t
      else find (\<lambda>x. tool_name (rt_definition x) = n) xs)"
  by (induction xs) auto

lemma register_distinct: "distinct (registered_names op0) \<Longrightarrow> distinct (registered_names (register t op0))"
  by (simp add: registered_names_def register_def replace_or_push_names)

lemma available_names_append [simp]:
  "available_names (xs @ ys) = available_names xs @ available_names ys"
  by (induction xs rule: available_names.induct) auto

lemma available_names_map [simp]: "available_names (map (\<lambda>t. (t, p)) ts) = map tool_name ts"
  by (induction ts) auto

lemma set_available_names: "set (available_names xs) = (tool_name \<circ> fst) ` set xs"
  by (induction xs rule: available_names.induct) auto

lemma push_tools_ok:
  "push_tools p ts available = Inr available' \<Longrightarrow>
     available' = available @ map (\<lambda>t. (t, p)) ts
     \<and> (distinct (available_names available) \<longrightarrow> distinct (available_names available'))"
proof (induction ts arbitrary: available)
  case (Cons t ts)
  from Cons.prems have new: "tool_name t \<notin> set (available_names available)"
    and rest: "push_tools p ts (available @ [(t, p)]) = Inr available'"
    by (auto simp: list_ex_iff set_available_names split: if_splits)
  note ih = Cons.IH [OF rest]
  show ?case
    using ih [THEN conjunct1] ih [THEN conjunct2] new
    by (intro conjI impI) (simp, simp only: available_names_append, simp)
qed simp

lemma push_providers_distinct:
  "push_providers s ps available w = (Inr available', w') \<Longrightarrow>
     distinct (available_names available) \<Longrightarrow> distinct (available_names available')"
proof (induction ps arbitrary: available w)
  case (Cons p ps)
  from Cons.prems(1) obtain ts available1 w1 where
    push: "push_tools p ts available = Inr available1"
    and rest: "push_providers s ps available1 w1 = (Inr available', w')"
    by (auto simp: io_bind_eq_Inr)
  from push_tools_ok [OF push] Cons.prems(2) have "distinct (available_names available1)" by blast
  then show ?case by (rule Cons.IH [OF rest])
qed simp

lemma available_tools_distinct:
  "available_tools op0 s w = (Inr available, w') \<Longrightarrow> distinct (registered_names op0) \<Longrightarrow>
     distinct (available_names available)"
proof -
  assume ok: "available_tools op0 s w = (Inr available, w')"
    and "distinct (registered_names op0)"
  then have "distinct (available_names (map (\<lambda>t. (t, registered_provider (to_registered op0)))
      (map rt_definition (to_registered op0))))"
    by (simp only: available_names_map) (simp add: registered_names_def comp_def)
  moreover have "push_providers s (to_providers op0)
      (map (\<lambda>t. (t, registered_provider (to_registered op0))) (map rt_definition (to_registered op0))) w
        = (Inr available, w')"
    using ok by (simp add: available_tools_def Let_def registered_provider_def io_bind_eq_Inr)
  ultimately show ?thesis by (rule push_providers_distinct [rotated])
qed

subsection \<open>The answers\<close>

definition answers ::
    "text_env \<Rightarrow> (tool_request \<times> call_tool_result tool_result) list \<Rightarrow> message_content_block list" where
  "answers te rrs = map (\<lambda>(r, res). tool_response_with_metadata te (tr_id r) res (tr_metadata r)) rrs"

lemma response_id_answer [simp]: "response_id (tool_response_with_metadata te i res md) = Some i"
  by (simp add: tool_response_with_metadata_def response_id_def)

lemma request_id_answer [simp]: "request_id (tool_response_with_metadata te i res md) = None"
  by (simp add: tool_response_with_metadata_def request_id_def)

lemma as_tool_request_answer [simp]: "as_tool_request (tool_response_with_metadata te i res md) = None"
  by (simp add: tool_response_with_metadata_def as_tool_request_def)

lemma filter_map_answers [simp]:
  "filter_map response_id (answers te rrs) = map (tr_id \<circ> fst) rrs"
  "filter_map as_tool_request (answers te rrs) = []"
  by (induction rrs) (auto simp: answers_def)

lemma interrupt_all_eq:
  "interrupt_all te rs m = m\<lparr>m_content := m_content m @ answers te (map (\<lambda>r. (r, interrupted_result)) rs)\<rparr>"
  by (induction rs arbitrary: m) (simp_all add: answers_def add_tool_response_with_metadata_def)

lemma answer_requests_eq:
  "answer_requests env s available reg cancelled rs m w = (Inr m', w') \<Longrightarrow>
     \<exists>rrs. map fst rrs = rs \<and> m' = m\<lparr>m_content := m_content m @ answers (e_text env) rrs\<rparr>"
proof (induction rs arbitrary: cancelled m w)
  case Nil
  then show ?case by (intro exI [of _ "[]"]) (simp add: answers_def)
next
  case (Cons r rs)
  from Cons.prems obtain b result v where
    "answer_requests env s available reg b rs
       (add_tool_response_with_metadata (e_text env) (tr_id r) result (tr_metadata r) m) v = (Inr m', w')"
    by (auto simp: io_bind_eq_Inr)
  from Cons.IH [OF this] obtain rrs where
    "map fst rrs = rs"
    "m' = m\<lparr>m_content := (m_content m @ [tool_response_with_metadata (e_text env) (tr_id r) result
       (tr_metadata r)]) @ answers (e_text env) rrs\<rparr>"
    by (auto simp: add_tool_response_with_metadata_def)
  then show ?case
    by (intro exI [of _ "(r, result) # rrs"]) (simp add: answers_def)
qed

lemma provider_for_found:
  assumes "r \<in> set (pending_requests rs (set (available_names available)))"
  shows "\<exists>p. provider_for available reg r = Inr p"
proof (cases "tr_tool_call r")
  case (Inr call)
  with assms have "ctp_name call \<in> set (available_names available)"
    by (simp add: pending_requests_def)
  then have "find (\<lambda>(t, _). tool_name t = ctp_name call) available \<noteq> None"
    by (auto simp: find_None_iff set_available_names)
  with Inr show ?thesis by (auto simp: provider_for_def)
qed (simp add: provider_for_def)

lemma answer_requests_total:
  "(\<And>r. r \<in> set rs \<Longrightarrow> \<exists>p. provider_for available reg r = Inr p) \<Longrightarrow>
     \<exists>m' w'. answer_requests env s available reg cancelled rs m w = (Inr m', w')"
proof (induction rs arbitrary: cancelled m w)
  case Nil
  then show ?case by (simp add: io_simps)
next
  case (Cons r rs)
  obtain p where p: "provider_for available reg r = Inr p" using Cons.prems by force
  have rest: "\<exists>m' w'. answer_requests env s available reg b rs m1 w1 = (Inr m', w')" for b m1 w1
    using Cons.prems by (intro Cons.IH) auto
  show ?case
    by (cases "tr_tool_call r")
      (auto simp: p io_simps select_cancelled_def io_act_def rest split: prod.splits)
qed

lemma turn_pending_snoc_answers:
  assumes "m_content m = answers te rrs"
  shows "turn_pending (turn @ [m]) =
    filter (\<lambda>r. tr_id r \<notin> set (map (tr_id \<circ> fst) rrs)) (turn_pending turn)"
proof -
  have "get_tool_response_ids m = set (map (tr_id \<circ> fst) rrs)"
    by (simp only: get_tool_response_ids_def assms filter_map_answers)
  then show ?thesis
    by (auto simp: turn_pending_def Let_def assms intro!: filter_cong)
qed

lemma answers_not_kickoff:
  "m_content m = answers te rrs \<Longrightarrow> rrs \<noteq> [] \<Longrightarrow> \<not> is_kickoff m"
  by (cases rrs)
    (auto simp: is_kickoff_def is_tool_response_def answers_def tool_response_with_metadata_def)

lemma with_generated_id_content [simp]:
  "m_content (with_generated_id_if_missing u m) = m_content m"
  "m_role (with_generated_id_if_missing u m) = m_role m"
  "m_metadata (with_generated_id_if_missing u m) = m_metadata m"
  "m_created (with_generated_id_if_missing u m) = m_created m"
  by (simp_all add: with_generated_id_if_missing_def split: option.splits)

lemma tool_operation_run_applied:
  assumes "tool_operation_run env from_message op0 s c w = (Inr (Applied r), w')"
    and "messages_since_kickoff c = Inr turn"
  shows "\<exists>m rrs. sr_effects r = [from_message m] \<and> \<not> sr_yield_to_client r \<and> m_role m = User
    \<and> m_content m = answers (e_text env) rrs \<and> rrs \<noteq> [] \<and> set (map fst rrs) \<subseteq> set (turn_pending turn)"
proof -
  let ?pending = "turn_pending turn"
  have pending: "?pending \<noteq> []"
    using assms by (auto simp: tool_operation_run_def io_simps Let_def split: if_splits)
  then obtain available w1 where
    sel: "select_cancelled (is_cancelled env) (available_tools op0 s) w = (Inr available, w1)"
    using assms
    by (auto simp: tool_operation_run_def io_bind_eq_Inr Let_def split: option.splits)
  show ?thesis
  proof (cases available)
    case None
    with assms pending sel show ?thesis
      by (auto simp: tool_operation_run_def Let_def io_simps interrupt_all_eq message_user_def
          message_new_def intro!: exI [of _ "map (\<lambda>r. (r, interrupted_result)) ?pending"])
  next
    case (Some a)
    let ?owned = "pending_requests ?pending (set (available_names a))"
    from assms pending sel Some obtain t w2 m w3 where
      owned: "?owned \<noteq> []"
      and ans: "answer_requests env s a (registered_provider (to_registered op0)) False ?owned
        (message_user t) w2 = (Inr m, w3)"
      and eff: "r = \<lparr>sr_effects = [from_message (with_generated_id_if_missing (e_uuid env (w_tick w3)) m)],
          sr_applied_step = None, sr_yield_to_client = False\<rparr>"
      by (auto simp: tool_operation_run_def Let_def io_simps split: if_splits prod.splits sum.splits)
    from answer_requests_eq [OF ans] obtain rrs where
      "map fst rrs = ?owned" "m = (message_user t)\<lparr>m_content := answers (e_text env) rrs\<rparr>"
      by (auto simp: message_user_def message_new_def)
    moreover have "set ?owned \<subseteq> set ?pending" by (auto simp: pending_requests_def)
    ultimately show ?thesis
      using owned unfolding eff
      by (intro exI [of _ "with_generated_id_if_missing (e_uuid env (w_tick w3)) m"] exI [of _ rrs])
        (auto simp: message_user_def message_new_def)
  qed
qed

lemma tool_operation_run_total:
  assumes kick: "messages_since_kickoff c = Inr turn"
    and tools: "\<And>w. \<exists>available w'. available_tools op0 s w = (Inr available, w')"
  shows "\<exists>r w'. tool_operation_run env from_message op0 s c w = (Inr r, w')"
proof (cases "turn_pending turn = [] \<or> e_cancelled env (w_tick w)")
  case True
  then show ?thesis
    by (auto simp: tool_operation_run_def kick io_simps Let_def select_cancelled_def)
next
  case False
  obtain a w1 where a: "available_tools op0 s (w\<lparr>w_tick := Suc (w_tick w)\<rparr>) = (Inr a, w1)"
    using tools by blast
  let ?owned = "pending_requests (turn_pending turn) (set (available_names a))"
  have "\<exists>m w'. answer_requests env s a (registered_provider (to_registered op0)) False ?owned m0 w0
      = (Inr m, w')" for m0 w0
    by (rule answer_requests_total) (rule provider_for_found)
  then obtain m w2 where "answer_requests env s a (registered_provider (to_registered op0)) False ?owned
      (message_user (e_now env (w_tick w1))) (w1\<lparr>w_tick := Suc (w_tick w1)\<rparr>) = (Inr m, w2)"
    by blast
  with False a show ?thesis
    by (simp add: tool_operation_run_def kick io_simps Let_def select_cancelled_def)
qed

text \<open>When the tool operation applies, its one effect is a user
  message that answers at least one of the turn's pending requests, answers only pending
  requests, and belongs to the same turn; afterwards exactly the answered requests are no
  longer pending, so there are fewer of them than before.\<close>

lemma tool_operation_answers:
  assumes "tool_operation_run env AppendMessage op0 s c w = (Inr (Applied r), w')"
    and "messages_since_kickoff c = Inr turn"
  shows "\<exists>m answered. sr_effects r = [AppendMessage m] \<and> answered \<noteq> []
    \<and> filter_map response_id (m_content m) = map tr_id answered
    \<and> set answered \<subseteq> set (turn_pending turn)
    \<and> messages_since_kickoff (c @ [m]) = Inr (turn @ [m])
    \<and> turn_pending (turn @ [m]) = filter (\<lambda>q. tr_id q \<notin> tr_id ` set answered) (turn_pending turn)
    \<and> length (turn_pending (turn @ [m])) < length (turn_pending turn)"
proof -
  from tool_operation_run_applied [OF assms] obtain m rrs where
    m: "sr_effects r = [AppendMessage m]" "m_content m = answers (e_text env) rrs" "rrs \<noteq> []"
      "set (map fst rrs) \<subseteq> set (turn_pending turn)"
    by blast
  have pend: "turn_pending (turn @ [m])
      = filter (\<lambda>q. tr_id q \<notin> tr_id ` set (map fst rrs)) (turn_pending turn)"
    using turn_pending_snoc_answers [OF m(2)] by (simp add: image_image comp_def)
  obtain q where "q \<in> set (map fst rrs)" using m(3) by (cases rrs) auto
  then have "length (turn_pending (turn @ [m])) < length (turn_pending turn)"
    unfolding pend using m(4) by (intro length_filter_less [of q]) auto
  moreover have "messages_since_kickoff (c @ [m]) = Inr (turn @ [m])"
    using assms(2) answers_not_kickoff [OF m(2,3)]
    by (intro messages_since_kickoff_append) auto
  moreover have "filter_map response_id (m_content m) = map tr_id (map fst rrs)"
    by (simp add: m(2))
  ultimately show ?thesis
    using m pend by (intro exI [of _ m] exI [of _ "map fst rrs"]) auto
qed

text \<open>Over a conversation with a kickoff message, and with
  providers that can list their tools, the tool operation always returns: no lookup of a
  provider fails, however the turn is cancelled and whatever the tools answer.\<close>

lemma tool_operation_never_panics:
  assumes "messages_since_kickoff c = Inr turn"
    and "\<And>w. \<exists>available w'. available_tools op0 s w = (Inr available, w')"
  shows "\<exists>r w'. tool_operation_run env AppendMessage op0 s c w = (Inr r, w')"
  using assms by (rule tool_operation_run_total)

text \<open>The tools an operation advertises have different names,
  however its tools were registered: registering a name again replaces the tool, and a
  provider that offers a name already taken is an error.\<close>

lemma available_tools_unique:
  assumes "available_tools (fold with_provider ps (foldr register ts tool_operation_new)) s w
    = (Inr available, w')"
  shows "distinct (available_names available)"
proof -
  let ?op = "foldr register ts tool_operation_new"
  have "distinct (registered_names ?op)"
    by (induction ts) (simp_all add: register_distinct, simp add: registered_names_def tool_operation_new_def)
  moreover have "registered_names (fold with_provider ps op0) = registered_names op0"
    for op0 :: "('a, 'b) tool_operation"
    by (induction ps arbitrary: op0) (simp_all add: with_provider_def registered_names_def)
  ultimately have "distinct (registered_names (fold with_provider ps ?op))" by simp
  with assms show ?thesis by (rule available_tools_distinct)
qed

definition sample_handler_tool :: "string \<Rightarrow> (unit, world) registered_tool" where
  "sample_handler_tool n =
     \<lparr>rt_definition = tool_named n, rt_handler = (\<lambda>_ _ w. (Inr (call_tool_success []), w))\<rparr>"

definition sample_tools :: "(unit, world) tool_operation" where
  "sample_tools = register (sample_handler_tool ''shell'') tool_operation_new"

definition sample_pending_turn :: conversation where
  "sample_pending_turn =
     [message_new User 0 [sample_text ''go''],
      message_new Assistant 1 [sample_call ''1'']]"

lemma available_sample_tools:
  "available_tools sample_tools () w
     = (Inr [(tool_named ''shell'', registered_provider [sample_handler_tool ''shell''])], w)"
  by (simp add: available_tools_def sample_tools_def register_def tool_operation_new_def Let_def
      registered_provider_def io_simps sample_handler_tool_def)

lemma sample_pending:
  "messages_since_kickoff sample_pending_turn = Inr sample_pending_turn"
  "map tr_id (turn_pending sample_pending_turn) = [''1'']"
  "length (turn_pending sample_pending_turn) = 1"
  by (simp_all add: sample_pending_turn_def sample_defs messages_since_kickoff_def is_kickoff_def
      is_user_visible_def is_tool_response_def turn_pending_def Let_def get_tool_response_ids_def
      response_id_def as_tool_request_def was_executed_externally_def tool_meta_get_def)

lemma available_tools_unique_example:
  "distinct (available_names
     [(tool_named ''shell'', registered_provider [sample_handler_tool ''shell''])])"
  by (rule available_tools_unique [where ps = "[]" and ts = "[sample_handler_tool ''shell'']"
        and s = "()" and w = plain_world and w' = plain_world])
    (use available_sample_tools [of plain_world] in \<open>simp add: sample_tools_def\<close>)

lemma tool_operation_never_panics_example:
  "\<exists>r w'. tool_operation_run (plain_env (\<lambda>_. False)) AppendMessage sample_tools () sample_pending_turn
     plain_world = (Inr r, w')"
  using sample_pending(1)
  by (rule tool_operation_never_panics) (simp add: available_sample_tools)

lemma sample_run_applies:
  "\<exists>r w'. tool_operation_run (plain_env (\<lambda>_. True)) AppendMessage sample_tools () sample_pending_turn
     plain_world = (Inr (Applied r), w')"
proof -
  have "turn_pending sample_pending_turn \<noteq> []" using sample_pending(3) by force
  then show ?thesis
    by (simp add: tool_operation_run_def sample_pending(1) io_simps Let_def select_cancelled_def
        plain_env_def)
qed

lemma tool_operation_answers_example:
  "\<exists>m. turn_pending (sample_pending_turn @ [m]) = []
     \<and> filter_map response_id (m_content m) \<noteq> []"
proof -
  obtain r w' where "tool_operation_run (plain_env (\<lambda>_. True)) AppendMessage sample_tools ()
      sample_pending_turn plain_world = (Inr (Applied r), w')"
    using sample_run_applies by blast
  from tool_operation_answers [OF this sample_pending(1)] show ?thesis
    using sample_pending(3) by auto
qed

end
