(* ===== verification/Agent_Inference.thy ===== *)
theory Agent_Inference
  imports Agent_Tool
begin

section \<open>The inference operation\<close>

text \<open>
  \<open>crates/goose-agent/src/inference.rs\<close>: what is sent to the model, how its stream of chunks is
  collected, and what a cancellation leaves behind. The provider and the preparation of the
  request are traits of the embedding program, records of their methods here. A stream is the
  list of the items it delivers before it ends; before each item the turn may be cancelled.
  The error type of a provider is \<open>goose-provider-types/src/errors.rs\<close>.
\<close>

datatype provider_error =
    NotConfigured
  | AuthenticationError string
  | ContextLengthError string
  | RateLimitExceeded string "nat option"
  | ServerError string
  | NetworkError string
  | RequestFailed string
  | InvalidValue string
  | ExecutionError string
  | UsageError string
  | NotImplemented string
  | EndpointNotFound string
  | CreditsExhaustedError string "string option"
  | Refusal string "string option"

fun show_provider_error :: "provider_error \<Rightarrow> string" where
  "show_provider_error NotConfigured = ''Provider is not configured''"
| "show_provider_error (AuthenticationError s) = ''Authentication error: '' @ s"
| "show_provider_error (ContextLengthError s) = ''Context length exceeded: '' @ s"
| "show_provider_error (RateLimitExceeded s _) = ''Rate limit exceeded: '' @ s"
| "show_provider_error (ServerError s) = ''Server error: '' @ s"
| "show_provider_error (NetworkError s) = ''Network error: '' @ s"
| "show_provider_error (RequestFailed s) = ''Request failed: '' @ s"
| "show_provider_error (InvalidValue s) = ''Invalid value: '' @ s"
| "show_provider_error (ExecutionError s) = ''Execution error: '' @ s"
| "show_provider_error (UsageError s) = ''Usage data error: '' @ s"
| "show_provider_error (NotImplemented s) = ''Unsupported operation: '' @ s"
| "show_provider_error (EndpointNotFound s) = ''Endpoint not found (404): '' @ s"
| "show_provider_error (CreditsExhaustedError s _) = ''Credits exhausted: '' @ s"
| "show_provider_error (Refusal s _) = ''Provider refused request: '' @ s"

definition error_kind_from :: "provider_error \<Rightarrow> message_error_kind" where
  "error_kind_from e =
     (case e of
        AuthenticationError _ \<Rightarrow> Authentication
      | ContextLengthError _ \<Rightarrow> ContextLengthExceeded
      | CreditsExhaustedError _ _ \<Rightarrow> CreditsExhausted
      | _ \<Rightarrow> Other)"

definition from_provider_error :: "int \<Rightarrow> provider_error \<Rightarrow> message" where
  "from_provider_error t err =
     (let text = (case err of
          NetworkError _ \<Rightarrow>
            show_provider_error err @ [NL, NL] @ ''Please resend your message to try again.''
        | ContextLengthError _ \<Rightarrow>
            show_provider_error err @ [NL, NL]
              @ ''The conversation is too long for the model'' @ [CHR 0x27] @ ''s context window.''
        | _ \<Rightarrow> ''Ran into this error: '' @ show_provider_error err @ ''.'' @ [NL, NL]
              @ ''Please retry if you think this is a transient or recoverable error.'')
      in with_error (error_kind_from err) text (message_assistant t))"

record prepared_inference_request =
  pr_system_prompt :: string
  pr_tools :: "tool list"
  pr_additional_messages :: "message list"

definition identity_prepare ::
    "'s \<Rightarrow> conversation \<Rightarrow> inference_input \<Rightarrow> ('w, prepared_inference_request) io" where
  "identity_prepare s c input =
     io_ok \<lparr>pr_system_prompt = join [NL, NL] (map snd (ii_prompt_parts input)),
       pr_tools = ii_tools input, pr_additional_messages = []\<rparr>"

definition EMPTY_RESPONSE_MESSAGE :: string where
  "EMPTY_RESPONSE_MESSAGE =
     ''The model returned an empty response. Please resend your message to continue.''"

definition CANCELLED_TOOL_RESPONSE :: string where
  "CANCELLED_TOOL_RESPONSE = ''Tool call was cancelled before execution''"

definition is_thinking :: "message_content_block \<Rightarrow> bool" where
  "is_thinking b = (case b of Thinking _ \<Rightarrow> True | RedactedThinking _ \<Rightarrow> True | _ \<Rightarrow> False)"

definition drop_repeated_tool_call_thinking :: "conversation \<Rightarrow> message \<Rightarrow> message" where
  "drop_repeated_tool_call_thinking acc chunk =
     (if \<not> list_ex (\<lambda>b. as_tool_request b \<noteq> None) (m_content chunk) then chunk
      else
        (let prior = filter is_thinking
               (concat (map m_content (filter (\<lambda>m. m_role m = m_role chunk) acc)))
         in chunk\<lparr>m_content := filter (\<lambda>b. \<not> (is_thinking b \<and> b \<in> set prior)) (m_content chunk)\<rparr>))"

definition is_empty_response :: "message \<Rightarrow> bool" where
  "is_empty_response m =
     list_all (\<lambda>b. case b of
         Text t \<Rightarrow> trim (tc_text t) = []
       | Thinking th \<Rightarrow> trim (th_thinking th) = [] \<and> th_signature th = []
       | _ \<Rightarrow> False) (m_content m)"

definition answered_ids :: "message list \<Rightarrow> string set" where
  "answered_ids ms = \<Union> (set (map get_tool_response_ids ms))"

definition retain_answered :: "string set \<Rightarrow> message \<Rightarrow> message" where
  "retain_answered answered m =
     m\<lparr>m_content := filter (\<lambda>b. case b of ToolRequest r \<Rightarrow> tr_id r \<in> answered | _ \<Rightarrow> True)
         (m_content m)\<rparr>"

definition messages_for_provider :: "conversation \<Rightarrow> message list \<Rightarrow> message list" where
  "messages_for_provider c turn =
     (let answered = answered_ids c; start = length c - length turn in
      filter (\<lambda>m. m_content m \<noteq> [])
        (map (\<lambda>(i, m).
            let m' = agent_visible_content m in
            if i < start then retain_answered answered m' else m')
          (filter (\<lambda>(_, m). is_agent_visible m) (enumerate 0 c))))"

definition latest_provider_session_id :: "conversation \<Rightarrow> string \<Rightarrow> string option" where
  "latest_provider_session_id c provider =
     (case first_opt (filter_map (\<lambda>m. md_inference (m_metadata m)) (rev c)) of
        None \<Rightarrow> None
      | Some i \<Rightarrow> if im_provider i = provider then im_provider_session_id i else None)"

definition ends_with_provider_turn :: "message list \<Rightarrow> bool" where
  "ends_with_provider_turn ms =
     (case last_opt ms of None \<Rightarrow> False | Some m \<Rightarrow> effective_role_of m \<in> {RUser, RTool})"

definition cancelled_result :: "call_tool_result tool_result" where
  "cancelled_result = Inr (call_tool_error [content_text CANCELLED_TOOL_RESPONSE])"

fun cancel_requests ::
    "text_env \<Rightarrow> tool_request list \<Rightarrow> string set \<Rightarrow> string set \<Rightarrow> message \<Rightarrow> message" where
  "cancel_requests te [] answered seen m = m"
| "cancel_requests te (r # rs) answered seen m =
     (if tr_id r \<notin> seen
      then (if tr_id r \<notin> answered
            then cancel_requests te rs answered (insert (tr_id r) seen)
                   (add_tool_response_with_metadata te (tr_id r) cancelled_result (tr_metadata r) m)
            else cancel_requests te rs (answered - {tr_id r}) (insert (tr_id r) seen) m)
      else cancel_requests te rs answered seen m)"

definition requests_in :: "message list \<Rightarrow> tool_request list" where
  "requests_in ms = filter_map as_tool_request (concat (map m_content ms))"

definition cancellation_response ::
    "text_env \<Rightarrow> int \<Rightarrow> message list \<Rightarrow> message list \<Rightarrow> message option" where
  "cancellation_response te t persisted pending =
     (let response = cancel_requests te (requests_in (persisted @ pending))
            (answered_ids (persisted @ pending)) {} (message_user t)
      in if get_tool_response_ids response \<noteq> {} then Some response else None)"

type_synonym stream_item = "provider_error + message option \<times> provider_usage option"

record 'w provider =
  pv_name :: string
  pv_resume :: "string \<Rightarrow> ('w, string + unit) act"
  pv_stream :: "string \<Rightarrow> message list \<Rightarrow> tool list \<Rightarrow> ('w, provider_error + stream_item list) act"
  pv_resolved_model :: "string \<Rightarrow> ('w, string option) act"
  pv_session_id :: "('w, string option) act"

record ('s, 'w) inference_runner =
  ir_provider :: "'w provider"
  ir_model_name :: string
  ir_prepare :: "'s \<Rightarrow> conversation \<Rightarrow> inference_input \<Rightarrow> ('w, prepared_inference_request) io"

definition inference_applies :: "conversation \<Rightarrow> bool" where
  "inference_applies c =
     (case messages_since_kickoff c of
        Inl _ \<Rightarrow> False
      | Inr turn \<Rightarrow> trailing_error c = None \<and> ends_with_provider_turn (messages_for_provider c turn))"

definition error_outcome ::
    "'y env_scheme \<Rightarrow> (message \<Rightarrow> 'e) \<Rightarrow> provider_error \<Rightarrow> ('x world_scheme, 'e list) io" where
  "error_outcome env from_message err =
     io_bind (now env) (\<lambda>t.
     io_bind (emit_message env (from_provider_error t err)) (\<lambda>m. io_ok [from_message m]))"

fun retain_new_requests ::
    "message_content_block list \<Rightarrow> string set \<Rightarrow> message_content_block list \<times> string set" where
  "retain_new_requests [] ids = ([], ids)"
| "retain_new_requests (b # bs) ids =
     (case as_tool_request b of
        Some r \<Rightarrow>
          (case retain_new_requests bs (insert (tr_id r) ids) of
             (kept, ids') \<Rightarrow> (if tr_id r \<in> ids then kept else b # kept, ids'))
      | None \<Rightarrow> (case retain_new_requests bs ids of (kept, ids') \<Rightarrow> (b # kept, ids')))"

record stream_state =
  ss_accumulator :: conversation
  ss_request_ids :: "string set"
  ss_usage :: "provider_usage option"

datatype stream_end = StreamFailed provider_error stream_state | StreamEnded bool stream_state

definition take_chunk ::
    "'y env_scheme \<Rightarrow> inference_metadata \<Rightarrow> message \<Rightarrow> stream_state \<Rightarrow> ('x world_scheme, stream_state) io" where
  "take_chunk env i chunk0 st =
     (let chunk1 = with_inference_if_assistant i chunk0;
          (kept, ids) = retain_new_requests (m_content chunk1) (ss_request_ids st);
          chunk = drop_repeated_tool_call_thinking (ss_accumulator st) (chunk1\<lparr>m_content := kept\<rparr>)
      in io_bind
           (if m_content chunk = [] \<and> \<not> md_output_token_limit_reached (m_metadata chunk)
            then io_ok chunk else emit_message env chunk)
           (\<lambda>chunk. io_ok (st\<lparr>ss_request_ids := ids, ss_accumulator := push (ss_accumulator st) chunk\<rparr>)))"

fun consume_stream ::
    "'y env_scheme \<Rightarrow> inference_metadata \<Rightarrow> stream_item list \<Rightarrow> stream_state
       \<Rightarrow> ('x world_scheme, stream_end) io" where
  "consume_stream env i items st =
     io_bind (is_cancelled env) (\<lambda>c.
       if c then io_ok (StreamEnded True st)
       else
         case items of
           [] \<Rightarrow> io_ok (StreamEnded False st)
         | Inl err # _ \<Rightarrow> io_ok (StreamFailed err st)
         | Inr (msg, usage) # rest \<Rightarrow>
             let st1 = (case usage of Some u \<Rightarrow> st\<lparr>ss_usage := Some u\<rparr> | None \<Rightarrow> st) in
             (case msg of
                None \<Rightarrow> consume_stream env i rest st1
              | Some chunk \<Rightarrow>
                  io_bind (take_chunk env i chunk st1) (\<lambda>st2. consume_stream env i rest st2)))"

declare consume_stream.simps [simp del]

definition usage_effects :: "(provider_usage \<Rightarrow> 'e) \<Rightarrow> stream_state \<Rightarrow> 'e list" where
  "usage_effects record_usage st =
     (case ss_usage st of Some u \<Rightarrow> [record_usage u] | None \<Rightarrow> [])"

definition finish_stream ::
    "'y env_scheme \<Rightarrow> (message \<Rightarrow> 'e) \<Rightarrow> (provider_usage \<Rightarrow> 'e) \<Rightarrow> message list \<Rightarrow> 'e list \<Rightarrow> bool
       \<Rightarrow> stream_state \<Rightarrow> ('x world_scheme, 'e operation_result) io" where
  "finish_stream env from_message record_usage turn effects cancelled st =
     (let effects = effects @ usage_effects record_usage st in
      io_bind (if cancelled then io_ok True else is_cancelled env) (\<lambda>c.
      io_bind
        (if c
         then io_bind (now env) (\<lambda>t.
                case cancellation_response (e_text env) t turn (ss_accumulator st) of
                  None \<Rightarrow> io_ok (ss_accumulator st)
                | Some response \<Rightarrow>
                    io_bind (emit_message env response) (\<lambda>m. io_ok (push (ss_accumulator st) m)))
         else io_ok (ss_accumulator st))
        (\<lambda>acc.
          if \<not> cancelled
             \<and> \<not> list_ex (\<lambda>m. md_output_token_limit_reached (m_metadata m)) acc
             \<and> list_all is_empty_response acc
          then io_bind (now env) (\<lambda>t.
               io_bind (emit_message env
                   (with_text (e_text env) EMPTY_RESPONSE_MESSAGE (message_assistant t))) (\<lambda>m.
                 yielded_with (effects @ [from_message m])))
          else applied (effects @ map from_message acc))))"

definition resume_provider :: "'w provider \<Rightarrow> conversation \<Rightarrow> ('w, unit) io" where
  "resume_provider pv c =
     (case latest_provider_session_id c (pv_name pv) of
        None \<Rightarrow> io_ok ()
      | Some sid \<Rightarrow> io_bind (io_act (pv_resume pv sid)) (\<lambda>_. io_ok ()))"

definition conversation_for_provider ::
    "text_env \<Rightarrow> int \<Rightarrow> message list \<Rightarrow> message list" where
  "conversation_for_provider te t ms =
     merge_consecutive_messages_for_request (fst (fix_conversation te t (agent_visible_messages ms)))"

definition inference_infer ::
    "'y env_scheme \<Rightarrow> (message \<Rightarrow> 'e) \<Rightarrow> (provider_usage \<Rightarrow> 'e) \<Rightarrow> ('s, 'x world_scheme) inference_runner
       \<Rightarrow> 's \<Rightarrow> conversation \<Rightarrow> inference_input \<Rightarrow> ('x world_scheme, 'e operation_result) io" where
  "inference_infer env from_message record_usage ir s c input =
     io_bind (io_of (messages_since_kickoff c)) (\<lambda>turn.
       if trailing_error c \<noteq> None then not_applicable
       else
         let for_provider = messages_for_provider c turn in
         if \<not> ends_with_provider_turn for_provider then not_applicable
         else
           io_bind (ir_prepare ir s c input) (\<lambda>prepared.
           let additional = pr_additional_messages prepared;
               effects = map from_message additional;
               pv = ir_provider ir in
           io_bind (resume_provider pv c) (\<lambda>_.
           io_bind (now env) (\<lambda>t.
           io_bind (io_act (pv_stream pv (pr_system_prompt prepared)
               (conversation_for_provider (e_text env) t (for_provider @ additional))
               (pr_tools prepared))) (\<lambda>stream.
             case stream of
               Inl err \<Rightarrow>
                 io_bind (error_outcome env from_message err) (\<lambda>es. applied (effects @ es))
             | Inr items \<Rightarrow>
                 io_bind (io_act (pv_resolved_model pv (ir_model_name ir))) (\<lambda>resolved.
                 io_bind (io_act (pv_session_id pv)) (\<lambda>sid.
                 io_bind (consume_stream env
                     \<lparr>im_provider = pv_name pv, im_requested_model = ir_model_name ir,
                      im_resolved_model = resolved, im_provider_session_id = sid\<rparr>
                     items \<lparr>ss_accumulator = [], ss_request_ids = {}, ss_usage = None\<rparr>) (\<lambda>stop.
                   case stop of
                     StreamFailed err st \<Rightarrow>
                       io_bind (error_outcome env from_message err) (\<lambda>es.
                         applied (effects @ usage_effects record_usage st
                           @ map from_message (ss_accumulator st) @ es))
                   | StreamEnded cancelled st \<Rightarrow>
                       finish_stream env from_message record_usage turn effects cancelled st))))))))"

definition inference_cancel ::
    "'y env_scheme \<Rightarrow> (message \<Rightarrow> 'e) \<Rightarrow> 's \<Rightarrow> conversation \<Rightarrow> 'e operation_result
       \<Rightarrow> ('x world_scheme, 'e operation_result) io" where
  "inference_cancel env from_message s c result =
     (case result of
        Applied r \<Rightarrow> io_ok (Applied r)
      | NotApplicable \<Rightarrow>
          io_bind (io_of (messages_since_kickoff c)) (\<lambda>turn.
          io_bind (now env) (\<lambda>t.
            case cancellation_response (e_text env) t turn [] of
              None \<Rightarrow> io_ok NotApplicable
            | Some response \<Rightarrow>
                io_bind (emit_message env response) (\<lambda>m. applied [from_message m]))))"

definition inference_as ::
    "'y env_scheme \<Rightarrow> (message \<Rightarrow> 'e) \<Rightarrow> (provider_usage \<Rightarrow> 'e) \<Rightarrow> ('s, 'x world_scheme) inference_runner
       \<Rightarrow> ('s, 'x world_scheme, 'e) inference_operation" where
  "inference_as env from_message record_usage ir =
     operation.extend
       ((default_operation ''llm'')\<lparr>op_cancel := inference_cancel env from_message\<rparr>)
       (inference_operation.fields inference_applies
          (inference_infer env from_message record_usage ir))"

subsection \<open>What the model is sent\<close>

lemma as_tool_request_eq_Some: "as_tool_request b = Some r \<longleftrightarrow> b = ToolRequest r"
  by (cases b) (auto simp: as_tool_request_def)

lemma requests_in_append [simp]: "requests_in (xs @ ys) = requests_in xs @ requests_in ys"
  by (simp add: requests_in_def)

lemma answered_ids_append [simp]: "answered_ids (xs @ ys) = answered_ids xs \<union> answered_ids ys"
  by (simp add: answered_ids_def)

lemma set_requests_in: "set (requests_in ms) = {r. \<exists>m \<in> set ms. ToolRequest r \<in> set (m_content m)}"
  by (auto simp: requests_in_def set_filter_map as_tool_request_eq_Some)

lemma messages_for_provider_enumerate:
  "(\<And>i. i < length xs \<Longrightarrow> g (n + i) = f) \<Longrightarrow>
     map (\<lambda>(i, m). g i m) (filter (\<lambda>(_, m). P m) (enumerate n xs)) = map f (filter P xs)"
proof (induction xs arbitrary: n)
  case (Cons x xs)
  have "g n = f" using Cons.prems [of 0] by simp
  moreover have "map (\<lambda>(i, m). g i m) (filter (\<lambda>(_, m). P m) (enumerate (Suc n) xs)) = map f (filter P xs)"
    using Cons.prems [of "Suc _"] by (intro Cons.IH) simp
  ultimately show ?case by simp
qed simp

lemma messages_for_provider_split:
  "messages_for_provider (pre @ turn) turn =
     filter (\<lambda>m. m_content m \<noteq> [])
       (map (retain_answered (answered_ids (pre @ turn)) \<circ> agent_visible_content)
         (filter is_agent_visible pre))
     @ agent_visible_messages turn"
proof -
  define A where "A = answered_ids (pre @ turn)"
  let ?g = "\<lambda>i m. if i < length pre then retain_answered A (agent_visible_content m)
    else agent_visible_content m"
  have "map (\<lambda>(i, m). ?g i m) (filter (\<lambda>(_, m). is_agent_visible m) (enumerate 0 pre))
      = map (retain_answered A \<circ> agent_visible_content) (filter is_agent_visible pre)"
    by (rule messages_for_provider_enumerate) (simp add: fun_eq_iff)
  moreover have "map (\<lambda>(i, m). ?g i m) (filter (\<lambda>(_, m). is_agent_visible m) (enumerate (length pre) turn))
      = map agent_visible_content (filter is_agent_visible turn)"
    by (rule messages_for_provider_enumerate) (simp add: fun_eq_iff)
  ultimately show ?thesis
    by (simp add: messages_for_provider_def agent_visible_messages_def enumerate_append_eq Let_def
        flip: A_def del: answered_ids_append)
qed

lemma retain_answered_requests:
  "ToolRequest r \<in> set (m_content (retain_answered A m)) \<longleftrightarrow>
     ToolRequest r \<in> set (m_content m) \<and> tr_id r \<in> A"
  by (auto simp: retain_answered_def)

lemma filter_for_audience_request:
  "filter_for_audience b a = Some (ToolRequest r) \<longleftrightarrow> b = ToolRequest r"
  by (cases b) (auto simp: filter_for_audience_def split: if_splits sum.splits)

lemma agent_visible_content_requests:
  "ToolRequest r \<in> set (m_content (agent_visible_content m)) \<longleftrightarrow> ToolRequest r \<in> set (m_content m)"
  by (auto simp: agent_visible_content_def set_filter_map filter_for_audience_request)

subsection \<open>Blocks under streaming\<close>

lemma merge_delta_blocks:
  assumes "\<And>t. f (Text t) = None" and "\<And>t. f (Thinking t) = None"
  shows "filter_map f (merge_delta old new) = filter_map f old @ filter_map f new"
proof (cases old rule: rev_cases)
  case Nil
  then show ?thesis by (simp add: merge_delta_def)
next
  case (snoc xs x)
  show ?thesis
  proof (cases new rule: rev_cases)
    case Nil
    with snoc show ?thesis by (simp add: merge_delta_def split: message_content_block.split)
  next
    case (snoc ys y)
    with \<open>old = xs @ [x]\<close> show ?thesis
      by (cases x; cases y) (simp_all add: merge_delta_def assms split: option.split)
  qed
qed

lemma push_blocks:
  assumes "\<And>t. f (Text t) = None" and "\<And>t. f (Thinking t) = None"
  shows "filter_map f (concat (map m_content (push conv m)))
    = filter_map f (concat (map m_content conv)) @ filter_map f (m_content m)"
proof (cases "m_content m = [] \<and> (md_inference (m_metadata m) \<noteq> None
      \<or> md_output_token_limit_reached (m_metadata m))")
  case True
  then show ?thesis
    by (simp add: push_def Let_def content_list_update with_visibility_def split: option.split)
next
  case False
  then show ?thesis
    by (cases conv rule: rev_cases) (auto simp: push_def Let_def merge_delta_blocks [OF assms])
qed

lemma requests_in_push: "requests_in (push conv m) = requests_in conv @ requests_in [m]"
  unfolding requests_in_def by (subst push_blocks) (simp_all add: as_tool_request_def)

lemma answered_ids_eq: "answered_ids ms = set (filter_map response_id (concat (map m_content ms)))"
  by (induction ms) (simp_all add: answered_ids_def get_tool_response_ids_def)

lemma answered_ids_push: "answered_ids (push conv m) = answered_ids conv \<union> get_tool_response_ids m"
  unfolding answered_ids_eq by (subst push_blocks) (simp_all add: response_id_def get_tool_response_ids_def)

subsection \<open>Cancellation\<close>

fun first_requests :: "string set \<Rightarrow> tool_request list \<Rightarrow> tool_request list" where
  "first_requests seen [] = []"
| "first_requests seen (r # rs) =
     (if tr_id r \<in> seen then first_requests seen rs
      else r # first_requests (insert (tr_id r) seen) rs)"

lemma first_requests_ids:
  "set (map tr_id (first_requests seen rs)) = set (map tr_id rs) - seen"
  "distinct (map tr_id (first_requests seen rs))"
proof (induction rs arbitrary: seen)
  case (Cons r rs)
  case 1
  show ?case using Cons(1) [of seen] Cons(1) [of "insert (tr_id r) seen"] by (auto; blast)
  case 2
  show ?case using Cons [of "insert (tr_id r) seen"] Cons(2) [of seen] by auto
qed simp_all

lemma cancel_requests_eq:
  "A \<inter> - seen = B \<inter> - seen \<Longrightarrow>
     cancel_requests te rs A seen m =
       m\<lparr>m_content := m_content m @ answers te (map (\<lambda>r. (r, cancelled_result))
          (filter (\<lambda>r. tr_id r \<notin> B) (first_requests seen rs)))\<rparr>"
proof (induction rs arbitrary: A seen m)
  case Nil
  then show ?case by (simp add: answers_def)
next
  case (Cons r rs)
  show ?case
  proof (cases "tr_id r \<in> seen")
    case True
    then show ?thesis using Cons by simp
  next
    case False
    then have "tr_id r \<in> A \<longleftrightarrow> tr_id r \<in> B" using Cons.prems by blast
    moreover have "A \<inter> - insert (tr_id r) seen = B \<inter> - insert (tr_id r) seen"
      "(A - {tr_id r}) \<inter> - insert (tr_id r) seen = B \<inter> - insert (tr_id r) seen"
      using Cons.prems by blast+
    ultimately show ?thesis
      using False by (simp add: Cons.IH answers_def add_tool_response_with_metadata_def)
  qed
qed

definition unanswered :: "message list \<Rightarrow> tool_request list" where
  "unanswered ms = filter (\<lambda>r. tr_id r \<notin> answered_ids ms) (first_requests {} (requests_in ms))"

lemma unanswered_Nil_iff:
  "unanswered ms = [] \<longleftrightarrow> (\<forall>r \<in> set (requests_in ms). tr_id r \<in> answered_ids ms)"
proof -
  have "unanswered ms = [] \<longleftrightarrow> (\<forall>i \<in> set (map tr_id (first_requests {} (requests_in ms))). i \<in> answered_ids ms)"
    by (simp add: unanswered_def filter_empty_conv)
  then show ?thesis by (simp only: first_requests_ids) simp
qed

lemma cancellation_response_eq:
  "cancellation_response te t persisted pending =
     (let rs = unanswered (persisted @ pending) in
      if rs = [] then None
      else Some ((message_user t)\<lparr>m_content := answers te (map (\<lambda>r. (r, cancelled_result)) rs)\<rparr>))"
proof -
  let ?all = "persisted @ pending"
  have "cancel_requests te (requests_in ?all) (answered_ids ?all) {} (message_user t)
      = (message_user t)\<lparr>m_content := answers te (map (\<lambda>r. (r, cancelled_result)) (unanswered ?all))\<rparr>"
    by (subst cancel_requests_eq [where B = "answered_ids ?all"])
      (simp_all add: unanswered_def message_user_def message_new_def del: requests_in_append answered_ids_append)
  moreover have "get_tool_response_ids ((message_user t)\<lparr>m_content :=
      answers te (map (\<lambda>r. (r, cancelled_result)) (unanswered ?all))\<rparr>) = {} \<longleftrightarrow> unanswered ?all = []"
    by (simp add: get_tool_response_ids_def)
  ultimately show ?thesis
    by (simp add: cancellation_response_def Let_def del: requests_in_append answered_ids_append)
qed

lemma answers_blocks:
  "m_content m = answers te rrs \<Longrightarrow> requests_in [m] = []"
  "m_content m = answers te rrs \<Longrightarrow> get_tool_response_ids m = set (map (tr_id \<circ> fst) rrs)"
  by (simp_all add: requests_in_def get_tool_response_ids_def)

lemma unanswered_ids:
  "set (map tr_id (unanswered ms)) = set (map tr_id (requests_in ms)) - answered_ids ms"
proof -
  have "set (map tr_id (unanswered ms))
      = set (map tr_id (first_requests {} (requests_in ms))) - answered_ids ms"
    by (auto simp: unanswered_def)
  then show ?thesis by (simp only: first_requests_ids) simp
qed

lemma distinct_unanswered: "distinct (map tr_id (unanswered ms))"
  unfolding unanswered_def by (rule distinct_map_filter) (rule first_requests_ids)

subsection \<open>Collecting the stream\<close>

lemma retain_new_requests_eq:
  "retain_new_requests bs ids = (kept, ids') \<Longrightarrow>
     ids' = ids \<union> set (map tr_id (filter_map as_tool_request bs))
     \<and> filter_map as_tool_request kept = first_requests ids (filter_map as_tool_request bs)"
proof (induction bs arbitrary: ids kept ids')
  case (Cons b bs)
  show ?case
  proof (cases "as_tool_request b")
    case None
    with Cons show ?thesis by (auto split: prod.splits)
  next
    case (Some r)
    obtain k i where rest: "retain_new_requests bs (insert (tr_id r) ids) = (k, i)"
      by (cases "retain_new_requests bs (insert (tr_id r) ids)") auto
    note ih = Cons.IH [OF rest]
    have absorb: "tr_id r \<in> ids \<Longrightarrow> insert (tr_id r) ids = ids" by blast
    from Cons.prems Some rest ih show ?thesis by (auto simp: absorb split: if_splits)
  qed
qed simp

lemma drop_repeated_requests:
  "filter_map as_tool_request (m_content (drop_repeated_tool_call_thinking acc m))
     = filter_map as_tool_request (m_content m)"
  by (auto simp: drop_repeated_tool_call_thinking_def Let_def as_tool_request_def is_thinking_def
      intro!: filter_map_filter split: message_content_block.splits)

definition stream_ok :: "stream_state \<Rightarrow> bool" where
  "stream_ok st \<longleftrightarrow> distinct (map tr_id (requests_in (ss_accumulator st)))
     \<and> set (map tr_id (requests_in (ss_accumulator st))) \<subseteq> ss_request_ids st"

lemma with_inference_content [simp]: "m_content (with_inference_if_assistant i m) = m_content m"
  by (simp add: with_inference_if_assistant_def)

lemma take_chunk_ok:
  assumes "take_chunk env i chunk st w = (Inr st', w')" and "stream_ok st"
  shows "stream_ok st'"
proof -
  obtain kept ids where retain:
    "retain_new_requests (m_content chunk) (ss_request_ids st) = (kept, ids)"
    by (cases "retain_new_requests (m_content chunk) (ss_request_ids st)") auto
  let ?c = "drop_repeated_tool_call_thinking (ss_accumulator st)
    (with_inference_if_assistant i chunk\<lparr>m_content := kept\<rparr>)"
  let ?st = "\<lambda>m. st\<lparr>ss_request_ids := ids, ss_accumulator := push (ss_accumulator st) m\<rparr>"
  have "st' = ?st ?c \<or> (\<exists>u. st' = ?st (with_generated_id_if_missing u ?c))"
    using assms(1) by (auto simp: take_chunk_def Let_def retain io_simps split: if_splits)
  moreover have "filter_map as_tool_request (m_content ?c) = filter_map as_tool_request kept"
    by (simp add: drop_repeated_requests)
  ultimately obtain m where m:
    "filter_map as_tool_request (m_content m) = filter_map as_tool_request kept" "st' = ?st m"
    by (metis with_generated_id_content(1))
  let ?new = "first_requests (ss_request_ids st) (filter_map as_tool_request (m_content chunk))"
  have "requests_in (push (ss_accumulator st) m) = requests_in (ss_accumulator st) @ ?new"
    using retain_new_requests_eq [OF retain] m(1)
    by (simp only: requests_in_push) (simp add: requests_in_def)
  then show ?thesis
    using assms(2) retain_new_requests_eq [OF retain] m(2)
      first_requests_ids [of "ss_request_ids st" "filter_map as_tool_request (m_content chunk)"]
    by (auto simp: stream_ok_def)
qed

lemma consume_stream_cases:
  assumes "consume_stream env i items st w = (Inr stop, w')"
  obtains
    (stop) c where "stop = StreamEnded c st"
  | (fail) e where "stop = StreamFailed e st"
  | (usage) item rest u w1 where "items = item # rest"
      "consume_stream env i rest (st\<lparr>ss_usage := u\<rparr>) w1 = (Inr stop, w')"
  | (chunk) item rest u m st2 w1 w2 where "items = item # rest"
      "take_chunk env i m (st\<lparr>ss_usage := u\<rparr>) w1 = (Inr st2, w2)"
      "consume_stream env i rest st2 w2 = (Inr stop, w')"
proof (cases "e_cancelled env (w_tick w) \<or> items = []")
  case True
  with assms that(1) show thesis
    by (auto simp: consume_stream.simps [of env i items st] io_simps split: if_splits)
next
  case False
  then obtain item rest where items: "items = item # rest" by (cases items) auto
  note body = assms [unfolded consume_stream.simps [of env i items st]]
  show thesis
  proof (cases item)
    case (Inl e)
    with body False items that(2) show thesis
      by (auto simp: io_simps)
  next
    case (Inr mu)
    obtain msg usage where mu: "mu = (msg, usage)" by (cases mu)
    let ?st = "case usage of Some u \<Rightarrow> st\<lparr>ss_usage := Some u\<rparr> | None \<Rightarrow> st"
    obtain u where u: "?st = st\<lparr>ss_usage := u\<rparr>"
      by (cases usage) (auto intro: that [of "ss_usage st"])
    show thesis
    proof (cases msg)
      case None
      with body False items Inr mu u that(3) [OF items] show thesis
        by (auto simp: io_simps)
    next
      case (Some m)
      with body False items Inr mu u obtain st2 w1 w2 where
        "take_chunk env i m (st\<lparr>ss_usage := u\<rparr>) w1 = (Inr st2, w2)"
        "consume_stream env i rest st2 w2 = (Inr stop, w')"
        by (auto simp: io_bind_eq_Inr io_simps
            split: prod.splits sum.splits)
      then show thesis by (rule that(4) [OF items])
    qed
  qed
qed

lemma consume_stream_ok:
  "consume_stream env i items st w = (Inr stop, w') \<Longrightarrow> stream_ok st \<Longrightarrow>
     (case stop of StreamFailed _ st' \<Rightarrow> stream_ok st' | StreamEnded _ st' \<Rightarrow> stream_ok st')"
proof (induction items arbitrary: st w)
  case Nil
  from Nil.prems(1) show ?case
    by (cases rule: consume_stream_cases) (use Nil.prems(2) in auto)
next
  case (Cons item items)
  from Cons.prems(1) show ?case
  proof (cases rule: consume_stream_cases)
    case chunk
    from take_chunk_ok [OF chunk(2)] Cons.prems(2) Cons.IH chunk show ?thesis
      by (simp add: stream_ok_def)
  next
    case usage
    with Cons.prems(2) Cons.IH show ?thesis by (simp add: stream_ok_def)
  qed (use Cons.prems(2) in auto)
qed

text \<open>An action that never ends with \<open>NotApplicable\<close>.\<close>

definition applies_always :: "('w, 'e operation_result) io \<Rightarrow> bool" where
  "applies_always m \<longleftrightarrow> (\<forall>w. fst (m w) \<noteq> Inr NotApplicable)"

lemma applies_alwaysD: "applies_always m \<Longrightarrow> fst (m w) \<noteq> Inr NotApplicable"
  by (simp add: applies_always_def)

lemma applies_always_intros:
  "applies_always (applied es)"
  "applies_always (yielded_with es)"
  "(\<And>x. applies_always (f x)) \<Longrightarrow> applies_always (io_bind m f)"
  "(b \<Longrightarrow> applies_always m1) \<Longrightarrow> (\<not> b \<Longrightarrow> applies_always m2) \<Longrightarrow> applies_always (if b then m1 else m2)"
  by (auto simp: applies_always_def applied_def yielded_with_def io_ok_def io_bind_def
      split: prod.splits sum.splits)

lemma finish_stream_applies:
  "applies_always (finish_stream env from_message record_usage turn es cancelled st)"
  unfolding finish_stream_def Let_def by (intro applies_always_intros)

lemma inference_infer_applies:
  assumes "messages_since_kickoff c = Inr turn" and "inference_applies c"
  shows "applies_always (inference_infer env from_message record_usage ir s c input)"
proof -
  have go: "trailing_error c = None" "ends_with_provider_turn (messages_for_provider c turn)"
    using assms by (auto simp: inference_applies_def)
  have turn: "applies_always (io_bind (io_of (Inr turn)) f)" if "applies_always (f turn)"
    for f :: "message list \<Rightarrow> ('x world_scheme, 'e operation_result) io"
    using that by (auto simp: applies_always_def io_bind_def io_of_def)
  show ?thesis
    unfolding inference_infer_def assms(1)
    by (rule turn) (auto simp: go Let_def intro!: applies_always_intros finish_stream_applies
        split: sum.splits stream_end.splits)
qed

subsection \<open>Properties of the inference operation\<close>

text \<open>The conversation the model is sent is its visible part;
  the current turn is sent as it stands, and of the earlier turns exactly those tool requests
  are kept that have been answered somewhere in the conversation.\<close>

lemma provider_history_answered:
  assumes "messages_since_kickoff c = Inr turn"
  shows "\<exists>pre earlier. c = pre @ turn
    \<and> messages_for_provider c turn = earlier @ agent_visible_messages turn
    \<and> list_all (\<lambda>m. m_content m \<noteq> []) earlier
    \<and> set (requests_in earlier)
        = {r \<in> set (requests_in (filter is_agent_visible pre)). tr_id r \<in> answered_ids c}"
proof -
  from assms obtain pre where c: "c = pre @ turn"
    by (auto simp: messages_since_kickoff_eq_Inr)
  let ?keep = "map (retain_answered (answered_ids c) \<circ> agent_visible_content) (filter is_agent_visible pre)"
  have "set (requests_in (filter (\<lambda>m. m_content m \<noteq> []) ?keep)) = set (requests_in ?keep)"
    by (auto simp: set_requests_in)
  also have "\<dots> = {r \<in> set (requests_in (filter is_agent_visible pre)). tr_id r \<in> answered_ids c}"
    by (auto simp: set_requests_in retain_answered_requests agent_visible_content_requests)
  finally show ?thesis
    using messages_for_provider_split [of pre turn] c
    by (intro exI [of _ pre] exI [of _ "filter (\<lambda>m. m_content m \<noteq> []) ?keep"])
      (simp add: list_all_iff)
qed

text \<open>What a cancelled turn leaves behind: nothing when every
  tool request has been answered, and otherwise one message that answers every unanswered
  request once and no other, so that no request of the turn stays open.\<close>

lemma cancellation_answers_exactly:
  "case cancellation_response te t persisted pending of
     None \<Rightarrow> tr_id ` set (requests_in (persisted @ pending)) \<subseteq> answered_ids (persisted @ pending)
   | Some m \<Rightarrow> m_role m = User
       \<and> distinct (filter_map response_id (m_content m))
       \<and> get_tool_response_ids m = set (map tr_id (requests_in (persisted @ pending)))
           - answered_ids (persisted @ pending)
       \<and> get_tool_response_ids m \<noteq> {}
       \<and> turn_pending (persisted @ pending @ [m]) = []"
proof (cases "unanswered (persisted @ pending)")
  case Nil
  then show ?thesis using unanswered_Nil_iff [of "persisted @ pending"]
    by (simp add: cancellation_response_eq image_subset_iff del: requests_in_append answered_ids_append)
next
  case (Cons r rs)
  define all where "all = persisted @ pending"
  define m where "m = (message_user t)\<lparr>m_content := answers te (map (\<lambda>r. (r, cancelled_result)) (unanswered all))\<rparr>"
  have content: "m_content m = answers te (map (\<lambda>r. (r, cancelled_result)) (unanswered all))"
    by (simp add: m_def)
  have ids: "get_tool_response_ids m = set (map tr_id (unanswered all))"
    using answers_blocks(2) [OF content] by (simp add: comp_def)
  have "tr_id q \<in> set (map tr_id (unanswered all))" if "q \<in> set (turn_pending all)" for q
    using that unfolding unanswered_ids
    by (auto simp: turn_pending_def Let_def requests_in_def answered_ids_def)
  then have "turn_pending (all @ [m]) = []"
    unfolding turn_pending_snoc_answers [OF content] by (simp add: filter_empty_conv comp_def)
  moreover have "cancellation_response te t persisted pending = Some m"
    using Cons by (simp add: cancellation_response_eq Let_def m_def all_def)
  moreover have "distinct (filter_map response_id (m_content m))"
    unfolding content filter_map_answers using distinct_unanswered [of all] by (simp add: comp_def)
  moreover have "m_role m = User" by (simp add: m_def message_user_def message_new_def)
  moreover have "get_tool_response_ids m \<noteq> {}" using Cons by (simp add: ids all_def)
  moreover have "get_tool_response_ids m = set (map tr_id (requests_in all)) - answered_ids all"
    using ids unanswered_ids [of all] by simp
  ultimately show ?thesis unfolding all_def by (simp only: option.case append_assoc) simp
qed

text \<open>Claim C17 (streamed_requests_distinct): however the model's stream is cut into chunks, repeats
  itself, fails or is cancelled, the messages collected from it hold no two tool requests with
  the same identifier, so that no call is executed twice.\<close>

theorem streamed_requests_distinct:
  assumes "consume_stream env i items \<lparr>ss_accumulator = [], ss_request_ids = {}, ss_usage = None\<rparr> w
      = (Inr stop, w')"
  shows "(case stop of
      StreamFailed _ st \<Rightarrow> distinct (map tr_id (requests_in (ss_accumulator st)))
    | StreamEnded _ st \<Rightarrow> distinct (map tr_id (requests_in (ss_accumulator st))))"
  using consume_stream_ok [OF assms]
  by (simp add: stream_ok_def requests_in_def split: stream_end.splits)

text \<open>When the turn is cancelled while the model answers, every
  tool request of the turn, of those stored before and of those just received, has an answer in
  what the operation appends.\<close>

lemma cancelled_inference_closes:
  assumes "finish_stream env from_message record_usage turn effects True st w = (Inr res, w')"
  shows "\<exists>r acc. res = Applied r \<and> sr_effects r = effects @ usage_effects record_usage st @ map from_message acc
    \<and> (\<forall>q \<in> set (requests_in (turn @ acc)). tr_id q \<in> answered_ids (turn @ acc))"
proof (cases "cancellation_response (e_text env) (e_now env (w_tick w)) turn (ss_accumulator st)")
  case None
  then have "\<forall>q \<in> set (requests_in (turn @ ss_accumulator st)). tr_id q \<in> answered_ids (turn @ ss_accumulator st)"
    using unanswered_Nil_iff by (simp add: cancellation_response_eq Let_def split: if_splits)
  with assms None show ?thesis
    by (auto simp: finish_stream_def io_simps Let_def intro!: exI [of _ "ss_accumulator st"])
next
  case (Some m)
  define m' where "m' = with_generated_id_if_missing (e_uuid env (Suc (w_tick w))) m"
  let ?all = "turn @ ss_accumulator st" and ?acc = "push (ss_accumulator st) m'"
  from Some have content: "m_content m' = answers (e_text env)
      (map (\<lambda>r. (r, cancelled_result)) (unanswered ?all))"
    by (auto simp: cancellation_response_eq Let_def m'_def split: if_splits)
  have closed: "tr_id q \<in> answered_ids (turn @ ?acc)" if "q \<in> set (requests_in (turn @ ?acc))" for q
  proof (rule ccontr)
    assume stays: "tr_id q \<notin> answered_ids (turn @ ?acc)"
    from that have "q \<in> set (requests_in ?all)"
      by (simp add: requests_in_push answers_blocks(1) [OF content])
    moreover from stays have "tr_id q \<notin> answered_ids ?all" "tr_id q \<notin> set (map tr_id (unanswered ?all))"
      using answers_blocks(2) [OF content] by (auto simp: answered_ids_push comp_def)
    ultimately show False unfolding unanswered_ids by auto
  qed
  have "res = Applied \<lparr>sr_effects = (effects @ usage_effects record_usage st) @ map from_message ?acc,
      sr_applied_step = None, sr_yield_to_client = False\<rparr>"
    using assms Some by (simp add: finish_stream_def io_simps Let_def m'_def)
  then have "\<exists>r. res = Applied r
      \<and> sr_effects r = effects @ usage_effects record_usage st @ map from_message ?acc"
    by simp
  with closed show ?thesis by blast
qed

text \<open>The test the machine makes before it gathers the tools of an
  inference agrees with the inference: it reaches the model exactly when the test says so, and
  otherwise does nothing, neither to the world nor to the conversation.\<close>

lemma inference_asked_iff_applies:
  assumes "messages_since_kickoff c = Inr turn"
  shows "(inference_applies c
        \<longrightarrow> fst (inference_infer env from_message record_usage ir s c input w) \<noteq> Inr NotApplicable)
    \<and> (\<not> inference_applies c
        \<longrightarrow> inference_infer env from_message record_usage ir s c input w = (Inr NotApplicable, w))"
proof (intro conjI impI)
  assume "inference_applies c"
  then show "fst (inference_infer env from_message record_usage ir s c input w) \<noteq> Inr NotApplicable"
    by (intro applies_alwaysD inference_infer_applies [OF assms])
next
  assume "\<not> inference_applies c"
  with assms show "inference_infer env from_message record_usage ir s c input w = (Inr NotApplicable, w)"
    by (auto simp: inference_applies_def inference_infer_def io_simps)
qed

subsection \<open>Examples\<close>

lemmas inference_samples = sample_pending_turn_def sample_defs messages_since_kickoff_def
  is_kickoff_def is_user_visible_def is_agent_visible_def is_tool_response_def requests_in_def
  as_tool_request_def answered_ids_eq response_id_def get_tool_response_ids_def

definition sample_runner :: "stream_item list \<Rightarrow> (unit, world) inference_runner" where
  "sample_runner items =
     \<lparr>ir_provider = \<lparr>pv_name = ''p'', pv_resume = (\<lambda>_ w. (Inr (), w)),
        pv_stream = (\<lambda>_ _ _ w. (Inr items, w)), pv_resolved_model = (\<lambda>_ w. (None, w)),
        pv_session_id = (\<lambda>w. (None, w))\<rparr>,
      ir_model_name = ''m'', ir_prepare = identity_prepare\<rparr>"

lemma provider_history_answered_example:
  "\<exists>earlier. messages_for_provider (sample_pending_turn @ sample_pending_turn) sample_pending_turn
     = earlier @ agent_visible_messages sample_pending_turn \<and> set (requests_in earlier) = {}"
proof -
  have kick: "messages_since_kickoff (sample_pending_turn @ sample_pending_turn) = Inr sample_pending_turn"
    by (simp add: inference_samples)
  have "answered_ids (sample_pending_turn @ sample_pending_turn) = {}"
    by (simp add: inference_samples)
  with provider_history_answered [OF kick] show ?thesis by auto
qed

theorem streamed_requests_distinct_witness:
  "\<exists>st w'. consume_stream (plain_env (\<lambda>_. False))
      \<lparr>im_provider = ''p'', im_requested_model = ''m'', im_resolved_model = None, im_provider_session_id = None\<rparr>
      [Inr (Some (message_new Assistant 0 [sample_call ''1'', sample_call ''1'']), None)]
      \<lparr>ss_accumulator = [], ss_request_ids = {}, ss_usage = None\<rparr> plain_world
        = (Inr (StreamEnded False st), w')
    \<and> length (requests_in (ss_accumulator st)) = 1
    \<and> distinct (map tr_id (requests_in (ss_accumulator st)))"
proof -
  let ?i = "\<lparr>im_provider = ''p'', im_requested_model = ''m'', im_resolved_model = None,
    im_provider_session_id = None\<rparr>"
  let ?items = "[Inr (Some (message_new Assistant 0 [sample_call ''1'', sample_call ''1'']), None)]"
  have "\<exists>st w'. consume_stream (plain_env (\<lambda>_. False)) ?i ?items
      \<lparr>ss_accumulator = [], ss_request_ids = {}, ss_usage = None\<rparr> plain_world = (Inr (StreamEnded False st), w')
      \<and> length (requests_in (ss_accumulator st)) = 1"
    by (simp add: consume_stream.simps plain_env_def plain_world_def io_simps take_chunk_def Let_def
        sample_defs as_tool_request_def with_inference_if_assistant_def is_thinking_def
        drop_repeated_tool_call_thinking_def push_def with_generated_id_if_missing_def requests_in_def)
  then obtain st w' where run: "consume_stream (plain_env (\<lambda>_. False)) ?i ?items
      \<lparr>ss_accumulator = [], ss_request_ids = {}, ss_usage = None\<rparr> plain_world = (Inr (StreamEnded False st), w')"
    and one: "length (requests_in (ss_accumulator st)) = 1"
    by blast
  from streamed_requests_distinct [OF run] run one show ?thesis by auto
qed

lemma cancelled_inference_closes_example:
  "\<exists>r acc. fst (finish_stream (plain_env (\<lambda>_. True)) AppendMessage (\<lambda>_. SetMessageVisibility [] True True)
       sample_pending_turn [] True \<lparr>ss_accumulator = [], ss_request_ids = {}, ss_usage = None\<rparr> plain_world)
     = Inr (Applied r) \<and> sr_effects r = map AppendMessage acc
     \<and> answered_ids (sample_pending_turn @ acc) = {''1''}"
proof -
  let ?st = "\<lparr>ss_accumulator = [], ss_request_ids = {}, ss_usage = None\<rparr>"
  let ?fin = "finish_stream (plain_env (\<lambda>_. True)) AppendMessage (\<lambda>_. SetMessageVisibility [] True True)
       sample_pending_turn [] True ?st plain_world"
  have u: "unanswered sample_pending_turn = [\<lparr>tr_id = ''1'',
      tr_tool_call = Inr \<lparr>ctp_name = ''shell'', ctp_arguments = None, ctp_rest = JNull\<rparr>,
      tr_metadata = None, tr_tool_meta = None\<rparr>]"
    by (simp add: unanswered_def inference_samples)
  obtain res w' where fin: "?fin = (Inr res, w')"
    by (simp add: finish_stream_def io_simps Let_def plain_env_def cancellation_response_eq u)
  from cancelled_inference_closes [OF fin] obtain r acc where
    res: "res = Applied r" "sr_effects r = map AppendMessage acc"
    and closed: "\<forall>q \<in> set (requests_in (sample_pending_turn @ acc)).
      tr_id q \<in> answered_ids (sample_pending_turn @ acc)"
    by (auto simp: usage_effects_def)
  have "acc = [with_generated_id_if_missing (show_nat 1)
      ((message_user 0)\<lparr>m_content := answers (e_text (plain_env (\<lambda>_. True)))
         (map (\<lambda>r. (r, cancelled_result)) (unanswered sample_pending_turn))\<rparr>)]"
    using fin res
    by (auto simp: finish_stream_def io_simps Let_def plain_env_def plain_world_def
        cancellation_response_eq u usage_effects_def push_def with_generated_id_if_missing_def
        message_user_def message_new_def answers_def)
  then have "answered_ids (sample_pending_turn @ acc) = {''1''}"
    unfolding u by (simp add: answered_ids_eq) (simp add: inference_samples)
  with fin res show ?thesis by auto
qed

lemma inference_asked_iff_applies_example:
  "\<not> inference_applies sample_pending_turn
   \<and> inference_infer (plain_env (\<lambda>_. False)) AppendMessage (\<lambda>_. SetMessageVisibility [] True True)
       (sample_runner []) () sample_pending_turn empty_input plain_world
     = (Inr NotApplicable, plain_world)"
proof -
  have no: "\<not> inference_applies sample_pending_turn"
    by (simp add: inference_applies_def inference_samples messages_for_provider_def Let_def
        agent_visible_content_def filter_for_audience_def ends_with_provider_turn_def last_opt_def
        effective_role_of_def has_tool_response_def trailing_error_def audience_of_def
        audience_allows_def error_kind_def as_error_def)
  then show ?thesis
    by (rule conjI) (rule inference_asked_iff_applies [OF sample_pending(1), THEN conjunct2, THEN mp, OF no])
qed

end
