(* ===== verification/Session_Conversation.thy ===== *)
theory Session_Conversation
  imports Agent_Inference
begin

section \<open>The stored conversation of a session\<close>

text \<open>
  \<open>crates/goose/src/session/session_manager.rs\<close>: the table \<open>messages\<close> and the functions that read
  and change a session's conversation in it. A table is the list of its rows in the order of
  their row identifiers and the next identifier; a query is a function on the rows
  (\<open>ORDER BY created_timestamp, id\<close> is a stable sort on the timestamp of the rows in identifier
  order). The JSON codec of contents and metadata is a parameter; the database itself is
  assumed to answer. A transaction is one function, since \<open>BEGIN IMMEDIATE\<close> serialises writers.
\<close>

record message_codec =
  mc_content :: "message_content_block list \<Rightarrow> string"
  mc_parse_content :: "string \<Rightarrow> anyhow + message_content_block list"
  mc_metadata :: "message_metadata \<Rightarrow> string"
  mc_parse_metadata :: "string \<Rightarrow> anyhow + message_metadata"

record message_row =
  row_id :: nat
  row_message_id :: "string option"
  row_session :: string
  row_role :: string
  row_content :: string
  row_created :: int
  row_metadata :: "string option"

record message_table =
  mt_rows :: "message_row list"
  mt_next :: nat

definition role_to_string :: "role \<Rightarrow> string" where
  "role_to_string r = (case r of User \<Rightarrow> ''user'' | Assistant \<Rightarrow> ''assistant'')"

definition session_rows :: "string \<Rightarrow> message_table \<Rightarrow> message_row list" where
  "session_rows sid tbl = filter (\<lambda>r. row_session r = sid) (mt_rows tbl)"

definition read_role :: "string \<Rightarrow> role option" where
  "read_role s = (if s = ''user'' then Some User else if s = ''assistant'' then Some Assistant else None)"

fun read_rows :: "message_codec \<Rightarrow> message_row list \<Rightarrow> anyhow + conversation" where
  "read_rows mc [] = Inr []"
| "read_rows mc (row # rows) =
     (case read_role (row_role row) of
        None \<Rightarrow> read_rows mc rows
      | Some role \<Rightarrow>
          (case mc_parse_content mc (row_content row) of
             Inl e \<Rightarrow> Inl e
           | Inr content \<Rightarrow>
               (case read_rows mc rows of
                  Inl e \<Rightarrow> Inl e
                | Inr ms \<Rightarrow>
                    Inr ((message_new role (row_created row) content)
                      \<lparr>m_metadata := (case row_metadata row of
                           None \<Rightarrow> metadata_default
                         | Some j \<Rightarrow> (case mc_parse_metadata mc j of
                             Inl _ \<Rightarrow> metadata_default | Inr md \<Rightarrow> md)),
                       m_id := row_message_id row\<rparr> # ms))))"

definition get_conversation :: "message_codec \<Rightarrow> string \<Rightarrow> message_table \<Rightarrow> anyhow + conversation" where
  "get_conversation mc sid tbl = read_rows mc (sort_key row_created (session_rows sid tbl))"

definition stored_id :: "string \<Rightarrow> string \<Rightarrow> message \<Rightarrow> string" where
  "stored_id uuid sid m =
     (case m_id m of Some i \<Rightarrow> i | None \<Rightarrow> ''msg_'' @ sid @ ''_'' @ uuid)"

definition insert_message ::
    "message_codec \<Rightarrow> string \<Rightarrow> string \<Rightarrow> int \<Rightarrow> message \<Rightarrow> message_table \<Rightarrow> message_table" where
  "insert_message mc uuid sid created m tbl =
     \<lparr>mt_rows = mt_rows tbl @
        [\<lparr>row_id = mt_next tbl, row_message_id = Some (stored_id uuid sid m), row_session = sid,
          row_role = role_to_string (m_role m), row_content = mc_content mc (m_content m),
          row_created = created, row_metadata = Some (mc_metadata mc (m_metadata m))\<rparr>],
      mt_next = Suc (mt_next tbl)\<rparr>"

definition latest_timestamp :: "string \<Rightarrow> message_table \<Rightarrow> int option" where
  "latest_timestamp sid tbl =
     (case map row_created (session_rows sid tbl) of [] \<Rightarrow> None | t # ts \<Rightarrow> Some (fold max ts t))"

definition add_message ::
    "message_codec \<Rightarrow> string \<Rightarrow> string \<Rightarrow> message \<Rightarrow> message_table \<Rightarrow> message_table" where
  "add_message mc uuid sid m tbl =
     (let created = max (m_created m)
            (case latest_timestamp sid tbl of Some t \<Rightarrow> t | None \<Rightarrow> m_created m)
      in insert_message mc uuid sid created m tbl)"

definition replace_conversation ::
    "message_codec \<Rightarrow> (nat \<Rightarrow> string) \<Rightarrow> string \<Rightarrow> conversation \<Rightarrow> message_table \<Rightarrow> message_table" where
  "replace_conversation mc uuids sid c tbl =
     fold (\<lambda>(i, m). insert_message mc (uuids i) sid (m_created m) m) (enumerate 0 c)
       (tbl\<lparr>mt_rows := filter (\<lambda>r. row_session r \<noteq> sid) (mt_rows tbl)\<rparr>)"

definition truncate_conversation :: "string \<Rightarrow> int \<Rightarrow> message_table \<Rightarrow> message_table" where
  "truncate_conversation sid ts tbl =
     tbl\<lparr>mt_rows := filter (\<lambda>r. \<not> (row_session r = sid \<and> row_created r \<ge> ts)) (mt_rows tbl)\<rparr>"

definition truncate_conversation_from_message :: "string \<Rightarrow> string \<Rightarrow> message_table \<Rightarrow> message_table" where
  "truncate_conversation_from_message sid mid tbl =
     (case first_opt (sort_key row_created
             (filter (\<lambda>r. row_message_id r = Some mid) (session_rows sid tbl))) of
        None \<Rightarrow> tbl
      | Some b \<Rightarrow>
          tbl\<lparr>mt_rows := filter (\<lambda>r. \<not> (row_session r = sid \<and>
                (row_created r > row_created b
                 \<or> (row_created r = row_created b \<and> row_id r \<ge> row_id b)))) (mt_rows tbl)\<rparr>)"

definition update_message_metadata ::
    "message_codec \<Rightarrow> string \<Rightarrow> string \<Rightarrow> (message_metadata \<Rightarrow> message_metadata) \<Rightarrow> message_table
       \<Rightarrow> anyhow + message_table" where
  "update_message_metadata mc sid mid f tbl =
     (case first_opt (filter (\<lambda>r. row_message_id r = Some mid) (session_rows sid tbl)) of
        None \<Rightarrow> Inl ''no rows returned by a query that expected to return at least one row''
      | Some row \<Rightarrow>
          (case row_metadata row of
             None \<Rightarrow> Inl ''unexpected null''
           | Some j \<Rightarrow>
               (case mc_parse_metadata mc j of
                  Inl e \<Rightarrow> Inl e
                | Inr md \<Rightarrow>
                    Inr (tbl\<lparr>mt_rows := map (\<lambda>r.
                      if row_session r = sid \<and> row_message_id r = Some mid
                      then r\<lparr>row_metadata := Some (mc_metadata mc (f md))\<rparr> else r) (mt_rows tbl)\<rparr>))))"

definition merge_tool_meta :: "json option \<Rightarrow> json \<Rightarrow> json" where
  "merge_tool_meta existing patch =
     (let base = (case existing of Some (JObject m) \<Rightarrow> m | _ \<Rightarrow> []) in
      JObject (case patch of
         JObject p \<Rightarrow> fold (\<lambda>(k, v). AList.update k v) p base
       | _ \<Rightarrow> base))"

fun patch_first_request ::
    "string \<Rightarrow> json \<Rightarrow> message_content_block list \<Rightarrow> message_content_block list option" where
  "patch_first_request tid patch [] = None"
| "patch_first_request tid patch (b # bs) =
     (case as_tool_request b of
        Some r \<Rightarrow>
          if tr_id r = tid
          then Some (ToolRequest (r\<lparr>tr_tool_meta := Some (merge_tool_meta (tr_tool_meta r) patch)\<rparr>) # bs)
          else map_option ((#) b) (patch_first_request tid patch bs)
      | None \<Rightarrow> map_option ((#) b) (patch_first_request tid patch bs))"

fun patch_rows ::
    "message_codec \<Rightarrow> string \<Rightarrow> json \<Rightarrow> message_row list \<Rightarrow> message_table \<Rightarrow> anyhow + message_table" where
  "patch_rows mc tid patch [] tbl = Inr tbl"
| "patch_rows mc tid patch (row # rows) tbl =
     (case mc_parse_content mc (row_content row) of
        Inl e \<Rightarrow> Inl e
      | Inr content \<Rightarrow>
          (case patch_first_request tid patch content of
             None \<Rightarrow> patch_rows mc tid patch rows tbl
           | Some content' \<Rightarrow>
               Inr (tbl\<lparr>mt_rows := map (\<lambda>r.
                 if row_id r = row_id row then r\<lparr>row_content := mc_content mc content'\<rparr> else r)
                   (mt_rows tbl)\<rparr>)))"

definition update_tool_request_meta_by_message_id ::
    "message_codec \<Rightarrow> string \<Rightarrow> string \<Rightarrow> string \<Rightarrow> json \<Rightarrow> message_table \<Rightarrow> anyhow + message_table" where
  "update_tool_request_meta_by_message_id mc sid mid tid patch tbl =
     patch_rows mc tid patch (filter (\<lambda>r. row_message_id r = Some mid) (session_rows sid tbl)) tbl"

fun find_request_row ::
    "message_codec \<Rightarrow> string \<Rightarrow> message_row list \<Rightarrow> anyhow + message_row option" where
  "find_request_row mc tid [] = Inr None"
| "find_request_row mc tid (row # rows) =
     (case mc_parse_content mc (row_content row) of
        Inl e \<Rightarrow> Inl e
      | Inr content \<Rightarrow>
          if list_ex (\<lambda>b. request_id b = Some tid) content then Inr (Some row)
          else find_request_row mc tid rows)"

definition update_tool_request_meta ::
    "message_codec \<Rightarrow> string \<Rightarrow> string \<Rightarrow> json \<Rightarrow> message_table \<Rightarrow> anyhow + message_table" where
  "update_tool_request_meta mc sid tid patch tbl =
     (case find_request_row mc tid (take 100 (rev (session_rows sid tbl))) of
        Inl e \<Rightarrow> Inl e
      | Inr None \<Rightarrow> Inr tbl
      | Inr (Some row) \<Rightarrow>
          (case row_message_id row of
             None \<Rightarrow> Inr tbl
           | Some mid \<Rightarrow> update_tool_request_meta_by_message_id mc sid mid tid patch tbl))"

subsection \<open>Rows and messages\<close>

text \<open>What the codec is relied on for: the contents and the metadata of this message are read back
  as they were written.\<close>

definition codec_reads :: "message_codec \<Rightarrow> message \<Rightarrow> bool" where
  "codec_reads mc m \<longleftrightarrow> mc_parse_content mc (mc_content mc (m_content m)) = Inr (m_content m)
     \<and> mc_parse_metadata mc (mc_metadata mc (m_metadata m)) = Inr (m_metadata m)"

definition stored :: "string \<Rightarrow> string \<Rightarrow> int \<Rightarrow> message \<Rightarrow> message" where
  "stored uuid sid created m = m\<lparr>m_id := Some (stored_id uuid sid m), m_created := created\<rparr>"

definition message_row_of :: "message_codec \<Rightarrow> nat \<Rightarrow> string \<Rightarrow> string \<Rightarrow> int \<Rightarrow> message \<Rightarrow> message_row" where
  "message_row_of mc i uuid sid created m =
     \<lparr>row_id = i, row_message_id = Some (stored_id uuid sid m), row_session = sid,
      row_role = role_to_string (m_role m), row_content = mc_content mc (m_content m),
      row_created = created, row_metadata = Some (mc_metadata mc (m_metadata m))\<rparr>"

lemma read_role_to_string [simp]: "read_role (role_to_string r) = Some r"
  by (cases r) (simp_all add: read_role_def role_to_string_def)

lemma insert_message_eq:
  "insert_message mc uuid sid created m tbl =
     \<lparr>mt_rows = mt_rows tbl @ [message_row_of mc (mt_next tbl) uuid sid created m],
      mt_next = Suc (mt_next tbl)\<rparr>"
  by (simp add: insert_message_def message_row_of_def)

lemma message_row_of_simps [simp]:
  "row_session (message_row_of mc i u sid t m) = sid"
  "row_created (message_row_of mc i u sid t m) = t"
  "row_message_id (message_row_of mc i u sid t m) = Some (stored_id u sid m)"
  "row_id (message_row_of mc i u sid t m) = i"
  by (simp_all add: message_row_of_def)

lemma read_rows_append:
  "read_rows mc (xs @ ys) =
     (case read_rows mc xs of Inl e \<Rightarrow> Inl e
      | Inr ms \<Rightarrow> (case read_rows mc ys of Inl e \<Rightarrow> Inl e | Inr ms' \<Rightarrow> Inr (ms @ ms')))"
  by (induction xs) (auto split: option.splits sum.splits)

lemma read_rows_message:
  "codec_reads mc m \<Longrightarrow> read_rows mc [message_row_of mc i u sid t m] = Inr [stored u sid t m]"
  by (simp add: message_row_of_def codec_reads_def stored_def message_new_def)

lemma read_rows_messages:
  "(\<And>x. x \<in> set xs \<Longrightarrow> read_rows mc [row x] = Inr [msg x]) \<Longrightarrow>
     read_rows mc (map row xs) = Inr (map msg xs)"
proof (induction xs)
  case (Cons x xs)
  then have "read_rows mc ([row x] @ map row xs) = Inr ([msg x] @ map msg xs)"
    by (subst read_rows_append) simp
  then show ?case by simp
qed simp

lemma insort_key_snoc: "f x \<le> f y \<Longrightarrow> insort_key f x (xs @ [y]) = insort_key f x xs @ [y]"
  by (induction xs) auto

lemma sort_key_snoc: "(\<And>x. x \<in> set xs \<Longrightarrow> f x \<le> f y) \<Longrightarrow> sort_key f (xs @ [y]) = sort_key f xs @ [y]"
  by (induction xs) (simp_all add: insort_key_snoc)

lemma insort_key_map: "insort_key f (g x) (map g xs) = map g (insort_key (f \<circ> g) x xs)"
  by (induction xs) auto

lemma sort_key_map: "sort_key f (map g xs) = map g (sort_key (f \<circ> g) xs)"
  by (induction xs) (simp_all add: insort_key_map comp_def)

lemma fold_max_ge: "(t :: int) \<in> insert a (set ts) \<Longrightarrow> t \<le> fold max ts a"
  by (simp flip: Max.set_eq_fold)

lemma latest_timestamp_ge:
  assumes "r \<in> set (session_rows sid tbl)"
  shows "\<exists>t. latest_timestamp sid tbl = Some t \<and> row_created r \<le> t"
proof (cases "session_rows sid tbl")
  case (Cons a rows)
  then have "row_created r \<in> insert (row_created a) (set (map row_created rows))" using assms by auto
  from fold_max_ge [OF this] Cons show ?thesis by (simp add: latest_timestamp_def)
qed (use assms in simp)

definition message_time :: "string \<Rightarrow> message \<Rightarrow> message_table \<Rightarrow> int" where
  "message_time sid m tbl =
     max (m_created m) (case latest_timestamp sid tbl of Some t \<Rightarrow> t | None \<Rightarrow> m_created m)"

lemma message_time_ge: "r \<in> set (session_rows sid tbl) \<Longrightarrow> row_created r \<le> message_time sid m tbl"
  using latest_timestamp_ge by (fastforce simp: message_time_def)

lemma get_conversation_add:
  assumes "codec_reads mc m"
  shows "get_conversation mc sid (add_message mc uuid sid m tbl) =
    (case get_conversation mc sid tbl of
       Inl e \<Rightarrow> Inl e | Inr c \<Rightarrow> Inr (c @ [stored uuid sid (message_time sid m tbl) m]))"
proof -
  let ?row = "message_row_of mc (mt_next tbl) uuid sid (message_time sid m tbl) m"
  have "session_rows sid (add_message mc uuid sid m tbl) = session_rows sid tbl @ [?row]"
    by (simp add: add_message_def Let_def insert_message_eq session_rows_def message_time_def)
  moreover have "sort_key row_created (session_rows sid tbl @ [?row])
      = sort_key row_created (session_rows sid tbl) @ [?row]"
    by (rule sort_key_snoc) (simp add: message_time_ge)
  ultimately show ?thesis
    using read_rows_message [OF assms]
    by (simp add: get_conversation_def read_rows_append del: read_rows.simps split: sum.split)
qed

lemma get_conversation_other:
  "sid' \<noteq> sid \<Longrightarrow> get_conversation mc sid' (add_message mc uuid sid m tbl) = get_conversation mc sid' tbl"
  by (simp add: get_conversation_def add_message_def Let_def insert_message_eq session_rows_def)

subsection \<open>Replacing a conversation\<close>

lemma insert_message_rows:
  "session_rows sid' (insert_message mc u sid t m tbl) = session_rows sid' tbl @
     (if sid' = sid then [message_row_of mc (mt_next tbl) u sid t m] else [])"
  "mt_next (insert_message mc u sid t m tbl) = Suc (mt_next tbl)"
  by (simp_all add: insert_message_eq session_rows_def)

lemma stored_same: "m_id m \<noteq> None \<Longrightarrow> stored u sid (m_created m) m = m"
  by (cases m) (auto simp: stored_def stored_id_def)

lemma fold_insert_rows:
  "session_rows sid' (fold (\<lambda>(i, m). insert_message mc (uuids i) sid (m_created m) m) (enumerate n c) tbl) =
     session_rows sid' tbl @
     (if sid' = sid
      then map (\<lambda>(i, m). message_row_of mc (mt_next tbl + i - n) (uuids i) sid (m_created m) m) (enumerate n c)
      else [])"
proof (induction c arbitrary: n tbl)
  case (Cons m c)
  have "map (\<lambda>(i, m). message_row_of mc (Suc (mt_next tbl) + i - Suc n) (uuids i) sid (m_created m) m)
      (enumerate (Suc n) c)
    = map (\<lambda>(i, m). message_row_of mc (mt_next tbl + i - n) (uuids i) sid (m_created m) m)
      (enumerate (Suc n) c)"
    by (rule map_cong) (auto simp: in_set_enumerate_eq)
  then show ?case
    by (simp add: Cons.IH insert_message_rows)
qed simp

lemma get_conversation_replace:
  assumes "\<And>m. m \<in> set c \<Longrightarrow> codec_reads mc m"
  shows "get_conversation mc sid (replace_conversation mc uuids sid c tbl) =
    Inr (sort_key m_created (map (\<lambda>(i, m). stored (uuids i) sid (m_created m) m) (enumerate 0 c)))"
proof -
  let ?row = "\<lambda>(i, m). message_row_of mc (mt_next tbl + i) (uuids i) sid (m_created m) m"
  let ?msg = "\<lambda>(i, m). stored (uuids i) sid (m_created m) m"
  have rows: "session_rows sid (replace_conversation mc uuids sid c tbl) = map ?row (enumerate 0 c)"
    unfolding replace_conversation_def by (subst fold_insert_rows) (simp add: session_rows_def)
  have time: "row_created \<circ> ?row = (\<lambda>(i, m). m_created m)" "m_created \<circ> ?msg = (\<lambda>(i, m). m_created m)"
    by (auto simp: fun_eq_iff stored_def)
  have "read_rows mc (map ?row (sort_key (\<lambda>(i, m). m_created m) (enumerate 0 c)))
      = Inr (map ?msg (sort_key (\<lambda>(i, m). m_created m) (enumerate 0 c)))"
    by (rule read_rows_messages)
      (auto simp: in_set_enumerate_eq simp del: read_rows.simps intro!: read_rows_message assms)
  then show ?thesis
    by (simp add: get_conversation_def rows sort_key_map time)
qed

lemma get_conversation_replace_sorted:
  assumes "\<And>m. m \<in> set c \<Longrightarrow> codec_reads mc m \<and> m_id m \<noteq> None" and "sorted (map m_created c)"
  shows "get_conversation mc sid (replace_conversation mc uuids sid c tbl) = Inr c"
proof -
  have "map (\<lambda>(i, m). stored (uuids i) sid (m_created m) m) (enumerate 0 c) = map snd (enumerate 0 c)"
    using assms(1) by (intro map_cong) (auto simp: in_set_enumerate_eq intro!: stored_same)
  then have "map (\<lambda>(i, m). stored (uuids i) sid (m_created m) m) (enumerate 0 c) = c" by simp
  then show ?thesis
    using assms by (simp add: get_conversation_replace sort_key_id_if_sorted)
qed

subsection \<open>Truncation\<close>

text \<open>The table as the statements leave it: row identifiers grow, and every row of a session has
  one of the two roles.\<close>

definition table_ok :: "message_table \<Rightarrow> bool" where
  "table_ok tbl \<longleftrightarrow> sorted_wrt (<) (map row_id (mt_rows tbl))
     \<and> list_all (\<lambda>r. row_id r < mt_next tbl \<and> read_role (row_role r) \<noteq> None) (mt_rows tbl)"

definition row_before :: "message_row \<Rightarrow> message_row \<Rightarrow> bool" where
  "row_before a b \<longleftrightarrow> row_created a < row_created b \<or> (row_created a = row_created b \<and> row_id a < row_id b)"

lemma row_before_trans: "row_before a b \<Longrightarrow> row_before b c \<Longrightarrow> row_before a c"
  by (auto simp: row_before_def)

lemma insort_row_before:
  "sorted_wrt row_before rows \<Longrightarrow> list_all (\<lambda>r. row_id a < row_id r) rows \<Longrightarrow>
     sorted_wrt row_before (insort_key row_created a rows)"
proof (induction rows)
  case (Cons r rows)
  show ?case
  proof (cases "row_created a \<le> row_created r")
    case True
    with Cons.prems have "row_before a r" by (auto simp: row_before_def)
    with Cons.prems row_before_trans show ?thesis using True by auto
  next
    case False
    then have "row_before r a" by (simp add: row_before_def)
    with Cons False show ?thesis by (auto simp: set_insort_key)
  qed
qed simp

lemma sort_rows_before:
  "sorted_wrt (<) (map row_id rows) \<Longrightarrow> sorted_wrt row_before (sort_key row_created rows)"
  by (induction rows) (auto simp: list_all_iff intro!: insort_row_before)

lemma session_rows_sorted: "table_ok tbl \<Longrightarrow> sorted_wrt row_before (sort_key row_created (session_rows sid tbl))"
  by (intro sort_rows_before)
    (auto simp: table_ok_def session_rows_def sorted_wrt_map intro: sorted_wrt_filter)

lemma cut_sorted_rows:
  "sorted_wrt row_before rows \<Longrightarrow> first_opt (filter P rows) = Some b \<Longrightarrow>
     filter (\<lambda>r. \<not> (row_created r > row_created b \<or> (row_created r = row_created b \<and> row_id r \<ge> row_id b))) rows
       = takeWhile (\<lambda>r. \<not> P r) rows"
proof (induction rows)
  case (Cons r rows)
  show ?case
  proof (cases "P r")
    case True
    with Cons.prems(2) have "b = r" by simp
    moreover have "row_created x > row_created r \<or> (row_created x = row_created r \<and> row_id x \<ge> row_id r)"
      if "x \<in> set rows" for x
      using that Cons.prems(1) by (auto simp: row_before_def)
    ultimately show ?thesis using True by (auto simp: filter_empty_conv)
  next
    case False
    with Cons.prems(2) have b: "first_opt (filter P rows) = Some b" by simp
    then have "b \<in> set rows" by (cases "filter P rows") (auto dest!: filter_eq_ConsD)
    then have "row_before r b" using Cons.prems(1) by simp
    with False Cons.IH [OF _ b] Cons.prems(1) show ?thesis by (auto simp: row_before_def)
  qed
qed simp

lemma read_rows_takeWhile:
  "list_all (\<lambda>r. read_role (row_role r) \<noteq> None) rows \<Longrightarrow> read_rows mc rows = Inr c \<Longrightarrow>
     read_rows mc (takeWhile (\<lambda>r. row_message_id r \<noteq> Some mid) rows)
       = Inr (takeWhile (\<lambda>m. m_id m \<noteq> Some mid) c)"
  by (induction rows arbitrary: c) (auto split: option.splits sum.splits)

lemma get_conversation_truncate_from:
  assumes ok: "table_ok tbl" and c: "get_conversation mc sid tbl = Inr c"
  shows "get_conversation mc sid (truncate_conversation_from_message sid mid tbl)
    = Inr (takeWhile (\<lambda>m. m_id m \<noteq> Some mid) c)"
proof -
  let ?rows = "sort_key row_created (session_rows sid tbl)"
  let ?P = "\<lambda>r. row_message_id r = Some mid"
  have roles: "list_all (\<lambda>r. read_role (row_role r) \<noteq> None) ?rows"
    using ok by (auto simp: table_ok_def list_all_iff session_rows_def)
  note cut = read_rows_takeWhile [OF roles c [unfolded get_conversation_def]]
  have first: "first_opt (sort_key row_created (filter ?P (session_rows sid tbl))) = first_opt (filter ?P ?rows)"
    by (simp add: filter_sort)
  show ?thesis
  proof (cases "first_opt (filter ?P ?rows)")
    case None
    then have "filter ?P ?rows = []" by (cases "filter ?P ?rows") auto
    then have whole: "takeWhile (\<lambda>r. \<not> ?P r) ?rows = ?rows"
      by (simp only: takeWhile_eq_all_conv) (simp add: filter_empty_conv)
    have same: "takeWhile (\<lambda>m. m_id m \<noteq> Some mid) c = c"
      using cut [of mid] c unfolding whole get_conversation_def by simp
    show ?thesis
      unfolding same using None first c by (simp add: truncate_conversation_from_message_def)
  next
    case (Some b)
    let ?gone = "\<lambda>r. row_created r > row_created b \<or> (row_created r = row_created b \<and> row_id r \<ge> row_id b)"
    have "session_rows sid (truncate_conversation_from_message sid mid tbl)
        = filter (\<lambda>r. \<not> ?gone r) (session_rows sid tbl)"
      using Some first
      by (auto simp: truncate_conversation_from_message_def session_rows_def intro!: filter_cong)
    then show ?thesis
      using cut_sorted_rows [OF session_rows_sorted [OF ok] Some] cut
      by (simp add: get_conversation_def flip: filter_sort)
  qed
qed

lemma table_ok_insert: "table_ok tbl \<Longrightarrow> table_ok (insert_message mc u sid t m tbl)"
  by (auto simp: table_ok_def insert_message_eq sorted_wrt_append list_all_iff message_row_of_def
      dest: less_SucI)

lemma table_ok_filter: "table_ok tbl \<Longrightarrow> table_ok (tbl\<lparr>mt_rows := filter P (mt_rows tbl)\<rparr>)"
  by (auto simp: table_ok_def sorted_wrt_map list_all_iff intro: sorted_wrt_filter)

lemma table_ok_map:
  "table_ok tbl \<Longrightarrow> (\<And>r. row_id (f r) = row_id r \<and> row_role (f r) = row_role r) \<Longrightarrow>
     table_ok (tbl\<lparr>mt_rows := map f (mt_rows tbl)\<rparr>)"
  by (auto simp: table_ok_def sorted_wrt_map list_all_iff)

lemma table_ok_patch_rows:
  "table_ok tbl \<Longrightarrow> patch_rows mc tid patch rows tbl = Inr tbl' \<Longrightarrow> table_ok tbl'"
  by (induction rows) (auto intro!: table_ok_map split: sum.splits option.splits)

subsection \<open>The interface of the store\<close>

text \<open>
  What the agent loop relies on: a conversation that can be read, a message that is appended
  behind what is stored, and sessions that do not touch each other. \<open>readable\<close> is what the codec
  is relied on for, \<open>kept\<close> the message as it is read back.
\<close>

locale conversation_store =
  fixes load :: "string \<Rightarrow> 't \<Rightarrow> anyhow + conversation"
    and add :: "string \<Rightarrow> string \<Rightarrow> message \<Rightarrow> 't \<Rightarrow> 't"
    and readable :: "message \<Rightarrow> bool"
    and kept :: "string \<Rightarrow> string \<Rightarrow> message \<Rightarrow> 't \<Rightarrow> message"
  assumes load_add: "readable m \<Longrightarrow> load sid t = Inr c \<Longrightarrow>
      load sid (add u sid m t) = Inr (c @ [kept u sid m t])"
    and load_other: "sid' \<noteq> sid \<Longrightarrow> load sid' (add u sid m t) = load sid' t"
    and kept_content: "m_content (kept u sid m t) = m_content m"
    and kept_role: "m_role (kept u sid m t) = m_role m"
    and kept_metadata: "m_metadata (kept u sid m t) = m_metadata m"
begin

text \<open>A sequence of messages, each with the identifier drawn for it.\<close>

lemma load_add_all:
  "list_all (\<lambda>(u, m). readable m) ums \<Longrightarrow> load sid t = Inr c \<Longrightarrow>
     \<exists>ms. load sid (fold (\<lambda>(u, m). add u sid m) ums t) = Inr (c @ ms)
       \<and> map m_content ms = map (m_content \<circ> snd) ums \<and> map m_role ms = map (m_role \<circ> snd) ums
       \<and> map m_metadata ms = map (m_metadata \<circ> snd) ums"
proof (induction ums arbitrary: c t)
  case (Cons um ums)
  obtain u m where um: "um = (u, m)" by (cases um)
  with Cons.prems have "load sid (add u sid m t) = Inr (c @ [kept u sid m t])"
    by (auto intro: load_add)
  from Cons.IH [OF _ this] Cons.prems um obtain ms where
    "load sid (fold (\<lambda>(u, m). add u sid m) ums (add u sid m t)) = Inr ((c @ [kept u sid m t]) @ ms)"
    "map m_content ms = map (m_content \<circ> snd) ums" "map m_role ms = map (m_role \<circ> snd) ums"
    "map m_metadata ms = map (m_metadata \<circ> snd) ums"
    by auto
  then show ?case
    by (intro exI [of _ "kept u sid m t # ms"]) (simp add: um kept_content kept_role kept_metadata)
qed simp

lemma load_add_all_other:
  "sid' \<noteq> sid \<Longrightarrow> load sid' (fold (\<lambda>(u, m). add u sid m) ums t) = load sid' t"
  by (induction ums arbitrary: t) (auto simp: load_other)

end

interpretation messages: conversation_store "get_conversation mc" "add_message mc" "codec_reads mc"
    "\<lambda>u sid m t. stored u sid (message_time sid m t) m"
  for mc :: message_codec
  by unfold_locales (simp_all add: get_conversation_add get_conversation_other stored_def)

text \<open>The times under which messages are stored: never before one that is stored already.\<close>

fun raised_times :: "int list \<Rightarrow> int list \<Rightarrow> int list" where
  "raised_times before [] = []"
| "raised_times before (t # ts) = (let t1 = fold max before t in t1 # raised_times (before @ [t1]) ts)"

lemma message_time_raised: "message_time sid m tbl = fold max (map row_created (session_rows sid tbl)) (m_created m)"
proof (cases "map row_created (session_rows sid tbl)")
  case (Cons t ts)
  have "max s (fold max ts t) = fold max ts (max t s)" for s :: int and t ts
    by (induction ts arbitrary: t) (simp_all add: max.commute max.left_commute)
  with Cons show ?thesis by (simp add: message_time_def latest_timestamp_def)
qed (simp add: message_time_def latest_timestamp_def)

lemma session_rows_add:
  "map row_created (session_rows sid (add_message mc u sid m tbl)) = map row_created (session_rows sid tbl) @ [message_time sid m tbl]"
  by (simp add: add_message_def insert_message_def session_rows_def message_time_def)

lemma stored_names_and_times:
  assumes "list_all (\<lambda>(u, m). codec_reads mc m) ums" "get_conversation mc sid tbl = Inr c"
  shows "\<exists>ms. get_conversation mc sid (fold (\<lambda>(u, m). add_message mc u sid m) ums tbl) = Inr (c @ ms)
    \<and> map m_id ms = map (\<lambda>(u, m). Some (stored_id u sid m)) ums
    \<and> map m_created ms = raised_times (map row_created (session_rows sid tbl)) (map (m_created \<circ> snd) ums)"
  using assms
proof (induction ums arbitrary: c tbl)
  case (Cons um ums)
  obtain u m where um: "um = (u, m)" by (cases um)
  let ?s = "stored u sid (message_time sid m tbl) m"
  have "get_conversation mc sid (add_message mc u sid m tbl) = Inr (c @ [?s])"
    using Cons.prems um by (auto intro: messages.load_add)
  from Cons.IH [OF _ this] Cons.prems um obtain ms where
    "get_conversation mc sid (fold (\<lambda>(u, m). add_message mc u sid m) ums (add_message mc u sid m tbl)) = Inr ((c @ [?s]) @ ms)"
    "map m_id ms = map (\<lambda>(u, m). Some (stored_id u sid m)) ums"
    "map m_created ms = raised_times (map row_created (session_rows sid (add_message mc u sid m tbl))) (map (m_created \<circ> snd) ums)"
    by (auto simp: comp_def)
  then show ?case
    by (intro exI [of _ "?s # ms"]) (simp add: um session_rows_add stored_def message_time_raised Let_def comp_def)
qed simp

text \<open>Claim C18 (stored_messages_appended): storing messages one after another appends them to what is
  read back, in order, with their role, content and metadata and with their identifier, or the one
  drawn for a message without. The timestamp is kept too unless a stored message of the session is
  later; then it is raised to that one, whatever clocks the timestamps came from. The conversations
  of other sessions stay as they are.\<close>

theorem stored_messages_appended:
  assumes "list_all (\<lambda>(u, m). codec_reads mc m) ums" and "get_conversation mc sid tbl = Inr c"
    and "sid' \<noteq> sid"
  shows "\<exists>ms. get_conversation mc sid (fold (\<lambda>(u, m). add_message mc u sid m) ums tbl) = Inr (c @ ms)
    \<and> map m_content ms = map (m_content \<circ> snd) ums \<and> map m_role ms = map (m_role \<circ> snd) ums
    \<and> map m_metadata ms = map (m_metadata \<circ> snd) ums
    \<and> map m_id ms = map (\<lambda>(u, m). Some (case m_id m of Some i \<Rightarrow> i | None \<Rightarrow> ''msg_'' @ sid @ ''_'' @ u)) ums
    \<and> map m_created ms = raised_times (map row_created (session_rows sid tbl)) (map (m_created \<circ> snd) ums)
    \<and> get_conversation mc sid' (fold (\<lambda>(u, m). add_message mc u sid m) ums tbl) = get_conversation mc sid' tbl"
  using messages.load_add_all [OF assms(1,2)] stored_names_and_times [OF assms(1,2)] messages.load_add_all_other [OF assms(3)]
  by (auto simp: stored_id_def)

text \<open>Truncating at a message removes that message and all that follow
  it in the conversation and keeps what comes before; with no such message nothing is removed.\<close>

lemma truncation_is_prefix:
  assumes "table_ok tbl" and "get_conversation mc sid tbl = Inr c"
  shows "get_conversation mc sid (truncate_conversation_from_message sid mid tbl)
    = Inr (takeWhile (\<lambda>m. m_id m \<noteq> Some mid) c)"
  using assms by (rule get_conversation_truncate_from)

text \<open>Claim C19 (replaced_conversation_reloaded): a conversation that replaces the stored one is read back
  as it was written when its messages have identifiers and its timestamps do not decrease;
  without that order the messages come back sorted by their timestamps.\<close>

theorem replaced_conversation_reloaded:
  assumes "\<And>m. m \<in> set c \<Longrightarrow> codec_reads mc m \<and> m_id m \<noteq> None"
  shows "get_conversation mc sid (replace_conversation mc uuids sid c tbl) = Inr (sort_key m_created c)
    \<and> (sorted (map m_created c)
        \<longrightarrow> get_conversation mc sid (replace_conversation mc uuids sid c tbl) = Inr c)"
proof -
  have "map (\<lambda>(i, m). stored (uuids i) sid (m_created m) m) (enumerate 0 c) = map snd (enumerate 0 c)"
    using assms by (intro map_cong) (auto simp: in_set_enumerate_eq intro!: stored_same)
  with assms get_conversation_replace [of c mc sid uuids tbl] get_conversation_replace_sorted [OF assms]
  show ?thesis by auto
qed

definition text_codec :: "message_codec" where
  "text_codec =
     \<lparr>mc_content = (\<lambda>bs. as_concat_text (message_new User 0 bs)),
      mc_parse_content = (\<lambda>s. Inr [Text (text_content_new s)]),
      mc_metadata = (\<lambda>_. ''{}''), mc_parse_metadata = (\<lambda>_. Inr metadata_default)\<rparr>"

lemma text_codec_reads [simp]: "codec_reads text_codec (message_new r t [sample_text s])"
  by (simp add: codec_reads_def text_codec_def message_new_def sample_text_def as_concat_text_def
      as_text_def text_content_new_def)

definition empty_table :: message_table where
  "empty_table = \<lparr>mt_rows = [], mt_next = 0\<rparr>"

lemma get_conversation_empty [simp]: "get_conversation mc sid empty_table = Inr []"
  by (simp add: get_conversation_def session_rows_def empty_table_def)

theorem stored_messages_appended_witness:
  "\<exists>ms. get_conversation text_codec ''s'' (fold (\<lambda>(u, m). add_message text_codec u ''s'' m)
       [(''1'', message_new User 5 [sample_text ''a'']), (''2'', message_new Assistant 3 [sample_text ''b''])]
       empty_table) = Inr ms
    \<and> map m_role ms = [User, Assistant] \<and> map m_created ms = [5, 5]"
proof -
  let ?ums = "[(''1'', message_new User 5 [sample_text ''a'']), (''2'', message_new Assistant 3 [sample_text ''b''])]"
  have "list_all (\<lambda>(u, m). codec_reads text_codec m) ?ums" by simp
  from stored_messages_appended [OF this get_conversation_empty, of "''t''" "''s''"] show ?thesis
    by (auto simp: message_new_def session_rows_def empty_table_def Let_def)
qed

definition sample_table :: message_table where
  "sample_table = add_message text_codec ''2'' ''s'' (message_new Assistant 3 [sample_text ''b''])
     (add_message text_codec ''1'' ''s'' (message_new User 5 [sample_text ''a'']) empty_table)"

lemma truncation_is_prefix_example:
  "\<exists>c. length c = 1 \<and> get_conversation text_codec ''s''
     (truncate_conversation_from_message ''s'' ''msg_s_2'' sample_table) = Inr c"
proof -
  have ok: "table_ok sample_table"
    unfolding sample_table_def add_message_def Let_def
    by (intro table_ok_insert) (simp add: table_ok_def empty_table_def)
  let ?m1 = "message_new User 5 [sample_text ''a'']" and ?m2 = "message_new Assistant 3 [sample_text ''b'']"
  have c: "get_conversation text_codec ''s'' sample_table =
      Inr [stored ''1'' ''s'' (message_time ''s'' ?m1 empty_table) ?m1,
           stored ''2'' ''s'' (message_time ''s'' ?m2 (add_message text_codec ''1'' ''s'' ?m1 empty_table)) ?m2]"
    by (simp add: sample_table_def get_conversation_add)
  show ?thesis
    using truncation_is_prefix [OF ok c, of "''msg_s_2''"]
    by (simp add: stored_def stored_id_def message_new_def)
qed

theorem replaced_conversation_reloaded_witness:
  "get_conversation text_codec ''s'' (replace_conversation text_codec (\<lambda>_. []) ''s''
     [(message_new User 1 [sample_text ''a''])\<lparr>m_id := Some ''x''\<rparr>] sample_table)
   = Inr [(message_new User 1 [sample_text ''a''])\<lparr>m_id := Some ''x''\<rparr>]"
proof -
  have "codec_reads text_codec ((message_new User 1 [sample_text ''a''])\<lparr>m_id := Some ''x''\<rparr>)"
    using text_codec_reads [of User 1 "''a''"] by (simp add: codec_reads_def)
  then show ?thesis
    by (intro replaced_conversation_reloaded [THEN conjunct2, THEN mp]) auto
qed

end
