(* ===== verification/Message_Encoding.thy ===== *)
theory Message_Encoding
  imports Session_Conversation "HOL-Library.Countable"
begin

section \<open>A codec for every message\<close>

text \<open>
  The properties of the session store rely on the JSON codec reading back what it wrote
  (\<open>codec_reads\<close>). This theory shows that this can hold for all messages at once: the types
  of a message are countable, and the codec that writes the number of a value in unary reads all
  of them back. It stands in for the codec in the witnesses.
\<close>

instance json_number :: countable by countable_datatype
instance json :: countable by countable_datatype
instance role :: countable by countable_datatype

instance annotations_ext :: (countable) countable
  by (rule countable_classI [of "\<lambda>x. to_nat (ann_audience x, ann_rest x, annotations.more x)"]) simp

instance text_content_ext :: (countable) countable
  by (rule countable_classI [of "\<lambda>x. to_nat (tc_text x, tc_annotations x, tc_rest x, text_content.more x)"]) simp

instance image_content_ext :: (countable) countable
  by (rule countable_classI [of "\<lambda>x. to_nat (ic_data x, ic_mime_type x, ic_annotations x, ic_rest x,
        image_content.more x)"]) simp

instance resource_contents :: countable by countable_datatype
instance content_block :: countable by countable_datatype

instance error_data_ext :: (countable) countable
  by (rule countable_classI [of "\<lambda>x. to_nat (ed_code x, ed_message x, ed_data x, error_data.more x)"]) simp

instance call_tool_result_ext :: (countable) countable
  by (rule countable_classI [of "\<lambda>x. to_nat (ctr_content x, ctr_is_error x, ctr_structured x, ctr_rest x,
        call_tool_result.more x)"]) simp

instance call_tool_request_params_ext :: (countable) countable
  by (rule countable_classI [of "\<lambda>x. to_nat (ctp_name x, ctp_arguments x, ctp_rest x,
        call_tool_request_params.more x)"]) simp

instance tool_request_ext :: (countable) countable
  by (rule countable_classI [of "\<lambda>x. to_nat (tr_id x, tr_tool_call x, tr_metadata x, tr_tool_meta x,
        tool_request.more x)"]) simp

instance tool_response_ext :: (countable) countable
  by (rule countable_classI [of "\<lambda>x. to_nat (ts_id x, ts_tool_result x, ts_metadata x, tool_response.more x)"]) simp

instance tool_confirmation_request_ext :: (countable) countable
  by (rule countable_classI [of "\<lambda>x. to_nat (tcr_id x, tcr_tool_name x, tcr_arguments x, tcr_prompt x,
        tool_confirmation_request.more x)"]) simp

instance permission :: countable by countable_datatype
instance elicitation_action :: countable by countable_datatype
instance action_required_data :: countable by countable_datatype

instance thinking_content_ext :: (countable) countable
  by (rule countable_classI [of "\<lambda>x. to_nat (th_thinking x, th_signature x, thinking_content.more x)"]) simp

instance system_notification_type :: countable by countable_datatype

instance system_notification_content_ext :: (countable) countable
  by (rule countable_classI [of "\<lambda>x. to_nat (sn_type x, sn_msg x, sn_data x,
        system_notification_content.more x)"]) simp

instance message_error_kind :: countable by countable_datatype

instance error_content_ext :: (countable) countable
  by (rule countable_classI [of "\<lambda>x. to_nat (ec_kind x, ec_message x, error_content.more x)"]) simp

instance document_content_ext :: (countable) countable
  by (rule countable_classI [of "\<lambda>x. to_nat (dc_data x, dc_mime_type x, dc_name x, document_content.more x)"]) simp

instance message_content_block :: countable by countable_datatype

instance inference_metadata_ext :: (countable) countable
  by (rule countable_classI [of "\<lambda>x. to_nat (im_provider x, im_requested_model x, im_resolved_model x,
        im_provider_session_id x, inference_metadata.more x)"]) simp

instance cost_source :: countable by countable_datatype

instance message_usage_ext :: (countable) countable
  by (rule countable_classI [of "\<lambda>x. to_nat (mu_input_tokens x, mu_output_tokens x, mu_total_tokens x,
        mu_cache_read_tokens x, mu_cache_write_tokens x, mu_cost x, mu_cost_source x, mu_elapsed_ms x,
        mu_time_to_first_token_ms x, mu_is_compaction x, message_usage.more x)"]) simp

instance message_metadata_ext :: (countable) countable
  by (rule countable_classI [of "\<lambda>x. to_nat (md_user_visible x, md_agent_visible x, md_inference x,
        md_output_token_limit_reached x, md_steer x, md_turn_context x, md_usage x, md_operations x,
        message_metadata.more x)"]) simp

definition unary :: "'a :: countable \<Rightarrow> string" where
  "unary x = replicate (to_nat x) CHR ''1''"

definition unary_codec :: message_codec where
  "unary_codec =
     \<lparr>mc_content = unary, mc_parse_content = (\<lambda>s. Inr (from_nat (length s))),
      mc_metadata = unary, mc_parse_metadata = (\<lambda>s. Inr (from_nat (length s)))\<rparr>"

lemma unary_codec_reads [simp]: "codec_reads unary_codec m"
  by (simp add: codec_reads_def unary_codec_def unary_def)

end
