(* ===== verification/Usage_Ledger.thy ===== *)
theory Usage_Ledger
  imports Token_Usage
begin

section \<open>The usage ledger of a session\<close>

text \<open>
  \<open>session_manager.rs\<close>: \<open>record_usage_metrics\<close> adds the tokens of one request to the totals kept in
  the row of the session and inserts a row into the ledger; where the totals are ahead of the
  ledger, as in sessions older than it, a row with the difference is inserted first.
  \<open>get_session_usage_totals\<close> reads the larger of the two accounts. SQL integers are unbounded
  here, since they hold 64 bits and are sums of 32-bit counts; the floating-point arithmetic of
  the cost is a parameter. A \<open>NULL\<close> is \<open>None\<close>.
\<close>

datatype column = CInput | COutput | CTotal | CCacheRead | CCacheWrite

type_synonym counts = "column \<Rightarrow> int option"

record 'f ledger_row =
  lr_session :: string
  lr_model :: "string option"
  lr_tokens :: counts
  lr_cost :: "'f option"
  lr_cost_source :: "string option"
  lr_is_compaction :: bool

record 'f session_row =
  se_schedule :: "string option"
  se_current :: counts
  se_accumulated :: counts
  se_cost :: "'f option"
  se_parent :: "string option"

record 'f cost_ops =
  f_zero :: 'f
  f_add :: "'f \<Rightarrow> 'f \<Rightarrow> 'f"
  f_sub :: "'f \<Rightarrow> 'f \<Rightarrow> 'f"
  f_max :: "'f \<Rightarrow> 'f \<Rightarrow> 'f"
  f_le :: "'f \<Rightarrow> 'f \<Rightarrow> bool"
  f_above :: "'f \<Rightarrow> 'f \<Rightarrow> bool"

text \<open>\<open>f_above a b\<close> is \<open>a > b + 1e-9\<close>.\<close>

record 'f usage_db =
  ub_sessions :: "(string \<times> 'f session_row) list"
  ub_ledger :: "'f ledger_row list"

definition coalesce :: "int option \<Rightarrow> int" where
  "coalesce v = (case v of Some x \<Rightarrow> x | None \<Rightarrow> 0)"

definition session_ledger :: "string \<Rightarrow> 'f usage_db \<Rightarrow> 'f ledger_row list" where
  "session_ledger sid db = filter (\<lambda>r. lr_session r = sid) (ub_ledger db)"

definition ledger_sum :: "string \<Rightarrow> 'f usage_db \<Rightarrow> column \<Rightarrow> int" where
  "ledger_sum sid db col = sum_list (map (\<lambda>r. coalesce (lr_tokens r col)) (session_ledger sid db))"

definition ledger_cost :: "'f cost_ops \<Rightarrow> string \<Rightarrow> 'f usage_db \<Rightarrow> 'f" where
  "ledger_cost fo sid db = fold (\<lambda>r acc. case lr_cost r of Some x \<Rightarrow> f_add fo acc x | None \<Rightarrow> acc)
     (session_ledger sid db) (f_zero fo)"

definition session_row_of :: "string \<Rightarrow> 'f usage_db \<Rightarrow> 'f session_row option" where
  "session_row_of sid db = map_of (ub_sessions db) sid"

definition carry_forward :: "'f cost_ops \<Rightarrow> string \<Rightarrow> 'f usage_db \<Rightarrow> 'f usage_db" where
  "carry_forward fo sid db =
     (case session_row_of sid db of
        None \<Rightarrow> db
      | Some s \<Rightarrow>
          (let acc = (\<lambda>col. coalesce (se_accumulated s col)); cost_sum = ledger_cost fo sid db in
           if acc CInput > ledger_sum sid db CInput \<or> acc COutput > ledger_sum sid db COutput
              \<or> acc CTotal > ledger_sum sid db CTotal
              \<or> f_above fo (case se_cost s of Some c \<Rightarrow> c | None \<Rightarrow> f_zero fo) cost_sum
           then db\<lparr>ub_ledger := ub_ledger db @
             [\<lparr>lr_session = sid, lr_model = None,
               lr_tokens = (\<lambda>col. Some (max (acc col - ledger_sum sid db col) 0)),
               lr_cost = (case se_cost s of
                  None \<Rightarrow> None
                | Some c \<Rightarrow> if f_le fo c cost_sum then None else Some (f_sub fo c cost_sum)),
               lr_cost_source = Some ''carried_forward'', lr_is_compaction = False\<rparr>]\<rparr>
           else db))"

definition column_of :: "message_usage \<Rightarrow> counts" where
  "column_of u col = map_option sint
     (case col of
        CInput \<Rightarrow> mu_input_tokens u | COutput \<Rightarrow> mu_output_tokens u | CTotal \<Rightarrow> mu_total_tokens u
      | CCacheRead \<Rightarrow> mu_cache_read_tokens u | CCacheWrite \<Rightarrow> mu_cache_write_tokens u)"

definition usage_column :: "usage \<Rightarrow> counts" where
  "usage_column u col = map_option sint
     (case col of
        CInput \<Rightarrow> u_input_tokens u | COutput \<Rightarrow> u_output_tokens u | CTotal \<Rightarrow> u_total_tokens u
      | CCacheRead \<Rightarrow> u_cache_read_input_tokens u | CCacheWrite \<Rightarrow> u_cache_write_input_tokens u)"

definition update_session_usage ::
    "'f cost_ops \<Rightarrow> string \<Rightarrow> string option \<Rightarrow> usage \<Rightarrow> message_usage \<Rightarrow> 'f option \<Rightarrow> 'f usage_db
       \<Rightarrow> 'f usage_db" where
  "update_session_usage fo sid sched current ledger cost db =
     db\<lparr>ub_sessions := map (\<lambda>(i, s). (i, if i = sid
        then s\<lparr>se_schedule := sched, se_current := usage_column current,
               se_accumulated := (\<lambda>col. Some (coalesce (se_accumulated s col) + coalesce (column_of ledger col))),
               se_cost := (case cost of
                  None \<Rightarrow> se_cost s
                | Some c \<Rightarrow> Some (f_add fo (case se_cost s of Some x \<Rightarrow> x | None \<Rightarrow> f_zero fo) c))\<rparr>
        else s)) (ub_sessions db)\<rparr>"

definition show_cost_source :: "cost_source \<Rightarrow> string" where
  "show_cost_source cs = (case cs of ProviderReported \<Rightarrow> ''provider_reported'' | Estimated \<Rightarrow> ''estimated'')"

definition insert_usage_ledger_row ::
    "string \<Rightarrow> string option \<Rightarrow> message_usage \<Rightarrow> 'f option \<Rightarrow> 'f usage_db \<Rightarrow> 'f usage_db" where
  "insert_usage_ledger_row sid model u cost db =
     db\<lparr>ub_ledger := ub_ledger db @
       [\<lparr>lr_session = sid, lr_model = model, lr_tokens = column_of u, lr_cost = cost,
         lr_cost_source = map_option show_cost_source (mu_cost_source u),
         lr_is_compaction = mu_is_compaction u\<rparr>]\<rparr>"

text \<open>The cost of a request is its bit pattern in the message; \<open>cost\<close> is the number it denotes.\<close>

definition record_usage_metrics ::
    "'f cost_ops \<Rightarrow> (f64_bits \<Rightarrow> 'f) \<Rightarrow> string \<Rightarrow> string option \<Rightarrow> usage \<Rightarrow> string \<Rightarrow> message_usage
       \<Rightarrow> 'f usage_db \<Rightarrow> 'f usage_db" where
  "record_usage_metrics fo of_bits sid sched current model ledger db =
     (let cost = map_option of_bits (mu_cost ledger) in
      insert_usage_ledger_row sid (Some model) ledger cost
        (update_session_usage fo sid sched current ledger cost (carry_forward fo sid db)))"

definition larger :: "int option \<Rightarrow> int option \<Rightarrow> int" where
  "larger acc l = max (coalesce acc) (coalesce l)"

text \<open>The recursive query: the session and, again and again, the sessions whose parent is in.\<close>

definition with_children :: "'f usage_db \<Rightarrow> string set \<Rightarrow> string set" where
  "with_children db ids = ids \<union> set (map fst (filter
     (\<lambda>(_, s). case se_parent s of Some p \<Rightarrow> p \<in> ids | None \<Rightarrow> False) (ub_sessions db)))"

fun session_tree :: "nat \<Rightarrow> 'f usage_db \<Rightarrow> string set \<Rightarrow> string set" where
  "session_tree 0 db ids = ids"
| "session_tree (Suc n) db ids = session_tree n db (with_children db ids)"

definition clamp_i32 :: "int \<Rightarrow> i32" where
  "clamp_i32 v = (if - (2 ^ 31) \<le> v \<and> v \<le> 2 ^ 31 - 1 then word_of_int v else word_of_int (2 ^ 31 - 1))"

definition account :: "string \<Rightarrow> 'f session_row \<Rightarrow> 'f usage_db \<Rightarrow> column \<Rightarrow> int" where
  "account sid s db col =
     larger (se_accumulated s col)
       (if session_ledger sid db = [] then None else Some (ledger_sum sid db col))"

definition tree_sessions :: "string \<Rightarrow> 'f usage_db \<Rightarrow> (string \<times> 'f session_row) list" where
  "tree_sessions sid db =
     (let tree = session_tree (length (ub_sessions db)) db
            (if sid \<in> fst ` set (ub_sessions db) then {sid} else {}) in
      filter (\<lambda>(i, _). i \<in> tree) (ub_sessions db))"

definition session_accounts :: "string \<Rightarrow> 'f usage_db \<Rightarrow> column \<Rightarrow> int" where
  "session_accounts sid db col = sum_list (map (\<lambda>(i, s). account i s db col) (tree_sessions sid db))"

definition reported_cost :: "'f cost_ops \<Rightarrow> string \<Rightarrow> 'f usage_db \<Rightarrow> 'f option" where
  "reported_cost fo sid db =
     (if list_all (\<lambda>r. lr_cost r = None) (session_ledger sid db) then None
      else Some (ledger_cost fo sid db))"

definition add_session_cost ::
    "'f cost_ops \<Rightarrow> 'f usage_db \<Rightarrow> string \<times> 'f session_row \<Rightarrow> 'f option \<Rightarrow> 'f option" where
  "add_session_cost fo db = (\<lambda>(i, s) cost.
     let l_cost = reported_cost fo i db; or_zero = case_option (f_zero fo) (\<lambda>x. x) in
     if se_cost s \<noteq> None \<or> l_cost \<noteq> None
     then Some (f_add fo (or_zero cost) (f_max fo (or_zero (se_cost s)) (or_zero l_cost)))
     else cost)"

record 'f session_usage_totals =
  accumulated_usage :: usage
  accumulated_cost :: "'f option"

definition get_session_usage_totals :: "'f cost_ops \<Rightarrow> string \<Rightarrow> 'f usage_db \<Rightarrow> 'f session_usage_totals" where
  "get_session_usage_totals fo sid db =
     (let opt = (\<lambda>col. Some (clamp_i32 (session_accounts sid db col))) in
      \<lparr>accumulated_usage = with_cache_tokens (opt CCacheRead) (opt CCacheWrite)
         (usage_new (opt CInput) (opt COutput) (opt CTotal)),
       accumulated_cost = fold (add_session_cost fo db) (tree_sessions sid db) None\<rparr>)"

subsection \<open>The two accounts\<close>

lemma coalesce_simps [simp]: "coalesce None = 0" "coalesce (Some x) = x"
  by (simp_all add: coalesce_def)

lemma session_ledger_append:
  "session_ledger sid (db\<lparr>ub_ledger := ub_ledger db @ rows\<rparr>) =
     session_ledger sid db @ filter (\<lambda>r. lr_session r = sid) rows"
  by (simp add: session_ledger_def)

lemma account_eq: "account sid s db col = max (coalesce (se_accumulated s col)) (ledger_sum sid db col)"
  if "session_ledger sid db \<noteq> [] \<or> coalesce (se_accumulated s col) \<ge> 0"
  using that by (auto simp: account_def larger_def ledger_sum_def)

lemma carry_forward_sum:
  assumes "session_row_of sid db = Some s"
  shows "max (coalesce (se_accumulated s col)) (ledger_sum sid (carry_forward fo sid db) col)
    = max (coalesce (se_accumulated s col)) (ledger_sum sid db col)"
  using assms
  by (auto simp: carry_forward_def ledger_sum_def session_ledger_append Let_def max_def)

lemma carry_forward_sessions [simp]: "ub_sessions (carry_forward fo sid db) = ub_sessions db"
  by (simp add: carry_forward_def Let_def split: option.split)

lemma ledger_sum_insert:
  "ledger_sum sid (insert_usage_ledger_row sid' model u cost db) col =
     ledger_sum sid db col + (if sid' = sid then coalesce (column_of u col) else 0)"
  by (simp add: ledger_sum_def insert_usage_ledger_row_def session_ledger_append)

lemma ledger_update_session [simp]:
  "session_ledger sid (update_session_usage fo sid' sched current u cost db) = session_ledger sid db"
  by (simp add: session_ledger_def update_session_usage_def)

lemma map_of_map_value: "map_of (map (\<lambda>(i, s). (i, f i s)) xs) k = map_option (f k) (map_of xs k)"
  by (induction xs) auto

text \<open>Recording a request raises the account of its session by
  exactly the tokens the request reports, in every column, whether or not the totals were ahead
  of the ledger before; the account of every other session stays the same.\<close>

lemma recorded_usage_counted_once:
  fixes db :: "'f usage_db"
  assumes "session_row_of sid db = Some s" and "coalesce (se_accumulated s col) \<ge> 0"
    and db': "db' = record_usage_metrics fo of_bits sid sched current model u db"
  shows "\<exists>s'. session_row_of sid db' = Some s'
    \<and> account sid s' db' col = account sid s db col + coalesce (column_of u col)
    \<and> (\<forall>sid2 s2. sid2 \<noteq> sid \<longrightarrow> session_row_of sid2 db' = session_row_of sid2 db
         \<and> account sid2 s2 db' col = account sid2 s2 db col)"
proof -
  let ?db1 = "carry_forward fo sid db"
  let ?c = "coalesce (column_of u col)"
  obtain s' where s': "session_row_of sid db' = Some s'"
    "se_accumulated s' = (\<lambda>col. Some (coalesce (se_accumulated s col) + coalesce (column_of u col)))"
    using assms(1)
    by (simp add: db' record_usage_metrics_def insert_usage_ledger_row_def update_session_usage_def Let_def
        session_row_of_def map_of_map_value)
  have sum': "ledger_sum sid db' col = ledger_sum sid ?db1 col + ?c"
    unfolding db' record_usage_metrics_def Let_def ledger_sum_insert
    by (simp add: ledger_sum_def)
  have "session_ledger sid db' \<noteq> []"
    by (simp add: db' record_usage_metrics_def insert_usage_ledger_row_def Let_def session_ledger_append)
  then have "account sid s' db' col = max (coalesce (se_accumulated s col)) (ledger_sum sid ?db1 col) + ?c"
    by (subst account_eq) (auto simp: s' sum' max_def)
  also have "\<dots> = account sid s db col + ?c"
    using assms(1,2) by (simp add: carry_forward_sum account_eq)
  finally have here: "account sid s' db' col = account sid s db col + ?c" .
  have others: "session_ledger sid2 db' = session_ledger sid2 db" if "sid2 \<noteq> sid" for sid2
    using that
    by (auto simp: db' record_usage_metrics_def insert_usage_ledger_row_def Let_def session_ledger_append
        carry_forward_def split: option.splits)
  have "session_row_of sid2 db' = session_row_of sid2 db
      \<and> account sid2 s2 db' col = account sid2 s2 db col" if "sid2 \<noteq> sid" for sid2 s2
    using that others [OF that]
    by (simp add: account_def ledger_sum_def db' record_usage_metrics_def insert_usage_ledger_row_def Let_def
        update_session_usage_def session_row_of_def map_of_map_value option.map_ident)
  with s' here show ?thesis by blast
qed

definition sample_ops :: "int cost_ops" where
  "sample_ops = \<lparr>f_zero = 0, f_add = (+), f_sub = (-), f_max = max, f_le = (\<le>), f_above = (>)\<rparr>"

definition sample_session_row :: "int session_row" where
  "sample_session_row = \<lparr>se_schedule = None, se_current = (\<lambda>_. None), se_accumulated = (\<lambda>_. Some 10),
     se_cost = None, se_parent = None\<rparr>"

definition sample_usage_db :: "int usage_db" where
  "sample_usage_db = \<lparr>ub_sessions = [(''s'', sample_session_row)], ub_ledger = []\<rparr>"

definition sample_report :: message_usage where
  "sample_report = from_provider_usage (provider_usage_new ''m'' (usage_new (Some 5) (Some 2) None)) False"

lemma recorded_usage_counted_once_example:
  "\<exists>s'. session_row_of ''s'' (record_usage_metrics sample_ops (\<lambda>_. 0) ''s'' None (usage_new None None None)
       ''m'' sample_report sample_usage_db) = Some s'
   \<and> account ''s'' s' (record_usage_metrics sample_ops (\<lambda>_. 0) ''s'' None (usage_new None None None)
       ''m'' sample_report sample_usage_db) CInput = 15"
proof -
  have "session_row_of ''s'' sample_usage_db = Some sample_session_row"
    by (simp add: session_row_of_def sample_usage_db_def)
  moreover have "coalesce (se_accumulated sample_session_row CInput) \<ge> 0"
    by (simp add: sample_session_row_def)
  moreover have "account ''s'' sample_session_row sample_usage_db CInput = 10"
    by (simp add: account_def larger_def sample_usage_db_def session_ledger_def sample_session_row_def)
  moreover have "coalesce (column_of sample_report CInput) = 5"
    by (simp add: sample_report_def column_of_def from_provider_usage_def provider_usage_new_def
        usage_new_def Let_def)
  ultimately show ?thesis
    using recorded_usage_counted_once [OF _ _ refl, of "''s''" sample_usage_db sample_session_row CInput
        sample_ops "\<lambda>_. 0" None "usage_new None None None" "''m''" sample_report]
    by auto
qed

subsection \<open>The sessions of a tree\<close>

definition parent_of :: "'f usage_db \<Rightarrow> (string \<times> string) set" where
  "parent_of db = {(p, i). \<exists>s. (i, s) \<in> set (ub_sessions db) \<and> se_parent s = Some p}"

lemma with_children_eq: "with_children db ids = ids \<union> parent_of db `` ids"
  by (force simp: with_children_def parent_of_def split: option.splits)

lemma with_children_bound:
  "ids \<subseteq> fst ` set (ub_sessions db) \<Longrightarrow> with_children db ids \<subseteq> fst ` set (ub_sessions db)"
  by (force simp: with_children_def)

lemma session_tree_fixed: "with_children db ids = ids \<Longrightarrow> session_tree n db ids = ids"
  by (induction n) simp_all

lemma session_tree_closed:
  "ids \<subseteq> fst ` set (ub_sessions db) \<Longrightarrow> card (fst ` set (ub_sessions db)) \<le> card ids + n \<Longrightarrow>
     with_children db (session_tree n db ids) = session_tree n db ids"
proof (induction n arbitrary: ids)
  case 0
  then have "ids = fst ` set (ub_sessions db)" by (intro card_seteq) auto
  with with_children_bound [OF 0(1)] show ?case by (auto simp: with_children_def)
next
  case (Suc n)
  show ?case
  proof (cases "with_children db ids = ids")
    case True
    then show ?thesis by (simp add: session_tree_fixed)
  next
    case False
    then have "ids \<subset> with_children db ids" by (auto simp: with_children_def)
    moreover have "finite (with_children db ids)"
      using with_children_bound [OF Suc.prems(1)] finite_subset by blast
    ultimately have "card ids < card (with_children db ids)" by (rule psubset_card_mono [rotated])
    with Suc show ?thesis by (simp add: with_children_bound)
  qed
qed

lemma session_tree_sound: "session_tree n db ids \<subseteq> (parent_of db)\<^sup>* `` ids"
proof (induction n arbitrary: ids)
  case (Suc n)
  have "(parent_of db)\<^sup>* `` with_children db ids \<subseteq> (parent_of db)\<^sup>* `` ids"
    by (auto simp: with_children_eq intro: converse_rtrancl_into_rtrancl)
  with Suc [of "with_children db ids"] show ?case by auto
qed auto

lemma session_tree_extends: "ids \<subseteq> session_tree n db ids"
proof (induction n arbitrary: ids)
  case (Suc n)
  then have "with_children db ids \<subseteq> session_tree n db (with_children db ids)" .
  then show ?case by (auto simp: with_children_def)
qed simp

text \<open>Claim C20 (usage_tree_complete): the sessions whose usage is added up for a session are exactly the
  session and its descendants, however deep the tree is and also when the parents form a cycle:
  as many rounds as there are sessions reach them all.\<close>

theorem usage_tree_complete:
  assumes "sid \<in> fst ` set (ub_sessions db)"
  shows "session_tree (length (ub_sessions db)) db {sid} = (parent_of db)\<^sup>* `` {sid}"
proof
  let ?t = "session_tree (length (ub_sessions db)) db {sid}"
  have "card (fst ` set (ub_sessions db)) \<le> length (ub_sessions db)"
    using card_length [of "map fst (ub_sessions db)"] by simp
  then have closed: "with_children db ?t = ?t"
    using assms by (intro session_tree_closed) auto
  have "i \<in> ?t" if "(sid, i) \<in> (parent_of db)\<^sup>*" for i
    using that
  proof (induction rule: rtrancl_induct)
    case base
    then show ?case using session_tree_extends by blast
  next
    case (step a b)
    then have "b \<in> with_children db ?t" by (auto simp: with_children_eq)
    then show ?case by (simp add: closed)
  qed
  then show "(parent_of db)\<^sup>* `` {sid} \<subseteq> ?t" by auto
qed (rule session_tree_sound)

theorem usage_tree_complete_witness:
  "session_tree 1 sample_usage_db {''s''} = {''s''}"
proof -
  have "parent_of sample_usage_db = {}"
    by (simp add: parent_of_def sample_usage_db_def sample_session_row_def)
  with usage_tree_complete [of "''s''" sample_usage_db] show ?thesis
    by (simp add: sample_usage_db_def del: session_tree.simps)
qed

end
