(* ===== verification/Hooks.thy ===== *)
theory Hooks
  imports Agent_Operation
begin

section \<open>Policy hooks\<close>

text \<open>
  \<open>crates/goose/src/hooks/mod.rs\<close>: the hooks a plugin registers for events of the agent, how a
  rule file is loaded, which actions an event triggers, and how the runs of the hooks of a
  blocking event decide whether it may go on. Running a command is an action of the environment
  (\<open>hook_runner\<close>: it fails, or ends with an exit code and its output); the typed readers of JSON,
  the serializer and the regular expressions are parameters (\<open>hook_codec\<close>).
\<close>

subsection \<open>Lossy decoding of bytes\<close>

text \<open>
  \<open>String::from_utf8_lossy\<close> reads the bytes character by character; where no character starts,
  the longest start of one is replaced by \<open>U+FFFD\<close>. \<open>utf8_chunk\<close> is the number of bytes read and
  whether they are a character.
\<close>

definition utf8_second :: "char \<Rightarrow> char \<Rightarrow> bool" where
  "utf8_second a b =
     (if a = CHR 0xE0 then utf8_between 0xA0 0xBF b
      else if a = CHR 0xED then utf8_between 0x80 0x9F b
      else if a = CHR 0xF0 then utf8_between 0x90 0xBF b
      else if a = CHR 0xF4 then utf8_between 0x80 0x8F b
      else utf8_cont b)"

fun utf8_chunk :: "string \<Rightarrow> bool \<times> nat" where
  "utf8_chunk [] = (False, 0)"
| "utf8_chunk (a # s) =
     (if utf8_between 0 0x7F a then (True, 1)
      else if \<not> utf8_between 0xC2 0xF4 a then (False, 1)
      else (case s of
        [] \<Rightarrow> (False, 1)
      | b # s2 \<Rightarrow>
          if \<not> utf8_second a b then (False, 1)
          else if utf8_between 0xC2 0xDF a then (True, 2)
          else (case s2 of
            [] \<Rightarrow> (False, 2)
          | c # s3 \<Rightarrow>
              if \<not> utf8_cont c then (False, 2)
              else if utf8_between 0xE0 0xEF a then (True, 3)
              else (case s3 of
                [] \<Rightarrow> (False, 3)
              | d # s4 \<Rightarrow> if utf8_cont d then (True, 4) else (False, 3)))))"

lemma utf8_chunk_pos: "s \<noteq> [] \<Longrightarrow> 0 < snd (utf8_chunk s)"
  by (cases s) (simp_all split: list.split)

function from_utf8_lossy :: "string \<Rightarrow> string" where
  "from_utf8_lossy s =
     (if s = [] then []
      else (let (valid, n) = utf8_chunk s in
            (if valid then take n s else [CHR 0xEF, CHR 0xBF, CHR 0xBD]) @ from_utf8_lossy (drop n s)))"
  by auto
termination
proof (relation "measure length")
  fix s :: string and x valid n
  assume "s \<noteq> []" and "x = utf8_chunk s" and "(valid, n) = x"
  then have "0 < n" using utf8_chunk_pos [of s] by (metis snd_conv)
  with \<open>s \<noteq> []\<close> show "(drop n s, s) \<in> measure length" by simp
qed simp

declare from_utf8_lossy.simps [simp del]

subsection \<open>Events, rules and contexts\<close>

datatype hook_event =
    PreToolUse
  | PreToolUseResult
  | PostToolUse
  | PostToolUseFailure
  | SessionStart
  | SessionEnd
  | UserPromptSubmit
  | BeforeReadFile
  | AfterFileEdit
  | BeforeShellExecution
  | AfterShellExecution
  | Stop

definition hook_event_from_name :: "string \<Rightarrow> hook_event option" where
  "hook_event_from_name name = map_of
     [(''PreToolUse'', PreToolUse), (''PreToolUseResult'', PreToolUseResult),
      (''PostToolUse'', PostToolUse), (''PostToolUseFailure'', PostToolUseFailure),
      (''SessionStart'', SessionStart), (''SessionEnd'', SessionEnd),
      (''UserPromptSubmit'', UserPromptSubmit), (''BeforeReadFile'', BeforeReadFile),
      (''AfterFileEdit'', AfterFileEdit), (''BeforeShellExecution'', BeforeShellExecution),
      (''AfterShellExecution'', AfterShellExecution), (''Stop'', Stop)] name"

fun hook_event_name :: "hook_event \<Rightarrow> string" where
  "hook_event_name PreToolUse = ''PreToolUse''"
| "hook_event_name PreToolUseResult = ''PreToolUseResult''"
| "hook_event_name PostToolUse = ''PostToolUse''"
| "hook_event_name PostToolUseFailure = ''PostToolUseFailure''"
| "hook_event_name SessionStart = ''SessionStart''"
| "hook_event_name SessionEnd = ''SessionEnd''"
| "hook_event_name UserPromptSubmit = ''UserPromptSubmit''"
| "hook_event_name BeforeReadFile = ''BeforeReadFile''"
| "hook_event_name AfterFileEdit = ''AfterFileEdit''"
| "hook_event_name BeforeShellExecution = ''BeforeShellExecution''"
| "hook_event_name AfterShellExecution = ''AfterShellExecution''"
| "hook_event_name Stop = ''Stop''"

datatype on_failure = FailAllow | FailBlock

record loaded_action =
  la_command :: string
  la_timeout :: u64
  la_on_failure :: on_failure

record loaded_rule =
  lu_plugin_name :: string
  lu_plugin_root :: string
  lu_matcher :: "(string \<Rightarrow> bool) option"
  lu_actions :: "loaded_action list"

record hook_context =
  hc_event :: string
  hc_session_id :: string
  hc_matcher_context :: "string option"
  hc_tool_call_id :: "string option"
  hc_tool_name :: "string option"
  hc_tool_input :: "json option"
  hc_tool_output :: "json option"
  hc_message :: "string option"
  hc_last_assistant_message :: "string option"
  hc_working_dir :: "string option"
  hc_decision :: "string option"
  hc_policy_evaluated :: "bool option"
  hc_blocked_by :: "string option"
  hc_reason :: "string option"

definition hook_context_new :: "hook_event \<Rightarrow> string \<Rightarrow> hook_context" where
  "hook_context_new ev sid =
     \<lparr>hc_event = hook_event_name ev, hc_session_id = sid, hc_matcher_context = None,
      hc_tool_call_id = None, hc_tool_name = None, hc_tool_input = None, hc_tool_output = None,
      hc_message = None, hc_last_assistant_message = None, hc_working_dir = None,
      hc_decision = None, hc_policy_evaluated = None, hc_blocked_by = None, hc_reason = None\<rparr>"

definition hook_with_tool :: "string \<Rightarrow> json option \<Rightarrow> hook_context \<Rightarrow> hook_context" where
  "hook_with_tool name input c =
     c\<lparr>hc_matcher_context := Some name, hc_tool_name := Some name, hc_tool_input := input\<rparr>"

definition hook_with_message :: "string \<Rightarrow> hook_context \<Rightarrow> hook_context" where
  "hook_with_message msg c =
     c\<lparr>hc_matcher_context := (case hc_matcher_context c of Some m \<Rightarrow> Some m | None \<Rightarrow> Some msg),
       hc_message := Some msg\<rparr>"

definition hook_with_last_assistant_message :: "string \<Rightarrow> hook_context \<Rightarrow> hook_context" where
  "hook_with_last_assistant_message msg c =
     (if msg = [] then c else c\<lparr>hc_last_assistant_message := Some msg\<rparr>)"

definition hook_with_working_dir :: "string \<Rightarrow> hook_context \<Rightarrow> hook_context" where
  "hook_with_working_dir dir c = c\<lparr>hc_working_dir := Some dir\<rparr>"

definition hook_with_tool_call_id :: "string \<Rightarrow> hook_context \<Rightarrow> hook_context" where
  "hook_with_tool_call_id i c = c\<lparr>hc_tool_call_id := Some i\<rparr>"

datatype hook_decision = HookAllow | HookDeny string string

datatype hook_outcome_cause = PolicyDenial | HookFailed

record hook_chain_outcome =
  ho_decision :: hook_decision
  ho_policy_evaluated :: bool
  ho_cause :: "hook_outcome_cause option"

definition outcome_allow :: "bool \<Rightarrow> hook_chain_outcome" where
  "outcome_allow evaluated = \<lparr>ho_decision = HookAllow, ho_policy_evaluated = evaluated, ho_cause = None\<rparr>"

definition cause_as_str :: "hook_outcome_cause \<Rightarrow> string" where
  "cause_as_str c = (case c of PolicyDenial \<Rightarrow> ''policy_denial'' | HookFailed \<Rightarrow> ''hook_failure'')"

text \<open>The payload of \<open>PreToolUseResult\<close> is the context and the cause.\<close>

definition with_pre_tool_use_outcome :: "hook_chain_outcome \<Rightarrow> hook_context \<Rightarrow> hook_context \<times> string option" where
  "with_pre_tool_use_outcome out c =
     (let c1 = c\<lparr>hc_policy_evaluated := Some (ho_policy_evaluated out)\<rparr> in
      (case ho_decision out of
         HookAllow \<Rightarrow> c1\<lparr>hc_decision := Some ''allow''\<rparr>
       | HookDeny reason plugin \<Rightarrow>
           c1\<lparr>hc_decision := Some ''deny'', hc_blocked_by := Some plugin, hc_reason := Some reason\<rparr>,
       map_option cause_as_str (ho_cause out)))"

text \<open>The message of a denial, as it is shown to the model.\<close>

definition outcome_denial :: "hook_chain_outcome \<Rightarrow> string option" where
  "outcome_denial out =
     (case ho_decision out of
        HookAllow \<Rightarrow> None
      | HookDeny reason plugin \<Rightarrow>
          Some (if ho_cause out = Some HookFailed
                then ''Tool call blocked because policy hook `'' @ plugin @ ''` could not complete: ''
                  @ reason @ ''. That hook is configured to block on failure.''
                else ''Tool call denied by policy hook `'' @ plugin @ ''`: '' @ reason
                  @ ''. Do not retry; this is a policy denial, not a transient failure.''))"

subsection \<open>Loading\<close>

record raw_hook_rule =
  rr_matcher :: "string option"
  rr_hooks :: "json list"

record raw_command_action =
  rca_command :: string
  rca_timeout :: "u64 option"
  rca_on_failure :: "json option"

record hook_codec =
  hk_parse_file :: "string \<Rightarrow> (string \<times> json) list option"
  hk_parse_rules :: "json \<Rightarrow> raw_hook_rule list option"
  hk_parse_action :: "json \<Rightarrow> raw_command_action option"
  hk_parse_on_failure :: "json \<Rightarrow> on_failure option"
  hk_regex :: "string \<Rightarrow> (string \<Rightarrow> bool) option"
  hk_serialize :: "hook_context \<Rightarrow> string option"
  hk_serialize_result :: "hook_context \<times> string option \<Rightarrow> string option"
  hk_parse_resp :: "string \<Rightarrow> (string option \<times> string option) option"
  hk_parse_banner :: "string \<Rightarrow> string option option"

datatype action_selection = Selected | Ignored

definition select_action :: "json \<Rightarrow> anyhow + action_selection" where
  "select_action action =
     (case action of
        JObject obj \<Rightarrow>
          (let command = (case map_of obj ''command'' of
               None \<Rightarrow> Inr Ignored
             | Some JNull \<Rightarrow> Inr Ignored
             | Some (JString _) \<Rightarrow> Inr Selected
             | Some _ \<Rightarrow> Inl ''hook action `command` must be a string'') in
           case map_of obj ''type'' of
             None \<Rightarrow> command
           | Some JNull \<Rightarrow> command
           | Some (JString t) \<Rightarrow> if t = ''command'' then command else Inr Ignored
           | Some _ \<Rightarrow> Inl ''hook action `type` must be a string'')
      | _ \<Rightarrow> Inl ''hook action must be an object'')"

fun selected_actions :: "hook_codec \<Rightarrow> json list \<Rightarrow> anyhow + raw_command_action list" where
  "selected_actions hk [] = Inr []"
| "selected_actions hk (v # vs) =
     (case select_action v of
        Inl e \<Rightarrow> Inl e
      | Inr Ignored \<Rightarrow> selected_actions hk vs
      | Inr Selected \<Rightarrow>
          (case hk_parse_action hk v of
             None \<Rightarrow> Inl ''reading hook action''
           | Some a \<Rightarrow> (case selected_actions hk vs of Inl e \<Rightarrow> Inl e | Inr as \<Rightarrow> Inr (a # as))))"

definition DEFAULT_HOOK_TIMEOUT_SECS :: u64 where "DEFAULT_HOOK_TIMEOUT_SECS = 30"

definition loaded_on_failure :: "hook_codec \<Rightarrow> hook_event \<Rightarrow> json option \<Rightarrow> anyhow + on_failure" where
  "loaded_on_failure hk ev v =
     (if ev = PreToolUse
      then (case v of
              None \<Rightarrow> Inr FailAllow
            | Some j \<Rightarrow> (case hk_parse_on_failure hk j of
                None \<Rightarrow> Inl ''reading on_failure'' | Some f \<Rightarrow> Inr f))
      else Inr FailAllow)"

fun load_actions :: "hook_codec \<Rightarrow> hook_event \<Rightarrow> raw_command_action list \<Rightarrow> anyhow + loaded_action list" where
  "load_actions hk ev [] = Inr []"
| "load_actions hk ev (a # as) =
     (case loaded_on_failure hk ev (rca_on_failure a) of
        Inl e \<Rightarrow> Inl e
      | Inr f \<Rightarrow>
          (case load_actions hk ev as of
             Inl e \<Rightarrow> Inl e
           | Inr las \<Rightarrow>
               Inr (\<lparr>la_command = rca_command a,
                     la_timeout = (case rca_timeout a of Some t \<Rightarrow> t | None \<Rightarrow> DEFAULT_HOOK_TIMEOUT_SECS),
                     la_on_failure = f\<rparr> # las)))"

text \<open>One rule: an error, no rule (its matcher does not compile, or it has no action), or the rule.\<close>

definition load_rule ::
    "hook_codec \<Rightarrow> string \<Rightarrow> string \<Rightarrow> hook_event \<Rightarrow> raw_hook_rule \<Rightarrow> anyhow + loaded_rule option" where
  "load_rule hk plugin root ev raw =
     (case selected_actions hk (rr_hooks raw) of
        Inl e \<Rightarrow> Inl e
      | Inr selected \<Rightarrow>
          (let matcher = (case rr_matcher raw of
               None \<Rightarrow> Some None
             | Some p \<Rightarrow> if p = [] then Some None else map_option Some (hk_regex hk p)) in
           case matcher of
             None \<Rightarrow> Inr None
           | Some m \<Rightarrow>
               (case load_actions hk ev selected of
                  Inl e \<Rightarrow> Inl e
                | Inr actions \<Rightarrow>
                    if actions = [] then Inr None
                    else Inr (Some \<lparr>lu_plugin_name = plugin, lu_plugin_root = root,
                           lu_matcher = m, lu_actions = actions\<rparr>))))"

fun load_rules ::
    "hook_codec \<Rightarrow> string \<Rightarrow> string \<Rightarrow> hook_event \<Rightarrow> raw_hook_rule list \<Rightarrow> anyhow + loaded_rule list" where
  "load_rules hk plugin root ev [] = Inr []"
| "load_rules hk plugin root ev (raw # raws) =
     (case load_rule hk plugin root ev raw of
        Inl e \<Rightarrow> Inl e
      | Inr r \<Rightarrow>
          (case load_rules hk plugin root ev raws of
             Inl e \<Rightarrow> Inl e
           | Inr rs \<Rightarrow> Inr (case r of None \<Rightarrow> rs | Some rule \<Rightarrow> rule # rs)))"

type_synonym hook_rules = "hook_event \<Rightarrow> loaded_rule list"

fun load_events ::
    "hook_codec \<Rightarrow> string \<Rightarrow> string \<Rightarrow> (string \<times> json) list \<Rightarrow> hook_rules \<Rightarrow> anyhow + hook_rules" where
  "load_events hk plugin root [] out = Inr out"
| "load_events hk plugin root ((name, payload) # rest) out =
     (case hook_event_from_name name of
        None \<Rightarrow> load_events hk plugin root rest out
      | Some ev \<Rightarrow>
          (case hk_parse_rules hk payload of
             None \<Rightarrow> Inl ''reading rules''
           | Some raws \<Rightarrow>
               (case load_rules hk plugin root ev raws of
                  Inl e \<Rightarrow> Inl e
                | Inr rules \<Rightarrow> load_events hk plugin root rest (out(ev := out ev @ rules)))))"

text \<open>\<open>text\<close> is the content of the file, absent when it cannot be read.\<close>

definition load_hooks_file ::
    "hook_codec \<Rightarrow> string \<Rightarrow> string \<Rightarrow> string option \<Rightarrow> anyhow + hook_rules" where
  "load_hooks_file hk plugin root content =
     (case content of
        None \<Rightarrow> Inl ''reading the hooks file''
      | Some t \<Rightarrow>
          (case hk_parse_file hk t of
             None \<Rightarrow> Inl ''parsing the hooks file''
           | Some entries \<Rightarrow> load_events hk plugin root entries (\<lambda>_. [])))"

text \<open>A plugin: its name, its root, and its hooks file where it has one.\<close>

record discovered_plugin =
  dp_name :: string
  dp_root :: string
  dp_hooks_file :: "string option option"

definition hooks_from_plugins :: "hook_codec \<Rightarrow> discovered_plugin list \<Rightarrow> hook_rules" where
  "hooks_from_plugins hk plugins =
     fold (\<lambda>p rules.
       case dp_hooks_file p of
         None \<Rightarrow> rules
       | Some content \<Rightarrow>
           (case load_hooks_file hk (dp_name p) (dp_root p) content of
              Inl _ \<Rightarrow> rules
            | Inr loaded \<Rightarrow> (\<lambda>ev. rules ev @ loaded ev))) plugins (\<lambda>_. [])"

definition has_hooks :: "hook_rules \<Rightarrow> hook_event \<Rightarrow> bool" where
  "has_hooks rules ev \<longleftrightarrow> rules ev \<noteq> []"

subsection \<open>Runs and verdicts\<close>

record hook_run =
  hr_code :: "int option"
  hr_stdout :: string
  hr_stderr :: string
  hr_stdin_delivered :: bool

type_synonym 'w hook_runner =
  "hook_event \<Rightarrow> loaded_rule \<Rightarrow> loaded_action \<Rightarrow> string \<Rightarrow> 'w \<Rightarrow> (anyhow + hook_run) \<times> 'w"

datatype hook_verdict = VAllow | VPolicyDeny string | VHookFailure string

datatype chain_step = Allowed | Denied string hook_outcome_cause | FailedOpen string

definition DEFAULT_DENY :: string where "DEFAULT_DENY = ''denied by plugin hook''"

definition non_empty_reason :: "string \<Rightarrow> string" where
  "non_empty_reason s = (if s = [] then DEFAULT_DENY else s)"

text \<open>The decision and the reason printed on the output.\<close>

definition printed_response :: "hook_codec \<Rightarrow> string \<Rightarrow> string option \<times> string option" where
  "printed_response hk trimmed =
     (case (if starts_with ''{'' trimmed then hk_parse_resp hk trimmed else None) of
        Some resp \<Rightarrow> resp | None \<Rightarrow> (None, None))"

definition show_int :: "int \<Rightarrow> string" where
  "show_int i = (if i < 0 then ''-'' @ show_nat (nat (- i)) else show_nat (nat i))"

definition classify_output :: "hook_codec \<Rightarrow> hook_run \<Rightarrow> hook_verdict" where
  "classify_output hk r =
     (if hr_code r = Some 2
      then VPolicyDeny (non_empty_reason (trim (from_utf8_lossy (hr_stderr r))))
      else if \<not> utf8_valid (hr_stdout r)
      then VHookFailure ''the hook wrote invalid UTF-8 to stdout''
      else
        (let trimmed = trim (hr_stdout r); (decision, reason) = printed_response hk trimmed in
         if decision = Some ''block''
         then VPolicyDeny (non_empty_reason (case reason of Some s \<Rightarrow> s | None \<Rightarrow> []))
         else if hr_code r = Some 0 \<and> (trimmed = [] \<or> decision = Some ''allow'') then VAllow
         else VHookFailure (case hr_code r of
             None \<Rightarrow> ''the hook was terminated by a signal''
           | Some code \<Rightarrow>
               if code = 0 then ''the hook exited 0 without an allow or block decision on stdout''
               else ''the hook exited with status '' @ show_int code @ '' and no usable decision'')))"

definition classify_run :: "hook_codec \<Rightarrow> hook_run \<Rightarrow> hook_verdict" where
  "classify_run hk r =
     (let verdict = classify_output hk r in
      if hr_stdin_delivered r \<or> (case verdict of VPolicyDeny _ \<Rightarrow> True | _ \<Rightarrow> False) then verdict
      else VHookFailure ''the hook did not receive the request payload'')"

definition apply_verdict :: "hook_verdict \<Rightarrow> on_failure \<Rightarrow> hook_event \<Rightarrow> chain_step" where
  "apply_verdict v f ev =
     (case v of
        VAllow \<Rightarrow> Allowed
      | VPolicyDeny reason \<Rightarrow> Denied reason PolicyDenial
      | VHookFailure reason \<Rightarrow>
          if f = FailBlock \<and> ev = PreToolUse then Denied reason HookFailed else FailedOpen reason)"

definition rule_matches :: "string option \<Rightarrow> loaded_rule \<Rightarrow> bool" where
  "rule_matches ctx rule =
     (case lu_matcher rule of
        None \<Rightarrow> True | Some m \<Rightarrow> m (case ctx of Some t \<Rightarrow> t | None \<Rightarrow> []))"

definition matching_actions :: "hook_rules \<Rightarrow> hook_event \<Rightarrow> hook_context \<Rightarrow> (loaded_rule \<times> loaded_action) list" where
  "matching_actions rules ev ctx =
     concat (map (\<lambda>rule. map (Pair rule) (lu_actions rule))
       (filter (rule_matches (hc_matcher_context ctx)) (rules ev)))"

definition serialization_failure_outcome ::
    "(loaded_rule \<times> loaded_action) list \<Rightarrow> hook_event \<Rightarrow> hook_chain_outcome" where
  "serialization_failure_outcome matched ev =
     (case List.find (\<lambda>(_, action). la_on_failure action = FailBlock) matched of
        Some (rule, _) \<Rightarrow>
          if ev = PreToolUse
          then \<lparr>ho_decision = HookDeny ''the hook payload could not be serialized'' (lu_plugin_name rule),
                ho_policy_evaluated = False, ho_cause = Some HookFailed\<rparr>
          else \<lparr>ho_decision = HookAllow, ho_policy_evaluated = False, ho_cause = Some HookFailed\<rparr>
      | None \<Rightarrow> \<lparr>ho_decision = HookAllow, ho_policy_evaluated = False, ho_cause = Some HookFailed\<rparr>)"

definition run_verdict :: "hook_codec \<Rightarrow> anyhow + hook_run \<Rightarrow> hook_verdict \<times> bool" where
  "run_verdict hk res =
     (case res of
        Inr r \<Rightarrow>
          (let verdict = classify_run hk r in
           (verdict, hr_code r = Some 0 \<or> (case verdict of VPolicyDeny _ \<Rightarrow> True | _ \<Rightarrow> False)))
      | Inl _ \<Rightarrow> (VHookFailure ''the hook command failed to run'', False))"

fun run_chain ::
    "hook_codec \<Rightarrow> 'w hook_runner \<Rightarrow> hook_event \<Rightarrow> string \<Rightarrow> (loaded_rule \<times> loaded_action) list
       \<Rightarrow> bool \<Rightarrow> bool \<Rightarrow> 'w \<Rightarrow> hook_chain_outcome \<times> 'w" where
  "run_chain hk run ev payload [] evaluated failed w =
     (\<lparr>ho_decision = HookAllow, ho_policy_evaluated = evaluated,
       ho_cause = (if failed then Some HookFailed else None)\<rparr>, w)"
| "run_chain hk run ev payload ((rule, action) # rest) evaluated failed w =
     (case run ev rule action payload w of
        (res, w1) \<Rightarrow>
          (let (verdict, ran) = run_verdict hk res; evaluated = (evaluated \<or> ran) in
           case apply_verdict verdict (la_on_failure action) ev of
             Allowed \<Rightarrow> run_chain hk run ev payload rest evaluated failed w1
           | FailedOpen _ \<Rightarrow> run_chain hk run ev payload rest evaluated True w1
           | Denied reason cause \<Rightarrow>
               (\<lparr>ho_decision = HookDeny reason (lu_plugin_name rule),
                 ho_policy_evaluated = evaluated, ho_cause = Some cause\<rparr>, w1)))"

definition emit_blocking_with_outcome ::
    "hook_codec \<Rightarrow> 'w hook_runner \<Rightarrow> hook_rules \<Rightarrow> hook_event \<Rightarrow> hook_context \<Rightarrow> 'w
       \<Rightarrow> hook_chain_outcome \<times> 'w" where
  "emit_blocking_with_outcome hk run rules ev ctx w =
     (let matched = matching_actions rules ev ctx in
      if matched = [] then (outcome_allow False, w)
      else (case hk_serialize hk ctx of
              None \<Rightarrow> (serialization_failure_outcome matched ev, w)
            | Some payload \<Rightarrow> run_chain hk run ev payload matched False False w))"

definition emit_blocking ::
    "hook_codec \<Rightarrow> 'w hook_runner \<Rightarrow> hook_rules \<Rightarrow> hook_event \<Rightarrow> hook_context \<Rightarrow> 'w
       \<Rightarrow> hook_decision \<times> 'w" where
  "emit_blocking hk run rules ev ctx w = map_prod ho_decision id (emit_blocking_with_outcome hk run rules ev ctx w)"

text \<open>Events that only observe: every matching action is run, whatever the others do.\<close>

definition emit_serialized ::
    "'w hook_runner \<Rightarrow> hook_rules \<Rightarrow> hook_event \<Rightarrow> string option \<Rightarrow> string \<Rightarrow> 'w \<Rightarrow> 'w" where
  "emit_serialized run rules ev matcher payload w =
     fold (\<lambda>rule w.
       if rule_matches matcher rule
       then fold (\<lambda>action w. snd (run ev rule action payload w)) (lu_actions rule) w
       else w) (rules ev) w"

definition emit_hook ::
    "hook_codec \<Rightarrow> 'w hook_runner \<Rightarrow> hook_rules \<Rightarrow> hook_event \<Rightarrow> hook_context \<Rightarrow> 'w \<Rightarrow> 'w" where
  "emit_hook hk run rules ev ctx w =
     (if \<not> has_hooks rules ev then w
      else (case hk_serialize hk ctx of
              None \<Rightarrow> w
            | Some payload \<Rightarrow> emit_serialized run rules ev (hc_matcher_context ctx) payload w))"

definition emit_hook_result ::
    "hook_codec \<Rightarrow> 'w hook_runner \<Rightarrow> hook_rules \<Rightarrow> hook_context \<times> string option \<Rightarrow> 'w \<Rightarrow> 'w" where
  "emit_hook_result hk run rules payload w =
     (if \<not> has_hooks rules PreToolUseResult then w
      else (case hk_serialize_result hk payload of
              None \<Rightarrow> w
            | Some json \<Rightarrow>
                emit_serialized run rules PreToolUseResult (hc_matcher_context (fst payload)) json w))"

definition extract_banner :: "hook_codec \<Rightarrow> string \<Rightarrow> string option" where
  "extract_banner hk stdout =
     (if \<not> starts_with ''{'' stdout then None
      else (case hk_parse_banner hk stdout of
              None \<Rightarrow> None
            | Some None \<Rightarrow> None
            | Some (Some b) \<Rightarrow> if b = [] then None else Some b))"

fun collect_banners ::
    "hook_codec \<Rightarrow> 'w hook_runner \<Rightarrow> hook_event \<Rightarrow> string \<Rightarrow> (loaded_rule \<times> loaded_action) list \<Rightarrow> 'w
       \<Rightarrow> string list \<times> 'w" where
  "collect_banners hk run ev payload [] w = ([], w)"
| "collect_banners hk run ev payload ((rule, action) # rest) w =
     (case run ev rule action payload w of
        (res, w1) \<Rightarrow>
          (let banner = (case res of
               Inr r \<Rightarrow> if hr_code r = Some 0 then extract_banner hk (trim (from_utf8_lossy (hr_stdout r))) else None
             | Inl _ \<Rightarrow> None) in
           case collect_banners hk run ev payload rest w1 of
             (bs, w2) \<Rightarrow> (case banner of None \<Rightarrow> bs | Some b \<Rightarrow> b # bs, w2)))"

definition emit_collecting_banners ::
    "hook_codec \<Rightarrow> 'w hook_runner \<Rightarrow> hook_rules \<Rightarrow> hook_event \<Rightarrow> hook_context \<Rightarrow> 'w \<Rightarrow> string list \<times> 'w" where
  "emit_collecting_banners hk run rules ev ctx w =
     (if rules ev = [] then ([], w)
      else (case hk_serialize hk ctx of
              None \<Rightarrow> ([], w)
            | Some payload \<Rightarrow> collect_banners hk run ev payload (matching_actions rules ev ctx) w))"

subsection \<open>What a run says\<close>

text \<open>
  The protocol of a hook, as its authors are told: it denies by exiting with 2 or by printing a
  decision to block, and it allows by receiving the request, exiting with 0 and printing nothing or a
  decision to allow. Anything else is a failure, and a failure only counts as a denial for the
  actions that ask for it, before a tool call.
\<close>

definition hook_denies :: "hook_codec \<Rightarrow> hook_run \<Rightarrow> bool" where
  "hook_denies hk r \<longleftrightarrow> hr_code r = Some 2
     \<or> (utf8_valid (hr_stdout r) \<and> fst (printed_response hk (trim (hr_stdout r))) = Some ''block'')"

definition hook_allows :: "hook_codec \<Rightarrow> hook_run \<Rightarrow> bool" where
  "hook_allows hk r \<longleftrightarrow> hr_stdin_delivered r \<and> hr_code r = Some 0 \<and> utf8_valid (hr_stdout r)
     \<and> (trim (hr_stdout r) = [] \<or> fst (printed_response hk (trim (hr_stdout r))) = Some ''allow'')"

definition blocks_on_failure :: "hook_event \<Rightarrow> loaded_action \<Rightarrow> bool" where
  "blocks_on_failure ev action \<longleftrightarrow> la_on_failure action = FailBlock \<and> ev = PreToolUse"

definition hook_permits :: "hook_codec \<Rightarrow> hook_event \<Rightarrow> loaded_action \<Rightarrow> anyhow + hook_run \<Rightarrow> bool" where
  "hook_permits hk ev action res \<longleftrightarrow>
     (case res of
        Inl _ \<Rightarrow> \<not> blocks_on_failure ev action
      | Inr r \<Rightarrow> \<not> hook_denies hk r \<and> (hook_allows hk r \<or> \<not> blocks_on_failure ev action))"

fun chain_results ::
    "'w hook_runner \<Rightarrow> hook_event \<Rightarrow> string \<Rightarrow> (loaded_rule \<times> loaded_action) list \<Rightarrow> 'w
       \<Rightarrow> (anyhow + hook_run) list" where
  "chain_results run ev payload [] w = []"
| "chain_results run ev payload ((rule, action) # rest) w =
     (case run ev rule action payload w of (res, w1) \<Rightarrow> res # chain_results run ev payload rest w1)"

lemma classify_run_denies: "(\<exists>reason. classify_run hk r = VPolicyDeny reason) \<longleftrightarrow> hook_denies hk r"
  by (auto simp: classify_run_def classify_output_def hook_denies_def Let_def split: prod.splits)

lemma classify_run_allows: "classify_run hk r = VAllow \<longleftrightarrow> \<not> hook_denies hk r \<and> hook_allows hk r"
  by (auto simp: classify_run_def classify_output_def hook_denies_def hook_allows_def Let_def
      split: prod.splits)

lemma apply_verdict_denied:
  "(\<exists>reason cause. apply_verdict (fst (run_verdict hk res)) (la_on_failure action) ev = Denied reason cause)
     \<longleftrightarrow> \<not> hook_permits hk ev action res"
proof (cases res)
  case (Inl e)
  then show ?thesis by (auto simp: run_verdict_def apply_verdict_def hook_permits_def blocks_on_failure_def)
next
  case (Inr r)
  then show ?thesis
    using classify_run_denies [of hk r] classify_run_allows [of hk r]
    by (auto simp: run_verdict_def Let_def apply_verdict_def hook_permits_def blocks_on_failure_def
        split: hook_verdict.splits)
qed

lemma run_chain_allows:
  "ho_decision (fst (run_chain hk run ev payload matched evaluated failed w)) = HookAllow \<longleftrightarrow>
     list_all2 (\<lambda>(rule, action). hook_permits hk ev action) matched (chain_results run ev payload matched w)"
proof (induction matched arbitrary: evaluated failed w)
  case (Cons ra rest)
  obtain rule action where ra: "ra = (rule, action)" by fastforce
  obtain res w1 where run: "run ev rule action payload w = (res, w1)" by fastforce
  obtain verdict ran where v: "run_verdict hk res = (verdict, ran)" by fastforce
  show ?case
    using Cons.IH apply_verdict_denied [of hk res action ev] ra run v
    by (cases "apply_verdict verdict (la_on_failure action) ev") auto
qed simp

lemma run_chain_denier:
  "ho_decision (fst (run_chain hk run ev payload matched evaluated failed w)) = HookDeny reason plugin \<Longrightarrow>
     \<exists>i < length matched. lu_plugin_name (fst (matched ! i)) = plugin
       \<and> \<not> hook_permits hk ev (snd (matched ! i)) (chain_results run ev payload matched w ! i)
       \<and> (\<forall>j < i. hook_permits hk ev (snd (matched ! j)) (chain_results run ev payload matched w ! j))"
proof (induction matched arbitrary: evaluated failed w)
  case (Cons ra rest)
  obtain rule action where ra: "ra = (rule, action)" by fastforce
  obtain res w1 where run: "run ev rule action payload w = (res, w1)" by fastforce
  obtain verdict ran where v: "run_verdict hk res = (verdict, ran)" by fastforce
  show ?case
  proof (cases "hook_permits hk ev action res")
    case True
    then have "\<exists>evaluated failed. ho_decision (fst (run_chain hk run ev payload rest evaluated failed w1))
        = HookDeny reason plugin"
      using Cons.prems apply_verdict_denied [of hk res action ev] ra run v
      by (auto simp: Let_def split: chain_step.splits)
    then obtain i where "i < length rest" "lu_plugin_name (fst (rest ! i)) = plugin"
      "\<not> hook_permits hk ev (snd (rest ! i)) (chain_results run ev payload rest w1 ! i)"
      "\<forall>j < i. hook_permits hk ev (snd (rest ! j)) (chain_results run ev payload rest w1 ! j)"
      using Cons.IH by blast
    with True ra run show ?thesis
      by (intro exI [of _ "Suc i"]) (auto simp: All_less_Suc2)
  next
    case False
    then obtain r c where "apply_verdict verdict (la_on_failure action) ev = Denied r c"
      using apply_verdict_denied [of hk res action ev] v by auto
    with Cons.prems ra run v have "lu_plugin_name rule = plugin" by simp
    with False ra run show ?thesis by (intro exI [of _ 0]) auto
  qed
qed simp

lemma serialization_failure_allows:
  "ho_decision (serialization_failure_outcome matched ev) = HookAllow \<longleftrightarrow>
     list_all (\<lambda>(rule, action). \<not> blocks_on_failure ev action) matched"
proof (cases "List.find (\<lambda>(_, action). la_on_failure action = FailBlock) matched")
  case None
  then have "list_all (\<lambda>(rule, action). \<not> blocks_on_failure ev action) matched"
    by (auto simp: find_None_iff list_all_iff blocks_on_failure_def)
  with None show ?thesis by (simp add: serialization_failure_outcome_def)
next
  case (Some ra)
  then have "ra \<in> set matched" "la_on_failure (snd ra) = FailBlock"
    by (auto simp: find_Some_iff case_prod_unfold)
  with Some show ?thesis
    by (cases ra) (auto simp: serialization_failure_outcome_def blocks_on_failure_def list_all_iff)
qed

subsection \<open>What is loaded\<close>

lemma load_actions_ok:
  "load_actions hk ev as = Inr las \<Longrightarrow> ev = PreToolUse \<or> list_all (\<lambda>a. la_on_failure a = FailAllow) las"
  by (induction as arbitrary: las) (auto simp: loaded_on_failure_def split: sum.splits if_splits)

definition rule_ok :: "hook_event \<Rightarrow> loaded_rule \<Rightarrow> bool" where
  "rule_ok ev rule \<longleftrightarrow> lu_actions rule \<noteq> []
     \<and> (ev = PreToolUse \<or> list_all (\<lambda>a. la_on_failure a = FailAllow) (lu_actions rule))"

lemma load_rule_ok: "load_rule hk plugin root ev raw = Inr (Some rule) \<Longrightarrow> rule_ok ev rule"
  using load_actions_ok
  by (fastforce simp: load_rule_def Let_def rule_ok_def split: sum.splits option.splits if_splits)

lemma load_rules_ok:
  "load_rules hk plugin root ev raws = Inr rules \<Longrightarrow> rule \<in> set rules \<Longrightarrow> rule_ok ev rule"
  by (induction raws arbitrary: rules) (auto dest: load_rule_ok split: sum.splits option.splits)

definition rules_ok :: "hook_rules \<Rightarrow> bool" where
  "rules_ok rules \<longleftrightarrow> (\<forall>ev rule. rule \<in> set (rules ev) \<longrightarrow> rule_ok ev rule)"

lemma load_events_ok:
  "load_events hk plugin root entries out = Inr rules \<Longrightarrow> rules_ok out \<Longrightarrow> rules_ok rules"
proof (induction hk plugin root entries out rule: load_events.induct)
  case (2 hk plugin root name payload rest out)
  show ?case
  proof (cases "hook_event_from_name name")
    case None
    with 2 show ?thesis by simp
  next
    case (Some ev)
    with "2.prems"(1) obtain raws new where r: "hk_parse_rules hk payload = Some raws"
      "load_rules hk plugin root ev raws = Inr new"
      by (auto split: option.splits sum.splits)
    moreover have "rules_ok (out(ev := out ev @ new))"
      using "2.prems"(2) load_rules_ok [OF r(2)] unfolding rules_ok_def by auto
    ultimately show ?thesis using "2.IH"(2) [OF Some r] "2.prems"(1) Some by (simp add: fun_upd_def)
  qed
qed simp

lemma hooks_from_plugins_ok: "rules_ok (hooks_from_plugins hk plugins)"
proof -
  have empty: "rules_ok (\<lambda>_. [])" by (simp add: rules_ok_def)
  have loaded: "rules_ok rules" if "load_hooks_file hk plugin root content = Inr rules" for rules plugin root content
    using that load_events_ok [OF _ empty] by (auto simp: load_hooks_file_def split: option.splits)
  have join: "rules_ok (\<lambda>ev. rules ev @ rules' ev)" if "rules_ok rules" "rules_ok rules'" for rules rules'
    using that by (auto simp: rules_ok_def)
  have "rules_ok (fold (\<lambda>p rules.
       case dp_hooks_file p of
         None \<Rightarrow> rules
       | Some content \<Rightarrow>
           (case load_hooks_file hk (dp_name p) (dp_root p) content of
              Inl _ \<Rightarrow> rules
            | Inr loaded \<Rightarrow> (\<lambda>ev. rules ev @ loaded ev))) plugins rules)" if "rules_ok rules" for rules
    using that
  proof (induction plugins arbitrary: rules)
    case (Cons p plugins)
    show ?case
      unfolding fold_simps comp_def
      by (rule Cons.IH) (use Cons.prems in \<open>auto intro!: join dest: loaded split: option.splits sum.splits\<close>)
  qed simp
  with empty show ?thesis by (simp add: hooks_from_plugins_def)
qed

subsection \<open>Properties of the hooks\<close>

text \<open>An event that hooks can block goes on exactly when every hook that
  matches it permits it: none of them exited with 2 or printed a decision to block, and none of
  those that ask to block on failure failed, be it that the command could not be run, did not
  receive the request, exited otherwise, printed something else or that the request could not be
  written. The failures of the others do not stop it, nor does any failure outside of tool calls.\<close>

lemma hook_chain_decides:
  "fst (emit_blocking hk run rules ev ctx w) = HookAllow \<longleftrightarrow>
     (case hk_serialize hk ctx of
        None \<Rightarrow> list_all (\<lambda>(rule, action). \<not> blocks_on_failure ev action) (matching_actions rules ev ctx)
      | Some payload \<Rightarrow>
          list_all2 (\<lambda>(rule, action). hook_permits hk ev action) (matching_actions rules ev ctx)
            (chain_results run ev payload (matching_actions rules ev ctx) w))"
  by (simp add: emit_blocking_def emit_blocking_with_outcome_def Let_def outcome_allow_def
      run_chain_allows serialization_failure_allows split: option.split)

text \<open>A hook loaded for another event than a tool call never blocks by failing.\<close>

lemma loaded_hooks_block_only_tools:
  assumes "(rule, action) \<in> set (matching_actions (hooks_from_plugins hk plugins) ev ctx)"
  shows "ev = PreToolUse \<or> la_on_failure action = FailAllow"
  using assms hooks_from_plugins_ok [of hk plugins]
  by (fastforce simp: rules_ok_def rule_ok_def matching_actions_def list_all_iff)

end
