(* ===== verification/Agent_Effects.thy ===== *)
theory Agent_Effects
  imports Message_Encoding Usage_Ledger Tool_Inspection Hooks
begin

section \<open>The effects of Ghosty's operations\<close>

text \<open>
  \<open>crates/goose/src/agents/state_machine/effects.rs\<close>, \<open>session.rs\<close> and \<open>usage.rs\<close>: the effects of
  the concrete operations, how they are enriched with the cost of a request, stored in the
  session and reported to the client. The world of the agent is the machine's world with the
  tables of the session store and the state the operations share: the steering queue, the goal
  and the grind goal, the mode and the permissions. The environment supplies the codec of the
  store, the arithmetic and the estimate of costs, the token counter, the configured hooks with
  what their commands answer, and the shell commands of a recipe.
\<close>

record retry_config =
  rc_max_retries :: u32
  rc_checks :: json
  rc_on_failure :: "string option"

record recipe =
  rp_retry :: "retry_config option"
  rp_response :: "json option"
  rp_rest :: json

record session_columns =
  sc_recipe :: "recipe option"
  sc_goose_mode :: goose_mode
  sc_provider_name :: "string option"
  sc_working_dir :: string
  sc_extension_data :: json

record session =
  ses_id :: string
  ses_conversation :: "conversation option"
  ses_recipe :: "recipe option"
  ses_goose_mode :: goose_mode
  ses_provider_name :: "string option"
  ses_working_dir :: string
  ses_schedule_id :: "string option"
  ses_usage :: counts
  ses_extension_data :: json

record goose_world = world +
  gw_table :: message_table
  gw_usage :: "f64_bits usage_db"
  gw_columns :: "string \<Rightarrow> session_columns"
  gw_queue :: "message list"
  gw_goal :: "string option"
  gw_grind :: "string option"
  gw_mode :: goose_mode
  gw_permission_file :: "string option"
  gw_permissions :: permission_manager

datatype tool_stream_item =
    StreamResult "call_tool_result tool_result"
  | StreamMessage json
  | StreamAction message

record goose_env = env +
  ge_codec :: message_codec
  ge_cost :: "f64_bits cost_ops"
  ge_estimate_cost :: "string \<Rightarrow> string \<Rightarrow> usage \<Rightarrow> f64_bits option"
  ge_count_tokens :: "message list \<Rightarrow> anyhow + i32"
  ge_hook_codec :: hook_codec
  ge_hook_rules :: hook_rules
  ge_run_hook :: "nat \<Rightarrow> hook_event \<Rightarrow> loaded_rule \<Rightarrow> loaded_action \<Rightarrow> string \<Rightarrow> anyhow + hook_run"
  ge_success_checks :: "nat \<Rightarrow> anyhow + bool"
  ge_on_failure :: "nat \<Rightarrow> anyhow + unit"
  ge_yaml :: yaml_codec
  ge_mutation_io :: "nat \<Rightarrow> mutation_io"
  ge_inspectors :: "goose_world \<Rightarrow> tool_inspector list"
  ge_known_tools :: "nat \<Rightarrow> tool list option"
  ge_tool_items :: "nat \<Rightarrow> (nat \<times> tool_stream_item) list"
  ge_process_response :: "call_tool_result tool_result \<Rightarrow> call_tool_result tool_result"
  ge_extension_state :: "nat \<Rightarrow> json \<Rightarrow> anyhow + json"
  ge_show_error :: "error_data \<Rightarrow> string"

datatype goose_effect =
    GConversation conversation_effect
  | GReplaceConversation conversation "provider_usage option"
  | GSetRecipe "recipe option"
  | GSetExtensionData json
  | GRecordUsage provider_usage

definition from_message :: "message \<Rightarrow> goose_effect" where
  "from_message m = GConversation (AppendMessage m)"

fun goose_ensure_message_ids ::
    "'y env_scheme \<Rightarrow> goose_effect \<Rightarrow> ('x world_scheme, goose_effect) io" where
  "goose_ensure_message_ids env (GConversation e) =
     io_bind (ensure_message_ids env e) (\<lambda>e'. io_ok (GConversation e'))"
| "goose_ensure_message_ids env (GReplaceConversation c u) =
     io_bind (io_map (ensure_message_id env) c) (\<lambda>c'. io_ok (GReplaceConversation c' u))"
| "goose_ensure_message_ids env e = io_ok e"

subsection \<open>Hooks of a session\<close>

definition goose_run_hook :: "goose_env \<Rightarrow> goose_world hook_runner" where
  "goose_run_hook env ev rule action payload w =
     (ge_run_hook env (w_tick w) ev rule action payload, w\<lparr>w_tick := Suc (w_tick w)\<rparr>)"

definition fire_hook :: "goose_env \<Rightarrow> hook_event \<Rightarrow> hook_context \<Rightarrow> (goose_world, unit) io" where
  "fire_hook env ev ctx w =
     (Inr (), emit_hook (ge_hook_codec env) (goose_run_hook env) (ge_hook_rules env) ev ctx w)"

definition ask_hooks :: "goose_env \<Rightarrow> hook_event \<Rightarrow> hook_context \<Rightarrow> (goose_world, hook_chain_outcome) io" where
  "ask_hooks env ev ctx w =
     map_prod Inr id
       (emit_blocking_with_outcome (ge_hook_codec env) (goose_run_hook env) (ge_hook_rules env) ev ctx w)"

subsection \<open>Usage\<close>

fun attach_rev :: "message_usage \<Rightarrow> goose_effect list \<Rightarrow> goose_effect list" where
  "attach_rev u [] = []"
| "attach_rev u (e # es) =
     (case e of
        GConversation (AppendMessage m) \<Rightarrow>
          if m_role m = Assistant \<and> error_kind m = None
          then GConversation (AppendMessage (m\<lparr>m_metadata := (m_metadata m)\<lparr>md_usage := Some u\<rparr>\<rparr>)) # es
          else e # attach_rev u es
      | _ \<Rightarrow> e # attach_rev u es)"

definition attach_to_last_assistant :: "goose_effect list \<Rightarrow> provider_usage \<Rightarrow> goose_effect list" where
  "attach_to_last_assistant effects u = rev (attach_rev (from_provider_usage u False) (rev effects))"

definition enriched_usage :: "goose_env \<Rightarrow> session \<Rightarrow> provider_usage \<Rightarrow> provider_usage" where
  "enriched_usage env s u =
     (let (cost, source) =
        (case pu_cost u of
           Some c \<Rightarrow> (Some c, Some ProviderReported)
         | None \<Rightarrow>
             (case Option.bind (ses_provider_name s)
                     (\<lambda>p. ge_estimate_cost env p (pu_model u) (pu_usage u)) of
                Some c \<Rightarrow> (Some c, Some Estimated)
              | None \<Rightarrow> (None, None)))
      in u\<lparr>pu_cost := cost, pu_cost_source := source\<rparr>)"

definition enrich_at :: "goose_env \<Rightarrow> session \<Rightarrow> nat \<Rightarrow> goose_effect list \<Rightarrow> goose_effect list" where
  "enrich_at env s i effects =
     (case effects ! i of
        GRecordUsage u \<Rightarrow>
          (let e = enriched_usage env s u in (attach_to_last_assistant effects e)[i := GRecordUsage e])
      | GReplaceConversation c (Some u) \<Rightarrow>
          effects[i := GReplaceConversation c (Some (enriched_usage env s u))]
      | _ \<Rightarrow> effects)"

definition enrich :: "goose_env \<Rightarrow> session \<Rightarrow> goose_effect list \<Rightarrow> goose_effect list" where
  "enrich env s effects = fold (enrich_at env s) [0..<length effects] effects"

definition record_usage ::
    "goose_env \<Rightarrow> session \<Rightarrow> provider_usage \<Rightarrow> bool \<Rightarrow> (goose_world, unit) io" where
  "record_usage env s u replaces w =
     (Inr (), w\<lparr>gw_usage := record_usage_metrics (ge_cost env) (\<lambda>b. b) (ses_id s) (ses_schedule_id s)
        (pu_usage u) (pu_model u) (from_provider_usage u replaces) (gw_usage w)\<rparr>)"

definition estimate_context :: "goose_env \<Rightarrow> conversation \<Rightarrow> anyhow + usage" where
  "estimate_context env c =
     (case ge_count_tokens env c of
        Inl e \<Rightarrow> Inl e | Inr tokens \<Rightarrow> Inr (usage_new (Some tokens) None (Some tokens)))"

definition set_session_usage :: "string \<Rightarrow> usage \<Rightarrow> (goose_world, unit) io" where
  "set_session_usage sid u w =
     (Inr (), w\<lparr>gw_usage := (gw_usage w)\<lparr>ub_sessions :=
        map (\<lambda>(i, s). (i, if i = sid then s\<lparr>se_current := usage_column u\<rparr> else s))
          (ub_sessions (gw_usage w))\<rparr>\<rparr>)"

subsection \<open>Storing and reporting\<close>

definition contains_tool_confirmation_request :: "message \<Rightarrow> bool" where
  "contains_tool_confirmation_request m =
     list_ex (\<lambda>b. case b of ActionRequired (ToolConfirmation _ _ _ _) \<Rightarrow> True | _ \<Rightarrow> False) (m_content m)"

definition load_session :: "goose_env \<Rightarrow> string \<Rightarrow> (goose_world, session) io" where
  "load_session env sid w =
     (case session_row_of sid (gw_usage w) of
        None \<Rightarrow> (Inl ''Session not found'', w)
      | Some row \<Rightarrow>
          (case get_conversation (ge_codec env) sid (gw_table w) of
             Inl e \<Rightarrow> (Inl e, w)
           | Inr c \<Rightarrow>
               (let cols = gw_columns w sid in
                (Inr \<lparr>ses_id = sid, ses_conversation = Some c, ses_recipe = sc_recipe cols,
                  ses_goose_mode = sc_goose_mode cols, ses_provider_name = sc_provider_name cols,
                  ses_working_dir = sc_working_dir cols,
                  ses_schedule_id = se_schedule row, ses_usage = se_current row,
                  ses_extension_data = sc_extension_data cols\<rparr>, w))))"

definition store_message :: "goose_env \<Rightarrow> string \<Rightarrow> message \<Rightarrow> (goose_world, unit) io" where
  "store_message env sid m =
     io_bind (new_uuid env) (\<lambda>u w.
       (Inr (), w\<lparr>gw_table := add_message (ge_codec env) u sid m (gw_table w)\<rparr>))"

definition store_conversation :: "goose_env \<Rightarrow> string \<Rightarrow> conversation \<Rightarrow> (goose_world, unit) io" where
  "store_conversation env sid c =
     io_bind (io_map (\<lambda>_. new_uuid env) c) (\<lambda>us w.
       (Inr (), w\<lparr>gw_table := replace_conversation (ge_codec env) (\<lambda>i. us ! i) sid c (gw_table w)\<rparr>))"

definition store_replacement :: "goose_env \<Rightarrow> session \<Rightarrow> conversation \<Rightarrow> (goose_world, unit) io" where
  "store_replacement env s c =
     io_bind (store_conversation env (ses_id s) c) (\<lambda>_.
     io_bind (io_of (estimate_context env c)) (\<lambda>u. set_session_usage (ses_id s) u))"

definition update_columns ::
    "string \<Rightarrow> (session_columns \<Rightarrow> session_columns) \<Rightarrow> (goose_world, unit) io" where
  "update_columns sid f w = (Inr (), w\<lparr>gw_columns := (gw_columns w)(sid := f (gw_columns w sid))\<rparr>)"

fun persist_effect :: "goose_env \<Rightarrow> session \<Rightarrow> goose_effect \<Rightarrow> (goose_world, unit) io" where
  "persist_effect env s (GConversation (AppendMessage m)) = store_message env (ses_id s) m"
| "persist_effect env s (GConversation (ReplaceConversation c)) = store_replacement env s c"
| "persist_effect env s (GReplaceConversation c u) =
     io_bind (case u of Some pu \<Rightarrow> record_usage env s pu True | None \<Rightarrow> io_ok ()) (\<lambda>_.
       store_replacement env s c)"
| "persist_effect env s (GConversation (PatchToolRequestMeta tid patch)) =
     (\<lambda>w. case update_tool_request_meta (ge_codec env) (ses_id s) tid patch (gw_table w) of
        Inl e \<Rightarrow> (Inl e, w) | Inr tbl \<Rightarrow> (Inr (), w\<lparr>gw_table := tbl\<rparr>))"
| "persist_effect env s (GConversation (SetMessageVisibility mid uv av)) =
     (\<lambda>w. case update_message_metadata (ge_codec env) (ses_id s) mid
            (\<lambda>md. md\<lparr>md_user_visible := uv, md_agent_visible := av\<rparr>) (gw_table w) of
        Inl e \<Rightarrow> (Inl e, w) | Inr tbl \<Rightarrow> (Inr (), w\<lparr>gw_table := tbl\<rparr>))"
| "persist_effect env s (GSetRecipe r) = update_columns (ses_id s) (\<lambda>c. c\<lparr>sc_recipe := r\<rparr>)"
| "persist_effect env s (GSetExtensionData d) = update_columns (ses_id s) (\<lambda>c. c\<lparr>sc_extension_data := d\<rparr>)"
| "persist_effect env s (GRecordUsage u) = record_usage env s u False"

fun effect_events :: "goose_effect \<Rightarrow> agent_event list" where
  "effect_events (GConversation (AppendMessage m)) =
     (if contains_tool_confirmation_request m then [EvMessage m] else [])
     @ (case md_usage (m_metadata m) of
          Some u \<Rightarrow> if m_content (user_visible_content m) \<noteq> [] then [EvMessageUsage (m_id m) u] else []
        | None \<Rightarrow> [])"
| "effect_events (GConversation (ReplaceConversation c)) = [EvHistoryReplaced c]"
| "effect_events (GReplaceConversation c _) = [EvHistoryReplaced c]"
| "effect_events (GRecordUsage u) = [EvUsage u]"
| "effect_events _ = []"

definition apply_effects :: "goose_env \<Rightarrow> session \<Rightarrow> goose_effect list \<Rightarrow> (goose_world, unit) io" where
  "apply_effects env s effects0 =
     io_bind (io_map (goose_ensure_message_ids env) effects0) (\<lambda>effects1.
     let effects = enrich env s effects1 in
     io_bind (io_map (persist_effect env s) effects) (\<lambda>_.
     io_bind (io_map emit_event (concat (map effect_events effects))) (\<lambda>_. io_ok ())))"

definition effect_usage :: "goose_effect \<Rightarrow> usage option" where
  "effect_usage e =
     (case e of
        GRecordUsage u \<Rightarrow> Some (pu_usage u)
      | GReplaceConversation _ (Some u) \<Rightarrow> Some (pu_usage u)
      | _ \<Rightarrow> None)"

subsection \<open>Effects and the messages they carry\<close>

fun goose_effect_messages :: "goose_effect \<Rightarrow> message list" where
  "goose_effect_messages (GConversation e) = effect_messages e"
| "goose_effect_messages (GReplaceConversation c _) = c"
| "goose_effect_messages _ = []"

lemma goose_ensure_ok: "\<exists>e' w'. goose_ensure_message_ids env e w = (Inr e', w')"
proof (cases e)
  case (GConversation ce)
  obtain ce' w' where "ensure_message_ids env ce w = (Inr ce', w')" using ensure_message_ids_ok by blast
  then show ?thesis using GConversation by (auto simp: io_simps)
next
  case (GReplaceConversation c u)
  obtain c' w' where "io_map (ensure_message_id env) c w = (Inr c', w')"
    using io_map_total [of "ensure_message_id env"] ensure_message_id_ok by blast
  then show ?thesis using GReplaceConversation by (auto simp: io_simps)
qed (auto simp: io_simps)

lemma goose_ensure_post:
  assumes "goose_ensure_message_ids env e w = (Inr e', w')"
  shows "list_all (\<lambda>m. m_id m \<noteq> None) (goose_effect_messages e')"
    and "list_all2 same_but_id (goose_effect_messages e) (goose_effect_messages e')"
proof -
  have each: "list_all2 (\<lambda>m m'. m_id m' \<noteq> None \<and> same_but_id m m') c c'"
    if "io_map (ensure_message_id env) c v = (Inr c', v')" for c c' v v'
    using that ensure_message_id_post by (rule io_map_all2 [rotated])
  have "list_all2 (\<lambda>m m'. m_id m' \<noteq> None \<and> same_but_id m m') (goose_effect_messages e) (goose_effect_messages e')"
  proof (cases e)
    case (GConversation ce)
    with assms obtain ce' where "ensure_message_ids env ce w = (Inr ce', w')" "e' = GConversation ce'"
      by (auto simp: io_bind_eq_Inr)
    with GConversation ensure_message_ids_post [of env ce w ce' w'] show ?thesis
      by (auto simp: list_all2_conv_all_nth list_all_length)
  qed (use assms each in \<open>auto simp: io_bind_eq_Inr\<close>)
  then show "list_all (\<lambda>m. m_id m \<noteq> None) (goose_effect_messages e')"
    and "list_all2 same_but_id (goose_effect_messages e) (goose_effect_messages e')"
    by (auto simp: list_all2_conv_all_nth list_all_length)
qed

interpretation goose_effects: machine_effect "goose_ensure_message_ids env" goose_effect_messages
  for env :: "'y env_scheme"
  by unfold_locales (fact goose_ensure_ok goose_ensure_post)+

text \<open>How a message is read back that was given to \<open>apply_effects\<close>: it may have got an identifier,
  its usage and a later time.\<close>

definition content_like :: "message \<Rightarrow> message \<Rightarrow> bool" where
  "content_like m m' \<longleftrightarrow> m_role m' = m_role m \<and> m_content m' = m_content m
     \<and> (m_metadata m')\<lparr>md_usage := None\<rparr> = (m_metadata m)\<lparr>md_usage := None\<rparr>
     \<and> (m_id m = None \<or> m_id m' = m_id m)"

lemma content_like_refl [simp]: "content_like m m"
  by (simp add: content_like_def)

lemma content_like_trans: "content_like a b \<Longrightarrow> content_like b c \<Longrightarrow> content_like a c"
  by (auto simp: content_like_def)

lemma content_like_visible:
  assumes "content_like m m'"
  shows "is_user_visible m' = is_user_visible m" "is_agent_visible m' = is_agent_visible m"
    "error_kind m' = error_kind m" "is_tool_response m' = is_tool_response m" "is_kickoff m' = is_kickoff m"
    "md_operations (m_metadata m') = md_operations (m_metadata m)"
proof -
  from assms have md: "(m_metadata m')\<lparr>md_usage := None\<rparr> = (m_metadata m)\<lparr>md_usage := None\<rparr>"
    and same: "m_role m' = m_role m" "m_content m' = m_content m" by (auto simp: content_like_def)
  from md have "md_user_visible (m_metadata m') = md_user_visible (m_metadata m)"
    "md_agent_visible (m_metadata m') = md_agent_visible (m_metadata m)"
    and ops: "md_operations (m_metadata m') = md_operations (m_metadata m)"
    by (cases "m_metadata m"; cases "m_metadata m'"; simp)+
  with same show "is_user_visible m' = is_user_visible m" "is_agent_visible m' = is_agent_visible m"
    "error_kind m' = error_kind m" "is_tool_response m' = is_tool_response m" "is_kickoff m' = is_kickoff m"
    by (simp_all add: is_user_visible_def is_agent_visible_def error_kind_def is_tool_response_def is_kickoff_def)
  show "md_operations (m_metadata m') = md_operations (m_metadata m)" by (fact ops)
qed

fun effect_like :: "goose_effect \<Rightarrow> goose_effect \<Rightarrow> bool" where
  "effect_like (GConversation (AppendMessage m)) (GConversation (AppendMessage m')) = content_like m m'"
| "effect_like (GConversation (ReplaceConversation c)) (GConversation (ReplaceConversation c')) =
     list_all2 content_like c c'"
| "effect_like (GReplaceConversation c u) (GReplaceConversation c' u') = list_all2 content_like c c'"
| "effect_like (GRecordUsage u) (GRecordUsage u') = True"
| "effect_like e e' \<longleftrightarrow> e' = e"

lemma effect_like_refl [simp]: "effect_like e e"
proof (cases e)
  case (GConversation ce)
  then show ?thesis by (cases ce) (auto intro: list_all2_refl)
qed (auto intro: list_all2_refl)

lemma effect_like_cases:
  assumes "effect_like e e'"
  obtains (same) "e' = e"
  | (append) m m' where "e = GConversation (AppendMessage m)" "e' = GConversation (AppendMessage m')" "content_like m m'"
  | (replace) c c' where "e = GConversation (ReplaceConversation c)" "e' = GConversation (ReplaceConversation c')"
      "list_all2 content_like c c'"
  | (compact) c c' u u' where "e = GReplaceConversation c u" "e' = GReplaceConversation c' u'" "list_all2 content_like c c'"
  | (usage) u u' where "e = GRecordUsage u" "e' = GRecordUsage u'"
  using assms by (induction e e' rule: effect_like.induct) auto

lemma effect_like_trans:
  assumes "effect_like a b" and "effect_like b c"
  shows "effect_like a c"
proof -
  note lists = list_all2_trans [of content_like content_like content_like]
  from assms show ?thesis
    by (cases rule: effect_like_cases; cases rule: effect_like_cases [OF assms(2)])
      (auto intro: content_like_trans lists)
qed

definition append_only :: "goose_effect \<Rightarrow> bool" where
  "append_only e \<longleftrightarrow>
     (case e of
        GConversation (AppendMessage _) \<Rightarrow> True
      | GConversation _ \<Rightarrow> False
      | GReplaceConversation _ _ \<Rightarrow> False
      | _ \<Rightarrow> True)"

definition appended_message :: "goose_effect \<Rightarrow> message option" where
  "appended_message e = (case e of GConversation (AppendMessage m) \<Rightarrow> Some m | _ \<Rightarrow> None)"

definition appended :: "goose_effect list \<Rightarrow> message list" where
  "appended es = filter_map appended_message es"

lemma appended_simps [simp]:
  "appended [] = []"
  "appended (GConversation (AppendMessage m) # es) = m # appended es"
  "appended (from_message m # es) = m # appended es"
  "appended (GRecordUsage u # es) = appended es"
  "appended (es @ es') = appended es @ appended es'"
  by (simp_all add: appended_def appended_message_def from_message_def filter_map_append)

lemma append_only_simps [simp]:
  "append_only (from_message m)" "append_only (GRecordUsage u)"
  by (simp_all add: append_only_def from_message_def)

lemma effects_like_append:
  "list_all2 effect_like es es' \<Longrightarrow>
     list_all append_only es' = list_all append_only es \<and> list_all2 content_like (appended es) (appended es')"
proof (induction rule: list_all2_induct)
  case (Cons e es e' es')
  from Cons.hyps(1) show ?case
    by (cases rule: effect_like_cases)
      (use Cons.IH in \<open>auto simp: append_only_def appended_def appended_message_def split: option.splits\<close>)
qed simp

lemma same_but_id_like: "same_but_id m m' \<Longrightarrow> content_like m m'"
  by (auto simp: same_but_id_def content_like_def)

lemma ensure_like:
  assumes "goose_ensure_message_ids env e w = (Inr e', w')"
  shows "effect_like e e'"
proof -
  have like: "list_all2 content_like (goose_effect_messages e) (goose_effect_messages e')"
    using goose_ensure_post(2) [OF assms] by (rule list_all2_mono) (rule same_but_id_like)
  show ?thesis
  proof (cases e)
    case (GConversation ce)
    with assms like show ?thesis by (cases ce) (auto simp: io_bind_eq_Inr)
  qed (use assms like in \<open>auto simp: io_bind_eq_Inr\<close>)
qed

lemma attach_rev_like: "list_all2 effect_like es (attach_rev u es)"
proof (induction es)
  case (Cons e es)
  have refl: "list_all2 effect_like es es" by (rule list_all2_refl) simp
  show ?case
  proof (cases e)
    case (GConversation ce)
    with Cons.IH refl show ?thesis by (cases ce) (auto simp: content_like_def)
  qed (use Cons.IH in auto)
qed simp

lemma enrich_at_like: "i < length es \<Longrightarrow> list_all2 effect_like es (enrich_at env s i es)"
proof -
  assume i: "i < length es"
  have refl: "list_all2 effect_like es es" by (rule list_all2_refl) simp
  have attach: "list_all2 effect_like es (attach_to_last_assistant es u)" for u
    using attach_rev_like [of "rev es" "from_provider_usage u False"]
    by (simp add: attach_to_last_assistant_def list_all2_rev1)
  show ?thesis
  proof (cases "es ! i")
    case (GRecordUsage u)
    have "list_all2 effect_like (es[i := es ! i])
        ((attach_to_last_assistant es (enriched_usage env s u))[i := GRecordUsage (enriched_usage env s u)])"
      using attach GRecordUsage by (intro list_all2_update_cong) auto
    then have "list_all2 effect_like es
        ((attach_to_last_assistant es (enriched_usage env s u))[i := GRecordUsage (enriched_usage env s u)])"
      by (simp only: list_update_id)
    with GRecordUsage show ?thesis by (simp add: enrich_at_def Let_def)
  next
    case (GReplaceConversation c ou)
    show ?thesis
    proof (cases ou)
      case (Some u)
      have "list_all2 effect_like (es[i := es ! i]) (es[i := GReplaceConversation c (Some (enriched_usage env s u))])"
        using refl GReplaceConversation by (intro list_all2_update_cong) (auto intro: list_all2_refl)
      then have "list_all2 effect_like es (es[i := GReplaceConversation c (Some (enriched_usage env s u))])"
        by (simp only: list_update_id)
      with GReplaceConversation Some show ?thesis by (simp add: enrich_at_def)
    qed (use GReplaceConversation refl in \<open>simp add: enrich_at_def\<close>)
  qed (use refl in \<open>simp_all add: enrich_at_def\<close>)
qed

lemma effects_like_trans:
  "list_all2 effect_like a b \<Longrightarrow> list_all2 effect_like b c \<Longrightarrow> list_all2 effect_like a c"
  by (rule list_all2_trans [of effect_like effect_like effect_like]) (auto intro: effect_like_trans)

lemma enrich_like: "list_all2 effect_like es (enrich env s es)"
proof -
  have "list_all (\<lambda>i. i < length fs) is \<Longrightarrow> list_all2 effect_like fs (fold (enrich_at env s) is fs)" for "is" fs
  proof (induction "is" arbitrary: fs)
    case (Cons i "is")
    then have here: "list_all2 effect_like fs (enrich_at env s i fs)" by (simp add: enrich_at_like)
    moreover from Cons.prems list_all2_lengthD [OF here]
    have "list_all (\<lambda>j. j < length (enrich_at env s i fs)) is" by simp
    ultimately show ?case using Cons.IH by (auto intro: effects_like_trans)
  qed (auto intro: list_all2_refl)
  then show ?thesis by (simp add: enrich_def list_all_iff)
qed

subsection \<open>Storing effects\<close>

text \<open>An action that moves the world along \<open>R\<close>, whether it succeeds or fails.\<close>

definition moves :: "('w \<Rightarrow> 'w \<Rightarrow> bool) \<Rightarrow> ('w, 'a) io \<Rightarrow> bool" where
  "moves R m \<longleftrightarrow> (\<forall>w. R w (snd (m w)))"

lemma movesD: "moves R m \<Longrightarrow> m w = (x, w') \<Longrightarrow> R w w'"
  by (metis moves_def snd_conv)

lemma moves_bind:
  "transp R \<Longrightarrow> moves R m \<Longrightarrow> (\<And>x. moves R (f x)) \<Longrightarrow> moves R (io_bind m f)"
  unfolding moves_def io_bind_def
  by (auto split: prod.split sum.split) (metis snd_conv transpD)+

lemma moves_ok: "reflp R \<Longrightarrow> moves R (io_ok x)" "reflp R \<Longrightarrow> moves R (io_of r)"
  by (simp_all add: moves_def io_ok_def io_of_def reflpD)

lemma moves_map:
  "reflp R \<Longrightarrow> transp R \<Longrightarrow> (\<And>y. moves R (f y)) \<Longrightarrow> moves R (io_map f ys)"
  by (induction ys) (auto intro: moves_bind moves_ok)

definition only_ticks :: "'x world_scheme \<Rightarrow> 'x world_scheme \<Rightarrow> bool" where
  "only_ticks w w' \<longleftrightarrow> (\<exists>n. w' = w\<lparr>w_tick := n\<rparr>)"

lemma only_ticks_refl: "only_ticks w w"
  unfolding only_ticks_def by (rule exI [of _ "w_tick w"]) simp

lemma only_ticks_trans: "only_ticks a b \<Longrightarrow> only_ticks b c \<Longrightarrow> only_ticks a c"
  by (auto simp: only_ticks_def)

lemma only_ticks_order: "reflp only_ticks" "transp only_ticks"
  by (rule reflpI, rule only_ticks_refl) (rule transpI, rule only_ticks_trans)

definition same_events :: "'x world_scheme \<Rightarrow> 'x world_scheme \<Rightarrow> bool" where
  "same_events w w' \<longleftrightarrow> w_events w' = w_events w"

lemma same_events_order: "reflp same_events" "transp same_events"
  by (auto intro!: reflpI transpI simp: same_events_def)

lemmas ticks_intros = moves_bind [OF only_ticks_order(2)] moves_map [OF only_ticks_order]
  moves_ok [OF only_ticks_order(1)]
lemmas events_intros = moves_bind [OF same_events_order(2)] moves_map [OF same_events_order]
  moves_ok [OF same_events_order(1)]

lemma new_uuid_ticks: "moves only_ticks (new_uuid env)"
  by (auto simp: moves_def only_ticks_def io_simps)

lemma ensure_message_id_ticks: "moves only_ticks (ensure_message_id env m)"
  by (auto simp: ensure_message_id_def intro: ticks_intros new_uuid_ticks)

lemma ensure_message_ids_ticks: "moves only_ticks (ensure_message_ids env e)"
  by (cases e) (auto intro: ticks_intros ensure_message_id_ticks)

lemma goose_ensure_ticks: "moves only_ticks (goose_ensure_message_ids env e)"
  by (cases e) (auto intro: ticks_intros ensure_message_id_ticks ensure_message_ids_ticks)

lemma new_uuid_events: "moves same_events (new_uuid env)"
  by (simp add: moves_def same_events_def io_simps)

lemma store_events:
  "moves same_events (store_message env sid m)"
  "moves same_events (store_replacement env s c)"
  "moves same_events (record_usage env s u replaces)"
  unfolding store_message_def store_replacement_def store_conversation_def
  by ((intro events_intros new_uuid_events)?;
      simp add: moves_def same_events_def set_session_usage_def record_usage_def)+

lemma persist_effect_events: "moves same_events (persist_effect env s e)"
proof (induction env s e rule: persist_effect.induct)
  case (3 env s c u)
  then show ?case
    by (auto intro!: events_intros intro: store_events split: option.split)
qed (use store_events in \<open>auto simp: moves_def same_events_def update_columns_def split: sum.split\<close>)

lemma emit_events: "io_map emit_event evs w = (Inr (map (\<lambda>_. ()) evs), w\<lparr>w_events := w_events w @ evs\<rparr>)"
  by (induction evs arbitrary: w) (simp_all add: io_simps)

lemma persist_append_only:
  assumes "list_all append_only es" and reads: "\<And>m. codec_reads (ge_codec env) m"
    and "get_conversation (ge_codec env) (ses_id s) (gw_table w) = Inr c"
  shows "\<exists>us w' ms. io_map (persist_effect env s) es w = (Inr us, w')
    \<and> get_conversation (ge_codec env) (ses_id s) (gw_table w') = Inr (c @ ms)
    \<and> list_all2 content_like (appended es) ms
    \<and> (session_row_of (ses_id s) (gw_usage w) \<noteq> None \<longrightarrow> session_row_of (ses_id s) (gw_usage w') \<noteq> None)"
  using assms(1,3)
proof (induction es arbitrary: w c)
  case (Cons e es)
  have "\<exists>w' ms. persist_effect env s e w = (Inr (), w')
    \<and> get_conversation (ge_codec env) (ses_id s) (gw_table w') = Inr (c @ ms)
    \<and> list_all2 content_like (appended [e]) ms
    \<and> (session_row_of (ses_id s) (gw_usage w) \<noteq> None \<longrightarrow> session_row_of (ses_id s) (gw_usage w') \<noteq> None)"
  proof (cases e)
    case (GConversation ce)
    with Cons.prems(1) obtain m where "ce = AppendMessage m"
      by (auto simp: append_only_def split: conversation_effect.splits)
    with GConversation Cons.prems(2) reads [of m] show ?thesis
      by (simp add: store_message_def io_simps get_conversation_add)
        (auto simp: content_like_def stored_def stored_id_def split: option.splits)
  qed (use Cons.prems in \<open>auto simp: append_only_def update_columns_def io_simps record_usage_def
      appended_def appended_message_def session_row_of_def record_usage_metrics_def
      insert_usage_ledger_row_def update_session_usage_def Let_def map_of_map_value\<close>)
  then obtain w1 ms1 where here: "persist_effect env s e w = (Inr (), w1)"
    "get_conversation (ge_codec env) (ses_id s) (gw_table w1) = Inr (c @ ms1)"
    "list_all2 content_like (appended [e]) ms1"
    "session_row_of (ses_id s) (gw_usage w) \<noteq> None \<longrightarrow> session_row_of (ses_id s) (gw_usage w1) \<noteq> None"
    by blast
  from Cons.IH [OF _ here(2)] Cons.prems(1) obtain us w2 ms2 where rest:
    "io_map (persist_effect env s) es w1 = (Inr us, w2)"
    "get_conversation (ge_codec env) (ses_id s) (gw_table w2) = Inr ((c @ ms1) @ ms2)"
    "list_all2 content_like (appended es) ms2"
    "session_row_of (ses_id s) (gw_usage w1) \<noteq> None \<longrightarrow> session_row_of (ses_id s) (gw_usage w2) \<noteq> None"
    by auto
  have "appended (e # es) = appended [e] @ appended es" by (simp flip: appended_simps(5))
  with here rest show ?case
    by (intro exI [of _ "() # us"] exI [of _ w2] exI [of _ "ms1 @ ms2"])
      (auto simp: io_simps intro: list_all2_appendI)
qed (simp add: io_simps)

lemma apply_effects_outcome:
  assumes "apply_effects env s es w = (res, w')"
  shows "(case res of
      Inl _ \<Rightarrow> w_events w' = w_events w
    | Inr _ \<Rightarrow> \<exists>es'. list_all2 effect_like es es'
        \<and> w_events w' = w_events w @ concat (map effect_events es'))"
proof -
  obtain es1 w1 where ids: "io_map (goose_ensure_message_ids env) es w = (Inr es1, w1)"
    using io_map_total [of "goose_ensure_message_ids env"] goose_ensure_ok by blast
  have "only_ticks w w1"
    using ids by (rule movesD [rotated]) (intro ticks_intros goose_ensure_ticks)
  then have same1: "w_events w1 = w_events w" by (auto simp: only_ticks_def)
  have like: "list_all2 effect_like es (enrich env s es1)"
    using io_map_all2 [OF ensure_like ids] enrich_like by (rule effects_like_trans)
  obtain r2 w2 where stored: "io_map (persist_effect env s) (enrich env s es1) w1 = (r2, w2)" by fastforce
  have "same_events w1 w2"
    using stored by (rule movesD [rotated]) (intro events_intros persist_effect_events)
  then have same2: "w_events w2 = w_events w1" by (simp add: same_events_def)
  show ?thesis
    using assms ids stored same1 same2 like
    by (cases r2) (auto simp: apply_effects_def io_simps Let_def emit_events)
qed

lemma append_effects_stored:
  assumes "\<And>m. codec_reads (ge_codec env) m" and "list_all append_only es"
    and "load_session env sid w = (Inr s, w)" and "ses_conversation s = Some c"
  shows "\<exists>w' s' ms. apply_effects env s es w = (Inr (), w') \<and> load_session env sid w' = (Inr s', w')
    \<and> ses_conversation s' = Some (c @ ms) \<and> list_all2 content_like (appended es) ms"
proof -
  from assms(3,4) have s: "ses_id s = sid" "session_row_of sid (gw_usage w) \<noteq> None"
    "get_conversation (ge_codec env) sid (gw_table w) = Inr c"
    by (auto simp: load_session_def Let_def split: option.splits sum.splits)
  obtain es1 w1 where ids: "io_map (goose_ensure_message_ids env) es w = (Inr es1, w1)"
    using io_map_total [of "goose_ensure_message_ids env"] goose_ensure_ok by blast
  have "list_all2 effect_like es (enrich env s es1)"
    using io_map_all2 [OF ensure_like ids] enrich_like by (rule effects_like_trans)
  note like = effects_like_append [OF this]
  have "only_ticks w w1"
    using ids by (rule movesD [rotated]) (intro ticks_intros goose_ensure_ticks)
  then have tables: "gw_table w1 = gw_table w \<and> gw_usage w1 = gw_usage w" by (auto simp: only_ticks_def)
  with s like assms(2) obtain us w2 ms where
    stored: "io_map (persist_effect env s) (enrich env s es1) w1 = (Inr us, w2)"
      "get_conversation (ge_codec env) sid (gw_table w2) = Inr (c @ ms)"
      "list_all2 content_like (appended (enrich env s es1)) ms" "session_row_of sid (gw_usage w2) \<noteq> None"
    using persist_append_only [OF _ assms(1), of "enrich env s es1" s w1 c] by auto
  have "list_all2 content_like (appended es) ms"
    using like stored(3) by (auto intro: list_all2_trans [OF content_like_trans])
  moreover obtain row where "session_row_of sid (gw_usage w2) = Some row" using stored(4) by blast
  ultimately show ?thesis
    using ids stored by (simp add: apply_effects_def io_simps Let_def emit_events load_session_def)
qed

subsection \<open>Properties of the effects\<close>

text \<open>Claim C21 (step_messages_identified): whatever an operation of the pipeline asks for, every message
  in the effects of the step it is taken for has an identifier, the messages are otherwise as the
  operation made them, and the step names an operation of the pipeline.\<close>

theorem step_messages_identified:
  assumes "machine_step env (goose_ensure_message_ids env) ses_conversation steps s w = (Inr (Some r), w')"
  shows "list_all (\<lambda>e. list_all (\<lambda>m. m_id m \<noteq> None) (goose_effect_messages e)) (sr_effects r)
    \<and> sr_applied_step r \<in> Some ` op_name ` step_operation ` set steps"
proof -
  from assms obtain c where
    "step_from env (goose_ensure_message_ids env) s c steps steps w = (Inr (Some r), w')"
    by (auto simp: machine_step_def split: option.splits)
  then show ?thesis by (rule goose_effects.step_from_ids)
qed

text \<open>Claim C22 (failed_effects_not_published): when storing the effects of a step fails, wherever it
  fails, the client is told of none of them; when it succeeds the client is told of all of them, in
  their order, with the identifiers and the usage they were stored with.\<close>

theorem failed_effects_not_published:
  assumes "apply_effects env s es w = (res, w')"
  shows "(case res of
      Inl _ \<Rightarrow> w_events w' = w_events w
    | Inr _ \<Rightarrow> \<exists>es'. list_all2 effect_like es es'
        \<and> w_events w' = w_events w @ concat (map effect_events es'))"
  using assms by (rule apply_effects_outcome)

text \<open>Effects that only append messages and record usage are
  always stored; the next round of the loop reads the conversation it read before, followed by
  the appended messages in their order, with their role, content and visibility.\<close>

lemma appended_messages_reloaded:
  assumes "\<And>m. codec_reads (ge_codec env) m" and "list_all append_only es"
    and "load_session env sid w = (Inr s, w)" and "ses_conversation s = Some c"
  shows "\<exists>w' s' ms. apply_effects env s es w = (Inr (), w') \<and> load_session env sid w' = (Inr s', w')
    \<and> ses_conversation s' = Some (c @ ms) \<and> list_all2 content_like (appended es) ms"
  using assms by (rule append_effects_stored)

subsection \<open>Witnesses\<close>

definition sample_hook_codec :: hook_codec where
  "sample_hook_codec =
     \<lparr>hk_parse_file = (\<lambda>_. None), hk_parse_rules = (\<lambda>_. None), hk_parse_action = (\<lambda>_. None),
      hk_parse_on_failure = (\<lambda>_. None), hk_regex = (\<lambda>_. None), hk_serialize = (\<lambda>c. Some (hc_event c)),
      hk_serialize_result = (\<lambda>c. Some (hc_event (fst c))), hk_parse_resp = (\<lambda>_. None),
      hk_parse_banner = (\<lambda>_. None)\<rparr>"

definition sample_goose_env :: goose_env where
  "sample_goose_env = env.extend (plain_env (\<lambda>_. False))
     \<lparr>ge_codec = unary_codec,
      ge_cost = \<lparr>f_zero = 0, f_add = (+), f_sub = (-), f_max = max, f_le = (\<le>), f_above = (>)\<rparr>,
      ge_estimate_cost = (\<lambda>_ _ _. None), ge_count_tokens = (\<lambda>_. Inr 0),
      ge_hook_codec = sample_hook_codec, ge_hook_rules = (\<lambda>_. []),
      ge_run_hook = (\<lambda>_ _ _ _ _. Inl ''no hook''),
      ge_success_checks = (\<lambda>_. Inr True), ge_on_failure = (\<lambda>_. Inr ()),
      ge_yaml = \<lparr>yc_to_string = (\<lambda>_. []), yc_from_str = (\<lambda>_. Some Map.empty)\<rparr>,
      ge_mutation_io = (\<lambda>_. \<lparr>mio_lock = True, mio_read = True, mio_write = True\<rparr>),
      ge_inspectors = (\<lambda>_. []), ge_known_tools = (\<lambda>_. None), ge_tool_items = (\<lambda>_. []),
      ge_process_response = (\<lambda>r. r), ge_extension_state = (\<lambda>_. Inr), ge_show_error = ed_message\<rparr>"

definition sample_columns :: session_columns where
  "sample_columns = \<lparr>sc_recipe = None, sc_goose_mode = Approve, sc_provider_name = None,
     sc_working_dir = ''/'', sc_extension_data = JNull\<rparr>"

definition sample_goose_world :: goose_world where
  "sample_goose_world = world.extend plain_world
     \<lparr>gw_table = empty_table,
      gw_usage = \<lparr>ub_sessions = [(''s'', \<lparr>se_schedule = None, se_current = (\<lambda>_. None),
        se_accumulated = (\<lambda>_. None), se_cost = None, se_parent = None\<rparr>)], ub_ledger = []\<rparr>,
      gw_columns = (\<lambda>_. sample_columns), gw_queue = [], gw_goal = None, gw_grind = None,
      gw_mode = Approve, gw_permission_file = None,
      gw_permissions = \<lparr>pmg_memory = Map.empty, pmg_poisoned = False\<rparr>\<rparr>"

definition sample_session :: "conversation \<Rightarrow> session" where
  "sample_session c = \<lparr>ses_id = ''s'', ses_conversation = Some c, ses_recipe = None, ses_goose_mode = Approve,
     ses_provider_name = None, ses_working_dir = ''/'', ses_schedule_id = None, ses_usage = (\<lambda>_. None),
     ses_extension_data = JNull\<rparr>"

lemma sample_goose_codec [simp]: "ge_codec sample_goose_env = unary_codec"
  by (simp add: sample_goose_env_def env.defs)

lemma sample_load: "load_session sample_goose_env ''s'' sample_goose_world = (Inr (sample_session []), sample_goose_world)"
  by (simp add: load_session_def sample_goose_world_def sample_session_def sample_columns_def
      session_row_of_def world.defs Let_def)

lemma appended_messages_reloaded_example:
  "\<exists>w' s' m. apply_effects sample_goose_env (sample_session []) [from_message (message_user 7)] sample_goose_world = (Inr (), w')
     \<and> load_session sample_goose_env ''s'' w' = (Inr s', w') \<and> ses_conversation s' = Some [m] \<and> m_role m = User"
proof -
  have "ses_conversation (sample_session []) = Some []" by (simp add: sample_session_def)
  from appended_messages_reloaded [OF _ _ sample_load this, of "[from_message (message_user 7)]"]
  show ?thesis
    by (auto simp: list_all2_Cons1 content_like_def message_user_def message_new_def)
qed

theorem failed_effects_not_published_witness:
  "\<exists>w'. w_events w' = [] \<and> apply_effects sample_goose_env (sample_session [])
     [GConversation (SetMessageVisibility ''x'' True False), GRecordUsage (provider_usage_new ''m'' (usage_new None None None))]
     sample_goose_world = (Inl ''no rows returned by a query that expected to return at least one row'', w')"
proof -
  obtain w' where a: "apply_effects sample_goose_env (sample_session [])
     [GConversation (SetMessageVisibility ''x'' True False), GRecordUsage (provider_usage_new ''m'' (usage_new None None None))]
     sample_goose_world = (Inl ''no rows returned by a query that expected to return at least one row'', w')"
    by (simp add: apply_effects_def enrich_def enrich_at_def Let_def io_simps upt_rec
        attach_to_last_assistant_def enriched_usage_def sample_session_def provider_usage_new_def
        update_message_metadata_def session_rows_def sample_goose_world_def empty_table_def world.defs
        first_opt_def)
  from failed_effects_not_published [OF a] have "w_events w' = w_events sample_goose_world" by simp
  with a show ?thesis by (simp add: sample_goose_world_def world.defs plain_world_def)
qed

definition sample_greeter :: "(session, goose_world, goose_effect) operation" where
  "sample_greeter = (default_operation ''greet'')\<lparr>op_run := (\<lambda>_ _. applied [from_message (message_assistant 7)])\<rparr>"

theorem step_messages_identified_witness:
  "\<exists>r w' m. machine_step sample_goose_env (goose_ensure_message_ids sample_goose_env) ses_conversation
     [OperationStep sample_greeter] (sample_session []) sample_goose_world = (Inr (Some r), w')
   \<and> sr_effects r = [from_message m] \<and> m_id m \<noteq> None \<and> sr_applied_step r = Some ''greet''"
proof -
  obtain r w' m where a: "machine_step sample_goose_env (goose_ensure_message_ids sample_goose_env) ses_conversation
     [OperationStep sample_greeter] (sample_session []) sample_goose_world = (Inr (Some r), w')"
     "sr_effects r = [from_message m]"
    by (simp add: machine_step_def sample_session_def sample_greeter_def default_operation_def attempt_step_def
        io_simps sample_goose_env_def env.defs plain_env_def from_message_def ensure_message_id_def
        message_assistant_def message_new_def)
  from step_messages_identified [OF a(1)] a show ?thesis
    by (auto simp: from_message_def sample_greeter_def default_operation_def)
qed

end
