(* ===== verification/Agent_Turn_Ops.thy ===== *)
theory Agent_Turn_Ops
  imports Agent_Effects
begin

section \<open>Operations on a turn\<close>

text \<open>
  \<open>crates/goose/src/agents/state_machine/ops_*.rs\<close>: the operations of the pipeline that start, end,
  continue or repeat a turn. Each definition is the \<open>run\<close> or the \<open>run_command\<close> of one file.
\<close>

type_synonym goose_result = "(goose_world, goose_effect operation_result) io"

definition with_system_notification :: "system_notification_type \<Rightarrow> string \<Rightarrow> message \<Rightarrow> message" where
  "with_system_notification ty msg m =
     (with_content (SystemNotification \<lparr>sn_type = ty, sn_msg = msg, sn_data = None\<rparr>) m)
       \<lparr>m_metadata := metadata_user_only\<rparr>"

definition with_steer :: "message \<Rightarrow> message" where
  "with_steer m = m\<lparr>m_metadata := (m_metadata m)\<lparr>md_steer := True\<rparr>\<rparr>"

subsection \<open>Errors and budgets\<close>

definition exit_on_error_run :: "session \<Rightarrow> conversation \<Rightarrow> goose_result" where
  "exit_on_error_run s c = (if trailing_error c = None then not_applicable else yielded)"

definition MAX_TURNS_MESSAGE :: string where
  "MAX_TURNS_MESSAGE = ''I'' @ [CHR 0x27] @ ''ve reached the maximum number of actions I can do ''
     @ ''without user input. Would you like me to continue?''"

definition saturating_mul :: "u32 \<Rightarrow> u32 \<Rightarrow> u32" where
  "saturating_mul a b = (if unat a * unat b > 2 ^ 32 - 1 then - 1 else a * b)"

definition turn_budget_part :: "u32 \<Rightarrow> u32 \<Rightarrow> string option" where
  "turn_budget_part turns_taken max_turns =
     (if max_turns = 0 \<or> saturating_mul turns_taken 2 < max_turns then None
      else Some (''<turn-budget>'' @ show_nat (unat turns_taken) @ ''/'' @ show_nat (unat max_turns)
             @ '' used</turn-budget>''))"

definition max_turns_moim_parts :: "u32 \<Rightarrow> session \<Rightarrow> conversation \<Rightarrow> (goose_world, string list) io" where
  "max_turns_moim_parts max_turns s c =
     io_bind (io_of (messages_since_kickoff c)) (\<lambda>turn.
       io_ok (case turn_budget_part (assistant_turn_count turn) max_turns of
                None \<Rightarrow> [] | Some p \<Rightarrow> [p]))"

definition max_turns_run :: "goose_env \<Rightarrow> u32 \<Rightarrow> session \<Rightarrow> conversation \<Rightarrow> goose_result" where
  "max_turns_run env max_turns s c =
     io_bind (io_of (messages_since_kickoff c)) (\<lambda>turn.
       if assistant_turn_count turn < max_turns then not_applicable
       else io_bind (now env) (\<lambda>t.
            io_bind (emit_message env (with_text (e_text env) MAX_TURNS_MESSAGE (message_assistant t)))
              (\<lambda>m. yielded_with [from_message m])))"

subsection \<open>Steering\<close>

definition steer_run :: "goose_env \<Rightarrow> session \<Rightarrow> conversation \<Rightarrow> goose_result" where
  "steer_run env s c =
     io_bind (io_of (messages_since_kickoff c)) (\<lambda>turn.
     io_bind (if ends_turn turn then io_ok True
              else io_bind (io_of (last_effective_role turn)) (\<lambda>r. io_ok (r = RTool))) (\<lambda>between.
       if \<not> between then not_applicable
       else
         io_bind (\<lambda>w. (Inr (map with_steer (gw_queue w)), w\<lparr>gw_queue := []\<rparr>)) (\<lambda>pending.
           if pending = [] then not_applicable
           else io_bind (io_map (\<lambda>m.
                  io_bind (fire_hook env UserPromptSubmit
                      (hook_with_message (as_concat_text m) (hook_context_new UserPromptSubmit (ses_id s)))) (\<lambda>_.
                  io_bind (emit_message env m) (\<lambda>m'. io_ok (from_message m')))) pending) applied)))"

subsection \<open>Hooks at the start and the end of a turn\<close>

definition STOP_HOOK :: string where "STOP_HOOK = ''stop_hook''"
definition DENIED :: string where "DENIED = ''denied''"

definition denial_context_message :: "text_env \<Rightarrow> int \<Rightarrow> string \<Rightarrow> string \<Rightarrow> message" where
  "denial_context_message te t plugin reason =
     with_visibility False True (with_text te
       (''Stop hook `'' @ plugin @ ''` blocked ending this turn:'' @ [NL, NL] @ reason @ [NL, NL]
        @ ''Address this policy hook denial before trying to stop again.'') (message_user t))"

definition denial_notification :: "int \<Rightarrow> string \<Rightarrow> message" where
  "denial_notification t plugin =
     with_system_notification InlineMessage
       (''Stop hook `'' @ plugin @ ''` blocked ending this turn.'') (message_assistant t)"

definition block_cap_warning :: "int \<Rightarrow> string \<Rightarrow> u32 \<Rightarrow> message" where
  "block_cap_warning t plugin cap =
     with_system_notification InlineMessage
       (''Stop hook `'' @ plugin @ ''` blocked the turn from ending more than '' @ show_nat (unat cap)
        @ '' consecutive times '' @ [CHR 0xE2, CHR 0x80, CHR 0x94]
        @ '' overriding and ending turn to avoid an infinite loop. Set ''
        @ ''GHOSTY_STOP_HOOK_BLOCK_CAP to raise this limit.'') (message_assistant t)"

definition trailing_assistant_text :: "message list \<Rightarrow> string" where
  "trailing_assistant_text turn =
     concat (map (as_concat_text \<circ> user_visible_content)
       (filter is_user_visible (rev (takeWhile (\<lambda>m. m_role m = Assistant) (rev turn)))))"

definition denials :: "message list \<Rightarrow> nat" where
  "denials turn = length (filter (\<lambda>m. message_meta STOP_HOOK m DENIED \<noteq> None) turn)"

definition stop_hook_run :: "goose_env \<Rightarrow> u32 \<Rightarrow> session \<Rightarrow> conversation \<Rightarrow> goose_result" where
  "stop_hook_run env block_cap s c =
     io_bind (io_of (messages_since_kickoff c)) (\<lambda>turn.
       if \<not> ends_turn turn then not_applicable
       else
         io_bind (ask_hooks env Stop (hook_with_working_dir (ses_working_dir s)
             (hook_with_last_assistant_message (trailing_assistant_text turn)
               (hook_context_new Stop (ses_id s))))) (\<lambda>outcome.
           case ho_decision outcome of
             HookAllow \<Rightarrow> yielded
           | HookDeny reason plugin \<Rightarrow>
               if (of_nat (denials turn) + 1 :: u32) > block_cap
               then io_bind (now env) (\<lambda>t.
                    io_bind (emit_message env (block_cap_warning t plugin block_cap)) (\<lambda>m.
                      yielded_with [from_message m]))
               else io_bind (now env) (\<lambda>t.
                    let denial = set_message_meta STOP_HOOK DENIED (JBool True)
                          (denial_context_message (e_text env) t plugin reason) in
                    io_bind (now env) (\<lambda>t'.
                    io_bind (emit_message env (denial_notification t' plugin)) (\<lambda>_.
                      applied [from_message denial])))))"

definition entry_hook_run :: "goose_env \<Rightarrow> session \<Rightarrow> conversation \<Rightarrow> goose_result" where
  "entry_hook_run env s c =
     io_bind (io_of (messages_since_kickoff c)) (\<lambda>turn.
       if list_ex (\<lambda>m. m_role m = Assistant
            \<and> ((is_user_visible m \<and> is_agent_visible m) \<or> error_kind m \<noteq> None)) turn
       then not_applicable
       else
         let before = take (length c - length turn) c;
             prompt = (case first_opt turn of Some m \<Rightarrow> as_concat_text m | None \<Rightarrow> []) in
         io_bind (if \<not> list_ex is_kickoff before
                  then fire_hook env SessionStart
                    (hook_with_working_dir (ses_working_dir s) (hook_context_new SessionStart (ses_id s)))
                  else io_ok ()) (\<lambda>_.
         io_bind (if prompt \<noteq> []
                  then fire_hook env UserPromptSubmit (hook_with_working_dir (ses_working_dir s)
                    (hook_with_message prompt (hook_context_new UserPromptSubmit (ses_id s))))
                  else io_ok ()) (\<lambda>_. not_applicable)))"

subsection \<open>Commands at the start of a turn\<close>

definition bang_shell_command :: "string \<Rightarrow> string option" where
  "bang_shell_command s =
     (case strip_prefix ''!'' (trim_start s) of
        None \<Rightarrow> None
      | Some rest \<Rightarrow> (let command = trim_start rest in if command = [] then None else Some command))"

definition bang_shell_run :: "goose_env \<Rightarrow> session \<Rightarrow> conversation \<Rightarrow> goose_result" where
  "bang_shell_run env s c =
     io_bind (io_of (messages_since_kickoff c)) (\<lambda>turn.
       case first_opt turn of
         None \<Rightarrow> not_applicable
       | Some kickoff \<Rightarrow>
           (case bang_shell_command (as_concat_text (user_visible_content kickoff)) of
              None \<Rightarrow> not_applicable
            | Some command \<Rightarrow>
                if length turn > 1
                then io_bind (io_of (last_effective_role turn)) (\<lambda>r.
                       if r = RTool then yielded else not_applicable)
                else
                  io_bind (now env) (\<lambda>t.
                  io_bind (new_uuid env) (\<lambda>u.
                  io_bind (emit_message env (with_content (ToolRequest
                      \<lparr>tr_id = ''bang_shell_'' @ u,
                       tr_tool_call = Inr \<lparr>ctp_name = ''shell'',
                          ctp_arguments = Some [(''command'', JString command)], ctp_rest = JNull\<rparr>,
                       tr_metadata = None, tr_tool_meta = None\<rparr>) (message_assistant t))) (\<lambda>m.
                    applied [from_message m])))))"

definition parse_slash_command :: "string \<Rightarrow> slash_command option" where
  "parse_slash_command s =
     (let t = trim s;
          t' = (if t \<in> {''/compact'', ''Please compact this conversation'', ''/summarize''}
                then ''/compact'' else t) in
      case strip_prefix ''/'' t' of
        None \<Rightarrow> None
      | Some command \<Rightarrow>
          (case split_once '' '' command of
             Some (name, params) \<Rightarrow> Some \<lparr>sc_command = name, sc_params_str = trim params\<rparr>
           | None \<Rightarrow> Some \<lparr>sc_command = command, sc_params_str = []\<rparr>))"

fun try_commands ::
    "slash_command \<Rightarrow> session \<Rightarrow> conversation \<Rightarrow> (session, goose_world, goose_effect) operation list
       \<Rightarrow> goose_result" where
  "try_commands cmd s c [] = not_applicable"
| "try_commands cmd s c (oper # ops) =
     io_bind (op_run_command oper cmd s c) (\<lambda>r.
       case r of NotApplicable \<Rightarrow> try_commands cmd s c ops | Applied _ \<Rightarrow> io_ok r)"

definition slash_command_run ::
    "(session, goose_world, goose_effect) operation list \<Rightarrow> session \<Rightarrow> conversation \<Rightarrow> goose_result" where
  "slash_command_run ops s c =
     io_bind (io_of (messages_since_kickoff c)) (\<lambda>turn.
       case first_opt turn of
         None \<Rightarrow> not_applicable
       | Some user_message \<Rightarrow>
           if length turn \<noteq> 1 then not_applicable
           else (case parse_slash_command (as_concat_text user_message) of
                   None \<Rightarrow> not_applicable
                 | Some cmd \<Rightarrow> try_commands cmd s c ops))"

subsection \<open>Goals and retries\<close>

definition RETRY :: string where "RETRY = ''retry''"
definition NUDGED :: string where "NUDGED = ''nudged''"
definition ATTEMPTS :: string where "ATTEMPTS = ''attempts''"

definition retry_error :: "int \<Rightarrow> string \<Rightarrow> message" where
  "retry_error t e = with_error Other (''Retry logic encountered an error: '' @ e) (message_assistant t)"

definition reset_conversation :: "conversation \<Rightarrow> anyhow + conversation" where
  "reset_conversation c =
     (case messages_since_kickoff c of
        Inl e \<Rightarrow> Inl e
      | Inr turn \<Rightarrow> Inr (take (Suc (length c - length turn)) c))"

definition goal_was_nudged :: "message list \<Rightarrow> bool" where
  "goal_was_nudged turn = list_ex (\<lambda>m. message_meta RETRY m NUDGED \<noteq> None) turn"

definition attempts :: "message list \<Rightarrow> u32" where
  "attempts turn =
     (case Option.bind (Option.bind (first_opt turn) (\<lambda>m. message_meta RETRY m ATTEMPTS)) as_u64 of
        Some n \<Rightarrow> ucast n | None \<Rightarrow> 0)"

definition set_last_meta :: "string \<Rightarrow> string \<Rightarrow> json \<Rightarrow> conversation \<Rightarrow> conversation" where
  "set_last_meta name k v c = (if c = [] then [] else butlast c @ [set_message_meta name k v (last c)])"

definition nudge_message :: "text_env \<Rightarrow> int \<Rightarrow> string \<Rightarrow> message" where
  "nudge_message te t text = with_visibility False True (with_text te text (message_user t))"

definition emit_message_now :: "goose_env \<Rightarrow> (int \<Rightarrow> message) \<Rightarrow> (goose_world, message) io" where
  "emit_message_now env f = io_bind (now env) (\<lambda>t. emit_message env (f t))"

definition retry_recipe :: "goose_env \<Rightarrow> retry_config \<Rightarrow> conversation \<Rightarrow> message list \<Rightarrow> goose_result" where
  "retry_recipe env cfg c turn =
     io_bind (ask (ge_success_checks env)) (\<lambda>success.
     case success of
       Inl e \<Rightarrow>
         io_bind (emit_message_now env (\<lambda>t. retry_error t e)) (\<lambda>m. applied [from_message m])
     | Inr True \<Rightarrow> not_applicable
     | Inr False \<Rightarrow>
         if attempts turn \<ge> rc_max_retries cfg
         then io_bind (emit_message_now env (\<lambda>t. with_error Other
                (''Maximum retry attempts ('' @ show_nat (unat (rc_max_retries cfg))
                 @ '') exceeded. Unable to complete the task successfully.'')
                (message_assistant t))) (\<lambda>m. applied [from_message m])
         else
           io_bind (case rc_on_failure cfg of
                      None \<Rightarrow> io_ok (Inr ())
                    | Some _ \<Rightarrow> ask (ge_on_failure env)) (\<lambda>failure.
           case failure of
             Inl e \<Rightarrow>
               io_bind (emit_message_now env (\<lambda>t. retry_error t e)) (\<lambda>m. applied [from_message m])
           | Inr _ \<Rightarrow>
               io_bind (io_of (reset_conversation c)) (\<lambda>reset.
                 applied [GConversation (ReplaceConversation
                   (set_last_meta RETRY ATTEMPTS
                     (JNumber (PosInt (ucast (attempts turn + 1)))) reset))])))"

definition retry_run :: "goose_env \<Rightarrow> session \<Rightarrow> conversation \<Rightarrow> goose_result" where
  "retry_run env s c =
     io_bind (io_of (messages_since_kickoff c)) (\<lambda>turn.
       if \<not> ends_turn turn then not_applicable
       else io_bind (\<lambda>w. (Inr (gw_goal w, gw_grind w), w)) (\<lambda>(goal, grind).
         case (goal_was_nudged turn, goal) of
           (False, Some g) \<Rightarrow>
             io_bind (now env) (\<lambda>t.
             io_bind (emit_message_now env (\<lambda>t. with_system_notification InlineMessage (''Goal: '' @ g)
                 (message_assistant t))) (\<lambda>_.
               applied [from_message (set_message_meta RETRY NUDGED (JBool True)
                 (nudge_message (e_text env) t
                   (''Before finishing, check whether the following goal has been fully met:'' @ [NL, NL]
                    @ ''**Goal:** '' @ g @ [NL, NL] @ ''If not, continue working toward it.'')))]))
         | _ \<Rightarrow>
           (case grind of
              Some g \<Rightarrow>
                io_bind (now env) (\<lambda>t.
                io_bind (emit_message_now env (\<lambda>t. with_system_notification InlineMessage (''Grind: '' @ g)
                    (message_assistant t))) (\<lambda>_.
                  applied [from_message (nudge_message (e_text env) t
                      (''Keep working. The grind goal is not yet complete:'' @ [NL, NL]
                       @ ''**Goal:** '' @ g @ [NL, NL] @ ''Continue until it is fully done.''))]))
            | None \<Rightarrow>
                io_bind (\<lambda>w. (Inr (), w\<lparr>gw_goal := None, gw_grind := None\<rparr>)) (\<lambda>_.
                case Option.bind (ses_recipe s) rp_retry of
                  None \<Rightarrow> not_applicable
                | Some cfg \<Rightarrow> retry_recipe env cfg c turn))))"

definition retry_command :: "goose_env \<Rightarrow> slash_command \<Rightarrow> session \<Rightarrow> conversation \<Rightarrow> goose_result" where
  "retry_command env cmd s c =
     (let name = sc_command cmd; params = sc_params_str cmd;
          is_goal = (name = ''goal'');
          label = (if is_goal then ''goal'' else ''grind goal'');
          starts_turn = (params \<noteq> [] \<and> params \<notin> {''off'', ''clear'', ''none''});
          get = (if is_goal then gw_goal else gw_grind);
          set_target = (\<lambda>v w. if is_goal then w\<lparr>gw_goal := v\<rparr> else w\<lparr>gw_grind := v\<rparr>) in
      if name \<noteq> ''goal'' \<and> name \<noteq> ''grind'' then not_applicable
      else
        io_bind (now env) (\<lambda>t.
        io_bind (\<lambda>w.
          if params = [] then
            (Inr (case get w of
                Some value \<Rightarrow> ''Current '' @ label @ '': '' @ value
              | None \<Rightarrow> ''No '' @ label @ '' set. Use `/'' @ name @ '' <description>` to set one.''), w)
          else if \<not> starts_turn then
            (Inr (if is_goal then ''Goal cleared. The agent will finish normally.''
                  else ''Grind cleared. The agent will finish normally.''), set_target None w)
          else
            (Inr ((if is_goal then ''Goal set. The agent will verify this goal is met before finishing:''
                   else ''Grind goal set. The agent will keep working until max_turns is reached:'')
                  @ [NL, NL] @ ''> '' @ params), set_target (Some params) w)) (\<lambda>text.
        io_bind (io_of (messages_since_kickoff c)) (\<lambda>turn.
          case first_opt turn of
            None \<Rightarrow> io_err ''slash command conversation has no kickoff message''
          | Some command_message \<Rightarrow>
              (case m_id command_message of
                 None \<Rightarrow> io_err ''Persisted slash command message has no id''
               | Some mid \<Rightarrow>
                   io_bind (emit_message env (with_visibility True False command_message)) (\<lambda>_.
                   io_bind (emit_message env (with_visibility True False
                       (with_text (e_text env) text (message_assistant t)))) (\<lambda>response.
                     let effects = [GConversation (SetMessageVisibility mid True False), from_message response] in
                     if starts_turn
                     then io_bind (now env) (\<lambda>t'. applied (effects @ [from_message (nudge_message (e_text env) t'
                        (''Start working toward this goal now:'' @ [NL, NL] @ ''**Goal:** '' @ params))]))
                     else yielded_with effects)))))))"

subsection \<open>How often a turn is started again or kept from ending\<close>

lemma operation_note_set: "operation_note (set_operation_note op k v md) op k = Some v"
  by (simp add: operation_note_def set_operation_note_def Let_def AList.update_conv')

lemma message_meta_set [simp]: "message_meta name (set_message_meta name k v m) k = Some v"
  by (simp add: message_meta_def set_message_meta_def operation_note_set)

lemma is_kickoff_set_meta [simp]: "is_kickoff (set_message_meta name k v m) = is_kickoff m"
  by (simp add: is_kickoff_def set_message_meta_def set_operation_note_def is_user_visible_def is_tool_response_def Let_def)

text \<open>The attempts are kept in 64 bits and read back in 32.\<close>

lemma attempts_recorded:
  "attempts (set_message_meta RETRY ATTEMPTS (JNumber (PosInt (ucast n))) k # rest) = n"
  by (simp add: attempts_def first_opt_def as_u64_def ucast_up_ucast_id is_up_def source_size_def target_size_def word_size)

lemma applied_eq: "applied es w = (Inr (Applied r), w') \<longleftrightarrow> w' = w \<and> r = \<lparr>sr_effects = es, sr_applied_step = None, sr_yield_to_client = False\<rparr>"
  by (auto simp: applied_def io_ok_def)

lemma retry_run_cases:
  assumes "retry_run env s c w = (Inr (Applied r), w')"
  shows "\<exists>turn. messages_since_kickoff c = Inr turn \<and> ends_turn turn
    \<and> ((\<exists>m. sr_effects r = [from_message m])
       \<or> (\<exists>cfg w1. Option.bind (ses_recipe s) rp_retry = Some cfg \<and> retry_recipe env cfg c turn w1 = (Inr (Applied r), w')))"
proof -
  from assms obtain turn where turn: "messages_since_kickoff c = Inr turn" "ends_turn turn"
    by (auto simp: retry_run_def io_bind_eq_Inr io_of_def not_applicable_def io_ok_def split: if_splits)
  then show ?thesis
    using assms
    by (cases "goal_was_nudged turn"; cases "gw_goal w"; cases "gw_grind w"; cases "Option.bind (ses_recipe s) rp_retry")
      (fastforce simp only: retry_run_def io_bind_eq_Inr io_of_def applied_eq not_applicable_def io_ok_eq_Inr
        prod.case option.case sum.case bool.case prod.inject sum.inject step_result.simps operation_result.distinct
        simp_thms if_False if_True)+
qed

lemma retry_replaces:
  assumes "retry_run env s c w = (Inr (Applied r), w')"
    and "GConversation (ReplaceConversation c') \<in> set (sr_effects r)"
  shows "\<exists>turn cfg. messages_since_kickoff c = Inr turn \<and> Option.bind (ses_recipe s) rp_retry = Some cfg
    \<and> attempts turn < rc_max_retries cfg
    \<and> c' = set_last_meta RETRY ATTEMPTS (JNumber (PosInt (ucast (attempts turn + 1))))
        (take (Suc (length c - length turn)) c)"
proof -
  from retry_run_cases [OF assms(1)] assms(2) obtain turn cfg w1 where turn: "messages_since_kickoff c = Inr turn"
    and cfg: "Option.bind (ses_recipe s) rp_retry = Some cfg" "retry_recipe env cfg c turn w1 = (Inr (Applied r), w')"
    by (auto simp: from_message_def)
  have message: "\<nexists>m. sr_effects r = [from_message m]"
    using assms(2) by (auto simp: from_message_def)
  from cfg(2) obtain success w2 where success: "ask (ge_success_checks env) w1 = (Inr success, w2)"
    by (auto simp: retry_recipe_def io_bind_eq_Inr)
  note run = cfg(2) [unfolded retry_recipe_def, unfolded io_bind_def [of "ask (ge_success_checks env)"], unfolded success, simplified prod.case sum.case]
  have fails: "success = Inr False" 
  proof (cases success)
    case (Inl e)
    then show ?thesis using run message by (auto simp: io_bind_eq_Inr applied_eq)
  next
    case (Inr b)
    then show ?thesis using run by (cases b) (auto simp: not_applicable_def)
  qed
  have few: "attempts turn < rc_max_retries cfg"
  proof (rule ccontr)
    assume "\<not> ?thesis"
    then show False using run fails message by (auto simp: io_bind_eq_Inr applied_eq not_less)
  qed
  from run fails few obtain failure :: "anyhow + unit" and w3 where failure:
      "(case failure of Inl e \<Rightarrow> io_bind (emit_message_now env (\<lambda>t. retry_error t e)) (\<lambda>m. applied [from_message m])
        | Inr _ \<Rightarrow> io_bind (io_of (reset_conversation c)) (\<lambda>reset. applied [GConversation (ReplaceConversation
            (set_last_meta RETRY ATTEMPTS (JNumber (PosInt (ucast (attempts turn + 1)))) reset))])) w3 = (Inr (Applied r), w')"
    by (simp add: io_bind_eq_Inr not_le [symmetric]) blast
  then have "c' = set_last_meta RETRY ATTEMPTS (JNumber (PosInt (ucast (attempts turn + 1))))
      (take (Suc (length c - length turn)) c)"
    using message turn assms(2) by (cases failure) (auto simp: io_bind_eq_Inr io_of_def applied_eq reset_conversation_def)
  with few turn cfg(1) show ?thesis by blast
qed

lemma retry_restarts:
  assumes "messages_since_kickoff c = Inr turn"
  shows "\<exists>k. messages_since_kickoff (set_last_meta RETRY ATTEMPTS (JNumber (PosInt (ucast n)))
           (take (Suc (length c - length turn)) c)) = Inr [k] \<and> attempts [k] = n"
proof -
  from assms obtain pre k rest where c: "c = pre @ k # rest" "turn = k # rest" "is_kickoff k"
    by (auto simp: messages_since_kickoff_eq_Inr)
  then have "set_last_meta RETRY ATTEMPTS (JNumber (PosInt (ucast n))) (take (Suc (length c - length turn)) c)
      = pre @ [set_message_meta RETRY ATTEMPTS (JNumber (PosInt (ucast n))) k]"
    by (simp add: set_last_meta_def)
  then show ?thesis
    using c(3) attempts_recorded [of n k "[]"] by (simp add: messages_since_kickoff_snoc_kickoff)
qed

text \<open>A session in which the recipe was retried so many times, with anything but a new kickoff in between.\<close>

inductive retried :: "goose_env \<Rightarrow> session \<Rightarrow> conversation \<Rightarrow> nat \<Rightarrow> conversation \<Rightarrow> bool" for env s c where
  retried_none: "list_all (\<lambda>m. \<not> is_kickoff m) ms \<Longrightarrow> retried env s c 0 (c @ ms)"
| retried_again: "retried env s c n c1 \<Longrightarrow> retry_run env s c1 w = (Inr (Applied r), w')
    \<Longrightarrow> GConversation (ReplaceConversation c2) \<in> set (sr_effects r)
    \<Longrightarrow> list_all (\<lambda>m. \<not> is_kickoff m) ms \<Longrightarrow> retried env s c (Suc n) (c2 @ ms)"

lemma attempts_first: "turn \<noteq> [] \<Longrightarrow> attempts (turn @ ms) = attempts turn"
  by (cases turn) (simp_all add: attempts_def first_opt_def)

lemma retried_attempts:
  assumes "retried env s c n c'" and "messages_since_kickoff c = Inr turn"
  shows "\<exists>turn'. messages_since_kickoff c' = Inr turn' \<and> unat (attempts turn') = unat (attempts turn) + n
    \<and> (n > 0 \<longrightarrow> (\<exists>cfg. Option.bind (ses_recipe s) rp_retry = Some cfg \<and> unat (attempts turn') \<le> unat (rc_max_retries cfg)))"
  using assms
proof (induction rule: retried.induct)
  case (retried_none ms)
  then show ?case
    using messages_since_kickoff_append attempts_first messages_since_kickoff_nonempty by fastforce
next
  case (retried_again n c1 w r w' c2 ms)
  then obtain turn1 where t1: "messages_since_kickoff c1 = Inr turn1" "unat (attempts turn1) = unat (attempts turn) + n"
    by blast
  from retry_replaces [OF retried_again.hyps(2,3)] t1(1) obtain cfg where cfg:
    "Option.bind (ses_recipe s) rp_retry = Some cfg" "attempts turn1 < rc_max_retries cfg"
    and c2: "c2 = set_last_meta RETRY ATTEMPTS (JNumber (PosInt (ucast (attempts turn1 + 1))))
      (take (Suc (length c1 - length turn1)) c1)" by auto
  from retry_restarts [OF t1(1)] obtain k where k: "messages_since_kickoff c2 = Inr [k]" "attempts [k] = attempts turn1 + 1"
    unfolding c2 by blast
  then have "unat (attempts turn1 + 1) = Suc (unat (attempts turn1))"
    using cfg(2) by unat_arith
  moreover have "unat (attempts turn1) < unat (rc_max_retries cfg)" using cfg(2) by (simp add: word_less_nat_alt)
  moreover have "messages_since_kickoff (c2 @ ms) = Inr (k # ms)"
    using messages_since_kickoff_append [OF k(1) retried_again.hyps(4)] by simp
  moreover have "attempts (k # ms) = attempts [k]" using attempts_first [of "[k]" ms] by simp
  ultimately show ?case using t1(2) cfg(1) k(2) by auto
qed

text \<open>Claim C16 (retries_bounded): a recipe that keeps failing its checks is started again at most as often
  as its configuration allows, counted from what the kickoff of the turn already records: after
  \<open>n\<close> retries, with any messages but a new kickoff in between, the kickoff records exactly \<open>n\<close> more
  attempts, the 32-bit counter has not wrapped, and \<open>n\<close> is within the configured number.\<close>

theorem retries_bounded:
  assumes "retried env s c n c'" and "messages_since_kickoff c = Inr turn"
    and "Option.bind (ses_recipe s) rp_retry = Some cfg"
  shows "n \<le> unat (rc_max_retries cfg) - unat (attempts turn)
    \<and> (\<exists>turn'. messages_since_kickoff c' = Inr turn' \<and> unat (attempts turn') = unat (attempts turn) + n)"
  using retried_attempts [OF assms(1,2)] assms(3) by (cases n) auto

definition sample_failing_env :: goose_env where
  "sample_failing_env = sample_goose_env\<lparr>ge_success_checks := (\<lambda>_. Inr False)\<rparr>"

definition sample_recipe_session :: session where
  "sample_recipe_session = (sample_session [])\<lparr>ses_recipe := Some
     \<lparr>rp_retry = Some \<lparr>rc_max_retries = 1, rc_checks = JNull, rc_on_failure = None\<rparr>, rp_response = None, rp_rest = JNull\<rparr>\<rparr>"

theorem retries_bounded_witness:
  "\<exists>c'. retried sample_failing_env sample_recipe_session [message_user 1, message_assistant 2] 1 c'
     \<and> (\<exists>turn'. messages_since_kickoff c' = Inr turn' \<and> unat (attempts turn') = 1)"
proof -
  let ?c = "[message_user 1, message_assistant 2]"
  have turn: "messages_since_kickoff ?c = Inr ?c" by code_simp
  have ends: "ends_turn ?c" by code_simp
  have none: "attempts ?c = 0" "goal_was_nudged ?c = False" by code_simp+
  have env: "ask (ge_success_checks sample_failing_env) w = (Inr (Inr False), w\<lparr>w_tick := Suc (w_tick w)\<rparr>)" for w :: goose_world
    by (simp add: sample_failing_env_def ask_def)
  have "retry_run sample_failing_env sample_recipe_session ?c sample_goose_world
      = (Inr (Applied \<lparr>sr_effects = [GConversation (ReplaceConversation (set_last_meta RETRY ATTEMPTS
          (JNumber (PosInt (ucast (1 :: u32)))) [message_user 1]))], sr_applied_step = None, sr_yield_to_client = False\<rparr>),
        sample_goose_world\<lparr>w_tick := Suc (w_tick sample_goose_world)\<rparr>)"
    by (simp add: retry_run_def retry_recipe_def io_bind_def io_of_def turn ends none env io_ok_def applied_def
        reset_conversation_def sample_recipe_session_def sample_goose_world_def world.defs)
  then have once: "retried sample_failing_env sample_recipe_session ?c (Suc 0) (set_last_meta RETRY ATTEMPTS
      (JNumber (PosInt (ucast (1 :: u32)))) [message_user 1] @ [])"
    by (rule retried_again [OF retried_none [of "[]", simplified]]) simp_all
  have "Option.bind (ses_recipe sample_recipe_session) rp_retry
      = Some \<lparr>rc_max_retries = 1, rc_checks = JNull, rc_on_failure = None\<rparr>"
    by (simp add: sample_recipe_session_def)
  from retries_bounded [OF once turn this] once none(1) show ?thesis by auto
qed

end
