(* ===== verification/Agent_Tool_Ops.thy ===== *)
theory Agent_Tool_Ops
  imports Agent_Turn_Ops Permission_Inspector
begin

section \<open>Operations on tool requests\<close>

text \<open>
  \<open>crates/goose/src/agents/state_machine/ops_tool_approval.rs\<close>, \<open>tool_confirmation.rs\<close>,
  \<open>ops_toolcalling.rs\<close> and \<open>ops_unknown_tool.rs\<close>: which requests of a turn need the user's
  approval, how a decision is recorded and applied, which requests are executed, declined or
  left waiting, and how the ones nobody handles are answered. The tools of the extensions, the
  items their streams deliver and the state of the extensions are answers of the environment.
\<close>

definition as_array :: "json \<Rightarrow> json list option" where
  "as_array v = (case v of JArray vs \<Rightarrow> Some vs | _ \<Rightarrow> None)"

definition TOOL_EXECUTABLE_KEY :: string where "TOOL_EXECUTABLE_KEY = ''goose.executable''"
definition LLM_OPERATION_NAME :: string where "LLM_OPERATION_NAME = ''llm''"
definition ADVERTISED_TOOLS_NOTE :: string where "ADVERTISED_TOOLS_NOTE = ''advertised_tools''"
definition UNCLAIMED_TOOL_ERROR :: string where "UNCLAIMED_TOOL_ERROR = ''goose.unclaimed_tool''"
definition FINAL_OUTPUT_TOOL_NAME :: string where "FINAL_OUTPUT_TOOL_NAME = ''recipe__final_output''"

definition DECLINED_RESPONSE :: string where
  "DECLINED_RESPONSE = ''The user has declined to run this tool. ''
     @ ''DO NOT attempt to call this tool again. ''
     @ ''If there are no alternative methods to proceed, clearly explain the situation and STOP.''"

definition CHAT_MODE_TOOL_SKIPPED_RESPONSE :: string where
  "CHAT_MODE_TOOL_SKIPPED_RESPONSE =
     ''Let the user know the tool call was skipped in goose chat mode. ''
     @ ''DO NOT apologize for skipping the tool call. DO NOT say sorry. ''
     @ ''Provide an explanation of what the tool call would do, structured as a ''
     @ ''plan for the user. Again, DO NOT apologize. ''
     @ ''**Example Plan:**'' @ [NL]
     @ '' 1. **Identify Task Scope** - Determine the purpose and expected outcome.'' @ [NL]
     @ '' 2. **Outline Steps** - Break down the steps.'' @ [NL]
     @ '' If needed, adjust the explanation based on user preferences or questions.''"

subsection \<open>Advertised tools and dispositions\<close>

definition request_executable :: "tool_request \<Rightarrow> bool option" where
  "request_executable r = Option.bind (tool_meta_get TOOL_EXECUTABLE_KEY r) as_bool"

definition request_was_advertised :: "message list \<Rightarrow> tool_request \<Rightarrow> bool" where
  "request_was_advertised msgs r =
     (case tr_tool_call r of
        Inl _ \<Rightarrow> True
      | Inr call \<Rightarrow>
          (case List.find (\<lambda>m. m_role m = Assistant
                  \<and> list_ex (\<lambda>b. request_id b = Some (tr_id r)) (m_content m)) msgs of
             None \<Rightarrow> False
           | Some m \<Rightarrow>
               if md_inference (m_metadata m) = None then True
               else (case Option.bind (message_meta LLM_OPERATION_NAME m ADVERTISED_TOOLS_NOTE) as_array of
                       None \<Rightarrow> False
                     | Some tools \<Rightarrow> list_ex (\<lambda>t. as_str t = Some (ctp_name call)) tools)))"

datatype tool_disposition = Execute | Declined | ParseError string

definition approval_denied :: "permission option \<Rightarrow> bool" where
  "approval_denied p = (p \<in> {Some DenyOnce, Some AlwaysDeny, Some Cancel})"

definition turn_blocks :: "message list \<Rightarrow> message_content_block list" where
  "turn_blocks msgs = concat (map m_content msgs)"

definition confirmation_id :: "message_content_block \<Rightarrow> string option" where
  "confirmation_id b = (case b of ActionRequired (ToolConfirmation i _ _ _) \<Rightarrow> Some i | _ \<Rightarrow> None)"

definition confirmation_response :: "message_content_block \<Rightarrow> (string \<times> permission) option" where
  "confirmation_response b = (case b of ActionRequired (ToolConfirmationResponse i p) \<Rightarrow> Some (i, p) | _ \<Rightarrow> None)"

text \<open>The three tables both the approval and the execution read from the turn; the last response
  to a confirmation is the one that counts.\<close>

definition answered_in :: "message list \<Rightarrow> string set" where
  "answered_in msgs = set (filter_map response_id (turn_blocks msgs))"

definition confirmations_in :: "message list \<Rightarrow> string set" where
  "confirmations_in msgs = set (filter_map confirmation_id (turn_blocks msgs))"

definition approvals_in :: "message list \<Rightarrow> string \<rightharpoonup> permission" where
  "approvals_in msgs = map_of (rev (filter_map confirmation_response (turn_blocks msgs)))"

definition disposition_of :: "(error_data \<Rightarrow> string) \<Rightarrow> message list \<Rightarrow> tool_request \<Rightarrow> tool_disposition option" where
  "disposition_of show_error msgs r =
     (if was_executed_externally r \<or> tr_id r \<in> answered_in msgs then None
      else (case tr_tool_call r of
              Inl e \<Rightarrow> Some (ParseError (show_error e))
            | Inr _ \<Rightarrow>
                (if request_executable r \<noteq> Some False then Some Execute
                 else if tr_id r \<in> confirmations_in msgs
                         \<and> \<not> approval_denied (approvals_in msgs (tr_id r)) then None
                 else Some Declined)))"

definition pending_tool_requests ::
    "(error_data \<Rightarrow> string) \<Rightarrow> message list \<Rightarrow> (tool_request \<times> tool_disposition) list" where
  "pending_tool_requests show_error msgs =
     filter_map (\<lambda>r. map_option (Pair r) (disposition_of show_error msgs r))
       (filter_map as_tool_request (turn_blocks (filter (\<lambda>m. m_role m = Assistant) msgs)))"

definition pending_advertised_tool_requests ::
    "(error_data \<Rightarrow> string) \<Rightarrow> message list \<Rightarrow> (tool_request \<times> tool_disposition) list" where
  "pending_advertised_tool_requests show_error msgs =
     filter (\<lambda>(r, _). request_was_advertised msgs r) (pending_tool_requests show_error msgs)"

subsection \<open>Approval\<close>

definition permission_allows :: "permission \<Rightarrow> bool" where
  "permission_allows p = (p \<in> {AllowOnce, AlwaysAllow})"

definition mark_executable :: "string \<Rightarrow> bool \<Rightarrow> goose_effect" where
  "mark_executable tid executable =
     GConversation (PatchToolRequestMeta tid (JObject [(TOOL_EXECUTABLE_KEY, JBool executable)]))"

record approval_state =
  as_answered :: "string set"
  as_approval_requests :: "string set"
  as_approval_responses :: "string \<rightharpoonup> permission"
  as_tool_requests :: "tool_request list"

definition approval_state_of :: "message list \<Rightarrow> approval_state" where
  "approval_state_of msgs =
     \<lparr>as_answered = answered_in msgs, as_approval_requests = confirmations_in msgs,
      as_approval_responses = approvals_in msgs,
      as_tool_requests = filter (request_was_advertised msgs) (filter_map as_tool_request (turn_blocks msgs))\<rparr>"

record pending_response =
  pr_tool_call_id :: string
  pr_tool_name :: "string option"
  pr_permission :: permission
  pr_executable :: "bool option"

definition approval_responses :: "approval_state \<Rightarrow> pending_response list" where
  "approval_responses st =
     filter_map (\<lambda>r.
       if tr_id r \<in> as_answered st then None
       else map_option (\<lambda>p.
         \<lparr>pr_tool_call_id = tr_id r, pr_tool_name = map_option ctp_name (ok (tr_tool_call r)),
          pr_permission = p, pr_executable = request_executable r\<rparr>) (as_approval_responses st (tr_id r)))
       (as_tool_requests st)"

definition approval_pending :: "approval_state \<Rightarrow> tool_request list" where
  "approval_pending st =
     filter (\<lambda>r. \<not> (tr_id r \<in> as_answered st \<or> tr_id r \<in> as_approval_requests st
        \<or> as_approval_responses st (tr_id r) \<noteq> None \<or> was_executed_externally r
        \<or> request_executable r = Some False \<or> \<not> is_ok (tr_tool_call r))) (as_tool_requests st)"

definition has_confirmation_request :: "approval_state \<Rightarrow> string \<Rightarrow> bool" where
  "has_confirmation_request st i \<longleftrightarrow>
     i \<in> as_approval_requests st \<and> list_ex (\<lambda>r. tr_id r = i) (as_tool_requests st)"

definition has_unapplied_confirmation_response :: "approval_state \<Rightarrow> bool" where
  "has_unapplied_confirmation_response st =
     list_ex (\<lambda>r. tr_id r \<notin> as_answered st \<and> tr_id r \<in> as_approval_requests st
        \<and> as_approval_responses st (tr_id r) \<noteq> None) (as_tool_requests st)"

text \<open>A panic of the permission store ends the task; it is an error of the action.\<close>

definition update_permission_manager :: "goose_env \<Rightarrow> string \<Rightarrow> permission_level \<Rightarrow> (goose_world, unit) io" where
  "update_permission_manager env name level w =
     (if list_ex (\<lambda>i. ti_name i = ''permission'') (ge_inspectors env w)
      then (case update_user_permission (ge_yaml env) (ge_mutation_io env (w_tick w)) name level
                   (gw_permission_file w) (gw_permissions w) of
              (r, disk, pm) \<Rightarrow>
                ((case r of Inl _ \<Rightarrow> Inl ''panicked'' | Inr _ \<Rightarrow> Inr ()),
                 w\<lparr>w_tick := Suc (w_tick w), gw_permission_file := disk, gw_permissions := pm\<rparr>))
      else (Inr (), w))"

definition apply_response :: "goose_env \<Rightarrow> pending_response \<Rightarrow> (goose_world, goose_effect list) io" where
  "apply_response env p =
     (let executable = permission_allows (pr_permission p) in
      io_bind (case pr_tool_name p of
          None \<Rightarrow> io_ok ()
        | Some name \<Rightarrow>
            if pr_permission p = AlwaysAllow \<and> pr_executable p \<noteq> Some True
            then update_permission_manager env name LAlwaysAllow
            else if pr_permission p = AlwaysDeny
            then update_permission_manager env name LNeverAllow
            else io_ok ()) (\<lambda>_.
        io_ok (if pr_executable p \<noteq> Some executable
               then [mark_executable (pr_tool_call_id p) executable] else [])))"

definition security_message :: "inspection_result list \<Rightarrow> tool_request \<Rightarrow> string option" where
  "security_message results r =
     (case List.find (\<lambda>x. ir_tool_request_id x = tr_id r) results of
        None \<Rightarrow> None
      | Some x \<Rightarrow> (case ir_action x of RequireApproval (Some m) \<Rightarrow> Some m | _ \<Rightarrow> None))"

definition approval_question ::
    "goose_env \<Rightarrow> inspection_result list \<Rightarrow> tool_request \<Rightarrow> (goose_world, goose_effect list) io" where
  "approval_question env results r =
     (case tr_tool_call r of
        Inl e \<Rightarrow> io_err (ge_show_error env e)
      | Inr call \<Rightarrow>
          io_bind (now env) (\<lambda>t.
            io_ok [mark_executable (tr_id r) False,
              from_message (with_visibility True False (with_content (ActionRequired
                (ToolConfirmation (tr_id r) (ctp_name call)
                  (case ctp_arguments call of Some a \<Rightarrow> a | None \<Rightarrow> []) (security_message results r)))
                (message_assistant t)))]))"

definition inspection_decision ::
    "tool_inspector list \<Rightarrow> session \<Rightarrow> conversation \<Rightarrow> goose_mode \<Rightarrow> tool_request list
       \<Rightarrow> inspection_result list \<times> permission_check_result" where
  "inspection_decision inspectors s c mode pending =
     (let results = inspect_tools inspectors (ses_id s) pending c mode in
      (results, if list_ex (\<lambda>i. ti_name i = ''permission'') inspectors
                then process_inspection_results pending results
                else \<lparr>pcr_approved = [], pcr_needs_approval = [], pcr_denied = []\<rparr>))"

definition tool_approval_run :: "goose_env \<Rightarrow> session \<Rightarrow> conversation \<Rightarrow> goose_result" where
  "tool_approval_run env s c =
     io_bind (\<lambda>w. (Inr (gw_mode w), w)) (\<lambda>mode.
       if mode = Chat then not_applicable
       else io_bind (io_of (messages_since_kickoff c)) (\<lambda>turn.
         let st = approval_state_of turn in
         io_bind (io_map (apply_response env) (approval_responses st)) (\<lambda>marks.
         io_bind (\<lambda>w. (Inr (ge_inspectors env w), w)) (\<lambda>inspectors.
         io_bind
           (let pending = approval_pending st in
            if pending = [] then io_ok []
            else (case inspection_decision inspectors s c mode pending of
                    (results, decision) \<Rightarrow>
                      io_bind (io_map (approval_question env results) (pcr_needs_approval decision)) (\<lambda>questions.
                        io_ok (map (\<lambda>r. mark_executable (tr_id r) False) (pcr_denied decision)
                          @ concat questions)))) (\<lambda>decided.
           let effects = concat marks @ decided in
           if effects = [] then not_applicable else applied effects)))))"

subsection \<open>Confirmations of the user\<close>

definition active_turn_messages :: "conversation \<Rightarrow> message list" where
  "active_turn_messages c = (case rposition is_kickoff c of Some start \<Rightarrow> drop start c | None \<Rightarrow> c)"

definition confirmation_request :: "message_content_block \<Rightarrow> tool_confirmation_request option" where
  "confirmation_request b =
     (case b of
        ActionRequired (ToolConfirmation i name args prompt) \<Rightarrow>
          Some \<lparr>tcr_id = i, tcr_tool_name = name, tcr_arguments = args, tcr_prompt = prompt\<rparr>
      | _ \<Rightarrow> None)"

definition pending_tool_confirmations :: "conversation \<Rightarrow> tool_confirmation_request list" where
  "pending_tool_confirmations c =
     (let turn = active_turn_messages c in
      filter (\<lambda>q. tcr_id q \<notin> answered_in turn \<and> approvals_in turn (tcr_id q) = None)
        (filter_map confirmation_request (turn_blocks turn)))"

definition has_unapplied_tool_confirmation_response :: "conversation \<Rightarrow> bool" where
  "has_unapplied_tool_confirmation_response c =
     has_unapplied_confirmation_response (approval_state_of (active_turn_messages c))"

definition persist_tool_confirmation_decision ::
    "goose_env \<Rightarrow> string \<Rightarrow> string \<Rightarrow> permission \<Rightarrow> (goose_world, unit) io" where
  "persist_tool_confirmation_decision env sid rid p =
     io_bind (load_session env sid) (\<lambda>s.
       case ses_conversation s of
         None \<Rightarrow> io_err (''Session '' @ sid @ '' has no conversation'')
       | Some c \<Rightarrow>
           io_bind (io_of (messages_since_kickoff c)) (\<lambda>turn.
             let st = approval_state_of turn in
             if \<not> has_confirmation_request st rid
             then io_err (''Tool request '' @ rid @ '' is not awaiting confirmation in session '' @ sid)
             else (case as_approval_responses st rid of
                     Some q \<Rightarrow>
                       if q = p then io_ok ()
                       else io_err (''Tool request '' @ rid @ '' already has a different confirmation decision'')
                   | None \<Rightarrow>
                       if rid \<in> as_answered st
                       then io_err (''Tool request '' @ rid @ '' already has a response'')
                       else io_bind (now env) (\<lambda>t.
                         store_message env sid (with_content (ActionRequired (ToolConfirmationResponse rid p))
                           (with_visibility False False (message_user t)))))))"

subsection \<open>Hooks around a tool call\<close>

datatype tool_category = ShellTool | ReadTool | WriteTool | OtherTool

definition last_name_part :: "string \<Rightarrow> string" where
  "last_name_part name =
     (case str_find ''__'' (rev name) of None \<Rightarrow> name | Some i \<Rightarrow> rev (take i (rev name)))"

definition categorize_tool :: "string \<Rightarrow> tool_category" where
  "categorize_tool name =
     (let part = last_name_part name in
      if part \<in> {''shell'', ''bash'', ''exec'', ''run''} then ShellTool
      else if part \<in> {''read'', ''view'', ''cat'', ''read_file''} then ReadTool
      else if part \<in> {''write'', ''edit'', ''patch'', ''write_file'', ''edit_file''} then WriteTool
      else OtherTool)"

definition string_argument :: "string list \<Rightarrow> json \<Rightarrow> string option" where
  "string_argument keys input =
     (case input of
        JObject obj \<Rightarrow>
          first_opt (filter_map (\<lambda>k.
            case Option.bind (map_of obj k) as_str of
              Some s \<Rightarrow> if s = [] then None else Some s
            | None \<Rightarrow> None) keys)
      | _ \<Rightarrow> None)"

definition tool_context :: "hook_event \<Rightarrow> session \<Rightarrow> string \<Rightarrow> json option \<Rightarrow> hook_context" where
  "tool_context ev s name input =
     hook_with_working_dir (ses_working_dir s) (hook_with_tool name input (hook_context_new ev (ses_id s)))"

definition emit_pre_tool_use_result ::
    "goose_env \<Rightarrow> session \<Rightarrow> string \<Rightarrow> string \<Rightarrow> json option \<Rightarrow> hook_chain_outcome \<Rightarrow> (goose_world, unit) io" where
  "emit_pre_tool_use_result env s tid name input outcome w =
     (Inr (), emit_hook_result (ge_hook_codec env) (goose_run_hook env) (ge_hook_rules env)
        (with_pre_tool_use_outcome outcome
          (hook_with_tool_call_id tid (tool_context PreToolUseResult s name input))) w)"

definition run_pre_tool_hooks ::
    "goose_env \<Rightarrow> session \<Rightarrow> string \<Rightarrow> string \<Rightarrow> json option \<Rightarrow> (goose_world, error_data + unit) io" where
  "run_pre_tool_hooks env s tid name input =
     io_bind (if has_hooks (ge_hook_rules env) PreToolUse
              then ask_hooks env PreToolUse (hook_with_tool_call_id tid (tool_context PreToolUse s name input))
              else io_ok (outcome_allow False)) (\<lambda>outcome.
     io_bind (emit_pre_tool_use_result env s tid name input outcome) (\<lambda>_.
       io_ok (case outcome_denial outcome of
                Some msg \<Rightarrow> Inl (internal_error msg) | None \<Rightarrow> Inr ())))"

definition emit_with_matcher ::
    "goose_env \<Rightarrow> hook_event \<Rightarrow> session \<Rightarrow> string \<Rightarrow> string \<Rightarrow> json option \<Rightarrow> (goose_world, unit) io" where
  "emit_with_matcher env ev s matcher name input =
     fire_hook env ev ((tool_context ev s name input)\<lparr>hc_matcher_context := Some matcher\<rparr>)"

definition emit_extended_pre_hooks ::
    "goose_env \<Rightarrow> string \<Rightarrow> json option \<Rightarrow> session \<Rightarrow> (goose_world, unit) io" where
  "emit_extended_pre_hooks env name input s =
     (let (ev, keys) = (case categorize_tool name of
            ShellTool \<Rightarrow> (Some BeforeShellExecution, [''command''])
          | ReadTool \<Rightarrow> (Some BeforeReadFile, [''path'', ''file'', ''file_path''])
          | _ \<Rightarrow> (None, [])) in
      case (ev, Option.bind input (string_argument keys)) of
        (Some ev, Some matcher) \<Rightarrow> emit_with_matcher env ev s matcher name input
      | _ \<Rightarrow> io_ok ())"

definition post_tool_event :: "call_tool_result tool_result \<Rightarrow> hook_event" where
  "post_tool_event res =
     (case res of
        Inr r \<Rightarrow> if ctr_is_error r \<noteq> Some True then PostToolUse else PostToolUseFailure
      | Inl _ \<Rightarrow> PostToolUseFailure)"

definition emit_post_tool_use ::
    "goose_env \<Rightarrow> session \<Rightarrow> string \<Rightarrow> string \<Rightarrow> json option \<Rightarrow> call_tool_result tool_result
       \<Rightarrow> (goose_world, hook_event) io" where
  "emit_post_tool_use env s name tid input res =
     (let ev = post_tool_event res in
      io_bind (fire_hook env ev (hook_with_tool_call_id tid (tool_context ev s name input))) (\<lambda>_. io_ok ev))"

definition tool_input :: "call_tool_request_params \<Rightarrow> json option" where
  "tool_input call = map_option JObject (ctp_arguments call)"

definition with_post_tool_hooks ::
    "goose_env \<Rightarrow> session \<Rightarrow> call_tool_request_params \<Rightarrow> string \<Rightarrow> call_tool_result tool_result
       \<Rightarrow> (goose_world, call_tool_result tool_result) io" where
  "with_post_tool_hooks env s call tid raw =
     (let res = ge_process_response env raw; name = ctp_name call; input = tool_input call in
      io_bind (emit_post_tool_use env s name tid input res) (\<lambda>ev.
      io_bind (if ev = PostToolUse
               then (let (ext, keys) = (case categorize_tool name of
                       ShellTool \<Rightarrow> (Some AfterShellExecution, [''command''])
                     | WriteTool \<Rightarrow> (Some AfterFileEdit, [''path'', ''file'', ''file_path''])
                     | _ \<Rightarrow> (None, [])) in
                     case (ext, Option.bind input (string_argument keys)) of
                       (Some ext, Some matcher) \<Rightarrow> emit_with_matcher env ext s matcher name input
                     | _ \<Rightarrow> io_ok ())
               else io_ok ()) (\<lambda>_. io_ok res)))"

subsection \<open>Execution\<close>

text \<open>What starting a call gives: the error of a hook that denied it, or a running tool.\<close>

record started_call =
  st_request :: tool_request
  st_call :: call_tool_request_params
  st_denied :: "error_data option"

definition dispatch_tool_call :: "goose_env \<Rightarrow> session \<Rightarrow> tool_request \<Rightarrow> (goose_world, started_call) io" where
  "dispatch_tool_call env s r =
     (case tr_tool_call r of
        Inl e \<Rightarrow> io_err (''tool call could not be parsed: '' @ ge_show_error env e)
      | Inr call \<Rightarrow>
          io_bind (run_pre_tool_hooks env s (tr_id r) (ctp_name call) (tool_input call)) (\<lambda>allowed.
            case allowed of
              Inl e \<Rightarrow> io_ok \<lparr>st_request = r, st_call = call, st_denied = Some e\<rparr>
            | Inr _ \<Rightarrow>
                io_bind (emit_extended_pre_hooks env (ctp_name call) (tool_input call) s) (\<lambda>_.
                  io_ok \<lparr>st_request = r, st_call = call, st_denied = None\<rparr>)))"

definition platform_notification :: "call_tool_result \<Rightarrow> json option" where
  "platform_notification r =
     Option.bind (Option.bind (json_get ''_meta'' (ctr_rest r)) (json_get ''platform_notification'')) (\<lambda>n.
     Option.bind (Option.bind (json_get ''method'' n) as_str) (\<lambda>method.
       Some (JObject ((''method'', JString method)
         # (case json_get ''params'' n of Some p \<Rightarrow> [(''params'', p)] | None \<Rightarrow> [])))))"

definition declined_result :: "call_tool_result tool_result" where
  "declined_result = Inr (call_tool_error [content_text DECLINED_RESPONSE])"

definition unparsed_result :: "string \<Rightarrow> string \<Rightarrow> call_tool_result tool_result" where
  "unparsed_result e hint =
     Inr (call_tool_error [content_text (''The tool call could not be parsed: '' @ e @ ''.'' @ hint)])"

definition skipped_result :: "call_tool_result tool_result" where
  "skipped_result = Inr (call_tool_success [content_text CHAT_MODE_TOOL_SKIPPED_RESPONSE])"

definition add_response ::
    "goose_env \<Rightarrow> tool_request \<Rightarrow> call_tool_result tool_result \<Rightarrow> message \<Rightarrow> message" where
  "add_response env r res = add_tool_response_with_metadata (e_text env) (tr_id r) res (tr_metadata r)"

text \<open>The answers to the requests that are not executed.\<close>

fun answer_unexecuted :: "goose_env \<Rightarrow> (tool_request \<times> tool_disposition) list \<Rightarrow> message \<Rightarrow> message" where
  "answer_unexecuted env [] m = m"
| "answer_unexecuted env ((r, d) # rest) m =
     answer_unexecuted env rest
       (case d of
          Execute \<Rightarrow> m
        | Declined \<Rightarrow> add_response env r declined_result m
        | ParseError e \<Rightarrow> add_response env r (unparsed_result e '' Correct the arguments and try again.'') m)"

text \<open>
  The items of the combined streams, in the order in which they arrive until all streams have
  ended or the turn is cancelled: the position of the call they belong to, and the item.
\<close>

record execution_state =
  es_response :: message
  es_effects :: "goose_effect list"
  es_change_failed :: bool

definition is_manage_extensions :: "tool_request \<Rightarrow> bool" where
  "is_manage_extensions r =
     (case tr_tool_call r of Inr call \<Rightarrow> ctp_name call = MANAGE_EXTENSIONS_TOOL_NAME_COMPLETE | Inl _ \<Rightarrow> False)"

definition manage_extensions_ids :: "tool_request list \<Rightarrow> string set" where
  "manage_extensions_ids requests = tr_id ` set (filter is_manage_extensions requests)"

fun take_items ::
    "goose_env \<Rightarrow> session \<Rightarrow> tool_request list \<Rightarrow> started_call list \<Rightarrow> (nat \<times> tool_stream_item) list
       \<Rightarrow> execution_state \<Rightarrow> (goose_world, execution_state) io" where
  "take_items env s requests calls [] st = io_ok st"
| "take_items env s requests calls ((i, item) # items) st =
     (if i \<ge> length calls then take_items env s requests calls items st
      else
        let started = calls ! i; r = st_request started in
        case item of
          StreamResult raw \<Rightarrow>
            io_bind (case st_denied started of
                Some e \<Rightarrow> io_ok (Inl e)
              | None \<Rightarrow> with_post_tool_hooks env s (st_call started) (tr_id r) raw) (\<lambda>output.
            io_bind (case output of
                Inr res \<Rightarrow> (case platform_notification res of
                    Some n \<Rightarrow> emit_event (EvMcpNotification (tr_id r) n) | None \<Rightarrow> io_ok ())
              | Inl _ \<Rightarrow> io_ok ()) (\<lambda>_.
              take_items env s requests calls items
                (st\<lparr>es_response := add_tool_response_with_metadata (e_text env) (tr_id r) output
                      (Option.bind (List.find (\<lambda>q. tr_id q = tr_id r) requests) tr_metadata) (es_response st),
                    es_change_failed := es_change_failed st
                      \<or> (tr_id r \<in> manage_extensions_ids requests \<and> \<not> is_ok output)\<rparr>)))
        | StreamMessage n \<Rightarrow>
            io_bind (emit_event (EvMcpNotification (tr_id r) n)) (\<lambda>_.
              take_items env s requests calls items st)
        | StreamAction m \<Rightarrow>
            io_bind (emit_message env m) (\<lambda>m'.
              take_items env s requests calls items (st\<lparr>es_effects := es_effects st @ [from_message m']\<rparr>)))"

fun answer_interrupted :: "goose_env \<Rightarrow> string set \<Rightarrow> tool_request list \<Rightarrow> message \<Rightarrow> message" where
  "answer_interrupted env answered [] m = m"
| "answer_interrupted env answered (r # rs) m =
     answer_interrupted env answered rs
       (if tr_id r \<in> answered then m else add_response env r interrupted_result m)"

definition known_pending ::
    "goose_env \<Rightarrow> tool list \<Rightarrow> message list \<Rightarrow> (tool_request \<times> tool_disposition) list" where
  "known_pending env tools turn =
     filter (\<lambda>(r, _). case tr_tool_call r of
         Inr call \<Rightarrow> ctp_name call \<in> tool_name ` set tools | Inl _ \<Rightarrow> False)
       (pending_advertised_tool_requests (ge_show_error env) turn)"

fun skip_all :: "goose_env \<Rightarrow> (tool_request \<times> tool_disposition) list \<Rightarrow> message \<Rightarrow> message" where
  "skip_all env [] m = m"
| "skip_all env ((r, d) # rest) m =
     skip_all env rest
       (add_response env r
         (case d of ParseError e \<Rightarrow> unparsed_result e [] | _ \<Rightarrow> skipped_result) m)"

definition execute_pending ::
    "goose_env \<Rightarrow> session \<Rightarrow> (tool_request \<times> tool_disposition) list \<Rightarrow> goose_result" where
  "execute_pending env s pending =
     (let requests = map fst pending in
      io_bind (io_map (dispatch_tool_call env s) (map fst (filter (\<lambda>(_, d). d = Execute) pending))) (\<lambda>calls.
      io_bind (now env) (\<lambda>t.
      io_bind (ask (ge_tool_items env)) (\<lambda>items.
      io_bind (take_items env s requests calls items
          \<lparr>es_response = answer_unexecuted env pending (message_user t), es_effects = [],
           es_change_failed = False\<rparr>) (\<lambda>st.
      let response = answer_interrupted env (get_tool_response_ids (es_response st)) requests (es_response st) in
      io_bind (if manage_extensions_ids requests \<noteq> {} \<and> \<not> es_change_failed st
               then io_bind (ask (ge_extension_state env)) (\<lambda>f.
                      io_bind (io_of (f (ses_extension_data s))) (\<lambda>d. io_ok [GSetExtensionData d]))
               else io_ok []) (\<lambda>state_effects.
      io_bind (new_uuid env) (\<lambda>u.
        let response' = with_generated_id_if_missing u response in
        io_bind (emit_event (EvMessage (user_visible_content response'))) (\<lambda>_.
          applied (es_effects st @ state_effects @ [from_message response'])))))))))"

definition tool_execution_run :: "goose_env \<Rightarrow> session \<Rightarrow> conversation \<Rightarrow> goose_result" where
  "tool_execution_run env s c =
     io_bind (io_of (messages_since_kickoff c)) (\<lambda>turn.
       if pending_advertised_tool_requests (ge_show_error env) turn = [] then not_applicable
       else io_bind (ask (ge_known_tools env)) (\<lambda>tools.
         let pending = known_pending env (case tools of Some ts \<Rightarrow> ts | None \<Rightarrow> []) turn in
         if pending = [] then not_applicable
         else io_bind (\<lambda>w. (Inr (gw_mode w), w)) (\<lambda>mode.
           if mode = Chat
           then io_bind (now env) (\<lambda>t.
                io_bind (emit_message env (skip_all env pending (message_user t))) (\<lambda>m. applied [from_message m]))
           else execute_pending env s pending)))"

subsection \<open>Requests nobody handles\<close>

definition reserved_final_output :: "session \<Rightarrow> message list \<Rightarrow> tool_request \<times> tool_disposition \<Rightarrow> bool" where
  "reserved_final_output s turn = (\<lambda>(r, d).
     (case ses_recipe s of Some rp \<Rightarrow> rp_response rp \<noteq> None | None \<Rightarrow> False)
     \<and> d = Execute \<and> request_was_advertised turn r
     \<and> (case tr_tool_call r of Inr call \<Rightarrow> ctp_name call = FINAL_OUTPUT_TOOL_NAME | Inl _ \<Rightarrow> False))"

definition not_available :: "string \<Rightarrow> call_tool_result tool_result" where
  "not_available name =
     Inr (call_tool_error [content_text (''Tool '' @ [CHR 0x27] @ name @ [CHR 0x27] @ '' is not available.'')])"

definition unclaimed_result ::
    "goose_env \<Rightarrow> session \<Rightarrow> message list \<Rightarrow> tool_request \<times> tool_disposition
       \<Rightarrow> (goose_world, call_tool_result tool_result \<times> bool) io" where
  "unclaimed_result env s turn = (\<lambda>(r, d).
     let name = (case tr_tool_call r of Inr call \<Rightarrow> ctp_name call | Inl _ \<Rightarrow> ''unknown'') in
     case d of
       ParseError e \<Rightarrow> io_ok (unparsed_result e '' Correct the arguments and try again.'', False)
     | Declined \<Rightarrow> io_ok (declined_result, False)
     | Execute \<Rightarrow>
         if \<not> request_was_advertised turn r then io_ok (not_available name, True)
         else if ses_goose_mode s = Chat then io_ok (skipped_result, False)
         else (case tr_tool_call r of
                 Inl e \<Rightarrow> io_ok (unparsed_result (ge_show_error env e) [], False)
               | Inr call \<Rightarrow>
                   io_bind (run_pre_tool_hooks env s (tr_id r) (ctp_name call) (tool_input call)) (\<lambda>allowed.
                     case allowed of
                       Inl denial \<Rightarrow> io_ok (Inl denial, False)
                     | Inr _ \<Rightarrow>
                         io_bind (emit_extended_pre_hooks env (ctp_name call) (tool_input call) s) (\<lambda>_.
                         let (output, unclaimed) =
                           (if ctp_name call = FINAL_OUTPUT_TOOL_NAME
                               \<and> \<not> (case ses_recipe s of Some rp \<Rightarrow> rp_response rp \<noteq> None | None \<Rightarrow> False)
                            then (Inl (internal_error ''Final output tool not defined''), False)
                            else (not_available (ctp_name call), True)) in
                         io_bind (emit_post_tool_use env s (ctp_name call) (tr_id r) (tool_input call) output)
                           (\<lambda>_. io_ok (output, unclaimed))))))"

definition unclaimed_metadata :: "bool \<Rightarrow> provider_metadata option \<Rightarrow> provider_metadata option" where
  "unclaimed_metadata unclaimed md =
     (if unclaimed
      then Some (AList.update UNCLAIMED_TOOL_ERROR (JBool True) (case md of Some m \<Rightarrow> m | None \<Rightarrow> []))
      else md)"

fun answer_unclaimed ::
    "goose_env \<Rightarrow> session \<Rightarrow> message list \<Rightarrow> (tool_request \<times> tool_disposition) list \<Rightarrow> message
       \<Rightarrow> (goose_world, message) io" where
  "answer_unclaimed env s turn [] m = io_ok m"
| "answer_unclaimed env s turn ((r, d) # rest) m =
     io_bind (unclaimed_result env s turn (r, d)) (\<lambda>(res, unclaimed).
       answer_unclaimed env s turn rest
         (add_tool_response_with_metadata (e_text env) (tr_id r) res
           (unclaimed_metadata unclaimed (tr_metadata r)) m))"

definition unknown_tool_run :: "goose_env \<Rightarrow> session \<Rightarrow> conversation \<Rightarrow> goose_result" where
  "unknown_tool_run env s c =
     io_bind (io_of (messages_since_kickoff c)) (\<lambda>turn.
       let pending = filter (\<lambda>p. \<not> reserved_final_output s turn p)
             (pending_tool_requests (ge_show_error env) turn) in
       if pending = [] then not_applicable
       else io_bind (now env) (\<lambda>t.
            io_bind (answer_unclaimed env s turn pending (message_user t)) (\<lambda>response.
            io_bind (emit_message env response) (\<lambda>m. applied [from_message m]))))"

subsection \<open>Answers\<close>

text \<open>A message of the user that holds tool responses and nothing else.\<close>

definition answer_message :: "message \<Rightarrow> string list \<Rightarrow> bool" where
  "answer_message m ids \<longleftrightarrow> m_role m = User \<and> m_metadata m = metadata_default
     \<and> map response_id (m_content m) = map Some ids"

lemma answer_message_user: "answer_message (message_user t) []"
  by (simp add: answer_message_def message_user_def message_new_def)

lemma answer_message_add:
  "answer_message m ids \<Longrightarrow> answer_message (add_tool_response_with_metadata te i res md m) (ids @ [i])"
  by (simp add: answer_message_def add_tool_response_with_metadata_def)

lemma answer_message_id [simp]:
  "answer_message (with_generated_id_if_missing u m) ids = answer_message m ids"
  by (simp add: answer_message_def)

lemma filter_map_none: "list_all (\<lambda>b. f b = None) bs \<Longrightarrow> filter_map f bs = []"
  by (induction bs) auto

lemma answer_blocks:
  assumes "answer_message m ids"
  shows "filter_map response_id (m_content m) = ids" "filter_map as_tool_request (m_content m) = []"
    "filter_map confirmation_id (m_content m) = []" "filter_map confirmation_response (m_content m) = []"
proof -
  have "map response_id bs = map Some ids \<Longrightarrow> filter_map response_id bs = ids" for bs
    by (induction bs arbitrary: ids) auto
  with assms show "filter_map response_id (m_content m) = ids" by (simp add: answer_message_def)
  have "set (map response_id (m_content m)) \<subseteq> range Some"
    using assms by (auto simp: answer_message_def)
  then have "list_all (\<lambda>b. \<exists>r. b = ToolResponse r) (m_content m)"
    by (auto simp: list_all_iff response_id_def split: message_content_block.splits)
  then show "filter_map as_tool_request (m_content m) = []"
    "filter_map confirmation_id (m_content m) = []" "filter_map confirmation_response (m_content m) = []"
    by (fastforce simp: list_all_iff as_tool_request_def confirmation_id_def confirmation_response_def
        intro!: filter_map_none)+
qed

lemma answer_message_ids: "answer_message m ids \<Longrightarrow> get_tool_response_ids m = set ids"
  by (simp add: get_tool_response_ids_def answer_blocks)

lemma answer_message_not_kickoff: "answer_message m ids \<Longrightarrow> ids \<noteq> [] \<Longrightarrow> \<not> is_kickoff m"
  by (cases "m_content m")
    (auto simp: answer_message_def is_kickoff_def is_tool_response_def response_id_def
      split: message_content_block.splits)

lemma turn_blocks_append [simp]: "turn_blocks (ms @ ms') = turn_blocks ms @ turn_blocks ms'"
  by (simp add: turn_blocks_def)

lemma turn_blocks_one [simp]: "turn_blocks [m] = m_content m"
  by (simp add: turn_blocks_def)

lemma pending_after_answers:
  assumes "answer_message m ids"
  shows "pending_tool_requests sh (turn @ [m])
    = filter (\<lambda>(r, _). tr_id r \<notin> set ids) (pending_tool_requests sh turn)"
proof -
  have tables: "answered_in (turn @ [m]) = answered_in turn \<union> set ids"
    "confirmations_in (turn @ [m]) = confirmations_in turn" "approvals_in (turn @ [m]) = approvals_in turn"
    by (simp_all add: answered_in_def confirmations_in_def approvals_in_def answer_blocks [OF assms])
  have disp: "disposition_of sh (turn @ [m]) r = (if tr_id r \<in> set ids then None else disposition_of sh turn r)" for r
    by (cases "tr_id r \<in> set ids") (simp_all add: disposition_of_def tables cong: sum.case_cong if_cong)
  have "filter_map (\<lambda>r. map_option (Pair r) (if P r then None else f r)) rs
      = filter (\<lambda>(r, _). \<not> P r) (filter_map (\<lambda>r. map_option (Pair r) (f r)) rs)" for P f rs
    by (induction rs) (auto split: option.splits)
  note this [of "\<lambda>r. tr_id r \<in> set ids" "disposition_of sh turn"]
  then show ?thesis
    using assms by (simp add: pending_tool_requests_def disp answer_message_def)
qed

lemma skip_all_answers:
  "answer_message m ids \<Longrightarrow> answer_message (skip_all env ps m) (ids @ map (tr_id \<circ> fst) ps)"
proof (induction ps arbitrary: m ids)
  case (Cons p ps)
  obtain r d where p: "p = (r, d)" by fastforce
  show ?case
    using Cons.IH [OF answer_message_add [OF Cons.prems]] by (simp add: p add_response_def)
qed simp

lemma answer_unexecuted_answers:
  "answer_message m ids \<Longrightarrow>
     answer_message (answer_unexecuted env ps m) (ids @ map (tr_id \<circ> fst) (filter (\<lambda>(_, d). d \<noteq> Execute) ps))"
proof (induction ps arbitrary: m ids)
  case (Cons p ps)
  obtain r d where p: "p = (r, d)" by fastforce
  show ?case
    using Cons.IH [OF Cons.prems] Cons.IH [OF answer_message_add [OF Cons.prems]]
    by (cases d) (simp_all add: p add_response_def)
qed simp

lemma answer_interrupted_answers:
  "answer_message m ids \<Longrightarrow>
     answer_message (answer_interrupted env answered rs m) (ids @ map tr_id (filter (\<lambda>r. tr_id r \<notin> answered) rs))"
proof (induction rs arbitrary: m ids)
  case (Cons r rs)
  show ?case
    using Cons.IH [OF Cons.prems] Cons.IH [OF answer_message_add [OF Cons.prems]]
    by (simp add: add_response_def)
qed simp

text \<open>The calls whose result arrives, in the order of arrival.\<close>

definition result_calls :: "(nat \<times> tool_stream_item) list \<Rightarrow> nat list" where
  "result_calls items = filter_map (\<lambda>(i, item). case item of StreamResult _ \<Rightarrow> Some i | _ \<Rightarrow> None) items"

definition asks_user :: "tool_stream_item \<Rightarrow> bool" where
  "asks_user i = (case i of StreamAction _ \<Rightarrow> True | _ \<Rightarrow> False)"

lemma take_items_answers:
  "take_items env s requests calls items st w = (Inr st', w') \<Longrightarrow> answer_message (es_response st) ids \<Longrightarrow>
     answer_message (es_response st') (ids @ map (\<lambda>i. tr_id (st_request (calls ! i)))
         (filter (\<lambda>i. i < length calls) (result_calls items)))
     \<and> (\<exists>ms. es_effects st' = es_effects st @ map from_message ms \<and> (list_all (\<lambda>(_, i). \<not> asks_user i) items \<longrightarrow> ms = []))"
proof (induction items arbitrary: st w ids)
  case (Cons it items)
  obtain i item where it: "it = (i, item)" by fastforce
  show ?case
  proof (cases "i < length calls")
    case False
    with Cons.prems(1) have "take_items env s requests calls items st w = (Inr st', w')" by (simp add: it)
    from Cons.IH [OF this Cons.prems(2)] False show ?thesis
      by (auto simp: it result_calls_def split: tool_stream_item.splits)
  next
    case True
    show ?thesis
    proof (cases item)
      case (StreamResult raw)
      with Cons.prems(1) True obtain res v where
        "take_items env s requests calls items
          (st\<lparr>es_response := add_tool_response_with_metadata (e_text env) (tr_id (st_request (calls ! i))) res
               (Option.bind (List.find (\<lambda>q. tr_id q = tr_id (st_request (calls ! i))) requests) tr_metadata) (es_response st),
              es_change_failed := es_change_failed st
                \<or> (tr_id (st_request (calls ! i)) \<in> manage_extensions_ids requests \<and> \<not> is_ok res)\<rparr>) v
          = (Inr st', w')"
        by (auto simp: it io_bind_eq_Inr Let_def)
      from Cons.IH [OF this, of "ids @ [tr_id (st_request (calls ! i))]"] answer_message_add [OF Cons.prems(2)] True
      show ?thesis
        by (auto simp: it StreamResult result_calls_def)
    next
      case (StreamMessage n)
      with Cons.prems(1) True obtain v where
        "take_items env s requests calls items st v = (Inr st', w')"
        by (auto simp: it io_bind_eq_Inr Let_def)
      from Cons.IH [OF this Cons.prems(2)] show ?thesis
        by (auto simp: it StreamMessage result_calls_def)
    next
      case (StreamAction m)
      with Cons.prems(1) True obtain v m' where
        "take_items env s requests calls items (st\<lparr>es_effects := es_effects st @ [from_message m']\<rparr>) v = (Inr st', w')"
        by (auto simp: it io_bind_eq_Inr Let_def)
      from Cons.IH [OF this] Cons.prems(2) obtain ms where
        "answer_message (es_response st') (ids @ map (\<lambda>i. tr_id (st_request (calls ! i)))
           (filter (\<lambda>i. i < length calls) (result_calls items)))"
        "es_effects st' = (es_effects st @ [from_message m']) @ map from_message ms" by auto
      then show ?thesis
        by (auto simp: it StreamAction result_calls_def asks_user_def intro!: exI [of _ "m' # ms"])
    qed
  qed
qed (auto simp: result_calls_def)

lemma dispatch_request: "dispatch_tool_call env s r w = (Inr st, w') \<Longrightarrow> st_request st = r"
  unfolding dispatch_tool_call_def io_bind_def by (fastforce split: sum.splits prod.splits simp: io_bind_eq_Inr)

lemma dispatch_requests:
  assumes "io_map (dispatch_tool_call env s) rs w = (Inr calls, w')"
  shows "map st_request calls = rs"
proof -
  have "list_all2 (\<lambda>r st. st_request st = r) rs calls"
    using dispatch_request assms by (rule io_map_all2)
  then show ?thesis by (induction rule: list_all2_induct) auto
qed

lemma answered_once:
  assumes "distinct (map tr_id requests)" and "distinct js" and "map st_request calls = filter P requests"
    and ids: "ids = map tr_id (filter (\<lambda>r. \<not> P r) requests)
      @ map (\<lambda>i. tr_id (st_request (calls ! i))) (filter (\<lambda>i. i < length calls) js)"
  shows "mset (ids @ map tr_id (filter (\<lambda>r. tr_id r \<notin> set ids) requests)) = mset (map tr_id requests)"
proof -
  let ?is = "filter (\<lambda>i. i < length calls) js"
  have nth: "map (\<lambda>i. tr_id (st_request (calls ! i))) ?is = map (\<lambda>i. map tr_id (filter P requests) ! i) ?is"
    by (rule map_cong) (auto simp: assms(3) [symmetric])
  have inj: "inj_on tr_id (set requests)" using assms(1) by (simp add: distinct_map)
  have len: "length calls = length (filter P requests)" by (simp flip: assms(3))
  have "distinct (map (\<lambda>i. map tr_id (filter P requests) ! i) ?is)"
    using assms(1,2) len
    by (auto simp: distinct_map inj_on_def nth_eq_iff_index_eq distinct_map_filter simp del: nth_map)
  moreover have "set (map (\<lambda>i. map tr_id (filter P requests) ! i) ?is) \<subseteq> tr_id ` set (filter P requests)"
    using len by (auto simp del: nth_map) (metis length_map list.set_map nth_mem set_filter)
  moreover have "tr_id ` set (filter P requests) \<inter> tr_id ` set (filter (\<lambda>r. \<not> P r) requests) = {}"
    using inj by (auto simp: inj_on_def)
  moreover have "distinct (map tr_id (filter (\<lambda>r. \<not> P r) requests))"
    using assms(1) by (rule distinct_map_filter)
  ultimately have d: "distinct ids" and sub: "set ids \<subseteq> tr_id ` set requests"
    unfolding ids nth by auto
  have "distinct (ids @ map tr_id (filter (\<lambda>r. tr_id r \<notin> set ids) requests))"
    using d assms(1) by (auto simp: distinct_map_filter)
  moreover have "set (ids @ map tr_id (filter (\<lambda>r. tr_id r \<notin> set ids) requests)) = set (map tr_id requests)"
    using sub by auto
  ultimately show ?thesis using assms(1) by (metis set_eq_iff_mset_eq_distinct)
qed

lemma execute_pending_answers:
  assumes "execute_pending env s pending w = (Inr (Applied r), w')"
  shows "\<exists>ms es m ids (calls :: started_call list) items w1. sr_effects r = map from_message ms @ es @ [from_message m] \<and> \<not> sr_yield_to_client r
    \<and> (es = [] \<or> (\<exists>d. es = [GSetExtensionData d])) \<and> (list_all (\<lambda>(_, i). \<not> asks_user i) items \<longrightarrow> ms = [])
    \<and> answer_message m (ids @ map tr_id (filter (\<lambda>r. tr_id r \<notin> set ids) (map fst pending)))
    \<and> map st_request calls = map fst (filter (\<lambda>(_, d). d = Execute) pending)
    \<and> items = ge_tool_items env w1
    \<and> ids = map (tr_id \<circ> fst) (filter (\<lambda>(_, d). d \<noteq> Execute) pending)
        @ map (\<lambda>i. tr_id (st_request (calls ! i))) (filter (\<lambda>i. i < length calls) (result_calls items))"
proof -
  let ?rs = "map fst (filter (\<lambda>(_, d). d = Execute) pending)" and ?requests = "map fst pending"
  from assms obtain calls w1 t w2 items w3 st w4 es w5 u w6 where
    d: "io_map (dispatch_tool_call env s) ?rs w = (Inr calls, w1)"
    and n: "now env w1 = (Inr t, w2)" and i: "ask (ge_tool_items env) w2 = (Inr items, w3)"
    and st: "take_items env s ?requests calls items
        \<lparr>es_response = answer_unexecuted env pending (message_user t), es_effects = [], es_change_failed = False\<rparr> w3
        = (Inr st, w4)"
    and es: "(if manage_extensions_ids ?requests \<noteq> {} \<and> \<not> es_change_failed st
         then io_bind (ask (ge_extension_state env)) (\<lambda>f.
                io_bind (io_of (f (ses_extension_data s))) (\<lambda>d. io_ok [GSetExtensionData d]))
         else io_ok []) w4 = (Inr es, w5)"
    and u: "new_uuid env w5 = (Inr u, w6)"
    and r: "sr_effects r = es_effects st @ es @ [from_message (with_generated_id_if_missing u
        (answer_interrupted env (get_tool_response_ids (es_response st)) ?requests (es_response st)))]"
      "\<not> sr_yield_to_client r"
    unfolding execute_pending_def Let_def by (auto simp: io_bind_eq_Inr applied_def)
  define ids where "ids = map (tr_id \<circ> fst) (filter (\<lambda>(_, d). d \<noteq> Execute) pending)
        @ map (\<lambda>i. tr_id (st_request (calls ! i))) (filter (\<lambda>i. i < length calls) (result_calls items))"
  from take_items_answers [OF st, of "map (tr_id \<circ> fst) (filter (\<lambda>(_, d). d \<noteq> Execute) pending)"]
    answer_unexecuted_answers [OF answer_message_user, of env pending t]
  obtain ms where m: "answer_message (es_response st) ids" "es_effects st = map from_message ms"
    "list_all (\<lambda>(_, i). \<not> asks_user i) items \<longrightarrow> ms = []"
    by (auto simp: ids_def)
  have "es = [] \<or> (\<exists>d. es = [GSetExtensionData d])"
    using es by (auto simp: io_bind_eq_Inr io_ok_def split: if_splits)
  moreover define m where "m = with_generated_id_if_missing u
      (answer_interrupted env (get_tool_response_ids (es_response st)) ?requests (es_response st))"
  moreover have "answer_message m (ids @ map tr_id (filter (\<lambda>r. tr_id r \<notin> set ids) ?requests))"
    using answer_interrupted_answers [OF m(1)] answer_message_ids [OF m(1)] by (simp add: m_def)
  moreover have "items = ge_tool_items env (w_tick w2)" using i by (simp add: ask_def)
  moreover have "sr_effects r = map from_message ms @ es @ [from_message m]"
    using r(1) m(2) by (simp add: m_def)
  ultimately show ?thesis
    using dispatch_requests [OF d] r(2) ids_def m(3)
    by blast
qed

lemma tool_execution_applied:
  assumes "tool_execution_run env s c w = (Inr (Applied r), w')" and "messages_since_kickoff c = Inr turn"
    and "pending = known_pending env (case ge_known_tools env (w_tick w) of Some ts \<Rightarrow> ts | None \<Rightarrow> []) turn"
  shows "pending \<noteq> [] \<and> ((\<exists>m. sr_effects r = [from_message m] \<and> \<not> sr_yield_to_client r
        \<and> answer_message m (map (tr_id \<circ> fst) pending))
      \<or> (\<exists>v v'. execute_pending env s pending v = (Inr (Applied r), v')))"
  using assms(1) skip_all_answers [OF answer_message_user, of env pending]
  unfolding tool_execution_run_def assms(2)
  by (auto simp: io_bind_eq_Inr Let_def assms(3) [symmetric] ask_def not_applicable_def applied_def io_simps
      split: if_splits)

text \<open>Actions that never fail.\<close>

definition returns :: "('w, 'a) io \<Rightarrow> bool" where
  "returns m \<longleftrightarrow> (\<forall>w. \<exists>x w'. m w = (Inr x, w'))"

lemma returns_bind: "returns m \<Longrightarrow> (\<And>x. returns (f x)) \<Longrightarrow> returns (io_bind m f)"
  unfolding returns_def io_bind_def by (metis (mono_tags, lifting) case_prod_conv sum.case(2))

lemma returns_basic [intro!, simp]:
  "returns (io_ok x)" "returns (ask f)" "returns (now env)" "returns (new_uuid env)" "returns (emit_event ev)"
  "returns (emit_message env m)" "returns (fire_hook genv he ctx)" "returns (ask_hooks genv he ctx)"
  "returns (emit_pre_tool_use_result genv s tid name input outcome)"
  by (auto simp: returns_def io_simps fire_hook_def ask_hooks_def emit_pre_tool_use_result_def Let_def
      map_prod_def split: prod.split)

lemma hooks_return:
  "returns (run_pre_tool_hooks env s tid name input)"
  "returns (emit_extended_pre_hooks env name input s)"
  "returns (emit_post_tool_use env s name tid input res)"
  by (auto simp: run_pre_tool_hooks_def emit_extended_pre_hooks_def emit_with_matcher_def emit_post_tool_use_def Let_def
      intro!: returns_bind split: option.split tool_category.split prod.split)

lemma unclaimed_result_returns: "returns (unclaimed_result env s turn p)"
  by (cases p; cases "snd p")
    (auto simp: unclaimed_result_def Let_def intro!: returns_bind hooks_return split: sum.split prod.split)

lemma answer_unclaimed_answers:
  "answer_message m ids \<Longrightarrow> \<exists>m' w'. answer_unclaimed env s turn ps m w = (Inr m', w')
     \<and> answer_message m' (ids @ map (tr_id \<circ> fst) ps)"
proof (induction ps arbitrary: m ids w)
  case (Cons p ps)
  obtain r d where p: "p = (r, d)" by fastforce
  obtain res u w1 where res: "unclaimed_result env s turn (r, d) w = (Inr (res, u), w1)"
    using unclaimed_result_returns [of env s turn "(r, d)"] unfolding returns_def by (metis surj_pair)
  from Cons.IH [OF answer_message_add [OF Cons.prems]] obtain m' w' where
    "answer_unclaimed env s turn ps (add_tool_response_with_metadata (e_text env) (tr_id r) res
       (unclaimed_metadata u (tr_metadata r)) m) w1 = (Inr m', w')"
    "answer_message m' ((ids @ [tr_id r]) @ map (tr_id \<circ> fst) ps)" by blast
  with res show ?case by (auto simp: p io_simps comp_def)
qed (auto simp: io_simps)

lemma unknown_tool_result:
  assumes "messages_since_kickoff c = Inr turn"
    and "pending = filter (\<lambda>p. \<not> reserved_final_output s turn p) (pending_tool_requests (ge_show_error env) turn)"
  shows "if pending = [] then unknown_tool_run env s c w = (Inr NotApplicable, w)
    else \<exists>m w'. unknown_tool_run env s c w
        = (Inr (Applied \<lparr>sr_effects = [from_message m], sr_applied_step = None, sr_yield_to_client = False\<rparr>), w')
      \<and> answer_message m (map (tr_id \<circ> fst) pending)"
proof (cases "pending = []")
  case True
  then show ?thesis by (simp add: unknown_tool_run_def assms(1) assms(2) [symmetric] io_simps Let_def)
next
  case False
  from answer_unclaimed_answers [OF answer_message_user, of env s turn pending]
  obtain m w1 where "answer_unclaimed env s turn pending (message_user (e_now env (w_tick w)))
      (w\<lparr>w_tick := Suc (w_tick w)\<rparr>) = (Inr m, w1)" "answer_message m (map (tr_id \<circ> fst) pending)" by fastforce
  with False show ?thesis
    by (simp add: unknown_tool_run_def assms(1) assms(2) [symmetric] io_simps Let_def)
      (metis answer_message_id)
qed

subsection \<open>Nothing runs without approval\<close>

lemma filter_map_mem: "y \<in> set (filter_map f xs) \<longleftrightarrow> (\<exists>x \<in> set xs. f x = Some y)"
  by (induction xs) (auto split: option.splits)

lemma inspection_lists_cover:
  assumes "distinct (map tr_id reqs)" and "pr = process_inspection_results reqs results"
  shows "set reqs = set (pcr_approved pr) \<union> set (pcr_needs_approval pr) \<union> set (pcr_denied pr)"
  unfolding assms(2) process_as_foldl Let_def
  by (rule batch_inv_lists(2) [OF batch_inv_foldl [OF base_batch_inv [OF assms(1) refl]]])

lemma io_map_silent:
  assumes "io_map f xs w = (Inr yss, w')" and "concat yss = []"
  shows "\<forall>x \<in> set xs. \<exists>v v'. f x v = (Inr [], v')"
proof -
  have "list_all2 (\<lambda>x ys. \<exists>v v'. f x v = (Inr ys, v')) xs yss"
    using assms(1) by (rule io_map_all2 [rotated]) blast
  then show ?thesis
    using assms(2) by (induction rule: list_all2_induct) auto
qed

lemma apply_response_silent:
  "apply_response env p v = (Inr [], v') \<Longrightarrow> pr_executable p = Some (permission_allows (pr_permission p))"
  unfolding apply_response_def Let_def by (auto simp: io_bind_eq_Inr split: if_splits)

lemma approval_question_speaks: "approval_question env results r v \<noteq> (Inr [], v')"
  unfolding approval_question_def by (auto simp: io_bind_eq_Inr io_ok_def io_err_def split: sum.splits)

lemma approval_not_applicable:
  assumes "tool_approval_run env s c w = (Inr NotApplicable, w')" and "messages_since_kickoff c = Inr turn"
    and "gw_mode w \<noteq> Chat" and st: "st = approval_state_of turn"
    and dec: "decision = snd (inspection_decision (ge_inspectors env w') s c (gw_mode w) (approval_pending st))"
  shows "\<forall>p \<in> set (approval_responses st). pr_executable p = Some (permission_allows (pr_permission p))"
    and "approval_pending st \<noteq> [] \<Longrightarrow> pcr_needs_approval decision = [] \<and> pcr_denied decision = []"
proof -
  obtain marks w1 decided where marks: "io_map (apply_response env) (approval_responses st) w = (Inr marks, w1)"
    and d: "(if approval_pending st = [] then io_ok []
        else (case inspection_decision (ge_inspectors env w1) s c (gw_mode w) (approval_pending st) of
          (results, decision) \<Rightarrow>
            io_bind (io_map (approval_question env results) (pcr_needs_approval decision)) (\<lambda>questions.
              io_ok (map (\<lambda>r. mark_executable (tr_id r) False) (pcr_denied decision)
                @ concat questions)))) w1 = (Inr decided, w')"
    and e: "concat marks = []" "decided = []"
    using assms(1,3) unfolding tool_approval_run_def assms(2) st
    by (auto simp: io_bind_eq_Inr Let_def not_applicable_def applied_def io_ok_def io_of_def split: if_splits)
  show "\<forall>p \<in> set (approval_responses st). pr_executable p = Some (permission_allows (pr_permission p))"
    using io_map_silent [OF marks e(1)] apply_response_silent by blast
  assume "approval_pending st \<noteq> []"
  then obtain results dec' questions where
    i: "inspection_decision (ge_inspectors env w1) s c (gw_mode w) (approval_pending st) = (results, dec')"
    and q: "io_map (approval_question env results) (pcr_needs_approval dec') w1 = (Inr questions, w')"
    and n: "pcr_denied dec' = []" "concat questions = []"
    using d e(2) by (auto simp: io_bind_eq_Inr io_ok_def split: prod.splits)
  have none: "pcr_needs_approval dec' = []"
    using io_map_silent [OF q n(2)] approval_question_speaks by (metis list.set_intros(1) neq_Nil_conv)
  with q have "w' = w1" by (simp add: io_simps)
  with none n(1) i show "pcr_needs_approval decision = [] \<and> pcr_denied decision = []"
    by (simp add: dec)
qed

lemma pending_execute:
  assumes "(r, Execute) \<in> set (pending_advertised_tool_requests sh turn)"
  shows "r \<in> set (as_tool_requests (approval_state_of turn))" "request_executable r \<noteq> Some False"
    "\<not> was_executed_externally r" "tr_id r \<notin> answered_in turn" "is_ok (tr_tool_call r)"
  using assms
  by (auto simp: pending_advertised_tool_requests_def pending_tool_requests_def disposition_of_def filter_map_mem
      approval_state_of_def turn_blocks_def is_ok_def split: if_splits sum.splits)

text \<open>How the requests of a turn came to carry their marks. \<open>turn_effect\<close> is what the session store
  makes of an effect, on the messages of the turn: an appended message, or the patch of
  \<open>update_tool_request_meta\<close>, which reaches only the last hundred messages. In a history the approval
  runs on the turn and its effects are stored, all of them or, when the store fails, the first ones;
  between the runs other messages arrive, none of which asks for a confirmation or repeats the
  identifier of a request, requests get other notes, and stored messages get their identifiers.\<close>

definition turn_requests :: "message list \<Rightarrow> tool_request list" where
  "turn_requests msgs = filter_map as_tool_request (turn_blocks msgs)"

fun patch_newest :: "string \<Rightarrow> json \<Rightarrow> message list \<Rightarrow> message list option" where
  "patch_newest tid patch [] = None"
| "patch_newest tid patch (m # ms) =
     (case patch_first_request tid patch (m_content m) of
        Some bs \<Rightarrow> Some (m\<lparr>m_content := bs\<rparr> # ms)
      | None \<Rightarrow> map_option ((#) m) (patch_newest tid patch ms))"

definition patch_turn :: "string \<Rightarrow> json \<Rightarrow> message list \<Rightarrow> message list" where
  "patch_turn tid patch msgs =
     (case patch_newest tid patch (take 100 (rev msgs)) of
        None \<Rightarrow> msgs | Some ms \<Rightarrow> rev (ms @ drop 100 (rev msgs)))"

fun turn_effect :: "goose_effect \<Rightarrow> message list \<Rightarrow> message list" where
  "turn_effect (GConversation (AppendMessage m)) msgs = msgs @ [m]"
| "turn_effect (GConversation (PatchToolRequestMeta tid patch)) msgs = patch_turn tid patch msgs"
| "turn_effect _ msgs = msgs"

inductive approval_history :: "message list \<Rightarrow> bool" where
  started: "confirmations_in turn = {} \<Longrightarrow> distinct (map tr_id (turn_requests turn)) \<Longrightarrow> approval_history turn"
| decided: "approval_history turn \<Longrightarrow> messages_since_kickoff c = Inr turn
    \<Longrightarrow> tool_approval_run env s c w = (Inr (Applied r), w')
    \<Longrightarrow> length turn + length (sr_effects r) \<le> 100
    \<Longrightarrow> approval_history (fold turn_effect (take k (sr_effects r)) turn)"
| grown: "approval_history turn \<Longrightarrow> confirmations_in [m] = {}
    \<Longrightarrow> distinct (map tr_id (turn_requests (turn @ [m]))) \<Longrightarrow> approval_history (turn @ [m])"
| annotated: "approval_history turn \<Longrightarrow> length turn \<le> 100 \<Longrightarrow> TOOL_EXECUTABLE_KEY \<notin> fst ` set kvs
    \<Longrightarrow> approval_history (patch_turn tid (JObject kvs) turn)"
| stored_turn: "approval_history turn \<Longrightarrow> list_all2 content_like turn turn' \<Longrightarrow> approval_history turn'"

text \<open>What a patch does to the requests of the turn; it leaves the answers and confirmations alone.\<close>

definition patched :: "string \<Rightarrow> json \<Rightarrow> tool_request \<Rightarrow> tool_request" where
  "patched tid patch r =
     (if tr_id r = tid then r\<lparr>tr_tool_meta := Some (merge_tool_meta (tr_tool_meta r) patch)\<rparr> else r)"

lemma patched_id [simp]: "tr_id (patched tid patch r) = tr_id r"
  by (simp add: patched_def)

lemma patched_others: "\<forall>r \<in> set rs. tr_id r \<noteq> tid \<Longrightarrow> map (patched tid patch) rs = rs"
  by (induction rs) (simp_all add: patched_def)

definition request_table :: "message_content_block list \<Rightarrow> tool_request list" where
  "request_table bs = filter_map as_tool_request bs"

definition confirmation_tables ::
    "message_content_block list \<Rightarrow> string list \<times> string list \<times> (string \<times> permission) list" where
  "confirmation_tables bs =
     (filter_map response_id bs, filter_map confirmation_id bs, filter_map confirmation_response bs)"

lemma patch_first_mem: "patch_first_request tid patch bs = Some bs' \<Longrightarrow> tid \<in> tr_id ` set (request_table bs)"
proof (induction bs arbitrary: bs')
  case (Cons b bs)
  then show ?case by (cases "as_tool_request b") (auto simp: request_table_def split: if_splits)
qed simp

lemma patch_first_tables:
  assumes "distinct (map tr_id (request_table bs))"
  shows "case patch_first_request tid patch bs of
      None \<Rightarrow> \<forall>r \<in> set (request_table bs). tr_id r \<noteq> tid
    | Some bs' \<Rightarrow> request_table bs' = map (patched tid patch) (request_table bs)
        \<and> confirmation_tables bs' = confirmation_tables bs"
  using assms
proof (induction bs)
  case (Cons b bs)
  show ?case
  proof (cases "as_tool_request b")
    case None
    with Cons show ?thesis
      by (auto simp: request_table_def confirmation_tables_def split: option.splits)
  next
    case (Some r)
    then have b: "b = ToolRequest r" by (cases b) (auto simp: as_tool_request_def)
    from Cons.prems Some have d: "tr_id r \<notin> tr_id ` set (request_table bs)"
      and d': "distinct (map tr_id (request_table bs))" by (auto simp: request_table_def)
    show ?thesis
    proof (cases "tr_id r = tid")
      case True
      with d have "map (patched tid patch) (request_table bs) = request_table bs"
        by (intro patched_others) (metis True image_eqI)
      with True b show ?thesis
        by (simp add: request_table_def confirmation_tables_def as_tool_request_def patched_def
            response_id_def confirmation_id_def confirmation_response_def)
    next
      case False
      with Cons.IH [OF d'] b show ?thesis
        by (auto simp: request_table_def confirmation_tables_def as_tool_request_def patched_def
            response_id_def confirmation_id_def confirmation_response_def split: option.splits)
    qed
  qed
qed (simp add: request_table_def)

lemma patch_newest_tables:
  assumes "distinct (map tr_id (concat (map (\<lambda>m. request_table (m_content m)) ms)))"
  shows "case patch_newest tid patch ms of
      None \<Rightarrow> \<forall>m \<in> set ms. \<forall>r \<in> set (request_table (m_content m)). tr_id r \<noteq> tid
    | Some ms' \<Rightarrow>
        map (\<lambda>m. request_table (m_content m)) ms' = map (\<lambda>m. map (patched tid patch) (request_table (m_content m))) ms
        \<and> map (\<lambda>m. confirmation_tables (m_content m)) ms' = map (\<lambda>m. confirmation_tables (m_content m)) ms"
  using assms
proof (induction ms)
  case (Cons m ms)
  have d: "distinct (map tr_id (request_table (m_content m)))"
    "distinct (map tr_id (concat (map (\<lambda>m. request_table (m_content m)) ms)))"
    "\<forall>m' \<in> set ms. \<forall>r \<in> set (request_table (m_content m')). tr_id r \<notin> tr_id ` set (request_table (m_content m))"
    using Cons.prems by auto
  show ?case
  proof (cases "patch_first_request tid patch (m_content m)")
    case None
    with patch_first_tables [OF d(1), of tid patch] have "\<forall>r \<in> set (request_table (m_content m)). tr_id r \<noteq> tid" by auto
    with None patched_others [OF this] Cons.IH [OF d(2)] show ?thesis by (auto split: option.splits)
  next
    case (Some bs)
    with patch_first_tables [OF d(1), of tid patch]
    have t: "request_table bs = map (patched tid patch) (request_table (m_content m))"
      "confirmation_tables bs = confirmation_tables (m_content m)" by auto
    from patch_first_mem [OF Some] d(3)
    have "\<forall>m' \<in> set ms. map (patched tid patch) (request_table (m_content m')) = request_table (m_content m')"
      by (auto intro!: patched_others)
    with Some t show ?thesis by simp
  qed
qed simp

lemma turn_tables:
  "turn_requests msgs = concat (map (\<lambda>m. request_table (m_content m)) msgs)"
  "filter_map response_id (turn_blocks msgs) = concat (map fst (map (\<lambda>m. confirmation_tables (m_content m)) msgs))"
  "filter_map confirmation_id (turn_blocks msgs) = concat (map (fst \<circ> snd) (map (\<lambda>m. confirmation_tables (m_content m)) msgs))"
  "filter_map confirmation_response (turn_blocks msgs) = concat (map (snd \<circ> snd) (map (\<lambda>m. confirmation_tables (m_content m)) msgs))"
  by (simp_all add: turn_requests_def turn_blocks_def request_table_def confirmation_tables_def filter_map_concat comp_def)

lemma turn_rev_distinct: "distinct (map tr_id (turn_requests (rev msgs))) \<longleftrightarrow> distinct (map tr_id (turn_requests msgs))"
proof -
  have "mset (map tr_id (turn_requests (rev msgs))) = mset (map tr_id (turn_requests msgs))"
    by (simp add: turn_tables(1) rev_map [symmetric] mset_concat mset_map)
  then show ?thesis by (rule mset_eq_imp_distinct_iff)
qed

lemma patch_turn_tables:
  assumes "distinct (map tr_id (turn_requests msgs))" and "length msgs \<le> 100"
  shows "turn_requests (patch_turn tid patch msgs) = map (patched tid patch) (turn_requests msgs)"
    and "confirmations_in (patch_turn tid patch msgs) = confirmations_in msgs"
    and "approvals_in (patch_turn tid patch msgs) = approvals_in msgs"
    and "length (patch_turn tid patch msgs) = length msgs"
proof -
  have d: "distinct (map tr_id (concat (map (\<lambda>m. request_table (m_content m)) (rev msgs))))"
    using assms(1) turn_rev_distinct by (simp add: turn_tables(1))
  have t: "turn_requests (patch_turn tid patch msgs) = map (patched tid patch) (turn_requests msgs)
    \<and> map (\<lambda>m. confirmation_tables (m_content m)) (patch_turn tid patch msgs)
      = map (\<lambda>m. confirmation_tables (m_content m)) msgs"
  proof (cases "patch_newest tid patch (rev msgs)")
    case None
    with patch_newest_tables [OF d, of tid patch] have "\<forall>r \<in> set (turn_requests msgs). tr_id r \<noteq> tid"
      by (auto simp: turn_tables(1))
    from patched_others [OF this] None assms(2) show ?thesis by (simp add: patch_turn_def)
  next
    case (Some ms)
    with patch_newest_tables [OF d, of tid patch]
    have "map (\<lambda>m. request_table (m_content m)) ms = map (\<lambda>m. map (patched tid patch) (request_table (m_content m))) (rev msgs)"
      "map (\<lambda>m. confirmation_tables (m_content m)) ms = map (\<lambda>m. confirmation_tables (m_content m)) (rev msgs)" by auto
    then have "map (\<lambda>m. request_table (m_content m)) (rev ms) = map (\<lambda>m. map (patched tid patch) (request_table (m_content m))) msgs"
      "map (\<lambda>m. confirmation_tables (m_content m)) (rev ms) = map (\<lambda>m. confirmation_tables (m_content m)) msgs"
      by (simp_all add: rev_map [symmetric] rev_swap)
    with Some assms(2) show ?thesis
      by (simp add: patch_turn_def turn_tables(1) map_concat comp_def)
  qed
  then show "turn_requests (patch_turn tid patch msgs) = map (patched tid patch) (turn_requests msgs)" by blast
  from t have c: "map (\<lambda>m. confirmation_tables (m_content m)) (patch_turn tid patch msgs)
      = map (\<lambda>m. confirmation_tables (m_content m)) msgs" by blast
  show "confirmations_in (patch_turn tid patch msgs) = confirmations_in msgs"
    "approvals_in (patch_turn tid patch msgs) = approvals_in msgs"
    by (simp_all only: confirmations_in_def approvals_in_def turn_tables c)
  from arg_cong [OF c, of length] show "length (patch_turn tid patch msgs) = length msgs" by simp
qed

text \<open>A request whose question is open is marked not to be executed, after every prefix of the
  effects: the mark comes before the question.\<close>

definition questions_guarded :: "(string \<rightharpoonup> permission) \<Rightarrow> string set \<Rightarrow> message list \<Rightarrow> bool" where
  "questions_guarded approvals ids msgs \<longleftrightarrow> approvals_in msgs = approvals
     \<and> tr_id ` set (turn_requests msgs) = ids \<and> distinct (map tr_id (turn_requests msgs)) \<and> confirmations_in msgs \<subseteq> ids
     \<and> (\<forall>q \<in> set (turn_requests msgs).
          tr_id q \<in> confirmations_in msgs \<and> approvals (tr_id q) = None \<longrightarrow> request_executable q = Some False)"

lemma marked_executable:
  "request_executable (patched tid (JObject [(TOOL_EXECUTABLE_KEY, JBool b)]) r)
     = (if tr_id r = tid then Some b else request_executable r)"
  by (simp add: request_executable_def patched_def tool_meta_get_def merge_tool_meta_def json_get_def as_bool_def
      update_conv' Let_def)

lemma annotated_executable:
  assumes "TOOL_EXECUTABLE_KEY \<notin> fst ` set kvs"
  shows "request_executable (patched tid (JObject kvs) r) = request_executable r"
proof -
  have "map_of (fold (\<lambda>(k, v). AList.update k v) kvs m) TOOL_EXECUTABLE_KEY = map_of m TOOL_EXECUTABLE_KEY" for m
    using assms by (induction kvs arbitrary: m) (auto simp: update_conv')
  then show ?thesis
    by (auto simp: request_executable_def patched_def tool_meta_get_def merge_tool_meta_def json_get_def
        split: option.split json.split)
qed

lemma patched_guarded:
  assumes "questions_guarded ap ids t" and "length t \<le> 100"
    and "\<And>r. tr_id r \<in> confirmations_in t \<Longrightarrow> ap (tr_id r) = None \<Longrightarrow> request_executable r = Some False
      \<Longrightarrow> request_executable (patched tid p r) = Some False"
  shows "questions_guarded ap ids (patch_turn tid p t)"
  using assms patch_turn_tables [of t tid p]
  by (auto simp: questions_guarded_def image_image comp_def)

lemma mark_guarded:
  assumes "questions_guarded ap ids t" and "length t \<le> 100" and "b \<longrightarrow> ap i \<noteq> None"
  shows "questions_guarded ap ids (turn_effect (mark_executable i b) t)"
    and "length (turn_effect (mark_executable i b) t) = length t"
    and "\<forall>q \<in> set (turn_requests (turn_effect (mark_executable i b) t)). tr_id q = i \<longrightarrow> request_executable q = Some b"
proof -
  from assms(1) have d: "distinct (map tr_id (turn_requests t))" by (simp add: questions_guarded_def)
  show "questions_guarded ap ids (turn_effect (mark_executable i b) t)"
    unfolding mark_executable_def turn_effect.simps
    by (rule patched_guarded [OF assms(1,2)]) (use assms(3) in \<open>cases b; auto simp: marked_executable\<close>)
  show "length (turn_effect (mark_executable i b) t) = length t"
    "\<forall>q \<in> set (turn_requests (turn_effect (mark_executable i b) t)). tr_id q = i \<longrightarrow> request_executable q = Some b"
    using patch_turn_tables [OF d assms(2)] by (auto simp: mark_executable_def marked_executable)
qed

lemma marks_guarded:
  assumes "\<forall>e \<in> set es. \<exists>i b. e = mark_executable i b \<and> (b \<longrightarrow> ap i \<noteq> None)"
    and "questions_guarded ap ids t" and "length t \<le> 100"
  shows "questions_guarded ap ids (fold turn_effect es t) \<and> length (fold turn_effect es t) = length t"
  using assms
proof (induction es arbitrary: t)
  case (Cons e es)
  from Cons.prems(1) obtain i b where e: "e = mark_executable i b" "b \<longrightarrow> ap i \<noteq> None" by auto
  from Cons.IH [of "turn_effect e t"] Cons.prems mark_guarded [OF Cons.prems(2,3) e(2)] show ?case
    by (simp add: e(1))
qed simp

definition asks_only :: "string \<Rightarrow> message \<Rightarrow> bool" where
  "asks_only i m \<longleftrightarrow> confirmations_in [m] = {i} \<and> turn_requests [m] = [] \<and> approvals_in [m] = Map.empty"

lemma turn_append:
  "turn_requests (t @ [m]) = turn_requests t @ turn_requests [m]"
  "confirmations_in (t @ [m]) = confirmations_in t \<union> confirmations_in [m]"
  "approvals_in (t @ [m]) = approvals_in t ++ approvals_in [m]"
  by (simp_all add: turn_requests_def confirmations_in_def approvals_in_def turn_blocks_def)

lemma questions_keep_guarded:
  assumes "list_all2 (\<lambda>i es. \<exists>m. es = [mark_executable i False, from_message m] \<and> asks_only i m) asked qs"
    and "set asked \<subseteq> ids" and "questions_guarded ap ids t" and "length t + length (concat qs) \<le> 100"
  shows "questions_guarded ap ids (fold turn_effect (take k (concat qs)) t)"
  using assms
proof (induction arbitrary: t k rule: list_all2_induct)
  case (Cons i asked es qs)
  then obtain m where es: "es = [mark_executable i False, from_message m]" and m: "asks_only i m" by blast
  let ?t1 = "turn_effect (mark_executable i False) t" and ?t2 = "turn_effect (mark_executable i False) t @ [m]"
  from Cons.prems es have len: "length t \<le> 100" by simp
  note mark = mark_guarded [OF Cons.prems(2) len, of False i, simplified]
  have t2: "questions_guarded ap ids ?t2"
    using mark m Cons.prems(1) by (auto simp: questions_guarded_def asks_only_def turn_append)
  consider "k = 0" | "k = 1" | k' where "k = Suc (Suc k')" by (cases k; cases "k - 1") auto
  then show ?case
  proof cases
    case 3
    have "questions_guarded ap ids (fold turn_effect (take k' (concat qs)) ?t2)"
      using Cons.IH [of ?t2 k'] Cons.prems t2 mark(2) es by simp
    then show ?thesis by (simp add: 3 es from_message_def)
  qed (use Cons.prems(2) mark(1) es in simp_all)
qed simp

lemma approval_question_shape:
  assumes "approval_question env results r v = (Inr es, v')"
  shows "\<exists>m. es = [mark_executable (tr_id r) False, from_message m] \<and> asks_only (tr_id r) m"
  using assms
  by (auto simp: approval_question_def io_bind_eq_Inr io_ok_def io_err_def asks_only_def turn_requests_def
      confirmations_in_def approvals_in_def turn_blocks_def confirmation_id_def confirmation_response_def as_tool_request_def
      with_visibility_def with_content_def message_assistant_def message_new_def split: sum.splits)

lemma apply_response_shape:
  assumes "apply_response env p v = (Inr es, v')" and "e \<in> set es"
  shows "e = mark_executable (pr_tool_call_id p) (permission_allows (pr_permission p))"
  using assms by (auto simp: apply_response_def io_bind_eq_Inr io_ok_def Let_def split: if_splits)

lemma approval_applied:
  assumes run: "tool_approval_run env s c w = (Inr (Applied r), w')" and turn: "messages_since_kickoff c = Inr turn"
    and d: "distinct (map tr_id (turn_requests turn))"
  obtains ms asked qs where "sr_effects r = ms @ concat qs"
    and "\<forall>e \<in> set ms. \<exists>i b. e = mark_executable i b \<and> (b \<longrightarrow> approvals_in turn i \<noteq> None)"
    and "list_all2 (\<lambda>i es. \<exists>m. es = [mark_executable i False, from_message m] \<and> asks_only i m) asked qs"
    and "set asked \<subseteq> tr_id ` set (turn_requests turn)"
proof -
  define st where "st = approval_state_of turn"
  obtain marks w1 decided where marks: "io_map (apply_response env) (approval_responses st) w = (Inr marks, w1)"
    and dec: "(if approval_pending st = [] then io_ok []
        else (case inspection_decision (ge_inspectors env w1) s c (gw_mode w) (approval_pending st) of
          (results, decision) \<Rightarrow>
            io_bind (io_map (approval_question env results) (pcr_needs_approval decision)) (\<lambda>questions.
              io_ok (map (\<lambda>r. mark_executable (tr_id r) False) (pcr_denied decision)
                @ concat questions)))) w1 = (Inr decided, w')"
    and r: "sr_effects r = concat marks @ decided"
    using run unfolding tool_approval_run_def turn st_def
    by (auto simp: io_bind_eq_Inr Let_def not_applicable_def applied_def io_ok_def io_of_def split: if_splits)
  have marks_ok: "\<forall>e \<in> set (concat marks). \<exists>i b. e = mark_executable i b \<and> (b \<longrightarrow> approvals_in turn i \<noteq> None)"
  proof -
    have "list_all2 (\<lambda>p es. \<forall>e \<in> set es. e = mark_executable (pr_tool_call_id p) (permission_allows (pr_permission p)))
        (approval_responses st) marks"
      by (rule io_map_all2 [OF _ marks]) (auto dest: apply_response_shape)
    moreover have "\<forall>p \<in> set (approval_responses st). approvals_in turn (pr_tool_call_id p) \<noteq> None"
      by (auto simp: st_def approval_responses_def approval_state_of_def filter_map_mem split: if_splits)
    ultimately show ?thesis by (fastforce simp: list_all2_conv_all_nth in_set_conv_nth)
  qed
  show ?thesis
  proof (cases "approval_pending st = []")
    case True
    with dec r marks_ok show ?thesis by (intro that [of "concat marks" "[]" "[]"]) (auto simp: io_ok_def)
  next
    case False
    then obtain results decision questions where
      i: "inspection_decision (ge_inspectors env w1) s c (gw_mode w) (approval_pending st) = (results, decision)"
      and q: "io_map (approval_question env results) (pcr_needs_approval decision) w1 = (Inr questions, w')"
      and e: "decided = map (\<lambda>r. mark_executable (tr_id r) False) (pcr_denied decision) @ concat questions"
      using dec by (auto simp: io_bind_eq_Inr io_ok_def split: prod.splits)
    have sub: "set (approval_pending st) \<subseteq> set (turn_requests turn)"
      by (auto simp: approval_pending_def st_def approval_state_of_def turn_requests_def)
    have "distinct (map tr_id (approval_pending st))"
      using d by (simp add: approval_pending_def st_def approval_state_of_def turn_requests_def distinct_map_filter)
    from inspection_lists_cover [OF this refl, of results] i sub
    have "set (pcr_needs_approval decision) \<subseteq> set (turn_requests turn)"
      by (auto simp: inspection_decision_def Let_def split: if_splits)
    moreover have "list_all2 (\<lambda>r es. \<exists>m. es = [mark_executable (tr_id r) False, from_message m] \<and> asks_only (tr_id r) m)
        (pcr_needs_approval decision) questions"
      by (rule io_map_all2 [OF _ q]) (rule approval_question_shape)
    ultimately show ?thesis
      using marks_ok r e
      by (intro that [of "concat marks @ map (\<lambda>r. mark_executable (tr_id r) False) (pcr_denied decision)" questions
            "map tr_id (pcr_needs_approval decision)"])
        (auto simp: list_all2_map1)
  qed
qed

lemma stored_turn_tables:
  assumes "list_all2 content_like t t'"
  shows "turn_blocks t' = turn_blocks t"
proof -
  have "map m_content t' = map m_content t"
    using assms by (induction rule: list_all2_induct) (auto simp: content_like_def)
  then show ?thesis by (simp add: turn_blocks_def)
qed

lemma approval_history_guarded:
  "approval_history turn \<Longrightarrow> questions_guarded (approvals_in turn) (tr_id ` set (turn_requests turn)) turn"
proof (induction rule: approval_history.induct)
  case (decided turn c env s w r w' k)
  have d: "distinct (map tr_id (turn_requests turn))" using decided.IH by (simp add: questions_guarded_def)
  let ?ap = "approvals_in turn" and ?ids = "tr_id ` set (turn_requests turn)"
  from approval_applied [OF decided(3,2) d] obtain ms asked qs where r: "sr_effects r = ms @ concat qs"
    and ms: "\<forall>e \<in> set ms. \<exists>i b. e = mark_executable i b \<and> (b \<longrightarrow> ?ap i \<noteq> None)"
    and qs: "list_all2 (\<lambda>i es. \<exists>m. es = [mark_executable i False, from_message m] \<and> asks_only i m) asked qs"
    and sub: "set asked \<subseteq> ?ids" .
  from ms have "\<forall>e \<in> set (take k ms). \<exists>i b. e = mark_executable i b \<and> (b \<longrightarrow> ?ap i \<noteq> None)"
    by (meson in_set_takeD)
  from marks_guarded [OF this decided.IH] decided(4)
  have t: "questions_guarded ?ap ?ids (fold turn_effect (take k ms) turn)"
    and len: "length (fold turn_effect (take k ms) turn) = length turn" by auto
  from questions_keep_guarded [OF qs sub t] decided(4) len r
  have "questions_guarded ?ap ?ids (fold turn_effect (take (k - length ms) (concat qs)) (fold turn_effect (take k ms) turn))"
    by simp
  then show ?case by (simp add: r questions_guarded_def)
next
  case (grown turn m)
  then show ?case by (auto simp: questions_guarded_def turn_append map_add_def split: option.splits)
next
  case (annotated turn kvs tid)
  have d: "distinct (map tr_id (turn_requests turn))" using annotated.IH by (simp add: questions_guarded_def)
  from patched_guarded [OF annotated.IH annotated(2), of tid "JObject kvs"] annotated_executable [OF annotated(3)]
    patch_turn_tables [OF d annotated(2), of tid "JObject kvs"]
  show ?case by (simp add: image_image)
next
  case (stored_turn turn turn')
  then show ?case
    by (simp add: questions_guarded_def turn_requests_def confirmations_in_def approvals_in_def stored_turn_tables)
qed (simp add: questions_guarded_def)

text \<open>A request that more than a hundred messages follow receives no mark, and the write reports no
  error; with its question open it is executed.\<close>

lemma late_mark_is_lost:
  assumes "\<forall>m \<in> set (take 100 (rev msgs)). \<forall>r \<in> set (request_table (m_content m)). tr_id r \<noteq> tid"
  shows "turn_effect (mark_executable tid b) msgs = msgs"
proof -
  have "patch_newest tid p ms = None"
    if "\<forall>m \<in> set ms. \<forall>r \<in> set (request_table (m_content m)). tr_id r \<noteq> tid" for p ms
    using that
  proof (induction ms)
    case (Cons m ms)
    have "patch_first_request tid p (m_content m) = None"
      using Cons.prems patch_first_mem [of tid p "m_content m"] by (cases "patch_first_request tid p (m_content m)") auto
    with Cons show ?case by simp
  qed simp
  from this [OF assms] show ?thesis by (simp add: mark_executable_def patch_turn_def)
qed

lemma unmarked_question_executed:
  assumes "tr_id r \<in> confirmations_in turn" and "approvals_in turn (tr_id r) = None" and "request_executable r = None"
    and "\<not> was_executed_externally r" and "tr_id r \<notin> answered_in turn" and "is_ok (tr_tool_call r)"
  shows "disposition_of sh turn r = Some Execute"
  using assms by (simp add: disposition_of_def is_ok_def split: sum.splits)

text \<open>Claim C14 (executed_only_if_approved): outside chat mode and with the permission inspector
  installed, when the approval of tool requests has nothing left to do in a turn, every advertised
  request that the execution is about to run is one the user answered with an allowing permission
  (and is marked so), or one the user was not asked about and the inspection of the pending requests
  approved; in particular no request runs while its question is open. The turn is any that an
  approval history reaches: the marks come from earlier runs of the approval, stored completely or
  in part, within turns of at most a hundred messages and with one request per identifier.\<close>

theorem executed_only_if_approved:
  assumes "tool_approval_run env s c w = (Inr NotApplicable, w')" and "messages_since_kickoff c = Inr turn"
    and "gw_mode w \<noteq> Chat" and "list_ex (\<lambda>i. ti_name i = ''permission'') (ge_inspectors env w')"
    and "approval_history turn" and "(r, Execute) \<in> set (pending_advertised_tool_requests sh turn)"
  shows "(\<exists>p. approvals_in turn (tr_id r) = Some p \<and> permission_allows p \<and> request_executable r = Some True)
    \<or> tr_id r \<notin> confirmations_in turn \<and> r \<in> set (pcr_approved (snd (inspection_decision (ge_inspectors env w') s c (gw_mode w)
          (approval_pending (approval_state_of turn)))))"
proof (cases "approvals_in turn (tr_id r)")
  case (Some p)
  note pend = pending_execute [OF assms(6)]
  have "\<exists>q \<in> set (approval_responses (approval_state_of turn)). pr_permission q = p \<and> pr_executable q = request_executable r"
    using pend(1,4) Some
    by (intro bexI [of _ "\<lparr>pr_tool_call_id = tr_id r, pr_tool_name = map_option ctp_name (ok (tr_tool_call r)),
          pr_permission = p, pr_executable = request_executable r\<rparr>"])
      (auto simp: approval_responses_def filter_map_mem approval_state_of_def intro!: bexI [of _ r])
  with approval_not_applicable(1) [OF assms(1-3) refl refl]
  have "request_executable r = Some (permission_allows p)" by metis
  with pend(2) Some show ?thesis by (cases "permission_allows p") auto
next
  case None
  let ?st = "approval_state_of turn"
  note pend = pending_execute [OF assms(6)]
  have sub: "set (as_tool_requests ?st) \<subseteq> set (turn_requests turn)"
    by (auto simp: approval_state_of_def turn_requests_def)
  note guarded = approval_history_guarded [OF assms(5), unfolded questions_guarded_def]
  have asked: "tr_id r \<notin> confirmations_in turn" using guarded pend(1,2) None sub by blast
  then have r: "r \<in> set (approval_pending ?st)"
    using pend None by (auto simp: approval_pending_def approval_state_of_def)
  then have e: "approval_pending ?st \<noteq> []" by auto
  have "distinct (map tr_id (approval_pending ?st))"
    using guarded by (simp add: approval_pending_def approval_state_of_def turn_requests_def distinct_map_filter)
  from inspection_lists_cover [OF this refl, of "inspect_tools (ge_inspectors env w') (ses_id s) (approval_pending ?st) c (gw_mode w)"]
    approval_not_applicable(2) [OF assms(1-3) refl refl e] r assms(4) asked
  show ?thesis by (auto simp: inspection_decision_def Let_def)
qed

definition sample_turn_request :: tool_request where
  "sample_turn_request = (case sample_call ''1'' of ToolRequest r \<Rightarrow> r)"

lemma sample_turn_shape:
  "messages_since_kickoff sample_pending_turn = Inr sample_pending_turn"
  "as_tool_requests (approval_state_of sample_pending_turn) = [sample_turn_request]"
  "approval_pending (approval_state_of sample_pending_turn) = [sample_turn_request]"
  "approval_responses (approval_state_of sample_pending_turn) = []"
  "confirmations_in sample_pending_turn = {}" "approvals_in sample_pending_turn = Map.empty"
  "pending_advertised_tool_requests sh sample_pending_turn = [(sample_turn_request, Execute)]"
  by (simp_all add: messages_since_kickoff_def sample_pending_turn_def is_kickoff_def is_user_visible_def is_tool_response_def sample_defs
      sample_turn_request_def approval_state_of_def approval_pending_def approval_responses_def answered_in_def confirmations_in_def approvals_in_def
      turn_blocks_def as_tool_request_def response_id_def confirmation_id_def confirmation_response_def
      request_was_advertised_def request_executable_def tool_meta_get_def was_executed_externally_def
      pending_advertised_tool_requests_def pending_tool_requests_def disposition_of_def request_id_def is_ok_def)

definition sample_asking :: tool_inspector where
  "sample_asking = \<lparr>ti_name = ''permission'', ti_is_enabled = True,
     ti_inspect = (\<lambda>_ rs _ _. Inr (map (\<lambda>r. sample_result (tr_id r) (RequireApproval None) ''permission'') rs))\<rparr>"

definition sample_asking_env :: goose_env where
  "sample_asking_env = sample_goose_env\<lparr>ge_inspectors := (\<lambda>_. [sample_asking])\<rparr>"

definition sample_marked_call :: "bool \<Rightarrow> tool_request" where
  "sample_marked_call b = sample_turn_request\<lparr>tr_tool_meta := Some (JObject [(TOOL_EXECUTABLE_KEY, JBool b)])\<rparr>"

definition sample_permit :: message where
  "sample_permit = with_content (ActionRequired (ToolConfirmationResponse ''1'' AllowOnce))
     (with_visibility False False (message_user 3))"

definition sample_turn_with :: "message_content_block \<Rightarrow> message list \<Rightarrow> conversation" where
  "sample_turn_with b ms = [message_new User 0 [sample_text ''go''], message_new Assistant 1 [b]] @ ms"

definition sample_question_at :: "nat \<Rightarrow> message" where
  "sample_question_at n = with_visibility True False (with_content (ActionRequired
     (ToolConfirmation ''1'' ''shell'' [] None)) (message_assistant (e_now sample_asking_env n)))"

lemmas approval_sample_defs = messages_since_kickoff_def sample_turn_with_def is_kickoff_def is_user_visible_def
  is_tool_response_def sample_defs sample_turn_request_def sample_marked_call_def sample_permit_def sample_question_at_def
  with_content_def with_visibility_def message_user_def message_assistant_def
  approval_state_of_def approval_pending_def approval_responses_def answered_in_def confirmations_in_def approvals_in_def
  turn_blocks_def as_tool_request_def response_id_def confirmation_id_def confirmation_response_def
  request_was_advertised_def request_executable_def tool_meta_get_def was_executed_externally_def
  request_id_def is_ok_def json_get_def as_bool_def TOOL_EXECUTABLE_KEY_def TOOL_META_EXTERNAL_DISPATCH_KEY_def

lemma sample_asks:
  "process_inspection_results [sample_turn_request] [sample_result (tr_id sample_turn_request) (RequireApproval None) ''permission'']
     = \<lparr>pcr_approved = [], pcr_needs_approval = [sample_turn_request], pcr_denied = []\<rparr>"
  by code_simp


lemma sample_asks_question:
  "approval_question sample_asking_env [sample_result (tr_id sample_turn_request) (RequireApproval None) ''permission'']
     sample_turn_request w
   = (Inr [mark_executable ''1'' False, from_message (sample_question_at (w_tick w))], w\<lparr>w_tick := Suc (w_tick w)\<rparr>)"
  by (simp add: approval_question_def sample_turn_request_def sample_call_def io_simps security_message_def
      sample_result_def sample_question_at_def)

lemma sample_question_run:
  assumes "gw_mode w = Approve"
  shows "tool_approval_run sample_asking_env s sample_pending_turn w
     = (Inr (Applied \<lparr>sr_effects = [mark_executable ''1'' False, from_message (sample_question_at (w_tick w))],
          sr_applied_step = None, sr_yield_to_client = False\<rparr>), w\<lparr>w_tick := Suc (w_tick w)\<rparr>)"
  by (simp add: tool_approval_run_def sample_turn_shape io_simps Let_def assms inspection_decision_def
      sample_asking_env_def [THEN arg_cong [of _ _ ge_inspectors]] sample_asking_def sample_asks applied_def
      sample_asks_question [unfolded sample_asking_def])

lemma sample_marks:
  "turn_effect (mark_executable ''1'' False) sample_pending_turn = sample_turn_with (ToolRequest (sample_marked_call False)) []"
  "turn_effect (mark_executable ''1'' True)
     (sample_turn_with (ToolRequest (sample_marked_call False)) [sample_question_at n, sample_permit])
   = sample_turn_with (ToolRequest (sample_marked_call True)) [sample_question_at n, sample_permit]"
  by (simp_all add: mark_executable_def patch_turn_def approval_sample_defs sample_pending_turn_def merge_tool_meta_def)

lemma sample_allowed_shape:
  assumes "t = sample_turn_with (ToolRequest (sample_marked_call b)) [sample_question_at n, sample_permit]"
  shows "messages_since_kickoff t = Inr t"
    and "approval_responses (approval_state_of t) = [\<lparr>pr_tool_call_id = ''1'', pr_tool_name = Some ''shell'',
      pr_permission = AllowOnce, pr_executable = Some b\<rparr>]"
    and "approval_pending (approval_state_of t) = []"
    and "b \<Longrightarrow> pending_advertised_tool_requests sh t = [(sample_marked_call b, Execute)]"
    and "confirmations_in [sample_permit] = {}" and "distinct (map tr_id (turn_requests t))"
  by (simp_all add: assms approval_sample_defs turn_requests_def pending_advertised_tool_requests_def
      pending_tool_requests_def disposition_of_def)

lemma sample_allowed_runs:
  assumes "gw_mode w = Approve"
  shows "tool_approval_run sample_asking_env s
      (sample_turn_with (ToolRequest (sample_marked_call b)) [sample_question_at n, sample_permit]) w
    = (Inr (if b then NotApplicable else Applied \<lparr>sr_effects = [mark_executable ''1'' True],
        sr_applied_step = None, sr_yield_to_client = False\<rparr>), w)"
  by (simp add: tool_approval_run_def sample_allowed_shape [OF refl] io_simps Let_def assms apply_response_def
      permission_allows_def not_applicable_def applied_def)

definition sample_allowed_turn :: conversation where
  "sample_allowed_turn = sample_turn_with (ToolRequest (sample_marked_call True)) [sample_question_at 0, sample_permit]"

lemma sample_allowed_history: "approval_history sample_allowed_turn"
proof -
  let ?w = sample_goose_world
  have w: "gw_mode ?w = Approve" "w_tick ?w = 0" by (simp_all add: sample_goose_world_def world.defs plain_world_def)
  have "distinct (map tr_id (turn_requests sample_pending_turn))"
    by (simp add: approval_sample_defs sample_pending_turn_def turn_requests_def)
  then have "approval_history sample_pending_turn"
    using sample_turn_shape(5) by (intro started)
  from decided [OF this sample_turn_shape(1) sample_question_run [OF w(1)], of 2]
  have "approval_history (sample_turn_with (ToolRequest (sample_marked_call False)) [sample_question_at 0])"
    using sample_marks(1) by (simp add: w(2) from_message_def sample_turn_with_def sample_pending_turn_def)
  from grown [OF this, of sample_permit] sample_allowed_shape(5) sample_allowed_shape(6) [OF refl, of False 0]
  have t: "approval_history (sample_turn_with (ToolRequest (sample_marked_call False)) [sample_question_at 0, sample_permit])"
    by (simp add: sample_turn_with_def)
  from decided [OF this sample_allowed_shape(1) [OF refl] sample_allowed_runs [OF w(1), of _ False, simplified], of 1]
  show ?thesis by (simp add: sample_allowed_turn_def sample_marks(2) sample_turn_with_def [THEN arg_cong [of _ _ length]])
qed

theorem executed_only_if_approved_witness:
  "approval_history sample_allowed_turn \<and> (\<exists>p. approvals_in sample_allowed_turn ''1'' = Some p \<and> permission_allows p
     \<and> request_executable (sample_marked_call True) = Some True)"
proof -
  have w: "gw_mode sample_goose_world = Approve" by (simp add: sample_goose_world_def world.defs)
  note shape = sample_allowed_shape [OF sample_allowed_turn_def]
  have "tr_id (sample_marked_call True) = ''1''" "confirmations_in sample_allowed_turn = {''1''}"
    by (simp_all add: sample_allowed_turn_def approval_sample_defs)
  then show ?thesis
    using executed_only_if_approved [OF sample_allowed_runs [OF w, of _ True 0, simplified, folded sample_allowed_turn_def]
        shape(1) _ _ sample_allowed_history, of "sample_marked_call True" undefined] w shape(4) sample_allowed_history
    by (simp add: sample_asking_env_def sample_asking_def)
qed

subsection \<open>Every known request is answered once\<close>

lemma find_append:
  "List.find P (xs @ ys) = (case List.find P xs of Some x \<Rightarrow> Some x | None \<Rightarrow> List.find P ys)"
  by (induction xs) auto

lemma advertised_after_user:
  "m_role m = User \<Longrightarrow> request_was_advertised (turn @ [m]) r = request_was_advertised turn r"
  by (simp add: request_was_advertised_def find_append split: sum.split option.split)

lemma known_pending_after_answers:
  assumes "answer_message m ids"
  shows "known_pending env tools (turn @ [m]) = filter (\<lambda>(r, _). tr_id r \<notin> set ids) (known_pending env tools turn)"
  using assms
  by (simp add: known_pending_def pending_advertised_tool_requests_def pending_after_answers [OF assms]
      advertised_after_user answer_message_def conj_ac case_prod_beta filter_filter)

lemma known_pending_answered:
  assumes "answer_message m ids" and "set (map (tr_id \<circ> fst) (known_pending env tools turn)) \<subseteq> set ids"
  shows "known_pending env tools (turn @ [m]) = []"
  using assms by (fastforce simp: known_pending_after_answers [OF assms(1)] filter_empty_conv)

lemma executed_answers_once:
  assumes "execute_pending env s pending w = (Inr (Applied r), w')"
    and "distinct (map (tr_id \<circ> fst) pending)" and "\<And>n. distinct (result_calls (ge_tool_items env n))"
  shows "\<exists>ms es m ids. sr_effects r = map from_message ms @ es @ [from_message m] \<and> \<not> sr_yield_to_client r
    \<and> list_all append_only es \<and> appended es = [] \<and> answer_message m ids \<and> mset ids = mset (map (tr_id \<circ> fst) pending)"
proof -
  from execute_pending_answers [OF assms(1)] obtain ms es m ids and calls :: "started_call list" and items n where
    r: "sr_effects r = map from_message ms @ es @ [from_message m]" "\<not> sr_yield_to_client r"
      "es = [] \<or> (\<exists>d. es = [GSetExtensionData d])"
    and a: "answer_message m (ids @ map tr_id (filter (\<lambda>r. tr_id r \<notin> set ids) (map fst pending)))"
    and c: "map st_request calls = map fst (filter (\<lambda>(_, d). d = Execute) pending)"
    and i: "items = ge_tool_items env n"
    and ids: "ids = map (tr_id \<circ> fst) (filter (\<lambda>(_, d). d \<noteq> Execute) pending)
        @ map (\<lambda>i. tr_id (st_request (calls ! i))) (filter (\<lambda>i. i < length calls) (result_calls items))"
    by blast
  define P where "P q \<longleftrightarrow> (q, Execute) \<in> set pending" for q
  have "inj_on fst (set pending)" using assms(2) by (metis distinct_map inj_on_imageI2 map_map)
  then have "\<forall>p \<in> set pending. P (fst p) \<longleftrightarrow> snd p = Execute"
    by (force simp: P_def inj_on_def)
  then have P: "filter P (map fst pending) = map fst (filter (\<lambda>(_, d). d = Execute) pending)"
    "filter (\<lambda>q. \<not> P q) (map fst pending) = map fst (filter (\<lambda>(_, d). d \<noteq> Execute) pending)"
    by (auto simp: filter_map case_prod_beta intro!: arg_cong [of _ _ "map fst"] filter_cong)
  have "mset (ids @ map tr_id (filter (\<lambda>r. tr_id r \<notin> set ids) (map fst pending))) = mset (map tr_id (map fst pending))"
    by (rule answered_once [of "map fst pending" "result_calls items" calls P])
      (use assms(2,3) i c ids in \<open>simp_all add: P\<close>)
  moreover have "list_all append_only es" "appended es = []"
    using r(3) by (auto simp: append_only_def appended_def appended_message_def)
  ultimately show ?thesis using r(1,2) a by (metis map_map)
qed

lemma take_items_returns: "returns (take_items env s requests calls items st)"
proof (induction items arbitrary: st)
  case (Cons it items)
  then show ?case
    by (cases it; cases "snd it")
      (auto simp: Let_def with_post_tool_hooks_def emit_with_matcher_def
        intro!: returns_bind hooks_return split: option.split sum.split tool_category.split prod.split)
qed auto

lemma dispatch_returns: "is_ok (tr_tool_call r) \<Longrightarrow> returns (dispatch_tool_call env s r)"
  by (auto simp: dispatch_tool_call_def is_ok_def intro!: returns_bind hooks_return split: sum.splits)

lemma io_map_returns: "(\<And>x. x \<in> set xs \<Longrightarrow> returns (f x)) \<Longrightarrow> returns (io_map f xs)"
  by (induction xs) (auto intro!: returns_bind)

lemma extension_state_returns:
  assumes "\<And>n d. is_ok (ge_extension_state env n d)"
  shows "returns (io_bind (ask (ge_extension_state env)) (\<lambda>f. io_bind (io_of (f d)) (\<lambda>d. io_ok (g d))))"
proof -
  have ok: "\<exists>d'. ge_extension_state env n d = Inr d'" for n
    using assms [of n d] by (cases "ge_extension_state env n d") (simp_all add: is_ok_def)
  show ?thesis
    unfolding returns_def
  proof
    fix w
    show "\<exists>x w'. io_bind (ask (ge_extension_state env)) (\<lambda>f. io_bind (io_of (f d)) (\<lambda>d. io_ok (g d))) w = (Inr x, w')"
      using ok [of "w_tick w"] by (auto simp: io_simps)
  qed
qed

lemma execute_pending_returns:
  assumes "\<And>q. (q, Execute) \<in> set pending \<Longrightarrow> is_ok (tr_tool_call q)"
    and "\<And>n d. is_ok (ge_extension_state env n d)"
  shows "\<exists>r w'. execute_pending env s pending w = (Inr (Applied r), w')"
proof -
  have "returns (execute_pending env s pending)"
    unfolding execute_pending_def Let_def applied_def using assms
    by (auto intro!: returns_bind io_map_returns dispatch_returns take_items_returns extension_state_returns)
  then obtain x w' where x: "execute_pending env s pending w = (Inr x, w')" unfolding returns_def by blast
  then have "\<exists>r. x = Applied r"
    unfolding execute_pending_def Let_def by (auto simp: io_bind_eq_Inr applied_def io_ok_def)
  with x show ?thesis by blast
qed

lemma known_pending_execute:
  assumes "(q, Execute) \<in> set (known_pending env tools turn)"
  shows "is_ok (tr_tool_call q)"
  using assms by (auto intro: pending_execute(5) simp: known_pending_def)

lemma tool_execution_answers:
  assumes turn: "messages_since_kickoff c = Inr turn"
    and pending: "pending = known_pending env (case ge_known_tools env (w_tick w) of Some ts \<Rightarrow> ts | None \<Rightarrow> []) turn"
      "pending \<noteq> []" "distinct (map (tr_id \<circ> fst) pending)"
    and "\<And>n. distinct (result_calls (ge_tool_items env n))" and "\<And>n d. is_ok (ge_extension_state env n d)"
  shows "\<exists>r w' ms es m ids. tool_execution_run env s c w = (Inr (Applied r), w') \<and> \<not> sr_yield_to_client r
    \<and> sr_effects r = map from_message ms @ es @ [from_message m] \<and> list_all append_only es \<and> appended es = []
    \<and> answer_message m ids \<and> mset ids = mset (map (tr_id \<circ> fst) pending)"
proof -
  have adv: "pending_advertised_tool_requests (ge_show_error env) turn \<noteq> []"
    using pending(1,2) by (auto simp: known_pending_def)
  show ?thesis
  proof (cases "gw_mode w = Chat")
    case True
    have "answer_message (skip_all env pending (message_user t)) (map (tr_id \<circ> fst) pending)" for t
      using skip_all_answers [OF answer_message_user] by fastforce
    moreover obtain m w' where "tool_execution_run env s c w
        = (Inr (Applied \<lparr>sr_effects = [from_message m], sr_applied_step = None, sr_yield_to_client = False\<rparr>), w')"
      "\<exists>t u. m = with_generated_id_if_missing u (skip_all env pending (message_user t))"
      using True adv pending(2)
      by (auto simp: tool_execution_run_def turn io_simps Let_def pending(1) [symmetric] applied_def)
    ultimately show ?thesis
      by - (rule exI [of _ "\<lparr>sr_effects = [from_message m], sr_applied_step = None, sr_yield_to_client = False\<rparr>"],
          rule exI [of _ w'], rule exI [of _ "[]"], rule exI [of _ "[]"], rule exI [of _ m],
          rule exI [of _ "map (tr_id \<circ> fst) pending"], auto simp: appended_def)
  next
    case False
    have "\<exists>r w'. execute_pending env s pending (w\<lparr>w_tick := Suc (w_tick w)\<rparr>) = (Inr (Applied r), w')"
      using known_pending_execute assms(6) by (intro execute_pending_returns) (auto simp: pending(1))
    then obtain r w' where e: "execute_pending env s pending (w\<lparr>w_tick := Suc (w_tick w)\<rparr>) = (Inr (Applied r), w')" by blast
    with False adv pending(2) have "tool_execution_run env s c w = (Inr (Applied r), w')"
      by (simp add: tool_execution_run_def turn io_simps Let_def pending(1) [symmetric])
    with executed_answers_once [OF e pending(3) assms(5)] show ?thesis by blast
  qed
qed

text \<open>Claim C15 (executed_requests_answered): whenever a call of a known tool is pending, the
  execution of tool calls applies, and whatever the tools stream back, in which order, and wherever
  the streams are cut off, its last effect is one message of the user that answers every pending
  call of a known tool exactly once: executed, declined and unparseable ones, those a hook
  denied, and those that never delivered a result. With that message in the turn no call of a
  known tool is pending, so none is executed again. It supposes distinct identifiers, that
  a stream delivers its result once, and that the state of the extensions can be saved.\<close>

theorem executed_requests_answered:
  assumes "messages_since_kickoff c = Inr turn"
    and "pending = known_pending env (case ge_known_tools env (w_tick w) of Some ts \<Rightarrow> ts | None \<Rightarrow> []) turn"
    and "pending \<noteq> []" and "distinct (map (tr_id \<circ> fst) pending)"
    and "\<And>n. distinct (result_calls (ge_tool_items env n))" and "\<And>n d. is_ok (ge_extension_state env n d)"
  shows "\<exists>r w' ms es m ids. tool_execution_run env s c w = (Inr (Applied r), w')
    \<and> sr_effects r = map from_message ms @ es @ [from_message m] \<and> appended es = []
    \<and> answer_message m ids \<and> mset ids = mset (map (tr_id \<circ> fst) pending)
    \<and> known_pending env (case ge_known_tools env (w_tick w) of Some ts \<Rightarrow> ts | None \<Rightarrow> []) (turn @ [m]) = []"
proof -
  from tool_execution_answers [OF assms] obtain r w' ms es m ids where
    m: "tool_execution_run env s c w = (Inr (Applied r), w')" "sr_effects r = map from_message ms @ es @ [from_message m]"
      "appended es = []" "answer_message m ids" "mset ids = mset (map (tr_id \<circ> fst) pending)" by blast
  moreover have "known_pending env (case ge_known_tools env (w_tick w) of Some ts \<Rightarrow> ts | None \<Rightarrow> []) (turn @ [m]) = []"
    using m(5) by (intro known_pending_answered [OF m(4)]) (metis assms(2) mset_eq_setD order_refl)
  ultimately show ?thesis by blast
qed

definition sample_running_env :: goose_env where
  "sample_running_env = sample_goose_env\<lparr>ge_known_tools := (\<lambda>_. Some [tool_named ''shell'']),
     ge_tool_items := (\<lambda>_. [(0, StreamResult (Inr (call_tool_success [])))])\<rparr>"

lemma sample_known_pending:
  "known_pending sample_running_env [tool_named ''shell''] sample_pending_turn = [(sample_turn_request, Execute)]"
  by (simp add: known_pending_def sample_turn_shape) (simp add: sample_turn_request_def sample_call_def tool_named_def)

lemma sample_running_fields [simp]:
  "ge_known_tools sample_running_env n = Some [tool_named ''shell'']"
  "ge_tool_items sample_running_env n = [(0, StreamResult (Inr (call_tool_success [])))]"
  "is_ok (ge_extension_state sample_running_env n d)"
  by (simp_all add: sample_running_env_def sample_goose_env_def env.defs is_ok_def)

lemma sample_request_call:
  "tr_tool_call sample_turn_request = Inr \<lparr>ctp_name = ''shell'', ctp_arguments = None, ctp_rest = JNull\<rparr>"
  "tr_id sample_turn_request = ''1''"
  by (simp_all add: sample_turn_request_def sample_call_def)

theorem executed_requests_answered_witness:
  "\<exists>r w' ms es m. tool_execution_run sample_running_env (sample_session sample_pending_turn) sample_pending_turn
       (sample_goose_world\<lparr>gw_mode := Auto\<rparr>) = (Inr (Applied r), w')
     \<and> sr_effects r = map from_message ms @ es @ [from_message m] \<and> answer_message m [''1'']"
proof -
  let ?w = "sample_goose_world\<lparr>gw_mode := Auto\<rparr>"
  have "[(sample_turn_request, Execute)] = known_pending sample_running_env
      (case ge_known_tools sample_running_env (w_tick ?w) of Some ts \<Rightarrow> ts | None \<Rightarrow> []) sample_pending_turn"
    using sample_known_pending by simp
  from executed_requests_answered [OF sample_turn_shape(1) this]
  obtain r w' ms es m ids where "tool_execution_run sample_running_env (sample_session sample_pending_turn) sample_pending_turn ?w
      = (Inr (Applied r), w')" "sr_effects r = map from_message ms @ es @ [from_message m]" "answer_message m ids"
    "mset ids = mset [tr_id sample_turn_request]" by (fastforce simp: result_calls_def)
  then show ?thesis by (auto simp: sample_request_call)
qed

end
