(* ===== verification/Agent_Pipeline.thy ===== *)
theory Agent_Pipeline
  imports Agent_Tool_Ops
begin

section \<open>The pipeline of the agent\<close>

text \<open>
  \<open>create_state_machine\<close> of \<open>crates/goose/src/agents/agent.rs\<close> and \<open>run\<close> of
  \<open>state_machine/session.rs\<close>: the order in which the operations are asked, and the machine run
  over the session store. The operations whose files are not modelled (compaction, the summary of
  tool pairs, doctor, project, skills, recipes, status) and the methods of the tool execution that
  describe the extensions are arguments. The theorem at the end is that a turn comes back to the
  client: the budget of turns bounds the loop, whatever the model, the tools and the hooks do.
\<close>

type_synonym goose_operation = "(session, goose_world, goose_effect) operation"
type_synonym goose_step = "(session, goose_world, goose_effect) step"

definition goose_operation :: "string \<Rightarrow> (session \<Rightarrow> conversation \<Rightarrow> goose_result) \<Rightarrow> goose_operation" where
  "goose_operation name run = (default_operation name)\<lparr>op_run := run\<rparr>"

record other_operations =
  oo_compaction :: "goose_operation option"
  oo_tool_pair_compaction :: goose_operation
  oo_doctor :: goose_operation
  oo_project :: goose_operation
  oo_skills :: goose_operation
  oo_recipe :: goose_operation
  oo_tool_execution :: goose_operation
  oo_status :: goose_operation

definition max_turns_operation :: "goose_env \<Rightarrow> u32 \<Rightarrow> goose_operation" where
  "max_turns_operation env max_turns =
     (goose_operation ''max_turns'' (max_turns_run env max_turns))
       \<lparr>op_moim_parts := max_turns_moim_parts max_turns\<rparr>"

definition tool_execution_operation :: "goose_env \<Rightarrow> goose_operation \<Rightarrow> goose_operation" where
  "tool_execution_operation env methods =
     methods\<lparr>op_name := ''tool_execution'', op_run := tool_execution_run env,
       op_inference_tools := (\<lambda>s. io_bind (ask (ge_known_tools env)) (\<lambda>tools.
         io_ok (case tools of Some ts \<Rightarrow> ts | None \<Rightarrow> [])))\<rparr>"

definition retry_operation :: "goose_env \<Rightarrow> goose_operation" where
  "retry_operation env = (goose_operation ''retry'' (retry_run env))\<lparr>op_run_command := retry_command env\<rparr>"

definition pipeline_operations :: "goose_env \<Rightarrow> other_operations \<Rightarrow> u32 \<Rightarrow> u32 \<Rightarrow> goose_operation list" where
  "pipeline_operations env oo max_turns block_cap =
     [goose_operation ''steer'' (steer_run env),
      max_turns_operation env max_turns,
      goose_operation ''bang_shell'' (bang_shell_run env)]
     @ (case oo_compaction oo of Some compaction \<Rightarrow> [compaction] | None \<Rightarrow> [])
     @ [oo_tool_pair_compaction oo,
        goose_operation ''tool_approval'' (tool_approval_run env),
        oo_doctor oo,
        oo_project oo,
        oo_skills oo,
        oo_recipe oo,
        tool_execution_operation env (oo_tool_execution oo),
        goose_operation ''unknown_tool'' (unknown_tool_run env),
        retry_operation env,
        goose_operation ''stop_hook'' (stop_hook_run env block_cap),
        goose_operation ''exit_on_error'' exit_on_error_run]"

definition create_state_machine ::
    "goose_env \<Rightarrow> other_operations \<Rightarrow> (session, goose_world) inference_runner \<Rightarrow> u32 \<Rightarrow> u32 \<Rightarrow> goose_step list" where
  "create_state_machine env oo ir max_turns block_cap =
     (let operations = pipeline_operations env oo max_turns block_cap in
      map OperationStep
        (goose_operation ''entry_hook'' (entry_hook_run env)
         # goose_operation ''slash_command'' (slash_command_run (operations @ [oo_status oo]))
         # operations)
      @ [InferenceStep (inference_as env from_message GRecordUsage ir)])"

definition goose_round ::
    "goose_env \<Rightarrow> goose_step list \<Rightarrow> string \<Rightarrow> goose_world \<Rightarrow> (anyhow + session) \<times> goose_world + goose_world" where
  "goose_round env steps sid =
     run_round (load_session env sid)
       (machine_step env (goose_ensure_message_ids env) ses_conversation steps)
       (machine_apply (goose_ensure_message_ids env) (apply_effects env))"

definition run_goose ::
    "goose_env \<Rightarrow> goose_step list \<Rightarrow> string \<Rightarrow> goose_world \<Rightarrow> ((anyhow + session) \<times> goose_world) option" where
  "run_goose env steps sid w =
     (case load_session env sid w of
        (Inl e, w1) \<Rightarrow> Some (Inl e, w1)
      | (Inr _, w1) \<Rightarrow>
          machine_run env (goose_ensure_message_ids env) ses_conversation (load_session env sid) (apply_effects env) steps w1)"

subsection \<open>What an operation leaves alone\<close>

text \<open>Running an operation touches neither the store nor the steering queue: only its effects do.\<close>

definition same_store :: "goose_world \<Rightarrow> goose_world \<Rightarrow> bool" where
  "same_store w w' \<longleftrightarrow> gw_table w' = gw_table w \<and> gw_usage w' = gw_usage w
     \<and> gw_columns w' = gw_columns w \<and> gw_queue w' = gw_queue w"

lemma same_store_order: "reflp same_store" "transp same_store"
  by (auto simp: same_store_def intro!: reflpI transpI)

lemma same_store_refl [simp]: "same_store w w"
  by (simp add: same_store_def)

lemma same_store_trans: "same_store a b \<Longrightarrow> same_store b c \<Longrightarrow> same_store a c"
  by (auto simp: same_store_def)

lemmas store_intros = moves_bind [OF same_store_order(2)] moves_map [OF same_store_order]
  moves_ok [OF same_store_order(1)]

lemma fold_related:
  assumes "reflp R" "transp R" and "\<And>x w. R w (f x w)"
  shows "R w (fold f xs w)"
proof (induction xs arbitrary: w)
  case (Cons x xs)
  then show ?case using assms(3) [of w x] assms(2) by (auto dest: transpD)
qed (simp add: assms(1) reflpD)

lemma hook_run_store: "same_store w (snd (goose_run_hook env ev rule action payload w))"
  by (simp add: goose_run_hook_def same_store_def)

lemma emit_serialized_store: "same_store w (emit_serialized (goose_run_hook env) rules ev matcher payload w)"
  unfolding emit_serialized_def
  by (rule fold_related [OF same_store_order])
    (auto intro!: fold_related [OF same_store_order] hook_run_store)

lemma run_chain_store:
  "same_store w (snd (run_chain hk (goose_run_hook env) ev payload matched evaluated failed w))"
proof (induction matched arbitrary: evaluated failed w)
  case (Cons p rest)
  obtain rule action where p: "p = (rule, action)" by fastforce
  obtain res w1 where run: "goose_run_hook env ev rule action payload w = (res, w1)" by fastforce
  then have "same_store w w1" using hook_run_store by (metis snd_conv)
  with Cons.IH [of w1] show ?case
    by (auto simp: p run Let_def split: prod.split chain_step.split intro: same_store_trans)
qed simp

lemma hooks_store:
  "moves same_store (fire_hook env ev ctx)" "moves same_store (ask_hooks env ev ctx)"
  "moves same_store (emit_pre_tool_use_result env s tid name input outcome)"
  using emit_serialized_store run_chain_store
  by (auto simp: moves_def fire_hook_def ask_hooks_def emit_pre_tool_use_result_def emit_hook_def emit_hook_result_def
      emit_blocking_with_outcome_def Let_def split: option.split)

lemma basic_store:
  "moves same_store (ask f)" "moves same_store (now env)" "moves same_store (new_uuid env)"
  "moves same_store (is_cancelled env)" "moves same_store (emit_event ev)" "moves same_store (emit_message env m)"
  "moves same_store (io_err e)" "moves same_store (\<lambda>w. (Inr (g w), w))"
  by (simp_all add: moves_def same_store_def io_simps Let_def)

lemma result_store:
  "moves same_store not_applicable" "moves same_store (applied es)" "moves same_store yielded"
  "moves same_store (yielded_with es)"
  by (simp_all add: not_applicable_def applied_def yielded_def yielded_with_def store_intros)

lemma emit_message_now_store: "moves same_store (emit_message_now env f)"
  unfolding emit_message_now_def by (intro store_intros basic_store)

lemma tool_hooks_store:
  "moves same_store (run_pre_tool_hooks env s tid name input)"
  "moves same_store (emit_extended_pre_hooks env name input s)"
  "moves same_store (emit_post_tool_use env s name tid input res)"
  "moves same_store (with_post_tool_hooks env s call tid raw)"
  by (auto simp: run_pre_tool_hooks_def emit_extended_pre_hooks_def emit_with_matcher_def emit_post_tool_use_def
      with_post_tool_hooks_def Let_def intro!: store_intros basic_store hooks_store
      split: option.split tool_category.split prod.split)

lemmas operation_store = store_intros basic_store result_store hooks_store tool_hooks_store emit_message_now_store

lemma exit_on_error_store: "moves same_store (exit_on_error_run s c)"
  by (auto simp: exit_on_error_run_def intro!: operation_store)

lemma max_turns_store: "moves same_store (max_turns_run env n s c)" "moves same_store (max_turns_moim_parts n s c)"
  by (auto simp: max_turns_run_def max_turns_moim_parts_def intro!: operation_store)

lemma stop_hook_store: "moves same_store (stop_hook_run env cap s c)"
  by (auto simp: stop_hook_run_def Let_def intro!: operation_store split: hook_decision.split)

lemma entry_hook_store: "moves same_store (entry_hook_run env s c)"
  by (auto simp: entry_hook_run_def Let_def intro!: operation_store)

lemma bang_shell_store: "moves same_store (bang_shell_run env s c)"
  by (auto simp: bang_shell_run_def intro!: operation_store split: option.split)

lemma retry_store: "moves same_store (retry_run env s c)"
  by (auto simp: retry_run_def retry_recipe_def intro!: operation_store split: option.split bool.split sum.split prod.split)
    (auto simp: moves_def same_store_def)

lemma unknown_tool_store: "moves same_store (unknown_tool_run env s c)"
proof -
  have one: "moves same_store (unclaimed_result env s turn p)" for turn p
    by (cases p) (auto simp: unclaimed_result_def Let_def intro!: operation_store
        split: tool_disposition.split sum.split prod.split)
  have "moves same_store (answer_unclaimed env s turn ps m)" for turn ps m
    by (induction ps arbitrary: m) (auto intro!: operation_store one split: prod.split)
  then show ?thesis by (auto simp: unknown_tool_run_def Let_def intro!: operation_store)
qed

lemma tool_execution_store: "moves same_store (tool_execution_run env s c)"
proof -
  have dispatch: "moves same_store (dispatch_tool_call env s r)" for r
    by (auto simp: dispatch_tool_call_def intro!: operation_store split: sum.split)
  have "moves same_store (take_items env s requests calls items st)" for requests calls items st
  proof (induction items arbitrary: st)
    case (Cons it items)
    then show ?case
      by (cases it; cases "snd it") (auto simp: Let_def intro!: operation_store split: option.split sum.split)
  qed (simp add: operation_store)
  with dispatch have "moves same_store (execute_pending env s pending)" for pending
    by (auto simp: execute_pending_def Let_def intro!: operation_store)
  then show ?thesis by (auto simp: tool_execution_run_def Let_def intro!: operation_store)
qed

lemma tool_approval_store: "moves same_store (tool_approval_run env s c)"
proof -
  have "moves same_store (update_permission_manager env name level)" for name level
    by (auto simp: moves_def same_store_def update_permission_manager_def split: prod.split)
  then have "moves same_store (apply_response env p)" for p
    by (auto simp: apply_response_def Let_def intro!: operation_store split: option.split)
  moreover have "moves same_store (approval_question env results r)" for results r
    by (auto simp: approval_question_def intro!: operation_store split: sum.split)
  ultimately show ?thesis
    by (auto simp: tool_approval_run_def Let_def intro!: operation_store split: prod.split)
qed

subsection \<open>What brings a turn closer to its end\<close>

text \<open>
  The rank of a turn: how many blocks of answers the budget leaves, whether the model spoke last,
  and how many tool requests wait. A round that goes on lowers it in this order: an inference
  opens a block, the answers to tool requests and the nudges of hooks and goals end one, and
  answers leave fewer requests waiting.
\<close>

type_synonym turn_rank = "nat \<times> nat \<times> nat"

definition turn_rank :: "nat \<Rightarrow> (error_data \<Rightarrow> string) \<Rightarrow> message list \<Rightarrow> turn_rank" where
  "turn_rank n sh turn =
     (n - block_starts False turn, if m_role (last turn) = Assistant then 1 else 0,
      length (pending_tool_requests sh turn))"

definition rank_less :: "turn_rank rel" where
  "rank_less = less_than <*lex*> less_than <*lex*> less_than"

text \<open>The model is not asked again after a message of its own that waits for an answer.\<close>

definition settled :: "message \<Rightarrow> bool" where
  "settled m \<longleftrightarrow> m_role m = Assistant \<longrightarrow>
     error_kind m \<noteq> None \<or> \<not> list_ex asks_for_action (m_content m) \<or> is_agent_visible m"

definition no_decisions :: "message list \<Rightarrow> bool" where
  "no_decisions ms \<longleftrightarrow> filter_map confirmation_response (turn_blocks ms) = []"

definition progress :: "nat \<Rightarrow> (error_data \<Rightarrow> string) \<Rightarrow> message list \<Rightarrow> message list \<Rightarrow> bool" where
  "progress n sh turn ms \<longleftrightarrow> ms \<noteq> [] \<and> list_all (\<lambda>m. \<not> is_kickoff m) ms \<and> no_decisions ms \<and> settled (last ms)
     \<and> block_starts False (turn @ ms) \<le> n
     \<and> (turn_rank n sh (turn @ ms), turn_rank n sh turn) \<in> rank_less"

lemma like_same:
  assumes "list_all2 content_like ms ms'"
  shows "turn_blocks ms' = turn_blocks ms" "map m_role ms' = map m_role ms" "map is_kickoff ms' = map is_kickoff ms"
    "turn_blocks (filter (\<lambda>m. m_role m = Assistant) ms') = turn_blocks (filter (\<lambda>m. m_role m = Assistant) ms)"
    "block_starts b ms' = block_starts b ms" "ms \<noteq> [] \<Longrightarrow> content_like (last ms) (last ms')" "(ms' = []) = (ms = [])"
proof -
  show "map is_kickoff ms' = map is_kickoff ms"
    using assms by (induction rule: list_all2_induct) (auto dest: content_like_visible(5))
  show "turn_blocks ms' = turn_blocks ms" "map m_role ms' = map m_role ms"
    "turn_blocks (filter (\<lambda>m. m_role m = Assistant) ms') = turn_blocks (filter (\<lambda>m. m_role m = Assistant) ms)"
    "(ms' = []) = (ms = [])"
    using assms
    by (induction rule: list_all2_induct) (auto simp: turn_blocks_def content_like_def)
  show "block_starts b ms' = block_starts b ms"
    using assms by (induction arbitrary: b rule: list_all2_induct) (auto simp: content_like_def)
  show "ms \<noteq> [] \<Longrightarrow> content_like (last ms) (last ms')"
    using assms by (cases "ms' = []") (auto simp: list_all2_conv_all_nth last_conv_nth)
qed

lemma settled_like: "content_like m m' \<Longrightarrow> settled m' = settled m"
  using content_like_visible [of m m'] by (simp add: settled_def) (simp add: content_like_def)

lemma pending_same:
  assumes "turn_blocks ms' = turn_blocks ms"
    and "turn_blocks (filter (\<lambda>m. m_role m = Assistant) ms') = turn_blocks (filter (\<lambda>m. m_role m = Assistant) ms)"
  shows "pending_tool_requests sh ms' = pending_tool_requests sh ms"
proof -
  have "answered_in ms' = answered_in ms" "confirmations_in ms' = confirmations_in ms" "approvals_in ms' = approvals_in ms"
    by (simp_all add: answered_in_def confirmations_in_def approvals_in_def assms(1))
  then have "disposition_of sh ms' r = disposition_of sh ms r" for r
    by (simp only: disposition_of_def)
  then show ?thesis by (simp add: pending_tool_requests_def assms(2))
qed

lemma progress_like:
  assumes "list_all2 content_like ms ms'" and "progress n sh turn ms"
  shows "progress n sh turn ms'"
proof -
  note same = like_same [OF assms(1)]
  have ne: "ms \<noteq> []" "ms' \<noteq> []" using assms(2) same(7) by (auto simp: progress_def)
  have like: "content_like (last ms) (last ms')" using same(6) ne by blast
  have "pending_tool_requests sh (turn @ ms') = pending_tool_requests sh (turn @ ms)"
    by (rule pending_same) (simp_all add: same)
  moreover have "m_role (last ms') = m_role (last ms)" using like by (simp add: content_like_def)
  ultimately have "turn_rank n sh (turn @ ms') = turn_rank n sh (turn @ ms)"
    using ne by (simp add: turn_rank_def block_starts_append same)
  moreover have "list_all (\<lambda>m. \<not> is_kickoff m) ms' = list_all (\<lambda>m. \<not> is_kickoff m) ms"
    using same(3) by (metis (no_types, lifting) list.pred_map list.pred_cong comp_apply)
  ultimately show ?thesis
    using assms(2) ne by (simp add: progress_def no_decisions_def same block_starts_append settled_like [OF like])
qed

lemma answer_progress:
  assumes "answer_message m ids" and "p \<in> set (pending_tool_requests sh turn)" "tr_id (fst p) \<in> set ids"
    and "block_starts False turn \<le> n" and "turn \<noteq> []"
  shows "progress n sh turn [m]"
proof -
  have role: "m_role m = User" using assms(1) by (simp add: answer_message_def)
  have "length (pending_tool_requests sh (turn @ [m])) < length (pending_tool_requests sh turn)"
    unfolding pending_after_answers [OF assms(1)]
    using assms(2,3) by (intro length_filter_less [of p]) (auto split: prod.split)
  moreover have "ids \<noteq> []" using assms(3) by auto
  ultimately show ?thesis
    using role assms answer_message_not_kickoff [OF assms(1)] answer_blocks(4) [OF assms(1)]
    by (auto simp: progress_def no_decisions_def settled_def block_starts_append turn_rank_def rank_less_def)
qed

lemma nudge_progress:
  assumes "ends_turn turn" and "m_role m = User" "\<not> is_kickoff m" "filter_map confirmation_response (m_content m) = []"
    and "block_starts False turn \<le> n"
  shows "progress n sh turn [m]"
proof -
  have "m_role (last turn) = Assistant"
    using assms(1) by (auto simp: ends_turn_def last_opt_def split: if_splits option.splits)
  with assms show ?thesis
    by (auto simp: progress_def no_decisions_def settled_def block_starts_append turn_rank_def rank_less_def)
qed

lemma block_starts_user: "list_all (\<lambda>m. m_role m = User) ms \<Longrightarrow> block_starts b ms = 0"
  by (induction ms arbitrary: b) auto

lemma block_starts_assistant:
  "list_all (\<lambda>m. m_role m = Assistant) ms \<Longrightarrow> block_starts b ms = (if b \<or> ms = [] then 0 else 1)"
proof (induction ms arbitrary: b)
  case (Cons m ms)
  then show ?case using Cons.IH [of True] by auto
qed simp

lemma inference_progress:
  assumes "m_role (last turn) \<noteq> Assistant" "turn \<noteq> []" and "block_starts False turn < n"
    and "list_all (\<lambda>m. m_role m = User \<and> \<not> is_user_visible m) sent" "no_decisions (sent @ answer)"
    and "answer \<noteq> []" "list_all (\<lambda>m. m_role m = Assistant) answer" "settled (last answer)"
  shows "progress n sh turn (sent @ answer)"
proof -
  have user: "list_all (\<lambda>m. m_role m = User) sent" using assms(4) by (simp add: list_all_iff)
  have "block_starts False (turn @ sent @ answer) = Suc (block_starts False turn)"
    using assms(1,2,6,7) user block_starts_user [OF user]
    by (auto simp: block_starts_append block_starts_assistant list_all_iff)
  moreover have "list_all (\<lambda>m. \<not> is_kickoff m) (sent @ answer)"
    using assms(4,7) by (auto simp: is_kickoff_def list_all_iff)
  ultimately show ?thesis
    using assms by (auto simp: progress_def turn_rank_def rank_less_def)
qed

subsection \<open>A step that goes on\<close>

definition keeps_recipe :: "goose_effect \<Rightarrow> bool" where
  "keeps_recipe e = (case e of GSetRecipe _ \<Rightarrow> False | _ \<Rightarrow> True)"

definition advances :: "nat \<Rightarrow> (error_data \<Rightarrow> string) \<Rightarrow> message list \<Rightarrow> goose_effect list \<Rightarrow> bool" where
  "advances n sh turn es \<longleftrightarrow>
     list_all append_only es \<and> list_all keeps_recipe es \<and> progress n sh turn (appended es)"

lemma keeps_recipe_message [simp]: "keeps_recipe (from_message m)" "keeps_recipe (GRecordUsage u)"
  by (simp_all add: keeps_recipe_def from_message_def)

lemma keeps_recipe_like: "list_all2 effect_like es es' \<Longrightarrow> list_all keeps_recipe es' = list_all keeps_recipe es"
proof (induction rule: list_all2_induct)
  case (Cons e es e' es')
  from Cons(1) have "keeps_recipe e' = keeps_recipe e"
    by (cases rule: effect_like_cases) (auto simp: keeps_recipe_def)
  with Cons show ?case by simp
qed simp

lemma advances_like: "list_all2 effect_like es es' \<Longrightarrow> advances n sh turn es \<Longrightarrow> advances n sh turn es'"
  using effects_like_append [of es es'] keeps_recipe_like [of es es'] progress_like
  by (auto simp: advances_def)

text \<open>
  What one operation of the pipeline may do in a world whose store is that of \<open>w0\<close>: pass under
  the condition \<open>pass\<close>, hand over to the client, or bring the turn forward; and what the rest
  of a pipeline may do.
\<close>

definition attempt_ok ::
    "goose_env \<Rightarrow> session \<Rightarrow> conversation \<Rightarrow> goose_step list \<Rightarrow> goose_world \<Rightarrow> (goose_effect list \<Rightarrow> bool)
       \<Rightarrow> bool \<Rightarrow> goose_step \<Rightarrow> bool" where
  "attempt_ok env s c steps w0 Q pass st \<longleftrightarrow>
     (\<forall>v a v'. same_store w0 v \<and> attempt_step env s c steps st v = (Inr a, v') \<longrightarrow>
        same_store w0 v' \<and>
        (case a of
           Result (Applied q) \<Rightarrow> sr_yield_to_client q \<or> Q (sr_effects q)
         | ReturnNone \<Rightarrow> True
         | _ \<Rightarrow> pass))"

definition rest_ok ::
    "goose_env \<Rightarrow> session \<Rightarrow> conversation \<Rightarrow> goose_step list \<Rightarrow> goose_world \<Rightarrow> (goose_effect list \<Rightarrow> bool)
       \<Rightarrow> goose_step list \<Rightarrow> bool" where
  "rest_ok env s c steps w0 Q rest \<longleftrightarrow>
     (\<forall>v r v'. same_store w0 v
        \<and> step_from env (goose_ensure_message_ids env) s c steps rest v = (Inr (Some r), v') \<longrightarrow>
        same_store w0 v' \<and> (sr_yield_to_client r \<or> Q (sr_effects r)))"

lemma only_ticks_store: "only_ticks w w' \<Longrightarrow> same_store w w'"
  by (auto simp: only_ticks_def same_store_def)

lemma ensure_store: "moves same_store (goose_ensure_message_ids env e)"
  using goose_ensure_ticks [of env e] only_ticks_store unfolding moves_def by blast

lemma rest_ok_Nil: "rest_ok env s c steps w0 Q []"
  by (simp add: rest_ok_def io_simps)

lemma rest_ok_Cons:
  assumes quiet: "\<And>n. \<not> e_cancelled env n"
    and like: "\<And>es es'. list_all2 effect_like es es' \<Longrightarrow> Q es \<Longrightarrow> Q es'"
    and st: "attempt_ok env s c steps w0 Q pass st" and rest: "pass \<Longrightarrow> rest_ok env s c steps w0 Q rest"
  shows "rest_ok env s c steps w0 Q (st # rest)"
  unfolding rest_ok_def
proof (intro allI impI)
  fix v r v'
  assume "same_store w0 v
    \<and> step_from env (goose_ensure_message_ids env) s c steps (st # rest) v = (Inr (Some r), v')"
  then have v: "same_store w0 v" and
    step: "step_from env (goose_ensure_message_ids env) s c steps (st # rest) v = (Inr (Some r), v')" by blast+
  from step obtain a v1 where a: "attempt_step env s c steps st v = (Inr a, v1)" by (auto simp: io_bind_eq_Inr)
  with st v have s1: "same_store w0 v1"
    and out: "case a of Result (Applied q) \<Rightarrow> sr_yield_to_client q \<or> Q (sr_effects q) | ReturnNone \<Rightarrow> True | _ \<Rightarrow> pass"
    unfolding attempt_ok_def by blast+
  have tick: "same_store w0 (v1\<lparr>w_tick := n\<rparr>)" for n using s1 by (simp add: same_store_def)
  consider (pass) "a = Continue \<or> a = Result NotApplicable" | (none) "a = ReturnNone" | (applied) q where "a = Result (Applied q)"
    by (metis attempt.exhaust operation_result.exhaust)
  then show "same_store w0 v' \<and> (sr_yield_to_client r \<or> Q (sr_effects r))"
  proof cases
    case pass
    with out have "rest_ok env s c steps w0 Q rest" using rest by auto
    moreover from pass step a quiet obtain u where
      "step_from env (goose_ensure_message_ids env) s c steps rest u = (Inr (Some r), v')" "same_store w0 u"
      using s1 tick by (auto simp: io_simps)
    ultimately show ?thesis unfolding rest_ok_def by blast
  next
    case none
    with step a show ?thesis by (simp add: io_simps)
  next
    case (applied q)
    let ?v = "v1\<lparr>w_tick := Suc (w_tick v1)\<rparr>"
    from applied step a quiet obtain effects where
      e: "io_map (goose_ensure_message_ids env) (sr_effects q) ?v = (Inr effects, v')"
      "r = q\<lparr>sr_effects := effects, sr_applied_step := Some (op_name (step_operation st))\<rparr>"
      by (auto simp: io_simps split: prod.splits sum.splits)
    have "same_store ?v v'" using e(1) by (rule movesD [rotated]) (intro store_intros ensure_store)
    with tick have "same_store w0 v'" by (rule same_store_trans)
    moreover have "list_all2 effect_like (sr_effects q) effects" using ensure_like e(1) by (rule io_map_all2)
    ultimately show ?thesis using out applied e(2) like by auto
  qed
qed

lemma attempt_ok_operation:
  assumes "\<And>n. \<not> e_cancelled env n"
    and run: "\<And>v res v'. same_store w0 v \<Longrightarrow> op_run oper s c v = (Inr res, v') \<Longrightarrow>
      same_store w0 v' \<and> (case res of NotApplicable \<Rightarrow> pass | Applied q \<Rightarrow> sr_yield_to_client q \<or> Q (sr_effects q))"
  shows "attempt_ok env s c steps w0 Q pass (OperationStep oper)"
  unfolding attempt_ok_def
proof (intro allI impI)
  fix v a v'
  assume "same_store w0 v \<and> attempt_step env s c steps (OperationStep oper) v = (Inr a, v')"
  then have v: "same_store w0 v" and "attempt_step env s c steps (OperationStep oper) v = (Inr a, v')" by blast+
  then obtain res where res: "op_run oper s c (v\<lparr>w_tick := Suc (w_tick v)\<rparr>) = (Inr res, v')" "a = Result res"
    using assms(1) by (auto simp: attempt_step_def io_simps split: prod.splits sum.splits)
  from v have "same_store w0 (v\<lparr>w_tick := Suc (w_tick v)\<rparr>)" by (simp add: same_store_def)
  from run [OF this res(1)] res(2) show "same_store w0 v' \<and>
     (case a of Result (Applied q) \<Rightarrow> sr_yield_to_client q \<or> Q (sr_effects q) | ReturnNone \<Rightarrow> True | _ \<Rightarrow> pass)"
    by (auto split: operation_result.splits)
qed

lemma attempt_ok_moves:
  assumes "\<And>n. \<not> e_cancelled env n" and "moves same_store (op_run oper s c)"
    and "\<And>v res v'. same_store w0 v \<Longrightarrow> op_run oper s c v = (Inr res, v') \<Longrightarrow>
      (case res of NotApplicable \<Rightarrow> pass | Applied q \<Rightarrow> sr_yield_to_client q \<or> Q (sr_effects q))"
  shows "attempt_ok env s c steps w0 Q pass (OperationStep oper)"
  using assms(3) movesD [OF assms(2)] same_store_trans by (intro attempt_ok_operation [OF assms(1)]) blast+

subsection \<open>What an inference adds\<close>

text \<open>
  What is supposed of a provider: its messages are the assistant's, visible to the agent, they
  decide no confirmation, and the limit of the output is reported with the last of them.
\<close>

definition chunk_ok :: "message \<Rightarrow> bool" where
  "chunk_ok m \<longleftrightarrow> m_role m = Assistant \<and> is_agent_visible m
     \<and> list_all (\<lambda>b. confirmation_response b = None) (m_content m)"

fun stream_items_ok :: "stream_item list \<Rightarrow> bool" where
  "stream_items_ok [] = True"
| "stream_items_ok (Inl e # items) = True"
| "stream_items_ok (Inr (None, u) # items) = stream_items_ok items"
| "stream_items_ok (Inr (Some m, u) # items) \<longleftrightarrow>
     chunk_ok m \<and> stream_items_ok items
     \<and> (md_output_token_limit_reached (m_metadata m) \<longrightarrow>
          list_all (\<lambda>i. case i of Inr (Some _, _) \<Rightarrow> False | _ \<Rightarrow> True) items)"

text \<open>The messages collected so far; only the last chunk may leave one the agent does not see, and it is empty.\<close>

definition collected :: "bool \<Rightarrow> message list \<Rightarrow> bool" where
  "collected final ms \<longleftrightarrow>
     list_all (\<lambda>m. m_role m = Assistant \<and> (is_agent_visible m \<or> final \<and> m_content m = [])) ms \<and> no_decisions ms"

lemma absorb_metadata_keeps [simp]:
  "m_role (absorb_metadata msg m) = m_role m" "m_content (absorb_metadata msg m) = m_content m"
  "is_agent_visible (absorb_metadata msg m) = is_agent_visible m"
  "is_agent_visible (x\<lparr>m_content := bs\<rparr>) = is_agent_visible x"
  by (simp_all add: absorb_metadata_def Let_def is_agent_visible_def split: option.split)

lemma collected_push:
  assumes "collected False conv" and "chunk_ok m" and "md_output_token_limit_reached (m_metadata m) \<longrightarrow> final"
  shows "collected final (push conv m)"
proof -
  have "no_decisions (push conv m)"
    using assms(1,2) unfolding no_decisions_def turn_blocks_def
    by (subst push_blocks) (auto simp: confirmation_response_def collected_def no_decisions_def turn_blocks_def
        chunk_ok_def intro!: filter_map_none)
  moreover have all: "list_all (\<lambda>m. m_role m = Assistant \<and> (is_agent_visible m \<or> final \<and> m_content m = [])) conv"
    using assms(1) by (auto simp: collected_def list_all_iff)
  have "list_all (\<lambda>m. m_role m = Assistant \<and> (is_agent_visible m \<or> final \<and> m_content m = [])) (push conv m)"
  proof (cases "m_content m = [] \<and> (md_inference (m_metadata m) \<noteq> None \<or> md_output_token_limit_reached (m_metadata m))")
    case True
    have update: "list_all P (conv[i := absorb_metadata m (conv ! i)])"
      if "list_all P conv" "\<And>x. P x \<Longrightarrow> P (absorb_metadata m x)" for P i
      using that set_update_subset_insert [of conv i "absorb_metadata m (conv ! i)"]
      by (cases "i < length conv") (auto simp: list_all_iff list_update_beyond)
    from update [OF all] all True assms(2,3) show ?thesis
      by (auto simp: push_def Let_def chunk_ok_def with_visibility_def split: option.split)
  next
    case False
    then show ?thesis
      using all assms by (cases conv rule: rev_cases) (auto simp: push_def Let_def collected_def chunk_ok_def)
  qed
  ultimately show ?thesis by (simp add: collected_def)
qed

lemma retain_new_blocks: "retain_new_requests bs ids = (kept, ids') \<Longrightarrow> set kept \<subseteq> set bs"
  by (induction bs arbitrary: ids kept ids') (fastforce split: prod.splits option.splits if_splits)+

lemma drop_repeated_keeps:
  "m_role (drop_repeated_tool_call_thinking acc m) = m_role m"
  "m_metadata (drop_repeated_tool_call_thinking acc m) = m_metadata m"
  "set (m_content (drop_repeated_tool_call_thinking acc m)) \<subseteq> set (m_content m)"
  by (auto simp: drop_repeated_tool_call_thinking_def Let_def)

lemma with_inference_keeps:
  "m_role (with_inference_if_assistant i m) = m_role m"
  "is_agent_visible (with_inference_if_assistant i m) = is_agent_visible m"
  "md_output_token_limit_reached (m_metadata (with_inference_if_assistant i m)) = md_output_token_limit_reached (m_metadata m)"
  by (simp_all add: with_inference_if_assistant_def is_agent_visible_def)

lemma take_chunk_collected:
  assumes "take_chunk env i chunk st w = (Inr st', w')" and "collected False (ss_accumulator st)" and "chunk_ok chunk"
    and "md_output_token_limit_reached (m_metadata chunk) \<longrightarrow> final"
  shows "collected final (ss_accumulator st')"
proof -
  obtain kept ids where retain: "retain_new_requests (m_content chunk) (ss_request_ids st) = (kept, ids)" by fastforce
  let ?m = "drop_repeated_tool_call_thinking (ss_accumulator st) (with_inference_if_assistant i chunk\<lparr>m_content := kept\<rparr>)"
  obtain m where m: "ss_accumulator st' = push (ss_accumulator st) m" "m_role m = m_role ?m"
    "m_content m = m_content ?m" "m_metadata m = m_metadata ?m"
    using assms(1) by (auto simp: take_chunk_def Let_def retain io_simps split: if_splits)
  have "set (m_content m) \<subseteq> set (m_content chunk)"
    using m(3) drop_repeated_keeps(3) [of "ss_accumulator st" "with_inference_if_assistant i chunk\<lparr>m_content := kept\<rparr>"]
      retain_new_blocks [OF retain] by auto
  moreover have "is_agent_visible m = is_agent_visible chunk"
    using m(4) with_inference_keeps(2) [of i chunk] by (simp add: is_agent_visible_def drop_repeated_keeps)
  moreover have "md_output_token_limit_reached (m_metadata m) = md_output_token_limit_reached (m_metadata chunk)"
    using m(4) by (simp add: drop_repeated_keeps with_inference_keeps)
  ultimately have "chunk_ok m" "md_output_token_limit_reached (m_metadata m) \<longrightarrow> final"
    using assms(3,4) m(2) by (auto simp: chunk_ok_def list_all_iff drop_repeated_keeps with_inference_keeps)
  with m(1) collected_push [OF assms(2)] show ?thesis by simp
qed

lemma collected_mono: "collected False ms \<Longrightarrow> collected final ms"
  by (auto simp: collected_def list_all_iff)

lemma consume_stream_silent:
  "list_all (\<lambda>i. case i of Inr (Some _, _) \<Rightarrow> False | _ \<Rightarrow> True) items \<Longrightarrow>
     consume_stream env i items st w = (Inr stop, w') \<Longrightarrow>
     (case stop of StreamFailed _ st' \<Rightarrow> ss_accumulator st' = ss_accumulator st
      | StreamEnded _ st' \<Rightarrow> ss_accumulator st' = ss_accumulator st)"
proof (induction items arbitrary: st w)
  case (Cons item items)
  show ?case
  proof (cases item)
    case (Inl e)
    with Cons.prems show ?thesis
      by (auto simp: consume_stream.simps [of env i "Inl e # items"] io_simps split: if_splits)
  next
    case (Inr mu)
    with Cons.prems(1) obtain u where item: "item = Inr (None, u)"
      by (cases mu) (auto split: option.splits)
    from Cons.prems(2) consider "stop = StreamEnded True st"
      | v where "consume_stream env i items (case u of Some u \<Rightarrow> st\<lparr>ss_usage := Some u\<rparr> | None \<Rightarrow> st) v = (Inr stop, w')"
      by (auto simp: consume_stream.simps [of env i "Inr (None, u) # items"] item io_simps Let_def split: if_splits)
    then show ?thesis
    proof cases
      case 2
      from Cons.IH [OF _ this] Cons.prems(1) show ?thesis by (auto split: option.splits stream_end.splits)
    qed simp
  qed
qed (auto simp: consume_stream.simps [of env i "[]"] io_simps split: if_splits)

lemma consume_stream_collected:
  "consume_stream env i items st w = (Inr stop, w') \<Longrightarrow> stream_items_ok items \<Longrightarrow> collected False (ss_accumulator st) \<Longrightarrow>
     (case stop of StreamFailed _ st' \<Rightarrow> collected True (ss_accumulator st')
      | StreamEnded _ st' \<Rightarrow> collected True (ss_accumulator st'))"
proof (induction items arbitrary: st w rule: stream_items_ok.induct)
  case 1
  then show ?case by (auto simp: consume_stream.simps [of env i "[]"] io_simps collected_mono split: if_splits)
next
  case (2 e items)
  then show ?case
    by (auto simp: consume_stream.simps [of env i "Inl e # items"] io_simps collected_mono split: if_splits)
next
  case (3 u items)
  from "3.prems"(1) consider "stop = StreamEnded True st"
    | v where "consume_stream env i items (case u of Some u \<Rightarrow> st\<lparr>ss_usage := Some u\<rparr> | None \<Rightarrow> st) v = (Inr stop, w')"
    by (auto simp: consume_stream.simps [of env i "Inr (None, u) # items"] io_simps Let_def split: if_splits)
  then show ?case
  proof cases
    case 2
    from "3.IH" [OF this] "3.prems"(2,3) show ?thesis by (auto split: option.splits)
  qed (simp add: "3.prems"(3) collected_mono)
next
  case (4 m u items)
  let ?st = "case u of Some u \<Rightarrow> st\<lparr>ss_usage := Some u\<rparr> | None \<Rightarrow> st"
  from "4.prems"(1) consider "stop = StreamEnded True st"
    | v st2 v' where "take_chunk env i m ?st v = (Inr st2, v')" "consume_stream env i items st2 v' = (Inr stop, w')"
    by (auto simp: consume_stream.simps [of env i "Inr (Some m, u) # items"] io_simps Let_def
        split: if_splits prod.splits sum.splits)
  then show ?case
  proof cases
    case 2
    have acc: "collected False (ss_accumulator ?st)" using "4.prems"(3) by (simp split: option.split)
    show ?thesis
    proof (cases "md_output_token_limit_reached (m_metadata m)")
      case True
      with "4.prems"(2) consume_stream_silent [OF _ 2(2)] take_chunk_collected [OF 2(1) acc, of True]
      show ?thesis by (auto split: stream_end.splits)
    next
      case False
      with "4.prems"(2) "4.IH" [OF 2(2)] take_chunk_collected [OF 2(1) acc, of False] show ?thesis by auto
    qed
  qed (simp add: "4.prems"(3) collected_mono)
qed

definition context_message :: "message \<Rightarrow> bool" where
  "context_message m \<longleftrightarrow> m_role m = User \<and> \<not> is_user_visible m
     \<and> filter_map confirmation_response (m_content m) = []"

definition provider_ok :: "(session, goose_world) inference_runner \<Rightarrow> bool" where
  "provider_ok ir \<longleftrightarrow>
     (\<forall>sid. moves same_store (io_act (pv_resume (ir_provider ir) sid)))
     \<and> (\<forall>sys ms ts. moves same_store (io_act (pv_stream (ir_provider ir) sys ms ts)))
     \<and> (\<forall>model. moves same_store (io_act (pv_resolved_model (ir_provider ir) model)))
     \<and> moves same_store (io_act (pv_session_id (ir_provider ir)))
     \<and> (\<forall>s c input. moves same_store (ir_prepare ir s c input))
     \<and> (\<forall>sys ms ts w items w'. pv_stream (ir_provider ir) sys ms ts w = (Inr items, w') \<longrightarrow> stream_items_ok items)
     \<and> (\<forall>s c input w p w'. ir_prepare ir s c input w = (Inr p, w') \<longrightarrow>
          list_all context_message (pr_additional_messages p))"

lemma provider_okD:
  assumes "provider_ok ir"
  shows "ir_prepare ir s c input w = (Inr p, w') \<Longrightarrow> list_all context_message (pr_additional_messages p)"
    and "pv_stream (ir_provider ir) sys ms ts w = (Inr items, w') \<Longrightarrow> stream_items_ok items"
  using assms unfolding provider_ok_def by blast+

lemma take_chunk_store: "moves same_store (take_chunk env i chunk st)"
  by (auto simp: take_chunk_def Let_def intro!: operation_store split: prod.split)

lemma consume_stream_store: "moves same_store (consume_stream env i items st)"
proof (induction items arbitrary: st)
  case Nil
  then show ?case by (subst consume_stream.simps) (auto intro!: operation_store)
next
  case (Cons item items)
  then show ?case
    by (subst consume_stream.simps)
      (auto simp: Let_def intro!: operation_store take_chunk_store split: sum.split prod.split option.split)
qed

lemma finish_stream_store: "moves same_store (finish_stream env from_msg rec_usage turn es cancelled st)"
  by (auto simp: finish_stream_def Let_def intro!: operation_store split: option.split)

lemma error_outcome_store: "moves same_store (error_outcome env from_msg err)"
  by (auto simp: error_outcome_def intro!: operation_store)

lemma io_act_eq: "io_act f w = (Inr x, w') \<longleftrightarrow> f w = (x, w')"
  by (cases "f w") (simp add: io_act_def)

lemma inference_store:
  assumes "provider_ok ir"
  shows "moves same_store (inference_infer env from_msg rec_usage ir s c input)"
proof -
  note parts = assms [unfolded provider_ok_def]
  show ?thesis
    using parts by (auto simp: inference_infer_def resume_provider_def Let_def
        intro!: operation_store consume_stream_store finish_stream_store error_outcome_store
        split: option.split sum.split stream_end.split)
qed

lemma appended_messages [simp]: "appended (map from_message ms) = ms"
  by (induction ms) simp_all

lemma usage_effects_inert [simp]:
  "list_all append_only (usage_effects GRecordUsage st)" "list_all keeps_recipe (usage_effects GRecordUsage st)"
  "appended (usage_effects GRecordUsage st) = []"
  by (simp_all add: usage_effects_def split: option.split)

lemma messages_advance:
  assumes "es = map from_message sent @ us @ map from_message answer"
    and "list_all append_only us" "list_all keeps_recipe us" "appended us = []"
    and "progress n sh turn (sent @ answer)"
  shows "advances n sh turn es"
  using assms by (auto simp: advances_def list_all_iff)

lemma error_message_settled:
  "m_role (from_provider_error t err) = Assistant" "settled (with_generated_id_if_missing u (from_provider_error t err))"
  "filter_map confirmation_response (m_content (from_provider_error t err)) = []"
  by (simp_all add: from_provider_error_def with_error_def message_assistant_def message_new_def with_content_def settled_def
      error_kind_def as_error_def confirmation_response_def first_opt_def Let_def)

lemma not_cancelled_end:
  assumes "\<And>k. \<not> e_cancelled env k"
  shows "consume_stream env i items st w = (Inr (StreamEnded cancelled st'), w') \<Longrightarrow> \<not> cancelled"
proof (induction items arbitrary: st w)
  case Nil
  with assms show ?case by (simp add: consume_stream.simps [of env i "[]"] io_simps)
next
  case (Cons item items)
  from Cons.prems Cons.IH assms show ?case
    by (auto simp: consume_stream.simps [of env i "item # items"] io_simps Let_def
        split: sum.splits prod.splits option.splits)
qed

lemma collected_settled: "collected True ms \<Longrightarrow> ms \<noteq> [] \<Longrightarrow> settled (last ms)"
  by (cases ms rule: rev_cases) (auto simp: collected_def settled_def)

lemma inference_advances:
  assumes ir: "provider_ok ir" and quiet: "\<And>k. \<not> e_cancelled env k"
    and turn: "messages_since_kickoff c = Inr turn" "m_role (last turn) \<noteq> Assistant" "block_starts False turn < n"
    and run: "inference_infer env from_message GRecordUsage ir s c input w = (Inr (Applied q), w')"
  shows "sr_yield_to_client q \<or> advances n sh turn (sr_effects q)"
proof -
  note ne = messages_since_kickoff_nonempty [OF turn(1)]
  have go: "advances n sh turn (map from_message sent @ us @ map from_message answer)"
    if "list_all context_message sent" "collected True acc" "list_all append_only us" "list_all keeps_recipe us" "appended us = []"
      "answer = acc \<and> acc \<noteq> [] \<or> (\<exists>t u err. answer = acc @ [with_generated_id_if_missing u (from_provider_error t err)])"
    for sent us answer acc
  proof (rule messages_advance [OF refl that(3-5)])
    show "progress n sh turn (sent @ answer)"
      using that(1,2,6) turn(2,3) ne collected_settled [OF that(2)] error_message_settled
      by (intro inference_progress)
        (auto simp: context_message_def collected_def no_decisions_def turn_blocks_def list_all_iff filter_map_concat)
  qed
  from run turn(1) obtain prepared v1 res v2 v3 sys ms ts where
    prep: "ir_prepare ir s c input w = (Inr prepared, v1)"
    and stream: "pv_stream (ir_provider ir) sys ms ts v2 = (res, v3)"
    and rest: "(case res of
               Inl err \<Rightarrow>
                 io_bind (error_outcome env from_message err)
                   (\<lambda>es. applied (map from_message (pr_additional_messages prepared) @ es))
             | Inr items \<Rightarrow>
                 io_bind (io_act (pv_resolved_model (ir_provider ir) (ir_model_name ir))) (\<lambda>resolved.
                 io_bind (io_act (pv_session_id (ir_provider ir))) (\<lambda>sid.
                 io_bind (consume_stream env
                     \<lparr>im_provider = pv_name (ir_provider ir), im_requested_model = ir_model_name ir,
                      im_resolved_model = resolved, im_provider_session_id = sid\<rparr>
                     items \<lparr>ss_accumulator = [], ss_request_ids = {}, ss_usage = None\<rparr>) (\<lambda>stop.
                   case stop of
                     StreamFailed err st \<Rightarrow>
                       io_bind (error_outcome env from_message err) (\<lambda>es.
                         applied (map from_message (pr_additional_messages prepared) @ usage_effects GRecordUsage st
                           @ map from_message (ss_accumulator st) @ es))
                   | StreamEnded cancelled st \<Rightarrow>
                       finish_stream env from_message GRecordUsage turn
                         (map from_message (pr_additional_messages prepared)) cancelled st)))) v3 = (Inr (Applied q), w')"
    by (auto simp: inference_infer_def io_bind_eq_Inr not_applicable_def Let_def io_act_eq io_of_def io_ok_def
        split: if_splits)
  have sent: "list_all context_message (pr_additional_messages prepared)"
    using provider_okD(1) [OF ir prep] .
  show ?thesis
  proof (cases res)
    case (Inl err)
    with rest obtain t u where "sr_effects q = map from_message (pr_additional_messages prepared)
        @ [from_message (with_generated_id_if_missing u (from_provider_error t err))]"
      by (auto simp: error_outcome_def io_simps Let_def)
    moreover have "collected True []" by (simp add: collected_def no_decisions_def turn_blocks_def)
    ultimately show ?thesis
      using go [OF sent, of "[]" "[]" "[with_generated_id_if_missing u (from_provider_error t err)]"] by auto
  next
    case (Inr its)
    with rest obtain i stop v v' where
      consume: "consume_stream env i its \<lparr>ss_accumulator = [], ss_request_ids = {}, ss_usage = None\<rparr> v = (Inr stop, v')"
      and stop: "(case stop of
                     StreamFailed err st \<Rightarrow>
                       io_bind (error_outcome env from_message err) (\<lambda>es.
                         applied (map from_message (pr_additional_messages prepared) @ usage_effects GRecordUsage st
                           @ map from_message (ss_accumulator st) @ es))
                   | StreamEnded cancelled st \<Rightarrow>
                       finish_stream env from_message GRecordUsage turn
                         (map from_message (pr_additional_messages prepared)) cancelled st) v' = (Inr (Applied q), w')"
      by (auto simp: io_bind_eq_Inr)
    have acc: "case stop of StreamFailed _ st \<Rightarrow> collected True (ss_accumulator st)
        | StreamEnded _ st \<Rightarrow> collected True (ss_accumulator st)"
      using consume_stream_collected [OF consume provider_okD(2) [OF ir]] stream Inr by (simp add: collected_def no_decisions_def turn_blocks_def)
    show ?thesis
    proof (cases stop)
      case (StreamFailed err st)
      with stop obtain t u where "sr_effects q = map from_message (pr_additional_messages prepared)
          @ usage_effects GRecordUsage st @ map from_message (ss_accumulator st
          @ [with_generated_id_if_missing u (from_provider_error t err)])"
        by (auto simp: error_outcome_def io_simps Let_def)
      with go [OF sent, of "ss_accumulator st" "usage_effects GRecordUsage st"
          "ss_accumulator st @ [with_generated_id_if_missing u (from_provider_error t err)]"] acc StreamFailed
      show ?thesis by auto
    next
      case (StreamEnded cancelled st)
      have "\<not> cancelled" using not_cancelled_end [OF quiet] consume StreamEnded by blast
      with stop StreamEnded quiet have "sr_yield_to_client q \<or> ss_accumulator st \<noteq> []
          \<and> sr_effects q = map from_message (pr_additional_messages prepared) @ usage_effects GRecordUsage st
            @ map from_message (ss_accumulator st)"
        by (auto simp: finish_stream_def io_simps Let_def split: if_splits)
      with go [OF sent, of "ss_accumulator st" "usage_effects GRecordUsage st"] acc StreamEnded show ?thesis by auto
    qed
  qed
qed

subsection \<open>Each operation passes, yields or advances\<close>

text \<open>What an operation contributes to an inference without touching the store, and an operation that never applies.\<close>

definition contributes :: "goose_operation \<Rightarrow> bool" where
  "contributes oper \<longleftrightarrow> (\<forall>s c. moves same_store (op_inference_tools oper s)
     \<and> moves same_store (op_prompt_parts oper s c) \<and> moves same_store (op_moim_parts oper s c))"

definition quiet_operation :: "goose_operation \<Rightarrow> bool" where
  "quiet_operation oper \<longleftrightarrow> contributes oper \<and> (\<forall>s c. moves same_store (op_run oper s c))
     \<and> (\<forall>s c w q w'. op_run oper s c w \<noteq> (Inr (Applied q), w'))"

definition all_quiet :: "other_operations \<Rightarrow> bool" where
  "all_quiet oo \<longleftrightarrow> (case oo_compaction oo of None \<Rightarrow> True | Some c \<Rightarrow> quiet_operation c)
     \<and> quiet_operation (oo_tool_pair_compaction oo) \<and> quiet_operation (oo_doctor oo)
     \<and> quiet_operation (oo_project oo) \<and> quiet_operation (oo_skills oo) \<and> quiet_operation (oo_recipe oo)
     \<and> contributes (oo_tool_execution oo)"

definition approves_all :: "goose_env \<Rightarrow> bool" where
  "approves_all env \<longleftrightarrow> (\<forall>w s c mode pending.
     pcr_needs_approval (snd (inspection_decision (ge_inspectors env w) s c mode pending)) = []
     \<and> pcr_denied (snd (inspection_decision (ge_inspectors env w) s c mode pending)) = [])"

lemma attempt_ok_quiet:
  assumes "\<And>k. \<not> e_cancelled env k" and "quiet_operation oper"
  shows "attempt_ok env s c steps w0 Q True (OperationStep oper)"
proof (rule attempt_ok_moves [OF assms(1)])
  show "moves same_store (op_run oper s c)" using assms(2) by (simp add: quiet_operation_def)
  fix v res v' assume "op_run oper s c v = (Inr res, v')"
  with assms(2) show "case res of NotApplicable \<Rightarrow> True | Applied q \<Rightarrow> sr_yield_to_client q \<or> Q (sr_effects q)"
    by (cases res) (auto simp: quiet_operation_def)
qed

lemma op_run_goose [simp]: "op_run (goose_operation name f) = f"
  by (simp add: goose_operation_def)

text \<open>The operations that never go on: they pass or yield.\<close>

lemma max_turns_ok:
  assumes "\<And>k. \<not> e_cancelled env k" and "messages_since_kickoff c = Inr turn"
  shows "attempt_ok env s c steps w0 Q (assistant_turn_count turn < n) (OperationStep (max_turns_operation env n))"
  by (rule attempt_ok_moves [OF assms(1)], simp add: max_turns_operation_def max_turns_store)
    (use assms(2) in \<open>auto simp: max_turns_operation_def max_turns_run_def io_simps Let_def split: if_splits\<close>)

lemma exit_on_error_ok:
  assumes "\<And>k. \<not> e_cancelled env k"
  shows "attempt_ok env s c steps w0 Q True (OperationStep (goose_operation name exit_on_error_run))"
  by (rule attempt_ok_moves [OF assms], simp add: exit_on_error_store)
    (auto simp: exit_on_error_run_def io_simps split: if_splits)

lemma entry_hook_ok:
  assumes "\<And>k. \<not> e_cancelled env k"
  shows "attempt_ok env s c steps w0 Q True (OperationStep (goose_operation name (entry_hook_run env)))"
  by (rule attempt_ok_moves [OF assms], simp add: entry_hook_store)
    (auto simp: entry_hook_run_def io_bind_eq_Inr Let_def not_applicable_def io_ok_def split: if_splits)

text \<open>The operations on the first message of a turn pass when it is neither a command of the shell nor a slash command.\<close>

lemma bang_shell_ok:
  assumes "\<And>k. \<not> e_cancelled env k" and "messages_since_kickoff c = Inr (k # rest)"
    and "bang_shell_command (as_concat_text (user_visible_content k)) = None"
  shows "attempt_ok env s c steps w0 Q True (OperationStep (goose_operation name (bang_shell_run env)))"
  by (rule attempt_ok_moves [OF assms(1)], simp add: bang_shell_store)
    (use assms(2,3) in \<open>auto simp: bang_shell_run_def io_simps first_opt_def\<close>)

lemma slash_command_ok:
  assumes "\<And>k. \<not> e_cancelled env k" and "messages_since_kickoff c = Inr (k # rest)"
    and "parse_slash_command (as_concat_text k) = None"
  shows "attempt_ok env s c steps w0 Q True (OperationStep (goose_operation name (slash_command_run ops)))"
  by (rule attempt_ok_operation [OF assms(1)])
    (use assms(2,3) in \<open>auto simp: slash_command_run_def io_simps first_opt_def split: if_splits\<close>)

lemma steer_ok:
  assumes "\<And>k. \<not> e_cancelled env k" and "gw_queue w0 = []"
  shows "attempt_ok env s c steps w0 Q True (OperationStep (goose_operation name (steer_run env)))"
proof (rule attempt_ok_operation [OF assms(1)])
  fix v res v'
  assume v: "same_store w0 v" and run: "op_run (goose_operation name (steer_run env)) s c v = (Inr res, v')"
  from v assms(2) have "gw_queue v = []" by (simp add: same_store_def)
  then have "v\<lparr>gw_queue := []\<rparr> = v" by simp
  with run \<open>gw_queue v = []\<close> have "v' = v \<and> res = NotApplicable"
    by (auto simp: steer_run_def io_bind_eq_Inr not_applicable_def io_of_def io_ok_def split: if_splits sum.splits)
  with v show "same_store w0 v' \<and> (case res of NotApplicable \<Rightarrow> True | Applied q \<Rightarrow> sr_yield_to_client q \<or> Q (sr_effects q))"
    by simp
qed

lemma tool_approval_ok:
  assumes "\<And>k. \<not> e_cancelled env k" and turn: "messages_since_kickoff c = Inr turn"
    and "approves_all env" and "no_decisions turn"
  shows "attempt_ok env s c steps w0 Q True (OperationStep (goose_operation name (tool_approval_run env)))"
proof (rule attempt_ok_moves [OF assms(1)])
  show "moves same_store (op_run (goose_operation name (tool_approval_run env)) s c)" by (simp add: tool_approval_store)
  fix v res v' assume run: "op_run (goose_operation name (tool_approval_run env)) s c v = (Inr res, v')"
  have none: "approval_responses (approval_state_of turn) = []"
    using assms(4) by (auto simp: approval_responses_def approval_state_of_def approvals_in_def no_decisions_def
        list_all_iff intro!: filter_map_none)
  obtain results d where dec: "inspection_decision (ge_inspectors env v) s c (gw_mode v)
      (approval_pending (approval_state_of turn)) = (results, d)" by fastforce
  then have "pcr_needs_approval d = []" "pcr_denied d = []"
    using assms(3) unfolding approves_all_def by (metis snd_conv)+
  with run turn none dec have "res = NotApplicable"
    by (auto simp: tool_approval_run_def io_simps Let_def split: if_splits)
  then show "case res of NotApplicable \<Rightarrow> True | Applied q \<Rightarrow> sr_yield_to_client q \<or> Q (sr_effects q)" by simp
qed

text \<open>The operations that go on by appending one message.\<close>

lemma one_message_advances: "progress n sh turn [m] \<Longrightarrow> advances n sh turn [from_message m]"
  by (simp add: advances_def)

lemma tool_execution_ok:
  assumes "\<And>k. \<not> e_cancelled env k" and turn: "messages_since_kickoff c = Inr turn"
    and items: "\<And>k. list_all (\<lambda>(_, i). \<not> asks_user i) (ge_tool_items env k)" and "block_starts False turn \<le> n"
  shows "attempt_ok env s c steps w0 (advances n (ge_show_error env) turn) True
    (OperationStep (tool_execution_operation env methods))"
proof (rule attempt_ok_moves [OF assms(1)])
  show "moves same_store (op_run (tool_execution_operation env methods) s c)"
    by (simp add: tool_execution_operation_def tool_execution_store)
  fix v res v' assume "op_run (tool_execution_operation env methods) s c v = (Inr res, v')"
  then have run: "tool_execution_run env s c v = (Inr res, v')" by (simp add: tool_execution_operation_def)
  show "case res of NotApplicable \<Rightarrow> True
    | Applied q \<Rightarrow> sr_yield_to_client q \<or> advances n (ge_show_error env) turn (sr_effects q)"
  proof (cases res)
    case (Applied r)
    define pending where "pending = known_pending env (case ge_known_tools env (w_tick v) of Some ts \<Rightarrow> ts | None \<Rightarrow> []) turn"
    from tool_execution_applied [OF run [unfolded Applied] turn pending_def]
    have ne: "pending \<noteq> []" and how: "(\<exists>m. sr_effects r = [from_message m] \<and> \<not> sr_yield_to_client r
        \<and> answer_message m (map (tr_id \<circ> fst) pending)) \<or> (\<exists>u u'. execute_pending env s pending u = (Inr (Applied r), u'))"
      by blast+
    have "set pending \<subseteq> set (pending_tool_requests (ge_show_error env) turn)"
      by (auto simp: pending_def known_pending_def pending_advertised_tool_requests_def)
    with ne obtain p where p: "p \<in> set pending" "p \<in> set (pending_tool_requests (ge_show_error env) turn)"
      by (metis hd_in_set subsetD)
    have go: "progress n (ge_show_error env) turn [m]" if "answer_message m ids" "tr_id (fst p) \<in> set ids" for m ids
      using answer_progress [OF that(1) p(2) that(2) assms(4)] messages_since_kickoff_nonempty [OF turn] by blast
    from how have "advances n (ge_show_error env) turn (sr_effects r)"
    proof (elim disjE exE conjE)
      fix m assume "sr_effects r = [from_message m]" "answer_message m (map (tr_id \<circ> fst) pending)"
      with go [of m] p(1) show ?thesis by (simp add: one_message_advances)
    next
      fix u u' assume "execute_pending env s pending u = (Inr (Applied r), u')"
      from execute_pending_answers [OF this] obtain ms es m ids where
        r: "sr_effects r = map from_message ms @ es @ [from_message m]" "es = [] \<or> (\<exists>d. es = [GSetExtensionData d])" "ms = []"
        and m: "answer_message m (ids @ map tr_id (filter (\<lambda>r. tr_id r \<notin> set ids) (map fst pending)))"
        using items by metis
      have "progress n (ge_show_error env) turn [m]" using go [OF m] p(1) by auto
      with r show ?thesis
        by (auto simp: advances_def append_only_def keeps_recipe_def appended_def appended_message_def from_message_def)
    qed
    with Applied show ?thesis by simp
  qed simp
qed

lemma unknown_tool_ok:
  assumes "\<And>k. \<not> e_cancelled env k" and turn: "messages_since_kickoff c = Inr turn"
    and "block_starts False turn \<le> n"
  shows "attempt_ok env s c steps w0 (advances n (ge_show_error env) turn) True
    (OperationStep (goose_operation name (unknown_tool_run env)))"
proof (rule attempt_ok_moves [OF assms(1)])
  show "moves same_store (op_run (goose_operation name (unknown_tool_run env)) s c)" by (simp add: unknown_tool_store)
  fix v res v' assume run: "op_run (goose_operation name (unknown_tool_run env)) s c v = (Inr res, v')"
  define pending where "pending = filter (\<lambda>p. \<not> reserved_final_output s turn p)
    (pending_tool_requests (ge_show_error env) turn)"
  note result = unknown_tool_result [OF turn pending_def, where w = v]
  show "case res of NotApplicable \<Rightarrow> True
    | Applied q \<Rightarrow> sr_yield_to_client q \<or> advances n (ge_show_error env) turn (sr_effects q)"
  proof (cases "pending = []")
    case True
    with result run show ?thesis by simp
  next
    case False
    with result run obtain m where m: "res = Applied \<lparr>sr_effects = [from_message m], sr_applied_step = None,
        sr_yield_to_client = False\<rparr>" "answer_message m (map (tr_id \<circ> fst) pending)" by auto
    obtain p where p: "p \<in> set pending" using False by (cases pending) auto
    then have "p \<in> set (pending_tool_requests (ge_show_error env) turn)" by (simp add: pending_def)
    from answer_progress [OF m(2) this _ assms(3)] p messages_since_kickoff_nonempty [OF turn] m(1)
    show ?thesis by (auto simp: one_message_advances)
  qed
qed

lemma nudge_ok:
  assumes "ends_turn turn" "block_starts False turn \<le> n" and "m_role m = User" "\<not> is_user_visible m"
    "list_all (\<lambda>b. confirmation_response b = None) (m_content m)"
  shows "advances n sh turn [from_message m]"
  using assms by (intro one_message_advances nudge_progress) (auto simp: is_kickoff_def intro: filter_map_none)

lemma nudge_message_shape:
  "m_role (nudge_message te t text) = User" "\<not> is_user_visible (nudge_message te t text)"
  "list_all (\<lambda>b. confirmation_response b = None) (m_content (nudge_message te t text))"
  "m_role (denial_context_message te t plugin reason) = User" "\<not> is_user_visible (denial_context_message te t plugin reason)"
  "list_all (\<lambda>b. confirmation_response b = None) (m_content (denial_context_message te t plugin reason))"
  by (simp_all add: nudge_message_def denial_context_message_def with_visibility_def with_text_def with_content_def
      text_content_new_def message_user_def message_new_def is_user_visible_def confirmation_response_def)

lemma set_message_meta_keeps [simp]:
  "m_role (set_message_meta name k v m) = m_role m" "m_content (set_message_meta name k v m) = m_content m"
  "is_user_visible (set_message_meta name k v m) = is_user_visible m"
  by (simp_all add: set_message_meta_def set_operation_note_def is_user_visible_def Let_def)

text \<open>What every result of an action satisfies.\<close>

definition results :: "('a \<Rightarrow> bool) \<Rightarrow> ('w, 'a) io \<Rightarrow> bool" where
  "results P m \<longleftrightarrow> (\<forall>w x w'. m w = (Inr x, w') \<longrightarrow> P x)"

lemma resultsD: "results P m \<Longrightarrow> m w = (Inr x, w') \<Longrightarrow> P x"
  by (auto simp: results_def)

lemma results_intros:
  "(\<And>x. results P (f x)) \<Longrightarrow> results P (io_bind m f)"
  "results P (g x) \<Longrightarrow> results P (io_bind (io_of (Inr x)) g)"
  "P y \<Longrightarrow> results P (io_ok y)" "results P (io_err e)"
  by (auto simp: results_def io_bind_eq_Inr io_ok_def io_err_def io_of_def)

lemma stop_hook_ok:
  assumes "\<And>k. \<not> e_cancelled env k" and turn: "messages_since_kickoff c = Inr turn"
    and "block_starts False turn \<le> n"
  shows "attempt_ok env s c steps w0 (advances n sh turn) (\<not> ends_turn turn)
    (OperationStep (goose_operation name (stop_hook_run env cap)))"
proof (rule attempt_ok_moves [OF assms(1)])
  show "moves same_store (op_run (goose_operation name (stop_hook_run env cap)) s c)" by (simp add: stop_hook_store)
  fix v res v' assume run: "op_run (goose_operation name (stop_hook_run env cap)) s c v = (Inr res, v')"
  have "results (\<lambda>res. case res of NotApplicable \<Rightarrow> \<not> ends_turn turn
      | Applied q \<Rightarrow> sr_yield_to_client q \<or> advances n sh turn (sr_effects q)) (stop_hook_run env cap s c)"
    unfolding stop_hook_run_def turn
    by (auto simp: Let_def applied_def yielded_def yielded_with_def not_applicable_def nudge_message_shape
        intro!: results_intros nudge_ok [OF _ assms(3)] split: hook_decision.split)
  with run show "case res of NotApplicable \<Rightarrow> \<not> ends_turn turn
      | Applied q \<Rightarrow> sr_yield_to_client q \<or> advances n sh turn (sr_effects q)"
    by (auto dest: resultsD)
qed

lemma retry_ok:
  assumes "\<And>k. \<not> e_cancelled env k" and turn: "messages_since_kickoff c = Inr turn"
    and "Option.bind (ses_recipe s) rp_retry = None" and "block_starts False turn \<le> n"
  shows "attempt_ok env s c steps w0 (advances n sh turn) True (OperationStep (retry_operation env))"
proof (rule attempt_ok_moves [OF assms(1)])
  show "moves same_store (op_run (retry_operation env) s c)" by (simp add: retry_operation_def retry_store)
  fix v res v' assume "op_run (retry_operation env) s c v = (Inr res, v')"
  then have run: "retry_run env s c v = (Inr res, v')" by (simp add: retry_operation_def)
  have "results (\<lambda>res. case res of NotApplicable \<Rightarrow> True
      | Applied q \<Rightarrow> sr_yield_to_client q \<or> advances n sh turn (sr_effects q)) (retry_run env s c)"
    unfolding retry_run_def turn
    by (auto simp: Let_def applied_def not_applicable_def nudge_message_shape assms(3)
        intro!: results_intros nudge_ok [OF _ assms(4)] split: option.split bool.split)
  with run show "case res of NotApplicable \<Rightarrow> True | Applied q \<Rightarrow> sr_yield_to_client q \<or> advances n sh turn (sr_effects q)"
    by (auto dest: resultsD)
qed

lemma gather_input_store:
  "list_all contributes ops \<Longrightarrow> moves same_store (gather_input env s c ops st)"
proof (induction ops arbitrary: st)
  case (Cons oper ops)
  then show ?case
    by (auto simp: contributes_def select_cancelled_def intro!: operation_store split: option.split prod.split)
qed (simp add: operation_store)

lemma provider_sees_last:
  assumes "messages_since_kickoff (c @ [m]) = Inr turn" and "is_agent_visible m" "m_content (agent_visible_content m) \<noteq> []"
  shows "last_opt (messages_for_provider (c @ [m]) turn) = Some (agent_visible_content m)"
proof -
  have "turn \<noteq> []" using messages_since_kickoff_nonempty [OF assms(1)] .
  then have "\<not> length c < length (c @ [m]) - length turn" by (cases turn) auto
  then show ?thesis
    using assms(2,3) by (simp add: messages_for_provider_def Let_def enumerate_append_eq last_opt_def)
qed

lemma asked_kept: "list_ex asks_for_action (m_content m) \<Longrightarrow> m_content (agent_visible_content m) \<noteq> []"
proof -
  assume "list_ex asks_for_action (m_content m)"
  then obtain b where b: "b \<in> set (m_content m)" "asks_for_action b" by (auto simp: list_ex_iff)
  then have "filter_for_audience b Assistant = Some b"
    by (auto simp: asks_for_action_def filter_for_audience_def split: message_content_block.splits)
  with b have "b \<in> set (m_content (agent_visible_content m))"
    by (auto simp: agent_visible_content_def filter_map_mem)
  then show ?thesis by auto
qed

lemma settled_not_asked:
  assumes "messages_since_kickoff c = Inr turn" and "inference_applies c" and "settled (last turn)" and "\<not> ends_turn turn"
  shows "m_role (last turn) \<noteq> Assistant"
proof
  assume role: "m_role (last turn) = Assistant"
  have c: "c \<noteq> []" "last turn = last c" "turn \<noteq> []"
    using assms(1) by (auto simp: messages_since_kickoff_eq_Inr)
  then obtain c0 where c0: "c = c0 @ [last turn]" by (metis append_butlast_last_id)
  from assms(2) assms(1) c have err: "error_kind (last turn) = None"
    and ends: "ends_with_provider_turn (messages_for_provider c turn)"
    by (auto simp: inference_applies_def trailing_error_def last_opt_def)
  from err role assms(4) c(3) have asks: "list_ex asks_for_action (m_content (last turn))"
    by (simp add: ends_turn_def last_opt_def)
  with assms(3) role err have "is_agent_visible (last turn)" by (simp add: settled_def)
  from provider_sees_last [OF assms(1) [unfolded c0] this asked_kept [OF asks]] ends role show False
    by (simp add: ends_with_provider_turn_def effective_role_of_def agent_visible_content_def flip: c0)
qed

lemma inference_ok:
  assumes quiet: "\<And>k. \<not> e_cancelled env k" and "provider_ok ir"
    and turn: "messages_since_kickoff c = Inr turn" "settled (last turn)" "\<not> ends_turn turn" "block_starts False turn < n"
    and ops: "list_all contributes (map step_operation steps)"
  shows "attempt_ok env s c steps w0 (advances n sh turn) True (InferenceStep (inference_as env from_message GRecordUsage ir))"
  unfolding attempt_ok_def
proof (intro allI impI)
  fix v a v'
  let ?st = "InferenceStep (inference_as env from_message GRecordUsage ir)"
  assume h: "same_store w0 v \<and> attempt_step env s c steps ?st v = (Inr a, v')"
  have "moves same_store (attempt_step env s c steps ?st)"
    using gather_input_store [OF ops] inference_store [OF assms(2)]
    by (auto simp: attempt_step_def inference_as_def operation.defs inference_operation.defs intro!: operation_store split: option.split)
  with h have "same_store w0 v'" by (meson movesD same_store_trans)
  moreover have "sr_yield_to_client q \<or> advances n sh turn (sr_effects q)" if a: "a = Result (Applied q)" for q
  proof -
    from h a quiet obtain input u u' where "inference_applies c"
      "inference_infer env from_message GRecordUsage ir s c input u = (Inr (Applied q), u')"
      by (auto simp: attempt_step_def inference_as_def operation.defs inference_operation.defs io_bind_eq_Inr io_ok_def
          split: if_splits option.splits)
    with inference_advances [OF assms(2) quiet turn(1) _ turn(4)] settled_not_asked turn show ?thesis by blast
  qed
  ultimately show "same_store w0 v' \<and> (case a of Result (Applied q) \<Rightarrow> sr_yield_to_client q \<or> advances n sh turn (sr_effects q)
      | ReturnNone \<Rightarrow> True | _ \<Rightarrow> True)"
    by (auto split: attempt.split operation_result.split)
qed

subsection \<open>The turn ends\<close>

definition turn_env_ok :: "goose_env \<Rightarrow> other_operations \<Rightarrow> (session, goose_world) inference_runner \<Rightarrow> bool" where
  "turn_env_ok env oo ir \<longleftrightarrow> (\<forall>k. \<not> e_cancelled env k) \<and> (\<forall>m. codec_reads (ge_codec env) m)
     \<and> provider_ok ir \<and> all_quiet oo \<and> approves_all env
     \<and> (\<forall>k. list_all (\<lambda>(_, i). \<not> asks_user i) (ge_tool_items env k))"

lemma pipeline_contributes:
  assumes "all_quiet oo"
  shows "list_all contributes (map step_operation (create_state_machine env oo ir max_turns cap))"
proof -
  have goose: "contributes (goose_operation name f)" for name f
    by (simp add: contributes_def goose_operation_def default_operation_def operation_store)
  then have "contributes (retry_operation env)"
    by (simp add: contributes_def retry_operation_def)
  moreover have "contributes (max_turns_operation env max_turns)"
    using goose by (simp add: contributes_def max_turns_operation_def max_turns_store)
  moreover have "contributes (tool_execution_operation env (oo_tool_execution oo))"
    using assms by (auto simp: contributes_def tool_execution_operation_def all_quiet_def intro!: operation_store)
  moreover have "contributes (operation.truncate (inference_as env from_message GRecordUsage ir))"
    by (simp add: contributes_def inference_as_def operation.defs default_operation_def operation_store)
  ultimately show ?thesis
    using assms goose
    by (auto simp: create_state_machine_def pipeline_operations_def Let_def all_quiet_def quiet_operation_def
        split: option.splits)
qed

lemma turn_count_below:
  assumes "block_starts False turn \<le> unat max_turns" and "assistant_turn_count turn < max_turns"
  shows "block_starts False turn < unat max_turns"
proof -
  have "unat max_turns < 2 ^ 32" using unsigned_less [of max_turns, where ?'a = nat] by simp
  with assms(1) have "block_starts False turn < 2 ^ 32" by simp
  then have "unat (of_nat (block_starts False turn) :: u32) = block_starts False turn"
    by (simp add: unat_of_nat take_bit_nat_eq_self)
  with assms(2) show ?thesis by (simp add: assistant_turn_count_blocks word_less_nat_alt)
qed

lemma advance_Cons:
  assumes "\<And>k. \<not> e_cancelled env k" and "attempt_ok env s c steps w0 (advances n sh turn) pass st"
    and "pass \<Longrightarrow> rest_ok env s c steps w0 (advances n sh turn) rest"
  shows "rest_ok env s c steps w0 (advances n sh turn) (st # rest)"
  using assms(1) advances_like assms(2,3) by (rule rest_ok_Cons)

lemma pipeline_ok:
  assumes env: "turn_env_ok env oo ir" and turn: "messages_since_kickoff c = Inr (k # rest)"
    and k: "parse_slash_command (as_concat_text k) = None"
      "bang_shell_command (as_concat_text (user_visible_content k)) = None"
    and inv: "no_decisions (k # rest)" "settled (last (k # rest))" "block_starts False (k # rest) \<le> unat max_turns"
    and w0: "gw_queue w0 = []" and s: "Option.bind (ses_recipe s) rp_retry = None"
    and contr: "list_all contributes (map step_operation steps)"
  shows "rest_ok env s c steps w0
    (advances (unat max_turns) (ge_show_error env) (k # rest)) (create_state_machine env oo ir max_turns cap)"
proof -
  let ?Q = "advances (unat max_turns) (ge_show_error env) (k # rest)"
  from env have quiet: "\<not> e_cancelled env j" and ir: "provider_ok ir" and oo: "all_quiet oo" and appr: "approves_all env"
    and items: "list_all (\<lambda>(_, i). \<not> asks_user i) (ge_tool_items env j)" for j
    by (simp_all add: turn_env_ok_def)
  note R = advance_Cons [OF quiet]
  note Q = attempt_ok_quiet [OF quiet]
  note quiets = oo [unfolded all_quiet_def]
  have last: "rest_ok env s c steps w0 ?Q [InferenceStep (inference_as env from_message GRecordUsage ir)]"
    if "\<not> ends_turn (k # rest)" "assistant_turn_count (k # rest) < max_turns"
    by (rule R [OF inference_ok [OF quiet ir turn inv(2) that(1) turn_count_below [OF inv(3) that(2)] contr]
          rest_ok_Nil])
  have tail: "rest_ok env s c steps w0 ?Q (map OperationStep
      [oo_tool_pair_compaction oo, goose_operation ''tool_approval'' (tool_approval_run env), oo_doctor oo, oo_project oo,
       oo_skills oo, oo_recipe oo, tool_execution_operation env (oo_tool_execution oo),
       goose_operation ''unknown_tool'' (unknown_tool_run env), retry_operation env,
       goose_operation ''stop_hook'' (stop_hook_run env cap), goose_operation ''exit_on_error'' exit_on_error_run]
      @ [InferenceStep (inference_as env from_message GRecordUsage ir)])"
    if "assistant_turn_count (k # rest) < max_turns"
    unfolding list.map append_Cons append_Nil
    using quiets that
    by (intro R [OF Q] R [OF tool_approval_ok [OF quiet turn appr inv(1)]] R [OF tool_execution_ok [OF quiet turn items inv(3)]]
        R [OF unknown_tool_ok [OF quiet turn inv(3)]] R [OF retry_ok [OF quiet turn s inv(3)]]
        R [OF stop_hook_ok [OF quiet turn inv(3)]] R [OF exit_on_error_ok [OF quiet]] last) blast+
  have compaction: "rest_ok env s c steps w0 ?Q (map OperationStep (case oo_compaction oo of Some x \<Rightarrow> [x] | None \<Rightarrow> []) @ t)"
    if "rest_ok env s c steps w0 ?Q t" for t
    using that quiets R [OF Q] by (auto split: option.splits)
  show ?thesis
    unfolding create_state_machine_def Let_def pipeline_operations_def
    by (simp only: list.map append_Cons append_Nil append_assoc map_append)
      (intro R [OF entry_hook_ok [OF quiet]] R [OF slash_command_ok [OF quiet turn k(1)]] R [OF steer_ok [OF quiet w0]]
        R [OF max_turns_ok [OF quiet turn]] R [OF bang_shell_ok [OF quiet turn k(2)]] compaction
        tail [unfolded list.map append_Cons append_Nil])
qed

text \<open>What stays as it was when effects are stored that neither set the recipe nor replace the conversation.\<close>

definition same_settings :: "string \<Rightarrow> goose_world \<Rightarrow> goose_world \<Rightarrow> bool" where
  "same_settings sid w w' \<longleftrightarrow> gw_queue w' = gw_queue w
     \<and> sc_recipe (gw_columns w' sid) = sc_recipe (gw_columns w sid)"

lemma same_settings_order: "reflp (same_settings sid)" "transp (same_settings sid)"
  by (auto simp: same_settings_def intro!: reflpI transpI)

lemma same_store_settings: "same_store w w' \<Longrightarrow> same_settings sid w w'"
  by (simp add: same_store_def same_settings_def)

lemma moves_map_in:
  assumes "reflp R" "transp R" and "\<And>y. y \<in> set ys \<Longrightarrow> moves R (f y)"
  shows "moves R (io_map f ys)"
  using assms(3) by (induction ys) (auto intro!: moves_bind [OF assms(2)] moves_ok [OF assms(1)])

lemma persist_settings:
  assumes "append_only e" "keeps_recipe e"
  shows "moves (same_settings sid) (persist_effect env s e)"
proof (cases e)
  case (GConversation ce)
  with assms obtain m where "e = GConversation (AppendMessage m)"
    by (auto simp: append_only_def split: conversation_effect.splits)
  then show ?thesis by (simp add: store_message_def moves_def same_settings_def io_simps)
qed (use assms in \<open>auto simp: append_only_def keeps_recipe_def moves_def same_settings_def update_columns_def record_usage_def\<close>)

lemma apply_effects_settings:
  assumes "apply_effects env s es w = (Inr (), w')" and "list_all append_only es" "list_all keeps_recipe es"
  shows "same_settings sid w w'"
proof -
  from assms(1) obtain es1 w1 us w2 us' where
    ids: "io_map (goose_ensure_message_ids env) es w = (Inr es1, w1)"
    and stored: "io_map (persist_effect env s) (enrich env s es1) w1 = (Inr us, w2)"
    and told: "io_map emit_event (concat (map effect_events (enrich env s es1))) w2 = (Inr us', w')"
    by (auto simp: apply_effects_def io_bind_eq_Inr Let_def)
  have like: "list_all2 effect_like es (enrich env s es1)"
    using io_map_all2 [OF ensure_like ids] enrich_like by (rule effects_like_trans)
  with assms(2,3) have "list_all append_only (enrich env s es1)" "list_all keeps_recipe (enrich env s es1)"
    using effects_like_append [OF like] keeps_recipe_like [OF like] by auto
  then have "moves (same_settings sid) (io_map (persist_effect env s) (enrich env s es1))"
    by (intro moves_map_in same_settings_order persist_settings) (auto simp: list_all_iff)
  with stored have "same_settings sid w1 w2" by (auto dest: movesD)
  moreover have "same_settings sid w w1"
    using ids ensure_store by (intro same_store_settings) (auto dest!: movesD [rotated] intro!: store_intros)
  moreover have "same_settings sid w2 w'"
    using told basic_store(5) by (intro same_store_settings) (auto dest!: movesD [rotated] intro!: store_intros)
  ultimately show ?thesis by (simp add: same_settings_def)
qed

text \<open>
  A turn that is under way: the conversation of the session has a kickoff that is no command, no
  confirmation was decided in the turn, the model's last message is settled, and the turn is
  within its budget.
\<close>

definition turn_open ::
    "goose_env \<Rightarrow> other_operations \<Rightarrow> (session, goose_world) inference_runner \<Rightarrow> u32 \<Rightarrow> string \<Rightarrow> goose_world \<Rightarrow> bool" where
  "turn_open env oo ir max_turns sid w \<longleftrightarrow>
     turn_env_ok env oo ir \<and> gw_queue w = [] \<and> Option.bind (sc_recipe (gw_columns w sid)) rp_retry = None
     \<and> (\<exists>c k rest. get_conversation (ge_codec env) sid (gw_table w) = Inr c \<and> messages_since_kickoff c = Inr (k # rest)
          \<and> parse_slash_command (as_concat_text k) = None
          \<and> bang_shell_command (as_concat_text (user_visible_content k)) = None
          \<and> no_decisions (k # rest) \<and> settled (last (k # rest)) \<and> block_starts False (k # rest) \<le> unat max_turns)"

definition session_rank :: "goose_env \<Rightarrow> u32 \<Rightarrow> string \<Rightarrow> goose_world \<Rightarrow> turn_rank" where
  "session_rank env max_turns sid w =
     (case get_conversation (ge_codec env) sid (gw_table w) of
        Inl _ \<Rightarrow> (0, 0, 0)
      | Inr c \<Rightarrow> (case messages_since_kickoff c of
            Inl _ \<Rightarrow> (0, 0, 0)
          | Inr turn \<Rightarrow> turn_rank (unat max_turns) (ge_show_error env) turn))"

lemma load_session_eq:
  "load_session env sid w = (Inr s, w') \<Longrightarrow>
     w' = w \<and> ses_id s = sid \<and> ses_recipe s = sc_recipe (gw_columns w sid)
     \<and> (\<exists>c. get_conversation (ge_codec env) sid (gw_table w) = Inr c \<and> ses_conversation s = Some c)"
  by (auto simp: load_session_def Let_def split: option.splits sum.splits)

lemma load_session_store:
  "same_store w w' \<Longrightarrow> load_session env sid w = (Inr s, w) \<Longrightarrow> load_session env sid w' = (Inr s, w')"
  by (auto simp: load_session_def same_store_def Let_def split: option.splits sum.splits)

lemma no_decisions_append: "no_decisions (xs @ ys) \<longleftrightarrow> no_decisions xs \<and> no_decisions ys"
  by (simp add: no_decisions_def)

lemma goose_round_descends:
  assumes open_w: "turn_open env oo ir max_turns sid w"
    and go: "goose_round env (create_state_machine env oo ir max_turns cap) sid w = Inr w'"
  shows "turn_open env oo ir max_turns sid w'
    \<and> (session_rank env max_turns sid w', session_rank env max_turns sid w) \<in> rank_less"
proof -
  let ?steps = "create_state_machine env oo ir max_turns cap" and ?n = "unat max_turns"
  from open_w have env: "turn_env_ok env oo ir" and queue: "gw_queue w = []"
    and retry: "Option.bind (sc_recipe (gw_columns w sid)) rp_retry = None"
    by (auto simp: turn_open_def)
  from open_w obtain c k rest where c: "get_conversation (ge_codec env) sid (gw_table w) = Inr c"
    and turn: "messages_since_kickoff c = Inr (k # rest)"
    and k: "parse_slash_command (as_concat_text k) = None" "bang_shell_command (as_concat_text (user_visible_content k)) = None"
    and inv: "no_decisions (k # rest)" "settled (last (k # rest))" "block_starts False (k # rest) \<le> ?n"
    by (auto simp: turn_open_def)
  from go obtain s r w2 where load: "load_session env sid w = (Inr s, w)"
    and step: "machine_step env (goose_ensure_message_ids env) ses_conversation ?steps s w = (Inr (Some r), w2)"
    and apply': "machine_apply (goose_ensure_message_ids env) (apply_effects env) s r w2 = (Inr (), w')"
    and goes_on: "\<not> sr_yield_to_client r"
    using load_session_eq [of env sid w]
    by (auto simp: goose_round_def run_round_def split: prod.splits sum.splits option.splits if_splits)
  note s = load_session_eq [OF load]
  have "rest_ok env s c ?steps w (advances ?n (ge_show_error env) (k # rest)) ?steps"
    using env retry s by (intro pipeline_ok turn k inv queue pipeline_contributes) (auto simp: turn_env_ok_def)
  moreover have "step_from env (goose_ensure_message_ids env) s c ?steps ?steps w = (Inr (Some r), w2)"
    using step s c by (simp add: machine_step_def)
  ultimately have store: "same_store w w2" and adv: "advances ?n (ge_show_error env) (k # rest) (sr_effects r)"
    using goes_on same_store_refl unfolding rest_ok_def by blast+
  from apply' obtain es w3 where ids: "io_map (goose_ensure_message_ids env) (sr_effects r) w2 = (Inr es, w3)"
    and eff: "apply_effects env s es w3 = (Inr (), w')"
    by (auto simp: machine_apply_def io_bind_eq_Inr)
  have "same_store w2 w3" using ids by (rule movesD [rotated]) (intro store_intros ensure_store)
  with store have store3: "same_store w w3" by (rule same_store_trans)
  have adv3: "advances ?n (ge_show_error env) (k # rest) es"
    using io_map_all2 [OF ensure_like ids] adv by (rule advances_like)
  then have only: "list_all append_only es" "list_all keeps_recipe es"
    and prog: "progress ?n (ge_show_error env) (k # rest) (appended es)" by (simp_all add: advances_def)
  obtain ms s' where ms: "load_session env sid w' = (Inr s', w')" "ses_conversation s' = Some (c @ ms)"
    "list_all2 content_like (appended es) ms"
    using append_effects_stored [of env es sid w3 s c] env only(1) load_session_store [OF store3 load] eff s c
    by (auto simp: turn_env_ok_def)
  have c': "get_conversation (ge_codec env) sid (gw_table w') = Inr (c @ ms)"
    using load_session_eq [OF ms(1)] ms(2) by simp
  have prog': "progress ?n (ge_show_error env) (k # rest) ms" using ms(3) prog by (rule progress_like)
  then have turn': "messages_since_kickoff (c @ ms) = Inr (k # rest @ ms)"
    using messages_since_kickoff_append [OF turn, of ms] by (simp add: progress_def)
  have "same_settings sid w w'"
    using same_store_settings [OF store3] apply_effects_settings [OF eff only] by (simp add: same_settings_def)
  moreover have "no_decisions (k # rest @ ms)"
    using inv(1) prog' no_decisions_append [of "k # rest" ms] by (simp add: progress_def)
  ultimately have "turn_open env oo ir max_turns sid w'"
    using env queue retry c' turn' k inv prog' by (auto simp: turn_open_def same_settings_def progress_def)
  moreover have "(session_rank env max_turns sid w', session_rank env max_turns sid w) \<in> rank_less"
    using prog' c c' turn turn' by (simp add: session_rank_def progress_def)
  ultimately show ?thesis by blast
qed

interpretation goose_loop: loop_progress
  "goose_round env (create_state_machine env oo ir max_turns cap) sid"
  "turn_open env oo ir max_turns sid"
  "inv_image rank_less (session_rank env max_turns sid)"
  for env :: goose_env and oo :: other_operations and ir :: "(session, goose_world) inference_runner"
    and max_turns cap :: u32 and sid :: string
proof unfold_locales
  show "wf (inv_image rank_less (session_rank env max_turns sid))"
    by (intro wf_inv_image) (simp add: rank_less_def wf_lex_prod)
qed (use goose_round_descends in \<open>auto simp: in_inv_image\<close>)

lemma load_session_keeps: "snd (load_session env sid w) = w"
  by (simp add: load_session_def Let_def split: option.split sum.split)


definition sample_other_operations :: other_operations where
  "sample_other_operations =
     \<lparr>oo_compaction = None, oo_tool_pair_compaction = default_operation [], oo_doctor = default_operation [],
      oo_project = default_operation [], oo_skills = default_operation [], oo_recipe = default_operation [],
      oo_tool_execution = default_operation [], oo_status = default_operation []\<rparr>"

definition sample_answering :: "(session, goose_world) inference_runner" where
  "sample_answering =
     \<lparr>ir_provider = \<lparr>pv_name = ''p'', pv_resume = (\<lambda>_ w. (Inr (), w)),
        pv_stream = (\<lambda>_ _ _ w. (Inr [Inr (Some (message_new Assistant 0 [sample_call ''1'']), None)], w)),
        pv_resolved_model = (\<lambda>_ w. (None, w)), pv_session_id = (\<lambda>w. (None, w))\<rparr>,
      ir_model_name = ''m'', ir_prepare = identity_prepare\<rparr>"

definition sample_asked_world :: goose_world where
  "sample_asked_world = sample_goose_world\<lparr>gw_table :=
     add_message unary_codec ''1'' ''s'' (message_new User 5 [sample_text ''go'']) empty_table\<rparr>"

lemma sample_turn_env: "turn_env_ok sample_goose_env sample_other_operations sample_answering"
proof -
  have "quiet_operation (default_operation [])" "contributes (default_operation [])"
    by (simp_all add: quiet_operation_def contributes_def default_operation_def operation_store not_applicable_def io_ok_def)
  moreover have "provider_ok sample_answering"
    by (simp add: provider_ok_def sample_answering_def moves_def io_act_def identity_prepare_def io_ok_def chunk_ok_def
        message_new_def sample_call_def confirmation_response_def is_agent_visible_def metadata_default_def)
  moreover have "approves_all sample_goose_env"
    by (simp add: approves_all_def inspection_decision_def sample_goose_env_def env.defs)
  ultimately show ?thesis
    by (simp add: turn_env_ok_def all_quiet_def sample_other_operations_def unary_codec_reads)
      (simp add: sample_goose_env_def env.defs plain_env_def)
qed


end
