(* ===== verification/Json_Repair.thy ===== *)
theory Json_Repair
  imports Tool_Request
begin

section \<open>Tool arguments that are not quite JSON\<close>

text \<open>
  \<open>crates/goose-provider-types/src/json.rs\<close>: how the argument string of a tool call becomes a value
  when the model wrapped, encoded twice, cut off or otherwise damaged it. The parser of
  \<open>serde_json\<close> is the argument \<open>from_str\<close>. The scanners compare characters with ASCII delimiters
  only, so they are the same over bytes.
\<close>

type_synonym json_parser = "string \<Rightarrow> json option"

abbreviation QUOTE :: char where "QUOTE \<equiv> CHR 0x22"
abbreviation BACKSLASH :: char where "BACKSLASH \<equiv> CHR 0x5C"

record json_scan =
  js_in_string :: bool
  js_escape_next :: bool
  js_closers :: string

definition scan_start :: json_scan where
  "scan_start = \<lparr>js_in_string = False, js_escape_next = False, js_closers = []\<rparr>"

definition string_step :: "json_scan \<Rightarrow> char \<Rightarrow> json_scan" where
  "string_step st c =
     (if js_escape_next st then st\<lparr>js_escape_next := False\<rparr>
      else if c = BACKSLASH then st\<lparr>js_escape_next := True\<rparr>
      else if c = QUOTE then st\<lparr>js_in_string := False\<rparr>
      else st)"

definition repair_step :: "json_scan \<Rightarrow> char \<Rightarrow> json_scan" where
  "repair_step st c =
     (if js_in_string st then string_step st c
      else if c = QUOTE then st\<lparr>js_in_string := True\<rparr>
      else if c = CHR ''{'' then st\<lparr>js_closers := CHR ''}'' # js_closers st\<rparr>
      else if c = CHR ''['' then st\<lparr>js_closers := CHR '']'' # js_closers st\<rparr>
      else if (c = CHR ''}'' \<or> c = CHR '']'') \<and> first_opt (js_closers st) = Some c
        then st\<lparr>js_closers := tl (js_closers st)\<rparr>
      else st)"

definition repair_ending :: "json_scan \<Rightarrow> string" where
  "repair_ending st =
     (if js_in_string st then (if js_escape_next st then [BACKSLASH] else []) @ [QUOTE] else [])
     @ js_closers st"

fun repair_from :: "json_scan \<Rightarrow> string \<Rightarrow> string" where
  "repair_from st [] = repair_ending st"
| "repair_from st (c # s) = c # repair_from (repair_step st c) s"

definition repair_truncated_json :: "string \<Rightarrow> string" where
  "repair_truncated_json s = repair_from scan_start s"

definition hex_digit :: "nat \<Rightarrow> char" where
  "hex_digit n = (if n < 10 then char_of (48 + n) else char_of (87 + n))"

definition escape_control :: "char \<Rightarrow> string" where
  "escape_control c =
     (if (of_char c :: nat) \<le> 0x1F then
        (if c = CHR 0x08 then [BACKSLASH, CHR ''b'']
         else if c = CHR 0x0C then [BACKSLASH, CHR ''f'']
         else if c = CHR 0x0A then [BACKSLASH, CHR ''n'']
         else if c = CHR 0x0D then [BACKSLASH, CHR ''r'']
         else if c = CHR 0x09 then [BACKSLASH, CHR ''t'']
         else [BACKSLASH, CHR ''u'', CHR ''0'', CHR ''0'', hex_digit (of_char c div 16), hex_digit (of_char c mod 16)])
      else [c])"

definition json_escape_control_chars_in_string :: "string \<Rightarrow> string" where
  "json_escape_control_chars_in_string s = concat (map escape_control s)"

definition safely_parse_json :: "json_parser \<Rightarrow> json_parser" where
  "safely_parse_json from_str s =
     (case from_str s of
        Some v \<Rightarrow> Some v
      | None \<Rightarrow>
          (case from_str (repair_truncated_json s) of
             Some v \<Rightarrow> Some v
           | None \<Rightarrow>
               (case from_str (json_escape_control_chars_in_string s) of
                  Some v \<Rightarrow> Some v
                | None \<Rightarrow> from_str (repair_truncated_json (json_escape_control_chars_in_string s)))))"

fun truncated_from :: "json_scan \<Rightarrow> string \<Rightarrow> bool" where
  "truncated_from st [] \<longleftrightarrow> js_in_string st \<or> js_escape_next st \<or> js_closers st \<noteq> []"
| "truncated_from st (c # s) \<longleftrightarrow>
     (if js_in_string st then truncated_from (string_step st c) s
      else if c = QUOTE then truncated_from (st\<lparr>js_in_string := True\<rparr>) s
      else if c = CHR ''{'' then truncated_from (st\<lparr>js_closers := CHR ''}'' # js_closers st\<rparr>) s
      else if c = CHR ''['' then truncated_from (st\<lparr>js_closers := CHR '']'' # js_closers st\<rparr>) s
      else if c = CHR ''}'' \<or> c = CHR '']'' then
        (if first_opt (js_closers st) = Some c
         then truncated_from (st\<lparr>js_closers := tl (js_closers st)\<rparr>) s else True)
      else truncated_from st s)"

definition looks_truncated :: "string \<Rightarrow> bool" where
  "looks_truncated args =
     (let trimmed = trim_end args in
      if trimmed = [] then False else truncated_from scan_start trimmed)"

function str_chars :: "string \<Rightarrow> string list" where
  "str_chars [] = []"
| "str_chars (c # s) = (c # takeWhile utf8_cont s) # str_chars (dropWhile utf8_cont s)"
  by pat_completeness auto
termination
  by (relation "measure length") (auto simp: less_Suc_eq_le length_dropWhile_le)

definition truncation_snippet :: "string \<Rightarrow> string" where
  "truncation_snippet trimmed =
     (let cs = str_chars trimmed in
      if length cs > 80
      then [CHR 0xE2, CHR 0x80, CHR 0xA6] @ concat (rev (take 80 (rev cs))) else trimmed)"

definition truncation_guidance :: "bool \<Rightarrow> string" where
  "truncation_guidance truncated =
     (if truncated
      then ''The model'' @ [CHR 0x27] @ ''s response was truncated '' @ [CHR 0xE2, CHR 0x80, CHR 0x94]
        @ '' it hit the output token limit while generating this tool call. ''
        @ ''Try increasing max_tokens for this provider or breaking the task into smaller steps.''
      else ''The model produced malformed tool arguments. Try resending your message ''
        @ ''or breaking the task into smaller steps.'')"

definition truncation_error_message :: "json_parser \<Rightarrow> string \<Rightarrow> string option" where
  "truncation_error_message from_str args =
     (if args = [] \<or> from_str args \<noteq> None then None
      else
        let trimmed = trim_end args in
        Some (truncation_guidance (looks_truncated trimmed) @ [NL] @ ''Received ''
          @ show_nat (length (str_chars trimmed)) @ '' characters; cut off at: '' @ truncation_snippet trimmed))"

definition strip_suffix :: "string \<Rightarrow> string \<Rightarrow> string option" where
  "strip_suffix p s = (if suffix p s then Some (take (length s - length p) s) else None)"

fun until_whitespace :: "string \<Rightarrow> string" where
  "until_whitespace [] = []"
| "until_whitespace (c # s) = (if first_seq ws_seqs (c # s) = None then c # until_whitespace s else [])"

definition first_word :: "string \<Rightarrow> string option" where
  "first_word s = (let t = trim_start s in if t = [] then None else Some (until_whitespace t))"

definition is_tag_char :: "char \<Rightarrow> bool" where
  "is_tag_char c \<longleftrightarrow> is_ascii_alphanumeric c \<or> c = CHR ''_'' \<or> c = CHR ''-''"

definition strip_fence :: "string \<Rightarrow> string option" where
  "strip_fence rest =
     (case strip_suffix ''```'' rest of
        None \<Rightarrow> None
      | Some inside \<Rightarrow>
          (let body = trim_start inside in
           Some (trim (case strip_prefix ''json'' body of
                         Some b \<Rightarrow> b
                       | None \<Rightarrow> (case strip_prefix ''JSON'' body of Some b \<Rightarrow> b | None \<Rightarrow> body)))))"

definition strip_tag :: "string \<Rightarrow> string option" where
  "strip_tag trimmed =
     (case str_find ''>'' trimmed of
        None \<Rightarrow> None
      | Some open_end \<Rightarrow>
          (case first_word (drop 1 (take open_end trimmed)) of
             None \<Rightarrow> None
           | Some tag_name \<Rightarrow>
               if tag_name = [] \<or> \<not> list_all is_tag_char tag_name then None
               else map_option trim (strip_suffix (''</'' @ tag_name @ ''>'') (trim_end (drop (open_end + 1) trimmed)))))"

definition strip_json_wrapper :: "string \<Rightarrow> string option" where
  "strip_json_wrapper args =
     (let trimmed = trim args in
      case strip_prefix ''```'' trimmed of
        Some rest \<Rightarrow> strip_fence rest
      | None \<Rightarrow>
          if starts_with trimmed ''<'' \<and> \<not> starts_with trimmed ''</'' then strip_tag trimmed else None)"

fun unwrap_encoded :: "json_parser \<Rightarrow> nat \<Rightarrow> json \<Rightarrow> string \<Rightarrow> json" where
  "unwrap_encoded from_str 0 v cur = v"
| "unwrap_encoded from_str (Suc n) v cur =
     (case from_str cur of
        Some (JObject kvs) \<Rightarrow> JObject kvs
      | Some (JString inner) \<Rightarrow> unwrap_encoded from_str n v (trim inner)
      | _ \<Rightarrow> v)"

definition unwrap_double_encoded_object :: "json_parser \<Rightarrow> json \<Rightarrow> json" where
  "unwrap_double_encoded_object from_str v =
     (case v of JString s \<Rightarrow> unwrap_encoded from_str 3 v (trim s) | _ \<Rightarrow> v)"

definition parse_inner :: "json_parser \<Rightarrow> string \<Rightarrow> json option" where
  "parse_inner from_str inner =
     (case from_str inner of
        Some v \<Rightarrow> Some v
      | None \<Rightarrow> if looks_truncated inner then None else safely_parse_json from_str inner)"

definition parse_tool_arguments :: "json_parser \<Rightarrow> json_parser" where
  "parse_tool_arguments from_str args =
     (if args = [] then Some (JObject [])
      else
        case from_str args of
          Some v \<Rightarrow> Some (unwrap_double_encoded_object from_str v)
        | None \<Rightarrow>
            (case Option.bind (strip_json_wrapper args) (parse_inner from_str) of
               Some v \<Rightarrow> Some (unwrap_double_encoded_object from_str v)
             | None \<Rightarrow>
                 if looks_truncated args then None
                 else map_option (unwrap_double_encoded_object from_str) (safely_parse_json from_str args)))"

subsection \<open>The scanners agree\<close>

text \<open>A closer outside of strings that does not close the innermost open bracket.\<close>

fun mismatched :: "json_scan \<Rightarrow> string \<Rightarrow> bool" where
  "mismatched st [] = False"
| "mismatched st (c # s) \<longleftrightarrow>
     (\<not> js_in_string st \<and> (c = CHR ''}'' \<or> c = CHR '']'') \<and> first_opt (js_closers st) \<noteq> Some c)
     \<or> mismatched (repair_step st c) s"

definition closed :: "json_scan \<Rightarrow> bool" where
  "closed st \<longleftrightarrow> \<not> js_in_string st \<and> \<not> js_escape_next st \<and> js_closers st = []"

abbreviation scan_all :: "json_scan \<Rightarrow> string \<Rightarrow> json_scan" where
  "scan_all st s \<equiv> foldl repair_step st s"

lemma repair_from_eq: "repair_from st s = s @ repair_ending (scan_all st s)"
  by (induction s arbitrary: st) auto

lemma mismatched_append: "mismatched st (s @ t) \<longleftrightarrow> mismatched st s \<or> mismatched (scan_all st s) t"
  by (induction s arbitrary: st) auto

lemma truncated_from_iff: "truncated_from st s \<longleftrightarrow> mismatched st s \<or> \<not> closed (scan_all st s)"
  by (induction s arbitrary: st) (auto simp: closed_def repair_step_def)

text \<open>Bytes that mean nothing to the scanners outside of strings, and never end one.\<close>

definition inert_byte :: "char \<Rightarrow> bool" where
  "inert_byte c \<longleftrightarrow> c \<notin> {QUOTE, BACKSLASH, CHR ''{'', CHR ''}'', CHR ''['', CHR '']''}"

lemma inert_step:
  "inert_byte c \<Longrightarrow> repair_step st c = (if js_in_string st then st\<lparr>js_escape_next := False\<rparr> else st)"
  by (cases st) (auto simp: repair_step_def string_step_def inert_byte_def)

lemma inert_scan:
  "list_all inert_byte s \<Longrightarrow> s \<noteq> [] \<Longrightarrow> scan_all st s = (if js_in_string st then st\<lparr>js_escape_next := False\<rparr> else st)"
  "list_all inert_byte s \<Longrightarrow> \<not> mismatched st s"
proof -
  show "list_all inert_byte s \<Longrightarrow> \<not> mismatched st s"
    by (induction s arbitrary: st) (auto simp: inert_byte_def)
  show "list_all inert_byte s \<Longrightarrow> s \<noteq> [] \<Longrightarrow> scan_all st s = (if js_in_string st then st\<lparr>js_escape_next := False\<rparr> else st)"
  proof (induction s arbitrary: st)
    case (Cons c s)
    then show ?case by (cases "s = []") (auto simp: inert_step)
  qed simp
qed

lemma strip_seqs_split: "\<exists>d. s = d @ strip_seqs ws s \<and> (\<forall>c \<in> set d. \<exists>w \<in> set ws. c \<in> set w)"
proof (induction ws s rule: strip_seqs.induct)
  case (1 ws s)
  show ?case
  proof (cases "first_seq ws s")
    case (Some w)
    note D = first_seq_SomeD [OF Some]
    from 1 [OF Some] obtain d where d: "drop (length w) s = d @ strip_seqs ws (drop (length w) s)"
      "\<forall>c \<in> set d. \<exists>w \<in> set ws. c \<in> set w" by blast
    have "s = w @ drop (length w) s" using D by (auto simp: prefix_def)
    then have "s = (w @ d) @ strip_seqs ws s" using d(1) Some by (subst strip_seqs.simps) auto
    then show ?thesis using D d(2) by (intro exI [of _ "w @ d"]) auto
  qed (subst strip_seqs.simps, simp)
qed

lemma trim_end_split: "\<exists>d. s = trim_end s @ d \<and> list_all inert_byte d"
proof -
  from strip_seqs_split [of "rev s" "map rev ws_seqs"] obtain d where
    d: "rev s = d @ strip_seqs (map rev ws_seqs) (rev s)" "\<forall>c \<in> set d. \<exists>w \<in> set ws_seqs. c \<in> set w" by fastforce
  have "list_all (list_all inert_byte) ws_seqs" by code_simp
  then have "list_all inert_byte (rev d)" using d(2) by (fastforce simp: list_all_iff)
  moreover have "s = trim_end s @ rev d"
    using arg_cong [OF d(1), of rev] by (simp add: trim_end_def)
  ultimately show ?thesis by blast
qed

lemma looks_truncated_iff: "looks_truncated s \<longleftrightarrow> mismatched scan_start s \<or> \<not> closed (scan_all scan_start s)"
proof -
  obtain d where d: "s = trim_end s @ d" "list_all inert_byte d" using trim_end_split by blast
  let ?st = "scan_all scan_start (trim_end s)"
  have "closed (scan_all ?st d) = closed ?st"
    using inert_scan(1) [OF d(2), of ?st] by (cases "d = []") (auto simp: closed_def)
  moreover have "scan_all scan_start s = scan_all ?st d" by (subst d(1)) simp
  moreover have "mismatched scan_start s = mismatched scan_start (trim_end s)"
    using mismatched_append [of scan_start "trim_end s" d] inert_scan(2) [OF d(2)] d(1) by metis
  ultimately show ?thesis
    by (auto simp: looks_truncated_def truncated_from_iff Let_def closed_def scan_start_def)
qed

lemma repair_closed: "closed (scan_all scan_start s) \<Longrightarrow> repair_truncated_json s = s"
  by (simp add: repair_truncated_json_def repair_from_eq repair_ending_def closed_def)

text \<open>Escaping the control characters does not change what the scanners see.\<close>

lemma escape_control_step: "js_escape_next st \<longrightarrow> js_in_string st \<Longrightarrow> scan_all st (escape_control c) = repair_step st c"
proof -
  assume inv: "js_escape_next st \<longrightarrow> js_in_string st"
  have esc: "scan_all st (BACKSLASH # s) = (if js_in_string st then st\<lparr>js_escape_next := False\<rparr> else st)"
    if "list_all inert_byte s" "s \<noteq> []" for s
  proof -
    have "js_in_string (repair_step st BACKSLASH) = js_in_string st" "(repair_step st BACKSLASH)\<lparr>js_escape_next := False\<rparr> = st\<lparr>js_escape_next := False\<rparr>"
      "\<not> js_in_string st \<Longrightarrow> repair_step st BACKSLASH = st"
      by (auto simp: repair_step_def string_step_def)
    then show ?thesis using inert_scan(1) [OF that, of "repair_step st BACKSLASH"] by simp
  qed
  have "list_all (\<lambda>n. inert_byte (hex_digit n)) [0..<16]" by code_simp
  then have hex: "inert_byte (hex_digit n)" if "n < 16" for n using that by (auto simp: list_all_iff)
  show ?thesis
  proof (cases "(of_char c :: nat) \<le> 0x1F")
    case True
    then have "inert_byte c" by (auto simp: inert_byte_def)
    moreover have letters: "list_all inert_byte ''bfnrtu0''" by code_simp
    have "of_char c div 16 < (16 :: nat)" using True by simp
    with hex letters True have "\<exists>s. escape_control c = BACKSLASH # s \<and> list_all inert_byte s \<and> s \<noteq> []"
      by (simp add: escape_control_def)
    ultimately show ?thesis using esc inert_step by metis
  qed (simp add: escape_control_def)
qed

lemma scan_escape_inv: "js_escape_next st \<longrightarrow> js_in_string st \<Longrightarrow> js_escape_next (repair_step st c) \<longrightarrow> js_in_string (repair_step st c)"
  by (auto simp: repair_step_def string_step_def)

lemma scan_escaped:
  "js_escape_next st \<longrightarrow> js_in_string st \<Longrightarrow> scan_all st (json_escape_control_chars_in_string s) = scan_all st s"
proof (induction s arbitrary: st)
  case (Cons c s)
  then show ?case
    using escape_control_step [OF Cons.prems, of c] scan_escape_inv [OF Cons.prems, of c]
    by (simp add: json_escape_control_chars_in_string_def)
qed (simp add: json_escape_control_chars_in_string_def)

lemma repair_escaped:
  "\<not> looks_truncated s \<Longrightarrow> repair_truncated_json (json_escape_control_chars_in_string s) = json_escape_control_chars_in_string s"
  by (rule repair_closed) (simp add: looks_truncated_iff scan_escaped scan_start_def)

subsection \<open>What the repair promises\<close>

lemma closers_scan:
  assumes "set cs \<subseteq> {CHR ''}'', CHR '']''}" and "js_closers st = cs" and "\<not> js_in_string st" and "\<not> js_escape_next st"
  shows "closed (scan_all st cs) \<and> \<not> mismatched st cs"
  using assms
proof (induction cs arbitrary: st)
  case (Cons c cs)
  then have "repair_step st c = st\<lparr>js_closers := cs\<rparr>" by (auto simp: repair_step_def)
  with Cons show ?case by auto
qed (simp add: closed_def)

lemma scan_closers_set: "set (js_closers st) \<subseteq> {CHR ''}'', CHR '']''} \<Longrightarrow> set (js_closers (scan_all st s)) \<subseteq> {CHR ''}'', CHR '']''}"
proof (induction s arbitrary: st)
  case (Cons c s)
  have "set (js_closers (repair_step st c)) \<subseteq> {CHR ''}'', CHR '']''}"
    using Cons.prems by (cases "js_closers st") (auto simp: repair_step_def string_step_def)
  then show ?case using Cons.IH by simp
qed simp

lemma ending_scan:
  assumes "set (js_closers st) \<subseteq> {CHR ''}'', CHR '']''}" and "js_escape_next st \<longrightarrow> js_in_string st"
  shows "closed (scan_all st (repair_ending st)) \<and> \<not> mismatched st (repair_ending st)"
proof (cases "js_in_string st")
  case True
  let ?st = "st\<lparr>js_in_string := False, js_escape_next := False\<rparr>"
  have "scan_all st ((if js_escape_next st then [BACKSLASH] else []) @ [QUOTE]) = ?st"
    "\<not> mismatched st ((if js_escape_next st then [BACKSLASH] else []) @ [QUOTE])"
    using True by (auto simp: repair_step_def string_step_def)
  then show ?thesis
    using closers_scan [of "js_closers st" ?st] assms(1) True by (simp add: repair_ending_def mismatched_append)
next
  case False
  then show ?thesis using closers_scan [of "js_closers st" st] assms by (simp add: repair_ending_def)
qed

lemma scan_escape_inv_all: "js_escape_next st \<longrightarrow> js_in_string st \<Longrightarrow> js_escape_next (scan_all st s) \<longrightarrow> js_in_string (scan_all st s)"
proof (induction s arbitrary: st)
  case (Cons c s)
  then show ?case using Cons.IH [of "repair_step st c"] scan_escape_inv [OF Cons.prems, of c] by simp
qed simp

text \<open>The repair only appends: nothing to a document that is complete, and otherwise what makes it
  complete, unless a bracket in it is closed by the wrong one, which nothing appended can mend.\<close>

lemma repair_completes:
  "\<exists>t. repair_truncated_json s = s @ t \<and> (\<not> looks_truncated s \<longrightarrow> t = [])
     \<and> (looks_truncated (repair_truncated_json s) \<longleftrightarrow> mismatched scan_start s)"
proof -
  let ?st = "scan_all scan_start s"
  have eq: "repair_truncated_json s = s @ repair_ending ?st"
    by (simp add: repair_truncated_json_def repair_from_eq)
  have "closed (scan_all ?st (repair_ending ?st)) \<and> \<not> mismatched ?st (repair_ending ?st)"
    by (intro ending_scan scan_closers_set scan_escape_inv_all) (simp_all add: scan_start_def)
  then show ?thesis
    using repair_closed [of s] unfolding eq by (auto simp: looks_truncated_iff mismatched_append)
qed

lemma safely_parse_complete:
  assumes "\<not> looks_truncated s"
  shows "safely_parse_json from_str s =
    (case from_str s of Some v \<Rightarrow> Some v | None \<Rightarrow> from_str (json_escape_control_chars_in_string s))"
  using assms repair_closed [of s] repair_escaped [OF assms]
  by (auto simp: safely_parse_json_def looks_truncated_iff split: option.split)

lemma parse_inner_complete:
  "parse_inner from_str t = Some u \<Longrightarrow>
     from_str t = Some u \<or> \<not> looks_truncated t \<and> from_str (json_escape_control_chars_in_string t) = Some u"
  by (auto simp: parse_inner_def safely_parse_complete split: option.splits if_splits)

text \<open>Claim C23 (tool_arguments_complete): no tool is called with arguments that were cut off. Whenever the
  argument string of a tool call yields a value, that value was read from the string itself, or from
  what a code fence or a tag in it encloses, in a form whose strings and brackets are all closed,
  with at most the control characters escaped: the completion of truncated text that
  \<open>safely_parse_json\<close> tries never contributes. It supposes that the JSON parser accepts no text with
  an open string or bracket.\<close>

theorem tool_arguments_complete:
  assumes "\<And>s v. from_str s = Some v \<Longrightarrow> \<not> looks_truncated s"
    and "parse_tool_arguments from_str args = Some v" and "args \<noteq> []"
  shows "\<exists>t u. (t = args \<or> strip_json_wrapper args = Some t) \<and> \<not> looks_truncated t
    \<and> (from_str t = Some u \<or> from_str (json_escape_control_chars_in_string t) = Some u)
    \<and> v = unwrap_double_encoded_object from_str u"
proof (cases "from_str args")
  case None
  show ?thesis
  proof (cases "Option.bind (strip_json_wrapper args) (parse_inner from_str)")
    case (Some u)
    then obtain t where t: "strip_json_wrapper args = Some t" "parse_inner from_str t = Some u"
      by (auto simp: bind_eq_Some_conv)
    moreover have "v = unwrap_double_encoded_object from_str u"
      using assms(2,3) \<open>from_str args = None\<close> Some by (simp add: parse_tool_arguments_def)
    ultimately show ?thesis using parse_inner_complete [OF t(2)] assms(1) by blast
  next
    case none: None
    with assms(2,3) None show ?thesis
      by (auto simp: parse_tool_arguments_def safely_parse_complete split: if_splits)
  qed
next
  case (Some u)
  with assms show ?thesis by (auto simp: parse_tool_arguments_def)
qed

definition sample_from_str :: json_parser where
  "sample_from_str s = (if s = ''{}'' then Some (JObject []) else None)"

theorem tool_arguments_complete_witness:
  "\<exists>t u. (t = ''```json {} ```'' \<or> strip_json_wrapper ''```json {} ```'' = Some t) \<and> \<not> looks_truncated t
    \<and> (sample_from_str t = Some u \<or> sample_from_str (json_escape_control_chars_in_string t) = Some u)
    \<and> JObject [] = unwrap_double_encoded_object sample_from_str u"
proof (rule tool_arguments_complete)
  have "\<not> looks_truncated ''{}''" by code_simp
  then show "\<not> looks_truncated s" if "sample_from_str s = Some v" for s v
    using that by (simp add: sample_from_str_def split: if_splits)
  show "parse_tool_arguments sample_from_str ''```json {} ```'' = Some (JObject [])" by code_simp
qed simp

end
