(* ===== verification/Context_Summary.thy ===== *)
theory Context_Summary
  imports Json_Repair Agent_Inference
begin

section \<open>Summaries of a conversation\<close>

text \<open>
  \<open>crates/goose-context-management\<close>: how a history is written down for the summarizing model
  (\<open>format.rs\<close>), how its answer is read as a structured summary (\<open>structured.rs\<close>, \<open>templates.rs\<close>)
  and how the request is repeated with fewer tool responses when it overflows (\<open>summarize.rs\<close>,
  \<open>provider.rs\<close>). The serializer and the parser of \<open>serde_json\<close>, the template engine, the token
  estimates and the answers of the model are fields of \<open>summary_env\<close>.
\<close>

record token_estimator =
  tk_count_chat :: "string \<Rightarrow> message list \<Rightarrow> nat"
  tk_count_text :: "string \<Rightarrow> nat"

record templates =
  tp_compaction :: string
  tp_summary :: string

record summary_env =
  sx_from_str :: json_parser
  sx_to_string :: "json \<Rightarrow> string option"
  sx_to_string_pretty :: "json \<Rightarrow> string option"
  sx_show_value :: "json \<Rightarrow> string"
  sx_show_error :: "error_data \<Rightarrow> string"
  sx_jinja :: "string \<Rightarrow> json \<Rightarrow> anyhow + string"
  sx_complete :: "nat \<Rightarrow> string \<Rightarrow> message list \<Rightarrow> provider_error + message \<times> provider_usage"

definition arguments_json :: "json_object option \<Rightarrow> json" where
  "arguments_json a = (case a of Some kvs \<Rightarrow> JObject kvs | None \<Rightarrow> JNull)"

subsection \<open>Writing the history down\<close>

definition format_action :: "action_required_data \<Rightarrow> string" where
  "format_action a =
     (case a of
        ToolConfirmation i name args prompt \<Rightarrow> ''action_required(tool_confirmation): '' @ name
      | Elicitation i msg schema \<Rightarrow> ''action_required(elicitation): '' @ msg
      | ElicitationResponse i v act \<Rightarrow> ''action_required(elicitation_response): '' @ i
      | ToolConfirmationResponse i p \<Rightarrow> ''action_required(tool_confirmation_response): '' @ i)"

definition format_block :: "summary_env \<Rightarrow> message_content_block \<Rightarrow> string option" where
  "format_block se b =
     (case b of
        Text t \<Rightarrow> Some (tc_text t)
      | Image i \<Rightarrow> Some (''[image: '' @ ic_mime_type i @ '']'')
      | Document d \<Rightarrow>
          Some (case dc_name d of
                  Some name \<Rightarrow> ''[document: '' @ name @ '' ('' @ dc_mime_type d @ '')]''
                | None \<Rightarrow> ''[document: '' @ dc_mime_type d @ '']'')
      | ToolRequest req \<Rightarrow>
          (case tr_tool_call req of
             Inr call \<Rightarrow>
               Some (''tool_request('' @ ctp_name call @ ''): ''
                 @ (case sx_to_string se (arguments_json (ctp_arguments call)) of
                      Some s \<Rightarrow> s | None \<Rightarrow> ''<<invalid json>>''))
           | Inl _ \<Rightarrow> Some ''tool_request: [error]'')
      | ToolResponse res \<Rightarrow>
          (case ts_tool_result res of
             Inr result \<Rightarrow>
               (let text_items = filter_map (\<lambda>c. map_option tc_text (content_as_text c)) (ctr_content result) in
                if text_items \<noteq> [] then Some (''tool_response: '' @ join [NL] text_items)
                else Some ''tool_response: [non-text content]'')
           | Inl _ \<Rightarrow> Some ''tool_response: [error]'')
      | ToolConfirmationRequest req \<Rightarrow> Some (''tool_confirmation_request: '' @ tcr_tool_name req)
      | ActionRequired a \<Rightarrow> Some (format_action a)
      | Thinking _ \<Rightarrow> None
      | RedactedThinking _ \<Rightarrow> None
      | SystemNotification n \<Rightarrow> Some (''system_notification: '' @ sn_msg n)
      | ErrorBlock e \<Rightarrow> Some (''error: '' @ ec_message e))"

definition format_message_for_compacting :: "summary_env \<Rightarrow> message \<Rightarrow> string" where
  "format_message_for_compacting se m =
     (let parts = filter_map (format_block se) (m_content m);
          role_str = (case m_role m of User \<Rightarrow> ''user'' | Assistant \<Rightarrow> ''assistant'') in
      if parts = [] then ''['' @ role_str @ '']: <empty message>''
      else ''['' @ role_str @ '']: '' @ join [NL] parts)"

text \<open>\<open>Display\<close> of a content block, which the estimate of output tokens counts.\<close>

definition to_readable_string :: "summary_env \<Rightarrow> tool_request \<Rightarrow> string" where
  "to_readable_string se r =
     (case tr_tool_call r of
        Inr call \<Rightarrow>
          ''Tool: '' @ ctp_name call @ '', Args: ''
          @ (case sx_to_string_pretty se (arguments_json (ctp_arguments call)) of
               Some s \<Rightarrow> s | None \<Rightarrow> ''<<invalid json>>'')
      | Inl e \<Rightarrow> ''Invalid tool call: '' @ sx_show_error se e)"

definition show_action :: "action_required_data \<Rightarrow> string" where
  "show_action a =
     (case a of
        ToolConfirmation i name args prompt \<Rightarrow> ''[ActionRequired: ToolConfirmation for '' @ name @ '']''
      | Elicitation i msg schema \<Rightarrow> ''[ActionRequired: Elicitation - '' @ msg @ '']''
      | ElicitationResponse i v act \<Rightarrow> ''[ActionRequired: ElicitationResponse for '' @ i @ '']''
      | ToolConfirmationResponse i p \<Rightarrow> ''[ActionRequired: ToolConfirmationResponse for '' @ i @ '']'')"

definition show_block :: "summary_env \<Rightarrow> message_content_block \<Rightarrow> string" where
  "show_block se b =
     (case b of
        Text t \<Rightarrow> tc_text t
      | Image i \<Rightarrow> ''[Image: '' @ ic_mime_type i @ '']''
      | Document d \<Rightarrow>
          (case dc_name d of
             Some name \<Rightarrow> ''[Document: '' @ name @ '' ('' @ dc_mime_type d @ '')]''
           | None \<Rightarrow> ''[Document: '' @ dc_mime_type d @ '']'')
      | ToolRequest r \<Rightarrow> ''[ToolRequest: '' @ to_readable_string se r @ '']''
      | ToolResponse r \<Rightarrow>
          ''[ToolResponse: ''
          @ (case ts_tool_result r of
               Inr result \<Rightarrow> show_nat (length (ctr_content result)) @ '' content item(s)''
             | Inl e \<Rightarrow> ''Error: '' @ sx_show_error se e) @ '']''
      | ToolConfirmationRequest r \<Rightarrow> ''[ToolConfirmationRequest: '' @ tcr_tool_name r @ '']''
      | ActionRequired a \<Rightarrow> show_action a
      | Thinking t \<Rightarrow> ''[Thinking: '' @ th_thinking t @ '']''
      | RedactedThinking _ \<Rightarrow> ''[RedactedThinking]''
      | SystemNotification n \<Rightarrow> ''[SystemNotification: '' @ sn_msg n @ '']''
      | ErrorBlock e \<Rightarrow> ''[Error: '' @ ec_message e @ '']'')"

subsection \<open>Templates\<close>

definition fence_run :: "nat \<times> nat \<Rightarrow> char \<Rightarrow> nat \<times> nat" where
  "fence_run mr c = (case mr of (longest, run) \<Rightarrow>
     if c = CHR 0x60 then (max longest (run + 1), run + 1) else (longest, 0))"

definition trim_end_newlines :: "string \<Rightarrow> string" where
  "trim_end_newlines s = rev (dropWhile (\<lambda>c. c = NL) (rev s))"

definition code_fence :: "string \<Rightarrow> string" where
  "code_fence code =
     (let longest_run = fst (foldl fence_run (0, 0) code);
          fence = replicate (max (longest_run + 1) 3) (CHR 0x60) in
      fence @ [NL] @ trim_end_newlines code @ [NL] @ fence)"

definition render :: "summary_env \<Rightarrow> string \<Rightarrow> json \<Rightarrow> anyhow + string" where
  "render se template ctx =
     (case sx_jinja se template ctx of Inl e \<Rightarrow> Inl e | Inr rendered \<Rightarrow> Inr (trim rendered))"

subsection \<open>Structured summaries\<close>

record file_activity =
  fa_path :: string
  fa_summary :: string
  fa_key_code :: "string option"

record structured_summary =
  ss_user_intent :: "string list"
  ss_technical_concepts :: "string list"
  ss_files :: "file_activity list"
  ss_errors_and_fixes :: "string list"
  ss_problem_solving :: "string list"
  ss_user_messages :: "string list"
  ss_pending_tasks :: "string list"
  ss_current_work :: "string option"
  ss_next_step :: "string option"
  ss_extra :: json_object

function stringify_lenient :: "(json \<Rightarrow> string) \<Rightarrow> json \<Rightarrow> string" where
  "stringify_lenient sv (JString s) = s"
| "stringify_lenient sv JNull = []"
| "stringify_lenient sv (JObject kvs) =
     join ''; '' (map (\<lambda>kv. fst kv @ '': '' @ stringify_lenient sv (snd kv)) kvs)"
| "stringify_lenient sv (JArray items) = join ''; '' (map (stringify_lenient sv) items)"
| "stringify_lenient sv (JBool b) = sv (JBool b)"
| "stringify_lenient sv (JNumber n) = sv (JNumber n)"
  by pat_completeness auto
termination
proof (relation "measure (\<lambda>(sv, v). size v)")
  fix sv :: "json \<Rightarrow> string" and kvs :: json_object and kv
  assume kv: "kv \<in> set kvs"
  have "size (snd kv) \<le> size_prod (\<lambda>x. 0) size kv" by (cases kv) simp
  with kv have "size (snd kv) \<le> size_list (size_prod (\<lambda>x. 0) size) kvs"
    by (metis size_list_estimation')
  then show "((sv, snd kv), sv, JObject kvs) \<in> measure (\<lambda>(sv, v). size v)" by simp
next
  fix sv :: "json \<Rightarrow> string" and items :: "json list" and x
  assume "x \<in> set items"
  then have "size x \<le> size_list size items" by (simp add: size_list_estimation')
  then show "((sv, x), sv, JArray items) \<in> measure (\<lambda>(sv, v). size v)" by simp
qed simp

definition lenient_string_list :: "(json \<Rightarrow> string) \<Rightarrow> json \<Rightarrow> string list" where
  "lenient_string_list sv v =
     (case v of
        JArray items \<Rightarrow> map (stringify_lenient sv) items
      | JNull \<Rightarrow> []
      | other \<Rightarrow> [stringify_lenient sv other])"

definition lenient_string_opt :: "(json \<Rightarrow> string) \<Rightarrow> json \<Rightarrow> string option" where
  "lenient_string_opt sv v = (case v of JNull \<Rightarrow> None | other \<Rightarrow> Some (stringify_lenient sv other))"

definition file_activity_of :: "(json \<Rightarrow> string) \<Rightarrow> json_object \<Rightarrow> file_activity" where
  "file_activity_of sv kvs =
     \<lparr>fa_path = (case map_of kvs ''path'' of Some v \<Rightarrow> stringify_lenient sv v | None \<Rightarrow> []),
      fa_summary = (case map_of kvs ''summary'' of Some v \<Rightarrow> stringify_lenient sv v | None \<Rightarrow> []),
      fa_key_code = Option.bind (map_of kvs ''key_code'') (lenient_string_opt sv)\<rparr>"

definition lenient_file :: "(json \<Rightarrow> string) \<Rightarrow> json \<Rightarrow> file_activity option" where
  "lenient_file sv item =
     (case item of
        JObject kvs \<Rightarrow> Some (file_activity_of sv kvs)
      | other \<Rightarrow>
          (let path = stringify_lenient sv other in
           if trim path \<noteq> [] then Some \<lparr>fa_path = path, fa_summary = [], fa_key_code = None\<rparr> else None))"

definition lenient_file_list :: "(json \<Rightarrow> string) \<Rightarrow> json \<Rightarrow> file_activity list" where
  "lenient_file_list sv v =
     (case v of
        JArray items \<Rightarrow> filter_map (lenient_file sv) items
      | JNull \<Rightarrow> []
      | other \<Rightarrow> filter_map (lenient_file sv) [other])"

definition summary_fields :: "string list" where
  "summary_fields =
     [''user_intent'', ''technical_concepts'', ''files'', ''errors_and_fixes'', ''problem_solving'',
      ''user_messages'', ''pending_tasks'', ''current_work'', ''next_step'']"

definition summary_from_value :: "(json \<Rightarrow> string) \<Rightarrow> json \<Rightarrow> structured_summary option" where
  "summary_from_value sv v =
     (case v of
        JObject kvs \<Rightarrow>
          (let strings = (\<lambda>k. case map_of kvs k of Some x \<Rightarrow> lenient_string_list sv x | None \<Rightarrow> []) in
           Some \<lparr>ss_user_intent = strings ''user_intent'',
             ss_technical_concepts = strings ''technical_concepts'',
             ss_files = (case map_of kvs ''files'' of Some x \<Rightarrow> lenient_file_list sv x | None \<Rightarrow> []),
             ss_errors_and_fixes = strings ''errors_and_fixes'',
             ss_problem_solving = strings ''problem_solving'',
             ss_user_messages = strings ''user_messages'',
             ss_pending_tasks = strings ''pending_tasks'',
             ss_current_work = Option.bind (map_of kvs ''current_work'') (lenient_string_opt sv),
             ss_next_step = Option.bind (map_of kvs ''next_step'') (lenient_string_opt sv),
             ss_extra = filter (\<lambda>kv. fst kv \<notin> set summary_fields) kvs\<rparr>)
      | _ \<Rightarrow> None)"

definition blank :: "string \<Rightarrow> bool" where
  "blank s \<longleftrightarrow> trim s = []"

definition drop_blank :: "string option \<Rightarrow> string option" where
  "drop_blank v = (case v of Some s \<Rightarrow> if blank s then None else Some s | None \<Rightarrow> None)"

definition normalize :: "structured_summary \<Rightarrow> structured_summary" where
  "normalize s =
     (let keep = filter (\<lambda>x. \<not> blank x) in
      s\<lparr>ss_user_intent := keep (ss_user_intent s),
        ss_technical_concepts := keep (ss_technical_concepts s),
        ss_files := filter (\<lambda>f. \<not> blank (fa_path f) \<or> \<not> blank (fa_summary f) \<or> fa_key_code f \<noteq> None)
          (map (\<lambda>f. f\<lparr>fa_key_code := drop_blank (fa_key_code f)\<rparr>) (ss_files s)),
        ss_errors_and_fixes := keep (ss_errors_and_fixes s),
        ss_problem_solving := keep (ss_problem_solving s),
        ss_user_messages := keep (ss_user_messages s),
        ss_pending_tasks := keep (ss_pending_tasks s),
        ss_current_work := drop_blank (ss_current_work s),
        ss_next_step := drop_blank (ss_next_step s)\<rparr>)"

definition summary_is_empty :: "structured_summary \<Rightarrow> bool" where
  "summary_is_empty s \<longleftrightarrow>
     ss_user_intent s = [] \<and> ss_technical_concepts s = [] \<and> ss_files s = [] \<and> ss_errors_and_fixes s = []
     \<and> ss_problem_solving s = [] \<and> ss_user_messages s = [] \<and> ss_pending_tasks s = []
     \<and> ss_current_work s = None \<and> ss_next_step s = None"

definition json_of_string_opt :: "string option \<Rightarrow> json" where
  "json_of_string_opt v = (case v of Some s \<Rightarrow> JString s | None \<Rightarrow> JNull)"

definition summary_json :: "structured_summary \<Rightarrow> json" where
  "summary_json s =
     (let strings = (\<lambda>xs. JArray (map JString xs)) in
      JObject ([(''user_intent'', strings (ss_user_intent s)),
         (''technical_concepts'', strings (ss_technical_concepts s)),
         (''files'', JArray (map (\<lambda>f. JObject [(''path'', JString (fa_path f)), (''summary'', JString (fa_summary f)),
            (''key_code'', json_of_string_opt (fa_key_code f))]) (ss_files s))),
         (''errors_and_fixes'', strings (ss_errors_and_fixes s)),
         (''problem_solving'', strings (ss_problem_solving s)),
         (''user_messages'', strings (ss_user_messages s)),
         (''pending_tasks'', strings (ss_pending_tasks s)),
         (''current_work'', json_of_string_opt (ss_current_work s)),
         (''next_step'', json_of_string_opt (ss_next_step s))] @ ss_extra s))"

subsection \<open>Finding the document in the answer\<close>

fun object_end :: "nat \<Rightarrow> bool \<Rightarrow> bool \<Rightarrow> string \<Rightarrow> nat option" where
  "object_end depth in_string escaped [] = None"
| "object_end depth in_string escaped (c # s) =
     (if in_string then
        map_option Suc (object_end depth (\<not> (\<not> escaped \<and> c = QUOTE)) (\<not> escaped \<and> c = BACKSLASH) s)
      else if c = QUOTE then map_option Suc (object_end depth True escaped s)
      else if c = CHR ''{'' then map_option Suc (object_end (depth + 1) False escaped s)
      else if c = CHR ''}'' then
        (if depth - 1 = 0 then Some 0 else map_option Suc (object_end (depth - 1) False escaped s))
      else map_option Suc (object_end depth False escaped s))"

definition leading_object :: "string \<Rightarrow> string option" where
  "leading_object s =
     (let text = trim_start s in
      if \<not> starts_with text ''{'' then None
      else map_option (\<lambda>idx. take (Suc idx) text) (object_end 0 False False text))"

fun matches_from :: "string \<Rightarrow> nat \<Rightarrow> nat \<Rightarrow> string \<Rightarrow> nat list" where
  "matches_from p skip idx [] = []"
| "matches_from p skip idx (c # s) =
     (if skip > 0 then matches_from p (skip - 1) (Suc idx) s
      else if prefix p (c # s) then idx # matches_from p (length p - 1) (Suc idx) s
      else matches_from p 0 (Suc idx) s)"

definition match_indices :: "string \<Rightarrow> string \<Rightarrow> nat list" where
  "match_indices p s = matches_from p 0 0 s"

definition JSON_FENCE :: string where "JSON_FENCE = ''```json''"
definition TERMINATOR :: string where "TERMINATOR = ''</analysis>''"

definition fenced_json_blocks :: "string \<Rightarrow> string list" where
  "fenced_json_blocks text =
     filter_map (\<lambda>idx. leading_object (drop (idx + length JSON_FENCE) text)) (rev (match_indices JSON_FENCE text))"

definition option_list :: "'a option \<Rightarrow> 'a list" where
  "option_list v = (case v of Some x \<Rightarrow> [x] | None \<Rightarrow> [])"

definition cut_candidates :: "string \<Rightarrow> nat \<Rightarrow> string list" where
  "cut_candidates text pos =
     (let tail = drop pos text;
          later_terminators = length (match_indices TERMINATOR tail) in
      filter (\<lambda>c. length (match_indices TERMINATOR c) = later_terminators)
        (fenced_json_blocks tail @ option_list (leading_object tail)))"

definition json_candidates :: "string \<Rightarrow> string list" where
  "json_candidates text =
     (let found = map (\<lambda>idx. idx + length TERMINATOR) (match_indices TERMINATOR text);
          cuts = (if found = [] then [0] else found) in
      remdups_adj (concat (map (cut_candidates text) (rev cuts)) @ option_list (leading_object text)))"

definition candidate_summary :: "summary_env \<Rightarrow> string \<Rightarrow> structured_summary option" where
  "candidate_summary se c =
     Option.bind (safely_parse_json (sx_from_str se) c) (\<lambda>v.
     Option.bind (summary_from_value (sx_show_value se) v) (\<lambda>s.
       let s' = normalize s in if summary_is_empty s' then None else Some s'))"

definition parse_summary :: "summary_env \<Rightarrow> string \<Rightarrow> structured_summary option" where
  "parse_summary se response_text =
     first_opt (filter_map (candidate_summary se) (json_candidates response_text))"

subsection \<open>Summarizing\<close>

definition REMOVAL_PERCENTAGES :: "nat list" where
  "REMOVAL_PERCENTAGES = [0, 10, 20, 50, 100]"

definition SUMMARIZE_REQUEST_TEXT :: string where
  "SUMMARIZE_REQUEST_TEXT = ''Please summarize the conversation history provided in the system prompt.''"

definition tool_indices :: "message list \<Rightarrow> nat list" where
  "tool_indices ms = filter (\<lambda>i. is_tool_response (ms ! i)) [0..<length ms]"

definition index_to_remove :: "nat list \<Rightarrow> nat \<Rightarrow> nat option" where
  "index_to_remove idxs i =
     (let middle = length idxs div 2; offset = i div 2 in
      if i mod 2 = 0
      then (if middle > offset then Some (idxs ! (middle - offset - 1)) else None)
      else (if middle + offset < length idxs then Some (idxs ! (middle + offset)) else None))"

definition filter_tool_responses :: "message list \<Rightarrow> nat \<Rightarrow> message list" where
  "filter_tool_responses ms remove_percent =
     (if remove_percent = 0 then ms
      else
        let idxs = tool_indices ms in
        if idxs = [] then ms
        else
          let num_to_remove = max ((length idxs * remove_percent) div 100) 1;
              indices_to_remove = filter_map (index_to_remove idxs) [0..<num_to_remove] in
          map (\<lambda>i. ms ! i) (filter (\<lambda>i. i \<notin> set indices_to_remove) [0..<length ms]))"

definition apply_structured_summary :: "summary_env \<Rightarrow> string \<Rightarrow> message \<Rightarrow> message" where
  "apply_structured_summary se summary_template response =
     (case parse_summary se (as_concat_text response) of
        None \<Rightarrow> response
      | Some summary \<Rightarrow>
          (case render se summary_template (summary_json summary) of
             Inr rendered \<Rightarrow>
               if trim rendered \<noteq> [] then response\<lparr>m_content := [Text (text_content_new rendered)]\<rparr> else response
           | Inl _ \<Rightarrow> response))"

definition ensure_usage_tokens ::
    "summary_env \<Rightarrow> token_estimator \<Rightarrow> string \<Rightarrow> message list \<Rightarrow> message \<Rightarrow> provider_usage \<Rightarrow> provider_usage" where
  "ensure_usage_tokens se tk system_prompt request response pu =
     (let u = pu_usage pu;
          u1 = (if u_input_tokens u = None
                then u\<lparr>u_input_tokens := Some (of_nat (tk_count_chat tk system_prompt request))\<rparr> else u);
          u2 = (if u_output_tokens u1 = None
                then u1\<lparr>u_output_tokens := Some (of_nat (tk_count_text tk
                  (join '' '' (map (show_block se) (m_content response)))))\<rparr> else u1);
          u3 = (case (u_input_tokens u2, u_output_tokens u2) of
                  (Some i, Some out) \<Rightarrow> u2\<lparr>u_total_tokens := Some (i + out)\<rparr>
                | _ \<Rightarrow> u2) in
      pu\<lparr>pu_usage := u3\<rparr>)"

definition NO_RESPONSES_TO_REMOVE :: string where
  "NO_RESPONSES_TO_REMOVE = ''Failed to compact: the base prompt (system prompt, tool schemas, and conversation) ''
     @ ''exceeds the model'' @ [CHR 0x27] @ ''s effective context window, and there are no tool responses to remove. ''
     @ ''Use a model or configuration with a larger usable context, disable some extensions to reduce ''
     @ ''the tool-schema payload, or start a new session.''"

definition ALL_RESPONSES_REMOVED :: string where
  "ALL_RESPONSES_REMOVED =
     ''Failed to compact: context limit exceeded even after removing all tool responses''"

definition summary_prompt :: "summary_env \<Rightarrow> templates \<Rightarrow> message list \<Rightarrow> anyhow + string" where
  "summary_prompt se tp filtered =
     render se (tp_compaction tp)
       (JObject [(''messages'', JString (join [NL] (map (format_message_for_compacting se) filtered)))])"

fun summarize_attempts ::
    "summary_env \<Rightarrow> token_estimator option \<Rightarrow> templates \<Rightarrow> message list \<Rightarrow> message list \<Rightarrow> nat \<Rightarrow> nat list
       \<Rightarrow> ('x world_scheme, message \<times> provider_usage) io" where
  "summarize_attempts se est tp request ms attempt [] = io_err ''Unexpected: exhausted all attempts without returning''"
| "summarize_attempts se est tp request ms attempt (remove_percent # rest) =
     io_bind (io_of (summary_prompt se tp (filter_tool_responses ms remove_percent))) (\<lambda>system_prompt.
     io_bind (ask (\<lambda>n. sx_complete se n system_prompt request)) (\<lambda>answer.
       case answer of
         Inr (response, usage) \<Rightarrow>
           (let response' = response\<lparr>m_role := User\<rparr>;
                usage' = (case est of
                            Some tk \<Rightarrow> ensure_usage_tokens se tk system_prompt request response' usage
                          | None \<Rightarrow> usage) in
            io_ok (apply_structured_summary se (tp_summary tp) response', usage'))
       | Inl (ContextLengthError _) \<Rightarrow>
           if \<not> list_ex is_tool_response ms then io_err NO_RESPONSES_TO_REMOVE
           else if attempt < length REMOVAL_PERCENTAGES - 1
             then summarize_attempts se est tp request ms (Suc attempt) rest
           else io_err ALL_RESPONSES_REMOVED
       | Inl e \<Rightarrow> io_err (show_provider_error e)))"

definition summarize ::
    "'y env_scheme \<Rightarrow> summary_env \<Rightarrow> token_estimator option \<Rightarrow> templates \<Rightarrow> message list
       \<Rightarrow> ('x world_scheme, message \<times> provider_usage) io" where
  "summarize env se est tp ms =
     io_bind (now env) (\<lambda>t.
       summarize_attempts se est tp [with_text (e_text env) SUMMARIZE_REQUEST_TEXT (message_user t)] ms
         0 REMOVAL_PERCENTAGES)"

subsection \<open>A provider that compacts\<close>

text \<open>\<open>CompactingProvider\<close>: \<open>stream\<close> and \<open>complete\<close> of the wrapper are the same call to the inner provider,
  repeated once on the summary.\<close>

definition compacted_messages ::
    "'y env_scheme \<Rightarrow> summary_env \<Rightarrow> templates \<Rightarrow> message list \<Rightarrow> 'x world_scheme
       \<Rightarrow> (provider_error + message list) \<times> 'x world_scheme" where
  "compacted_messages env se tp ms w =
     (case summarize env se None tp ms w of
        (Inl e, w1) \<Rightarrow> (Inl (ExecutionError e), w1)
      | (Inr (m, _), w1) \<Rightarrow> (Inr [m], w1))"

definition with_compaction ::
    "'y env_scheme \<Rightarrow> summary_env \<Rightarrow> templates
       \<Rightarrow> (nat \<Rightarrow> message list \<Rightarrow> provider_error + 'a) \<Rightarrow> message list \<Rightarrow> 'x world_scheme
       \<Rightarrow> (provider_error + 'a) \<times> 'x world_scheme" where
  "with_compaction env se tp inner ms w =
     (let w1 = w\<lparr>w_tick := Suc (w_tick w)\<rparr> in
      case inner (w_tick w) ms of
        Inl (ContextLengthError _) \<Rightarrow>
          (case compacted_messages env se tp ms w1 of
             (Inl e, w2) \<Rightarrow> (Inl e, w2)
           | (Inr compacted, w2) \<Rightarrow> (inner (w_tick w2) compacted, w2\<lparr>w_tick := Suc (w_tick w2)\<rparr>))
      | other \<Rightarrow> (other, w1))"

subsection \<open>The grammar of a leading object\<close>

text \<open>What the extraction accepts: balanced braces outside of string literals.\<close>

inductive string_body :: "string \<Rightarrow> bool" where
  string_end: "string_body []"
| string_char: "c \<noteq> QUOTE \<Longrightarrow> c \<noteq> BACKSLASH \<Longrightarrow> string_body s \<Longrightarrow> string_body (c # s)"
| string_escape: "string_body s \<Longrightarrow> string_body (BACKSLASH # c # s)"

inductive object_items :: "string \<Rightarrow> bool" where
  items_end: "object_items []"
| items_char: "c \<notin> {QUOTE, CHR ''{'', CHR ''}''} \<Longrightarrow> object_items s \<Longrightarrow> object_items (c # s)"
| items_string: "string_body b \<Longrightarrow> object_items s \<Longrightarrow> object_items (QUOTE # b @ QUOTE # s)"
| items_object: "object_items b \<Longrightarrow> object_items s \<Longrightarrow> object_items (CHR ''{'' # b @ CHR ''}'' # s)"

definition object_text :: "string \<Rightarrow> bool" where
  "object_text t \<longleftrightarrow> (\<exists>b. object_items b \<and> t = CHR ''{'' # b @ [CHR ''}''])"

lemma object_end_string:
  "string_body b \<Longrightarrow> object_end d True False (b @ QUOTE # r) = map_option (\<lambda>n. n + length b + 1) (object_end d False False r)"
  by (induction rule: string_body.induct) (simp_all add: option.map_comp comp_def)

lemma object_end_items:
  "object_items s \<Longrightarrow> 0 < d \<Longrightarrow> object_end d False False (s @ r) = map_option (\<lambda>n. n + length s) (object_end d False False r)"
  by (induction arbitrary: d r rule: object_items.induct)
    (simp_all add: object_end_string option.map_comp comp_def option.map_ident ac_simps)

lemma object_end_object: "object_items b \<Longrightarrow> object_end 0 False False (CHR ''{'' # b @ CHR ''}'' # r) = Some (Suc (length b))"
  by (simp add: object_end_items)

text \<open>What closes so many open braces.\<close>

fun closes :: "nat \<Rightarrow> string \<Rightarrow> bool" where
  "closes 0 u \<longleftrightarrow> u = []"
| "closes (Suc d) u \<longleftrightarrow> (\<exists>b v. object_items b \<and> u = b @ CHR ''}'' # v \<and> closes d v)"

definition string_rest :: "bool \<Rightarrow> string \<Rightarrow> bool" where
  "string_rest escaped b \<longleftrightarrow> (if escaped then \<exists>c s. b = c # s \<and> string_body s else string_body b)"

lemma closes_before:
  assumes "closes d u" and "0 < d" and "\<And>b. object_items b \<Longrightarrow> object_items (x @ b)"
  shows "closes d (x @ u)"
  using assms by (cases d) (auto, metis append_assoc)

lemma string_rest_step:
  assumes "string_rest (\<not> escaped \<and> c = BACKSLASH) b" and "escaped \<or> c \<noteq> QUOTE"
  shows "string_rest escaped (c # b)"
  using assms by (auto simp: string_rest_def intro: string_body.intros split: if_splits)

lemma object_end_closes:
  assumes "object_end d ins esc s = Some n" and "0 < d" and "\<not> ins \<longrightarrow> \<not> esc"
  shows "n < length s \<and> (if ins then \<exists>b v. take (Suc n) s = b @ QUOTE # v \<and> string_rest esc b \<and> closes d v
    else closes d (take (Suc n) s))"
  using assms
proof (induction s arbitrary: d ins esc n)
  case (Cons c s)
  show ?case
  proof (cases ins)
    case True
    from Cons.prems(1) True obtain m where m: "n = Suc m"
      "object_end d (\<not> (\<not> esc \<and> c = QUOTE)) (\<not> esc \<and> c = BACKSLASH) s = Some m" by auto
    show ?thesis
    proof (cases "\<not> esc \<and> c = QUOTE")
      case q: True
      with Cons.IH [OF m(2) Cons.prems(2)] have "m < length s" "closes d (take (Suc m) s)" by auto
      moreover have "string_rest esc []" using q by (simp add: string_rest_def string_end)
      ultimately show ?thesis using True m(1) q by fastforce
    next
      case q: False
      then have "m < length s \<and> (\<exists>b v. take (Suc m) s = b @ QUOTE # v
          \<and> string_rest (\<not> esc \<and> c = BACKSLASH) b \<and> closes d v)"
        using Cons.IH [OF m(2) Cons.prems(2)] by (simp split: if_splits)
      then obtain b v where "m < length s" "take (Suc m) s = b @ QUOTE # v"
        "string_rest (\<not> esc \<and> c = BACKSLASH) b" "closes d v" by blast
      moreover have "string_rest esc (c # b)" using string_rest_step calculation(3) q by blast
      ultimately show ?thesis using True m(1) by (simp, metis append_Cons)
    qed
  next
    case False
    with Cons.prems have esc: "\<not> esc" by simp
    consider "c = QUOTE" | "c = CHR ''{''" | "c = CHR ''}''" | "c \<notin> {QUOTE, CHR ''{'', CHR ''}''}" by auto
    then show ?thesis
    proof cases
      case 1
      with Cons.prems(1) False esc obtain m where m: "n = Suc m" "object_end d True False s = Some m" by auto
      from Cons.IH [OF m(2) Cons.prems(2)] obtain b v where
        b: "m < length s" "take (Suc m) s = b @ QUOTE # v" "string_body b" "closes d v" by (auto simp: string_rest_def)
      have "closes d ((QUOTE # b @ [QUOTE]) @ v)"
        by (rule closes_before [OF b(4) Cons.prems(2)]) (simp add: items_string b(3))
      then show ?thesis using 1 False m(1) b by simp
    next
      case 2
      with Cons.prems(1) False esc obtain m where m: "n = Suc m" "object_end (Suc d) False False s = Some m" by auto
      from Cons.IH [OF m(2)] obtain b v where
        b: "m < length s" "take (Suc m) s = b @ CHR ''}'' # v" "object_items b" "closes d v" by auto
      have "closes d ((CHR ''{'' # b @ [CHR ''}'']) @ v)"
        by (rule closes_before [OF b(4) Cons.prems(2)]) (simp add: items_object b(3))
      then show ?thesis using 2 False m(1) b by simp
    next
      case 3
      show ?thesis
      proof (cases "d - 1 = 0")
        case True
        with Cons.prems(1,2) 3 False have "n = 0" "d = Suc 0" by auto
        then show ?thesis using 3 False by (auto intro: items_end)
      next
        case more: False
        with Cons.prems(1) 3 False esc obtain m where m: "n = Suc m" "object_end (d - 1) False False s = Some m" by auto
        from Cons.IH [OF m(2)] more have "m < length s" "closes (d - 1) (take (Suc m) s)" by auto
        moreover obtain d' where "d = Suc d'" using Cons.prems(2) by (cases d) auto
        ultimately show ?thesis using 3 False m(1) items_end by fastforce
      qed
    next
      case 4
      with Cons.prems(1) False esc obtain m where m: "n = Suc m" "object_end d False False s = Some m" by auto
      from Cons.IH [OF m(2) Cons.prems(2)] have b: "m < length s" "closes d (take (Suc m) s)" by auto
      have "closes d ([c] @ take (Suc m) s)"
        by (rule closes_before [OF b(2) Cons.prems(2)]) (use 4 in \<open>auto intro: items_char\<close>)
      then show ?thesis using False m(1) b by simp
    qed
  qed
qed simp

lemma leading_object_iff:
  "leading_object s = Some t \<longleftrightarrow> object_text t \<and> (\<exists>rest. trim_start s = t @ rest)"
proof
  assume t: "leading_object s = Some t"
  then obtain r n where r: "trim_start s = CHR ''{'' # r" "object_end 0 False False (trim_start s) = Some n"
    "t = take (Suc n) (trim_start s)"
    by (auto simp: leading_object_def starts_with_def Let_def prefix_def split: if_splits)
  then obtain m where m: "n = Suc m" "object_end 1 False False r = Some m" by auto
  from object_end_closes [OF m(2)] obtain b where "object_items b" "take (Suc m) r = b @ [CHR ''}'']" by auto
  then have "object_text t" using r m(1) by (auto simp: object_text_def)
  then show "object_text t \<and> (\<exists>rest. trim_start s = t @ rest)"
    using r(3) append_take_drop_id by metis
next
  assume "object_text t \<and> (\<exists>rest. trim_start s = t @ rest)"
  then obtain b rest where b: "object_items b" "t = CHR ''{'' # b @ [CHR ''}'']" "trim_start s = t @ rest"
    by (auto simp: object_text_def)
  then show "leading_object s = Some t"
    using object_end_object [OF b(1), of rest] by (simp add: leading_object_def starts_with_def)
qed

subsection \<open>Where a document may be taken from\<close>

text \<open>A pattern whose first character occurs nowhere else in it never overlaps itself.\<close>

definition unbordered :: "string \<Rightarrow> bool" where
  "unbordered p \<longleftrightarrow> p \<noteq> [] \<and> hd p \<notin> set (tl p)"

lemma matches_from_skip:
  assumes "unbordered p" and "prefix q s" and "set q \<subseteq> set (tl p)"
  shows "matches_from p (length q) idx s = matches_from p 0 idx s"
  using assms(2,3)
proof (induction q arbitrary: idx s)
  case (Cons c q)
  then obtain s' where s: "s = c # s'" "prefix q s'" by (cases s) auto
  have "\<not> prefix p s" using assms(1) Cons.prems(2) s(1) by (cases p) (auto simp: unbordered_def)
  then show ?case using Cons s by simp
qed simp

lemma matches_from_Cons:
  assumes "unbordered p"
  shows "matches_from p 0 idx (c # s) = (if prefix p (c # s) then [idx] else []) @ matches_from p 0 (Suc idx) s"
proof (cases "prefix p (c # s)")
  case True
  then have "prefix (tl p) s" using assms by (cases p) (auto simp: unbordered_def)
  then show ?thesis using matches_from_skip [OF assms, of "tl p" s "Suc idx"] True by simp
qed simp

definition occurrences :: "string \<Rightarrow> string \<Rightarrow> nat" where
  "occurrences p s = length (match_indices p s)"

lemma occurrences_simps:
  assumes "unbordered p"
  shows "occurrences p [] = 0" "occurrences p (c # s) = (if prefix p (c # s) then 1 else 0) + occurrences p s"
proof -
  have "length (matches_from p 0 idx s) = length (matches_from p 0 0 s)" for idx
  proof (induction s arbitrary: idx)
    case (Cons a s)
    show ?case
      using Cons.IH [of "Suc idx"] Cons.IH [of "Suc 0"] by (simp only: matches_from_Cons [OF assms]) auto
  qed simp
  then show "occurrences p (c # s) = (if prefix p (c # s) then 1 else 0) + occurrences p s"
    by (simp add: occurrences_def match_indices_def matches_from_Cons [OF assms] del: matches_from.simps(2))
qed (simp add: occurrences_def match_indices_def)

lemma occurrences_append: "unbordered p \<Longrightarrow> occurrences p x + occurrences p y \<le> occurrences p (x @ y)"
proof (induction x)
  case (Cons c x)
  moreover have "prefix p (c # x) \<Longrightarrow> prefix p (c # x @ y)" by (metis append_Cons prefix_append)
  ultimately show ?case by (auto simp: occurrences_simps)
qed (simp add: occurrences_simps)

lemma occurrences_sublist: "unbordered p \<Longrightarrow> sublist p s \<Longrightarrow> occurrences p s > 0"
  by (induction s) (auto simp: occurrences_simps sublist_Cons_right unbordered_def)

lemma terminator_unbordered: "unbordered TERMINATOR"
  by (simp add: unbordered_def TERMINATOR_def)

lemma leading_object_part: "leading_object s = Some c \<Longrightarrow> \<exists>a b. s = a @ c @ b"
  using suffix_trim_start [of s] unfolding leading_object_iff suffix_def by metis

lemma cut_candidate:
  assumes "c \<in> set (cut_candidates text pos)"
  shows "object_text c \<and> (\<exists>a b. text = a @ c @ b \<and> \<not> sublist TERMINATOR b)"
proof -
  let ?tail = "drop pos text"
  from assms have count: "occurrences TERMINATOR c = occurrences TERMINATOR ?tail"
    and from_marker: "\<exists>n. leading_object (drop n ?tail) = Some c"
    by (auto simp: cut_candidates_def Let_def occurrences_def fenced_json_blocks_def option_list_def set_filter_map
        split: option.splits intro: exI [of _ 0])
  then obtain n a b where n: "leading_object (drop n ?tail) = Some c" "drop n ?tail = a @ c @ b"
    using leading_object_part by blast
  then have tail: "?tail = (take n ?tail @ a) @ c @ b" by (metis append.assoc append_take_drop_id)
  have "occurrences TERMINATOR c + occurrences TERMINATOR b \<le> occurrences TERMINATOR (c @ b)"
    "occurrences TERMINATOR (take n ?tail @ a) + occurrences TERMINATOR (c @ b) \<le> occurrences TERMINATOR ?tail"
    using occurrences_append [OF terminator_unbordered] tail by metis+
  then have "occurrences TERMINATOR b = 0" using count by simp
  then have "\<not> sublist TERMINATOR b" using occurrences_sublist [OF terminator_unbordered] by fastforce
  moreover have "text = (take pos text @ take n ?tail @ a) @ c @ b" using tail by (metis append.assoc append_take_drop_id)
  ultimately show ?thesis using n(1) leading_object_iff by metis
qed

text \<open>Claim C24 (summary_document_located): the document that replaces the answer of the summarizing model is a
  text with balanced braces, as the grammar of objects has it, and it either opens the whole answer,
  or no terminator of the analysis follows it: an object quoted in the discarded scratchpad, which
  the real terminator follows, is never taken for the summary.\<close>

theorem summary_document_located:
  assumes "parse_summary se text = Some summary"
  shows "\<exists>c. candidate_summary se c = Some summary \<and> object_text c
    \<and> ((\<exists>rest. trim_start text = c @ rest) \<or> (\<exists>a b. text = a @ c @ b \<and> \<not> sublist TERMINATOR b))"
proof -
  from assms have "summary \<in> set (filter_map (candidate_summary se) (json_candidates text))"
    by (auto simp: parse_summary_def first_opt_def split: list.splits)
  then obtain c where c: "c \<in> set (json_candidates text)" "candidate_summary se c = Some summary"
    by (auto simp: set_filter_map)
  from c(1) consider pos where "c \<in> set (cut_candidates text pos)" | "leading_object text = Some c"
    by (auto simp: json_candidates_def Let_def option_list_def split: if_splits option.splits)
  then show ?thesis
  proof cases
    case 1
    then show ?thesis using cut_candidate c(2) by blast
  next
    case 2
    then show ?thesis using c(2) by (auto simp: leading_object_iff)
  qed
qed

definition sample_summary_env :: summary_env where
  "sample_summary_env =
     \<lparr>sx_from_str = (\<lambda>s. if s = ''{}'' then Some (JObject [(''next_step'', JString ''go'')]) else None),
      sx_to_string = (\<lambda>_. None), sx_to_string_pretty = (\<lambda>_. None), sx_show_value = (\<lambda>_. []),
      sx_show_error = ed_message, sx_jinja = (\<lambda>_ _. Inr ''prompt''),
      sx_complete = (\<lambda>_ _ _. Inl (ContextLengthError ''full''))\<rparr>"

definition sample_summary :: structured_summary where
  "sample_summary = \<lparr>ss_user_intent = [], ss_technical_concepts = [], ss_files = [], ss_errors_and_fixes = [],
     ss_problem_solving = [], ss_user_messages = [], ss_pending_tasks = [], ss_current_work = None,
     ss_next_step = Some ''go'', ss_extra = []\<rparr>"

theorem summary_document_located_witness:
  "\<exists>c. candidate_summary sample_summary_env c = Some sample_summary \<and> object_text c
    \<and> ((\<exists>rest. trim_start ''x</analysis> {}'' = c @ rest)
       \<or> (\<exists>a b. ''x</analysis> {}'' = a @ c @ b \<and> \<not> sublist TERMINATOR b))"
proof (rule summary_document_located)
  show "parse_summary sample_summary_env ''x</analysis> {}'' = Some sample_summary" by code_simp
qed

subsection \<open>Dropping tool responses\<close>

lemma tool_indices_props:
  "distinct (tool_indices ms)" "set (tool_indices ms) = {i. i < length ms \<and> is_tool_response (ms ! i)}"
  by (auto simp: tool_indices_def)

lemma removed_from_tools: "index_to_remove idxs i = Some j \<Longrightarrow> j \<in> set idxs"
  by (auto simp: index_to_remove_def Let_def split: if_splits intro!: nth_mem)

lemma filter_by_index: "map (\<lambda>i. ms ! i) (filter (\<lambda>i. P (ms ! i)) [0..<length ms]) = filter P ms"
proof -
  have "filter P (map (\<lambda>i. ms ! i) [0..<length ms]) = map (\<lambda>i. ms ! i) (filter (\<lambda>i. P (ms ! i)) [0..<length ms])"
    by (simp add: filter_map comp_def)
  then show ?thesis by (simp add: map_nth)
qed

text \<open>With all of them asked for, the positions removed are the first half and as many after it.\<close>

lemma removed_positions:
  assumes "0 < length idxs"
  shows "set (filter_map (index_to_remove idxs) [0..<length idxs]) = (\<lambda>j. idxs ! j) ` {..<2 * (length idxs div 2)}"
proof
  show "set (filter_map (index_to_remove idxs) [0..<length idxs]) \<subseteq> (\<lambda>j. idxs ! j) ` {..<2 * (length idxs div 2)}"
  proof (clarsimp simp: set_filter_map)
    fix i x assume i: "i < length idxs" "index_to_remove idxs i = Some x"
    have "i mod 2 \<noteq> 0 \<longrightarrow> i div 2 < length idxs div 2" using i(1) by presburger
    then have "\<exists>j < 2 * (length idxs div 2). x = idxs ! j"
      using i(2) by (cases "i mod 2 = 0") (force simp: index_to_remove_def Let_def split: if_splits)+
    then show "x \<in> (\<lambda>j. idxs ! j) ` {..<2 * (length idxs div 2)}" by auto
  qed
  show "(\<lambda>j. idxs ! j) ` {..<2 * (length idxs div 2)} \<subseteq> set (filter_map (index_to_remove idxs) [0..<length idxs])"
  proof clarify
    fix j assume j: "j < 2 * (length idxs div 2)"
    let ?m = "length idxs div 2"
    have "\<exists>i<length idxs. index_to_remove idxs i = Some (idxs ! j)"
    proof (cases "j < ?m")
      case True
      then have "2 * (?m - j - 1) < length idxs" by linarith
      moreover have "index_to_remove idxs (2 * (?m - j - 1)) = Some (idxs ! j)"
        using True by (simp add: index_to_remove_def Let_def)
      ultimately show ?thesis by blast
    next
      case False
      with j have "2 * (j - ?m) + 1 < length idxs" by linarith
      moreover have "index_to_remove idxs (2 * (j - ?m) + 1) = Some (idxs ! j)"
        using False j by (simp add: index_to_remove_def Let_def)
      ultimately show ?thesis by blast
    qed
    then show "idxs ! j \<in> set (filter_map (index_to_remove idxs) [0..<length idxs])" by (auto simp: set_filter_map)
  qed
qed

lemma kept_by_index:
  fixes R :: "nat set"
  shows "filter P (map (\<lambda>i. ms ! i) (filter (\<lambda>i. i \<notin> R) [0..<length ms]))
    = map (\<lambda>i. ms ! i) (filter (\<lambda>i. i \<notin> R \<and> P (ms ! i)) [0..<length ms])"
  by (simp add: filter_map comp_def conj_commute)

lemma other_messages_kept:
  "filter (\<lambda>m. \<not> is_tool_response m) (filter_tool_responses ms p) = filter (\<lambda>m. \<not> is_tool_response m) ms"
proof -
  have others: "filter (\<lambda>i. i \<notin> R \<and> \<not> is_tool_response (ms ! i)) [0..<length ms]
      = filter (\<lambda>i. \<not> is_tool_response (ms ! i)) [0..<length ms]"
    if "R \<subseteq> set (tool_indices ms)" for R
    using that by (intro filter_cong) (auto simp: tool_indices_props)
  have "set (filter_map (index_to_remove (tool_indices ms)) is) \<subseteq> set (tool_indices ms)" for "is"
    using removed_from_tools by (auto simp: set_filter_map)
  from others [OF this] show ?thesis
    by (simp add: filter_tool_responses_def Let_def kept_by_index filter_by_index [where P = "\<lambda>m. \<not> is_tool_response m"])
qed

lemma responses_left:
  "filter is_tool_response (filter_tool_responses ms 100)
     = (let rs = filter is_tool_response ms in if even (length rs) then [] else [last rs])"
proof -
  let ?idxs = "tool_indices ms" let ?n = "length ?idxs"
  have rs: "filter is_tool_response ms = map (\<lambda>i. ms ! i) ?idxs"
    by (simp add: tool_indices_def filter_by_index [where P = is_tool_response])
  show ?thesis
  proof (cases "?idxs = []")
    case True
    then show ?thesis using rs by (simp add: filter_tool_responses_def)
  next
    case False
    let ?R = "(\<lambda>j. ?idxs ! j) ` {..<2 * (?n div 2)}"
    have "filter (\<lambda>i. i \<notin> ?R \<and> is_tool_response (ms ! i)) [0..<length ms] = filter (\<lambda>i. i \<notin> ?R) ?idxs"
      by (simp add: tool_indices_def conj_commute)
    also have "\<dots> = map (\<lambda>j. ?idxs ! j) (filter (\<lambda>j. ?idxs ! j \<notin> ?R) [0..<?n])"
      using filter_by_index [where ms = ?idxs and P = "\<lambda>i. i \<notin> ?R"] by simp
    also have "filter (\<lambda>j. ?idxs ! j \<notin> ?R) [0..<?n] = filter (\<lambda>j. \<not> j < 2 * (?n div 2)) [0..<?n]"
      using tool_indices_props(1) [of ms] by (intro filter_cong) (auto simp: nth_eq_iff_index_eq)
    also have "\<dots> = (if even ?n then [] else [?n - 1])"
    proof (cases "even ?n")
      case False
      then have "?n = Suc (?n - 1)" using odd_pos by fastforce
      then have "[0..<?n] = [0..<?n - 1] @ [?n - 1]" using upt_Suc_append [of 0 "?n - 1"] by simp
      moreover have "2 * (?n div 2) = ?n - 1" using False by (simp add: odd_two_times_div_two_nat)
      ultimately show ?thesis using False by (simp add: filter_empty_conv)
    qed (simp add: filter_empty_conv)
    finally have "filter (\<lambda>i. i \<notin> ?R \<and> is_tool_response (ms ! i)) [0..<length ms]
      = map (\<lambda>j. ?idxs ! j) (if even ?n then [] else [?n - 1])" .
    moreover have "filter is_tool_response (filter_tool_responses ms 100)
      = map (\<lambda>i. ms ! i) (filter (\<lambda>i. i \<notin> ?R \<and> is_tool_response (ms ! i)) [0..<length ms])"
      using False removed_positions [of ?idxs]
      by (simp add: filter_tool_responses_def Let_def kept_by_index max_absorb1 Suc_leI)
    ultimately have "filter is_tool_response (filter_tool_responses ms 100)
      = (if even ?n then [] else [ms ! (?idxs ! (?n - 1))])" by simp
    moreover have "last (map (\<lambda>i. ms ! i) ?idxs) = ms ! (?idxs ! (?n - 1))"
      using False by (simp add: last_map last_conv_nth)
    ultimately show ?thesis by (simp only: rs Let_def length_map)
  qed
qed

text \<open>Whatever share of the tool responses is dropped from an oversized
  history, every other message is kept in order. Asked to drop all of them, the code drops all but
  the last when their number is odd, so a single oversized response is never dropped, although the
  error that follows says that all were removed.\<close>

lemma responses_dropped:
  "filter (\<lambda>m. \<not> is_tool_response m) (filter_tool_responses ms p) = filter (\<lambda>m. \<not> is_tool_response m) ms
   \<and> filter is_tool_response (filter_tool_responses ms 100)
     = (let rs = filter is_tool_response ms in if even (length rs) then [] else [last rs])"
  using other_messages_kept responses_left by blast

subsection \<open>How often the model is asked\<close>

lemma summarize_attempts_calls:
  assumes "summarize_attempts se est tp request ms attempt ps w = (r, w')"
  shows "w_tick w' \<le> w_tick w + length ps \<and> w_events w' = w_events w
    \<and> (\<forall>m u. r = Inr (m, u) \<longrightarrow> m_role m = User)"
  using assms
proof (induction ps arbitrary: attempt w)
  case (Cons p ps)
  have role: "m_role (apply_structured_summary se t (m\<lparr>m_role := User\<rparr>)) = User" for t m
    by (simp add: apply_structured_summary_def split: option.split sum.split)
  show ?case
  proof (cases "summary_prompt se tp (filter_tool_responses ms p)")
    case (Inl e)
    then show ?thesis using Cons.prems by (auto simp: io_simps)
  next
    case (Inr prompt)
    let ?w = "w\<lparr>w_tick := Suc (w_tick w)\<rparr>"
    show ?thesis
    proof (cases "sx_complete se (w_tick w) prompt request")
      case (Inr a)
      then show ?thesis
        using Cons.prems \<open>summary_prompt se tp _ = _\<close> role by (cases a) (auto simp: io_simps ask_def Let_def)
    next
      case (Inl e)
      have IH: "w_tick w' \<le> w_tick ?w + length ps \<and> w_events w' = w_events ?w
          \<and> (\<forall>m u. r = Inr (m, u) \<longrightarrow> m_role m = User)"
        if "summarize_attempts se est tp request ms (Suc attempt) ps ?w = (r, w')"
        using Cons.IH [OF that] .
      show ?thesis
        using Cons.prems Inl Inr by (cases e) (auto simp: io_simps ask_def split: if_splits dest!: IH)
    qed
  qed
qed (auto simp: io_simps)

text \<open>The model is asked at most five times, whatever it answers, and the summary is a message of the user.\<close>

lemma summarize_calls:
  assumes "summarize env se est tp ms w = (r, w')"
  shows "w_tick w' \<le> w_tick w + 6 \<and> w_events w' = w_events w \<and> (\<forall>m u. r = Inr (m, u) \<longrightarrow> m_role m = User)"
proof -
  let ?w = "w\<lparr>w_tick := Suc (w_tick w)\<rparr>"
  from assms have "summarize_attempts se est tp [with_text (e_text env) SUMMARIZE_REQUEST_TEXT (message_user (e_now env (w_tick w)))]
      ms 0 REMOVAL_PERCENTAGES ?w = (r, w')"
    by (simp add: summarize_def io_bind_def now_def ask_def)
  from summarize_attempts_calls [OF this] show ?thesis by (simp add: REMOVAL_PERCENTAGES_def)
qed

end
