(* ===== verification/Recipe_Operation.thy ===== *)
theory Recipe_Operation
  imports Context_Summary Agent_Tool_Ops
begin

section \<open>Recipes with a structured result\<close>

text \<open>
  \<open>ops_recipe.rs\<close> and \<open>final_output_tool.rs\<close> of \<open>crates/goose/src/agents\<close>: a recipe that declares a schema
  for its result makes the model call a tool with it, which validates the arguments and hands
  them to the user. The schema validator, the serializer and the lookup of a recipe for a command
  are fields of \<open>recipe_env\<close> (serializing a value cannot fail); the response of a recipe is the object of its optional schema.
\<close>

record recipe_env =
  rx_validator :: "json \<Rightarrow> anyhow + (json \<Rightarrow> string list)"
  rx_to_string :: "json \<Rightarrow> string"
  rx_to_string_pretty :: "json \<Rightarrow> string"
  rx_supports_builtin_tools :: bool
  rx_provider_name :: string
  rx_resolve_command :: "string \<Rightarrow> string \<Rightarrow> string + (recipe \<times> string) option"

definition FINAL_OUTPUT_SUCCESS_MESSAGE :: string where
  "FINAL_OUTPUT_SUCCESS_MESSAGE = ''Final output successfully collected.''"

definition FINAL_OUTPUT_CONTINUATION_MESSAGE :: string where
  "FINAL_OUTPUT_CONTINUATION_MESSAGE =
     ''You MUST call the `final_output` tool NOW with the final output for the user.''"

definition structured_output_unsupported_message :: "string \<Rightarrow> string" where
  "structured_output_unsupported_message name =
     ''This recipe declares a structured `response`, but provider `'' @ name @ ''` can'' @ [CHR 0x27] @ ''t ''
     @ ''support it because it never receives goose'' @ [CHR 0x27] @ ''s built-in `final_output` tool, so the ''
     @ ''model can never satisfy this recipe. Remove the entire `response` block from the recipe ''
     @ ''or run it with a different provider.''"

subsection \<open>The tool\<close>

definition response_schema :: "json \<Rightarrow> json option" where
  "response_schema response = json_get ''json_schema'' response"

text \<open>A tool is its schema: \<open>try_new\<close> accepts no response without one.\<close>

definition final_output_try_new :: "recipe_env \<Rightarrow> json \<Rightarrow> string + json" where
  "final_output_try_new rx response =
     (case response_schema response of
        None \<Rightarrow> Inl ''json_schema is required''
      | Some schema \<Rightarrow>
          (case schema of
             JObject kvs \<Rightarrow>
               if kvs = [] then Inl ''empty json_schema is not allowed''
               else (case rx_validator rx schema of Inl e \<Rightarrow> Inl e | Inr _ \<Rightarrow> Inr schema)
           | _ \<Rightarrow> Inl ''json_schema must be an object''))"

definition final_output_tool :: tool where
  "final_output_tool = \<lparr>tool_name = FINAL_OUTPUT_TOOL_NAME, tool_read_only_hint = Some (Some False)\<rparr>"

definition validate_json_output :: "recipe_env \<Rightarrow> json \<Rightarrow> json \<Rightarrow> string + json" where
  "validate_json_output rx schema v =
     (case rx_validator rx schema of
        Inl e \<Rightarrow> Inl (''Internal error: Failed to compile schema: '' @ e)
      | Inr errors \<Rightarrow>
          if errors v = [] then Inr v
          else Inl (''Validation failed:'' @ [NL] @ join [NL] (errors v) @ [NL, NL] @ ''Expected format:'' @ [NL]
            @ rx_to_string_pretty rx schema @ [NL, NL]
            @ ''Please correct your output to match the expected JSON schema and try again.''))"

definition execute_final_output ::
    "recipe_env \<Rightarrow> json \<Rightarrow> call_tool_request_params \<Rightarrow> call_tool_result tool_result" where
  "execute_final_output rx schema call =
     (if ctp_name call = FINAL_OUTPUT_TOOL_NAME then
        (case validate_json_output rx schema (arguments_json (ctp_arguments call)) of
           Inr _ \<Rightarrow> Inr (call_tool_success [content_text FINAL_OUTPUT_SUCCESS_MESSAGE])
         | Inl e \<Rightarrow> Inl \<lparr>ed_code = - 32602, ed_message = e, ed_data = None\<rparr>)
      else Inl \<lparr>ed_code = - 32600, ed_message = ''Unknown tool: '' @ ctp_name call, ed_data = None\<rparr>)"

subsection \<open>Reading the turn\<close>

definition final_output_of :: "recipe_env \<Rightarrow> session \<Rightarrow> anyhow + json option" where
  "final_output_of rx s =
     (case Option.bind (ses_recipe s) rp_response of
        None \<Rightarrow> Inr None
      | Some response \<Rightarrow>
          (case final_output_try_new rx response of Inl e \<Rightarrow> Inl e | Inr schema \<Rightarrow> Inr (Some schema)))"

definition assistant_block_bounds :: "message list \<Rightarrow> nat \<Rightarrow> nat \<times> nat" where
  "assistant_block_bounds ms i =
     (i - length (takeWhile (\<lambda>m. m_role m = Assistant) (rev (take i ms))),
      Suc i + length (takeWhile (\<lambda>m. m_role m = Assistant) (drop (Suc i) ms)))"

definition block_contents :: "message list \<Rightarrow> nat \<Rightarrow> message_content_block list" where
  "block_contents ms i =
     (case assistant_block_bounds ms i of (start, stop) \<Rightarrow>
        concat (map m_content (take (stop - start) (drop start ms))))"

definition calls_final_output :: "tool_request \<Rightarrow> bool" where
  "calls_final_output r = (case tr_tool_call r of Inr call \<Rightarrow> ctp_name call = FINAL_OUTPUT_TOOL_NAME | Inl _ \<Rightarrow> False)"

fun position :: "('a \<Rightarrow> bool) \<Rightarrow> 'a list \<Rightarrow> nat option" where
  "position P [] = None"
| "position P (x # xs) = (if P x then Some 0 else map_option Suc (position P xs))"

definition has_unanswered_siblings :: "message list \<Rightarrow> string \<Rightarrow> bool" where
  "has_unanswered_siblings ms rid =
     (let answered = set (filter_map response_id (concat (map m_content ms))) in
      case position (\<lambda>m. list_ex (\<lambda>b. request_id b = Some rid) (m_content m)) ms of
        None \<Rightarrow> False
      | Some i \<Rightarrow>
          list_ex (\<lambda>b. case b of
              ToolRequest r \<Rightarrow> tr_id r \<noteq> rid \<and> tr_id r \<notin> answered \<and> \<not> calls_final_output r
            | _ \<Rightarrow> False) (block_contents ms i))"

definition successful_response :: "message_content_block \<Rightarrow> string option" where
  "successful_response b =
     (case b of
        ToolResponse res \<Rightarrow>
          (case ts_tool_result res of
             Inr result \<Rightarrow>
               if ctr_is_error result \<noteq> Some True
                 \<and> list_ex (\<lambda>c. map_option tc_text (content_as_text c) = Some FINAL_OUTPUT_SUCCESS_MESSAGE)
                     (ctr_content result)
               then Some (ts_id res) else None
           | Inl _ \<Rightarrow> None)
      | _ \<Rightarrow> None)"

definition requested_output :: "recipe_env \<Rightarrow> string set \<Rightarrow> message_content_block \<Rightarrow> string option" where
  "requested_output rx successful b =
     (case b of
        ToolRequest r \<Rightarrow>
          if tr_id r \<in> successful
          then (case tr_tool_call r of
                  Inr call \<Rightarrow>
                    if ctp_name call = FINAL_OUTPUT_TOOL_NAME
                    then Some (rx_to_string rx (JObject (case ctp_arguments call of Some kvs \<Rightarrow> kvs | None \<Rightarrow> [])))
                    else None
                | Inl _ \<Rightarrow> None)
          else None
      | _ \<Rightarrow> None)"

fun last_output :: "recipe_env \<Rightarrow> message list \<Rightarrow> string set \<Rightarrow> string set \<Rightarrow> nat \<Rightarrow> string option" where
  "last_output rx ms answered successful 0 = None"
| "last_output rx ms answered successful (Suc i) =
     (case first_opt (filter_map (requested_output rx successful) (rev (m_content (ms ! i)))) of
        Some out \<Rightarrow>
          if list_all (\<lambda>b. case b of ToolRequest r \<Rightarrow> tr_id r \<in> answered | _ \<Rightarrow> True) (block_contents ms i)
          then Some out else None
      | None \<Rightarrow> last_output rx ms answered successful i)"

definition successful_final_output :: "recipe_env \<Rightarrow> message list \<Rightarrow> string option" where
  "successful_final_output rx ms =
     (let blocks = concat (map m_content ms) in
      last_output rx ms (set (filter_map response_id blocks)) (set (filter_map successful_response blocks)) (length ms))"

subsection \<open>The operation\<close>

definition recipe_command_error :: "goose_env \<Rightarrow> conversation \<Rightarrow> string \<Rightarrow> goose_result" where
  "recipe_command_error env c msg =
     io_bind (io_of (messages_since_kickoff c)) (\<lambda>turn.
       case first_opt turn of
         None \<Rightarrow> io_err ''recipe command conversation has no kickoff message''
       | Some command \<Rightarrow>
           (case m_id command of
              None \<Rightarrow> io_err ''Persisted slash command message has no id''
            | Some mid \<Rightarrow>
                io_bind (now env) (\<lambda>t.
                io_bind (emit_message env (with_visibility True False command)) (\<lambda>_.
                io_bind (emit_message env (with_visibility True False
                    (with_text (e_text env) msg (message_assistant t)))) (\<lambda>response.
                  yielded_with [GConversation (SetMessageVisibility mid True False), from_message response])))))"

definition recipe_command :: "goose_env \<Rightarrow> recipe_env \<Rightarrow> slash_command \<Rightarrow> session \<Rightarrow> conversation \<Rightarrow> goose_result" where
  "recipe_command env rx cmd s c =
     (case rx_resolve_command rx (sc_command cmd) (sc_params_str cmd) of
        Inl e \<Rightarrow> recipe_command_error env c e
      | Inr None \<Rightarrow> not_applicable
      | Inr (Some (recipe, prompt)) \<Rightarrow>
          (case Option.bind (rp_response recipe) (\<lambda>r. case final_output_try_new rx r of Inl e \<Rightarrow> Some e | Inr _ \<Rightarrow> None) of
             Some e \<Rightarrow> recipe_command_error env c (''Recipe is not valid: '' @ e)
           | None \<Rightarrow>
               io_bind (io_of (messages_since_kickoff c)) (\<lambda>turn.
                 case first_opt turn of
                   None \<Rightarrow> io_err ''recipe command conversation has no kickoff message''
                 | Some command \<Rightarrow>
                     (case m_id command of
                        None \<Rightarrow> io_err ''Persisted slash command message has no id''
                      | Some mid \<Rightarrow>
                          io_bind (now env) (\<lambda>t.
                            applied [GConversation (SetMessageVisibility mid True False), GSetRecipe (Some recipe),
                              from_message (with_visibility False True
                                (with_text (e_text env) prompt (message_user t)))])))))"

definition recipe_inference_tools :: "recipe_env \<Rightarrow> session \<Rightarrow> (goose_world, tool list) io" where
  "recipe_inference_tools rx s =
     io_bind (io_of (final_output_of rx s)) (\<lambda>fo.
       io_ok (case fo of Some _ \<Rightarrow> [final_output_tool] | None \<Rightarrow> []))"

definition final_output_system_prompt :: "recipe_env \<Rightarrow> json \<Rightarrow> string" where
  "final_output_system_prompt rx schema =
     ''# Final Output Instructions'' @ [NL, NL]
     @ ''You MUST use the `final_output` tool to collect the final output for the user rather than providing ''
     @ ''the output directly in your response.'' @ [NL]
     @ ''The final output MUST be a valid JSON object that is provided to the `final_output` tool when called ''
     @ ''and it must match the following schema:'' @ [NL, NL]
     @ rx_to_string_pretty rx schema @ [NL, NL] @ ''----'' @ [NL]"

definition recipe_prompt_parts ::
    "recipe_env \<Rightarrow> session \<Rightarrow> conversation \<Rightarrow> (goose_world, (string \<times> string) list) io" where
  "recipe_prompt_parts rx s c =
     io_bind (io_of (final_output_of rx s)) (\<lambda>fo.
       io_ok (case fo of Some schema \<Rightarrow> [(''final_output'', final_output_system_prompt rx schema)] | None \<Rightarrow> []))"

definition pending_final_output :: "goose_env \<Rightarrow> message list \<Rightarrow> (tool_request \<times> tool_disposition) option" where
  "pending_final_output env turn =
     List.find (\<lambda>(r, d). d = Execute \<and> calls_final_output r)
       (pending_advertised_tool_requests (ge_show_error env) turn)"

definition run_final_output ::
    "goose_env \<Rightarrow> recipe_env \<Rightarrow> json \<Rightarrow> session \<Rightarrow> tool_request \<Rightarrow> call_tool_request_params
       \<Rightarrow> (goose_world, call_tool_result tool_result) io" where
  "run_final_output env rx schema s r call =
     io_bind (run_pre_tool_hooks env s (tr_id r) (ctp_name call) (tool_input call)) (\<lambda>allowed.
       case allowed of
         Inl denial \<Rightarrow> io_ok (Inl denial)
       | Inr _ \<Rightarrow>
           (let res = execute_final_output rx schema call in
            io_bind (emit_post_tool_use env s (ctp_name call) (tr_id r) (tool_input call) res) (\<lambda>_. io_ok res)))"

definition respond_final_output ::
    "goose_env \<Rightarrow> tool_request \<Rightarrow> call_tool_result tool_result \<Rightarrow> goose_result" where
  "respond_final_output env r res =
     io_bind (now env) (\<lambda>t.
     io_bind (emit_message env (add_response env r res (message_user t))) (\<lambda>m. applied [from_message m]))"

definition recipe_run :: "goose_env \<Rightarrow> recipe_env \<Rightarrow> session \<Rightarrow> conversation \<Rightarrow> goose_result" where
  "recipe_run env rx s c =
     io_bind (io_of (final_output_of rx s)) (\<lambda>fo.
     case fo of
       None \<Rightarrow> not_applicable
     | Some schema \<Rightarrow>
         if \<not> rx_supports_builtin_tools rx
         then recipe_command_error env c (structured_output_unsupported_message (rx_provider_name rx))
         else io_bind (io_of (messages_since_kickoff c)) (\<lambda>turn.
           case pending_final_output env turn of
             Some (r, _) \<Rightarrow>
               if ses_goose_mode s = Chat then respond_final_output env r skipped_result
               else if has_unanswered_siblings turn (tr_id r) then not_applicable
               else (case tr_tool_call r of
                       Inl e \<Rightarrow> io_err (''final output tool call could not be parsed: '' @ ge_show_error env e)
                     | Inr call \<Rightarrow>
                         io_bind (run_final_output env rx schema s r call) (respond_final_output env r))
           | None \<Rightarrow>
               (case successful_final_output rx turn of
                  Some out \<Rightarrow>
                    io_bind (io_of (last_effective_role turn)) (\<lambda>role.
                      if role = RTool
                      then io_bind (now env) (\<lambda>t.
                           io_bind (emit_message env (with_text (e_text env) out (message_assistant t))) (\<lambda>m.
                             applied [from_message m]))
                      else not_applicable)
                | None \<Rightarrow>
                    if ends_turn turn
                    then io_bind (now env) (\<lambda>t.
                         io_bind (emit_message env (with_text (e_text env) FINAL_OUTPUT_CONTINUATION_MESSAGE (message_user t)))
                           (\<lambda>m. applied [from_message m]))
                    else not_applicable)))"

definition recipe_operation :: "goose_env \<Rightarrow> recipe_env \<Rightarrow> (session, goose_world, goose_effect) operation" where
  "recipe_operation env rx =
     (default_operation ''recipe'')
       \<lparr>op_run := recipe_run env rx, op_run_command := recipe_command env rx,
        op_inference_tools := recipe_inference_tools rx, op_prompt_parts := recipe_prompt_parts rx\<rparr>"

subsection \<open>What is delivered\<close>

lemma last_output_SomeD:
  assumes "last_output rx ms answered successful n = Some out" and "n \<le> length ms"
  shows "\<exists>i r call. i < length ms \<and> ToolRequest r \<in> set (m_content (ms ! i)) \<and> tr_id r \<in> successful
    \<and> tr_tool_call r = Inr call \<and> ctp_name call = FINAL_OUTPUT_TOOL_NAME
    \<and> out = rx_to_string rx (JObject (case ctp_arguments call of Some kvs \<Rightarrow> kvs | None \<Rightarrow> []))
    \<and> (\<forall>q. ToolRequest q \<in> set (block_contents ms i) \<longrightarrow> tr_id q \<in> answered)"
  using assms
proof (induction n)
  case (Suc n)
  show ?case
  proof (cases "first_opt (filter_map (requested_output rx successful) (rev (m_content (ms ! n))))")
    case None
    then show ?thesis using Suc by simp
  next
    case (Some o1)
    with Suc.prems have out: "o1 = out" "\<forall>q. ToolRequest q \<in> set (block_contents ms n) \<longrightarrow> tr_id q \<in> answered"
      by (auto simp: list_all_iff split: if_splits)
    from Some have "out \<in> set (filter_map (requested_output rx successful) (rev (m_content (ms ! n))))"
      unfolding out(1) by (auto simp: first_opt_def split: list.splits)
    then obtain b where "b \<in> set (m_content (ms ! n))" "requested_output rx successful b = Some out"
      by (auto simp: set_filter_map)
    then show ?thesis
      using out(2) Suc.prems(2)
      by (intro exI [of _ n]) (auto simp: requested_output_def split: message_content_block.splits if_splits sum.splits)
  qed
qed simp

text \<open>The tool succeeds exactly on arguments without validation errors.\<close>

lemma execute_final_output_ok:
  assumes "ctp_name call = FINAL_OUTPUT_TOOL_NAME"
  shows "is_ok (execute_final_output rx schema call) \<longleftrightarrow>
    (\<exists>errors. rx_validator rx schema = Inr errors \<and> errors (arguments_json (ctp_arguments call)) = [])"
  using assms by (auto simp: execute_final_output_def validate_json_output_def split: sum.split)

text \<open>Claim C25 (final_output_sound): what is handed to the user as the result of a recipe is the arguments of a
  call of the final output tool in the turn, serialized, and that call was answered by a response
  that reports success; every tool call the model made together with it has been answered
  too, so no work is still open when the result is delivered.\<close>

theorem final_output_sound:
  assumes "successful_final_output rx turn = Some out"
  shows "\<exists>i r call b. i < length turn \<and> ToolRequest r \<in> set (m_content (turn ! i)) \<and> tr_tool_call r = Inr call
    \<and> ctp_name call = FINAL_OUTPUT_TOOL_NAME
    \<and> out = rx_to_string rx (JObject (case ctp_arguments call of Some kvs \<Rightarrow> kvs | None \<Rightarrow> []))
    \<and> b \<in> set (concat (map m_content turn)) \<and> successful_response b = Some (tr_id r)
    \<and> (\<forall>q. ToolRequest q \<in> set (block_contents turn i) \<longrightarrow>
          (\<exists>a \<in> set (concat (map m_content turn)). response_id a = Some (tr_id q)))"
proof -
  let ?blocks = "concat (map m_content turn)"
  from assms have "last_output rx turn (set (filter_map response_id ?blocks))
      (set (filter_map successful_response ?blocks)) (length turn) = Some out"
    by (simp add: successful_final_output_def Let_def)
  from last_output_SomeD [OF this] show ?thesis unfolding set_filter_map by fast
qed

text \<open>The message that reminds the model of the tool is visible to the user, so it opens a turn of its
  own: the turns taken so far no longer count against the budget, and a model that never calls
  the tool is reminded without end.\<close>

lemma continuation_restarts_turn:
  assumes "final_output_of rx s = Inr (Some schema)" and "rx_supports_builtin_tools rx"
    and "messages_since_kickoff c = Inr turn" and "pending_final_output env turn = None"
    and "successful_final_output rx turn = None" and "ends_turn turn"
  shows "\<exists>r w' m. recipe_run env rx s c w = (Inr (Applied r), w') \<and> sr_effects r = [from_message m]
    \<and> messages_since_kickoff (c @ [m]) = Inr [m] \<and> assistant_turn_count [m] = 0"
proof -
  let ?msg = "\<lambda>t. with_text (e_text env) FINAL_OUTPUT_CONTINUATION_MESSAGE (message_user t)"
  let ?m = "with_generated_id_if_missing (e_uuid env (Suc (w_tick w))) (?msg (e_now env (w_tick w)))"
  have "\<exists>r w'. recipe_run env rx s c w = (Inr (Applied r), w') \<and> sr_effects r = [from_message ?m]"
    using assms
    by (simp add: recipe_run_def io_simps now_def ask_def emit_message_def new_uuid_def emit_event_def applied_def Let_def)
  moreover have "is_kickoff ?m"
    by (simp add: is_kickoff_def with_generated_id_if_missing_def with_text_def with_content_def message_user_def
        message_new_def is_user_visible_def metadata_default_def is_tool_response_def)
  moreover have "m_role ?m = User"
    by (simp add: with_generated_id_if_missing_def with_text_def with_content_def message_user_def message_new_def)
  then have "assistant_turn_count [?m] = 0" by (simp add: assistant_turn_count_blocks)
  ultimately show ?thesis using messages_since_kickoff_snoc_kickoff by blast
qed

definition sample_recipe_env :: recipe_env where
  "sample_recipe_env = \<lparr>rx_validator = (\<lambda>_. Inr (\<lambda>_. [])), rx_to_string = (\<lambda>_. ''{}''), rx_to_string_pretty = (\<lambda>_. []),
     rx_supports_builtin_tools = True, rx_provider_name = ''p'', rx_resolve_command = (\<lambda>_ _. Inr None)\<rparr>"

definition sample_output_request :: tool_request where
  "sample_output_request = \<lparr>tr_id = ''1'', tr_tool_call = Inr \<lparr>ctp_name = FINAL_OUTPUT_TOOL_NAME, ctp_arguments = None,
     ctp_rest = JNull\<rparr>, tr_metadata = None, tr_tool_meta = None\<rparr>"

definition sample_output_turn :: "message list" where
  "sample_output_turn = [message_user 1, message_new Assistant 2 [ToolRequest sample_output_request],
     message_new User 3 [ToolResponse \<lparr>ts_id = ''1'', ts_tool_result = execute_final_output sample_recipe_env JNull
       \<lparr>ctp_name = FINAL_OUTPUT_TOOL_NAME, ctp_arguments = None, ctp_rest = JNull\<rparr>, ts_metadata = None\<rparr>]]"

theorem final_output_sound_witness:
  "\<exists>i r call b. i < length sample_output_turn \<and> ToolRequest r \<in> set (m_content (sample_output_turn ! i))
    \<and> tr_tool_call r = Inr call \<and> ctp_name call = FINAL_OUTPUT_TOOL_NAME
    \<and> ''{}'' = rx_to_string sample_recipe_env (JObject (case ctp_arguments call of Some kvs \<Rightarrow> kvs | None \<Rightarrow> []))
    \<and> b \<in> set (concat (map m_content sample_output_turn)) \<and> successful_response b = Some (tr_id r)
    \<and> (\<forall>q. ToolRequest q \<in> set (block_contents sample_output_turn i) \<longrightarrow>
          (\<exists>a \<in> set (concat (map m_content sample_output_turn)). response_id a = Some (tr_id q)))"
proof (rule final_output_sound)
  show "successful_final_output sample_recipe_env sample_output_turn = Some ''{}''" by code_simp
qed

end
