(* ===== verification/Context_Compaction.thy ===== *)
theory Context_Compaction
  imports Recipe_Operation
begin

section \<open>Compaction of a conversation\<close>

text \<open>
  \<open>crates/goose/src/context_mgmt/mod.rs\<close> with the operations \<open>ops_compaction.rs\<close> and
  \<open>ops_tool_pair_compaction.rs\<close> of the pipeline: when the context runs full, the history is
  hidden from the model and a summary takes its place; old tool calls are replaced by summaries of
  their own. The token counter, the templates and the arithmetic of floating point numbers are
  fields of \<open>compaction_env\<close>; a float is its IEEE bits, so its literals are values.
\<close>

record float_ops =
  fo_of_nat :: "nat \<Rightarrow> f64_bits"
  fo_of_i32 :: "i32 \<Rightarrow> f64_bits"
  fo_mul :: "f64_bits \<Rightarrow> f64_bits \<Rightarrow> f64_bits"
  fo_div :: "f64_bits \<Rightarrow> f64_bits \<Rightarrow> f64_bits"
  fo_le :: "f64_bits \<Rightarrow> f64_bits \<Rightarrow> bool"
  fo_less :: "f64_bits \<Rightarrow> f64_bits \<Rightarrow> bool"
  fo_to_usize :: "f64_bits \<Rightarrow> nat"
  fo_to_u32 :: "f64_bits \<Rightarrow> u32"
  fo_to_i32 :: "f64_bits \<Rightarrow> i32"

abbreviation F64_ZERO :: f64_bits where "F64_ZERO \<equiv> 0"
abbreviation F64_HALF :: f64_bits where "F64_HALF \<equiv> 0x3FE0000000000000"
abbreviation F64_ONE :: f64_bits where "F64_ONE \<equiv> 0x3FF0000000000000"
abbreviation F64_HUNDRED :: f64_bits where "F64_HUNDRED \<equiv> 0x4059000000000000"

definition DEFAULT_COMPACTION_THRESHOLD :: f64_bits where
  "DEFAULT_COMPACTION_THRESHOLD = 0x3FE999999999999A"

record compaction_env =
  cx_summary :: summary_env
  cx_templates :: "anyhow + templates"
  cx_counter :: "anyhow + token_estimator"
  cx_float :: float_ops
  cx_context_limit :: nat
  cx_threshold :: f64_bits
  cx_manages_own_context :: bool
  cx_recipe :: recipe_env

definition TOOLCALL_SUMMARIZATION_BATCH_SIZE :: nat where
  "TOOLCALL_SUMMARIZATION_BATCH_SIZE = 10"

definition COMPACTED :: string where
  "COMPACTED = ''The previous message contains a summary of the conversation so far.'' @ [NL]
     @ ''Do not mention that you read a summary or that conversation summarization occurred.'' @ [NL]"

definition CONVERSATION_CONTINUATION_TEXT :: string where
  "CONVERSATION_CONTINUATION_TEXT = ''Your context was compacted. '' @ COMPACTED
     @ ''Just continue the conversation naturally based on the summarized context.''"

definition TOOL_LOOP_CONTINUATION_TEXT :: string where
  "TOOL_LOOP_CONTINUATION_TEXT = ''Your context was compacted. '' @ COMPACTED
     @ ''Continue calling tools as necessary to complete the task.''"

definition MANUAL_COMPACT_CONTINUATION_TEXT :: string where
  "MANUAL_COMPACT_CONTINUATION_TEXT = ''Your context was compacted at the user'' @ [CHR 0x27] @ ''s request. '' @ COMPACTED
     @ ''Just continue the conversation naturally based on the summarized context.''"

record compaction_result =
  cr_conversation :: conversation
  cr_usage :: provider_usage
  cr_retained_context_tokens :: i32

subsection \<open>Counting\<close>

definition count_context_tokens :: "compaction_env \<Rightarrow> message list \<Rightarrow> anyhow + i32" where
  "count_context_tokens cx ms =
     (case cx_counter cx of
        Inl e \<Rightarrow> Inl (''Failed to create token counter: '' @ e)
      | Inr tk \<Rightarrow>
          (let total = sum_list (map (\<lambda>m. tk_count_chat tk [] [m]) (filter is_agent_visible ms)) in
           if total < 2 ^ 31 then Inr (of_nat total) else Inl ''out of range integral type conversion attempted''))"

definition goose_estimator :: "compaction_env \<Rightarrow> token_estimator" where
  "goose_estimator cx =
     (case cx_counter cx of
        Inr tk \<Rightarrow> tk | Inl _ \<Rightarrow> \<lparr>tk_count_chat = (\<lambda>_ _. 0), tk_count_text = (\<lambda>_. 0)\<rparr>)"

definition over_threshold :: "compaction_env \<Rightarrow> nat \<Rightarrow> bool" where
  "over_threshold cx tokens =
     (let f = cx_float cx; threshold = cx_threshold cx in
      if fo_le f threshold F64_ZERO \<or> fo_le f F64_ONE threshold then False
      else fo_less f threshold (fo_div f (fo_of_nat f tokens) (fo_of_nat f (cx_context_limit cx))))"

definition check_if_compaction_needed :: "compaction_env \<Rightarrow> session \<Rightarrow> conversation \<Rightarrow> anyhow + bool" where
  "check_if_compaction_needed cx s c =
     (if cx_manages_own_context cx then Inr False
      else
        case ses_usage s CTotal of
          Some tokens \<Rightarrow> Inr (over_threshold cx (nat (if 0 \<le> tokens then tokens else 2 ^ 64 + tokens)))
        | None \<Rightarrow>
            (case cx_counter cx of
               Inl e \<Rightarrow> Inl (''Failed to create token counter: '' @ e)
             | Inr tk \<Rightarrow>
                 Inr (over_threshold cx
                   (sum_list (map (\<lambda>m. tk_count_chat tk [] [m]) (filter is_agent_visible c))))))"

definition compute_tool_call_cutoff :: "float_ops \<Rightarrow> nat \<Rightarrow> f64_bits \<Rightarrow> nat" where
  "compute_tool_call_cutoff f context_limit compaction_threshold =
     (let threshold = (if fo_less f F64_ZERO compaction_threshold \<and> fo_le f compaction_threshold F64_ONE
                       then compaction_threshold else DEFAULT_COMPACTION_THRESHOLD);
          effective_limit = fo_to_usize f (fo_mul f (fo_of_nat f context_limit) threshold) in
      max 10 (min 500 (3 * effective_limit div 20000)))"

subsection \<open>Compacting\<close>

definition is_text :: "message_content_block \<Rightarrow> bool" where
  "is_text b = (case b of Text _ \<Rightarrow> True | _ \<Rightarrow> False)"

definition has_text_only :: "message \<Rightarrow> bool" where
  "has_text_only m \<longleftrightarrow> list_ex is_text (m_content m)
     \<and> \<not> list_ex (\<lambda>b. case b of ToolRequest _ \<Rightarrow> True | ToolResponse _ \<Rightarrow> True | _ \<Rightarrow> False) (m_content m)"

definition preservable :: "message \<Rightarrow> bool" where
  "preservable m \<longleftrightarrow> is_agent_visible m \<and> \<not> is_turn_context m \<and> m_role m = User
     \<and> has_text_only (agent_visible_content m)"

definition preserved_message :: "int \<Rightarrow> message \<Rightarrow> message" where
  "preserved_message t m =
     (message_user t)\<lparr>m_metadata := metadata_agent_only,
        m_content := filter is_text (m_content (agent_visible_content m))\<rparr>"

definition hide_from_agent :: "message \<Rightarrow> message" where
  "hide_from_agent m = m\<lparr>m_metadata := (m_metadata m)\<lparr>md_agent_visible := False\<rparr>\<rparr>"

definition agent_only :: "message \<Rightarrow> message" where
  "agent_only m = m\<lparr>m_metadata := metadata_agent_only\<rparr>"

definition do_compact ::
    "'y env_scheme \<Rightarrow> compaction_env \<Rightarrow> conversation \<Rightarrow> ('x world_scheme, message \<times> provider_usage) io" where
  "do_compact env cx c =
     io_bind (io_of (cx_templates cx)) (\<lambda>tp.
       summarize env (cx_summary cx) (Some (goose_estimator cx)) tp
         (agent_visible_messages (filter (\<lambda>m. \<not> is_turn_context m) c)))"

definition carried_context :: "conversation \<Rightarrow> nat \<Rightarrow> message list \<Rightarrow> message option" where
  "carried_context c i final_messages =
     map_option (\<lambda>m. m\<lparr>m_id := None, m_created := Max (set (map m_created (m # final_messages)))\<rparr>)
       (first_opt (filter (\<lambda>m. is_turn_context m \<and> is_agent_visible m) (rev (drop (Suc i) c))))"

definition continuation_text :: "bool \<Rightarrow> bool \<Rightarrow> string" where
  "continuation_text manual is_most_recent =
     (if manual then MANUAL_COMPACT_CONTINUATION_TEXT
      else if is_most_recent then CONVERSATION_CONTINUATION_TEXT
      else TOOL_LOOP_CONTINUATION_TEXT)"

definition compacted_conversation ::
    "text_env \<Rightarrow> conversation \<Rightarrow> bool \<Rightarrow> (nat \<times> message) option \<Rightarrow> message \<Rightarrow> int \<Rightarrow> conversation" where
  "compacted_conversation te c manual preserved summary t =
     (let is_most_recent = (case preserved of
            Some (i, _) \<Rightarrow> list_all is_turn_context (drop (Suc i) c) | None \<Rightarrow> False);
          continuation = agent_only (with_text te (continuation_text manual is_most_recent) (message_assistant t));
          final_messages = map hide_from_agent c
            @ fst (merge_consecutive_messages [agent_only summary, continuation])
            @ (case preserved of Some (_, m) \<Rightarrow> [m\<lparr>m_created := t\<rparr>] | None \<Rightarrow> []) in
      final_messages
      @ (case preserved of
           Some (i, _) \<Rightarrow> option_list (carried_context c i final_messages) | None \<Rightarrow> []))"

definition preserve ::
    "'y env_scheme \<Rightarrow> conversation \<Rightarrow> bool \<Rightarrow> ('x world_scheme, (nat \<times> message) option) io" where
  "preserve env c manual =
     (case (if manual then None else rposition preservable c) of
        None \<Rightarrow> io_ok None
      | Some i \<Rightarrow> io_bind (now env) (\<lambda>t. io_ok (Some (i, preserved_message t (c ! i)))))"

definition compact_messages ::
    "'y env_scheme \<Rightarrow> compaction_env \<Rightarrow> conversation \<Rightarrow> bool \<Rightarrow> ('x world_scheme, compaction_result) io" where
  "compact_messages env cx c manual =
     io_bind (preserve env c manual) (\<lambda>preserved.
     io_bind (do_compact env cx c) (\<lambda>(summary, usage).
     io_bind (now env) (\<lambda>t.
       let conversation = compacted_conversation (e_text env) c manual preserved summary t in
       io_ok \<lparr>cr_conversation = conversation, cr_usage = usage,
         cr_retained_context_tokens =
           (case count_context_tokens cx conversation of
              Inr tokens \<Rightarrow> tokens | Inl _ \<Rightarrow> unwrap_or (u_output_tokens (pu_usage usage)) 0)\<rparr>)))"

subsection \<open>The compaction operation\<close>

definition MAX_CONTEXT_ERROR_COMPACTIONS :: nat where
  "MAX_CONTEXT_ERROR_COMPACTIONS = 2"

definition COMPACTION_THINKING_TEXT :: string where
  "COMPACTION_THINKING_TEXT = ''ghosty is compacting the conversation...''"

definition compaction_part :: "compaction_env \<Rightarrow> i32 option \<Rightarrow> string option" where
  "compaction_part cx total_opt =
     (case total_opt of
        None \<Rightarrow> None
      | Some total_tokens \<Rightarrow>
          (let f = cx_float cx; threshold = cx_threshold cx; limit = cx_context_limit cx in
           if sint total_tokens \<le> 0 \<or> limit = 0 \<or> fo_le f threshold F64_ZERO \<or> fo_le f F64_ONE threshold then None
           else
             let compaction_at = fo_to_i32 f (fo_mul f (fo_of_nat f limit) threshold) in
             if sint compaction_at \<le> 0
                \<or> fo_less f (fo_div f (fo_of_i32 f total_tokens) (fo_of_i32 f compaction_at)) F64_HALF
             then None
             else
               let left = max (- (2 ^ 31)) (sint compaction_at - sint total_tokens) in
               Some (''<compaction>~'' @ (if left \<le> - 1000 then ''-'' else [])
                 @ show_nat (nat (\<bar>left\<bar> div 1000)) @ ''k tokens remaining</compaction>'')))"

definition awaits_tool_responses :: "message list \<Rightarrow> bool" where
  "awaits_tool_responses ms =
     (let answered = \<Union> (set (map get_tool_response_ids ms)) in
      list_ex (\<lambda>r. \<not> was_executed_externally r \<and> tr_id r \<notin> answered)
        (filter_map as_tool_request (concat (map m_content ms))))"

definition unreported_tool_tokens :: "compaction_env \<Rightarrow> conversation \<Rightarrow> anyhow + i32" where
  "unreported_tool_tokens cx c =
     (case last_effective_role c of
        Inl e \<Rightarrow> Inl e
      | Inr role \<Rightarrow>
          if role \<noteq> RTool then Inr 0
          else count_context_tokens cx
            (drop (case rposition is_tool_call c of Some i \<Rightarrow> Suc i | None \<Rightarrow> 0) c))"

definition context_tokens :: "compaction_env \<Rightarrow> session \<Rightarrow> conversation \<Rightarrow> anyhow + i32" where
  "context_tokens cx s c =
     (case ses_usage s CTotal of
        Some tokens \<Rightarrow>
          (case unreported_tool_tokens cx c of Inl e \<Rightarrow> Inl e | Inr unreported \<Rightarrow> Inr (of_int tokens + unreported))
      | None \<Rightarrow> count_context_tokens cx c)"

definition compaction_command_error :: "goose_env \<Rightarrow> conversation \<Rightarrow> string \<Rightarrow> goose_result" where
  "compaction_command_error env c msg =
     io_bind (io_of (messages_since_kickoff c)) (\<lambda>turn.
       case first_opt turn of
         None \<Rightarrow> io_err ''compact command conversation has no kickoff message''
       | Some command \<Rightarrow>
           (case m_id command of
              None \<Rightarrow> io_err ''Persisted slash command message has no id''
            | Some mid \<Rightarrow>
                io_bind (now env) (\<lambda>t.
                io_bind (emit_message env (with_visibility True False command)) (\<lambda>_.
                io_bind (emit_message env (with_visibility True False
                    (with_text (e_text env) msg (message_assistant t)))) (\<lambda>response.
                  yielded_with [GConversation (SetMessageVisibility mid True False), from_message response])))))"

definition clear_command :: "goose_env \<Rightarrow> conversation \<Rightarrow> goose_result" where
  "clear_command env c =
     io_bind (io_of (messages_since_kickoff c)) (\<lambda>turn.
       case first_opt turn of
         None \<Rightarrow> io_err ''clear command conversation has no kickoff message''
       | Some command \<Rightarrow>
           io_bind (now env) (\<lambda>t.
           io_bind (emit_message env (with_visibility True False command)) (\<lambda>command'.
           io_bind (emit_message env (with_visibility True False
               (with_text (e_text env) ''Conversation cleared'' (message_assistant t)))) (\<lambda>response.
             yielded_with [GConversation (ReplaceConversation []), from_message command', from_message response]))))"

definition try_compact ::
    "goose_env \<Rightarrow> compaction_env \<Rightarrow> conversation \<Rightarrow> bool \<Rightarrow> (goose_world, anyhow + compaction_result) io" where
  "try_compact env cx c manual w = map_prod Inr id (compact_messages env cx c manual w)"

definition compaction_command :: "goose_env \<Rightarrow> compaction_env \<Rightarrow> slash_command \<Rightarrow> session \<Rightarrow> conversation \<Rightarrow> goose_result" where
  "compaction_command env cx cmd s c =
     (if sc_command cmd = ''clear'' then clear_command env c
      else if sc_command cmd \<noteq> ''compact'' then not_applicable
      else io_bind (try_compact env cx c True) (\<lambda>result.
        case result of
          Inl e \<Rightarrow> compaction_command_error env c e
        | Inr r \<Rightarrow>
            io_bind (io_of (messages_since_kickoff c)) (\<lambda>turn.
              case first_opt turn of
                None \<Rightarrow> io_err ''compact command conversation has no kickoff message''
              | Some command \<Rightarrow>
                  io_bind (now env) (\<lambda>t.
                  io_bind (emit_message env (with_visibility True False command)) (\<lambda>_.
                  io_bind (emit_message env (with_visibility True False
                      (with_text (e_text env) ''Compaction complete'' (message_assistant t)))) (\<lambda>response.
                    yielded_with [GReplaceConversation (cr_conversation r) (Some (cr_usage r)), from_message response]))))))"

definition compaction_moim_parts ::
    "compaction_env \<Rightarrow> session \<Rightarrow> conversation \<Rightarrow> (goose_world, string list) io" where
  "compaction_moim_parts cx s c =
     (if cx_manages_own_context cx then io_ok []
      else io_bind (io_of (context_tokens cx s c)) (\<lambda>tokens.
        io_ok (option_list (compaction_part cx (Some tokens)))))"

definition hidden_context_errors :: "message list \<Rightarrow> nat" where
  "hidden_context_errors turn =
     length (filter (\<lambda>m. error_kind m = Some ContextLengthExceeded \<and> \<not> is_agent_visible m) turn)"

definition notify :: "goose_env \<Rightarrow> system_notification_type \<Rightarrow> string \<Rightarrow> (goose_world, message) io" where
  "notify env ty msg = emit_message_now env (\<lambda>t. with_system_notification ty msg (message_assistant t))"

definition auto_compact :: "goose_env \<Rightarrow> compaction_env \<Rightarrow> conversation \<Rightarrow> goose_result" where
  "auto_compact env cx c =
     io_bind (notify env InlineMessage (''Exceeded auto-compact threshold of ''
         @ show_nat (unat (fo_to_u32 (cx_float cx) (fo_mul (cx_float cx) (cx_threshold cx) F64_HUNDRED)))
         @ ''%. Performing auto-compaction...'')) (\<lambda>_.
     io_bind (notify env ThinkingMessage COMPACTION_THINKING_TEXT) (\<lambda>_.
     io_bind (try_compact env cx c False) (\<lambda>result.
       case result of
         Inr r \<Rightarrow>
           io_bind (notify env InlineMessage ''Compaction complete'') (\<lambda>_.
             applied [GReplaceConversation (cr_conversation r) (Some (cr_usage r))])
       | Inl e \<Rightarrow>
           io_bind (emit_message_now env (\<lambda>t. with_text (e_text env)
               (''Ran into this error trying to compact: '' @ e @ ''.'' @ [NL, NL]
                @ ''Please try again or create a new session'') (message_assistant t))) (\<lambda>_. yielded))))"

definition hide_last :: "conversation \<Rightarrow> conversation" where
  "hide_last c = (if c = [] then [] else butlast c @ [hide_from_agent (last c)])"

definition compaction_run :: "goose_env \<Rightarrow> compaction_env \<Rightarrow> session \<Rightarrow> conversation \<Rightarrow> goose_result" where
  "compaction_run env cx s c =
     (if cx_manages_own_context cx then not_applicable
      else io_bind (io_of (messages_since_kickoff c)) (\<lambda>turn.
        if trailing_error c = Some ContextLengthExceeded then
          if hidden_context_errors turn > MAX_CONTEXT_ERROR_COMPACTIONS then not_applicable
          else if c = [] then not_applicable
          else auto_compact env cx (hide_last c)
        else
          io_bind (io_of (last_effective_role turn)) (\<lambda>tail.
            if tail = RAssistant \<or> awaits_tool_responses turn
               \<or> (tail = RTool \<and> successful_final_output (cx_recipe cx) turn \<noteq> None)
            then not_applicable
            else io_bind (io_of (context_tokens cx s c)) (\<lambda>tokens.
              if sint tokens \<le> 0 \<or> \<not> over_threshold cx (unat tokens) then not_applicable
              else auto_compact env cx c))))"

definition compaction_operation :: "goose_env \<Rightarrow> compaction_env \<Rightarrow> (session, goose_world, goose_effect) operation" where
  "compaction_operation env cx =
     (default_operation ''compaction'')
       \<lparr>op_run := compaction_run env cx, op_run_command := compaction_command env cx,
        op_moim_parts := compaction_moim_parts cx\<rparr>"

subsection \<open>Summaries of tool calls\<close>

definition visible_request_ids :: "conversation \<Rightarrow> string list" where
  "visible_request_ids c = filter_map request_id (concat (map m_content (filter is_agent_visible c)))"

definition tool_ids_to_summarize :: "conversation \<Rightarrow> nat \<Rightarrow> nat \<Rightarrow> string list" where
  "tool_ids_to_summarize c cutoff protect_last_n =
     (let ids = visible_request_ids c; eligible = length ids - protect_last_n in
      if eligible \<le> cutoff + TOOLCALL_SUMMARIZATION_BATCH_SIZE then []
      else take TOOLCALL_SUMMARIZATION_BATCH_SIZE ids)"

definition names_tool :: "string \<Rightarrow> message \<Rightarrow> bool" where
  "names_tool tid m = list_ex (\<lambda>b. request_id b = Some tid \<or> response_id b = Some tid) (m_content m)"

definition agent_visible_tool_pair :: "conversation \<Rightarrow> string \<Rightarrow> anyhow + message list" where
  "agent_visible_tool_pair c tid =
     (let matching = agent_visible_messages (filter (names_tool tid) c) in
      if \<not> list_ex (\<lambda>m. list_ex (\<lambda>b. request_id b = Some tid) (m_content m)) matching
         \<or> \<not> list_ex (\<lambda>m. list_ex (\<lambda>b. response_id b = Some tid) (m_content m)) matching
      then Inl (''No agent-visible tool pair found for tool id: '' @ tid)
      else Inr matching)"

definition TOOL_PAIR_PROMPT :: string where
  "TOOL_PAIR_PROMPT =
     ''Your task is to summarize a tool call & response pair to save tokens.'' @ [NL, NL]
     @ ''Reply with a single message that describes what happened. Typically a tool call'' @ [NL]
     @ ''asks for something using a bunch of parameters and then the result is also some'' @ [NL]
     @ ''structured output. So the tool might ask to look up something on github and the'' @ [NL]
     @ ''reply might be a json document. So you could reply with something like:'' @ [NL, NL]
     @ [QUOTE] @ ''A call to github was made to get the project status'' @ [QUOTE] @ [NL, NL]
     @ ''if that is what it was.'' @ [NL]"

definition summarize_tool_call ::
    "'y env_scheme \<Rightarrow> compaction_env \<Rightarrow> conversation \<Rightarrow> string \<Rightarrow> ('x world_scheme, message) io" where
  "summarize_tool_call env cx c tid =
     io_bind (io_of (agent_visible_tool_pair c tid)) (\<lambda>matching.
     io_bind (now env) (\<lambda>t.
     let formatted = join [NL] (map (format_message_for_compacting (cx_summary cx)) matching) in
     io_bind (ask (\<lambda>n. sx_complete (cx_summary cx) n TOOL_PAIR_PROMPT
         [with_text (e_text env) formatted (message_user t)])) (\<lambda>answer.
       case answer of
         Inl e \<Rightarrow> io_err (show_provider_error e)
       | Inr (response, _) \<Rightarrow>
           io_bind (new_uuid env) (\<lambda>u.
             io_ok (response\<lparr>m_role := User, m_created := m_created (last matching),
               m_metadata := metadata_agent_only, m_id := Some (''msg_'' @ u)\<rparr>)))))"

definition try_summarize_tool_call ::
    "goose_env \<Rightarrow> compaction_env \<Rightarrow> conversation \<Rightarrow> string \<Rightarrow> (goose_world, anyhow + message) io" where
  "try_summarize_tool_call env cx c tid w = map_prod Inr id (summarize_tool_call env cx c tid w)"

definition stored_pair :: "conversation \<Rightarrow> string \<Rightarrow> message list" where
  "stored_pair c tid = filter (\<lambda>m. m_id m \<noteq> None \<and> names_tool tid m) c"

definition hide_message :: "message \<Rightarrow> goose_effect list" where
  "hide_message m =
     (case m_id m of
        None \<Rightarrow> [] | Some mid \<Rightarrow> [GConversation (SetMessageVisibility mid (is_user_visible m) False)])"

fun summarize_pairs ::
    "goose_env \<Rightarrow> compaction_env \<Rightarrow> conversation \<Rightarrow> string list \<Rightarrow> string set \<Rightarrow> (goose_world, goose_effect list) io" where
  "summarize_pairs env cx c [] hidden = io_ok []"
| "summarize_pairs env cx c (tid # tids) hidden =
     (let pair = stored_pair c tid; pair_ids = set (filter_map m_id pair) in
      if length pair \<noteq> 2 \<or> pair_ids \<inter> hidden \<noteq> {}
         \<or> \<Union> (set (map get_tool_request_ids pair)) \<noteq> \<Union> (set (map get_tool_response_ids pair))
      then summarize_pairs env cx c tids hidden
      else io_bind (try_summarize_tool_call env cx c tid) (\<lambda>summary.
        case summary of
          Inl _ \<Rightarrow> summarize_pairs env cx c tids hidden
        | Inr m \<Rightarrow>
            io_bind (summarize_pairs env cx c tids (hidden \<union> pair_ids)) (\<lambda>es.
              io_ok (concat (map hide_message pair) @ [from_message m] @ es))))"

definition tool_pair_compaction_run ::
    "goose_env \<Rightarrow> compaction_env \<Rightarrow> nat \<Rightarrow> bool \<Rightarrow> session \<Rightarrow> conversation \<Rightarrow> goose_result" where
  "tool_pair_compaction_run env cx cutoff enabled s c =
     (if \<not> enabled then not_applicable
      else io_bind (io_of (messages_since_kickoff c)) (\<lambda>turn.
        let protected = length (filter_map request_id (concat (map m_content turn)));
            tool_ids = tool_ids_to_summarize c cutoff protected in
        if tool_ids = [] then not_applicable
        else io_bind (summarize_pairs env cx c tool_ids {}) (\<lambda>effects.
          if effects = [] then not_applicable else applied effects)))"

definition tool_pair_compaction_operation ::
    "goose_env \<Rightarrow> compaction_env \<Rightarrow> nat \<Rightarrow> bool \<Rightarrow> (session, goose_world, goose_effect) operation" where
  "tool_pair_compaction_operation env cx cutoff enabled =
     (default_operation ''tool_pair_compaction'')\<lparr>op_run := tool_pair_compaction_run env cx cutoff enabled\<rparr>"

subsection \<open>What the model and the user see afterwards\<close>

lemma hide_from_agent_simps [simp]:
  "m_role (hide_from_agent m) = m_role m" "m_content (hide_from_agent m) = m_content m" "m_created (hide_from_agent m) = m_created m"
  "is_user_visible (hide_from_agent m) = is_user_visible m" "\<not> is_agent_visible (hide_from_agent m)"
  "is_turn_context (hide_from_agent m) = is_turn_context m" "error_kind (hide_from_agent m) = error_kind m"
  "is_kickoff (hide_from_agent m) = is_kickoff m" "hide_from_agent (hide_from_agent m) = hide_from_agent m"
  by (simp_all add: hide_from_agent_def is_user_visible_def is_agent_visible_def is_turn_context_def error_kind_def
      is_kickoff_def is_tool_response_def)

lemma agent_only_simps [simp]:
  "m_role (agent_only m) = m_role m" "m_content (agent_only m) = m_content m" "m_created (agent_only m) = m_created m"
  "is_agent_visible (agent_only m)" "\<not> is_user_visible (agent_only m)" "\<not> is_turn_context (agent_only m)"
  by (simp_all add: agent_only_def is_agent_visible_def is_user_visible_def is_turn_context_def metadata_agent_only_def
      metadata_default_def)

lemma preserved_message_simps [simp]:
  "m_content (preserved_message t m) = filter is_text (m_content (agent_visible_content m))"
  "m_role (preserved_message t m) = User" "m_metadata (preserved_message t m) = metadata_agent_only"
  by (simp_all add: preserved_message_def message_user_def message_new_def)

lemma merge_two:
  assumes "m_role a \<noteq> m_role b"
  shows "fst (merge_consecutive_messages [a, b]) = [a, b]"
proof -
  have "\<not> mergeable False a b" using assms effective_role_role unfolding mergeable_def by blast
  then show ?thesis by (simp add: merge_consecutive_messages_def merge_consecutive_def merge_step_def last_opt_def)
qed

definition continuation_message :: "text_env \<Rightarrow> int \<Rightarrow> string \<Rightarrow> message" where
  "continuation_message te t text = agent_only (with_text te text (message_assistant t))"

lemma continuation_simps [simp]:
  "m_role (continuation_message te t text) = Assistant" "m_created (continuation_message te t text) = t"
  "is_agent_visible (continuation_message te t text)" "\<not> is_user_visible (continuation_message te t text)"
  by (simp_all add: continuation_message_def with_text_def with_content_def message_assistant_def message_new_def)

text \<open>What is kept for the model besides the summary: the last prompt of the user and the context of its turn.\<close>

definition kept_after :: "conversation \<Rightarrow> (nat \<times> message) option \<Rightarrow> message list \<Rightarrow> int \<Rightarrow> message list" where
  "kept_after c preserved before t =
     (case preserved of
        None \<Rightarrow> []
      | Some (i, m) \<Rightarrow> m\<lparr>m_created := t\<rparr> # option_list (carried_context c i (before @ [m\<lparr>m_created := t\<rparr>])))"

lemma compacted_shape:
  assumes "m_role summary = User"
  shows "\<exists>text. compacted_conversation te c manual preserved summary t
    = map hide_from_agent c @ [agent_only summary, continuation_message te t text]
      @ kept_after c preserved (map hide_from_agent c @ [agent_only summary, continuation_message te t text]) t"
proof -
  let ?recent = "case preserved of Some (i, _) \<Rightarrow> list_all is_turn_context (drop (Suc i) c) | None \<Rightarrow> False"
  let ?k = "continuation_message te t (continuation_text manual ?recent)"
  have "fst (merge_consecutive_messages [agent_only summary, ?k]) = [agent_only summary, ?k]"
    using assms by (intro merge_two) simp
  then show ?thesis
    by (intro exI [of _ "continuation_text manual ?recent"], cases preserved)
      (auto simp: compacted_conversation_def continuation_message_def kept_after_def Let_def)
qed

lemma compact_messages_result:
  assumes "compact_messages env cx c manual w = (Inr r, w')"
  shows "\<exists>preserved summary t w1 w2. preserve env c manual w = (Inr preserved, w1)
    \<and> do_compact env cx c w1 = (Inr (summary, cr_usage r), w2) \<and> m_role summary = User \<and> t = e_now env (w_tick w2)
    \<and> cr_conversation r = compacted_conversation (e_text env) c manual preserved summary t"
proof -
  from assms obtain preserved w1 summary usage w2 where p: "preserve env c manual w = (Inr preserved, w1)"
    and d: "do_compact env cx c w1 = (Inr (summary, usage), w2)"
    and r: "cr_conversation r = compacted_conversation (e_text env) c manual preserved summary (e_now env (w_tick w2))"
      "cr_usage r = usage"
    by (auto simp: compact_messages_def io_bind_eq_Inr now_def ask_def Let_def)
  from d obtain tp where "summarize env (cx_summary cx) (Some (goose_estimator cx)) tp
      (agent_visible_messages (filter (\<lambda>m. \<not> is_turn_context m) c)) w1 = (Inr (summary, usage), w2)"
    by (auto simp: do_compact_def io_bind_eq_Inr)
  then have "m_role summary = User" using summarize_calls by blast
  with p d r show ?thesis by blast
qed

lemma first_opt_mem: "first_opt xs = Some x \<Longrightarrow> x \<in> set xs"
  by (cases xs) simp_all

lemma carried_context_SomeD:
  assumes "carried_context c i before = Some m"
  shows "\<exists>x \<in> set (drop (Suc i) c). is_turn_context x \<and> is_agent_visible x
    \<and> m = x\<lparr>m_id := None, m_created := Max (set (map m_created (x # before)))\<rparr>"
proof -
  let ?xs = "filter (\<lambda>m. is_turn_context m \<and> is_agent_visible m) (rev (drop (Suc i) c))"
  from assms obtain x where x: "first_opt ?xs = Some x"
    "m = x\<lparr>m_id := None, m_created := Max (set (map m_created (x # before)))\<rparr>"
    by (auto simp: carried_context_def)
  then have "x \<in> set ?xs" using first_opt_mem by fast
  with x(2) show ?thesis by auto
qed

lemma kept_after_visible:
  assumes "preserve env c manual w = (Inr preserved, w1)"
  shows "list_all is_agent_visible (kept_after c preserved before t)"
    and "\<forall>m \<in> set (kept_after c preserved before t). is_user_visible m \<longrightarrow> (\<exists>x \<in> set c. is_turn_context x \<and> is_user_visible x)"
proof -
  have "list_all (\<lambda>m. is_agent_visible m \<and> (is_user_visible m \<longrightarrow> (\<exists>x \<in> set c. is_turn_context x \<and> is_user_visible x)))
      (kept_after c preserved before t)"
  proof (cases preserved)
    case (Some p)
    obtain i m where p: "p = (i, m)" by fastforce
    have m: "m_metadata m = metadata_agent_only"
      using assms Some p by (auto simp: preserve_def io_bind_eq_Inr split: option.splits)
    show ?thesis
    proof (cases "carried_context c i (before @ [m\<lparr>m_created := t\<rparr>])")
      case None
      then show ?thesis using Some p m by (simp add: kept_after_def option_list_def is_agent_visible_def is_user_visible_def
          metadata_agent_only_def)
    next
      case carried: (Some x)
      from carried_context_SomeD [OF carried] obtain y where "y \<in> set c" "is_turn_context y" "is_agent_visible y"
        "is_user_visible x = is_user_visible y" "is_agent_visible x"
        by (auto simp: is_user_visible_def is_agent_visible_def dest: in_set_dropD)
      then show ?thesis using Some p m carried
        by (auto simp: kept_after_def option_list_def is_agent_visible_def is_user_visible_def metadata_agent_only_def)
    qed
  qed (simp add: kept_after_def)
  then show "list_all is_agent_visible (kept_after c preserved before t)"
    "\<forall>m \<in> set (kept_after c preserved before t). is_user_visible m \<longrightarrow> (\<exists>x \<in> set c. is_turn_context x \<and> is_user_visible x)"
    by (auto simp: list_all_iff)
qed

text \<open>The text of the last prompt comes first in what is kept.\<close>

definition keeps_prompt :: "bool \<Rightarrow> conversation \<Rightarrow> message list \<Rightarrow> bool" where
  "keeps_prompt manual c kept \<longleftrightarrow> (\<forall>i. \<not> manual \<and> rposition preservable c = Some i \<longrightarrow>
     (\<exists>p rest. kept = p # rest \<and> m_role p = User
        \<and> m_content p = filter is_text (m_content (agent_visible_content (c ! i)))))"

lemma compact_messages_shape:
  assumes "compact_messages env cx c manual w = (Inr r, w')"
  shows "\<exists>summary continuation kept. cr_conversation r = map hide_from_agent c @ [summary, continuation] @ kept
    \<and> m_role summary = User \<and> m_role continuation = Assistant
    \<and> list_all is_agent_visible ([summary, continuation] @ kept)
    \<and> \<not> is_user_visible summary \<and> \<not> is_user_visible continuation
    \<and> (\<forall>m \<in> set kept. is_user_visible m \<longrightarrow> (\<exists>x \<in> set c. is_turn_context x \<and> is_user_visible x))
    \<and> keeps_prompt manual c kept"
proof -
  from compact_messages_result [OF assms] obtain preserved summary t w1 w2 where
    p: "preserve env c manual w = (Inr preserved, w1)" and role: "m_role summary = User"
    and r: "cr_conversation r = compacted_conversation (e_text env) c manual preserved summary t" by blast
  from compacted_shape [OF role] obtain body where shape: "cr_conversation r = map hide_from_agent c
      @ [agent_only summary, continuation_message (e_text env) t body]
      @ kept_after c preserved (map hide_from_agent c @ [agent_only summary, continuation_message (e_text env) t body]) t"
    (is "_ = _ @ _ @ ?kept") unfolding r by blast
  have prompt: "keeps_prompt manual c ?kept"
    using p by (auto simp: keeps_prompt_def preserve_def io_bind_eq_Inr kept_after_def)
  show ?thesis
    using shape role kept_after_visible [OF p, of "map hide_from_agent c @ [agent_only summary, continuation_message (e_text env) t body]" t] prompt
    by (intro exI [of _ "agent_only summary"] exI [of _ "continuation_message (e_text env) t body"] exI [of _ ?kept]) simp
qed

lemma user_view_hidden:
  "user_visible_messages (map hide_from_agent c @ rest) =
     map hide_from_agent (user_visible_messages c) @ user_visible_messages rest"
  by (auto simp: user_visible_messages_def filter_map comp_def user_visible_content_def hide_from_agent_def is_user_visible_def)

text \<open>Claim C26 (compaction_views): a compaction replaces what the model sees and nothing of what the user sees.
  The original messages stay, in order, hidden from the model; the model sees exactly the summary,
  a continuation and what is kept of the current turn, which begins with the text of the user's last
  prompt unless the compaction was asked for by hand; and the user's view is the one before,
  as turn contexts are never shown to the user.\<close>

theorem compaction_views:
  assumes "compact_messages env cx c manual w = (Inr r, w')"
    and "list_all (\<lambda>m. is_turn_context m \<longrightarrow> \<not> is_user_visible m) c"
  shows "\<exists>summary continuation kept. cr_conversation r = map hide_from_agent c @ [summary, continuation] @ kept
    \<and> filter is_agent_visible (cr_conversation r) = [summary, continuation] @ kept
    \<and> m_role summary = User \<and> m_role continuation = Assistant
    \<and> user_visible_messages (cr_conversation r) = map hide_from_agent (user_visible_messages c)
    \<and> keeps_prompt manual c kept"
proof -
  from compact_messages_shape [OF assms(1)] obtain summary continuation kept where
    shape: "cr_conversation r = map hide_from_agent c @ [summary, continuation] @ kept"
    and roles: "m_role summary = User" "m_role continuation = Assistant"
    and seen: "list_all is_agent_visible ([summary, continuation] @ kept)"
    and unseen: "\<not> is_user_visible summary" "\<not> is_user_visible continuation"
      "\<forall>m \<in> set kept. is_user_visible m \<longrightarrow> (\<exists>x \<in> set c. is_turn_context x \<and> is_user_visible x)"
    and prompt: "keeps_prompt manual c kept"
    by blast
  have "filter is_user_visible kept = []" using unseen(3) assms(2) by (auto simp: filter_empty_conv list_all_iff)
  then have "user_visible_messages ([summary, continuation] @ kept) = []"
    using unseen by (simp add: user_visible_messages_def)
  then have "user_visible_messages (cr_conversation r) = map hide_from_agent (user_visible_messages c)"
    unfolding shape user_view_hidden by simp
  moreover have "filter is_agent_visible (cr_conversation r) = [summary, continuation] @ kept"
    using seen by (simp add: shape filter_empty_conv list_all_iff)
  ultimately show ?thesis
    using shape roles prompt
    by (intro exI [of _ summary] exI [of _ continuation] exI [of _ kept] conjI) assumption+
qed

subsection \<open>How often an overflowing context is compacted\<close>

lemma hide_last_map: "map hide_from_agent (hide_last c) = map hide_from_agent c"
  by (cases c rule: rev_cases) (simp_all add: hide_last_def)

lemma hide_last_contexts:
  "list_all (\<lambda>m. is_turn_context m \<longrightarrow> \<not> is_user_visible m) (hide_last c) = list_all (\<lambda>m. is_turn_context m \<longrightarrow> \<not> is_user_visible m) c"
  by (cases c rule: rev_cases) (simp_all add: hide_last_def)

lemma auto_compact_replaces:
  assumes "auto_compact env cx c w = (Inr (Applied r), w')" and "GReplaceConversation c2 u \<in> set (sr_effects r)"
  shows "\<exists>(w1 :: goose_world) w2 res. compact_messages env cx c False w1 = (Inr res, w2) \<and> c2 = cr_conversation res"
proof -
  from assms(1) obtain result w1 w2 w3 where run: "try_compact env cx c False w1 = (Inr result, w2)"
    and rest: "(case result of
         Inr r \<Rightarrow> io_bind (notify env InlineMessage ''Compaction complete'') (\<lambda>_.
             applied [GReplaceConversation (cr_conversation r) (Some (cr_usage r))])
       | Inl e \<Rightarrow> io_bind (emit_message_now env (\<lambda>t. with_text (e_text env)
               (''Ran into this error trying to compact: '' @ e @ ''.'' @ [NL, NL]
                @ ''Please try again or create a new session'') (message_assistant t))) (\<lambda>_. yielded)) w2 = (Inr (Applied r), w3)"
    unfolding auto_compact_def io_bind_eq_Inr by blast
  show ?thesis
  proof (cases result)
    case (Inl e)
    with rest assms(2) show ?thesis by (auto simp: io_bind_eq_Inr yielded_def io_ok_def)
  next
    case (Inr res)
    with rest assms(2) have "c2 = cr_conversation res" by (auto simp: io_bind_eq_Inr applied_eq)
    moreover have "compact_messages env cx c False w1 = (Inr res, w2)"
      using run Inr by (auto simp: try_compact_def map_prod_def split: prod.splits)
    ultimately show ?thesis by blast
  qed
qed

lemma reactive_compaction:
  assumes "compaction_run env cx s c w = (Inr (Applied r), w')" and "GReplaceConversation c2 u \<in> set (sr_effects r)"
    and "trailing_error c = Some ContextLengthExceeded"
  shows "\<exists>turn (w1 :: goose_world) w2 res. messages_since_kickoff c = Inr turn \<and> hidden_context_errors turn \<le> MAX_CONTEXT_ERROR_COMPACTIONS
    \<and> compact_messages env cx (hide_last c) False w1 = (Inr res, w2) \<and> c2 = cr_conversation res"
proof -
  from assms(1,3) obtain turn w1 where "messages_since_kickoff c = Inr turn"
    "hidden_context_errors turn \<le> MAX_CONTEXT_ERROR_COMPACTIONS" "auto_compact env cx (hide_last c) w1 = (Inr (Applied r), w')"
    by (auto simp: compaction_run_def io_bind_eq_Inr not_applicable_def io_ok_def not_less split: if_splits)
  then show ?thesis using auto_compact_replaces [OF _ assms(2)] by blast
qed

text \<open>A session whose context overflowed and was compacted so many times in one turn.\<close>

abbreviation within_turn :: "message \<Rightarrow> bool" where
  "within_turn m \<equiv> \<not> is_kickoff m \<and> (is_turn_context m \<longrightarrow> \<not> is_user_visible m)"

inductive recompacted :: "goose_env \<Rightarrow> compaction_env \<Rightarrow> session \<Rightarrow> conversation \<Rightarrow> nat \<Rightarrow> conversation \<Rightarrow> bool"
  for env cx s c where
  recompacted_none: "list_all within_turn ms \<Longrightarrow> recompacted env cx s c 0 (c @ ms)"
| recompacted_again: "recompacted env cx s c n c1 \<Longrightarrow> trailing_error c1 = Some ContextLengthExceeded
    \<Longrightarrow> \<not> is_agent_visible (last c1) \<Longrightarrow> compaction_run env cx s c1 w = (Inr (Applied r), w')
    \<Longrightarrow> GReplaceConversation c2 u \<in> set (sr_effects r) \<Longrightarrow> list_all within_turn ms
    \<Longrightarrow> recompacted env cx s c (Suc n) (c2 @ ms)"

lemma hidden_errors_append: "hidden_context_errors (a @ b) = hidden_context_errors a + hidden_context_errors b"
  by (simp add: hidden_context_errors_def)

lemma hidden_errors_hide: "hidden_context_errors t \<le> hidden_context_errors (map hide_from_agent t)"
  by (induction t) (auto simp: hidden_context_errors_def)

lemma kickoff_hidden:
  assumes "messages_since_kickoff c = Inr t" and "list_all (\<lambda>m. \<not> is_kickoff m) rest"
  shows "messages_since_kickoff (map hide_from_agent c @ rest) = Inr (map hide_from_agent t @ rest)"
proof -
  have "messages_since_kickoff (map hide_from_agent c) = Inr (map hide_from_agent t)"
    using assms(1) by (force simp: messages_since_kickoff_eq_Inr list.pred_map comp_def)
  then show ?thesis using messages_since_kickoff_append assms(2) by blast
qed

text \<open>The errors of the turn: those already compacted away, and the last one when it is hidden.\<close>

lemma recompacted_errors:
  assumes "recompacted env cx s c n c'" and "messages_since_kickoff c = Inr turn"
    and "list_all (\<lambda>m. is_turn_context m \<longrightarrow> \<not> is_user_visible m) c"
  shows "\<exists>turn'. messages_since_kickoff c' = Inr turn' \<and> n \<le> MAX_CONTEXT_ERROR_COMPACTIONS
    \<and> list_all (\<lambda>m. is_turn_context m \<longrightarrow> \<not> is_user_visible m) c'
    \<and> n + (if trailing_error c' = Some ContextLengthExceeded \<and> \<not> is_agent_visible (last c') then 1 else 0)
        \<le> hidden_context_errors turn'"
  using assms
proof (induction rule: recompacted.induct)
  case (recompacted_none ms)
  have turn: "messages_since_kickoff (c @ ms) = Inr (turn @ ms)"
    using messages_since_kickoff_append [OF recompacted_none.prems(1)] recompacted_none.hyps by (simp add: list_all_iff)
  have "hidden_context_errors (turn @ ms) \<ge> 1"
    if "trailing_error (c @ ms) = Some ContextLengthExceeded" "\<not> is_agent_visible (last (c @ ms))"
  proof -
    let ?x = "last (c @ ms)"
    have x: "error_kind ?x = Some ContextLengthExceeded" "last_opt (turn @ ms) = Some ?x"
      using that(1) last_opt_turn [OF turn] by (auto simp: trailing_error_def last_opt_def split: if_splits)
    then obtain pre where "turn @ ms = pre @ [?x]" by (auto simp: last_opt_eq_Some)
    moreover have "hidden_context_errors [?x] = 1" using x(1) that(2) by (simp add: hidden_context_errors_def)
    ultimately show ?thesis using hidden_errors_append [of pre "[?x]"] by simp
  qed
  then show ?case using turn recompacted_none by (auto simp: list_all_iff)
next
  case (recompacted_again n c1 w r w' c2 u ms)
  from recompacted_again.IH [OF recompacted_again.prems] recompacted_again.hyps obtain turn1 where
    t1: "messages_since_kickoff c1 = Inr turn1" "Suc n \<le> hidden_context_errors turn1"
    and ctx: "list_all (\<lambda>m. is_turn_context m \<longrightarrow> \<not> is_user_visible m) c1" by auto
  from reactive_compaction [OF recompacted_again.hyps(4,5,2)] t1(1) obtain w1 w2 :: goose_world and res where
    few: "hidden_context_errors turn1 \<le> MAX_CONTEXT_ERROR_COMPACTIONS"
    and c2: "compact_messages env cx (hide_last c1) False w1 = (Inr res, w2)" "c2 = cr_conversation res" by auto
  from compact_messages_shape [OF c2(1)] obtain summary continuation kept where
    shape: "c2 = map hide_from_agent c1 @ [summary, continuation] @ kept"
    and seen: "list_all is_agent_visible ([summary, continuation] @ kept)"
    and unseen: "\<not> is_user_visible summary" "\<not> is_user_visible continuation"
      "\<forall>m \<in> set kept. is_user_visible m \<longrightarrow> (\<exists>x \<in> set (hide_last c1). is_turn_context x \<and> is_user_visible x)"
    unfolding c2(2) hide_last_map by blast
  have rest: "list_all (\<lambda>m. \<not> is_user_visible m) ([summary, continuation] @ kept)"
    using unseen ctx hide_last_contexts [of c1] by (auto simp: list_all_iff)
  let ?rest = "([summary, continuation] @ kept) @ ms" let ?turn = "map hide_from_agent turn1 @ ?rest"
  have "list_all (\<lambda>m. \<not> is_kickoff m) ?rest"
    using rest recompacted_again.hyps(6) by (auto simp: list_all_iff is_kickoff_def)
  from kickoff_hidden [OF t1(1) this] have turn: "messages_since_kickoff (c2 @ ms) = Inr ?turn" by (simp add: shape)
  have errors: "Suc n \<le> hidden_context_errors (map hide_from_agent turn1 @ [summary, continuation] @ kept)"
    using t1(2) hidden_errors_hide [of turn1] unfolding hidden_errors_append [of "map hide_from_agent turn1"] by linarith
  have "Suc n + (if trailing_error (c2 @ ms) = Some ContextLengthExceeded \<and> \<not> is_agent_visible (last (c2 @ ms)) then 1 else 0)
      \<le> hidden_context_errors ?turn"
  proof (cases "ms = []")
    case True
    have "last (c2 @ ms) \<in> set ([summary, continuation] @ kept)" using True by (simp add: shape)
    then have "is_agent_visible (last (c2 @ ms))" using seen by (auto simp: list_all_iff)
    then show ?thesis using errors hidden_errors_append [of _ ms] by (simp add: True)
  next
    case False
    then obtain pre x where ms: "ms = pre @ [x]" by (metis rev_exhaust)
    have "(if trailing_error (c2 @ ms) = Some ContextLengthExceeded \<and> \<not> is_agent_visible (last (c2 @ ms)) then 1 else 0)
        \<le> hidden_context_errors ms"
      unfolding ms by (auto simp: hidden_errors_append) (auto simp: hidden_context_errors_def trailing_error_def last_opt_def)
    then show ?thesis using errors hidden_errors_append [of "map hide_from_agent turn1 @ [summary, continuation] @ kept" ms] by simp
  qed
  moreover have "list_all (\<lambda>m. is_turn_context m \<longrightarrow> \<not> is_user_visible m) (c2 @ ms)"
    using ctx rest recompacted_again.hyps(6) by (auto simp: shape list_all_iff)
  ultimately show ?case using turn t1(2) few by auto
qed

text \<open>Claim C27 (context_compactions_bounded): when the model keeps rejecting the context of a turn as too long,
  the history is compacted at most twice in that turn, whatever happens in between; after that the
  error ends the turn. It supposes, as errors are made, that the model does not see them.\<close>

theorem context_compactions_bounded:
  assumes "recompacted env cx s c n c'" and "messages_since_kickoff c = Inr turn"
    and "list_all (\<lambda>m. is_turn_context m \<longrightarrow> \<not> is_user_visible m) c"
  shows "n \<le> 2"
  using recompacted_errors [OF assms] by (auto simp: MAX_CONTEXT_ERROR_COMPACTIONS_def)

subsection \<open>Which tool calls are summarized\<close>

definition pair_ids :: "conversation \<Rightarrow> string \<Rightarrow> string set" where
  "pair_ids c tid = set (filter_map m_id (stored_pair c tid))"

text \<open>Two stored messages, the calls of the one being exactly those the other answers.\<close>

definition complete_pair :: "conversation \<Rightarrow> string \<Rightarrow> bool" where
  "complete_pair c tid \<longleftrightarrow> length (stored_pair c tid) = 2
     \<and> \<Union> (set (map get_tool_request_ids (stored_pair c tid))) = \<Union> (set (map get_tool_response_ids (stored_pair c tid)))"

definition pair_effects :: "conversation \<Rightarrow> string \<times> message \<Rightarrow> goose_effect list" where
  "pair_effects c g = concat (map hide_message (stored_pair c (fst g))) @ [from_message (snd g)]"

lemma summary_of_call:
  assumes "summarize_tool_call env cx c tid w = (Inr m, w')"
  shows "m_role m = User \<and> m_metadata m = metadata_agent_only \<and> m_id m \<noteq> None"
proof -
  from assms obtain matching :: "message list" and answer :: "provider_error + message \<times> provider_usage"
      and w2 :: "'a world_scheme" where
    "(case answer of Inl e \<Rightarrow> io_err (show_provider_error e)
      | Inr (response, _) \<Rightarrow> io_bind (new_uuid env) (\<lambda>u. io_ok (response\<lparr>m_role := User, m_created := m_created (last matching),
          m_metadata := metadata_agent_only, m_id := Some (''msg_'' @ u)\<rparr>))) w2 = (Inr m, w')"
    unfolding summarize_tool_call_def io_bind_eq_Inr Let_def by blast
  then show ?thesis by (cases answer) (auto simp: io_bind_eq_Inr)
qed

lemma summarize_pairs_groups:
  assumes "summarize_pairs env cx c tids hidden w = (Inr es, w')"
  shows "\<exists>groups. es = concat (map (pair_effects c) groups) \<and> subseq (map fst groups) tids
    \<and> (\<forall>g \<in> set groups. complete_pair c (fst g) \<and> pair_ids c (fst g) \<inter> hidden = {}
          \<and> m_role (snd g) = User \<and> m_metadata (snd g) = metadata_agent_only)
    \<and> sorted_wrt (\<lambda>a b. pair_ids c (fst a) \<inter> pair_ids c (fst b) = {}) groups"
  using assms
proof (induction tids arbitrary: hidden w es w')
  case (Cons tid tids)
  let ?skip = "length (stored_pair c tid) \<noteq> 2 \<or> pair_ids c tid \<inter> hidden \<noteq> {}
    \<or> \<Union> (set (map get_tool_request_ids (stored_pair c tid))) \<noteq> \<Union> (set (map get_tool_response_ids (stored_pair c tid)))"
  have skipped: "?case" if run: "summarize_pairs env cx c tids hidden w1 = (Inr es, w')" for w1
    using Cons.IH [OF run] by (auto intro: list_emb_Cons)
  show ?case
  proof (cases ?skip)
    case True
    then show ?thesis using Cons.prems skipped by (simp add: Let_def pair_ids_def)
  next
    case False
    let ?run = "io_bind (try_summarize_tool_call env cx c tid) (\<lambda>summary. case summary of
        Inl _ \<Rightarrow> summarize_pairs env cx c tids hidden
      | Inr m \<Rightarrow> io_bind (summarize_pairs env cx c tids (hidden \<union> pair_ids c tid)) (\<lambda>es.
          io_ok (concat (map hide_message (stored_pair c tid)) @ [from_message m] @ es)))"
    from Cons.prems have "(if ?skip then summarize_pairs env cx c tids hidden else ?run) w = (Inr es, w')"
      by (simp only: summarize_pairs.simps Let_def pair_ids_def)
    then have "?run w = (Inr es, w')" unfolding if_not_P [OF False] .
    then obtain summary w1 where sum: "try_summarize_tool_call env cx c tid w = (Inr summary, w1)"
      and rest: "(case summary of Inl _ \<Rightarrow> summarize_pairs env cx c tids hidden
        | Inr m \<Rightarrow> io_bind (summarize_pairs env cx c tids (hidden \<union> pair_ids c tid)) (\<lambda>es.
            io_ok (concat (map hide_message (stored_pair c tid)) @ [from_message m] @ es))) w1 = (Inr es, w')"
      unfolding io_bind_eq_Inr by blast
    show ?thesis
    proof (cases summary)
      case (Inl e)
      then show ?thesis using rest skipped by simp
    next
      case (Inr m)
      with rest obtain es' w2 where es: "es = pair_effects c (tid, m) @ es'"
        and run: "summarize_pairs env cx c tids (hidden \<union> pair_ids c tid) w1 = (Inr es', w2)"
        by (auto simp: io_bind_eq_Inr pair_effects_def)
      from Cons.IH [OF run] obtain groups where g: "es' = concat (map (pair_effects c) groups)" "subseq (map fst groups) tids"
        "\<forall>g \<in> set groups. complete_pair c (fst g) \<and> pair_ids c (fst g) \<inter> (hidden \<union> pair_ids c tid) = {}
          \<and> m_role (snd g) = User \<and> m_metadata (snd g) = metadata_agent_only"
        "sorted_wrt (\<lambda>a b. pair_ids c (fst a) \<inter> pair_ids c (fst b) = {}) groups" by blast
      have "m_role m = User \<and> m_metadata m = metadata_agent_only"
        using sum Inr summary_of_call by (fastforce simp: try_summarize_tool_call_def map_prod_def split: prod.splits)
      moreover have "complete_pair c tid" using False by (simp add: complete_pair_def)
      ultimately show ?thesis
        using False g es by (intro exI [of _ "(tid, m) # groups"]) auto
    qed
  qed
qed (simp add: exI [of _ "[]"])

lemma visible_ids_subseq: "length (visible_request_ids c) \<le> length (filter_map request_id (concat (map m_content c)))"
  "set (visible_request_ids c) \<subseteq> set (filter_map request_id (concat (map m_content c)))"
  by (induction c) (auto simp: visible_request_ids_def filter_map_append)

lemma old_tool_ids:
  assumes "messages_since_kickoff c = Inr turn" and "distinct (filter_map request_id (concat (map m_content c)))"
    and "tid \<in> set (tool_ids_to_summarize c cutoff (length (filter_map request_id (concat (map m_content turn)))))"
  shows "tid \<notin> set (filter_map request_id (concat (map m_content turn)))"
proof -
  let ?R = "\<lambda>c. filter_map request_id (concat (map m_content c))"
  from messages_since_kickoff_suffix [OF assms(1)] obtain pre where c: "c = pre @ turn" by (auto simp: suffix_def)
  have "visible_request_ids c = visible_request_ids pre @ visible_request_ids turn"
    by (simp add: c visible_request_ids_def filter_map_append)
  moreover have "TOOLCALL_SUMMARIZATION_BATCH_SIZE < length (visible_request_ids c) - length (?R turn)"
    and chosen: "tid \<in> set (take TOOLCALL_SUMMARIZATION_BATCH_SIZE (visible_request_ids c))"
    using assms(3) by (auto simp: tool_ids_to_summarize_def Let_def split: if_splits)
  ultimately have "TOOLCALL_SUMMARIZATION_BATCH_SIZE \<le> length (visible_request_ids pre)"
    "visible_request_ids c = visible_request_ids pre @ visible_request_ids turn"
    using visible_ids_subseq(1) [of turn] by simp_all
  with chosen have "tid \<in> set (visible_request_ids pre)" using in_set_takeD by fastforce
  then have "tid \<in> set (?R pre)" using visible_ids_subseq(2) by blast
  then show ?thesis using assms(2) by (auto simp: c filter_map_append)
qed


subsection \<open>Sample compactions\<close>

definition sample_compaction_env :: compaction_env where
  "sample_compaction_env =
     \<lparr>cx_summary = sample_summary_env\<lparr>sx_complete := (\<lambda>_ _ _. Inr (message_new Assistant 9 [sample_text ''sum''],
        provider_usage_new ''m'' (usage_new None None None)))\<rparr>,
      cx_templates = Inr \<lparr>tp_compaction = [], tp_summary = []\<rparr>, cx_counter = Inl ''none'',
      cx_float = \<lparr>fo_of_nat = (\<lambda>_. 0), fo_of_i32 = (\<lambda>_. 0), fo_mul = (\<lambda>_ _. 0), fo_div = (\<lambda>_ _. 0),
        fo_le = (\<lambda>_ _. False), fo_less = (\<lambda>_ _. True), fo_to_usize = (\<lambda>_. 0), fo_to_u32 = (\<lambda>_. 0), fo_to_i32 = (\<lambda>_. 0)\<rparr>,
      cx_context_limit = 0, cx_threshold = 0, cx_manages_own_context = False, cx_recipe = sample_recipe_env\<rparr>"

definition sample_prompt :: conversation where
  "sample_prompt = [message_new User 1 [sample_text ''go'']]"

lemma sample_compacts: "\<exists>r w'. compact_messages sample_goose_env sample_compaction_env c manual w = (Inr r, w')"
proof -
  obtain p w1 where "preserve sample_goose_env c manual w = (Inr p, w1)"
    by (cases "if manual then None else rposition preservable c") (auto simp: preserve_def io_simps now_def ask_def)
  moreover obtain m u w2 where "do_compact sample_goose_env sample_compaction_env c w1 = (Inr (m, u), w2)"
    by (simp add: do_compact_def sample_compaction_env_def sample_summary_env_def summarize_def REMOVAL_PERCENTAGES_def io_simps
        now_def ask_def summary_prompt_def render_def Let_def)
  ultimately show ?thesis
    by (simp add: compact_messages_def io_bind_def now_def ask_def Let_def)
qed

theorem compaction_views_witness:
  "\<exists>r w' summary continuation kept. compact_messages sample_goose_env sample_compaction_env sample_prompt False sample_goose_world = (Inr r, w')
    \<and> filter is_agent_visible (cr_conversation r) = [summary, continuation] @ kept
    \<and> user_visible_messages (cr_conversation r) = map hide_from_agent (user_visible_messages sample_prompt)
    \<and> keeps_prompt False sample_prompt kept"
proof -
  obtain r w' where run: "compact_messages sample_goose_env sample_compaction_env sample_prompt False sample_goose_world = (Inr r, w')"
    using sample_compacts by blast
  have "list_all (\<lambda>m. is_turn_context m \<longrightarrow> \<not> is_user_visible m) sample_prompt" by code_simp
  from compaction_views [OF run this] run show ?thesis by blast
qed

definition sample_overflow :: conversation where
  "sample_overflow = sample_prompt @ [with_error ContextLengthExceeded ''full'' (message_assistant 2)]"

lemma notify_returns: "\<exists>m w'. notify env ty msg w = (Inr m, w')"
  by (simp add: notify_def emit_message_now_def emit_message_def io_simps now_def ask_def new_uuid_def emit_event_def Let_def)

lemma sample_auto_compacts:
  "\<exists>r w' c2 u. auto_compact sample_goose_env sample_compaction_env c w = (Inr (Applied r), w') \<and> sr_effects r = [GReplaceConversation c2 u]"
proof -
  have attempt: "\<exists>r w'. try_compact sample_goose_env sample_compaction_env c False w = (Inr (Inr r), w')" for w
    using sample_compacts [of c False w] by (auto simp: try_compact_def)
  obtain m1 w1 where n1: "notify sample_goose_env InlineMessage (''Exceeded auto-compact threshold of ''
         @ show_nat (unat (fo_to_u32 (cx_float sample_compaction_env)
             (fo_mul (cx_float sample_compaction_env) (cx_threshold sample_compaction_env) F64_HUNDRED)))
         @ ''%. Performing auto-compaction...'') w = (Inr m1, w1)" using notify_returns by blast
  obtain m2 w2 where n2: "notify sample_goose_env ThinkingMessage COMPACTION_THINKING_TEXT w1 = (Inr m2, w2)"
    using notify_returns by blast
  obtain r w3 where r: "try_compact sample_goose_env sample_compaction_env c False w2 = (Inr (Inr r), w3)"
    using attempt by blast
  obtain m3 w4 where n3: "notify sample_goose_env InlineMessage ''Compaction complete'' w3 = (Inr m3, w4)"
    using notify_returns by blast
  show ?thesis
    unfolding auto_compact_def io_bind_def n1 n2 prod.case sum.case r n3 by (simp add: applied_eq)
qed

theorem context_compactions_bounded_witness:
  "\<exists>c2. recompacted sample_goose_env sample_compaction_env (sample_session []) sample_prompt 1 c2 \<and> (1 :: nat) \<le> 2"
proof -
  have none: "recompacted sample_goose_env sample_compaction_env (sample_session []) sample_prompt 0 sample_overflow"
    unfolding sample_overflow_def by (rule recompacted_none) code_simp
  have overflow: "trailing_error sample_overflow = Some ContextLengthExceeded" "\<not> is_agent_visible (last sample_overflow)"
    "messages_since_kickoff sample_overflow = Inr sample_overflow" "hidden_context_errors sample_overflow \<le> MAX_CONTEXT_ERROR_COMPACTIONS"
    "sample_overflow \<noteq> []" by code_simp+
  from sample_auto_compacts obtain r w' c2 u where
    auto: "auto_compact sample_goose_env sample_compaction_env (hide_last sample_overflow) sample_goose_world = (Inr (Applied r), w')"
    and es: "sr_effects r = [GReplaceConversation c2 u]" by blast
  from auto overflow have run: "compaction_run sample_goose_env sample_compaction_env (sample_session []) sample_overflow sample_goose_world
      = (Inr (Applied r), w')"
    by (simp add: compaction_run_def io_bind_def io_of_def sample_compaction_env_def)
  from recompacted_again [OF none overflow(1,2) run, of c2 u "[]"] es
  have once: "recompacted sample_goose_env sample_compaction_env (sample_session []) sample_prompt 1 c2" by simp
  have "messages_since_kickoff sample_prompt = Inr sample_prompt"
    "list_all (\<lambda>m. is_turn_context m \<longrightarrow> \<not> is_user_visible m) sample_prompt" by code_simp+
  from context_compactions_bounded [OF once this] once show ?thesis by blast
qed

definition sample_history :: conversation where
  "sample_history =
     [(message_new Assistant 1 [sample_call ''a''])\<lparr>m_id := Some ''1''\<rparr>,
      (message_new User 2 [ToolResponse \<lparr>ts_id = ''a'', ts_tool_result = Inr (call_tool_success []), ts_metadata = None\<rparr>])
        \<lparr>m_id := Some ''2''\<rparr>,
      message_new Assistant 3 (map sample_call [''b'', ''c'', ''d'', ''e'', ''f'', ''g'', ''h'', ''i'', ''j'', ''k'']),
      message_new User 4 [sample_text ''go'']]"

definition has_effects :: "(anyhow + goose_effect operation_result) \<Rightarrow> bool" where
  "has_effects res = (case res of Inr (Applied r) \<Rightarrow> sr_effects r \<noteq> [] | _ \<Rightarrow> False)"

lemma sample_pair_summarized:
  "has_effects (fst (tool_pair_compaction_run sample_goose_env sample_compaction_env 0 True (sample_session []) sample_history sample_goose_world))"
  by code_simp


end
