(* ===== verification/Think_Filter.thy ===== *)
theory Think_Filter
  imports Rust_Str
begin

section \<open>Inline reasoning of a model\<close>

text \<open>
  \<open>thinking.rs\<close> of \<open>crates/goose-provider-types\<close>: models without a field for their reasoning
  write it into the answer between \<open>think\<close> tags. The filter takes the tags out of a stream and
  tells the reasoning from the visible text; what could be the beginning of a tag stays in its
  buffer until more text arrives. Positions in the buffer are byte offsets, as in the code, and a
  tag is parsed from the text that starts at it. The nesting depth is a natural number (the code's
  \<open>usize\<close> counts at most one level per five bytes of the stream).
\<close>

definition MAX_BUFFERED_THINK_TAG_BYTES :: nat where
  "MAX_BUFFERED_THINK_TAG_BYTES = 8 * 1024"

record filter_out =
  fo_content :: string
  fo_thinking :: string

record think_filter =
  tf_buffer :: string
  tf_inside_think :: bool
  tf_think_depth :: nat

datatype think_tag = TagOpen | TagClose | TagSelfClosing

datatype buffer_event = TagAt nat nat think_tag | OversizedTag nat | PartialAt nat

definition think_filter_new :: think_filter where
  "think_filter_new = \<lparr>tf_buffer = [], tf_inside_think = False, tf_think_depth = 0\<rparr>"

definition filter_out_default :: filter_out where
  "filter_out_default = \<lparr>fo_content = [], fo_thinking = []\<rparr>"

subsection \<open>Tags\<close>

definition is_ascii_alphabetic :: "char \<Rightarrow> bool" where
  "is_ascii_alphabetic c = (is_ascii_lower c \<or> is_ascii_upper c)"

definition is_ascii_whitespace :: "char \<Rightarrow> bool" where
  "is_ascii_whitespace c = (c \<in> {SPACE, TAB, NL, CR, CHR 0x0C})"

definition is_quote :: "char \<Rightarrow> bool" where
  "is_quote c = (c = CHR 0x22 \<or> c = CHR 0x27)"

fun contains_gt_from :: "char option \<Rightarrow> string \<Rightarrow> bool" where
  "contains_gt_from q [] = False"
| "contains_gt_from (Some q) (c # s) = contains_gt_from (if c = q then None else Some q) s"
| "contains_gt_from None (c # s) =
     (if is_quote c then contains_gt_from (Some c) s
      else if c = CHR ''>'' then True
      else contains_gt_from None s)"

definition contains_unquoted_gt :: "string \<Rightarrow> bool" where
  "contains_unquoted_gt s = contains_gt_from None s"

text \<open>The attributes of an opening tag, up to the first \<open>>\<close> outside of quotes; the result has
  what follows it.\<close>

fun tag_attributes :: "char option \<Rightarrow> char option \<Rightarrow> string \<Rightarrow> (think_tag \<times> string) option" where
  "tag_attributes q l [] = None"
| "tag_attributes (Some q) l (c # s) = tag_attributes (if c = q then None else Some q) l s"
| "tag_attributes None l (c # s) =
     (if is_quote c then tag_attributes (Some c) (Some c) s
      else if c = CHR ''>'' then Some (if l = Some (CHR ''/'') then TagSelfClosing else TagOpen, s)
      else if \<not> is_ascii_whitespace c then tag_attributes None (Some c) s
      else tag_attributes None l s)"

definition is_think_name :: "string \<Rightarrow> bool" where
  "is_think_name name = (to_ascii_lowercase name \<in> {''think'', ''thinking''})"

definition close_tag_rest :: "string \<Rightarrow> (think_tag \<times> string) option" where
  "close_tag_rest s =
     (case dropWhile is_ascii_whitespace s of
        c # rest \<Rightarrow> if c = CHR ''>'' then Some (TagClose, rest) else None
      | [] \<Rightarrow> None)"

definition open_tag_rest :: "string \<Rightarrow> (think_tag \<times> string) option" where
  "open_tag_rest s =
     (case s of
        c # _ \<Rightarrow> if c = CHR ''>'' \<or> c = CHR ''/'' \<or> is_ascii_whitespace c then tag_attributes None None s else None
      | [] \<Rightarrow> None)"

text \<open>The tag at the start of a text, with the text behind it.\<close>

definition parse_think_tag :: "string \<Rightarrow> (think_tag \<times> string) option" where
  "parse_think_tag s =
     (case s of
        [] \<Rightarrow> None
      | c # r \<Rightarrow>
          if c \<noteq> CHR ''<'' then None
          else
            (let is_close = (r \<noteq> [] \<and> hd r = CHR ''/'');
                 body = (if is_close then tl r else r);
                 name = takeWhile is_ascii_alphabetic body;
                 rest = dropWhile is_ascii_alphabetic body in
             if name = [] \<or> \<not> is_think_name name then None
             else if is_close then close_tag_rest rest
             else open_tag_rest rest))"

text \<open>The two regular expressions are case-insensitive, so the letter k also stands for the Kelvin
  sign, and their white space is that of Unicode.\<close>

definition KELVIN :: string where
  "KELVIN = [CHR 0xE2, CHR 0x84, CHR 0xAA]"

fun eat_letters :: "string \<Rightarrow> string \<Rightarrow> string" where
  "eat_letters [] s = s"
| "eat_letters (l # ls) [] = []"
| "eat_letters (l # ls) (c # s) =
     (if ascii_lower c = l then eat_letters ls s
      else if l = CHR ''k'' \<and> prefix KELVIN (c # s) then eat_letters ls (drop 2 s)
      else c # s)"

definition eat_tag_name :: "string \<Rightarrow> string option" where
  "eat_tag_name s =
     (case s of
        c # r \<Rightarrow> if ascii_lower c = CHR ''t'' then Some (eat_letters ''hinking'' r) else None
      | [] \<Rightarrow> None)"

definition open_re :: "string \<Rightarrow> bool" where
  "open_re s =
     (case s of
        c # r \<Rightarrow> c = CHR ''<'' \<and>
          (case eat_tag_name r of
             Some rest \<Rightarrow> rest = [] \<or> rest = ''/'' \<or> first_seq ws_seqs rest \<noteq> None
           | None \<Rightarrow> False)
      | [] \<Rightarrow> False)"

definition close_re :: "string \<Rightarrow> bool" where
  "close_re s =
     (case s of
        c # d # r \<Rightarrow> c = CHR ''<'' \<and> d = CHR ''/'' \<and>
          (case eat_tag_name r of
             Some rest \<Rightarrow> strip_seqs ws_seqs rest = []
           | None \<Rightarrow> False)
      | _ \<Rightarrow> False)"

definition is_possible_partial_think_tag :: "string \<Rightarrow> bool" where
  "is_possible_partial_think_tag s = (\<not> contains_unquoted_gt s \<and> (open_re s \<or> close_re s))"

subsection \<open>The filter\<close>

fun buffer_event_from :: "bool \<Rightarrow> nat \<Rightarrow> string \<Rightarrow> buffer_event option" where
  "buffer_event_from inside pos [] = None"
| "buffer_event_from inside pos (c # s) =
     (if c \<noteq> CHR ''<'' then buffer_event_from inside (Suc pos) s
      else (case parse_think_tag (c # s) of
          Some (kind, rest) \<Rightarrow>
            let end_pos = pos + (length (c # s) - length rest) in
            if end_pos - pos > MAX_BUFFERED_THINK_TAG_BYTES then Some (OversizedTag end_pos)
            else if inside \<or> kind \<in> {TagOpen, TagSelfClosing} then Some (TagAt pos end_pos kind)
            else buffer_event_from inside (Suc pos) s
        | None \<Rightarrow>
            if \<not> contains_unquoted_gt (c # s) \<and> is_possible_partial_think_tag (c # s) then Some (PartialAt pos)
            else buffer_event_from inside (Suc pos) s))"

definition next_buffer_event :: "string \<Rightarrow> bool \<Rightarrow> buffer_event option" where
  "next_buffer_event buffer inside_think = buffer_event_from inside_think 0 buffer"

definition push_side :: "bool \<Rightarrow> string \<Rightarrow> filter_out \<Rightarrow> filter_out" where
  "push_side inside t out =
     (if inside then out\<lparr>fo_thinking := fo_thinking out @ t\<rparr> else out\<lparr>fo_content := fo_content out @ t\<rparr>)"

definition apply_tag :: "think_tag \<Rightarrow> think_filter \<Rightarrow> think_filter" where
  "apply_tag kind tf =
     (case kind of
        TagOpen \<Rightarrow> tf\<lparr>tf_think_depth := tf_think_depth tf + 1, tf_inside_think := True\<rparr>
      | TagClose \<Rightarrow> tf\<lparr>tf_think_depth := tf_think_depth tf - 1, tf_inside_think := tf_think_depth tf - 1 > 0\<rparr>
      | TagSelfClosing \<Rightarrow> tf)"

text \<open>A tag that was read is the beginning of the text, and is read the same whatever follows it.\<close>

definition reads_tag :: "(string \<Rightarrow> (think_tag \<times> string) option) \<Rightarrow> string \<Rightarrow> think_tag \<Rightarrow> string \<Rightarrow> bool" where
  "reads_tag parser s k rest \<longleftrightarrow> (\<exists>tag. tag \<noteq> [] \<and> s = tag @ rest \<and> (\<forall>c. parser (tag @ c) = Some (k, c)))"

lemma tag_attributes_reads:
  "tag_attributes q l t = Some (k, rest) \<Longrightarrow> reads_tag (tag_attributes q l) t k rest"
proof (induction q l t rule: tag_attributes.induct)
  case (2 q l c s)
  then obtain tag where "s = tag @ rest" "\<And>c'. tag_attributes (if c = q then None else Some q) l (tag @ c') = Some (k, c')"
    by (auto simp: reads_tag_def)
  then show ?case by (auto simp: reads_tag_def intro!: exI [of _ "c # tag"])
next
  case (3 l c s)
  show ?case
  proof (cases "is_quote c \<or> c \<noteq> CHR ''>''")
    case True
    with 3 obtain tag where "s = tag @ rest"
      "\<And>c'. tag_attributes None l (c # tag @ c') = Some (k, c')"
      by (auto simp: reads_tag_def split: if_splits)
    then show ?thesis by (auto simp: reads_tag_def intro!: exI [of _ "c # tag"])
  next
    case False
    with 3 show ?thesis by (auto simp: reads_tag_def intro!: exI [of _ "[c]"])
  qed
qed simp

lemma close_tag_rest_reads: "close_tag_rest t = Some (k, rest) \<Longrightarrow> reads_tag close_tag_rest t k rest"
proof -
  assume a: "close_tag_rest t = Some (k, rest)"
  then have rest: "dropWhile is_ascii_whitespace t = CHR ''>'' # rest" and k: "k = TagClose"
    by (auto simp: close_tag_rest_def split: list.splits if_splits)
  let ?ws = "takeWhile is_ascii_whitespace t"
  have "t = ?ws @ dropWhile is_ascii_whitespace t" by simp
  then have split: "t = (?ws @ ''>'') @ rest" by (simp only: rest append.assoc append.simps)
  have "\<not> is_ascii_whitespace CHR ''>''" by (simp add: is_ascii_whitespace_def)
  then have "dropWhile is_ascii_whitespace (?ws @ CHR ''>'' # c) = CHR ''>'' # c" for c
    using set_takeWhileD by (subst dropWhile_append2) (fast, simp)
  then have "close_tag_rest ((?ws @ ''>'') @ c) = Some (k, c)" for c by (simp add: close_tag_rest_def k)
  with split show ?thesis unfolding reads_tag_def by blast
qed

lemma open_tag_rest_reads: "open_tag_rest t = Some (k, rest) \<Longrightarrow> reads_tag open_tag_rest t k rest"
proof -
  assume a: "open_tag_rest t = Some (k, rest)"
  then obtain c u where t: "t = c # u" and c: "c = CHR ''>'' \<or> c = CHR ''/'' \<or> is_ascii_whitespace c"
    and attrs: "tag_attributes None None t = Some (k, rest)"
    by (auto simp: open_tag_rest_def simp del: tag_attributes.simps split: list.splits if_splits)
  from tag_attributes_reads [OF attrs] obtain tag where tag: "tag \<noteq> []" "t = tag @ rest"
    "\<And>c. tag_attributes None None (tag @ c) = Some (k, c)" by (auto simp: reads_tag_def)
  with t obtain v where "tag = c # v" by (cases tag) auto
  then have "open_tag_rest (tag @ x) = tag_attributes None None (tag @ x)" for x
    using c by (auto simp: open_tag_rest_def simp del: tag_attributes.simps)
  then show ?thesis unfolding reads_tag_def using tag by auto
qed

lemma span_split:
  assumes "\<forall>x \<in> set n. P x" "t \<noteq> []" "\<not> P (hd t)"
  shows "takeWhile P (n @ t @ c) = n \<and> dropWhile P (n @ t @ c) = t @ c"
  using assms by (cases t) (auto simp: takeWhile_append2 dropWhile_append2)

lemma parse_think_tag_reads: "parse_think_tag s = Some (k, rest) \<Longrightarrow> reads_tag parse_think_tag s k rest"
proof -
  assume a: "parse_think_tag s = Some (k, rest)"
  then obtain r where s: "s = CHR ''<'' # r" by (cases s) (auto simp: parse_think_tag_def split: if_splits)
  define is_close where "is_close = (r \<noteq> [] \<and> hd r = CHR ''/'')"
  define body where "body = (if is_close then tl r else r)"
  define head where "head = (if is_close then ''</'' else ''<'')"
  let ?name = "takeWhile is_ascii_alphabetic body" and ?rest = "dropWhile is_ascii_alphabetic body"
  have s_eq: "s = head @ body"
    using s by (cases r) (auto simp: head_def body_def is_close_def)
  have name: "?name \<noteq> []" "is_think_name ?name"
    using a by (auto simp: parse_think_tag_def s Let_def body_def is_close_def split: if_splits)
  have "(if is_close then close_tag_rest ?rest else open_tag_rest ?rest) = Some (k, rest)"
    using a by (auto simp: parse_think_tag_def s Let_def body_def is_close_def split: if_splits)
  then have "reads_tag (if is_close then close_tag_rest else open_tag_rest) ?rest k rest"
    using close_tag_rest_reads open_tag_rest_reads by (auto split: if_splits)
  then obtain tag where tag: "tag \<noteq> []" "?rest = tag @ rest"
    "\<And>c. (if is_close then close_tag_rest else open_tag_rest) (tag @ c) = Some (k, c)"
    by (auto simp: reads_tag_def)
  then have "\<not> is_ascii_alphabetic (hd tag)" using hd_dropWhile [of is_ascii_alphabetic body] by fastforce
  then have split: "takeWhile is_ascii_alphabetic (?name @ tag @ c) = ?name"
    "dropWhile is_ascii_alphabetic (?name @ tag @ c) = tag @ c" for c
    using tag(1) span_split [of ?name is_ascii_alphabetic tag] set_takeWhileD by fast+
  obtain x y where name_eq: "?name = x # y" using name(1) by (cases ?name) auto
  then have "is_ascii_alphabetic x" by (metis list.set_intros(1) set_takeWhileD)
  then have first: "x \<noteq> CHR ''/''" by (auto simp: is_ascii_alphabetic_def is_ascii_lower_def is_ascii_upper_def)
  have "parse_think_tag (head @ ?name @ tag @ c) = Some (k, c)" for c
  proof (cases is_close)
    case True
    then show ?thesis using name split [of c] tag(3) [of c] by (simp add: parse_think_tag_def head_def)
  next
    case False
    then show ?thesis using name split [of c] tag(3) [of c] first
      by (simp add: parse_think_tag_def head_def Let_def) (simp add: name_eq)
  qed
  moreover have "s = (head @ ?name @ tag) @ rest"
    using s_eq tag(2) by (metis append.assoc takeWhile_dropWhile_id)
  ultimately show ?thesis unfolding reads_tag_def using tag(1) by (auto intro!: exI [of _ "head @ ?name @ tag"])
qed

lemma parse_think_tag_shorter: "parse_think_tag s = Some (k, rest) \<Longrightarrow> length rest < length s"
  using parse_think_tag_reads by (fastforce simp: reads_tag_def)

lemma buffer_event_from_bounds:
  "buffer_event_from inside pos s = Some ev \<Longrightarrow>
     (case ev of
        TagAt p e k \<Rightarrow> pos \<le> p \<and> p < e \<and> e \<le> pos + length s
      | OversizedTag e \<Rightarrow> pos < e \<and> e \<le> pos + length s
      | PartialAt p \<Rightarrow> pos \<le> p \<and> p < pos + length s)"
proof (induction inside pos s rule: buffer_event_from.induct)
  case (2 inside pos c s)
  show ?case
  proof (cases "c = CHR ''<''")
    case False
    with 2 show ?thesis by (fastforce split: buffer_event.splits)
  next
    case True
    show ?thesis
    proof (cases "parse_think_tag (c # s)")
      case None
      with 2 True show ?thesis by (fastforce split: buffer_event.splits if_splits)
    next
      case (Some p)
      obtain kind rest where p: "p = (kind, rest)" by fastforce
      have "length rest < length (c # s)" using Some p parse_think_tag_shorter by blast
      with 2 True Some p show ?thesis by (fastforce simp: Let_def split: buffer_event.splits if_splits)
    qed
  qed
qed simp

function process_from :: "think_filter \<Rightarrow> filter_out \<Rightarrow> think_filter \<times> filter_out" where
  "process_from tf out =
     (let buffer = tf_buffer tf; inside = tf_inside_think tf in
      case next_buffer_event buffer inside of
        Some (TagAt pos end_pos kind) \<Rightarrow>
          process_from (apply_tag kind (tf\<lparr>tf_buffer := drop end_pos buffer\<rparr>)) (push_side inside (take pos buffer) out)
      | Some (OversizedTag end_pos) \<Rightarrow>
          process_from (tf\<lparr>tf_buffer := drop end_pos buffer\<rparr>) (push_side inside (take end_pos buffer) out)
      | Some (PartialAt pos) \<Rightarrow>
          let kept = drop pos buffer; out1 = push_side inside (take pos buffer) out in
          if length kept > MAX_BUFFERED_THINK_TAG_BYTES
          then (tf\<lparr>tf_buffer := []\<rparr>, push_side inside kept out1)
          else (tf\<lparr>tf_buffer := kept\<rparr>, out1)
      | None \<Rightarrow> (tf\<lparr>tf_buffer := []\<rparr>, push_side inside buffer out))"
  by pat_completeness auto
termination
proof (relation "measure (\<lambda>(tf, out). length (tf_buffer tf))", goal_cases)
  case (2 tf out buffer inside ev pos end_pos kind)
  then have "0 < end_pos" "end_pos \<le> length buffer"
    using buffer_event_from_bounds [of inside 0 buffer] by (auto simp: next_buffer_event_def)
  with 2 show ?case by (auto simp: apply_tag_def split: think_tag.split)
next
  case (3 tf out buffer inside ev end_pos)
  then have "0 < end_pos" "end_pos \<le> length buffer"
    using buffer_event_from_bounds [of inside 0 buffer] by (auto simp: next_buffer_event_def)
  with 3 show ?case by auto
qed simp

declare process_from.simps [simp del]

definition process_buffer :: "think_filter \<Rightarrow> think_filter \<times> filter_out" where
  "process_buffer tf = process_from tf filter_out_default"

definition filter_push :: "string \<Rightarrow> think_filter \<Rightarrow> think_filter \<times> filter_out" where
  "filter_push chunk tf = process_buffer (tf\<lparr>tf_buffer := tf_buffer tf @ chunk\<rparr>)"

definition filter_finish :: "think_filter \<Rightarrow> filter_out" where
  "filter_finish tf =
     (case process_buffer tf of
        (tf1, out) \<Rightarrow> push_side (tf_inside_think tf1) (tf_buffer tf1) out)"

definition split_think_blocks :: "string \<Rightarrow> string \<times> string" where
  "split_think_blocks s =
     (case filter_push s think_filter_new of
        (tf, out) \<Rightarrow> (let final_out = filter_finish tf in
          (fo_content out @ fo_content final_out, fo_thinking out @ fo_thinking final_out)))"

subsection \<open>Nothing is lost\<close>

definition append_out :: "filter_out \<Rightarrow> filter_out \<Rightarrow> filter_out" where
  "append_out a b = \<lparr>fo_content = fo_content a @ fo_content b, fo_thinking = fo_thinking a @ fo_thinking b\<rparr>"

text \<open>A stream of chunks, filtered to its end.\<close>

fun filter_chunks :: "string list \<Rightarrow> think_filter \<Rightarrow> think_filter \<times> filter_out" where
  "filter_chunks [] tf = (tf, filter_out_default)"
| "filter_chunks (c # cs) tf =
     (case filter_push c tf of (tf1, out1) \<Rightarrow>
        (case filter_chunks cs tf1 of (tf2, out2) \<Rightarrow> (tf2, append_out out1 out2)))"

definition filter_stream :: "string list \<Rightarrow> filter_out" where
  "filter_stream chunks =
     (case filter_chunks chunks think_filter_new of (tf, out) \<Rightarrow> append_out out (filter_finish tf))"

datatype piece = PlainText string | TagText think_tag string

fun piece_text :: "piece \<Rightarrow> string" where
  "piece_text (PlainText t) = t"
| "piece_text (TagText k t) = t"

fun depth_after :: "nat \<Rightarrow> piece list \<Rightarrow> nat" where
  "depth_after d [] = d"
| "depth_after d (PlainText t # ps) = depth_after d ps"
| "depth_after d (TagText k t # ps) =
     depth_after (case k of TagOpen \<Rightarrow> d + 1 | TagClose \<Rightarrow> d - 1 | TagSelfClosing \<Rightarrow> d) ps"

fun read_pieces :: "nat \<Rightarrow> piece list \<Rightarrow> filter_out \<Rightarrow> filter_out" where
  "read_pieces d [] out = out"
| "read_pieces d (PlainText t # ps) out = read_pieces d ps (push_side (0 < d) t out)"
| "read_pieces d (TagText k t # ps) out =
     read_pieces (case k of TagOpen \<Rightarrow> d + 1 | TagClose \<Rightarrow> d - 1 | TagSelfClosing \<Rightarrow> d) ps out"

definition genuine :: "piece \<Rightarrow> bool" where
  "genuine p =
     (case p of
        PlainText t \<Rightarrow> True
      | TagText k t \<Rightarrow> parse_think_tag t = Some (k, []) \<and> length t \<le> MAX_BUFFERED_THINK_TAG_BYTES)"

lemma append_out_simps [simp]:
  "append_out filter_out_default a = a" "append_out a filter_out_default = a"
  "append_out (append_out a b) c = append_out a (append_out b c)"
  "push_side i t (append_out a b) = append_out a (push_side i t b)"
  "push_side i [] a = a"
  "push_side i s (push_side i t a) = push_side i (t @ s) a"
  by (auto simp: append_out_def filter_out_default_def push_side_def)

lemma process_from_out:
  "process_from tf (append_out a b) = (case process_from tf b of (tf1, out) \<Rightarrow> (tf1, append_out a out))"
proof (induction tf b rule: process_from.induct)
  case (1 tf b)
  show ?case
  proof (cases "next_buffer_event (tf_buffer tf) (tf_inside_think tf)")
    case None
    then show ?thesis by (simp add: process_from.simps Let_def)
  next
    case (Some ev)
    then show ?thesis
      using 1 by (cases ev) (simp_all add: process_from.simps [of tf] Let_def)
  qed
qed

lemma process_from_default: "process_from tf out = (case process_from tf filter_out_default of (tf1, o1) \<Rightarrow> (tf1, append_out out o1))"
  using process_from_out [of tf out filter_out_default] by simp

lemma read_pieces_append [simp]: "read_pieces d (ps @ qs) out = read_pieces (depth_after d ps) qs (read_pieces d ps out)"
  by (induction d ps out rule: read_pieces.induct) auto

lemma depth_after_append [simp]: "depth_after d (ps @ qs) = depth_after (depth_after d ps) qs"
  by (induction d ps rule: depth_after.induct) auto

lemma read_pieces_out: "read_pieces d ps (append_out a b) = append_out a (read_pieces d ps b)"
  by (induction d ps b rule: read_pieces.induct) auto

lemma event_tag:
  "buffer_event_from inside pos s = Some (TagAt p e k) \<Longrightarrow>
     pos \<le> p \<and> p < e \<and> parse_think_tag (drop (p - pos) s) = Some (k, drop (e - pos) s)
       \<and> e - p \<le> MAX_BUFFERED_THINK_TAG_BYTES \<and> (inside \<or> k \<noteq> TagClose)"
proof (induction inside pos s rule: buffer_event_from.induct)
  case (2 inside pos c s)
  have step: "drop (p - Suc pos) s = drop (p - pos) (c # s) \<and> drop (e - Suc pos) s = drop (e - pos) (c # s)"
    if "Suc pos \<le> p" "p < e"
  proof -
    have "p - pos = Suc (p - Suc pos)" "e - pos = Suc (e - Suc pos)" using that by arith+
    then show ?thesis by simp
  qed
  show ?case
  proof (cases "c = CHR ''<''")
    case False
    with 2 step show ?thesis by auto
  next
    case True
    show ?thesis
    proof (cases "parse_think_tag (c # s)")
      case None
      with 2 True step show ?thesis by (auto split: if_splits)
    next
      case (Some r)
      obtain kind rest where r: "r = (kind, rest)" by fastforce
      from Some r have "reads_tag parse_think_tag (c # s) kind rest" by (simp add: parse_think_tag_reads)
      then obtain tag where tag: "tag \<noteq> []" "c # s = tag @ rest" unfolding reads_tag_def by blast
      then have len: "length rest < length (c # s)" "drop (length (c # s) - length rest) (c # s) = rest" by simp_all
      have bound: "\<not> length (c # s) - length rest > MAX_BUFFERED_THINK_TAG_BYTES"
        using 2 True Some r by (auto simp: Let_def split: if_splits)
      show ?thesis
      proof (cases "inside \<or> kind \<in> {TagOpen, TagSelfClosing}")
        case True
        then have "p = pos" "e = pos + (length (c # s) - length rest)" "k = kind"
          using "2.prems" \<open>c = CHR ''<''\<close> Some r bound by (simp_all add: Let_def)
        with len Some r bound True show ?thesis by auto
      next
        case False
        then have next_ev: "buffer_event_from inside (Suc pos) s = Some (TagAt p e k)"
          using "2.prems" \<open>c = CHR ''<''\<close> Some r bound by (simp add: Let_def)
        have "\<not> c \<noteq> CHR ''<''" using \<open>c = CHR ''<''\<close> by simp
        from "2.IH"(3) [OF this Some r [symmetric] refl _ False next_ev] bound step show ?thesis by simp
      qed
    qed
  qed
qed simp

lemma drained_tag:
  assumes "next_buffer_event b inside = Some (TagAt p e k)"
  shows "\<exists>tag. b = take p b @ tag @ drop e b \<and> genuine (TagText k tag)"
proof -
  have ev: "p < e" "parse_think_tag (drop p b) = Some (k, drop e b)" "e - p \<le> MAX_BUFFERED_THINK_TAG_BYTES"
    using assms event_tag [of inside 0 b] by (auto simp: next_buffer_event_def)
  from parse_think_tag_reads [OF ev(2)] obtain tag where tag: "drop p b = tag @ drop e b"
    "\<And>c. parse_think_tag (tag @ c) = Some (k, c)" by (auto simp: reads_tag_def)
  have "e \<le> length b"
    using assms buffer_event_from_bounds [of inside 0 b] by (auto simp: next_buffer_event_def)
  then have "length tag = e - p" using arg_cong [OF tag(1), of length] ev(1) by simp
  with ev(3) tag(2) [of "[]"] have "genuine (TagText k tag)" by (simp add: genuine_def)
  moreover have "b = take p b @ tag @ drop e b" using tag(1) by (metis append_take_drop_id)
  ultimately show ?thesis by blast
qed

definition reads_as :: "think_filter \<Rightarrow> string \<Rightarrow> think_filter \<Rightarrow> filter_out \<Rightarrow> filter_out \<Rightarrow> bool" where
  "reads_as tf s tf1 out out1 \<longleftrightarrow>
     (\<exists>ps. concat (map piece_text ps) @ tf_buffer tf1 = s \<and> list_all genuine ps
        \<and> out1 = read_pieces (tf_think_depth tf) ps out \<and> tf_think_depth tf1 = depth_after (tf_think_depth tf) ps)
     \<and> tf_inside_think tf1 = (0 < tf_think_depth tf1)"

lemma process_reads:
  "tf_inside_think tf = (0 < tf_think_depth tf) \<Longrightarrow> process_from tf out = (tf1, out1) \<Longrightarrow>
     reads_as tf (tf_buffer tf) tf1 out out1"
proof (induction tf out rule: process_from.induct)
  case (1 tf out)
  let ?b = "tf_buffer tf" and ?i = "tf_inside_think tf" and ?d = "tf_think_depth tf"
  note step = "1.prems"(2) [unfolded process_from.simps [of tf] Let_def]
  have last: "reads_as tf ?b tf1 out out1"
    if "tf1 = tf\<lparr>tf_buffer := u\<rparr>" "out1 = push_side ?i t out" "t @ u = ?b" for t u
    unfolding reads_as_def using that "1.prems"(1) by (auto simp: genuine_def intro!: exI [of _ "[PlainText t]"])
  show ?case
  proof (cases "next_buffer_event ?b ?i")
    case None
    with step show ?thesis by (intro last [of "[]" ?b]) auto
  next
    case (Some ev)
    show ?thesis
    proof (cases ev)
      case (TagAt p e k)
      define tf0 where "tf0 = apply_tag k (tf\<lparr>tf_buffer := drop e ?b\<rparr>)"
      have tf0: "tf_inside_think tf0 = (0 < tf_think_depth tf0)" "tf_buffer tf0 = drop e ?b"
        "tf_think_depth tf0 = (case k of TagOpen \<Rightarrow> ?d + 1 | TagClose \<Rightarrow> ?d - 1 | TagSelfClosing \<Rightarrow> ?d)"
        using "1.prems"(1) by (auto simp: tf0_def apply_tag_def split: think_tag.split)
      from step Some TagAt have rest: "process_from tf0 (push_side ?i (take p ?b) out) = (tf1, out1)"
        by (simp add: tf0_def)
      have IH: "reads_as tf0 (tf_buffer tf0) tf1 (push_side ?i (take p ?b) out) out1"
        using "1.IH"(1) [OF refl refl Some TagAt, folded tf0_def] tf0(1) rest by blast
      from IH obtain ps where ps: "concat (map piece_text ps) @ tf_buffer tf1 = drop e ?b" "list_all genuine ps"
        "out1 = read_pieces (tf_think_depth tf0) ps (push_side ?i (take p ?b) out)"
        "tf_think_depth tf1 = depth_after (tf_think_depth tf0) ps"
        by (auto simp: reads_as_def tf0(2))
      from Some TagAt drained_tag obtain tag where tag: "?b = take p ?b @ tag @ drop e ?b" "genuine (TagText k tag)" by blast
      let ?ps = "PlainText (take p ?b) # TagText k tag # ps"
      have "concat (map piece_text ?ps) @ tf_buffer tf1 = ?b" using ps(1) tag(1) by simp
      moreover have "list_all genuine ?ps" using ps(2) tag(2) by (simp add: genuine_def)
      moreover have "out1 = read_pieces ?d ?ps out" using ps(3) "1.prems"(1) by (simp add: tf0(3))
      moreover have "tf_think_depth tf1 = depth_after ?d ?ps" using ps(4) by (simp add: tf0(3))
      ultimately show ?thesis using IH unfolding reads_as_def by blast
    next
      case (OversizedTag e)
      with step Some have "process_from (tf\<lparr>tf_buffer := drop e ?b\<rparr>) (push_side ?i (take e ?b) out) = (tf1, out1)" by simp
      with "1.IH"(2) [OF refl refl Some OversizedTag] "1.prems"(1)
      have IH: "reads_as (tf\<lparr>tf_buffer := drop e ?b\<rparr>) (drop e ?b) tf1 (push_side ?i (take e ?b) out) out1" by simp
      then obtain ps where "concat (map piece_text ps) @ tf_buffer tf1 = drop e ?b" "list_all genuine ps"
        "out1 = read_pieces ?d ps (push_side ?i (take e ?b) out)" "tf_think_depth tf1 = depth_after ?d ps"
        by (auto simp: reads_as_def)
      then have "\<exists>ps. concat (map piece_text ps) @ tf_buffer tf1 = ?b \<and> list_all genuine ps
        \<and> out1 = read_pieces ?d ps out \<and> tf_think_depth tf1 = depth_after ?d ps"
        using "1.prems"(1) by (intro exI [of _ "PlainText (take e ?b) # ps"]) (simp add: genuine_def)
      with IH show ?thesis by (simp add: reads_as_def)
    next
      case (PartialAt p)
      show ?thesis
      proof (cases "length (drop p ?b) > MAX_BUFFERED_THINK_TAG_BYTES")
        case True
        with step Some PartialAt show ?thesis by (intro last [of "[]" ?b]) auto
      next
        case False
        with step Some PartialAt show ?thesis by (intro last [of "drop p ?b" "take p ?b"]) auto
      qed
    qed
  qed
qed


lemma reads_as_trans:
  assumes "reads_as tf s tf0 filter_out_default o0" "reads_as tf0 (tf_buffer tf0 @ u) tf1 filter_out_default o1"
  shows "reads_as tf (s @ u) tf1 filter_out_default (append_out o0 o1)"
proof -
  from assms(1) obtain ps where ps: "concat (map piece_text ps) @ tf_buffer tf0 = s" "list_all genuine ps"
    "o0 = read_pieces (tf_think_depth tf) ps filter_out_default" "tf_think_depth tf0 = depth_after (tf_think_depth tf) ps"
    unfolding reads_as_def by blast
  from assms(2) obtain qs where qs: "concat (map piece_text qs) @ tf_buffer tf1 = tf_buffer tf0 @ u" "list_all genuine qs"
    "o1 = read_pieces (tf_think_depth tf0) qs filter_out_default" "tf_think_depth tf1 = depth_after (tf_think_depth tf0) qs"
    and inside: "tf_inside_think tf1 = (0 < tf_think_depth tf1)"
    unfolding reads_as_def by (elim conjE exE) (rule that, assumption+)
  have "concat (map piece_text (ps @ qs)) @ tf_buffer tf1 = concat (map piece_text ps) @ concat (map piece_text qs) @ tf_buffer tf1"
    by simp
  also have "\<dots> = (concat (map piece_text ps) @ tf_buffer tf0) @ u" by (simp only: qs(1) append.assoc)
  also have "\<dots> = s @ u" by (simp only: ps(1))
  finally have "concat (map piece_text (ps @ qs)) @ tf_buffer tf1 = s @ u" .
  moreover have "list_all genuine (ps @ qs)" by (simp add: ps(2) qs(2))
  moreover have "append_out o0 (read_pieces (tf_think_depth tf0) qs filter_out_default)
      = read_pieces (tf_think_depth tf0) qs (append_out o0 filter_out_default)" by (simp only: read_pieces_out)
  then have "append_out o0 o1 = read_pieces (tf_think_depth tf) (ps @ qs) filter_out_default"
    by (simp only: qs(3) append_out_simps read_pieces_append flip: ps(3,4))
  moreover have "tf_think_depth tf1 = depth_after (tf_think_depth tf) (ps @ qs)" by (simp add: ps(4) qs(4))
  ultimately show ?thesis unfolding reads_as_def using inside by blast
qed

lemma filter_chunks_read:
  "tf_inside_think tf = (0 < tf_think_depth tf) \<Longrightarrow> filter_chunks chunks tf = (tf1, out) \<Longrightarrow>
     reads_as tf (tf_buffer tf @ concat chunks) tf1 filter_out_default out"
proof (induction chunks arbitrary: tf out)
  case Nil
  then show ?case by (auto simp: reads_as_def intro!: exI [of _ "[]"])
next
  case (Cons c cs)
  obtain tf0 o0 where p: "filter_push c tf = (tf0, o0)" by fastforce
  obtain o1 where cs: "filter_chunks cs tf0 = (tf1, o1)" and out: "out = append_out o0 o1"
    using Cons.prems(2) p by (auto split: prod.splits)
  have first: "reads_as tf (tf_buffer tf @ c) tf0 filter_out_default o0"
    using process_reads [of "tf\<lparr>tf_buffer := tf_buffer tf @ c\<rparr>" filter_out_default tf0 o0] p Cons.prems(1)
    by (simp add: reads_as_def filter_push_def process_buffer_def)
  then have "tf_inside_think tf0 = (0 < tf_think_depth tf0)" by (simp add: reads_as_def)
  from reads_as_trans [OF first Cons.IH [OF this cs]] show ?case by (simp add: out)
qed

text \<open>Whatever the chunks in which a text arrives, the filter loses, invents and reorders nothing: the
  text is a sequence of plain pieces and tags, the tags are taken out, and every plain piece is
  delivered once and in order, on the side that the tags before it say. Which parts of the text are
  taken for tags depends on the chunks.\<close>

lemma think_text_kept:
  "\<exists>ps. concat (map piece_text ps) = concat chunks \<and> list_all genuine ps
     \<and> filter_stream chunks = read_pieces 0 ps filter_out_default"
proof -
  obtain tf out where cs: "filter_chunks chunks think_filter_new = (tf, out)" by fastforce
  obtain tf1 out1 where fin: "process_from tf filter_out_default = (tf1, out1)" by fastforce
  have chunks: "reads_as think_filter_new (concat chunks) tf filter_out_default out"
    using filter_chunks_read [OF _ cs] by (simp add: think_filter_new_def)
  then have "reads_as tf (tf_buffer tf) tf1 filter_out_default out1"
    using process_reads [OF _ fin] by (simp add: reads_as_def)
  with reads_as_trans [OF chunks, of "[]" tf1 out1]
  have "reads_as think_filter_new (concat chunks) tf1 filter_out_default (append_out out out1)" by simp
  then obtain ps where ps: "concat (map piece_text ps) @ tf_buffer tf1 = concat chunks" "list_all genuine ps"
    "append_out out out1 = read_pieces 0 ps filter_out_default" "tf_inside_think tf1 = (0 < depth_after 0 ps)"
    by (auto simp: reads_as_def think_filter_new_def)
  let ?ps = "ps @ [PlainText (tf_buffer tf1)]"
  have "filter_stream chunks = push_side (tf_inside_think tf1) (tf_buffer tf1) (append_out out out1)"
    by (simp add: filter_stream_def cs filter_finish_def process_buffer_def fin)
  then have "filter_stream chunks = read_pieces 0 ?ps filter_out_default" by (simp add: ps(3,4))
  moreover have "concat (map piece_text ?ps) = concat chunks" "list_all genuine ?ps"
    using ps(1,2) by (simp_all add: genuine_def)
  ultimately show ?thesis by blast
qed

text \<open>A chunk that ends in the first character of a tag is not recognised as its beginning: the tag is
  read as visible text, and so is the reasoning.\<close>

lemma chunk_splits_tag_start:
  "filter_stream [''<think>a</think>b''] = \<lparr>fo_content = ''b'', fo_thinking = ''a''\<rparr>"
  "filter_stream [''<'', ''think>a</think>b''] = \<lparr>fo_content = ''<think>a</think>b'', fo_thinking = []\<rparr>"
  by code_simp+

subsection \<open>Chunks do not matter\<close>

text \<open>A text that ends in the beginning of a tag which the filter does not recognise as one: the
  opening characters alone, or a slash after the name that is not the end of the tag.\<close>

definition hidden_start :: "string \<Rightarrow> bool" where
  "hidden_start s =
     (\<not> contains_unquoted_gt s \<and>
      (case s of
         [] \<Rightarrow> False
       | c # r \<Rightarrow> c = CHR ''<'' \<and>
           (r = [] \<or> r = ''/''
            \<or> (let rest = dropWhile is_ascii_alphabetic r in
               is_think_name (takeWhile is_ascii_alphabetic r) \<and> rest \<noteq> [] \<and> hd rest = CHR ''/'' \<and> tl rest \<noteq> []))))"

definition cut_ok :: "string \<Rightarrow> bool" where
  "cut_ok s = list_all (\<lambda>u. \<not> hidden_start u) (suffixes s)"

text \<open>A Rust string never ends inside a character.\<close>

definition char_start :: "string \<Rightarrow> bool" where
  "char_start s = (s = [] \<or> \<not> utf8_cont (hd s))"

lemma ws_seqs_cont: "w \<in> set ws_seqs \<Longrightarrow> list_all utf8_cont (tl w)"
  by (auto simp: ws_seqs_def utf8_cont_def)

lemma prefix_append_cont:
  assumes "list_all utf8_cont (tl w)" "char_start c" "r \<noteq> []"
  shows "prefix w (r @ c) \<longleftrightarrow> prefix w r"
proof
  assume a: "prefix w (r @ c)"
  show "prefix w r"
  proof (rule ccontr)
    assume no: "\<not> prefix w r"
    with a obtain d where d: "w = r @ d" "prefix d c" by (auto simp: prefix_append)
    with no obtain x y where x: "d = x # y" by (cases d) auto
    then have "x = hd c" "c \<noteq> []" using d(2) by (auto simp: prefix_def)
    moreover have "utf8_cont x" using assms(1,3) d(1) x by (cases r) auto
    ultimately show False using assms(2) by (simp add: char_start_def)
  qed
qed auto

lemma first_seq_append: "char_start c \<Longrightarrow> r \<noteq> [] \<Longrightarrow> first_seq ws_seqs (r @ c) = first_seq ws_seqs r"
  unfolding first_seq_def by (rule find_cong) (auto simp: prefix_append_cont ws_seqs_cont)

lemma strip_append: "char_start c \<Longrightarrow> strip_seqs ws_seqs (r @ c) = [] \<Longrightarrow> strip_seqs ws_seqs r = []"
proof (induction "length r" arbitrary: r rule: less_induct)
  case less
  show ?case
  proof (cases "r = []")
    case False
    have "first_seq ws_seqs (r @ c) \<noteq> None"
    proof
      assume "first_seq ws_seqs (r @ c) = None"
      then have "strip_seqs ws_seqs (r @ c) = r @ c" by (subst strip_seqs.simps) simp
      with less.prems(2) False show False by simp
    qed
    then obtain w where w: "first_seq ws_seqs r = Some w" "first_seq ws_seqs (r @ c) = Some w"
      using first_seq_append [OF less.prems(1) False] by auto
    then have "w \<noteq> []" "prefix w r" using first_seq_SomeD by blast+
    then have shorter: "length (drop (length w) r) < length r" "drop (length w) (r @ c) = drop (length w) r @ c"
      using False by (auto simp: prefix_length_le)
    have "strip_seqs ws_seqs (drop (length w) r @ c) = []"
      using less.prems(2) w(2) shorter(2) by (subst (asm) strip_seqs.simps) simp
    with less.hyps [OF shorter(1) less.prems(1)] have "strip_seqs ws_seqs (drop (length w) r) = []" .
    then show ?thesis using w(1) by (subst strip_seqs.simps) simp
  qed simp
qed

lemma kelvin_append: "char_start c \<Longrightarrow> r \<noteq> [] \<Longrightarrow> prefix KELVIN (r @ c) = prefix KELVIN r"
  by (rule prefix_append_cont) (auto simp: KELVIN_def utf8_cont_def)

lemma eat_letters_append:
  "char_start c \<Longrightarrow> eat_letters ls r \<noteq> [] \<Longrightarrow> eat_letters ls (r @ c) = eat_letters ls r @ c"
proof (induction ls r rule: eat_letters.induct)
  case (3 l ls x s)
  show ?case
  proof (cases "ascii_lower x = l")
    case True
    with 3 show ?thesis by simp
  next
    case False
    have k: "prefix KELVIN (x # s @ c) = prefix KELVIN (x # s)"
      using kelvin_append [OF "3.prems"(1), of "x # s"] by simp
    moreover have "prefix KELVIN (x # s) \<Longrightarrow> 2 \<le> length s"
      by (drule prefix_length_le) (simp add: KELVIN_def)
    ultimately show ?thesis using False 3 by (auto simp: drop_append)
  qed
qed auto

lemma contains_gt_append: "contains_gt_from q s \<Longrightarrow> contains_gt_from q (s @ c)"
  by (induction q s rule: contains_gt_from.induct) auto

lemma unquoted_gt_append: "contains_unquoted_gt s \<Longrightarrow> contains_unquoted_gt (s @ c)"
  by (simp add: contains_unquoted_gt_def contains_gt_append)

lemma tag_attributes_None: "tag_attributes q l s = None \<longleftrightarrow> \<not> contains_gt_from q s"
  by (induction q l s rule: tag_attributes.induct) auto

lemma gt_skip: "\<forall>x \<in> set n. \<not> is_quote x \<and> x \<noteq> CHR ''>'' \<Longrightarrow> contains_gt_from None (n @ s) = contains_gt_from None s"
  by (induction n) auto

lemma plain_chars:
  "is_ascii_alphabetic x \<Longrightarrow> \<not> is_quote x \<and> x \<noteq> CHR ''>''" "is_ascii_whitespace x \<Longrightarrow> \<not> is_quote x \<and> x \<noteq> CHR ''>''"
  by (auto simp: is_ascii_alphabetic_def is_ascii_lower_def is_ascii_upper_def is_quote_def is_ascii_whitespace_def)


lemma is_think_name_cases: "is_think_name n \<longleftrightarrow> to_ascii_lowercase n = ''think'' \<or> to_ascii_lowercase n = ''thinking''"
  by (simp add: is_think_name_def)

lemma eat_letters_name:
  "prefix (map ascii_lower n) ls \<Longrightarrow> (rest = [] \<or> \<not> is_ascii_alphabetic (hd rest) \<and> hd rest \<noteq> CHR 0xE2) \<Longrightarrow>
     (\<forall>l \<in> set ls. is_ascii_alphabetic l) \<Longrightarrow> eat_letters ls (n @ rest) = rest"
proof (induction ls arbitrary: n)
  case Nil
  then show ?case by simp
next
  case (Cons l ls)
  show ?case
  proof (cases n)
    case Nil
    have alpha: "is_ascii_alphabetic (ascii_lower x) \<Longrightarrow> is_ascii_alphabetic x" for x
      by (auto simp: ascii_lower_def is_ascii_alphabetic_def)
    show ?thesis
    proof (cases rest)
      case (Cons x u)
      with \<open>n = []\<close> Cons.prems alpha [of x] show ?thesis by (auto simp: KELVIN_def)
    qed (use Nil in simp)
  next
    case (Cons x n')
    with Cons.prems Cons.IH show ?thesis by auto
  qed
qed

lemma eat_tag_name_think:
  assumes "n \<noteq> []" "prefix (to_ascii_lowercase n) ''thinking''"
    and "rest = [] \<or> \<not> is_ascii_alphabetic (hd rest) \<and> hd rest \<noteq> CHR 0xE2"
  shows "eat_tag_name (n @ rest) = Some rest"
proof -
  obtain x u where n: "n = x # u" using assms(1) by (cases n) auto
  have "prefix (map ascii_lower u) ''hinking''" "ascii_lower x = CHR ''t''"
    using assms(2) by (auto simp: n to_ascii_lowercase_def)
  moreover have "\<forall>l \<in> set ''hinking''. is_ascii_alphabetic l"
    by (simp add: is_ascii_alphabetic_def is_ascii_lower_def)
  ultimately show ?thesis using assms(3) by (simp add: n eat_tag_name_def eat_letters_name)
qed

lemma think_name_prefix: "is_think_name (n @ m) \<Longrightarrow> prefix (to_ascii_lowercase n) ''thinking''"
  by (auto simp: is_think_name_def to_ascii_lowercase_def prefix_def)
    (metis append_Cons append_Nil append_assoc)+

lemma parse_close: "parse_think_tag (CHR ''<'' # CHR ''/'' # r)
    = (if is_think_name (takeWhile is_ascii_alphabetic r) then close_tag_rest (dropWhile is_ascii_alphabetic r) else None)"
  by (auto simp: parse_think_tag_def is_think_name_def to_ascii_lowercase_def)

lemma parse_open: "r = [] \<or> hd r \<noteq> CHR ''/'' \<Longrightarrow> parse_think_tag (CHR ''<'' # r)
    = (if is_think_name (takeWhile is_ascii_alphabetic r) then open_tag_rest (dropWhile is_ascii_alphabetic r) else None)"
  by (auto simp: parse_think_tag_def is_think_name_def to_ascii_lowercase_def)

lemma name_append:
  "dropWhile P r \<noteq> [] \<Longrightarrow> takeWhile P (r @ c) = takeWhile P r \<and> dropWhile P (r @ c) = dropWhile P r @ c"
  "dropWhile P r = [] \<Longrightarrow> takeWhile P (r @ c) = r @ takeWhile P c \<and> dropWhile P (r @ c) = dropWhile P c"
  by (induction r) (auto split: if_splits)

lemma first_not: "dropWhile P r \<noteq> [] \<Longrightarrow> \<not> P (hd (dropWhile P r))"
  by (rule hd_dropWhile) auto

lemma ws_seq_ascii: "\<forall>w \<in> set ws_seqs. is_ascii_whitespace (hd w) \<longrightarrow> length w = 1"
  by (simp add: ws_seqs_def is_ascii_whitespace_def)

lemma strip_ascii_ws: "\<forall>x \<in> set s. is_ascii_whitespace x \<Longrightarrow> strip_seqs ws_seqs s = []"
proof (induction s)
  case (Cons x s)
  then have "[x] \<in> set ws_seqs" by (auto simp: is_ascii_whitespace_def ws_seqs_def)
  then have "first_seq ws_seqs (x # s) \<noteq> None" by (auto simp: first_seq_def find_None_iff)
  then obtain w where w: "first_seq ws_seqs (x # s) = Some w" by auto
  then have "w \<in> set ws_seqs" "prefix w (x # s)" "w \<noteq> []" using first_seq_SomeD by blast+
  have "hd w = x" using \<open>prefix w (x # s)\<close> \<open>w \<noteq> []\<close> by (cases w) auto
  then have "length w = 1" using ws_seq_ascii \<open>w \<in> set ws_seqs\<close> Cons.prems by fastforce
  then show ?case using Cons w by (subst strip_seqs.simps) simp
qed simp

lemma not_kelvin: "is_ascii_whitespace x \<Longrightarrow> \<not> is_ascii_alphabetic x \<and> x \<noteq> CHR 0xE2"
  by (auto simp: is_ascii_whitespace_def is_ascii_alphabetic_def is_ascii_lower_def is_ascii_upper_def)

lemma gt_name: "\<forall>x \<in> set n. is_ascii_alphabetic x \<Longrightarrow> contains_gt_from None (n @ s) = contains_gt_from None s"
  using plain_chars(1) by (intro gt_skip) blast

lemma gt_name_drop: "contains_gt_from None r = contains_gt_from None (dropWhile is_ascii_alphabetic r)"
  using gt_name [of "takeWhile is_ascii_alphabetic r" "dropWhile is_ascii_alphabetic r"] set_takeWhileD by fastforce

lemma gt_ws: "\<forall>x \<in> set s. is_ascii_whitespace x \<Longrightarrow> \<not> contains_gt_from None s"
  using gt_skip [of s "[]"] plain_chars(2) by auto

lemma gt_tag_start: "contains_unquoted_gt (CHR ''<'' # r) = contains_gt_from None r"
  "contains_unquoted_gt (CHR ''<'' # CHR ''/'' # r) = contains_gt_from None r"
  by (simp_all add: contains_unquoted_gt_def is_quote_def)

lemma close_stable:
  assumes none: "parse_think_tag (CHR ''<'' # CHR ''/'' # r) = None"
    and partial: "\<not> is_possible_partial_think_tag (CHR ''<'' # CHR ''/'' # r)" and r: "r \<noteq> []"
  shows "parse_think_tag (CHR ''<'' # CHR ''/'' # r @ c) = None"
proof (rule ccontr)
  let ?n = "takeWhile is_ascii_alphabetic r" and ?rest = "dropWhile is_ascii_alphabetic r"
  assume some: "parse_think_tag (CHR ''<'' # CHR ''/'' # r @ c) \<noteq> None"
  have no_re: "\<not> close_re (CHR ''<'' # CHR ''/'' # r)" if "\<not> contains_gt_from None r"
    using partial that by (simp add: is_possible_partial_think_tag_def gt_tag_start(2))
  show False
  proof (cases "?rest = []")
    case True
    then have alpha: "\<forall>x \<in> set r. is_ascii_alphabetic x" by (simp add: dropWhile_eq_Nil_conv)
    from some True have "is_think_name (r @ takeWhile is_ascii_alphabetic c)"
      by (simp add: parse_close name_append split: if_splits)
    from eat_tag_name_think [OF r think_name_prefix [OF this], of "[]"]
    have "close_re (CHR ''<'' # CHR ''/'' # r)" by (simp add: close_re_def)
    moreover have "\<not> contains_gt_from None r" using gt_name [OF alpha, of "[]"] by simp
    ultimately show False using no_re by blast
  next
    case False
    with some have name: "is_think_name ?n" and later: "close_tag_rest (?rest @ c) \<noteq> None"
      by (simp_all add: parse_close name_append split: if_splits)
    from name none have now: "close_tag_rest ?rest = None" by (simp add: parse_close)
    show False
    proof (cases "dropWhile is_ascii_whitespace ?rest = []")
      case True
      then have ws: "\<forall>x \<in> set ?rest. is_ascii_whitespace x" by (simp add: dropWhile_eq_Nil_conv)
      then have "\<not> is_ascii_alphabetic (hd ?rest) \<and> hd ?rest \<noteq> CHR 0xE2" using not_kelvin False by (metis hd_in_set)
      moreover have "?n \<noteq> []" using name by (auto simp: is_think_name_def to_ascii_lowercase_def)
      ultimately have "eat_tag_name (?n @ ?rest) = Some ?rest"
        using think_name_prefix [of ?n "[]"] name by (intro eat_tag_name_think) auto
      then have "close_re (CHR ''<'' # CHR ''/'' # r)" by (simp add: close_re_def strip_ascii_ws [OF ws])
      moreover have "\<not> contains_gt_from None r" using gt_ws [OF ws] gt_name_drop [of r] by simp
      ultimately show False using no_re by blast
    next
      case False
      with now later show False by (auto simp: close_tag_rest_def name_append split: list.splits if_splits)
    qed
  qed
qed

lemma open_stable:
  assumes none: "parse_think_tag (CHR ''<'' # r) = None" and start: "r \<noteq> []" "hd r \<noteq> CHR ''/''"
    and partial: "\<not> is_possible_partial_think_tag (CHR ''<'' # r)" and hidden: "\<not> hidden_start (CHR ''<'' # r)"
  shows "parse_think_tag (CHR ''<'' # r @ c) = None"
proof (rule ccontr)
  let ?n = "takeWhile is_ascii_alphabetic r" and ?rest = "dropWhile is_ascii_alphabetic r"
  assume some: "parse_think_tag (CHR ''<'' # r @ c) \<noteq> None"
  have start': "r @ c = [] \<or> hd (r @ c) \<noteq> CHR ''/''" using start by simp
  have no_re: "\<not> open_re (CHR ''<'' # r)" if "\<not> contains_gt_from None r"
    using partial that by (simp add: is_possible_partial_think_tag_def gt_tag_start)
  show False
  proof (cases "?rest = []")
    case True
    then have alpha: "\<forall>x \<in> set r. is_ascii_alphabetic x" by (simp add: dropWhile_eq_Nil_conv)
    from some True have "is_think_name (r @ takeWhile is_ascii_alphabetic c)"
      by (simp add: parse_open [OF start'] name_append split: if_splits)
    from eat_tag_name_think [OF start(1) think_name_prefix [OF this], of "[]"]
    have "open_re (CHR ''<'' # r)" by (simp add: open_re_def)
    moreover have "\<not> contains_gt_from None r" using gt_name [OF alpha, of "[]"] by simp
    ultimately show False using no_re by blast
  next
    case False
    then obtain d u where rest: "?rest = d # u" by (cases ?rest) auto
    from False some have name: "is_think_name ?n" and later: "open_tag_rest (?rest @ c) \<noteq> None"
      by (simp_all add: parse_open [OF start'] name_append split: if_splits)
    from name none start have now: "open_tag_rest ?rest = None" by (simp add: parse_open)
    have bound: "d = CHR ''>'' \<or> d = CHR ''/'' \<or> is_ascii_whitespace d"
      using later by (auto simp: open_tag_rest_def rest simp del: tag_attributes.simps split: if_splits)
    with now have "tag_attributes None None ?rest = None"
      by (auto simp: open_tag_rest_def rest simp del: tag_attributes.simps)
    then have no_gt: "\<not> contains_gt_from None ?rest" by (simp add: tag_attributes_None)
    then have no_gt': "\<not> contains_gt_from None r" using gt_name_drop by simp
    have "?n \<noteq> []" using name by (auto simp: is_think_name_def to_ascii_lowercase_def)
    moreover have "\<not> is_ascii_alphabetic d" using first_not [of is_ascii_alphabetic r] rest by simp
    moreover have "d \<noteq> CHR 0xE2" using bound by (auto simp: is_ascii_whitespace_def)
    ultimately have "eat_tag_name (?n @ ?rest) = Some ?rest"
      using think_name_prefix [of ?n "[]"] name rest by (intro eat_tag_name_think) auto
    then have eat: "eat_tag_name r = Some ?rest" by (simp only: takeWhile_dropWhile_id)
    from bound consider "d = CHR ''>''" | "d = CHR ''/''" "u = []" | "d = CHR ''/''" "u \<noteq> []" | "is_ascii_whitespace d"
      by blast
    then show False
    proof cases
      case 1
      with no_gt show False by (simp add: rest is_quote_def)
    next
      case 2
      with eat rest no_re no_gt' show False by (simp add: open_re_def)
    next
      case 3
      moreover have "\<exists>x \<in> set r. \<not> is_ascii_alphabetic x" using False by (simp add: dropWhile_eq_Nil_conv)
      ultimately show False using hidden name rest no_gt' by (simp add: hidden_start_def gt_tag_start(1))
    next
      case 4
      then have "first_seq ws_seqs ?rest \<noteq> None"
        by (auto simp: rest first_seq_def find_None_iff is_ascii_whitespace_def ws_seqs_def)
      with eat no_re no_gt' show False by (simp add: open_re_def)
    qed
  qed
qed

lemma close_re_append: "char_start c \<Longrightarrow> r \<noteq> [] \<Longrightarrow> close_re (CHR ''<'' # CHR ''/'' # r @ c) \<Longrightarrow> close_re (CHR ''<'' # CHR ''/'' # r)"
proof -
  assume c: "char_start c" and r: "r \<noteq> []" and re: "close_re (CHR ''<'' # CHR ''/'' # r @ c)"
  from r obtain x u where x: "r = x # u" by (cases r) auto
  show ?thesis
  proof (cases "eat_letters ''hinking'' u = []")
    case True
    with re show ?thesis by (auto simp: close_re_def eat_tag_name_def x split: if_splits)
  next
    case False
    from eat_letters_append [OF c this] re strip_append [OF c, of "eat_letters ''hinking'' u"]
    show ?thesis by (auto simp: close_re_def eat_tag_name_def x simp del: eat_letters.simps split: if_splits)
  qed
qed

lemma open_re_append: "char_start c \<Longrightarrow> r \<noteq> [] \<Longrightarrow> open_re (CHR ''<'' # r @ c) \<Longrightarrow> open_re (CHR ''<'' # r)"
proof -
  assume c: "char_start c" and r: "r \<noteq> []" and re: "open_re (CHR ''<'' # r @ c)"
  from r obtain x u where x: "r = x # u" by (cases r) auto
  show ?thesis
  proof (cases "eat_letters ''hinking'' u = []")
    case True
    with re show ?thesis by (auto simp: open_re_def eat_tag_name_def x split: if_splits)
  next
    case False
    let ?e = "eat_letters ''hinking'' u"
    from re eat_letters_append [OF c False] have t: "ascii_lower x = CHR ''t''"
      and "?e @ c = [] \<or> ?e @ c = ''/'' \<or> first_seq ws_seqs (?e @ c) \<noteq> None"
      by (auto simp: open_re_def eat_tag_name_def x simp del: eat_letters.simps split: if_splits)
    then have "?e = ''/'' \<or> first_seq ws_seqs ?e \<noteq> None"
      using first_seq_append [OF c False] False by (cases ?e) auto
    with t show ?thesis by (auto simp: open_re_def eat_tag_name_def x simp del: eat_letters.simps)
  qed
qed

lemma skipped_stable:
  assumes none: "parse_think_tag (CHR ''<'' # r) = None" and partial: "\<not> is_possible_partial_think_tag (CHR ''<'' # r)"
    and cut: "c = [] \<or> \<not> hidden_start (CHR ''<'' # r)" and c: "char_start c"
  shows "parse_think_tag (CHR ''<'' # r @ c) = None \<and> \<not> is_possible_partial_think_tag (CHR ''<'' # r @ c)"
proof (cases "c = []")
  case True
  with none partial show ?thesis by simp
next
  case False
  with cut have hidden: "\<not> hidden_start (CHR ''<'' # r)" by simp
  then have r: "r \<noteq> []" "r \<noteq> ''/''" by (auto simp: hidden_start_def contains_unquoted_gt_def is_quote_def)
  show ?thesis
  proof (cases "hd r = CHR ''/''")
    case True
    with r obtain u where u: "r = CHR ''/'' # u" "u \<noteq> []" by (cases r) auto
    have "\<not> close_re (CHR ''<'' # r @ c)" if "\<not> contains_unquoted_gt (CHR ''<'' # r)"
      using close_re_append [OF c u(2)] partial that by (auto simp: u(1) is_possible_partial_think_tag_def)
    moreover have "\<not> open_re (CHR ''<'' # r @ c)" by (simp add: u(1) open_re_def eat_tag_name_def ascii_lower_def is_ascii_upper_def)
    ultimately show ?thesis
      using close_stable [of u c] none partial u unquoted_gt_append [of "CHR ''<'' # r" c]
      by (auto simp: is_possible_partial_think_tag_def)
  next
    case False
    then have "\<not> close_re (CHR ''<'' # r @ c)" using r(1) by (cases r; cases "tl r @ c") (auto simp: close_re_def)
    moreover have "\<not> open_re (CHR ''<'' # r @ c)" if "\<not> contains_unquoted_gt (CHR ''<'' # r)"
      using open_re_append [OF c r(1)] partial that by (auto simp: is_possible_partial_think_tag_def)
    ultimately show ?thesis
      using open_stable [OF none r(1) False partial hidden] unquoted_gt_append [of "CHR ''<'' # r" c]
      by (auto simp: is_possible_partial_think_tag_def)
  qed
qed

lemma parse_append: "parse_think_tag s = Some (k, rest) \<Longrightarrow> parse_think_tag (s @ c) = Some (k, rest @ c)"
proof -
  assume "parse_think_tag s = Some (k, rest)"
  then have "reads_tag parse_think_tag s k rest" by (rule parse_think_tag_reads)
  then obtain tag where "s = tag @ rest" "\<forall>c. parse_think_tag (tag @ c) = Some (k, c)" unfolding reads_tag_def by blast
  then show ?thesis by simp
qed

lemma cut_ok_tl: "cut_ok (x # s) \<Longrightarrow> cut_ok s" and cut_ok_hidden: "cut_ok s \<Longrightarrow> \<not> hidden_start s"
  by (auto simp: cut_ok_def list_all_iff)

definition event_grows :: "bool \<Rightarrow> nat \<Rightarrow> string \<Rightarrow> string \<Rightarrow> bool" where
  "event_grows inside pos s c \<longleftrightarrow>
     (case buffer_event_from inside pos s of
        None \<Rightarrow> buffer_event_from inside pos (s @ c) = buffer_event_from inside (pos + length s) c
      | Some (TagAt p e k) \<Rightarrow> buffer_event_from inside pos (s @ c) = Some (TagAt p e k)
      | Some (OversizedTag e) \<Rightarrow> False
      | Some (PartialAt p) \<Rightarrow> buffer_event_from inside pos (s @ c) = buffer_event_from inside p (drop (p - pos) s @ c))"

lemma event_append:
  "c = [] \<or> cut_ok s \<Longrightarrow> char_start c \<Longrightarrow> length (s @ c) \<le> MAX_BUFFERED_THINK_TAG_BYTES \<Longrightarrow> event_grows inside pos s c"
proof (induction inside pos s rule: buffer_event_from.induct)
  case (2 inside pos x s)
  have cut: "c = [] \<or> cut_ok s" "c = [] \<or> \<not> hidden_start (x # s)" using "2.prems"(1) cut_ok_tl cut_ok_hidden by blast+
  have len: "length (s @ c) \<le> MAX_BUFFERED_THINK_TAG_BYTES" using "2.prems"(3) by simp
  have skip: ?case if "event_grows inside (Suc pos) s c"
    "buffer_event_from inside pos (x # s) = buffer_event_from inside (Suc pos) s"
    "buffer_event_from inside pos (x # s @ c) = buffer_event_from inside (Suc pos) (s @ c)"
  proof (cases "buffer_event_from inside (Suc pos) s")
    case None
    with that show ?thesis by (simp add: event_grows_def)
  next
    case (Some ev)
    show ?thesis
    proof (cases ev)
      case (PartialAt p)
      with Some buffer_event_from_bounds [of inside "Suc pos" s] have "Suc pos \<le> p" by fastforce
      then have "drop (p - pos) (x # s) = drop (p - Suc pos) s" by (metis Suc_diff_le diff_Suc_Suc drop_Suc_Cons)
      with that Some PartialAt show ?thesis by (simp add: event_grows_def)
    qed (use that Some in \<open>simp_all add: event_grows_def\<close>)
  qed
  show ?case
  proof (cases "x = CHR ''<''")
    case False
    with 2 cut len show ?thesis by (intro skip) auto
  next
    case True
    then have x: "\<not> x \<noteq> CHR ''<''" by simp
    show ?thesis
    proof (cases "parse_think_tag (x # s)")
      case None
      show ?thesis
      proof (cases "is_possible_partial_think_tag (x # s)")
        case True
        with None x show ?thesis by (simp add: event_grows_def is_possible_partial_think_tag_def)
      next
        case False
        with skipped_stable [of s c] None cut(2) True "2.prems"(2)
        have later: "parse_think_tag (x # s @ c) = None" "\<not> is_possible_partial_think_tag (x # s @ c)" by simp_all
        from False have "\<not> (\<not> contains_unquoted_gt (x # s) \<and> is_possible_partial_think_tag (x # s))" by simp
        from "2.IH"(2) [OF x None this cut(1) "2.prems"(2) len]
        show ?thesis by (rule skip) (use None later False True in simp_all)
      qed
    next
      case (Some r)
      obtain kind rest where r: "r = (kind, rest)" by fastforce
      have later: "parse_think_tag (x # s @ c) = Some (kind, rest @ c)" using parse_append [of "x # s"] Some r by simp
      have shorter: "length rest < length (x # s)" using Some r parse_think_tag_shorter by blast
      have small: "\<not> length (x # s) - length rest > MAX_BUFFERED_THINK_TAG_BYTES" using "2.prems"(3) by simp
      show ?thesis
      proof (cases "inside \<or> kind \<in> {TagOpen, TagSelfClosing}")
        case True
        then show ?thesis using small x Some r later by (simp add: event_grows_def Let_def)
      next
        case False
        have nsmall: "\<not> pos + (length (x # s) - length rest) - pos > MAX_BUFFERED_THINK_TAG_BYTES" using small by simp
        have "event_grows inside (Suc pos) s c"
          by (rule "2.IH"(3) [OF x Some r [symmetric] refl nsmall False cut(1) "2.prems"(2) len])
        then show ?thesis by (rule skip) (use small x Some r later False in \<open>simp_all add: Let_def\<close>)
      qed
    qed
  qed
qed (simp add: event_grows_def)

lemma event_shift: "buffer_event_from inside (n + pos) s = map_option (\<lambda>ev. case ev of
     TagAt p e k \<Rightarrow> TagAt (n + p) (n + e) k | OversizedTag e \<Rightarrow> OversizedTag (n + e) | PartialAt p \<Rightarrow> PartialAt (n + p))
   (buffer_event_from inside pos s)"
proof (induction inside pos s rule: buffer_event_from.induct)
  case (2 inside pos x s)
  then show ?case
    by (cases "x = CHR ''<''"; cases "parse_think_tag (x # s)")
      (auto simp: Let_def split: if_splits prod.splits)
qed simp

lemma process_skip:
  assumes "buffer_event_from (tf_inside_think tf) 0 (u @ v) = buffer_event_from (tf_inside_think tf) (length u) v"
  shows "process_from (tf\<lparr>tf_buffer := u @ v\<rparr>) out = process_from (tf\<lparr>tf_buffer := v\<rparr>) (push_side (tf_inside_think tf) u out)"
  using assms event_shift [of "tf_inside_think tf" "length u" 0 v]
  by (cases "buffer_event_from (tf_inside_think tf) 0 v")
    (simp_all add: process_from.simps [of "tf\<lparr>tf_buffer := u @ v\<rparr>"] process_from.simps [of "tf\<lparr>tf_buffer := v\<rparr>"]
      next_buffer_event_def Let_def split: buffer_event.split)

lemma cut_ok_suffix: "cut_ok s \<Longrightarrow> suffix u s \<Longrightarrow> cut_ok u"
  by (auto simp: cut_ok_def list_all_iff dest: suffix_order.trans)

lemma cut_ok_drop: "cut_ok s \<Longrightarrow> cut_ok (drop n s)"
  by (erule cut_ok_suffix) (rule suffix_drop)

lemma process_append:
  "c = [] \<or> cut_ok (tf_buffer tf) \<Longrightarrow> char_start c \<Longrightarrow> length (tf_buffer tf @ c) \<le> MAX_BUFFERED_THINK_TAG_BYTES \<Longrightarrow>
     process_from (tf\<lparr>tf_buffer := tf_buffer tf @ c\<rparr>) out
       = (case process_from tf out of (tf1, out1) \<Rightarrow> process_from (tf1\<lparr>tf_buffer := tf_buffer tf1 @ c\<rparr>) out1)"
proof (induction tf out rule: process_from.induct)
  case (1 tf out)
  let ?b = "tf_buffer tf" and ?i = "tf_inside_think tf"
  have grows: "event_grows ?i 0 ?b c" using event_append "1.prems" by blast
  show ?case
  proof (cases "next_buffer_event ?b ?i")
    case None
    then have "buffer_event_from ?i 0 (?b @ c) = buffer_event_from ?i (length ?b) c"
      using grows by (simp add: event_grows_def next_buffer_event_def)
    from process_skip [of tf ?b c, OF this] None show ?thesis
      by (simp add: process_from.simps [of tf] Let_def)
  next
    case (Some ev)
    show ?thesis
    proof (cases ev)
      case (TagAt p e k)
      with grows Some have later: "next_buffer_event (?b @ c) ?i = Some (TagAt p e k)"
        by (simp add: event_grows_def next_buffer_event_def)
      have b: "p \<le> length ?b" "e \<le> length ?b"
        using Some TagAt buffer_event_from_bounds [of ?i 0 ?b] by (fastforce simp: next_buffer_event_def)+
      define tf0 where "tf0 = apply_tag k (tf\<lparr>tf_buffer := drop e ?b\<rparr>)"
      have tf0: "tf_buffer tf0 = drop e ?b" "apply_tag k (tf\<lparr>tf_buffer := drop e ?b @ c\<rparr>) = tf0\<lparr>tf_buffer := drop e ?b @ c\<rparr>"
        by (simp_all add: tf0_def apply_tag_def split: think_tag.split)
      have c1: "c = [] \<or> cut_ok (tf_buffer tf0)" using "1.prems"(1) by (auto simp: tf0(1) cut_ok_drop)
      have c2: "length (tf_buffer tf0 @ c) \<le> MAX_BUFFERED_THINK_TAG_BYTES" using "1.prems"(3) by (simp add: tf0(1))
      have IH: "process_from (tf0\<lparr>tf_buffer := drop e ?b @ c\<rparr>) (push_side ?i (take p ?b) out)
          = (case process_from tf0 (push_side ?i (take p ?b) out) of (tf1, out1) \<Rightarrow> process_from (tf1\<lparr>tf_buffer := tf_buffer tf1 @ c\<rparr>) out1)"
        using "1.IH"(1) [OF refl refl Some TagAt, folded tf0_def, OF c1 "1.prems"(2) c2] by (simp only: tf0(1))
      have "process_from (tf\<lparr>tf_buffer := ?b @ c\<rparr>) out
          = process_from (apply_tag k (tf\<lparr>tf_buffer := drop e ?b @ c\<rparr>)) (push_side ?i (take p ?b) out)"
        using b later by (simp add: process_from.simps [of "tf\<lparr>tf_buffer := ?b @ c\<rparr>"] Let_def)
      moreover have "process_from tf out = process_from tf0 (push_side ?i (take p ?b) out)"
        using Some TagAt by (simp add: process_from.simps [of tf] Let_def tf0_def)
      ultimately show ?thesis by (simp only: tf0(2) IH)
    next
      case (OversizedTag e)
      with grows Some show ?thesis by (simp add: event_grows_def next_buffer_event_def)
    next
      case (PartialAt p)
      with grows Some have later: "buffer_event_from ?i 0 (?b @ c) = buffer_event_from ?i p (drop p ?b @ c)"
        by (simp add: event_grows_def next_buffer_event_def)
      have "p \<le> length ?b"
        using Some PartialAt buffer_event_from_bounds [of ?i 0 ?b] by (fastforce simp: next_buffer_event_def)
      then have "process_from (tf\<lparr>tf_buffer := ?b @ c\<rparr>) out
          = process_from (tf\<lparr>tf_buffer := drop p ?b @ c\<rparr>) (push_side ?i (take p ?b) out)"
        using process_skip [of tf "take p ?b" "drop p ?b @ c" out] later by (simp flip: append_assoc)
      then show ?thesis
        using Some PartialAt "1.prems"(3) by (simp add: process_from.simps [of tf] Let_def)
    qed
  qed
qed

lemma process_suffix: "suffix (tf_buffer (fst (process_from tf out))) (tf_buffer tf)"
proof (induction tf out rule: process_from.induct)
  case (1 tf out)
  show ?case
  proof (cases "next_buffer_event (tf_buffer tf) (tf_inside_think tf)")
    case None
    then show ?thesis by (simp add: process_from.simps [of tf] Let_def)
  next
    case (Some ev)
    have drop: "suffix u (drop e b) \<Longrightarrow> suffix u b" for u b :: string and e
      by (meson suffix_drop suffix_order.trans)
    show ?thesis
    proof (cases ev)
      case (TagAt p e k)
      have "tf_buffer (apply_tag k t) = tf_buffer t" for t by (simp add: apply_tag_def split: think_tag.split)
      with "1.IH"(1) [OF refl refl Some TagAt] drop
      have "suffix (tf_buffer (fst (process_from (apply_tag k (tf\<lparr>tf_buffer := drop e (tf_buffer tf)\<rparr>))
        (push_side (tf_inside_think tf) (take p (tf_buffer tf)) out)))) (tf_buffer tf)" by force
      with Some TagAt show ?thesis by (simp add: process_from.simps [of tf] Let_def)
    next
      case (OversizedTag e)
      with "1.IH"(2) [OF refl refl Some OversizedTag] drop
      have "suffix (tf_buffer (fst (process_from (tf\<lparr>tf_buffer := drop e (tf_buffer tf)\<rparr>)
        (push_side (tf_inside_think tf) (take e (tf_buffer tf)) out)))) (tf_buffer tf)" by force
      with Some OversizedTag show ?thesis by (simp add: process_from.simps [of tf] Let_def)
    next
      case (PartialAt p)
      with Some show ?thesis by (simp add: process_from.simps [of tf] Let_def suffix_drop)
    qed
  qed
qed

text \<open>No chunk but the last ends in an unrecognised beginning of a tag, and the rest starts a character.\<close>

fun good_cuts :: "string \<Rightarrow> string list \<Rightarrow> bool" where
  "good_cuts before [] = True"
| "good_cuts before (c # cs) =
     ((concat cs = [] \<or> cut_ok (before @ c)) \<and> char_start (concat cs) \<and> good_cuts (before @ c) cs)"

lemma filter_chunks_process:
  assumes "good_cuts before chunks" "suffix (tf_buffer tf) before" "length (before @ concat chunks) \<le> MAX_BUFFERED_THINK_TAG_BYTES"
    and "filter_chunks chunks tf = (tf1, out)"
  shows "process_from (tf\<lparr>tf_buffer := tf_buffer tf @ concat chunks\<rparr>) out0 = process_from tf1 (append_out out0 out)"
  using assms
proof (induction chunks arbitrary: before tf out out0)
  case Nil
  then show ?case by simp
next
  case (Cons c cs)
  let ?tf = "tf\<lparr>tf_buffer := tf_buffer tf @ c\<rparr>"
  obtain tf0 o0 where p: "process_from ?tf filter_out_default = (tf0, o0)" by fastforce
  then obtain o1 where cs: "filter_chunks cs tf0 = (tf1, o1)" and out: "out = append_out o0 o1"
    using Cons.prems(4) by (auto simp: filter_push_def process_buffer_def split: prod.splits)
  have suf: "suffix (tf_buffer tf @ c) (before @ c)" using Cons.prems(2) by (auto simp: suffix_def)
  then have "length (tf_buffer tf @ c) \<le> length (before @ c)" by (rule suffix_length_le)
  with Cons.prems(3) have len: "length (tf_buffer ?tf @ concat cs) \<le> MAX_BUFFERED_THINK_TAG_BYTES" by simp
  have "concat cs = [] \<or> cut_ok (tf_buffer ?tf)" using Cons.prems(1) cut_ok_suffix [OF _ suf] by auto
  from process_append [OF this _ len, of out0] Cons.prems(1)
  have "process_from (tf\<lparr>tf_buffer := tf_buffer tf @ concat (c # cs)\<rparr>) out0
      = (case process_from ?tf out0 of (tf2, out2) \<Rightarrow> process_from (tf2\<lparr>tf_buffer := tf_buffer tf2 @ concat cs\<rparr>) out2)" by simp
  also have "\<dots> = process_from (tf0\<lparr>tf_buffer := tf_buffer tf0 @ concat cs\<rparr>) (append_out out0 o0)"
    by (simp add: process_from_default [of ?tf out0] p)
  also have "\<dots> = process_from tf1 (append_out (append_out out0 o0) o1)"
  proof (rule Cons.IH [OF _ _ _ cs])
    show "suffix (tf_buffer tf0) (before @ c)"
      using process_suffix [of ?tf filter_out_default] suf by (auto simp: p intro: suffix_order.trans)
  qed (use Cons.prems in simp_all)
  finally show ?case by (simp add: out)
qed

lemma filter_stream_process:
  assumes "good_cuts [] chunks" "length (concat chunks) \<le> MAX_BUFFERED_THINK_TAG_BYTES"
  shows "filter_stream chunks = (case process_from (think_filter_new\<lparr>tf_buffer := concat chunks\<rparr>) filter_out_default of
     (tf, out) \<Rightarrow> push_side (tf_inside_think tf) (tf_buffer tf) out)"
proof -
  obtain tf1 out where cs: "filter_chunks chunks think_filter_new = (tf1, out)" by fastforce
  have "process_from (think_filter_new\<lparr>tf_buffer := concat chunks\<rparr>) filter_out_default = process_from tf1 out"
    using filter_chunks_process [OF assms(1) _ _ cs, of filter_out_default] assms(2) by (simp add: think_filter_new_def)
  then show ?thesis
    by (simp add: filter_stream_def cs filter_finish_def process_buffer_def process_from_default [of tf1 out] split: prod.split)
qed

lemma filter_stream_whole:
  assumes "good_cuts [] chunks" "length (concat chunks) \<le> MAX_BUFFERED_THINK_TAG_BYTES"
  shows "filter_stream chunks = filter_stream [concat chunks]"
  using filter_stream_process [OF assms] filter_stream_process [of "[concat chunks]"] assms(2)
  by (simp add: char_start_def)

lemma split_as_stream: "split_think_blocks s = (fo_content (filter_stream [s]), fo_thinking (filter_stream [s]))"
  by (simp add: split_think_blocks_def filter_stream_def append_out_def filter_out_default_def Let_def split: prod.split)

text \<open>The chunks in which a text arrives do not change what is
  reasoning and what is visible: the filter, fed chunk by chunk, delivers what \<open>split_think_blocks\<close>
  makes of the whole text, provided that no chunk ends in the first characters of a tag that the
  filter does not recognise, and that the text fits the bound of the buffer.\<close>

lemma think_chunks_equivalent:
  assumes "good_cuts [] chunks" "length (concat chunks) \<le> MAX_BUFFERED_THINK_TAG_BYTES"
  shows "split_think_blocks (concat chunks) = (fo_content (filter_stream chunks), fo_thinking (filter_stream chunks))"
  by (simp add: filter_stream_whole [OF assms] split_as_stream)

lemma think_chunks_equivalent_example:
  "split_think_blocks ''<think>a</think>b'' = (''b'', ''a'')
     \<and> filter_stream [''<th'', ''ink>a</thi'', ''nk>b''] = \<lparr>fo_content = ''b'', fo_thinking = ''a''\<rparr>"
proof -
  have "good_cuts [] [''<th'', ''ink>a</thi'', ''nk>b'']" by code_simp
  moreover have "split_think_blocks ''<think>a</think>b'' = (''b'', ''a'')" by code_simp
  ultimately show ?thesis
    using think_chunks_equivalent [of "[''<th'', ''ink>a</thi'', ''nk>b'']"]
    by (cases "filter_stream [''<th'', ''ink>a</thi'', ''nk>b'']") (simp add: MAX_BUFFERED_THINK_TAG_BYTES_def)
qed

subsection \<open>Written tags are taken out\<close>

text \<open>A text as a model writes it: words without an angle bracket, and the four forms of a tag, with
  attributes that hold no quotes. What a reader makes of it does not depend on the parser: inside of
  an open tag the words are reasoning, outside of all of them they are visible, and a closing tag
  that closes nothing is visible text.\<close>

datatype written =
    Words string
  | OpeningTag string string
  | ClosingTag string string
  | ClosedTag string string

fun written_text :: "written \<Rightarrow> string" where
  "written_text (Words t) = t"
| "written_text (OpeningTag name attrs) = ''<'' @ name @ attrs @ ''>''"
| "written_text (ClosingTag name ws) = ''</'' @ name @ ws @ ''>''"
| "written_text (ClosedTag name attrs) = ''<'' @ name @ attrs @ ''/>''"

definition tag_spaces :: string where
  "tag_spaces = [CHR 0x20, CHR 0x09, CHR 0x0A, CHR 0x0D, CHR 0x0C]"

definition think_word :: "string \<Rightarrow> bool" where
  "think_word name = (to_ascii_lowercase name \<in> {''think'', ''thinking''})"

definition plain_attributes :: "string \<Rightarrow> bool" where
  "plain_attributes attrs =
     ((attrs = [] \<or> hd attrs \<in> set tag_spaces)
      \<and> list_all (\<lambda>c. c \<notin> {CHR 0x22, CHR 0x27, CHR ''<'', CHR ''>''}) attrs)"

fun well_written :: "written \<Rightarrow> bool" where
  "well_written (Words t) = (CHR ''<'' \<notin> set t)"
| "well_written (OpeningTag name attrs) =
     (think_word name \<and> plain_attributes attrs
      \<and> (let marks = filter (\<lambda>c. c \<notin> set tag_spaces) attrs in marks = [] \<or> last marks \<noteq> CHR ''/''))"
| "well_written (ClosingTag name ws) = (think_word name \<and> set ws \<subseteq> set tag_spaces)"
| "well_written (ClosedTag name attrs) = (think_word name \<and> plain_attributes attrs)"

fun written_output :: "nat \<Rightarrow> written list \<Rightarrow> filter_out" where
  "written_output d [] = \<lparr>fo_content = [], fo_thinking = []\<rparr>"
| "written_output d (Words t # ps) =
     (let o1 = written_output d ps in
      if d = 0 then o1\<lparr>fo_content := t @ fo_content o1\<rparr> else o1\<lparr>fo_thinking := t @ fo_thinking o1\<rparr>)"
| "written_output d (OpeningTag name attrs # ps) = written_output (d + 1) ps"
| "written_output d (ClosingTag name ws # ps) =
     (if d = 0 then (let o1 = written_output 0 ps in
         o1\<lparr>fo_content := written_text (ClosingTag name ws) @ fo_content o1\<rparr>)
      else written_output (d - 1) ps)"
| "written_output d (ClosedTag name attrs # ps) = written_output d ps"

lemma tag_spaces_ws: "c \<in> set tag_spaces \<longleftrightarrow> is_ascii_whitespace c"
  by (auto simp: tag_spaces_def is_ascii_whitespace_def)

lemma think_word_alphabetic:
  assumes "think_word name"
  shows "name \<noteq> []" "\<forall>c \<in> set name. is_ascii_alphabetic c" "is_think_name name"
proof -
  have low: "map ascii_lower name \<in> {''think'', ''thinking''}"
    using assms by (simp add: think_word_def to_ascii_lowercase_def)
  then show "name \<noteq> []" by auto
  have lower: "is_ascii_lower (ascii_lower c)" if "c \<in> set name" for c
  proof -
    from that have "ascii_lower c \<in> set (map ascii_lower name)" by simp
    with low have "ascii_lower c \<in> set ''think'' \<union> set ''thinking''" by (metis UnCI insertE singletonD)
    then show ?thesis by (auto simp: is_ascii_lower_def)
  qed
  have "is_ascii_alphabetic c" if "c \<in> set name" for c
    using lower [OF that] by (cases "is_ascii_upper c") (simp_all add: is_ascii_alphabetic_def ascii_lower_def)
  then show "\<forall>c \<in> set name. is_ascii_alphabetic c" by blast
  show "is_think_name name" using assms by (simp add: think_word_def is_think_name_def)
qed

lemma attributes_read:
  assumes "list_all (\<lambda>c. \<not> is_quote c \<and> c \<noteq> CHR ''>'') attrs"
  shows "tag_attributes None l (attrs @ CHR ''>'' # v) =
    Some (if (let marks = filter (\<lambda>c. c \<notin> set tag_spaces) attrs in
              if marks = [] then l = Some (CHR ''/'') else last marks = CHR ''/'')
          then TagSelfClosing else TagOpen, v)"
  using assms
proof (induction attrs arbitrary: l)
  case Nil
  then show ?case by (simp add: is_quote_def)
next
  case (Cons c attrs)
  then show ?case by (cases "is_ascii_whitespace c") (auto simp: tag_spaces_ws Let_def)
qed

lemma name_read:
  assumes "think_word name" and "rest \<noteq> []" "\<not> is_ascii_alphabetic (hd rest)"
  shows "parse_think_tag (CHR ''<'' # name @ rest) = open_tag_rest rest"
    and "parse_think_tag (CHR ''<'' # CHR ''/'' # name @ rest) = close_tag_rest rest"
proof -
  note name = think_word_alphabetic [OF assms(1)]
  have split: "takeWhile is_ascii_alphabetic (name @ rest) = name" "dropWhile is_ascii_alphabetic (name @ rest) = rest"
    using span_split [OF name(2) assms(2,3), of "[]"] by simp_all
  have "hd (name @ rest) \<noteq> CHR ''/''"
    using name(1,2) by (cases name) (auto simp: is_ascii_alphabetic_def is_ascii_lower_def is_ascii_upper_def)
  then show "parse_think_tag (CHR ''<'' # name @ rest) = open_tag_rest rest"
    "parse_think_tag (CHR ''<'' # CHR ''/'' # name @ rest) = close_tag_rest rest"
    using split name(1,3) by (simp_all add: parse_think_tag_def Let_def)
qed

lemma not_alphabetic: "is_ascii_whitespace c \<Longrightarrow> \<not> is_ascii_alphabetic c" "\<not> is_ascii_alphabetic CHR ''>''"
  "\<not> is_ascii_alphabetic CHR ''/''" "\<not> is_ascii_whitespace CHR ''>''" "\<not> is_quote CHR ''/''"
  by (auto simp: is_ascii_whitespace_def is_ascii_alphabetic_def is_ascii_lower_def is_ascii_upper_def is_quote_def)

lemma written_tag_parses:
  assumes "well_written p"
  shows "case p of
      Words t \<Rightarrow> True
    | OpeningTag n a \<Rightarrow> parse_think_tag (written_text p @ v) = Some (TagOpen, v)
    | ClosingTag n w \<Rightarrow> parse_think_tag (written_text p @ v) = Some (TagClose, v)
    | ClosedTag n a \<Rightarrow> parse_think_tag (written_text p @ v) = Some (TagSelfClosing, v)"
proof (cases p)
  case (OpeningTag n a)
  with assms have n: "think_word n" and a: "a = [] \<or> is_ascii_whitespace (hd a)"
    "list_all (\<lambda>c. \<not> is_quote c \<and> c \<noteq> CHR ''>'') a"
    by (auto simp: plain_attributes_def tag_spaces_ws list_all_iff is_quote_def)
  have "open_tag_rest (a @ CHR ''>'' # v) = tag_attributes None None (a @ CHR ''>'' # v)"
    using a(1) by (cases a) (simp_all add: open_tag_rest_def del: tag_attributes.simps)
  then show ?thesis
    using name_read(1) [OF n, of "a @ CHR ''>'' # v"] a(1) attributes_read [OF a(2), of None v] assms OpeningTag
    by (cases a) (auto simp: not_alphabetic Let_def)
next
  case (ClosedTag n a)
  with assms have n: "think_word n" and a: "a = [] \<or> is_ascii_whitespace (hd a)"
    "list_all (\<lambda>c. \<not> is_quote c \<and> c \<noteq> CHR ''>'') (a @ ''/'')"
    by (auto simp: plain_attributes_def tag_spaces_ws list_all_iff is_quote_def)
  have "open_tag_rest ((a @ ''/'') @ CHR ''>'' # v) = tag_attributes None None ((a @ ''/'') @ CHR ''>'' # v)"
    using a(1) by (cases a) (simp_all add: open_tag_rest_def del: tag_attributes.simps)
  moreover have "CHR ''/'' \<notin> set tag_spaces" by (simp add: tag_spaces_def)
  ultimately show ?thesis
    using name_read(1) [OF n, of "(a @ ''/'') @ CHR ''>'' # v"] a(1) attributes_read [OF a(2), of None v] ClosedTag
    by (cases a) (auto simp: not_alphabetic Let_def)
next
  case (ClosingTag n w)
  with assms have n: "think_word n" and w: "\<forall>c \<in> set w. is_ascii_whitespace c"
    by (auto simp: tag_spaces_ws)
  have "close_tag_rest (w @ CHR ''>'' # v) = Some (TagClose, v)"
    using w by (simp add: close_tag_rest_def dropWhile_append2 not_alphabetic)
  then show ?thesis
    using name_read(2) [OF n, of "w @ CHR ''>'' # v"] w ClosingTag
    by (cases w) (auto simp: not_alphabetic)
qed simp

lemma skip_words:
  "CHR ''<'' \<notin> set t \<Longrightarrow> buffer_event_from inside pos (t @ v) = buffer_event_from inside (pos + length t) v"
  by (induction t arbitrary: pos) auto

lemma think_name_no_bracket: "think_word n \<Longrightarrow> CHR ''<'' \<notin> set n"
  using think_word_alphabetic(2) by (fastforce simp: is_ascii_alphabetic_def is_ascii_lower_def is_ascii_upper_def)

definition final_output :: "think_filter \<times> filter_out \<Rightarrow> filter_out" where
  "final_output r = push_side (tf_inside_think (fst r)) (tf_buffer (fst r)) (snd r)"

lemma delivered_skip:
  assumes "buffer_event_from (tf_inside_think tf) 0 (u @ v) = buffer_event_from (tf_inside_think tf) (length u) v"
  shows "final_output (process_from (tf\<lparr>tf_buffer := u @ v\<rparr>) out)
    = final_output (process_from (tf\<lparr>tf_buffer := v\<rparr>) (push_side (tf_inside_think tf) u out))"
  by (simp add: process_skip [OF assms])

lemma delivered_tag:
  assumes "parse_think_tag (t @ v) = Some (k, v)" and "hd t = CHR ''<''" "t \<noteq> []"
    and "length t \<le> MAX_BUFFERED_THINK_TAG_BYTES" and "tf_inside_think tf \<or> k \<noteq> TagClose"
  shows "process_from (tf\<lparr>tf_buffer := t @ v\<rparr>) out = process_from ((apply_tag k tf)\<lparr>tf_buffer := v\<rparr>) out"
proof -
  obtain u where t: "t = CHR ''<'' # u" using assms(2,3) by (cases t) auto
  have "tf_inside_think tf \<or> k \<in> {TagOpen, TagSelfClosing}" using assms(5) by (cases k) auto
  with assms(1,4) have "next_buffer_event (t @ v) (tf_inside_think tf) = Some (TagAt 0 (length t) k)"
    by (auto simp: t next_buffer_event_def Let_def)
  moreover have "apply_tag k (tf\<lparr>tf_buffer := v\<rparr>) = (apply_tag k tf)\<lparr>tf_buffer := v\<rparr>"
    by (cases k) (simp_all add: apply_tag_def)
  ultimately show ?thesis by (simp add: process_from.simps [of "tf\<lparr>tf_buffer := t @ v\<rparr>"] Let_def)
qed

lemma written_processed:
  assumes "list_all well_written ps" and "length (concat (map written_text ps)) \<le> MAX_BUFFERED_THINK_TAG_BYTES"
    and "tf_inside_think tf = (0 < tf_think_depth tf)"
  shows "final_output (process_from (tf\<lparr>tf_buffer := concat (map written_text ps)\<rparr>) out)
    = append_out out (written_output (tf_think_depth tf) ps)"
  using assms
proof (induction ps arbitrary: tf out)
  case Nil
  then show ?case
    by (simp add: process_from.simps [of "tf\<lparr>tf_buffer := []\<rparr>"] next_buffer_event_def final_output_def append_out_def)
next
  case (Cons p ps)
  let ?v = "concat (map written_text ps)"
  have IH: "final_output (process_from (tf'\<lparr>tf_buffer := ?v\<rparr>) out') = append_out out' (written_output (tf_think_depth tf') ps)"
    if "tf_inside_think tf' = (0 < tf_think_depth tf')" for tf' out'
    using Cons.IH [OF _ _ that] Cons.prems(1,2) by simp
  have pushed: "append_out (push_side i t out) o1
      = append_out out (if i then o1\<lparr>fo_thinking := t @ fo_thinking o1\<rparr> else o1\<lparr>fo_content := t @ fo_content o1\<rparr>)" for i t o1
    by (simp add: append_out_def push_side_def)
  have tag: "final_output (process_from (tf\<lparr>tf_buffer := written_text p @ ?v\<rparr>) out)
      = append_out out (written_output (case k of TagOpen \<Rightarrow> tf_think_depth tf + 1 | TagClose \<Rightarrow> tf_think_depth tf - 1
          | TagSelfClosing \<Rightarrow> tf_think_depth tf) ps)"
    if "parse_think_tag (written_text p @ ?v) = Some (k, ?v)" "hd (written_text p) = CHR ''<''" "written_text p \<noteq> []"
      "tf_inside_think tf \<or> k \<noteq> TagClose" for k
  proof -
    have "length (written_text p) \<le> MAX_BUFFERED_THINK_TAG_BYTES" using Cons.prems(2) by simp
    from delivered_tag [OF that(1-3) this that(4), of out]
    moreover have "tf_inside_think (apply_tag k tf) = (0 < tf_think_depth (apply_tag k tf))"
      using Cons.prems(3) by (cases k) (simp_all add: apply_tag_def)
    moreover have "tf_think_depth (apply_tag k tf) = (case k of TagOpen \<Rightarrow> tf_think_depth tf + 1 | TagClose \<Rightarrow> tf_think_depth tf - 1
          | TagSelfClosing \<Rightarrow> tf_think_depth tf)" by (cases k) (simp_all add: apply_tag_def)
    ultimately show ?thesis using IH [of "apply_tag k tf" out] by simp
  qed
  show ?case
  proof (cases p)
    case (Words t)
    with Cons.prems(1) have "CHR ''<'' \<notin> set t" by simp
    from delivered_skip [OF skip_words [OF this, of _ 0, simplified], where tf = tf and out = out]
    show ?thesis using IH [OF Cons.prems(3)] Cons.prems(3) Words by (auto simp: pushed Let_def)
  next
    case (OpeningTag n a)
    with Cons.prems(1) written_tag_parses [of p ?v] tag [of TagOpen] show ?thesis by simp
  next
    case (ClosedTag n a)
    with Cons.prems(1) written_tag_parses [of p ?v] tag [of TagSelfClosing] show ?thesis by simp
  next
    case (ClosingTag n w)
    with Cons.prems(1) written_tag_parses [of p ?v]
    have parse: "parse_think_tag (written_text p @ ?v) = Some (TagClose, ?v)" by simp
    show ?thesis
    proof (cases "tf_think_depth tf = 0")
      case False
      with ClosingTag parse tag [of TagClose] Cons.prems(3) show ?thesis by simp
    next
      case True
      define u where "u = tl (written_text p)"
      have t: "written_text p = CHR ''<'' # u" by (simp add: u_def ClosingTag)
      have "CHR ''<'' \<notin> set u"
        using Cons.prems(1) ClosingTag think_name_no_bracket [of n] by (auto simp: u_def tag_spaces_def)
      from skip_words [OF this, of False "Suc 0" ?v] parse t Cons.prems(2)
      have "buffer_event_from False 0 (written_text p @ ?v) = buffer_event_from False (length (written_text p)) ?v"
        by (simp add: Let_def)
      with Cons.prems(3) True delivered_skip [of tf "written_text p" ?v out]
      show ?thesis using IH [OF Cons.prems(3), of "push_side False (written_text p) out"] ClosingTag
        by (simp add: pushed Let_def)
    qed
  qed
qed

text \<open>Claim C29 (think_text_preserved): let a text consist of words without an angle bracket and of
  \<open>think\<close> or \<open>thinking\<close> tags, in any case, opening, closing and self-closing, with attributes that
  hold no quotes. The filter, fed with the text in chunks, delivers exactly the words inside of an
  open tag as reasoning and the other words as visible text, in order, without the tags; a closing
  tag that closes nothing stays visible. Splitting the whole text does the same. The chunks are cut
  between characters, none but the last ends in \<open><\<close>, in \<open></\<close> or within a tag whose name a slash and
  more follow (\<open>chunk_splits_tag_start\<close> has such a cut), and the text has at most 8 KiB.\<close>

theorem think_text_preserved:
  assumes "list_all well_written ps" and "concat chunks = concat (map written_text ps)"
    and "good_cuts [] chunks" and "length (concat chunks) \<le> MAX_BUFFERED_THINK_TAG_BYTES"
  shows "filter_stream chunks = written_output 0 ps
    \<and> split_think_blocks (concat chunks) = (fo_content (written_output 0 ps), fo_thinking (written_output 0 ps))"
proof -
  have "filter_stream chunks = written_output 0 ps"
    using filter_stream_process [OF assms(3,4)] written_processed [of ps think_filter_new filter_out_default] assms(1,2,4)
    by (simp add: think_filter_new_def final_output_def case_prod_beta)
  then show ?thesis using think_chunks_equivalent [OF assms(3,4)] by simp
qed

theorem think_text_preserved_witness:
  "filter_stream [''<th'', ''ink x=1>a</thi'', ''nk>b</THINKING >c'']
     = \<lparr>fo_content = ''b</THINKING >c'', fo_thinking = ''a''\<rparr>"
proof -
  have "good_cuts [] [''<th'', ''ink x=1>a</thi'', ''nk>b</THINKING >c'']" by code_simp
  moreover have "list_all well_written [OpeningTag ''think'' '' x=1'', Words ''a'', ClosingTag ''think'' [],
      Words ''b'', ClosingTag ''THINKING'' '' '', Words ''c'']" by code_simp
  ultimately show ?thesis
    using think_text_preserved [of "[OpeningTag ''think'' '' x=1'', Words ''a'', ClosingTag ''think'' [],
      Words ''b'', ClosingTag ''THINKING'' '' '', Words ''c'']" "[''<th'', ''ink x=1>a</thi'', ''nk>b</THINKING >c'']"]
    by (simp add: MAX_BUFFERED_THINK_TAG_BYTES_def)
qed

end
