(* ===== verification/OpenAI_Request.thy ===== *)
theory OpenAI_Request
  imports Json_Repair Permission_Manager
begin

section \<open>Requests in the format of OpenAI\<close>

text \<open>
  The first half of \<open>formats/openai.rs\<close> of \<open>crates/goose-provider-types\<close> with \<open>documents.rs\<close> and the
  conversion of images: how a conversation is written as the messages of a chat completion, how
  the calls of one answer that the agent stored apart are put together again, and how every call is
  given an answer. The serializer, the display of an error, the detection of image paths in a text
  and the loading of an image file are fields of \<open>openai_env\<close>. Keys of an object are listed in the
  order in which the code inserts them.
\<close>

record openai_env =
  oa_text :: text_env
  oa_to_string :: "json \<Rightarrow> string"
  oa_show_error :: "error_data \<Rightarrow> string"
  oa_detect_image_path :: "string \<Rightarrow> string option"
  oa_load_image_file :: "string \<Rightarrow> image_content option"

datatype thinking_preservation_format = ContentPrepend | ContentXml | ReasoningContent

record openai_format_options =
  of_preserve_thinking_context :: bool
  of_supports_vision :: bool
  of_thinking_preservation_format :: "thinking_preservation_format option"

datatype image_format = OpenAiImage | AnthropicImage

subsection \<open>JSON\<close>

definition json_set :: "string \<Rightarrow> json \<Rightarrow> json \<Rightarrow> json" where
  "json_set k v j = (case j of JObject kvs \<Rightarrow> JObject (AList.update k v kvs) | _ \<Rightarrow> j)"

definition json_items :: "string \<Rightarrow> json \<Rightarrow> json list" where
  "json_items k j = (case json_get k j of Some (JArray xs) \<Rightarrow> xs | _ \<Rightarrow> [])"

definition json_str :: "string \<Rightarrow> json \<Rightarrow> string option" where
  "json_str k j = Option.bind (json_get k j) as_str"

definition text_item :: "string \<Rightarrow> json" where
  "text_item t = JObject [(''type'', JString ''text''), (''text'', JString t)]"

definition role_message :: "string \<Rightarrow> json \<Rightarrow> json" where
  "role_message r content = JObject [(''role'', JString r), (''content'', content)]"

definition has_role :: "string \<Rightarrow> json \<Rightarrow> bool" where
  "has_role r m = (json_get ''role'' m = Some (JString r))"

subsection \<open>Images and documents\<close>

definition convert_image :: "image_format \<Rightarrow> image_content \<Rightarrow> json" where
  "convert_image fmt pic =
     (case fmt of
        OpenAiImage \<Rightarrow>
          JObject [(''type'', JString ''image_url''),
            (''image_url'', JObject [(''url'',
               JString (''data:'' @ ic_mime_type pic @ '';base64,'' @ ic_data pic))])]
      | AnthropicImage \<Rightarrow>
          JObject [(''type'', JString ''image''),
            (''source'', JObject [(''type'', JString ''base64''), (''media_type'', JString (ic_mime_type pic)),
               (''data'', JString (ic_data pic))])])"

datatype document_format = OpenAiDocument | AnthropicDocument

definition document_media_type_is_supported :: "string \<Rightarrow> bool" where
  "document_media_type_is_supported mime \<longleftrightarrow> mime \<in> set [''application/pdf'']"

definition convert_document :: "document_content \<Rightarrow> document_format \<Rightarrow> json" where
  "convert_document d fmt =
     (case fmt of
        OpenAiDocument \<Rightarrow>
          JObject [(''type'', JString ''file''),
            (''file'', JObject
               [(''filename'', JString (case dc_name d of Some n \<Rightarrow> n | None \<Rightarrow> ''document.pdf'')),
                (''file_data'', JString (''data:'' @ dc_mime_type d @ '';base64,'' @ dc_data d))])]
      | AnthropicDocument \<Rightarrow>
          (let block = JObject [(''type'', JString ''document''),
             (''source'', JObject [(''type'', JString ''base64''), (''media_type'', JString (dc_mime_type d)),
                (''data'', JString (dc_data d))])] in
           case dc_name d of Some n \<Rightarrow> json_set ''title'' (JString n) block | None \<Rightarrow> block))"

definition unsupported_document_text :: "document_content \<Rightarrow> string \<Rightarrow> string" where
  "unsupported_document_text d reason =
     (case dc_name d of
        Some n \<Rightarrow> ''[document \"'' @ n @ ''\" ('' @ dc_mime_type d @ '') not sent: '' @ reason @ '']''
      | None \<Rightarrow> ''[document ('' @ dc_mime_type d @ '') not sent: '' @ reason @ '']'')"

definition UNSUPPORTED_MEDIA_TYPE_REASON :: string where
  "UNSUPPORTED_MEDIA_TYPE_REASON = ''only application/pdf documents can be sent to this provider''"

definition ASSISTANT_ROLE_REASON :: string where
  "ASSISTANT_ROLE_REASON = ''documents can only be sent in user messages''"

subsection \<open>One message\<close>

definition MAX_FUNCTION_NAME_LENGTH :: nat where
  "MAX_FUNCTION_NAME_LENGTH = 128"

definition is_function_char :: "string \<Rightarrow> bool" where
  "is_function_char ch \<longleftrightarrow> length ch = 1 \<and> is_tag_char (hd ch)"

definition sanitize_function_name :: "string \<Rightarrow> string" where
  "sanitize_function_name name =
     concat (take MAX_FUNCTION_NAME_LENGTH (map (\<lambda>ch. if is_function_char ch then ch else ''_'') (str_chars name)))"

definition is_valid_function_name :: "string \<Rightarrow> bool" where
  "is_valid_function_name name \<longleftrightarrow> name \<noteq> [] \<and> list_all is_function_char (str_chars name)"

record message_parts =
  mp_calls :: "json list"
  mp_output :: "json list"
  mp_content :: "json list"
  mp_non_text :: bool
  mp_reasoning :: string

definition no_parts :: message_parts where
  "no_parts = \<lparr>mp_calls = [], mp_output = [], mp_content = [], mp_non_text = False, mp_reasoning = []\<rparr>"

definition push_content :: "json \<Rightarrow> message_parts \<Rightarrow> message_parts" where
  "push_content item mp = mp\<lparr>mp_content := mp_content mp @ [item]\<rparr>"

definition format_text ::
    "openai_env \<Rightarrow> image_format \<Rightarrow> openai_format_options \<Rightarrow> role \<Rightarrow> string \<Rightarrow> message_parts \<Rightarrow> message_parts" where
  "format_text env img opts r t mp =
     (if t = [] then mp
      else if r = User \<and> of_supports_vision opts
      then (case Option.bind (oa_detect_image_path env t) (oa_load_image_file env) of
              Some pic \<Rightarrow> push_content (convert_image img pic) (push_content (text_item t) (mp\<lparr>mp_non_text := True\<rparr>))
            | None \<Rightarrow> push_content (text_item t) mp)
      else push_content (text_item t) mp)"

definition call_json :: "string \<Rightarrow> string \<Rightarrow> string \<Rightarrow> json" where
  "call_json i name args =
     JObject [(''id'', JString i), (''type'', JString ''function''),
       (''function'', JObject [(''name'', JString name), (''arguments'', JString args)])]"

definition format_call :: "openai_env \<Rightarrow> tool_request \<Rightarrow> json" where
  "format_call env request =
     (case tr_tool_call request of
        Inr call \<Rightarrow>
          (let args = (case ctp_arguments call of Some a \<Rightarrow> oa_to_string env (JObject a) | None \<Rightarrow> ''{}'');
               base = call_json (tr_id request) (sanitize_function_name (ctp_name call)) args in
           case tr_metadata request of
             Some md \<Rightarrow> fold (\<lambda>(k, v) j. json_set k v j) md base
           | None \<Rightarrow> base)
      | Inl _ \<Rightarrow> call_json (tr_id request) ''unparseable_tool_call'' ''{}'')"

definition tool_message :: "string \<Rightarrow> string \<Rightarrow> json" where
  "tool_message content i =
     JObject [(''role'', JString ''tool''), (''content'', JString content), (''tool_call_id'', JString i)]"

definition tool_content_text :: "openai_env \<Rightarrow> openai_format_options \<Rightarrow> content_block \<Rightarrow> string" where
  "tool_content_text env opts c =
     (case c of
        CText t \<Rightarrow> tc_text t
      | CImage _ \<Rightarrow>
          if of_supports_vision opts then ''This tool result included an image that is uploaded in the next message.''
          else ''This tool result included an image that was omitted as the model does not support vision.''
      | CResource r _ _ \<Rightarrow> extract_text_from_resource (oa_text env) r
      | _ \<Rightarrow> [])"

definition tool_image_message :: "image_format \<Rightarrow> openai_format_options \<Rightarrow> content_block \<Rightarrow> json option" where
  "tool_image_message img opts c =
     (case c of
        CImage pic \<Rightarrow>
          if of_supports_vision opts then Some (role_message ''user'' (JArray [convert_image img pic])) else None
      | _ \<Rightarrow> None)"

definition format_response :: "openai_env \<Rightarrow> image_format \<Rightarrow> openai_format_options \<Rightarrow> tool_response \<Rightarrow> json list" where
  "format_response env img opts response =
     (case ts_tool_result response of
        Inr result \<Rightarrow>
          tool_message (join '' '' (map (tool_content_text env opts) (ctr_content result))) (ts_id response)
          # filter_map (tool_image_message img opts) (ctr_content result)
      | Inl e \<Rightarrow>
          [tool_message (''The tool call returned the following error:'' @ [NL] @ oa_show_error env e) (ts_id response)])"

definition format_part ::
    "openai_env \<Rightarrow> image_format \<Rightarrow> openai_format_options \<Rightarrow> role \<Rightarrow> message_content_block \<Rightarrow> message_parts \<Rightarrow> message_parts" where
  "format_part env img opts r b mp =
     (case b of
        Text t \<Rightarrow> format_text env img opts r (tc_text t) mp
      | Thinking t \<Rightarrow> mp\<lparr>mp_reasoning := mp_reasoning mp @ th_thinking t\<rparr>
      | ToolRequest request \<Rightarrow> mp\<lparr>mp_calls := mp_calls mp @ [format_call env request]\<rparr>
      | ToolResponse response \<Rightarrow> mp\<lparr>mp_output := mp_output mp @ format_response env img opts response\<rparr>
      | Image pic \<Rightarrow>
          if r = User then
            if of_supports_vision opts then push_content (convert_image img pic) (mp\<lparr>mp_non_text := True\<rparr>)
            else push_content (text_item ''[image omitted: model does not support vision]'') mp
          else push_content (text_item ''[Image content removed - not supported in assistant messages]'') mp
      | Document d \<Rightarrow>
          if r \<noteq> User then push_content (text_item (unsupported_document_text d ASSISTANT_ROLE_REASON)) mp
          else if document_media_type_is_supported (dc_mime_type d)
          then push_content (convert_document d OpenAiDocument) (mp\<lparr>mp_non_text := True\<rparr>)
          else push_content (text_item (unsupported_document_text d UNSUPPORTED_MEDIA_TYPE_REASON)) mp
      | _ \<Rightarrow> mp)"

definition merge_reasoning_text :: "string \<Rightarrow> string \<Rightarrow> string" where
  "merge_reasoning_text p s =
     (if p = [] then s else if s = [] then p
      else if prefix p s then s
      else if suffix s p then p
      else p @ s)"

record format_state =
  fs_pending_reasoning :: string
  fs_turn_reasoning :: string
  fs_saw_tool_response :: bool

definition begin_message :: "openai_format_options \<Rightarrow> message \<Rightarrow> format_state \<Rightarrow> format_state" where
  "begin_message opts m st =
     (if \<not> of_preserve_thinking_context opts then st
      else
        let st1 = (if m_role m \<noteq> Assistant then st\<lparr>fs_pending_reasoning := []\<rparr> else st);
            st2 = (if m_role m = User
                   then if \<exists>b \<in> set (m_content m). as_tool_response b \<noteq> None then st1\<lparr>fs_saw_tool_response := True\<rparr>
                        else st1\<lparr>fs_turn_reasoning := [], fs_saw_tool_response := False\<rparr>
                   else st1) in
        if m_role m = Assistant \<and> fs_saw_tool_response st2
        then st2\<lparr>fs_turn_reasoning := [], fs_saw_tool_response := False\<rparr> else st2)"

definition message_body :: "role \<Rightarrow> message_parts \<Rightarrow> json option" where
  "message_body r mp =
     (let content =
        (if mp_content mp = [] then None
         else if mp_non_text mp then Some (JArray (mp_content mp))
         else Some (JString (join [NL] (filter_map (json_str ''text'') (mp_content mp))))) in
      if r = Assistant \<and> mp_calls mp \<noteq> [] \<and> content = None then Some JNull else content)"

definition role_name :: "role \<Rightarrow> string" where
  "role_name r = (case r of User \<Rightarrow> ''user'' | Assistant \<Rightarrow> ''assistant'')"

definition converted_message :: "openai_format_options \<Rightarrow> role \<Rightarrow> message_parts \<Rightarrow> string \<Rightarrow> json" where
  "converted_message opts r mp reasoning =
     JObject ([(''role'', JString (role_name r))]
       @ (if mp_calls mp = [] then [] else [(''tool_calls'', JArray (mp_calls mp))])
       @ (case message_body r mp of None \<Rightarrow> [] | Some c \<Rightarrow> [(''content'', c)])
       @ (if of_preserve_thinking_context opts \<and> reasoning \<noteq> [] then [(''reasoning_content'', JString reasoning)] else []))"

definition take_reasoning :: "message_parts \<Rightarrow> format_state \<Rightarrow> string \<times> format_state" where
  "take_reasoning mp st =
     (let reasoning = (if fs_pending_reasoning st = [] then mp_reasoning mp
                       else merge_reasoning_text (fs_pending_reasoning st) (mp_reasoning mp));
          st1 = st\<lparr>fs_pending_reasoning := []\<rparr> in
      if mp_calls mp \<noteq> [] \<and> reasoning = [] then (fs_turn_reasoning st1, st1)
      else (reasoning, st1\<lparr>fs_turn_reasoning := reasoning\<rparr>))"

definition format_message ::
    "openai_env \<Rightarrow> image_format \<Rightarrow> openai_format_options \<Rightarrow> format_state \<Rightarrow> message \<Rightarrow> format_state \<times> json list" where
  "format_message env img opts st0 m =
     (let st = begin_message opts m st0;
          mp = fold (format_part env img opts (m_role m)) (m_content m) no_parts;
          has_payload = (message_body (m_role m) mp \<noteq> None \<or> mp_calls mp \<noteq> []) in
      if of_preserve_thinking_context opts \<and> m_role m = Assistant
         \<and> \<not> has_payload \<and> mp_output mp = [] \<and> mp_reasoning mp \<noteq> []
      then (st\<lparr>fs_pending_reasoning := fs_pending_reasoning st @ mp_reasoning mp\<rparr>, [])
      else
        (case (if of_preserve_thinking_context opts \<and> m_role m = Assistant then take_reasoning mp st
               else (mp_reasoning mp, st)) of
           (reasoning, st1) \<Rightarrow>
             (let converted = converted_message opts (m_role m) mp reasoning in
              (st1,
               if \<not> has_payload then mp_output mp
               else if m_role m = User \<and> mp_output mp \<noteq> [] then mp_output mp @ [converted]
               else converted # mp_output mp))))"

fun format_each ::
    "openai_env \<Rightarrow> image_format \<Rightarrow> openai_format_options \<Rightarrow> format_state \<Rightarrow> message list \<Rightarrow> json list" where
  "format_each env img opts st [] = []"
| "format_each env img opts st (m # ms) =
     (case format_message env img opts st m of (st1, out) \<Rightarrow> out @ format_each env img opts st1 ms)"

subsection \<open>Calls of one answer\<close>

definition is_image_only_user_message :: "json \<Rightarrow> bool" where
  "is_image_only_user_message m \<longleftrightarrow>
     has_role ''user'' m \<and> json_items ''content'' m \<noteq> []
     \<and> list_all (\<lambda>item. json_get ''type'' item = Some (JString ''image_url'')) (json_items ''content'' m)"

definition is_assistant_tool_call :: "json \<Rightarrow> bool" where
  "is_assistant_tool_call m \<longleftrightarrow> has_role ''assistant'' m \<and> json_items ''tool_calls'' m \<noteq> []"

definition has_no_content :: "json \<Rightarrow> bool" where
  "has_no_content m =
     (case json_get ''content'' m of
        None \<Rightarrow> True
      | Some JNull \<Rightarrow> True
      | Some (JString s) \<Rightarrow> s = []
      | Some (JArray xs) \<Rightarrow> xs = []
      | Some _ \<Rightarrow> False)"

definition is_split_of :: "json \<Rightarrow> json \<Rightarrow> bool" where
  "is_split_of base m \<longleftrightarrow>
     is_assistant_tool_call m \<and> has_no_content m \<and> json_get ''reasoning_content'' m = Some base"

text \<open>The parts of an answer that follow its first message: their calls, the messages between them,
  and what is left.\<close>

function split_parts :: "json \<Rightarrow> json list \<Rightarrow> json list \<times> json list \<times> json list" where
  "split_parts base [] = ([], [], [])"
| "split_parts base (t # ms) =
     (if \<not> has_role ''tool'' t then ([], [], t # ms)
      else
        (case dropWhile is_image_only_user_message ms of
           [] \<Rightarrow> ([], [], t # ms)
         | next_m # ms1 \<Rightarrow>
             if \<not> is_split_of base next_m then ([], [], t # ms)
             else
               (case split_parts base ms1 of
                  (calls, collected, rest) \<Rightarrow>
                    (json_items ''tool_calls'' next_m @ calls,
                     t # takeWhile is_image_only_user_message ms @ collected, rest))))"
  by pat_completeness auto
termination
proof (relation "measure (\<lambda>(b, ms). length ms)", goal_cases)
  case (2 base t ms next_m ms1)
  then show ?case using length_dropWhile_le [of is_image_only_user_message ms] by simp
qed simp

lemma split_parts_rest: "split_parts base ms = (calls, collected, rest) \<Longrightarrow> length rest \<le> length ms"
proof (induction base ms arbitrary: calls collected rest rule: split_parts.induct)
  case (2 base t ms)
  then show ?case
    using length_dropWhile_le [of is_image_only_user_message ms]
    by (fastforce split: if_splits list.splits prod.splits)
qed simp

definition extend_calls :: "json list \<Rightarrow> json \<Rightarrow> json" where
  "extend_calls calls m = json_set ''tool_calls'' (JArray (json_items ''tool_calls'' m @ calls)) m"

function merge_split_tool_call_messages :: "json list \<Rightarrow> json list" where
  "merge_split_tool_call_messages [] = []"
| "merge_split_tool_call_messages (m # ms) =
     (case (if is_assistant_tool_call m then json_get ''reasoning_content'' m else None) of
        None \<Rightarrow> m # merge_split_tool_call_messages ms
      | Some base \<Rightarrow>
          (case split_parts base ms of
             (calls, collected, rest) \<Rightarrow>
               if calls = [] then m # merge_split_tool_call_messages ms
               else extend_calls calls m # collected @ merge_split_tool_call_messages rest))"
  by pat_completeness auto
termination
  by (relation "measure length") (auto simp: less_Suc_eq_le intro: split_parts_rest [OF sym])

subsection \<open>Every call is answered\<close>

text \<open>The text is Spanish: the tool returned no result, the turn was interrupted.\<close>

definition MISSING_TOOL_RESULT_TEXT :: string where
  "MISSING_TOOL_RESULT_TEXT =
     ''(la herramienta no devolvi'' @ [CHR 0xC3, CHR 0xB3] @ '' resultado: turno interrumpido)''"

definition call_ids :: "json \<Rightarrow> string list" where
  "call_ids m = (if has_role ''assistant'' m then filter_map (json_str ''id'') (json_items ''tool_calls'' m) else [])"

definition tool_call_id :: "json \<Rightarrow> string" where
  "tool_call_id m = (case json_str ''tool_call_id'' m of Some i \<Rightarrow> i | None \<Rightarrow> [])"

text \<open>The block behind a message with calls: the first answer to each, the parts of the images
  among them, and the messages behind the block.\<close>

fun answer_block :: "string list \<Rightarrow> string list \<Rightarrow> json list \<Rightarrow> json list \<times> json list \<times> json list" where
  "answer_block ids answered [] = ([], [], [])"
| "answer_block ids answered (m # ms) =
     (if has_role ''tool'' m then
        if tool_call_id m \<in> set ids \<and> tool_call_id m \<notin> set answered then
          (case answer_block ids (tool_call_id m # answered) ms of
             (tools, images, rest) \<Rightarrow> (m # tools, images, rest))
        else answer_block ids answered ms
      else if is_image_only_user_message m then
        (case answer_block ids answered ms of
           (tools, images, rest) \<Rightarrow> (tools, json_items ''content'' m @ images, rest))
      else ([], [], m # ms))"

lemma answer_block_rest: "answer_block ids answered ms = (tools, images, rest) \<Longrightarrow> length rest \<le> length ms"
  by (induction ids answered ms arbitrary: tools images rest rule: answer_block.induct)
    (fastforce split: if_splits prod.splits)+

definition missing_answers :: "string list \<Rightarrow> json list \<Rightarrow> json list" where
  "missing_answers ids tools =
     map (tool_message MISSING_TOOL_RESULT_TEXT) (filter (\<lambda>i. i \<notin> set (map tool_call_id tools)) ids)"

definition image_message :: "json list \<Rightarrow> json list" where
  "image_message images = (if images = [] then [] else [role_message ''user'' (JArray images)])"

function ensure_tool_call_responses :: "json list \<Rightarrow> json list" where
  "ensure_tool_call_responses [] = []"
| "ensure_tool_call_responses (m # ms) =
     (if call_ids m = [] then m # ensure_tool_call_responses ms
      else
        (case answer_block (call_ids m) [] ms of
           (tools, images, rest) \<Rightarrow>
             m # tools @ (if rest = [] then [] else missing_answers (call_ids m) tools)
             @ image_message images @ ensure_tool_call_responses rest))"
  by pat_completeness auto
termination
  by (relation "measure length") (auto simp: less_Suc_eq_le intro: answer_block_rest [OF sym])

subsection \<open>The messages of a request\<close>

definition wrap_reasoning :: "thinking_preservation_format \<Rightarrow> string \<Rightarrow> string option" where
  "wrap_reasoning fmt t =
     (case fmt of
        ReasoningContent \<Rightarrow> None
      | ContentPrepend \<Rightarrow> Some (t @ [NL, NL])
      | ContentXml \<Rightarrow> Some (''<think>'' @ [NL] @ t @ [NL] @ ''</think>'' @ [NL, NL]))"

definition inline_reasoning_of :: "thinking_preservation_format \<Rightarrow> json \<Rightarrow> json" where
  "inline_reasoning_of fmt m =
     (case m of
        JObject kvs \<Rightarrow>
          (let removed = JObject (AList.delete ''reasoning_content'' kvs) in
           case json_str ''reasoning_content'' m of
             None \<Rightarrow> removed
           | Some reasoning \<Rightarrow>
               (case wrap_reasoning fmt reasoning of
                  None \<Rightarrow> m
                | Some p \<Rightarrow>
                    json_set ''content''
                      (case json_get ''content'' removed of
                         Some (JString content) \<Rightarrow> JString (p @ content)
                       | Some (JArray blocks) \<Rightarrow> JArray (text_item p # blocks)
                       | _ \<Rightarrow> JString (trim_end p)) removed))
      | _ \<Rightarrow> m)"

definition inline_reasoning_content :: "thinking_preservation_format \<Rightarrow> json list \<Rightarrow> json list" where
  "inline_reasoning_content fmt ms =
     (if fmt = ReasoningContent then ms else map (inline_reasoning_of fmt) ms)"

definition format_messages_with_options ::
    "openai_env \<Rightarrow> message list \<Rightarrow> image_format \<Rightarrow> openai_format_options \<Rightarrow> json list" where
  "format_messages_with_options env messages img opts =
     (let spec = ensure_tool_call_responses (merge_split_tool_call_messages
            (format_each env img opts \<lparr>fs_pending_reasoning = [], fs_turn_reasoning = [], fs_saw_tool_response = False\<rparr> messages)) in
      case of_thinking_preservation_format opts of
        Some fmt \<Rightarrow> inline_reasoning_content fmt spec
      | None \<Rightarrow> spec)"

definition format_messages :: "openai_env \<Rightarrow> message list \<Rightarrow> image_format \<Rightarrow> json list" where
  "format_messages env messages img =
     format_messages_with_options env messages img
       \<lparr>of_preserve_thinking_context = True, of_supports_vision = False, of_thinking_preservation_format = None\<rparr>"

subsection \<open>Calls and answers of a request\<close>

lemma json_get_update: "json_get k (JObject (AList.update k' v kvs)) = (if k = k' then Some v else json_get k (JObject kvs))"
  by (simp add: json_get_def update_conv')

lemma json_get_delete: "json_get k (JObject (AList.delete k' kvs)) = (if k = k' then None else json_get k (JObject kvs))"
  by (simp add: json_get_def delete_conv')

lemma json_get_set: "json_get k (json_set k' v m) = (case m of JObject kvs \<Rightarrow> if k = k' then Some v else json_get k m | _ \<Rightarrow> None)"
  by (cases m) (simp_all add: json_set_def json_get_update, simp_all add: json_get_def)

lemma inline_keeps:
  assumes "k \<noteq> ''content''" "k \<noteq> ''reasoning_content''"
  shows "json_get k (inline_reasoning_of fmt m) = json_get k m"
proof (cases m)
  case (JObject kvs)
  then show ?thesis using assms
    by (auto simp: inline_reasoning_of_def Let_def json_get_set json_get_delete split: option.split json.split)
qed (simp_all add: inline_reasoning_of_def)

lemma inline_keeps_calls:
  "has_role r (inline_reasoning_of fmt m) = has_role r m" "call_ids (inline_reasoning_of fmt m) = call_ids m"
  "tool_call_id (inline_reasoning_of fmt m) = tool_call_id m"
  by (simp_all add: has_role_def call_ids_def tool_call_id_def json_items_def json_str_def inline_keeps)

text \<open>What follows a message with calls: answers to its calls, at most one message that holds nothing
  but pictures, and more messages only when every call has been answered.\<close>

definition holds_pictures :: "json \<Rightarrow> bool" where
  "holds_pictures p \<longleftrightarrow>
     (\<exists>items. p = JObject [(''role'', JString ''user''), (''content'', JArray items)] \<and> items \<noteq> []
        \<and> list_all (\<lambda>i. json_get ''type'' i = Some (JString ''image_url'')) items)"

definition answered_by :: "json \<Rightarrow> json list \<Rightarrow> bool" where
  "answered_by m ys \<longleftrightarrow>
     (\<exists>tools pics rest. ys = tools @ pics @ rest \<and> list_all (has_role ''tool'') tools
        \<and> length pics \<le> 1 \<and> list_all holds_pictures pics
        \<and> set (map tool_call_id tools) \<subseteq> set (call_ids m)
        \<and> (distinct (call_ids m) \<longrightarrow> distinct (map tool_call_id tools))
        \<and> (rest \<noteq> [] \<longrightarrow> set (map tool_call_id tools) = set (call_ids m)))"

lemma answer_block_tools:
  "answer_block ids answered ms = (tools, images, rest) \<Longrightarrow>
     list_all (has_role ''tool'') tools \<and> set (map tool_call_id tools) \<subseteq> set ids - set answered
       \<and> distinct (map tool_call_id tools)"
proof (induction ids answered ms arbitrary: tools images rest rule: answer_block.induct)
  case (2 ids answered m ms)
  show ?case
  proof (cases "has_role ''tool'' m \<and> tool_call_id m \<in> set ids \<and> tool_call_id m \<notin> set answered")
    case True
    obtain t i r where b: "answer_block ids (tool_call_id m # answered) ms = (t, i, r)" by (metis prod_cases3)
    from "2.IH"(1) [OF _ _ b] True have "list_all (has_role ''tool'') t"
      "set (map tool_call_id t) \<subseteq> set ids - set (tool_call_id m # answered)" "distinct (map tool_call_id t)" by auto
    moreover have "tools = m # t" using "2.prems" True b by auto
    ultimately show ?thesis using True by (auto simp: image_subset_iff)
  next
    case False
    with 2 show ?thesis by (auto split: if_splits prod.splits)
  qed
qed simp

lemma tool_message_simps [simp]:
  "has_role ''tool'' (tool_message c i)" "\<not> has_role ''assistant'' (tool_message c i)" "tool_call_id (tool_message c i) = i"
  by (simp_all add: tool_message_def has_role_def json_get_def tool_call_id_def json_str_def as_str_def)

lemma tool_no_calls: "has_role ''tool'' m \<Longrightarrow> call_ids m = []" "has_role ''user'' m \<Longrightarrow> call_ids m = []"
  by (simp_all add: call_ids_def has_role_def)

lemma holds_pictures_user: "holds_pictures p \<Longrightarrow> call_ids p = []"
  by (auto simp: holds_pictures_def call_ids_def has_role_def json_get_def)

lemma inline_pictures: "holds_pictures p \<Longrightarrow> inline_reasoning_of fmt p = p"
  by (auto simp: holds_pictures_def inline_reasoning_of_def Let_def json_str_def json_get_def)

lemma answer_block_images:
  "answer_block ids answered ms = (tools, images, rest) \<Longrightarrow> list_all (\<lambda>i. json_get ''type'' i = Some (JString ''image_url'')) images"
proof (induction ids answered ms arbitrary: tools images rest rule: answer_block.induct)
  case (2 ids answered m ms)
  consider (answer) "has_role ''tool'' m" "tool_call_id m \<in> set ids \<and> tool_call_id m \<notin> set answered"
    | (skip) "has_role ''tool'' m" "\<not> (tool_call_id m \<in> set ids \<and> tool_call_id m \<notin> set answered)"
    | (pics) "\<not> has_role ''tool'' m" "is_image_only_user_message m"
    | (stop) "\<not> has_role ''tool'' m" "\<not> is_image_only_user_message m" by blast
  then show ?case
  proof cases
    case answer
    obtain t i r where b: "answer_block ids (tool_call_id m # answered) ms = (t, i, r)" by (metis prod_cases3)
    with answer "2.IH"(1) [OF answer b] "2.prems" show ?thesis by simp
  next
    case skip
    with "2.IH"(2) [OF skip] "2.prems" show ?thesis by simp
  next
    case pics
    obtain t i r where b: "answer_block ids answered ms = (t, i, r)" by (metis prod_cases3)
    with pics "2.IH"(3) [OF pics b] "2.prems" show ?thesis by (auto simp: is_image_only_user_message_def)
  next
    case stop
    with "2.prems" show ?thesis by simp
  qed
qed simp

lemma image_message_simps:
  "length (image_message images) \<le> 1"
  "list_all (\<lambda>i. json_get ''type'' i = Some (JString ''image_url'')) images \<Longrightarrow> list_all holds_pictures (image_message images)"
  by (simp_all add: image_message_def holds_pictures_def role_message_def)

lemma missing_answers_tools: "list_all (has_role ''tool'') (missing_answers ids tools)"
  by (simp add: missing_answers_def list_all_iff)

lemma missing_answers_ids: "map tool_call_id (missing_answers ids tools) = filter (\<lambda>i. i \<notin> set (map tool_call_id tools)) ids"
  by (simp add: missing_answers_def comp_def)

lemma missing_answers_mem:
  "x \<in> set (missing_answers ids tools) \<Longrightarrow> tool_call_id x \<in> set ids \<and> tool_call_id x \<notin> tool_call_id ` set tools"
  "i \<in> set ids \<Longrightarrow> i \<notin> tool_call_id ` set tools \<Longrightarrow> i \<in> tool_call_id ` set (missing_answers ids tools)"
  using arg_cong [OF missing_answers_ids [of ids tools], of set] by auto

lemma block_ids:
  fixes rest :: "json list"
  assumes "list_all (has_role ''tool'') tools \<and> set (map tool_call_id tools) \<subseteq> set ids - set [] \<and> distinct (map tool_call_id tools)"
  defines "t \<equiv> tools @ (if rest = [] then [] else missing_answers ids tools)"
  shows "set (map tool_call_id t) \<subseteq> set ids" "rest \<noteq> [] \<Longrightarrow> set (map tool_call_id t) = set ids"
    "distinct ids \<Longrightarrow> distinct (map tool_call_id t)"
proof -
  have ids: "set (map tool_call_id t) = set (map tool_call_id tools)
      \<union> (if rest = [] then {} else set (filter (\<lambda>i. i \<notin> set (map tool_call_id tools)) ids))"
    unfolding t_def by (simp only: map_append set_append missing_answers_ids if_distrib [of "map tool_call_id"]
        if_distrib [of set] list.map set_simps)
  show "set (map tool_call_id t) \<subseteq> set ids" using assms(1) by (auto simp only: ids set_filter split: if_splits)
  show "set (map tool_call_id t) = set ids" if "rest \<noteq> []"
    using assms(1) that by (auto simp only: ids set_filter if_False)
  show "distinct (map tool_call_id t)" if "distinct ids"
    using assms(1) that unfolding t_def
    by (simp only: map_append distinct_append if_distrib [of "map tool_call_id"] missing_answers_ids) auto
qed

lemma split_at_call:
  assumes "as @ bs = xs @ m # ys" "list_all (\<lambda>x. call_ids x = []) as" "call_ids m \<noteq> []"
  shows "\<exists>zs. bs = zs @ m # ys"
proof -
  have "m \<notin> set as" using assms(2,3) by (auto simp: list_all_iff)
  with assms(1) show ?thesis by (auto simp: append_eq_append_conv2 append_eq_Cons_conv)
qed

lemma calls_answered: "ensure_tool_call_responses ms = xs @ m # ys \<Longrightarrow> call_ids m \<noteq> [] \<Longrightarrow> answered_by m ys"
proof (induction ms arbitrary: xs rule: ensure_tool_call_responses.induct)
  case (2 k ms)
  show ?case
  proof (cases "call_ids k = []")
    case True
    with "2.prems" obtain zs where "ensure_tool_call_responses ms = zs @ m # ys" by (auto simp: Cons_eq_append_conv)
    from "2.IH"(1) [OF True this "2.prems"(2)] show ?thesis .
  next
    case False
    obtain tools images rest where b: "answer_block (call_ids k) [] ms = (tools, images, rest)" by (metis prod_cases3)
    let ?t = "tools @ (if rest = [] then [] else missing_answers (call_ids k) tools)" and ?p = "image_message images"
    have out: "k # ?t @ ?p @ ensure_tool_call_responses rest = xs @ m # ys"
      using "2.prems"(1) False b by simp
    note tools = answer_block_tools [OF b]
    have t: "list_all (has_role ''tool'') ?t" using tools missing_answers_tools by simp
    show ?thesis
    proof (cases xs)
      case Nil
      with out have ys: "m = k" "ys = ?t @ ?p @ ensure_tool_call_responses rest" by auto
      have "rest \<noteq> []" if "ensure_tool_call_responses rest \<noteq> []" using that by (cases rest) auto
      moreover note block_ids [OF tools]
      ultimately show ?thesis unfolding answered_by_def ys(1)
        by (intro exI [of _ ?t] exI [of _ ?p] exI [of _ "ensure_tool_call_responses rest"])
          (use t image_message_simps(1) image_message_simps(2) [OF answer_block_images [OF b]] ys(2) in auto)
    next
      case (Cons x zs)
      with out have "(?t @ ?p) @ ensure_tool_call_responses rest = zs @ m # ys" by simp
      moreover have "list_all (\<lambda>x. call_ids x = []) (?t @ ?p)"
        using t image_message_simps(2) [OF answer_block_images [OF b]] tool_no_calls holds_pictures_user
        by (auto simp: list_all_iff)
      ultimately obtain us where "ensure_tool_call_responses rest = us @ m # ys"
        using split_at_call "2.prems"(2) by metis
      from "2.IH"(2) [OF False b [symmetric] refl this "2.prems"(2)] show ?thesis .
    qed
  qed
qed simp

lemma answered_by_inline:
  assumes "answered_by m ys"
  shows "answered_by (inline_reasoning_of fmt m) (map (inline_reasoning_of fmt) ys)"
proof -
  let ?f = "inline_reasoning_of fmt"
  from assms obtain tools pics rest where a: "ys = tools @ pics @ rest" "list_all (has_role ''tool'') tools"
    "length pics \<le> 1" "list_all holds_pictures pics" "set (map tool_call_id tools) \<subseteq> set (call_ids m)"
    "distinct (call_ids m) \<longrightarrow> distinct (map tool_call_id tools)"
    "rest \<noteq> [] \<longrightarrow> set (map tool_call_id tools) = set (call_ids m)"
    unfolding answered_by_def by (elim exE conjE) (rule that)
  have "map tool_call_id (map ?f tools) = map tool_call_id tools" by (simp add: comp_def inline_keeps_calls)
  moreover have "map ?f pics = pics" using a(4) by (intro map_idI inline_pictures) (simp add: list_all_iff)
  ultimately show ?thesis using a unfolding answered_by_def
    by (intro exI [of _ "map ?f tools"] exI [of _ pics] exI [of _ "map ?f rest"])
      (simp add: inline_keeps_calls list.pred_map comp_def)
qed

text \<open>Claim C30 (request_calls_answered): in the messages of a request every call of the model is
  answered in place: a message with calls is followed by answers to its own calls (none of them
  twice when the calls have distinct identifiers), then by at most one message that holds nothing
  but pictures, and any other message follows only when all of its calls have an answer. Calls are
  without an answer only at the end of a request, with nothing or only such a message of pictures
  behind their answers (\<open>picture_hides_missing_result\<close>). This holds of every conversation, also one
  that was cut off or whose results are doubled or out of place, and for every option of the
  format.\<close>

theorem request_calls_answered:
  assumes "format_messages_with_options env messages img opts = xs @ m # ys" "call_ids m \<noteq> []"
  shows "answered_by m ys"
proof -
  let ?each = "format_each env img opts \<lparr>fs_pending_reasoning = [], fs_turn_reasoning = [], fs_saw_tool_response = False\<rparr> messages"
  define spec where "spec = ensure_tool_call_responses (merge_split_tool_call_messages ?each)"
  have all: "spec = as @ k # bs \<Longrightarrow> call_ids k \<noteq> [] \<Longrightarrow> answered_by k bs" for as k bs
    unfolding spec_def by (rule calls_answered)
  consider "spec = xs @ m # ys" | fmt where "map (inline_reasoning_of fmt) spec = xs @ m # ys"
    using assms(1) by (auto simp: format_messages_with_options_def Let_def spec_def inline_reasoning_content_def
        split: option.splits if_splits)
  then show ?thesis
  proof cases
    case 1
    with all assms(2) show ?thesis by metis
  next
    case (2 fmt)
    then obtain as k bs where "spec = as @ k # bs" "m = inline_reasoning_of fmt k" "ys = map (inline_reasoning_of fmt) bs"
      by (auto simp: map_eq_append_conv map_eq_Cons_conv)
    with all assms(2) answered_by_inline show ?thesis by (metis inline_keeps_calls(2))
  qed
qed

lemma split_parts_calls:
  "split_parts base ms = (calls, collected, rest) \<Longrightarrow>
     calls @ concat (map (json_items ''tool_calls'') (filter is_assistant_tool_call rest))
       = concat (map (json_items ''tool_calls'') (filter is_assistant_tool_call ms))
     \<and> collected @ filter (\<lambda>m. \<not> is_assistant_tool_call m) rest = filter (\<lambda>m. \<not> is_assistant_tool_call m) ms
     \<and> filter is_assistant_tool_call collected = []"
proof (induction base ms arbitrary: calls collected rest rule: split_parts.induct)
  case (2 base t ms)
  show ?case
  proof (cases "has_role ''tool'' t")
    case False
    with "2.prems" show ?thesis by auto
  next
    case t: True
    then have not_call: "\<not> is_assistant_tool_call t" by (simp add: is_assistant_tool_call_def has_role_def)
    let ?pics = "takeWhile is_image_only_user_message ms"
    have "\<forall>m \<in> set ?pics. \<not> is_assistant_tool_call m"
      by (auto dest!: set_takeWhileD simp: is_image_only_user_message_def is_assistant_tool_call_def has_role_def)
    then have pics: "filter is_assistant_tool_call ?pics = []" "filter (\<lambda>m. \<not> is_assistant_tool_call m) ?pics = ?pics"
      by (simp_all add: filter_empty_conv filter_id_conv)
    have ms: "ms = ?pics @ dropWhile is_image_only_user_message ms" by simp
    show ?thesis
    proof (cases "dropWhile is_image_only_user_message ms")
      case Nil
      with "2.prems" t show ?thesis by auto
    next
      case (Cons k ms1)
      show ?thesis
      proof (cases "is_split_of base k")
        case False
        with "2.prems" t Cons show ?thesis by auto
      next
        case True
        then have k: "is_assistant_tool_call k" by (simp add: is_split_of_def)
        obtain c1 l1 r1 where p: "split_parts base ms1 = (c1, l1, r1)" by (metis prod_cases3)
        have "\<not> \<not> has_role ''tool'' t" "\<not> \<not> is_split_of base k" using t True by simp_all
        from "2.IH" [OF this(1) Cons this(2) p]
        have IH: "c1 @ concat (map (json_items ''tool_calls'') (filter is_assistant_tool_call r1))
            = concat (map (json_items ''tool_calls'') (filter is_assistant_tool_call ms1))"
          "l1 @ filter (\<lambda>m. \<not> is_assistant_tool_call m) r1 = filter (\<lambda>m. \<not> is_assistant_tool_call m) ms1"
          "filter is_assistant_tool_call l1 = []" by auto
        have "calls = json_items ''tool_calls'' k @ c1" "collected = t # ?pics @ l1" "rest = r1"
          using "2.prems" t Cons True p by auto
        moreover have "filter is_assistant_tool_call ms = k # filter is_assistant_tool_call ms1"
          "filter (\<lambda>m. \<not> is_assistant_tool_call m) ms = ?pics @ filter (\<lambda>m. \<not> is_assistant_tool_call m) ms1"
          by (subst ms, simp only: Cons filter_append, simp add: pics k)+
        ultimately show ?thesis using IH not_call pics by simp
      qed
    qed
  qed
qed simp

text \<open>Putting the parts of an answer together again loses nothing: the
  calls of all messages of the model stay the same and in the same order, and so do all the other
  messages.\<close>

lemma split_calls_kept:
  "concat (map (json_items ''tool_calls'') (filter is_assistant_tool_call (merge_split_tool_call_messages ms)))
     = concat (map (json_items ''tool_calls'') (filter is_assistant_tool_call ms))
   \<and> filter (\<lambda>m. \<not> is_assistant_tool_call m) (merge_split_tool_call_messages ms)
     = filter (\<lambda>m. \<not> is_assistant_tool_call m) ms"
proof (induction ms rule: merge_split_tool_call_messages.induct)
  case (2 m ms)
  show ?case
  proof (cases "if is_assistant_tool_call m then json_get ''reasoning_content'' m else None")
    case None
    with 2 show ?thesis by (auto split: option.splits)
  next
    case (Some base)
    then have m: "is_assistant_tool_call m" by (auto split: if_splits)
    obtain calls collected rest where p: "split_parts base ms = (calls, collected, rest)" by (metis prod_cases3)
    note parts = split_parts_calls [OF p]
    show ?thesis
    proof (cases "calls = []")
      case True
      with 2 Some p show ?thesis by (auto split: option.splits)
    next
      case False
      have items: "json_items ''tool_calls'' (extend_calls calls m) = json_items ''tool_calls'' m @ calls"
        "is_assistant_tool_call (extend_calls calls m)"
        using m by (cases m; simp add: extend_calls_def is_assistant_tool_call_def has_role_def json_items_def json_get_set
            json_set_def json_get_update; simp add: json_get_def)+
      have IH: "concat (map (json_items ''tool_calls'') (filter is_assistant_tool_call (merge_split_tool_call_messages rest)))
          = concat (map (json_items ''tool_calls'') (filter is_assistant_tool_call rest))"
        "filter (\<lambda>m. \<not> is_assistant_tool_call m) (merge_split_tool_call_messages rest)
          = filter (\<lambda>m. \<not> is_assistant_tool_call m) rest"
        using "2.IH"(3) [OF Some p [symmetric] refl False] by auto
      have col: "filter (\<lambda>m. \<not> is_assistant_tool_call m) collected = collected"
        using parts by (simp add: filter_id_conv filter_empty_conv)
      have "merge_split_tool_call_messages (m # ms)
          = extend_calls calls m # collected @ merge_split_tool_call_messages rest"
        using Some p False by simp
      then show ?thesis using parts items m col by (simp add: IH)
    qed
  qed
qed simp

subsection \<open>Examples\<close>

definition sample_openai_env :: openai_env where
  "sample_openai_env =
     \<lparr>oa_text = \<lparr>te_nfc = (\<lambda>s. s), te_b64_decode = (\<lambda>s. None), te_b64_encode = (\<lambda>s. s)\<rparr>,
      oa_to_string = (\<lambda>j. ''{}''), oa_show_error = ed_message,
      oa_detect_image_path = (\<lambda>s. None), oa_load_image_file = (\<lambda>s. None)\<rparr>"

definition sample_wire_call :: "string \<Rightarrow> message_content_block" where
  "sample_wire_call i =
     ToolRequest \<lparr>tr_id = i, tr_tool_call = Inr \<lparr>ctp_name = ''read'', ctp_arguments = None, ctp_rest = JNull\<rparr>,
       tr_metadata = None, tr_tool_meta = None\<rparr>"

definition sample_wire_result :: "string \<Rightarrow> message_content_block" where
  "sample_wire_result i =
     ToolResponse \<lparr>ts_id = i, ts_tool_result = Inr \<lparr>ctr_content = [CText (text_content_new ''ok'')],
       ctr_is_error = None, ctr_structured = None, ctr_rest = JNull\<rparr>, ts_metadata = None\<rparr>"

definition sample_calls_message :: "string list \<Rightarrow> json" where
  "sample_calls_message ids =
     JObject [(''role'', JString ''assistant''), (''tool_calls'', JArray (map (\<lambda>i. call_json i ''read'' ''{}'') ids)),
       (''content'', JNull)]"

text \<open>A turn that was cut off between two results, and continued.\<close>

definition sample_cut_turn :: "message list" where
  "sample_cut_turn =
     [message_new Assistant 1 [sample_wire_call ''1'', sample_wire_call ''2''],
      message_new User 2 [sample_wire_result ''1''],
      message_new User 3 [Text (text_content_new ''go on'')]]"

lemma sample_cut_request:
  "format_messages sample_openai_env sample_cut_turn OpenAiImage =
     [] @ sample_calls_message [''1'', ''2''] #
     [tool_message ''ok'' ''1'', tool_message MISSING_TOOL_RESULT_TEXT ''2'', role_message ''user'' (JString ''go on'')]"
  by code_simp

theorem request_calls_answered_witness:
  "answered_by (sample_calls_message [''1'', ''2''])
     [tool_message ''ok'' ''1'', tool_message MISSING_TOOL_RESULT_TEXT ''2'', role_message ''user'' (JString ''go on'')]"
proof -
  have "call_ids (sample_calls_message [''1'', ''2'']) \<noteq> []" by code_simp
  then show ?thesis
    using request_calls_answered [OF sample_cut_request [unfolded format_messages_def]] by blast
qed

text \<open>A result that comes after another message stays where it is, behind no call, although its call
  has just been given the text for a missing result.\<close>

lemma late_result_kept:
  "format_messages sample_openai_env
     [message_new Assistant 1 [sample_wire_call ''1''],
      message_new User 2 [Text (text_content_new ''wait'')],
      message_new User 3 [sample_wire_result ''1'']] OpenAiImage =
   [sample_calls_message [''1''], tool_message MISSING_TOOL_RESULT_TEXT ''1'',
    role_message ''user'' (JString ''wait''), tool_message ''ok'' ''1'']"
  by code_simp

text \<open>A picture that the user sends after a turn that was cut off is taken for the picture of a
  result, and the call stays without an answer.\<close>

lemma picture_hides_missing_result:
  "format_messages_with_options sample_openai_env
     [message_new Assistant 1 [sample_wire_call ''1''],
      message_new User 2 [Image \<lparr>ic_data = ''AA'', ic_mime_type = ''image/png'', ic_annotations = None, ic_rest = JNull\<rparr>]]
     OpenAiImage
     \<lparr>of_preserve_thinking_context = True, of_supports_vision = True, of_thinking_preservation_format = None\<rparr> =
   [sample_calls_message [''1''],
    role_message ''user'' (JArray [convert_image OpenAiImage
      \<lparr>ic_data = ''AA'', ic_mime_type = ''image/png'', ic_annotations = None, ic_rest = JNull\<rparr>])]"
  by code_simp

lemma str_chars_single: "list_all (\<lambda>ch. length ch = 1 \<and> \<not> utf8_cont (hd ch)) cs \<Longrightarrow> str_chars (concat cs) = cs"
proof (induction cs)
  case (Cons ch cs)
  then obtain c where ch: "ch = [c]" "\<not> utf8_cont c" by (cases ch) auto
  have "takeWhile utf8_cont (concat cs) = [] \<and> dropWhile utf8_cont (concat cs) = concat cs"
  proof (cases cs)
    case Nil
    then show ?thesis by simp
  next
    case (Cons d ds)
    with Cons.prems obtain x where "d = [x]" "\<not> utf8_cont x" by (cases d) auto
    then show ?thesis by (simp add: Cons)
  qed
  with Cons ch show ?case by simp
qed simp

lemma str_chars_Nil: "str_chars s = [] \<longleftrightarrow> s = []"
  by (cases s) (simp_all only: str_chars.simps list.distinct refl)

lemma is_function_char_plain: "is_function_char ch \<Longrightarrow> length ch = 1 \<and> \<not> utf8_cont (hd ch)"
  by (auto simp: is_function_char_def is_tag_char_def is_ascii_alphanumeric_def is_ascii_digit_def
      is_ascii_lower_def is_ascii_upper_def utf8_cont_def)

text \<open>The name of a function on the wire is valid unless it is empty, has at most 128 characters, and
  is a fixed point.\<close>

lemma sanitized_names:
  "length (sanitize_function_name name) \<le> MAX_FUNCTION_NAME_LENGTH"
  "is_valid_function_name (sanitize_function_name name) \<longleftrightarrow> name \<noteq> []"
  "sanitize_function_name (sanitize_function_name name) = sanitize_function_name name"
proof -
  let ?cs = "take MAX_FUNCTION_NAME_LENGTH (map (\<lambda>ch. if is_function_char ch then ch else ''_'') (str_chars name))"
  have ok: "list_all is_function_char ?cs"
    by (auto simp: list_all_iff dest!: in_set_takeD) (simp add: is_function_char_def is_tag_char_def)
  have one: "list_all (\<lambda>ch. length ch = 1 \<and> \<not> utf8_cont (hd ch)) ?cs"
    by (rule list.pred_mono_strong [OF ok]) (rule is_function_char_plain)
  have chars: "str_chars (sanitize_function_name name) = ?cs"
    unfolding sanitize_function_name_def by (rule str_chars_single [OF one])
  have len: "list_all (\<lambda>ch. length ch = 1) cs \<Longrightarrow> length (concat cs) = length cs" for cs :: "string list"
    by (induction cs) auto
  have "list_all (\<lambda>ch. length ch = 1) ?cs" by (rule list.pred_mono_strong [OF one]) blast
  from len [OF this] show "length (sanitize_function_name name) \<le> MAX_FUNCTION_NAME_LENGTH"
    unfolding sanitize_function_name_def by simp
  have "sanitize_function_name name \<noteq> [] \<longleftrightarrow> name \<noteq> []"
  proof -
    have "sanitize_function_name name = [] \<longleftrightarrow> ?cs = []"
    proof
      assume "sanitize_function_name name = []"
      then show "?cs = []" using chars by (simp only: str_chars.simps)
    qed (simp only: sanitize_function_name_def concat.simps)
    also have "\<dots> \<longleftrightarrow> name = []" by (simp only: take_eq_Nil map_is_Nil_conv str_chars_Nil) (simp add: MAX_FUNCTION_NAME_LENGTH_def)
    finally show ?thesis by (simp only:)
  qed
  then show "is_valid_function_name (sanitize_function_name name) \<longleftrightarrow> name \<noteq> []"
    by (simp only: is_valid_function_name_def chars ok simp_thms)
  have "map (\<lambda>ch. if is_function_char ch then ch else ''_'') ?cs = ?cs"
    using ok [unfolded list_all_iff] by (intro map_idI) (simp only: if_True)
  then have "concat (take MAX_FUNCTION_NAME_LENGTH (map (\<lambda>ch. if is_function_char ch then ch else ''_'')
      (str_chars (sanitize_function_name name)))) = concat (take MAX_FUNCTION_NAME_LENGTH ?cs)"
    by (simp only: chars)
  also have "\<dots> = concat ?cs" by (simp only: take_take min.idem)
  finally show "sanitize_function_name (sanitize_function_name name) = sanitize_function_name name"
    by (simp only: sanitize_function_name_def)
qed

end
