(* ===== verification/OpenAI_Payload.thy ===== *)
theory OpenAI_Payload
  imports OpenAI_Request
begin

section \<open>The payload of a chat completion\<close>

text \<open>
  The tools, the efforts and the payload of \<open>formats/openai.rs\<close> of \<open>crates/goose-provider-types\<close>, with the
  efforts of \<open>thinking.rs\<close> and the part of \<open>ModelConfig\<close> they read. A schema is repaired node by node;
  its recursion follows the nesting of the value. Which characters are decimal digits for the regular
  expressions and how a temperature is written are fields of \<open>payload_env\<close>.
\<close>

subsection \<open>Tools and their schemas\<close>

record tool_definition = tool +
  td_description :: "string option"
  td_input_schema :: json_object

definition format_tool :: "tool_definition \<Rightarrow> json" where
  "format_tool t =
     JObject [(''type'', JString ''function''),
       (''function'', JObject
          [(''name'', JString (tool_name t)),
           (''description'', case td_description t of Some d \<Rightarrow> JString d | None \<Rightarrow> JNull),
           (''parameters'', JObject (td_input_schema t)),
           (''strict'', JBool False)])]"

fun format_tools_from :: "string list \<Rightarrow> tool_definition list \<Rightarrow> string + json list" where
  "format_tools_from seen [] = Inr []"
| "format_tools_from seen (t # ts) =
     (if tool_name t \<in> set seen then Inl (''Duplicate tool name: '' @ tool_name t)
      else (case format_tools_from (tool_name t # seen) ts of
              Inl e \<Rightarrow> Inl e
            | Inr js \<Rightarrow> Inr (format_tool t # js)))"

definition format_tools :: "tool_definition list \<Rightarrow> string + json list" where
  "format_tools ts = format_tools_from [] ts"

definition one_of_to_any_of :: "json_object \<Rightarrow> json_object" where
  "one_of_to_any_of kvs =
     (case map_of kvs ''anyOf'' of
        Some _ \<Rightarrow> kvs
      | None \<Rightarrow>
          (case map_of kvs ''oneOf'' of
             Some one_of \<Rightarrow> AList.update ''anyOf'' one_of (AList.delete ''oneOf'' kvs)
           | None \<Rightarrow> kvs))"

definition single_type :: "json_object \<Rightarrow> json option" where
  "single_type kvs =
     (case map_of kvs ''type'' of
        Some (JArray types) \<Rightarrow>
          (case filter (\<lambda>t. as_str t \<noteq> Some ''null'') types of [t] \<Rightarrow> Some t | _ \<Rightarrow> None)
      | _ \<Rightarrow> None)"

definition is_null_schema :: "json \<Rightarrow> bool" where
  "is_null_schema v \<longleftrightarrow> json_str ''type'' v = Some ''null''"

definition only_variant :: "json \<Rightarrow> json_object option" where
  "only_variant any_of =
     (case any_of of
        JArray [v0, v1] \<Rightarrow>
          (case (if is_null_schema v0 then Some v1 else if is_null_schema v1 then Some v0 else None) of
             Some (JObject kvs1) \<Rightarrow> Some kvs1
           | _ \<Rightarrow> None)
      | _ \<Rightarrow> None)"

text \<open>\<open>entry\<close> with \<open>or_insert\<close>: a key that is there keeps its value.\<close>

definition or_insert :: "string \<Rightarrow> json \<Rightarrow> json_object \<Rightarrow> json_object" where
  "or_insert k v kvs = (if map_of kvs k = None then kvs @ [(k, v)] else kvs)"

definition normalize_nullable :: "json_object \<Rightarrow> json_object" where
  "normalize_nullable kvs =
     (case single_type kvs of
        Some t \<Rightarrow> AList.update ''type'' t kvs
      | None \<Rightarrow>
          (case map_of kvs ''anyOf'' of
             None \<Rightarrow> kvs
           | Some any_of \<Rightarrow>
               (let rest = AList.delete ''anyOf'' kvs in
                case only_variant any_of of
                  Some kvs1 \<Rightarrow> fold (\<lambda>(k, v) o1. or_insert k v o1) kvs1 rest
                | None \<Rightarrow> AList.update ''anyOf'' any_of rest)))"

definition object_fields :: "json_object \<Rightarrow> json_object" where
  "object_fields kvs =
     (if Option.bind (map_of kvs ''type'') as_str = Some ''object''
      then or_insert ''required'' (JArray []) (or_insert ''properties'' (JObject []) kvs)
      else kvs)"

definition prepare_schema :: "json_object \<Rightarrow> json_object" where
  "prepare_schema kvs = object_fields (normalize_nullable (one_of_to_any_of kvs))"

lemma size_entry: "(k, v) \<in> set kvs \<Longrightarrow> size v < size (JObject kvs)"
  by (induction kvs) auto

lemma size_item: "v \<in> set xs \<Longrightarrow> size v < size (JArray xs)"
  by (induction xs) auto

text \<open>The entries of a prepared node are smaller than the node, or the empty fields that were added.\<close>

definition entries_below :: "json_object \<Rightarrow> nat \<Rightarrow> bool" where
  "entries_below kvs n \<longleftrightarrow> (\<forall>(k, v) \<in> set kvs. size v < n)"

lemma set_update: "set (AList.update k v kvs) \<subseteq> insert (k, v) (set kvs)"
  by (induction kvs) auto

lemma set_delete: "set (AList.delete k kvs) \<subseteq> set kvs"
  by (simp add: AList.delete_eq)

lemma entries_below_ops:
  "entries_below kvs n \<Longrightarrow> size v < n \<Longrightarrow> entries_below (AList.update k v kvs) n"
  "entries_below kvs n \<Longrightarrow> entries_below (AList.delete k kvs) n"
  "entries_below kvs n \<Longrightarrow> size v < n \<Longrightarrow> entries_below (or_insert k v kvs) n"
  "entries_below kvs n \<Longrightarrow> map_of kvs k = Some v \<Longrightarrow> size v < n"
  using set_update [of k v kvs] set_delete [of k kvs]
  by (fastforce simp: entries_below_def or_insert_def dest: map_of_SomeD)+

lemma entries_below_self: "entries_below kvs (size (JObject kvs))"
  unfolding entries_below_def using size_entry by fast

lemma entries_below_fold:
  "entries_below kvs n \<Longrightarrow> entries_below kvs1 n \<Longrightarrow> entries_below (fold (\<lambda>(k, v) o1. or_insert k v o1) kvs1 kvs) n"
  by (induction kvs1 arbitrary: kvs) (auto simp: entries_below_ops(3) entries_below_def [of "_ # _"] intro!: entries_below_ops(3)
      simp flip: entries_below_def)

lemma single_type_size: "single_type kvs = Some t \<Longrightarrow> entries_below kvs n \<Longrightarrow> size t < n"
proof -
  assume a: "single_type kvs = Some t" "entries_below kvs n"
  then obtain types where types: "map_of kvs ''type'' = Some (JArray types)"
    and t: "filter (\<lambda>t. as_str t \<noteq> Some ''null'') types = [t]"
    by (auto simp: single_type_def split: option.splits json.splits list.splits)
  have "t \<in> set types" using arg_cong [OF t, of set] by auto
  then have "size t < size (JArray types)" by (rule size_item)
  also have "\<dots> < n" using entries_below_ops(4) a(2) types by blast
  finally show ?thesis .
qed

lemma only_variant_size:
  assumes "only_variant v = Some kvs1" "size v < n" shows "entries_below kvs1 n"
proof -
  from assms(1) obtain v0 v1 where v: "v = JArray [v0, v1]" "JObject kvs1 \<in> {v0, v1}"
    by (auto simp: only_variant_def split: json.splits list.splits option.splits if_splits)
  then have "size (JObject kvs1) < n" using assms(2) by auto
  then show ?thesis using entries_below_self [of kvs1] by (auto simp: entries_below_def)
qed

lemma normalize_below:
  assumes below: "entries_below kvs n"
  shows "entries_below (normalize_nullable kvs) n"
proof (cases "single_type kvs")
  case (Some t)
  then show ?thesis
    using entries_below_ops(1) [OF below single_type_size [OF Some below]] by (simp add: normalize_nullable_def)
next
  case None
  show ?thesis
  proof (cases "map_of kvs ''anyOf''")
    case (Some v)
    have v: "size v < n" by (rule entries_below_ops(4) [OF below Some])
    have rest: "entries_below (AList.delete ''anyOf'' kvs) n" by (rule entries_below_ops(2) [OF below])
    show ?thesis
    proof (cases "only_variant v")
      case (Some kvs1)
      then show ?thesis
        using entries_below_fold [OF rest only_variant_size [OF Some v]] None \<open>map_of kvs ''anyOf'' = Some v\<close>
        by (simp add: normalize_nullable_def)
    qed (use None Some entries_below_ops(1) [OF rest v] in \<open>simp add: normalize_nullable_def\<close>)
  qed (use None below in \<open>simp add: normalize_nullable_def\<close>)
qed

lemma one_of_below: "entries_below kvs n \<Longrightarrow> entries_below (one_of_to_any_of kvs) n"
  by (auto simp: one_of_to_any_of_def split: option.split intro!: entries_below_ops(1,2) intro: entries_below_ops(4))

lemma prepared_entry:
  "(k, v) \<in> set (prepare_schema kvs) \<Longrightarrow>
     k = ''properties'' \<and> v = JObject [] \<or> k = ''required'' \<and> v = JArray [] \<or> size v < size (JObject kvs)"
proof -
  assume a: "(k, v) \<in> set (prepare_schema kvs)"
  have "entries_below (normalize_nullable (one_of_to_any_of kvs)) (size (JObject kvs))"
    by (intro normalize_below one_of_below entries_below_self)
  with a show ?thesis
    by (auto simp: prepare_schema_def object_fields_def or_insert_def entries_below_def split: if_splits)
qed

definition map_keys :: "string list" where "map_keys = [''properties'', ''$defs'', ''definitions'']"
definition list_keys :: "string list" where "list_keys = [''anyOf'', ''allOf'', ''prefixItems'']"
definition child_keys :: "string list" where "child_keys = [''items'', ''additionalProperties'']"

lemma prepared_children:
  "(k, JObject cs) \<in> set (prepare_schema kvs) \<Longrightarrow> (c, w) \<in> set cs \<Longrightarrow> size w < size (JObject kvs)"
  "(k, JArray xs) \<in> set (prepare_schema kvs) \<Longrightarrow> w \<in> set xs \<Longrightarrow> size w < size (JObject kvs)"
  "(k, JObject cs) \<in> set (prepare_schema kvs) \<Longrightarrow> k \<noteq> ''properties'' \<Longrightarrow> size (JObject cs) < size (JObject kvs)"
  using prepared_entry [of k _ kvs] size_entry [of c w cs] size_item [of w xs] by fastforce+

function sanitize_schema_node :: "json \<Rightarrow> json" where
  "sanitize_schema_node node =
     (case node of
        JObject kvs \<Rightarrow>
          JObject (map (\<lambda>(k, v).
            (k, (case v of
                   JObject cs \<Rightarrow>
                     if k \<in> set map_keys then JObject (map (\<lambda>(c, w). (c, sanitize_schema_node w)) cs)
                     else if k \<in> set child_keys then sanitize_schema_node (JObject cs) else v
                 | JArray xs \<Rightarrow> if k \<in> set list_keys then JArray (map sanitize_schema_node xs) else v
                 | _ \<Rightarrow> v))) (prepare_schema kvs))
      | _ \<Rightarrow> node)"
  by pat_completeness auto
termination
  by (relation "measure size") (auto simp: child_keys_def intro: prepared_children(1,2) [simplified] dest: prepared_children(3) [simplified])

definition ensure_valid_json_schema :: "json_object \<Rightarrow> json" where
  "ensure_valid_json_schema kvs =
     sanitize_schema_node (JObject (if map_of kvs ''type'' = None then AList.update ''type'' (JString ''object'') kvs else kvs))"

definition validate_tool_schema :: "json \<Rightarrow> json" where
  "validate_tool_schema t =
     (case json_get ''function'' t of
        Some f \<Rightarrow>
          (case json_get ''parameters'' f of
             Some (JObject kvs) \<Rightarrow> json_set ''function'' (json_set ''parameters'' (ensure_valid_json_schema kvs) f) t
           | _ \<Rightarrow> t)
      | None \<Rightarrow> t)"

definition validate_tool_schemas :: "json list \<Rightarrow> json list" where
  "validate_tool_schemas ts = map validate_tool_schema ts"

subsection \<open>Models and efforts\<close>

datatype thinking_effort = EffortOff | EffortLow | EffortMedium | EffortHigh | EffortMax

text \<open>Lower-casing beyond ASCII turns no other character into a letter of these words.\<close>

definition thinking_effort_from_str :: "string \<Rightarrow> thinking_effort option" where
  "thinking_effort_from_str s =
     (let l = to_ascii_lowercase s in
      if l \<in> {''off'', ''disabled'', ''none''} then Some EffortOff
      else if l = ''low'' then Some EffortLow
      else if l \<in> {''medium'', ''med''} then Some EffortMedium
      else if l = ''high'' then Some EffortHigh
      else if l \<in> {''max'', ''xhigh''} then Some EffortMax
      else None)"

record model_config =
  mc_model_name :: string
  mc_temperature :: "u32 option"
  mc_max_tokens :: "i32 option"
  mc_request_params :: "json_object option"
  mc_supports_vision :: "bool option"
  mc_reasoning :: "bool option"

definition thinking_effort_of :: "model_config \<Rightarrow> thinking_effort option" where
  "thinking_effort_of mc =
     Option.bind (Option.bind (Option.bind (mc_request_params mc) (\<lambda>ps. map_of ps ''thinking_effort'')) as_str)
       thinking_effort_from_str"

record payload_env =
  pe_openai :: openai_env
  pe_decimal_digit :: "string \<Rightarrow> bool"
  pe_temperature :: "u32 \<Rightarrow> json"

definition str_contains :: "string \<Rightarrow> string \<Rightarrow> bool" where
  "str_contains s p \<longleftrightarrow> str_find p s \<noteq> None"

definition responses_at :: "(string \<Rightarrow> bool) \<Rightarrow> string list \<Rightarrow> bool" where
  "responses_at digit cs \<longleftrightarrow>
     (case cs of
        c # r \<Rightarrow> to_ascii_lowercase c = ''o'' \<and> takeWhile digit r \<noteq> []
          \<and> (dropWhile digit r = [] \<or> hd (dropWhile digit r) = ''-'')
      | [] \<Rightarrow> False)
     \<or> map to_ascii_lowercase (take 4 cs) = [''g'', ''p'', ''t'', ''-'']
       \<and> drop 4 cs \<noteq> [] \<and> hd (drop 4 cs) \<in> {''5'', ''6''}
       \<and> (drop 5 cs = [] \<or> hd (drop 5 cs) \<in> {''-'', ''.''})"

fun responses_from :: "(string \<Rightarrow> bool) \<Rightarrow> bool \<Rightarrow> string list \<Rightarrow> bool" where
  "responses_from digit start [] = False"
| "responses_from digit start (c # cs) =
     (start \<and> responses_at digit (c # cs) \<or> responses_from digit (c = ''-'' \<or> c = ''/'') cs)"

definition is_openai_responses_model :: "(string \<Rightarrow> bool) \<Rightarrow> string \<Rightarrow> bool" where
  "is_openai_responses_model digit name = responses_from digit True (str_chars name)"

definition effort_suffix :: "string \<Rightarrow> (string \<times> string) option" where
  "effort_suffix name =
     (case rfind_char (CHR ''-'') name of
        None \<Rightarrow> None
      | Some i \<Rightarrow>
          (let base = take i name; effort = to_ascii_lowercase (drop (Suc i) name) in
           if base \<noteq> [] \<and> NL \<notin> set base \<and> effort \<in> set [''none'', ''low'', ''medium'', ''high'', ''xhigh'']
           then Some (base, effort) else None))"

definition extract_reasoning_effort :: "(string \<Rightarrow> bool) \<Rightarrow> string \<Rightarrow> string \<times> string option" where
  "extract_reasoning_effort digit name =
     (if \<not> is_openai_responses_model digit name then (name, None)
      else (case effort_suffix name of Some (base, effort) \<Rightarrow> (base, Some effort) | None \<Rightarrow> (name, None)))"

definition supports_deepseek_reasoning_effort :: "string \<Rightarrow> bool" where
  "supports_deepseek_reasoning_effort name =
     (let m = to_ascii_lowercase name in starts_with m ''deepseek-v4'' \<or> starts_with m ''deepseek-flash'')"

definition deepseek_reasoning_effort_for_thinking :: "thinking_effort \<Rightarrow> string option" where
  "deepseek_reasoning_effort_for_thinking e =
     (case e of
        EffortOff \<Rightarrow> None | EffortLow \<Rightarrow> Some ''low'' | EffortMedium \<Rightarrow> Some ''high''
      | EffortHigh \<Rightarrow> Some ''high'' | EffortMax \<Rightarrow> Some ''max'')"

definition supports_xai_reasoning_effort :: "string \<Rightarrow> bool" where
  "supports_xai_reasoning_effort name =
     (let m = to_ascii_lowercase name in
      starts_with m ''grok-4.5'' \<or> starts_with m ''grok-4.3'' \<or> starts_with m ''grok-3-mini'')"

definition is_xai_reasoning_model :: "string \<Rightarrow> bool" where
  "is_xai_reasoning_model name =
     (let m = to_ascii_lowercase name in
      if str_contains m ''non-reasoning'' \<or> str_contains m ''non_reasoning'' then False
      else supports_xai_reasoning_effort m \<or> starts_with m ''grok-4.20'' \<or> starts_with m ''grok-4-0709''
        \<or> starts_with m ''grok-4-fast-reasoning'' \<or> starts_with m ''grok-4-1-fast-reasoning'')"

definition xai_reasoning_effort_for_thinking :: "string \<Rightarrow> thinking_effort \<Rightarrow> string option" where
  "xai_reasoning_effort_for_thinking name e =
     (let m = to_ascii_lowercase name; supports_none = starts_with m ''grok-4.3'';
          supports_medium = (\<not> starts_with m ''grok-3-mini'') in
      case e of
        EffortOff \<Rightarrow> if supports_none then Some ''none'' else Some ''low''
      | EffortLow \<Rightarrow> Some ''low''
      | EffortMedium \<Rightarrow> if supports_medium then Some ''medium'' else Some ''high''
      | EffortHigh \<Rightarrow> Some ''high''
      | EffortMax \<Rightarrow> Some ''high'')"

definition openai_reasoning_efforts_for_model :: "string \<Rightarrow> string list" where
  "openai_reasoning_efforts_for_model name =
     (let m = to_ascii_lowercase name in
      if str_contains m ''gpt-5'' \<or> str_contains m ''gpt-6'' then
        if str_contains m ''-pro'' \<or> str_contains m ''/pro'' then [''high'']
        else if list_ex (str_contains m) [''gpt-5.4'', ''gpt-5-4'', ''gpt-5.5'', ''gpt-5-5'', ''gpt-5.6'', ''gpt-5-6'']
        then [''none'', ''low'', ''medium'', ''high'', ''xhigh'']
        else [''low'', ''medium'', ''high'']
      else [''low'', ''medium'', ''high''])"

definition preferred_efforts :: "thinking_effort \<Rightarrow> string list" where
  "preferred_efforts e =
     (case e of
        EffortOff \<Rightarrow> [''none'', ''low'']
      | EffortLow \<Rightarrow> [''low'', ''medium'', ''high'', ''xhigh'']
      | EffortMedium \<Rightarrow> [''medium'', ''high'', ''low'', ''xhigh'']
      | EffortHigh \<Rightarrow> [''high'', ''medium'', ''xhigh'', ''low'']
      | EffortMax \<Rightarrow> [''xhigh'', ''high'', ''medium'', ''low''])"

definition openai_reasoning_effort_for_thinking :: "string \<Rightarrow> thinking_effort \<Rightarrow> string option" where
  "openai_reasoning_effort_for_thinking name e =
     List.find (\<lambda>level. level \<in> set (openai_reasoning_efforts_for_model name)) (preferred_efforts e)"

subsection \<open>The payload\<close>

definition is_goose_internal_request_param :: "string \<Rightarrow> bool" where
  "is_goose_internal_request_param k \<longleftrightarrow>
     k \<in> set [''thinking_effort'', ''disable_prompt_cache'', ''cache_ttl'', ''emit_clear_thinking'',
       ''preserve_thinking_context'', ''preserve_unsigned_thinking'']"

definition is_reserved_request_param_key :: "string \<Rightarrow> bool" where
  "is_reserved_request_param_key k \<longleftrightarrow> k \<in> set [''messages'', ''model'', ''stream'', ''stream_options'']"

definition json_i32 :: "i32 \<Rightarrow> json" where
  "json_i32 n = JNumber (if 0 \<le> sint n then PosInt (ucast n) else NegInt (sint n))"

definition json_set_opt :: "string \<Rightarrow> json option \<Rightarrow> json \<Rightarrow> json" where
  "json_set_opt k v j = (case v of Some x \<Rightarrow> json_set k x j | None \<Rightarrow> j)"

definition reasoning_effort_of :: "payload_env \<Rightarrow> model_config \<Rightarrow> string \<Rightarrow> string option \<Rightarrow> string option" where
  "reasoning_effort_of pe mc model_name legacy =
     (if is_openai_responses_model (pe_decimal_digit pe) model_name
      then (case thinking_effort_of mc of
              Some e \<Rightarrow> openai_reasoning_effort_for_thinking model_name e
            | None \<Rightarrow> legacy)
      else if supports_xai_reasoning_effort model_name
      then Option.bind (thinking_effort_of mc) (xai_reasoning_effort_for_thinking model_name)
      else if supports_deepseek_reasoning_effort model_name
      then Option.bind (thinking_effort_of mc) deepseek_reasoning_effort_for_thinking
      else None)"

definition thinking_switch :: "model_config \<Rightarrow> string \<Rightarrow> json option" where
  "thinking_switch mc model_name =
     (if supports_deepseek_reasoning_effort model_name
      then map_option (\<lambda>e. JObject [(''type'', JString (if e = EffortOff then ''disabled'' else ''enabled''))])
             (thinking_effort_of mc)
      else None)"

definition forwarded_params :: "model_config \<Rightarrow> json_object" where
  "forwarded_params mc =
     filter (\<lambda>(k, v). \<not> is_goose_internal_request_param k \<and> \<not> is_reserved_request_param_key k)
       (case mc_request_params mc of Some ps \<Rightarrow> ps | None \<Rightarrow> [])"

definition stream_keys :: "bool \<Rightarrow> json \<Rightarrow> json" where
  "stream_keys for_streaming j =
     (if for_streaming
      then json_set ''stream_options'' (JObject [(''include_usage'', JBool True)]) (json_set ''stream'' (JBool True) j)
      else j)"

definition create_request_for_model_with_options ::
    "payload_env \<Rightarrow> model_config \<Rightarrow> string \<Rightarrow> string \<Rightarrow> string \<Rightarrow> message list \<Rightarrow> tool_definition list
       \<Rightarrow> image_format \<Rightarrow> bool \<Rightarrow> openai_format_options \<Rightarrow> string + json" where
  "create_request_for_model_with_options pe mc wire_name capability_name sys messages tools img for_streaming opts =
     (if starts_with (mc_model_name mc) ''o1-mini''
      then Inl (''o1-mini model is not currently supported since ghosty uses tool calling and o1-mini does not ''
             @ ''support it. Please use o1 or o3 models instead.'')
      else
        (case extract_reasoning_effort (pe_decimal_digit pe) capability_name of
           (model_name, legacy) \<Rightarrow>
        let is_reasoning = is_openai_responses_model (pe_decimal_digit pe) model_name in
        (case format_tools tools of
           Inl e \<Rightarrow> Inl e
         | Inr specs \<Rightarrow>
             let tools_spec = validate_tool_schemas specs;
                 system_message = role_message (if is_reasoning then ''developer'' else ''system'') (JString sys);
                 p0 = JObject [(''model'', JString wire_name),
                   (''messages'', JArray (system_message # format_messages_with_options (pe_openai pe) messages img opts))];
                 p1 = json_set_opt ''reasoning_effort'' (map_option JString (reasoning_effort_of pe mc model_name legacy)) p0;
                 p2 = json_set_opt ''thinking'' (thinking_switch mc model_name) p1;
                 p3 = (if tools_spec = [] then p2 else json_set ''tools'' (JArray tools_spec) p2);
                 p4 = (if is_reasoning \<or> supports_xai_reasoning_effort model_name then p3
                       else json_set_opt ''temperature'' (map_option (pe_temperature pe) (mc_temperature mc)) p3);
                 p5 = json_set_opt (if is_reasoning then ''max_completion_tokens'' else ''max_tokens'')
                        (map_option json_i32 (mc_max_tokens mc)) p4 in
             Inr (fold (\<lambda>(k, v) j. json_set k v j) (forwarded_params mc) (stream_keys for_streaming p5)))))"

definition create_request_with_options ::
    "payload_env \<Rightarrow> model_config \<Rightarrow> string \<Rightarrow> message list \<Rightarrow> tool_definition list
       \<Rightarrow> image_format \<Rightarrow> bool \<Rightarrow> openai_format_options \<Rightarrow> string + json" where
  "create_request_with_options pe mc sys messages tools img for_streaming opts =
     create_request_for_model_with_options pe mc
       (fst (extract_reasoning_effort (pe_decimal_digit pe) (mc_model_name mc))) (mc_model_name mc)
       sys messages tools img for_streaming opts"

definition create_request ::
    "payload_env \<Rightarrow> model_config \<Rightarrow> string \<Rightarrow> message list \<Rightarrow> tool_definition list \<Rightarrow> image_format \<Rightarrow> bool
       \<Rightarrow> string + json" where
  "create_request pe mc sys messages tools img for_streaming =
     create_request_with_options pe mc sys messages tools img for_streaming
       \<lparr>of_preserve_thinking_context = True,
        of_supports_vision = (case mc_supports_vision mc of Some b \<Rightarrow> b | None \<Rightarrow> False),
        of_thinking_preservation_format = None\<rparr>"

declare sanitize_schema_node.simps [simp del]

subsection \<open>Repaired schemas\<close>

text \<open>A schema directly inside another: a named property or definition, an alternative, a part, or the
  schema of the items or of further properties.\<close>

inductive schema_child :: "json \<Rightarrow> json \<Rightarrow> bool" where
  "(k, JObject cs) \<in> set kvs \<Longrightarrow> k \<in> {''properties'', ''$defs'', ''definitions''} \<Longrightarrow> (c, w) \<in> set cs
    \<Longrightarrow> schema_child (JObject kvs) w"
| "(k, JArray xs) \<in> set kvs \<Longrightarrow> k \<in> {''anyOf'', ''allOf'', ''prefixItems''} \<Longrightarrow> w \<in> set xs
    \<Longrightarrow> schema_child (JObject kvs) w"
| "(k, JObject cs) \<in> set kvs \<Longrightarrow> k \<in> {''items'', ''additionalProperties''} \<Longrightarrow> schema_child (JObject kvs) (JObject cs)"

inductive_cases schema_childE: "schema_child s n"

definition sanitize_entry :: "string \<Rightarrow> json \<Rightarrow> json" where
  "sanitize_entry k v =
     (case v of
        JObject cs \<Rightarrow>
          if k \<in> set map_keys then JObject (map (\<lambda>(c, w). (c, sanitize_schema_node w)) cs)
          else if k \<in> set child_keys then sanitize_schema_node (JObject cs) else v
      | JArray xs \<Rightarrow> if k \<in> set list_keys then JArray (map sanitize_schema_node xs) else v
      | _ \<Rightarrow> v)"

lemma sanitize_object: "sanitize_schema_node (JObject kvs) = JObject (map (\<lambda>(k, v). (k, sanitize_entry k v)) (prepare_schema kvs))"
  by (subst sanitize_schema_node.simps) (simp add: sanitize_entry_def)

lemma sanitize_other: "(\<And>kvs. s \<noteq> JObject kvs) \<Longrightarrow> sanitize_schema_node s = s"
  by (cases s) (subst sanitize_schema_node.simps, simp; fail | blast)+

lemma sanitized_is_object: "sanitize_schema_node s = JObject kvs \<Longrightarrow> \<exists>kvs0. s = JObject kvs0
    \<and> kvs = map (\<lambda>(k, v). (k, sanitize_entry k v)) (prepare_schema kvs0)"
  by (cases s) (simp_all add: sanitize_object sanitize_other)

lemma child_not_map: "k \<in> set child_keys \<Longrightarrow> k \<notin> set map_keys"
  by (auto simp: child_keys_def map_keys_def)

lemma sanitize_entry_object:
  "sanitize_entry k v = JObject cs \<Longrightarrow> k \<in> set map_keys \<Longrightarrow> (c, w) \<in> set cs \<Longrightarrow> \<exists>s. w = sanitize_schema_node s"
  "sanitize_entry k v = JObject cs \<Longrightarrow> k \<in> set child_keys \<Longrightarrow> \<exists>s. JObject cs = sanitize_schema_node s"
  "sanitize_entry k v = JArray xs \<Longrightarrow> k \<in> set list_keys \<Longrightarrow> w \<in> set xs \<Longrightarrow> \<exists>s. w = sanitize_schema_node s"
proof -
  show "\<exists>s. w = sanitize_schema_node s" if "sanitize_entry k v = JObject cs" "k \<in> set map_keys" "(c, w) \<in> set cs"
    using that by (cases v) (auto simp: sanitize_entry_def split: if_splits)
  show "\<exists>s. JObject cs = sanitize_schema_node s" if "sanitize_entry k v = JObject cs" "k \<in> set child_keys"
    using that child_not_map [OF that(2)] by (cases v) (simp_all add: sanitize_entry_def split: if_splits, metis)
  show "\<exists>s. w = sanitize_schema_node s" if "sanitize_entry k v = JArray xs" "k \<in> set list_keys" "w \<in> set xs"
  proof (cases v)
    case (JObject cs)
    with that have "sanitize_schema_node (JObject cs) = JArray xs" by (simp add: sanitize_entry_def split: if_splits)
    then show ?thesis by (simp add: sanitize_object)
  qed (use that in \<open>auto simp: sanitize_entry_def\<close>)
qed

lemma visited_keys:
  "set map_keys = {''properties'', ''$defs'', ''definitions''}" "set list_keys = {''anyOf'', ''allOf'', ''prefixItems''}"
  "set child_keys = {''items'', ''additionalProperties''}"
  by (simp_all add: map_keys_def list_keys_def child_keys_def)

lemma sanitized_child: "schema_child (sanitize_schema_node s) n \<Longrightarrow> \<exists>s1. n = sanitize_schema_node s1"
proof -
  assume child: "schema_child (sanitize_schema_node s) n"
  then obtain kvs where "sanitize_schema_node s = JObject kvs" by (auto elim: schema_childE)
  with sanitized_is_object obtain kvs0 where
    kvs: "sanitize_schema_node s = JObject (map (\<lambda>(k, v). (k, sanitize_entry k v)) (prepare_schema kvs0))" by blast
  from child [unfolded kvs] show ?thesis
  proof (cases rule: schema_child.cases)
    case (1 k cs c)
    then obtain v where "sanitize_entry k v = JObject cs" by auto
    with 1 sanitize_entry_object(1) [of k v cs c n] show ?thesis by (simp add: visited_keys)
  next
    case (2 k xs)
    then obtain v where "sanitize_entry k v = JArray xs" by auto
    with 2 sanitize_entry_object(3) [of k v xs n] show ?thesis by (simp add: visited_keys)
  next
    case (3 k cs)
    then obtain v where "sanitize_entry k v = JObject cs" by auto
    with 3 sanitize_entry_object(2) [of k v cs] show ?thesis by (simp add: visited_keys)
  qed
qed

lemma map_of_entries: "map_of (map (\<lambda>(k, v). (k, f k v)) kvs) k = map_option (f k) (map_of kvs k)"
  by (induction kvs) auto

lemma or_insert_get: "map_of (or_insert k v kvs) k' = (if k' = k \<and> map_of kvs k = None then Some v else map_of kvs k')"
  by (auto simp: or_insert_def map_add_def split: option.split)

lemma object_fields_get:
  "Option.bind (map_of (object_fields kvs) ''type'') as_str = Some ''object'' \<Longrightarrow>
     map_of (object_fields kvs) ''properties'' \<noteq> None \<and> map_of (object_fields kvs) ''required'' \<noteq> None"
  by (auto simp: object_fields_def or_insert_get split: if_splits)

text \<open>Claim C31 (object_schemas_list_fields): after the repair of a tool's parameters, the schema and every
  schema that is reached from it through properties, definitions (under either name), alternatives
  (\<open>anyOf\<close>), parts (\<open>allOf\<close>, \<open>prefixItems\<close>), items and additional properties, to any depth, says what
  its properties are and which are required, if its type is object. Schemas behind other keywords,
  as a \<open>oneOf\<close> that stays (\<open>nested_alternative_not_rewritten\<close>), are not meant.\<close>

theorem object_schemas_list_fields:
  assumes "schema_child\<^sup>*\<^sup>* (sanitize_schema_node s) n" "json_str ''type'' n = Some ''object''"
  shows "json_get ''properties'' n \<noteq> None \<and> json_get ''required'' n \<noteq> None"
proof -
  from assms(1) have "\<exists>s1. n = sanitize_schema_node s1"
    by (induction rule: rtranclp_induct) (auto dest: sanitized_child)
  then obtain s1 where n: "n = sanitize_schema_node s1" ..
  obtain kvs1 where "n = JObject kvs1" using assms(2) by (cases n) (auto simp: json_str_def json_get_def)
  with n have "sanitize_schema_node s1 = JObject kvs1" by simp
  from sanitized_is_object [OF this] obtain k0 where "kvs1 = map (\<lambda>(k, v). (k, sanitize_entry k v)) (prepare_schema k0)" by blast
  define kvs0 where "kvs0 = normalize_nullable (one_of_to_any_of k0)"
  have kvs: "n = JObject (map (\<lambda>(k, v). (k, sanitize_entry k v)) (object_fields kvs0))"
    using \<open>n = JObject kvs1\<close> \<open>kvs1 = _\<close> by (simp add: prepare_schema_def kvs0_def)
  have plain: "as_str (sanitize_entry ''type'' v) = as_str v" for v
    by (simp add: sanitize_entry_def as_str_def map_keys_def child_keys_def list_keys_def split: json.split)
  have "Option.bind (map_of (object_fields kvs0) ''type'') as_str = Some ''object''"
    using assms(2) plain by (auto simp: kvs json_str_def json_get_def map_of_entries split: Option.bind_splits)
  from object_fields_get [OF this] show ?thesis by (simp add: kvs json_get_def map_of_entries)
qed

definition sample_schema :: json where
  "sample_schema = JObject [(''properties'', JObject
     [(''p'', JObject [(''anyOf'', JArray [JObject [(''type'', JString ''object'')], JObject [(''type'', JString ''null'')]])])])]"

definition sample_repaired_field :: json where
  "sample_repaired_field = JObject [(''type'', JString ''object''), (''properties'', JObject []), (''required'', JArray [])]"

lemma sample_repair: "sanitize_schema_node sample_schema = JObject [(''properties'', JObject [(''p'', sample_repaired_field)])]"
  by code_simp

theorem object_schemas_list_fields_witness:
  "json_get ''properties'' sample_repaired_field \<noteq> None \<and> json_get ''required'' sample_repaired_field \<noteq> None"
proof (rule object_schemas_list_fields)
  have "schema_child (sanitize_schema_node sample_schema) sample_repaired_field"
    unfolding sample_repair by (rule schema_child.intros(1) [of "''properties''" "[(''p'', sample_repaired_field)]" _ "''p''"]) (simp_all add: map_keys_def)
  then show "schema_child\<^sup>*\<^sup>* (sanitize_schema_node sample_schema) sample_repaired_field" by blast
  show "json_str ''type'' sample_repaired_field = Some ''object''" by code_simp
qed

text \<open>A variant that is taken out of an alternative brings its own alternatives along as they are.\<close>

lemma nested_alternative_not_rewritten:
  "sanitize_schema_node (JObject [(''anyOf'', JArray
     [JObject [(''oneOf'', JArray [JObject [(''type'', JString ''string'')], JObject [(''type'', JString ''number'')]])],
      JObject [(''type'', JString ''null'')]])])
   = JObject [(''oneOf'', JArray [JObject [(''type'', JString ''string'')], JObject [(''type'', JString ''number'')]])]"
  "sanitize_schema_node (JObject [(''anyOf'', JArray
     [JObject [(''type'', JArray [JString ''string'', JString ''null''])], JObject [(''type'', JString ''null'')]])])
   = JObject [(''type'', JArray [JString ''string'', JString ''null''])]"
  by code_simp+

subsection \<open>What a request sends\<close>

lemma json_get_set_object: "json_get k (json_set k' v (JObject kvs)) = (if k = k' then Some v else json_get k (JObject kvs))"
  by (simp add: json_get_set)

definition is_object :: "json \<Rightarrow> bool" where
  "is_object j \<longleftrightarrow> (\<exists>kvs. j = JObject kvs)"

lemma object_set: "is_object j \<Longrightarrow> is_object (json_set k v j)"
  "is_object j \<Longrightarrow> json_get k' (json_set k v j) = (if k' = k then Some v else json_get k' j)"
  "is_object j \<Longrightarrow> is_object (json_set_opt k w j)"
  "is_object j \<Longrightarrow> json_get k' (json_set_opt k w j) = (if k' = k \<and> w \<noteq> None then w else json_get k' j)"
  by (auto simp: is_object_def json_set_def json_set_opt_def json_get_update split: option.split)

lemma forwarded_get:
  "is_object j \<Longrightarrow> k \<notin> fst ` set ps \<Longrightarrow> json_get k (fold (\<lambda>(k, v) j. json_set k v j) ps j) = json_get k j"
  by (induction ps arbitrary: j) (auto simp: object_set)

text \<open>Claim C32 (request_params_cannot_override): the parameters that a user sets for a model never
  replace the conversation, the model or the streaming of a request, and those meant for the agent
  itself are never sent.\<close>

theorem request_params_cannot_override:
  assumes "create_request_for_model_with_options pe mc wire cap sys messages tools img for_streaming opts = Inr payload"
  shows "json_str ''model'' payload = Some wire
    \<and> (\<exists>r. json_get ''messages'' payload =
        Some (JArray (role_message r (JString sys) # format_messages_with_options (pe_openai pe) messages img opts)))
    \<and> json_get ''stream'' payload = (if for_streaming then Some (JBool True) else None)
    \<and> json_get ''stream_options'' payload =
        (if for_streaming then Some (JObject [(''include_usage'', JBool True)]) else None)
    \<and> (\<forall>k. is_goose_internal_request_param k \<longrightarrow> json_get k payload = None)"
proof -
  define sent where "sent k = (is_goose_internal_request_param k \<or> is_reserved_request_param_key k)" for k
  have not_forwarded: "sent k \<Longrightarrow> k \<notin> fst ` set (forwarded_params mc)" for k
    by (auto simp: sent_def forwarded_params_def)
  obtain model_name legacy where e: "extract_reasoning_effort (pe_decimal_digit pe) cap = (model_name, legacy)" by fastforce
  obtain specs where specs: "format_tools tools = Inr specs"
    using assms by (auto simp: create_request_for_model_with_options_def e Let_def split: if_splits sum.splits)
  define r where "r = (if is_openai_responses_model (pe_decimal_digit pe) model_name then ''developer'' else ''system'')"
  define p0 where "p0 = JObject [(''model'', JString wire),
    (''messages'', JArray (role_message r (JString sys) # format_messages_with_options (pe_openai pe) messages img opts))]"
  define p1 where "p1 = json_set_opt ''reasoning_effort'' (map_option JString (reasoning_effort_of pe mc model_name legacy)) p0"
  define p2 where "p2 = json_set_opt ''thinking'' (thinking_switch mc model_name) p1"
  define p3 where "p3 = (if validate_tool_schemas specs = [] then p2
    else json_set ''tools'' (JArray (validate_tool_schemas specs)) p2)"
  define p4 where "p4 = (if is_openai_responses_model (pe_decimal_digit pe) model_name \<or> supports_xai_reasoning_effort model_name
    then p3 else json_set_opt ''temperature'' (map_option (pe_temperature pe) (mc_temperature mc)) p3)"
  define p5 where "p5 = json_set_opt (if is_openai_responses_model (pe_decimal_digit pe) model_name
    then ''max_completion_tokens'' else ''max_tokens'') (map_option json_i32 (mc_max_tokens mc)) p4"
  have payload: "payload = fold (\<lambda>(k, v) j. json_set k v j) (forwarded_params mc) (stream_keys for_streaming p5)"
    using assms by (auto simp: create_request_for_model_with_options_def e specs Let_def r_def p0_def p1_def p2_def p3_def
        p4_def p5_def split: if_splits)
  have obj: "is_object p0" "is_object p1" "is_object p2" "is_object p3" "is_object p4" "is_object p5"
    unfolding p5_def p4_def p3_def p2_def p1_def by (auto simp: object_set p0_def is_object_def [of "JObject _"])
  have stream_obj: "is_object (stream_keys for_streaming p5)" using obj(6) by (simp add: stream_keys_def object_set)
  have base: "json_get k p5 = json_get k p0" if "sent k" for k
    using that obj by (auto simp: p5_def p4_def p3_def p2_def p1_def object_set sent_def
        is_goose_internal_request_param_def is_reserved_request_param_key_def)
  have stream: "json_get k (stream_keys for_streaming p5) = (if for_streaming \<and> k = ''stream_options''
      then Some (JObject [(''include_usage'', JBool True)]) else if for_streaming \<and> k = ''stream'' then Some (JBool True)
      else json_get k p5)" for k
    using obj(6) by (simp add: stream_keys_def object_set)
  have get: "json_get k payload = (if for_streaming \<and> k = ''stream_options''
      then Some (JObject [(''include_usage'', JBool True)]) else if for_streaming \<and> k = ''stream'' then Some (JBool True)
      else json_get k p0)" if "sent k" for k
    using forwarded_get [OF stream_obj not_forwarded [OF that]] stream [of k] base [OF that] by (simp add: payload)
  have reserved: "sent ''model''" "sent ''messages''" "sent ''stream''" "sent ''stream_options''"
    by (simp_all add: sent_def is_reserved_request_param_key_def)
  have internal: "sent k \<and> k \<noteq> ''stream'' \<and> k \<noteq> ''stream_options'' \<and> json_get k p0 = None"
    if "is_goose_internal_request_param k" for k
    using that by (auto simp: sent_def p0_def json_get_def is_goose_internal_request_param_def)
  show ?thesis
    using get [OF reserved(1)] get [OF reserved(2)] get [OF reserved(3)] get [OF reserved(4)] get internal
    by (auto simp: json_str_def p0_def json_get_def [of _ "JObject _"] as_str_def)
qed

definition sample_payload_env :: payload_env where
  "sample_payload_env =
     \<lparr>pe_openai = sample_openai_env, pe_decimal_digit = (\<lambda>c. c \<in> {''1'', ''3''}), pe_temperature = (\<lambda>t. JNumber (Float 0))\<rparr>"

definition sample_model_config :: model_config where
  "sample_model_config =
     \<lparr>mc_model_name = ''gpt'', mc_temperature = None, mc_max_tokens = None,
      mc_request_params = Some [(''model'', JString ''other''), (''thinking_effort'', JString ''low''), (''seed'', JBool True)],
      mc_supports_vision = None, mc_reasoning = None\<rparr>"

definition sample_payload :: json where
  "sample_payload = JObject
     [(''model'', JString ''gpt''),
      (''messages'', JArray [role_message ''system'' (JString ''s''), role_message ''user'' (JString ''hi'')]),
      (''stream'', JBool True), (''stream_options'', JObject [(''include_usage'', JBool True)]), (''seed'', JBool True)]"

theorem request_params_cannot_override_witness:
  "json_str ''model'' sample_payload = Some ''gpt'' \<and> json_get ''thinking_effort'' sample_payload = None"
proof -
  have "create_request_for_model_with_options sample_payload_env sample_model_config ''gpt'' ''gpt'' ''s''
      [message_new User 1 [Text (text_content_new ''hi'')]] [] OpenAiImage True
      \<lparr>of_preserve_thinking_context = True, of_supports_vision = False, of_thinking_preservation_format = None\<rparr>
    = Inr sample_payload"
    by code_simp
  moreover have "is_goose_internal_request_param ''thinking_effort''" by code_simp
  ultimately show ?thesis using request_params_cannot_override by blast
qed

text \<open>A request fails only for a model that cannot call tools or for two tools of the same name.\<close>

lemma format_tools_from_fails: "(\<exists>e. format_tools_from seen ts = Inl e) \<longleftrightarrow>
    \<not> (distinct (map tool_name ts) \<and> set seen \<inter> tool_name ` set ts = {})"
proof (induction ts arbitrary: seen)
  case (Cons t ts)
  from Cons.IH [of "tool_name t # seen"] show ?case by (auto split: sum.split)
qed simp

lemma request_fails_iff:
  "(\<exists>e. create_request pe mc sys messages tools img for_streaming = Inl e)
     \<longleftrightarrow> starts_with (mc_model_name mc) ''o1-mini'' \<or> \<not> distinct (map tool_name tools)"
  using format_tools_from_fails [of "[]" tools]
  by (auto simp: create_request_def create_request_with_options_def create_request_for_model_with_options_def format_tools_def
      Let_def split: prod.split sum.split)

end
