(* ===== verification/OpenAI_Response.thy ===== *)
theory OpenAI_Response
  imports OpenAI_Payload Think_Filter Token_Usage Agent_Inference "HOL-Library.Monad_Syntax"
begin

section \<open>Answers in the format of OpenAI\<close>

text \<open>
  The decoders of \<open>formats/openai.rs\<close> of \<open>crates/goose-provider-types\<close>: a whole answer and a stream of
  server-sent events become messages of the conversation with the usage of the request. The frames of
  a stream are decoded the way \<open>serde\<close> derives it for the types of the file. A stream is the list of
  the lines it delivers, each a line or the error of the connection; the loop over it reads them in
  order. What the code takes from its libraries are fields of \<open>response_env\<close>: the JSON parser, the
  text of a JSON value, the text for a frame that does not decode, the value of a JSON number as an
  \<open>f64\<close>, and the clock, which is read once for each message.
\<close>

record response_env =
  re_from_str :: json_parser
  re_to_string :: "json \<Rightarrow> string"
  re_decode_error :: "string \<Rightarrow> string"
  re_f64 :: "json_number \<Rightarrow> f64_bits"
  re_now :: "nat \<Rightarrow> int"

subsection \<open>Tool calls\<close>

definition describe_json_value :: "json \<Rightarrow> string" where
  "describe_json_value v =
     (case v of
        JArray _ \<Rightarrow> ''an array'' | JString _ \<Rightarrow> ''a string'' | JNumber _ \<Rightarrow> ''a number''
      | JBool _ \<Rightarrow> ''a boolean'' | JNull \<Rightarrow> ''null'' | JObject _ \<Rightarrow> ''an object'')"

definition output_token_limit_tool_error :: "string \<Rightarrow> string \<Rightarrow> error_data" where
  "output_token_limit_tool_error function_name i =
     invalid_params (''Tool arguments for '' @ function_name @ '' (id '' @ i
       @ '') were truncated because the model reached its output token limit'')"

definition APOSTROPHE :: string where "APOSTROPHE = [CHR 0x27]"

text \<open>The arguments of a call as the model wrote them: an object, or the error the model is shown.\<close>

definition interpret_arguments ::
    "response_env \<Rightarrow> string \<Rightarrow> string \<Rightarrow> string \<Rightarrow> call_tool_request_params tool_result" where
  "interpret_arguments env i function_name args =
     (case parse_tool_arguments (re_from_str env) args of
        Some (JObject params) \<Rightarrow>
          Inr \<lparr>ctp_name = function_name, ctp_arguments = Some params, ctp_rest = JNull\<rparr>
      | Some other \<Rightarrow>
          Inl (invalid_params (''Tool arguments for '' @ function_name @ '' (id '' @ i @ '') must be a JSON object, got ''
            @ describe_json_value other @ ''. Raw arguments: '' @ APOSTROPHE @ args @ APOSTROPHE))
      | None \<Rightarrow>
          Inl (invalid_params
            (case truncation_error_message (re_from_str env) args of
               Some t \<Rightarrow> t
             | None \<Rightarrow> ''Could not interpret tool use parameters for id '' @ i)))"

definition tool_request_with_metadata ::
    "string \<Rightarrow> call_tool_request_params tool_result \<Rightarrow> provider_metadata option \<Rightarrow> message_content_block" where
  "tool_request_with_metadata i c md =
     ToolRequest \<lparr>tr_id = i, tr_tool_call = c, tr_metadata = md, tr_tool_meta = None\<rparr>"

definition tool_request_with_provider_index ::
    "string \<Rightarrow> call_tool_request_params tool_result \<Rightarrow> provider_metadata option \<Rightarrow> i32 \<Rightarrow> message_content_block" where
  "tool_request_with_provider_index i c md index =
     ToolRequest \<lparr>tr_id = i, tr_tool_call = c, tr_metadata = md,
       tr_tool_meta = Some (JObject [(TOOL_META_PROVIDER_INDEX_KEY, json_i32 index)])\<rparr>"

definition thinking_block :: "string \<Rightarrow> string \<Rightarrow> message_content_block" where
  "thinking_block t signature = Thinking \<lparr>th_thinking = t, th_signature = signature\<rparr>"

definition text_block :: "string \<Rightarrow> message_content_block" where
  "text_block t = Text (text_content_new t)"

definition mark_output_limit :: "bool \<Rightarrow> message \<Rightarrow> message" where
  "mark_output_limit b m = m\<lparr>m_metadata := (m_metadata m)\<lparr>md_output_token_limit_reached := b\<rparr>\<rparr>"

subsection \<open>A whole answer\<close>

definition first_choice :: "json \<Rightarrow> json option" where
  "first_choice response =
     (case json_get ''choices'' response of Some (JArray (c # _)) \<Rightarrow> Some c | _ \<Rightarrow> None)"

definition response_call :: "response_env \<Rightarrow> bool \<Rightarrow> json \<Rightarrow> message_content_block" where
  "response_call env limit tool_call =
     (let i = unwrap_or (json_str ''id'' tool_call) [];
          function_name = unwrap_or (Option.bind (json_get ''function'' tool_call) (json_str ''name'')) [];
          written = unwrap_or (Option.bind (json_get ''function'' tool_call) (json_str ''arguments'')) [];
          args = (if written = [] then ''{}'' else written);
          md = (case tool_call of
                  JObject kvs \<Rightarrow>
                    (let extra = filter (\<lambda>(k, v). k \<notin> set [''id'', ''function'', ''type'', ''index'']) kvs in
                     if extra = [] then None else Some extra)
                | _ \<Rightarrow> None) in
      tool_request_with_metadata i
        (if limit then Inl (output_token_limit_tool_error function_name i)
         else if function_name = []
         then Inl \<lparr>ed_code = - 32600, ed_message = ''The provided function name was empty; a tool call must name a tool'',
                  ed_data = None\<rparr>
         else interpret_arguments env i function_name args) md)"

definition reasoning_value :: "json \<Rightarrow> json option" where
  "reasoning_value original =
     (case json_get ''reasoning_content'' original of Some v \<Rightarrow> Some v | None \<Rightarrow> json_get ''reasoning'' original)"

definition response_reasoning :: "json \<Rightarrow> message_content_block list" where
  "response_reasoning original =
     (case Option.bind (reasoning_value original) as_str of
        Some r \<Rightarrow> if r = [] then [] else [thinking_block r []]
      | None \<Rightarrow> [])"

definition response_text :: "bool \<Rightarrow> json \<Rightarrow> message_content_block list" where
  "response_text has_structured_thinking original =
     (case json_str ''content'' original of
        Some t \<Rightarrow>
          (case split_think_blocks t of
             (cleaned, inline) \<Rightarrow>
               (if \<not> has_structured_thinking \<and> inline \<noteq> [] then [thinking_block inline []] else [])
               @ (if cleaned = [] then [] else [text_block cleaned]))
      | None \<Rightarrow> [])"

definition response_to_message :: "response_env \<Rightarrow> json \<Rightarrow> string + message" where
  "response_to_message env response =
     (let limit = (Option.bind (first_choice response) (json_str ''finish_reason'') = Some ''length'') in
      case Option.bind (first_choice response) (json_get ''message'') of
        None \<Rightarrow>
          Inl (case json_get ''error'' response of
                 Some e \<Rightarrow> ''API error: '' @ unwrap_or (json_str ''message'' e) ''Unknown error''
               | None \<Rightarrow> ''No message in API response. This may indicate a quota limit or other restriction.'')
      | Some original \<Rightarrow>
          (let reasoning = response_reasoning original;
               calls = (case json_get ''tool_calls'' original of
                          Some (JArray tcs) \<Rightarrow> map (response_call env limit) tcs
                        | _ \<Rightarrow> []) in
           Inr (mark_output_limit limit
             (message_new Assistant (re_now env 0)
               (reasoning @ response_text (reasoning \<noteq> []) original @ calls)))))"

subsection \<open>Usage\<close>

definition token_count :: "json option \<Rightarrow> i32 option" where
  "token_count v = map_option word_of_int (Option.bind v as_i64)"

definition or_else :: "'a option \<Rightarrow> 'a option \<Rightarrow> 'a option" where
  "or_else a b = (case a of Some x \<Rightarrow> Some x | None \<Rightarrow> b)"

definition get_usage :: "json \<Rightarrow> usage" where
  "get_usage value =
     (let u = (case json_get ''usage'' value of Some (JObject kvs) \<Rightarrow> JObject kvs | _ \<Rightarrow> value);
          inp = or_else (token_count (json_get ''prompt_tokens'' u)) (token_count (json_get ''prompt_eval_count'' u));
          outp = or_else (token_count (json_get ''completion_tokens'' u)) (token_count (json_get ''eval_count'' u));
          details = json_get ''prompt_tokens_details'' u;
          cache_read = or_else (token_count (json_get ''cache_read_input_tokens'' u))
            (token_count (Option.bind details (json_get ''cached_tokens'')));
          cache_write = or_else (token_count (json_get ''cache_creation_input_tokens'' u))
            (token_count (Option.bind details (json_get ''cache_write_tokens'')));
          tot = or_else (token_count (json_get ''total_tokens'' u))
            (case (inp, outp) of (Some a, Some b) \<Rightarrow> Some (saturating_add a b) | _ \<Rightarrow> None) in
      with_cache_tokens cache_read cache_write (usage_new inp outp tot))"

text \<open>\<open>is_finite\<close> and \<open>>= 0.0\<close> on the bits of a double: the exponent is not full, and the sign bit is
  clear or the value is the negative zero.\<close>

definition f64_accepted :: "f64_bits \<Rightarrow> bool" where
  "f64_accepted b \<longleftrightarrow> uint b mod 2 ^ 63 < 2047 * 2 ^ 52 \<and> (uint b < 2 ^ 63 \<or> uint b = 2 ^ 63)"

definition get_cost :: "response_env \<Rightarrow> json \<Rightarrow> f64_bits option" where
  "get_cost env u =
     (case json_get ''cost'' u of
        Some (JNumber n) \<Rightarrow> if f64_accepted (re_f64 env n) then Some (re_f64 env n) else None
      | _ \<Rightarrow> None)"

definition record_response_metadata :: "json \<Rightarrow> provider_usage \<Rightarrow> provider_usage" where
  "record_response_metadata response u =
     (let reasons = (case json_get ''choices'' response of
                       Some (JArray cs) \<Rightarrow> filter_map (json_str ''finish_reason'') cs | _ \<Rightarrow> []);
          u1 = u\<lparr>pu_response_id := json_str ''id'' response\<rparr> in
      if reasons = [] then u1 else u1\<lparr>pu_finish_reasons := Some reasons\<rparr>)"

subsection \<open>The frames of a stream\<close>

record delta_tool_call =
  dt_id :: "string option"
  dt_name :: "string option"
  dt_arguments :: string
  dt_index :: "i32 option"
  dt_type :: "string option"
  dt_extra :: "json_object option"

record content_part =
  cp_type :: string
  cp_text :: "string option"
  cp_thought_signature :: "string option"

datatype delta_content = ContentString string | ContentParts "content_part list"

record delta =
  de_content :: "delta_content option"
  de_role :: "string option"
  de_tool_calls :: "delta_tool_call list option"
  de_reasoning_details :: "json list option"
  de_reasoning :: "string option"
  de_reasoning_content :: "string option"

record streaming_choice =
  sc_delta :: delta
  sc_index :: "i32 option"
  sc_finish_reason :: "string option"

record streaming_chunk =
  ch_choices :: "streaming_choice list"
  ch_created :: "int option"
  ch_id :: "string option"
  ch_usage :: "json option"
  ch_model :: "string option"

text \<open>A derived structure is read from an object by its keys or from an array by position, where only
  fields with a default may be missing at the end. A missing \<open>Option\<close> of an object is \<open>None\<close>.\<close>

definition struct_fields :: "(string \<times> bool) list \<Rightarrow> json \<Rightarrow> (string \<Rightarrow> json option) option" where
  "struct_fields fs v =
     (case v of
        JObject kvs \<Rightarrow> Some (map_of kvs)
      | JArray xs \<Rightarrow>
          if length xs \<le> length fs \<and> list_all snd (drop (length xs) fs)
          then Some (map_of (zip (map fst fs) xs)) else None
      | _ \<Rightarrow> None)"

definition optional :: "(json \<Rightarrow> 'a option) \<Rightarrow> json option \<Rightarrow> 'a option option" where
  "optional f v =
     (case v of None \<Rightarrow> Some None | Some JNull \<Rightarrow> Some None | Some x \<Rightarrow> map_option Some (f x))"

definition read_list :: "(json \<Rightarrow> 'a option) \<Rightarrow> json \<Rightarrow> 'a list option" where
  "read_list f v = (case v of JArray xs \<Rightarrow> those (map f xs) | _ \<Rightarrow> None)"

definition read_i32 :: "json \<Rightarrow> i32 option" where
  "read_i32 v =
     Option.bind (as_i64 v) (\<lambda>n. if - (2 ^ 31) \<le> n \<and> n < 2 ^ 31 then Some (word_of_int n) else None)"

definition read_function :: "json \<Rightarrow> (string option \<times> string) option" where
  "read_function v = do {
     fs \<leftarrow> struct_fields [(''name'', False), (''arguments'', True)] v;
     name \<leftarrow> optional as_str (fs ''name'');
     args \<leftarrow> optional as_str (fs ''arguments'');
     Some (name, unwrap_or args [])
   }"

text \<open>The flattened field takes every other key, so it is always there.\<close>

definition read_tool_call :: "json \<Rightarrow> delta_tool_call option" where
  "read_tool_call v = (case v of
     JObject kvs \<Rightarrow> do {
       i \<leftarrow> optional as_str (map_of kvs ''id'');
       (name, args) \<leftarrow> Option.bind (map_of kvs ''function'') read_function;
       index \<leftarrow> optional read_i32 (map_of kvs ''index'');
       ty \<leftarrow> optional as_str (map_of kvs ''type'');
       Some \<lparr>dt_id = i, dt_name = name, dt_arguments = args, dt_index = index, dt_type = ty,
             dt_extra = Some (filter (\<lambda>(k, w). k \<notin> set [''id'', ''function'', ''index'', ''type'']) kvs)\<rparr>
     }
   | _ \<Rightarrow> None)"

definition read_part :: "json \<Rightarrow> content_part option" where
  "read_part v = do {
     fs \<leftarrow> struct_fields [(''type'', False), (''text'', True), (''thoughtSignature'', False)] v;
     ty \<leftarrow> Option.bind (fs ''type'') as_str;
     t \<leftarrow> optional as_str (fs ''text'');
     sig \<leftarrow> optional as_str (fs ''thoughtSignature'');
     Some \<lparr>cp_type = ty, cp_text = t, cp_thought_signature = sig\<rparr>
   }"

definition read_content :: "json \<Rightarrow> delta_content option" where
  "read_content v =
     (case v of JString s \<Rightarrow> Some (ContentString s) | _ \<Rightarrow> map_option ContentParts (read_list read_part v))"

definition delta_default :: delta where
  "delta_default = \<lparr>de_content = None, de_role = None, de_tool_calls = None, de_reasoning_details = None,
     de_reasoning = None, de_reasoning_content = None\<rparr>"

definition read_delta :: "json \<Rightarrow> delta option" where
  "read_delta v = do {
     fs \<leftarrow> struct_fields [(''content'', True), (''role'', False), (''tool_calls'', False),
       (''reasoning_details'', False), (''reasoning'', False), (''reasoning_content'', False)] v;
     content \<leftarrow> optional read_content (fs ''content'');
     r \<leftarrow> optional as_str (fs ''role'');
     calls \<leftarrow> optional (read_list read_tool_call) (fs ''tool_calls'');
     details \<leftarrow> optional (read_list Some) (fs ''reasoning_details'');
     reasoning \<leftarrow> optional as_str (fs ''reasoning'');
     reasoning_content \<leftarrow> optional as_str (fs ''reasoning_content'');
     Some \<lparr>de_content = content, de_role = r, de_tool_calls = calls, de_reasoning_details = details,
           de_reasoning = reasoning, de_reasoning_content = reasoning_content\<rparr>
   }"

definition empty_finish_reason_as_none :: "json option \<Rightarrow> string option option" where
  "empty_finish_reason_as_none v =
     map_option (\<lambda>r. Option.bind r (\<lambda>s. if s = [] then None else Some s)) (optional as_str v)"

definition read_choice :: "json \<Rightarrow> streaming_choice option" where
  "read_choice v = do {
     fs \<leftarrow> struct_fields [(''delta'', True), (''index'', False), (''finish_reason'', True)] v;
     d \<leftarrow> (case fs ''delta'' of None \<Rightarrow> Some delta_default | Some w \<Rightarrow> read_delta w);
     index \<leftarrow> optional read_i32 (fs ''index'');
     reason \<leftarrow> empty_finish_reason_as_none (fs ''finish_reason'');
     Some \<lparr>sc_delta = d, sc_index = index, sc_finish_reason = reason\<rparr>
   }"

definition read_chunk :: "json \<Rightarrow> streaming_chunk option" where
  "read_chunk v = do {
     fs \<leftarrow> struct_fields [(''choices'', False), (''created'', False), (''id'', False), (''usage'', False), (''model'', False)] v;
     choices \<leftarrow> Option.bind (fs ''choices'') (read_list read_choice);
     created \<leftarrow> optional as_i64 (fs ''created'');
     i \<leftarrow> optional as_str (fs ''id'');
     u \<leftarrow> optional Some (fs ''usage'');
     model \<leftarrow> optional as_str (fs ''model'');
     Some \<lparr>ch_choices = choices, ch_created = created, ch_id = i, ch_usage = u, ch_model = model\<rparr>
   }"

definition nonempty_str :: "string option \<Rightarrow> string option" where
  "nonempty_str s = Option.bind s (\<lambda>t. if t = [] then None else Some t)"

definition reasoning_text :: "delta \<Rightarrow> string option" where
  "reasoning_text d = or_else (nonempty_str (de_reasoning_content d)) (nonempty_str (de_reasoning d))"

definition extract_content_and_signature :: "delta_content option \<Rightarrow> string option \<times> string option" where
  "extract_content_and_signature c =
     (case c of
        Some (ContentString s) \<Rightarrow> (Some s, None)
      | Some (ContentParts parts) \<Rightarrow>
          (let text_parts = filter (\<lambda>p. cp_type p = ''text'') parts;
               t = concat (filter_map cp_text text_parts) in
           (if t = [] then None else Some t, first_opt (filter_map cp_thought_signature text_parts)))
      | None \<Rightarrow> (None, None))"

subsection \<open>Errors in a stream\<close>

definition strip_data_prefix :: "string \<Rightarrow> string option" where
  "strip_data_prefix line =
     map_option trim (or_else (strip_prefix ''data: '' line) (strip_prefix ''data:'' line))"

definition MAX_STREAM_ERROR_LEN :: nat where "MAX_STREAM_ERROR_LEN = 500"

definition stream_error_one :: "response_env \<Rightarrow> json \<Rightarrow> string option" where
  "stream_error_one env v =
     (case v of
        JString s \<Rightarrow> Some s
      | JObject _ \<Rightarrow>
          or_else (Option.bind (or_else (json_get ''msg'' v) (json_get ''message'' v)) as_str) (Some (re_to_string env v))
      | JNull \<Rightarrow> None
      | _ \<Rightarrow> Some (re_to_string env v))"

definition stream_error_text :: "response_env \<Rightarrow> json \<Rightarrow> string option" where
  "stream_error_text env v = do {
     t \<leftarrow> (case v of
        JArray items \<Rightarrow>
          (let parts = filter_map (stream_error_one env) items in if parts = [] then None else Some (join ''; '' parts))
      | _ \<Rightarrow> stream_error_one env v);
     if t = [] then None
     else if length (str_chars t) > MAX_STREAM_ERROR_LEN
     then Some (concat (take MAX_STREAM_ERROR_LEN (str_chars t)) @ [CHR 0xE2, CHR 0x80, CHR 0xA6])
     else Some t
   }"

text \<open>\<open>str::parse::<i64>\<close>: an optional sign, then at least one digit, within the range.\<close>

definition parse_i64 :: "string \<Rightarrow> int option" where
  "parse_i64 s =
     (case s of
        c # r \<Rightarrow>
          (let negative = (c = CHR ''-''); d = (if negative \<or> c = CHR ''+'' then r else s);
               n = (if negative then - int (digits_value 0 d) else int (digits_value 0 d)) in
           if d = [] \<or> \<not> list_all is_ascii_digit d then None
           else if - (2 ^ 63) \<le> n \<and> n < 2 ^ 63 then Some n else None)
      | [] \<Rightarrow> None)"

definition show_i64 :: "int \<Rightarrow> string" where
  "show_i64 n = (if n < 0 then CHR ''-'' # show_nat (nat (- n)) else show_nat (nat n))"

definition frame_status :: "json \<Rightarrow> int option" where
  "frame_status v =
     first_opt (filter_map (\<lambda>k. Option.bind (json_get k v) (\<lambda>raw. or_else (as_i64 raw) (Option.bind (as_str raw) parse_i64)))
       [''status'', ''statusCode'', ''code''])"

definition has_error_signal :: "json \<Rightarrow> bool" where
  "has_error_signal v \<longleftrightarrow>
     (case frame_status v of Some s \<Rightarrow> s \<ge> 400 | None \<Rightarrow> False)
     \<or> json_str ''type'' v = Some ''error''
     \<or> (case json_get ''detail'' v of Some d \<Rightarrow> d \<noteq> JNull | None \<Rightarrow> False)"

definition classify_choiceless_frame :: "response_env \<Rightarrow> json \<Rightarrow> provider_error option" where
  "classify_choiceless_frame env v =
     (if \<not> has_error_signal v then None
      else Some (ServerError (
        case or_else (Option.bind (json_get ''message'' v) (stream_error_text env))
               (or_else (Option.bind (json_get ''detail'' v) (stream_error_text env))
                  (Option.bind (json_get ''error'' v) (stream_error_text env))) of
          Some t \<Rightarrow> t
        | None \<Rightarrow>
            (case frame_status v of
               Some s \<Rightarrow> ''Gateway returned status '' @ show_i64 s @ '' mid-stream''
             | None \<Rightarrow> ''Unknown server error''))))"

definition is_json_object :: "json \<Rightarrow> bool" where
  "is_json_object v = (case v of JObject _ \<Rightarrow> True | _ \<Rightarrow> False)"

definition stream_decode_error :: "string \<Rightarrow> provider_error" where
  "stream_decode_error e = NetworkError (''Stream decode error: '' @ e)"

definition parse_streaming_chunk :: "response_env \<Rightarrow> string \<Rightarrow> provider_error + streaming_chunk option" where
  "parse_streaming_chunk env line =
     (case re_from_str env line of
        None \<Rightarrow> Inl (stream_decode_error (re_decode_error env line))
      | Some v \<Rightarrow>
          (case json_get ''error'' v of
             Some e \<Rightarrow> Inl (ServerError (unwrap_or (json_str ''message'' e) ''Unknown server error''))
           | None \<Rightarrow>
               if json_str ''object'' v = Some ''error''
               then Inl (ServerError (unwrap_or (json_str ''message'' v) ''Unknown server error''))
               else if is_json_object v \<and> json_get ''choices'' v = None
               then (case classify_choiceless_frame env v of Some e \<Rightarrow> Inl e | None \<Rightarrow> Inr None)
               else (case read_chunk v of
                       Some c \<Rightarrow> Inr (Some c)
                     | None \<Rightarrow> Inl (stream_decode_error (re_decode_error env line)))))"

subsection \<open>The loop over a stream\<close>

datatype stream_error = SourceError string | FrameError provider_error

type_synonym decoded_item = "message option \<times> provider_usage option"

type_synonym stream_line = "string + string"

datatype line_event = LineSkipped | StreamDone | LineFailed stream_error | Frame streaming_chunk

text \<open>Only the outer loop skips a line without data; for the inner one it is a frame that does not decode.\<close>

definition read_line :: "response_env \<Rightarrow> bool \<Rightarrow> stream_line \<Rightarrow> line_event" where
  "read_line env skip_empty response =
     (case response of
        Inl e \<Rightarrow> LineFailed (SourceError e)
      | Inr l \<Rightarrow>
          (case strip_data_prefix l of
             None \<Rightarrow> LineSkipped
           | Some line \<Rightarrow>
               if line = ''[DONE]'' then StreamDone
               else if skip_empty \<and> line = [] then LineSkipped
               else (case parse_streaming_chunk env line of
                       Inl e \<Rightarrow> LineFailed (FrameError e)
                     | Inr None \<Rightarrow> LineSkipped
                     | Inr (Some c) \<Rightarrow> Frame c)))"

text \<open>A call under construction: its identifier, name, arguments and other keys.\<close>

type_synonym tool_call_data = "(i32 \<times> (string \<times> string \<times> string \<times> json_object option)) list"

record decoder_state =
  ss_reasoning :: string
  ss_filter :: think_filter
  ss_structured :: bool
  ss_yielded :: nat
  ss_signature :: "string option"
  ss_pending :: string
  ss_model :: "string option"
  ss_response_id :: "string option"
  ss_finish_reason :: "string option"
  ss_limit :: bool
  ss_limit_emitted :: bool
  ss_usage_emitted :: bool
  ss_out :: "decoded_item list"

definition decoder_start :: decoder_state where
  "decoder_start =
     \<lparr>ss_reasoning = [], ss_filter = think_filter_new, ss_structured = False, ss_yielded = 0, ss_signature = None,
      ss_pending = [], ss_model = None, ss_response_id = None, ss_finish_reason = None, ss_limit = False,
      ss_limit_emitted = False, ss_usage_emitted = False, ss_out = []\<rparr>"

definition emit :: "decoded_item \<Rightarrow> decoder_state \<Rightarrow> decoder_state" where
  "emit x st = st\<lparr>ss_out := ss_out st @ [x]\<rparr>"

definition stream_message ::
    "response_env \<Rightarrow> string option \<Rightarrow> message_content_block list \<Rightarrow> decoder_state \<Rightarrow> message" where
  "stream_message env i content st =
     (message_new Assistant (re_now env (length (ss_out st))) content)\<lparr>m_id := i\<rparr>"

definition extract_usage_with_output_tokens ::
    "response_env \<Rightarrow> streaming_chunk \<Rightarrow> string option \<Rightarrow> provider_usage option" where
  "extract_usage_with_output_tokens env c fallback_model = do {
     u \<leftarrow> ch_usage c;
     model \<leftarrow> or_else (ch_model c) fallback_model;
     let pu = provider_usage_new model (get_usage u);
     let pu1 = (case get_cost env u of Some cost \<Rightarrow> with_cost cost ProviderReported pu | None \<Rightarrow> pu);
     if u_output_tokens (pu_usage pu1) = None then None else Some pu1
   }"

definition chunk_finish_reason :: "streaming_chunk \<Rightarrow> string option" where
  "chunk_finish_reason c = Option.bind (first_opt (ch_choices c)) sc_finish_reason"

definition see_chunk :: "streaming_chunk \<Rightarrow> decoder_state \<Rightarrow> decoder_state" where
  "see_chunk c st =
     st\<lparr>ss_model := or_else (ch_model c) (ss_model st),
        ss_response_id := or_else (ch_id c) (ss_response_id st),
        ss_finish_reason := or_else (chunk_finish_reason c) (ss_finish_reason st)\<rparr>"

definition see_reasoning :: "delta \<Rightarrow> decoder_state \<Rightarrow> decoder_state" where
  "see_reasoning d st =
     (case reasoning_text d of
        Some rc \<Rightarrow>
          (let st1 = st\<lparr>ss_reasoning := ss_reasoning st @ rc\<rparr> in
           if rc = [] then st1 else st1\<lparr>ss_structured := True, ss_pending := []\<rparr>)
      | None \<Rightarrow> st)"

definition chunk_usage :: "response_env \<Rightarrow> streaming_chunk \<Rightarrow> decoder_state \<Rightarrow> provider_usage option" where
  "chunk_usage env c st =
     map_option (\<lambda>u.
       let u1 = (case ss_finish_reason st of Some r \<Rightarrow> u\<lparr>pu_finish_reasons := Some [r]\<rparr> | None \<Rightarrow> u) in
       (case ss_response_id st of Some i \<Rightarrow> u1\<lparr>pu_response_id := Some i\<rparr> | None \<Rightarrow> u1))
       (extract_usage_with_output_tokens env c (ss_model st))"

subsubsection \<open>Calls under construction\<close>

definition start_call :: "nat \<times> delta_tool_call \<Rightarrow> tool_call_data \<Rightarrow> tool_call_data" where
  "start_call pt calls =
     (case pt of (position, t) \<Rightarrow>
        (case (dt_id t, dt_name t) of
           (Some i, Some name) \<Rightarrow>
             AList.update (unwrap_or (dt_index t) (of_nat position)) (i, name, dt_arguments t, dt_extra t) calls
         | _ \<Rightarrow> calls))"

definition start_calls :: "delta_tool_call list \<Rightarrow> tool_call_data" where
  "start_calls ts = fold start_call (enumerate 0 ts) []"

definition merge_extra :: "json_object option \<Rightarrow> json_object option \<Rightarrow> json_object option" where
  "merge_extra extra new_extra =
     (case (extra, new_extra) of
        (None, Some n) \<Rightarrow> Some n
      | (Some e, Some n) \<Rightarrow> Some (fold (\<lambda>(k, v) o1. or_insert k v o1) n e)
      | _ \<Rightarrow> extra)"

definition continue_call :: "delta_tool_call \<Rightarrow> tool_call_data \<Rightarrow> tool_call_data" where
  "continue_call t calls =
     (case dt_index t of
        None \<Rightarrow> calls
      | Some index \<Rightarrow>
          (case map_of calls index of
             Some (i, name, args, extra) \<Rightarrow>
               AList.update index
                 (i, (case dt_name t of Some n \<Rightarrow> if n = [] then name else n | None \<Rightarrow> name),
                  args @ dt_arguments t, merge_extra extra (dt_extra t)) calls
           | None \<Rightarrow>
               (case (dt_id t, dt_name t) of
                  (Some i, Some name) \<Rightarrow> AList.update index (i, name, dt_arguments t, dt_extra t) calls
                | _ \<Rightarrow> calls)))"

definition delta_calls :: "delta \<Rightarrow> delta_tool_call list" where
  "delta_calls d = unwrap_or (de_tool_calls d) []"

text \<open>What a frame adds to the calls: the new calls, usage and state, and whether they are complete.\<close>

definition gather_chunk ::
    "response_env \<Rightarrow> streaming_chunk \<Rightarrow> tool_call_data \<Rightarrow> provider_usage option \<Rightarrow> decoder_state
       \<Rightarrow> tool_call_data \<times> provider_usage option \<times> decoder_state \<times> bool" where
  "gather_chunk env c calls u st =
     (let st1 = see_chunk c st; u1 = or_else (chunk_usage env c st1) u in
      case ch_choices c of
        [] \<Rightarrow> (calls, u1, st1, True)
      | choice # _ \<Rightarrow>
          (let st2 = st1\<lparr>ss_limit := ss_limit st1 \<or> sc_finish_reason choice = Some ''length''\<rparr> in
           (fold continue_call (delta_calls (sc_delta choice)) calls, u1, see_reasoning (sc_delta choice) st2,
            sc_finish_reason choice \<noteq> None)))"

datatype gathered =
    Gathered tool_call_data "provider_usage option" decoder_state "stream_line list"
  | GatherDone decoder_state
  | GatherFailed decoder_state stream_error

fun gather_calls ::
    "response_env \<Rightarrow> stream_line list \<Rightarrow> tool_call_data \<Rightarrow> provider_usage option \<Rightarrow> decoder_state \<Rightarrow> gathered" where
  "gather_calls env [] calls u st = Gathered calls u st []"
| "gather_calls env (l # ls) calls u st =
     (case read_line env False l of
        LineSkipped \<Rightarrow> gather_calls env ls calls u st
      | StreamDone \<Rightarrow> GatherDone st
      | LineFailed e \<Rightarrow> GatherFailed st e
      | Frame c \<Rightarrow>
          (case gather_chunk env c calls u st of
             (calls1, u1, st1, finished) \<Rightarrow>
               if finished then Gathered calls1 u1 st1 ls else gather_calls env ls calls1 u1 st1))"

lemma gather_calls_rest: "gather_calls env ls calls u st = Gathered calls1 u1 st1 rest \<Longrightarrow> length rest \<le> length ls"
proof (induction ls arbitrary: calls u st)
  case (Cons l ls)
  then show ?case by (fastforce split: line_event.splits if_splits prod.splits)
qed simp

definition streamed_call :: "response_env \<Rightarrow> string \<Rightarrow> string \<Rightarrow> string \<Rightarrow> call_tool_request_params tool_result" where
  "streamed_call env i function_name args =
     (if args = [] then Inr \<lparr>ctp_name = function_name, ctp_arguments = Some [], ctp_rest = JNull\<rparr>
      else interpret_arguments env i function_name args)"

definition call_block ::
    "response_env \<Rightarrow> bool \<Rightarrow> string option \<Rightarrow> i32 \<times> string \<times> string \<times> string \<times> json_object option
       \<Rightarrow> message_content_block" where
  "call_block env limit signature call =
     (case call of (index, i, function_name, args, extra) \<Rightarrow>
        tool_request_with_provider_index i
          (if limit then Inl (output_token_limit_tool_error function_name i)
           else streamed_call env i function_name args)
          (case signature of
             Some sig \<Rightarrow> Some (AList.update ''thoughtSignature'' (JString sig) (unwrap_or extra []))
           | None \<Rightarrow> if extra = Some [] then None else extra)
          index)"

subsubsection \<open>What a frame delivers\<close>

definition text_and_thinking :: "string \<Rightarrow> string \<Rightarrow> message_content_block list" where
  "text_and_thinking t thinking =
     (if t = [] then [] else [text_block t]) @ (if thinking = [] then [] else [thinking_block thinking []])"

definition flush_inline :: "response_env \<Rightarrow> string option \<Rightarrow> decoder_state \<Rightarrow> decoder_state" where
  "flush_inline env i st =
     (case filter_push [] (ss_filter st) of
        (tf, out) \<Rightarrow>
          (let thinking = (if ss_structured st then [] else ss_pending st @ fo_thinking out);
               st1 = st\<lparr>ss_filter := tf, ss_pending := []\<rparr>;
               blocks = text_and_thinking (fo_content out) thinking in
           if blocks = [] then st1 else emit (Some (stream_message env i blocks st1), None) st1))"

definition deliver_calls ::
    "response_env \<Rightarrow> streaming_chunk \<Rightarrow> tool_call_data \<Rightarrow> provider_usage option \<Rightarrow> decoder_state \<Rightarrow> decoder_state" where
  "deliver_calls env c calls u st =
     (let unyielded = drop (ss_yielded st) (ss_reasoning st);
          contents = (if unyielded = [] then [] else [thinking_block unyielded []])
            @ map (call_block env (ss_limit st) (ss_signature st)) (sort_key (\<lambda>x. sint (fst x)) calls);
          st1 = st\<lparr>ss_reasoning := [], ss_yielded := 0, ss_limit_emitted := ss_limit_emitted st \<or> ss_limit st,
                   ss_usage_emitted := ss_usage_emitted st \<or> u \<noteq> None\<rparr> in
      emit (Some (mark_output_limit (ss_limit st) (stream_message env (ch_id c) contents st1)), u) st1)"

definition take_text :: "string option \<Rightarrow> decoder_state \<Rightarrow> string \<times> decoder_state" where
  "take_text t st =
     (case t of
        None \<Rightarrow> ([], st)
      | Some s \<Rightarrow>
          (case filter_push s (ss_filter st) of
             (tf, out) \<Rightarrow>
               (fo_content out,
                st\<lparr>ss_filter := tf,
                   ss_pending := (if ss_structured st then ss_pending st else ss_pending st @ fo_thinking out)\<rparr>)))"

definition answer_content :: "delta \<Rightarrow> decoder_state \<Rightarrow> message_content_block list \<times> decoder_state" where
  "answer_content d st =
     (let reasoning = (case reasoning_text d of
                         Some r \<Rightarrow> [thinking_block r (unwrap_or (ss_signature st) [])] | None \<Rightarrow> []);
          st1 = (if reasoning_text d = None then st else st\<lparr>ss_yielded := length (ss_reasoning st)\<rparr>) in
      case extract_content_and_signature (de_content d) of
        (t, sig) \<Rightarrow>
          (case take_text t (st1\<lparr>ss_signature := or_else sig (ss_signature st1)\<rparr>) of
             (visible, st2) \<Rightarrow> (reasoning @ (if visible = [] then [] else [text_block visible]), st2)))"

definition answer_chunk ::
    "response_env \<Rightarrow> streaming_chunk \<Rightarrow> streaming_choice \<Rightarrow> provider_usage option \<Rightarrow> decoder_state \<Rightarrow> decoder_state" where
  "answer_chunk env c choice u st =
     (case answer_content (sc_delta choice) st of
        (content, st1) \<Rightarrow>
          (let final_usage = (if sc_finish_reason choice = None then None else u) in
           if content \<noteq> []
           then emit (Some (stream_message env (ch_id c) content st1), final_usage)
                  (st1\<lparr>ss_usage_emitted := ss_usage_emitted st1 \<or> final_usage \<noteq> None\<rparr>)
           else if u \<noteq> None then emit (None, u) (st1\<lparr>ss_usage_emitted := True\<rparr>)
           else st1))"

definition deliver_trailing :: "response_env \<Rightarrow> decoder_state \<Rightarrow> decoder_state" where
  "deliver_trailing env st =
     (let out = filter_finish (ss_filter st);
          trailing = (if ss_structured st then [] else ss_pending st @ fo_thinking out);
          blocks = text_and_thinking (fo_content out) trailing;
          mark = (ss_limit st \<and> \<not> ss_limit_emitted st);
          st1 = st\<lparr>ss_pending := []\<rparr> in
      if blocks = [] then st1
      else emit (Some (mark_output_limit mark (stream_message env (ss_response_id st) blocks st1)), None)
             (st1\<lparr>ss_limit_emitted := ss_limit_emitted st1 \<or> mark\<rparr>))"

definition output_token_limit_marker :: "response_env \<Rightarrow> string option \<Rightarrow> decoder_state \<Rightarrow> message" where
  "output_token_limit_marker env i st = mark_output_limit True (stream_message env i [] st)"

definition deliver_marker :: "response_env \<Rightarrow> decoder_state \<Rightarrow> decoder_state" where
  "deliver_marker env st =
     (if ss_limit st \<and> \<not> ss_limit_emitted st
      then emit (Some (output_token_limit_marker env (ss_response_id st) st), None) st else st)"

definition deliver_usage :: "decoder_state \<Rightarrow> decoder_state" where
  "deliver_usage st =
     (if \<not> ss_usage_emitted st \<and> (ss_response_id st \<noteq> None \<or> ss_finish_reason st \<noteq> None)
      then emit (None, Some ((provider_usage_new (unwrap_or (ss_model st) ''unknown'') (usage_new None None None))
             \<lparr>pu_response_id := ss_response_id st,
              pu_finish_reasons := map_option (\<lambda>r. [r]) (ss_finish_reason st)\<rparr>)) st
      else st)"

definition finish_decoder :: "response_env \<Rightarrow> decoder_state \<Rightarrow> decoder_state" where
  "finish_decoder env st = deliver_usage (deliver_marker env (deliver_trailing env st))"

definition take_chunk_head :: "streaming_chunk \<Rightarrow> decoder_state \<Rightarrow> decoder_state" where
  "take_chunk_head c st =
     (let st1 = see_chunk c st;
          st2 = (case ch_choices c of choice # _ \<Rightarrow> see_reasoning (sc_delta choice) st1 | [] \<Rightarrow> st1) in
      st2\<lparr>ss_limit := ss_limit st2 \<or> ss_finish_reason st2 = Some ''length''\<rparr>)"

text \<open>The calls of a frame that ends them need no more frames.\<close>

definition collect_calls ::
    "response_env \<Rightarrow> streaming_choice \<Rightarrow> stream_line list \<Rightarrow> provider_usage option \<Rightarrow> decoder_state \<Rightarrow> gathered" where
  "collect_calls env choice ls u st =
     (let calls = start_calls (delta_calls (sc_delta choice)) in
      if sc_finish_reason choice = Some ''tool_calls'' \<or> sc_finish_reason choice = Some ''length''
      then Gathered calls u st ls else gather_calls env ls calls u st)"

lemma collect_calls_rest: "collect_calls env choice ls u st = Gathered calls1 u1 st1 rest \<Longrightarrow> length rest \<le> length ls"
  by (auto simp: collect_calls_def Let_def dest: gather_calls_rest split: if_splits)

datatype frame_outcome = Continue "stream_line list" decoder_state | EndOfStream decoder_state | Failed decoder_state stream_error

definition take_frame :: "response_env \<Rightarrow> streaming_chunk \<Rightarrow> stream_line list \<Rightarrow> decoder_state \<Rightarrow> frame_outcome" where
  "take_frame env c ls st =
     (let st1 = take_chunk_head c st; u = chunk_usage env c st1 in
      case ch_choices c of
        [] \<Rightarrow> Continue ls (emit (None, u) (st1\<lparr>ss_usage_emitted := ss_usage_emitted st1 \<or> u \<noteq> None\<rparr>))
      | choice # _ \<Rightarrow>
          if delta_calls (sc_delta choice) \<noteq> []
          then (case collect_calls env choice ls u st1 of
                  Gathered calls u1 st2 rest \<Rightarrow>
                    Continue rest (deliver_calls env c calls u1 (flush_inline env (ch_id c) st2))
                | GatherDone st2 \<Rightarrow> EndOfStream st2
                | GatherFailed st2 e \<Rightarrow> Failed st2 e)
          else if de_content (sc_delta choice) \<noteq> None \<or> reasoning_text (sc_delta choice) \<noteq> None
          then Continue ls (answer_chunk env c choice u st1)
          else if u \<noteq> None
          then Continue ls (emit (None, u) (st1\<lparr>ss_usage_emitted := True\<rparr>))
          else Continue ls st1)"

lemma take_frame_rest: "take_frame env c ls st = Continue rest st1 \<Longrightarrow> length rest \<le> length ls"
  by (auto simp: take_frame_def Let_def split: list.splits if_splits gathered.splits dest: collect_calls_rest)

text \<open>The state in which the loop ends, and the error it ends with if it fails.\<close>

function stream_loop :: "response_env \<Rightarrow> stream_line list \<Rightarrow> decoder_state \<Rightarrow> decoder_state \<times> stream_error option" where
  "stream_loop env [] st = (st, None)"
| "stream_loop env (l # ls) st =
     (case read_line env True l of
        LineSkipped \<Rightarrow> stream_loop env ls st
      | StreamDone \<Rightarrow> (st, None)
      | LineFailed e \<Rightarrow> (st, Some e)
      | Frame c \<Rightarrow>
          (case take_frame env c ls st of
             Continue rest st1 \<Rightarrow> stream_loop env rest st1
           | EndOfStream st1 \<Rightarrow> (st1, None)
           | Failed st1 e \<Rightarrow> (st1, Some e)))"
  by pat_completeness auto
termination
  by (relation "measure (\<lambda>(env, ls, st). length ls)") (auto simp: less_Suc_eq_le dest!: take_frame_rest)

declare stream_loop.simps [simp del]

definition response_to_streaming_message :: "response_env \<Rightarrow> stream_line list \<Rightarrow> (stream_error + decoded_item) list" where
  "response_to_streaming_message env ls =
     (case stream_loop env ls decoder_start of
        (st, None) \<Rightarrow> map Inr (ss_out (finish_decoder env st))
      | (st, Some e) \<Rightarrow> map Inr (ss_out st) @ [Inl e])"

subsection \<open>Answers that were cut off\<close>

text \<open>The frames of a stream, up to its end or the first line that fails.\<close>

fun frames_read :: "response_env \<Rightarrow> stream_line list \<Rightarrow> streaming_chunk list" where
  "frames_read env [] = []"
| "frames_read env (l # ls) =
     (case read_line env True l of
        LineSkipped \<Rightarrow> frames_read env ls
      | Frame c \<Rightarrow> c # frames_read env ls
      | _ \<Rightarrow> [])"

definition cut_off :: "message \<Rightarrow> bool" where
  "cut_off m \<longleftrightarrow> md_output_token_limit_reached (m_metadata m)"

definition nothing_executable :: "message \<Rightarrow> bool" where
  "nothing_executable m \<longleftrightarrow> (\<forall>r. ToolRequest r \<in> set (m_content m) \<longrightarrow> \<not> is_ok (tr_tool_call r))"

definition stops :: "streaming_chunk \<Rightarrow> bool" where
  "stops c \<longleftrightarrow> chunk_finish_reason c = Some ''length''"

definition marks_ok :: "decoder_state \<Rightarrow> bool" where
  "marks_ok st \<longleftrightarrow>
     (\<forall>m u. (Some m, u) \<in> set (ss_out st) \<longrightarrow> cut_off m \<longrightarrow> nothing_executable m)
     \<and> (ss_limit_emitted st \<longleftrightarrow> (\<exists>m u. (Some m, u) \<in> set (ss_out st) \<and> cut_off m))
     \<and> (ss_limit_emitted st \<longrightarrow> ss_limit st)
     \<and> (ss_finish_reason st = Some ''length'' \<longrightarrow> ss_limit st)"

lemma emit_simps [simp]:
  "ss_out (emit x st) = ss_out st @ [x]" "ss_limit (emit x st) = ss_limit st"
  "ss_limit_emitted (emit x st) = ss_limit_emitted st" "ss_finish_reason (emit x st) = ss_finish_reason st"
  "ss_filter (emit x st) = ss_filter st" "ss_structured (emit x st) = ss_structured st"
  "ss_pending (emit x st) = ss_pending st" "ss_reasoning (emit x st) = ss_reasoning st"
  by (simp_all add: emit_def)

lemma see_reasoning_simps [simp]:
  "ss_out (see_reasoning d st) = ss_out st" "ss_limit (see_reasoning d st) = ss_limit st"
  "ss_limit_emitted (see_reasoning d st) = ss_limit_emitted st"
  "ss_finish_reason (see_reasoning d st) = ss_finish_reason st"
  "ss_filter (see_reasoning d st) = ss_filter st"
  by (simp_all add: see_reasoning_def Let_def split: option.split)

lemma see_chunk_simps [simp]:
  "ss_out (see_chunk c st) = ss_out st" "ss_limit (see_chunk c st) = ss_limit st"
  "ss_limit_emitted (see_chunk c st) = ss_limit_emitted st"
  "ss_finish_reason (see_chunk c st) = or_else (chunk_finish_reason c) (ss_finish_reason st)"
  "ss_filter (see_chunk c st) = ss_filter st"
  by (simp_all add: see_chunk_def)

lemma message_simps [simp]:
  "\<not> cut_off (stream_message env i content st)" "m_content (stream_message env i content st) = content"
  "cut_off (mark_output_limit b m) = b" "m_content (mark_output_limit b m) = m_content m"
  by (simp_all add: cut_off_def stream_message_def message_new_def mark_output_limit_def metadata_default_def)

lemma no_requests [simp]:
  "ToolRequest r \<notin> set (text_and_thinking t thinking)" "ToolRequest r \<noteq> text_block t" "ToolRequest r \<noteq> thinking_block t s"
  by (simp_all add: text_and_thinking_def text_block_def thinking_block_def)

lemma marks_head: "marks_ok st \<Longrightarrow> marks_ok (take_chunk_head c st) \<and> ss_limit (take_chunk_head c st) = (ss_limit st \<or> stops c)"
  by (auto simp: marks_ok_def take_chunk_head_def Let_def stops_def or_else_def split: list.split option.splits)

lemma marks_gather:
  assumes "marks_ok st" "gather_chunk env c calls u st = (calls1, u1, st1, finished)"
  shows "marks_ok st1 \<and> ss_limit st1 = (ss_limit st \<or> stops c)"
proof (cases "ch_choices c")
  case Nil
  with assms(2) have "st1 = see_chunk c st" by (simp add: gather_chunk_def Let_def)
  with assms(1) Nil show ?thesis by (auto simp: marks_ok_def stops_def chunk_finish_reason_def or_else_def)
next
  case (Cons choice cs)
  define st2 where "st2 = see_chunk c st"
  from assms(2) Cons have "st1 = see_reasoning (sc_delta choice)
      (st2\<lparr>ss_limit := ss_limit st2 \<or> sc_finish_reason choice = Some ''length''\<rparr>)"
    by (simp add: gather_chunk_def Let_def st2_def)
  with assms(1) Cons show ?thesis
    by (cases "sc_finish_reason choice") (auto simp: marks_ok_def stops_def chunk_finish_reason_def or_else_def st2_def)
qed

lemma marks_emit: "marks_ok st \<Longrightarrow> \<not> (\<exists>m. fst x = Some m \<and> cut_off m) \<Longrightarrow> marks_ok (emit x st)"
  by (cases x) (auto simp: marks_ok_def)

lemma marks_same:
  "marks_ok st \<Longrightarrow> ss_out st1 = ss_out st \<Longrightarrow> ss_limit st1 = ss_limit st \<Longrightarrow> ss_limit_emitted st1 = ss_limit_emitted st
     \<Longrightarrow> ss_finish_reason st1 = ss_finish_reason st \<Longrightarrow> marks_ok st1"
  by (simp add: marks_ok_def)

lemma marks_flush: "marks_ok st \<Longrightarrow> marks_ok (flush_inline env i st) \<and> ss_limit (flush_inline env i st) = ss_limit st"
  by (auto simp: flush_inline_def Let_def split: prod.split intro!: marks_emit elim!: marks_same)

lemma take_text_keeps:
  "take_text t st = (v, st1) \<Longrightarrow> ss_out st1 = ss_out st \<and> ss_limit st1 = ss_limit st
     \<and> ss_limit_emitted st1 = ss_limit_emitted st \<and> ss_finish_reason st1 = ss_finish_reason st"
  by (auto simp: take_text_def split: option.splits prod.splits)

lemma answer_content_keeps:
  "answer_content d st = (content, st1) \<Longrightarrow> ss_out st1 = ss_out st \<and> ss_limit st1 = ss_limit st
     \<and> ss_limit_emitted st1 = ss_limit_emitted st \<and> ss_finish_reason st1 = ss_finish_reason st"
  by (auto simp: answer_content_def Let_def dest!: take_text_keeps split: prod.splits if_splits)

lemma marks_answer:
  assumes "marks_ok st"
  shows "marks_ok (answer_chunk env c choice u st) \<and> ss_limit (answer_chunk env c choice u st) = ss_limit st"
proof -
  obtain content st1 where a: "answer_content (sc_delta choice) st = (content, st1)" by fastforce
  with answer_content_keeps marks_same [OF assms] have "marks_ok st1" "ss_limit st1 = ss_limit st" by blast+
  then show ?thesis by (auto simp: answer_chunk_def a Let_def intro!: marks_emit elim: marks_same)
qed

lemma blocked_call: "ToolRequest r = call_block env True sig call \<Longrightarrow> \<not> is_ok (tr_tool_call r)"
  by (cases call) (auto simp: call_block_def tool_request_with_provider_index_def)

lemma marks_deliver: "marks_ok st \<Longrightarrow> marks_ok (deliver_calls env c calls u st) \<and> ss_limit (deliver_calls env c calls u st) = ss_limit st"
  by (auto simp: deliver_calls_def Let_def marks_ok_def nothing_executable_def dest: blocked_call)

lemma inner_line:
  assumes "re_from_str env [] = None"
  shows "read_line env False l = read_line env True l \<or> (\<exists>e. read_line env False l = LineFailed e)"
proof -
  have "\<exists>e. parse_streaming_chunk env [] = Inl e" using assms by (simp add: parse_streaming_chunk_def)
  then show ?thesis by (auto simp: read_line_def split: sum.split option.split)
qed

text \<open>Gathering over the frames alone.\<close>

fun gather_all ::
    "response_env \<Rightarrow> streaming_chunk list \<Rightarrow> tool_call_data \<Rightarrow> provider_usage option \<Rightarrow> decoder_state
       \<Rightarrow> tool_call_data \<times> provider_usage option \<times> decoder_state" where
  "gather_all env [] calls u st = (calls, u, st)"
| "gather_all env (c # cs) calls u st =
     (case gather_chunk env c calls u st of (calls1, u1, st1, _) \<Rightarrow> gather_all env cs calls1 u1 st1)"

definition whole_frames :: "response_env \<Rightarrow> stream_line list \<Rightarrow> bool" where
  "whole_frames env used \<longleftrightarrow> (\<forall>more. frames_read env (used @ more) = frames_read env used @ frames_read env more)"

definition gathers ::
    "response_env \<Rightarrow> stream_line list \<Rightarrow> tool_call_data \<Rightarrow> provider_usage option \<Rightarrow> decoder_state \<Rightarrow> gathered \<Rightarrow> bool" where
  "gathers env ls calls u st g =
     (case g of
        Gathered calls1 u1 st1 rest \<Rightarrow>
          (\<exists>used. ls = used @ rest \<and> whole_frames env used
             \<and> gather_all env (frames_read env used) calls u st = (calls1, u1, st1))
      | GatherDone st1 \<Rightarrow> (\<exists>calls1 u1. gather_all env (frames_read env ls) calls u st = (calls1, u1, st1))
      | GatherFailed st1 e \<Rightarrow> (\<exists>cs calls1 u1. gather_all env cs calls u st = (calls1, u1, st1)))"

lemma gathers_skip:
  assumes "\<And>more. frames_read env (x # more) = frames_read env more" "gathers env ls calls u st g"
  shows "gathers env (x # ls) calls u st g"
proof (cases g)
  case (Gathered calls1 u1 st1 rest)
  with assms(2) obtain used where "ls = used @ rest" "whole_frames env used"
    "gather_all env (frames_read env used) calls u st = (calls1, u1, st1)" by (auto simp: gathers_def)
  with assms(1) show ?thesis
    unfolding gathers_def Gathered by (auto simp: whole_frames_def intro!: exI [of _ "x # used"])
next
  case (GatherFailed st1 e)
  with assms(2) show ?thesis by (simp add: gathers_def)
qed (use assms in \<open>simp add: gathers_def\<close>)

lemma gathers_frame:
  assumes "\<And>more. frames_read env (x # more) = c # frames_read env more"
    and "gather_chunk env c calls u st = (calls1, u1, st1, finished)" "gathers env ls calls1 u1 st1 g"
  shows "gathers env (x # ls) calls u st g"
proof (cases g)
  case (Gathered calls2 u2 st2 rest)
  with assms(3) obtain used where "ls = used @ rest" "whole_frames env used"
    "gather_all env (frames_read env used) calls1 u1 st1 = (calls2, u2, st2)" by (auto simp: gathers_def)
  with assms(1,2) show ?thesis
    unfolding gathers_def Gathered by (auto simp: whole_frames_def intro!: exI [of _ "x # used"])
next
  case (GatherFailed st2 e)
  with assms(3) obtain cs calls2 u2 where "gather_all env cs calls1 u1 st1 = (calls2, u2, st2)" by (auto simp: gathers_def)
  with assms(2) have "gather_all env (c # cs) calls u st = (calls2, u2, st2)" by simp
  with GatherFailed show ?thesis by (simp only: gathers_def gathered.case) blast
qed (use assms in \<open>simp add: gathers_def\<close>)

lemma gathers_last: "gathers env ls calls u st (Gathered calls u st ls)"
  by (auto simp: gathers_def whole_frames_def intro!: exI [of _ "[]"])

lemma gather_calls_frames:
  assumes "re_from_str env [] = None"
  shows "gathers env ls calls u st (gather_calls env ls calls u st)"
proof (induction ls arbitrary: calls u st)
  case (Cons l ls)
  show ?case
  proof (cases "read_line env False l")
    case LineSkipped
    have "read_line env True l = LineSkipped" using inner_line [OF assms, of l] LineSkipped by force
    then have "frames_read env (l # more) = frames_read env more" for more by simp
    with gathers_skip [OF this Cons.IH] LineSkipped show ?thesis by simp
  next
    case StreamDone
    have "read_line env True l = StreamDone" using inner_line [OF assms, of l] StreamDone by force
    then have "frames_read env (l # ls) = []" by simp
    with StreamDone show ?thesis by (simp add: gathers_def)
  next
    case (LineFailed e)
    then show ?thesis by (auto simp: gathers_def intro: exI [of _ "[]"])
  next
    case (Frame c)
    have "read_line env True l = Frame c" using inner_line [OF assms, of l] Frame by force
    then have f: "frames_read env (l # more) = c # frames_read env more" for more by simp
    obtain calls1 u1 st1 finished where g: "gather_chunk env c calls u st = (calls1, u1, st1, finished)"
      by (cases "gather_chunk env c calls u st") auto
    from gathers_frame [OF f g] show ?thesis
      using Frame g Cons.IH [of calls1 u1 st1] gathers_last [of env ls calls1 u1 st1] by (simp split: if_split)
  qed
qed (simp add: gathers_last)

lemma collect_frames:
  assumes "re_from_str env [] = None"
  shows "gathers env ls (start_calls (delta_calls (sc_delta choice))) u st (collect_calls env choice ls u st)"
  using gather_calls_frames [OF assms] gathers_last by (simp add: collect_calls_def Let_def)

lemma marks_gather_all:
  "gather_all env cs calls u st = (calls1, u1, st1) \<Longrightarrow> marks_ok st \<Longrightarrow>
     marks_ok st1 \<and> ss_limit st1 = (ss_limit st \<or> list_ex stops cs)"
proof (induction cs arbitrary: calls u st)
  case (Cons c cs)
  obtain calls2 u2 st2 finished where g: "gather_chunk env c calls u st = (calls2, u2, st2, finished)"
    by (cases "gather_chunk env c calls u st") auto
  from marks_gather [OF Cons.prems(2) g] Cons.prems(1) Cons.IH [of calls2 u2 st2] show ?case by (auto simp: g)
qed simp

lemma marks_frame:
  assumes env: "re_from_str env [] = None" and ok: "marks_ok st"
  shows "case take_frame env c ls st of
      Continue rest st1 \<Rightarrow> marks_ok st1 \<and> (\<exists>used. ls = used @ rest \<and> whole_frames env used
        \<and> ss_limit st1 = (ss_limit st \<or> stops c \<or> list_ex stops (frames_read env used)))
    | EndOfStream st1 \<Rightarrow> marks_ok st1 \<and> ss_limit st1 = (ss_limit st \<or> stops c \<or> list_ex stops (frames_read env ls))
    | Failed st1 e \<Rightarrow> marks_ok st1"
proof -
  define st1 where "st1 = take_chunk_head c st"
  define u where "u = chunk_usage env c st1"
  have ok1: "marks_ok st1" and limit: "ss_limit st1 = (ss_limit st \<or> stops c)"
    using marks_head [OF ok] by (simp_all add: st1_def)
  have stay: "\<exists>used. ls = used @ ls \<and> whole_frames env used
      \<and> ss_limit st1 = (ss_limit st \<or> stops c \<or> list_ex stops (frames_read env used))"
    using limit by (auto simp: whole_frames_def intro: exI [of _ "[]"])
  have sent: "marks_ok (emit (None, u) (st1\<lparr>ss_usage_emitted := b\<rparr>))" for b
    by (rule marks_emit) (simp_all add: marks_same [OF ok1])
  show ?thesis
  proof (cases "ch_choices c")
    case Nil
    then show ?thesis using stay sent by (simp add: take_frame_def Let_def st1_def u_def)
  next
    case (Cons choice cs)
    show ?thesis
    proof (cases "delta_calls (sc_delta choice) = []")
      case True
      then show ?thesis
        using Cons stay sent ok1 marks_answer [OF ok1] by (auto simp: take_frame_def Let_def st1_def u_def)
    next
      case False
      have g: "gathers env ls (start_calls (delta_calls (sc_delta choice))) u st1 (collect_calls env choice ls u st1)"
        by (rule collect_frames [OF env])
      show ?thesis
      proof (cases "collect_calls env choice ls u st1")
        case (Gathered calls1 u1 st2 rest)
        with g obtain used where used: "ls = used @ rest" "whole_frames env used" and all:
          "gather_all env (frames_read env used) (start_calls (delta_calls (sc_delta choice))) u st1 = (calls1, u1, st2)"
          by (auto simp: gathers_def)
        from marks_gather_all [OF all ok1] have ok2: "marks_ok st2" and
          limit2: "ss_limit st2 = (ss_limit st1 \<or> list_ex stops (frames_read env used))" by auto
        define st3 where "st3 = flush_inline env (ch_id c) st2"
        have "marks_ok st3" "ss_limit st3 = ss_limit st2" using marks_flush [OF ok2] by (simp_all add: st3_def)
        with marks_deliver used limit limit2 have "marks_ok (deliver_calls env c calls1 u1 st3)
          \<and> (\<exists>used. ls = used @ rest \<and> whole_frames env used \<and> ss_limit (deliver_calls env c calls1 u1 st3)
             = (ss_limit st \<or> stops c \<or> list_ex stops (frames_read env used)))" by (intro conjI exI [of _ used]) auto
        with Cons False Gathered show ?thesis by (simp add: take_frame_def Let_def st1_def u_def st3_def)
      next
        case (GatherDone st2)
        with g marks_gather_all [OF _ ok1] limit have "marks_ok st2"
          "ss_limit st2 = (ss_limit st \<or> stops c \<or> list_ex stops (frames_read env ls))" by (auto simp: gathers_def)
        with Cons False GatherDone show ?thesis by (simp add: take_frame_def Let_def st1_def u_def)
      next
        case (GatherFailed st2 e)
        with g marks_gather_all [OF _ ok1] have "marks_ok st2" by (auto simp: gathers_def)
        with Cons False GatherFailed show ?thesis by (simp add: take_frame_def Let_def st1_def u_def)
      qed
    qed
  qed
qed

lemma marks_loop:
  "re_from_str env [] = None \<Longrightarrow> marks_ok st \<Longrightarrow> stream_loop env ls st = (st1, err) \<Longrightarrow>
     marks_ok st1 \<and> (err = None \<longrightarrow> ss_limit st1 = (ss_limit st \<or> list_ex stops (frames_read env ls)))"
proof (induction env ls st arbitrary: st1 err rule: stream_loop.induct)
  case (2 env l ls st)
  note loop = "2.prems"(3) [unfolded stream_loop.simps(2)]
  show ?case
  proof (cases "read_line env True l")
    case LineSkipped
    then show ?thesis using "2.IH"(1) "2.prems"(1,2) loop by simp
  next
    case (Frame c)
    show ?thesis
    proof (cases "take_frame env c ls st")
      case (Continue rest st2)
      from marks_frame [OF "2.prems"(1,2), where c = c and ls = ls] Continue obtain used where "marks_ok st2" "ls = used @ rest"
        "whole_frames env used" "ss_limit st2 = (ss_limit st \<or> stops c \<or> list_ex stops (frames_read env used))" by auto
      moreover from loop have "stream_loop env rest st2 = (st1, err)" by (simp add: Frame Continue)
      moreover from \<open>ls = used @ rest\<close> \<open>whole_frames env used\<close> Frame
      have "frames_read env (l # ls) = c # frames_read env used @ frames_read env rest" by (simp add: whole_frames_def)
      ultimately show ?thesis using "2.IH"(2) [OF Frame Continue "2.prems"(1), of st1 err] by auto
    qed (use marks_frame [OF "2.prems"(1,2), where c = c and ls = ls] loop Frame in auto)
  qed (use "2.prems" loop in auto)
qed (auto simp: stream_loop.simps)

lemma marks_start: "marks_ok decoder_start"
  by (simp add: marks_ok_def decoder_start_def)

definition marks_right :: "bool \<Rightarrow> decoder_state \<Rightarrow> bool" where
  "marks_right limit st \<longleftrightarrow>
     (\<forall>m u. (Some m, u) \<in> set (ss_out st) \<longrightarrow> cut_off m \<longrightarrow> nothing_executable m)
     \<and> ((\<exists>m u. (Some m, u) \<in> set (ss_out st) \<and> cut_off m) \<longleftrightarrow> limit)"

lemma marks_trailing: "marks_ok st \<Longrightarrow> marks_ok (deliver_trailing env st) \<and> ss_limit (deliver_trailing env st) = ss_limit st"
  by (auto simp: deliver_trailing_def Let_def marks_ok_def nothing_executable_def)

lemma marks_marker: "marks_ok st \<Longrightarrow> marks_right (ss_limit st) (deliver_marker env st)"
  by (auto simp: deliver_marker_def marks_ok_def marks_right_def nothing_executable_def output_token_limit_marker_def)

lemma marks_usage: "marks_right limit st \<Longrightarrow> marks_right limit (deliver_usage st)"
  by (auto simp: deliver_usage_def marks_right_def)

lemma marks_last: "marks_ok st \<Longrightarrow> marks_right (ss_limit st) (finish_decoder env st)"
  unfolding finish_decoder_def using marks_usage [OF marks_marker [of "deliver_trailing env st" env]] marks_trailing [of st env] by simp

text \<open>Claim C33 (output_limit_reported): when the model reached its output limit, the conversation says so
  and nothing that was cut off is carried out: a message of a stream that ends is marked as cut off
  exactly when a frame named the limit as its reason to finish, and no tool call of a marked message
  can be executed, whatever its arguments look like. It supposes that nothing is not a JSON text.\<close>

theorem output_limit_reported:
  assumes "re_from_str env [] = None" "\<forall>e. Inl e \<notin> set (response_to_streaming_message env ls)"
  shows "((\<exists>m u. Inr (Some m, u) \<in> set (response_to_streaming_message env ls) \<and> cut_off m)
      \<longleftrightarrow> (\<exists>c \<in> set (frames_read env ls). chunk_finish_reason c = Some ''length''))
    \<and> (\<forall>m u. Inr (Some m, u) \<in> set (response_to_streaming_message env ls) \<longrightarrow> cut_off m \<longrightarrow> nothing_executable m)"
proof -
  obtain st err where loop: "stream_loop env ls decoder_start = (st, err)" by fastforce
  with assms(2) have "err = None" by (auto simp: response_to_streaming_message_def split: option.splits)
  with marks_loop [OF assms(1) marks_start loop] have "marks_ok st"
    "ss_limit st = (ss_limit decoder_start \<or> list_ex stops (frames_read env ls))" by auto
  moreover have "\<not> ss_limit decoder_start" by (simp add: decoder_start_def)
  ultimately have limit: "ss_limit st \<longleftrightarrow> (\<exists>c \<in> set (frames_read env ls). chunk_finish_reason c = Some ''length'')"
    by (simp add: list_ex_iff stops_def)
  have "Inr x \<in> set (response_to_streaming_message env ls) \<longleftrightarrow> x \<in> set (ss_out (finish_decoder env st))" for x
    by (auto simp: response_to_streaming_message_def loop \<open>err = None\<close>)
  with marks_last [OF \<open>marks_ok st\<close>, of env] limit show ?thesis by (simp add: marks_right_def)
qed

definition sample_frame :: "string \<Rightarrow> json \<Rightarrow> json" where
  "sample_frame reason d = JObject [(''choices'', JArray [JObject [(''delta'', d), (''finish_reason'', JString reason)]])]"

definition sample_start :: json where
  "sample_start = JObject [(''tool_calls'', JArray [JObject [(''id'', JString ''i''), (''index'', JNumber (PosInt 0)),
     (''function'', JObject [(''name'', JString ''f''), (''arguments'', JString ''{'')])]])]"

definition sample_rest :: json where
  "sample_rest = JObject [(''tool_calls'', JArray [JObject [(''index'', JNumber (PosInt 0)),
     (''function'', JObject [(''arguments'', JString ''}'')])]])]"

definition sample_response_env :: response_env where
  "sample_response_env = \<lparr>
     re_from_str = (\<lambda>s.
       if s = ''s'' then Some (sample_frame [] sample_start)
       else if s = ''r'' then Some (sample_frame ''tool_calls'' sample_rest)
       else if s = ''l'' then Some (sample_frame ''length'' sample_rest)
       else if s = ''{}'' then Some (JObject [])
       else if s = ''b'' then Some (sample_frame ''tool_calls'' (json_set ''content'' (JString ''hi'') sample_start))
       else if s = ''n'' then Some (JObject [(''error'', JNull), (''choices'', JArray [])])
       else if s = ''x'' then Some (sample_frame [] (JObject [(''content'', JString ''<think>a</thi'')]))
       else if s = ''y'' then Some (sample_frame ''stop'' (JObject [(''content'', JString ''nk>b'')])) else None),
     re_to_string = (\<lambda>j. []), re_decode_error = (\<lambda>l. l), re_f64 = (\<lambda>n. 0), re_now = int\<rparr>"

lemma sample_cut_stream:
  "response_to_streaming_message sample_response_env [Inr ''data: s'', Inr ''data: l'', Inr ''data: [DONE]''] =
     [Inr (Some (mark_output_limit True (message_new Assistant 0
         [tool_request_with_provider_index ''i'' (Inl (output_token_limit_tool_error ''f'' ''i'')) None 0])), None),
      Inr (None, Some ((provider_usage_new ''unknown'' (usage_new None None None))\<lparr>pu_finish_reasons := Some [''length'']\<rparr>))]"
  by code_simp

end
