(* ===== verification/OpenAI_Stream.thy ===== *)
theory OpenAI_Stream
  imports OpenAI_Response
begin

section \<open>Streams in the format of OpenAI\<close>

text \<open>
  What the decoder of \<open>OpenAI_Response\<close> delivers over a whole stream: the calls that arrive in pieces,
  and the text and the reasoning compared with those of the same answer sent as a whole.
\<close>

subsection \<open>Calls that arrive in pieces\<close>

definition chunk_calls :: "streaming_chunk \<Rightarrow> delta_tool_call list" where
  "chunk_calls c = (case ch_choices c of [] \<Rightarrow> [] | choice # _ \<Rightarrow> delta_calls (sc_delta choice))"

text \<open>What the frames say of the call with one index: the pieces of its arguments and its last name.\<close>

definition pieces_of :: "i32 \<Rightarrow> delta_tool_call list \<Rightarrow> string" where
  "pieces_of k ts = concat (map dt_arguments (filter (\<lambda>t. dt_index t = Some k) ts))"

definition name_after :: "i32 \<Rightarrow> delta_tool_call list \<Rightarrow> string \<Rightarrow> string" where
  "name_after k ts name =
     last (name # filter_map (\<lambda>t. if dt_index t = Some k then nonempty_str (dt_name t) else None) ts)"

lemma continue_call_lookup:
  assumes "map_of calls k = Some (i, name, args, extra)"
  shows "\<exists>extra1. map_of (continue_call t calls) k =
    Some (i, name_after k [t] name, args @ pieces_of k [t], extra1)"
  using assms
  by (auto simp: continue_call_def name_after_def pieces_of_def nonempty_str_def update_conv'
      split: option.splits if_splits)

lemma continue_calls_lookup:
  assumes "map_of calls k = Some (i, name, args, extra)"
  shows "\<exists>extra1. map_of (fold continue_call ts calls) k = Some (i, name_after k ts name, args @ pieces_of k ts, extra1)"
  using assms
proof (induction ts arbitrary: calls name args extra)
  case (Cons t ts)
  from continue_call_lookup [OF Cons.prems, of t] obtain extra1 where
    "map_of (continue_call t calls) k = Some (i, name_after k [t] name, args @ pieces_of k [t], extra1)" ..
  from Cons.IH [OF this] show ?case by (auto simp: name_after_def pieces_of_def split: option.splits)
qed (simp add: name_after_def pieces_of_def)

lemma gather_all_calls:
  "gather_all env cs calls u st = (calls1, u1, st1) \<Longrightarrow> calls1 = fold continue_call (concat (map chunk_calls cs)) calls"
proof (induction cs arbitrary: calls u st)
  case (Cons c cs)
  obtain calls2 u2 st2 finished where g: "gather_chunk env c calls u st = (calls2, u2, st2, finished)"
    by (cases "gather_chunk env c calls u st") auto
  then have "calls2 = fold continue_call (chunk_calls c) calls"
    by (auto simp: gather_chunk_def chunk_calls_def Let_def split: list.splits)
  with g Cons show ?case by simp
qed simp

text \<open>What was delivered stays delivered.\<close>

lemma out_grows:
  "prefix (ss_out st) (ss_out (emit x st))" "prefix (ss_out st) (ss_out (flush_inline env i st))"
  "prefix (ss_out st) (ss_out (deliver_calls env c calls u st))"
  "ss_out (take_chunk_head c st) = ss_out st"
  by (auto simp: flush_inline_def deliver_calls_def take_chunk_head_def Let_def split: prod.split list.split)

lemma answer_grows: "prefix (ss_out st) (ss_out (answer_chunk env c choice u st))"
proof -
  obtain content st1 where a: "answer_content (sc_delta choice) st = (content, st1)" by fastforce
  with answer_content_keeps have "ss_out st1 = ss_out st" by blast
  then show ?thesis by (simp add: answer_chunk_def a Let_def)
qed

lemma gathered_out: "gather_all env cs calls u st = (calls1, u1, st1) \<Longrightarrow> ss_out st1 = ss_out st"
proof (induction cs arbitrary: calls u st)
  case (Cons c cs)
  obtain calls2 u2 st2 finished where g: "gather_chunk env c calls u st = (calls2, u2, st2, finished)"
    by (cases "gather_chunk env c calls u st") auto
  then have "ss_out st2 = ss_out st" by (auto simp: gather_chunk_def Let_def split: list.splits)
  with g Cons show ?case by simp
qed simp

lemma collected_out:
  assumes "re_from_str env [] = None" "collect_calls env choice ls u st = g"
  shows "case g of Gathered calls1 u1 st1 rest \<Rightarrow> ss_out st1 = ss_out st
    | GatherDone st1 \<Rightarrow> ss_out st1 = ss_out st | GatherFailed st1 e \<Rightarrow> ss_out st1 = ss_out st"
  using collect_frames [OF assms(1), of ls choice u st] assms(2)
  by (auto simp: gathers_def dest: gathered_out split: gathered.splits)

lemma frame_grows:
  assumes "re_from_str env [] = None"
  shows "case take_frame env c ls st of Continue rest st1 \<Rightarrow> prefix (ss_out st) (ss_out st1)
    | EndOfStream st1 \<Rightarrow> prefix (ss_out st) (ss_out st1) | Failed st1 e \<Rightarrow> prefix (ss_out st) (ss_out st1)"
proof (cases "ch_choices c")
  case Nil
  then show ?thesis by (simp add: take_frame_def Let_def out_grows(4))
next
  case (Cons choice cs)
  let ?st = "take_chunk_head c st"
  let ?u = "chunk_usage env c ?st"
  show ?thesis
  proof (cases "delta_calls (sc_delta choice) = []")
    case True
    then show ?thesis
      using Cons answer_grows [of ?st] by (auto simp: take_frame_def Let_def out_grows(4))
  next
    case False
    have "prefix (ss_out ?st) (ss_out (deliver_calls env c calls1 u1 (flush_inline env i st2)))" if "ss_out st2 = ss_out ?st" for calls1 u1 st2 i
      using out_grows(2) [of st2 env i] out_grows(3) [of "flush_inline env i st2" env c calls1 u1] that by (metis prefix_order.trans)
    then show ?thesis
      using Cons False collected_out [OF assms refl, where choice = choice and ls = ls and u = ?u and st = ?st]
      by (auto simp: take_frame_def Let_def out_grows(4) split: gathered.splits)
  qed
qed

lemma loop_grows: "re_from_str env [] = None \<Longrightarrow> prefix (ss_out st) (ss_out (fst (stream_loop env ls st)))"
proof (induction env ls st rule: stream_loop.induct)
  case (2 env l ls st)
  show ?case
  proof (cases "read_line env True l")
    case (Frame c)
    show ?thesis
    proof (cases "take_frame env c ls st")
      case (Continue rest st1)
      with "2.IH"(2) [OF Frame Continue "2.prems"] frame_grows [OF "2.prems", of st c ls] show ?thesis
        by (auto simp: stream_loop.simps Frame Continue intro: prefix_order.trans)
    qed (use Frame frame_grows [OF "2.prems", of st c ls] in \<open>simp_all add: stream_loop.simps\<close>)
  qed (use 2 in \<open>simp_all add: stream_loop.simps\<close>)
qed (simp add: stream_loop.simps)

text \<open>The lines at which the loop of the decoder arrives, with its state there.\<close>

inductive decoder_reaches :: "response_env \<Rightarrow> stream_line list \<Rightarrow> stream_line list \<Rightarrow> decoder_state \<Rightarrow> bool"
  for env all where
  "decoder_reaches env all all decoder_start"
| "decoder_reaches env all (l # ls) st \<Longrightarrow> read_line env True l = LineSkipped \<Longrightarrow> decoder_reaches env all ls st"
| "decoder_reaches env all (l # ls) st \<Longrightarrow> read_line env True l = Frame c \<Longrightarrow> take_frame env c ls st = Continue rest st1
    \<Longrightarrow> decoder_reaches env all rest st1"

lemma reaches_frames:
  assumes "re_from_str env [] = None" "decoder_reaches env all ls st"
  shows "stream_loop env all decoder_start = stream_loop env ls st \<and> marks_ok st
    \<and> (\<exists>cs. frames_read env all = cs @ frames_read env ls \<and> ss_limit st = list_ex stops cs)"
  using assms(2)
proof (induction rule: decoder_reaches.induct)
  case 1
  then show ?case using marks_start by (auto simp: decoder_start_def)
next
  case (2 l ls st)
  then show ?case by (simp add: stream_loop.simps)
next
  case (3 l ls st c rest st1)
  then obtain cs where cs: "frames_read env all = cs @ c # frames_read env ls" "ss_limit st = list_ex stops cs" by auto
  from marks_frame [OF assms(1), where st = st and c = c and ls = ls] 3 obtain used where used: "marks_ok st1" "ls = used @ rest" "whole_frames env used"
    "ss_limit st1 = (ss_limit st \<or> stops c \<or> list_ex stops (frames_read env used))" by auto
  then have "frames_read env all = (cs @ c # frames_read env used) @ frames_read env rest"
    using cs(1) by (simp add: whole_frames_def)
  moreover have "ss_limit st1 = list_ex stops (cs @ c # frames_read env used)" using used(4) cs(2) by auto
  ultimately show ?case using 3 used(1) by (auto simp: stream_loop.simps)
qed

text \<open>The frames behind the first frame with calls, up to the one that finishes them, and the lines that
  are left; none when the stream says that it is done, or fails, before.\<close>

fun frames_to_finish :: "response_env \<Rightarrow> stream_line list \<Rightarrow> (streaming_chunk list \<times> stream_line list) option" where
  "frames_to_finish env [] = Some ([], [])"
| "frames_to_finish env (l # ls) =
     (case read_line env False l of
        LineSkipped \<Rightarrow> frames_to_finish env ls
      | Frame c \<Rightarrow>
          if ch_choices c = [] \<or> chunk_finish_reason c \<noteq> None then Some ([c], ls)
          else map_option (\<lambda>(cs, rest). (c # cs, rest)) (frames_to_finish env ls)
      | _ \<Rightarrow> None)"

definition call_frames :: "response_env \<Rightarrow> streaming_chunk \<Rightarrow> stream_line list \<Rightarrow> (streaming_chunk list \<times> stream_line list) option" where
  "call_frames env c ls = (if chunk_finish_reason c = Some ''tool_calls'' then Some ([], ls) else frames_to_finish env ls)"

lemma gather_to_finish:
  "frames_to_finish env ls = Some (cs, rest) \<Longrightarrow>
     \<exists>u1 st1. gather_calls env ls calls u st = Gathered (fold continue_call (concat (map chunk_calls cs)) calls) u1 st1 rest"
proof (induction ls arbitrary: cs calls u st)
  case (Cons l ls)
  show ?case
  proof (cases "read_line env False l")
    case (Frame c)
    obtain calls2 u2 st2 finished where g: "gather_chunk env c calls u st = (calls2, u2, st2, finished)"
      by (cases "gather_chunk env c calls u st") auto
    then have c: "calls2 = fold continue_call (chunk_calls c) calls"
      "finished \<longleftrightarrow> ch_choices c = [] \<or> chunk_finish_reason c \<noteq> None"
      by (auto simp: gather_chunk_def chunk_calls_def chunk_finish_reason_def Let_def split: list.splits)
    show ?thesis
    proof (cases finished)
      case True
      with Cons.prems Frame g c show ?thesis by auto
    next
      case False
      with Cons.prems Frame c obtain cs' where "frames_to_finish env ls = Some (cs', rest)" "cs = c # cs'" by auto
      with Cons.IH [of cs' calls2 u2 st2] Frame g c(1) False show ?thesis by simp
    qed
  qed (use Cons in auto)
qed simp

text \<open>The calls that the frames send, each with its index: in the first frame the position stands for
  an index that is missing. A call is announced with its identifier and its name; what is sent later
  for its index continues its arguments and may rename it.\<close>

definition numbered_calls :: "delta_tool_call list \<Rightarrow> (i32 option \<times> delta_tool_call) list" where
  "numbered_calls ts = map (\<lambda>(p, t). (Some (unwrap_or (dt_index t) (of_nat p)), t)) (enumerate 0 ts)"

definition later_calls :: "delta_tool_call list \<Rightarrow> (i32 option \<times> delta_tool_call) list" where
  "later_calls ts = map (\<lambda>t. (dt_index t, t)) ts"

definition announces :: "i32 \<Rightarrow> i32 option \<times> delta_tool_call \<Rightarrow> bool" where
  "announces k x \<longleftrightarrow> fst x = Some k \<and> dt_id (snd x) \<noteq> None \<and> dt_name (snd x) \<noteq> None"

definition sent_pieces :: "i32 \<Rightarrow> (i32 option \<times> delta_tool_call) list \<Rightarrow> string" where
  "sent_pieces k xs = concat (map (dt_arguments \<circ> snd) (filter (\<lambda>x. fst x = Some k) xs))"

definition sent_name :: "i32 \<Rightarrow> string \<Rightarrow> (i32 option \<times> delta_tool_call) list \<Rightarrow> string" where
  "sent_name k name xs =
     last (name # filter (\<lambda>n. n \<noteq> []) (filter_map (dt_name \<circ> snd) (filter (\<lambda>x. fst x = Some k) xs)))"

lemma sent_later:
  "sent_pieces k (later_calls ts) = pieces_of k ts" "sent_name k name (later_calls ts) = name_after k ts name"
proof -
  show "sent_pieces k (later_calls ts) = pieces_of k ts"
    by (induction ts) (auto simp: sent_pieces_def later_calls_def pieces_of_def)
  have "filter (\<lambda>n. n \<noteq> []) (filter_map (dt_name \<circ> snd) (filter (\<lambda>x. fst x = Some k) (later_calls ts)))
      = filter_map (\<lambda>t. if dt_index t = Some k then nonempty_str (dt_name t) else None) ts"
    by (induction ts) (auto simp: later_calls_def nonempty_str_def split: option.split)
  then show "sent_name k name (later_calls ts) = name_after k ts name" by (simp add: sent_name_def name_after_def)
qed

lemma sent_skip:
  assumes "\<forall>x \<in> set xs. fst x \<noteq> Some k"
  shows "sent_pieces k (xs @ ys) = sent_pieces k ys" "sent_name k name (xs @ ys) = sent_name k name ys"
  using assms by (simp_all add: sent_pieces_def sent_name_def)

definition call_index :: "nat \<times> delta_tool_call \<Rightarrow> i32" where
  "call_index pt = unwrap_or (dt_index (snd pt)) (of_nat (fst pt))"

lemma start_unannounced:
  "\<forall>pt \<in> set pts. \<not> announces k (Some (call_index pt), snd pt) \<Longrightarrow> map_of (fold start_call pts calls) k = map_of calls k"
proof (induction pts arbitrary: calls)
  case (Cons pt pts)
  then have "map_of (start_call pt calls) k = map_of calls k"
    by (cases pt) (auto simp: start_call_def announces_def call_index_def update_conv' split: option.split)
  with Cons show ?case by simp
qed simp

lemma continue_unannounced:
  "\<not> list_ex (announces k) (later_calls ts) \<Longrightarrow> map_of calls k = None \<Longrightarrow> map_of (fold continue_call ts calls) k = None"
proof (induction ts arbitrary: calls)
  case (Cons t ts)
  then have "map_of (continue_call t calls) k = None"
    by (auto simp: continue_call_def later_calls_def announces_def update_conv' split: option.split)
  with Cons show ?case by (simp add: later_calls_def)
qed simp

lemma joined_calls:
  assumes "numbered_calls first @ later_calls later = before @ (Some k, t) # after"
    and "distinct (map fst (numbered_calls first))" and "dt_id t = Some i" "dt_name t = Some name"
    and "\<not> list_ex (announces k) before"
  shows "\<exists>extra. map_of (fold continue_call later (start_calls first)) k
    = Some (i, sent_name k name after, dt_arguments t @ sent_pieces k after, extra)"
proof -
  have numbered: "numbered_calls first = map (\<lambda>pt. (Some (call_index pt), snd pt)) (enumerate 0 first)"
    by (auto simp: numbered_calls_def call_index_def)
  from assms(1) consider
      us where "numbered_calls first = before @ (Some k, t) # us" "us @ later_calls later = after"
    | us where "before = numbered_calls first @ us" "later_calls later = us @ (Some k, t) # after"
    by (auto simp: append_eq_append_conv2 append_eq_Cons_conv)
  then show ?thesis
  proof cases
    case (1 us)
    obtain b p a where e: "enumerate 0 first = b @ p # a" and p: "call_index p = k" "snd p = t"
      and b: "before = map (\<lambda>pt. (Some (call_index pt), snd pt)) b" and a: "us = map (\<lambda>pt. (Some (call_index pt), snd pt)) a"
      using 1(1) unfolding numbered by (auto simp: map_eq_append_conv)
    have "Some k \<notin> fst ` set us" using assms(2) 1(1) by simp
    then have others: "\<forall>x \<in> set us. fst x \<noteq> Some k" by force
    then have "\<forall>pt \<in> set a. \<not> announces k (Some (call_index pt), snd pt)" by (auto simp: a announces_def)
    from start_unannounced [OF this] have
      "map_of (start_calls first) k = map_of (start_call p (fold start_call b [])) k" by (simp add: start_calls_def e)
    also have "\<dots> = Some (i, name, dt_arguments t, dt_extra t)"
      using p assms(3,4) by (cases p) (simp add: start_call_def call_index_def update_conv')
    finally show ?thesis
      using continue_calls_lookup [of "start_calls first" k i name "dt_arguments t" "dt_extra t" later] others 1(2)
      by (auto simp: sent_skip sent_later)
  next
    case (2 us)
    obtain b a where later: "later = b @ t # a" and b: "us = later_calls b" and a: "after = later_calls a"
      and k: "dt_index t = Some k"
      using 2(2) by (auto simp: later_calls_def map_eq_append_conv map_eq_Cons_conv)
    have "\<forall>pt \<in> set (enumerate 0 first). \<not> announces k (Some (call_index pt), snd pt)"
      using assms(5) 2(1) unfolding numbered by (auto simp: list_ex_iff)
    from start_unannounced [OF this] have "map_of (start_calls first) k = None" by (simp add: start_calls_def)
    from continue_unannounced [OF _ this, of b] assms(5) 2(1) b
    have "map_of (fold continue_call b (start_calls first)) k = None" by simp
    then have "map_of (continue_call t (fold continue_call b (start_calls first))) k = Some (i, name, dt_arguments t, dt_extra t)"
      using k assms(3,4) by (simp add: continue_call_def update_conv')
    from continue_calls_lookup [OF this, of a] show ?thesis by (simp add: later a sent_later)
  qed
qed

lemma finish_grows: "prefix (ss_out st) (ss_out (finish_decoder env st))"
  by (auto simp: finish_decoder_def deliver_usage_def deliver_marker_def deliver_trailing_def Let_def)

lemma delivered_in_stream:
  assumes "x \<in> set (ss_out (fst (stream_loop env ls decoder_start)))"
  shows "Inr x \<in> set (response_to_streaming_message env ls)"
proof -
  obtain st err where loop: "stream_loop env ls decoder_start = (st, err)" by fastforce
  with assms finish_grows [of st env] show ?thesis
    by (cases err) (auto simp: response_to_streaming_message_def dest: set_mono_prefix)
qed

text \<open>Claim C34 (call_pieces_joined): when the decoder comes to a frame with calls, every call that this
  frame, or one of the frames up to the one that finishes the calls, announces with an identifier and
  a name is delivered as a request with that identifier, the last name it was given, and the
  arguments made of all pieces sent for its index from there on, in order and whatever is sent for
  other indices in between. It supposes that no frame of the stream names the output limit, that
  neither \<open>[DONE]\<close> nor an error comes before the finishing frame or the end of the lines
  (\<open>done_drops_calls\<close>), that the calls of the first frame have distinct indices, and that nothing is
  not a JSON text.\<close>

theorem call_pieces_joined:
  assumes "re_from_str env [] = None" and "decoder_reaches env all (l # ls) st"
    and "read_line env True l = Frame c" "chunk_calls c \<noteq> []"
    and "\<forall>f \<in> set (frames_read env all). chunk_finish_reason f \<noteq> Some ''length''"
    and "call_frames env c ls = Some (fs, rest)"
    and "numbered_calls (chunk_calls c) @ later_calls (concat (map chunk_calls fs)) = before @ (Some k, t) # after"
    and "distinct (map fst (numbered_calls (chunk_calls c)))"
    and "dt_id t = Some i" "dt_name t = Some name" and "\<not> list_ex (announces k) before"
  shows "\<exists>m u r. Inr (Some m, u) \<in> set (response_to_streaming_message env all)
    \<and> ToolRequest r \<in> set (m_content m) \<and> tr_id r = i
    \<and> tr_tool_call r = streamed_call env i (sent_name k name after) (dt_arguments t @ sent_pieces k after)"
proof -
  let ?st = "take_chunk_head c st"
  let ?u = "chunk_usage env c ?st" and ?later = "concat (map chunk_calls fs)"
  obtain choice others where choice: "ch_choices c = choice # others" "chunk_calls c = delta_calls (sc_delta choice)"
    using assms(4) by (auto simp: chunk_calls_def split: list.splits)
  from reaches_frames [OF assms(1,2)] obtain cs where loop: "stream_loop env all decoder_start = stream_loop env (l # ls) st"
    and ok: "marks_ok st" and cs: "frames_read env all = cs @ c # frames_read env ls" "ss_limit st = list_ex stops cs"
    using assms(3) by auto
  have calm: "\<not> stops f" if "f \<in> set (frames_read env all)" for f using that assms(5) by (simp add: stops_def)
  have "sc_finish_reason choice \<noteq> Some ''length''"
    using calm [of c] by (simp add: cs(1) stops_def chunk_finish_reason_def choice(1))
  then obtain u1 st1 where g: "collect_calls env choice ls ?u ?st
      = Gathered (fold continue_call ?later (start_calls (chunk_calls c))) u1 st1 rest"
    using assms(6) gather_to_finish [of env ls fs rest "start_calls (chunk_calls c)" ?u ?st]
    by (auto simp: call_frames_def collect_calls_def chunk_finish_reason_def choice Let_def split: if_splits)
  from joined_calls [OF assms(7,8,9,10,11)] obtain extra where
    "map_of (fold continue_call ?later (start_calls (chunk_calls c))) k
      = Some (i, sent_name k name after, dt_arguments t @ sent_pieces k after, extra)" ..
  then have mem: "(k, i, sent_name k name after, dt_arguments t @ sent_pieces k after, extra)
      \<in> set (fold continue_call ?later (start_calls (chunk_calls c)))" by (rule map_of_SomeD)
  from collect_frames [OF assms(1), of ls choice ?u ?st, unfolded g] obtain used calls0 where used: "ls = used @ rest"
    "whole_frames env used" and all: "gather_all env (frames_read env used) calls0 ?u ?st
      = (fold continue_call ?later (start_calls (chunk_calls c)), u1, st1)" by (auto simp: gathers_def)
  have "\<not> ss_limit ?st" using marks_head [OF ok, of c] cs calm by (auto simp: list_ex_iff)
  moreover have "\<not> list_ex stops (frames_read env used)"
    using calm used by (auto simp: cs(1) list_ex_iff whole_frames_def)
  ultimately have "\<not> ss_limit st1" using marks_gather_all [OF all] marks_head [OF ok, of c] by simp
  define st2 where "st2 = flush_inline env (ch_id c) st1"
  have limit: "\<not> ss_limit st2" using \<open>\<not> ss_limit st1\<close> by (simp add: st2_def flush_inline_def Let_def split: prod.split)
  define st3 where "st3 = deliver_calls env c (fold continue_call ?later (start_calls (chunk_calls c))) u1 st2"
  have frame: "take_frame env c ls st = Continue rest st3"
    using assms(4) g by (simp add: take_frame_def choice Let_def st3_def st2_def)
  define block where "block = call_block env False (ss_signature st2)
    (k, i, sent_name k name after, dt_arguments t @ sent_pieces k after, extra)"
  have "\<exists>m u. (Some m, u) \<in> set (ss_out st3) \<and> block \<in> set (m_content m)"
    using mem limit by (auto simp: st3_def deliver_calls_def Let_def block_def)
  moreover have "set (ss_out st3) \<subseteq> set (ss_out (fst (stream_loop env all decoder_start)))"
    using loop_grows [OF assms(1), of st3 rest] by (simp add: loop stream_loop.simps assms(3) frame set_mono_prefix)
  moreover have "\<exists>r. block = ToolRequest r \<and> tr_id r = i
      \<and> tr_tool_call r = streamed_call env i (sent_name k name after) (dt_arguments t @ sent_pieces k after)"
    by (simp add: block_def call_block_def tool_request_with_provider_index_def)
  ultimately show ?thesis using delivered_in_stream by blast
qed

definition sample_joined :: message where
  "sample_joined = message_new Assistant 0 [tool_request_with_provider_index ''i''
     (Inr \<lparr>ctp_name = ''f'', ctp_arguments = Some [], ctp_rest = JNull\<rparr>) None 0]"

lemma sample_call_stream:
  "response_to_streaming_message sample_response_env [Inr ''data: s'', Inr ''data: r'', Inr ''data: [DONE]''] =
     [Inr (Some sample_joined, None),
      Inr (None, Some ((provider_usage_new ''unknown'' (usage_new None None None))\<lparr>pu_finish_reasons := Some [''tool_calls'']\<rparr>))]"
  by code_simp

text \<open>The end of the stream before the frame that finishes the calls drops them; a stream that merely
  ends delivers them.\<close>

lemma done_drops_calls:
  "response_to_streaming_message sample_response_env [Inr ''data: s'', Inr ''data: [DONE]''] = []"
  "map (map_sum id (map_option (\<lambda>m. length (m_content m)) \<circ> fst)) (response_to_streaming_message sample_response_env [Inr ''data: s'']) = [Inr (Some 1)]"
  by code_simp+

text \<open>The text of a frame that also starts a call is not delivered, and a frame with an empty error is one.\<close>

lemma text_beside_call_lost:
  "list_all (\<lambda>item. case item of Inr (Some m, u) \<Rightarrow> list_all (\<lambda>b. as_text b = None) (m_content m) | _ \<Rightarrow> True)
     (response_to_streaming_message sample_response_env [Inr ''data: b'', Inr ''data: [DONE]''])"
  by code_simp

lemma null_error_fails:
  "response_to_streaming_message sample_response_env [Inr ''data: n'', Inr ''data: s''] =
     [Inl (FrameError (ServerError ''Unknown server error''))]"
  by code_simp

text \<open>Two calls, the second one announced in a later frame, with the pieces of both in turn.\<close>

definition sample_part :: "nat \<Rightarrow> string option \<Rightarrow> string \<Rightarrow> json" where
  "sample_part n i args = JObject [(''tool_calls'', JArray [JObject (
     (case i of Some s \<Rightarrow> [(''id'', JString s)] | None \<Rightarrow> []) @ [(''index'', JNumber (PosInt (of_nat n))),
     (''function'', JObject ((case i of Some s \<Rightarrow> [(''name'', JString ''f'')] | None \<Rightarrow> []) @ [(''arguments'', JString args)]))])])]"

definition sample_parallel_env :: response_env where
  "sample_parallel_env = sample_response_env\<lparr>re_from_str := (\<lambda>s.
     if s = ''1'' then Some (sample_frame [] (sample_part 0 (Some ''i'') ''{''))
     else if s = ''2'' then Some (JObject [(''choices'', JArray [JObject [(''delta'', sample_part 1 (Some ''j'') ''{'')]])])
     else if s = ''3'' then Some (JObject [(''choices'', JArray [JObject [(''delta'', sample_part 0 None ''}'')]])])
     else if s = ''4'' then Some (sample_frame ''tool_calls'' (sample_part 1 None ''}''))
     else if s = ''{}'' then Some (JObject []) else None)\<rparr>"

definition sample_parallel :: "stream_line list" where
  "sample_parallel = [Inr ''data: 1'', Inr ''data: 2'', Inr [], Inr ''data: 3'', Inr ''data: 4'', Inr ''data: [DONE]'']"

definition sample_delta :: "nat \<Rightarrow> string option \<Rightarrow> string \<Rightarrow> delta_tool_call" where
  "sample_delta n i args = \<lparr>dt_id = i, dt_name = map_option (\<lambda>_. ''f'') i, dt_arguments = args,
     dt_index = Some (of_nat n), dt_type = None, dt_extra = Some []\<rparr>"

definition sample_delta_chunk :: "string option \<Rightarrow> delta_tool_call \<Rightarrow> streaming_chunk" where
  "sample_delta_chunk reason t = \<lparr>ch_choices = [\<lparr>sc_delta = \<lparr>de_content = None, de_role = None, de_tool_calls = Some [t],
       de_reasoning_details = None, de_reasoning = None, de_reasoning_content = None\<rparr>, sc_index = None, sc_finish_reason = reason\<rparr>],
     ch_created = None, ch_id = None, ch_usage = None, ch_model = None\<rparr>"

theorem call_pieces_joined_witness:
  "\<exists>m u r. Inr (Some m, u) \<in> set (response_to_streaming_message sample_parallel_env sample_parallel)
    \<and> ToolRequest r \<in> set (m_content m) \<and> tr_id r = ''j'' \<and> tr_tool_call r = streamed_call sample_parallel_env ''j'' ''f'' ''{}''"
proof -
  let ?t = "sample_delta 1 (Some ''j'') ''{''"
  let ?c = "sample_delta_chunk None (sample_delta 0 (Some ''i'') ''{'')"
  let ?fs = "[sample_delta_chunk None ?t, sample_delta_chunk None (sample_delta 0 None ''}''),
    sample_delta_chunk (Some ''tool_calls'') (sample_delta 1 None ''}'')]"
  let ?after = "[(Some 0, sample_delta 0 None ''}''), (Some 1, sample_delta 1 None ''}'')]"
  have env: "re_from_str sample_parallel_env [] = None" by code_simp
  have reach: "decoder_reaches sample_parallel_env sample_parallel (Inr ''data: 1'' # tl sample_parallel) decoder_start"
    using decoder_reaches.intros(1) [of sample_parallel_env sample_parallel] by (simp add: sample_parallel_def)
  have line: "read_line sample_parallel_env True (Inr ''data: 1'') = Frame ?c" by code_simp
  have calls: "chunk_calls ?c \<noteq> []" by code_simp
  have limit: "\<forall>f \<in> set (frames_read sample_parallel_env sample_parallel). chunk_finish_reason f \<noteq> Some ''length''" by code_simp
  have frames: "call_frames sample_parallel_env ?c (tl sample_parallel) = Some (?fs, [Inr ''data: [DONE]''])" by code_simp
  have sent: "numbered_calls (chunk_calls ?c) @ later_calls (concat (map chunk_calls ?fs))
      = [(Some 0, sample_delta 0 (Some ''i'') ''{'')] @ (Some 1, ?t) # ?after" by code_simp
  have one: "distinct (map fst (numbered_calls (chunk_calls ?c)))" by code_simp
  have t: "dt_id ?t = Some ''j''" "dt_name ?t = Some ''f''" by code_simp+
  have new: "\<not> list_ex (announces 1) [(Some 0, sample_delta 0 (Some ''i'') ''{'')]" by code_simp
  have joined: "sent_name 1 ''f'' ?after = ''f''" "dt_arguments ?t @ sent_pieces 1 ?after = ''{}''" by code_simp+
  show ?thesis
    using call_pieces_joined [OF env reach line calls limit frames sent one t new] unfolding joined .
qed

theorem output_limit_reported_witness:
  "(\<exists>m u. Inr (Some m, u) \<in> set (response_to_streaming_message sample_response_env [Inr ''data: s'', Inr ''data: l'', Inr ''data: [DONE]''])
     \<and> cut_off m)"
proof -
  have "re_from_str sample_response_env [] = None" by code_simp
  moreover have "\<forall>e. Inl e \<notin> set (response_to_streaming_message sample_response_env [Inr ''data: s'', Inr ''data: l'', Inr ''data: [DONE]''])"
    by (simp add: sample_cut_stream)
  moreover have "list_ex (\<lambda>c. chunk_finish_reason c = Some ''length'')
      (frames_read sample_response_env [Inr ''data: s'', Inr ''data: l'', Inr ''data: [DONE]''])" by code_simp
  ultimately show ?thesis
    using output_limit_reported [of sample_response_env "[Inr ''data: s'', Inr ''data: l'', Inr ''data: [DONE]'']"]
    by (auto simp: list_ex_iff)
qed

subsection \<open>The two decoders agree\<close>

definition chunk_text :: "streaming_chunk \<Rightarrow> string option" where
  "chunk_text c = (case ch_choices c of [] \<Rightarrow> None | choice # _ \<Rightarrow> fst (extract_content_and_signature (de_content (sc_delta choice))))"

definition chunk_reasoning :: "streaming_chunk \<Rightarrow> string option" where
  "chunk_reasoning c = (case ch_choices c of [] \<Rightarrow> None | choice # _ \<Rightarrow> reasoning_text (sc_delta choice))"

definition block_thinking :: "message_content_block \<Rightarrow> string" where
  "block_thinking b = (case b of Thinking t \<Rightarrow> th_thinking t | _ \<Rightarrow> [])"

definition block_text :: "message_content_block \<Rightarrow> string" where
  "block_text b = unwrap_or (as_text b) []"

definition text_of :: "message list \<Rightarrow> string" where
  "text_of ms = concat (map block_text (concat (map m_content ms)))"

definition thinking_of :: "message list \<Rightarrow> string" where
  "thinking_of ms = concat (map block_thinking (concat (map m_content ms)))"

definition delivered :: "decoder_state \<Rightarrow> message list" where
  "delivered st = filter_map fst (ss_out st)"

lemma blocks_simps [simp]:
  "block_text (text_block t) = t" "block_thinking (text_block t) = []"
  "block_text (thinking_block t s) = []" "block_thinking (thinking_block t s) = t"
  by (simp_all add: block_text_def block_thinking_def text_block_def thinking_block_def as_text_def unwrap_or_def text_content_new_def)

lemma of_simps [simp]:
  "text_of (ms @ ns) = text_of ms @ text_of ns" "thinking_of (ms @ ns) = thinking_of ms @ thinking_of ns"
  "text_of [] = []" "thinking_of [] = []"
  "text_of [mark_output_limit b (stream_message env i content st)] = concat (map block_text content)"
  "thinking_of [mark_output_limit b (stream_message env i content st)] = concat (map block_thinking content)"
  "text_of [stream_message env i content st] = concat (map block_text content)"
  "thinking_of [stream_message env i content st] = concat (map block_thinking content)"
  by (simp_all add: text_of_def thinking_of_def)

lemma delivered_emit [simp]: "delivered (emit (Some m, u) st) = delivered st @ [m]" "delivered (emit (None, u) st) = delivered st"
  by (simp_all add: delivered_def)

lemma blocks_text_thinking:
  "concat (map block_text (text_and_thinking t k)) = t" "concat (map block_thinking (text_and_thinking t k)) = k"
  by (simp_all add: text_and_thinking_def)

lemma filter_chunks_snoc:
  "filter_chunks (cs @ [c]) tf = (case filter_chunks cs tf of (tf1, out1) \<Rightarrow>
     (case filter_push c tf1 of (tf2, out2) \<Rightarrow> (tf2, append_out out1 out2)))"
  by (induction cs arbitrary: tf) (auto split: prod.split)

text \<open>The state after frames without calls.\<close>

definition answered :: "streaming_chunk list \<Rightarrow> decoder_state \<Rightarrow> bool" where
  "answered cs st \<longleftrightarrow>
     (case filter_chunks (filter_map chunk_text cs) think_filter_new of
        (tf, out) \<Rightarrow>
          ss_filter st = tf \<and> text_of (delivered st) = fo_content out
          \<and> (ss_structured st \<longleftrightarrow> filter_map chunk_reasoning cs \<noteq> [])
          \<and> thinking_of (delivered st) = concat (filter_map chunk_reasoning cs)
          \<and> (\<not> ss_structured st \<longrightarrow> ss_pending st = fo_thinking out))"

lemma answered_start: "answered [] decoder_start"
  by (simp add: answered_def decoder_start_def delivered_def filter_out_default_def)

lemma reasoning_nonempty: "reasoning_text d = Some r \<Longrightarrow> r \<noteq> []"
  by (auto simp: reasoning_text_def or_else_def nonempty_str_def split: option.splits if_splits Option.bind_splits)

lemma chunk_reasoning_nonempty: "chunk_reasoning c = Some r \<Longrightarrow> r \<noteq> []"
  by (auto simp: chunk_reasoning_def dest: reasoning_nonempty split: list.splits)

lemma head_reasoning:
  "ss_structured (take_chunk_head c st) \<longleftrightarrow> ss_structured st \<or> chunk_reasoning c \<noteq> None"
  "ss_pending (take_chunk_head c st) = (if chunk_reasoning c = None then ss_pending st else [])"
  "ss_filter (take_chunk_head c st) = ss_filter st" "delivered (take_chunk_head c st) = delivered st"
  by (auto simp: take_chunk_head_def see_chunk_def see_reasoning_def chunk_reasoning_def delivered_def Let_def
      dest: reasoning_nonempty split: list.split option.split)

lemma answer_delivers:
  assumes "answer_content (sc_delta choice) st = (content, st1)"
  shows "ss_filter (answer_chunk env c choice u st) = ss_filter st1"
    "ss_structured (answer_chunk env c choice u st) = ss_structured st1"
    "ss_pending (answer_chunk env c choice u st) = ss_pending st1"
    "text_of (delivered (answer_chunk env c choice u st)) = text_of (delivered st1) @ concat (map block_text content)"
    "thinking_of (delivered (answer_chunk env c choice u st)) = thinking_of (delivered st1) @ concat (map block_thinking content)"
proof -
  have d: "delivered (st1\<lparr>ss_usage_emitted := b\<rparr>) = delivered st1" for b by (simp add: delivered_def)
  show "ss_filter (answer_chunk env c choice u st) = ss_filter st1"
    "ss_structured (answer_chunk env c choice u st) = ss_structured st1"
    "ss_pending (answer_chunk env c choice u st) = ss_pending st1"
    "text_of (delivered (answer_chunk env c choice u st)) = text_of (delivered st1) @ concat (map block_text content)"
    "thinking_of (delivered (answer_chunk env c choice u st)) = thinking_of (delivered st1) @ concat (map block_thinking content)"
    by (simp_all add: answer_chunk_def assms Let_def d)
qed

lemma content_delivers:
  assumes "answer_content d st = (content, st1)" "fst (extract_content_and_signature (de_content d)) = t"
  shows "ss_structured st1 = ss_structured st" "delivered st1 = delivered st"
    "concat (map block_thinking content) = unwrap_or (reasoning_text d) []"
    "t = None \<Longrightarrow> ss_filter st1 = ss_filter st \<and> ss_pending st1 = ss_pending st \<and> concat (map block_text content) = []"
    "t = Some s \<Longrightarrow> filter_push s (ss_filter st) = (tf, out) \<Longrightarrow> ss_filter st1 = tf
       \<and> concat (map block_text content) = fo_content out
       \<and> (\<not> ss_structured st \<longrightarrow> ss_pending st1 = ss_pending st @ fo_thinking out)
       \<and> (ss_structured st \<longrightarrow> ss_pending st1 = ss_pending st)"
  using assms
  by (auto simp: answer_content_def take_text_def delivered_def unwrap_or_def Let_def split: prod.splits option.splits if_splits)

lemma answered_step:
  assumes "answered cs st" "ss_structured st1 \<longleftrightarrow> ss_structured st \<or> chunk_reasoning c \<noteq> None"
    and "thinking_of (delivered st1) = thinking_of (delivered st) @ unwrap_or (chunk_reasoning c) []"
    and "chunk_text c = None \<Longrightarrow> ss_filter st1 = ss_filter st \<and> text_of (delivered st1) = text_of (delivered st)
      \<and> (\<not> ss_structured st1 \<longrightarrow> ss_pending st1 = ss_pending st)"
    and "\<And>s tf out. chunk_text c = Some s \<Longrightarrow> filter_push s (ss_filter st) = (tf, out) \<Longrightarrow> ss_filter st1 = tf
      \<and> text_of (delivered st1) = text_of (delivered st) @ fo_content out
      \<and> (\<not> ss_structured st1 \<longrightarrow> ss_pending st1 = ss_pending st @ fo_thinking out)"
  shows "answered (cs @ [c]) st1"
proof -
  obtain tf out where f: "filter_chunks (filter_map chunk_text cs) think_filter_new = (tf, out)" by fastforce
  note old = assms(1) [unfolded answered_def f, simplified]
  have thinking: "thinking_of (delivered st1) = concat (filter_map chunk_reasoning (cs @ [c]))"
    and structured: "ss_structured st1 \<longleftrightarrow> filter_map chunk_reasoning (cs @ [c]) \<noteq> []"
    using old assms(2,3) by (cases "chunk_reasoning c"; simp add: filter_map_append unwrap_or_def)+
  show ?thesis
  proof (cases "chunk_text c")
    case None
    then show ?thesis
      using old assms(2) assms(4) [OF None] thinking structured
      by (simp add: answered_def f filter_map_append)
  next
    case (Some s)
    obtain tf1 out1 where p: "filter_push s tf = (tf1, out1)" by fastforce
    then show ?thesis
      using old assms(2) assms(5) [OF Some, of tf1 out1] thinking structured Some
      by (simp add: answered_def f filter_map_append filter_chunks_snoc append_out_def)
  qed
qed

lemma answered_frame:
  assumes "answered cs st" "chunk_calls c = []"
  shows "\<exists>st1. take_frame env c ls st = Continue ls st1 \<and> answered (cs @ [c]) st1"
proof -
  let ?st = "take_chunk_head c st"
  have quiet: "answered (cs @ [c]) st1"
    if "chunk_text c = None" "chunk_reasoning c = None" "ss_filter st1 = ss_filter ?st" "ss_structured st1 = ss_structured ?st"
      "ss_pending st1 = ss_pending ?st" "delivered st1 = delivered ?st" for st1
    using that by (intro answered_step [OF assms(1)]) (simp_all add: head_reasoning unwrap_or_def)
  have sent: "answered (cs @ [c]) (emit (None, u) (?st\<lparr>ss_usage_emitted := b\<rparr>))"
    if "chunk_text c = None" "chunk_reasoning c = None" for u b
    by (rule quiet [OF that]) (simp_all add: delivered_def emit_def)
  show ?thesis
  proof (cases "ch_choices c")
    case Nil
    then show ?thesis using sent by (simp add: take_frame_def Let_def chunk_text_def chunk_reasoning_def)
  next
    case (Cons choice others)
    let ?d = "sc_delta choice" and ?u = "chunk_usage env c ?st"
    have c: "delta_calls ?d = []" "chunk_text c = fst (extract_content_and_signature (de_content ?d))"
      "chunk_reasoning c = reasoning_text ?d"
      using assms(2) Cons by (simp_all add: chunk_calls_def chunk_text_def chunk_reasoning_def)
    show ?thesis
    proof (cases "de_content ?d = None \<and> reasoning_text ?d = None")
      case True
      then have "chunk_text c = None" "chunk_reasoning c = None"
        by (simp_all add: c extract_content_and_signature_def)
      then show ?thesis using True Cons sent quiet [of ?st] by (auto simp: take_frame_def Let_def c)
    next
      case False
      obtain content st1 where a: "answer_content ?d ?st = (content, st1)" by fastforce
      note content = content_delivers [OF a c(2) [symmetric]]
      have "answered (cs @ [c]) (answer_chunk env c choice ?u ?st)"
      proof (rule answered_step [OF assms(1)])
        fix s tf out assume "chunk_text c = Some s" "filter_push s (ss_filter st) = (tf, out)"
        then show "ss_filter (answer_chunk env c choice ?u ?st) = tf
          \<and> text_of (delivered (answer_chunk env c choice ?u ?st)) = text_of (delivered st) @ fo_content out
          \<and> (\<not> ss_structured (answer_chunk env c choice ?u ?st) \<longrightarrow>
             ss_pending (answer_chunk env c choice ?u ?st) = ss_pending st @ fo_thinking out)"
          using content(5) [of s tf out] by (simp add: answer_delivers [OF a] content(1,2) head_reasoning)
      qed (use content(3,4) in \<open>auto simp: answer_delivers [OF a] content(1,2) head_reasoning c\<close>)
      with False Cons show ?thesis by (simp add: take_frame_def Let_def c)
    qed
  qed
qed

definition text_line :: "response_env \<Rightarrow> stream_line \<Rightarrow> bool" where
  "text_line env l =
     (case read_line env True l of LineSkipped \<Rightarrow> True | Frame c \<Rightarrow> chunk_calls c = [] | _ \<Rightarrow> False)"

lemma answered_loop:
  "list_all (text_line env) ls \<Longrightarrow> tail = [] \<or> read_line env True (hd tail) = StreamDone \<Longrightarrow> answered cs st \<Longrightarrow>
     \<exists>st1. stream_loop env (ls @ tail) st = (st1, None) \<and> answered (cs @ frames_read env ls) st1"
proof (induction ls arbitrary: cs st)
  case Nil
  then show ?case by (cases tail) (auto simp: stream_loop.simps)
next
  case (Cons l ls)
  from Cons.prems(1) consider "read_line env True l = LineSkipped"
    | c where "read_line env True l = Frame c" "chunk_calls c = []" by (auto simp: text_line_def split: line_event.splits)
  then show ?case
  proof cases
    case 1
    with Cons.IH [of cs st] Cons.prems show ?thesis by (simp add: stream_loop.simps)
  next
    case (2 c)
    from answered_frame [OF Cons.prems(3) 2(2), of env "ls @ tail"] obtain st1 where
      "take_frame env c (ls @ tail) st = Continue (ls @ tail) st1" "answered (cs @ [c]) st1" by blast
    with Cons.IH [of "cs @ [c]" st1] Cons.prems(1,2) 2(1) show ?thesis by (simp add: stream_loop.simps)
  qed
qed

lemma usage_delivers: "delivered (deliver_usage st) = delivered st"
  by (simp add: deliver_usage_def)

lemma marker_delivers:
  "text_of (delivered (deliver_marker env st)) = text_of (delivered st)"
  "thinking_of (delivered (deliver_marker env st)) = thinking_of (delivered st)"
  by (simp_all add: deliver_marker_def output_token_limit_marker_def)

lemma trailing_delivers:
  "text_of (delivered (deliver_trailing env st)) = text_of (delivered st) @ fo_content (filter_finish (ss_filter st))"
  "thinking_of (delivered (deliver_trailing env st)) = thinking_of (delivered st)
     @ (if ss_structured st then [] else ss_pending st @ fo_thinking (filter_finish (ss_filter st)))"
proof -
  let ?out = "filter_finish (ss_filter st)"
  define t where "t = (if ss_structured st then [] else ss_pending st @ fo_thinking ?out)"
  have d: "delivered (st\<lparr>ss_pending := p, ss_limit_emitted := b\<rparr>) = delivered st" "delivered (st\<lparr>ss_pending := p\<rparr>) = delivered st" for p b
    by (simp_all add: delivered_def)
  have "text_and_thinking (fo_content ?out) t = [] \<Longrightarrow> fo_content ?out = [] \<and> t = []"
    by (simp add: text_and_thinking_def split: if_splits)
  then show "text_of (delivered (deliver_trailing env st)) = text_of (delivered st) @ fo_content ?out"
    "thinking_of (delivered (deliver_trailing env st)) = thinking_of (delivered st) @ t"
    by (auto simp: deliver_trailing_def Let_def t_def [symmetric] d blocks_text_thinking)
qed

definition whole_answer :: "string \<Rightarrow> string \<Rightarrow> json" where
  "whole_answer content reasoning = JObject [(''choices'', JArray [JObject [(''message'',
     JObject [(''content'', JString content), (''reasoning_content'', JString reasoning)])]])]"

lemma whole_answer_message:
  "\<exists>m. response_to_message env (whole_answer content reasoning) = Inr m
     \<and> text_of [m] = fst (split_think_blocks content)
     \<and> thinking_of [m] = (if reasoning = [] then snd (split_think_blocks content) else reasoning)"
proof -
  obtain cleaned inline where "split_think_blocks content = (cleaned, inline)" by fastforce
  then show ?thesis
    by (simp add: response_to_message_def whole_answer_def first_choice_def json_get_def json_str_def as_str_def Let_def
        response_reasoning_def response_text_def reasoning_value_def text_of_def thinking_of_def message_new_def)
qed

text \<open>Claim C35 (decoders_agree): how an answer is sent does not change what it says. When the lines of
  a stream are frames without tool calls and lines to skip (empty ones, other fields), then its end or
  \<open>[DONE]\<close> and whatever follows, it ends without an error, and its visible text and its reasoning are
  those of the whole answer with the same content and the same reasoning. The text of the frames has
  at most 8 KiB and is cut as claim C29 has it: between characters, and no piece but the last ends in
  the beginning of a think tag that the filter does not recognise.\<close>

theorem decoders_agree:
  assumes "list_all (text_line env) ls" and "tail = [] \<or> read_line env True (hd tail) = StreamDone"
    and "cs = frames_read env ls" and "texts = filter_map chunk_text cs"
    and "good_cuts [] texts" "length (concat texts) \<le> MAX_BUFFERED_THINK_TAG_BYTES"
  shows "\<exists>items m. response_to_streaming_message env (ls @ tail) = map Inr items
    \<and> response_to_message env (whole_answer (concat texts) (concat (filter_map chunk_reasoning cs))) = Inr m
    \<and> text_of (filter_map fst items) = text_of [m] \<and> thinking_of (filter_map fst items) = thinking_of [m]"
proof -
  obtain st where loop: "stream_loop env (ls @ tail) decoder_start = (st, None)" and st: "answered cs st"
    using answered_loop [OF assms(1,2) answered_start] by (auto simp: assms(3))
  obtain tf out where f: "filter_chunks texts think_filter_new = (tf, out)" by fastforce
  then have whole: "append_out out (filter_finish tf) = filter_stream [concat texts]"
    using filter_stream_whole [OF assms(5,6)] by (simp add: filter_stream_def)
  have nonempty: "r \<noteq> []" if "r \<in> set (filter_map chunk_reasoning cs)" for r
    using that by (auto simp: set_filter_map dest: chunk_reasoning_nonempty)
  have none: "filter_map chunk_reasoning cs = [] \<longleftrightarrow> concat (filter_map chunk_reasoning cs) = []"
    using nonempty by (cases "filter_map chunk_reasoning cs") auto
  have st: "ss_filter st = tf" "text_of (delivered st) = fo_content out"
    "ss_structured st \<longleftrightarrow> concat (filter_map chunk_reasoning cs) \<noteq> []"
    "thinking_of (delivered st) = concat (filter_map chunk_reasoning cs)" "\<not> ss_structured st \<longrightarrow> ss_pending st = fo_thinking out"
    using st f none by (simp_all only: answered_def assms(4) prod.case) simp_all
  have whole: "fo_content (filter_stream [concat texts]) = fo_content out @ fo_content (filter_finish tf)"
    "fo_thinking (filter_stream [concat texts]) = fo_thinking out @ fo_thinking (filter_finish tf)"
    by (simp_all flip: whole add: append_out_def)
  have
    "text_of (delivered (finish_decoder env st)) = fo_content (filter_stream [concat texts])"
    "thinking_of (delivered (finish_decoder env st)) = (if concat (filter_map chunk_reasoning cs) = []
       then fo_thinking (filter_stream [concat texts]) else concat (filter_map chunk_reasoning cs))"
    using st unfolding whole by (simp_all only: finish_decoder_def usage_delivers marker_delivers trailing_delivers)
      (auto split: if_split)
  moreover obtain m where "response_to_message env (whole_answer (concat texts) (concat (filter_map chunk_reasoning cs))) = Inr m"
    "text_of [m] = fst (split_think_blocks (concat texts))"
    "thinking_of [m] = (if concat (filter_map chunk_reasoning cs) = [] then snd (split_think_blocks (concat texts))
       else concat (filter_map chunk_reasoning cs))"
    using whole_answer_message by blast
  ultimately show ?thesis
    by (intro exI [of _ "ss_out (finish_decoder env st)"] exI [of _ m])
      (simp add: response_to_streaming_message_def loop split_as_stream delivered_def)
qed

theorem decoders_agree_witness:
  "\<exists>items m. response_to_streaming_message sample_response_env [Inr ''data: x'', Inr [], Inr ''data: y'', Inr ''data: [DONE]''] = map Inr items
    \<and> response_to_message sample_response_env (whole_answer ''<think>a</think>b'' []) = Inr m
    \<and> text_of (filter_map fst items) = text_of [m] \<and> thinking_of (filter_map fst items) = thinking_of [m]"
proof -
  let ?ls = "[Inr ''data: x'', Inr [], Inr ''data: y''] :: stream_line list"
  have lines: "list_all (text_line sample_response_env) ?ls" by code_simp
  have tail: "[Inr ''data: [DONE]''] = [] \<or> read_line sample_response_env True (hd [Inr ''data: [DONE]'']) = StreamDone" by code_simp
  have texts: "filter_map chunk_text (frames_read sample_response_env ?ls) = [''<think>a</thi'', ''nk>b'']"
    "filter_map chunk_reasoning (frames_read sample_response_env ?ls) = []" by code_simp+
  have "good_cuts [] [''<think>a</thi'', ''nk>b'']" by code_simp
  then show ?thesis
    using decoders_agree [OF lines tail refl refl, unfolded texts] by (simp add: MAX_BUFFERED_THINK_TAG_BYTES_def)
qed

end
