(* ===== verification/Provider_Request.thy ===== *)
theory Provider_Request
  imports OpenAI_Stream
begin

section \<open>Requests to a provider\<close>

text \<open>
  The way from a request to the stream the agent reads: \<open>retry.rs\<close> of \<open>crates/goose-provider-types\<close>,
  \<open>http_status.rs\<close> and \<open>openai_compatible.rs\<close> of \<open>crates/goose-providers\<close>. The remote side is a
  parameter: its answer to the n-th attempt, and the outcome of refreshing the credentials. A response
  has its status, the address it came from, its \<open>Retry-After\<close> header, the events of its body and the
  lines that the codec makes of the body. Floating point, the parsers of addresses and dates, the clock
  and the text of a status are fields of \<open>http_env\<close>. Durations are in nanoseconds. The request log and
  a failure to allocate memory are left out.
\<close>

subsection \<open>Reading messages of services\<close>

text \<open>\<open>to_lowercase\<close> as far as it produces ASCII: the two characters outside of ASCII that have a letter
  of it in their lower case are the Kelvin sign and the capital I with a dot.\<close>

fun lowercase_ascii :: "string \<Rightarrow> string" where
  "lowercase_ascii (a # b # c # s) =
     (if [a, b, c] = KELVIN then CHR ''k'' # lowercase_ascii s
      else if a = CHR 0xC4 \<and> b = CHR 0xB0 then CHR ''i'' # CHR 0xCC # CHR 0x87 # lowercase_ascii (c # s)
      else ascii_lower a # lowercase_ascii (b # c # s))"
| "lowercase_ascii [a, b] =
     (if a = CHR 0xC4 \<and> b = CHR 0xB0 then [CHR ''i'', CHR 0xCC, CHR 0x87] else [ascii_lower a, ascii_lower b])"
| "lowercase_ascii [a] = [ascii_lower a]"
| "lowercase_ascii [] = []"

definition mentions :: "string list \<Rightarrow> string \<Rightarrow> bool" where
  "mentions phrases s = list_ex (str_contains s) phrases"

fun alphanumeric_words :: "string \<Rightarrow> string \<Rightarrow> string list" where
  "alphanumeric_words cur [] = [rev cur]"
| "alphanumeric_words cur (c # s) =
     (if is_ascii_alphanumeric c then alphanumeric_words (c # cur) s else rev cur # alphanumeric_words [] s)"

definition DIRECT_CONTEXT_PHRASES :: "string list" where
  "DIRECT_CONTEXT_PHRASES = [''context length'', ''context_length_exceeded'', ''context window'', ''context_window_exceeded'',
     ''context limit'', ''maximum context'', ''max context'', ''maximum prompt length'', ''max prompt length'']"

definition mentions_overflow :: "string \<Rightarrow> bool" where
  "mentions_overflow = mentions [''exceed'', ''too long'', ''too large'', ''over the limit'']"

definition mentions_byte_limit :: "string \<Rightarrow> bool" where
  "mentions_byte_limit s \<longleftrightarrow>
     mentions [''request size'', ''requestsize'', ''request body size'', ''request payload size'', ''payload size'', ''body size''] s
     \<or> mentions [''request body is too large'', ''request body too large'', ''request payload is too large'',
         ''request payload too large'', ''payload is too large'', ''payload too large''] s
     \<or> mentions [''content length'', ''content-length''] s
       \<and> (\<exists>w \<in> set (alphanumeric_words [] s). w \<in> {''request'', ''byte'', ''bytes''})"

definition is_context_length_exceeded_message :: "string \<Rightarrow> bool" where
  "is_context_length_exceeded_message t =
     (let s = lowercase_ascii t in
      mentions DIRECT_CONTEXT_PHRASES s
      \<or> str_contains s ''reduce the length'' \<and> mentions [''message'', ''messages'', ''input'', ''prompt''] s
      \<or> mentions [''input is too long'', ''input too long'', ''prompt is too long'', ''prompt too long''] s
      \<or> mentions_byte_limit s \<and> mentions_overflow s
      \<or> mentions [''input token'', ''input length'', ''prompt token'', ''prompt length'', ''message token'',
            ''messages token'', ''request token'', ''total token''] s
        \<and> mentions [''model limit'', ''model'' @ APOSTROPHE @ ''s limit'', ''maximum allowed'', ''max allowed'',
            ''maximum number of tokens'', ''token limit'', ''tokens limit''] s
        \<and> mentions_overflow s)"

subsection \<open>Failed responses\<close>

record parsed_url =
  url_username :: string
  url_password :: "string option"
  url_query :: "string option"
  url_rest :: string

record http_env =
  he_response :: response_env
  he_parse_url :: "string \<Rightarrow> parsed_url option"
  he_show_url :: "parsed_url \<Rightarrow> string"
  he_show_status :: "nat \<Rightarrow> string"
  he_utf8_lossy :: "string \<Rightarrow> string"
  he_less :: "f64_bits \<Rightarrow> f64_bits \<Rightarrow> bool"
  he_from_secs :: "f64_bits \<Rightarrow> nat"
  he_as_secs :: "nat \<Rightarrow> f64_bits"
  he_rfc2822 :: "string \<Rightarrow> int option"
  he_strptime :: "string \<Rightarrow> string \<Rightarrow> int option"
  he_now :: int

datatype body_event = BodyChunk string | BodyError string | BodyTimeout

record http_response =
  hr_status :: nat
  hr_url :: string
  hr_retry_after :: "string option"
  hr_body :: "body_event list"
  hr_lines :: "stream_line list"

definition sanitize_url :: "http_env \<Rightarrow> string \<Rightarrow> string" where
  "sanitize_url env raw =
     (case he_parse_url env raw of
        None \<Rightarrow> raw
      | Some u \<Rightarrow> he_show_url env (u\<lparr>url_username := [], url_password := None, url_query := None\<rparr>))"

definition json_f64 :: "http_env \<Rightarrow> json \<Rightarrow> f64_bits option" where
  "json_f64 env v = (case v of JNumber n \<Rightarrow> Some (re_f64 (he_response env) n) | _ \<Rightarrow> None)"

definition MAX_RETRY_AFTER_SECS :: f64_bits where
  "MAX_RETRY_AFTER_SECS = 0x40AC200000000000"

definition duration_from_finite_secs :: "http_env \<Rightarrow> f64_bits \<Rightarrow> nat option" where
  "duration_from_finite_secs env secs =
     (if \<not> f64_accepted secs then None
      else Some (he_from_secs env (if he_less env MAX_RETRY_AFTER_SECS secs then MAX_RETRY_AFTER_SECS else secs)))"

definition parse_http_date :: "http_env \<Rightarrow> string \<Rightarrow> int option" where
  "parse_http_date env v =
     (let value = trim v in
      or_else (he_rfc2822 env value)
        (or_else (Option.bind (strip_suffix '' GMT'' value) (he_strptime env ''%A, %d-%b-%y %H:%M:%S''))
           (he_strptime env ''%a %b %e %H:%M:%S %Y'' value)))"

definition parse_retry_after_header :: "http_env \<Rightarrow> string \<Rightarrow> nat option" where
  "parse_retry_after_header env value =
     (case parse_uint 64 value of
        Some secs \<Rightarrow> duration_from_finite_secs env (re_f64 (he_response env) (PosInt (of_nat secs)))
      | None \<Rightarrow>
          Option.bind (parse_http_date env value)
            (\<lambda>target. duration_from_finite_secs env (he_as_secs env (nat (target - he_now env)))))"

definition extract_retry_after :: "http_env \<Rightarrow> string option \<Rightarrow> json option \<Rightarrow> nat option" where
  "extract_retry_after env header payload =
     or_else
       (Option.bind payload (\<lambda>p. Option.bind (json_get ''error'' p) (\<lambda>e. Option.bind (json_get ''metadata'' e) (\<lambda>m.
          Option.bind (json_get ''retry_after_seconds'' m) (\<lambda>v. Option.bind (json_f64 env v) (duration_from_finite_secs env))))))
       (Option.bind header (\<lambda>h. parse_retry_after_header env (trim h)))"

definition is_context_length_exceeded :: "http_env \<Rightarrow> json option \<Rightarrow> string \<Rightarrow> bool" where
  "is_context_length_exceeded env payload msg \<longleftrightarrow>
     (case Option.bind payload (json_get ''error'') of
        Some e \<Rightarrow>
          (case json_str ''code'' e of
             Some code \<Rightarrow> to_ascii_lowercase code = ''context_length_exceeded'' | None \<Rightarrow> False)
          \<or> (case (Option.bind (json_get ''n_prompt_tokens'' e) (json_f64 env), Option.bind (json_get ''n_ctx'' e) (json_f64 env)) of
               (Some prompt_tokens, Some context_limit) \<Rightarrow>
                 he_less env 0 context_limit \<and> he_less env context_limit prompt_tokens
             | _ \<Rightarrow> False)
      | None \<Rightarrow> False)
     \<or> is_context_length_exceeded_message msg"

definition extract_message :: "http_env \<Rightarrow> json option \<Rightarrow> string" where
  "extract_message env payload =
     (case payload of
        None \<Rightarrow> []
      | Some p \<Rightarrow>
          (case Option.bind (or_else (Option.bind (json_get ''error'' p) (json_get ''message'')) (json_get ''message'' p)) as_str of
             Some t \<Rightarrow> t
           | None \<Rightarrow> re_to_string (he_response env) p))"

text \<open>The success status 200 is not an error: the code panics on it, and no caller passes it.\<close>

definition map_http_error_to_provider_error :: "http_env \<Rightarrow> nat \<Rightarrow> json option \<Rightarrow> string \<Rightarrow> provider_error" where
  "map_http_error_to_provider_error env status payload url =
     (let msg = extract_message env payload in
      if status = 401 \<or> status = 403
      then AuthenticationError (''Authentication failed for '' @ url @ ''. Status: '' @ he_show_status env status
             @ ''. Response: '' @ msg)
      else if status = 404 then RequestFailed (''Resource not found (404) at '' @ url @ '': '' @ msg)
      else if status = 402 then CreditsExhaustedError msg None
      else if status = 413 then ContextLengthError msg
      else if status = 400
      then (if is_context_length_exceeded env payload msg then ContextLengthError msg
            else RequestFailed (''Bad request (400): '' @ msg))
      else if status = 429 then RateLimitExceeded msg None
      else if 500 \<le> status \<and> status < 600
      then ServerError (''Server error ('' @ he_show_status env status @ '') at '' @ url @ '': '' @ msg)
      else RequestFailed (''Request failed with status '' @ he_show_status env status @ '' at '' @ url @ '': '' @ msg))"

definition MAX_PROVIDER_JSON_RESPONSE_BYTES :: nat where
  "MAX_PROVIDER_JSON_RESPONSE_BYTES = 16 * 1024 * 1024"

fun read_response_body_with_limit :: "nat \<Rightarrow> string \<Rightarrow> body_event list \<Rightarrow> provider_error + string" where
  "read_response_body_with_limit limit body [] = Inr body"
| "read_response_body_with_limit limit body (BodyChunk chunk # es) =
     (if length chunk > limit - length body
      then Inl (RequestFailed (''Provider response body exceeds the '' @ show_nat limit @ '' byte limit''))
      else read_response_body_with_limit limit (body @ chunk) es)"
| "read_response_body_with_limit limit body (BodyError e # es) =
     Inl (RequestFailed (''Failed to read response body: '' @ e))"
| "read_response_body_with_limit limit body (BodyTimeout # es) =
     Inl (NetworkError (''Response body timed out '' @ [CHR 0xE2, CHR 0x80, CHR 0x94]
       @ '' check your network connection and try again.''))"

definition read_error_body :: "http_env \<Rightarrow> http_response \<Rightarrow> string option" where
  "read_error_body env r =
     map_option (he_utf8_lossy env) (ok (read_response_body_with_limit MAX_PROVIDER_JSON_RESPONSE_BYTES [] (hr_body r)))"

definition read_json_response_with_limit :: "http_env \<Rightarrow> nat \<Rightarrow> http_response \<Rightarrow> provider_error + json" where
  "read_json_response_with_limit env limit r =
     (case read_response_body_with_limit limit [] (hr_body r) of
        Inl e \<Rightarrow> Inl e
      | Inr body \<Rightarrow>
          (case re_from_str (he_response env) body of
             Some v \<Rightarrow> Inr v
           | None \<Rightarrow> Inl (RequestFailed (''Response body is not valid JSON: '' @ re_decode_error (he_response env) body))))"

definition handle_status_with_limit :: "http_env \<Rightarrow> nat \<Rightarrow> http_response \<Rightarrow> provider_error + http_response" where
  "handle_status_with_limit env limit r =
     (if 200 \<le> hr_status r \<and> hr_status r < 300 then Inr r
      else
        let body = (case read_response_body_with_limit limit [] (hr_body r) of Inr b \<Rightarrow> b | Inl e \<Rightarrow> []);
            payload = re_from_str (he_response env) (he_utf8_lossy env body);
            err = map_http_error_to_provider_error env (hr_status r) payload (sanitize_url env (hr_url r)) in
        Inl (case err of
               RateLimitExceeded details _ \<Rightarrow> RateLimitExceeded details (extract_retry_after env (hr_retry_after r) payload)
             | _ \<Rightarrow> err))"

definition handle_status :: "http_env \<Rightarrow> http_response \<Rightarrow> provider_error + http_response" where
  "handle_status env r = handle_status_with_limit env MAX_PROVIDER_JSON_RESPONSE_BYTES r"

definition handle_response :: "http_env \<Rightarrow> http_response \<Rightarrow> provider_error + json" where
  "handle_response env r =
     (case handle_status env r of
        Inl e \<Rightarrow> Inl e
      | Inr r \<Rightarrow> read_json_response_with_limit env MAX_PROVIDER_JSON_RESPONSE_BYTES r)"

subsection \<open>Retries\<close>

record backoff_config =
  rc_max_retries :: nat
  rc_initial_interval_ms :: u64
  rc_backoff_multiplier :: f64_bits
  rc_max_interval_ms :: u64
  rc_transient_only :: bool

definition backoff_config_default :: backoff_config where
  "backoff_config_default =
     \<lparr>rc_max_retries = 3, rc_initial_interval_ms = 1000, rc_backoff_multiplier = 0x4000000000000000,
      rc_max_interval_ms = 30000, rc_transient_only = False\<rparr>"

text \<open>The random number is the one drawn for the attempt.\<close>

record retry_env =
  rv_of_u64 :: "u64 \<Rightarrow> f64_bits"
  rv_to_u64 :: "f64_bits \<Rightarrow> u64"
  rv_mul :: "f64_bits \<Rightarrow> f64_bits \<Rightarrow> f64_bits"
  rv_add :: "f64_bits \<Rightarrow> f64_bits \<Rightarrow> f64_bits"
  rv_powi :: "f64_bits \<Rightarrow> i32 \<Rightarrow> f64_bits"
  rv_random :: "nat \<Rightarrow> f64_bits"
  rv_skip_backoff :: bool

definition delay_for_attempt :: "retry_env \<Rightarrow> backoff_config \<Rightarrow> nat \<Rightarrow> nat" where
  "delay_for_attempt env cfg attempt =
     (if attempt = 0 then 0
      else
        let base = rv_to_u64 env (rv_mul env (rv_of_u64 env (rc_initial_interval_ms cfg))
              (rv_powi env (rc_backoff_multiplier cfg) (of_nat (attempt - 1))));
            capped = min base (rc_max_interval_ms cfg);
            jitter = rv_add env 0x3FE999999999999A (rv_mul env (rv_random env attempt) 0x3FD999999999999A) in
        unat (rv_to_u64 env (rv_mul env (rv_of_u64 env capped) jitter)) * 1000000)"

definition PERMANENT_REQUEST_FAILURE_MARKERS :: "string list" where
  "PERMANENT_REQUEST_FAILURE_MARKERS =
     [''blocks in the latest assistant message cannot be modified'',
      ''must remain as they were in the original response'',
      ''Reasoning is mandatory for this endpoint'']"

definition is_thinking_signature_error :: "string \<Rightarrow> bool" where
  "is_thinking_signature_error msg =
     (let s = lowercase_ascii msg in
      str_contains s ''thinking'' \<and> mentions [''signature'', ''cannot be modified'', ''block_binding''] s)"

definition is_permanent_request_failure :: "string \<Rightarrow> bool" where
  "is_permanent_request_failure msg \<longleftrightarrow> mentions PERMANENT_REQUEST_FAILURE_MARKERS msg \<or> is_thinking_signature_error msg"

definition should_retry :: "provider_error \<Rightarrow> backoff_config \<Rightarrow> bool" where
  "should_retry e cfg =
     (case e of
        RateLimitExceeded _ _ \<Rightarrow> True
      | ServerError _ \<Rightarrow> True
      | NetworkError _ \<Rightarrow> True
      | RequestFailed msg \<Rightarrow> \<not> is_permanent_request_failure msg \<and> \<not> rc_transient_only cfg
      | _ \<Rightarrow> False)"

definition retry_delay_of :: "retry_env \<Rightarrow> backoff_config \<Rightarrow> provider_error \<Rightarrow> nat \<Rightarrow> nat" where
  "retry_delay_of env cfg e attempts =
     (case e of RateLimitExceeded _ (Some d) \<Rightarrow> d | _ \<Rightarrow> delay_for_attempt env cfg attempts)"

text \<open>A run of the loops: the result, the number of calls made and the delays slept.\<close>

type_synonym 'a attempt_run = "(provider_error + 'a) \<times> nat \<times> nat list"

function repeat_operation_from ::
    "retry_env \<Rightarrow> backoff_config \<Rightarrow> (nat \<Rightarrow> provider_error + 'a) \<Rightarrow> nat \<Rightarrow> nat list \<Rightarrow> 'a attempt_run" where
  "repeat_operation_from env cfg operation attempts delays =
     (case operation attempts of
        Inr x \<Rightarrow> (Inr x, attempts + 1, delays)
      | Inl e \<Rightarrow>
          if should_retry e cfg \<and> attempts < rc_max_retries cfg
          then repeat_operation_from env cfg operation (attempts + 1) (delays @ [retry_delay_of env cfg e (attempts + 1)])
          else (Inl e, attempts + 1, delays))"
  by pat_completeness auto
termination
  by (relation "measure (\<lambda>(env, cfg, operation, attempts, delays). rc_max_retries cfg - attempts)") auto

definition repeat_operation :: "retry_env \<Rightarrow> backoff_config \<Rightarrow> (nat \<Rightarrow> provider_error + 'a) \<Rightarrow> 'a attempt_run" where
  "repeat_operation env cfg operation = repeat_operation_from env cfg operation 0 []"

definition is_authentication :: "provider_error \<Rightarrow> bool" where
  "is_authentication e = (case e of AuthenticationError _ \<Rightarrow> True | _ \<Rightarrow> False)"

text \<open>The credentials are refreshed once at most, and refreshing them is not one of the attempts.\<close>

function with_retry_from ::
    "retry_env \<Rightarrow> backoff_config \<Rightarrow> (nat \<Rightarrow> provider_error + 'a) \<Rightarrow> (provider_error + unit)
       \<Rightarrow> nat \<Rightarrow> nat \<Rightarrow> bool \<Rightarrow> nat list \<Rightarrow> 'a attempt_run" where
  "with_retry_from env cfg operation refresh calls attempts auth_retried delays =
     (case operation calls of
        Inr x \<Rightarrow> (Inr x, calls + 1, delays)
      | Inl e \<Rightarrow>
          if is_authentication e \<and> \<not> auth_retried \<and> is_ok refresh
          then with_retry_from env cfg operation refresh (calls + 1) attempts True delays
          else
            let auth_retried' = (auth_retried \<or> is_authentication e) in
            if should_retry e cfg \<and> attempts < rc_max_retries cfg
            then with_retry_from env cfg operation refresh (calls + 1) (attempts + 1) auth_retried'
                   (if rv_skip_backoff env then delays else delays @ [retry_delay_of env cfg e (attempts + 1)])
            else (Inl e, calls + 1, delays))"
  by pat_completeness auto
termination
  by (relation "measure (\<lambda>(env, cfg, operation, refresh, calls, attempts, auth_retried, delays).
        (rc_max_retries cfg - attempts) + (if auth_retried then 0 else 1))") auto

declare repeat_operation_from.simps [simp del] with_retry_from.simps [simp del]

definition with_retry_config ::
    "retry_env \<Rightarrow> backoff_config \<Rightarrow> (nat \<Rightarrow> provider_error + 'a) \<Rightarrow> (provider_error + unit) \<Rightarrow> 'a attempt_run" where
  "with_retry_config env cfg operation refresh = with_retry_from env cfg operation refresh 0 0 False []"

subsection \<open>A chat completion\<close>

definition into_provider_error :: "stream_error \<Rightarrow> provider_error" where
  "into_provider_error e = (case e of FrameError p \<Rightarrow> p | SourceError s \<Rightarrow> stream_decode_error s)"

definition stream_openai_compat :: "http_env \<Rightarrow> http_response \<Rightarrow> stream_item list" where
  "stream_openai_compat env r =
     map (map_sum into_provider_error id) (response_to_streaming_message (he_response env) (hr_lines r))"

definition whole_response :: "http_env \<Rightarrow> string \<Rightarrow> json \<Rightarrow> provider_error + stream_item list" where
  "whole_response env model_name j =
     (case response_to_message (he_response env) j of
        Inl e \<Rightarrow> Inl (RequestFailed (''Failed to parse message: '' @ e))
      | Inr m \<Rightarrow>
          (let usage_json = unwrap_or (json_get ''usage'' j) JNull;
               u = record_response_metadata j (provider_usage_new model_name (get_usage usage_json));
               u1 = (case get_cost (he_response env) usage_json of
                       Some cost \<Rightarrow> with_cost cost ProviderReported u | None \<Rightarrow> u) in
           Inr [Inr (Some m, Some u1)]))"

record compatible_provider =
  op_supports_streaming :: bool
  op_payload :: payload_env
  op_http :: http_env
  op_retry :: retry_env
  op_config :: backoff_config
  op_post :: "json \<Rightarrow> nat \<Rightarrow> provider_error + http_response"
  op_refresh :: "provider_error + unit"

definition stream_payload :: "'a compatible_provider_scheme \<Rightarrow> model_config \<Rightarrow> json \<Rightarrow> provider_error + stream_item list" where
  "stream_payload p mc payload =
     (case fst (with_retry_config (op_retry p) (op_config p)
             (\<lambda>n. case op_post p payload n of Inl e \<Rightarrow> Inl e | Inr r \<Rightarrow> handle_status (op_http p) r) (op_refresh p)) of
        Inl e \<Rightarrow> Inl e
      | Inr r \<Rightarrow>
          if op_supports_streaming p then Inr (stream_openai_compat (op_http p) r)
          else (case read_json_response_with_limit (op_http p) MAX_PROVIDER_JSON_RESPONSE_BYTES r of
                  Inl e \<Rightarrow> Inl e
                | Inr j \<Rightarrow> whole_response (op_http p) (mc_model_name mc) j))"

definition provider_stream ::
    "'a compatible_provider_scheme \<Rightarrow> model_config \<Rightarrow> string \<Rightarrow> message list \<Rightarrow> tool_definition list
       \<Rightarrow> provider_error + stream_item list" where
  "provider_stream p mc sys messages tools =
     (case create_request (op_payload p) mc sys messages tools OpenAiImage (op_supports_streaming p) of
        Inl e \<Rightarrow> Inl (RequestFailed (''Failed to create request: '' @ e))
      | Inr payload \<Rightarrow> stream_payload p mc payload)"

subsection \<open>Attempts\<close>

text \<open>A run that has made its calls so far and was given the right to go on by each of them.\<close>

definition attempts_ok ::
    "backoff_config \<Rightarrow> (nat \<Rightarrow> provider_error + 'a) \<Rightarrow> nat \<Rightarrow> nat \<Rightarrow> bool \<Rightarrow> nat list \<Rightarrow> bool" where
  "attempts_ok cfg operation calls attempts auth_retried delays \<longleftrightarrow>
     (\<forall>n < calls. \<exists>e. operation n = Inl e \<and> (should_retry e cfg \<or> is_authentication e))
     \<and> attempts \<le> calls \<and> calls \<le> attempts + (if auth_retried then 1 else 0) \<and> attempts \<le> rc_max_retries cfg \<and> length delays \<le> attempts"

lemma with_retry_ends:
  "attempts_ok cfg operation calls attempts auth_retried delays \<Longrightarrow>
   with_retry_from env cfg operation refresh calls attempts auth_retried delays = (r, n, ds) \<Longrightarrow>
     r = operation (n - 1) \<and> 0 < n \<and> n \<le> rc_max_retries cfg + 2 \<and> length ds \<le> rc_max_retries cfg
     \<and> (\<forall>k < n - 1. \<exists>e. operation k = Inl e \<and> (should_retry e cfg \<or> is_authentication e))
     \<and> (\<forall>e. r = Inl e \<longrightarrow> should_retry e cfg \<longrightarrow> n \<ge> rc_max_retries cfg + 1)"
proof (induction env cfg operation refresh calls attempts auth_retried delays arbitrary: r n ds rule: with_retry_from.induct)
  case (1 env cfg operation refresh calls attempts auth_retried delays)
  note run = "1.prems"(2) [unfolded with_retry_from.simps [of env cfg operation refresh calls]]
  show ?case
  proof (cases "operation calls")
    case (Inr x)
    with run "1.prems"(1) show ?thesis by (auto simp: attempts_ok_def split: if_splits)
  next
    case (Inl e)
    show ?thesis
    proof (cases "is_authentication e \<and> \<not> auth_retried \<and> is_ok refresh")
      case True
      have "attempts_ok cfg operation (calls + 1) attempts True delays"
        using "1.prems"(1) Inl True by (auto simp: attempts_ok_def less_Suc_eq)
      with "1.IH"(1) [OF Inl True, of r n ds] run Inl True show ?thesis by simp
    next
      case no_auth: False
      show ?thesis
      proof (cases "should_retry e cfg \<and> attempts < rc_max_retries cfg")
        case True
        define delays1 where "delays1 = (if rv_skip_backoff env then delays else delays @ [retry_delay_of env cfg e (attempts + 1)])"
        have "\<not> is_authentication e" using True by (auto simp: should_retry_def is_authentication_def split: provider_error.splits)
        then have ok: "attempts_ok cfg operation (calls + 1) (attempts + 1) (auth_retried \<or> is_authentication e) delays1"
          using "1.prems"(1) Inl True by (auto simp: attempts_ok_def delays1_def less_Suc_eq)
        have "with_retry_from env cfg operation refresh (calls + 1) (attempts + 1) (auth_retried \<or> is_authentication e) delays1 = (r, n, ds)"
          using run Inl no_auth True by (simp add: Let_def delays1_def)
        from "1.IH"(2) [OF Inl no_auth refl True ok [unfolded delays1_def] this [unfolded delays1_def]] show ?thesis .
      next
        case False
        then have "r = Inl e" "n = calls + 1" "ds = delays" using run Inl no_auth by (auto simp: Let_def)
        with "1.prems"(1) Inl False show ?thesis by (auto simp: attempts_ok_def split: if_splits)
      qed
    qed
  qed
qed

text \<open>Claim C36 (retries_limited): a request is sent at least once and at most twice more often than the
  configured number of retries; what the caller gets is the outcome of the last call; every call before
  it failed in a way that allows another, a transient error or an expired credential; and a transient
  error is given up only after all the attempts.\<close>

theorem retries_limited:
  assumes "with_retry_config env cfg operation refresh = (r, n, delays)"
  shows "r = operation (n - 1) \<and> 0 < n \<and> n \<le> rc_max_retries cfg + 2 \<and> length delays \<le> rc_max_retries cfg
    \<and> (\<forall>k < n - 1. \<exists>e. operation k = Inl e \<and> (should_retry e cfg \<or> is_authentication e))
    \<and> (\<forall>e. r = Inl e \<longrightarrow> should_retry e cfg \<longrightarrow> n \<ge> rc_max_retries cfg + 1)"
  using with_retry_ends [of cfg operation 0 0 False "[]"] assms
  by (simp add: attempts_ok_def with_retry_config_def)

definition sample_retry_env :: retry_env where
  "sample_retry_env = \<lparr>rv_of_u64 = (\<lambda>n. n), rv_to_u64 = (\<lambda>b. b), rv_mul = (\<lambda>a b. a), rv_add = (\<lambda>a b. a), rv_powi = (\<lambda>a n. a),
     rv_random = (\<lambda>n. 0), rv_skip_backoff = True\<rparr>"

definition sample_answers :: "nat \<Rightarrow> provider_error + nat" where
  "sample_answers n = (if n = 0 then Inl (AuthenticationError ''expired'') else if n = 1 then Inl (ServerError ''busy'') else Inr n)"

theorem retries_limited_witness:
  "with_retry_config sample_retry_env backoff_config_default sample_answers (Inr ()) = (Inr 2, 3, [])
     \<and> (3::nat) \<le> rc_max_retries backoff_config_default + 2"
proof -
  have "with_retry_config sample_retry_env backoff_config_default sample_answers (Inr ()) = (Inr 2, 3, [])"
    by (simp add: with_retry_config_def sample_answers_def with_retry_from.simps sample_retry_env_def is_authentication_def
        should_retry_def backoff_config_default_def)
  with retries_limited [OF this] show ?thesis by simp
qed

subsection \<open>What a failure becomes\<close>

text \<open>An error that would be the same again is not retried, nor is one that the agent answers itself.\<close>

lemma first_error_final:
  "operation 0 = Inl e \<Longrightarrow> \<not> should_retry e cfg \<Longrightarrow> \<not> is_authentication e \<Longrightarrow>
     with_retry_config env cfg operation refresh = (Inl e, 1, [])"
  by (simp add: with_retry_config_def with_retry_from.simps)

definition context_overflow :: "http_env \<Rightarrow> http_response \<Rightarrow> string option" where
  "context_overflow env r =
     (let body = (case read_response_body_with_limit MAX_PROVIDER_JSON_RESPONSE_BYTES [] (hr_body r) of Inr b \<Rightarrow> b | Inl e \<Rightarrow> []);
          payload = re_from_str (he_response env) (he_utf8_lossy env body); msg = extract_message env payload in
      if hr_status r = 413 \<or> hr_status r = 400 \<and> is_context_length_exceeded env payload msg then Some msg else None)"

lemma overflow_classified: "context_overflow env r = Some msg \<Longrightarrow> handle_status env r = Inl (ContextLengthError msg)"
  by (auto simp: context_overflow_def handle_status_def handle_status_with_limit_def map_http_error_to_provider_error_def Let_def
      split: if_splits)

text \<open>Claim C37 (overflow_reaches_agent): a service that rejects a request because the conversation does not
  fit is asked once only, and the agent learns that it is the length: the error is the one that makes it
  compact the history, with the message of the service.\<close>

theorem overflow_reaches_agent:
  assumes "create_request (op_payload p) mc sys messages tools OpenAiImage (op_supports_streaming p) = Inr payload"
    and "op_post p payload 0 = Inr r" "context_overflow (op_http p) r = Some msg"
  shows "provider_stream p mc sys messages tools = Inl (ContextLengthError msg)
    \<and> error_kind_from (ContextLengthError msg) = ContextLengthExceeded
    \<and> fst (snd (with_retry_config (op_retry p) (op_config p)
        (\<lambda>n. case op_post p payload n of Inl e \<Rightarrow> Inl e | Inr r \<Rightarrow> handle_status (op_http p) r) (op_refresh p))) = 1"
proof -
  have "with_retry_config (op_retry p) (op_config p)
      (\<lambda>n. case op_post p payload n of Inl e \<Rightarrow> Inl e | Inr r \<Rightarrow> handle_status (op_http p) r) (op_refresh p)
    = (Inl (ContextLengthError msg), 1, [])"
    by (rule first_error_final) (simp_all add: assms(2) overflow_classified [OF assms(3)] should_retry_def is_authentication_def)
  then show ?thesis by (simp add: provider_stream_def assms(1) stream_payload_def error_kind_from_def)
qed

text \<open>A delay that a service asks for is at most an hour.\<close>

lemma retry_after_bounded:
  assumes "\<And>b. f64_accepted b \<Longrightarrow> \<not> he_less env MAX_RETRY_AFTER_SECS b \<Longrightarrow> he_from_secs env b \<le> 3600 * 10 ^ 9"
    and "\<not> he_less env MAX_RETRY_AFTER_SECS MAX_RETRY_AFTER_SECS"
    and "handle_status env r = Inl (RateLimitExceeded details (Some d))"
  shows "d \<le> 3600 * 10 ^ 9"
proof -
  have "f64_accepted MAX_RETRY_AFTER_SECS" by code_simp
  then have bound: "duration_from_finite_secs env secs = Some d \<Longrightarrow> d \<le> 3600 * 10 ^ 9" for secs d
    using assms(1,2) by (auto simp: duration_from_finite_secs_def split: if_splits)
  have "parse_retry_after_header env v = Some d \<Longrightarrow> d \<le> 3600 * 10 ^ 9" for v d
    by (auto simp: parse_retry_after_header_def split: option.splits Option.bind_splits dest: bound)
  then have "extract_retry_after env h payload = Some d \<Longrightarrow> d \<le> 3600 * 10 ^ 9" for h payload d
    by (auto simp: extract_retry_after_def or_else_def split: option.splits Option.bind_splits dest: bound)
  with assms(3) show ?thesis
    by (auto simp: handle_status_def handle_status_with_limit_def Let_def split: if_splits provider_error.splits)
qed

text \<open>Whatever way an answer takes, no call of an answer that was cut off is executable.\<close>

lemma whole_answer_blocked:
  assumes "response_to_message env j = Inr m" "cut_off m" shows "nothing_executable m"
proof -
  define limit where "limit = (Option.bind (first_choice j) (json_str ''finish_reason'') = Some ''length'')"
  from assms(1) obtain original where o: "Option.bind (first_choice j) (json_get ''message'') = Some original"
    by (auto simp: response_to_message_def Let_def split: option.splits)
  with assms(1) have "m = mark_output_limit limit (message_new Assistant (re_now env 0)
      (response_reasoning original @ response_text (response_reasoning original \<noteq> []) original
        @ (case json_get ''tool_calls'' original of Some (JArray tcs) \<Rightarrow> map (response_call env limit) tcs | _ \<Rightarrow> [])))"
    unfolding limit_def by (simp add: response_to_message_def Let_def eq_commute [of _ m])
  moreover from this assms(2) have limit by simp
  moreover have "ToolRequest r \<notin> set (response_reasoning original)" "ToolRequest r \<notin> set (response_text b original)" for r b
    by (auto simp: response_reasoning_def response_text_def split: option.splits prod.splits if_splits)
  moreover have "ToolRequest r = response_call env True tc \<Longrightarrow> \<not> is_ok (tr_tool_call r)" for r tc
    by (simp add: response_call_def Let_def tool_request_with_metadata_def)
  ultimately show ?thesis
    by (auto simp: nothing_executable_def message_new_def split: option.splits json.splits)
qed

lemma streamed_answer_blocked:
  assumes "re_from_str env [] = None" "Inr (Some m, u) \<in> set (response_to_streaming_message env ls)" "cut_off m"
  shows "nothing_executable m"
proof -
  obtain st err where loop: "stream_loop env ls decoder_start = (st, err)" by fastforce
  with marks_loop [OF assms(1) marks_start] have "marks_ok st" by blast
  with marks_last [OF this, of env] assms(2,3) show ?thesis
    by (auto simp: response_to_streaming_message_def loop marks_ok_def marks_right_def split: option.splits)
qed

lemma cut_off_calls_blocked:
  assumes "re_from_str (he_response (op_http p)) [] = None" "provider_stream p mc sys messages tools = Inr items"
    "Inr (Some m, u) \<in> set items" "cut_off m"
  shows "nothing_executable m"
proof -
  obtain payload where "stream_payload p mc payload = Inr items"
    using assms(2) by (auto simp: provider_stream_def split: sum.splits)
  then consider r where "items = stream_openai_compat (op_http p) r"
    | j where "whole_response (op_http p) (mc_model_name mc) j = Inr items"
    by (auto simp: stream_payload_def split: sum.splits if_splits)
  then show ?thesis
  proof cases
    case 1
    with assms(3) obtain item where "item \<in> set (response_to_streaming_message (he_response (op_http p)) (hr_lines r))"
      "Inr (Some m, u) = map_sum into_provider_error id item" by (auto simp: stream_openai_compat_def)
    moreover from this(2) have "item = Inr (Some m, u)" by (cases item) auto
    ultimately show ?thesis using streamed_answer_blocked [OF assms(1) _ assms(4)] by blast
  next
    case 2
    with assms(3,4) show ?thesis by (auto simp: whole_response_def Let_def dest: whole_answer_blocked split: sum.splits)
  qed
qed

definition sample_http_env :: http_env where
  "sample_http_env = \<lparr>he_response = sample_response_env, he_parse_url = (\<lambda>s. None), he_show_url = (\<lambda>u. []), he_show_status = show_nat,
     he_utf8_lossy = (\<lambda>s. s), he_less = (\<lambda>a b. a < b), he_from_secs = unat, he_as_secs = of_nat, he_rfc2822 = (\<lambda>s. None),
     he_strptime = (\<lambda>f s. None), he_now = 0\<rparr>"

definition sample_provider :: compatible_provider where
  "sample_provider = \<lparr>op_supports_streaming = True, op_payload = sample_payload_env, op_http = sample_http_env,
     op_retry = sample_retry_env, op_config = backoff_config_default,
     op_post = (\<lambda>j n. Inr \<lparr>hr_status = 413, hr_url = [], hr_retry_after = None, hr_body = [BodyChunk ''{}''], hr_lines = []\<rparr>),
     op_refresh = Inr ()\<rparr>"

theorem overflow_reaches_agent_witness:
  "provider_stream sample_provider sample_model_config ''s'' [message_new User 1 [Text (text_content_new ''hi'')]] []
     = Inl (ContextLengthError [])"
proof -
  have "create_request sample_payload_env sample_model_config ''s'' [message_new User 1 [Text (text_content_new ''hi'')]] []
      OpenAiImage True = Inr sample_payload" by code_simp
  moreover have "read_response_body_with_limit MAX_PROVIDER_JSON_RESPONSE_BYTES [] [BodyChunk ''{}''] = Inr ''{}''"
    by (simp add: MAX_PROVIDER_JSON_RESPONSE_BYTES_def)
  moreover have "re_from_str sample_response_env ''{}'' = Some (JObject [])" by code_simp
  ultimately show ?thesis
    using overflow_reaches_agent [of sample_provider sample_model_config "''s''" "[message_new User 1 [Text (text_content_new ''hi'')]]" "[]"
        sample_payload _ "[]"]
    by (simp add: sample_provider_def context_overflow_def sample_http_env_def extract_message_def json_get_def or_else_def
        sample_response_env_def)
qed

end
