(* ===== verification/Anthropic_Request.thy ===== *)
theory Anthropic_Request
  imports Provider_Request
begin

section \<open>Requests in the format of Anthropic\<close>

text \<open>
  The requests of \<open>formats/anthropic.rs\<close> and the cache breakpoints of \<open>cache_semantics.rs\<close> of
  \<open>crates/goose-provider-types\<close>. The bundled registry of models, the text of an error and the number of
  a temperature are fields of \<open>anthropic_env\<close>.
\<close>

datatype thinking_type = ThinkAdaptive | ThinkEnabled | ThinkDisabled
datatype cache_ttl = FiveMinutes | OneHour
datatype prefix_mismatch_behavior = DropBlock | MismatchError
datatype thinking_mode = ModeEnabled | ModeAdaptive | ModeAlwaysOnAdaptive

record canonical_info =
  cn_thinking_mode :: "thinking_mode option"
  cn_reasoning :: "bool option"
  cn_temperature :: "bool option"

record anthropic_env =
  an_text :: text_env
  an_show_error :: "error_data \<Rightarrow> string"
  an_temperature :: "u32 \<Rightarrow> json"
  an_canonical :: "string \<Rightarrow> string \<Rightarrow> canonical_info option"

record anthropic_options =
  ao_preserve_unsigned_thinking :: bool
  ao_preserve_thinking_context :: bool
  ao_thinking_disabled :: bool
  ao_emit_clear_thinking :: bool
  ao_current_model :: "string option"
  ao_prompt_cache_disabled :: bool
  ao_cache_ttl :: "cache_ttl option"
  ao_prefix_mismatch_behavior :: "prefix_mismatch_behavior option"
  ao_strip_thinking_history :: bool

definition anthropic_options_default :: anthropic_options where
  "anthropic_options_default =
     \<lparr>ao_preserve_unsigned_thinking = False, ao_preserve_thinking_context = False, ao_thinking_disabled = False,
      ao_emit_clear_thinking = False, ao_current_model = None, ao_prompt_cache_disabled = False, ao_cache_ttl = None,
      ao_prefix_mismatch_behavior = None, ao_strip_thinking_history = False\<rparr>"

definition anthropic_options_native :: anthropic_options where
  "anthropic_options_native = anthropic_options_default\<lparr>ao_prefix_mismatch_behavior := Some DropBlock\<rparr>"

definition cache_ttl_from_str :: "string \<Rightarrow> cache_ttl option" where
  "cache_ttl_from_str s =
     (let l = lowercase_ascii s in if l = ''5m'' then Some FiveMinutes else if l = ''1h'' then Some OneHour else None)"

definition prefix_mismatch_from_str :: "string \<Rightarrow> prefix_mismatch_behavior option" where
  "prefix_mismatch_from_str s =
     (let l = lowercase_ascii s in
      if l = ''drop_block'' then Some DropBlock else if l = ''error'' then Some MismatchError else None)"

definition show_prefix_mismatch :: "prefix_mismatch_behavior \<Rightarrow> string" where
  "show_prefix_mismatch b = (case b of DropBlock \<Rightarrow> ''drop_block'' | MismatchError \<Rightarrow> ''error'')"

definition show_effort :: "thinking_effort \<Rightarrow> string" where
  "show_effort e =
     (case e of EffortOff \<Rightarrow> ''off'' | EffortLow \<Rightarrow> ''low'' | EffortMedium \<Rightarrow> ''medium'' | EffortHigh \<Rightarrow> ''high''
      | EffortMax \<Rightarrow> ''max'')"

subsection \<open>Options of a model\<close>

definition request_param :: "(json \<Rightarrow> 'a option) \<Rightarrow> string \<Rightarrow> model_config \<Rightarrow> 'a option" where
  "request_param f k mc = Option.bind (Option.bind (mc_request_params mc) (\<lambda>ps. map_of ps k)) f"

definition prompt_cache_disabled :: "model_config \<Rightarrow> bool" where
  "prompt_cache_disabled mc = unwrap_or (request_param as_bool ''disable_prompt_cache'' mc) False"

definition max_output_tokens :: "model_config \<Rightarrow> i32" where
  "max_output_tokens mc = unwrap_or (mc_max_tokens mc) 4096"

definition options_for_model :: "anthropic_options \<Rightarrow> model_config \<Rightarrow> anthropic_options" where
  "options_for_model o1 mc =
     (let ppc = unwrap_or (request_param as_bool ''preserve_thinking_context'' mc) (ao_preserve_thinking_context o1) in
      \<lparr>ao_preserve_unsigned_thinking =
         (unwrap_or (request_param as_bool ''preserve_unsigned_thinking'' mc) (ao_preserve_unsigned_thinking o1) \<or> ppc),
       ao_preserve_thinking_context = ppc,
       ao_thinking_disabled = (mc_reasoning mc = Some False \<or> thinking_effort_of mc = Some EffortOff),
       ao_emit_clear_thinking = unwrap_or (request_param as_bool ''emit_clear_thinking'' mc) (ao_emit_clear_thinking o1),
       ao_current_model = or_else (ao_current_model o1) (Some (mc_model_name mc)),
       ao_prompt_cache_disabled = prompt_cache_disabled mc,
       ao_cache_ttl = or_else (Option.bind (request_param as_str ''cache_ttl'' mc) cache_ttl_from_str) (ao_cache_ttl o1),
       ao_prefix_mismatch_behavior =
         (case request_param as_str ''prefix_mismatch_behavior'' mc of
            None \<Rightarrow> ao_prefix_mismatch_behavior o1
          | Some v \<Rightarrow>
              if v = ''off'' then None else or_else (prefix_mismatch_from_str v) (ao_prefix_mismatch_behavior o1)),
       ao_strip_thinking_history = ao_strip_thinking_history o1\<rparr>)"

definition cache_control :: "anthropic_options \<Rightarrow> json" where
  "cache_control opts =
     JObject ((''type'', JString ''ephemeral'')
       # (if ao_cache_ttl opts = Some OneHour then [(''ttl'', JString ''1h'')] else []))"

definition thinking_block_is_stale :: "message \<Rightarrow> string option \<Rightarrow> bool" where
  "thinking_block_is_stale m current_model =
     (case (current_model, md_inference (m_metadata m)) of
        (Some current, Some i) \<Rightarrow>
          (let requested = im_requested_model i; resolved = unwrap_or (im_resolved_model i) [] in
           if requested = [] \<and> resolved = [] then False else current \<noteq> requested \<and> current \<noteq> resolved)
      | _ \<Rightarrow> False)"

subsection \<open>Messages\<close>

definition ANTHROPIC_IMAGE_MEDIA_TYPES :: "string list" where
  "ANTHROPIC_IMAGE_MEDIA_TYPES = [''image/jpeg'', ''image/png'', ''image/gif'', ''image/webp'']"

definition base64_item :: "string \<Rightarrow> string \<Rightarrow> string \<Rightarrow> json" where
  "base64_item ty mime data =
     JObject [(''type'', JString ty),
       (''source'', JObject [(''type'', JString ''base64''), (''media_type'', JString mime), (''data'', JString data)])]"

text \<open>What one item of a tool result adds: the blocks, the parts of the text, and whether it is media.\<close>

definition result_part :: "anthropic_env \<Rightarrow> content_block \<Rightarrow> json list \<times> string list \<times> bool" where
  "result_part env c =
     (case c of
        CText t \<Rightarrow> (if tc_text t = [] then [] else [text_item (tc_text t)], [tc_text t], False)
      | CResource r _ _ \<Rightarrow>
          (let as_text = (let t = extract_text_from_resource (an_text env) r in
                 if t = [] then ([], [], False) else ([text_item t], [t], False)) in
           case r of
             BlobResourceContents blob mime_type _ \<Rightarrow>
               (let mime = unwrap_or mime_type [] in
                if mime \<in> set ANTHROPIC_IMAGE_MEDIA_TYPES then ([base64_item ''image'' mime blob], [], True)
                else if mime = ''application/pdf'' then ([base64_item ''document'' mime blob], [], True)
                else as_text)
           | _ \<Rightarrow> as_text)
      | CImage pic \<Rightarrow>
          if ic_mime_type pic \<in> set ANTHROPIC_IMAGE_MEDIA_TYPES then ([convert_image AnthropicImage pic], [], True)
          else (let marker = ''[Image: '' @ ic_mime_type pic @ '']'' in ([text_item marker], [marker], False))
      | _ \<Rightarrow> ([], [], False))"

definition tool_result_item :: "anthropic_env \<Rightarrow> tool_response \<Rightarrow> json" where
  "tool_result_item env response =
     (case ts_tool_result response of
        Inr result \<Rightarrow>
          (let parts = map (result_part env) (ctr_content result) in
           JObject [(''type'', JString ''tool_result''), (''tool_use_id'', JString (ts_id response)),
             (''content'',
                if list_ex (\<lambda>p. snd (snd p)) parts then JArray (concat (map fst parts))
                else JString (join [NL] (concat (map (\<lambda>p. fst (snd p)) parts))))])
      | Inl e \<Rightarrow>
          JObject [(''type'', JString ''tool_result''), (''tool_use_id'', JString (ts_id response)),
            (''content'', JString (''Error: '' @ an_show_error env e)), (''is_error'', JBool True)])"

definition tool_use_item :: "string \<Rightarrow> string \<Rightarrow> json_object \<Rightarrow> json" where
  "tool_use_item i name args =
     JObject [(''type'', JString ''tool_use''), (''id'', JString i), (''name'', JString name), (''input'', JObject args)]"

definition args_to_input_value :: "json_object option \<Rightarrow> json_object" where
  "args_to_input_value args = unwrap_or args []"

definition anthropic_block ::
    "anthropic_env \<Rightarrow> anthropic_options \<Rightarrow> bool \<Rightarrow> role \<Rightarrow> message_content_block \<Rightarrow> json list" where
  "anthropic_block env opts replay r b =
     (case b of
        Text t \<Rightarrow> if trim (tc_text t) = [] then [] else [text_item (tc_text t)]
      | ToolRequest request \<Rightarrow>
          (case tr_tool_call request of
             Inr call \<Rightarrow> [tool_use_item (tr_id request) (ctp_name call) (args_to_input_value (ctp_arguments call))]
           | Inl _ \<Rightarrow> [tool_use_item (tr_id request) ''unparseable_tool_call'' []])
      | ToolResponse response \<Rightarrow> [tool_result_item env response]
      | Thinking t \<Rightarrow>
          if \<not> replay then []
          else if th_signature t \<noteq> []
          then [JObject [(''type'', JString ''thinking''), (''thinking'', JString (th_thinking t)),
                  (''signature'', JString (th_signature t))]]
          else if ao_preserve_unsigned_thinking opts \<and> th_thinking t \<noteq> []
          then [JObject [(''type'', JString ''thinking''), (''thinking'', JString (th_thinking t))]]
          else []
      | RedactedThinking data \<Rightarrow>
          if replay then [JObject [(''type'', JString ''redacted_thinking''), (''data'', JString data)]] else []
      | Image pic \<Rightarrow> [convert_image AnthropicImage pic]
      | Document d \<Rightarrow>
          if r \<noteq> User then [text_item (unsupported_document_text d ASSISTANT_ROLE_REASON)]
          else if document_media_type_is_supported (dc_mime_type d) then [convert_document d AnthropicDocument]
          else [text_item (unsupported_document_text d UNSUPPORTED_MEDIA_TYPE_REASON)]
      | _ \<Rightarrow> [])"

definition anthropic_message :: "anthropic_env \<Rightarrow> anthropic_options \<Rightarrow> message \<Rightarrow> json option" where
  "anthropic_message env opts m =
     (let replay = (\<not> ao_thinking_disabled opts \<and> \<not> ao_strip_thinking_history opts
            \<and> \<not> thinking_block_is_stale m (ao_current_model opts));
          content = concat (map (anthropic_block env opts replay (m_role m)) (m_content m)) in
      if content = [] then None else Some (role_message (role_name (m_role m)) (JArray content)))"

definition mark_last_block :: "json \<Rightarrow> json \<Rightarrow> json option" where
  "mark_last_block cc m =
     (case json_get ''content'' m of
        Some (JArray blocks) \<Rightarrow>
          (case last_opt blocks of
             Some (JObject kvs) \<Rightarrow>
               Some (json_set ''content'' (JArray (butlast blocks @ [json_set ''cache_control'' cc (JObject kvs)])) m)
           | _ \<Rightarrow> None)
      | _ \<Rightarrow> None)"

text \<open>The messages are passed last first.\<close>

fun mark_user_messages :: "json \<Rightarrow> nat \<Rightarrow> json list \<Rightarrow> json list" where
  "mark_user_messages cc n [] = []"
| "mark_user_messages cc n (m # ms) =
     (if \<not> has_role ''user'' m then m # mark_user_messages cc n ms
      else (case mark_last_block cc m of
              None \<Rightarrow> m # mark_user_messages cc n ms
            | Some m1 \<Rightarrow> if n + 1 \<ge> 2 then m1 # ms else m1 # mark_user_messages cc (n + 1) ms))"

definition anthropic_messages :: "anthropic_env \<Rightarrow> anthropic_options \<Rightarrow> message list \<Rightarrow> json list" where
  "anthropic_messages env opts messages =
     (let ms = filter_map (anthropic_message env opts) messages;
          ms1 = (if ms = [] then [role_message ''user'' (JArray [text_item ''Ignore''])] else ms) in
      if ao_prompt_cache_disabled opts then ms1
      else rev (mark_user_messages (cache_control opts) 0 (rev ms1)))"

subsection \<open>Tools and system prompt\<close>

definition anthropic_flavored_input_schema :: "json_object \<Rightarrow> json_object" where
  "anthropic_flavored_input_schema s = (if s = [] then [(''type'', JString ''object'')] else s)"

definition anthropic_tool :: "tool_definition \<Rightarrow> json" where
  "anthropic_tool t =
     JObject [(''name'', JString (tool_name t)),
       (''description'', case td_description t of Some d \<Rightarrow> JString d | None \<Rightarrow> JNull),
       (''input_schema'', JObject (anthropic_flavored_input_schema (td_input_schema t)))]"

fun unique_tools :: "string list \<Rightarrow> tool_definition list \<Rightarrow> tool_definition list" where
  "unique_tools seen [] = []"
| "unique_tools seen (t # ts) =
     (if tool_name t \<in> set seen then unique_tools seen ts else t # unique_tools (tool_name t # seen) ts)"

definition anthropic_tools :: "anthropic_options \<Rightarrow> tool_definition list \<Rightarrow> json list" where
  "anthropic_tools opts tools =
     (let specs = map anthropic_tool (unique_tools [] tools) in
      if ao_prompt_cache_disabled opts \<or> specs = [] then specs
      else butlast specs @ [json_set ''cache_control'' (cache_control opts) (last specs)])"

definition anthropic_system :: "anthropic_options \<Rightarrow> string \<Rightarrow> json list" where
  "anthropic_system opts sys =
     [if ao_prompt_cache_disabled opts then text_item sys
      else json_set ''cache_control'' (cache_control opts) (text_item sys)]"

subsection \<open>Thinking\<close>

definition canonical_field :: "(canonical_info \<Rightarrow> 'a option) \<Rightarrow> anthropic_env \<Rightarrow> string \<Rightarrow> string \<Rightarrow> 'a option" where
  "canonical_field f env provider_name model_name = Option.bind (an_canonical env provider_name model_name) f"

definition requires_explicit_thinking_disable :: "anthropic_env \<Rightarrow> string \<Rightarrow> string \<Rightarrow> bool" where
  "requires_explicit_thinking_disable env provider_name model_name \<longleftrightarrow>
     canonical_field cn_thinking_mode env provider_name model_name = Some ModeAdaptive"

definition model_supports_temperature :: "anthropic_env \<Rightarrow> string \<Rightarrow> model_config \<Rightarrow> bool" where
  "model_supports_temperature env provider_name mc =
     unwrap_or (canonical_field cn_temperature env provider_name (mc_model_name mc)) True"

definition thinking_type_for_provider :: "anthropic_env \<Rightarrow> string \<Rightarrow> model_config \<Rightarrow> thinking_type" where
  "thinking_type_for_provider env provider_name mc =
     (let mode = canonical_field cn_thinking_mode env provider_name (mc_model_name mc);
          reasoning = or_else (mc_reasoning mc) (canonical_field cn_reasoning env provider_name (mc_model_name mc));
          effort = thinking_effort_of mc in
      if reasoning \<noteq> Some True then ThinkDisabled
      else if mode = Some ModeAlwaysOnAdaptive then ThinkAdaptive
      else if effort = None \<and> request_param read_i32 ''budget_tokens'' mc \<noteq> None
      then (if mode = Some ModeAdaptive then ThinkAdaptive else ThinkEnabled)
      else if unwrap_or effort EffortOff = EffortOff then ThinkDisabled
      else if mode = Some ModeAdaptive then ThinkAdaptive
      else ThinkEnabled)"

definition adaptive_output_effort :: "model_config \<Rightarrow> thinking_effort" where
  "adaptive_output_effort mc =
     (let e = unwrap_or (thinking_effort_of mc) EffortHigh in if e = EffortOff then EffortHigh else e)"

definition i32_max :: "i32 \<Rightarrow> i32 \<Rightarrow> i32" where
  "i32_max a b = (if sint a \<le> sint b then b else a)"

definition i32_min :: "i32 \<Rightarrow> i32 \<Rightarrow> i32" where
  "i32_min a b = (if sint a \<le> sint b then a else b)"

definition saturating_sub :: "i32 \<Rightarrow> i32 \<Rightarrow> i32" where
  "saturating_sub a b =
     (let s = sint a - sint b in
      if s > 2 ^ 31 - 1 then word_of_int (2 ^ 31 - 1)
      else if s < - (2 ^ 31) then word_of_int (- (2 ^ 31))
      else word_of_int s)"

definition thinking_budget_tokens :: "model_config \<Rightarrow> i32" where
  "thinking_budget_tokens mc =
     (case request_param read_i32 ''budget_tokens'' mc of
        Some b \<Rightarrow> i32_max b 1024
      | None \<Rightarrow>
          (case unwrap_or (thinking_effort_of mc) EffortHigh of
             EffortOff \<Rightarrow> 1024 | EffortLow \<Rightarrow> 4000 | EffortMedium \<Rightarrow> 10000 | EffortHigh \<Rightarrow> 16000 | EffortMax \<Rightarrow> 32000))"

definition MIN_ANSWER_TOKENS :: i32 where "MIN_ANSWER_TOKENS = 1024"

definition enabled_thinking :: "model_config \<Rightarrow> i32 \<Rightarrow> json option" where
  "enabled_thinking mc max_tokens =
     (let budget = i32_min (thinking_budget_tokens mc) (saturating_sub max_tokens MIN_ANSWER_TOKENS) in
      if sint budget \<ge> sint MIN_ANSWER_TOKENS
      then Some (JObject [(''type'', JString ''enabled''), (''budget_tokens'', json_i32 budget)]) else None)"

definition update_thinking :: "(json \<Rightarrow> json) \<Rightarrow> json \<Rightarrow> json" where
  "update_thinking f payload =
     (case json_get ''thinking'' payload of Some (JObject kvs) \<Rightarrow> json_set ''thinking'' (f (JObject kvs)) payload | _ \<Rightarrow> payload)"

definition apply_thinking_config ::
    "anthropic_env \<Rightarrow> string \<Rightarrow> model_config \<Rightarrow> i32 \<Rightarrow> anthropic_options \<Rightarrow> json \<Rightarrow> json" where
  "apply_thinking_config env provider_name mc max_tokens opts p0 =
     (let p1 = (case thinking_type_for_provider env provider_name mc of
                  ThinkAdaptive \<Rightarrow>
                    json_set ''output_config'' (JObject [(''effort'', JString (show_effort (adaptive_output_effort mc)))])
                      (json_set ''thinking'' (JObject [(''type'', JString ''adaptive'')]) p0)
                | ThinkEnabled \<Rightarrow> json_set_opt ''thinking'' (enabled_thinking mc max_tokens) p0
                | ThinkDisabled \<Rightarrow> p0);
          p2 = (if ao_preserve_thinking_context opts \<and> \<not> ao_thinking_disabled opts
                then (let q = (if json_get ''thinking'' p1 = None
                               then json_set_opt ''thinking'' (enabled_thinking mc max_tokens) p1 else p1) in
                      if ao_emit_clear_thinking opts then update_thinking (json_set ''clear_thinking'' (JBool False)) q else q)
                else p1);
          p3 = (if json_get ''thinking'' p2 = None
                   \<and> requires_explicit_thinking_disable env provider_name (mc_model_name mc)
                then json_set ''thinking'' (JObject [(''type'', JString ''disabled'')]) p2 else p2) in
      case ao_prefix_mismatch_behavior opts of
        None \<Rightarrow> p3
      | Some b \<Rightarrow>
          update_thinking (\<lambda>t. if json_str ''type'' t = Some ''disabled'' then t
            else json_set ''block_binding'' (JObject [(''prefix_mismatch_behavior'', JString (show_prefix_mismatch b))]) t) p3)"

definition block_binding_behavior :: "json \<Rightarrow> prefix_mismatch_behavior option" where
  "block_binding_behavior payload =
     Option.bind (Option.bind (Option.bind (json_get ''thinking'' payload) (json_get ''block_binding''))
       (json_str ''prefix_mismatch_behavior'')) prefix_mismatch_from_str"

text \<open>The list of messages is never empty, so the error is never returned.\<close>

definition anthropic_request ::
    "anthropic_env \<Rightarrow> string \<Rightarrow> model_config \<Rightarrow> string \<Rightarrow> string \<Rightarrow> message list \<Rightarrow> tool_definition list
       \<Rightarrow> anthropic_options \<Rightarrow> string + json" where
  "anthropic_request env provider_name mc wire_name sys messages tools opts0 =
     (let opts = options_for_model opts0 mc;
          ms = anthropic_messages env opts messages;
          specs = anthropic_tools opts tools;
          max_tokens = max_output_tokens mc;
          p0 = JObject [(''model'', JString wire_name), (''messages'', JArray ms), (''max_tokens'', json_i32 max_tokens)];
          p1 = (if sys = [] then p0 else json_set ''system'' (JArray (anthropic_system opts sys)) p0);
          p2 = (if specs = [] then p1 else json_set ''tools'' (JArray specs) p1);
          p3 = (if model_supports_temperature env provider_name mc
                then json_set_opt ''temperature'' (map_option (an_temperature env) (mc_temperature mc)) p2 else p2) in
      if ms = [] then Inl ''No valid messages to send to Anthropic API''
      else Inr (apply_thinking_config env provider_name mc max_tokens opts p3))"

subsection \<open>Breakpoints for chat payloads\<close>

datatype cache_semantics = ExplicitBreakpoints nat | ImplicitTolerant | ImplicitStrict | Uncached

definition cache_semantics_for_model :: "(string \<Rightarrow> bool) \<Rightarrow> string \<Rightarrow> string \<Rightarrow> cache_semantics" where
  "cache_semantics_for_model digit provider_name model_name =
     (if provider_name \<in> set [''anthropic'', ''minimax'', ''zai'', ''kimi_code''] then ExplicitBreakpoints 4
      else if provider_name \<in> set [''aws_bedrock'', ''databricks'', ''gcp_vertex_ai''] \<and> str_contains model_name ''claude''
      then ExplicitBreakpoints 4
      else if provider_name \<in> set [''openrouter'', ''litellm''] \<and> starts_with model_name ''anthropic/''
      then ExplicitBreakpoints 4
      else if provider_name \<in> set [''openai'', ''azure_openai'', ''github_copilot'']
      then (if is_openai_responses_model digit model_name then ImplicitStrict else ImplicitTolerant)
      else if provider_name \<in> set [''moonshot'', ''custom_deepseek'', ''groq'', ''together'', ''fireworks-ai'', ''mistral'',
             ''zhipu'', ''alibaba''] then ImplicitTolerant
      else if provider_name \<in> set [''snowflake'', ''sagemaker_tgi''] then Uncached
      else ImplicitStrict)"

definition uses_explicit_breakpoints :: "cache_semantics \<Rightarrow> bool" where
  "uses_explicit_breakpoints c = (case c of ExplicitBreakpoints _ \<Rightarrow> True | _ \<Rightarrow> False)"

definition LOOKBACK_BLOCKS :: nat where "LOOKBACK_BLOCKS = 20"

definition EPHEMERAL :: json where "EPHEMERAL = JObject [(''type'', JString ''ephemeral'')]"

definition message_blocks :: "json \<Rightarrow> nat" where
  "message_blocks m =
     (case json_get ''content'' m of Some (JArray bs) \<Rightarrow> length bs | Some (JString _) \<Rightarrow> 1 | _ \<Rightarrow> 0)
     + length (json_items ''tool_calls'' m)
     + (if json_get ''reasoning_content'' m = None then 0 else 1)"

fun cumulative_block_offsets :: "nat \<Rightarrow> json list \<Rightarrow> nat list" where
  "cumulative_block_offsets n [] = []"
| "cumulative_block_offsets n (m # ms) =
     (n + message_blocks m) # cumulative_block_offsets (n + message_blocks m) ms"

definition has_cacheable_content :: "json \<Rightarrow> bool" where
  "has_cacheable_content m =
     (case json_get ''content'' m of
        Some (JString t) \<Rightarrow> trim t \<noteq> []
      | Some (JArray blocks) \<Rightarrow>
          (case last_opt blocks of
             Some (JObject kvs) \<Rightarrow>
               (case json_str ''type'' (JObject kvs) of
                  Some ty \<Rightarrow>
                    if ty = ''text'' then (case json_str ''text'' (JObject kvs) of Some t \<Rightarrow> trim t \<noteq> [] | None \<Rightarrow> False)
                    else ty = ''image_url''
                | None \<Rightarrow> False)
           | _ \<Rightarrow> False)
      | _ \<Rightarrow> False)"

definition mark_last_content_block :: "json \<Rightarrow> json" where
  "mark_last_content_block m =
     (if \<not> has_cacheable_content m then m
      else (case json_get ''content'' m of
              Some (JString t) \<Rightarrow> json_set ''content'' (JArray [json_set ''cache_control'' EPHEMERAL (text_item t)]) m
            | _ \<Rightarrow> (case mark_last_block EPHEMERAL m of Some m1 \<Rightarrow> m1 | None \<Rightarrow> m)))"

definition mark_index :: "nat option \<Rightarrow> json list \<Rightarrow> json list" where
  "mark_index i ms = (case i of Some k \<Rightarrow> ms[k := mark_last_content_block (ms ! k)] | None \<Rightarrow> ms)"

definition find_last_below :: "nat \<Rightarrow> (nat \<Rightarrow> bool) \<Rightarrow> nat option" where
  "find_last_below n P = List.find P (rev [0..<n])"

definition mark_messages :: "json list \<Rightarrow> json list" where
  "mark_messages ms =
     (let offsets = cumulative_block_offsets 0 ms;
          primary = find_last_below (length ms) (\<lambda>i. has_cacheable_content (ms ! i));
          ms1 = mark_index primary ms;
          secondary = Option.bind primary (\<lambda>p. find_last_below p
            (\<lambda>i. offsets ! i \<le> offsets ! p - LOOKBACK_BLOCKS \<and> has_cacheable_content (ms1 ! i)));
          ms2 = mark_index secondary ms1 in
      mark_index (List.find (\<lambda>i. has_role ''system'' (ms2 ! i)) [0..<length ms2]) ms2)"

definition mark_tool :: "json \<Rightarrow> json" where
  "mark_tool t =
     (case json_get ''function'' t of
        Some (JObject kvs) \<Rightarrow> json_set ''function'' (json_set ''cache_control'' EPHEMERAL (JObject kvs)) t
      | _ \<Rightarrow> t)"

definition apply_chat_payload_breakpoints :: "json \<Rightarrow> json" where
  "apply_chat_payload_breakpoints payload =
     (let p1 = (case json_get ''messages'' payload of
                  Some (JArray ms) \<Rightarrow> json_set ''messages'' (JArray (mark_messages ms)) payload | _ \<Rightarrow> payload) in
      case json_get ''tools'' p1 of
        Some (JArray ts) \<Rightarrow> if ts = [] then p1 else json_set ''tools'' (JArray (butlast ts @ [mark_tool (last ts)])) p1
      | _ \<Rightarrow> p1)"

subsection \<open>Breakpoints of a request\<close>

definition cache_marked :: "json \<Rightarrow> bool" where
  "cache_marked b \<longleftrightarrow> json_get ''cache_control'' b \<noteq> None"

definition marks :: "json list \<Rightarrow> nat" where
  "marks bs = length (filter cache_marked bs)"

definition message_marks :: "json list \<Rightarrow> nat" where
  "message_marks ms = marks (concat (map (json_items ''content'') ms))"

definition cache_marks :: "json \<Rightarrow> nat" where
  "cache_marks p = message_marks (json_items ''messages'' p) + marks (json_items ''tools'' p) + marks (json_items ''system'' p)"

lemma marks_simps [simp]: "marks [] = 0" "marks (b # bs) = (if cache_marked b then 1 else 0) + marks bs" "marks (bs @ cs) = marks bs + marks cs"
  by (simp_all add: marks_def)

lemma message_marks_simps [simp]:
  "message_marks [] = 0" "message_marks (m # ms) = marks (json_items ''content'' m) + message_marks ms"
  "message_marks (ms @ ns) = message_marks ms + message_marks ns"
  by (simp_all add: message_marks_def)

lemma marks_zero: "marks bs = 0 \<longleftrightarrow> (\<forall>b \<in> set bs. \<not> cache_marked b)"
  by (simp add: marks_def filter_empty_conv)

lemma block_unmarked: "b \<in> set (anthropic_block env opts replay r c) \<Longrightarrow> \<not> cache_marked b"
  by (auto simp: anthropic_block_def cache_marked_def json_get_def text_item_def tool_use_item_def tool_result_item_def Let_def
      convert_image_def convert_document_def json_set_def
      split: message_content_block.splits if_splits sum.splits option.splits)

lemma message_unmarked: "anthropic_message env opts m = Some j \<Longrightarrow> marks (json_items ''content'' j) = 0"
  unfolding marks_zero
  by (auto simp: anthropic_message_def Let_def role_message_def json_items_def json_get_def dest: block_unmarked split: if_splits)

lemma messages_unmarked: "message_marks (filter_map (anthropic_message env opts) ms) = 0"
  by (induction ms) (auto dest: message_unmarked split: option.split)

lemma mark_last_marks:
  assumes "mark_last_block cc m = Some m1" "marks (json_items ''content'' m) = 0"
  shows "marks (json_items ''content'' m1) = 1"
proof -
  from assms(1) obtain blocks kvs where m: "json_get ''content'' m = Some (JArray blocks)" "last_opt blocks = Some (JObject kvs)"
    "m1 = json_set ''content'' (JArray (butlast blocks @ [json_set ''cache_control'' cc (JObject kvs)])) m"
    by (auto simp: mark_last_block_def split: option.splits json.splits)
  then have "json_items ''content'' m1 = butlast blocks @ [json_set ''cache_control'' cc (JObject kvs)]"
    by (cases m) (simp_all add: json_items_def json_get_set, simp_all add: json_get_def)
  moreover have "marks (butlast blocks) = 0" using assms(2) m(1) by (auto simp: json_items_def marks_zero dest: in_set_butlastD)
  moreover have "cache_marked (json_set ''cache_control'' cc (JObject kvs))" by (simp add: cache_marked_def json_get_set)
  ultimately show ?thesis by simp
qed

lemma mark_user_marks: "message_marks ms = 0 \<Longrightarrow> n < 2 \<Longrightarrow> message_marks (mark_user_messages cc n ms) + n \<le> 2"
proof (induction ms arbitrary: n)
  case (Cons m ms)
  then have ms: "message_marks ms = 0" "marks (json_items ''content'' m) = 0" by simp_all
  show ?case
  proof (cases "has_role ''user'' m \<and> mark_last_block cc m \<noteq> None")
    case True
    then obtain m1 where m1: "mark_last_block cc m = Some m1" by blast
    from Cons.prems(2) consider "n = 0" | "n = 1" by linarith
    then show ?thesis using mark_last_marks [OF m1 ms(2)] Cons.IH [OF ms(1), of 1] ms True m1 by cases simp_all
  next
    case False
    with Cons.IH [OF ms(1) Cons.prems(2)] ms show ?thesis by (auto split: option.split)
  qed
qed simp

lemma message_marks_rev: "message_marks (rev ms) = message_marks ms"
  by (induction ms) auto

lemma request_message_marks: "message_marks (anthropic_messages env opts messages) \<le> (if ao_prompt_cache_disabled opts then 0 else 2)"
proof -
  define ms where "ms = (if filter_map (anthropic_message env opts) messages = []
    then [role_message ''user'' (JArray [text_item ''Ignore''])] else filter_map (anthropic_message env opts) messages)"
  have "message_marks ms = 0"
    using messages_unmarked [of env opts messages]
    by (simp add: ms_def role_message_def json_items_def json_get_def text_item_def cache_marked_def)
  then show ?thesis
    using mark_user_marks [of "rev ms" 0 "cache_control opts"]
    by (simp add: anthropic_messages_def Let_def message_marks_rev flip: ms_def)
qed

lemma tool_marks: "marks (anthropic_tools opts tools) \<le> (if ao_prompt_cache_disabled opts then 0 else 1)"
proof -
  define specs where "specs = map anthropic_tool (unique_tools [] tools)"
  have "\<not> cache_marked b" if "b \<in> set specs" for b
    using that by (auto simp: specs_def anthropic_tool_def cache_marked_def json_get_def)
  then have "marks specs = 0" "marks (butlast specs) = 0" by (auto simp: marks_zero dest: in_set_butlastD)
  then show ?thesis by (simp add: anthropic_tools_def Let_def flip: specs_def)
qed

lemma system_marks: "marks (anthropic_system opts sys) \<le> (if ao_prompt_cache_disabled opts then 0 else 1)"
  by (simp add: anthropic_system_def text_item_def cache_marked_def json_get_def)

lemma update_thinking_simps:
  "is_object p \<Longrightarrow> is_object (update_thinking f p)"
  "is_object p \<Longrightarrow> k \<noteq> ''thinking'' \<Longrightarrow> json_get k (update_thinking f p) = json_get k p"
  by (auto simp: update_thinking_def object_set split: option.split json.split)

lemma thinking_config_keeps:
  assumes "is_object p" "k \<noteq> ''thinking''" "k \<noteq> ''output_config''"
  shows "json_get k (apply_thinking_config env pn mc mt opts p) = json_get k p"
  using assms
  by (auto simp: apply_thinking_config_def Let_def object_set update_thinking_simps split: thinking_type.split option.split)

subsection \<open>The parts of a request\<close>

lemma get_set_object: "is_object j \<Longrightarrow> json_get k (json_set k' v j) = (if k = k' then Some v else json_get k j)"
  by (auto simp: json_get_set is_object_def)

lemma not_object_set: "\<not> is_object j \<Longrightarrow> json_set k v j = j"
  by (cases j) (auto simp: json_set_def is_object_def)

lemma json_items_set: "is_object j \<Longrightarrow> json_items k (json_set k' v j) = (if k = k' then (case v of JArray xs \<Rightarrow> xs | _ \<Rightarrow> []) else json_items k j)"
  by (auto simp: json_items_def json_get_set is_object_def split: json.split)

lemma json_set_opt_keeps:
  "is_object j \<Longrightarrow> is_object (json_set_opt k' v j)"
  "is_object j \<Longrightarrow> k \<noteq> k' \<Longrightarrow> json_get k (json_set_opt k' v j) = json_get k j"
  by (auto simp: json_set_opt_def object_set get_set_object split: option.split)

text \<open>The payload before the configuration of the thinking.\<close>

definition request_base :: "anthropic_env \<Rightarrow> string \<Rightarrow> model_config \<Rightarrow> string \<Rightarrow> string \<Rightarrow> message list \<Rightarrow> tool_definition list
    \<Rightarrow> anthropic_options \<Rightarrow> json" where
  "request_base env provider_name mc wire_name sys messages tools opts =
     (let ms = anthropic_messages env opts messages;
          specs = anthropic_tools opts tools;
          p0 = JObject [(''model'', JString wire_name), (''messages'', JArray ms), (''max_tokens'', json_i32 (max_output_tokens mc))];
          p1 = (if sys = [] then p0 else json_set ''system'' (JArray (anthropic_system opts sys)) p0);
          p2 = (if specs = [] then p1 else json_set ''tools'' (JArray specs) p1) in
      if model_supports_temperature env provider_name mc
      then json_set_opt ''temperature'' (map_option (an_temperature env) (mc_temperature mc)) p2 else p2)"

lemma messages_not_empty: "anthropic_messages env opts messages \<noteq> []"
proof -
  have "mark_user_messages cc n ms \<noteq> []" if "ms \<noteq> []" for cc n ms
    using that by (cases ms) (auto split: option.split)
  then show ?thesis by (simp add: anthropic_messages_def Let_def)
qed

lemma request_is_base:
  "anthropic_request env pn mc wire sys messages tools opts0 =
     Inr (apply_thinking_config env pn mc (max_output_tokens mc) (options_for_model opts0 mc)
       (request_base env pn mc wire sys messages tools (options_for_model opts0 mc)))"
  by (simp add: anthropic_request_def request_base_def Let_def messages_not_empty)

lemma base_parts:
  "is_object (request_base env pn mc wire sys messages tools opts)"
  "json_get ''thinking'' (request_base env pn mc wire sys messages tools opts) = None"
  "json_items ''messages'' (request_base env pn mc wire sys messages tools opts) = anthropic_messages env opts messages"
  "json_items ''tools'' (request_base env pn mc wire sys messages tools opts) = anthropic_tools opts tools"
  "json_items ''system'' (request_base env pn mc wire sys messages tools opts) = (if sys = [] then [] else anthropic_system opts sys)"
proof -
  define p0 where "p0 = JObject [(''model'', JString wire), (''messages'', JArray (anthropic_messages env opts messages)),
    (''max_tokens'', json_i32 (max_output_tokens mc))]"
  define p1 where "p1 = (if sys = [] then p0 else json_set ''system'' (JArray (anthropic_system opts sys)) p0)"
  define p2 where "p2 = (if anthropic_tools opts tools = [] then p1 else json_set ''tools'' (JArray (anthropic_tools opts tools)) p1)"
  define p3 where "p3 = request_base env pn mc wire sys messages tools opts"
  have p3: "p3 = (if model_supports_temperature env pn mc
      then json_set_opt ''temperature'' (map_option (an_temperature env) (mc_temperature mc)) p2 else p2)"
    by (simp add: p3_def request_base_def Let_def p2_def p1_def p0_def)
  have o0: "is_object p0" by (simp add: p0_def is_object_def)
  then have o: "is_object p0" "is_object p1" "is_object p2" by (simp_all add: p2_def p1_def object_set)
  have get: "json_get k p3 = json_get k p2" if "k \<noteq> ''temperature''" for k using o that by (simp add: p3 json_set_opt_keeps)
  have p0: "json_get ''thinking'' p0 = None" "json_get ''messages'' p0 = Some (JArray (anthropic_messages env opts messages))"
    "json_get ''tools'' p0 = None" "json_get ''system'' p0 = None" by (simp_all add: p0_def json_get_def)
  from o have ra: "is_object p3" by (simp add: p3 json_set_opt_keeps)
  from o have rb: "json_get ''thinking'' p3 = None" by (simp add: get p2_def p1_def get_set_object object_set p0)
  from o have rc: "json_items ''messages'' p3 = anthropic_messages env opts messages"
    by (simp add: json_items_def get p2_def p1_def get_set_object object_set p0)
  from o have rd: "json_items ''tools'' p3 = anthropic_tools opts tools"
    by (simp add: json_items_def get p2_def p1_def get_set_object object_set p0)
  from o have re: "json_items ''system'' p3 = (if sys = [] then [] else anthropic_system opts sys)"
    by (simp add: json_items_def get p2_def p1_def get_set_object object_set p0)
  note results = ra rb rc rd re
  show "is_object (request_base env pn mc wire sys messages tools opts)" "json_get ''thinking'' (request_base env pn mc wire sys messages tools opts) = None"
    "json_items ''messages'' (request_base env pn mc wire sys messages tools opts) = anthropic_messages env opts messages"
    "json_items ''tools'' (request_base env pn mc wire sys messages tools opts) = anthropic_tools opts tools"
    "json_items ''system'' (request_base env pn mc wire sys messages tools opts) = (if sys = [] then [] else anthropic_system opts sys)"
    using results by (simp_all only: p3_def)
qed

lemma request_items:
  assumes "anthropic_request env pn mc wire sys messages tools opts0 = Inr p" "k \<noteq> ''thinking''" "k \<noteq> ''output_config''"
  shows "json_items k p = json_items k (request_base env pn mc wire sys messages tools (options_for_model opts0 mc))"
  using assms(1) thinking_config_keeps [OF base_parts(1) assms(2,3)]
  by (auto simp: request_is_base json_items_def)

text \<open>
  Claim C39 (cache_breakpoints_limited): whatever the history, the tools and the system prompt are, a request to
  Anthropic is built and holds at most four cache breakpoints, as many as the service accepts; none when caching is
  switched off for the model.
\<close>

theorem cache_breakpoints_limited:
  "\<exists>p. anthropic_request env provider_name mc wire_name sys messages tools opts = Inr p
     \<and> cache_marks p \<le> (if prompt_cache_disabled mc then 0 else 4)"
proof -
  obtain p where p: "anthropic_request env provider_name mc wire_name sys messages tools opts = Inr p"
    by (simp add: request_is_base)
  let ?o = "options_for_model opts mc"
  have "ao_prompt_cache_disabled ?o = prompt_cache_disabled mc" by (simp add: options_for_model_def Let_def)
  then have "cache_marks p \<le> (if prompt_cache_disabled mc then 0 else 4)"
    using request_message_marks [of env ?o messages] tool_marks [of ?o tools] system_marks [of ?o sys]
    by (simp add: cache_marks_def request_items [OF p] base_parts split: if_splits)
  with p show ?thesis by blast
qed

text \<open>The breakpoints of a chat payload: at most three in its messages, and one on its last tool.\<close>

lemma marked_content_marks: "marks (json_items ''content'' (mark_last_content_block m)) \<le> marks (json_items ''content'' m) + 1"
proof (cases "mark_last_block EPHEMERAL m")
  case (Some m1)
  then obtain blocks kvs where m: "json_get ''content'' m = Some (JArray blocks)" "last_opt blocks = Some (JObject kvs)"
    "m1 = json_set ''content'' (JArray (butlast blocks @ [json_set ''cache_control'' EPHEMERAL (JObject kvs)])) m"
    by (auto simp: mark_last_block_def split: option.splits json.splits)
  then have "is_object m" by (cases m) (simp_all add: json_get_def is_object_def)
  then have "json_items ''content'' m1 = butlast blocks @ [json_set ''cache_control'' EPHEMERAL (JObject kvs)]"
    by (simp add: m(3) json_items_set)
  moreover have "marks (butlast blocks) \<le> marks blocks" by (cases blocks rule: rev_cases) simp_all
  ultimately show ?thesis using Some m(1) by (simp add: mark_last_content_block_def json_items_def)
next
  case None
  show ?thesis
  proof (cases "\<exists>t. json_get ''content'' m = Some (JString t)")
    case True
    then obtain t where t: "json_get ''content'' m = Some (JString t)" by blast
    then have "is_object m" by (cases m) (simp_all add: json_get_def is_object_def)
    with t show ?thesis by (simp add: mark_last_content_block_def json_items_set)
  next
    case False
    with None have "mark_last_content_block m = m" by (auto simp: mark_last_content_block_def split: option.split json.split)
    then show ?thesis by simp
  qed
qed

lemma message_marks_update:
  "message_marks (ms[k := mark_last_content_block (ms ! k)]) \<le> message_marks ms + 1"
proof (induction ms arbitrary: k)
  case (Cons m ms)
  then show ?case using marked_content_marks [of m] by (cases k) simp_all
qed simp

lemma mark_index_marks: "message_marks (mark_index i ms) \<le> message_marks ms + 1"
  using message_marks_update [of ms] by (simp add: mark_index_def split: option.split)

lemma mark_messages_marks: "message_marks (mark_messages ms) \<le> message_marks ms + 3"
  unfolding mark_messages_def Let_def
  by (rule order_trans [OF mark_index_marks], simp, rule order_trans [OF mark_index_marks], simp, rule order_trans [OF mark_index_marks], simp)

lemma chat_breakpoints_limited:
  assumes "message_marks (json_items ''messages'' payload) = 0"
  shows "message_marks (json_items ''messages'' (apply_chat_payload_breakpoints payload)) \<le> 3"
proof -
  define p1 where "p1 = (case json_get ''messages'' payload of
                  Some (JArray ms) \<Rightarrow> json_set ''messages'' (JArray (mark_messages ms)) payload | _ \<Rightarrow> payload)"
  have "message_marks (json_items ''messages'' p1) \<le> 3"
  proof (cases "\<exists>ms. json_get ''messages'' payload = Some (JArray ms)")
    case True
    then obtain ms where ms: "json_get ''messages'' payload = Some (JArray ms)" by blast
    then have "is_object payload" by (cases payload) (simp_all add: json_get_def is_object_def)
    with ms mark_messages_marks [of ms] assms show ?thesis by (simp add: p1_def json_items_set) (simp add: json_items_def)
  next
    case False
    then have "p1 = payload" by (auto simp: p1_def split: option.split json.split)
    with assms show ?thesis by simp
  qed
  moreover have "json_get ''messages'' (json_set ''tools'' v p1) = json_get ''messages'' p1" for v
    by (cases "is_object p1") (simp_all add: get_set_object not_object_set)
  ultimately show ?thesis
    by (auto simp: apply_chat_payload_breakpoints_def Let_def json_items_def simp flip: p1_def split: option.split json.split)
qed

subsection \<open>Calls and their answers\<close>

text \<open>The identifiers of calls (\<open>True\<close>) and of answers (\<open>False\<close>), in order.\<close>

definition call_mark :: "json \<Rightarrow> (bool \<times> string) list" where
  "call_mark b =
     (if json_str ''type'' b = Some ''tool_use'' then [(True, unwrap_or (json_str ''id'' b) [])]
      else if json_str ''type'' b = Some ''tool_result'' then [(False, unwrap_or (json_str ''tool_use_id'' b) [])]
      else [])"

definition call_marks :: "json list \<Rightarrow> (bool \<times> string) list" where
  "call_marks ms = concat (map call_mark (concat (map (json_items ''content'') ms)))"

definition block_call :: "message_content_block \<Rightarrow> (bool \<times> string) list" where
  "block_call b = (case b of ToolRequest r \<Rightarrow> [(True, tr_id r)] | ToolResponse r \<Rightarrow> [(False, ts_id r)] | _ \<Rightarrow> [])"

lemma call_marks_simps [simp]:
  "call_marks [] = []" "call_marks (m # ms) = concat (map call_mark (json_items ''content'' m)) @ call_marks ms"
  "call_marks (ms @ ns) = call_marks ms @ call_marks ns"
  by (simp_all add: call_marks_def)

lemma call_mark_other: "json_str ''type'' b = Some t \<Longrightarrow> t \<noteq> ''tool_use'' \<Longrightarrow> t \<noteq> ''tool_result'' \<Longrightarrow> call_mark b = []"
  by (simp add: call_mark_def)

lemma call_mark_items [simp]:
  "call_mark (text_item t) = []" "call_mark (tool_use_item i n a) = [(True, i)]"
  "call_mark (tool_result_item env r) = [(False, ts_id r)]"
  "call_mark (convert_image AnthropicImage pic) = []" "call_mark (convert_document d AnthropicDocument) = []"
  "call_mark (JObject ((''type'', JString ''thinking'') # ps)) = []"
  "call_mark (JObject ((''type'', JString ''redacted_thinking'') # ps)) = []"
  by (auto simp: call_mark_def json_str_def json_get_def text_item_def tool_use_item_def tool_result_item_def Let_def
      convert_image_def convert_document_def json_set_def as_str_def unwrap_or_def split: sum.split option.split)

lemma block_calls: "concat (map call_mark (anthropic_block env opts replay r b)) = block_call b"
  by (cases b) (simp_all add: anthropic_block_def block_call_def split: sum.split)

lemma message_calls:
  "call_marks (case anthropic_message env opts m of None \<Rightarrow> [] | Some j \<Rightarrow> [j]) = concat (map block_call (m_content m))"
proof -
  have marks: "concat (map call_mark (concat (map (anthropic_block env opts replay r) bs))) = concat (map block_call bs)" for replay r bs
    by (induction bs) (simp_all add: block_calls)
  define replay where "replay = (\<not> ao_thinking_disabled opts \<and> \<not> ao_strip_thinking_history opts
            \<and> \<not> thinking_block_is_stale m (ao_current_model opts))"
  define c where "c = concat (map (anthropic_block env opts replay (m_role m)) (m_content m))"
  have "anthropic_message env opts m = (if c = [] then None else Some (role_message (role_name (m_role m)) (JArray c)))"
    by (simp add: anthropic_message_def Let_def c_def replay_def)
  moreover have "concat (map call_mark c) = concat (map block_call (m_content m))" unfolding c_def by (rule marks)
  ultimately show ?thesis by (cases "c = []") (simp_all add: role_message_def json_items_def json_get_def)
qed

lemma messages_calls: "call_marks (filter_map (anthropic_message env opts) ms) = concat (map block_call (concat (map m_content ms)))"
proof (induction ms)
  case (Cons m ms)
  with message_calls [of env opts m] show ?case by (simp split: option.splits)
qed simp

lemma call_mark_cached: "call_mark (json_set ''cache_control'' v b) = call_mark b"
  by (cases "is_object b") (simp_all add: not_object_set call_mark_def json_str_def get_set_object)

lemma mark_last_calls:
  assumes "mark_last_block cc m = Some m1"
  shows "call_marks [m1] = call_marks [m]"
proof -
  from assms obtain blocks kvs where m: "json_get ''content'' m = Some (JArray blocks)" "last_opt blocks = Some (JObject kvs)"
    "m1 = json_set ''content'' (JArray (butlast blocks @ [json_set ''cache_control'' cc (JObject kvs)])) m"
    by (auto simp: mark_last_block_def split: option.splits json.splits)
  then have "json_items ''content'' m1 = butlast blocks @ [json_set ''cache_control'' cc (JObject kvs)]"
    by (cases m) (simp_all add: json_items_def json_get_set, simp_all add: json_get_def)
  moreover have "json_items ''content'' m = butlast blocks @ [JObject kvs]"
    using m(1,2) append_butlast_last_id [of blocks, symmetric] by (cases "blocks = []") (auto simp: json_items_def last_opt_def)
  ultimately show ?thesis by (simp add: call_mark_cached)
qed

lemma rev_call_marks: "call_marks (rev (m # ms)) = call_marks (rev ms) @ call_marks [m]"
  by simp

lemma mark_user_calls: "call_marks (rev (mark_user_messages cc n ms)) = call_marks (rev ms)"
proof (induction ms arbitrary: n)
  case (Cons m ms)
  show ?case
  proof (cases "mark_last_block cc m")
    case None
    with Cons show ?thesis by simp
  next
    case (Some m1)
    with mark_last_calls [OF Some] Cons show ?thesis by simp
  qed
qed simp

text \<open>
  Claim C38 (calls_replayed): a request to Anthropic replays the calls of the history and their answers, each once and
  in the order of the conversation, also those whose arguments could not be parsed or whose execution failed: neither
  the skipping of empty messages nor the cache breakpoints lose or move one, so a history in which every call is
  answered stays valid for the service.
\<close>

theorem calls_replayed:
  "\<exists>p. anthropic_request env provider_name mc wire_name sys messages tools opts = Inr p
     \<and> call_marks (json_items ''messages'' p) = concat (map block_call (concat (map m_content messages)))"
proof -
  obtain p where p: "anthropic_request env provider_name mc wire_name sys messages tools opts = Inr p"
    by (simp add: request_is_base)
  let ?o = "options_for_model opts mc"
  define ms where "ms = filter_map (anthropic_message env ?o) messages"
  define ms1 where "ms1 = (if ms = [] then [role_message ''user'' (JArray [text_item ''Ignore''])] else ms)"
  have "call_marks ms1 = call_marks ms" by (simp add: ms1_def role_message_def json_items_def json_get_def)
  then have "call_marks (anthropic_messages env ?o messages) = call_marks ms"
    by (simp add: anthropic_messages_def Let_def mark_user_calls flip: ms_def ms1_def)
  with p show ?thesis by (simp add: request_items [OF p] base_parts ms_def messages_calls)
qed

subsection \<open>The budget of the thinking\<close>

lemma i32_bounds: "- (2 ^ 31) \<le> sint (a :: i32)" "sint (a :: i32) < 2 ^ 31"
  using sint_ge [of a] sint_lt [of a] by simp_all

lemma saturating_sub_answer:
  "sint (saturating_sub a MIN_ANSWER_TOKENS) = max (sint a - 1024) (- (2 ^ 31))"
proof -
  have m: "sint MIN_ANSWER_TOKENS = 1024" by (simp add: MIN_ANSWER_TOKENS_def)
  show ?thesis
  proof (cases "sint a - 1024 < - (2 ^ 31)")
    case True
    then have "saturating_sub a MIN_ANSWER_TOKENS = word_of_int (- (2 ^ 31))" unfolding saturating_sub_def m Let_def by simp
    with True show ?thesis by (simp only: sint_word_of_int_i32) simp
  next
    case False
    then have "saturating_sub a MIN_ANSWER_TOKENS = word_of_int (sint a - 1024)"
      using i32_bounds [of a] unfolding saturating_sub_def m Let_def by simp
    moreover have "sint (word_of_int (sint a - 1024) :: i32) = sint a - 1024"
      by (rule sint_word_of_int_i32) (use False i32_bounds [of a] in simp_all)
    ultimately show ?thesis using False by (simp only: max_def) simp
  qed
qed

lemma as_i64_i32: "as_i64 (json_i32 b) = Some (sint b)"
proof (cases "0 \<le> sint b")
  case True
  have "uint (word_of_int (sint b) :: i32) = sint b mod 2 ^ 32" by (subst uint_word_of_int) simp
  with True i32_bounds [of b] have "uint b = sint b" by simp
  moreover have "take_bit 64 (uint b) = uint b" by (rule take_bit_int_eq_self) (use \<open>uint b = sint b\<close> True i32_bounds [of b] in simp_all)
  then have "uint (ucast b :: u64) = uint b" by (simp add: unsigned_ucast_eq)
  ultimately show ?thesis using True i32_bounds [of b] by (simp add: as_i64_def json_i32_def)
qed (simp add: as_i64_def json_i32_def)

lemma enabled_thinking_bounds:
  assumes "enabled_thinking mc max_tokens = Some t"
  obtains n where "json_get ''budget_tokens'' t = Some (json_i32 n)" "1024 \<le> sint n" "sint n + 1024 \<le> sint max_tokens"
proof -
  define budget where "budget = i32_min (thinking_budget_tokens mc) (saturating_sub max_tokens MIN_ANSWER_TOKENS)"
  have m: "sint MIN_ANSWER_TOKENS = 1024" by (simp add: MIN_ANSWER_TOKENS_def)
  from assms have t: "t = JObject [(''type'', JString ''enabled''), (''budget_tokens'', json_i32 budget)]" "1024 \<le> sint budget"
    by (auto simp: enabled_thinking_def Let_def m simp flip: budget_def split: if_splits)
  have "sint budget \<le> sint (saturating_sub max_tokens MIN_ANSWER_TOKENS)" by (simp add: budget_def i32_min_def)
  with t(2) have "sint budget + 1024 \<le> sint max_tokens" by (simp add: saturating_sub_answer max_def split: if_splits)
  with t that show thesis by (simp add: json_get_def)
qed

text \<open>What the thinking of a payload may be, for a bound on the tokens.\<close>

definition budget_fits :: "i32 \<Rightarrow> json \<Rightarrow> bool" where
  "budget_fits max_tokens t =
     (case json_get ''budget_tokens'' t of
        None \<Rightarrow> True
      | Some b \<Rightarrow> (case as_i64 b of Some n \<Rightarrow> 1024 \<le> n \<and> n + 1024 \<le> sint max_tokens | None \<Rightarrow> False))"

definition thinking_fits :: "i32 \<Rightarrow> json \<Rightarrow> bool" where
  "thinking_fits max_tokens p = (case json_get ''thinking'' p of None \<Rightarrow> True | Some t \<Rightarrow> budget_fits max_tokens t)"

lemma enabled_fits: "enabled_thinking mc mt = Some t \<Longrightarrow> budget_fits mt t"
  by (erule enabled_thinking_bounds) (simp add: budget_fits_def as_i64_i32)

lemma fits_set: "is_object p \<Longrightarrow> budget_fits mt t \<Longrightarrow> thinking_fits mt (json_set ''thinking'' t p)"
  "is_object p \<Longrightarrow> k \<noteq> ''thinking'' \<Longrightarrow> thinking_fits mt (json_set k v p) = thinking_fits mt p"
  by (auto simp: thinking_fits_def json_get_set is_object_def split: json.split)

lemma fits_enabled: "is_object p \<Longrightarrow> thinking_fits mt p \<Longrightarrow> thinking_fits mt (json_set_opt ''thinking'' (enabled_thinking mc mt) p)"
  by (auto simp: json_set_opt_def fits_set enabled_fits split: option.split)

lemma fits_update:
  assumes "\<And>t. budget_fits mt t \<Longrightarrow> budget_fits mt (f t)" "thinking_fits mt p"
  shows "thinking_fits mt (update_thinking f p)"
  using assms by (cases p) (auto simp: update_thinking_def thinking_fits_def json_get_set split: option.splits json.splits)

lemma budget_fits_set: "k \<noteq> ''budget_tokens'' \<Longrightarrow> budget_fits mt t \<Longrightarrow> budget_fits mt (json_set k v t)"
  by (cases "is_object t") (simp_all add: not_object_set budget_fits_def get_set_object)

lemma thinking_config_fits:
  assumes "is_object p" "json_get ''thinking'' p = None"
  shows "thinking_fits mt (apply_thinking_config env pn mc mt opts p)"
proof -
  have fits: "thinking_fits mt p" using assms(2) by (simp add: thinking_fits_def)
  have plain: "budget_fits mt (JObject [(''type'', JString s)])" for s by (simp add: budget_fits_def json_get_def)
  define p1 where "p1 = (case thinking_type_for_provider env pn mc of
                  ThinkAdaptive \<Rightarrow>
                    json_set ''output_config'' (JObject [(''effort'', JString (show_effort (adaptive_output_effort mc)))])
                      (json_set ''thinking'' (JObject [(''type'', JString ''adaptive'')]) p)
                | ThinkEnabled \<Rightarrow> json_set_opt ''thinking'' (enabled_thinking mc mt) p
                | ThinkDisabled \<Rightarrow> p)"
  have p1: "is_object p1" "thinking_fits mt p1"
    using assms(1) fits plain by (auto simp: p1_def object_set json_set_opt_keeps fits_set fits_enabled split: thinking_type.split)
  define q where "q = (if json_get ''thinking'' p1 = None then json_set_opt ''thinking'' (enabled_thinking mc mt) p1 else p1)"
  have q: "is_object q" "thinking_fits mt q" using p1 by (simp_all add: q_def json_set_opt_keeps fits_enabled)
  define p2 where "p2 = (if ao_preserve_thinking_context opts \<and> \<not> ao_thinking_disabled opts
     then (if ao_emit_clear_thinking opts then update_thinking (json_set ''clear_thinking'' (JBool False)) q else q) else p1)"
  have p2: "is_object p2" "thinking_fits mt p2"
    using p1 q by (auto simp: p2_def update_thinking_simps intro!: fits_update budget_fits_set)
  define p3 where "p3 = (if json_get ''thinking'' p2 = None \<and> requires_explicit_thinking_disable env pn (mc_model_name mc)
                then json_set ''thinking'' (JObject [(''type'', JString ''disabled'')]) p2 else p2)"
  have p3: "thinking_fits mt p3" using p2 plain by (simp add: p3_def fits_set)
  have "apply_thinking_config env pn mc mt opts p = (case ao_prefix_mismatch_behavior opts of
        None \<Rightarrow> p3
      | Some b \<Rightarrow>
          update_thinking (\<lambda>t. if json_str ''type'' t = Some ''disabled'' then t
            else json_set ''block_binding'' (JObject [(''prefix_mismatch_behavior'', JString (show_prefix_mismatch b))]) t) p3)"
    unfolding apply_thinking_config_def Let_def p3_def p2_def q_def p1_def by (rule refl)
  with p3 show ?thesis by (auto intro!: fits_update budget_fits_set split: option.split)
qed

text \<open>
  Claim C40 (thinking_leaves_room): whatever a user configures, a request to Anthropic never asks for more thinking
  than the limit of its answer allows: a budget is at least the smallest one the service accepts and leaves 1024 tokens
  for the answer, also for the smallest and largest limits.
\<close>

theorem thinking_leaves_room:
  "\<exists>p. anthropic_request env provider_name mc wire_name sys messages tools opts = Inr p
     \<and> thinking_fits (max_output_tokens mc) p"
  using thinking_config_fits [OF base_parts(1,2), of "max_output_tokens mc" env provider_name mc "options_for_model opts mc"]
  by (simp add: request_is_base)

subsection \<open>Thinking replayed without a configuration\<close>

definition sample_anthropic_env :: anthropic_env where
  "sample_anthropic_env = \<lparr>an_text = oa_text sample_openai_env, an_show_error = ed_message,
     an_temperature = (\<lambda>t. JNull), an_canonical = (\<lambda>p m. None)\<rparr>"

definition unconfigured_model :: model_config where
  "unconfigured_model = \<lparr>mc_model_name = ''m'', mc_temperature = None, mc_max_tokens = None, mc_request_params = None,
     mc_supports_vision = None, mc_reasoning = None\<rparr>"

text \<open>
  A comment says that the service rejects thinking blocks without a thinking configuration; a model without an effort
  is sent none, but its history keeps its thinking blocks.
\<close>

definition sample_thinking_turn :: "message list" where
  "sample_thinking_turn = [message_new User 1 [Text (text_content_new ''hi'')],
     message_new Assistant 2 [Thinking \<lparr>th_thinking = ''t'', th_signature = ''s''\<rparr>, Text (text_content_new ''yes'')]]"

lemma thinking_replayed_unconfigured:
  "anthropic_request sample_anthropic_env ''anthropic'' unconfigured_model ''m'' [] sample_thinking_turn []
     (anthropic_options_native\<lparr>ao_cache_ttl := Some OneHour\<rparr>) = Inr (JObject
       [(''model'', JString ''m''),
        (''messages'', JArray
          [role_message ''user'' (JArray [JObject [(''type'', JString ''text''), (''text'', JString ''hi''),
             (''cache_control'', JObject [(''type'', JString ''ephemeral''), (''ttl'', JString ''1h'')])]]),
           role_message ''assistant'' (JArray
             [JObject [(''type'', JString ''thinking''), (''thinking'', JString ''t''), (''signature'', JString ''s'')],
              text_item ''yes''])]),
        (''max_tokens'', json_i32 4096)])"
  by code_simp

end
