(* ===== verification/Anthropic_Stream.thy ===== *)
theory Anthropic_Stream
  imports Anthropic_Request
begin

section \<open>Responses in the format of Anthropic\<close>

text \<open>
  The decoding of whole answers and of streams by \<open>formats/anthropic.rs\<close> of
  \<open>crates/goose-provider-types\<close>. Beside the environment of the other decoder, the fields of
  \<open>anthropic_reader\<close> are the Unicode operations of a text and \<open>object\<close> of the protocol crate, which
  makes an object of the arguments of a call. An event is decoded from the parsed object; a text that repeats its
  \<open>type\<close> key is not distinguished.
\<close>

record anthropic_reader =
  ar_response :: response_env
  ar_text :: text_env
  ar_object :: "json \<Rightarrow> json_object"

subsection \<open>Whole answers\<close>

definition plain_call :: "string \<Rightarrow> json_object \<Rightarrow> call_tool_request_params tool_result" where
  "plain_call name args = Inr \<lparr>ctp_name = name, ctp_arguments = Some args, ctp_rest = JNull\<rparr>"

text \<open>A block adds at most one block to the message, or fails the answer.\<close>

definition anthropic_answer_block :: "anthropic_reader \<Rightarrow> json \<Rightarrow> string + message_content_block list" where
  "anthropic_answer_block env block =
     (case json_str ''type'' block of
        None \<Rightarrow> Inr []
      | Some ty \<Rightarrow>
          if ty = ''text'' then
            Inr (case json_str ''text'' block of
                   Some t \<Rightarrow> [text_block (sanitize_unicode_tags (ar_text env) t)] | None \<Rightarrow> [])
          else if ty = ''tool_use'' then
            (case json_str ''id'' block of
               None \<Rightarrow> Inl ''Missing tool_use id''
             | Some i \<Rightarrow>
                 (case json_str ''name'' block of
                    None \<Rightarrow> Inl ''Missing tool_use name''
                  | Some name \<Rightarrow>
                      (case json_get ''input'' block of
                         None \<Rightarrow> Inl ''Missing tool_use input''
                       | Some v \<Rightarrow> Inr [tool_request_with_metadata i (plain_call name (ar_object env v)) None])))
          else if ty = ''thinking'' then
            (case json_str ''thinking'' block of
               None \<Rightarrow> Inl ''Missing thinking content''
             | Some t \<Rightarrow> Inr [thinking_block t (unwrap_or (json_str ''signature'' block) [])])
          else if ty = ''redacted_thinking'' then
            (case json_str ''data'' block of
               None \<Rightarrow> Inl ''Missing redacted_thinking data'' | Some d \<Rightarrow> Inr [RedactedThinking d])
          else Inr [])"

fun anthropic_answer_blocks :: "anthropic_reader \<Rightarrow> json list \<Rightarrow> string + message_content_block list" where
  "anthropic_answer_blocks env [] = Inr []"
| "anthropic_answer_blocks env (b # bs) =
     (case anthropic_answer_block env b of
        Inl e \<Rightarrow> Inl e
      | Inr xs \<Rightarrow> (case anthropic_answer_blocks env bs of Inl e \<Rightarrow> Inl e | Inr ys \<Rightarrow> Inr (xs @ ys)))"

definition anthropic_answer :: "anthropic_reader \<Rightarrow> json \<Rightarrow> string + message" where
  "anthropic_answer env response =
     (case json_get ''content'' response of
        Some (JArray blocks) \<Rightarrow>
          (case anthropic_answer_blocks env blocks of
             Inl e \<Rightarrow> Inl e | Inr content \<Rightarrow> Inr (message_new Assistant (re_now (ar_response env) 0) content))
      | _ \<Rightarrow> Inl ''Invalid response format: missing content array'')"

subsection \<open>Usage and other data\<close>

definition usage_field :: "string \<Rightarrow> json \<Rightarrow> i32 option" where
  "usage_field k u =
     map_option (\<lambda>n. word_of_int (min (uint n) (2 ^ 31 - 1))) (Option.bind (json_get k u) as_u64)"

definition usage_from_anthropic_fields :: "json \<Rightarrow> usage" where
  "usage_from_anthropic_fields u =
     from_cache_exclusive_input (Some (unwrap_or (usage_field ''input_tokens'' u) 0))
       (Some (unwrap_or (usage_field ''output_tokens'' u) 0)) None
       (usage_field ''cache_read_input_tokens'' u) (usage_field ''cache_creation_input_tokens'' u)"

definition reports :: "string \<Rightarrow> json \<Rightarrow> bool" where
  "reports k data \<longleftrightarrow> json_get k data \<noteq> None"

definition merge_delta_usage :: "usage \<Rightarrow> usage \<Rightarrow> json \<Rightarrow> usage" where
  "merge_delta_usage existing delta data =
     (let outp = (if reports ''output_tokens'' data then u_output_tokens delta else u_output_tokens existing) in
      if \<not> reports ''input_tokens'' data
      then with_cache_tokens (u_cache_read_input_tokens existing) (u_cache_write_input_tokens existing)
             (usage_new (u_input_tokens existing) outp None)
      else if reports ''cache_read_input_tokens'' data \<or> reports ''cache_creation_input_tokens'' data
      then with_cache_tokens (u_cache_read_input_tokens delta) (u_cache_write_input_tokens delta)
             (usage_new (u_input_tokens delta) outp None)
      else from_cache_exclusive_input (u_input_tokens delta) outp None
             (u_cache_read_input_tokens existing) (u_cache_write_input_tokens existing))"

definition anthropic_usage :: "json \<Rightarrow> usage" where
  "anthropic_usage data =
     (case json_get ''usage'' data of
        Some u \<Rightarrow> usage_from_anthropic_fields u
      | None \<Rightarrow>
          (let u = usage_from_anthropic_fields data in
           if is_json_object data \<and> 0 < sint (unwrap_or (u_total_tokens u) 0) then u else usage_new None None None))"

definition ADDITIONAL_USAGE_FIELDS :: "string list" where "ADDITIONAL_USAGE_FIELDS = [''service_tier'']"

definition input_transformations :: "json \<Rightarrow> json option" where
  "input_transformations message_data =
     (case json_get ''input_transformations'' message_data of Some (JArray ts) \<Rightarrow> Some (JArray ts) | _ \<Rightarrow> None)"

definition get_additional_data :: "json \<Rightarrow> json_object option" where
  "get_additional_data data =
     (case json_get ''usage'' data of
        Some (JObject kvs) \<Rightarrow>
          (let additional = filter_map (\<lambda>f. map_option (\<lambda>v. (f, v)) (map_of kvs f)) ADDITIONAL_USAGE_FIELDS in
           if additional = [] then None else Some additional)
      | _ \<Rightarrow> None)"

definition provider_usage_with_cost ::
    "response_env \<Rightarrow> string \<Rightarrow> usage \<Rightarrow> json \<Rightarrow> f64_bits option \<Rightarrow> provider_usage" where
  "provider_usage_with_cost env model u data fallback_cost =
     (case or_else (get_cost env data) fallback_cost of
        Some c \<Rightarrow> with_cost c ProviderReported (provider_usage_new model u)
      | None \<Rightarrow> provider_usage_new model u)"

subsection \<open>The events of a stream\<close>

datatype stream_event = EventSkipped | EventsDone | EventSourceError string | StreamEvent string json

definition read_event :: "response_env \<Rightarrow> string \<Rightarrow> stream_event" where
  "read_event env data_part =
     (case re_from_str env data_part of
        Some (JObject kvs) \<Rightarrow>
          (case map_of kvs ''type'' of
             Some (JString ty) \<Rightarrow> StreamEvent ty (JObject (AList.delete ''type'' kvs))
           | _ \<Rightarrow> EventSkipped)
      | _ \<Rightarrow> EventSkipped)"

definition read_event_line :: "response_env \<Rightarrow> stream_line \<Rightarrow> stream_event" where
  "read_event_line env l =
     (case l of
        Inl e \<Rightarrow> EventSourceError e
      | Inr line \<Rightarrow>
          if trim line = [] then EventSkipped
          else (case or_else (strip_prefix ''data: '' line) (strip_prefix ''data:'' line) of
                  None \<Rightarrow> EventSkipped
                | Some data_part \<Rightarrow> if trim data_part = ''[DONE]'' then EventsDone else read_event env data_part))"

datatype content_block_delta =
    TextDelta string
  | InputJsonDelta string
  | ThinkingDelta string
  | SignatureDelta string

definition make_delta :: "string \<Rightarrow> (string \<Rightarrow> string option) \<Rightarrow> content_block_delta option" where
  "make_delta ty field =
     (if ty = ''text_delta'' then map_option TextDelta (field ''text'')
      else if ty = ''input_json_delta'' then map_option InputJsonDelta (field ''partial_json'')
      else if ty = ''thinking_delta'' then map_option ThinkingDelta (field ''thinking'')
      else if ty = ''signature_delta'' then map_option SignatureDelta (field ''signature'')
      else None)"

definition read_block_delta :: "json \<Rightarrow> content_block_delta option" where
  "read_block_delta v =
     (case v of
        JObject _ \<Rightarrow> Option.bind (json_str ''type'' v) (\<lambda>ty. make_delta ty (\<lambda>k. json_str k v))
      | JArray [JString ty, JString s] \<Rightarrow> make_delta ty (\<lambda>_. Some s)
      | _ \<Rightarrow> None)"

definition block_index :: "json \<Rightarrow> i32 option" where
  "block_index data = map_option word_of_int (Option.bind (json_get ''index'' data) as_i64)"

subsection \<open>The state of a decoder\<close>

text \<open>A call under construction has its identifier, its name and the arguments received.\<close>

record anthropic_state =
  as_calls :: "(i32 \<times> string \<times> string \<times> string) list"
  as_usage :: "provider_usage option"
  as_message_id :: "string option"
  as_thinking :: "(string \<times> string) option"
  as_stop_reason :: "string option"
  as_additional :: "json_object option"
  as_out :: "decoded_item list"

definition anthropic_start :: anthropic_state where
  "anthropic_start =
     \<lparr>as_calls = [], as_usage = None, as_message_id = None, as_thinking = None, as_stop_reason = None,
      as_additional = None, as_out = []\<rparr>"

definition put_item :: "decoded_item \<Rightarrow> anthropic_state \<Rightarrow> anthropic_state" where
  "put_item x st = st\<lparr>as_out := as_out st @ [x]\<rparr>"

definition put_message :: "anthropic_reader \<Rightarrow> message_content_block list \<Rightarrow> anthropic_state \<Rightarrow> anthropic_state" where
  "put_message env content st =
     put_item (Some ((message_new Assistant (re_now (ar_response env) (length (as_out st))) content)
       \<lparr>m_id := as_message_id st\<rparr>), None) st"

subsection \<open>What an event does\<close>

definition model_name_of :: "json \<Rightarrow> string" where
  "model_name_of data = unwrap_or (json_str ''model'' data) ''unknown''"

definition message_start :: "anthropic_reader \<Rightarrow> json \<Rightarrow> anthropic_state \<Rightarrow> anthropic_state" where
  "message_start env data st =
     (case json_get ''message'' data of
        None \<Rightarrow> st
      | Some md \<Rightarrow>
          (let additional = (case input_transformations md of
                 Some ts \<Rightarrow> Some (AList.update ''input_transformations'' ts (unwrap_or (get_additional_data md) []))
               | None \<Rightarrow> get_additional_data md);
               st1 = st\<lparr>as_additional := additional, as_message_id := or_else (json_str ''id'' md) (as_message_id st)\<rparr> in
           case json_get ''usage'' md of
             None \<Rightarrow> st1
           | Some u \<Rightarrow>
               st1\<lparr>as_usage := Some (provider_usage_with_cost (ar_response env) (model_name_of md) (anthropic_usage u) u None)\<rparr>))"

definition open_call :: "json \<Rightarrow> json \<Rightarrow> (i32 \<times> string \<times> string) option" where
  "open_call data block =
     (case (block_index data, json_str ''id'' block, json_str ''name'' block) of
        (Some k, Some i, Some name) \<Rightarrow> Some (k, i, name) | _ \<Rightarrow> None)"

definition content_block_start :: "anthropic_reader \<Rightarrow> json \<Rightarrow> anthropic_state \<Rightarrow> anthropic_state" where
  "content_block_start env data st =
     (case json_get ''content_block'' data of
        None \<Rightarrow> st
      | Some block \<Rightarrow>
          (case json_str ''type'' block of
             None \<Rightarrow> st
           | Some ty \<Rightarrow>
               if ty = ''tool_use'' then
                 (case open_call data block of
                    Some (k, i, name) \<Rightarrow> st\<lparr>as_calls := AList.update k (i, name, []) (as_calls st)\<rparr> | None \<Rightarrow> st)
               else if ty = ''thinking'' then
                 st\<lparr>as_thinking := Some (unwrap_or (json_str ''thinking'' block) [], unwrap_or (json_str ''signature'' block) [])\<rparr>
               else if ty = ''redacted_thinking'' then
                 (case json_str ''data'' block of Some d \<Rightarrow> put_message env [RedactedThinking d] st | None \<Rightarrow> st)
               else st))"

definition append_arguments :: "i32 \<Rightarrow> string \<Rightarrow> anthropic_state \<Rightarrow> anthropic_state" where
  "append_arguments k s st =
     (case map_of (as_calls st) k of
        Some (i, name, args) \<Rightarrow> st\<lparr>as_calls := AList.update k (i, name, args @ s) (as_calls st)\<rparr> | None \<Rightarrow> st)"

definition take_block_delta :: "anthropic_reader \<Rightarrow> json \<Rightarrow> anthropic_state \<Rightarrow> anthropic_state" where
  "take_block_delta env data st =
     (case Option.bind (json_get ''delta'' data) read_block_delta of
        None \<Rightarrow> st
      | Some (TextDelta t) \<Rightarrow> put_message env [text_block (sanitize_unicode_tags (ar_text env) t)] st
      | Some (InputJsonDelta s) \<Rightarrow> (case block_index data of Some k \<Rightarrow> append_arguments k s st | None \<Rightarrow> st)
      | Some (ThinkingDelta t) \<Rightarrow> st\<lparr>as_thinking := map_option (\<lambda>(x, s). (x @ t, s)) (as_thinking st)\<rparr>
      | Some (SignatureDelta s) \<Rightarrow> st\<lparr>as_thinking := map_option (\<lambda>(x, y). (x, y @ s)) (as_thinking st)\<rparr>)"

definition finished_call :: "anthropic_reader \<Rightarrow> string \<Rightarrow> string \<Rightarrow> call_tool_request_params tool_result" where
  "finished_call env name args =
     (if args = [] then plain_call name (ar_object env (JObject []))
      else (case parse_tool_arguments (re_from_str (ar_response env)) args of
              Some parsed \<Rightarrow> plain_call name (ar_object env parsed)
            | None \<Rightarrow>
                Inl (invalid_params (case truncation_error_message (re_from_str (ar_response env)) args of
                       Some t \<Rightarrow> t | None \<Rightarrow> ''Could not parse tool arguments: '' @ args))))"

definition flush_thinking :: "anthropic_reader \<Rightarrow> anthropic_state \<Rightarrow> anthropic_state" where
  "flush_thinking env st =
     (case as_thinking st of
        None \<Rightarrow> st
      | Some (t, s) \<Rightarrow>
          (let st1 = st\<lparr>as_thinking := None\<rparr> in
           if t \<noteq> [] \<or> s \<noteq> [] then put_message env [thinking_block t s] st1 else st1))"

definition close_call :: "anthropic_reader \<Rightarrow> i32 \<Rightarrow> anthropic_state \<Rightarrow> anthropic_state" where
  "close_call env k st =
     (case map_of (as_calls st) k of
        None \<Rightarrow> st
      | Some (i, name, args) \<Rightarrow>
          put_message env [tool_request_with_provider_index i (finished_call env name args) None k]
            (st\<lparr>as_calls := AList.delete k (as_calls st)\<rparr>))"

definition content_block_stop :: "anthropic_reader \<Rightarrow> json \<Rightarrow> anthropic_state \<Rightarrow> anthropic_state" where
  "content_block_stop env data st =
     (case block_index data of
        Some k \<Rightarrow> close_call env k (flush_thinking env st) | None \<Rightarrow> flush_thinking env st)"

definition delta_usage :: "anthropic_reader \<Rightarrow> json \<Rightarrow> anthropic_state \<Rightarrow> anthropic_state" where
  "delta_usage env data st =
     (case json_get ''usage'' data of
        None \<Rightarrow> st
      | Some u \<Rightarrow>
          st\<lparr>as_usage := Some (case as_usage st of
               Some e \<Rightarrow>
                 provider_usage_with_cost (ar_response env) (pu_model e)
                   (merge_delta_usage (pu_usage e) (anthropic_usage u) u) u (pu_cost e)
             | None \<Rightarrow> provider_usage_with_cost (ar_response env) (model_name_of data) (anthropic_usage u) u None)\<rparr>)"

definition REFUSAL_FALLBACK_DETAILS :: string where
  "REFUSAL_FALLBACK_DETAILS = ''No additional details were provided.''"

definition stop_details_of :: "json \<Rightarrow> json option" where
  "stop_details_of delta =
     (case json_get ''stop_details'' delta of Some JNull \<Rightarrow> None | d \<Rightarrow> d)"

definition refusal_error :: "response_env \<Rightarrow> json option \<Rightarrow> provider_error" where
  "refusal_error env details =
     Refusal
       (unwrap_or (or_else (Option.bind details (json_str ''explanation'')) (map_option (re_to_string env) details))
         REFUSAL_FALLBACK_DETAILS)
       (Option.bind details (json_str ''category''))"

text \<open>The usage of a refused request is delivered before the error.\<close>

definition refuse :: "anthropic_state \<Rightarrow> anthropic_state" where
  "refuse st =
     (case as_usage st of
        Some u \<Rightarrow>
          put_item (None, Some (u\<lparr>pu_finish_reasons := Some [''refusal''], pu_response_id := as_message_id st,
            pu_additional_data := as_additional st\<rparr>)) (st\<lparr>as_usage := None\<rparr>)
      | None \<Rightarrow> st)"

definition see_stop_reason :: "json \<Rightarrow> anthropic_state \<Rightarrow> anthropic_state" where
  "see_stop_reason delta st = st\<lparr>as_stop_reason := or_else (as_stop_reason st) (json_str ''stop_reason'' delta)\<rparr>"

text \<open>The state after the event, and the error with which it ends the stream.\<close>

definition message_delta :: "anthropic_reader \<Rightarrow> json \<Rightarrow> anthropic_state \<Rightarrow> anthropic_state \<times> provider_error option" where
  "message_delta env data st =
     (let st1 = delta_usage env data st in
      case json_get ''delta'' data of
        None \<Rightarrow> (st1, None)
      | Some delta \<Rightarrow>
          (let st2 = see_stop_reason delta st1 in
           if json_str ''stop_reason'' delta = Some ''refusal''
           then (refuse st2, Some (refusal_error (ar_response env) (stop_details_of delta)))
           else (case stop_details_of delta of
                   Some d \<Rightarrow>
                     (put_message env [text_block (sanitize_unicode_tags (ar_text env)
                        (''The provider ended the response with: '' @ re_to_string (ar_response env) d))] st2, None)
                 | None \<Rightarrow> (st2, None))))"

definition message_stop :: "anthropic_reader \<Rightarrow> json \<Rightarrow> anthropic_state \<Rightarrow> anthropic_state" where
  "message_stop env data st =
     (case json_get ''usage'' data of
        None \<Rightarrow> st
      | Some u \<Rightarrow>
          st\<lparr>as_usage := Some (provider_usage_with_cost (ar_response env) (model_name_of data) (anthropic_usage u) u
            (Option.bind (as_usage st) pu_cost))\<rparr>)"

datatype event_outcome = EventTaken anthropic_state | EventsEnd anthropic_state | EventsFailed anthropic_state provider_error

definition take_event :: "anthropic_reader \<Rightarrow> string \<Rightarrow> json \<Rightarrow> anthropic_state \<Rightarrow> event_outcome" where
  "take_event env ty data st =
     (if ty = ''message_start'' then EventTaken (message_start env data st)
      else if ty = ''content_block_start'' then EventTaken (content_block_start env data st)
      else if ty = ''content_block_delta'' then EventTaken (take_block_delta env data st)
      else if ty = ''content_block_stop'' then EventTaken (content_block_stop env data st)
      else if ty = ''message_delta'' then
        (case message_delta env data st of (st1, None) \<Rightarrow> EventTaken st1 | (st1, Some e) \<Rightarrow> EventsFailed st1 e)
      else if ty = ''message_stop'' then EventsEnd (message_stop env data st)
      else EventTaken st)"

subsection \<open>The end of a stream\<close>

definition unfinished_call_error :: "bool \<Rightarrow> string \<Rightarrow> error_data" where
  "unfinished_call_error limit args =
     (let cs = str_chars args in
      invalid_params
        ((if limit then truncation_guidance True
          else ''A tool call was not completed before the stream ended. Try resending your message or breaking ''
            @ ''the task into smaller steps.'')
         @ [NL] @ ''Received '' @ show_nat (length cs) @ '' characters of arguments; cut off at: ''
         @ [CHR 0xE2, CHR 0x80, CHR 0xA6] @ concat (rev (take 80 (rev cs)))))"

fun deliver_unfinished :: "anthropic_reader \<Rightarrow> (i32 \<times> string \<times> string \<times> string) list \<Rightarrow> anthropic_state \<Rightarrow> anthropic_state" where
  "deliver_unfinished env [] st = st"
| "deliver_unfinished env ((k, i, name, args) # calls) st =
     deliver_unfinished env calls
       (put_message env
         [tool_request_with_provider_index i (Inl (unfinished_call_error (as_stop_reason st = Some ''max_tokens'') args)) None k]
         (st\<lparr>as_calls := AList.delete k (as_calls st)\<rparr>))"

definition finish_limit :: "anthropic_reader \<Rightarrow> anthropic_state \<Rightarrow> anthropic_state" where
  "finish_limit env st =
     (if as_stop_reason st = Some ''max_tokens''
      then put_item (Some (mark_output_limit True
             ((message_new Assistant (re_now (ar_response env) (length (as_out st))) [])\<lparr>m_id := as_message_id st\<rparr>)), None) st
      else st)"

definition finish_usage :: "anthropic_state \<Rightarrow> anthropic_state" where
  "finish_usage st =
     (case as_usage st of
        None \<Rightarrow> st
      | Some u \<Rightarrow>
          put_item (None, Some (u\<lparr>
            pu_finish_reasons := (case as_stop_reason st of Some r \<Rightarrow> Some [r] | None \<Rightarrow> pu_finish_reasons u),
            pu_response_id := or_else (as_message_id st) (pu_response_id u),
            pu_additional_data := as_additional st\<rparr>)) st)"

definition finish_events :: "anthropic_reader \<Rightarrow> anthropic_state \<Rightarrow> anthropic_state" where
  "finish_events env st =
     finish_usage (finish_limit env (deliver_unfinished env (sort_key (\<lambda>x. sint (fst x)) (as_calls st)) st))"

text \<open>The state in which the loop ends, and the error it ends with if it fails.\<close>

fun event_loop :: "anthropic_reader \<Rightarrow> stream_line list \<Rightarrow> anthropic_state \<Rightarrow> anthropic_state \<times> stream_error option" where
  "event_loop env [] st = (st, None)"
| "event_loop env (l # ls) st =
     (case read_event_line (ar_response env) l of
        EventSkipped \<Rightarrow> event_loop env ls st
      | EventsDone \<Rightarrow> (st, None)
      | EventSourceError e \<Rightarrow> (st, Some (SourceError e))
      | StreamEvent ty data \<Rightarrow>
          (case take_event env ty data st of
             EventTaken st1 \<Rightarrow> event_loop env ls st1
           | EventsEnd st1 \<Rightarrow> (st1, None)
           | EventsFailed st1 e \<Rightarrow> (st1, Some (FrameError e))))"

definition anthropic_stream :: "anthropic_reader \<Rightarrow> stream_line list \<Rightarrow> (stream_error + decoded_item) list" where
  "anthropic_stream env ls =
     (case event_loop env ls anthropic_start of
        (st, None) \<Rightarrow> map Inr (as_out (finish_events env st))
      | (st, Some e) \<Rightarrow> map Inr (as_out st) @ [Inl e])"

subsection \<open>The calls of a stream\<close>

text \<open>What an event says of the calls: the call it opens, the index it closes, and the piece it adds to the arguments
  of one index.\<close>

definition opens_call :: "string \<times> json \<Rightarrow> (i32 \<times> string \<times> string) option" where
  "opens_call e =
     (if fst e = ''content_block_start''
      then Option.bind (json_get ''content_block'' (snd e))
             (\<lambda>b. if json_str ''type'' b = Some ''tool_use'' then open_call (snd e) b else None)
      else None)"

definition closes_index :: "string \<times> json \<Rightarrow> i32 option" where
  "closes_index e = (if fst e = ''content_block_stop'' then block_index (snd e) else None)"

definition arguments_piece :: "i32 \<Rightarrow> string \<times> json \<Rightarrow> string" where
  "arguments_piece k e =
     (if fst e = ''content_block_delta'' \<and> block_index (snd e) = Some k
      then (case Option.bind (json_get ''delta'' (snd e)) read_block_delta of Some (InputJsonDelta s) \<Rightarrow> s | _ \<Rightarrow> [])
      else [])"

definition touches_index :: "i32 \<Rightarrow> string \<times> json \<Rightarrow> bool" where
  "touches_index k e \<longleftrightarrow> closes_index e = Some k \<or> map_option fst (opens_call e) = Some k"

definition ends_stream :: "string \<Rightarrow> json \<Rightarrow> bool" where
  "ends_stream ty data \<longleftrightarrow>
     ty = ''message_stop''
     \<or> ty = ''message_delta'' \<and> Option.bind (json_get ''delta'' data) (json_str ''stop_reason'') = Some ''refusal''"

text \<open>The events of a stream, up to the one that ends it or the first line that fails.\<close>

fun events_read :: "response_env \<Rightarrow> stream_line list \<Rightarrow> (string \<times> json) list" where
  "events_read env [] = []"
| "events_read env (l # ls) =
     (case read_event_line env l of
        EventSkipped \<Rightarrow> events_read env ls
      | StreamEvent ty data \<Rightarrow> (ty, data) # (if ends_stream ty data then [] else events_read env ls)
      | _ \<Rightarrow> [])"

text \<open>A call that is open after the events, and one that they closed.\<close>

definition open_in :: "(string \<times> json) list \<Rightarrow> i32 \<Rightarrow> string \<Rightarrow> string \<Rightarrow> string \<Rightarrow> bool" where
  "open_in evs k i name args \<longleftrightarrow>
     (\<exists>pre e mid. evs = pre @ e # mid \<and> opens_call e = Some (k, i, name) \<and> list_all (\<lambda>x. \<not> touches_index k x) mid
        \<and> args = concat (map (arguments_piece k) mid))"

definition closed_in :: "anthropic_reader \<Rightarrow> (string \<times> json) list \<Rightarrow> string \<Rightarrow> call_tool_request_params \<Rightarrow> bool" where
  "closed_in env evs i c \<longleftrightarrow>
     (\<exists>pre e mid e1 post k name. evs = pre @ e # mid @ e1 # post \<and> opens_call e = Some (k, i, name)
        \<and> list_all (\<lambda>x. \<not> touches_index k x) mid \<and> closes_index e1 = Some k
        \<and> finished_call env name (concat (map (arguments_piece k) mid)) = Inr c)"

lemma open_in_snoc:
  "open_in (evs @ [e]) k i name args \<longleftrightarrow>
     (opens_call e = Some (k, i, name) \<and> args = [])
     \<or> (\<not> touches_index k e \<and> (\<exists>a. open_in evs k i name a \<and> args = a @ arguments_piece k e))"
proof
  assume "open_in (evs @ [e]) k i name args"
  then obtain pre e0 mid where o: "evs @ [e] = pre @ e0 # mid" "opens_call e0 = Some (k, i, name)"
    "list_all (\<lambda>x. \<not> touches_index k x) mid" "args = concat (map (arguments_piece k) mid)" unfolding open_in_def by blast
  show "(opens_call e = Some (k, i, name) \<and> args = []) \<or> (\<not> touches_index k e \<and> (\<exists>a. open_in evs k i name a \<and> args = a @ arguments_piece k e))"
  proof (cases mid rule: rev_cases)
    case Nil
    with o show ?thesis by simp
  next
    case (snoc mid1 x)
    with o(1) have evs: "evs = pre @ e0 # mid1" "x = e" by simp_all
    from o(3) snoc have mid: "list_all (\<lambda>x. \<not> touches_index k x) mid1" "\<not> touches_index k e" by (simp_all add: evs(2))
    with evs(1) o(2) have "open_in evs k i name (concat (map (arguments_piece k) mid1))" unfolding open_in_def by blast
    moreover have "args = concat (map (arguments_piece k) mid1) @ arguments_piece k e" using o(4) snoc evs(2) by simp
    ultimately show ?thesis using mid(2) by blast
  qed
next
  assume "(opens_call e = Some (k, i, name) \<and> args = []) \<or> (\<not> touches_index k e \<and> (\<exists>a. open_in evs k i name a \<and> args = a @ arguments_piece k e))"
  then show "open_in (evs @ [e]) k i name args"
  proof (elim disjE conjE exE)
    assume "opens_call e = Some (k, i, name)" "args = []"
    then show ?thesis unfolding open_in_def by (intro exI [of _ evs] exI [of _ e] exI [of _ "[]"]) simp
  next
    fix a assume e: "\<not> touches_index k e" "open_in evs k i name a" "args = a @ arguments_piece k e"
    then obtain pre e0 mid where "evs = pre @ e0 # mid" "opens_call e0 = Some (k, i, name)"
      "list_all (\<lambda>x. \<not> touches_index k x) mid" "a = concat (map (arguments_piece k) mid)" unfolding open_in_def by blast
    with e show ?thesis unfolding open_in_def by (intro exI [of _ pre] exI [of _ e0] exI [of _ "mid @ [e]"]) simp
  qed
qed

lemma closed_in_snoc:
  "closed_in env (evs @ [e]) i c \<longleftrightarrow>
     closed_in env evs i c
     \<or> (\<exists>k name a. closes_index e = Some k \<and> open_in evs k i name a \<and> finished_call env name a = Inr c)"
proof
  assume "closed_in env (evs @ [e]) i c"
  then obtain pre e0 mid e1 post k name where o: "evs @ [e] = pre @ e0 # mid @ e1 # post" "opens_call e0 = Some (k, i, name)"
    "list_all (\<lambda>x. \<not> touches_index k x) mid" "closes_index e1 = Some k" "finished_call env name (concat (map (arguments_piece k) mid)) = Inr c"
    unfolding closed_in_def by blast
  show "closed_in env evs i c \<or> (\<exists>k name a. closes_index e = Some k \<and> open_in evs k i name a \<and> finished_call env name a = Inr c)"
  proof (cases post rule: rev_cases)
    case Nil
    with o(1) have "evs = pre @ e0 # mid" "e1 = e" by simp_all
    with o(2-5) show ?thesis unfolding open_in_def by blast
  next
    case (snoc post1 x)
    with o(1) have "evs = pre @ e0 # mid @ e1 # post1" by simp
    with o(2-5) show ?thesis unfolding closed_in_def by blast
  qed
next
  assume "closed_in env evs i c \<or> (\<exists>k name a. closes_index e = Some k \<and> open_in evs k i name a \<and> finished_call env name a = Inr c)"
  then show "closed_in env (evs @ [e]) i c"
  proof
    assume "closed_in env evs i c"
    then obtain pre e0 mid e1 post k name where "evs = pre @ e0 # mid @ e1 # post" and o: "opens_call e0 = Some (k, i, name)"
      "list_all (\<lambda>x. \<not> touches_index k x) mid" "closes_index e1 = Some k" "finished_call env name (concat (map (arguments_piece k) mid)) = Inr c"
      unfolding closed_in_def by blast
    then have "evs @ [e] = pre @ e0 # mid @ e1 # (post @ [e])" by simp
    with o show ?thesis unfolding closed_in_def by blast
  next
    assume "\<exists>k name a. closes_index e = Some k \<and> open_in evs k i name a \<and> finished_call env name a = Inr c"
    then obtain k name pre e0 mid where "evs = pre @ e0 # mid" and o: "opens_call e0 = Some (k, i, name)"
      "list_all (\<lambda>x. \<not> touches_index k x) mid" "closes_index e = Some k" "finished_call env name (concat (map (arguments_piece k) mid)) = Inr c"
      unfolding open_in_def by blast
    then have "evs @ [e] = pre @ e0 # mid @ e # []" by simp
    with o show ?thesis unfolding closed_in_def by blast
  qed
qed

subsubsection \<open>What the state holds of them\<close>

definition executable_in :: "decoded_item list \<Rightarrow> string \<Rightarrow> call_tool_request_params \<Rightarrow> bool" where
  "executable_in out i c \<longleftrightarrow>
     (\<exists>m u r. (Some m, u) \<in> set out \<and> ToolRequest r \<in> set (m_content m) \<and> tr_id r = i \<and> tr_tool_call r = Inr c)"

lemma executable_simps [simp]:
  "\<not> executable_in [] i c" "executable_in (xs @ ys) i c \<longleftrightarrow> executable_in xs i c \<or> executable_in ys i c"
  "\<not> executable_in [(None, u)] i c"
  by (auto simp: executable_in_def)

lemma put_item_simps [simp]:
  "as_calls (put_item x st) = as_calls st" "as_out (put_item x st) = as_out st @ [x]"
  "as_stop_reason (put_item x st) = as_stop_reason st" "as_message_id (put_item x st) = as_message_id st"
  "as_usage (put_item x st) = as_usage st" "as_additional (put_item x st) = as_additional st"
  by (simp_all add: put_item_def)

lemma put_message_simps [simp]:
  "as_calls (put_message env content st) = as_calls st" "as_stop_reason (put_message env content st) = as_stop_reason st"
  by (simp_all add: put_message_def)

lemma put_message_executable [simp]:
  "executable_in (as_out (put_message env content st)) i c \<longleftrightarrow>
     executable_in (as_out st) i c \<or> (\<exists>r. ToolRequest r \<in> set content \<and> tr_id r = i \<and> tr_tool_call r = Inr c)"
proof -
  have "executable_in [(Some m, u)] i c \<longleftrightarrow> (\<exists>r. ToolRequest r \<in> set (m_content m) \<and> tr_id r = i \<and> tr_tool_call r = Inr c)" for m u
    by (auto simp: executable_in_def)
  then show ?thesis by (simp add: put_message_def message_new_def)
qed

lemma block_not_request [simp]:
  "ToolRequest r \<noteq> text_block t" "ToolRequest r \<noteq> thinking_block t s"
  by (simp_all add: text_block_def thinking_block_def)

lemma request_is:
  "ToolRequest r = tool_request_with_provider_index i res md k \<longleftrightarrow>
     r = \<lparr>tr_id = i, tr_tool_call = res, tr_metadata = md, tr_tool_meta = Some (JObject [(TOOL_META_PROVIDER_INDEX_KEY, json_i32 k)])\<rparr>"
  by (simp add: tool_request_with_provider_index_def)

text \<open>A step that does not concern the calls.\<close>

definition leaves_calls :: "anthropic_state \<Rightarrow> anthropic_state \<Rightarrow> bool" where
  "leaves_calls st st1 \<longleftrightarrow> as_calls st1 = as_calls st \<and> (\<forall>i c. executable_in (as_out st1) i c = executable_in (as_out st) i c)"

lemma leaves_refl [simp]: "leaves_calls st st"
  by (simp add: leaves_calls_def)

lemma start_leaves: "leaves_calls st (message_start env data st)"
  by (simp add: message_start_def leaves_calls_def Let_def split: option.split)

lemma thinking_leaves: "leaves_calls st (flush_thinking env st)"
  by (simp add: flush_thinking_def leaves_calls_def Let_def split: option.split prod.split)

lemma usage_leaves: "leaves_calls st (delta_usage env data st)" "leaves_calls st (message_stop env data st)"
  by (simp_all add: delta_usage_def message_stop_def leaves_calls_def split: option.split)

lemma refuse_leaves: "leaves_calls st (refuse st)" "leaves_calls st (see_stop_reason d st)"
  by (simp_all add: refuse_def see_stop_reason_def leaves_calls_def split: option.split)

lemma leaves_trans: "leaves_calls st st1 \<Longrightarrow> leaves_calls st1 st2 \<Longrightarrow> leaves_calls st st2"
  by (simp add: leaves_calls_def)

lemma text_leaves: "leaves_calls st (put_message env [text_block t] st)"
  by (simp add: leaves_calls_def)

lemma delta_leaves: "leaves_calls st (fst (message_delta env data st))"
proof -
  let ?st = "delta_usage env data st"
  have step: "leaves_calls st st1" if "leaves_calls ?st st1" for st1
    using leaves_trans [OF usage_leaves(1) that] .
  have seen: "leaves_calls ?st st1" if "leaves_calls (see_stop_reason d ?st) st1" for d st1
    using leaves_trans [OF refuse_leaves(2) that] .
  show ?thesis
  proof (cases "json_get ''delta'' data")
    case None
    then show ?thesis by (simp add: message_delta_def step)
  next
    case (Some d)
    have "leaves_calls (see_stop_reason d ?st) (fst (message_delta env data st))"
      using refuse_leaves(1) text_leaves by (simp add: message_delta_def Some Let_def split: option.split)
    then show ?thesis by (intro step seen)
  qed
qed

text \<open>The calls of the state follow the events.\<close>

definition follows :: "anthropic_reader \<Rightarrow> (string \<times> json) list \<Rightarrow> anthropic_state \<Rightarrow> bool" where
  "follows env evs st \<longleftrightarrow>
     (\<forall>k i name a. map_of (as_calls st) k = Some (i, name, a) \<longleftrightarrow> open_in evs k i name a)
     \<and> (\<forall>i c. executable_in (as_out st) i c \<longleftrightarrow> closed_in env evs i c)"

lemma followsD:
  assumes "follows env evs st"
  shows "open_in evs k i name a \<longleftrightarrow> map_of (as_calls st) k = Some (i, name, a)"
    and "closed_in env evs i c \<longleftrightarrow> executable_in (as_out st) i c"
  using assms by (simp_all add: follows_def)

lemma follows_leaves:
  assumes "follows env evs st" "leaves_calls st st1" "opens_call e = None" "closes_index e = None" "\<And>k. arguments_piece k e = []"
  shows "follows env (evs @ [e]) st1"
  using assms by (simp add: follows_def leaves_calls_def open_in_snoc closed_in_snoc touches_index_def)

lemma follows_start: "follows env [] anthropic_start"
  by (simp add: follows_def anthropic_start_def open_in_def closed_in_def)

lemma follows_block_start:
  assumes "follows env evs st"
  shows "follows env (evs @ [(''content_block_start'', data)]) (content_block_start env data st)"
proof (cases "opens_call (''content_block_start'', data)")
  case None
  have "leaves_calls st (content_block_start env data st)"
    using None by (auto simp: opens_call_def content_block_start_def leaves_calls_def split: option.split)
  from follows_leaves [OF assms this None] show ?thesis by (simp add: closes_index_def arguments_piece_def)
next
  case (Some x)
  then obtain k i name where x: "opens_call (''content_block_start'', data) = Some (k, i, name)" by (cases x) auto
  then obtain b where b: "json_get ''content_block'' data = Some b" "json_str ''type'' b = Some ''tool_use''"
    "open_call data b = Some (k, i, name)"
    by (auto simp: opens_call_def bind_eq_Some_conv split: if_splits)
  have st: "content_block_start env data st = st\<lparr>as_calls := AList.update k (i, name, []) (as_calls st)\<rparr>"
    by (simp add: content_block_start_def b)
  have e: "closes_index (''content_block_start'', data) = None" "arguments_piece j (''content_block_start'', data) = []" for j
    by (simp_all add: closes_index_def arguments_piece_def)
  show ?thesis
    by (auto simp: st follows_def open_in_snoc closed_in_snoc touches_index_def e x update_conv' followsD [OF assms])
qed

lemma follows_block_delta:
  assumes "follows env evs st"
  shows "follows env (evs @ [(''content_block_delta'', data)]) (take_block_delta env data st)"
proof -
  let ?e = "(''content_block_delta'', data)"
  have e: "opens_call ?e = None" "closes_index ?e = None" by (simp_all add: opens_call_def closes_index_def)
  show ?thesis
  proof (cases "\<exists>k s. Option.bind (json_get ''delta'' data) read_block_delta = Some (InputJsonDelta s) \<and> block_index data = Some k")
    case False
    then have "arguments_piece k ?e = []" for k by (auto simp: arguments_piece_def split: option.split content_block_delta.split)
    moreover have "leaves_calls st (take_block_delta env data st)"
      using False by (auto simp: take_block_delta_def leaves_calls_def split: option.split content_block_delta.split)
    ultimately show ?thesis using assms e by (intro follows_leaves)
  next
    case True
    then obtain k s where ks: "Option.bind (json_get ''delta'' data) read_block_delta = Some (InputJsonDelta s)"
      "block_index data = Some k" by blast
    then have p: "arguments_piece j ?e = (if j = k then s else [])" for j by (simp add: arguments_piece_def)
    have st: "take_block_delta env data st = append_arguments k s st" using ks by (simp add: take_block_delta_def)
    show ?thesis
      unfolding st
      by (auto simp: follows_def open_in_snoc closed_in_snoc touches_index_def e p append_arguments_def update_conv' followsD [OF assms]
          split: option.split)
  qed
qed

lemma follows_block_stop:
  assumes "follows env evs st"
  shows "follows env (evs @ [(''content_block_stop'', data)]) (content_block_stop env data st)"
proof -
  let ?e = "(''content_block_stop'', data)"
  have e: "opens_call ?e = None" "arguments_piece k ?e = []" "closes_index ?e = block_index data" for k
    by (simp_all add: opens_call_def closes_index_def arguments_piece_def)
  show ?thesis
  proof (cases "block_index data")
    case None
    with assms e thinking_leaves [of st env] show ?thesis by (simp add: content_block_stop_def follows_leaves)
  next
    case (Some k)
    let ?st = "flush_thinking env st"
    have st: "as_calls ?st = as_calls st" "executable_in (as_out ?st) i c = executable_in (as_out st) i c" for i c
      using thinking_leaves [of st env] by (simp_all add: leaves_calls_def)
    have stop: "content_block_stop env data st = close_call env k ?st" using Some by (simp add: content_block_stop_def)
    show ?thesis
    proof (cases "map_of (as_calls st) k")
      case None
      then show ?thesis unfolding stop
        by (auto simp: close_call_def st follows_def open_in_snoc closed_in_snoc touches_index_def e Some followsD [OF assms])
    next
      case (Some x)
      obtain i name a where x: "x = (i, name, a)" by (cases x)
      show ?thesis unfolding stop
        by (auto simp: close_call_def st Some x follows_def open_in_snoc closed_in_snoc touches_index_def e \<open>block_index data = Some k\<close>
            request_is delete_conv' followsD [OF assms] split: if_splits)
    qed
  qed
qed

lemma follows_event:
  assumes "follows env evs st"
  shows "case take_event env ty data st of
      EventTaken st1 \<Rightarrow> \<not> ends_stream ty data \<and> follows env (evs @ [(ty, data)]) st1
    | EventsEnd st1 \<Rightarrow> ends_stream ty data \<and> follows env (evs @ [(ty, data)]) st1
    | EventsFailed st1 e \<Rightarrow> ends_stream ty data \<and> follows env (evs @ [(ty, data)]) st1"
proof -
  have other: "follows env (evs @ [(ty, data)]) st1"
    if "leaves_calls st st1" "ty \<notin> {''content_block_start'', ''content_block_delta'', ''content_block_stop''}" for st1
    using assms that by (intro follows_leaves) (simp_all add: opens_call_def closes_index_def arguments_piece_def)
  consider "ty = ''content_block_start''" | "ty = ''content_block_delta''" | "ty = ''content_block_stop''"
    | "ty \<notin> {''content_block_start'', ''content_block_delta'', ''content_block_stop''}" by blast
  then show ?thesis
  proof cases
    case 4
    have "snd (message_delta env data st) \<noteq> None
        \<longleftrightarrow> Option.bind (json_get ''delta'' data) (json_str ''stop_reason'') = Some ''refusal''"
      by (simp add: message_delta_def Let_def split: option.split)
    note refused = this and outer = 4
    obtain st1 err where d: "message_delta env data st = (st1, err)" by fastforce
    from delta_leaves [of st env data] d have l: "leaves_calls st st1" by simp
    consider "ty = ''message_start''" | "ty = ''message_delta''" | "ty = ''message_stop''"
      | "ty \<notin> {''message_start'', ''message_delta'', ''message_stop''}" by blast
    then show ?thesis
    proof cases
      case 1
      with other [OF start_leaves] show ?thesis by (simp add: take_event_def ends_stream_def)
    next
      case 2
      with other [OF l] refused d show ?thesis by (cases err) (simp_all add: take_event_def ends_stream_def)
    next
      case 3
      with other [OF usage_leaves(2)] show ?thesis by (simp add: take_event_def ends_stream_def)
    next
      case 4
      with other [OF leaves_refl] outer show ?thesis by (simp add: take_event_def ends_stream_def)
    qed
  qed (simp_all add: take_event_def ends_stream_def follows_block_start follows_block_delta follows_block_stop assms)
qed

lemma follows_loop: "follows env evs st \<Longrightarrow> follows env (evs @ events_read (ar_response env) ls) (fst (event_loop env ls st))"
proof (induction ls arbitrary: evs st)
  case (Cons l ls)
  show ?case
  proof (cases "read_event_line (ar_response env) l")
    case (StreamEvent ty data)
    with follows_event [OF Cons.prems, of ty data] Cons.IH [of "evs @ [(ty, data)]"] show ?thesis
      by (auto split: event_outcome.splits)
  qed (simp_all add: Cons)
qed simp

lemma unfinished_keeps:
  "executable_in (as_out (deliver_unfinished env calls st)) i c = executable_in (as_out st) i c"
  "as_stop_reason (deliver_unfinished env calls st) = as_stop_reason st"
  by (induction env calls st rule: deliver_unfinished.induct) (simp_all add: request_is)

lemma finish_keeps: "executable_in (as_out (finish_events env st)) i c = executable_in (as_out st) i c"
  by (auto simp: finish_events_def finish_usage_def finish_limit_def unfinished_keeps split: option.split)
    (auto simp: executable_in_def mark_output_limit_def message_new_def unfinished_keeps [unfolded executable_in_def])

definition delivered_items :: "(stream_error + decoded_item) list \<Rightarrow> decoded_item list" where
  "delivered_items rs = filter_map (\<lambda>r. case r of Inr x \<Rightarrow> Some x | Inl _ \<Rightarrow> None) rs"

lemma delivered_items_simps [simp]: "delivered_items (map Inr xs) = xs" "delivered_items (map Inr xs @ [Inl e]) = xs"
  by (induction xs) (simp_all add: delivered_items_def)

text \<open>
  A stream of Anthropic delivers an executable call exactly for the blocks that it
  opened and closed: with the identifier and the name of the opening and all pieces of the arguments sent for its index
  in between, in order, whatever other blocks are interleaved. A call whose block is still open at the end is never
  executable.
\<close>

lemma closed_calls_delivered:
  "executable_in (delivered_items (anthropic_stream env ls)) i c \<longleftrightarrow> closed_in env (events_read (ar_response env) ls) i c"
proof -
  obtain st r where l: "event_loop env ls anthropic_start = (st, r)" by (cases "event_loop env ls anthropic_start")
  with follows_loop [OF follows_start, of env ls] have "executable_in (as_out st) i c \<longleftrightarrow> closed_in env (events_read (ar_response env) ls) i c"
    by (simp add: follows_def)
  moreover have "executable_in (delivered_items (anthropic_stream env ls)) i c = executable_in (as_out st) i c"
    by (simp add: anthropic_stream_def l finish_keeps split: option.split)
  ultimately show ?thesis by simp
qed

subsection \<open>Answers cut off by the limit\<close>

definition stop_reason_in :: "string \<times> json \<Rightarrow> string option" where
  "stop_reason_in e =
     (if fst e = ''message_delta'' then Option.bind (json_get ''delta'' (snd e)) (json_str ''stop_reason'') else None)"

definition first_stop_reason :: "(string \<times> json) list \<Rightarrow> string option" where
  "first_stop_reason evs = first_opt (filter_map stop_reason_in evs)"

lemma first_stop_reason_simps [simp]:
  "first_stop_reason [] = None" "first_stop_reason (e # evs) = or_else (stop_reason_in e) (first_stop_reason evs)"
  by (simp_all add: first_stop_reason_def or_else_def split: option.split)

lemma or_else_simps [simp]: "or_else None x = x" "or_else (Some a) x = Some a" "or_else x None = x"
  by (simp_all add: or_else_def split: option.split)

lemma or_else_assoc: "or_else (or_else a b) c = or_else a (or_else b c)"
  by (simp add: or_else_def split: option.split)

text \<open>A step that keeps the stop reason and marks no message.\<close>

definition unmarked :: "anthropic_state \<Rightarrow> bool" where
  "unmarked st \<longleftrightarrow> filter cut_off (filter_map fst (as_out st)) = []"

definition plain_step :: "anthropic_state \<Rightarrow> anthropic_state \<Rightarrow> bool" where
  "plain_step st st1 \<longleftrightarrow> as_stop_reason st1 = as_stop_reason st \<and> (unmarked st1 \<longleftrightarrow> unmarked st)"

lemma plain_refl [simp]: "plain_step st st"
  by (simp add: plain_step_def)

lemma plain_trans: "plain_step st st1 \<Longrightarrow> plain_step st1 st2 \<Longrightarrow> plain_step st st2"
  by (simp add: plain_step_def)

lemma plain_message [simp]: "plain_step st (put_message env content st)"
  by (simp add: plain_step_def unmarked_def put_message_def cut_off_def message_new_def metadata_default_def)

lemma plain_put: "plain_step st0 st \<Longrightarrow> plain_step st0 (put_message env content st)" "plain_step st0 st \<Longrightarrow> plain_step st0 (put_item (None, u) st)"
  by (blast intro: plain_trans plain_message) (simp add: plain_step_def unmarked_def)

lemma plain_update:
  "plain_step st0 st \<Longrightarrow> plain_step st0 (st\<lparr>as_calls := x\<rparr>)" "plain_step st0 st \<Longrightarrow> plain_step st0 (st\<lparr>as_usage := y\<rparr>)"
  "plain_step st0 st \<Longrightarrow> plain_step st0 (st\<lparr>as_thinking := z\<rparr>)" "plain_step st0 st \<Longrightarrow> plain_step st0 (st\<lparr>as_message_id := w\<rparr>)"
  "plain_step st0 st \<Longrightarrow> plain_step st0 (st\<lparr>as_additional := v\<rparr>)"
  by (simp_all add: plain_step_def unmarked_def)

lemmas plain_intros = plain_put plain_update plain_refl

lemma plain_events:
  "plain_step st (message_start env data st)" "plain_step st (content_block_start env data st)"
  "plain_step st (take_block_delta env data st)" "plain_step st (flush_thinking env st)"
  "plain_step st (close_call env k st)" "plain_step st (delta_usage env data st)" "plain_step st (message_stop env data st)"
  "plain_step st (refuse st)"
  by (auto simp: message_start_def content_block_start_def take_block_delta_def append_arguments_def flush_thinking_def
      close_call_def delta_usage_def message_stop_def refuse_def Let_def intro!: plain_intros
      split: option.split content_block_delta.split prod.split)

lemma plain_stop: "plain_step st (content_block_stop env data st)"
  by (auto simp: content_block_stop_def intro: plain_events plain_trans split: option.split)

lemma delta_reason:
  "as_stop_reason (fst (message_delta env data st)) = or_else (as_stop_reason st) (stop_reason_in (''message_delta'', data))"
  "unmarked (fst (message_delta env data st)) = unmarked st"
proof -
  have u: "as_stop_reason (delta_usage env data st) = as_stop_reason st" "unmarked (delta_usage env data st) = unmarked st"
    using plain_events(6) [of st env data] by (simp_all add: plain_step_def)
  have s: "unmarked (see_stop_reason d x) = unmarked x" for d x by (simp add: see_stop_reason_def unmarked_def)
  have r: "as_stop_reason (refuse x) = as_stop_reason x" "unmarked (refuse x) = unmarked x" for x
    using plain_events(8) [of x] by (simp_all add: plain_step_def)
  have m: "unmarked (put_message env c x) = unmarked x" for c x using plain_message [of x env c] by (simp add: plain_step_def)
  show "as_stop_reason (fst (message_delta env data st)) = or_else (as_stop_reason st) (stop_reason_in (''message_delta'', data))"
    by (simp add: message_delta_def Let_def u r stop_reason_in_def see_stop_reason_def split: option.split)
  show "unmarked (fst (message_delta env data st)) = unmarked st"
    by (simp add: message_delta_def Let_def u s r m split: option.split)
qed

lemma event_reason:
  "case take_event env ty data st of
     EventTaken st1 \<Rightarrow> as_stop_reason st1 = or_else (as_stop_reason st) (stop_reason_in (ty, data)) \<and> (unmarked st1 \<longleftrightarrow> unmarked st)
   | EventsEnd st1 \<Rightarrow> as_stop_reason st1 = or_else (as_stop_reason st) (stop_reason_in (ty, data)) \<and> (unmarked st1 \<longleftrightarrow> unmarked st)
   | EventsFailed st1 e \<Rightarrow> unmarked st1 \<longleftrightarrow> unmarked st"
proof (cases "ty = ''message_delta''")
  case True
  then show ?thesis using delta_reason [of env data st] by (auto simp: take_event_def split: prod.split option.split)
next
  case False
  then have "stop_reason_in (ty, data) = None" by (simp add: stop_reason_in_def)
  with False plain_events plain_stop show ?thesis
    by (simp add: take_event_def plain_step_def stop_reason_in_def)
qed

lemma loop_reason:
  assumes "event_loop env ls st = (st1, r)"
  shows "unmarked st1 \<longleftrightarrow> unmarked st"
    and "r = None \<Longrightarrow> as_stop_reason st1 = or_else (as_stop_reason st) (first_stop_reason (events_read (ar_response env) ls))"
proof -
  have "(unmarked st1 \<longleftrightarrow> unmarked st)
      \<and> (r = None \<longrightarrow> as_stop_reason st1 = or_else (as_stop_reason st) (first_stop_reason (events_read (ar_response env) ls)))"
    using assms
  proof (induction ls arbitrary: st)
    case (Cons l ls)
    show ?case
    proof (cases "read_event_line (ar_response env) l")
      case (StreamEvent ty data)
      have f: "case take_event env ty data st of
          EventTaken st1 \<Rightarrow> \<not> ends_stream ty data | EventsEnd st1 \<Rightarrow> ends_stream ty data | EventsFailed st1 e \<Rightarrow> True"
        by (auto simp: take_event_def ends_stream_def message_delta_def Let_def split: option.split prod.splits if_splits)
      from StreamEvent f event_reason [where env = env and ty = ty and data = data and st = st] Cons.IH Cons.prems show ?thesis
        by (auto simp: or_else_assoc split: event_outcome.splits)
    qed (use Cons in auto)
  qed simp
  then show "unmarked st1 \<longleftrightarrow> unmarked st"
    "r = None \<Longrightarrow> as_stop_reason st1 = or_else (as_stop_reason st) (first_stop_reason (events_read (ar_response env) ls))"
    by blast+
qed

lemma unfinished_plain: "plain_step st (deliver_unfinished env calls st)"
proof (induction env calls st rule: deliver_unfinished.induct)
  case (2 env k i name args calls st)
  show ?case unfolding deliver_unfinished.simps by (rule plain_trans [OF _ 2]) (intro plain_intros)
qed simp

text \<open>
  A stream of Anthropic ends with one message marked as cut off, which holds nothing
  that could be executed or shown, exactly when the stream ends without an error and the first reason to stop it names
  is the limit of tokens; no other message is marked.
\<close>

lemma stream_limit_marked:
  "map m_content (filter cut_off (filter_map fst (delivered_items (anthropic_stream env ls)))) =
     (if list_all is_ok (anthropic_stream env ls)
         \<and> first_stop_reason (events_read (ar_response env) ls) = Some ''max_tokens'' then [[]] else [])"
proof -
  obtain st r where l: "event_loop env ls anthropic_start = (st, r)" by (cases "event_loop env ls anthropic_start")
  have s: "unmarked anthropic_start" "as_stop_reason anthropic_start = None" by (simp_all add: unmarked_def anthropic_start_def)
  show ?thesis
  proof (cases r)
    case (Some e)
    with l loop_reason(1) [OF l] s(1) show ?thesis by (simp add: anthropic_stream_def unmarked_def is_ok_def)
  next
    case None
    let ?u = "deliver_unfinished env (sort_key (\<lambda>x. sint (fst x)) (as_calls st)) st"
    have u: "as_stop_reason ?u = first_stop_reason (events_read (ar_response env) ls)" "unmarked ?u"
      using unfinished_plain [of st env "sort_key (\<lambda>x. sint (fst x)) (as_calls st)"] loop_reason [OF l] None s
      by (simp_all add: plain_step_def)
    have f: "filter_map fst (as_out (finish_usage x)) = filter_map fst (as_out x)" for x
      by (simp add: finish_usage_def split: option.split)
    have "map m_content (filter cut_off (filter_map fst (as_out (finish_events env st)))) =
        (if as_stop_reason ?u = Some ''max_tokens'' then [[]] else [])"
      using u(2) by (simp add: finish_events_def f finish_limit_def unmarked_def cut_off_def mark_output_limit_def message_new_def)
    moreover have "anthropic_stream env ls = map Inr (as_out (finish_events env st))" by (simp add: anthropic_stream_def l None)
    ultimately show ?thesis using u(1) by (simp add: list_all_iff is_ok_def)
  qed
qed

subsection \<open>Arguments that are no object\<close>

text \<open>Arguments that parse to something else than an object are not refused, as the other decoder does.\<close>

lemma other_arguments_accepted:
  "args \<noteq> [] \<Longrightarrow> parse_tool_arguments (re_from_str (ar_response env)) args = Some (JArray xs) \<Longrightarrow>
   finished_call env name args = plain_call name (ar_object env (JArray xs))
   \<and> \<not> is_ok (interpret_arguments (ar_response env) i name args)"
  by (simp add: finished_call_def interpret_arguments_def is_ok_def)

subsection \<open>Examples\<close>

definition sample_reader :: anthropic_reader where
  "sample_reader =
     \<lparr>ar_response = sample_response_env\<lparr>re_from_str := (\<lambda>s.
        if s = ''s'' then Some (JObject [(''type'', JString ''content_block_start''), (''index'', JNumber (PosInt 1)),
          (''content_block'', JObject [(''type'', JString ''tool_use''), (''id'', JString ''i''), (''name'', JString ''f'')])])
        else if s = ''d'' then Some (JObject [(''type'', JString ''content_block_delta''), (''index'', JNumber (PosInt 1)),
          (''delta'', JObject [(''type'', JString ''input_json_delta''), (''partial_json'', JString ''{}'')])])
        else if s = ''e'' then Some (JObject [(''type'', JString ''content_block_stop''), (''index'', JNumber (PosInt 1))])
        else if s = ''m'' then Some (JObject [(''type'', JString ''message_delta''),
          (''delta'', JObject [(''stop_reason'', JString ''max_tokens'')])])
        else if s = ''{}'' then Some (JObject []) else None)\<rparr>,
      ar_text = \<lparr>te_nfc = (\<lambda>s. s), te_b64_decode = (\<lambda>s. None), te_b64_encode = (\<lambda>s. s)\<rparr>,
      ar_object = (\<lambda>v. case v of JObject kvs \<Rightarrow> kvs | _ \<Rightarrow> [])\<rparr>"

text \<open>A call that is closed is delivered, and one that the limit cut off is not executable; the message
  that says so comes last.\<close>

lemma sample_anthropic_streams:
  "map (map_sum id (map_option m_content \<circ> fst)) (anthropic_stream sample_reader [Inr ''data: s'', Inr ''data:d'', Inr ''data: e'']) =
     [Inr (Some [tool_request_with_provider_index ''i'' (plain_call ''f'' []) None 1])]"
  "map (map_sum id (map_option (\<lambda>m. (list_ex (\<lambda>b. case b of ToolRequest r \<Rightarrow> is_ok (tr_tool_call r) | _ \<Rightarrow> False) (m_content m), cut_off m))
      \<circ> fst)) (anthropic_stream sample_reader [Inr ''data: s'', Inr ''data: d'', Inr ''data: m'']) =
     [Inr (Some (False, False)), Inr (Some (False, True))]"
  by code_simp+

end
